(* ===== verification/Prelude.thy ===== *)
theory Prelude imports Main "HOL-Library.Word" "HOL-Library.Monad_Syntax" begin

text \<open>
  Shared vocabulary of the development: the fixed-width integer types of the C code
  (\<open>HAL/inc/os_cpu.h\<close>), the boolean type of \<open>custom_types.h\<close>, the named collections of
  facts that the component theories fill, and generic lemmas on words, lists and options.
\<close>

unbundle bit_operations_syntax

section \<open>Machine types\<close>

type_synonym INT8U = "8 word"
type_synonym INT16U = "16 word"
type_synonym INT32U = "32 word"
type_synonym BOOL = "8 word"

definition TRUE :: BOOL where "TRUE = 0xFF"
definition FALSE :: BOOL where "FALSE = 0"

section \<open>Collections of facts\<close>

named_theorems const_defs \<open>values of the preprocessor constants\<close>
named_theorems kernel_simps \<open>rewrite rules for kernel state accesses\<close>
named_theorems frame_simps \<open>what an operation leaves unchanged\<close>

lemma TRUE_neq_FALSE [simp]: "TRUE \<noteq> FALSE" "FALSE \<noteq> TRUE"
  by (simp_all add: TRUE_def FALSE_def)

lemma if_TRUE_FALSE [simp]:
  "((if b then TRUE else FALSE) = TRUE) = b"
  "((if b then TRUE else FALSE) = FALSE) = (\<not> b)"
  "((if b then FALSE else TRUE) = TRUE) = (\<not> b)"
  "((if b then FALSE else TRUE) = FALSE) = b"
  by (auto simp: TRUE_neq_FALSE)

section \<open>Words read as naturals\<close>

lemma unat_sub_word: "b \<le> a \<Longrightarrow> unat (a - b) = unat a - unat b"
  by (simp add: unat_sub_if_size word_le_nat_alt)

lemma unat_mult_small:
  fixes a b :: "'a::len word"
  assumes "unat a * unat b < 2 ^ LENGTH('a)"
  shows "unat (a * b) = unat a * unat b"
  using assms by (simp add: unat_word_ariths)

lemma unat_add_small:
  fixes a b :: "'a::len word"
  assumes "unat a + unat b < 2 ^ LENGTH('a)"
  shows "unat (a + b) = unat a + unat b"
  using assms by (simp add: unat_word_ariths)

lemma unat_lt_8 [simp]: "unat (x :: 8 word) < 256"
  using unsigned_less [of x, where ?'a = nat] by simp

lemma unat_lt_16 [simp]: "unat (x :: 16 word) < 65536"
  using unsigned_less [of x, where ?'a = nat] by simp

lemma unat_lt_32 [simp]: "unat (x :: 32 word) < 4294967296"
  using unsigned_less [of x, where ?'a = nat] by simp

lemma unat_ucast_mod: "unat (ucast (x :: 'a::len word) :: 'b::len word) = unat x mod 2 ^ LENGTH('b)"
  by (simp add: unsigned_ucast_eq take_bit_eq_mod)

lemma unat_ucast_16_32 [simp]: "unat (ucast (x :: 16 word) :: 32 word) = unat x"
  by (simp add: unat_ucast_mod less_trans [OF unat_lt_16])

lemma unat_ucast_8_16 [simp]: "unat (ucast (x :: 8 word) :: 16 word) = unat x"
  by (simp add: unat_ucast_mod less_trans [OF unat_lt_8])

lemma unat_ucast_8_32 [simp]: "unat (ucast (x :: 8 word) :: 32 word) = unat x"
  by (simp add: unat_ucast_mod less_trans [OF unat_lt_8])

lemma unat_ucast_32_16: "unat (ucast (x :: 32 word) :: 16 word) = unat x mod 65536"
  by (simp add: unat_ucast_mod)

lemma ucast_ucast_16_32_16 [simp]: "ucast (ucast (x :: 16 word) :: 32 word) = x"
  by (rule bit_word_eqI) (simp add: bit_ucast_iff)

text \<open>The word order is the order of the naturals the words denote.\<close>

lemma word_le_unat: "(a :: 'a::len word) \<le> b \<longleftrightarrow> unat a \<le> unat b"
  by (rule word_le_nat_alt)

lemma word_less_unat: "(a :: 'a::len word) < b \<longleftrightarrow> unat a < unat b"
  by (rule word_less_nat_alt)

lemmas unat_order = word_le_unat word_less_unat

lemma word_unat_eqI: "unat (a :: 'a::len word) = unat b \<Longrightarrow> a = b"
  by (simp add: word_unat_eq_iff)

lemma word_neq_unat: "(a :: 'a::len word) \<noteq> b \<longleftrightarrow> unat a \<noteq> unat b"
  by (simp add: word_unat_eq_iff)

section \<open>Array reads\<close>

text \<open>Reading a C array: outside its bounds the read has no defined value.\<close>

definition array_get :: "'a list \<Rightarrow> nat \<Rightarrow> 'a option" where
  "array_get xs i = (if i < length xs then Some (xs ! i) else None)"

lemma array_get_Some [simp]: "i < length xs \<Longrightarrow> array_get xs i = Some (xs ! i)"
  by (simp add: array_get_def)

lemma array_get_None [simp]: "length xs \<le> i \<Longrightarrow> array_get xs i = None"
  by (simp add: array_get_def)

end
