(* ===== verification/Config.thy ===== *)
theory Config imports Prelude begin

text \<open>
  The preprocessor constants the modelled code uses, one definition per \<open>#define\<close>, under the
  name and with the value of the source. An integer constant of C takes the width of the
  expression around it, so the constants are polymorphic numerals; a device address is a
  32-bit word.
\<close>

section \<open>Project configuration: \<open>proj_config.h\<close>\<close>

definition MOTOR_PWM_PERIOD_TICKS :: "'a::numeral" where [simp, const_defs]: "MOTOR_PWM_PERIOD_TICKS = 2500"
definition MOTOR_PWM_DUTY_CYCLE_FULLY_OPEN :: "'a::numeral" where [simp, const_defs]: "MOTOR_PWM_DUTY_CYCLE_FULLY_OPEN = 300"
definition MOTOR_PWM_DUTY_CYCLE_FULLY_CLOSE :: "'a::numeral" where [simp, const_defs]: "MOTOR_PWM_DUTY_CYCLE_FULLY_CLOSE = 580"
definition MOTOR_PWM_DUTY_CYCLE_RESOLUTION :: "'a::numeral" where [simp, const_defs]: "MOTOR_PWM_DUTY_CYCLE_RESOLUTION = 10"
definition MOTOR_PWM_DUTY_CYCLE_RESOLUTION_HIGH :: "'a::numeral" where [simp, const_defs]: "MOTOR_PWM_DUTY_CYCLE_RESOLUTION_HIGH = 2"
definition RPM_MATCHING_DELAY_COUNT :: "'a::numeral" where [simp, const_defs]: "RPM_MATCHING_DELAY_COUNT = 15"
definition TPS_OUT_PWM_PERIOD_TICKS :: "'a::numeral" where [simp, const_defs]: "TPS_OUT_PWM_PERIOD_TICKS = 3125"
definition APPS_VALID_VALUE_FULLY_RELEASED :: "'a::numeral" where [simp, const_defs]: "APPS_VALID_VALUE_FULLY_RELEASED = 660"
definition APPS_VALID_VALUE_FULLY_PRESSED :: "'a::numeral" where [simp, const_defs]: "APPS_VALID_VALUE_FULLY_PRESSED = 3100"
definition TPS_VALID_VALUE_FULLY_OPENED :: "'a::numeral" where [simp, const_defs]: "TPS_VALID_VALUE_FULLY_OPENED = 3600"
definition TPS_VALID_VALUE_FULLY_CLOSED :: "'a::numeral" where [simp, const_defs]: "TPS_VALID_VALUE_FULLY_CLOSED = 850"
definition APPS_VALUE_CHANGE_THRESHOLD :: "'a::numeral" where [simp, const_defs]: "APPS_VALUE_CHANGE_THRESHOLD = 50"
definition APPS_VALUE_DIFFERENCE_PERCENT :: "'a::numeral" where [simp, const_defs]: "APPS_VALUE_DIFFERENCE_PERCENT = 250"
definition TPS_VALUE_TOLERANCE :: "'a::numeral" where [simp, const_defs]: "TPS_VALUE_TOLERANCE = 100"
definition TPS_VALUE_DIFFERENCE :: "'a::numeral" where [simp, const_defs]: "TPS_VALUE_DIFFERENCE = 5500"
definition RPM_VALUE_TOLERANCE :: "'a::numeral" where [simp, const_defs]: "RPM_VALUE_TOLERANCE = 200"
definition WSS_VALUE_DIFFERENCE_PERCENT :: "'a::numeral" where [simp, const_defs]: "WSS_VALUE_DIFFERENCE_PERCENT = 50"
definition SLIP_CONTROL_THROTTLE_POS :: "'a::numeral" where [simp, const_defs]: "SLIP_CONTROL_THROTTLE_POS = TPS_VALID_VALUE_FULLY_CLOSED"
definition PERCENT_DIFF_ACCURACY :: "'a::numeral" where [simp, const_defs]: "PERCENT_DIFF_ACCURACY = 1000000"
definition SENSOR_VAL_COMP_DELAY_TICKS :: "'a::numeral" where [simp, const_defs]: "SENSOR_VAL_COMP_DELAY_TICKS = 100"
definition SOLENOID_OPEN_DURATION_TICKS :: "'a::numeral" where [simp, const_defs]: "SOLENOID_OPEN_DURATION_TICKS = 200"
definition MOTOR_DRIVE_DELAY_TICKS :: "'a::numeral" where [simp, const_defs]: "MOTOR_DRIVE_DELAY_TICKS = 2000"
definition MOTOR_RPM_DRIVE_DELAY_TICKS :: "'a::numeral" where [simp, const_defs]: "MOTOR_RPM_DRIVE_DELAY_TICKS = 5000"
definition Q_TIMEOUT_WAIT_FOREVER :: "'a::zero" where [simp, const_defs]: "Q_TIMEOUT_WAIT_FOREVER = 0"
definition MIN_THROTTLE_DEG :: "'a::zero" where [simp, const_defs]: "MIN_THROTTLE_DEG = 0"
definition MAX_THROTTLE_DEG :: "'a::numeral" where [simp, const_defs]: "MAX_THROTTLE_DEG = 90"
definition SEM_FLAG_NO_ERROR :: "'a::zero" where [simp, const_defs]: "SEM_FLAG_NO_ERROR = 0"
definition SEM_FLAG_ERROR_UNRESOLVED :: "'a::zero" where [simp, const_defs]: "SEM_FLAG_ERROR_UNRESOLVED = 0"
definition NO_ERROR_INDICATION_LED :: "'a::zero" where [simp, const_defs]: "NO_ERROR_INDICATION_LED = 0"
definition MOTOR_FAILURE_INDICATION_LED :: "'a::one" where [simp, const_defs]: "MOTOR_FAILURE_INDICATION_LED = 1"
definition TPS_FAILURE_INDICATION_LED :: "'a::numeral" where [simp, const_defs]: "TPS_FAILURE_INDICATION_LED = 2"
definition APPS_FAILURE_INDICATION_LED :: "'a::numeral" where [simp, const_defs]: "APPS_FAILURE_INDICATION_LED = 4"
definition UNKNOWN_FAILURE_INDICATION_LED :: "'a::numeral" where [simp, const_defs]: "UNKNOWN_FAILURE_INDICATION_LED = 15"
definition WSS_ACTIVE_LED :: "'a::numeral" where [simp, const_defs]: "WSS_ACTIVE_LED = 128"
definition ERR_UNKNOWN :: "'a::zero" where [simp, const_defs]: "ERR_UNKNOWN = 0"
definition ERR_EXPECTED_THROTTLE_POS_MISMATCH :: "'a::one" where [simp, const_defs]: "ERR_EXPECTED_THROTTLE_POS_MISMATCH = 1"
definition ERR_APPS_READING_MISMATCH :: "'a::numeral" where [simp, const_defs]: "ERR_APPS_READING_MISMATCH = 2"
definition ERR_TPS_READING_MISMATCH :: "'a::numeral" where [simp, const_defs]: "ERR_TPS_READING_MISMATCH = 3"
definition FAILURE_HANDLER_Q_SIZE_ELEMENTS :: "'a::numeral" where [simp, const_defs]: "FAILURE_HANDLER_Q_SIZE_ELEMENTS = 256"
definition SWITCH_ON :: "'a::one" where [simp, const_defs]: "SWITCH_ON = 1"
definition SWITCH_OFF :: "'a::zero" where [simp, const_defs]: "SWITCH_OFF = 0"
definition SWITCH_CLEAR_FAILURE_MASK :: "'a::one" where [simp, const_defs]: "SWITCH_CLEAR_FAILURE_MASK = 1"
definition SWITCH_ENABLE_SHIFT_MATCHING_MASK :: "'a::numeral" where [simp, const_defs]: "SWITCH_ENABLE_SHIFT_MATCHING_MASK = 2"
definition SWITCH_ENABLE_SLIP_CONTROL_MASK :: "'a::numeral" where [simp, const_defs]: "SWITCH_ENABLE_SLIP_CONTROL_MASK = 4"
definition SWITCH_ENABLE_SLIP_CONTROL_DEMO_MASK :: "'a::numeral" where [simp, const_defs]: "SWITCH_ENABLE_SLIP_CONTROL_DEMO_MASK = 8"
definition SWITCH_ENABLE_SHIFT_MATCHING :: "'a::numeral" where [simp, const_defs]: "SWITCH_ENABLE_SHIFT_MATCHING = 2"
definition SWITCH_ENABLE_SLIP_CONTROL :: "'a::numeral" where [simp, const_defs]: "SWITCH_ENABLE_SLIP_CONTROL = 4"
definition SWITCH_ENABLE_SLIP_CONTROL_DEMO :: "'a::numeral" where [simp, const_defs]: "SWITCH_ENABLE_SLIP_CONTROL_DEMO = 8"
definition LED_FLASH_PERIOD_MS :: "'a::numeral" where [simp, const_defs]: "LED_FLASH_PERIOD_MS = 500"

section \<open>Engine and transmission: \<open>eng_trans_data.h\<close>\<close>

definition ENGINE_SOUND_PERIOD_TICKS :: "'a::numeral" where [simp, const_defs]: "ENGINE_SOUND_PERIOD_TICKS = 150000"
definition MAX_RPM :: "'a::numeral" where [simp, const_defs]: "MAX_RPM = 10500"
definition MIN_RPM :: "'a::numeral" where [simp, const_defs]: "MIN_RPM = 3500"
definition MAX_RPM_DUTY_COUNT :: "'a::numeral" where [simp, const_defs]: "MAX_RPM_DUTY_COUNT = 56000"
definition MIN_RPM_DUTY_COUNT :: "'a::numeral" where [simp, const_defs]: "MIN_RPM_DUTY_COUNT = 8800"
definition SHIFT_UP_LOWER_BOUND_RPM :: "'a::numeral" where [simp, const_defs]: "SHIFT_UP_LOWER_BOUND_RPM = 4500"
definition SHIFT_DOWN_UPPER_BOUND_RPM :: "'a::numeral" where [simp, const_defs]: "SHIFT_DOWN_UPPER_BOUND_RPM = 9000"
definition NUM_GEARS :: "'a::numeral" where [simp, const_defs]: "NUM_GEARS = 4"
definition GEAR_RATIO_1ST :: "'a::numeral" where [simp, const_defs]: "GEAR_RATIO_1ST = 18"
definition GEAR_RATIO_2ND :: "'a::numeral" where [simp, const_defs]: "GEAR_RATIO_2ND = 13"
definition GEAR_RATIO_3RD :: "'a::numeral" where [simp, const_defs]: "GEAR_RATIO_3RD = 10"
definition GEAR_RATIO_4TH :: "'a::numeral" where [simp, const_defs]: "GEAR_RATIO_4TH = 8"

section \<open>Solenoid task: \<open>solenoid_task.h\<close>\<close>

definition SOLENOID_TASK_PRIORITY :: "'a::numeral" where [simp, const_defs]: "SOLENOID_TASK_PRIORITY = 2"
definition SOLENOID_TASK_DELAY_HOURS :: "'a::zero" where [simp, const_defs]: "SOLENOID_TASK_DELAY_HOURS = 0"
definition SOLENOID_TASK_DELAY_MINUTES :: "'a::zero" where [simp, const_defs]: "SOLENOID_TASK_DELAY_MINUTES = 0"
definition SOLENOID_TASK_DELAY_SECONDS :: "'a::numeral" where [simp, const_defs]: "SOLENOID_TASK_DELAY_SECONDS = 2"
definition SOLENOID_TASK_DELAY_MILLISEC :: "'a::zero" where [simp, const_defs]: "SOLENOID_TASK_DELAY_MILLISEC = 0"
definition SOLENOID_Q_SIZE_ELEMENTS :: "'a::numeral" where [simp, const_defs]: "SOLENOID_Q_SIZE_ELEMENTS = 256"
definition BUTTON_INPUT_SHIFT_UP :: "'a::numeral" where [simp, const_defs]: "BUTTON_INPUT_SHIFT_UP = 4"
definition BUTTON_INPUT_SHIFT_DOWN :: "'a::numeral" where [simp, const_defs]: "BUTTON_INPUT_SHIFT_DOWN = 8"
definition CLEAR_BUTTON_EDGE_REG :: "'a::zero" where [simp, const_defs]: "CLEAR_BUTTON_EDGE_REG = 0"
definition CLEAR_BUTTON_DATA :: "'a::zero" where [simp, const_defs]: "CLEAR_BUTTON_DATA = 0"

section \<open>Failure handler task: \<open>failure_handler_task.h\<close>\<close>

definition FAILURE_HANDLER_TASK_PRIORITY :: "'a::one" where [simp, const_defs]: "FAILURE_HANDLER_TASK_PRIORITY = 1"
definition FAILURE_HANDLER_TASK_DELAY_HOURS :: "'a::zero" where [simp, const_defs]: "FAILURE_HANDLER_TASK_DELAY_HOURS = 0"
definition FAILURE_HANDLER_TASK_DELAY_MINUTES :: "'a::zero" where [simp, const_defs]: "FAILURE_HANDLER_TASK_DELAY_MINUTES = 0"
definition FAILURE_HANDLER_TASK_DELAY_SECONDS :: "'a::zero" where [simp, const_defs]: "FAILURE_HANDLER_TASK_DELAY_SECONDS = 0"
definition FAILURE_HANDLER_TASK_DELAY_MILLISEC :: "'a::numeral" where [simp, const_defs]: "FAILURE_HANDLER_TASK_DELAY_MILLISEC = 100"

section \<open>Throttle control task: \<open>throttle_control_task.h\<close>\<close>

definition THROTTLE_CONTROL_TASK_PRIORITY :: "'a::numeral" where [simp, const_defs]: "THROTTLE_CONTROL_TASK_PRIORITY = 3"
definition APPS_1_ADC_CHANNEL :: "'a::zero" where [simp, const_defs]: "APPS_1_ADC_CHANNEL = 0"
definition APPS_2_ADC_CHANNEL :: "'a::one" where [simp, const_defs]: "APPS_2_ADC_CHANNEL = 1"
definition TPS_1_ADC_CHANNEL :: "'a::numeral" where [simp, const_defs]: "TPS_1_ADC_CHANNEL = 2"
definition TPS_2_ADC_CHANNEL :: "'a::numeral" where [simp, const_defs]: "TPS_2_ADC_CHANNEL = 3"
definition WS_1_ADC_CHANNEL :: "'a::numeral" where [simp, const_defs]: "WS_1_ADC_CHANNEL = 4"
definition WS_2_ADC_CHANNEL :: "'a::numeral" where [simp, const_defs]: "WS_2_ADC_CHANNEL = 5"
definition THROTTLE_CONTROL_TASK_DELAY_HOURS :: "'a::zero" where [simp, const_defs]: "THROTTLE_CONTROL_TASK_DELAY_HOURS = 0"
definition THROTTLE_CONTROL_TASK_DELAY_MINUTES :: "'a::zero" where [simp, const_defs]: "THROTTLE_CONTROL_TASK_DELAY_MINUTES = 0"
definition THROTTLE_CONTROL_TASK_DELAY_SECONDS :: "'a::zero" where [simp, const_defs]: "THROTTLE_CONTROL_TASK_DELAY_SECONDS = 0"
definition THROTTLE_CONTROL_TASK_DELAY_MILLISEC :: "'a::numeral" where [simp, const_defs]: "THROTTLE_CONTROL_TASK_DELAY_MILLISEC = 5"
definition MOTOR_CMD_Q_SIZE_ELEMENTS :: "'a::numeral" where [simp, const_defs]: "MOTOR_CMD_Q_SIZE_ELEMENTS = 64"
definition SHIFT_MATCHING_IN_PROGRESS :: "'a::zero" where [simp, const_defs]: "SHIFT_MATCHING_IN_PROGRESS = 0"
definition SHIFT_MATCHING_RESULT_OK :: "'a::one" where [simp, const_defs]: "SHIFT_MATCHING_RESULT_OK = 1"
definition SHIFT_MATCHING_RESULT_FAIL :: "'a::numeral" where [simp, const_defs]: "SHIFT_MATCHING_RESULT_FAIL = 2"

section \<open>Memory manager: \<open>mem_manager.h\<close>\<close>

definition MAX_ALLOCATION_COUNT :: "'a::numeral" where [simp, const_defs]: "MAX_ALLOCATION_COUNT = 32"
definition MAX_ALLOCATOR_TAG_SIZE :: "'a::numeral" where [simp, const_defs]: "MAX_ALLOCATOR_TAG_SIZE = 128"
definition MAX_CONCURRENT_ACCESS :: "'a::one" where [simp, const_defs]: "MAX_CONCURRENT_ACCESS = 1"
definition LOCK_TIMEOUT :: "'a::zero" where [simp, const_defs]: "LOCK_TIMEOUT = 0"

section \<open>Device addresses: \<open>system.h\<close>\<close>

definition BUTTONS_BASE :: INT32U where [const_defs]: "BUTTONS_BASE = 0x4009090"
definition CURR_GEAR_OUT_BASE :: INT32U where [const_defs]: "CURR_GEAR_OUT_BASE = 0x4009080"
definition DE0_NANO_ADC_0_BASE :: INT32U where [const_defs]: "DE0_NANO_ADC_0_BASE = 0x4009040"
definition GREEN_LEDS_BASE :: INT32U where [const_defs]: "GREEN_LEDS_BASE = 0x40090b0"
definition RPM_PWM_DECODER_BASE :: INT32U where [const_defs]: "RPM_PWM_DECODER_BASE = 0x40090e8"
definition SOLENOID_OUT_BASE :: INT32U where [const_defs]: "SOLENOID_OUT_BASE = 0x4009000"
definition SWITCH_BASE :: INT32U where [const_defs]: "SWITCH_BASE = 0x40090a0"
definition PWM_GENERATOR_ENGINE_SOUND_OUT_AVALON_SLAVE_PERIOD_BASE :: INT32U where [const_defs]: "PWM_GENERATOR_ENGINE_SOUND_OUT_AVALON_SLAVE_PERIOD_BASE = 0x40090f0"
definition PWM_GENERATOR_ENGINE_SOUND_OUT_AVALON_SLAVE_DUTY_BASE :: INT32U where [const_defs]: "PWM_GENERATOR_ENGINE_SOUND_OUT_AVALON_SLAVE_DUTY_BASE = 0x40090ec"
definition PWM_GENERATOR_ENGINE_SOUND_OUT_AVALON_SLAVE_CONTROL_BASE :: INT32U where [const_defs]: "PWM_GENERATOR_ENGINE_SOUND_OUT_AVALON_SLAVE_CONTROL_BASE = 0x4009120"
definition PWM_GENERATOR_THROTTLE_OPEN_AVALON_SLAVE_PERIOD_BASE :: INT32U where [const_defs]: "PWM_GENERATOR_THROTTLE_OPEN_AVALON_SLAVE_PERIOD_BASE = 0x400911c"
definition PWM_GENERATOR_THROTTLE_OPEN_AVALON_SLAVE_DUTY_BASE :: INT32U where [const_defs]: "PWM_GENERATOR_THROTTLE_OPEN_AVALON_SLAVE_DUTY_BASE = 0x4009118"
definition PWM_GENERATOR_THROTTLE_OPEN_AVALON_SLAVE_CONTROL_BASE :: INT32U where [const_defs]: "PWM_GENERATOR_THROTTLE_OPEN_AVALON_SLAVE_CONTROL_BASE = 0x4009124"
definition PWM_GENERATOR_THROTTLE_CLOSE_AVALON_SLAVE_PERIOD_BASE :: INT32U where [const_defs]: "PWM_GENERATOR_THROTTLE_CLOSE_AVALON_SLAVE_PERIOD_BASE = 0x400910c"
definition PWM_GENERATOR_THROTTLE_CLOSE_AVALON_SLAVE_DUTY_BASE :: INT32U where [const_defs]: "PWM_GENERATOR_THROTTLE_CLOSE_AVALON_SLAVE_DUTY_BASE = 0x4009108"
definition PWM_GENERATOR_THROTTLE_CLOSE_AVALON_SLAVE_CONTROL_BASE :: INT32U where [const_defs]: "PWM_GENERATOR_THROTTLE_CLOSE_AVALON_SLAVE_CONTROL_BASE = 0x4009122"
definition PWM_GENERATOR_TPS_OUT_AVALON_SLAVE_PERIOD_BASE :: INT32U where [const_defs]: "PWM_GENERATOR_TPS_OUT_AVALON_SLAVE_PERIOD_BASE = 0x4009114"
definition PWM_GENERATOR_TPS_OUT_AVALON_SLAVE_DUTY_BASE :: INT32U where [const_defs]: "PWM_GENERATOR_TPS_OUT_AVALON_SLAVE_DUTY_BASE = 0x4009110"
definition PWM_GENERATOR_TPS_OUT_AVALON_SLAVE_CONTROL_BASE :: INT32U where [const_defs]: "PWM_GENERATOR_TPS_OUT_AVALON_SLAVE_CONTROL_BASE = 0x4009123"
definition PWM_GENERATOR_TEST_AVALON_SLAVE_PERIOD_BASE :: INT32U where [const_defs]: "PWM_GENERATOR_TEST_AVALON_SLAVE_PERIOD_BASE = 0x4009104"
definition PWM_GENERATOR_TEST_AVALON_SLAVE_DUTY_BASE :: INT32U where [const_defs]: "PWM_GENERATOR_TEST_AVALON_SLAVE_DUTY_BASE = 0x4009100"
definition PWM_GENERATOR_TEST_AVALON_SLAVE_CONTROL_BASE :: INT32U where [const_defs]: "PWM_GENERATOR_TEST_AVALON_SLAVE_CONTROL_BASE = 0x4009121"

end
