(* ===== verification/Alarm.thy ===== *)
theory Alarm imports Config begin

text \<open>
  The alarms of the HAL: \<open>alt_llist.h\<close>, \<open>alt_alarm_start.c\<close>, \<open>alt_tick.c\<close>, and \<open>clean_alarm\<close> of
  \<open>util.c\<close>. The alarms form a doubly linked list through a store of heap blocks; \<open>Head\<close> is the
  list head \<open>alt_alarm_list\<close>. The store keeps the contents of a block after \<open>free\<close>, as the machine
  does; which blocks are allocated is \<open>heap_live\<close>, and \<open>heap_faults\<close> records each use of a block
  that is not allocated and each second \<open>free\<close> of a block. The allocator is a parameter of the
  theories that call \<open>malloc\<close>. The state is an extensible record, so that a callback can change
  the rest of the program's state.
\<close>

section \<open>State\<close>

text \<open>The callback functions of the program.\<close>

datatype callback = Watchdog_Throttle_Position | Watchdog_Rpm_Matching | Apps_Value_Comp
  | Tps_Value_Comp | Solenoid_Callback

datatype node = Head | Al nat

record alt_alarm =
  ll_next :: node
  ll_previous :: node
  al_time :: INT32U
  al_callback :: callback
  al_rollover :: INT8U
  al_context :: nat

datatype heap_fault = Use_After_Free nat | Double_Free nat

record alarm_state =
  blocks :: "nat \<Rightarrow> alt_alarm"
  head_next :: node
  head_previous :: node
  nticks :: INT32U
  tick_rate :: INT32U
  heap_live :: "nat set"
  heap_faults :: "heap_fault list"

text \<open>A pointer to an alarm: \<open>None\<close> is null.\<close>

type_synonym alarm_ptr = "nat option"

definition EINVAL :: int where "EINVAL = 22"
definition ENOTSUP :: int where "ENOTSUP = 134"

section \<open>Memory\<close>

definition set_block :: "nat \<Rightarrow> (alt_alarm \<Rightarrow> alt_alarm) \<Rightarrow> 'a alarm_state_scheme \<Rightarrow> 'a alarm_state_scheme" where
  "set_block a f s = s\<lparr> blocks := (blocks s)(a := f (blocks s a)) \<rparr>"

definition touch :: "nat \<Rightarrow> 'a alarm_state_scheme \<Rightarrow> 'a alarm_state_scheme" where
  "touch a s = (if a \<in> heap_live s then s else s\<lparr> heap_faults := Use_After_Free a # heap_faults s \<rparr>)"

definition free :: "nat \<Rightarrow> 'a alarm_state_scheme \<Rightarrow> 'a alarm_state_scheme" where
  "free a s =
     (if a \<in> heap_live s then s\<lparr> heap_live := heap_live s - {a} \<rparr>
      else s\<lparr> heap_faults := Double_Free a # heap_faults s \<rparr>)"

section \<open>The linked list\<close>

fun get_next :: "node \<Rightarrow> 'a alarm_state_scheme \<Rightarrow> node" where
  "get_next Head s = head_next s"
| "get_next (Al a) s = ll_next (blocks s a)"

fun get_previous :: "node \<Rightarrow> 'a alarm_state_scheme \<Rightarrow> node" where
  "get_previous Head s = head_previous s"
| "get_previous (Al a) s = ll_previous (blocks s a)"

fun set_next :: "node \<Rightarrow> node \<Rightarrow> 'a alarm_state_scheme \<Rightarrow> 'a alarm_state_scheme" where
  "set_next Head n s = s\<lparr> head_next := n \<rparr>"
| "set_next (Al a) n s = set_block a (\<lambda>b. b\<lparr> ll_next := n \<rparr>) s"

fun set_previous :: "node \<Rightarrow> node \<Rightarrow> 'a alarm_state_scheme \<Rightarrow> 'a alarm_state_scheme" where
  "set_previous Head n s = s\<lparr> head_previous := n \<rparr>"
| "set_previous (Al a) n s = set_block a (\<lambda>b. b\<lparr> ll_previous := n \<rparr>) s"

definition alt_llist_insert :: "node \<Rightarrow> node \<Rightarrow> 'a alarm_state_scheme \<Rightarrow> 'a alarm_state_scheme" where
  "alt_llist_insert list entry s =
     (let s = set_previous entry list s;
          s = set_next entry (get_next list s) s;
          s = set_previous (get_next list s) entry s in
      set_next list entry s)"

definition alt_llist_remove :: "node \<Rightarrow> 'a alarm_state_scheme \<Rightarrow> 'a alarm_state_scheme" where
  "alt_llist_remove entry s =
     (let s = set_previous (get_next entry s) (get_previous entry s) s;
          s = set_next (get_previous entry s) (get_next entry s) s;
          s = set_previous entry entry s in
      set_next entry entry s)"

section \<open>Starting and stopping an alarm\<close>

definition alt_alarm_start ::
  "alarm_ptr \<Rightarrow> INT32U \<Rightarrow> callback \<Rightarrow> nat \<Rightarrow> 'a alarm_state_scheme \<Rightarrow> int \<times> 'a alarm_state_scheme" where
  "alt_alarm_start alarm nt callback context s =
     (if tick_rate s \<noteq> 0 then
        case alarm of
          Some a \<Rightarrow>
            let s = touch a s;
                s = set_block a (\<lambda>b. b\<lparr> al_callback := callback, al_context := context \<rparr>) s;
                current_nticks = nticks s;
                s = set_block a (\<lambda>b. b\<lparr> al_time := nt + current_nticks + 1 \<rparr>) s;
                s = set_block a (\<lambda>b. b\<lparr> al_rollover := (if al_time b < current_nticks then 1 else 0) \<rparr>) s in
            (0, alt_llist_insert Head (Al a) s)
        | None \<Rightarrow> (- EINVAL, s)
      else (- ENOTSUP, s))"

definition alt_alarm_stop :: "nat \<Rightarrow> 'a alarm_state_scheme \<Rightarrow> 'a alarm_state_scheme" where
  "alt_alarm_stop a s = alt_llist_remove (Al a) (touch a s)"

text \<open>\<open>clean_alarm\<close> gets the address of a pointer variable: the variable goes in and comes out.\<close>

definition clean_alarm :: "alarm_ptr \<Rightarrow> 'a alarm_state_scheme \<Rightarrow> alarm_ptr \<times> 'a alarm_state_scheme" where
  "clean_alarm alarm_ref s =
     (case alarm_ref of
        None \<Rightarrow> (None, s)
      | Some alarm \<Rightarrow> (None, free alarm (alt_alarm_stop alarm s)))"

section \<open>The system tick\<close>

text \<open>\<open>alt_tick\<close> clears the roll-over flag when the tick counter has rolled over.\<close>

definition roll_over :: "INT32U \<Rightarrow> alt_alarm \<Rightarrow> alt_alarm" where
  "roll_over nt b = (if al_rollover b \<noteq> 0 \<and> nt = 0 then b\<lparr> al_rollover := 0 \<rparr> else b)"

definition expired :: "INT32U \<Rightarrow> alt_alarm \<Rightarrow> bool" where
  "expired nt b \<longleftrightarrow> al_time b \<le> nt \<and> al_rollover b = 0"

text \<open>The body of the loop for one alarm; \<open>call\<close> runs a callback function.\<close>

definition tick_alarm ::
  "(callback \<Rightarrow> nat \<Rightarrow> 'a alarm_state_scheme \<Rightarrow> (INT32U \<times> 'a alarm_state_scheme) option) \<Rightarrow> nat \<Rightarrow>
     'a alarm_state_scheme \<Rightarrow> 'a alarm_state_scheme option" where
  "tick_alarm call a s =
     (let s = set_block a (roll_over (nticks s)) (touch a s) in
      if expired (nticks s) (blocks s a) then do {
        (next_callback, s) \<leftarrow> call (al_callback (blocks s a)) (al_context (blocks s a)) s;
        if next_callback = 0 then Some (alt_alarm_stop a s)
        else
          let s = set_block a (\<lambda>b. b\<lparr> al_time := al_time b + next_callback \<rparr>) (touch a s) in
          Some (if al_time (blocks s a) < nticks s then set_block a (\<lambda>b. b\<lparr> al_rollover := 1 \<rparr>) s else s)
      }
      else Some s)"

text \<open>The walk: the next alarm is read before the body runs.\<close>

partial_function (option) tick_alarms ::
  "(callback \<Rightarrow> nat \<Rightarrow> 'a alarm_state_scheme \<Rightarrow> (INT32U \<times> 'a alarm_state_scheme) option) \<Rightarrow> node \<Rightarrow>
     'a alarm_state_scheme \<Rightarrow> 'a alarm_state_scheme option" where
  "tick_alarms call alarm s =
     (case alarm of
        Head \<Rightarrow> Some s
      | Al a \<Rightarrow> do {
          let nx = get_next (Al a) s;
          s \<leftarrow> tick_alarm call a s;
          tick_alarms call nx s })"

definition alt_tick ::
  "(callback \<Rightarrow> nat \<Rightarrow> 'a alarm_state_scheme \<Rightarrow> (INT32U \<times> 'a alarm_state_scheme) option) \<Rightarrow>
     ('a alarm_state_scheme \<Rightarrow> 'a alarm_state_scheme option) \<Rightarrow>
     'a alarm_state_scheme \<Rightarrow> 'a alarm_state_scheme option" where
  "alt_tick call os_time_tick s = do {
     s \<leftarrow> tick_alarms call (head_next s) (s\<lparr> nticks := nticks s + 1 \<rparr>);
     os_time_tick s
   }"

section \<open>The list of active alarms\<close>

fun links :: "'a alarm_state_scheme \<Rightarrow> node \<Rightarrow> nat list \<Rightarrow> node \<Rightarrow> bool" where
  "links s p [] q = (get_next p s = q \<and> get_previous q s = p)"
| "links s p (a # xs) q = (get_next p s = Al a \<and> get_previous (Al a) s = p \<and> links s (Al a) xs q)"

definition alarm_list :: "'a alarm_state_scheme \<Rightarrow> nat list \<Rightarrow> bool" where
  "alarm_list s xs \<longleftrightarrow> distinct xs \<and> links s Head xs Head"

text \<open>A block outside the list, linked to itself.\<close>

definition detached :: "nat \<Rightarrow> 'a alarm_state_scheme \<Rightarrow> bool" where
  "detached a s \<longleftrightarrow> ll_next (blocks s a) = Al a \<and> ll_previous (blocks s a) = Al a"

lemma get_set [simp]:
  "get_next n (set_next m v s) = (if n = m then v else get_next n s)"
  "get_next n (set_previous m v s) = get_next n s"
  "get_previous n (set_previous m v s) = (if n = m then v else get_previous n s)"
  "get_previous n (set_next m v s) = get_previous n s"
  by (cases n; cases m; simp add: set_block_def)+

declare get_next.simps [simp del] get_previous.simps [simp del] set_next.simps [simp del]
  set_previous.simps [simp del]

lemma links_append: "links s p (xs @ a # ys) q \<longleftrightarrow> links s p xs (Al a) \<and> links s (Al a) ys q"
  by (induction xs arbitrary: p) auto

lemma links_cong:
  assumes "\<And>n. n \<in> insert p (Al ` set xs) \<Longrightarrow> get_next n s' = get_next n s"
    and "\<And>n. n \<in> insert q (Al ` set xs) \<Longrightarrow> get_previous n s' = get_previous n s"
  shows "links s' p xs q = links s p xs q"
  using assms by (induction xs arbitrary: p) auto

definition last_node :: "node \<Rightarrow> nat list \<Rightarrow> node" where
  "last_node p xs = (if xs = [] then p else Al (last xs))"

lemma links_last: "links s p xs q \<Longrightarrow> get_next (last_node p xs) s = q \<and> get_previous q s = last_node p xs"
  by (induction xs arbitrary: p) (auto simp: last_node_def split: if_splits)

text \<open>Changing the target of the last link.\<close>

lemma links_retarget:
  assumes "links s p xs q" "distinct xs" "p \<notin> Al ` set xs"
    and "\<And>n. n \<in> insert p (Al ` set xs) \<Longrightarrow> n \<noteq> last_node p xs \<Longrightarrow> get_next n s' = get_next n s"
    and "\<And>n. n \<in> Al ` set xs \<Longrightarrow> get_previous n s' = get_previous n s"
    and "get_next (last_node p xs) s' = r" "get_previous r s' = last_node p xs"
  shows "links s' p xs r"
  using assms
proof (induction xs arbitrary: p)
  case (Cons a xs)
  have l: "last_node p (a # xs) = last_node (Al a) xs" by (simp add: last_node_def)
  have "p \<noteq> last_node (Al a) xs" using Cons.prems(3) by (auto simp: last_node_def)
  then have "get_next p s' = Al a" using Cons.prems(1,4) l by simp
  moreover have "get_previous (Al a) s' = p" using Cons.prems(1,5) by simp
  moreover have "links s' (Al a) xs r"
    using Cons.prems l by (intro Cons.IH) auto
  ultimately show ?case by simp
qed (auto simp: last_node_def)

text \<open>Fields of blocks and of the state that the list operations leave alone.\<close>

definition same_payload :: "alt_alarm \<Rightarrow> alt_alarm \<Rightarrow> bool" where
  "same_payload b c \<longleftrightarrow> al_time b = al_time c \<and> al_callback b = al_callback c \<and>
     al_rollover b = al_rollover c \<and> al_context b = al_context c"

lemma set_links_frame [simp]:
  "nticks (set_next n m s) = nticks s" "nticks (set_previous n m s) = nticks s"
  "tick_rate (set_next n m s) = tick_rate s" "tick_rate (set_previous n m s) = tick_rate s"
  "heap_live (set_next n m s) = heap_live s" "heap_live (set_previous n m s) = heap_live s"
  "heap_faults (set_next n m s) = heap_faults s" "heap_faults (set_previous n m s) = heap_faults s"
  "alarm_state.more (set_next n m s) = alarm_state.more s"
  "alarm_state.more (set_previous n m s) = alarm_state.more s"
  "al_time (blocks (set_next n m s) a) = al_time (blocks s a)"
  "al_time (blocks (set_previous n m s) a) = al_time (blocks s a)"
  "al_callback (blocks (set_next n m s) a) = al_callback (blocks s a)"
  "al_callback (blocks (set_previous n m s) a) = al_callback (blocks s a)"
  "al_rollover (blocks (set_next n m s) a) = al_rollover (blocks s a)"
  "al_rollover (blocks (set_previous n m s) a) = al_rollover (blocks s a)"
  "al_context (blocks (set_next n m s) a) = al_context (blocks s a)"
  "al_context (blocks (set_previous n m s) a) = al_context (blocks s a)"
  by (cases n; simp add: set_block_def set_next.simps set_previous.simps)+

lemma list_ops_frame [simp]:
  "nticks (alt_llist_insert l e s) = nticks s" "nticks (alt_llist_remove e s) = nticks s"
  "tick_rate (alt_llist_insert l e s) = tick_rate s" "tick_rate (alt_llist_remove e s) = tick_rate s"
  "heap_live (alt_llist_insert l e s) = heap_live s" "heap_live (alt_llist_remove e s) = heap_live s"
  "heap_faults (alt_llist_insert l e s) = heap_faults s" "heap_faults (alt_llist_remove e s) = heap_faults s"
  "alarm_state.more (alt_llist_insert l e s) = alarm_state.more s"
  "alarm_state.more (alt_llist_remove e s) = alarm_state.more s"
  "same_payload (blocks (alt_llist_insert l e s) a) b = same_payload (blocks s a) b"
  "same_payload (blocks (alt_llist_remove e s) a) b = same_payload (blocks s a) b"
  by (simp_all add: alt_llist_insert_def alt_llist_remove_def Let_def same_payload_def)

lemma insert_list:
  assumes "alarm_list s xs" "a \<notin> set xs"
  shows "alarm_list (alt_llist_insert Head (Al a) s) (a # xs)"
proof -
  define h where "h = get_next Head s"
  have l: "links s Head xs Head" "distinct xs" using assms(1) by (auto simp: alarm_list_def)
  have h: "h \<noteq> Al a" using l(1) assms(2) by (cases xs) (auto simp: h_def)
  have s': "alt_llist_insert Head (Al a) s =
      set_next Head (Al a) (set_previous h (Al a) (set_next (Al a) h (set_previous (Al a) Head s)))"
    using h by (simp add: alt_llist_insert_def Let_def h_def)
  show ?thesis
  proof (cases xs)
    case Nil
    then have "h = Head" using l(1) by (simp add: h_def)
    then show ?thesis using Nil by (simp add: alarm_list_def s')
  next
    case (Cons b ys)
    then have b: "h = Al b" "links s (Al b) ys Head" using l(1) by (auto simp: h_def)
    have "links (alt_llist_insert Head (Al a) s) (Al b) ys Head"
      using b(2) by (subst links_cong [of _ _ _ s]) (use assms(2) l(2) Cons b(1) in \<open>auto simp: s'\<close>)
    then show ?thesis using Cons b assms(2) l(2) by (auto simp: alarm_list_def s')
  qed
qed

lemma remove_list:
  assumes "alarm_list s xs" "a \<in> set xs"
  shows "alarm_list (alt_llist_remove (Al a) s) (remove1 a xs) \<and> detached a (alt_llist_remove (Al a) s)"
proof -
  obtain ys zs where xs: "xs = ys @ a # zs" "a \<notin> set ys"
    using assms(2) by (meson split_list_first)
  have d: "distinct xs" and l: "links s Head ys (Al a)" "links s (Al a) zs Head"
    using assms(1) xs by (auto simp: alarm_list_def links_append)
  define p where "p = last_node Head ys"
  define q where "q = (case zs of [] \<Rightarrow> Head | b # _ \<Rightarrow> Al b)"
  have p: "get_next p s = Al a" "get_previous (Al a) s = p"
    using links_last [OF l(1)] by (simp_all add: p_def)
  have q: "get_next (Al a) s = q" "get_previous q s = Al a" using l(2) by (auto simp: q_def split: list.splits)
  have na: "p \<noteq> Al a" "q \<noteq> Al a"
    using d xs by (auto simp: p_def q_def last_node_def split: list.splits)
  have pz: "p \<notin> Al ` set zs" using d xs by (auto simp: p_def last_node_def disjoint_iff)
  define s' where "s' = alt_llist_remove (Al a) s"
  have s': "s' = set_next (Al a) (Al a) (set_previous (Al a) (Al a) (set_next p q (set_previous q p s)))"
    using p q na by (simp add: s'_def alt_llist_remove_def Let_def)
  have first: "links s' Head ys q"
    by (rule links_retarget [OF l(1)]) (use d xs na p_def in \<open>auto simp: s' q_def split: list.splits\<close>)
  have "links s' Head (ys @ zs) Head"
  proof (cases zs)
    case Nil
    with first show ?thesis by (simp add: q_def)
  next
    case (Cons b bs)
    have "links s (Al b) bs Head" using l(2) Cons by simp
    then have "links s' (Al b) bs Head"
      by (subst links_cong [of _ _ _ s]) (use d xs Cons na pz in \<open>auto simp: s' q_def\<close>)
    with first Cons show ?thesis by (simp add: links_append q_def)
  qed
  moreover have "remove1 a xs = ys @ zs" using xs by (simp add: remove1_append)
  moreover have "detached a s'"
    unfolding detached_def get_next.simps(2) [symmetric] get_previous.simps(2) [symmetric] by (simp add: s')
  ultimately show ?thesis using d xs by (simp add: alarm_list_def s'_def)
qed

text \<open>Removing a detached block again changes nothing in the list.\<close>

lemma remove_detached:
  assumes "detached a s" "alarm_list s xs" "a \<notin> set xs"
  shows "alarm_list (alt_llist_remove (Al a) s) xs"
proof -
  have g: "get_next (Al a) s = Al a" "get_previous (Al a) s = Al a"
    using assms(1) by (simp_all add: detached_def get_next.simps get_previous.simps)
  have "links (alt_llist_remove (Al a) s) Head xs Head = links s Head xs Head"
    by (rule links_cong) (use assms(3) g in \<open>auto simp: alt_llist_remove_def Let_def\<close>)
  with assms(2) show ?thesis by (simp add: alarm_list_def)
qed

section \<open>Starting, stopping and cleaning\<close>

lemma set_block_frame [simp]:
  "nticks (set_block a f s) = nticks s" "tick_rate (set_block a f s) = tick_rate s"
  "heap_live (set_block a f s) = heap_live s" "heap_faults (set_block a f s) = heap_faults s"
  "alarm_state.more (set_block a f s) = alarm_state.more s"
  "blocks (set_block a f s) = (blocks s)(a := f (blocks s a))"
  "head_next (set_block a f s) = head_next s" "head_previous (set_block a f s) = head_previous s"
  by (simp_all add: set_block_def)

lemma touch_frame [simp]:
  "nticks (touch a s) = nticks s" "tick_rate (touch a s) = tick_rate s" "heap_live (touch a s) = heap_live s"
  "alarm_state.more (touch a s) = alarm_state.more s" "blocks (touch a s) = blocks s"
  "head_next (touch a s) = head_next s" "head_previous (touch a s) = head_previous s"
  by (simp_all add: touch_def)

lemma touch_live [simp]: "a \<in> heap_live s \<Longrightarrow> touch a s = s"
  by (simp add: touch_def)

lemma free_frame [simp]:
  "nticks (free a s) = nticks s" "tick_rate (free a s) = tick_rate s" "heap_live (free a s) = heap_live s - {a}"
  "alarm_state.more (free a s) = alarm_state.more s" "blocks (free a s) = blocks s"
  "head_next (free a s) = head_next s" "head_previous (free a s) = head_previous s"
  by (simp_all add: free_def)

text \<open>The list is a matter of the links alone.\<close>

lemma alarm_list_cong:
  assumes "\<And>a. ll_next (blocks s' a) = ll_next (blocks s a) \<and> ll_previous (blocks s' a) = ll_previous (blocks s a)"
    and "head_next s' = head_next s" and "head_previous s' = head_previous s"
  shows "alarm_list s' xs = alarm_list s xs"
proof -
  have "get_next n s' = get_next n s \<and> get_previous n s' = get_previous n s" for n
    using assms by (cases n) (simp_all add: get_next.simps get_previous.simps)
  then show ?thesis using links_cong [of Head xs s' s Head] by (simp add: alarm_list_def)
qed

lemma alarm_list_keep [simp]:
  "alarm_list (touch a s) xs = alarm_list s xs" "alarm_list (free a s) xs = alarm_list s xs"
  "alarm_list (s\<lparr> nticks := n \<rparr>) xs = alarm_list s xs"
  "(\<And>b. ll_next (f b) = ll_next b \<and> ll_previous (f b) = ll_previous b) \<Longrightarrow>
     alarm_list (set_block a f s) xs = alarm_list s xs"
  by (rule alarm_list_cong; simp)+

lemma detached_keep [simp]: "detached a (free b s) = detached a s" "detached a (touch b s) = detached a s"
  by (simp_all add: detached_def)

lemma stop_list:
  assumes "alarm_list s xs"
  shows "a \<in> set xs \<Longrightarrow> alarm_list (alt_alarm_stop a s) (remove1 a xs) \<and> detached a (alt_alarm_stop a s)"
    and "a \<notin> set xs \<Longrightarrow> detached a s \<Longrightarrow> alarm_list (alt_alarm_stop a s) xs"
  using assms remove_list [of "touch a s" xs a] remove_detached [of a "touch a s" xs]
  by (simp_all add: alt_alarm_stop_def)

lemma stop_frame [simp]:
  "nticks (alt_alarm_stop a s) = nticks s" "tick_rate (alt_alarm_stop a s) = tick_rate s"
  "heap_live (alt_alarm_stop a s) = heap_live s" "alarm_state.more (alt_alarm_stop a s) = alarm_state.more s"
  "same_payload (blocks (alt_alarm_stop a s) c) b = same_payload (blocks s c) b"
  "a \<in> heap_live s \<Longrightarrow> heap_faults (alt_alarm_stop a s) = heap_faults s"
  "a \<in> heap_live s \<Longrightarrow> heap_faults (free a s) = heap_faults s"
  by (simp_all add: alt_alarm_stop_def free_def)

lemma same_payload_refl [simp]: "same_payload b b"
  by (simp add: same_payload_def)

text \<open>The list of active alarms is what the calls make it: starting an alarm that is not active
  returns 0 and puts it in front, stopping an active alarm takes out exactly this one and leaves it
  linked to itself, so that stopping it once more is harmless, and \<open>clean_alarm\<close> also gives the block
  back and clears the caller's pointer; no other alarm's time or callback changes.\<close>

theorem alarm_calls_edit_list:
  assumes l: "alarm_list s xs" and rate: "tick_rate s \<noteq> 0" and a: "a \<in> heap_live s" "heap_faults s = []"
  shows "if a \<in> set xs
     then alarm_list (alt_alarm_stop a s) (remove1 a xs) \<and>
       alarm_list (alt_alarm_stop a (alt_alarm_stop a s)) (remove1 a xs) \<and>
       (\<exists>s'. clean_alarm (Some a) s = (None, s') \<and> alarm_list s' (remove1 a xs) \<and>
          heap_live s' = heap_live s - {a} \<and> heap_faults s' = [] \<and>
          (\<forall>b. same_payload (blocks s' b) (blocks s b)))
     else (\<exists>s'. alt_alarm_start (Some a) n c ctx s = (0, s') \<and> alarm_list s' (a # xs) \<and> heap_faults s' = [] \<and>
          al_time (blocks s' a) = nticks s + n + 1 \<and> al_callback (blocks s' a) = c \<and> al_context (blocks s' a) = ctx \<and>
          (\<forall>b. b \<noteq> a \<longrightarrow> same_payload (blocks s' b) (blocks s b)))"
proof (cases "a \<in> set xs")
  case True
  have st: "alarm_list (alt_alarm_stop a s) (remove1 a xs)" "detached a (alt_alarm_stop a s)"
    using stop_list(1) [OF l True] by auto
  have "a \<notin> set (remove1 a xs)" using l by (simp add: alarm_list_def)
  then have "alarm_list (alt_alarm_stop a (alt_alarm_stop a s)) (remove1 a xs)"
    using stop_list(2) [OF st(1)] st(2) by blast
  then show ?thesis
    using True st a by (simp add: clean_alarm_def)
next
  case False
  define s1 where "s1 = set_block a (\<lambda>b. b\<lparr> al_callback := c, al_context := ctx \<rparr>) s"
  define s2 where "s2 = set_block a (\<lambda>b. b\<lparr> al_time := n + nticks s + 1 \<rparr>) s1"
  define s3 where "s3 = set_block a (\<lambda>b. b\<lparr> al_rollover := (if al_time b < nticks s then 1 else 0) \<rparr>) s2"
  have go: "alt_alarm_start (Some a) n c ctx s = (0, alt_llist_insert Head (Al a) s3)"
    using rate a(1) by (simp add: alt_alarm_start_def s3_def s2_def s1_def Let_def)
  have "alarm_list s3 xs" using l by (simp add: s3_def s2_def s1_def)
  then have l': "alarm_list (alt_llist_insert Head (Al a) s3) (a # xs)" using False by (rule insert_list)
  have pay: "same_payload (blocks (alt_llist_insert Head (Al a) s3) b) (blocks s3 b)" for b
    by (simp add: same_payload_def [of "blocks s3 b"])
  have "b \<noteq> a \<Longrightarrow> blocks s3 b = blocks s b" for b by (simp add: s3_def s2_def s1_def)
  then have others: "\<forall>b. b \<noteq> a \<longrightarrow> same_payload (blocks (alt_llist_insert Head (Al a) s3) b) (blocks s b)"
    using pay by metis
  have "al_time (blocks s3 a) = nticks s + n + 1" "al_callback (blocks s3 a) = c" "al_context (blocks s3 a) = ctx"
    by (simp_all add: s3_def s2_def s1_def)
  then have me: "al_time (blocks (alt_llist_insert Head (Al a) s3) a) = nticks s + n + 1"
    "al_callback (blocks (alt_llist_insert Head (Al a) s3) a) = c"
    "al_context (blocks (alt_llist_insert Head (Al a) s3) a) = ctx"
    using pay [of a] by (simp_all add: same_payload_def)
  have "heap_faults (alt_llist_insert Head (Al a) s3) = []" using a(2) by (simp add: s3_def s2_def s1_def)
  with go l' others me False show ?thesis by simp
qed

text \<open>A concrete store with two active alarms, 2 in front of 1, and two allocated blocks more.\<close>

definition example_alarms :: alarm_state where
  "example_alarms =
     \<lparr> blocks = (\<lambda>a. if a = 2 then \<lparr> ll_next = Al 1, ll_previous = Head, al_time = 110, al_callback = Apps_Value_Comp,
                                  al_rollover = 0, al_context = 2 \<rparr>
                   else \<lparr> ll_next = Head, ll_previous = Al 2, al_time = 101, al_callback = Solenoid_Callback,
                          al_rollover = 0, al_context = 0 \<rparr>),
       head_next = Al 2, head_previous = Al 1, nticks = 100, tick_rate = 1000, heap_live = {1, 2, 3, 4},
       heap_faults = [] \<rparr>"

lemma example_alarm_list: "alarm_list example_alarms [2, 1]"
  by (simp add: alarm_list_def example_alarms_def get_next.simps get_previous.simps)

theorem alarm_calls_edit_list_witness:
  "alarm_list (alt_alarm_stop 2 example_alarms) [1] \<and>
   (\<exists>s'. alt_alarm_start (Some 3) 50 Tps_Value_Comp 3 example_alarms = (0, s') \<and> alarm_list s' [3, 2, 1] \<and>
      al_time (blocks s' 3) = 151)"
proof -
  have a: "tick_rate example_alarms \<noteq> 0" "2 \<in> heap_live example_alarms" "3 \<in> heap_live example_alarms"
    "heap_faults example_alarms = []" "nticks example_alarms = 100"
    by (simp_all add: example_alarms_def)
  show ?thesis
    using alarm_calls_edit_list [OF example_alarm_list a(1,2,4)]
      alarm_calls_edit_list [OF example_alarm_list a(1,3,4), of 50 Tps_Value_Comp 3] a(5) by auto
qed

section \<open>When an alarm expires\<close>

text \<open>The block after \<open>k\<close> ticks that did not fire it, with the roll-over clearing of each.\<close>

fun aged :: "INT32U \<Rightarrow> nat \<Rightarrow> alt_alarm \<Rightarrow> alt_alarm" where
  "aged now 0 b = b"
| "aged now (Suc k) b = roll_over (now + of_nat (Suc k)) (aged now k b)"

lemma aged_time [simp]: "al_time (aged now k b) = al_time b"
  by (induction k) (simp_all add: roll_over_def)

lemma unat_later:
  assumes "k < 2 ^ 32"
  shows "unat (now + of_nat k :: INT32U) =
    (if unat now + k < 2 ^ 32 then unat now + k else unat now + k - 2 ^ 32)"
proof -
  have "unat now < 2 ^ 32" using unsigned_less [of now, where ?'a = nat] by simp
  then have "unat now + k < 2 * 2 ^ 32" using assms by linarith
  moreover have "unat (now + of_nat k) = (unat now + k) mod 2 ^ 32"
    by (simp add: unat_word_ariths unat_of_nat mod_add_right_eq)
  ultimately show ?thesis by (auto simp: mod_if)
qed

lemma aged_rollover:
  assumes "k < 2 ^ 32"
  shows "al_rollover (aged now k b) = (if unat now + k \<ge> 2 ^ 32 then 0 else al_rollover b)"
  using assms
proof (induction k)
  case 0
  have "unat now < 2 ^ 32" using unsigned_less [of now, where ?'a = nat] by simp
  then have "\<not> 2 ^ 32 \<le> unat now + 0" by linarith
  then show ?case by (simp only: aged.simps if_False)
next
  case (Suc k)
  have "now + of_nat (Suc k) = 0 \<longleftrightarrow> unat now + Suc k = 2 ^ 32"
    using unat_later [OF Suc.prems, of now]
    by (auto simp: unat_eq_zero [symmetric] simp del: of_nat_Suc)
  then show ?case using Suc by (auto simp: roll_over_def simp del: of_nat_Suc)
qed

text \<open>C24: An alarm started for \<open>n\<close> ticks fires at the tick \<open>n + 1\<close> after the start and not before, for
  every value of the 32-bit tick counter, also when the counter wraps around in between: at each of
  the ticks \<open>1\<close> to \<open>n + 1\<close> the test of \<open>alt_tick\<close>, made on the block as the earlier ticks left it,
  succeeds just at the last.\<close>

theorem alarm_fires_exactly:
  assumes start: "alt_alarm_start (Some a) n c ctx s = (0, s')" and k: "k \<le> unat n" and n: "unat n < 2 ^ 32 - 1"
  shows "expired (nticks s + of_nat (Suc k)) (aged (nticks s) (Suc k) (blocks s' a)) \<longleftrightarrow> k = unat n"
proof -
  let ?now = "nticks s" and ?b = "blocks s' a"
  have t: "al_time ?b = ?now + of_nat (Suc (unat n))"
    and r: "al_rollover ?b = (if al_time ?b < ?now then 1 else 0)"
    using start by (auto simp: alt_alarm_start_def Let_def alt_llist_insert_def ENOTSUP_def ac_simps split: if_splits)
  have K: "Suc k < 2 ^ 32" "Suc (unat n) < 2 ^ 32" using k n by auto
  have now: "unat ?now < 2 ^ 32" using unsigned_less [of ?now, where ?'a = nat] by simp
  note T = unat_later [OF K(2), of ?now] and N = unat_later [OF K(1), of ?now]
  have time: "unat (al_time ?b) =
      (if unat ?now + Suc (unat n) < 2 ^ 32 then unat ?now + Suc (unat n) else unat ?now + Suc (unat n) - 2 ^ 32)"
    using T t by simp
  have roll: "al_rollover ?b = (if unat ?now + Suc (unat n) < 2 ^ 32 then 0 else 1)"
    using r time K(2) by (auto simp: word_less_unat)
  have ro: "al_rollover (aged ?now (Suc k) ?b) = (if unat ?now + Suc k \<ge> 2 ^ 32 then 0 else al_rollover ?b)"
    using aged_rollover [OF K(1)] .
  show ?thesis
    unfolding expired_def aged_time ro word_le_unat time N roll
    using k by auto
qed

theorem alarm_fires_exactly_witness:
  "expired (4294967295 + 7) (aged 4294967295 7 (blocks (snd (alt_alarm_start (Some 3) 6 Apps_Value_Comp 3
     (example_alarms\<lparr> nticks := 4294967295 \<rparr>))) 3))"
proof -
  let ?s = "example_alarms\<lparr> nticks := 4294967295 \<rparr>"
  obtain r s' where s': "alt_alarm_start (Some 3) 6 Apps_Value_Comp 3 ?s = (r, s')" by fastforce
  then have "r = 0" by (auto simp: alt_alarm_start_def example_alarms_def)
  with s' have "alt_alarm_start (Some 3) 6 Apps_Value_Comp 3 ?s = (0, s')" by simp
  then show ?thesis using alarm_fires_exactly [of 3 6 Apps_Value_Comp 3 ?s s' 6] s' by simp
qed

section \<open>The tick visits every active alarm once\<close>

definition due :: "INT32U \<Rightarrow> alt_alarm \<Rightarrow> bool" where
  "due nt b \<longleftrightarrow> expired nt (roll_over nt b)"

lemma due_payload: "same_payload b c \<Longrightarrow> due nt b = due nt c"
  by (simp add: due_def expired_def roll_over_def same_payload_def)

lemma due_roll_over [simp]: "due nt (roll_over nt b) = due nt b"
  by (simp add: due_def expired_def roll_over_def)

text \<open>The reference: the bodies for the alarms that are active when the tick comes, in order.\<close>

fun tick_list ::
  "(callback \<Rightarrow> nat \<Rightarrow> 'a alarm_state_scheme \<Rightarrow> (INT32U \<times> 'a alarm_state_scheme) option) \<Rightarrow> nat list \<Rightarrow>
     'a alarm_state_scheme \<Rightarrow> 'a alarm_state_scheme option" where
  "tick_list call [] s = Some s"
| "tick_list call (a # as) s = do { s \<leftarrow> tick_alarm call a s; tick_list call as s }"

definition first_node :: "nat list \<Rightarrow> node" where
  "first_node xs = (case xs of [] \<Rightarrow> Head | a # _ \<Rightarrow> Al a)"

lemma next_of:
  assumes "alarm_list s (ys @ a # zs)"
  shows "get_next (Al a) s = first_node zs"
proof -
  have "links s (Al a) zs Head" using assms by (simp add: alarm_list_def links_append)
  then show ?thesis by (cases zs) (auto simp: first_node_def)
qed

lemma head_of: "alarm_list s xs \<Longrightarrow> head_next s = first_node xs"
  by (cases xs) (auto simp: alarm_list_def first_node_def get_next.simps)

text \<open>
  The interface between the tick and the callbacks. A callback runs on a consistent state for an
  active alarm that is due; it must return 0, and after the stop that follows this alarm, and no
  other, must be out of the list, with the other alarms' contents unchanged.
\<close>

locale alarm_callbacks =
  fixes call :: "callback \<Rightarrow> nat \<Rightarrow> 'a alarm_state_scheme \<Rightarrow> (INT32U \<times> 'a alarm_state_scheme) option"
    and ok :: "'a alarm_state_scheme \<Rightarrow> nat list \<Rightarrow> bool"
  assumes list_law: "ok s xs \<Longrightarrow> alarm_list s xs"
    and roll_law: "ok s xs \<Longrightarrow> a \<in> set xs \<Longrightarrow> ok (set_block a (roll_over (nticks s)) (touch a s)) xs"
    and call_law: "ok s xs \<Longrightarrow> a \<in> set xs \<Longrightarrow>
      \<exists>s'. call (al_callback (blocks s a)) (al_context (blocks s a)) s = Some (0, s') \<and>
        ok (alt_alarm_stop a s') (remove1 a xs) \<and> nticks s' = nticks s \<and>
        (\<forall>b \<in> set xs. b \<noteq> a \<longrightarrow> same_payload (blocks s' b) (blocks s b))"
begin

lemma tick_alarm_ok:
  assumes "ok s xs" "a \<in> set xs"
  shows "\<exists>s'. tick_alarm call a s = Some s' \<and> nticks s' = nticks s \<and>
     ok s' (if due (nticks s) (blocks s a) then remove1 a xs else xs) \<and>
     (\<forall>b \<in> set xs. b \<noteq> a \<longrightarrow> same_payload (blocks s' b) (blocks s b))"
proof -
  define s1 where "s1 = set_block a (roll_over (nticks s)) (touch a s)"
  have s1: "ok s1 xs" using roll_law [OF assms] by (simp add: s1_def)
  have f: "nticks s1 = nticks s" "blocks s1 a = roll_over (nticks s) (blocks s a)"
    "\<And>b. b \<noteq> a \<Longrightarrow> blocks s1 b = blocks s b" by (simp_all add: s1_def)
  show ?thesis
  proof (cases "due (nticks s) (blocks s a)")
    case True
    obtain s' where s': "call (al_callback (blocks s1 a)) (al_context (blocks s1 a)) s1 = Some (0, s')"
      "ok (alt_alarm_stop a s') (remove1 a xs)" "nticks s' = nticks s1"
      "\<forall>b \<in> set xs. b \<noteq> a \<longrightarrow> same_payload (blocks s' b) (blocks s1 b)"
      using call_law [OF s1 assms(2)] by blast
    have "tick_alarm call a s = Some (alt_alarm_stop a s')"
      using True s'(1) f by (simp add: tick_alarm_def s1_def [symmetric] due_def)
    then show ?thesis using True s' f by auto
  next
    case False
    then have "tick_alarm call a s = Some s1"
      using f by (simp add: tick_alarm_def s1_def [symmetric] due_def)
    then show ?thesis using False s1 f by auto
  qed
qed

lemma tick_alarms_ok:
  assumes "ok s (ys @ zs)"
  shows "\<exists>s'. tick_alarms call (first_node zs) s = Some s' \<and> tick_list call zs s = Some s' \<and>
     nticks s' = nticks s \<and> ok s' (ys @ filter (\<lambda>a. \<not> due (nticks s) (blocks s a)) zs)"
  using assms
proof (induction zs arbitrary: s ys)
  case Nil
  then show ?case by (subst tick_alarms.simps) (simp add: first_node_def)
next
  case (Cons a zs)
  have l: "alarm_list s (ys @ a # zs)" using Cons.prems by (rule list_law)
  then have d: "distinct (ys @ a # zs)" by (simp add: alarm_list_def)
  obtain s1 where s1: "tick_alarm call a s = Some s1" "nticks s1 = nticks s"
    "ok s1 (if due (nticks s) (blocks s a) then remove1 a (ys @ a # zs) else ys @ a # zs)"
    "\<forall>b \<in> set (ys @ a # zs). b \<noteq> a \<longrightarrow> same_payload (blocks s1 b) (blocks s b)"
    using tick_alarm_ok [OF Cons.prems, of a] by auto
  have same: "filter (\<lambda>b. \<not> due (nticks s1) (blocks s1 b)) zs = filter (\<lambda>b. \<not> due (nticks s) (blocks s b)) zs"
  proof (rule filter_cong [OF refl])
    fix b assume "b \<in> set zs"
    then have "same_payload (blocks s1 b) (blocks s b)" using s1(4) d by auto
    from due_payload [OF this] show "(\<not> due (nticks s1) (blocks s1 b)) = (\<not> due (nticks s) (blocks s b))"
      by (simp add: s1(2))
  qed
  define ys' where "ys' = (if due (nticks s) (blocks s a) then ys else ys @ [a])"
  have "remove1 a (ys @ a # zs) = ys @ zs" using d by (simp add: remove1_append)
  then have "ok s1 (ys' @ zs)" using s1(3) by (simp add: ys'_def split: if_splits)
  from Cons.IH [OF this] obtain s' where s': "tick_alarms call (first_node zs) s1 = Some s'"
    "tick_list call zs s1 = Some s'" "nticks s' = nticks s1"
    "ok s' (ys' @ filter (\<lambda>b. \<not> due (nticks s1) (blocks s1 b)) zs)" by blast
  have "tick_alarms call (first_node (a # zs)) s = Some s'"
    using s1(1) s'(1) next_of [OF l] by (subst tick_alarms.simps) (simp add: first_node_def)
  moreover have "ok s' (ys @ filter (\<lambda>b. \<not> due (nticks s) (blocks s b)) (a # zs))"
    using s'(4) same by (simp add: ys'_def split: if_splits)
  ultimately show ?case using s1 s' by simp
qed

lemma tick_walks_list:
  assumes "ok (s\<lparr> nticks := nticks s + 1 \<rparr>) xs"
  shows "\<exists>s'. tick_alarms call (head_next s) (s\<lparr> nticks := nticks s + 1 \<rparr>) = Some s' \<and>
     tick_list call xs (s\<lparr> nticks := nticks s + 1 \<rparr>) = Some s' \<and> nticks s' = nticks s + 1 \<and>
     ok s' (filter (\<lambda>a. \<not> due (nticks s + 1) (blocks s a)) xs)"
  using tick_alarms_ok [of "s\<lparr> nticks := nticks s + 1 \<rparr>" "[]" xs] assms
    head_of [OF list_law [OF assms]] by simp

end

end
