(* ===== verification/Irq.thy ===== *)
theory Irq imports Alarm begin

text \<open>
  The interrupt controller of the processor as the HAL uses it: the interrupt enable bit of the status
  register and the mask of enabled lines (\<open>alt_irq.h\<close>, \<open>alt_legacy_irq.h\<close>), the table of handlers
  (\<open>alt_irq_register.c\<close>), and the loop of \<open>alt_irq_handler.c\<close> that serves the pending lines. What the
  processor's register of pending lines shows at each reading is an argument. The properties: a
  registered handler is in the table and its line enabled, with nothing else changed; the loop ends
  with the first reading of zero and serves the line of the smallest number at each reading before.
\<close>

section \<open>The processor and the table of handlers\<close>

definition NIOS2_STATUS_PIE_MSK :: INT32U where "NIOS2_STATUS_PIE_MSK = 1"
definition ALT_NIRQ :: INT32U where "ALT_NIRQ = 32"

text \<open>The control registers \<open>status\<close> and \<open>ienable\<close>, the variable \<open>alt_irq_active\<close>, and the handlers with
  their contexts; \<open>None\<close> is a null pointer.\<close>

record 'h irq_unit =
  cpu_status :: INT32U
  ienable :: INT32U
  alt_irq_active :: INT32U
  alt_irq :: "INT32U \<Rightarrow> 'h option \<times> INT32U"

definition altera_nios2_qsys_irq_init :: "'h irq_unit \<Rightarrow> 'h irq_unit" where
  "altera_nios2_qsys_irq_init u = u\<lparr> ienable := 0 \<rparr>"

definition alt_irq_cpu_enable_interrupts :: "'h irq_unit \<Rightarrow> 'h irq_unit" where
  "alt_irq_cpu_enable_interrupts u = u\<lparr> cpu_status := NIOS2_STATUS_PIE_MSK \<rparr>"

definition alt_irq_init :: "'h irq_unit \<Rightarrow> 'h irq_unit" where
  "alt_irq_init u = alt_irq_cpu_enable_interrupts (altera_nios2_qsys_irq_init u)"

definition alt_irq_enabled :: "'h irq_unit \<Rightarrow> INT32U" where
  "alt_irq_enabled u = cpu_status u AND NIOS2_STATUS_PIE_MSK"

definition alt_irq_disable_all :: "'h irq_unit \<Rightarrow> INT32U \<times> 'h irq_unit" where
  "alt_irq_disable_all u =
     (let context = cpu_status u in (context, u\<lparr> cpu_status := context AND NOT NIOS2_STATUS_PIE_MSK \<rparr>))"

definition alt_irq_enable_all :: "INT32U \<Rightarrow> 'h irq_unit \<Rightarrow> 'h irq_unit" where
  "alt_irq_enable_all context u = u\<lparr> cpu_status := context \<rparr>"

definition alt_irq_disable :: "INT32U \<Rightarrow> 'h irq_unit \<Rightarrow> int \<times> 'h irq_unit" where
  "alt_irq_disable n u =
     (let (status, u) = alt_irq_disable_all u;
          u = u\<lparr> alt_irq_active := alt_irq_active u AND NOT (push_bit (unat n) 1) \<rparr>;
          u = u\<lparr> ienable := alt_irq_active u \<rparr> in
      (0, alt_irq_enable_all status u))"

definition alt_irq_enable :: "INT32U \<Rightarrow> 'h irq_unit \<Rightarrow> int \<times> 'h irq_unit" where
  "alt_irq_enable n u =
     (let (status, u) = alt_irq_disable_all u;
          u = u\<lparr> alt_irq_active := alt_irq_active u OR push_bit (unat n) 1 \<rparr>;
          u = u\<lparr> ienable := alt_irq_active u \<rparr> in
      (0, alt_irq_enable_all status u))"

definition alt_irq_register :: "INT32U \<Rightarrow> INT32U \<Rightarrow> 'h option \<Rightarrow> 'h irq_unit \<Rightarrow> int \<times> 'h irq_unit" where
  "alt_irq_register n context handler u =
     (if n < ALT_NIRQ then
        let (status, u) = alt_irq_disable_all u;
            u = u\<lparr> alt_irq := (alt_irq u)(n := (handler, context)) \<rparr>;
            (rc, u) = (if handler \<noteq> None then alt_irq_enable n u else alt_irq_disable n u) in
        (rc, alt_irq_enable_all status u)
      else (- EINVAL, u))"

section \<open>Serving the pending lines\<close>

text \<open>The search for a set bit; with no bit set it would not end.\<close>

partial_function (option) irq_scan :: "INT32U \<Rightarrow> INT32U \<Rightarrow> INT32U \<Rightarrow> INT32U option" where
  "irq_scan active msk i =
     (if active AND msk \<noteq> 0 then Some i else irq_scan active (push_bit 1 msk) (i + 1))"

definition irq_serve ::
  "('h \<Rightarrow> INT32U \<Rightarrow> INT32U \<Rightarrow> 's \<Rightarrow> 's option) \<Rightarrow> (INT32U \<Rightarrow> 'h option \<times> INT32U) \<Rightarrow> INT32U \<Rightarrow> 's \<Rightarrow> 's option" where
  "irq_serve run tbl active s = do { i \<leftarrow> irq_scan active 1 0; h \<leftarrow> fst (tbl i); run h (snd (tbl i)) i s }"

text \<open>One pass for each reading of the pending lines up to the first zero. A list that ends without a zero stands for
  no execution.\<close>

fun irq_loop ::
  "('h \<Rightarrow> INT32U \<Rightarrow> INT32U \<Rightarrow> 's \<Rightarrow> 's option) \<Rightarrow> (INT32U \<Rightarrow> 'h option \<times> INT32U) \<Rightarrow> INT32U list \<Rightarrow> 's \<Rightarrow> 's option" where
  "irq_loop run tbl [] s = None"
| "irq_loop run tbl [active] s = None"
| "irq_loop run tbl (active # reading # later) s = do {
     s \<leftarrow> irq_serve run tbl active s;
     if reading = 0 then Some s else irq_loop run tbl (reading # later) s
   }"

fun_cases irq_loop_runs: "irq_loop run tbl reads s = Some s'"

text \<open>The handlers of a list of lines, one after the other.\<close>

primrec serve_lines ::
  "('h \<Rightarrow> INT32U \<Rightarrow> INT32U \<Rightarrow> 's \<Rightarrow> 's option) \<Rightarrow> (INT32U \<Rightarrow> 'h option \<times> INT32U) \<Rightarrow> nat list \<Rightarrow> 's \<Rightarrow> 's option" where
  "serve_lines run tbl [] s = Some s"
| "serve_lines run tbl (n # ns) s = do {
     h \<leftarrow> fst (tbl (of_nat n));
     s \<leftarrow> run h (snd (tbl (of_nat n))) (of_nat n) s;
     serve_lines run tbl ns s
   }"

section \<open>Registration\<close>

lemma register_sets:
  assumes "n < ALT_NIRQ"
  shows "alt_irq_register n c (Some h) u = (0, u\<lparr> ienable := alt_irq_active u OR push_bit (unat n) 1,
     alt_irq_active := alt_irq_active u OR push_bit (unat n) 1, alt_irq := (alt_irq u)(n := (Some h, c)) \<rparr>)"
  using assms by (simp add: alt_irq_register_def alt_irq_enable_def alt_irq_disable_all_def alt_irq_enable_all_def Let_def)

section \<open>The search\<close>

definition first_line :: "INT32U \<Rightarrow> nat" where
  "first_line active = hd (filter (bit active) [0..<32])"

lemma first_line_least:
  assumes "active \<noteq> 0"
  shows "bit active (first_line active)" "first_line active < 32" "j < first_line active \<Longrightarrow> \<not> bit active j"
proof -
  obtain n where n: "bit active n" using assms by (auto simp: bit_eq_iff)
  then have "n < 32" using bit_imp_le_length [OF n] by simp
  define ns where "ns = filter (bit active) [0..<32]"
  have ne: "ns \<noteq> []" using n \<open>n < 32\<close> by (auto simp: ns_def filter_empty_conv)
  then have "hd ns \<in> set ns" by simp
  then show f: "bit active (first_line active)" "first_line active < 32" by (simp_all add: first_line_def ns_def)
  have "sorted ns" by (simp add: ns_def sorted_wrt_filter)
  then have least: "hd ns \<le> j" if "j \<in> set ns" for j using that ne by (cases ns) auto
  show "\<not> bit active j" if "j < first_line active"
  proof
    assume "bit active j"
    then have "j \<in> set ns" using that f(2) by (simp add: ns_def)
    then show False using least that by (fastforce simp: first_line_def ns_def)
  qed
qed

lemma and_single_bit: "(active AND 2 ^ k \<noteq> 0) = bit (active :: INT32U) k"
  by (simp add: bit_iff_and_push_bit_not_eq_0)

lemma irq_scan_finds:
  assumes "bit active n" "\<And>j. k \<le> j \<Longrightarrow> j < n \<Longrightarrow> \<not> bit active j" "k \<le> n"
  shows "irq_scan active (2 ^ k) (of_nat k) = Some (of_nat n)"
  using assms
proof (induction "n - k" arbitrary: k)
  case 0
  then show ?case by (subst irq_scan.simps) (simp add: and_single_bit)
next
  case (Suc d)
  have next_bit: "d = n - Suc k" "Suc k \<le> n" using Suc.hyps(2) by simp_all
  have "irq_scan active (2 ^ Suc k) (of_nat (Suc k)) = Some (of_nat n)"
    by (rule Suc.hyps(1) [OF next_bit(1) Suc.prems(1)]) (use Suc.prems(2) next_bit(2) in simp_all)
  moreover have "\<not> bit active k" using next_bit(2) Suc.prems(2) by simp
  ultimately show ?case by (subst irq_scan.simps) (simp add: and_single_bit ac_simps)
qed

lemma irq_scan_first: "active \<noteq> 0 \<Longrightarrow> irq_scan active 1 0 = Some (of_nat (first_line active))"
  using irq_scan_finds [of active "first_line active" 0] first_line_least [of active] by simp


text \<open>The loop is the sequence of the first lines of the readings before the first zero.\<close>

lemma loop_serves:
  assumes "reads \<noteq> []" "\<forall>a \<in> set reads. a \<noteq> 0"
  shows "irq_loop run tbl (reads @ 0 # later) s = serve_lines run tbl (map first_line reads) s"
  using assms
proof (induction reads arbitrary: s)
  case (Cons a reads)
  show ?case
  proof (cases reads)
    case Nil
    then show ?thesis using Cons.prems by (simp add: irq_serve_def irq_scan_first)
  next
    case (Cons b bs)
    then show ?thesis using Cons.IH Cons.prems by (simp add: irq_serve_def irq_scan_first)
  qed
qed simp

text \<open>An execution reads the lines until they are zero.\<close>

lemma loop_reads:
  assumes "irq_loop run tbl reads s = Some s'" "hd reads \<noteq> 0"
  shows "\<exists>before later. reads = before @ 0 # later \<and> before \<noteq> [] \<and> (\<forall>a \<in> set before. a \<noteq> 0)"
  using assms
proof (induction run tbl reads s rule: irq_loop.induct)
  case (3 run tbl active reading later s)
  show ?case
  proof (cases "reading = 0")
    case True
    then show ?thesis using 3(3) by (intro exI [of _ "[active]"] exI [of _ later]) simp
  next
    case False
    then obtain before rest where "reading # later = before @ 0 # rest" "before \<noteq> []" "\<forall>a \<in> set before. a \<noteq> 0"
      using 3(1,2) by (auto split: bind_splits)
    then show ?thesis using 3(3) by (intro exI [of _ "active # before"] exI [of _ rest]) simp
  qed
qed (auto elim: irq_loop_runs)

end
