(* ===== verification/Util.thy ===== *)
theory Util imports Config begin

text \<open>
  \<open>util.c\<close> and the comparison macros of \<open>throttle_control_task.h\<close> built on it. The integer
  operations are those of a 32-bit unsigned C integer, so they wrap; \<open>calc_percent\<close> divides by
  its first argument and is \<open>None\<close> where the C division has no defined result. The pointer
  helpers \<open>clean_alarm\<close> and \<open>get_tps_sensor_output_pwm\<close> are in the theories \<open>Alarm\<close> and
  \<open>Pwm_Gen\<close>, next to the state they change.
\<close>

section \<open>Definitions\<close>

definition int32U_changed_by_threshold :: "INT32U \<Rightarrow> INT32U \<Rightarrow> INT32U \<Rightarrow> BOOL" where
  "int32U_changed_by_threshold input last_value threshold =
     (if input > last_value \<and> input - last_value > threshold then TRUE
      else if last_value > input \<and> last_value - input > threshold then TRUE
      else FALSE)"

definition int32U_differ_by_percent :: "INT32U \<Rightarrow> INT32U \<Rightarrow> INT32U \<Rightarrow> INT32U \<Rightarrow> BOOL" where
  "int32U_differ_by_percent src1 src2 percent accuracy =
     (let (larger, smaller) = (if src1 > src2 then (src1, src2) else (src2, src1)) in
      if larger = 0 then FALSE
      else let diff = larger - smaller; avg = drop_bit 1 (larger + smaller) in
      if avg = 0 then FALSE
      else let result = (diff * accuracy) div avg; threshold = percent * accuracy div 100 in
      if result \<le> threshold then FALSE else TRUE)"

definition calc_percent :: "INT32U \<Rightarrow> INT32U \<Rightarrow> INT32U \<Rightarrow> INT32U option" where
  "calc_percent dividend divisor scale_factor =
     (if dividend = 0 then None else Some (divisor * scale_factor div dividend))"

definition APPS_VALUE_CHANGED :: "INT16U \<Rightarrow> INT16U \<Rightarrow> BOOL" where
  "APPS_VALUE_CHANGED input last_value =
     int32U_changed_by_threshold (ucast input) (ucast last_value) APPS_VALUE_CHANGE_THRESHOLD"

definition APPS_VALUE_MISMATCH :: "INT16U \<Rightarrow> INT16U \<Rightarrow> BOOL" where
  "APPS_VALUE_MISMATCH input1 input2 =
     int32U_differ_by_percent (ucast input1) (ucast input2)
       APPS_VALUE_DIFFERENCE_PERCENT PERCENT_DIFF_ACCURACY"

definition WS_VALUE_MISMATCH :: "INT16U \<Rightarrow> INT16U \<Rightarrow> BOOL" where
  "WS_VALUE_MISMATCH input1 input2 =
     int32U_differ_by_percent (ucast input1) (ucast input2)
       WSS_VALUE_DIFFERENCE_PERCENT PERCENT_DIFF_ACCURACY"

definition TPS_VALUE_DIFFER_FROM_EXPECTED :: "INT16U \<Rightarrow> INT16U \<Rightarrow> BOOL" where
  "TPS_VALUE_DIFFER_FROM_EXPECTED input expected =
     int32U_changed_by_threshold (ucast input) (ucast expected) TPS_VALUE_TOLERANCE"

definition RPM_VALUE_DIFFER_FROM_EXPECTED :: "INT16U \<Rightarrow> INT16U \<Rightarrow> BOOL" where
  "RPM_VALUE_DIFFER_FROM_EXPECTED input expected =
     int32U_changed_by_threshold (ucast input) (ucast expected) RPM_VALUE_TOLERANCE"

definition TPS_VALUE_MISMATCH :: "INT32U \<Rightarrow> INT32U \<Rightarrow> BOOL" where
  "TPS_VALUE_MISMATCH input1 input2 =
     int32U_changed_by_threshold input1 input2 TPS_VALUE_DIFFERENCE"

section \<open>Reference definition of the percentage test\<close>

text \<open>
  What the comparison means when no intermediate product overflows: the difference of the two
  readings, in parts of \<open>acc\<close> of their mean rounded down, exceeds \<open>percent\<close> per cent.
\<close>

definition differ_ref :: "nat \<Rightarrow> nat \<Rightarrow> nat \<Rightarrow> nat \<Rightarrow> bool" where
  "differ_ref a b percent acc \<longleftrightarrow>
     (let avg = (a + b) div 2 in
      avg \<noteq> 0 \<and> percent * acc div 100 < ((max a b - min a b) * acc) div avg)"

section \<open>The threshold test\<close>

text \<open>The threshold test is exact for all 32-bit inputs: it answers TRUE just when the
  distance of the two values, as integers, is more than the threshold. No subtraction in it
  wraps.\<close>

theorem changed_by_threshold_iff:
  "int32U_changed_by_threshold input last_value threshold = TRUE \<longleftrightarrow>
     \<bar>int (unat input) - int (unat last_value)\<bar> > int (unat threshold)"
  by (simp add: int32U_changed_by_threshold_def unat_order unat_sub_if_size del: of_nat_unat) arith

lemma changed_by_threshold_cases:
  "int32U_changed_by_threshold i l t = FALSE \<longleftrightarrow> int32U_changed_by_threshold i l t \<noteq> TRUE"
  by (simp add: int32U_changed_by_threshold_def)

lemma changed_by_threshold_nat:
  "int32U_changed_by_threshold i l t = TRUE \<longleftrightarrow>
     unat t < max (unat i) (unat l) - min (unat i) (unat l)"
  by (simp add: int32U_changed_by_threshold_def unat_order unat_sub_if_size) arith

lemma changed_by_threshold_sym:
  "int32U_changed_by_threshold a b t = int32U_changed_by_threshold b a t"
  by (auto simp: int32U_changed_by_threshold_def)

section \<open>The percentage test\<close>

lemma unat_half_sum:
  fixes a b :: INT32U
  assumes "unat a + unat b < 2 ^ 32"
  shows "unat (drop_bit (Suc 0) (a + b)) = (unat a + unat b) div 2"
  using assms by (simp add: drop_bit_Suc unat_div unat_add_small)

text \<open>Whenever the two values and the products formed from them fit in 32 bits, the
  percentage test computes its reference: the difference in parts of \<open>accuracy\<close> of the rounded
  mean exceeds the given percentage. The bounds are the exact conditions under which no
  intermediate result of the C code wraps.\<close>

theorem differ_by_percent_ref:
  assumes "unat a + unat b < 2 ^ 32"
    and "(max (unat a) (unat b) - min (unat a) (unat b)) * unat acc < 2 ^ 32"
    and "unat percent * unat acc < 2 ^ 32"
  shows "int32U_differ_by_percent a b percent acc = TRUE \<longleftrightarrow>
           differ_ref (unat a) (unat b) (unat percent) (unat acc)"
proof -
  have gen: "(if l = 0 then FALSE
      else let diff = l - s; avg = drop_bit 1 (l + s) in
      if avg = 0 then FALSE
      else let result = (diff * acc) div avg; threshold = percent * acc div 100 in
      if result \<le> threshold then FALSE else TRUE) = TRUE \<longleftrightarrow>
        differ_ref (unat l) (unat s) (unat percent) (unat acc)"
    if sl: "s \<le> l" and sum: "unat l + unat s < 2 ^ 32"
      and prod: "(unat l - unat s) * unat acc < 2 ^ 32" for l s :: INT32U
  proof -
    have le: "unat s \<le> unat l" using sl by (simp add: word_le_unat)
    have p: "unat ((l - s) * acc) = (unat l - unat s) * unat acc"
      using prod sl by (simp add: unat_mult_small unat_sub_word)
    have t: "unat (percent * acc) = unat percent * unat acc"
      using assms(3) by (simp add: unat_mult_small)
    have h: "unat (drop_bit (Suc 0) (l + s)) = (unat l + unat s) div 2"
      using sum by (rule unat_half_sum)
    have z: "drop_bit (Suc 0) (l + s) = 0 \<longleftrightarrow> (unat l + unat s) div 2 = 0"
      using h by (metis unat_eq_zero)
    have l0: "l = 0 \<longleftrightarrow> unat l = 0" by (simp add: unat_eq_zero)
    show ?thesis
      using le l0
      by (simp add: Let_def differ_ref_def z word_le_unat unat_div p t h not_le max_absorb1
            min_absorb2)
  qed
  show ?thesis
  proof (cases "b < a")
    case True
    then have "b \<le> a" "unat b \<le> unat a" by (auto simp: unat_order)
    with gen [of b a] assms True show ?thesis
      by (simp add: int32U_differ_by_percent_def max_absorb1 min_absorb2)
  next
    case False
    then have "a \<le> b" "unat a \<le> unat b" by (auto simp: unat_order)
    moreover have "differ_ref (unat b) (unat a) p q = differ_ref (unat a) (unat b) p q" for p q
      by (simp add: differ_ref_def add.commute max.commute min.commute)
    ultimately show ?thesis using gen [of a b] assms False
      by (simp add: int32U_differ_by_percent_def max_absorb2 min_absorb1 add.commute)
  qed
qed

theorem differ_by_percent_ref_witness:
  "int32U_differ_by_percent 3 9 50 1000000 = TRUE \<longleftrightarrow> differ_ref 3 9 50 1000000"
  using differ_by_percent_ref [of 3 9 1000000 50] by simp

section \<open>The tests at the thresholds the tasks use\<close>

text \<open>
  The analogue inputs are 12-bit samples (\<open>unat r < 4096\<close>); \<open>adc_max\<close> is the bound.
\<close>

definition is_adc_sample :: "INT16U \<Rightarrow> bool" where
  "is_adc_sample r \<longleftrightarrow> r < 4096"

lemma is_adc_sample_unat: "is_adc_sample r \<Longrightarrow> unat r \<le> 4095"
  by (simp add: is_adc_sample_def unat_order)

lemma max_minus_min: "max a b - min a b = (if b \<le> a then a - b else b - a)" for a b :: nat
  by (simp add: max_def min_def)

lemma differ_ref_adc:
  assumes "is_adc_sample a" and "is_adc_sample b" and "unat (percent :: INT32U) \<le> 4294"
  shows "int32U_differ_by_percent (ucast a) (ucast b) percent 1000000 = TRUE \<longleftrightarrow>
           differ_ref (unat a) (unat b) (unat percent) 1000000"
proof -
  note ab = is_adc_sample_unat [OF assms(1)] is_adc_sample_unat [OF assms(2)]
  have "(max (unat a) (unat b) - min (unat a) (unat b)) * 1000000 \<le> 4095 * 1000000"
    using ab by (simp add: max_minus_min) arith
  then show ?thesis
    using differ_by_percent_ref [of "ucast a" "ucast b" "1000000" percent] ab assms(3) by simp
qed

lemma ratio_above_250:
  fixes l s m :: nat
  assumes "s \<le> l" and m: "2 * m \<le> l + s" "l + s \<le> 2 * m + 1"
  shows "0 < m \<and> 2500001 * m \<le> (l - s) * 1000000 \<longleftrightarrow> l = 3 \<and> s = 0"
proof -
  obtain k where l: "l = s + k" using assms(1) le_Suc_ex by blast
  show ?thesis
  proof
    assume "0 < m \<and> 2500001 * m \<le> (l - s) * 1000000"
    then have p: "0 < m" "2500001 * m \<le> k * 1000000" using l by auto
    have s0: "s = 0" using p m l by linarith
    have m1: "m = 1" using p m l by linarith
    then show "l = 3 \<and> s = 0" using p m l s0 by linarith
  next
    assume "l = 3 \<and> s = 0"
    then have "m = 1" using m by linarith
    with \<open>l = 3 \<and> s = 0\<close> show "0 < m \<and> 2500001 * m \<le> (l - s) * 1000000" by simp
  qed
qed

lemma differ_ref_250: "differ_ref a b 250 1000000 \<longleftrightarrow> (a = 0 \<and> b = 3) \<or> (a = 3 \<and> b = 0)"
proof -
  define m where "m = (a + b) div 2"
  define d where "d = max a b - min a b"
  have m: "2 * m \<le> a + b" "a + b \<le> 2 * m + 1" by (auto simp: m_def)
  have "differ_ref a b 250 1000000 \<longleftrightarrow> 0 < m \<and> 2500001 \<le> d * 1000000 div m"
    by (auto simp: differ_ref_def Let_def m_def d_def)
  also have "\<dots> \<longleftrightarrow> 0 < m \<and> 2500001 * m \<le> d * 1000000"
    by (auto simp: less_eq_div_iff_mult_less_eq)
  also have "\<dots> \<longleftrightarrow> (a = 0 \<and> b = 3) \<or> (a = 3 \<and> b = 0)"
  proof (cases "b \<le> a")
    case True
    then have "d = a - b" by (simp add: d_def max_minus_min)
    with ratio_above_250 [OF True, of m] True m show ?thesis by (auto simp: add.commute)
  next
    case False
    then have "d = b - a" by (simp add: d_def max_minus_min)
    with ratio_above_250 [of a b m] False m show ?thesis by (auto simp: add.commute)
  qed
  finally show ?thesis .
qed

text \<open>C39: The accelerator pedal plausibility check can only fire on one pair of samples: for any
  two 12-bit readings the mismatch test with the configured 250 per cent is TRUE just when one
  reading is 0 and the other is 3. The relative difference of two non-negative numbers is at
  most 200 per cent of their mean, and only the rounding of the mean lets one pair exceed it.\<close>

theorem apps_mismatch_only_0_3:
  assumes "is_adc_sample a" and "is_adc_sample b"
  shows "APPS_VALUE_MISMATCH a b = TRUE \<longleftrightarrow> (a = 0 \<and> b = 3) \<or> (a = 3 \<and> b = 0)"
proof -
  have "APPS_VALUE_MISMATCH a b = TRUE \<longleftrightarrow> differ_ref (unat a) (unat b) 250 1000000"
    using differ_ref_adc [OF assms, of 250] by (simp add: APPS_VALUE_MISMATCH_def)
  then show ?thesis by (simp add: differ_ref_250 word_unat_eq_iff)
qed

theorem apps_mismatch_only_0_3_witness:
  "APPS_VALUE_MISMATCH 660 4095 \<noteq> TRUE"
  using apps_mismatch_only_0_3 [of 660 4095] by (simp add: is_adc_sample_def)

text \<open>The throttle position plausibility check never fires: no two 12-bit readings differ by
  more than the configured 5500 counts.\<close>

lemma tps_mismatch_never:
  assumes "is_adc_sample a" and "is_adc_sample b"
  shows "TPS_VALUE_MISMATCH (ucast a) (ucast b) = FALSE"
  using is_adc_sample_unat [OF assms(1)] is_adc_sample_unat [OF assms(2)]
  by (simp add: TPS_VALUE_MISMATCH_def changed_by_threshold_cases changed_by_threshold_nat
        max_minus_min) arith

lemma tps_mismatch_never_witness: "TPS_VALUE_MISMATCH (ucast (0 :: INT16U)) (ucast (4095 :: INT16U)) = FALSE"
  using tps_mismatch_never [of 0 4095] by (simp add: is_adc_sample_def)

text \<open>The wheel slip test is the exact 50 per cent comparison on 12-bit wheel speeds.\<close>

lemma ws_mismatch_adc:
  assumes "is_adc_sample a" and "is_adc_sample b"
  shows "WS_VALUE_MISMATCH a b = TRUE \<longleftrightarrow>
     (let avg = (unat a + unat b) div 2; d = max (unat a) (unat b) - min (unat a) (unat b) in
      avg \<noteq> 0 \<and> 500001 * avg \<le> 1000000 * d)"
proof -
  have "WS_VALUE_MISMATCH a b = TRUE \<longleftrightarrow> differ_ref (unat a) (unat b) 50 1000000"
    using differ_ref_adc [OF assms, of 50] by (simp add: WS_VALUE_MISMATCH_def)
  also have "\<dots> \<longleftrightarrow> (let avg = (unat a + unat b) div 2;
      d = max (unat a) (unat b) - min (unat a) (unat b) in
      avg \<noteq> 0 \<and> 500001 \<le> d * 1000000 div avg)"
    by (auto simp: differ_ref_def Let_def)
  also have "\<dots> \<longleftrightarrow> (let avg = (unat a + unat b) div 2;
      d = max (unat a) (unat b) - min (unat a) (unat b) in
      avg \<noteq> 0 \<and> 500001 * avg \<le> 1000000 * d)"
    by (auto simp: Let_def less_eq_div_iff_mult_less_eq mult.commute)
  finally show ?thesis .
qed

lemma ws_mismatch_adc_witness: "WS_VALUE_MISMATCH 1000 2000 = TRUE"
  using ws_mismatch_adc [of 1000 2000] by (simp add: is_adc_sample_def)

end
