(* ===== verification/Throttle_Data.thy ===== *)
theory Throttle_Data imports Config begin

text \<open>
  \<open>throttle_data.c\<close>: the three 91-entry tables that relate a throttle angle in degrees to the
  pedal sensor value, the throttle sensor value and the motor duty cycle, their initialisation
  loop, and the lookups. A table is a list of 16-bit words; a read outside its bounds is
  \<open>None\<close>. The lemmas give the tables in closed form, the lookups as arithmetic formulas for
  every 16-bit reading, and the round trips between them.
\<close>

section \<open>Tables and their initialisation\<close>

record throttle_tables =
  throttle_deg_apps_val_map :: "INT16U list"
  throttle_deg_tps_val_map :: "INT16U list"
  throttle_deg_open_pwm_duty_cycle :: "INT16U list"

definition zero_tables :: throttle_tables where
  "zero_tables = \<lparr> throttle_deg_apps_val_map = replicate (MAX_THROTTLE_DEG + 1) 0,
     throttle_deg_tps_val_map = replicate (MAX_THROTTLE_DEG + 1) 0,
     throttle_deg_open_pwm_duty_cycle = replicate (MAX_THROTTLE_DEG + 1) 0 \<rparr>"

definition apps_val_inc_by_1_deg :: INT16U where
  "apps_val_inc_by_1_deg =
     (APPS_VALID_VALUE_FULLY_PRESSED - APPS_VALID_VALUE_FULLY_RELEASED) div MAX_THROTTLE_DEG"

definition tps_val_inc_by_1_deg :: INT16U where
  "tps_val_inc_by_1_deg =
     (TPS_VALID_VALUE_FULLY_OPENED - TPS_VALID_VALUE_FULLY_CLOSED) div MAX_THROTTLE_DEG"

definition deg_inc_by_1_percent_duty :: INT16U where
  "deg_inc_by_1_percent_duty = MAX_THROTTLE_DEG div
     (MOTOR_PWM_DUTY_CYCLE_FULLY_CLOSE - MOTOR_PWM_DUTY_CYCLE_FULLY_OPEN) + 1"

text \<open>The body of the \<open>for\<close> loop for index \<open>i\<close>, and the loop from \<open>i\<close> to 89.\<close>

definition throttle_data_body :: "nat \<Rightarrow> throttle_tables \<Rightarrow> throttle_tables" where
  "throttle_data_body i t =
     (let a = throttle_deg_apps_val_map t; p = throttle_deg_tps_val_map t;
          d = throttle_deg_open_pwm_duty_cycle t in
      t\<lparr> throttle_deg_apps_val_map := a[i := a ! (i - 1) + apps_val_inc_by_1_deg],
         throttle_deg_tps_val_map := p[i := p ! (i - 1) + tps_val_inc_by_1_deg],
         throttle_deg_open_pwm_duty_cycle :=
           (if of_nat i mod deg_inc_by_1_percent_duty = 0 then d[i := d ! (i - 1) - 1]
            else d[i := d ! (i - 1)]) \<rparr>)"

function throttle_data_loop :: "nat \<Rightarrow> throttle_tables \<Rightarrow> throttle_tables" where
  "throttle_data_loop i t =
     (if i < MAX_THROTTLE_DEG then throttle_data_loop (i + 1) (throttle_data_body i t) else t)"
  by pat_completeness auto
termination by (relation "measure (\<lambda>(i, t). 90 - i)") auto

declare throttle_data_loop.simps [simp del]

definition throttle_data_init :: "throttle_tables \<Rightarrow> throttle_tables" where
  "throttle_data_init t0 =
     (let t1 = t0\<lparr> throttle_deg_apps_val_map := (throttle_deg_apps_val_map t0)[0 := APPS_VALID_VALUE_FULLY_RELEASED],
                   throttle_deg_tps_val_map := (throttle_deg_tps_val_map t0)[0 := TPS_VALID_VALUE_FULLY_CLOSED],
                   throttle_deg_open_pwm_duty_cycle :=
                     (throttle_deg_open_pwm_duty_cycle t0)[0 := MOTOR_PWM_DUTY_CYCLE_FULLY_CLOSE] \<rparr>;
          t2 = throttle_data_loop 1 t1 in
      t2\<lparr> throttle_deg_apps_val_map := (throttle_deg_apps_val_map t2)[MAX_THROTTLE_DEG := APPS_VALID_VALUE_FULLY_PRESSED],
          throttle_deg_tps_val_map := (throttle_deg_tps_val_map t2)[MAX_THROTTLE_DEG := TPS_VALID_VALUE_FULLY_OPENED],
          throttle_deg_open_pwm_duty_cycle :=
            (throttle_deg_open_pwm_duty_cycle t2)[MAX_THROTTLE_DEG := MOTOR_PWM_DUTY_CYCLE_FULLY_OPEN] \<rparr>)"

section \<open>Lookups\<close>

text \<open>
  The search loop the three lookups share: \<open>Some (Some u)\<close> when the loop returns at \<open>u\<close>,
  \<open>Some None\<close> when it runs to its end, \<open>None\<close> for a read outside the table. As in C, the
  lower bound is read only when the upper comparison holds.
\<close>

function scan_map :: "INT16U list \<Rightarrow> INT16U \<Rightarrow> nat \<Rightarrow> nat option option" where
  "scan_map m reading upper =
     (if upper < MAX_THROTTLE_DEG then do {
        hi \<leftarrow> array_get m upper;
        if reading \<le> hi then do {
          lo \<leftarrow> array_get m (upper - 1);
          if reading > lo then Some (Some upper) else scan_map m reading (upper + 1)
        } else scan_map m reading (upper + 1)
      } else Some None)"
  by pat_completeness auto
termination by (relation "measure (\<lambda>(m, r, u). 90 - u)") auto

declare scan_map.simps [simp del]

definition get_throttle_open_deg_from_apps :: "throttle_tables \<Rightarrow> INT16U \<Rightarrow> INT16U option" where
  "get_throttle_open_deg_from_apps t apps_reading =
     (if apps_reading \<ge> APPS_VALID_VALUE_FULLY_PRESSED then Some MAX_THROTTLE_DEG
      else if apps_reading \<le> APPS_VALID_VALUE_FULLY_RELEASED then Some MIN_THROTTLE_DEG
      else do {
        r \<leftarrow> scan_map (throttle_deg_apps_val_map t) apps_reading 1;
        Some (case r of Some upper \<Rightarrow> of_nat upper | None \<Rightarrow> MAX_THROTTLE_DEG)
      })"

definition get_tps_from_apps :: "throttle_tables \<Rightarrow> INT16U \<Rightarrow> INT16U option" where
  "get_tps_from_apps t apps_reading =
     (if apps_reading \<ge> APPS_VALID_VALUE_FULLY_PRESSED
        then array_get (throttle_deg_tps_val_map t) MAX_THROTTLE_DEG
      else if apps_reading \<le> APPS_VALID_VALUE_FULLY_RELEASED
        then array_get (throttle_deg_tps_val_map t) MIN_THROTTLE_DEG
      else do {
        r \<leftarrow> scan_map (throttle_deg_apps_val_map t) apps_reading 1;
        (case r of Some upper \<Rightarrow> array_get (throttle_deg_tps_val_map t) upper
                 | None \<Rightarrow> array_get (throttle_deg_tps_val_map t) MAX_THROTTLE_DEG)
      })"

definition get_throttle_open_deg_from_tps :: "throttle_tables \<Rightarrow> INT16U \<Rightarrow> INT16U option" where
  "get_throttle_open_deg_from_tps t tps_reading =
     (if tps_reading \<ge> TPS_VALID_VALUE_FULLY_OPENED then Some MAX_THROTTLE_DEG
      else if tps_reading \<le> TPS_VALID_VALUE_FULLY_CLOSED then Some MIN_THROTTLE_DEG
      else do {
        r \<leftarrow> scan_map (throttle_deg_tps_val_map t) tps_reading 1;
        Some (case r of Some upper \<Rightarrow> of_nat upper | None \<Rightarrow> MAX_THROTTLE_DEG)
      })"

definition get_duty_cycle_from_throttle_open_deg :: "throttle_tables \<Rightarrow> INT16U \<Rightarrow> INT16U option" where
  "get_duty_cycle_from_throttle_open_deg t deg =
     (let d = (if deg > MAX_THROTTLE_DEG then MAX_THROTTLE_DEG else deg) in
      array_get (throttle_deg_open_pwm_duty_cycle t) (unat d))"

definition get_duty_cycle_from_throttle_close_deg :: "throttle_tables \<Rightarrow> INT16U \<Rightarrow> INT16U option" where
  "get_duty_cycle_from_throttle_close_deg t deg =
     array_get (throttle_deg_open_pwm_duty_cycle t) MOTOR_PWM_DUTY_CYCLE_FULLY_OPEN"

definition get_tps_from_throttle_open_deg :: "throttle_tables \<Rightarrow> INT16U \<Rightarrow> INT16U option" where
  "get_tps_from_throttle_open_deg t deg =
     (let d = (if deg > MAX_THROTTLE_DEG then MAX_THROTTLE_DEG else deg) in
      array_get (throttle_deg_tps_val_map t) (unat d))"

section \<open>The tables in closed form\<close>

text \<open>The tables as the tasks see them: \<open>main\<close> runs the initialisation on zeroed storage.\<close>

definition the_tables :: throttle_tables where
  "the_tables = throttle_data_init zero_tables"

lemma increments [simp]:
  "apps_val_inc_by_1_deg = 27" "tps_val_inc_by_1_deg = 30" "deg_inc_by_1_percent_duty = 1"
  by (simp_all add: apps_val_inc_by_1_deg_def tps_val_inc_by_1_deg_def deg_inc_by_1_percent_duty_def)

text \<open>The loop invariant: before iteration \<open>i\<close> the entries below \<open>i\<close> have their final value.\<close>

definition filled :: "nat \<Rightarrow> throttle_tables \<Rightarrow> bool" where
  "filled i t \<longleftrightarrow>
     length (throttle_deg_apps_val_map t) = 91 \<and> length (throttle_deg_tps_val_map t) = 91 \<and>
     length (throttle_deg_open_pwm_duty_cycle t) = 91 \<and>
     (\<forall>j<i. throttle_deg_apps_val_map t ! j = of_nat (660 + 27 * j) \<and>
            throttle_deg_tps_val_map t ! j = of_nat (850 + 30 * j) \<and>
            throttle_deg_open_pwm_duty_cycle t ! j = of_nat (580 - j))"

lemma filled_body:
  assumes "filled i t" "0 < i" "i < 90"
  shows "filled (Suc i) (throttle_data_body i t)"
proof -
  obtain k where k: "i = Suc k" using assms(2) by (cases i) auto
  have "(of_nat (580 - Suc k) :: INT16U) = of_nat (580 - k) - 1"
    using assms(3) k by (simp add: of_nat_diff)
  then show ?thesis using assms
    by (auto simp: filled_def throttle_data_body_def Let_def k less_Suc_eq nth_list_update)
qed

lemma filled_loop:
  "filled i t \<Longrightarrow> 0 < i \<Longrightarrow> i \<le> 90 \<Longrightarrow> filled 90 (throttle_data_loop i t)"
proof (induction i t rule: throttle_data_loop.induct)
  case (1 i t)
  show ?case
  proof (cases "i < 90")
    case True
    with "1.prems" have "filled (Suc i) (throttle_data_body i t)" by (simp add: filled_body)
    with 1 True show ?thesis by (subst throttle_data_loop.simps) simp
  next
    case False
    with "1.prems" show ?thesis by (subst throttle_data_loop.simps) simp
  qed
qed

lemma filled_nth:
  assumes "filled 90 t" "i < 90"
  shows "throttle_deg_apps_val_map t ! i = of_nat (660 + 27 * i)"
    "throttle_deg_tps_val_map t ! i = of_nat (850 + 30 * i)"
    "throttle_deg_open_pwm_duty_cycle t ! i = of_nat (580 - i)"
  using assms by (auto simp: filled_def)

lemma the_tables_closed:
  "throttle_deg_apps_val_map the_tables =
     map (\<lambda>i. if i = 90 then 3100 else of_nat (660 + 27 * i)) [0..<91]"
  "throttle_deg_tps_val_map the_tables =
     map (\<lambda>i. if i = 90 then 3600 else of_nat (850 + 30 * i)) [0..<91]"
  "throttle_deg_open_pwm_duty_cycle the_tables =
     map (\<lambda>i. if i = 90 then 300 else of_nat (580 - i)) [0..<91]"
proof -
  define t1 where "t1 = zero_tables\<lparr>
    throttle_deg_apps_val_map := (throttle_deg_apps_val_map zero_tables)[0 := 660],
    throttle_deg_tps_val_map := (throttle_deg_tps_val_map zero_tables)[0 := 850],
    throttle_deg_open_pwm_duty_cycle := (throttle_deg_open_pwm_duty_cycle zero_tables)[0 := 580]\<rparr>"
  define t2 where "t2 = throttle_data_loop 1 t1"
  have "filled 1 t1" by (simp add: filled_def t1_def zero_tables_def)
  then have f: "filled 90 t2" unfolding t2_def by (rule filled_loop) simp_all
  then have len: "length (throttle_deg_apps_val_map t2) = 91" "length (throttle_deg_tps_val_map t2) = 91"
    "length (throttle_deg_open_pwm_duty_cycle t2) = 91" by (auto simp: filled_def)
  have t: "the_tables = t2\<lparr>
    throttle_deg_apps_val_map := (throttle_deg_apps_val_map t2)[90 := 3100],
    throttle_deg_tps_val_map := (throttle_deg_tps_val_map t2)[90 := 3600],
    throttle_deg_open_pwm_duty_cycle := (throttle_deg_open_pwm_duty_cycle t2)[90 := 300]\<rparr>"
    by (simp add: the_tables_def throttle_data_init_def Let_def t1_def t2_def)
  show "throttle_deg_apps_val_map the_tables =
      map (\<lambda>i. if i = 90 then 3100 else of_nat (660 + 27 * i)) [0..<91]"
    by (rule nth_equalityI) (auto simp: t len nth_list_update filled_nth [OF f])
  show "throttle_deg_tps_val_map the_tables =
      map (\<lambda>i. if i = 90 then 3600 else of_nat (850 + 30 * i)) [0..<91]"
    by (rule nth_equalityI) (auto simp: t len nth_list_update filled_nth [OF f])
  show "throttle_deg_open_pwm_duty_cycle the_tables =
      map (\<lambda>i. if i = 90 then 300 else of_nat (580 - i)) [0..<91]"
    by (rule nth_equalityI) (auto simp: t len nth_list_update filled_nth [OF f])
qed

section \<open>The search loop on an affine table\<close>

text \<open>
  On a table that grows by \<open>c\<close> per entry from \<open>b\<close>, the loop returns the rounded-up quotient
  of the distance from \<open>b\<close>, or runs to its end when that is 90 or more.
\<close>

lemma ceil_div_step:
  fixes b c u r :: nat
  assumes "0 < c" "b + c * (u - 1) < r" "r \<le> b + c * u" "0 < u"
  shows "(r - b + c - 1) div c = u"
proof (rule div_nat_eqI)
  obtain k where u: "u = Suc k" using assms(4) by (cases u) auto
  then show "c * u \<le> r - b + c - 1" using assms by (simp add: algebra_simps)
  show "r - b + c - 1 < c * Suc u" using assms by (simp add: algebra_simps)
qed

lemma ceil_div_ge:
  fixes b c u r :: nat
  assumes "0 < c" "b + c * u < r"
  shows "Suc u \<le> (r - b + c - 1) div c"
  using assms by (simp add: less_eq_div_iff_mult_less_eq algebra_simps)

lemma scan_map_affine:
  assumes tab: "\<And>i. i < 90 \<Longrightarrow> array_get m i = Some (of_nat (b + c * i))"
    and "0 < c" and nowrap: "b + c * 90 < 65536"
    and "0 < u" "u \<le> 90" "b + c * (u - 1) < unat r"
  shows "scan_map m r u =
    Some (let k = (unat r - b + c - 1) div c in if k < 90 then Some k else None)"
  using assms(4-6)
proof (induction "90 - u" arbitrary: u)
  case 0
  then have u: "u = 90" by simp
  have "Suc 89 \<le> (unat r - b + c - 1) div c"
    by (rule ceil_div_ge) (use "0.prems" u \<open>0 < c\<close> in auto)
  with u show ?case by (subst scan_map.simps) (simp add: Let_def)
next
  case (Suc n)
  then have u: "u < 90" by simp
  have un: "unat (of_nat (b + c * i) :: INT16U) = b + c * i" if "i < 90" for i
  proof -
    have "c * i \<le> c * 90" using that by simp
    then have "b + c * i < 65536" using nowrap by linarith
    then show ?thesis by (simp add: unat_of_nat del: of_nat_add of_nat_mult)
  qed
  have hi: "r \<le> of_nat (b + c * u) \<longleftrightarrow> unat r \<le> b + c * u"
    using un [of u] u by (simp add: word_le_unat del: of_nat_add of_nat_mult)
  have lo: "of_nat (b + c * (u - 1)) < r"
    using un [of "u - 1"] u Suc.prems by (simp add: word_less_unat del: of_nat_add of_nat_mult)
  show ?case
  proof (cases "unat r \<le> b + c * u")
    case True
    have "(unat r - b + c - 1) div c = u"
      by (rule ceil_div_step) (use Suc.prems \<open>0 < c\<close> True in auto)
    then show ?thesis
      by (subst scan_map.simps)
        (use u hi lo True tab [of u] tab [of "u - 1"] in \<open>simp del: of_nat_add of_nat_mult array_get_Some\<close>)
  next
    case False
    have "scan_map m r (Suc u) =
        Some (let k = (unat r - b + c - 1) div c in if k < 90 then Some k else None)"
      by (rule Suc.hyps(1)) (use Suc.hyps(2) u False in auto)
    then show ?thesis
      by (subst scan_map.simps)
        (use u hi False tab [of u] in \<open>simp del: of_nat_add of_nat_mult array_get_Some\<close>)
  qed
qed

lemma apps_table_get:
  "i < 90 \<Longrightarrow> array_get (throttle_deg_apps_val_map the_tables) i = Some (of_nat (660 + 27 * i))"
  by (simp add: the_tables_closed array_get_def)

lemma tps_table_get:
  "i < 90 \<Longrightarrow> array_get (throttle_deg_tps_val_map the_tables) i = Some (of_nat (850 + 30 * i))"
  by (simp add: the_tables_closed array_get_def)

lemma tps_table_end: "array_get (throttle_deg_tps_val_map the_tables) 90 = Some 3600"
  by (simp add: the_tables_closed array_get_def)

lemma scan_apps:
  assumes "\<not> 3100 \<le> r" "\<not> r \<le> (660 :: INT16U)"
  shows "scan_map (throttle_deg_apps_val_map the_tables) r (Suc 0) =
    Some (let k = (unat r - 660 + 26) div 27 in if k < 90 then Some k else None)"
  using scan_map_affine [of "throttle_deg_apps_val_map the_tables" 660 27 1 r] assms apps_table_get
  by (simp add: unat_order)

lemma scan_tps:
  assumes "\<not> 3600 \<le> r" "\<not> r \<le> (850 :: INT16U)"
  shows "scan_map (throttle_deg_tps_val_map the_tables) r (Suc 0) =
    Some (let k = (unat r - 850 + 29) div 30 in if k < 90 then Some k else None)"
  using scan_map_affine [of "throttle_deg_tps_val_map the_tables" 850 30 1 r] assms tps_table_get
  by (simp add: unat_order)

section \<open>The lookups as formulas\<close>

definition apps_deg :: "nat \<Rightarrow> nat" where
  "apps_deg r = min 90 ((r - 660 + 26) div 27)"

definition tps_deg :: "nat \<Rightarrow> nat" where
  "tps_deg r = min 90 ((r - 850 + 29) div 30)"

definition tps_of_deg :: "nat \<Rightarrow> nat" where
  "tps_of_deg d = (if d \<ge> 90 then 3600 else 850 + 30 * d)"

text \<open>For every 16-bit pedal reading the table search returns, without reading outside the
  tables, the angle of the closed formula: the distance from the released position divided by
  27 and rounded up, at most 90 degrees.\<close>

theorem open_deg_from_apps_formula:
  "get_throttle_open_deg_from_apps the_tables r = Some (of_nat (apps_deg (unat r)))"
proof -
  consider "3100 \<le> r" | "r \<le> 660" | "\<not> 3100 \<le> r" "\<not> r \<le> 660" by blast
  then show ?thesis
  proof cases
    case 1
    then have "90 \<le> (unat r - 660 + 26) div 27" by (simp add: word_le_unat)
    with 1 show ?thesis by (simp add: get_throttle_open_deg_from_apps_def apps_deg_def)
  next
    case 2
    then have "unat r - 660 = 0" by (simp add: word_le_unat)
    moreover from 2 have "\<not> 3100 \<le> r" by (auto simp: word_le_unat)
    ultimately show ?thesis using 2 by (simp add: get_throttle_open_deg_from_apps_def apps_deg_def)
  next
    case 3
    then have "660 < unat r" by (simp add: word_le_unat)
    then have "unat r - 660 + 26 = unat r - 634" by simp
    with 3 show ?thesis
      by (simp add: get_throttle_open_deg_from_apps_def scan_apps apps_deg_def Let_def min_def)
  qed
qed

text \<open>For every 16-bit throttle sensor reading the table search returns, without reading
  outside the tables, the rounded-up distance from the closed position in steps of 30, at most
  90 degrees.\<close>

lemma open_deg_from_tps_formula:
  "get_throttle_open_deg_from_tps the_tables r = Some (of_nat (tps_deg (unat r)))"
proof -
  consider "3600 \<le> r" | "r \<le> 850" | "\<not> 3600 \<le> r" "\<not> r \<le> 850" by blast
  then show ?thesis
  proof cases
    case 1
    then have "90 \<le> (unat r - 850 + 29) div 30" by (simp add: word_le_unat)
    with 1 show ?thesis by (simp add: get_throttle_open_deg_from_tps_def tps_deg_def)
  next
    case 2
    then have "unat r - 850 = 0" by (simp add: word_le_unat)
    moreover from 2 have "\<not> 3600 \<le> r" by (auto simp: word_le_unat)
    ultimately show ?thesis using 2 by (simp add: get_throttle_open_deg_from_tps_def tps_deg_def)
  next
    case 3
    then have "850 < unat r" by (simp add: word_le_unat)
    then have "unat r - 850 + 29 = unat r - 821" by simp
    with 3 show ?thesis
      by (simp add: get_throttle_open_deg_from_tps_def scan_tps tps_deg_def Let_def min_def)
  qed
qed

lemma tps_from_deg:
  "get_tps_from_throttle_open_deg the_tables d = Some (of_nat (tps_of_deg (unat d)))"
proof (cases "90 \<le> d")
  case True
  then have "d > 90 \<or> d = 90" by (auto simp: unat_order word_unat_eq_iff)
  with True show ?thesis
    by (auto simp add: get_tps_from_throttle_open_deg_def Let_def tps_of_deg_def word_le_unat tps_table_end)
next
  case False
  then have "\<not> d > 90" "unat d < 90" by (auto simp: unat_order)
  with False show ?thesis
    by (simp add: get_tps_from_throttle_open_deg_def Let_def tps_of_deg_def tps_table_get)
qed

text \<open>The expected throttle sensor value for a pedal reading is the table value at the angle
  of that reading: \<open>get_tps_from_apps\<close>, which searches the pedal table itself, agrees with
  composing the angle lookup and the angle-to-sensor lookup, on every 16-bit reading.\<close>

theorem tps_from_apps_compose:
  "get_tps_from_apps the_tables r =
     do { d \<leftarrow> get_throttle_open_deg_from_apps the_tables r;
          get_tps_from_throttle_open_deg the_tables d }"
proof -
  have u: "unat (of_nat (apps_deg (unat r)) :: INT16U) = apps_deg (unat r)"
    by (simp add: apps_deg_def unat_of_nat min_def)
  have "get_tps_from_apps the_tables r = Some (of_nat (tps_of_deg (apps_deg (unat r))))"
  proof -
    consider "3100 \<le> r" | "r \<le> 660" | "\<not> 3100 \<le> r" "\<not> r \<le> 660" by blast
    then show ?thesis
    proof cases
      case 1
      then have "90 \<le> (unat r - 660 + 26) div 27" by (simp add: word_le_unat)
      with 1 show ?thesis
        by (simp add: get_tps_from_apps_def apps_deg_def tps_of_deg_def tps_table_end)
    next
      case 2
      then have "unat r - 660 = 0" by (simp add: word_le_unat)
      moreover from 2 have "\<not> 3100 \<le> r" by (auto simp: word_le_unat)
      ultimately show ?thesis
        using 2 by (simp add: get_tps_from_apps_def apps_deg_def tps_of_deg_def tps_table_get)
    next
      case 3
      then have "660 < unat r" by (simp add: word_le_unat)
      then have "unat r - 660 + 26 = unat r - 634" by simp
      with 3 show ?thesis
        by (simp add: get_tps_from_apps_def scan_apps apps_deg_def tps_of_deg_def Let_def min_def
              tps_table_end tps_table_get)
    qed
  qed
  with u show ?thesis by (simp add: open_deg_from_apps_formula tps_from_deg)
qed

section \<open>Round trip and monotonicity\<close>

text \<open>Looking up the sensor value expected at an angle and reading it back gives the angle:
  for each of the 91 angles the two throttle sensor lookups are inverse to each other.\<close>

theorem tps_deg_roundtrip:
  assumes "d \<le> 90"
  shows "do { v \<leftarrow> get_tps_from_throttle_open_deg the_tables d;
              get_throttle_open_deg_from_tps the_tables v } = Some d"
proof -
  have d: "unat d \<le> 90" using assms by (simp add: word_le_unat)
  then have "tps_of_deg (unat d) < 65536" by (simp add: tps_of_deg_def)
  then have u: "unat (of_nat (tps_of_deg (unat d)) :: INT16U) = tps_of_deg (unat d)"
    by (simp add: unat_of_nat)
  have "tps_deg (tps_of_deg (unat d)) = unat d"
    using d by (auto simp: tps_deg_def tps_of_deg_def min_def)
  then show ?thesis by (simp add: tps_from_deg open_deg_from_tps_formula u)
qed

theorem tps_deg_roundtrip_witness:
  "do { v \<leftarrow> get_tps_from_throttle_open_deg the_tables 45;
        get_throttle_open_deg_from_tps the_tables v } = Some 45"
  by (rule tps_deg_roundtrip) simp

lemma apps_deg_mono: "r \<le> r' \<Longrightarrow> apps_deg r \<le> apps_deg r'"
  unfolding apps_deg_def by (intro min.mono order_refl div_le_mono add_le_mono diff_le_mono)

lemma duty_table_get:
  "i < 90 \<Longrightarrow> array_get (throttle_deg_open_pwm_duty_cycle the_tables) i = Some (of_nat (580 - i))"
  "array_get (throttle_deg_open_pwm_duty_cycle the_tables) 90 = Some 300"
  by (simp_all add: the_tables_closed array_get_def)

definition duty_of_deg :: "nat \<Rightarrow> nat" where
  "duty_of_deg d = (if d \<ge> 90 then 300 else 580 - d)"

lemma duty_from_deg:
  "get_duty_cycle_from_throttle_open_deg the_tables d = Some (of_nat (duty_of_deg (unat d)))"
proof (cases "90 \<le> d")
  case True
  then have "d > 90 \<or> d = 90" by (auto simp: unat_order word_unat_eq_iff)
  with True show ?thesis
    by (auto simp: get_duty_cycle_from_throttle_open_deg_def Let_def duty_of_deg_def word_le_unat
          duty_table_get)
next
  case False
  then have "\<not> d > 90" "unat d < 90" by (auto simp: unat_order)
  with False show ?thesis
    by (simp add: get_duty_cycle_from_throttle_open_deg_def Let_def duty_of_deg_def duty_table_get)
qed

text \<open>The pedal drives the motor in the right direction: a pedal reading that is not smaller
  gives a motor duty cycle that is not larger (a smaller duty cycle opens the plate further), and
  every duty cycle the pedal can ask for lies between the fully open and the fully closed one.\<close>

theorem pedal_to_duty_antimono:
  assumes "r \<le> r'"
  shows "\<exists>c c'.
    do { d \<leftarrow> get_throttle_open_deg_from_apps the_tables r;
         get_duty_cycle_from_throttle_open_deg the_tables d } = Some c \<and>
    do { d \<leftarrow> get_throttle_open_deg_from_apps the_tables r';
         get_duty_cycle_from_throttle_open_deg the_tables d } = Some c' \<and>
    MOTOR_PWM_DUTY_CYCLE_FULLY_OPEN \<le> c' \<and> c' \<le> c \<and> c \<le> MOTOR_PWM_DUTY_CYCLE_FULLY_CLOSE"
proof -
  let ?d = "\<lambda>q. apps_deg (unat q)"
  have u: "unat (of_nat (?d q) :: INT16U) = ?d q" for q :: INT16U
    by (simp add: apps_deg_def unat_of_nat min_def)
  have v: "unat (of_nat (duty_of_deg k) :: INT16U) = duty_of_deg k" for k
    by (simp add: duty_of_deg_def unat_of_nat)
  have "?d r \<le> ?d r'" using assms by (intro apps_deg_mono) (simp add: word_le_unat)
  then have "300 \<le> duty_of_deg (?d r')" "duty_of_deg (?d r') \<le> duty_of_deg (?d r)"
    "duty_of_deg (?d r) \<le> 580" by (auto simp: duty_of_deg_def)
  then show ?thesis
    by (simp add: open_deg_from_apps_formula duty_from_deg u v word_le_unat)
qed

theorem pedal_to_duty_antimono_witness:
  "\<exists>c c'.
    do { d \<leftarrow> get_throttle_open_deg_from_apps the_tables 660;
         get_duty_cycle_from_throttle_open_deg the_tables d } = Some c \<and>
    do { d \<leftarrow> get_throttle_open_deg_from_apps the_tables 2000;
         get_duty_cycle_from_throttle_open_deg the_tables d } = Some c' \<and>
    MOTOR_PWM_DUTY_CYCLE_FULLY_OPEN \<le> c' \<and> c' \<le> c \<and> c \<le> MOTOR_PWM_DUTY_CYCLE_FULLY_CLOSE"
  by (rule pedal_to_duty_antimono) simp

lemma close_deg_out_of_bounds: "get_duty_cycle_from_throttle_close_deg the_tables deg = None"
  by (simp add: get_duty_cycle_from_throttle_close_deg_def the_tables_closed)

end
