(* ===== verification/Pwm_Gen.thy ===== *)
theory Pwm_Gen imports Config begin

text \<open>
  \<open>pwm_gen.c\<close> and \<open>get_tps_sensor_output_pwm\<close> of \<open>util.c\<close>: the software copy of a hardware
  PWM generator and the writes to its three registers. Device registers are the record \<open>mmio\<close>:
  what was last stored at an address with a byte or a word access. An operation takes the module
  and the registers and returns both updated. The block that \<open>malloc\<close> returns is an argument
  of \<open>get_new_pwm_module\<close>: \<open>None\<close> is the null pointer, \<open>Some m\<close> a block whose uninitialised
  contents read as \<open>m\<close>. The lemmas show that the registers follow the software copy, and the
  bounds of the on-time.
\<close>

section \<open>Device registers\<close>

record mmio =
  reg8 :: "INT32U \<Rightarrow> INT8U"
  reg32 :: "INT32U \<Rightarrow> INT32U"

definition io_write8 :: "INT32U \<Rightarrow> INT8U \<Rightarrow> mmio \<Rightarrow> mmio" where
  "io_write8 addr v io = io\<lparr> reg8 := (reg8 io)(addr := v) \<rparr>"

definition io_write32 :: "INT32U \<Rightarrow> INT32U \<Rightarrow> mmio \<Rightarrow> mmio" where
  "io_write32 addr v io = io\<lparr> reg32 := (reg32 io)(addr := v) \<rparr>"

lemma io_write_simps [simp]:
  "reg8 (io_write8 a v io) = (reg8 io)(a := v)" "reg32 (io_write8 a v io) = reg32 io"
  "reg32 (io_write32 a w io) = (reg32 io)(a := w)" "reg8 (io_write32 a w io) = reg8 io"
  by (simp_all add: io_write8_def io_write32_def)

section \<open>The PWM module\<close>

definition PWM_CONTROL_ENABLE_OUTPUT :: INT8U where
  [simp, const_defs]: "PWM_CONTROL_ENABLE_OUTPUT = 1"
definition DUTY_SCALE_FACTOR :: "'a::numeral" where [simp, const_defs]: "DUTY_SCALE_FACTOR = 1000"
definition PWM_DUTY_CYCLE_LOW :: "'a::zero" where [simp, const_defs]: "PWM_DUTY_CYCLE_LOW = 0"
definition PWM_DUTY_CYCLE_HALF :: "'a::numeral" where [simp, const_defs]: "PWM_DUTY_CYCLE_HALF = 500"
definition PWM_DUTY_CYCLE_HIGH :: "'a::numeral" where [simp, const_defs]: "PWM_DUTY_CYCLE_HIGH = 1000"

record pwm_gen_module =
  period_base :: INT32U
  duty_base :: INT32U
  control_base :: INT32U
  period :: INT32U
  duty_count :: INT32U
  duty_cycle :: INT16U
  control :: INT8U
  reserved :: INT8U

type_synonym pwm_state = "pwm_gen_module \<times> mmio"

definition enable_pwm_output :: "pwm_state \<Rightarrow> pwm_state" where
  "enable_pwm_output = (\<lambda>(m, io).
     let m = m\<lparr> control := PWM_CONTROL_ENABLE_OUTPUT \<rparr> in
     (m, io_write8 (control_base m) (control m) io))"

definition disable_pwm_output :: "pwm_state \<Rightarrow> pwm_state" where
  "disable_pwm_output = (\<lambda>(m, io).
     let m = m\<lparr> control := 0 \<rparr> in
     (m, io_write8 (control_base m) (control m) io))"

definition set_period :: "INT32U \<Rightarrow> pwm_state \<Rightarrow> pwm_state" where
  "set_period p = (\<lambda>(m, io).
     if p \<noteq> period m then
       let m = m\<lparr> period := p \<rparr> in (m, io_write32 (period_base m) (period m) io)
     else (m, io))"

definition set_duty_cycle :: "INT16U \<Rightarrow> pwm_state \<Rightarrow> pwm_state" where
  "set_duty_cycle percent = (\<lambda>(m, io).
     let percent = (if percent > PWM_DUTY_CYCLE_HIGH then PWM_DUTY_CYCLE_HIGH else percent) in
     if percent \<noteq> duty_cycle m then
       let new_duty = period m * ucast percent div DUTY_SCALE_FACTOR;
           m = m\<lparr> duty_count := new_duty, duty_cycle := percent \<rparr> in
       (m, io_write32 (duty_base m) (duty_count m) io)
     else (m, io))"

definition get_new_pwm_module ::
  "pwm_gen_module option \<Rightarrow> INT32U \<Rightarrow> INT32U \<Rightarrow> INT32U \<Rightarrow> INT32U \<Rightarrow> INT16U \<Rightarrow> mmio \<Rightarrow> pwm_state option" where
  "get_new_pwm_module malloced p_base d_base c_base p d_cycle io = do {
     m \<leftarrow> malloced;
     let m = m\<lparr> period_base := p_base, duty_base := d_base, control_base := c_base \<rparr>;
     Some (enable_pwm_output (set_duty_cycle d_cycle (set_period p (disable_pwm_output (m, io)))))
   }"

definition get_tps_sensor_output_pwm :: "pwm_gen_module option \<Rightarrow> mmio \<Rightarrow> pwm_state option" where
  "get_tps_sensor_output_pwm malloced io =
     get_new_pwm_module malloced PWM_GENERATOR_TPS_OUT_AVALON_SLAVE_PERIOD_BASE
       PWM_GENERATOR_TPS_OUT_AVALON_SLAVE_DUTY_BASE PWM_GENERATOR_TPS_OUT_AVALON_SLAVE_CONTROL_BASE
       TPS_OUT_PWM_PERIOD_TICKS 0 io"

section \<open>Shadowed device registers\<close>

text \<open>
  The interface between the PWM driver and the tasks: a setter that keeps a software copy of a
  register and writes the register only on a change. The laws: a set stores the normalised value
  in the copy, and a set keeps copy and register in step. The client lemma: from a state in step,
  any sequence of sets leaves the register with the value of the last one.
\<close>

locale shadow_register =
  fixes put :: "'v \<Rightarrow> 's \<Rightarrow> 's" and copy :: "'s \<Rightarrow> 'r" and norm :: "'s \<Rightarrow> 'v \<Rightarrow> 'r"
    and in_step :: "'s \<Rightarrow> bool" and device :: "'s \<Rightarrow> 'r"
  assumes copy_put: "in_step s \<Longrightarrow> copy (put v s) = norm s v"
    and norm_put: "in_step s \<Longrightarrow> norm (put v s) w = norm s w"
    and put_in_step: "in_step s \<Longrightarrow> in_step (put v s)"
    and device_copy: "in_step s \<Longrightarrow> device s = copy s"
begin

lemma puts_in_step: "in_step s \<Longrightarrow> in_step (fold put vs s)"
  by (induction vs arbitrary: s) (simp_all add: put_in_step)

lemma norm_puts: "in_step s \<Longrightarrow> norm (fold put vs s) w = norm s w"
  by (induction vs arbitrary: s) (simp_all add: put_in_step norm_put)

lemma device_last: "in_step s \<Longrightarrow> device (put v (fold put vs s)) = norm s v"
  by (simp add: device_copy copy_put puts_in_step norm_puts put_in_step)

lemma put_device: "in_step s \<Longrightarrow> device (put v s) = norm s v"
  using device_last [of s v "[]"] by simp

end

definition clamp_percent :: "nat \<Rightarrow> nat" where
  "clamp_percent c = min c 1000"

text \<open>
  The state of a module in service: the registers agree with the copy, the duty cycle is at most
  full scale, the on-time is the rounded-down share of the period, and the period is small enough
  that the product in \<open>set_duty_cycle\<close> does not wrap.
\<close>

definition pwm_in_step :: "pwm_state \<Rightarrow> bool" where
  "pwm_in_step = (\<lambda>(m, io).
     period_base m \<noteq> duty_base m \<and>
     reg8 io (control_base m) = control m \<and>
     reg32 io (period_base m) = period m \<and>
     reg32 io (duty_base m) = duty_count m \<and>
     unat (duty_cycle m) \<le> 1000 \<and>
     unat (period m) * 1000 < 2 ^ 32 \<and>
     unat (duty_count m) = unat (period m) * unat (duty_cycle m) div 1000)"

lemma unat_on_time:
  assumes "unat p * 1000 < 2 ^ 32" "unat (c :: INT16U) \<le> 1000"
  shows "unat (p * ucast c div (1000 :: INT32U)) = unat p * unat c div 1000"
proof -
  have "unat p * unat c \<le> unat p * 1000" using assms(2) by simp
  then have "unat p * unat c < 2 ^ 32" using assms(1) by linarith
  then show ?thesis by (simp add: unat_div unat_mult_small)
qed

lemma unat_clamp:
  "unat (if c > PWM_DUTY_CYCLE_HIGH then PWM_DUTY_CYCLE_HIGH else c :: INT16U) = clamp_percent (unat c)"
  by (simp add: clamp_percent_def unat_order)

definition duty_written :: "INT16U \<Rightarrow> pwm_state \<Rightarrow> pwm_state" where
  "duty_written c s =
     (if c = duty_cycle (fst s) then s
      else let m = (fst s)\<lparr> duty_count := period (fst s) * ucast c div 1000, duty_cycle := c \<rparr> in
           (m, io_write32 (duty_base m) (duty_count m) (snd s)))"

text \<open>A set with the request replaced by its clamped value \<open>c\<close>.\<close>

lemma set_duty_cycle_clamped:
  obtains c where "unat c = clamp_percent (unat percent)" and
    "\<And>s. set_duty_cycle percent s = duty_written c s"
proof
  let ?c = "if percent > PWM_DUTY_CYCLE_HIGH then PWM_DUTY_CYCLE_HIGH else percent"
  show "unat ?c = clamp_percent (unat percent)" by (rule unat_clamp)
  show "set_duty_cycle percent s = duty_written ?c s" for s
    by (cases s) (simp add: set_duty_cycle_def duty_written_def Let_def)
qed

lemma set_duty_cycle_in_step:
  assumes "pwm_in_step s"
  shows "pwm_in_step (set_duty_cycle percent s)" (is ?step)
    and "unat (duty_cycle (fst (set_duty_cycle percent s))) = clamp_percent (unat percent)" (is ?dc)
    and "period (fst (set_duty_cycle percent s)) = period (fst s)" (is ?per)
proof -
  obtain c where uc: "unat c = clamp_percent (unat percent)" and
    s: "\<And>s. set_duty_cycle percent s = duty_written c s"
    using set_duty_cycle_clamped [of percent] by blast
  then have c: "unat c \<le> 1000" by (simp add: clamp_percent_def)
  show ?step using assms c unat_on_time [of "period (fst s)" c]
    by (simp add: s duty_written_def pwm_in_step_def Let_def split: prod.splits)
  show ?dc ?per by (simp_all add: s duty_written_def Let_def flip: uc)
qed

definition duty_register :: "pwm_state \<Rightarrow> nat" where
  "duty_register = (\<lambda>(m, io). unat (reg32 io (duty_base m)))"

definition on_time :: "pwm_state \<Rightarrow> INT16U \<Rightarrow> nat" where
  "on_time s c = unat (period (fst s)) * clamp_percent (unat c) div 1000"

interpretation duty: shadow_register set_duty_cycle "\<lambda>s. unat (duty_count (fst s))" on_time
  pwm_in_step duty_register
proof unfold_locales
  fix s :: pwm_state and v w :: INT16U
  assume s: "pwm_in_step s"
  note facts = set_duty_cycle_in_step [OF s, of v]
  show "pwm_in_step (set_duty_cycle v s)" by (rule facts)
  show "unat (duty_count (fst (set_duty_cycle v s))) = on_time s v"
    using facts by (auto simp: pwm_in_step_def on_time_def split: prod.splits)
  show "on_time (set_duty_cycle v s) w = on_time s w" by (simp add: on_time_def facts)
  show "duty_register s = unat (duty_count (fst s))"
    using s by (auto simp: pwm_in_step_def duty_register_def)
qed

lemma on_time_le: "on_time s c \<le> unat (period (fst s))"
proof -
  have "unat (period (fst s)) * clamp_percent (unat c) \<le> unat (period (fst s)) * 1000"
    by (simp add: clamp_percent_def)
  from div_le_mono [OF this, of 1000] show ?thesis by (simp add: on_time_def)
qed

text \<open>The motor gets the on-time of the last duty cycle asked for. From a module in service,
  after any sequence of \<open>set_duty_cycle\<close> calls the duty register holds exactly the clamped
  request of the last call as a share of the period, although a call whose request equals the
  stored one writes nothing; the on-time never exceeds the period and the module stays in service.\<close>

theorem duty_register_last:
  assumes "pwm_in_step s"
  shows "duty_register (fold set_duty_cycle (cs @ [c]) s) =
           unat (period (fst s)) * min (unat c) 1000 div 1000 \<and>
         duty_register (fold set_duty_cycle (cs @ [c]) s) \<le> unat (period (fst s)) \<and>
         pwm_in_step (fold set_duty_cycle (cs @ [c]) s)"
  using duty.device_last [OF assms, of c cs] duty.puts_in_step [OF assms, of "cs @ [c]"]
    on_time_le [of s c]
  by (simp add: on_time_def clamp_percent_def)

section \<open>Creation of a module\<close>

text \<open>Creating a module writes the registers and starts it in step with its copy, with the
  output enabled, when the uninitialised block does not by chance already hold the requested
  period or duty cycle.\<close>

lemma get_new_pwm_module_in_step:
  assumes "p_base \<noteq> d_base" and "unat p * 1000 < 2 ^ 32"
    and "period blk \<noteq> p" and "unat (duty_cycle blk) \<noteq> min (unat d) 1000"
  shows "\<exists>m io'. get_new_pwm_module (Some blk) p_base d_base c_base p d io = Some (m, io') \<and>
           pwm_in_step (m, io') \<and> period m = p \<and> unat (duty_cycle m) = min (unat d) 1000 \<and>
           control m = PWM_CONTROL_ENABLE_OUTPUT"
proof -
  obtain c where uc: "unat c = clamp_percent (unat d)" and
    sc: "\<And>s. set_duty_cycle d s = duty_written c s"
    using set_duty_cycle_clamped [of d] by blast
  have "c \<noteq> duty_cycle blk" "unat c \<le> 1000" "unat c = min (unat d) 1000"
    using assms(4) uc by (auto simp: clamp_percent_def)
  moreover have "unat (p * ucast c div (1000 :: INT32U)) = unat p * unat c div 1000"
    by (rule unat_on_time) (use assms(2) calculation in auto)
  ultimately show ?thesis using assms(1-3)
    by (simp add: get_new_pwm_module_def disable_pwm_output_def set_period_def enable_pwm_output_def sc
          duty_written_def)
      (simp add: Let_def pwm_in_step_def)
qed

definition sample_block :: pwm_gen_module where
  "sample_block = \<lparr> period_base = 0, duty_base = 0, control_base = 0, period = 7, duty_count = 7,
     duty_cycle = 7, control = 7, reserved = 7 \<rparr>"

definition zero_io :: mmio where
  "zero_io = \<lparr> reg8 = (\<lambda>_. 0), reg32 = (\<lambda>_. 0) \<rparr>"

lemma get_new_pwm_module_in_step_witness:
  "\<exists>m io'. get_new_pwm_module (Some sample_block) 4 8 12 2500 580 zero_io = Some (m, io') \<and>
     pwm_in_step (m, io') \<and> period m = 2500 \<and> unat (duty_cycle m) = min (unat (580 :: INT16U)) 1000 \<and>
     control m = PWM_CONTROL_ENABLE_OUTPUT"
  by (rule get_new_pwm_module_in_step) (simp_all add: sample_block_def)

theorem duty_register_last_witness:
  "duty_register (fold set_duty_cycle ([100, 100] @ [2000])
     (sample_block\<lparr> period_base := 4, period := 7, duty_count := 0 , duty_cycle := 0 \<rparr>,
      \<lparr> reg8 = (\<lambda>_. 7), reg32 = (\<lambda>a. if a = 4 then 7 else 0) \<rparr>)) \<le> 7"
  using duty_register_last [of "(sample_block\<lparr> period_base := 4, period := 7, duty_count := 0 , duty_cycle := 0 \<rparr>,
      \<lparr> reg8 = (\<lambda>_. 7), reg32 = (\<lambda>a. if a = 4 then 7 else 0) \<rparr>)" "[100, 100]" 2000]
  by (simp add: pwm_in_step_def sample_block_def)

text \<open>
  The comparison in \<open>set_duty_cycle\<close> and \<open>set_period\<close> reads uninitialised memory on creation:
  when the block happens to hold the requested values, no register is written.
\<close>

lemma get_new_pwm_module_stale_registers:
  assumes "period blk = p" "unat (duty_cycle blk) = min (unat d) 1000"
  shows "\<exists>m io'. get_new_pwm_module (Some blk) p_base d_base c_base p d io = Some (m, io') \<and>
           reg32 io' = reg32 io"
proof -
  obtain c where uc: "unat c = clamp_percent (unat d)" and
    sc: "\<And>s. set_duty_cycle d s = duty_written c s"
    using set_duty_cycle_clamped [of d] by blast
  have "c = duty_cycle blk" using uc assms(2) by (simp add: clamp_percent_def word_unat_eqI)
  then show ?thesis using assms(1)
    by (simp add: get_new_pwm_module_def disable_pwm_output_def set_period_def enable_pwm_output_def sc
          duty_written_def)
qed

end
