(* ===== verification/Eng_Trans.thy ===== *)
theory Eng_Trans imports Pwm_Gen begin

text \<open>
  \<open>eng_trans_data.c\<close>: gear ratios, the engine speed read from the pulse decoder, the engine speed
  needed after a gear change, and the gear and engine sound outputs. The decoder register is an
  argument of \<open>get_RPM\<close>. The lemmas give the exact speeds, the range in which the decoder value
  is converted without wrap-around, and the bounds that hold for every decoder value.
\<close>

definition DUTY_COUNT_TO_RPM_FACTOR :: INT32U where
  "DUTY_COUNT_TO_RPM_FACTOR = (MAX_RPM_DUTY_COUNT - MIN_RPM_DUTY_COUNT) div (MAX_RPM - MIN_RPM)"

definition get_gear_ratio :: "INT8U \<Rightarrow> INT8U" where
  "get_gear_ratio gear =
     (if gear = 1 then GEAR_RATIO_1ST
      else if gear = 2 then GEAR_RATIO_2ND
      else if gear = 4 then GEAR_RATIO_4TH
      else GEAR_RATIO_3RD)"

text \<open>The subtraction, division and addition are those of \<open>INT32U\<close>; the result is cut to 16 bits.\<close>

definition get_RPM :: "INT32U \<Rightarrow> INT16U" where
  "get_RPM decoder =
     (let rpm = ucast ((decoder - MIN_RPM_DUTY_COUNT) div DUTY_COUNT_TO_RPM_FACTOR + MIN_RPM);
          rpm = (if rpm > MAX_RPM then MAX_RPM else rpm) in
      if rpm < MIN_RPM then MIN_RPM else rpm)"

definition output_curr_gear :: "INT8U \<Rightarrow> mmio \<Rightarrow> mmio" where
  "output_curr_gear gear io =
     (if gear = 1 then io_write8 CURR_GEAR_OUT_BASE 0 io
      else if gear = 2 then io_write8 CURR_GEAR_OUT_BASE 1 io
      else if gear = 4 then io_write8 CURR_GEAR_OUT_BASE 3 io
      else io_write8 CURR_GEAR_OUT_BASE 2 io)"

text \<open>The product and quotient are computed in the promoted type \<open>int\<close> (at most
  65535 * 18, so never out of its range); the result is cut to 16 bits.\<close>

definition get_new_rpm_needed :: "INT16U \<Rightarrow> INT8U \<Rightarrow> INT8U \<Rightarrow> INT16U" where
  "get_new_rpm_needed curr_rpm curr_gear new_gear =
     (let curr_gear_ratio = get_gear_ratio curr_gear;
          new_gear_ratio = get_gear_ratio new_gear;
          rpm = of_int (uint curr_rpm * uint new_gear_ratio div uint curr_gear_ratio);
          rpm = (if rpm > MAX_RPM then MAX_RPM else rpm) in
      if rpm < MIN_RPM then MIN_RPM else rpm)"

definition generate_engine_sound :: "INT16U \<Rightarrow> pwm_state \<Rightarrow> pwm_state" where
  "generate_engine_sound deg s =
     (let deg = deg * 10 in
      set_duty_cycle (if uint deg + PWM_DUTY_CYCLE_HALF > PWM_DUTY_CYCLE_HIGH then PWM_DUTY_CYCLE_HIGH
                      else of_int (uint deg + PWM_DUTY_CYCLE_HALF)) s)"

section \<open>Engine speed\<close>

lemma rpm_factor [simp]: "DUTY_COUNT_TO_RPM_FACTOR = 6"
  by (simp add: DUTY_COUNT_TO_RPM_FACTOR_def)

text \<open>The clamp both speed functions end with.\<close>

definition clamp_rpm :: "nat \<Rightarrow> nat" where
  "clamp_rpm r = max 3500 (min 10500 r)"

lemma unat_clamp_rpm:
  "unat (let rpm = (if r > MAX_RPM then MAX_RPM else (r :: INT16U)) in
         if rpm < MIN_RPM then MIN_RPM else rpm) = clamp_rpm (unat r)"
  by (simp add: clamp_rpm_def unat_order Let_def)

lemma clamp_rpm_bounds: "3500 \<le> clamp_rpm r" "clamp_rpm r \<le> 10500"
  by (simp_all add: clamp_rpm_def)

lemma get_RPM_raw:
  "unat (get_RPM x) = clamp_rpm (unat ((x - 8800) div 6 + 3500) mod 65536)"
  unfolding get_RPM_def by (subst Let_def) (simp only: unat_clamp_rpm, simp add: unat_ucast_32_16)

text \<open>The engine speed that every control decision uses lies in the engine's range of 3500 to
  10500, for every one of the 2^32 register values; on decoder values from 8800 up to the point
  where the 16-bit result would wrap, it is the linear conversion, six counts to one revolution,
  clamped at the top.\<close>

theorem get_RPM_range_and_value:
  "3500 \<le> unat (get_RPM x) \<and> unat (get_RPM x) \<le> 10500 \<and>
   (8800 \<le> unat x \<and> unat x < 381016 \<longrightarrow> unat (get_RPM x) = min 10500 ((unat x - 8800) div 6 + 3500))"
proof -
  have "unat (get_RPM x) = min 10500 ((unat x - 8800) div 6 + 3500)"
    if x: "8800 \<le> unat x" "unat x < 381016"
  proof -
    have "(unat x - 8800) div 6 + 3500 < 65536" using x by simp
    moreover have "unat ((x - 8800) div 6) = (unat x - 8800) div 6"
      using x by (simp add: unat_div unat_sub_word unat_order)
    ultimately show ?thesis by (simp add: get_RPM_raw unat_add_small clamp_rpm_def)
  qed
  then show ?thesis by (simp add: get_RPM_raw clamp_rpm_bounds)
qed

theorem get_RPM_range_and_value_witness: "unat (get_RPM 50800) = 10500 \<and> unat (get_RPM 14800) = 4500"
  using get_RPM_range_and_value [of 50800] get_RPM_range_and_value [of 14800] by simp

text \<open>Below 8800 counts the unsigned subtraction wraps, and the 16-bit cut of the huge quotient
  can be read as the highest speed: one count below the value of the lowest speed, and with the
  decoder still at zero.\<close>

lemma get_RPM_wraps: "unat (get_RPM 0) = 10500" "unat (get_RPM 8799) = 10500"
  by (simp_all add: get_RPM_raw clamp_rpm_def)

section \<open>Gear changes\<close>

definition gear_ratio :: "nat \<Rightarrow> nat" where
  "gear_ratio g = (if g = 1 then 18 else if g = 2 then 13 else if g = 4 then 8 else 10)"

lemma unat_get_gear_ratio: "unat (get_gear_ratio g) = gear_ratio (unat g)"
  by (auto simp: get_gear_ratio_def gear_ratio_def word_unat_eq_iff)

lemma gear_ratio_bounds: "8 \<le> gear_ratio g" "gear_ratio g \<le> 18"
  by (simp_all add: gear_ratio_def)

lemma get_new_rpm_needed_raw:
  "unat (get_new_rpm_needed r g g') =
     clamp_rpm (unat r * gear_ratio (unat g') div gear_ratio (unat g) mod 65536)"
proof -
  have "uint r * uint (get_gear_ratio g') div uint (get_gear_ratio g) =
      int (unat r * gear_ratio (unat g') div gear_ratio (unat g))"
    by (simp add: zdiv_int flip: unat_get_gear_ratio)
  then have "unat (of_int (uint r * uint (get_gear_ratio g') div uint (get_gear_ratio g)) :: INT16U) =
      unat r * gear_ratio (unat g') div gear_ratio (unat g) mod 65536"
    by (simp only: of_int_of_nat_eq) (simp add: unat_of_nat)
  then show ?thesis
    unfolding get_new_rpm_needed_def Let_def [of "get_gear_ratio _"] 
    by (subst Let_def) (simp only: unat_clamp_rpm)
qed

text \<open>The engine speed to match after a gear change keeps the road speed: from any speed the
  engine reports it is the old speed times the ratio of the two gears, rounded down and clamped
  to the engine's range; no intermediate result is cut. Shifting up never asks for a higher speed
  and shifting down never for a lower one.\<close>

theorem new_rpm_keeps_road_speed:
  assumes "3500 \<le> unat r" and "unat r \<le> 10500"
  shows "unat (get_new_rpm_needed r g g') =
           max 3500 (min 10500 (unat r * gear_ratio (unat g') div gear_ratio (unat g))) \<and>
         (gear_ratio (unat g') \<le> gear_ratio (unat g) \<longrightarrow> get_new_rpm_needed r g g' \<le> r) \<and>
         (gear_ratio (unat g) \<le> gear_ratio (unat g') \<longrightarrow> r \<le> get_new_rpm_needed r g g')"
proof -
  let ?a = "gear_ratio (unat g)" and ?b = "gear_ratio (unat g')"
  have pos: "0 < ?a" using gear_ratio_bounds(1) [of "unat g"] by linarith
  have "unat r * ?b \<le> 10500 * 18" using assms(2) gear_ratio_bounds(2) by (intro mult_mono) auto
  then have "unat r * ?b div ?a \<le> 10500 * 18"
    by (meson div_le_dividend order_trans)
  moreover have "unat r * ?b div ?a < 65536"
  proof (rule less_mult_imp_div_less)
    have "65536 * 8 \<le> 65536 * ?a" using gear_ratio_bounds(1) by (intro mult_le_mono2)
    then show "unat r * ?b < 65536 * ?a" using \<open>unat r * ?b \<le> 10500 * 18\<close> by simp
  qed
  ultimately have eq: "unat (get_new_rpm_needed r g g') = max 3500 (min 10500 (unat r * ?b div ?a))"
    by (simp add: get_new_rpm_needed_raw clamp_rpm_def)
  have "get_new_rpm_needed r g g' \<le> r" if "?b \<le> ?a"
  proof -
    have "unat r * ?b div ?a \<le> unat r * ?a div ?a" using that by (intro div_le_mono mult_le_mono2)
    with pos have "unat r * ?b div ?a \<le> unat r" by simp
    then show ?thesis using assms by (simp add: word_le_unat eq)
  qed
  moreover have "r \<le> get_new_rpm_needed r g g'" if "?a \<le> ?b"
  proof -
    have "unat r * ?a div ?a \<le> unat r * ?b div ?a" using that by (intro div_le_mono mult_le_mono2)
    with pos have "unat r \<le> unat r * ?b div ?a" by simp
    then show ?thesis using assms by (simp add: word_le_unat eq)
  qed
  ultimately show ?thesis using eq by blast
qed

theorem new_rpm_keeps_road_speed_witness:
  "unat (get_new_rpm_needed 9000 1 2) = 6500 \<and> get_new_rpm_needed 6500 2 1 \<ge> 6500"
  using new_rpm_keeps_road_speed [of 9000 1 2] new_rpm_keeps_road_speed [of 6500 2 1]
  by (simp add: gear_ratio_def)

section \<open>Engine sound\<close>

text \<open>The sound's duty cycle is half scale plus one per cent per degree, at most full scale.\<close>

lemma generate_engine_sound_duty:
  assumes "pwm_in_step s" "unat deg \<le> 90"
  shows "duty_register (generate_engine_sound deg s) =
           unat (period (fst s)) * min 1000 (500 + 10 * unat deg) div 1000"
proof -
  have d: "unat (deg * 10) = unat deg * 10" using assms(2) by (simp add: unat_mult_small)
  have u: "uint (deg * 10) = int (unat deg * 10)" using d by (metis uint_nat)
  have small: "unat (deg * 10 + 500) = unat deg * 10 + 500"
    using d assms(2) by (simp add: unat_add_small)
  have "500 < uint (deg * 10) \<longleftrightarrow> 50 < unat deg" unfolding u by linarith
  then have "500 < uint (deg * 10) \<Longrightarrow> min 1000 (500 + 10 * unat deg) = 1000"
    "min 1000 (unat (deg * 10 + 500)) = min 1000 (500 + 10 * unat deg)"
    using small by (simp_all add: add.commute mult.commute)
  then show ?thesis
    unfolding generate_engine_sound_def Let_def
    by (subst duty.put_device [OF assms(1)]) (simp add: on_time_def clamp_percent_def min.commute)
qed

end
