(* ===== verification/Prio_Bitmap.thy ===== *)
theory Prio_Bitmap imports Prelude begin

text \<open>
  The two-level bitmap in which the kernel keeps sets of task priorities: the ready list
  (\<open>OSRdyGrp\<close>, \<open>OSRdyTbl\<close>) and the wait list of each event (\<open>OSEventGrp\<close>, \<open>OSEventTbl\<close>).
  Bit \<open>x\<close> of table entry \<open>y\<close> stands for the priority \<open>8 * y + x\<close>; bit \<open>y\<close> of the group byte
  tells whether entry \<open>y\<close> is non-zero. The highest priority is the smallest number, found with
  two lookups in \<open>OSUnMapTbl\<close>. A table access out of bounds is \<open>None\<close>.

  The theory states the interface the kernel relies on as the locale \<open>priority_set\<close> (a finite set
  with insertion, removal and minimum) and interprets it on the bitmap.
\<close>

section \<open>The lookup table\<close>

definition OSUnMapTbl :: "INT8U list" where
  "OSUnMapTbl =
    [0, 0, 1, 0, 2, 0, 1, 0, 3, 0, 1, 0, 2, 0, 1, 0,
     4, 0, 1, 0, 2, 0, 1, 0, 3, 0, 1, 0, 2, 0, 1, 0,
     5, 0, 1, 0, 2, 0, 1, 0, 3, 0, 1, 0, 2, 0, 1, 0,
     4, 0, 1, 0, 2, 0, 1, 0, 3, 0, 1, 0, 2, 0, 1, 0,
     6, 0, 1, 0, 2, 0, 1, 0, 3, 0, 1, 0, 2, 0, 1, 0,
     4, 0, 1, 0, 2, 0, 1, 0, 3, 0, 1, 0, 2, 0, 1, 0,
     5, 0, 1, 0, 2, 0, 1, 0, 3, 0, 1, 0, 2, 0, 1, 0,
     4, 0, 1, 0, 2, 0, 1, 0, 3, 0, 1, 0, 2, 0, 1, 0,
     7, 0, 1, 0, 2, 0, 1, 0, 3, 0, 1, 0, 2, 0, 1, 0,
     4, 0, 1, 0, 2, 0, 1, 0, 3, 0, 1, 0, 2, 0, 1, 0,
     5, 0, 1, 0, 2, 0, 1, 0, 3, 0, 1, 0, 2, 0, 1, 0,
     4, 0, 1, 0, 2, 0, 1, 0, 3, 0, 1, 0, 2, 0, 1, 0,
     6, 0, 1, 0, 2, 0, 1, 0, 3, 0, 1, 0, 2, 0, 1, 0,
     4, 0, 1, 0, 2, 0, 1, 0, 3, 0, 1, 0, 2, 0, 1, 0,
     5, 0, 1, 0, 2, 0, 1, 0, 3, 0, 1, 0, 2, 0, 1, 0,
     4, 0, 1, 0, 2, 0, 1, 0, 3, 0, 1, 0, 2, 0, 1, 0]"

definition unmap :: "INT8U \<Rightarrow> INT8U" where
  "unmap g = OSUnMapTbl ! unat g"

text \<open>
  The table is its own pattern: the second half of a table of size \<open>2 ^ Suc k\<close> repeats the first
  except that its first entry is \<open>k\<close>. Entry \<open>n\<close> is the number of trailing zero bits of \<open>n\<close>.
\<close>

fun unmap_pattern :: "nat \<Rightarrow> nat list" where
  "unmap_pattern 0 = [0]"
| "unmap_pattern (Suc k) = unmap_pattern k @ (k # tl (unmap_pattern k))"

lemma OSUnMapTbl_pattern: "OSUnMapTbl = map of_nat (unmap_pattern 8)"
  by (simp add: OSUnMapTbl_def eval_nat_numeral(2-))

lemma length_unmap_pattern: "length (unmap_pattern k) = 2 ^ k"
  by (induction k) auto

text \<open>\<open>lowest_bit n t\<close>: bit \<open>t\<close> is the lowest bit set in \<open>n\<close>.\<close>

definition lowest_bit :: "nat \<Rightarrow> nat \<Rightarrow> bool" where
  "lowest_bit n t \<longleftrightarrow> bit n t \<and> (\<forall>j<t. \<not> bit n j)"

lemma unmap_pattern_lowest:
  "0 < n \<Longrightarrow> n < 2 ^ k \<Longrightarrow> unmap_pattern k ! n < k \<and> lowest_bit n (unmap_pattern k ! n)"
proof (induction k arbitrary: n)
  case (Suc k)
  show ?case
  proof (cases "n < 2 ^ k")
    case True
    with Suc.IH [of n] Suc.prems show ?thesis by (simp add: nth_append length_unmap_pattern)
  next
    case False
    define m where "m = n - 2 ^ k"
    have n: "n = m + 2 ^ k" and m: "m < 2 ^ k" using False Suc.prems by (auto simp: m_def)
    have low: "bit n j = bit m j" if "j < k" for j
    proof -
      have "take_bit k n = take_bit k m" by (simp add: n take_bit_eq_mod)
      then show ?thesis using that by (metis bit_take_bit_iff)
    qed
    have "m = 0 \<or> 0 < m" by auto
    then show ?thesis
    proof
      assume "m = 0"
      then have "unmap_pattern (Suc k) ! n = k" using n
        by (simp add: nth_append length_unmap_pattern)
      moreover have "bit n k" using n \<open>m = 0\<close> by (simp add: bit_iff_odd)
      ultimately show ?thesis using low \<open>m = 0\<close> by (simp add: lowest_bit_def)
    next
      assume pos: "0 < m"
      have "unmap_pattern k \<noteq> []" by (cases k) auto
      then have "unmap_pattern (Suc k) ! n = unmap_pattern k ! m" using n m pos
        by (simp add: nth_append length_unmap_pattern nth_Cons' nth_tl)
      then show ?thesis using Suc.IH [OF pos m] low by (auto simp: lowest_bit_def)
    qed
  qed
qed simp

lemma bit_unat: "bit (unat w) j = bit w j" for w :: "'a::len word"
  by (simp add: bit_unsigned_iff)

lemma unmap_lowest:
  assumes "g \<noteq> 0"
  shows "unat (unmap g) < 8" and "bit g (unat (unmap g))"
    and "\<And>j. j < unat (unmap g) \<Longrightarrow> \<not> bit g j"
proof -
  have g: "0 < unat g" using assms by (simp add: unat_gt_0)
  let ?t = "unmap_pattern 8 ! unat g"
  have t: "?t < 8" "lowest_bit (unat g) ?t"
    using unmap_pattern_lowest [OF g, of 8] by simp_all
  have "unmap g = of_nat ?t"
    by (simp add: unmap_def OSUnMapTbl_pattern length_unmap_pattern del: unmap_pattern.simps)
  then have "unat (unmap g) = ?t" using t(1) by (simp add: unat_of_nat)
  with t show "unat (unmap g) < 8" "bit g (unat (unmap g))"
    "\<And>j. j < unat (unmap g) \<Longrightarrow> \<not> bit g j" by (auto simp: lowest_bit_def bit_unat)
qed

section \<open>The operations the kernel writes out in place\<close>

type_synonym prio_bitmap = "INT8U \<times> INT8U list"

text \<open>Setting a task's bit, given its table index and its two masks.\<close>

definition bm_set :: "INT8U \<Rightarrow> INT8U \<Rightarrow> INT8U \<Rightarrow> prio_bitmap \<Rightarrow> prio_bitmap option" where
  "bm_set y bitx bity = (\<lambda>(grp, tbl). do {
     v \<leftarrow> array_get tbl (unat y);
     Some (grp OR bity, tbl[unat y := v OR bitx])
   })"

text \<open>Clearing a task's bit; the group bit goes when the entry becomes zero.\<close>

definition bm_clear :: "INT8U \<Rightarrow> INT8U \<Rightarrow> INT8U \<Rightarrow> prio_bitmap \<Rightarrow> prio_bitmap option" where
  "bm_clear y bitx bity = (\<lambda>(grp, tbl). do {
     v \<leftarrow> array_get tbl (unat y);
     let v' = v AND NOT bitx;
     Some (if v' = 0 then grp AND NOT bity else grp, tbl[unat y := v'])
   })"

text \<open>The two lookups for the highest priority: the row \<open>y\<close> and the priority.\<close>

definition bm_highest :: "prio_bitmap \<Rightarrow> (INT8U \<times> INT8U) option" where
  "bm_highest = (\<lambda>(grp, tbl). do {
     let y = unmap grp;
     v \<leftarrow> array_get tbl (unat y);
     Some (y, push_bit 3 y + unmap v)
   })"

section \<open>What the bitmap stands for\<close>

definition OS_LOWEST_PRIO :: nat where [simp, const_defs]: "OS_LOWEST_PRIO = 20"

definition OS_RDY_TBL_SIZE :: nat where "OS_RDY_TBL_SIZE = OS_LOWEST_PRIO div 8 + 1"

lemma OS_RDY_TBL_SIZE_eq [simp]: "OS_RDY_TBL_SIZE = 3"
  by (simp add: OS_RDY_TBL_SIZE_def)

definition bm_elems :: "prio_bitmap \<Rightarrow> nat set" where
  "bm_elems = (\<lambda>(grp, tbl). {p. p div 8 < length tbl \<and> bit (tbl ! (p div 8)) (p mod 8)})"

definition bm_ok :: "prio_bitmap \<Rightarrow> bool" where
  "bm_ok = (\<lambda>(grp, tbl). length tbl = OS_RDY_TBL_SIZE \<and>
     (\<forall>j<8. bit grp j \<longleftrightarrow> j < OS_RDY_TBL_SIZE \<and> tbl ! j \<noteq> 0))"

text \<open>The precomputed index and masks of a priority: \<open>OSTCBY\<close>, \<open>OSTCBBitX\<close>, \<open>OSTCBBitY\<close>.\<close>

definition prio_y :: "INT8U \<Rightarrow> INT8U" where "prio_y prio = drop_bit 3 prio"
definition prio_x :: "INT8U \<Rightarrow> INT8U" where "prio_x prio = prio AND 7"
definition prio_bity :: "INT8U \<Rightarrow> INT8U" where "prio_bity prio = push_bit (unat (prio_y prio)) 1"
definition prio_bitx :: "INT8U \<Rightarrow> INT8U" where "prio_bitx prio = push_bit (unat (prio_x prio)) 1"

lemma unat_prio_y: "unat (prio_y p) = unat p div 8"
  by (simp add: prio_y_def unat_drop_bit_eq drop_bit_eq_div unat_div)

lemma unat_prio_x: "unat (prio_x p) = unat p mod 8"
proof -
  have "prio_x p = take_bit 3 p" by (simp add: prio_x_def take_bit_eq_mask mask_eq_exp_minus_1)
  then show ?thesis by (simp add: unsigned_take_bit_eq take_bit_eq_mod unat_mod)
qed

lemma bit_prio_bitx: "bit (prio_bitx p) j \<longleftrightarrow> j = unat p mod 8"
  by (auto simp: prio_bitx_def unat_prio_x bit_simps)

lemma bit_prio_bity: "unat p < 64 \<Longrightarrow> bit (prio_bity p) j \<longleftrightarrow> j = unat p div 8"
  by (auto simp: prio_bity_def unat_prio_y bit_simps)

lemma byte_zero_iff: "w = 0 \<longleftrightarrow> (\<forall>j<8. \<not> bit w j)" for w :: INT8U
  by (auto intro: bit_word_eqI)

lemma div_mod_eq_iff: "p div 8 = q div 8 \<Longrightarrow> p mod 8 = q mod 8 \<longleftrightarrow> p = q" for p q :: nat
  by (metis div_mult_mod_eq)

lemma bm_set_spec:
  assumes "bm_ok b" "unat p \<le> OS_LOWEST_PRIO"
  shows "\<exists>b'. bm_set (prio_y p) (prio_bitx p) (prio_bity p) b = Some b' \<and> bm_ok b' \<and>
           bm_elems b' = insert (unat p) (bm_elems b)"
proof -
  obtain grp tbl where b: "b = (grp, tbl)" by (cases b)
  let ?y = "unat p div 8"
  have y: "?y < 3" using assms(2) by simp
  have len: "length tbl = 3" using assms(1) by (simp add: b bm_ok_def)
  let ?v = "tbl ! ?y OR prio_bitx p"
  have bx: "bit ?v (unat p mod 8)" by (simp add: bit_or_iff bit_prio_bitx)
  then have "?v \<noteq> 0" by auto
  then have ok: "bm_ok (grp OR prio_bity p, tbl[?y := ?v])"
    using assms y len by (auto simp: b bm_ok_def bit_or_iff bit_prio_bity nth_list_update)
  have "bm_elems (grp OR prio_bity p, tbl[?y := ?v]) = insert (unat p) (bm_elems b)"
    using y len by (auto simp: b bm_elems_def nth_list_update bit_or_iff bit_prio_bitx div_mod_eq_iff)
  with ok y len show ?thesis by (simp add: b bm_set_def unat_prio_y)
qed

lemma bm_clear_spec:
  assumes "bm_ok b" "unat p \<le> OS_LOWEST_PRIO"
  shows "\<exists>b'. bm_clear (prio_y p) (prio_bitx p) (prio_bity p) b = Some b' \<and> bm_ok b' \<and>
           bm_elems b' = bm_elems b - {unat p}"
proof -
  obtain grp tbl where b: "b = (grp, tbl)" by (cases b)
  let ?y = "unat p div 8"
  have y: "?y < 3" using assms(2) by simp
  have len: "length tbl = 3" using assms(1) by (simp add: b bm_ok_def)
  let ?v = "tbl ! ?y AND NOT (prio_bitx p)"
  let ?g = "if ?v = 0 then grp AND NOT (prio_bity p) else grp"
  have "bit grp ?y \<longleftrightarrow> tbl ! ?y \<noteq> 0" using assms(1) y by (simp add: b bm_ok_def)
  moreover have "tbl ! ?y = 0 \<Longrightarrow> ?v = 0" by simp
  ultimately have ok: "bm_ok (?g, tbl[?y := ?v])"
    using assms y len
    by (auto simp: b bm_ok_def bit_and_iff bit_not_iff bit_prio_bity nth_list_update)
  have "bm_elems (?g, tbl[?y := ?v]) = bm_elems b - {unat p}"
    using y len
    by (auto simp: b bm_elems_def nth_list_update bit_and_iff bit_not_iff bit_prio_bitx div_mod_eq_iff)
  with ok y len show ?thesis by (simp add: b bm_clear_def unat_prio_y Let_def)
qed

lemma bm_elems_bound: "bm_ok b \<Longrightarrow> bm_elems b \<subseteq> {..<24}"
  by (auto simp: bm_ok_def bm_elems_def split: prod.splits)

lemma bm_elems_empty_iff: "bm_ok (grp, tbl) \<Longrightarrow> bm_elems (grp, tbl) = {} \<longleftrightarrow> grp = 0"
proof -
  assume ok: "bm_ok (grp, tbl)"
  have "grp \<noteq> 0 \<longleftrightarrow> (\<exists>y<3. tbl ! y \<noteq> 0)"
    using ok less_trans [of _ 3 "8 :: nat"] by (fastforce simp: bm_ok_def byte_zero_iff [of grp])
  also have "\<dots> \<longleftrightarrow> (\<exists>y<3. \<exists>x<8. bit (tbl ! y) x)" by (simp add: byte_zero_iff)
  also have "\<dots> \<longleftrightarrow> bm_elems (grp, tbl) \<noteq> {}"
  proof
    assume "\<exists>y<3. \<exists>x<8. bit (tbl ! y) x"
    then obtain y x where "y < 3" "x < 8" "bit (tbl ! y) x" by blast
    then have "8 * y + x \<in> bm_elems (grp, tbl)" using ok by (simp add: bm_elems_def bm_ok_def)
    then show "bm_elems (grp, tbl) \<noteq> {}" by blast
  next
    assume "bm_elems (grp, tbl) \<noteq> {}"
    then obtain p where "p div 8 < 3" "bit (tbl ! (p div 8)) (p mod 8)"
      using ok by (auto simp: bm_elems_def bm_ok_def)
    then show "\<exists>y<3. \<exists>x<8. bit (tbl ! y) x" by (meson mod_less_divisor zero_less_numeral)
  qed
  finally show ?thesis by blast
qed

lemma bm_highest_spec:
  assumes "bm_ok b" "bm_elems b \<noteq> {}"
  shows "\<exists>y p. bm_highest b = Some (y, p) \<and> unat p = Min (bm_elems b) \<and> y = prio_y p"
proof -
  obtain grp tbl where b: "b = (grp, tbl)" by (cases b)
  have len: "length tbl = 3" using assms(1) by (simp add: b bm_ok_def)
  have "grp \<noteq> 0" using assms bm_elems_empty_iff b by blast
  note row = unmap_lowest [OF \<open>grp \<noteq> 0\<close>]
  define y where "y = unat (unmap grp)"
  have y: "y < 8" "bit grp y" "\<And>j. j < y \<Longrightarrow> \<not> bit grp j" using row by (simp_all add: y_def)
  then have y3: "y < 3" "tbl ! y \<noteq> 0" using assms(1) by (auto simp: b bm_ok_def)
  note col = unmap_lowest [OF y3(2)]
  define x where "x = unat (unmap (tbl ! y))"
  have x: "x < 8" "bit (tbl ! y) x" "\<And>j. j < x \<Longrightarrow> \<not> bit (tbl ! y) j"
    using col by (simp_all add: x_def)
  let ?p = "push_bit 3 (unmap grp) + unmap (tbl ! y)"
  have "unat (push_bit 3 (unmap grp)) = 8 * y"
    using y3(1) by (simp add: y_def push_bit_eq_mult unat_mult_small)
  then have p: "unat ?p = 8 * y + x" using x(1) y3(1) by (simp add: unat_add_small flip: x_def)
  have mem: "8 * y + x \<in> bm_elems b" using x y3 len by (simp add: b bm_elems_def)
  have least: "8 * y + x \<le> q" if "q \<in> bm_elems b" for q
  proof -
    from that len have q: "q div 8 < 3" "bit (tbl ! (q div 8)) (q mod 8)" by (auto simp: b bm_elems_def)
    then have "tbl ! (q div 8) \<noteq> 0" by auto
    then have "bit grp (q div 8)" using q assms(1) by (simp add: b bm_ok_def)
    then have "y \<le> q div 8" using y(3) by (meson not_le)
    moreover have "x \<le> q mod 8" if "q div 8 = y" using x(3) q(2) that by (meson not_le)
    moreover have "q = 8 * (q div 8) + q mod 8" by simp
    ultimately show ?thesis using x(1) by (cases "q div 8 = y") linarith+
  qed
  have "Min (bm_elems b) = 8 * y + x"
    using mem least finite_subset [OF bm_elems_bound [OF assms(1)]] by (intro Min_eqI) auto
  moreover have "unmap grp = prio_y ?p"
    by (rule word_unat_eqI) (use x(1) in \<open>simp add: unat_prio_y p flip: y_def\<close>)
  ultimately show ?thesis using y3 len p by (simp add: b bm_highest_def Let_def flip: y_def)
qed

section \<open>The interface of the ready list and the wait lists\<close>

text \<open>A sequence of insertions (\<open>True\<close>) and removals (\<open>False\<close>), on the structure and on sets.\<close>

fun run_ops :: "(INT8U \<Rightarrow> 'b \<Rightarrow> 'b option) \<Rightarrow> (INT8U \<Rightarrow> 'b \<Rightarrow> 'b option) \<Rightarrow>
    (bool \<times> INT8U) list \<Rightarrow> 'b \<Rightarrow> 'b option" where
  "run_ops ins rem [] b = Some b"
| "run_ops ins rem ((i, p) # ops) b =
     do { b' \<leftarrow> (if i then ins p b else rem p b); run_ops ins rem ops b' }"

fun set_ops :: "(bool \<times> INT8U) list \<Rightarrow> nat set \<Rightarrow> nat set" where
  "set_ops [] A = A"
| "set_ops ((i, p) # ops) A = set_ops ops (if i then insert (unat p) A else A - {unat p})"

text \<open>
  What the kernel relies on: a set of priorities that can be extended, reduced and asked for its
  smallest member. The operations are partial (they index arrays); the laws say when they succeed.
\<close>

locale priority_set =
  fixes ok :: "'b \<Rightarrow> bool" and elems :: "'b \<Rightarrow> nat set"
    and ins rem :: "INT8U \<Rightarrow> 'b \<Rightarrow> 'b option" and top :: "'b \<Rightarrow> INT8U option"
    and bound :: nat
  assumes ins_law: "ok b \<Longrightarrow> unat p \<le> bound \<Longrightarrow>
      \<exists>b'. ins p b = Some b' \<and> ok b' \<and> elems b' = insert (unat p) (elems b)"
    and rem_law: "ok b \<Longrightarrow> unat p \<le> bound \<Longrightarrow>
      \<exists>b'. rem p b = Some b' \<and> ok b' \<and> elems b' = elems b - {unat p}"
    and top_law: "ok b \<Longrightarrow> elems b \<noteq> {} \<Longrightarrow> \<exists>p. top b = Some p \<and> unat p = Min (elems b)"
    and finite_law: "ok b \<Longrightarrow> finite (elems b)"
begin

lemma ins_Some: "ok b \<Longrightarrow> unat p \<le> bound \<Longrightarrow> ins p b = Some b' \<Longrightarrow>
    ok b' \<and> elems b' = insert (unat p) (elems b)"
  using ins_law by force

lemma rem_Some: "ok b \<Longrightarrow> unat p \<le> bound \<Longrightarrow> rem p b = Some b' \<Longrightarrow>
    ok b' \<and> elems b' = elems b - {unat p}"
  using rem_law by force

lemma top_least: "ok b \<Longrightarrow> elems b \<noteq> {} \<Longrightarrow> top b = Some p \<Longrightarrow>
    unat p \<in> elems b \<and> (\<forall>q \<in> elems b. unat p \<le> q)"
  using top_law [of b] finite_law [of b] by (auto simp: Min_le)

text \<open>Any sequence of insertions and removals keeps the structure in step with the set.\<close>

lemma run_ops_refines:
  "ok b \<Longrightarrow> \<forall>(i, p) \<in> set ops. unat p \<le> bound \<Longrightarrow>
     \<exists>b'. run_ops ins rem ops b = Some b' \<and> ok b' \<and> elems b' = set_ops ops (elems b)"
proof (induction ops arbitrary: b)
  case (Cons op ops)
  obtain i p where op: "op = (i, p)" by (cases op)
  have "unat p \<le> bound" using Cons.prems op by simp
  then obtain b1 where "(if i then ins p b else rem p b) = Some b1" "ok b1"
      "elems b1 = (if i then insert (unat p) (elems b) else elems b - {unat p})"
    using ins_law [of b p] rem_law [of b p] Cons.prems(1) by (cases i) auto
  with Cons.IH [of b1] Cons.prems(2) op show ?case by simp
qed simp

end

definition bm_insert :: "INT8U \<Rightarrow> prio_bitmap \<Rightarrow> prio_bitmap option" where
  "bm_insert p = bm_set (prio_y p) (prio_bitx p) (prio_bity p)"

definition bm_remove :: "INT8U \<Rightarrow> prio_bitmap \<Rightarrow> prio_bitmap option" where
  "bm_remove p = bm_clear (prio_y p) (prio_bitx p) (prio_bity p)"

definition bm_top :: "prio_bitmap \<Rightarrow> INT8U option" where
  "bm_top b = map_option snd (bm_highest b)"

interpretation bm: priority_set bm_ok bm_elems bm_insert bm_remove bm_top OS_LOWEST_PRIO
proof unfold_locales
  show "\<exists>b'. bm_insert p b = Some b' \<and> bm_ok b' \<and> bm_elems b' = insert (unat p) (bm_elems b)"
    if "bm_ok b" "unat p \<le> OS_LOWEST_PRIO" for b p
    using bm_set_spec [OF that] by (simp add: bm_insert_def)
  show "\<exists>b'. bm_remove p b = Some b' \<and> bm_ok b' \<and> bm_elems b' = bm_elems b - {unat p}"
    if "bm_ok b" "unat p \<le> OS_LOWEST_PRIO" for b p
    using bm_clear_spec [OF that] by (simp add: bm_remove_def)
  show "\<exists>p. bm_top b = Some p \<and> unat p = Min (bm_elems b)" if "bm_ok b" "bm_elems b \<noteq> {}" for b
    using bm_highest_spec [OF that] by (auto simp: bm_top_def)
  show "finite (bm_elems b)" if "bm_ok b" for b
    by (rule finite_subset [OF bm_elems_bound [OF that]]) simp
qed

definition bm_empty :: prio_bitmap where
  "bm_empty = (0, replicate OS_RDY_TBL_SIZE 0)"

lemma bm_empty_ok [simp]: "bm_ok bm_empty" "bm_elems bm_empty = {}"
  by (auto simp: bm_empty_def bm_ok_def bm_elems_def)

text \<open>C23: The bitmap is a set of priorities: after any sequence of insertions and removals of
  priorities 0 to 20, starting from the cleared lists of \<open>OSInit\<close>, no access was out of bounds,
  the bits are exactly the priorities in the set, and if the set is not empty the two table
  lookups of the scheduler return its smallest member.\<close>

theorem bitmap_refines_set:
  assumes "\<forall>(i, p) \<in> set ops. unat p \<le> OS_LOWEST_PRIO"
  shows "\<exists>b. run_ops bm_insert bm_remove ops bm_empty = Some b \<and> bm_elems b = set_ops ops {} \<and>
     (set_ops ops {} \<noteq> {} \<longrightarrow>
        (\<exists>p. bm_top b = Some p \<and> unat p = Min (set_ops ops {})))"
  using bm.run_ops_refines [OF bm_empty_ok(1) assms] bm.top_law by fastforce

theorem bitmap_refines_set_witness:
  "\<exists>b. run_ops bm_insert bm_remove [(True, 17), (True, 6), (True, 5), (False, 5)] bm_empty = Some b \<and>
       bm_top b = Some 6"
proof -
  have s: "set_ops [(True, 17), (True, 6), (True, 5), (False, 5)] {} = {6, 17}" by auto
  obtain b p where "run_ops bm_insert bm_remove [(True, 17), (True, 6), (True, 5), (False, 5)] bm_empty = Some b"
    "bm_top b = Some p" "unat p = Min {6, 17}"
    using bitmap_refines_set [of "[(True, 17), (True, 6), (True, 5), (False, 5)]"] unfolding s by auto
  moreover from this have "p = 6" by (intro word_unat_eqI) simp
  ultimately show ?thesis by blast
qed

end
