(* ===== verification/Os_Types.thy ===== *)
theory Os_Types imports Prio_Bitmap begin

text \<open>
  The data of the uC/OS-II kernel (\<open>UCOSII/inc/ucos_ii.h\<close>) in the configuration of the board
  support package: 21 priorities, 12 task control blocks, 60 event control blocks, 20 queue control
  blocks. A pointer into one of the kernel's static tables is the index into that table; the null
  pointer and the marker \<open>OS_TCB_RESERVED\<close> have constructors of their own. A message and a
  queue's storage address are 32-bit words. The tables are functions from indices; the arrays whose
  index is computed from a priority (\<open>OSRdyTbl\<close>, \<open>OSEventTbl\<close>, \<open>OSTCBPrioTbl\<close>) are lists
  and are read with bounds checks.

  A kernel function takes the kernel state last and returns it updated. Its result is \<open>None\<close> where
  the C code would dereference a null pointer or index an array out of bounds. The critical sections
  of the functions exclude interrupts and other tasks, so a function is one step.
\<close>

section \<open>Constants\<close>

definition OS_FALSE :: INT8U where [simp, const_defs]: "OS_FALSE = 0"
definition OS_TRUE :: INT8U where [simp, const_defs]: "OS_TRUE = 1"
definition OS_PRIO_SELF :: INT8U where [simp, const_defs]: "OS_PRIO_SELF = 255"
definition OS_STAT_RDY :: INT8U where [simp, const_defs]: "OS_STAT_RDY = 0"
definition OS_STAT_SEM :: INT8U where [simp, const_defs]: "OS_STAT_SEM = 1"
definition OS_STAT_MBOX :: INT8U where [simp, const_defs]: "OS_STAT_MBOX = 2"
definition OS_STAT_Q :: INT8U where [simp, const_defs]: "OS_STAT_Q = 4"
definition OS_STAT_SUSPEND :: INT8U where [simp, const_defs]: "OS_STAT_SUSPEND = 8"
definition OS_STAT_MUTEX :: INT8U where [simp, const_defs]: "OS_STAT_MUTEX = 16"
definition OS_STAT_FLAG :: INT8U where [simp, const_defs]: "OS_STAT_FLAG = 32"
definition OS_STAT_MULTI :: INT8U where [simp, const_defs]: "OS_STAT_MULTI = 128"
definition OS_STAT_PEND_OK :: INT8U where [simp, const_defs]: "OS_STAT_PEND_OK = 0"
definition OS_STAT_PEND_TO :: INT8U where [simp, const_defs]: "OS_STAT_PEND_TO = 1"
definition OS_STAT_PEND_ABORT :: INT8U where [simp, const_defs]: "OS_STAT_PEND_ABORT = 2"
definition OS_EVENT_TYPE_UNUSED :: INT8U where [simp, const_defs]: "OS_EVENT_TYPE_UNUSED = 0"
definition OS_EVENT_TYPE_MBOX :: INT8U where [simp, const_defs]: "OS_EVENT_TYPE_MBOX = 1"
definition OS_EVENT_TYPE_Q :: INT8U where [simp, const_defs]: "OS_EVENT_TYPE_Q = 2"
definition OS_EVENT_TYPE_SEM :: INT8U where [simp, const_defs]: "OS_EVENT_TYPE_SEM = 3"
definition OS_EVENT_TYPE_MUTEX :: INT8U where [simp, const_defs]: "OS_EVENT_TYPE_MUTEX = 4"
definition OS_EVENT_TYPE_FLAG :: INT8U where [simp, const_defs]: "OS_EVENT_TYPE_FLAG = 5"
definition OS_TICK_STEP_DIS :: INT8U where [simp, const_defs]: "OS_TICK_STEP_DIS = 0"
definition OS_TICK_STEP_WAIT :: INT8U where [simp, const_defs]: "OS_TICK_STEP_WAIT = 1"
definition OS_TICK_STEP_ONCE :: INT8U where [simp, const_defs]: "OS_TICK_STEP_ONCE = 2"
definition OS_DEL_NO_PEND :: INT8U where [simp, const_defs]: "OS_DEL_NO_PEND = 0"
definition OS_DEL_ALWAYS :: INT8U where [simp, const_defs]: "OS_DEL_ALWAYS = 1"
definition OS_PEND_OPT_NONE :: INT8U where [simp, const_defs]: "OS_PEND_OPT_NONE = 0"
definition OS_PEND_OPT_BROADCAST :: INT8U where [simp, const_defs]: "OS_PEND_OPT_BROADCAST = 1"
definition OS_POST_OPT_NONE :: INT8U where [simp, const_defs]: "OS_POST_OPT_NONE = 0"
definition OS_POST_OPT_BROADCAST :: INT8U where [simp, const_defs]: "OS_POST_OPT_BROADCAST = 1"
definition OS_POST_OPT_FRONT :: INT8U where [simp, const_defs]: "OS_POST_OPT_FRONT = 2"
definition OS_POST_OPT_NO_SCHED :: INT8U where [simp, const_defs]: "OS_POST_OPT_NO_SCHED = 4"
definition OS_ERR_NONE :: INT8U where [simp, const_defs]: "OS_ERR_NONE = 0"
definition OS_ERR_EVENT_TYPE :: INT8U where [simp, const_defs]: "OS_ERR_EVENT_TYPE = 1"
definition OS_ERR_PEND_ISR :: INT8U where [simp, const_defs]: "OS_ERR_PEND_ISR = 2"
definition OS_ERR_POST_NULL_PTR :: INT8U where [simp, const_defs]: "OS_ERR_POST_NULL_PTR = 3"
definition OS_ERR_PEVENT_NULL :: INT8U where [simp, const_defs]: "OS_ERR_PEVENT_NULL = 4"
definition OS_ERR_POST_ISR :: INT8U where [simp, const_defs]: "OS_ERR_POST_ISR = 5"
definition OS_ERR_QUERY_ISR :: INT8U where [simp, const_defs]: "OS_ERR_QUERY_ISR = 6"
definition OS_ERR_INVALID_OPT :: INT8U where [simp, const_defs]: "OS_ERR_INVALID_OPT = 7"
definition OS_ERR_PDATA_NULL :: INT8U where [simp, const_defs]: "OS_ERR_PDATA_NULL = 9"
definition OS_ERR_TIMEOUT :: INT8U where [simp, const_defs]: "OS_ERR_TIMEOUT = 10"
definition OS_ERR_EVENT_NAME_TOO_LONG :: INT8U where [simp, const_defs]: "OS_ERR_EVENT_NAME_TOO_LONG = 11"
definition OS_ERR_PNAME_NULL :: INT8U where [simp, const_defs]: "OS_ERR_PNAME_NULL = 12"
definition OS_ERR_PEND_LOCKED :: INT8U where [simp, const_defs]: "OS_ERR_PEND_LOCKED = 13"
definition OS_ERR_PEND_ABORT :: INT8U where [simp, const_defs]: "OS_ERR_PEND_ABORT = 14"
definition OS_ERR_DEL_ISR :: INT8U where [simp, const_defs]: "OS_ERR_DEL_ISR = 15"
definition OS_ERR_CREATE_ISR :: INT8U where [simp, const_defs]: "OS_ERR_CREATE_ISR = 16"
definition OS_ERR_NAME_GET_ISR :: INT8U where [simp, const_defs]: "OS_ERR_NAME_GET_ISR = 17"
definition OS_ERR_NAME_SET_ISR :: INT8U where [simp, const_defs]: "OS_ERR_NAME_SET_ISR = 18"
definition OS_ERR_MBOX_FULL :: INT8U where [simp, const_defs]: "OS_ERR_MBOX_FULL = 20"
definition OS_ERR_Q_FULL :: INT8U where [simp, const_defs]: "OS_ERR_Q_FULL = 30"
definition OS_ERR_Q_EMPTY :: INT8U where [simp, const_defs]: "OS_ERR_Q_EMPTY = 31"
definition OS_ERR_PRIO_EXIST :: INT8U where [simp, const_defs]: "OS_ERR_PRIO_EXIST = 40"
definition OS_ERR_PRIO :: INT8U where [simp, const_defs]: "OS_ERR_PRIO = 41"
definition OS_ERR_PRIO_INVALID :: INT8U where [simp, const_defs]: "OS_ERR_PRIO_INVALID = 42"
definition OS_ERR_SEM_OVF :: INT8U where [simp, const_defs]: "OS_ERR_SEM_OVF = 50"
definition OS_ERR_TASK_CREATE_ISR :: INT8U where [simp, const_defs]: "OS_ERR_TASK_CREATE_ISR = 60"
definition OS_ERR_TASK_DEL :: INT8U where [simp, const_defs]: "OS_ERR_TASK_DEL = 61"
definition OS_ERR_TASK_DEL_IDLE :: INT8U where [simp, const_defs]: "OS_ERR_TASK_DEL_IDLE = 62"
definition OS_ERR_TASK_DEL_REQ :: INT8U where [simp, const_defs]: "OS_ERR_TASK_DEL_REQ = 63"
definition OS_ERR_TASK_DEL_ISR :: INT8U where [simp, const_defs]: "OS_ERR_TASK_DEL_ISR = 64"
definition OS_ERR_TASK_NAME_TOO_LONG :: INT8U where [simp, const_defs]: "OS_ERR_TASK_NAME_TOO_LONG = 65"
definition OS_ERR_TASK_NO_MORE_TCB :: INT8U where [simp, const_defs]: "OS_ERR_TASK_NO_MORE_TCB = 66"
definition OS_ERR_TASK_NOT_EXIST :: INT8U where [simp, const_defs]: "OS_ERR_TASK_NOT_EXIST = 67"
definition OS_ERR_TASK_NOT_SUSPENDED :: INT8U where [simp, const_defs]: "OS_ERR_TASK_NOT_SUSPENDED = 68"
definition OS_ERR_TASK_OPT :: INT8U where [simp, const_defs]: "OS_ERR_TASK_OPT = 69"
definition OS_ERR_TASK_RESUME_PRIO :: INT8U where [simp, const_defs]: "OS_ERR_TASK_RESUME_PRIO = 70"
definition OS_ERR_TASK_SUSPEND_IDLE :: INT8U where [simp, const_defs]: "OS_ERR_TASK_SUSPEND_IDLE = 71"
definition OS_ERR_TASK_SUSPEND_PRIO :: INT8U where [simp, const_defs]: "OS_ERR_TASK_SUSPEND_PRIO = 72"
definition OS_ERR_TASK_WAITING :: INT8U where [simp, const_defs]: "OS_ERR_TASK_WAITING = 73"
definition OS_ERR_TIME_NOT_DLY :: INT8U where [simp, const_defs]: "OS_ERR_TIME_NOT_DLY = 80"
definition OS_ERR_TIME_INVALID_MINUTES :: INT8U where [simp, const_defs]: "OS_ERR_TIME_INVALID_MINUTES = 81"
definition OS_ERR_TIME_INVALID_SECONDS :: INT8U where [simp, const_defs]: "OS_ERR_TIME_INVALID_SECONDS = 82"
definition OS_ERR_TIME_INVALID_MS :: INT8U where [simp, const_defs]: "OS_ERR_TIME_INVALID_MS = 83"
definition OS_ERR_TIME_ZERO_DLY :: INT8U where [simp, const_defs]: "OS_ERR_TIME_ZERO_DLY = 84"
definition OS_ERR_TIME_DLY_ISR :: INT8U where [simp, const_defs]: "OS_ERR_TIME_DLY_ISR = 85"
definition OS_ERR_MEM_INVALID_PART :: INT8U where [simp, const_defs]: "OS_ERR_MEM_INVALID_PART = 90"
definition OS_ERR_MEM_INVALID_BLKS :: INT8U where [simp, const_defs]: "OS_ERR_MEM_INVALID_BLKS = 91"
definition OS_ERR_MEM_INVALID_SIZE :: INT8U where [simp, const_defs]: "OS_ERR_MEM_INVALID_SIZE = 92"
definition OS_ERR_MEM_NO_FREE_BLKS :: INT8U where [simp, const_defs]: "OS_ERR_MEM_NO_FREE_BLKS = 93"
definition OS_ERR_MEM_FULL :: INT8U where [simp, const_defs]: "OS_ERR_MEM_FULL = 94"
definition OS_ERR_MEM_INVALID_PBLK :: INT8U where [simp, const_defs]: "OS_ERR_MEM_INVALID_PBLK = 95"
definition OS_ERR_MEM_INVALID_PMEM :: INT8U where [simp, const_defs]: "OS_ERR_MEM_INVALID_PMEM = 96"
definition OS_ERR_MEM_INVALID_PDATA :: INT8U where [simp, const_defs]: "OS_ERR_MEM_INVALID_PDATA = 97"
definition OS_ERR_MEM_INVALID_ADDR :: INT8U where [simp, const_defs]: "OS_ERR_MEM_INVALID_ADDR = 98"
definition OS_ERR_MEM_NAME_TOO_LONG :: INT8U where [simp, const_defs]: "OS_ERR_MEM_NAME_TOO_LONG = 99"
definition OS_ERR_NOT_MUTEX_OWNER :: INT8U where [simp, const_defs]: "OS_ERR_NOT_MUTEX_OWNER = 100"
definition OS_ERR_FLAG_INVALID_PGRP :: INT8U where [simp, const_defs]: "OS_ERR_FLAG_INVALID_PGRP = 110"
definition OS_ERR_FLAG_WAIT_TYPE :: INT8U where [simp, const_defs]: "OS_ERR_FLAG_WAIT_TYPE = 111"
definition OS_ERR_FLAG_NOT_RDY :: INT8U where [simp, const_defs]: "OS_ERR_FLAG_NOT_RDY = 112"
definition OS_ERR_FLAG_INVALID_OPT :: INT8U where [simp, const_defs]: "OS_ERR_FLAG_INVALID_OPT = 113"
definition OS_ERR_FLAG_GRP_DEPLETED :: INT8U where [simp, const_defs]: "OS_ERR_FLAG_GRP_DEPLETED = 114"
definition OS_ERR_FLAG_NAME_TOO_LONG :: INT8U where [simp, const_defs]: "OS_ERR_FLAG_NAME_TOO_LONG = 115"
definition OS_ERR_PIP_LOWER :: INT8U where [simp, const_defs]: "OS_ERR_PIP_LOWER = 120"

definition OS_FLAG_WAIT_CLR_ALL :: INT8U where [simp, const_defs]: "OS_FLAG_WAIT_CLR_ALL = 0"
definition OS_FLAG_WAIT_CLR_ANY :: INT8U where [simp, const_defs]: "OS_FLAG_WAIT_CLR_ANY = 1"
definition OS_FLAG_WAIT_SET_ALL :: INT8U where [simp, const_defs]: "OS_FLAG_WAIT_SET_ALL = 2"
definition OS_FLAG_WAIT_SET_ANY :: INT8U where [simp, const_defs]: "OS_FLAG_WAIT_SET_ANY = 3"
definition OS_FLAG_CONSUME :: INT8U where [simp, const_defs]: "OS_FLAG_CONSUME = 0x80"
definition OS_FLAG_CLR :: INT8U where [simp, const_defs]: "OS_FLAG_CLR = 0"
definition OS_FLAG_SET :: INT8U where [simp, const_defs]: "OS_FLAG_SET = 1"

definition OS_STAT_PEND_ANY :: INT8U where
  "OS_STAT_PEND_ANY = OS_STAT_SEM OR OS_STAT_MBOX OR OS_STAT_Q OR OS_STAT_MUTEX OR OS_STAT_FLAG"

lemma OS_STAT_PEND_ANY_eq [simp]: "OS_STAT_PEND_ANY = 0x37"
  by (simp add: OS_STAT_PEND_ANY_def)

definition OS_N_SYS_TASKS :: nat where [simp, const_defs]: "OS_N_SYS_TASKS = 2"
definition OS_MAX_TASKS :: nat where [simp, const_defs]: "OS_MAX_TASKS = 10"
definition OS_MAX_EVENTS :: nat where [simp, const_defs]: "OS_MAX_EVENTS = 60"
definition OS_MAX_QS :: nat where [simp, const_defs]: "OS_MAX_QS = 20"
definition OS_MAX_FLAGS :: nat where [simp, const_defs]: "OS_MAX_FLAGS = 20"
definition OS_MAX_MEM_PART :: nat where [simp, const_defs]: "OS_MAX_MEM_PART = 60"
definition OS_EVENT_NAME_SIZE :: nat where [simp, const_defs]: "OS_EVENT_NAME_SIZE = 32"
definition OS_TASK_NAME_SIZE :: nat where [simp, const_defs]: "OS_TASK_NAME_SIZE = 32"
definition OS_FLAG_NAME_SIZE :: nat where [simp, const_defs]: "OS_FLAG_NAME_SIZE = 32"
definition OS_MEM_NAME_SIZE :: nat where [simp, const_defs]: "OS_MEM_NAME_SIZE = 32"
definition OS_TASK_IDLE_STK_SIZE :: INT32U where [simp, const_defs]: "OS_TASK_IDLE_STK_SIZE = 512"
definition OS_TASK_STAT_STK_SIZE :: INT32U where [simp, const_defs]: "OS_TASK_STAT_STK_SIZE = 512"
definition OS_ASCII_NUL :: INT8U where [simp, const_defs]: "OS_ASCII_NUL = 0"
definition OS_TICKS_PER_SEC :: INT32U where [simp, const_defs]: "OS_TICKS_PER_SEC = 1000"
definition OS_TASK_STAT_PRIO :: INT8U where [simp, const_defs]: "OS_TASK_STAT_PRIO = 19"
definition OS_TASK_IDLE_PRIO :: INT8U where [simp, const_defs]: "OS_TASK_IDLE_PRIO = 20"
definition OS_TASK_IDLE_ID :: INT16U where [simp, const_defs]: "OS_TASK_IDLE_ID = 65535"
definition OS_TASK_STAT_ID :: INT16U where [simp, const_defs]: "OS_TASK_STAT_ID = 65534"
definition OS_TASK_OPT_STK_CHK :: INT16U where [simp, const_defs]: "OS_TASK_OPT_STK_CHK = 1"
definition OS_TASK_OPT_STK_CLR :: INT16U where [simp, const_defs]: "OS_TASK_OPT_STK_CLR = 2"
definition OS_VERSION :: INT16U where [simp, const_defs]: "OS_VERSION = 286"

section \<open>Control blocks\<close>

datatype tcb_ptr = TCB_NULL | TCB_RESERVED | TCB_AT nat

text \<open>A pointer to an event control block: \<open>None\<close> is null, \<open>Some i\<close> is \<open>&OSEventTbl[i]\<close>.\<close>

type_synonym event_ptr = "nat option"
type_synonym q_ptr = "nat option"
type_synonym msg = INT32U

text \<open>
  \<open>OSEventPtr\<close> is a \<open>void *\<close> with four uses: the next block of the free list, the queue of a
  queue event, the message of a mailbox, and the owner of a mutex.
\<close>

datatype void_ptr = Msg msg | Event_Ptr event_ptr | Q_Ptr q_ptr | Tcb_Ptr tcb_ptr

text \<open>
  Event flags. A node of a wait list is a local variable of the waiting task's call of
  \<open>OSFlagPend\<close>; a pointer to it is a number naming that variable. \<open>OSFlagWaitList\<close> is a
  \<open>void *\<close> with two uses: the first node of the wait list and the next group of the free list.
\<close>

type_synonym OS_FLAGS = INT16U
type_synonym node_ptr = "nat option"
type_synonym grp_ptr = "nat option"

datatype wait_ptr = Node_Ptr node_ptr | Grp_Ptr grp_ptr

record OS_FLAG_GRP =
  OSFlagType :: INT8U
  OSFlagWaitList :: wait_ptr
  OSFlagFlags :: OS_FLAGS
  OSFlagName :: "INT8U list"

record OS_FLAG_NODE =
  OSFlagNodeNext :: node_ptr
  OSFlagNodePrev :: node_ptr
  OSFlagNodeTCB :: tcb_ptr
  OSFlagNodeFlagGrp :: grp_ptr
  OSFlagNodeFlags :: OS_FLAGS
  OSFlagNodeWaitType :: INT8U

text \<open>
  Memory partitions. \<open>OSMemFreeList\<close> of a partition is the address of its first free block, and of
  an unused control block the next one of the free list.
\<close>

type_synonym mem_ptr = "nat option"

datatype block_ptr = Block_Ptr INT32U | Mem_Ptr mem_ptr

record OS_MEM =
  OSMemAddr :: INT32U
  OSMemFreeList :: block_ptr
  OSMemBlkSize :: INT32U
  OSMemNBlks :: INT32U
  OSMemNFree :: INT32U
  OSMemName :: "INT8U list"

record OS_EVENT =
  OSEventType :: INT8U
  OSEventPtr :: void_ptr
  OSEventCnt :: INT16U
  OSEventGrp :: INT8U
  OSEventTbl :: "INT8U list"
  OSEventName :: "INT8U list"

record OS_Q =
  OSQPtr :: q_ptr
  OSQStart :: INT32U
  OSQEnd :: INT32U
  OSQIn :: INT32U
  OSQOut :: INT32U
  OSQSize :: INT16U
  OSQEntries :: INT16U

record OS_TCB =
  OSTCBStkPtr :: INT32U
  OSTCBExtPtr :: INT32U
  OSTCBStkBottom :: INT32U
  OSTCBStkSize :: INT32U
  OSTCBOpt :: INT16U
  OSTCBId :: INT16U
  OSTCBNext :: tcb_ptr
  OSTCBPrev :: tcb_ptr
  OSTCBEventPtr :: event_ptr
  OSTCBEventMultiPtr :: "nat list option"
  OSTCBMsg :: msg
  OSTCBFlagNode :: node_ptr
  OSTCBFlagsRdy :: OS_FLAGS
  OSTCBDly :: INT16U
  OSTCBStat :: INT8U
  OSTCBStatPend :: INT8U
  OSTCBPrio :: INT8U
  OSTCBX :: INT8U
  OSTCBY :: INT8U
  OSTCBBitX :: INT8U
  OSTCBBitY :: INT8U
  OSTCBDelReq :: INT8U
  OSTCBCtxSwCtr :: INT32U
  OSTCBCyclesTot :: INT32U
  OSTCBCyclesStart :: INT32U
  OSTCBStkBase :: INT32U
  OSTCBStkUsed :: INT32U
  OSTCBTaskName :: "INT8U list"

section \<open>The kernel's global variables\<close>

text \<open>
  \<open>ECB\<close> and \<open>TCB\<close> are the tables \<open>OSEventTbl\<close> and \<open>OSTCBTbl\<close>, \<open>QCB\<close> is \<open>OSQTbl\<close>, and
  \<open>storage\<close> is the word-addressed memory that holds the queues' message buffers, the stacks and
  the blocks of the memory partitions. \<open>flag_node\<close> holds the nodes of the flag wait lists.
  \<open>MemFreeList\<close> is the global variable \<open>OSMemFreeList\<close>, which has the name of a field of \<open>OS_MEM\<close>.
\<close>

record os_state =
  OSCtxSwCtr :: INT32U
  OSEventFreeList :: event_ptr
  ECB :: "nat \<Rightarrow> OS_EVENT"
  OSFlagTbl :: "nat \<Rightarrow> OS_FLAG_GRP"
  OSFlagFreeList :: grp_ptr
  flag_node :: "nat \<Rightarrow> OS_FLAG_NODE"
  OSCPUUsage :: INT8U
  OSIdleCtrMax :: INT32U
  OSIdleCtrRun :: INT32U
  OSStatRdy :: INT8U
  OSIntNesting :: INT8U
  OSLockNesting :: INT8U
  OSPrioCur :: INT8U
  OSPrioHighRdy :: INT8U
  OSRdyGrp :: INT8U
  OSRdyTbl :: "INT8U list"
  OSRunning :: INT8U
  OSTaskCtr :: INT8U
  OSIdleCtr :: INT32U
  OSTCBCur :: tcb_ptr
  OSTCBFreeList :: tcb_ptr
  OSTCBHighRdy :: tcb_ptr
  OSTCBList :: tcb_ptr
  OSTCBPrioTbl :: "tcb_ptr list"
  TCB :: "nat \<Rightarrow> OS_TCB"
  OSTickStepState :: INT8U
  MemFreeList :: mem_ptr
  OSMemTbl :: "nat \<Rightarrow> OS_MEM"
  OSQFreeList :: q_ptr
  QCB :: "nat \<Rightarrow> OS_Q"
  OSTime :: INT32U
  storage :: "INT32U \<Rightarrow> msg"

section \<open>Dereferencing\<close>

fun tcb_index :: "tcb_ptr \<Rightarrow> nat option" where
  "tcb_index (TCB_AT i) = Some i"
| "tcb_index _ = None"

definition set_tcb :: "nat \<Rightarrow> (OS_TCB \<Rightarrow> OS_TCB) \<Rightarrow> os_state \<Rightarrow> os_state" where
  "set_tcb i f s = s\<lparr> TCB := (TCB s)(i := f (TCB s i)) \<rparr>"

definition set_event :: "nat \<Rightarrow> (OS_EVENT \<Rightarrow> OS_EVENT) \<Rightarrow> os_state \<Rightarrow> os_state" where
  "set_event e f s = s\<lparr> ECB := (ECB s)(e := f (ECB s e)) \<rparr>"

definition set_q :: "nat \<Rightarrow> (OS_Q \<Rightarrow> OS_Q) \<Rightarrow> os_state \<Rightarrow> os_state" where
  "set_q q f s = s\<lparr> QCB := (QCB s)(q := f (QCB s q)) \<rparr>"

definition rdy :: "os_state \<Rightarrow> prio_bitmap" where
  "rdy s = (OSRdyGrp s, OSRdyTbl s)"

definition set_rdy :: "prio_bitmap \<Rightarrow> os_state \<Rightarrow> os_state" where
  "set_rdy b s = s\<lparr> OSRdyGrp := fst b, OSRdyTbl := snd b \<rparr>"

definition waiters :: "nat \<Rightarrow> os_state \<Rightarrow> prio_bitmap" where
  "waiters e s = (OSEventGrp (ECB s e), OSEventTbl (ECB s e))"

definition set_waiters :: "nat \<Rightarrow> prio_bitmap \<Rightarrow> os_state \<Rightarrow> os_state" where
  "set_waiters e b = set_event e (\<lambda>ev. ev\<lparr> OSEventGrp := fst b, OSEventTbl := snd b \<rparr>)"

lemma rdy_simps [simp]:
  "rdy (set_rdy b s) = b" "rdy (set_event e f s) = rdy s" "rdy (set_waiters e b s) = rdy s"
  "rdy (set_tcb i g s) = rdy s" "rdy (set_q q h s) = rdy s"
  by (simp_all add: rdy_def set_rdy_def set_event_def set_waiters_def set_tcb_def set_q_def)

lemma waiters_simps [simp]:
  "waiters e (set_waiters e' b s) = (if e = e' then b else waiters e s)"
  "waiters e (set_rdy b s) = waiters e s" "waiters e (set_tcb i g s) = waiters e s"
  "waiters e (set_q q h s) = waiters e s"
  by (simp_all add: waiters_def set_rdy_def set_event_def set_waiters_def set_tcb_def set_q_def)

lemma TCB_simps [simp]:
  "TCB (set_tcb i g s) = (TCB s)(i := g (TCB s i))" "TCB (set_rdy b s) = TCB s"
  "TCB (set_waiters e b s) = TCB s" "TCB (set_event e f s) = TCB s" "TCB (set_q q h s) = TCB s"
  by (simp_all add: set_rdy_def set_event_def set_waiters_def set_tcb_def set_q_def)

lemma ECB_simps [simp]:
  "ECB (set_event e f s) = (ECB s)(e := f (ECB s e))" "ECB (set_rdy b s) = ECB s"
  "ECB (set_tcb i g s) = ECB s" "ECB (set_q q h s) = ECB s"
  "ECB (set_waiters e b s) = (ECB s)(e := (ECB s e)\<lparr> OSEventGrp := fst b, OSEventTbl := snd b \<rparr>)"
  by (simp_all add: set_rdy_def set_event_def set_waiters_def set_tcb_def set_q_def)

end
