(* ===== verification/Os_Core.thy ===== *)
theory Os_Core imports Os_Types begin

text \<open>
  \<open>os_core.c\<close>: the ready list and the events' wait lists, the scheduler with the context switch of
  \<open>os_cpu_a.S\<close>, interrupt entry and exit, the scheduler lock and the clock tick. The initialisation and the
  system tasks are in \<open>Os_Init\<close>, the creation of a task control block in \<open>Os_Task\<close>.
  The hook functions of the port (\<open>os_cpu_c.c\<close>) are empty and are left out. The CPU context
  of a task (its registers and the saved stack pointer) is not part of the state: a context switch
  is the change of \<open>OSTCBCur\<close> and \<open>OSPrioCur\<close>.
\<close>

section \<open>Wait lists and the ready list\<close>

definition OS_EventTaskRemove :: "nat \<Rightarrow> nat \<Rightarrow> os_state \<Rightarrow> os_state option" where
  "OS_EventTaskRemove i e s =
     (let t = TCB s i in do {
        b \<leftarrow> bm_clear (OSTCBY t) (OSTCBBitX t) (OSTCBBitY t) (waiters e s);
        Some (set_waiters e b s)
      })"

text \<open>The loop over a null-terminated array of events, given as the list of its entries.\<close>

fun remove_from_events :: "OS_TCB \<Rightarrow> nat list \<Rightarrow> os_state \<Rightarrow> os_state option" where
  "remove_from_events t [] s = Some s"
| "remove_from_events t (e # es) s = do {
     b \<leftarrow> bm_clear (OSTCBY t) (OSTCBBitX t) (OSTCBBitY t) (waiters e s);
     remove_from_events t es (set_waiters e b s)
   }"

definition OS_EventTaskRemoveMulti :: "nat \<Rightarrow> nat list \<Rightarrow> os_state \<Rightarrow> os_state option" where
  "OS_EventTaskRemoveMulti i pevents_multi s = remove_from_events (TCB s i) pevents_multi s"

text \<open>Makes the highest priority task that waits for event \<open>e\<close> ready; returns its priority.\<close>

definition OS_EventTaskRdy ::
  "nat \<Rightarrow> msg \<Rightarrow> INT8U \<Rightarrow> INT8U \<Rightarrow> os_state \<Rightarrow> (INT8U \<times> os_state) option" where
  "OS_EventTaskRdy e pmsg msk pend_stat s = do {
     (y, prio) \<leftarrow> bm_highest (waiters e s);
     p \<leftarrow> array_get (OSTCBPrioTbl s) (unat prio);
     i \<leftarrow> tcb_index p;
     let s = set_tcb i (\<lambda>t. t\<lparr> OSTCBDly := 0, OSTCBMsg := pmsg, OSTCBStat := OSTCBStat t AND NOT msk,
                               OSTCBStatPend := pend_stat \<rparr>) s;
     let t = TCB s i;
     s \<leftarrow> (if OSTCBStat t AND OS_STAT_SUSPEND = OS_STAT_RDY
          then do { b \<leftarrow> bm_set y (OSTCBBitX t) (OSTCBBitY t) (rdy s); Some (set_rdy b s) }
          else Some s);
     s \<leftarrow> OS_EventTaskRemove i e s;
     s \<leftarrow> (case OSTCBEventMultiPtr (TCB s i) of
            None \<Rightarrow> Some s
          | Some es \<Rightarrow> do {
              s \<leftarrow> OS_EventTaskRemoveMulti i es s;
              Some (set_tcb i (\<lambda>t. t\<lparr> OSTCBEventPtr := Some e \<rparr>) s) });
     Some (prio, s)
   }"

definition OS_EventTaskWait :: "nat \<Rightarrow> os_state \<Rightarrow> os_state option" where
  "OS_EventTaskWait e s = do {
     i \<leftarrow> tcb_index (OSTCBCur s);
     let s = set_tcb i (\<lambda>t. t\<lparr> OSTCBEventPtr := Some e \<rparr>) s;
     let t = TCB s i;
     b \<leftarrow> bm_set (OSTCBY t) (OSTCBBitX t) (OSTCBBitY t) (waiters e s);
     let s = set_waiters e b s;
     r \<leftarrow> bm_clear (OSTCBY t) (OSTCBBitX t) (OSTCBBitY t) (rdy s);
     Some (set_rdy r s)
   }"

fun add_to_events :: "OS_TCB \<Rightarrow> nat list \<Rightarrow> os_state \<Rightarrow> os_state option" where
  "add_to_events t [] s = Some s"
| "add_to_events t (e # es) s = do {
     b \<leftarrow> bm_set (OSTCBY t) (OSTCBBitX t) (OSTCBBitY t) (waiters e s);
     add_to_events t es (set_waiters e b s)
   }"

definition OS_EventTaskWaitMulti :: "nat list \<Rightarrow> os_state \<Rightarrow> os_state option" where
  "OS_EventTaskWaitMulti pevents_wait s = do {
     i \<leftarrow> tcb_index (OSTCBCur s);
     let s = set_tcb i (\<lambda>t. t\<lparr> OSTCBEventPtr := None, OSTCBEventMultiPtr := Some pevents_wait \<rparr>) s;
     let t = TCB s i;
     s \<leftarrow> add_to_events t pevents_wait s;
     r \<leftarrow> bm_clear (OSTCBY t) (OSTCBBitX t) (OSTCBBitY t) (rdy s);
     Some (set_rdy r s)
   }"

definition OS_EventWaitListInit :: "nat \<Rightarrow> os_state \<Rightarrow> os_state" where
  "OS_EventWaitListInit e s = set_waiters e (0, replicate OS_RDY_TBL_SIZE 0) s"

text \<open>
  The loops \<open>while (pevent->OSEventGrp != 0) OS_EventTaskRdy(...)\<close> of the post, delete and abort
  operations, with the number of tasks made ready. \<open>None\<close> also when the loop does not end.
\<close>

partial_function (option) ready_all ::
  "nat \<Rightarrow> msg \<Rightarrow> INT8U \<Rightarrow> INT8U \<Rightarrow> INT8U \<Rightarrow> os_state \<Rightarrow> (INT8U \<times> os_state) option" where
  "ready_all e pmsg msk pend_stat n s =
     (if OSEventGrp (ECB s e) \<noteq> 0 then do {
        (prio, s) \<leftarrow> OS_EventTaskRdy e pmsg msk pend_stat s;
        ready_all e pmsg msk pend_stat (n + 1) s
      } else Some (n, s))"

section \<open>The scheduler\<close>

definition OS_SchedNew :: "os_state \<Rightarrow> os_state option" where
  "OS_SchedNew s = do {
     (y, p) \<leftarrow> bm_highest (rdy s);
     Some (s\<lparr> OSPrioHighRdy := p \<rparr>)
   }"

text \<open>The context switch \<open>OSCtxSw\<close> (the same code as \<open>OSIntCtxSw\<close>) of \<open>os_cpu_a.S\<close>.\<close>

definition OSCtxSw :: "os_state \<Rightarrow> os_state" where
  "OSCtxSw s = s\<lparr> OSTCBCur := OSTCBHighRdy s, OSPrioCur := OSPrioHighRdy s \<rparr>"

text \<open>The switch to the task with priority \<open>OSPrioHighRdy\<close>, if it is not the running one.\<close>

definition switch_to_high :: "os_state \<Rightarrow> os_state option" where
  "switch_to_high s =
     (if OSPrioHighRdy s \<noteq> OSPrioCur s then do {
        p \<leftarrow> array_get (OSTCBPrioTbl s) (unat (OSPrioHighRdy s));
        let s = s\<lparr> OSTCBHighRdy := p \<rparr>;
        i \<leftarrow> tcb_index p;
        let s = set_tcb i (\<lambda>t. t\<lparr> OSTCBCtxSwCtr := OSTCBCtxSwCtr t + 1 \<rparr>) s;
        Some (OSCtxSw (s\<lparr> OSCtxSwCtr := OSCtxSwCtr s + 1 \<rparr>))
      } else Some s)"

definition OS_Sched :: "os_state \<Rightarrow> os_state option" where
  "OS_Sched s =
     (if OSIntNesting s = 0 then
        if OSLockNesting s = 0 then do { s \<leftarrow> OS_SchedNew s; switch_to_high s }
        else Some s
      else Some s)"

definition OSIntEnter :: "os_state \<Rightarrow> os_state" where
  "OSIntEnter s =
     (if OSRunning s = OS_TRUE then
        if OSIntNesting s < 255 then s\<lparr> OSIntNesting := OSIntNesting s + 1 \<rparr> else s
      else s)"

definition OSIntExit :: "os_state \<Rightarrow> os_state option" where
  "OSIntExit s =
     (if OSRunning s = OS_TRUE then
        let s = (if OSIntNesting s > 0 then s\<lparr> OSIntNesting := OSIntNesting s - 1 \<rparr> else s) in
        if OSIntNesting s = 0 then
          if OSLockNesting s = 0 then do { s \<leftarrow> OS_SchedNew s; switch_to_high s }
          else Some s
        else Some s
      else Some s)"

definition OSSchedLock :: "os_state \<Rightarrow> os_state" where
  "OSSchedLock s =
     (if OSRunning s = OS_TRUE then
        if OSIntNesting s = 0 then
          if OSLockNesting s < 255 then s\<lparr> OSLockNesting := OSLockNesting s + 1 \<rparr> else s
        else s
      else s)"

definition OSSchedUnlock :: "os_state \<Rightarrow> os_state option" where
  "OSSchedUnlock s =
     (if OSRunning s = OS_TRUE then
        if OSLockNesting s > 0 then
          let s = s\<lparr> OSLockNesting := OSLockNesting s - 1 \<rparr> in
          if OSLockNesting s = 0 then
            if OSIntNesting s = 0 then OS_Sched s else Some s
          else Some s
        else Some s
      else Some s)"

text \<open>\<open>OSStartHighRdy\<close> of the port sets \<open>OSRunning\<close> and enters the first task.\<close>

definition OSStartHighRdy :: "os_state \<Rightarrow> os_state" where
  "OSStartHighRdy s = OSCtxSw (s\<lparr> OSRunning := OS_TRUE \<rparr>)"

definition OSStart :: "os_state \<Rightarrow> os_state option" where
  "OSStart s =
     (if OSRunning s = OS_FALSE then do {
        s \<leftarrow> OS_SchedNew s;
        let s = s\<lparr> OSPrioCur := OSPrioHighRdy s \<rparr>;
        p \<leftarrow> array_get (OSTCBPrioTbl s) (unat (OSPrioHighRdy s));
        Some (OSStartHighRdy (s\<lparr> OSTCBHighRdy := p, OSTCBCur := p \<rparr>))
      } else Some s)"

section \<open>The clock tick\<close>

text \<open>The body of the loop of \<open>OSTimeTick\<close> for one task control block.\<close>

definition tick_tcb :: "nat \<Rightarrow> os_state \<Rightarrow> os_state option" where
  "tick_tcb i s =
     (if OSTCBDly (TCB s i) \<noteq> 0 then
        let s = set_tcb i (\<lambda>t. t\<lparr> OSTCBDly := OSTCBDly t - 1 \<rparr>) s in
        if OSTCBDly (TCB s i) = 0 then
          let s = (if OSTCBStat (TCB s i) AND OS_STAT_PEND_ANY \<noteq> OS_STAT_RDY
                   then set_tcb i (\<lambda>t. t\<lparr> OSTCBStat := OSTCBStat t AND NOT OS_STAT_PEND_ANY,
                                          OSTCBStatPend := OS_STAT_PEND_TO \<rparr>) s
                   else set_tcb i (\<lambda>t. t\<lparr> OSTCBStatPend := OS_STAT_PEND_OK \<rparr>) s);
              t = TCB s i in
          if OSTCBStat t AND OS_STAT_SUSPEND = OS_STAT_RDY
          then do { b \<leftarrow> bm_set (OSTCBY t) (OSTCBBitX t) (OSTCBBitY t) (rdy s); Some (set_rdy b s) }
          else Some s
        else Some s
      else Some s)"

partial_function (option) tick_loop :: "tcb_ptr \<Rightarrow> os_state \<Rightarrow> os_state option" where
  "tick_loop ptcb s = do {
     i \<leftarrow> tcb_index ptcb;
     if OSTCBPrio (TCB s i) \<noteq> OS_TASK_IDLE_PRIO then do {
       s \<leftarrow> tick_tcb i s;
       tick_loop (OSTCBNext (TCB s i)) s
     } else Some s
   }"

definition OSTimeTick :: "os_state \<Rightarrow> os_state option" where
  "OSTimeTick s =
     (let s = s\<lparr> OSTime := OSTime s + 1 \<rparr> in
      if OSRunning s = OS_TRUE then
        let (step, s) =
          (if OSTickStepState s = OS_TICK_STEP_DIS then (True, s)
           else if OSTickStepState s = OS_TICK_STEP_WAIT then (False, s)
           else if OSTickStepState s = OS_TICK_STEP_ONCE then (True, s\<lparr> OSTickStepState := OS_TICK_STEP_WAIT \<rparr>)
           else (True, s\<lparr> OSTickStepState := OS_TICK_STEP_DIS \<rparr>)) in
        if step then tick_loop (OSTCBList s) s else Some s
      else Some s)"

definition OSVersion :: INT16U where
  "OSVersion = OS_VERSION"

end
