(* ===== verification/Kernel_Inv.thy ===== *)
theory Kernel_Inv imports Os_Core begin

text \<open>
  The invariant of the kernel's task tables, and the proof that the scheduling primitives of
  \<open>os_core.c\<close> keep it: a task is in the ready list just when its status and its delay say so, it is
  in the wait list of no event but the one its control block points to, and a pending task is in
  the wait list it can be woken from. The invariant covers tasks that wait for one event at a time
  (\<open>OSEventPendMulti\<close> is not used by the application).
\<close>

section \<open>The invariant\<close>

definition task_at :: "os_state \<Rightarrow> nat \<Rightarrow> nat \<Rightarrow> bool" where
  "task_at s p i \<longleftrightarrow> p \<le> OS_LOWEST_PRIO \<and> OSTCBPrioTbl s ! p = TCB_AT i"

definition ready_set :: "os_state \<Rightarrow> nat set" where
  "ready_set s = bm_elems (rdy s)"

definition wait_set :: "nat \<Rightarrow> os_state \<Rightarrow> nat set" where
  "wait_set e s = bm_elems (waiters e s)"

text \<open>The status bit of a task that waits for an event of the given type.\<close>

definition event_mask :: "INT8U \<Rightarrow> INT8U" where
  "event_mask ty =
     (if ty = OS_EVENT_TYPE_SEM then OS_STAT_SEM
      else if ty = OS_EVENT_TYPE_Q then OS_STAT_Q
      else if ty = OS_EVENT_TYPE_MBOX then OS_STAT_MBOX
      else if ty = OS_EVENT_TYPE_MUTEX then OS_STAT_MUTEX
      else 0)"

definition runnable :: "OS_TCB \<Rightarrow> bool" where
  "runnable t \<longleftrightarrow> OSTCBStat t = OS_STAT_RDY \<and> OSTCBDly t = 0"

definition suspended :: "OS_TCB \<Rightarrow> bool" where
  "suspended t \<longleftrightarrow> OSTCBStat t AND OS_STAT_SUSPEND \<noteq> 0"

text \<open>The bits of a status that say what the task waits for.\<close>

definition pend_bits :: "INT8U \<Rightarrow> INT8U" where
  "pend_bits st = st AND NOT OS_STAT_SUSPEND"

definition masks_ok :: "nat \<Rightarrow> OS_TCB \<Rightarrow> bool" where
  "masks_ok p t \<longleftrightarrow> unat (OSTCBPrio t) = p \<and> OSTCBX t = prio_x (OSTCBPrio t) \<and>
     OSTCBY t = prio_y (OSTCBPrio t) \<and>
     OSTCBBitX t = prio_bitx (OSTCBPrio t) \<and> OSTCBBitY t = prio_bity (OSTCBPrio t)"

definition task_ok :: "os_state \<Rightarrow> nat \<Rightarrow> OS_TCB \<Rightarrow> bool" where
  "task_ok s p t \<longleftrightarrow> masks_ok p t \<and>
     OSTCBStat t AND NOT 0x3F = 0 \<and> OSTCBEventMultiPtr t = None \<and>
     (p \<in> ready_set s \<longleftrightarrow> runnable t) \<and>
     (\<forall>e. p \<in> wait_set e s \<longrightarrow> OSTCBEventPtr t = Some e \<and>
        pend_bits (OSTCBStat t) \<in> {0, event_mask (OSEventType (ECB s e))} \<and>
        (pend_bits (OSTCBStat t) = 0 \<longrightarrow> OSTCBStatPend t = OS_STAT_PEND_TO \<and> OSTCBDly t = 0)) \<and>
     (OSTCBStat t AND 0x17 \<noteq> 0 \<longrightarrow> (\<exists>e. p \<in> wait_set e s))"

definition kernel_ok :: "os_state \<Rightarrow> bool" where
  "kernel_ok s \<longleftrightarrow>
     length (OSTCBPrioTbl s) = OS_LOWEST_PRIO + 1 \<and>
     bm_ok (rdy s) \<and> (\<forall>e. bm_ok (waiters e s)) \<and>
     (\<forall>p i. task_at s p i \<longrightarrow> task_ok s p (TCB s i)) \<and>
     (\<forall>p. p \<in> ready_set s \<or> (\<exists>e. p \<in> wait_set e s) \<longrightarrow> (\<exists>i. task_at s p i)) \<and>
     OS_LOWEST_PRIO \<in> ready_set s"

definition cur_ok :: "os_state \<Rightarrow> bool" where
  "cur_ok s \<longleftrightarrow> (\<exists>i. OSTCBCur s = TCB_AT i \<and> task_at s (unat (OSPrioCur s)) i)"

section \<open>Consequences\<close>

lemma kernel_okD:
  assumes "kernel_ok s"
  shows "length (OSTCBPrioTbl s) = 21" "bm_ok (rdy s)" "bm_ok (waiters e s)"
    "task_at s p i \<Longrightarrow> task_ok s p (TCB s i)"
    "p \<in> ready_set s \<Longrightarrow> \<exists>i. task_at s p i" "p \<in> wait_set e s \<Longrightarrow> \<exists>i. task_at s p i"
    "20 \<in> ready_set s"
  using assms by (auto simp: kernel_ok_def)

lemma task_okD:
  assumes "task_ok s p t"
  shows "masks_ok p t" "OSTCBStat t AND NOT 0x3F = 0" "OSTCBEventMultiPtr t = None"
    "p \<in> ready_set s \<longleftrightarrow> runnable t" "p \<in> wait_set e s \<Longrightarrow> OSTCBEventPtr t = Some e"
    "p \<in> wait_set e s \<Longrightarrow> pend_bits (OSTCBStat t) \<in> {0, event_mask (OSEventType (ECB s e))}"
    "OSTCBStat t AND 0x17 \<noteq> 0 \<Longrightarrow> \<exists>e. p \<in> wait_set e s"
    "p \<in> wait_set e s \<Longrightarrow> pend_bits (OSTCBStat t) = 0 \<Longrightarrow>
       OSTCBStatPend t = OS_STAT_PEND_TO \<and> OSTCBDly t = 0"
  using assms by (auto simp: task_ok_def)

lemma task_at_prio: "kernel_ok s \<Longrightarrow> task_at s p i \<Longrightarrow> unat (OSTCBPrio (TCB s i)) = p"
  using task_okD(1) [OF kernel_okD(4)] by (simp add: masks_ok_def)

lemma task_at_inj: "kernel_ok s \<Longrightarrow> task_at s p i \<Longrightarrow> task_at s q i \<Longrightarrow> p = q"
  using task_at_prio by blast

lemma task_at_fun: "task_at s p i \<Longrightarrow> task_at s p j \<Longrightarrow> i = j"
  by (simp add: task_at_def)

lemma ready_not_empty: "kernel_ok s \<Longrightarrow> bm_elems (rdy s) \<noteq> {}"
  using kernel_okD(7) by (auto simp: ready_set_def)

text \<open>A change of one task: the rule that carries every operation.\<close>

lemma kernel_ok_update:
  assumes ok: "kernel_ok s" and at: "task_at s p i"
    and tbl: "OSTCBPrioTbl s' = OSTCBPrioTbl s" and others: "\<And>j. j \<noteq> i \<Longrightarrow> TCB s' j = TCB s j"
    and bm: "bm_ok (rdy s')" "\<And>e. bm_ok (waiters e s')"
    and ty: "\<And>e. OSEventType (ECB s' e) = OSEventType (ECB s e)"
    and rd: "ready_set s' - {p} = ready_set s - {p}"
    and wt: "\<And>e. wait_set e s' - {p} = wait_set e s - {p}"
    and tok: "task_ok s' p (TCB s' i)" and idle: "p = 20 \<Longrightarrow> runnable (TCB s' i)"
  shows "kernel_ok s'"
proof -
  have at': "task_at s' q j = task_at s q j" for q j by (simp add: task_at_def tbl)
  have r: "q \<in> ready_set s' \<longleftrightarrow> q \<in> ready_set s" if "q \<noteq> p" for q using rd that by auto
  have w: "q \<in> wait_set e s' \<longleftrightarrow> q \<in> wait_set e s" if "q \<noteq> p" for q e using wt [of e] that by auto
  have "task_ok s' q (TCB s' j)" if "task_at s q j" for q j
  proof (cases "q = p")
    case True
    with tok task_at_fun [OF at] that show ?thesis by blast
  next
    case False
    with task_at_inj [OF ok at] that have "j \<noteq> i" by blast
    then have "TCB s' j = TCB s j" by (rule others)
    with kernel_okD(4) [OF ok that] show ?thesis
      by (simp add: task_ok_def r [OF False] w [OF False] ty)
  qed
  moreover have "\<exists>j. task_at s q j" if "q \<in> ready_set s' \<or> (\<exists>e. q \<in> wait_set e s')" for q
  proof (cases "q = p")
    case False
    with that r w show ?thesis using kernel_okD(5,6) [OF ok] by metis
  qed (use at in blast)
  moreover have "20 \<in> ready_set s'"
  proof (cases "p = 20")
    case True
    with idle tok show ?thesis by (simp add: task_okD(4))
  next
    case False
    with r [of 20] kernel_okD(7) [OF ok] show ?thesis by simp
  qed
  ultimately show ?thesis using bm kernel_okD(1) [OF ok]
    by (simp add: kernel_ok_def at' tbl)
qed

text \<open>The operations on the bitmaps, for the masks of a task with correct precomputed values.\<close>

lemma masks_set:
  assumes "bm_ok b" "masks_ok p t" "p \<le> 20"
  obtains b' where "bm_set (OSTCBY t) (OSTCBBitX t) (OSTCBBitY t) b = Some b'" "bm_ok b'"
    "bm_elems b' = insert p (bm_elems b)"
  using bm_set_spec [OF assms(1), of "OSTCBPrio t"] assms(2,3) by (auto simp: masks_ok_def)

lemma masks_clear:
  assumes "bm_ok b" "masks_ok p t" "p \<le> 20"
  obtains b' where "bm_clear (OSTCBY t) (OSTCBBitX t) (OSTCBBitY t) b = Some b'" "bm_ok b'"
    "bm_elems b' = bm_elems b - {p}"
  using bm_clear_spec [OF assms(1), of "OSTCBPrio t"] assms(2,3) by (auto simp: masks_ok_def)

section \<open>Status bits\<close>

lemma and_8_iff: "w AND 8 = 0 \<longleftrightarrow> \<not> bit w 3" for w :: INT8U
  using and_exp_eq_0_iff_not_bit [of w 3] by simp

lemma only_bit_3: "(\<And>j. j \<noteq> 3 \<Longrightarrow> \<not> bit w j) \<Longrightarrow> w AND 8 = 0 \<longleftrightarrow> w = 0" for w :: INT8U
  by (metis and_8_iff bit_0_eq bot_apply bot_bool_def bit_eq_iff)

lemma bit_8_iff: "bit (8 :: INT8U) j \<longleftrightarrow> j = 3"
  using bit_exp_iff [of 3 j, where ?'a = "8 word"] by auto

lemma byte_eq_iff: "a = b \<longleftrightarrow> (\<forall>n. bit a n = bit b n)" for a b :: INT8U
  by (auto intro: bit_word_eqI)

lemma bit_and_not: "bit (a AND NOT b) j \<longleftrightarrow> bit a j \<and> \<not> bit b j" for a b :: INT8U
  by (auto simp: bit_and_iff bit_not_iff dest: bit_imp_le_length)

lemma bit_pend_bits: "bit (pend_bits w) j \<longleftrightarrow> bit w j \<and> j \<noteq> 3"
  unfolding pend_bits_def OS_STAT_SUSPEND_def bit_and_not bit_8_iff by (rule refl)

lemma pend_bits_zero: "pend_bits w = 0 \<longleftrightarrow> (\<forall>j. j \<noteq> 3 \<longrightarrow> \<not> bit w j)"
  by (subst byte_eq_iff) (auto simp: bit_pend_bits)

lemma status_bits_event:
  assumes "pend_bits st \<in> {0, m}"
  shows "(st AND NOT m) AND 8 = 0 \<longleftrightarrow> st AND NOT m = 0" and "pend_bits (st AND NOT m) = 0"
proof -
  have *: "\<not> bit (st AND NOT m) j" if "j \<noteq> 3" for j
    using assms that bit_pend_bits [of st j] by (auto simp: bit_and_not)
  then show "(st AND NOT m) AND 8 = 0 \<longleftrightarrow> st AND NOT m = 0" by (rule only_bit_3)
  from * show "pend_bits (st AND NOT m) = 0" by (simp add: pend_bits_zero)
qed

lemma status_bits_tick:
  assumes "st AND NOT 0x3F = (0 :: INT8U)"
  shows "(st AND NOT 0x37) AND 8 = 0 \<longleftrightarrow> st AND NOT 0x37 = 0" and "pend_bits (st AND NOT 0x37) = 0"
proof -
  have *: "\<not> bit (st AND NOT 0x37) j" if "j \<noteq> 3" for j
  proof (cases "j < 8")
    case True
    have "bit st j \<longrightarrow> bit (0x3F :: INT8U) j"
      using assms bit_and_not [of st "0x3F" j] by auto
    moreover from True that have "bit (0x3F :: INT8U) j \<longrightarrow> bit (0x37 :: INT8U) j"
      by (auto simp: numeral_eq_Suc less_Suc_eq)
    ultimately show ?thesis unfolding bit_and_not by blast
  qed (auto dest: bit_imp_le_length)
  then show "(st AND NOT 0x37) AND 8 = 0 \<longleftrightarrow> st AND NOT 0x37 = 0" by (rule only_bit_3)
  from * show "pend_bits (st AND NOT 0x37) = 0" by (simp add: pend_bits_zero)
qed

lemma pend_bits_0_cases: "pend_bits st = 0 \<Longrightarrow> st AND NOT 0x3F = 0 \<and> st AND 0x17 = 0"
proof -
  assume "pend_bits st = 0"
  then have "st = st AND 8" unfolding byte_eq_iff [of st] bit_and_iff bit_8_iff pend_bits_zero by blast
  then have "st AND m = st AND (8 AND m)" for m by (metis and.assoc)
  from this [of "NOT 0x3F"] this [of "0x17"] show ?thesis by simp
qed

section \<open>What the scheduling primitives leave alone\<close>

text \<open>Only task control blocks, the ready list and the wait lists differ.\<close>

definition sched_frame :: "os_state \<Rightarrow> os_state \<Rightarrow> bool" where
  "sched_frame s s' \<longleftrightarrow>
     s' = s\<lparr> TCB := TCB s', OSRdyGrp := OSRdyGrp s', OSRdyTbl := OSRdyTbl s', ECB := ECB s' \<rparr> \<and>
     (\<forall>e. ECB s' e = (ECB s e)\<lparr> OSEventGrp := OSEventGrp (ECB s' e), OSEventTbl := OSEventTbl (ECB s' e) \<rparr>)"

lemma sched_frame_refl [simp]: "sched_frame s s"
  by (simp add: sched_frame_def)

lemma sched_frame_set [simp]:
  "sched_frame s (set_rdy b s') \<longleftrightarrow> sched_frame s s'"
  "sched_frame s (set_waiters e b s') \<longleftrightarrow> sched_frame s s'"
  "sched_frame s (set_tcb i f s') \<longleftrightarrow> sched_frame s s'"
proof -
  have ext: "ECB s' e' = (ECB s e')\<lparr> OSEventGrp := OSEventGrp (ECB s' e'), OSEventTbl := OSEventTbl (ECB s' e') \<rparr>
      \<longleftrightarrow> (ECB s' e')\<lparr> OSEventGrp := g, OSEventTbl := t \<rparr> = (ECB s e')\<lparr> OSEventGrp := g, OSEventTbl := t \<rparr>" for e' g t
    by (cases "ECB s e'"; cases "ECB s' e'") simp
  show "sched_frame s (set_rdy b s') \<longleftrightarrow> sched_frame s s'" "sched_frame s (set_tcb i f s') \<longleftrightarrow> sched_frame s s'"
    unfolding sched_frame_def set_rdy_def set_tcb_def by (cases s; cases s'; auto)+
  show "sched_frame s (set_waiters e b s') \<longleftrightarrow> sched_frame s s'"
    unfolding sched_frame_def using ext
    by (cases s; cases s'; auto simp: set_waiters_def set_event_def fun_upd_def)
qed

lemma sched_frame_trans: "sched_frame s s' \<Longrightarrow> sched_frame s' s'' \<Longrightarrow> sched_frame s s''"
proof -
  have ev: "v = u\<lparr> OSEventGrp := g, OSEventTbl := t \<rparr> \<Longrightarrow> w = v\<lparr> OSEventGrp := g', OSEventTbl := t' \<rparr>
      \<Longrightarrow> w = u\<lparr> OSEventGrp := g', OSEventTbl := t' \<rparr>" for u v w :: OS_EVENT and g g' t t'
    by simp
  assume 1: "sched_frame s s'" and 2: "sched_frame s' s''"
  then have "\<forall>e. ECB s'' e = (ECB s e)\<lparr> OSEventGrp := OSEventGrp (ECB s'' e), OSEventTbl := OSEventTbl (ECB s'' e) \<rparr>"
    unfolding sched_frame_def using ev by blast
  moreover have "s'' = s\<lparr> TCB := TCB s'', OSRdyGrp := OSRdyGrp s'', OSRdyTbl := OSRdyTbl s'', ECB := ECB s'' \<rparr>"
    using 1 2 unfolding sched_frame_def by (cases s; cases s'; cases s'') simp
  ultimately show ?thesis by (simp add: sched_frame_def)
qed

lemma sched_frame_event: "sched_frame s s' \<Longrightarrow>
    OSEventType (ECB s' e) = OSEventType (ECB s e) \<and> OSEventCnt (ECB s' e) = OSEventCnt (ECB s e) \<and>
    OSEventPtr (ECB s' e) = OSEventPtr (ECB s e)"
  unfolding sched_frame_def by (cases "ECB s' e"; cases "ECB s e"; metis OS_EVENT.simps OS_EVENT.update_convs)

lemma sched_frame_tbl: "sched_frame s s' \<Longrightarrow> OSTCBPrioTbl s' = OSTCBPrioTbl s \<and> OSTCBList s' = OSTCBList s \<and>
    OSIntNesting s' = OSIntNesting s \<and> OSLockNesting s' = OSLockNesting s \<and> OSRunning s' = OSRunning s \<and>
    OSTCBCur s' = OSTCBCur s \<and> OSPrioCur s' = OSPrioCur s \<and> QCB s' = QCB s \<and> storage s' = storage s"
  unfolding sched_frame_def by (cases s; cases s') simp

section \<open>Making a waiting task ready\<close>

text \<open>The status of a task after it has been woken by a post or an abort.\<close>

definition woken :: "msg \<Rightarrow> INT8U \<Rightarrow> INT8U \<Rightarrow> OS_TCB \<Rightarrow> OS_TCB" where
  "woken pmsg msk pend_stat t = t\<lparr> OSTCBDly := 0, OSTCBMsg := pmsg,
     OSTCBStat := OSTCBStat t AND NOT msk, OSTCBStatPend := pend_stat \<rparr>"

text \<open>What \<open>OS_EventTaskRdy\<close> does, as a relation between the states before and after.\<close>

definition readied :: "nat \<Rightarrow> msg \<Rightarrow> INT8U \<Rightarrow> INT8U \<Rightarrow> os_state \<Rightarrow> nat \<Rightarrow> nat \<Rightarrow> os_state \<Rightarrow> bool" where
  "readied e pmsg msk pend_stat s p i s' \<longleftrightarrow>
     p = Min (wait_set e s) \<and> p \<in> wait_set e s \<and> task_at s p i \<and> sched_frame s s' \<and>
     TCB s' = (TCB s)(i := woken pmsg msk pend_stat (TCB s i)) \<and>
     wait_set e s' = wait_set e s - {p} \<and> (\<forall>e'. e' \<noteq> e \<longrightarrow> wait_set e' s' = wait_set e' s) \<and>
     ready_set s' = (if suspended (TCB s i) then ready_set s else insert p (ready_set s))"

lemma min_waiter:
  assumes "kernel_ok s" "wait_set e s \<noteq> {}"
  shows "Min (wait_set e s) \<in> wait_set e s"
proof -
  have "finite (wait_set e s)"
    unfolding wait_set_def using kernel_okD(3) [OF assms(1)] by (rule bm.finite_law)
  then show ?thesis using assms(2) by (rule Min_in)
qed

lemma masks_ok_woken [simp]: "masks_ok p (woken m k st t) = masks_ok p t"
  by (simp add: masks_ok_def woken_def)

lemma OS_EventTaskRdy_readied:
  assumes ok: "kernel_ok s" and ne: "wait_set e s \<noteq> {}"
    and msk: "event_mask (OSEventType (ECB s e)) = msk" and nz: "msk AND 8 = 0"
  shows "\<exists>prio i s'. OS_EventTaskRdy e pmsg msk pend_stat s = Some (prio, s') \<and>
           readied e pmsg msk pend_stat s (unat prio) i s' \<and> bm_ok (rdy s') \<and>
           (\<forall>e. bm_ok (waiters e s'))"
proof -
  define p where "p = Min (wait_set e s)"
  have pin: "p \<in> wait_set e s" unfolding p_def using ok ne by (rule min_waiter)
  then obtain i where at: "task_at s p i" using kernel_okD(6) [OF ok] by blast
  then have p20: "p \<le> 20" and tbl: "OSTCBPrioTbl s ! p = TCB_AT i" by (auto simp: task_at_def)
  have tok: "task_ok s p (TCB s i)" using ok at by (rule kernel_okD(4))
  note mk = task_okD(1) [OF tok] and pb = task_okD(6) [OF tok pin]
  obtain y prio where hi: "bm_highest (waiters e s) = Some (y, prio)" "unat prio = p" "y = prio_y prio"
    using bm_highest_spec [OF kernel_okD(3) [OF ok, of e]] ne unfolding wait_set_def p_def by blast
  have prio: "OSTCBPrio (TCB s i) = prio"
    using mk hi(2) by (intro word_unat_eqI) (simp add: masks_ok_def)
  define t where "t = woken pmsg msk pend_stat (TCB s i)"
  define s1 where "s1 = set_tcb i (\<lambda>u. u\<lparr> OSTCBDly := 0, OSTCBMsg := pmsg,
      OSTCBStat := OSTCBStat u AND NOT msk, OSTCBStatPend := pend_stat \<rparr>) s"
  have t1: "TCB s1 = (TCB s)(i := t)" by (simp add: s1_def t_def woken_def)
  have mkt: "masks_ok p t" using mk by (simp add: t_def)
  have y: "y = OSTCBY t" using mkt hi(3) prio by (simp add: masks_ok_def t_def woken_def)
  obtain r where r: "bm_set (OSTCBY t) (OSTCBBitX t) (OSTCBBitY t) (rdy s) = Some r" "bm_ok r"
      "bm_elems r = insert p (bm_elems (rdy s))"
    using masks_set [OF kernel_okD(2) [OF ok] mkt p20] by blast
  obtain w where w: "bm_clear (OSTCBY t) (OSTCBBitX t) (OSTCBBitY t) (waiters e s) = Some w" "bm_ok w"
      "bm_elems w = bm_elems (waiters e s) - {p}"
    using masks_clear [OF kernel_okD(3) [OF ok] mkt p20] by blast
  have susp: "OSTCBStat t AND 8 = 0 \<longleftrightarrow> \<not> suspended (TCB s i)"
    using nz by (simp add: t_def woken_def suspended_def and_8_iff bit_and_not)
  define s2 where "s2 = (if suspended (TCB s i) then s1 else set_rdy r s1)"
  define s3 where "s3 = set_waiters e w s2"
  have multi: "OSTCBEventMultiPtr t = None"
    using task_okD(3) [OF tok] by (simp add: t_def woken_def)
  have s1: "waiters e s1 = waiters e s" "rdy s1 = rdy s" by (simp_all add: s1_def)
  have run: "OS_EventTaskRdy e pmsg msk pend_stat s = Some (prio, s3)"
    using hi(1,2) tbl p20 kernel_okD(1) [OF ok] r(1) w(1) susp s1 multi
    by (simp add: OS_EventTaskRdy_def OS_EventTaskRemove_def array_get_def Let_def y
          flip: s1_def)
      (auto simp: s2_def s3_def t1 t_def woken_def)
  have "readied e pmsg msk pend_stat s p i s3"
    using at pin r w p_def
    by (auto simp: readied_def s3_def s2_def wait_set_def ready_set_def s1_def t_def woken_def)
  moreover have "bm_ok (rdy s3)" "\<forall>e. bm_ok (waiters e s3)"
    using r(2) w(2) kernel_okD(2,3) [OF ok] by (auto simp: s3_def s2_def s1_def)
  ultimately show ?thesis using run hi(2) by blast
qed

lemma woken_fields [simp]:
  "OSTCBDly (woken m k st t) = 0" "OSTCBMsg (woken m k st t) = m"
  "OSTCBStat (woken m k st t) = OSTCBStat t AND NOT k" "OSTCBStatPend (woken m k st t) = st"
  "OSTCBEventPtr (woken m k st t) = OSTCBEventPtr t" "OSTCBNext (woken m k st t) = OSTCBNext t"
  "OSTCBEventMultiPtr (woken m k st t) = OSTCBEventMultiPtr t" "OSTCBPrio (woken m k st t) = OSTCBPrio t"
  by (simp_all add: woken_def)

lemma readied_kernel_ok:
  assumes ok: "kernel_ok s" and r: "readied e pmsg msk st s p i s'"
    and bm: "bm_ok (rdy s')" "\<And>e. bm_ok (waiters e s')"
    and msk: "event_mask (OSEventType (ECB s e)) = msk" and nz: "msk AND 8 = 0"
  shows "kernel_ok s'"
proof -
  let ?t = "woken pmsg msk st (TCB s i)"
  have at: "task_at s p i" and pin: "p \<in> wait_set e s" and fr: "sched_frame s s'"
    and t: "TCB s' i = ?t" using r by (auto simp: readied_def)
  have tok: "task_ok s p (TCB s i)" using ok at by (rule kernel_okD(4))
  have only: "e' = e" if "p \<in> wait_set e' s" for e'
    using task_okD(5) [OF tok that] task_okD(5) [OF tok pin] by simp
  have pb: "pend_bits (OSTCBStat (TCB s i)) \<in> {0, msk}" using task_okD(6) [OF tok pin] msk by simp
  note sb = status_bits_event [OF pb]
  have w': "p \<notin> wait_set e' s'" for e' using r only [of e'] by (cases "e' = e") (auto simp: readied_def)
  have susp: "suspended (TCB s i) \<longleftrightarrow> \<not> runnable ?t"
    using sb(1) nz by (simp add: suspended_def runnable_def and_8_iff bit_and_not)
  have "p \<in> ready_set s \<Longrightarrow> \<not> suspended (TCB s i)"
    using task_okD(4) [OF tok] by (simp add: runnable_def suspended_def)
  then have "task_ok s' p ?t"
    using r w' susp task_okD(1,3) [OF tok] pend_bits_0_cases [OF sb(2)]
    by (auto simp: task_ok_def readied_def)
  moreover have "p = 20 \<Longrightarrow> runnable ?t"
    using kernel_okD(7) [OF ok] \<open>p \<in> ready_set s \<Longrightarrow> \<not> suspended (TCB s i)\<close> susp by blast
  moreover have "wait_set e' s' - {p} = wait_set e' s - {p}" for e'
    using r by (cases "e' = e") (auto simp: readied_def)
  moreover have "ready_set s' - {p} = ready_set s - {p}" using r by (auto simp: readied_def)
  ultimately show ?thesis
    using kernel_ok_update [OF ok at _ _ bm] sched_frame_tbl [OF fr] sched_frame_event [OF fr] r t
    by (simp add: readied_def)
qed

lemma OS_EventTaskRdy_ok:
  assumes "kernel_ok s" and "wait_set e s \<noteq> {}"
    and "event_mask (OSEventType (ECB s e)) = msk" and "msk AND 8 = 0"
  obtains prio i s' where "OS_EventTaskRdy e pmsg msk pend_stat s = Some (prio, s')"
    "readied e pmsg msk pend_stat s (unat prio) i s'" "kernel_ok s'"
  using OS_EventTaskRdy_readied [OF assms, of pmsg pend_stat] readied_kernel_ok [OF assms(1)] assms(3,4)
  by blast

lemma event_mask_no_suspend [simp]: "event_mask ty AND 8 = 0"
  by (simp add: event_mask_def)

lemma grp_zero_iff: "kernel_ok s \<Longrightarrow> OSEventGrp (ECB s e) = 0 \<longleftrightarrow> wait_set e s = {}"
  using bm_elems_empty_iff [of "OSEventGrp (ECB s e)" "OSEventTbl (ECB s e)"] kernel_okD(3) [of s e]
  by (auto simp: wait_set_def waiters_def)

section \<open>Waking all waiting tasks\<close>

text \<open>The broadcast loop ends, empties the wait list and wakes exactly the tasks that were in it.\<close>

lemma ready_all_ok:
  assumes "kernel_ok s" and "event_mask (OSEventType (ECB s e)) = msk" and "msk AND 8 = 0"
  shows "\<exists>s'. ready_all e pmsg msk st n s = Some (n + of_nat (card (wait_set e s)), s') \<and> kernel_ok s' \<and>
           sched_frame s s' \<and> wait_set e s' = {} \<and>
           (\<forall>e'. e' \<noteq> e \<longrightarrow> wait_set e' s' = wait_set e' s) \<and>
           (\<forall>p i. task_at s p i \<longrightarrow>
              TCB s' i = (if p \<in> wait_set e s then woken pmsg msk st (TCB s i) else TCB s i))"
  using assms
proof (induction "card (wait_set e s)" arbitrary: s n)
  case 0
  have "finite (wait_set e s)"
    unfolding wait_set_def using kernel_okD(3) [OF "0.prems"(1)] by (rule bm.finite_law)
  with 0 have "wait_set e s = {}" by simp
  then show ?case
    using grp_zero_iff [OF "0.prems"(1)] "0.prems"(1) by (subst ready_all.simps) simp
next
  case (Suc k)
  then have ne: "wait_set e s \<noteq> {}" by auto
  from OS_EventTaskRdy_ok [OF Suc.prems(1) ne Suc.prems(2,3)]
  obtain prio i s1 where run: "OS_EventTaskRdy e pmsg msk st s = Some (prio, s1)"
    and r: "readied e pmsg msk st s (unat prio) i s1" and ok1: "kernel_ok s1" by blast
  let ?p = "unat prio"
  have w1: "wait_set e s1 = wait_set e s - {?p}" and pin: "?p \<in> wait_set e s"
    and fr: "sched_frame s s1" and at: "task_at s ?p i" using r by (auto simp: readied_def)
  have k: "k = card (wait_set e s1)" using Suc.hyps(2) w1 pin by simp
  have ty: "event_mask (OSEventType (ECB s1 e)) = msk" using sched_frame_event [OF fr] Suc.prems(2) by simp
  from Suc.hyps(1) [OF k ok1 ty Suc.prems(3), of "n + 1"] obtain s' where
    run': "ready_all e pmsg msk st (n + 1) s1 = Some (n + 1 + of_nat (card (wait_set e s1)), s')"
    and rest: "kernel_ok s'" "sched_frame s1 s'" "wait_set e s' = {}"
      "\<forall>e'. e' \<noteq> e \<longrightarrow> wait_set e' s' = wait_set e' s1"
      "\<forall>p j. task_at s1 p j \<longrightarrow>
         TCB s' j = (if p \<in> wait_set e s1 then woken pmsg msk st (TCB s1 j) else TCB s1 j)" by blast
  have at1: "task_at s1 q j = task_at s q j" for q j
    using sched_frame_tbl [OF fr] by (simp add: task_at_def)
  have "ready_all e pmsg msk st n s = Some (n + of_nat (card (wait_set e s)), s')"
  proof -
    have "card (wait_set e s) = Suc (card (wait_set e s1))" using Suc.hyps(2) k by simp
    with run run' ne grp_zero_iff [OF Suc.prems(1)] show ?thesis
      by (subst ready_all.simps) (simp add: add.assoc add.commute)
  qed
  moreover have "TCB s' j = (if q \<in> wait_set e s then woken pmsg msk st (TCB s j) else TCB s j)"
    if q: "task_at s q j" for q j
  proof (cases "q = ?p")
    case True
    then have "j = i" using task_at_fun [OF at] q by blast
    with True q rest(5) w1 pin r at1 show ?thesis by (auto simp: readied_def)
  next
    case False
    then have "j \<noteq> i" using task_at_inj [OF Suc.prems(1) at] q by blast
    with False q rest(5) w1 r at1 show ?thesis by (auto simp: readied_def)
  qed
  moreover have "\<forall>e'. e' \<noteq> e \<longrightarrow> wait_set e' s' = wait_set e' s" using rest(4) r by (simp add: readied_def)
  ultimately show ?case using rest sched_frame_trans [OF fr] by blast
qed

section \<open>Blocking the running task\<close>

text \<open>
  What the pend operations do to the running task before they call the scheduler: its status, its
  timeout, and its move from the ready list to the wait list.
\<close>

definition blocked :: "nat \<Rightarrow> INT16U \<Rightarrow> INT8U \<Rightarrow> OS_TCB \<Rightarrow> OS_TCB" where
  "blocked e timeout msk t = t\<lparr> OSTCBStat := OSTCBStat t OR msk, OSTCBStatPend := OS_STAT_PEND_OK,
     OSTCBDly := timeout, OSTCBEventPtr := Some e \<rparr>"

lemma OS_EventTaskWait_ok:
  assumes ok: "kernel_ok s0" and cur: "OSTCBCur s0 = TCB_AT i" "task_at s0 p i" and p: "p \<noteq> 20"
    and rdy: "p \<in> ready_set s0" and nowait: "\<And>e'. p \<notin> wait_set e' s0"
    and msk: "event_mask (OSEventType (ECB s0 e)) = msk" "msk \<noteq> 0"
    and s: "s = set_tcb i (\<lambda>t. t\<lparr> OSTCBStat := OSTCBStat t OR msk, OSTCBStatPend := OS_STAT_PEND_OK,
                                  OSTCBDly := timeout \<rparr>) s0"
  shows "\<exists>s'. OS_EventTaskWait e s = Some s' \<and> kernel_ok s' \<and> sched_frame s0 s' \<and>
           TCB s' = (TCB s0)(i := blocked e timeout msk (TCB s0 i)) \<and>
           ready_set s' = ready_set s0 - {p} \<and> wait_set e s' = insert p (wait_set e s0) \<and>
           (\<forall>e'. e' \<noteq> e \<longrightarrow> wait_set e' s' = wait_set e' s0)"
proof -
  let ?t = "blocked e timeout msk (TCB s0 i)"
  have p20: "p \<le> 20" using cur(2) by (simp add: task_at_def)
  have tok: "task_ok s0 p (TCB s0 i)" using ok cur(2) by (rule kernel_okD(4))
  have run: "runnable (TCB s0 i)" using rdy task_okD(4) [OF tok] by simp
  have mk: "masks_ok p ?t" using task_okD(1) [OF tok] by (simp add: masks_ok_def blocked_def)
  obtain w where w: "bm_set (OSTCBY ?t) (OSTCBBitX ?t) (OSTCBBitY ?t) (waiters e s0) = Some w" "bm_ok w"
      "bm_elems w = insert p (bm_elems (waiters e s0))"
    using masks_set [OF kernel_okD(3) [OF ok] mk p20] by blast
  obtain r where r: "bm_clear (OSTCBY ?t) (OSTCBBitX ?t) (OSTCBBitY ?t) (rdy s0) = Some r" "bm_ok r"
      "bm_elems r = bm_elems (rdy s0) - {p}"
    using masks_clear [OF kernel_okD(2) [OF ok] mk p20] by blast
  define s' where "s' = set_rdy r (set_waiters e w (set_tcb i (\<lambda>t. t\<lparr> OSTCBEventPtr := Some e \<rparr>) s))"
  have go: "OS_EventTaskWait e s = Some s'"
    using cur(1) w(1) r(1) by (simp add: OS_EventTaskWait_def s s'_def blocked_def set_tcb_def Let_def
        waiters_def rdy_def set_waiters_def set_event_def)
  have t': "TCB s' = (TCB s0)(i := ?t)" by (auto simp: s'_def s blocked_def)
  have fr: "sched_frame s0 s'" by (simp add: s'_def s)
  have rd: "ready_set s' = ready_set s0 - {p}" by (simp add: ready_set_def s'_def s r(3))
  have wt: "wait_set e s' = insert p (wait_set e s0)" "e' \<noteq> e \<Longrightarrow> wait_set e' s' = wait_set e' s0" for e'
    by (simp_all add: wait_set_def s'_def s w(3))
  have mem: "p \<in> wait_set e' s' \<longleftrightarrow> e' = e" for e' using wt nowait by (cases "e' = e") auto
  have "msk = 1 \<or> msk = 2 \<or> msk = 4 \<or> msk = 16"
    using msk by (auto simp: event_mask_def split: if_splits)
  then have bits: "msk AND NOT 0x3F = 0" "pend_bits msk = msk" by (auto simp: pend_bits_def)
  have st: "OSTCBStat ?t = msk" "OSTCBEventPtr ?t = Some e" "OSTCBEventMultiPtr ?t = None"
    using run task_okD(3) [OF tok] by (simp_all add: blocked_def runnable_def)
  then have "\<not> runnable ?t" using msk(2) by (simp add: runnable_def)
  moreover have "p \<notin> ready_set s'" by (simp add: rd)
  ultimately have "task_ok s' p ?t"
    using mk bits sched_frame_event [OF fr, of e] msk
    unfolding task_ok_def mem st by (intro conjI allI impI) simp_all
  then have tok': "task_ok s' p (TCB s' i)" by (simp add: t')
  have "kernel_ok s'"
  proof (intro kernel_ok_update [OF ok cur(2)])
    show "wait_set e' s' - {p} = wait_set e' s0 - {p}" for e' using wt by (cases "e' = e") auto
    show "bm_ok (waiters e' s')" for e' using kernel_okD(3) [OF ok] w(2) by (simp add: s'_def s)
  qed (use sched_frame_tbl [OF fr] sched_frame_event [OF fr] t' rd p r(2) tok' in \<open>simp_all add: s'_def\<close>)
  then show ?thesis using go fr t' rd wt by blast
qed

section \<open>The running task resumes\<close>

text \<open>
  The end of every pend operation, run when the task is switched in again: on a timeout the task
  leaves the wait list, and its status and event pointer are cleared.
\<close>

definition resumed :: "OS_TCB \<Rightarrow> OS_TCB" where
  "resumed t = t\<lparr> OSTCBStat := OS_STAT_RDY, OSTCBStatPend := OS_STAT_PEND_OK, OSTCBEventPtr := None,
     OSTCBEventMultiPtr := None \<rparr>"

lemma OS_EventTaskRemove_sets:
  assumes "kernel_ok s" "task_at s p i"
  shows "\<exists>s'. OS_EventTaskRemove i e s = Some s' \<and> sched_frame s s' \<and> TCB s' = TCB s \<and>
     rdy s' = rdy s \<and> (\<forall>e'. bm_ok (waiters e' s')) \<and>
     wait_set e s' = wait_set e s - {p} \<and> (\<forall>e'. e' \<noteq> e \<longrightarrow> wait_set e' s' = wait_set e' s)"
proof -
  have p: "p \<le> 20" using assms(2) by (simp add: task_at_def)
  obtain w where "bm_clear (OSTCBY (TCB s i)) (OSTCBBitX (TCB s i)) (OSTCBBitY (TCB s i)) (waiters e s) = Some w"
      "bm_ok w" "bm_elems w = bm_elems (waiters e s) - {p}"
    using masks_clear [OF kernel_okD(3) [OF assms(1)] task_okD(1) [OF kernel_okD(4) [OF assms]] p] by blast
  then show ?thesis using kernel_okD(3) [OF assms(1)]
    by (simp add: OS_EventTaskRemove_def wait_set_def)
qed

lemma resume_ok:
  assumes ok: "kernel_ok s" and at: "task_at s p i" and rdy: "p \<in> ready_set s"
    and s1: "rdy s1 = rdy s" "\<And>e. bm_ok (waiters e s1)" "TCB s1 = TCB s" "sched_frame s s1"
    and w: "\<And>e. wait_set e s1 = wait_set e s - {p}"
    and s': "s' = set_tcb i resumed s1"
  shows "kernel_ok s'"
proof (rule kernel_ok_update [OF ok at])
  have tok: "task_ok s p (TCB s i)" using ok at by (rule kernel_okD(4))
  have run: "runnable (TCB s i)" using rdy task_okD(4) [OF tok] by simp
  have sets: "ready_set s' = ready_set s" "wait_set e s' = wait_set e s - {p}" for e
    using s1(1) w [of e] by (simp_all add: s' ready_set_def wait_set_def)
  then show "ready_set s' - {p} = ready_set s - {p}" "wait_set e s' - {p} = wait_set e s - {p}" for e
    by auto
  have t: "TCB s' i = resumed (TCB s i)" by (simp add: s' s1)
  then have r: "runnable (TCB s' i)" using run by (simp add: runnable_def resumed_def)
  then show "p = 20 \<Longrightarrow> runnable (TCB s' i)" .
  show "task_ok s' p (TCB s' i)"
    using task_okD(1) [OF tok] r rdy unfolding task_ok_def sets t
    by (simp add: masks_ok_def resumed_def)
  show "OSTCBPrioTbl s' = OSTCBPrioTbl s" "OSEventType (ECB s' e) = OSEventType (ECB s e)" for e
    using sched_frame_tbl [OF s1(4)] sched_frame_event [OF s1(4), of e] by (simp_all add: s' set_tcb_def)
qed (use s1 kernel_okD(2) [OF ok] in \<open>simp_all add: s'\<close>)

section \<open>The scheduler\<close>

text \<open>A context switch changes only which task runs, and counts.\<close>

definition switch_frame :: "os_state \<Rightarrow> os_state \<Rightarrow> bool" where
  "switch_frame s s' \<longleftrightarrow>
     s' = s\<lparr> OSPrioHighRdy := OSPrioHighRdy s', OSTCBHighRdy := OSTCBHighRdy s', OSTCBCur := OSTCBCur s',
            OSPrioCur := OSPrioCur s', OSCtxSwCtr := OSCtxSwCtr s', TCB := TCB s' \<rparr> \<and>
     (\<forall>i. TCB s' i = (TCB s i)\<lparr> OSTCBCtxSwCtr := OSTCBCtxSwCtr (TCB s' i) \<rparr>)"

lemma switch_frame_task:
  assumes "switch_frame s s'"
  shows "OSTCBStat (TCB s' i) = OSTCBStat (TCB s i)" "OSTCBDly (TCB s' i) = OSTCBDly (TCB s i)"
    "OSTCBStatPend (TCB s' i) = OSTCBStatPend (TCB s i)" "OSTCBEventPtr (TCB s' i) = OSTCBEventPtr (TCB s i)"
    "OSTCBMsg (TCB s' i) = OSTCBMsg (TCB s i)" "OSTCBNext (TCB s' i) = OSTCBNext (TCB s i)"
    "OSTCBPrio (TCB s' i) = OSTCBPrio (TCB s i)"
proof -
  have "TCB s' i = (TCB s i)\<lparr> OSTCBCtxSwCtr := OSTCBCtxSwCtr (TCB s' i) \<rparr>"
    using assms unfolding switch_frame_def by blast
  then show "OSTCBStat (TCB s' i) = OSTCBStat (TCB s i)" "OSTCBDly (TCB s' i) = OSTCBDly (TCB s i)"
    "OSTCBStatPend (TCB s' i) = OSTCBStatPend (TCB s i)" "OSTCBEventPtr (TCB s' i) = OSTCBEventPtr (TCB s i)"
    "OSTCBMsg (TCB s' i) = OSTCBMsg (TCB s i)" "OSTCBNext (TCB s' i) = OSTCBNext (TCB s i)"
    "OSTCBPrio (TCB s' i) = OSTCBPrio (TCB s i)"
    by (cases "TCB s i"; cases "TCB s' i"; simp)+
qed

lemma switch_frame_sets:
  assumes "switch_frame s s'"
  shows "ready_set s' = ready_set s" "wait_set e s' = wait_set e s" "task_at s' p i = task_at s p i"
    "rdy s' = rdy s" "waiters e s' = waiters e s" "ECB s' = ECB s" "OSTCBPrioTbl s' = OSTCBPrioTbl s"
    "OSTCBList s' = OSTCBList s" "OSIntNesting s' = OSIntNesting s" "OSLockNesting s' = OSLockNesting s"
    "OSRunning s' = OSRunning s" "QCB s' = QCB s" "storage s' = storage s"
  using assms unfolding switch_frame_def
  by (cases s; cases s'; simp add: ready_set_def wait_set_def task_at_def rdy_def waiters_def)+

lemma switch_frame_ok:
  assumes "kernel_ok s" "switch_frame s s'"
  shows "kernel_ok s'"
proof -
  have "task_ok s' p (TCB s' i)" if "task_ok s p (TCB s i)" for p i
  proof -
    have "TCB s' i = (TCB s i)\<lparr> OSTCBCtxSwCtr := OSTCBCtxSwCtr (TCB s' i) \<rparr>"
      using assms(2) unfolding switch_frame_def by blast
    then obtain c where "TCB s' i = (TCB s i)\<lparr> OSTCBCtxSwCtr := c \<rparr>" by blast
    with that show ?thesis
      by (simp add: task_ok_def switch_frame_sets [OF assms(2)] masks_ok_def runnable_def)
  qed
  with assms(1) show ?thesis by (simp add: kernel_ok_def switch_frame_sets [OF assms(2)])
qed

text \<open>The running task is the ready task with the smallest priority number.\<close>

definition highest_runs :: "os_state \<Rightarrow> bool" where
  "highest_runs s \<longleftrightarrow> cur_ok s \<and> unat (OSPrioCur s) = Min (ready_set s)"

lemma switch_to_highest:
  assumes ok: "kernel_ok s" and cur: "unat (OSPrioCur s) = Min (ready_set s) \<Longrightarrow> cur_ok s"
  shows "\<exists>s1 s'. OS_SchedNew s = Some s1 \<and> switch_to_high s1 = Some s' \<and> switch_frame s s' \<and>
           highest_runs s'"
proof -
  obtain y h where hi: "bm_highest (rdy s) = Some (y, h)" "unat h = Min (ready_set s)"
    using bm_highest_spec [OF kernel_okD(2) [OF ok] ready_not_empty [OF ok]] unfolding ready_set_def by blast
  have "Min (ready_set s) \<in> ready_set s"
    using ready_not_empty [OF ok] bm.finite_law [OF kernel_okD(2) [OF ok]] unfolding ready_set_def
    by (intro Min_in)
  then obtain i where at: "task_at s (unat h) i" using kernel_okD(5) [OF ok] hi(2) by auto
  then have h: "unat h \<le> 20" "OSTCBPrioTbl s ! unat h = TCB_AT i" by (auto simp: task_at_def)
  define s1 where "s1 = s\<lparr> OSPrioHighRdy := h \<rparr>"
  have new: "OS_SchedNew s = Some s1" using hi(1) by (simp add: OS_SchedNew_def s1_def)
  show ?thesis
  proof (cases "h = OSPrioCur s")
    case True
    then have "switch_to_high s1 = Some s1" by (simp add: switch_to_high_def s1_def)
    moreover have "switch_frame s s1" by (simp add: switch_frame_def s1_def)
    moreover have "highest_runs s1"
      using cur [folded hi(2)] hi(2) True
      by (simp add: highest_runs_def cur_ok_def s1_def task_at_def ready_set_def rdy_def)
    ultimately show ?thesis using new by blast
  next
    case False
    define s' where "s' = OSCtxSw ((set_tcb i (\<lambda>t. t\<lparr> OSTCBCtxSwCtr := OSTCBCtxSwCtr t + 1 \<rparr>)
      (s1\<lparr> OSTCBHighRdy := TCB_AT i \<rparr>))\<lparr> OSCtxSwCtr := OSCtxSwCtr s + 1 \<rparr>)"
    have "switch_to_high s1 = Some s'"
      using False h kernel_okD(1) [OF ok]
      by (simp add: switch_to_high_def s1_def s'_def array_get_def set_tcb_def)
    moreover have "switch_frame s s'"
      by (simp add: switch_frame_def s'_def s1_def OSCtxSw_def set_tcb_def)
    moreover have "highest_runs s'"
      using h hi(2) by (simp add: highest_runs_def cur_ok_def s'_def s1_def OSCtxSw_def set_tcb_def
          task_at_def ready_set_def rdy_def)
    ultimately show ?thesis using new by blast
  qed
qed

lemma switch_to_high_ok:
  assumes "kernel_ok s" "cur_ok s"
  shows "\<exists>s1 s'. OS_SchedNew s = Some s1 \<and> switch_to_high s1 = Some s' \<and> switch_frame s s' \<and> highest_runs s'"
  using switch_to_highest [OF assms(1)] assms(2) by blast

lemma OS_Sched_highest:
  assumes "kernel_ok s" "unat (OSPrioCur s) = Min (ready_set s) \<Longrightarrow> cur_ok s" "OSIntNesting s = 0" "OSLockNesting s = 0"
  obtains s' where "OS_Sched s = Some s'" "switch_frame s s'" "kernel_ok s'" "highest_runs s'"
  using switch_to_highest [OF assms(1,2)] switch_frame_ok [OF assms(1)] assms(3,4)
  by (auto simp: OS_Sched_def)

lemma OS_Sched_ok:
  assumes "kernel_ok s" "cur_ok s" "OSIntNesting s = 0" "OSLockNesting s = 0"
  obtains s' where "OS_Sched s = Some s'" "switch_frame s s'" "kernel_ok s'" "highest_runs s'"
  using switch_to_high_ok [OF assms(1,2)] switch_frame_ok [OF assms(1)] assms(3,4)
  by (auto simp: OS_Sched_def)

lemma OS_Sched_locked:
  "OSIntNesting s \<noteq> 0 \<or> OSLockNesting s \<noteq> 0 \<Longrightarrow> OS_Sched s = Some s"
  by (auto simp: OS_Sched_def)

end
