(* ===== verification/Kernel_Tick.thy ===== *)
theory Kernel_Tick imports Kernel_Inv begin

text \<open>
  The clock tick of \<open>os_core.c\<close>: \<open>OSTimeTick\<close> walks the list of task control blocks up to the idle
  task and counts down every delay and timeout. The theory shows that the walk ends, what it does to
  each task, that the kernel invariant is kept, and that a delay of \<open>n\<close> ticks ends at the
  \<open>n\<close>-th tick.
\<close>

section \<open>The list of tasks\<close>

text \<open>The control blocks reached from a pointer, the last being the idle task's.\<close>

fun tcb_chain :: "(nat \<Rightarrow> OS_TCB) \<Rightarrow> tcb_ptr \<Rightarrow> nat list \<Rightarrow> bool" where
  "tcb_chain T p [] = False"
| "tcb_chain T p (i # is) = (p = TCB_AT i \<and>
     (if OSTCBPrio (T i) = OS_TASK_IDLE_PRIO then is = [] else tcb_chain T (OSTCBNext (T i)) is))"

text \<open>The list holds every task once.\<close>

definition list_ok :: "os_state \<Rightarrow> bool" where
  "list_ok s \<longleftrightarrow> (\<exists>is. tcb_chain (TCB s) (OSTCBList s) is \<and> distinct is \<and>
     (\<forall>i. i \<in> set is \<longleftrightarrow> (\<exists>p. task_at s p i)))"

lemma tcb_chain_cong:
  "(\<And>i. OSTCBPrio (T' i) = OSTCBPrio (T i) \<and> OSTCBNext (T' i) = OSTCBNext (T i)) \<Longrightarrow>
     tcb_chain T' p is = tcb_chain T p is"
  by (induction "is" arbitrary: p) auto

lemma list_ok_cong:
  assumes "\<And>i. OSTCBPrio (TCB s' i) = OSTCBPrio (TCB s i) \<and> OSTCBNext (TCB s' i) = OSTCBNext (TCB s i)"
    and "OSTCBList s' = OSTCBList s" and "OSTCBPrioTbl s' = OSTCBPrioTbl s"
  shows "list_ok s' = list_ok s"
  using tcb_chain_cong [of "TCB s'" "TCB s"] assms by (simp add: list_ok_def task_at_def)

lemma tcb_chain_last:
  "tcb_chain T p is \<Longrightarrow>
     OSTCBPrio (T (last is)) = 20 \<and> (\<forall>i \<in> set (butlast is). OSTCBPrio (T i) \<noteq> 20)"
proof (induction "is" arbitrary: p)
  case (Cons i "is")
  show ?case
  proof (cases "OSTCBPrio (T i) = OS_TASK_IDLE_PRIO")
    case True
    with Cons.prems show ?thesis by simp
  next
    case False
    with Cons.prems have c: "tcb_chain T (OSTCBNext (T i)) is" by simp
    then have "is \<noteq> []" by (cases "is") auto
    with Cons.IH [OF c] False show ?thesis by simp
  qed
qed simp

section \<open>One task\<close>

text \<open>The effect of a tick on a task control block.\<close>

definition ticked :: "OS_TCB \<Rightarrow> OS_TCB" where
  "ticked t =
     (if OSTCBDly t = 0 then t
      else if OSTCBDly t = 1 then
        (if OSTCBStat t AND OS_STAT_PEND_ANY \<noteq> 0
         then t\<lparr> OSTCBDly := 0, OSTCBStat := OSTCBStat t AND NOT OS_STAT_PEND_ANY,
                  OSTCBStatPend := OS_STAT_PEND_TO \<rparr>
         else t\<lparr> OSTCBDly := 0, OSTCBStatPend := OS_STAT_PEND_OK \<rparr>)
      else t\<lparr> OSTCBDly := OSTCBDly t - 1 \<rparr>)"

lemma ticked_fields [simp]:
  "OSTCBPrio (ticked t) = OSTCBPrio t" "OSTCBNext (ticked t) = OSTCBNext t"
  "OSTCBY (ticked t) = OSTCBY t" "OSTCBX (ticked t) = OSTCBX t" "OSTCBBitX (ticked t) = OSTCBBitX t"
  "OSTCBBitY (ticked t) = OSTCBBitY t" "OSTCBEventPtr (ticked t) = OSTCBEventPtr t"
  "OSTCBEventMultiPtr (ticked t) = OSTCBEventMultiPtr t" "OSTCBMsg (ticked t) = OSTCBMsg t"
  by (simp_all add: ticked_def)

lemma masks_ok_ticked [simp]: "masks_ok p (ticked t) = masks_ok p t"
  by (simp add: masks_ok_def)

lemma unat_Dly_ticked: "unat (OSTCBDly (ticked t)) = unat (OSTCBDly t) - 1"
proof (cases "OSTCBDly t = 0")
  case False
  then have "1 \<le> OSTCBDly t" by (simp add: word_le_unat Suc_le_eq unat_gt_0)
  then show ?thesis using False by (auto simp: ticked_def unat_sub_word)
qed (simp add: ticked_def)

lemma ticked_running: "OSTCBStat t = 0 \<Longrightarrow> OSTCBStat (ticked t) = 0"
  by (simp add: ticked_def)

lemma and_0x37: "w AND 0x37 = 0 \<Longrightarrow> w AND NOT 0x3F = 0 \<Longrightarrow> pend_bits w = 0 \<and> w AND NOT 0x37 = w" for w :: INT8U
proof -
  assume "w AND 0x37 = 0" "w AND NOT 0x3F = 0"
  have "\<not> (bit w j \<and> bit (0x37 :: INT8U) j)" for j
    using arg_cong [OF \<open>w AND 0x37 = 0\<close>, of "\<lambda>x. bit x j"] unfolding bit_and_iff by simp
  then have "w AND NOT 0x37 = w" unfolding byte_eq_iff bit_and_not by blast
  with status_bits_tick(2) [OF \<open>w AND NOT 0x3F = 0\<close>] show ?thesis by simp
qed

lemma ticked_cases:
  obtains (idle) "OSTCBDly t = 0" "ticked t = t"
  | (count) "OSTCBDly t \<noteq> 0" "OSTCBDly t \<noteq> 1" "ticked t = t\<lparr> OSTCBDly := OSTCBDly t - 1 \<rparr>"
  | (timeout) "OSTCBDly t = 1" "OSTCBStat t AND 0x37 \<noteq> 0"
      "ticked t = t\<lparr> OSTCBDly := 0, OSTCBStat := OSTCBStat t AND NOT 0x37, OSTCBStatPend := OS_STAT_PEND_TO \<rparr>"
  | (delay) "OSTCBDly t = 1" "OSTCBStat t AND 0x37 = 0"
      "ticked t = t\<lparr> OSTCBDly := 0, OSTCBStatPend := OS_STAT_PEND_OK \<rparr>"
proof -
  consider "OSTCBDly t = 0" | "OSTCBDly t \<noteq> 0" "OSTCBDly t \<noteq> 1"
    | "OSTCBDly t = 1" "OSTCBStat t AND 0x37 \<noteq> 0" | "OSTCBDly t = 1" "OSTCBStat t AND 0x37 = 0" by blast
  then show thesis
  proof cases
    case 1
    then show thesis by (intro idle) (simp_all add: ticked_def)
  next
    case 2
    then show thesis by (intro count) (simp_all add: ticked_def)
  next
    case 3
    then show thesis by (intro timeout) (simp_all add: ticked_def)
  next
    case 4
    then show thesis by (intro delay) (simp_all add: ticked_def)
  qed
qed

lemma ticked_runnable:
  assumes "OSTCBStat t AND NOT 0x3F = 0"
  shows "runnable (ticked t) \<longleftrightarrow>
    (if OSTCBDly t = 1 then OSTCBStat (ticked t) AND 8 = 0 else runnable t)"
proof (cases t rule: ticked_cases)
  case timeout
  then show ?thesis using status_bits_tick(1) [OF assms] by (simp add: runnable_def)
next
  case delay
  then have "OSTCBStat t AND NOT 0x37 = OSTCBStat t" using and_0x37 assms by blast
  then show ?thesis using delay status_bits_tick(1) [OF assms] by (simp add: runnable_def)
qed (auto simp: runnable_def)

lemma ticked_task_ok:
  assumes tok: "task_ok s p t" and w: "\<And>e. wait_set e s' = wait_set e s"
    and ty: "\<And>e. OSEventType (ECB s' e) = OSEventType (ECB s e)"
    and r: "p \<in> ready_set s' \<longleftrightarrow> runnable (ticked t)"
  shows "task_ok s' p (ticked t)"
proof -
  note st = task_okD(2) [OF tok] and bits = status_bits_tick(2) [OF task_okD(2) [OF tok]]
  have mk: "masks_ok p (ticked t)" "OSTCBEventMultiPtr (ticked t) = None"
    using task_okD(1,3) [OF tok] by simp_all
  show ?thesis
  proof (cases t rule: ticked_cases)
    case idle
    with tok r show ?thesis unfolding task_ok_def w ty by simp
  next
    case count
    then have "pend_bits (OSTCBStat t) \<noteq> 0" if "p \<in> wait_set e s" for e
      using task_okD(8) [OF tok that] by blast
    with tok r mk count show ?thesis unfolding task_ok_def w ty by auto
  next
    case timeout
    with tok r mk bits pend_bits_0_cases [OF bits] show ?thesis
      unfolding task_ok_def w ty by simp
  next
    case delay
    then have "pend_bits (OSTCBStat t) = 0" using and_0x37 st by blast
    then have "p \<notin> wait_set e s" for e using task_okD(8) [OF tok] delay(1) by fastforce
    with tok r mk delay show ?thesis unfolding task_ok_def w ty by simp
  qed
qed

lemma tick_tcb_ticked:
  "tick_tcb i s =
     (if OSTCBDly (TCB s i) = 1 \<and> OSTCBStat (ticked (TCB s i)) AND 8 = 0 then
        do { b \<leftarrow> bm_set (OSTCBY (TCB s i)) (OSTCBBitX (TCB s i)) (OSTCBBitY (TCB s i)) (rdy s);
             Some (set_rdy b (set_tcb i ticked s)) }
      else Some (set_tcb i ticked s))"
proof (cases "TCB s i" rule: ticked_cases)
  case idle
  then show ?thesis by (simp add: tick_tcb_def set_tcb_def fun_upd_idem)
next
  case count
  then show ?thesis by (simp add: tick_tcb_def set_tcb_def)
next
  case timeout
  then show ?thesis by (simp add: tick_tcb_def set_tcb_def rdy_def)
next
  case delay
  then show ?thesis by (simp add: tick_tcb_def set_tcb_def rdy_def)
qed

lemma tick_tcb_ok:
  assumes ok: "kernel_ok s" and at: "task_at s p i"
  shows "\<exists>s'. tick_tcb i s = Some s' \<and> kernel_ok s' \<and> sched_frame s s' \<and>
           TCB s' = (TCB s)(i := ticked (TCB s i)) \<and> (\<forall>e. wait_set e s' = wait_set e s) \<and>
           ready_set s' = (if runnable (ticked (TCB s i)) then insert p (ready_set s) else ready_set s)"
proof -
  have tok: "task_ok s p (TCB s i)" using ok at by (rule kernel_okD(4))
  have p: "p \<le> 20" using at by (simp add: task_at_def)
  obtain r where r: "bm_set (OSTCBY (TCB s i)) (OSTCBBitX (TCB s i)) (OSTCBBitY (TCB s i)) (rdy s) = Some r"
      "bm_ok r" "bm_elems r = insert p (bm_elems (rdy s))"
    using masks_set [OF kernel_okD(2) [OF ok] task_okD(1) [OF tok] p] by blast
  note run = ticked_runnable [OF task_okD(2) [OF tok]]
  define s' where "s' = (if OSTCBDly (TCB s i) = 1 \<and> OSTCBStat (ticked (TCB s i)) AND 8 = 0
    then set_rdy r (set_tcb i ticked s) else set_tcb i ticked s)"
  have go: "tick_tcb i s = Some s'" using r(1) by (simp add: tick_tcb_ticked s'_def)
  have t: "TCB s' = (TCB s)(i := ticked (TCB s i))" by (auto simp: s'_def)
  have fr: "sched_frame s s'" by (simp add: s'_def)
  have w: "wait_set e s' = wait_set e s" for e by (simp add: s'_def wait_set_def)
  have rd: "ready_set s' = (if runnable (ticked (TCB s i)) then insert p (ready_set s) else ready_set s)"
    using run r(3) task_okD(4) [OF tok] by (auto simp: s'_def ready_set_def)
  moreover have "\<not> runnable (ticked (TCB s i)) \<Longrightarrow> \<not> runnable (TCB s i)"
    by (auto simp: runnable_def ticked_def)
  ultimately have pr: "p \<in> ready_set s' \<longleftrightarrow> runnable (ticked (TCB s i))" "p = 20 \<Longrightarrow> p \<in> ready_set s'"
    using task_okD(4) [OF tok] kernel_okD(7) [OF ok] by auto
  have bm: "bm_ok (rdy s')" "bm_ok (waiters e s')" for e
    using r(2) kernel_okD(2,3) [OF ok] by (simp_all add: s'_def)
  have "kernel_ok s'"
  proof (rule kernel_ok_update [OF ok at _ _ bm])
    show "task_ok s' p (TCB s' i)"
      using ticked_task_ok [OF tok w _ pr(1)] sched_frame_event [OF fr] by (simp add: t)
  qed (use sched_frame_tbl [OF fr] sched_frame_event [OF fr] t w rd pr in \<open>auto split: if_splits\<close>)
  with go fr t w rd show ?thesis by blast
qed

section \<open>The walk over the list\<close>

lemma tick_loop_ok:
  assumes "kernel_ok s" "tcb_chain (TCB s) ptr is" "distinct is" "\<forall>i \<in> set is. \<exists>p. task_at s p i"
  shows "\<exists>s'. tick_loop ptr s = Some s' \<and> kernel_ok s' \<and> sched_frame s s' \<and>
           (\<forall>i. TCB s' i = (if i \<in> set (butlast is) then ticked (TCB s i) else TCB s i)) \<and>
           (\<forall>e. wait_set e s' = wait_set e s)"
  using assms
proof (induction "is" arbitrary: ptr s)
  case (Cons i "is")
  show ?case
  proof (cases "OSTCBPrio (TCB s i) = OS_TASK_IDLE_PRIO")
    case True
    with Cons.prems show ?thesis by (subst tick_loop.simps) simp
  next
    case False
    from Cons.prems(4) obtain p where at: "task_at s p i" by auto
    from tick_tcb_ok [OF Cons.prems(1) at] obtain s1 where
      s1: "tick_tcb i s = Some s1" "kernel_ok s1" "sched_frame s s1"
        "TCB s1 = (TCB s)(i := ticked (TCB s i))" "\<forall>e. wait_set e s1 = wait_set e s" by blast
    have ne: "is \<noteq> []" using False Cons.prems(2) by (cases "is") auto
    have "tcb_chain (TCB s1) (OSTCBNext (TCB s1 i)) is"
      using Cons.prems(2) False tcb_chain_cong [of "TCB s1" "TCB s"] s1(4) by simp
    moreover have "\<forall>j \<in> set is. \<exists>p. task_at s1 p j"
      using Cons.prems(4) sched_frame_tbl [OF s1(3)] by (simp add: task_at_def)
    ultimately obtain s' where s': "tick_loop (OSTCBNext (TCB s1 i)) s1 = Some s'" "kernel_ok s'"
        "sched_frame s1 s'"
        "\<forall>j. TCB s' j = (if j \<in> set (butlast is) then ticked (TCB s1 j) else TCB s1 j)"
        "\<forall>e. wait_set e s' = wait_set e s1"
      using Cons.IH [OF s1(2), of "OSTCBNext (TCB s1 i)"] Cons.prems(3) by auto
    have "tick_loop ptr s = Some s'"
      using Cons.prems(2) False s1(1) s'(1) by (subst tick_loop.simps) simp
    moreover have "i \<notin> set (butlast is)" using Cons.prems(3) in_set_butlastD by fastforce
    then have "TCB s' j = (if j \<in> set (butlast (i # is)) then ticked (TCB s j) else TCB s j)" for j
      using s'(4) s1(4) ne by auto
    ultimately show ?thesis
      using s' s1 sched_frame_trans [OF s1(3) s'(3)] by auto
  qed
qed simp

section \<open>The tick\<close>

lemma OSTimeTick_ok:
  assumes ok: "kernel_ok s" and l: "list_ok s" and run: "OSRunning s = OS_TRUE"
    and step: "OSTickStepState s = OS_TICK_STEP_DIS"
  shows "\<exists>s'. OSTimeTick s = Some s' \<and> kernel_ok s' \<and> list_ok s' \<and> OSTime s' = OSTime s + 1 \<and>
     OSRunning s' = OS_TRUE \<and> OSTickStepState s' = OS_TICK_STEP_DIS \<and>
     (\<forall>p i. task_at s' p i \<longleftrightarrow> task_at s p i) \<and> (\<forall>e. wait_set e s' = wait_set e s) \<and>
     (\<forall>p i. task_at s p i \<longrightarrow>
        TCB s' i = (if p = OS_LOWEST_PRIO then TCB s i else ticked (TCB s i))) \<and>
     sched_frame (s\<lparr> OSTime := OSTime s + 1 \<rparr>) s'"
proof -
  define s1 where "s1 = s\<lparr> OSTime := OSTime s + 1 \<rparr>"
  have same: "TCB s1 = TCB s" "OSTCBList s1 = OSTCBList s" "task_at s1 = task_at s"
    "wait_set e s1 = wait_set e s" "ready_set s1 = ready_set s" for e
    by (auto simp: s1_def task_at_def wait_set_def waiters_def ready_set_def rdy_def fun_eq_iff)
  have tok1: "task_ok s1 p t = task_ok s p t" for p t
    unfolding task_ok_def same by (simp add: s1_def)
  have ok1: "kernel_ok s1" using ok unfolding kernel_ok_def same tok1
    by (simp add: s1_def rdy_def waiters_def)
  from l obtain "is" where chain: "tcb_chain (TCB s) (OSTCBList s) is" "distinct is"
    and live: "\<forall>i. i \<in> set is \<longleftrightarrow> (\<exists>p. task_at s p i)" by (auto simp: list_ok_def)
  obtain s' where s': "tick_loop (OSTCBList s) s1 = Some s'" "kernel_ok s'" "sched_frame s1 s'"
    "\<forall>i. TCB s' i = (if i \<in> set (butlast is) then ticked (TCB s1 i) else TCB s1 i)"
    "\<forall>e. wait_set e s' = wait_set e s1"
    using tick_loop_ok [OF ok1, of "OSTCBList s" "is"] chain live by (auto simp: same)
  have go: "OSTimeTick s = Some s'"
    using run step s'(1) by (simp add: OSTimeTick_def s1_def)
  have last_idle: "OSTCBPrio (TCB s (last is)) = 20" and only: "\<forall>i \<in> set (butlast is). OSTCBPrio (TCB s i) \<noteq> 20"
    using chain(1) tcb_chain_last by blast+
  have ne: "is \<noteq> []" using chain(1) by (cases "is") auto
  have butlast: "i \<in> set (butlast is) \<longleftrightarrow> p \<noteq> 20" if at: "task_at s p i" for p i
  proof -
    have prio: "unat (OSTCBPrio (TCB s i)) = p" using ok at by (rule task_at_prio)
    have "i \<in> set (butlast is) \<or> i = last is"
      using live at ne append_butlast_last_id [OF ne] by (metis Un_iff empty_iff empty_set list.set(2) insertE set_append)
    moreover have "p \<noteq> 20" if "i \<in> set (butlast is)"
    proof
      assume "p = 20"
      then have "OSTCBPrio (TCB s i) = 20" using prio by (intro word_unat_eqI) simp
      with only that show False by blast
    qed
    moreover have "p = 20" if "i = last is" using prio last_idle that by simp
    ultimately show ?thesis by blast
  qed
  have at: "task_at s' p i = task_at s p i" for p i
    using sched_frame_tbl [OF s'(3)] same(3) by (simp add: task_at_def s1_def)
  have "list_ok s'"
  proof -
    have "list_ok s' = list_ok s"
      by (rule list_ok_cong) (use s'(4) sched_frame_tbl [OF s'(3)] in \<open>auto simp: same s1_def\<close>)
    with l show ?thesis by simp
  qed
  moreover have "OSTime s' = OSTime s + 1 \<and> OSRunning s' = OS_TRUE \<and> OSTickStepState s' = OS_TICK_STEP_DIS"
    using s'(3) run step unfolding sched_frame_def s1_def by (cases s; cases s') simp
  moreover have "TCB s' i = (if p = 20 then TCB s i else ticked (TCB s i))" if "task_at s p i" for p i
    using s'(4) butlast [OF that] by (simp add: same)
  ultimately show ?thesis using go s'(2,5) at same(4) s'(3) by (simp add: s1_def)
qed

end
