(* ===== verification/Kernel_Example.thy ===== *)
theory Kernel_Example imports Kernel_Tick begin

text \<open>
  A concrete kernel state, used to show that the kernel properties apply: the idle task, a task of
  priority 6 that runs, a task of priority 5 that waits for the semaphore of event 0 with a timeout
  of 3 ticks, and a task of priority 7 that is delayed for 2 ticks. Event 1 is a message queue with
  four entries of storage and two messages, event 2 a semaphore with count 1.
\<close>

definition example_tcb :: "INT8U \<Rightarrow> INT8U \<Rightarrow> INT16U \<Rightarrow> event_ptr \<Rightarrow> tcb_ptr \<Rightarrow> tcb_ptr \<Rightarrow> OS_TCB" where
  "example_tcb prio stat dly e next prev =
     \<lparr> OSTCBStkPtr = 0, OSTCBExtPtr = 0, OSTCBStkBottom = 0, OSTCBStkSize = 0, OSTCBOpt = 0, OSTCBId = 0,
       OSTCBNext = next, OSTCBPrev = prev, OSTCBEventPtr = e, OSTCBEventMultiPtr = None, OSTCBMsg = 0, OSTCBFlagNode = None, OSTCBFlagsRdy = 0,
       OSTCBDly = dly, OSTCBStat = stat, OSTCBStatPend = OS_STAT_PEND_OK, OSTCBPrio = prio,
       OSTCBX = prio_x prio, OSTCBY = prio_y prio, OSTCBBitX = prio_bitx prio, OSTCBBitY = prio_bity prio,
       OSTCBDelReq = 0, OSTCBCtxSwCtr = 0, OSTCBCyclesTot = 0, OSTCBCyclesStart = 0, OSTCBStkBase = 0,
       OSTCBStkUsed = 0, OSTCBTaskName = [] \<rparr>"

definition example_tcbs :: "nat \<Rightarrow> OS_TCB" where
  "example_tcbs i =
     (if i = 0 then example_tcb 20 0 0 None TCB_NULL (TCB_AT 1)
      else if i = 1 then example_tcb 5 OS_STAT_SEM 3 (Some 0) (TCB_AT 0) (TCB_AT 2)
      else if i = 2 then example_tcb 6 0 0 None (TCB_AT 1) (TCB_AT 3)
      else example_tcb 7 0 2 None (TCB_AT 2) TCB_NULL)"

definition example_ecbs :: "nat \<Rightarrow> OS_EVENT" where
  "example_ecbs e =
     (if e = 0 then \<lparr> OSEventType = OS_EVENT_TYPE_SEM, OSEventPtr = Msg 0, OSEventCnt = 0,
        OSEventGrp = 1, OSEventTbl = [32, 0, 0], OSEventName = [] \<rparr>
      else if e = 1 then \<lparr> OSEventType = OS_EVENT_TYPE_Q, OSEventPtr = Q_Ptr (Some 0), OSEventCnt = 0,
        OSEventGrp = 0, OSEventTbl = [0, 0, 0], OSEventName = [] \<rparr>
      else if e = 2 then \<lparr> OSEventType = OS_EVENT_TYPE_SEM, OSEventPtr = Msg 0, OSEventCnt = 1,
        OSEventGrp = 0, OSEventTbl = [0, 0, 0], OSEventName = [] \<rparr>
      else \<lparr> OSEventType = OS_EVENT_TYPE_UNUSED, OSEventPtr = Event_Ptr None, OSEventCnt = 0,
        OSEventGrp = 0, OSEventTbl = [0, 0, 0], OSEventName = [] \<rparr>)"

definition example_qcbs :: "nat \<Rightarrow> OS_Q" where
  "example_qcbs q = \<lparr> OSQPtr = None, OSQStart = 1000, OSQEnd = 1016, OSQIn = 1004, OSQOut = 1012,
     OSQSize = 4, OSQEntries = 2 \<rparr>"

definition zero_grp :: OS_FLAG_GRP where
  "zero_grp = \<lparr> OSFlagType = 0, OSFlagWaitList = Node_Ptr None, OSFlagFlags = 0, OSFlagName = [] \<rparr>"

definition zero_node :: OS_FLAG_NODE where
  "zero_node = \<lparr> OSFlagNodeNext = None, OSFlagNodePrev = None, OSFlagNodeTCB = TCB_NULL,
     OSFlagNodeFlagGrp = None, OSFlagNodeFlags = 0, OSFlagNodeWaitType = 0 \<rparr>"

definition zero_mem :: OS_MEM where
  "zero_mem = \<lparr> OSMemAddr = 0, OSMemFreeList = Block_Ptr 0, OSMemBlkSize = 0, OSMemNBlks = 0, OSMemNFree = 0,
     OSMemName = [] \<rparr>"

definition example_os :: os_state where
  "example_os =
     \<lparr> OSCtxSwCtr = 0, OSEventFreeList = None, ECB = example_ecbs, OSFlagTbl = (\<lambda>g. zero_grp),
       OSFlagFreeList = None, flag_node = (\<lambda>n. zero_node), OSCPUUsage = 0, OSIdleCtrMax = 0,
       OSIdleCtrRun = 0, OSStatRdy = 0, OSIntNesting = 0, OSLockNesting = 0, OSPrioCur = 6,
       OSPrioHighRdy = 6, OSRdyGrp = 5, OSRdyTbl = [64, 0, 16], OSRunning = OS_TRUE, OSTaskCtr = 4,
       OSIdleCtr = 0, OSTCBCur = TCB_AT 2, OSTCBFreeList = TCB_NULL, OSTCBHighRdy = TCB_AT 2,
       OSTCBList = TCB_AT 3,
       OSTCBPrioTbl = replicate 5 TCB_NULL @ [TCB_AT 1, TCB_AT 2, TCB_AT 3] @ replicate 12 TCB_NULL @ [TCB_AT 0],
       TCB = example_tcbs, OSTickStepState = OS_TICK_STEP_DIS, MemFreeList = None,
       OSMemTbl = (\<lambda>m. zero_mem), OSQFreeList = None, QCB = example_qcbs,
       OSTime = 0, storage = (\<lambda>a. if a = 1012 then 11 else if a = 1000 then 22 else 0) \<rparr>"

lemma example_fields [simp]:
  "TCB example_os = example_tcbs" "ECB example_os = example_ecbs" "QCB example_os = example_qcbs"
  "OSTCBCur example_os = TCB_AT 2" "OSPrioCur example_os = 6" "OSTCBList example_os = TCB_AT 3"
  "OSIntNesting example_os = 0" "OSLockNesting example_os = 0" "OSRunning example_os = OS_TRUE"
  "OSTickStepState example_os = OS_TICK_STEP_DIS" "length (OSTCBPrioTbl example_os) = 21"
  "rdy example_os = (5, [64, 0, 16])"
  by (simp_all add: example_os_def rdy_def)

text \<open>The bitmaps of the example, as results of insertions into the empty one.\<close>

lemma example_bm:
  "bm_ok (5, [64, 0, 16]) \<and> bm_elems (5, [64, 0, 16]) = {6, 20}"
  "bm_ok (1, [32, 0, 0]) \<and> bm_elems (1, [32, 0, 0]) = {5}"
  "bm_ok (0, [0, 0, 0]) \<and> bm_elems (0, [0, 0, 0]) = {}"
proof -
  have e: "bm_empty = (0, [0, 0, 0])" by (simp add: bm_empty_def numeral_3_eq_3)
  then show 0: "bm_ok (0, [0, 0, 0]) \<and> bm_elems (0, [0, 0, 0]) = {}" by (metis bm_empty_ok)
  have i: "bm_insert 5 (0, [0, 0, 0]) = Some (1, [32, 0, 0])" "bm_insert 6 (0, [0, 0, 0]) = Some (1, [64, 0, 0])"
    "bm_insert 20 (1, [64, 0, 0]) = Some (5, [64, 0, 16])"
    by (simp_all add: bm_insert_def bm_set_def prio_y_def prio_x_def prio_bitx_def prio_bity_def)
  from bm.ins_Some [OF _ _ i(1)] 0
  show "bm_ok (1, [32, 0, 0]) \<and> bm_elems (1, [32, 0, 0]) = {5}" by simp
  from bm.ins_Some [OF _ _ i(2)] 0
  have "bm_ok (1, [64, 0, 0]) \<and> bm_elems (1, [64, 0, 0]) = {6}" by simp
  with bm.ins_Some [OF _ _ i(3)]
  show "bm_ok (5, [64, 0, 16]) \<and> bm_elems (5, [64, 0, 16]) = {6, 20}" by auto
qed

lemma example_task_at:
  "task_at example_os p i \<longleftrightarrow> (p, i) \<in> {(5, 1), (6, 2), (7, 3), (20, 0)}"
proof -
  have "p \<le> 20 \<Longrightarrow> p \<in> set [0..<21]" by simp
  then show ?thesis
    by (auto simp: task_at_def example_os_def nth_append nth_Cons' upt_rec_numeral)
qed

lemma example_waiters: "waiters e example_os = (if e = 0 then (1, [32, 0, 0]) else (0, [0, 0, 0]))"
  by (simp add: waiters_def example_ecbs_def)

lemma example_sets:
  "ready_set example_os = {6, 20}" "wait_set e example_os = (if e = 0 then {5} else {})"
  by (simp_all add: ready_set_def wait_set_def example_waiters example_bm)

lemma example_kernel_ok: "kernel_ok example_os"
proof -
  have "task_ok example_os p (TCB example_os i)" if "task_at example_os p i" for p i
    using that unfolding example_task_at
    by (auto simp: task_ok_def example_sets masks_ok_def runnable_def example_tcbs_def
        example_tcb_def example_ecbs_def pend_bits_def event_mask_def)
  moreover have "bm_ok (rdy example_os)" "bm_ok (waiters e example_os)" for e
    by (simp_all add: example_waiters example_bm)
  ultimately show ?thesis
    unfolding kernel_ok_def by (auto simp: example_sets example_task_at)
qed

lemma example_list_ok: "list_ok example_os"
proof -
  have "tcb_chain (TCB example_os) (OSTCBList example_os) [3, 2, 1, 0]"
    by (simp add: example_tcbs_def example_tcb_def)
  moreover have "distinct [3, 2, 1, 0 :: nat]"
    "\<forall>i. i \<in> set [3, 2, 1, 0] \<longleftrightarrow> (\<exists>p. task_at example_os p i)"
    by (auto simp: example_task_at)
  ultimately show ?thesis unfolding list_ok_def by blast
qed

lemma example_cur_ok: "cur_ok example_os"
  unfolding cur_ok_def example_task_at by simp

lemmas example_state = example_kernel_ok example_list_ok example_cur_ok

end
