(* ===== verification/Kernel_Correct.thy ===== *)
theory Kernel_Correct imports Kernel_Example begin

text \<open>
  The properties of the scheduling core of \<open>os_core.c\<close>: the wake-up of the highest priority waiting
  task, the broadcast, the scheduler, interrupt exit, the clock tick and the expiry of delays.
\<close>

section \<open>Waking tasks\<close>

text \<open>C16: Waking for an event wakes the right task: from a consistent kernel with a task waiting for
  event \<open>e\<close>, \<open>OS_EventTaskRdy\<close> succeeds, picks the waiting task with the smallest priority number,
  hands it the message and the status, takes it off the wait list, makes it ready unless it is
  suspended, and leaves the kernel consistent and every other task as it was.\<close>

theorem event_task_rdy_wakes_highest:
  assumes "kernel_ok s" and "wait_set e s \<noteq> {}" and "msk = event_mask (OSEventType (ECB s e))"
  shows "\<exists>prio i s'. OS_EventTaskRdy e pmsg msk st s = Some (prio, s') \<and> kernel_ok s' \<and>
     unat prio = Min (wait_set e s) \<and> task_at s (unat prio) i \<and>
     wait_set e s' = wait_set e s - {unat prio} \<and>
     ready_set s' = (if suspended (TCB s i) then ready_set s else insert (unat prio) (ready_set s)) \<and>
     OSTCBMsg (TCB s' i) = pmsg \<and> OSTCBStatPend (TCB s' i) = st \<and> OSTCBDly (TCB s' i) = 0 \<and>
     (\<forall>j. j \<noteq> i \<longrightarrow> TCB s' j = TCB s j)"
proof -
  obtain prio i s' where "OS_EventTaskRdy e pmsg msk st s = Some (prio, s')"
    "readied e pmsg msk st s (unat prio) i s'" "kernel_ok s'"
    by (rule OS_EventTaskRdy_ok [OF assms(1,2) assms(3) [symmetric]]) (simp_all add: assms(3))
  then show ?thesis by (auto simp: readied_def)
qed

theorem event_task_rdy_wakes_highest_witness:
  "\<exists>prio i s'. OS_EventTaskRdy 0 77 OS_STAT_SEM OS_STAT_PEND_OK example_os = Some (prio, s') \<and>
     unat prio = 5 \<and> ready_set s' = {5, 6, 20} \<and> OSTCBMsg (TCB s' i) = 77"
  using event_task_rdy_wakes_highest [OF example_kernel_ok, of 0 OS_STAT_SEM 77 OS_STAT_PEND_OK]
  by (fastforce simp: example_sets example_task_at example_ecbs_def event_mask_def example_tcbs_def
      example_tcb_def suspended_def)

text \<open>The broadcast loop of the delete, abort and post operations ends: it wakes every task that
  waits for the event, each exactly once, counts them, empties the wait list, touches no other
  task or wait list and keeps the kernel consistent.\<close>

theorem ready_all_wakes_all:
  assumes "kernel_ok s" and "msk = event_mask (OSEventType (ECB s e))"
  shows "\<exists>s'. ready_all e pmsg msk st 0 s = Some (of_nat (card (wait_set e s)), s') \<and> kernel_ok s' \<and>
     wait_set e s' = {} \<and> (\<forall>e'. e' \<noteq> e \<longrightarrow> wait_set e' s' = wait_set e' s) \<and>
     (\<forall>p i. task_at s p i \<longrightarrow>
        TCB s' i = (if p \<in> wait_set e s then woken pmsg msk st (TCB s i) else TCB s i)) \<and>
     (\<forall>p i. task_at s p i \<and> p \<in> wait_set e s \<and> \<not> suspended (TCB s i) \<longrightarrow> p \<in> ready_set s')"
proof -
  obtain s' where s': "ready_all e pmsg msk st 0 s = Some (0 + of_nat (card (wait_set e s)), s')" "kernel_ok s'"
    "sched_frame s s'" "wait_set e s' = {}" "\<forall>e'. e' \<noteq> e \<longrightarrow> wait_set e' s' = wait_set e' s"
    "\<forall>p i. task_at s p i \<longrightarrow>
        TCB s' i = (if p \<in> wait_set e s then woken pmsg msk st (TCB s i) else TCB s i)"
    using ready_all_ok [OF assms(1), of e msk pmsg st 0] assms(2) by auto
  have "p \<in> ready_set s'" if "task_at s p i" "p \<in> wait_set e s" "\<not> suspended (TCB s i)" for p i
  proof -
    have at: "task_at s' p i" using that(1) sched_frame_tbl [OF s'(3)] by (simp add: task_at_def)
    have pb: "pend_bits (OSTCBStat (TCB s i)) \<in> {0, msk}"
      using task_okD(6) [OF kernel_okD(4) [OF assms(1) that(1)] that(2)] assms(2) by simp
    have "runnable (woken pmsg msk st (TCB s i))"
      using status_bits_event(1) [OF pb] that(3) assms(2)
      by (simp add: runnable_def suspended_def and_8_iff bit_and_not)
    then show ?thesis using task_okD(4) [OF kernel_okD(4) [OF s'(2) at]] s'(6) that by simp
  qed
  with s' show ?thesis by auto
qed

theorem ready_all_wakes_all_witness:
  "\<exists>s'. ready_all 0 0 OS_STAT_SEM OS_STAT_PEND_ABORT 0 example_os = Some (1, s') \<and> 5 \<in> ready_set s'"
proof -
  have "event_mask (OSEventType (ECB example_os 0)) = OS_STAT_SEM"
    by (simp add: example_ecbs_def event_mask_def)
  from ready_all_wakes_all [OF example_kernel_ok this [symmetric], of 0 OS_STAT_PEND_ABORT]
  show ?thesis
    by (auto simp: example_sets example_task_at example_tcbs_def example_tcb_def suspended_def)
qed

section \<open>Scheduling\<close>

text \<open>C15: The scheduler is a strict priority scheduler: called at task level with the scheduler
  unlocked it switches to the ready task with the smallest priority number (or stays with it),
  changing nothing else but switch counters; called from an interrupt or with the scheduler locked
  it does nothing.\<close>

theorem sched_runs_highest:
  assumes "kernel_ok s" and "cur_ok s"
  shows "(OSIntNesting s = 0 \<and> OSLockNesting s = 0 \<longrightarrow>
            (\<exists>s'. OS_Sched s = Some s' \<and> switch_frame s s' \<and> kernel_ok s' \<and> cur_ok s' \<and>
                  unat (OSPrioCur s') = Min (ready_set s) \<and> unat (OSPrioCur s') \<in> ready_set s)) \<and>
         (OSIntNesting s \<noteq> 0 \<or> OSLockNesting s \<noteq> 0 \<longrightarrow> OS_Sched s = Some s)"
proof -
  have "Min (ready_set s) \<in> ready_set s"
    using ready_not_empty [OF assms(1)] bm.finite_law [OF kernel_okD(2) [OF assms(1)]]
    unfolding ready_set_def by (intro Min_in)
  then have "\<exists>s'. OS_Sched s = Some s' \<and> switch_frame s s' \<and> kernel_ok s' \<and> cur_ok s' \<and>
      unat (OSPrioCur s') = Min (ready_set s) \<and> unat (OSPrioCur s') \<in> ready_set s"
    if "OSIntNesting s = 0" "OSLockNesting s = 0"
    using OS_Sched_ok [OF assms that] switch_frame_sets(1) by (metis highest_runs_def)
  then show ?thesis by (simp add: OS_Sched_locked)
qed

theorem sched_runs_highest_witness:
  "\<exists>s'. OS_Sched example_os = Some s' \<and> unat (OSPrioCur s') = 6"
  using sched_runs_highest [OF example_kernel_ok example_cur_ok] by (auto simp: example_sets)

text \<open>Leaving an interrupt: the scheduler runs when the last nested handler ends.\<close>

lemma int_exit_nested:
  assumes "OSRunning s = OS_TRUE" "1 < OSIntNesting s"
  shows "OSIntExit s = Some (s\<lparr> OSIntNesting := OSIntNesting s - 1 \<rparr>)"
proof -
  have "OSIntNesting s - 1 \<noteq> 0" "0 < OSIntNesting s"
    using assms(2) by (auto simp: word_less_nat_alt unat_gt_0)
  then show ?thesis using assms(1) by (simp add: OSIntExit_def)
qed

section \<open>Ticks\<close>

fun os_ticks :: "nat \<Rightarrow> os_state \<Rightarrow> os_state option" where
  "os_ticks 0 s = Some s"
| "os_ticks (Suc n) s = do { s \<leftarrow> OSTimeTick s; os_ticks n s }"

lemma os_ticks_ok:
  assumes "kernel_ok s" "list_ok s" "OSRunning s = OS_TRUE" "OSTickStepState s = OS_TICK_STEP_DIS"
  shows "\<exists>s'. os_ticks n s = Some s' \<and> kernel_ok s' \<and> list_ok s' \<and> OSTime s' = OSTime s + of_nat n \<and>
     (\<forall>p i. task_at s' p i \<longleftrightarrow> task_at s p i) \<and> (\<forall>e. wait_set e s' = wait_set e s) \<and>
     (\<forall>p i. task_at s p i \<longrightarrow> TCB s' i = (if p = OS_LOWEST_PRIO then TCB s i else (ticked ^^ n) (TCB s i)))"
  using assms
proof (induction n arbitrary: s)
  case (Suc n)
  from OSTimeTick_ok [OF Suc.prems] obtain s1 where s1: "OSTimeTick s = Some s1" "kernel_ok s1" "list_ok s1"
    "OSTime s1 = OSTime s + 1" "OSRunning s1 = OS_TRUE" "OSTickStepState s1 = OS_TICK_STEP_DIS"
    "\<forall>p i. task_at s1 p i \<longleftrightarrow> task_at s p i" "\<forall>e. wait_set e s1 = wait_set e s"
    "\<forall>p i. task_at s p i \<longrightarrow> TCB s1 i = (if p = OS_LOWEST_PRIO then TCB s i else ticked (TCB s i))"
    by blast
  from Suc.IH [OF s1(2,3,5,6)] obtain s' where s': "os_ticks n s1 = Some s'" "kernel_ok s'" "list_ok s'"
    "OSTime s' = OSTime s1 + of_nat n" "\<forall>p i. task_at s' p i \<longleftrightarrow> task_at s1 p i"
    "\<forall>e. wait_set e s' = wait_set e s1"
    "\<forall>p i. task_at s1 p i \<longrightarrow> TCB s' i = (if p = OS_LOWEST_PRIO then TCB s1 i else (ticked ^^ n) (TCB s1 i))"
    by blast
  have "os_ticks (Suc n) s = Some s'" using s1(1) s'(1) by simp
  moreover have "OSTime s' = OSTime s + of_nat (Suc n)" using s'(4) s1(4) by (simp add: algebra_simps)
  moreover have "TCB s' i = (if p = OS_LOWEST_PRIO then TCB s i else (ticked ^^ Suc n) (TCB s i))"
    if "task_at s p i" for p i
    using that s'(7) s1(7,9) by (simp add: funpow_swap1)
  ultimately show ?case using s'(2,3,5,6) s1(7,8) by auto
qed simp

lemma unat_Dly_ticks: "unat (OSTCBDly ((ticked ^^ n) t)) = unat (OSTCBDly t) - n"
  by (induction n arbitrary: t) (simp_all add: unat_Dly_ticked)

lemma ticks_before: "n < unat (OSTCBDly t) \<Longrightarrow> OSTCBStat ((ticked ^^ n) t) = OSTCBStat t"
proof (induction n)
  case (Suc n)
  then have "unat (OSTCBDly ((ticked ^^ n) t)) > 1" by (simp add: unat_Dly_ticks)
  then have "OSTCBDly ((ticked ^^ n) t) \<noteq> 0" "OSTCBDly ((ticked ^^ n) t) \<noteq> 1" by auto
  then have "OSTCBStat (ticked ((ticked ^^ n) t)) = OSTCBStat ((ticked ^^ n) t)" by (simp add: ticked_def)
  with Suc show ?case by simp
qed simp

lemma ticks_expire:
  assumes "unat (OSTCBDly t) = Suc n"
  shows "OSTCBDly ((ticked ^^ Suc n) t) = 0"
    and "OSTCBStat ((ticked ^^ Suc n) t) =
      (if OSTCBStat t AND OS_STAT_PEND_ANY \<noteq> 0 then OSTCBStat t AND NOT OS_STAT_PEND_ANY else OSTCBStat t)"
    and "OSTCBStatPend ((ticked ^^ Suc n) t) =
      (if OSTCBStat t AND OS_STAT_PEND_ANY \<noteq> 0 then OS_STAT_PEND_TO else OS_STAT_PEND_OK)"
proof -
  have d: "OSTCBDly ((ticked ^^ n) t) = 1"
    using assms by (intro word_unat_eqI) (simp add: unat_Dly_ticks)
  have st: "OSTCBStat ((ticked ^^ n) t) = OSTCBStat t" using assms by (intro ticks_before) simp
  show "OSTCBDly ((ticked ^^ Suc n) t) = 0"
    "OSTCBStat ((ticked ^^ Suc n) t) =
      (if OSTCBStat t AND OS_STAT_PEND_ANY \<noteq> 0 then OSTCBStat t AND NOT OS_STAT_PEND_ANY else OSTCBStat t)"
    "OSTCBStatPend ((ticked ^^ Suc n) t) =
      (if OSTCBStat t AND OS_STAT_PEND_ANY \<noteq> 0 then OS_STAT_PEND_TO else OS_STAT_PEND_OK)"
    using d st by (simp_all add: ticked_def)
qed

text \<open>C17: Delays and timeouts are exact: a task with a delay or timeout of \<open>d\<close> ticks that nothing
  else wakes becomes ready at the \<open>d\<close>-th tick and not before. A task that was waiting for an event
  then carries the timeout status, one that was only delayed the status OK; ticks never lose a task
  and keep the kernel consistent.\<close>

theorem delay_expires_exactly:
  assumes "kernel_ok s" "list_ok s" "OSRunning s = OS_TRUE" "OSTickStepState s = OS_TICK_STEP_DIS"
    and at: "task_at s p i" "p \<noteq> OS_LOWEST_PRIO" and d: "0 < OSTCBDly (TCB s i)" "n \<le> unat (OSTCBDly (TCB s i))"
    and sus: "\<not> suspended (TCB s i)"
  shows "\<exists>s'. os_ticks n s = Some s' \<and> kernel_ok s' \<and> list_ok s' \<and>
     (p \<in> ready_set s' \<longleftrightarrow> n = unat (OSTCBDly (TCB s i))) \<and>
     (n = unat (OSTCBDly (TCB s i)) \<longrightarrow> OSTCBStatPend (TCB s' i) =
        (if OSTCBStat (TCB s i) AND OS_STAT_PEND_ANY \<noteq> 0 then OS_STAT_PEND_TO else OS_STAT_PEND_OK))"
proof -
  obtain s' where s': "os_ticks n s = Some s'" "kernel_ok s'" "list_ok s'"
    "\<forall>p i. task_at s' p i \<longleftrightarrow> task_at s p i" "TCB s' i = (ticked ^^ n) (TCB s i)"
    using os_ticks_ok [OF assms(1-4), of n] at by auto
  have r: "p \<in> ready_set s' \<longleftrightarrow> runnable (TCB s' i)"
    using task_okD(4) [OF kernel_okD(4) [OF s'(2)]] s'(4) at by blast
  have "runnable (TCB s' i) \<longleftrightarrow> n = unat (OSTCBDly (TCB s i))"
  proof (cases "n = unat (OSTCBDly (TCB s i))")
    case True
    moreover have "n \<noteq> 0" using True d(1) by (simp add: unat_gt_0)
    ultimately obtain m where m: "n = Suc m" "unat (OSTCBDly (TCB s i)) = Suc m"
      by (metis not0_implies_Suc)
    have st: "OSTCBStat (TCB s i) AND NOT 0x3F = 0"
      using task_okD(2) [OF kernel_okD(4) [OF assms(1) at(1)]] .
    note ex = ticks_expire [OF m(2)]
    have "\<not> bit (OSTCBStat (TCB s i)) 3" using sus by (simp add: suspended_def and_8_iff)
    then have "OSTCBStat (TCB s i) AND NOT 0x37 = 0"
      using status_bits_tick(1) [OF st] unfolding and_8_iff bit_and_not by blast
    moreover have "OSTCBStat (TCB s i) AND 0x37 = 0 \<Longrightarrow> OSTCBStat (TCB s i) = OSTCBStat (TCB s i) AND NOT 0x37"
      using and_0x37 st by metis
    ultimately have "OSTCBStat (TCB s' i) = 0" using ex(2) s'(5) m(1) by auto
    then show ?thesis using True ex(1) s'(5) m(1) by (simp add: runnable_def)
  next
    case False
    then have "unat (OSTCBDly (TCB s' i)) \<noteq> 0" using d(2) s'(5) by (simp add: unat_Dly_ticks)
    then have "OSTCBDly (TCB s' i) \<noteq> 0" by auto
    with False show ?thesis by (simp add: runnable_def)
  qed
  moreover have "OSTCBStatPend (TCB s' i) =
        (if OSTCBStat (TCB s i) AND OS_STAT_PEND_ANY \<noteq> 0 then OS_STAT_PEND_TO else OS_STAT_PEND_OK)"
    if "n = unat (OSTCBDly (TCB s i))"
  proof -
    have "n \<noteq> 0" using that d(1) by (simp add: unat_gt_0)
    then obtain m where m: "n = Suc m" by (cases n) auto
    then have "unat (OSTCBDly (TCB s i)) = Suc m" using that by simp
    from ticks_expire(3) [OF this] show ?thesis unfolding s'(5) m .
  qed
  ultimately show ?thesis using s'(1-3) r by blast
qed

theorem delay_expires_exactly_witness:
  "\<exists>s'. os_ticks 3 example_os = Some s' \<and> 5 \<in> ready_set s' \<and> OSTCBStatPend (TCB s' 1) = OS_STAT_PEND_TO"
proof -
  have "OSTCBDly (TCB example_os 1) = 3" "OSTCBStat (TCB example_os 1) = 1"
    by (simp_all add: example_tcbs_def example_tcb_def)
  then show ?thesis
    using delay_expires_exactly [OF example_kernel_ok example_list_ok, of 5 1 3]
    by (auto simp: example_task_at suspended_def)
qed

end
