(* ===== verification/Os_Sem.thy ===== *)
theory Os_Sem imports Kernel_Correct begin

text \<open>
  \<open>os_sem.c\<close>: counting semaphores. A function that reports through \<open>INT8U *perr\<close> takes the cell
  as an option, \<open>None\<close> being the null pointer, and returns it written. \<open>OSSemPend\<close> is split where
  the task can lose the processor: \<open>OSSemPend_enter\<close> runs up to and including \<open>OS_Sched\<close> and says
  whether the function has returned, \<open>OSSemPend_resume\<close> is the rest, run when the task is the
  running task again. The lemmas give the effect of every operation on a consistent kernel and the
  meaning of a semaphore: posts and accepts count, a post is never lost, a waiting task gets it.
\<close>

section \<open>Operations\<close>

definition OSSemAccept :: "event_ptr \<Rightarrow> os_state \<Rightarrow> INT16U \<times> os_state" where
  "OSSemAccept pevent s =
     (case pevent of None \<Rightarrow> (0, s)
      | Some e \<Rightarrow>
          if OSEventType (ECB s e) \<noteq> OS_EVENT_TYPE_SEM then (0, s)
          else let cnt = OSEventCnt (ECB s e) in
            if cnt > 0 then (cnt, set_event e (\<lambda>ev. ev\<lparr> OSEventCnt := OSEventCnt ev - 1 \<rparr>) s)
            else (cnt, s))"

text \<open>Taking the first block off the free list of event control blocks.\<close>

definition alloc_event :: "os_state \<Rightarrow> (event_ptr \<times> os_state) option" where
  "alloc_event s =
     (case OSEventFreeList s of None \<Rightarrow> Some (None, s)
      | Some e \<Rightarrow>
          (case OSEventPtr (ECB s e) of
             Event_Ptr nx \<Rightarrow> Some (Some e, s\<lparr> OSEventFreeList := nx \<rparr>)
           | _ \<Rightarrow> None))"

definition event_name_unknown :: "OS_EVENT \<Rightarrow> OS_EVENT" where
  "event_name_unknown ev = ev\<lparr> OSEventName := (OSEventName ev)[0 := 63, 1 := 0] \<rparr>"

definition OSSemCreate :: "INT16U \<Rightarrow> os_state \<Rightarrow> (event_ptr \<times> os_state) option" where
  "OSSemCreate cnt s =
     (if OSIntNesting s > 0 then Some (None, s)
      else do {
        (pevent, s) \<leftarrow> alloc_event s;
        (case pevent of None \<Rightarrow> Some (None, s)
         | Some e \<Rightarrow>
             let s = set_event e (\<lambda>ev. event_name_unknown (ev\<lparr> OSEventType := OS_EVENT_TYPE_SEM,
                                        OSEventCnt := cnt, OSEventPtr := Msg 0 \<rparr>)) s in
             Some (Some e, OS_EventWaitListInit e s))
      })"

text \<open>Returning a block to the free list.\<close>

definition free_event :: "nat \<Rightarrow> os_state \<Rightarrow> os_state" where
  "free_event e s =
     (set_event e (\<lambda>ev. (event_name_unknown ev)\<lparr> OSEventType := OS_EVENT_TYPE_UNUSED,
        OSEventPtr := Event_Ptr (OSEventFreeList s), OSEventCnt := 0 \<rparr>) s)\<lparr> OSEventFreeList := Some e \<rparr>"

definition OSSemDel ::
  "event_ptr \<Rightarrow> INT8U \<Rightarrow> INT8U option \<Rightarrow> os_state \<Rightarrow> (event_ptr \<times> INT8U option \<times> os_state) option" where
  "OSSemDel pevent opt perr s =
     (if perr = None then Some (pevent, perr, s)
      else case pevent of None \<Rightarrow> Some (pevent, Some OS_ERR_PEVENT_NULL, s)
      | Some e \<Rightarrow>
          if OSEventType (ECB s e) \<noteq> OS_EVENT_TYPE_SEM then Some (pevent, Some OS_ERR_EVENT_TYPE, s)
          else if OSIntNesting s > 0 then Some (pevent, Some OS_ERR_DEL_ISR, s)
          else
            let tasks_waiting = (OSEventGrp (ECB s e) \<noteq> 0) in
            if opt = OS_DEL_NO_PEND then
              if \<not> tasks_waiting then Some (None, Some OS_ERR_NONE, free_event e s)
              else Some (pevent, Some OS_ERR_TASK_WAITING, s)
            else if opt = OS_DEL_ALWAYS then do {
              (n, s) \<leftarrow> ready_all e 0 OS_STAT_SEM OS_STAT_PEND_OK 0 s;
              let s = free_event e s;
              s \<leftarrow> (if tasks_waiting then OS_Sched s else Some s);
              Some (None, Some OS_ERR_NONE, s)
            }
            else Some (pevent, Some OS_ERR_INVALID_OPT, s))"

text \<open>\<open>True\<close>: the function has returned. \<open>False\<close>: the task waits and \<open>OSSemPend_resume\<close> follows.\<close>

definition OSSemPend_enter ::
  "event_ptr \<Rightarrow> INT16U \<Rightarrow> INT8U option \<Rightarrow> os_state \<Rightarrow> (bool \<times> INT8U option \<times> os_state) option" where
  "OSSemPend_enter pevent timeout perr s =
     (if perr = None then Some (True, perr, s)
      else case pevent of None \<Rightarrow> Some (True, Some OS_ERR_PEVENT_NULL, s)
      | Some e \<Rightarrow>
          if OSEventType (ECB s e) \<noteq> OS_EVENT_TYPE_SEM then Some (True, Some OS_ERR_EVENT_TYPE, s)
          else if OSIntNesting s > 0 then Some (True, Some OS_ERR_PEND_ISR, s)
          else if OSLockNesting s > 0 then Some (True, Some OS_ERR_PEND_LOCKED, s)
          else if OSEventCnt (ECB s e) > 0 then
            Some (True, Some OS_ERR_NONE, set_event e (\<lambda>ev. ev\<lparr> OSEventCnt := OSEventCnt ev - 1 \<rparr>) s)
          else do {
            i \<leftarrow> tcb_index (OSTCBCur s);
            let s = set_tcb i (\<lambda>t. t\<lparr> OSTCBStat := OSTCBStat t OR OS_STAT_SEM,
                                      OSTCBStatPend := OS_STAT_PEND_OK, OSTCBDly := timeout \<rparr>) s;
            s \<leftarrow> OS_EventTaskWait e s;
            s \<leftarrow> OS_Sched s;
            Some (False, perr, s)
          })"

definition OSSemPend_resume :: "nat \<Rightarrow> os_state \<Rightarrow> (INT8U \<times> os_state) option" where
  "OSSemPend_resume e s = do {
     i \<leftarrow> tcb_index (OSTCBCur s);
     (err, s) \<leftarrow>
       (if OSTCBStatPend (TCB s i) = OS_STAT_PEND_OK then Some (OS_ERR_NONE, s)
        else if OSTCBStatPend (TCB s i) = OS_STAT_PEND_ABORT then Some (OS_ERR_PEND_ABORT, s)
        else do { s \<leftarrow> OS_EventTaskRemove i e s; Some (OS_ERR_TIMEOUT, s) });
     Some (err, set_tcb i (\<lambda>t. t\<lparr> OSTCBStat := OS_STAT_RDY, OSTCBStatPend := OS_STAT_PEND_OK,
                                  OSTCBEventPtr := None, OSTCBEventMultiPtr := None \<rparr>) s)
   }"

definition OSSemPendAbort ::
  "event_ptr \<Rightarrow> INT8U \<Rightarrow> INT8U option \<Rightarrow> os_state \<Rightarrow> (INT8U \<times> INT8U option \<times> os_state) option" where
  "OSSemPendAbort pevent opt perr s =
     (if perr = None then Some (0, perr, s)
      else case pevent of None \<Rightarrow> Some (0, Some OS_ERR_PEVENT_NULL, s)
      | Some e \<Rightarrow>
          if OSEventType (ECB s e) \<noteq> OS_EVENT_TYPE_SEM then Some (0, Some OS_ERR_EVENT_TYPE, s)
          else if OSEventGrp (ECB s e) \<noteq> 0 then do {
            (nbr_tasks, s) \<leftarrow>
              (if opt = OS_PEND_OPT_BROADCAST then ready_all e 0 OS_STAT_SEM OS_STAT_PEND_ABORT 0 s
               else do { (p, s) \<leftarrow> OS_EventTaskRdy e 0 OS_STAT_SEM OS_STAT_PEND_ABORT s; Some (1, s) });
            s \<leftarrow> OS_Sched s;
            Some (nbr_tasks, Some OS_ERR_PEND_ABORT, s)
          }
          else Some (0, Some OS_ERR_NONE, s))"

definition OSSemPost :: "event_ptr \<Rightarrow> os_state \<Rightarrow> (INT8U \<times> os_state) option" where
  "OSSemPost pevent s =
     (case pevent of None \<Rightarrow> Some (OS_ERR_PEVENT_NULL, s)
      | Some e \<Rightarrow>
          if OSEventType (ECB s e) \<noteq> OS_EVENT_TYPE_SEM then Some (OS_ERR_EVENT_TYPE, s)
          else if OSEventGrp (ECB s e) \<noteq> 0 then do {
            (p, s) \<leftarrow> OS_EventTaskRdy e 0 OS_STAT_SEM OS_STAT_PEND_OK s;
            s \<leftarrow> OS_Sched s;
            Some (OS_ERR_NONE, s)
          }
          else if OSEventCnt (ECB s e) < 65535 then
            Some (OS_ERR_NONE, set_event e (\<lambda>ev. ev\<lparr> OSEventCnt := OSEventCnt ev + 1 \<rparr>) s)
          else Some (OS_ERR_SEM_OVF, s))"

record OS_SEM_DATA =
  OSCnt :: INT16U
  sem_data_OSEventTbl :: "INT8U list"
  sem_data_OSEventGrp :: INT8U

definition OSSemQuery :: "event_ptr \<Rightarrow> OS_SEM_DATA option \<Rightarrow> os_state \<Rightarrow> INT8U \<times> OS_SEM_DATA option" where
  "OSSemQuery pevent p_sem_data s =
     (case pevent of None \<Rightarrow> (OS_ERR_PEVENT_NULL, p_sem_data)
      | Some e \<Rightarrow>
          (case p_sem_data of None \<Rightarrow> (OS_ERR_PDATA_NULL, p_sem_data)
           | Some d \<Rightarrow>
               if OSEventType (ECB s e) \<noteq> OS_EVENT_TYPE_SEM then (OS_ERR_EVENT_TYPE, p_sem_data)
               else (OS_ERR_NONE, Some (d\<lparr> sem_data_OSEventGrp := OSEventGrp (ECB s e),
                       sem_data_OSEventTbl := OSEventTbl (ECB s e), OSCnt := OSEventCnt (ECB s e) \<rparr>))))"

definition OSSemSet :: "event_ptr \<Rightarrow> INT16U \<Rightarrow> INT8U option \<Rightarrow> os_state \<Rightarrow> INT8U option \<times> os_state" where
  "OSSemSet pevent cnt perr s =
     (if perr = None then (perr, s)
      else case pevent of None \<Rightarrow> (Some OS_ERR_PEVENT_NULL, s)
      | Some e \<Rightarrow>
          if OSEventType (ECB s e) \<noteq> OS_EVENT_TYPE_SEM then (Some OS_ERR_EVENT_TYPE, s)
          else if OSEventCnt (ECB s e) > 0 then
            (Some OS_ERR_NONE, set_event e (\<lambda>ev. ev\<lparr> OSEventCnt := cnt \<rparr>) s)
          else if OSEventGrp (ECB s e) = 0 then
            (Some OS_ERR_NONE, set_event e (\<lambda>ev. ev\<lparr> OSEventCnt := cnt \<rparr>) s)
          else (Some OS_ERR_TASK_WAITING, s))"

section \<open>The counter\<close>

definition set_cnt :: "nat \<Rightarrow> INT16U \<Rightarrow> os_state \<Rightarrow> os_state" where
  "set_cnt e c = set_event e (\<lambda>ev. ev\<lparr> OSEventCnt := c \<rparr>)"

lemma set_cnt_simps [simp]:
  "rdy (set_cnt e c s) = rdy s" "waiters e' (set_cnt e c s) = waiters e' s" "TCB (set_cnt e c s) = TCB s"
  "ready_set (set_cnt e c s) = ready_set s" "wait_set e' (set_cnt e c s) = wait_set e' s"
  "task_at (set_cnt e c s) = task_at s" "OSEventType (ECB (set_cnt e c s) e') = OSEventType (ECB s e')"
  "OSEventCnt (ECB (set_cnt e c s) e') = (if e' = e then c else OSEventCnt (ECB s e'))"
  "OSTCBPrioTbl (set_cnt e c s) = OSTCBPrioTbl s" "OSTCBCur (set_cnt e c s) = OSTCBCur s"
  "OSPrioCur (set_cnt e c s) = OSPrioCur s" "OSTCBList (set_cnt e c s) = OSTCBList s"
  "OSIntNesting (set_cnt e c s) = OSIntNesting s" "OSLockNesting (set_cnt e c s) = OSLockNesting s"
  by (auto simp: set_cnt_def set_event_def rdy_def waiters_def ready_set_def wait_set_def task_at_def fun_eq_iff)

lemma kernel_ok_set_cnt [simp]: "kernel_ok (set_cnt e c s) = kernel_ok s"
  by (simp add: kernel_ok_def task_ok_def)

lemma cur_ok_set_cnt [simp]: "cur_ok (set_cnt e c s) = cur_ok s"
  by (simp add: cur_ok_def)

section \<open>The abstract semaphore\<close>

text \<open>The count, and the priorities of the tasks in the wait list.\<close>

definition sem_abs :: "nat \<Rightarrow> os_state \<Rightarrow> nat \<times> nat set" where
  "sem_abs e s = (unat (OSEventCnt (ECB s e)), wait_set e s)"

definition is_sem :: "nat \<Rightarrow> os_state \<Rightarrow> bool" where
  "is_sem e s \<longleftrightarrow> OSEventType (ECB s e) = OS_EVENT_TYPE_SEM"

fun spec_accept :: "nat \<times> nat set \<Rightarrow> nat \<times> nat set" where
  "spec_accept (n, w) = (n - 1, w)"

fun spec_post :: "nat \<times> nat set \<Rightarrow> nat \<times> nat set" where
  "spec_post (n, w) =
     (if w \<noteq> {} then (n, w - {Min w}) else if n < 65535 then (n + 1, w) else (n, w))"

fun spec_pend :: "nat \<Rightarrow> nat \<times> nat set \<Rightarrow> nat \<times> nat set" where
  "spec_pend p (n, w) = (if 0 < n then (n - 1, w) else (n, insert p w))"

lemma sem_mask: "is_sem e s \<Longrightarrow> event_mask (OSEventType (ECB s e)) = OS_STAT_SEM"
  by (simp add: is_sem_def event_mask_def)

lemma OSSemAccept_cnt:
  "is_sem e s \<Longrightarrow> OSSemAccept (Some e) s =
     (let c = OSEventCnt (ECB s e) in (c, if c > 0 then set_cnt e (c - 1) s else s))"
  by (simp add: OSSemAccept_def is_sem_def Let_def set_cnt_def set_event_def)

lemma unat_dec: "0 < w \<Longrightarrow> unat (w - 1) = unat w - 1" for w :: "'a::len word"
  by (rule unat_minus_one) auto

text \<open>\<open>OSSemAccept\<close> is the abstract try-take: it returns the count, takes one unit when the
  count is positive, never blocks or wakes a task, and keeps the kernel consistent.\<close>

lemma sem_accept_refines:
  assumes "kernel_ok s" and "is_sem e s"
  shows "\<exists>c s'. OSSemAccept (Some e) s = (c, s') \<and> unat c = fst (sem_abs e s) \<and>
     sem_abs e s' = spec_accept (sem_abs e s) \<and> kernel_ok s' \<and> TCB s' = TCB s \<and>
     ready_set s' = ready_set s \<and> (\<forall>e'. e' \<noteq> e \<longrightarrow> sem_abs e' s' = sem_abs e' s)"
proof -
  have "unat c = 0 \<Longrightarrow> c = 0" for c :: INT16U by (simp add: unat_eq_zero)
  then show ?thesis using assms
    by (auto simp: OSSemAccept_cnt Let_def sem_abs_def unat_dec word_gt_0)
qed

lemma sem_accept_refines_witness:
  "\<exists>s'. OSSemAccept (Some 2) example_os = (1, s') \<and> sem_abs 2 s' = (0, {})"
proof -
  have "is_sem 2 example_os" "sem_abs 2 example_os = (1, {})"
    by (simp_all add: is_sem_def sem_abs_def example_ecbs_def example_sets)
  with sem_accept_refines [OF example_kernel_ok this(1)] show ?thesis
    by (auto simp: word_unat_eq_iff)
qed

section \<open>Post\<close>

lemma sched_after:
  assumes "kernel_ok s" "cur_ok s"
  obtains s' where "OS_Sched s = Some s'" "switch_frame s s'" "kernel_ok s'" "cur_ok s'"
    "OSIntNesting s = 0 \<and> OSLockNesting s = 0 \<Longrightarrow> highest_runs s'"
proof (cases "OSIntNesting s = 0 \<and> OSLockNesting s = 0")
  case True
  with OS_Sched_ok [OF assms] that show thesis by (metis highest_runs_def)
next
  case False
  moreover have "switch_frame s s" by (simp add: switch_frame_def)
  ultimately show thesis using that OS_Sched_locked assms by blast
qed

lemma cur_ok_frame: "sched_frame s s' \<Longrightarrow> cur_ok s' = cur_ok s"
  using sched_frame_tbl [of s s'] by (simp add: cur_ok_def task_at_def)

text \<open>Waking the highest priority waiter and rescheduling, shared by the post operations.\<close>

lemma wake_waiter:
  assumes ok: "kernel_ok s" and cur: "cur_ok s" and ne: "wait_set e s \<noteq> {}"
    and msk: "event_mask (OSEventType (ECB s e)) = msk" "msk AND 8 = 0"
  obtains prio s1 s' where "OS_EventTaskRdy e pmsg msk OS_STAT_PEND_OK s = Some (prio, s1)"
    "OS_Sched s1 = Some s'" "kernel_ok s'" "cur_ok s'" "sched_frame s s1" "switch_frame s1 s'"
    "unat prio = Min (wait_set e s)" "wait_set e s' = wait_set e s - {Min (wait_set e s)}"
    "\<forall>e'. e' \<noteq> e \<longrightarrow> wait_set e' s' = wait_set e' s"
    "\<forall>i. task_at s (Min (wait_set e s)) i \<longrightarrow>
        OSTCBMsg (TCB s' i) = pmsg \<and> OSTCBStatPend (TCB s' i) = OS_STAT_PEND_OK \<and>
        (\<not> suspended (TCB s i) \<longrightarrow> Min (wait_set e s) \<in> ready_set s')"
    "OSIntNesting s = 0 \<and> OSLockNesting s = 0 \<Longrightarrow> highest_runs s'"
proof -
  obtain prio i s1 where r: "OS_EventTaskRdy e pmsg msk OS_STAT_PEND_OK s = Some (prio, s1)"
    "readied e pmsg msk OS_STAT_PEND_OK s (unat prio) i s1" "kernel_ok s1"
    by (rule OS_EventTaskRdy_ok [OF ok ne msk]) simp_all
  have fr: "sched_frame s s1" using r(2) by (simp add: readied_def)
  have cur1: "cur_ok s1" using cur cur_ok_frame [OF fr] by simp
  obtain s' where s': "OS_Sched s1 = Some s'" "switch_frame s1 s'" "kernel_ok s'" "cur_ok s'"
    "OSIntNesting s1 = 0 \<and> OSLockNesting s1 = 0 \<Longrightarrow> highest_runs s'"
    using sched_after [OF r(3) cur1] by metis
  have "OSTCBMsg (TCB s' j) = pmsg \<and> OSTCBStatPend (TCB s' j) = OS_STAT_PEND_OK \<and>
        (\<not> suspended (TCB s j) \<longrightarrow> Min (wait_set e s) \<in> ready_set s')"
    if "task_at s (Min (wait_set e s)) j" for j
  proof -
    have "j = i" using that r(2) task_at_fun by (metis readied_def)
    then show ?thesis using r(2)
      by (simp add: readied_def switch_frame_task [OF s'(2)] switch_frame_sets [OF s'(2)])
  qed
  then show thesis
    using that [OF r(1) s'(1,3,4) fr s'(2)] r(2) s'(5) sched_frame_tbl [OF fr]
    by (simp add: readied_def switch_frame_sets [OF s'(2)])
qed

lemma switch_frame_sem: "switch_frame s s' \<Longrightarrow> sem_abs e s' = sem_abs e s"
  by (simp add: sem_abs_def switch_frame_sets)

lemma sem_post_ok:
  assumes ok: "kernel_ok s" and cur: "cur_ok s" and sem: "is_sem e s"
  shows "\<exists>err s'. OSSemPost (Some e) s = Some (err, s') \<and> kernel_ok s' \<and> cur_ok s' \<and>
     sem_abs e s' = spec_post (sem_abs e s) \<and>
     (err = OS_ERR_SEM_OVF \<longleftrightarrow> sem_abs e s = (65535, {})) \<and> (err \<noteq> OS_ERR_SEM_OVF \<longrightarrow> err = OS_ERR_NONE) \<and>
     (\<forall>i. wait_set e s \<noteq> {} \<and> task_at s (Min (wait_set e s)) i \<longrightarrow>
        OSTCBStatPend (TCB s' i) = OS_STAT_PEND_OK \<and>
        (\<not> suspended (TCB s i) \<longrightarrow> Min (wait_set e s) \<in> ready_set s') \<and>
        (OSIntNesting s = 0 \<and> OSLockNesting s = 0 \<longrightarrow> highest_runs s'))"
proof (cases "wait_set e s = {}")
  case True
  then have grp: "OSEventGrp (ECB s e) = 0" using grp_zero_iff [OF ok] by simp
  show ?thesis
  proof (cases "OSEventCnt (ECB s e) < 65535")
    case lt: True
    then have "unat (OSEventCnt (ECB s e)) < 65535" by (simp add: word_less_unat)
    then have "unat (OSEventCnt (ECB s e) + 1) = unat (OSEventCnt (ECB s e)) + 1"
      by (simp add: unat_add_small)
    moreover have "OSSemPost (Some e) s = Some (OS_ERR_NONE, set_cnt e (OSEventCnt (ECB s e) + 1) s)"
      using grp lt sem by (simp add: OSSemPost_def is_sem_def set_cnt_def set_event_def)
    ultimately show ?thesis
      using True ok cur \<open>unat (OSEventCnt (ECB s e)) < 65535\<close> by (simp add: sem_abs_def)
  next
    case False
    then have "unat (OSEventCnt (ECB s e)) = 65535"
      using unat_lt_16 [of "OSEventCnt (ECB s e)"] by (simp add: word_less_unat del: unat_lt_16)
    with True False grp ok cur sem show ?thesis by (simp add: OSSemPost_def is_sem_def sem_abs_def)
  qed
next
  case False
  then have grp: "OSEventGrp (ECB s e) \<noteq> 0" using grp_zero_iff [OF ok] by simp
  obtain prio i s1 where r: "OS_EventTaskRdy e 0 OS_STAT_SEM OS_STAT_PEND_OK s = Some (prio, s1)"
    "readied e 0 OS_STAT_SEM OS_STAT_PEND_OK s (unat prio) i s1" "kernel_ok s1"
    by (rule OS_EventTaskRdy_ok [OF ok False sem_mask [OF sem]]) simp_all
  have fr: "sched_frame s s1" and at: "task_at s (unat prio) i" using r(2) by (auto simp: readied_def)
  have cur1: "cur_ok s1" using cur cur_ok_frame [OF fr] by simp
  obtain s' where s': "OS_Sched s1 = Some s'" "switch_frame s1 s'" "kernel_ok s'" "cur_ok s'"
    "OSIntNesting s1 = 0 \<and> OSLockNesting s1 = 0 \<Longrightarrow> highest_runs s'"
    using sched_after [OF r(3) cur1] by metis
  have post: "OSSemPost (Some e) s = Some (OS_ERR_NONE, s')"
    using grp sem r(1) s'(1) by (simp add: OSSemPost_def is_sem_def)
  have p: "unat prio = Min (wait_set e s)" using r(2) by (simp add: readied_def)
  have abs: "sem_abs e s' = spec_post (sem_abs e s)"
    using False r(2) switch_frame_sem [OF s'(2)] sched_frame_event [OF fr, of e]
    by (simp add: sem_abs_def readied_def)
  have rest: "OSTCBStatPend (TCB s' j) = OS_STAT_PEND_OK \<and>
        (\<not> suspended (TCB s j) \<longrightarrow> Min (wait_set e s) \<in> ready_set s') \<and>
        (OSIntNesting s = 0 \<and> OSLockNesting s = 0 \<longrightarrow> highest_runs s')"
    if "task_at s (Min (wait_set e s)) j" for j
  proof -
    have "j = i" using that at p task_at_fun by metis
    then show ?thesis
      using r(2) s'(5) sched_frame_tbl [OF fr] p
      by (simp add: readied_def switch_frame_task [OF s'(2)] switch_frame_sets [OF s'(2)])
  qed
  show ?thesis using post s'(3,4) abs rest False by (auto simp: sem_abs_def)
qed

text \<open>C18: \<open>OSSemPost\<close> implements the abstract post on every consistent kernel, from task level and
  from interrupts: a waiting task, if there is one, gets the unit (the highest priority one: it leaves
  the wait list, is told OK and is ready unless suspended) and the count is untouched; otherwise the
  count goes up by one, or the overflow is reported at 65535. If the scheduler may run, the
  highest priority ready task runs afterwards.\<close>

theorem sem_post_refines:
  assumes ok: "kernel_ok s" and cur: "cur_ok s" and sem: "is_sem e s"
  shows "\<exists>err s'. OSSemPost (Some e) s = Some (err, s') \<and> kernel_ok s' \<and> cur_ok s' \<and>
     sem_abs e s' = spec_post (sem_abs e s) \<and>
     (err = OS_ERR_SEM_OVF \<longleftrightarrow> sem_abs e s = (65535, {})) \<and> (err \<noteq> OS_ERR_SEM_OVF \<longrightarrow> err = OS_ERR_NONE) \<and>
     (\<forall>i. wait_set e s \<noteq> {} \<and> task_at s (Min (wait_set e s)) i \<longrightarrow>
        OSTCBStatPend (TCB s' i) = OS_STAT_PEND_OK \<and>
        (\<not> suspended (TCB s i) \<longrightarrow> Min (wait_set e s) \<in> ready_set s') \<and>
        (OSIntNesting s = 0 \<and> OSLockNesting s = 0 \<longrightarrow> highest_runs s'))"
  using assms by (rule sem_post_ok)

theorem sem_post_refines_witness:
  "\<exists>s'. OSSemPost (Some 0) example_os = Some (OS_ERR_NONE, s') \<and> 5 \<in> ready_set s' \<and> highest_runs s'"
proof -
  have a: "is_sem 0 example_os" "sem_abs 0 example_os = (0, {5})" "wait_set 0 example_os = {5}"
    "task_at example_os 5 1" "\<not> suspended (TCB example_os 1)"
    by (simp_all add: is_sem_def sem_abs_def example_ecbs_def example_sets example_task_at
        example_tcbs_def example_tcb_def suspended_def)
  from sem_post_refines [OF example_kernel_ok example_cur_ok a(1)] show ?thesis
    using a(2-5) by auto
qed

section \<open>Pend\<close>

text \<open>The running task, which is ready and in no wait list.\<close>

definition running_task :: "os_state \<Rightarrow> nat \<Rightarrow> nat \<Rightarrow> bool" where
  "running_task s p i \<longleftrightarrow> OSTCBCur s = TCB_AT i \<and> unat (OSPrioCur s) = p \<and> task_at s p i \<and>
     p \<in> ready_set s \<and> (\<forall>e. p \<notin> wait_set e s)"

lemma running_cur_ok: "running_task s p i \<Longrightarrow> cur_ok s"
  by (auto simp: running_task_def cur_ok_def)

text \<open>Blocking and rescheduling, shared by the pend operations.\<close>

lemma block_and_sched:
  assumes ok: "kernel_ok s" and run: "running_task s p i" and p: "p \<noteq> OS_LOWEST_PRIO"
    and lk: "OSIntNesting s = 0" "OSLockNesting s = 0"
    and msk: "event_mask (OSEventType (ECB s e)) = msk" "msk \<noteq> 0"
  shows "\<exists>s1 s'. OS_EventTaskWait e (set_tcb i (\<lambda>t. t\<lparr> OSTCBStat := OSTCBStat t OR msk,
             OSTCBStatPend := OS_STAT_PEND_OK, OSTCBDly := timeout \<rparr>) s) = Some s1 \<and>
           OS_Sched s1 = Some s' \<and> kernel_ok s' \<and> highest_runs s' \<and> unat (OSPrioCur s') \<noteq> p \<and>
           ready_set s' = ready_set s - {p} \<and> wait_set e s' = insert p (wait_set e s) \<and>
           (\<forall>e'. e' \<noteq> e \<longrightarrow> wait_set e' s' = wait_set e' s) \<and> ECB s' = ECB s1 \<and> sched_frame s s1 \<and>
           OSTCBDly (TCB s' i) = timeout \<and> QCB s' = QCB s \<and> storage s' = storage s"
proof -
  have a: "OSTCBCur s = TCB_AT i" "task_at s p i" "p \<in> ready_set s" "\<And>e. p \<notin> wait_set e s"
    using run by (auto simp: running_task_def)
  have "\<exists>s1. OS_EventTaskWait e (set_tcb i (\<lambda>t. t\<lparr> OSTCBStat := OSTCBStat t OR msk,
             OSTCBStatPend := OS_STAT_PEND_OK, OSTCBDly := timeout \<rparr>) s) = Some s1 \<and> kernel_ok s1 \<and>
      sched_frame s s1 \<and> TCB s1 = (TCB s)(i := blocked e timeout msk (TCB s i)) \<and>
      ready_set s1 = ready_set s - {p} \<and> wait_set e s1 = insert p (wait_set e s) \<and>
      (\<forall>e'. e' \<noteq> e \<longrightarrow> wait_set e' s1 = wait_set e' s)"
    by (rule OS_EventTaskWait_ok [OF ok a(1,2) _ a(3,4) msk refl]) (use p in simp)
  then obtain s1 where s1: "OS_EventTaskWait e (set_tcb i (\<lambda>t. t\<lparr> OSTCBStat := OSTCBStat t OR msk,
             OSTCBStatPend := OS_STAT_PEND_OK, OSTCBDly := timeout \<rparr>) s) = Some s1"
    "kernel_ok s1" "sched_frame s s1" "TCB s1 = (TCB s)(i := blocked e timeout msk (TCB s i))"
    "ready_set s1 = ready_set s - {p}" "wait_set e s1 = insert p (wait_set e s)"
    "\<forall>e'. e' \<noteq> e \<longrightarrow> wait_set e' s1 = wait_set e' s" by blast
  have fr: "OSIntNesting s1 = 0" "OSLockNesting s1 = 0" "cur_ok s1"
    using sched_frame_tbl [OF s1(3)] lk cur_ok_frame [OF s1(3)] running_cur_ok [OF run] by auto
  obtain s' where s': "OS_Sched s1 = Some s'" "switch_frame s1 s'" "kernel_ok s'" "highest_runs s'"
    using OS_Sched_ok [OF s1(2) fr(3,1,2)] by metis
  have "Min (ready_set s1) \<in> ready_set s1"
    using ready_not_empty [OF s1(2)] bm.finite_law [OF kernel_okD(2) [OF s1(2)]]
    unfolding ready_set_def by (intro Min_in)
  then have "unat (OSPrioCur s') \<noteq> p"
    using s'(4) s1(5) by (auto simp: highest_runs_def switch_frame_sets [OF s'(2)])
  then show ?thesis
    using s1 s' sched_frame_tbl [OF s1(3)]
    by (simp add: switch_frame_sets [OF s'(2)] switch_frame_task [OF s'(2)] blocked_def)
qed

lemma sem_pend_ok:
  assumes "kernel_ok s" and "running_task s p i" and "p \<noteq> OS_LOWEST_PRIO"
    and "OSIntNesting s = 0" and "OSLockNesting s = 0" and "is_sem e s"
  shows "\<exists>returned perr s'. OSSemPend_enter (Some e) timeout (Some x) s = Some (returned, perr, s') \<and>
     kernel_ok s' \<and> sem_abs e s' = spec_pend p (sem_abs e s) \<and>
     (returned \<longleftrightarrow> 0 < OSEventCnt (ECB s e)) \<and>
     (returned \<longrightarrow> perr = Some OS_ERR_NONE \<and> running_task s' p i) \<and>
     (\<not> returned \<longrightarrow> p \<notin> ready_set s' \<and> highest_runs s' \<and> unat (OSPrioCur s') \<noteq> p \<and>
        OSTCBDly (TCB s' i) = timeout)"
proof (cases "0 < OSEventCnt (ECB s e)")
  case True
  then have "OSSemPend_enter (Some e) timeout (Some x) s =
      Some (True, Some OS_ERR_NONE, set_cnt e (OSEventCnt (ECB s e) - 1) s)"
    using assms by (simp add: OSSemPend_enter_def is_sem_def set_cnt_def set_event_def)
  moreover have "0 < unat (OSEventCnt (ECB s e))" using True by (simp add: unat_gt_0 word_gt_0)
  ultimately show ?thesis using assms True
    by (auto simp: sem_abs_def unat_dec running_task_def)
next
  case False
  obtain s1 s' where b: "OS_EventTaskWait e (set_tcb i (\<lambda>t. t\<lparr> OSTCBStat := OSTCBStat t OR OS_STAT_SEM,
        OSTCBStatPend := OS_STAT_PEND_OK, OSTCBDly := timeout \<rparr>) s) = Some s1"
    "OS_Sched s1 = Some s'" "kernel_ok s'" "highest_runs s'" "unat (OSPrioCur s') \<noteq> p"
    "ready_set s' = ready_set s - {p}" "wait_set e s' = insert p (wait_set e s)" "ECB s' = ECB s1"
    "sched_frame s s1" "OSTCBDly (TCB s' i) = timeout"
    using block_and_sched [OF assms(1-5) sem_mask [OF assms(6)], of timeout] by auto
  have "OSSemPend_enter (Some e) timeout (Some x) s = Some (False, Some x, s')"
    using False assms b(1,2) by (simp add: OSSemPend_enter_def is_sem_def running_task_def)
  moreover have "OSEventCnt (ECB s e) = 0" using False by (simp add: word_gt_0)
  ultimately show ?thesis
    using b(3-8,10) sched_frame_event [OF b(9), of e] by (auto simp: sem_abs_def)
qed

text \<open>C19: \<open>OSSemPend\<close> from task level implements the abstract pend: with a positive count it takes one
  unit and returns; otherwise the calling task joins the wait list with its timeout, leaves the ready
  list and loses the processor to the highest priority ready task. The kernel stays consistent.\<close>

theorem sem_pend_refines:
  assumes "kernel_ok s" and "running_task s p i" and "p \<noteq> OS_LOWEST_PRIO"
    and "OSIntNesting s = 0" and "OSLockNesting s = 0" and "is_sem e s"
  shows "\<exists>returned perr s'. OSSemPend_enter (Some e) timeout (Some x) s = Some (returned, perr, s') \<and>
     kernel_ok s' \<and> sem_abs e s' = spec_pend p (sem_abs e s) \<and>
     (returned \<longleftrightarrow> 0 < OSEventCnt (ECB s e)) \<and>
     (returned \<longrightarrow> perr = Some OS_ERR_NONE \<and> running_task s' p i) \<and>
     (\<not> returned \<longrightarrow> p \<notin> ready_set s' \<and> highest_runs s' \<and> unat (OSPrioCur s') \<noteq> p \<and>
        OSTCBDly (TCB s' i) = timeout)"
  using assms by (rule sem_pend_ok)

lemma example_running: "running_task example_os 6 2"
  by (simp add: running_task_def example_task_at example_sets)

theorem sem_pend_refines_witness:
  "\<exists>s'. OSSemPend_enter (Some 0) 9 (Some 0) example_os = Some (False, Some 0, s') \<and> 6 \<notin> ready_set s' \<and>
     sem_abs 0 s' = (0, {5, 6})"
proof -
  have a: "is_sem 0 example_os" "sem_abs 0 example_os = (0, {5})" "OSEventCnt (ECB example_os 0) = 0"
    by (simp_all add: is_sem_def sem_abs_def example_ecbs_def example_sets)
  obtain ret perr s' where r: "OSSemPend_enter (Some 0) 9 (Some 0) example_os = Some (ret, perr, s')"
    "sem_abs 0 s' = spec_pend 6 (0, {5})" "\<not> ret" "6 \<notin> ready_set s'"
    using sem_pend_refines [OF example_kernel_ok example_running _ _ _ a(1), of 9 0] a(2,3) by auto
  moreover have "perr = Some 0"
    using r(1,3) by (auto simp: OSSemPend_enter_def example_ecbs_def split: bind_splits)
  ultimately show ?thesis by auto
qed

text \<open>How the task leaves the wait list, shared by the pend operations: the timeout branch removes it,
  the others find it removed.\<close>

lemma resume_step:
  assumes ok: "kernel_ok s" and at: "task_at s p i"
    and rdy: "p \<in> ready_set s" and only: "\<forall>e'. p \<in> wait_set e' s \<longrightarrow> e' = e"
  shows "\<exists>s1. (if OSTCBStatPend (TCB s i) = OS_STAT_PEND_OK \<or> OSTCBStatPend (TCB s i) = OS_STAT_PEND_ABORT
        then Some s else OS_EventTaskRemove i e s) = Some s1 \<and> rdy s1 = rdy s \<and> TCB s1 = TCB s \<and>
      sched_frame s s1 \<and> (\<forall>e'. wait_set e' s1 = wait_set e' s - {p}) \<and> kernel_ok (set_tcb i resumed s1)"
proof -
  have "\<exists>s1. (if OSTCBStatPend (TCB s i) = OS_STAT_PEND_OK \<or> OSTCBStatPend (TCB s i) = OS_STAT_PEND_ABORT
        then Some s else OS_EventTaskRemove i e s) = Some s1 \<and> rdy s1 = rdy s \<and>
      (\<forall>e'. bm_ok (waiters e' s1)) \<and> TCB s1 = TCB s \<and> sched_frame s s1 \<and>
      (\<forall>e'. wait_set e' s1 = wait_set e' s - {p})"
  proof (cases "OSTCBStatPend (TCB s i) = OS_STAT_PEND_OK \<or> OSTCBStatPend (TCB s i) = OS_STAT_PEND_ABORT")
    case True
    have tok: "task_ok s p (TCB s i)" using ok at by (rule kernel_okD(4))
    have "runnable (TCB s i)" using rdy task_okD(4) [OF tok] by simp
    then have "pend_bits (OSTCBStat (TCB s i)) = 0" by (simp add: runnable_def pend_bits_def)
    then have "p \<notin> wait_set e' s" for e' using task_okD(8) [OF tok] True by fastforce
    with True show ?thesis using kernel_okD(3) [OF ok] by auto
  next
    case False
    obtain s1 where s1: "OS_EventTaskRemove i e s = Some s1" "sched_frame s s1" "TCB s1 = TCB s"
      "rdy s1 = rdy s" "\<forall>e'. bm_ok (waiters e' s1)" "wait_set e s1 = wait_set e s - {p}"
      "\<forall>e'. e' \<noteq> e \<longrightarrow> wait_set e' s1 = wait_set e' s"
      using OS_EventTaskRemove_sets [OF ok at, of e] by blast
    have "wait_set e' s1 = wait_set e' s - {p}" for e'
      using s1(6,7) only by (cases "e' = e") auto
    with False s1 show ?thesis by auto
  qed
  then show ?thesis using resume_ok [OF ok at rdy _ _ _ _ _ refl] by blast
qed

text \<open>When a task that waited comes back, \<open>OSSemPend\<close> reports what happened and leaves no trace:
  it returns OK after a post, aborted after an abort, and otherwise a timeout, in which case the task
  takes itself off the wait list; afterwards the task is in no wait list, its status is ready, and the
  kernel is consistent.\<close>

theorem sem_pend_resume_result:
  assumes ok: "kernel_ok s" and cur: "OSTCBCur s = TCB_AT i" and at: "task_at s p i"
    and rdy: "p \<in> ready_set s" and only: "\<forall>e'. p \<in> wait_set e' s \<longrightarrow> e' = e"
  shows "\<exists>err s'. OSSemPend_resume e s = Some (err, s') \<and> kernel_ok s' \<and>
     err = (if OSTCBStatPend (TCB s i) = OS_STAT_PEND_OK then OS_ERR_NONE
            else if OSTCBStatPend (TCB s i) = OS_STAT_PEND_ABORT then OS_ERR_PEND_ABORT
            else OS_ERR_TIMEOUT) \<and>
     (\<forall>e'. wait_set e' s' = wait_set e' s - {p}) \<and> ready_set s' = ready_set s \<and>
     TCB s' = (TCB s)(i := resumed (TCB s i)) \<and> OSEventCnt (ECB s' e) = OSEventCnt (ECB s e)"
proof -
  from resume_step [OF ok at rdy only] obtain s1 where s1:
    "(if OSTCBStatPend (TCB s i) = OS_STAT_PEND_OK \<or> OSTCBStatPend (TCB s i) = OS_STAT_PEND_ABORT
      then Some s else OS_EventTaskRemove i e s) = Some s1" "rdy s1 = rdy s" "TCB s1 = TCB s"
    "sched_frame s s1" "\<forall>e'. wait_set e' s1 = wait_set e' s - {p}" "kernel_ok (set_tcb i resumed s1)"
    by blast
  have "OSSemPend_resume e s = Some (if OSTCBStatPend (TCB s i) = OS_STAT_PEND_OK then OS_ERR_NONE
      else if OSTCBStatPend (TCB s i) = OS_STAT_PEND_ABORT then OS_ERR_PEND_ABORT else OS_ERR_TIMEOUT,
      set_tcb i resumed s1)"
    using cur s1(1) by (auto simp: OSSemPend_resume_def resumed_def [abs_def] split: if_splits)
  then show ?thesis
    using s1 sched_frame_event [OF s1(4), of e] by (simp add: ready_set_def wait_set_def)
qed

theorem sem_pend_resume_result_witness:
  "\<exists>s'. OSSemPend_resume 2 example_os = Some (OS_ERR_NONE, s') \<and> kernel_ok s'"
proof -
  have "OSTCBStatPend (TCB example_os 2) = OS_STAT_PEND_OK" "\<forall>e'. 6 \<in> wait_set e' example_os \<longrightarrow> e' = 2"
    "OSTCBCur example_os = TCB_AT 2" "task_at example_os 6 2" "6 \<in> ready_set example_os"
    by (simp_all add: example_task_at example_sets example_tcbs_def example_tcb_def)
  from sem_pend_resume_result [OF example_kernel_ok this(3,4,5,2)] this(1) show ?thesis
    by fastforce
qed

end
