(* ===== verification/Ring_Buffer.thy ===== *)
theory Ring_Buffer imports Os_Types begin

text \<open>
  The ring buffer of a message queue (\<open>os_q.c\<close>): the control block \<open>OS_Q\<close> with its four pointers into
  the storage area and its entry count. The pointers are 32-bit addresses and a message, being a
  \<open>void *\<close>, takes four bytes. The three code fragments that the queue functions repeat (take the
  oldest message, append a message, prepend a message) are the operations; the theory shows that
  they are the operations on a list of at most \<open>OSQSize\<close> messages, through the interface
  \<open>bounded_queue\<close>.
\<close>

section \<open>The fragments\<close>

type_synonym ring = "OS_Q \<times> (INT32U \<Rightarrow> msg)"

text \<open>\<open>pmsg = *pq->OSQOut++; pq->OSQEntries--; if (OSQOut == OSQEnd) OSQOut = OSQStart\<close>\<close>

definition ring_take :: "ring \<Rightarrow> msg \<times> ring" where
  "ring_take = (\<lambda>(q, mem).
     let pmsg = mem (OSQOut q);
         q = q\<lparr> OSQOut := OSQOut q + 4, OSQEntries := OSQEntries q - 1 \<rparr>;
         q = (if OSQOut q = OSQEnd q then q\<lparr> OSQOut := OSQStart q \<rparr> else q) in
     (pmsg, (q, mem)))"

text \<open>\<open>*pq->OSQIn++ = pmsg; pq->OSQEntries++; if (OSQIn == OSQEnd) OSQIn = OSQStart\<close>\<close>

definition ring_append :: "msg \<Rightarrow> ring \<Rightarrow> ring" where
  "ring_append pmsg = (\<lambda>(q, mem).
     let mem = mem(OSQIn q := pmsg);
         q = q\<lparr> OSQIn := OSQIn q + 4, OSQEntries := OSQEntries q + 1 \<rparr>;
         q = (if OSQIn q = OSQEnd q then q\<lparr> OSQIn := OSQStart q \<rparr> else q) in
     (q, mem))"

text \<open>\<open>if (OSQOut == OSQStart) OSQOut = OSQEnd; OSQOut--; *pq->OSQOut = pmsg; pq->OSQEntries++\<close>\<close>

definition ring_prepend :: "msg \<Rightarrow> ring \<Rightarrow> ring" where
  "ring_prepend pmsg = (\<lambda>(q, mem).
     let q = (if OSQOut q = OSQStart q then q\<lparr> OSQOut := OSQEnd q \<rparr> else q);
         q = q\<lparr> OSQOut := OSQOut q - 4 \<rparr>;
         mem = mem(OSQOut q := pmsg) in
     (q\<lparr> OSQEntries := OSQEntries q + 1 \<rparr>, mem))"

definition ring_flush :: "ring \<Rightarrow> ring" where
  "ring_flush = (\<lambda>(q, mem). (q\<lparr> OSQIn := OSQStart q, OSQOut := OSQStart q, OSQEntries := 0 \<rparr>, mem))"

section \<open>The interface: a bounded queue\<close>

text \<open>A call on a queue and what it answers, and the same calls on lists.\<close>

datatype 'm queue_call = Put 'm | Put_Front 'm | Get | Flush

fun list_call :: "nat \<Rightarrow> 'm queue_call \<Rightarrow> 'm list \<Rightarrow> 'm option \<times> 'm list" where
  "list_call n (Put m) xs = (None, if length xs < n then xs @ [m] else xs)"
| "list_call n (Put_Front m) xs = (None, if length xs < n then m # xs else xs)"
| "list_call n Get xs = (case xs of [] \<Rightarrow> (None, []) | x # ys \<Rightarrow> (Some x, ys))"
| "list_call n Flush xs = (None, [])"

fun list_calls :: "nat \<Rightarrow> 'm queue_call list \<Rightarrow> 'm list \<Rightarrow> 'm option list \<times> 'm list" where
  "list_calls n [] xs = ([], xs)"
| "list_calls n (c # cs) xs =
     (let (r, ys) = list_call n c xs; (rs, zs) = list_calls n cs ys in (r # rs, zs))"

text \<open>A call guarded by the fill test of the queue functions, over given operations.\<close>

fun guarded_call :: "('q \<Rightarrow> nat) \<Rightarrow> ('q \<Rightarrow> nat) \<Rightarrow> ('m \<Rightarrow> 'q \<Rightarrow> 'q) \<Rightarrow> ('m \<Rightarrow> 'q \<Rightarrow> 'q) \<Rightarrow>
    ('q \<Rightarrow> 'm \<times> 'q) \<Rightarrow> ('q \<Rightarrow> 'q) \<Rightarrow> 'm queue_call \<Rightarrow> 'q \<Rightarrow> 'm option \<times> 'q" where
  "guarded_call fill cap put front get flush (Put m) q = (None, if fill q < cap q then put m q else q)"
| "guarded_call fill cap put front get flush (Put_Front m) q = (None, if fill q < cap q then front m q else q)"
| "guarded_call fill cap put front get flush Get q =
     (if 0 < fill q then (let (m, q') = get q in (Some m, q')) else (None, q))"
| "guarded_call fill cap put front get flush Flush q = (None, flush q)"

fun run_calls :: "('c \<Rightarrow> 'q \<Rightarrow> 'm option \<times> 'q) \<Rightarrow> 'c list \<Rightarrow> 'q \<Rightarrow> 'm option list \<times> 'q" where
  "run_calls f [] q = ([], q)"
| "run_calls f (c # cs) q = (let (r, q') = f c q; (rs, q'') = run_calls f cs q' in (r # rs, q''))"

locale bounded_queue =
  fixes ok :: "'q \<Rightarrow> bool" and contents :: "'q \<Rightarrow> 'm list" and cap :: "'q \<Rightarrow> nat" and fill :: "'q \<Rightarrow> nat"
    and put put_front :: "'m \<Rightarrow> 'q \<Rightarrow> 'q" and get :: "'q \<Rightarrow> 'm \<times> 'q" and flush :: "'q \<Rightarrow> 'q"
  assumes put_law: "ok q \<Longrightarrow> length (contents q) < cap q \<Longrightarrow>
      ok (put m q) \<and> contents (put m q) = contents q @ [m] \<and> cap (put m q) = cap q"
    and put_front_law: "ok q \<Longrightarrow> length (contents q) < cap q \<Longrightarrow>
      ok (put_front m q) \<and> contents (put_front m q) = m # contents q \<and> cap (put_front m q) = cap q"
    and get_law: "ok q \<Longrightarrow> contents q = m # ms \<Longrightarrow>
      fst (get q) = m \<and> ok (snd (get q)) \<and> contents (snd (get q)) = ms \<and> cap (snd (get q)) = cap q"
    and flush_law: "ok q \<Longrightarrow> ok (flush q) \<and> contents (flush q) = [] \<and> cap (flush q) = cap q"
    and bound_law: "ok q \<Longrightarrow> length (contents q) \<le> cap q"
    and size_law: "ok q \<Longrightarrow> fill q = length (contents q)"
begin

abbreviation call :: "'m queue_call \<Rightarrow> 'q \<Rightarrow> 'm option \<times> 'q" where
  "call \<equiv> guarded_call fill cap put put_front get flush"

lemma call_refines:
  assumes "ok q"
  shows "ok (snd (call c q)) \<and> cap (snd (call c q)) = cap q \<and>
    (fst (call c q), contents (snd (call c q))) = list_call (cap q) c (contents q)"
proof (cases c)
  case (Put m)
  with assms put_law [of q m] size_law show ?thesis by simp
next
  case (Put_Front m)
  with assms put_front_law [of q m] size_law show ?thesis by simp
next
  case Get
  show ?thesis
  proof (cases "contents q")
    case Nil
    with Get assms size_law show ?thesis by simp
  next
    case (Cons m ms)
    with Get assms get_law [OF assms Cons] size_law show ?thesis by (auto split: prod.splits)
  qed
next
  case Flush
  with assms flush_law show ?thesis by simp
qed

lemma run_calls_refines:
  "ok q \<Longrightarrow> ok (snd (run_calls call cs q)) \<and> cap (snd (run_calls call cs q)) = cap q \<and>
     (fst (run_calls call cs q), contents (snd (run_calls call cs q))) =
       list_calls (cap q) cs (contents q)"
proof (induction cs arbitrary: q)
  case (Cons c cs)
  obtain r q' where c: "call c q = (r, q')" by (cases "call c q")
  from call_refines [OF Cons.prems, of c] c
  have q': "ok q'" "cap q' = cap q" "list_call (cap q) c (contents q) = (r, contents q')" by auto
  from Cons.IH [OF q'(1)] q'(2,3) c show ?case
    by (auto split: prod.splits)
qed simp

end

section \<open>The ring buffer is a bounded queue\<close>

definition slot :: "OS_Q \<Rightarrow> nat \<Rightarrow> INT32U" where
  "slot q k = OSQStart q + of_nat (4 * k)"

definition out_index :: "OS_Q \<Rightarrow> nat" where
  "out_index q = (unat (OSQOut q) - unat (OSQStart q)) div 4"

definition ring_contents :: "ring \<Rightarrow> msg list" where
  "ring_contents = (\<lambda>(q, mem).
     map (\<lambda>k. mem (slot q ((out_index q + k) mod unat (OSQSize q)))) [0..<unat (OSQEntries q)])"

text \<open>
  The control block is consistent: the storage does not wrap around the address space, the end
  pointer is one past the last slot, both cursors are at slots, and the distance from the out to the
  in cursor is the number of entries.
\<close>

definition ring_at :: "OS_Q \<Rightarrow> nat \<Rightarrow> bool" where
  "ring_at q o' \<longleftrightarrow> (let n = unat (OSQSize q); e = unat (OSQEntries q) in
     0 < n \<and> unat (OSQStart q) + 4 * n < 2 ^ 32 \<and> OSQEnd q = slot q n \<and> o' < n \<and> e \<le> n \<and>
     OSQOut q = slot q o' \<and> OSQIn q = slot q ((o' + e) mod n))"

definition ring_ok :: "ring \<Rightarrow> bool" where
  "ring_ok r \<longleftrightarrow> (\<exists>o'. ring_at (fst r) o')"

definition ring_cap :: "ring \<Rightarrow> nat" where
  "ring_cap r = unat (OSQSize (fst r))"

definition ring_fill :: "ring \<Rightarrow> nat" where
  "ring_fill r = unat (OSQEntries (fst r))"

lemma unat_slot:
  assumes "unat (OSQStart q) + 4 * n < 2 ^ 32" "k \<le> n"
  shows "unat (slot q k) = unat (OSQStart q) + 4 * k"
proof -
  have "unat (of_nat (4 * k) :: INT32U) = 4 * k"
    using assms by (simp add: unat_of_nat del: of_nat_mult)
  then show ?thesis unfolding slot_def using assms by (subst unat_add_small) auto
qed

lemma slot_inj:
  assumes "unat (OSQStart q) + 4 * n < 2 ^ 32" "k \<le> n" "j \<le> n"
  shows "slot q k = slot q j \<longleftrightarrow> k = j"
  using unat_slot [OF assms(1,2)] unat_slot [OF assms(1,3)] by (auto simp: word_unat_eq_iff)

lemma slot_Suc: "slot q (Suc k) = slot q k + 4"
  by (simp add: slot_def algebra_simps)

lemma out_index_slot:
  "unat (OSQStart q) + 4 * n < 2 ^ 32 \<Longrightarrow> k \<le> n \<Longrightarrow> OSQOut q = slot q k \<Longrightarrow> out_index q = k"
  by (simp add: out_index_def unat_slot)

lemma step_mod: "i < n \<Longrightarrow> (if Suc i = n then 0 else Suc i) = Suc i mod n"
  by auto

lemma shift_mod_neq: "k < e \<Longrightarrow> e < n \<Longrightarrow> (o' + k) mod n \<noteq> (o' + e) mod n" for k e n :: nat
proof
  assume "k < e" "e < n" "(o' + k) mod n = (o' + e) mod n"
  then have "n dvd (o' + e) - (o' + k)" using mod_eq_dvd_iff_nat [of "o' + k" "o' + e" n] by simp
  then have "n dvd e - k" by simp
  with \<open>k < e\<close> \<open>e < n\<close> show False by (auto dest: dvd_imp_le)
qed

lemma ring_append_law:
  assumes "ring_ok r" "length (ring_contents r) < ring_cap r"
  shows "ring_ok (ring_append m r) \<and> ring_contents (ring_append m r) = ring_contents r @ [m] \<and>
    ring_cap (ring_append m r) = ring_cap r"
proof -
  obtain q mem where r: "r = (q, mem)" by (cases r)
  obtain o' where o': "ring_at q o'" using assms(1) r by (auto simp: ring_ok_def)
  define n where "n = unat (OSQSize q)"
  define e where "e = unat (OSQEntries q)"
  define i where "i = (o' + e) mod n"
  have a: "0 < n" "unat (OSQStart q) + 4 * n < 2 ^ 32" "OSQEnd q = slot q n" "o' < n" "OSQOut q = slot q o'"
    "OSQIn q = slot q i"
    using o' by (simp_all add: ring_at_def n_def e_def i_def Let_def)
  have e: "e < n" using assms(2) r by (simp add: ring_contents_def ring_cap_def n_def e_def)
  have i: "i < n" using a(1) by (simp add: i_def)
  have n16: "n < 65536" by (simp add: n_def)
  have e1: "unat (OSQEntries q + 1) = e + 1"
    using e n16 by (simp add: unat_add_small e_def [symmetric])
  define q' where "q' = q\<lparr> OSQIn := slot q (Suc i mod n), OSQEntries := OSQEntries q + 1 \<rparr>"
  have s': "slot q' k = slot q k" "out_index q' = o'" for k
    using a out_index_slot [OF a(2), of o'] by (simp_all add: slot_def q'_def out_index_def)
  have app: "ring_append m r = (q', mem(slot q i := m))"
  proof (cases "Suc i = n")
    case True
    then have "slot q i + 4 = OSQEnd q" using a(3) slot_Suc [of q i] by simp
    with True show ?thesis by (simp add: ring_append_def r a(6) q'_def slot_def)
  next
    case False
    then have "slot q i + 4 \<noteq> OSQEnd q" using a(3) slot_inj [OF a(2), of "Suc i" n] i slot_Suc [of q i] by simp
    with False i show ?thesis by (simp add: ring_append_def r a(6) q'_def slot_Suc)
  qed
  have "(o' + Suc e) mod n = Suc i mod n" by (simp add: i_def mod_Suc_eq)
  then have "ring_at q' o'"
    using a e e1 s' by (simp add: ring_at_def Let_def) (simp add: q'_def n_def [symmetric])
  moreover have neq: "slot q ((o' + k) mod n) \<noteq> slot q i" if "k < e" for k
    using slot_inj [OF a(2), of "(o' + k) mod n" i] shift_mod_neq [OF that e, of o'] a(1) i
    by (simp add: i_def less_imp_le)
  then have "ring_contents (q', mem(slot q i := m)) = ring_contents (q, mem) @ [m]"
    using e1 out_index_slot [OF a(2) less_imp_le [OF a(4)] a(5)]
    by (simp add: ring_contents_def s') (auto simp: q'_def i_def n_def [symmetric] e_def [symmetric])
  ultimately show ?thesis using app r by (auto simp: ring_ok_def ring_cap_def q'_def)
qed

text \<open>The parts of the consistency of a control block, for a given out cursor.\<close>

lemma ring_atD:
  assumes "ring_at q o'"
  shows "0 < unat (OSQSize q)" "unat (OSQStart q) + 4 * unat (OSQSize q) < 2 ^ 32"
    "OSQEnd q = slot q (unat (OSQSize q))" "o' < unat (OSQSize q)" "OSQOut q = slot q o'"
    "unat (OSQEntries q) \<le> unat (OSQSize q)"
    "OSQIn q = slot q ((o' + unat (OSQEntries q)) mod unat (OSQSize q))" "out_index q = o'"
  using assms out_index_slot [of q "unat (OSQSize q)" o'] by (simp_all add: ring_at_def Let_def)

lemma ring_take_law:
  assumes "ring_ok r" "ring_contents r = m # ms"
  shows "fst (ring_take r) = m \<and> ring_ok (snd (ring_take r)) \<and> ring_contents (snd (ring_take r)) = ms \<and>
    ring_cap (snd (ring_take r)) = ring_cap r"
proof -
  obtain q mem where r: "r = (q, mem)" by (cases r)
  obtain o' where o': "ring_at q o'" using assms(1) r by (auto simp: ring_ok_def)
  note a = ring_atD [OF o']
  define n where "n = unat (OSQSize q)"
  define e where "e = unat (OSQEntries q)"
  have len: "length (m # ms) = e" using assms(2) r by (simp add: ring_contents_def e_def flip: assms(2))
  then have e: "0 < e" by simp
  have "0 < OSQEntries q" using e by (simp add: e_def unat_gt_0 word_gt_0)
  then have e1: "unat (OSQEntries q - 1) = e - 1" using unat_minus_one [of "OSQEntries q"] by (auto simp: e_def)
  define q' where "q' = q\<lparr> OSQOut := slot q (Suc o' mod n), OSQEntries := OSQEntries q - 1 \<rparr>"
  have s': "slot q' k = slot q k" for k by (simp add: slot_def q'_def)
  have take: "ring_take r = (mem (slot q o'), (q', mem))"
  proof (cases "Suc o' = n")
    case True
    then have "slot q o' + 4 = OSQEnd q" using a(3) slot_Suc [of q o'] by (simp add: n_def)
    with True show ?thesis by (simp add: ring_take_def r a(5) q'_def slot_def)
  next
    case False
    then have "slot q o' + 4 \<noteq> OSQEnd q"
      using a(3) slot_inj [OF a(2), of "Suc o'" n] a(4) slot_Suc [of q o'] by (simp add: n_def)
    with False a(4) show ?thesis by (simp add: ring_take_def r a(5) q'_def slot_Suc n_def)
  qed
  have "(Suc o' mod n + (e - 1)) mod n = (o' + e) mod n"
    using e by (cases e) (simp_all add: mod_simps)
  then have at: "ring_at q' (Suc o' mod n)"
    using a e1 s' by (simp add: ring_at_def Let_def) (simp add: q'_def n_def [symmetric] e_def [symmetric])
  have idx: "(Suc o' mod n + k) mod n = (o' + Suc k) mod n" for k by (simp add: mod_add_left_eq)
  have "ring_contents (q', mem) = map (\<lambda>k. mem (slot q ((o' + Suc k) mod n))) [0..<e - 1]"
    using ring_atD(8) [OF at] e1 idx by (simp add: ring_contents_def s') (simp add: q'_def n_def)
  moreover have "ring_contents r = mem (slot q o') # map (\<lambda>k. mem (slot q ((o' + Suc k) mod n))) [0..<e - 1]"
  proof -
    have "[0..<e] = 0 # map Suc [0..<e - 1]" using e by (simp add: map_Suc_upt upt_conv_Cons)
    then show ?thesis using a(4,8) by (simp add: ring_contents_def r n_def e_def [symmetric])
  qed
  ultimately have "m = mem (slot q o')" "ring_contents (q', mem) = ms" using assms(2) by auto
  then show ?thesis using take at r by (auto simp: ring_ok_def ring_cap_def q'_def)
qed

lemma ring_prepend_law:
  assumes "ring_ok r" "length (ring_contents r) < ring_cap r"
  shows "ring_ok (ring_prepend m r) \<and> ring_contents (ring_prepend m r) = m # ring_contents r \<and>
    ring_cap (ring_prepend m r) = ring_cap r"
proof -
  obtain q mem where r: "r = (q, mem)" by (cases r)
  obtain o' where o': "ring_at q o'" using assms(1) r by (auto simp: ring_ok_def)
  note a = ring_atD [OF o']
  define n where "n = unat (OSQSize q)"
  define e where "e = unat (OSQEntries q)"
  have n: "0 < n" "n < 65536" "o' < n" using a by (simp_all add: n_def)
  have e: "e < n" using assms(2) r by (simp add: ring_contents_def ring_cap_def n_def e_def)
  have e1: "unat (OSQEntries q + 1) = Suc e"
    using e n by (simp add: unat_add_small e_def [symmetric])
  define j where "j = (if o' = 0 then n - 1 else o' - 1)"
  have j: "j < n" "Suc j mod n = o'" using n by (auto simp: j_def)
  define q' where "q' = q\<lparr> OSQOut := slot q j, OSQEntries := OSQEntries q + 1 \<rparr>"
  have s': "slot q' k = slot q k" for k by (simp add: slot_def q'_def)
  have pre: "ring_prepend m r = (q', mem(slot q j := m))"
  proof (cases "o' = 0")
    case True
    then have "OSQOut q = OSQStart q" "OSQEnd q - 4 = slot q j"
      using a(3,5) slot_Suc [of q j] n by (simp_all add: slot_def j_def flip: n_def)
    then show ?thesis by (simp add: ring_prepend_def r q'_def Let_def)
  next
    case False
    then have "OSQOut q \<noteq> OSQStart q" "OSQOut q - 4 = slot q j"
      using a(5) slot_inj [OF a(2), of o' 0] a(4) slot_Suc [of q j] by (simp_all add: slot_def j_def)
    then show ?thesis by (simp add: ring_prepend_def r q'_def Let_def)
  qed
  have idx: "(j + Suc k) mod n = (o' + k) mod n" for k
    using mod_add_left_eq [of "Suc j" n k] j(2) by simp
  then have at: "ring_at q' j"
    using a e1 s' j e n by (simp add: ring_at_def Let_def) (simp add: q'_def n_def [symmetric] e_def [symmetric])
  have neq: "slot q ((o' + k) mod n) \<noteq> slot q j" if "k < e" for k
    using slot_inj [OF a(2), of "(o' + k) mod n" j] shift_mod_neq [of 0 "Suc k" n j] idx [of k] that e j n
    by (simp add: less_imp_le flip: n_def)
  have "[0..<Suc e] = 0 # map Suc [0..<e]" by (simp add: map_Suc_upt upt_conv_Cons)
  then have "ring_contents (q', mem(slot q j := m)) = m # ring_contents (q, mem)"
    using e1 a(8) ring_atD(8) [OF at] j(1) neq idx
    by (simp add: ring_contents_def s' del: upt_Suc) (simp add: q'_def n_def [symmetric] e_def [symmetric] del: upt_Suc)
  then show ?thesis using pre at r by (auto simp: ring_ok_def ring_cap_def q'_def)
qed

interpretation ring: bounded_queue ring_ok ring_contents ring_cap ring_fill ring_append ring_prepend
  ring_take ring_flush
proof unfold_locales
  fix r :: ring assume ok: "ring_ok r"
  then obtain o' where o': "ring_at (fst r) o'" by (auto simp: ring_ok_def)
  show "length (ring_contents r) \<le> ring_cap r" "ring_fill r = length (ring_contents r)"
    using ring_atD(6) [OF o'] by (auto simp: ring_contents_def ring_cap_def ring_fill_def split: prod.splits)
  obtain q mem where r: "r = (q, mem)" by (cases r)
  have "ring_at (q\<lparr> OSQIn := OSQStart q, OSQOut := OSQStart q, OSQEntries := 0 \<rparr>) 0"
    using o' r by (simp add: ring_at_def Let_def slot_def)
  then show "ring_ok (ring_flush r) \<and> ring_contents (ring_flush r) = [] \<and> ring_cap (ring_flush r) = ring_cap r"
    by (auto simp: ring_flush_def ring_ok_def ring_contents_def ring_cap_def r)
qed (rule ring_append_law ring_prepend_law ring_take_law; assumption)+

text \<open>The queue calls on the ring buffer, each behind the fill test of its function.\<close>

definition ring_call :: "msg queue_call \<Rightarrow> ring \<Rightarrow> msg option \<times> ring" where
  "ring_call = guarded_call ring_fill ring_cap ring_append ring_prepend ring_take ring_flush"

text \<open>C22: The message queues are bounded first-in first-out queues with urgent messages: from any
  consistent control block, after any sequence of posts, posts to the front, receives and flushes,
  with the cursors wrapping as often as they may, the answers and the contents are those of the same
  calls on a list bounded by the queue's size, and the control block is still consistent.\<close>

theorem ring_is_bounded_fifo:
  assumes "ring_ok r"
  shows "(fst (run_calls ring_call cs r), ring_contents (snd (run_calls ring_call cs r))) =
      list_calls (ring_cap r) cs (ring_contents r) \<and>
    ring_ok (snd (run_calls ring_call cs r))"
  using ring.run_calls_refines [OF assms, of cs] by (simp add: ring_call_def)

definition sample_ring :: ring where
  "sample_ring = (\<lparr> OSQPtr = None, OSQStart = 1000, OSQEnd = 1012, OSQIn = 1000, OSQOut = 1008,
     OSQSize = 3, OSQEntries = 1 \<rparr>, (\<lambda>a. 0)(1008 := 7))"

lemma sample_ring: "ring_ok sample_ring" "ring_contents sample_ring = [7]" "ring_cap sample_ring = 3"
proof -
  have "ring_at (fst sample_ring) 2" by (simp add: ring_at_def sample_ring_def slot_def)
  then show "ring_ok sample_ring" by (auto simp: ring_ok_def)
  show "ring_contents sample_ring = [7]" "ring_cap sample_ring = 3"
    by (simp_all add: ring_contents_def sample_ring_def slot_def out_index_def ring_cap_def)
qed

theorem ring_is_bounded_fifo_witness:
  "fst (run_calls ring_call [Put 8, Put_Front 9, Put 10, Get, Get, Get, Get] sample_ring) =
     [None, None, None, Some 9, Some 7, Some 8, None]"
  using ring_is_bounded_fifo [OF sample_ring(1), of "[Put 8, Put_Front 9, Put 10, Get, Get, Get, Get]"]
  by (simp add: sample_ring)

end
