(* ===== verification/Os_Q.thy ===== *)
theory Os_Q imports Os_Sem Ring_Buffer begin

text \<open>
  \<open>os_q.c\<close>: message queues. The queue of an event is the control block its \<open>OSEventPtr\<close> points to;
  the buffer operations are those of the theory \<open>Ring_Buffer\<close>. \<open>OSQPend\<close> is split, like
  \<open>OSSemPend\<close>, where the task can lose the processor. The lemmas show what each operation does to a
  consistent kernel: a message goes to the highest priority waiting task or to the end (or front) of
  the buffered list, and a full queue is reported.
\<close>

section \<open>Access to the queue of an event\<close>

definition q_of :: "nat \<Rightarrow> os_state \<Rightarrow> q_ptr" where
  "q_of e s = (case OSEventPtr (ECB s e) of Q_Ptr p \<Rightarrow> p | _ \<Rightarrow> None)"

definition get_ring :: "nat \<Rightarrow> os_state \<Rightarrow> ring" where
  "get_ring q s = (QCB s q, storage s)"

definition set_ring :: "nat \<Rightarrow> ring \<Rightarrow> os_state \<Rightarrow> os_state" where
  "set_ring q r s = s\<lparr> QCB := (QCB s)(q := fst r), storage := snd r \<rparr>"

section \<open>Operations\<close>

definition OSQAccept :: "event_ptr \<Rightarrow> INT8U option \<Rightarrow> os_state \<Rightarrow> (msg \<times> INT8U option \<times> os_state) option" where
  "OSQAccept pevent perr s =
     (if perr = None then Some (0, perr, s)
      else case pevent of None \<Rightarrow> Some (0, Some OS_ERR_PEVENT_NULL, s)
      | Some e \<Rightarrow>
          if OSEventType (ECB s e) \<noteq> OS_EVENT_TYPE_Q then Some (0, Some OS_ERR_EVENT_TYPE, s)
          else do {
            q \<leftarrow> q_of e s;
            if OSQEntries (QCB s q) > 0 then
              let (pmsg, r) = ring_take (get_ring q s) in
              Some (pmsg, Some OS_ERR_NONE, set_ring q r s)
            else Some (0, Some OS_ERR_Q_EMPTY, s)
          })"

definition OSQCreate :: "INT32U \<Rightarrow> INT16U \<Rightarrow> os_state \<Rightarrow> (event_ptr \<times> os_state) option" where
  "OSQCreate start size' s =
     (if OSIntNesting s > 0 then Some (None, s)
      else do {
        (pevent, s) \<leftarrow> alloc_event s;
        (case pevent of None \<Rightarrow> Some (None, s)
         | Some e \<Rightarrow>
            (case OSQFreeList s of
               Some q \<Rightarrow>
                 let s = s\<lparr> OSQFreeList := OSQPtr (QCB s q) \<rparr>;
                     s = set_q q (\<lambda>pq. pq\<lparr> OSQStart := start, OSQEnd := start + 4 * ucast size', OSQIn := start,
                                          OSQOut := start, OSQSize := size', OSQEntries := 0 \<rparr>) s;
                     s = set_event e (\<lambda>ev. event_name_unknown (ev\<lparr> OSEventType := OS_EVENT_TYPE_Q,
                                        OSEventCnt := 0, OSEventPtr := Q_Ptr (Some q) \<rparr>)) s in
                 Some (Some e, OS_EventWaitListInit e s)
             | None \<Rightarrow>
                 Some (None, (set_event e (\<lambda>ev. ev\<lparr> OSEventPtr := Event_Ptr (OSEventFreeList s) \<rparr>) s)
                               \<lparr> OSEventFreeList := Some e \<rparr>)))
      })"

text \<open>Returning the queue control block and the event control block to their free lists.\<close>

definition free_queue_event :: "nat \<Rightarrow> os_state \<Rightarrow> os_state option" where
  "free_queue_event e s = do {
     q \<leftarrow> q_of e s;
     let s = set_q q (\<lambda>pq. pq\<lparr> OSQPtr := OSQFreeList s \<rparr>) s;
     let s = s\<lparr> OSQFreeList := Some q \<rparr>;
     Some (free_event e s)
   }"

definition OSQDel ::
  "event_ptr \<Rightarrow> INT8U \<Rightarrow> INT8U option \<Rightarrow> os_state \<Rightarrow> (event_ptr \<times> INT8U option \<times> os_state) option" where
  "OSQDel pevent opt perr s =
     (if perr = None then Some (pevent, perr, s)
      else case pevent of None \<Rightarrow> Some (pevent, Some OS_ERR_PEVENT_NULL, s)
      | Some e \<Rightarrow>
          if OSEventType (ECB s e) \<noteq> OS_EVENT_TYPE_Q then Some (pevent, Some OS_ERR_EVENT_TYPE, s)
          else if OSIntNesting s > 0 then Some (pevent, Some OS_ERR_DEL_ISR, s)
          else
            let tasks_waiting = (OSEventGrp (ECB s e) \<noteq> 0) in
            if opt = OS_DEL_NO_PEND then
              if \<not> tasks_waiting then do { s \<leftarrow> free_queue_event e s; Some (None, Some OS_ERR_NONE, s) }
              else Some (pevent, Some OS_ERR_TASK_WAITING, s)
            else if opt = OS_DEL_ALWAYS then do {
              (n, s) \<leftarrow> ready_all e 0 OS_STAT_Q OS_STAT_PEND_OK 0 s;
              s \<leftarrow> free_queue_event e s;
              s \<leftarrow> (if tasks_waiting then OS_Sched s else Some s);
              Some (None, Some OS_ERR_NONE, s)
            }
            else Some (pevent, Some OS_ERR_INVALID_OPT, s))"

definition OSQFlush :: "event_ptr \<Rightarrow> os_state \<Rightarrow> (INT8U \<times> os_state) option" where
  "OSQFlush pevent s =
     (case pevent of None \<Rightarrow> Some (OS_ERR_PEVENT_NULL, s)
      | Some e \<Rightarrow>
          if OSEventType (ECB s e) \<noteq> OS_EVENT_TYPE_Q then Some (OS_ERR_EVENT_TYPE, s)
          else do {
            q \<leftarrow> q_of e s;
            Some (OS_ERR_NONE, set_ring q (ring_flush (get_ring q s)) s)
          })"

definition OSQPend_enter ::
  "event_ptr \<Rightarrow> INT16U \<Rightarrow> INT8U option \<Rightarrow> os_state \<Rightarrow> (bool \<times> msg \<times> INT8U option \<times> os_state) option" where
  "OSQPend_enter pevent timeout perr s =
     (if perr = None then Some (True, 0, perr, s)
      else case pevent of None \<Rightarrow> Some (True, 0, Some OS_ERR_PEVENT_NULL, s)
      | Some e \<Rightarrow>
          if OSEventType (ECB s e) \<noteq> OS_EVENT_TYPE_Q then Some (True, 0, Some OS_ERR_EVENT_TYPE, s)
          else if OSIntNesting s > 0 then Some (True, 0, Some OS_ERR_PEND_ISR, s)
          else if OSLockNesting s > 0 then Some (True, 0, Some OS_ERR_PEND_LOCKED, s)
          else do {
            q \<leftarrow> q_of e s;
            if OSQEntries (QCB s q) > 0 then
              let (pmsg, r) = ring_take (get_ring q s) in
              Some (True, pmsg, Some OS_ERR_NONE, set_ring q r s)
            else do {
              i \<leftarrow> tcb_index (OSTCBCur s);
              let s = set_tcb i (\<lambda>t. t\<lparr> OSTCBStat := OSTCBStat t OR OS_STAT_Q,
                                        OSTCBStatPend := OS_STAT_PEND_OK, OSTCBDly := timeout \<rparr>) s;
              s \<leftarrow> OS_EventTaskWait e s;
              s \<leftarrow> OS_Sched s;
              Some (False, 0, perr, s)
            }
          })"

definition OSQPend_resume :: "nat \<Rightarrow> os_state \<Rightarrow> (msg \<times> INT8U \<times> os_state) option" where
  "OSQPend_resume e s = do {
     i \<leftarrow> tcb_index (OSTCBCur s);
     (pmsg, err, s) \<leftarrow>
       (if OSTCBStatPend (TCB s i) = OS_STAT_PEND_OK then Some (OSTCBMsg (TCB s i), OS_ERR_NONE, s)
        else if OSTCBStatPend (TCB s i) = OS_STAT_PEND_ABORT then Some (0, OS_ERR_PEND_ABORT, s)
        else do { s \<leftarrow> OS_EventTaskRemove i e s; Some (0, OS_ERR_TIMEOUT, s) });
     Some (pmsg, err, set_tcb i (\<lambda>t. t\<lparr> OSTCBStat := OS_STAT_RDY, OSTCBStatPend := OS_STAT_PEND_OK,
                                        OSTCBEventPtr := None, OSTCBEventMultiPtr := None, OSTCBMsg := 0 \<rparr>) s)
   }"

definition OSQPendAbort ::
  "event_ptr \<Rightarrow> INT8U \<Rightarrow> INT8U option \<Rightarrow> os_state \<Rightarrow> (INT8U \<times> INT8U option \<times> os_state) option" where
  "OSQPendAbort pevent opt perr s =
     (if perr = None then Some (0, perr, s)
      else case pevent of None \<Rightarrow> Some (0, Some OS_ERR_PEVENT_NULL, s)
      | Some e \<Rightarrow>
          if OSEventType (ECB s e) \<noteq> OS_EVENT_TYPE_Q then Some (0, Some OS_ERR_EVENT_TYPE, s)
          else if OSEventGrp (ECB s e) \<noteq> 0 then do {
            (nbr_tasks, s) \<leftarrow>
              (if opt = OS_PEND_OPT_BROADCAST then ready_all e 0 OS_STAT_Q OS_STAT_PEND_ABORT 0 s
               else do { (p, s) \<leftarrow> OS_EventTaskRdy e 0 OS_STAT_Q OS_STAT_PEND_ABORT s; Some (1, s) });
            s \<leftarrow> OS_Sched s;
            Some (nbr_tasks, Some OS_ERR_PEND_ABORT, s)
          }
          else Some (0, Some OS_ERR_NONE, s))"

definition OSQPost :: "event_ptr \<Rightarrow> msg \<Rightarrow> os_state \<Rightarrow> (INT8U \<times> os_state) option" where
  "OSQPost pevent pmsg s =
     (case pevent of None \<Rightarrow> Some (OS_ERR_PEVENT_NULL, s)
      | Some e \<Rightarrow>
          if OSEventType (ECB s e) \<noteq> OS_EVENT_TYPE_Q then Some (OS_ERR_EVENT_TYPE, s)
          else if OSEventGrp (ECB s e) \<noteq> 0 then do {
            (p, s) \<leftarrow> OS_EventTaskRdy e pmsg OS_STAT_Q OS_STAT_PEND_OK s;
            s \<leftarrow> OS_Sched s;
            Some (OS_ERR_NONE, s)
          }
          else do {
            q \<leftarrow> q_of e s;
            if OSQEntries (QCB s q) \<ge> OSQSize (QCB s q) then Some (OS_ERR_Q_FULL, s)
            else Some (OS_ERR_NONE, set_ring q (ring_append pmsg (get_ring q s)) s)
          })"

definition OSQPostFront :: "event_ptr \<Rightarrow> msg \<Rightarrow> os_state \<Rightarrow> (INT8U \<times> os_state) option" where
  "OSQPostFront pevent pmsg s =
     (case pevent of None \<Rightarrow> Some (OS_ERR_PEVENT_NULL, s)
      | Some e \<Rightarrow>
          if OSEventType (ECB s e) \<noteq> OS_EVENT_TYPE_Q then Some (OS_ERR_EVENT_TYPE, s)
          else if OSEventGrp (ECB s e) \<noteq> 0 then do {
            (p, s) \<leftarrow> OS_EventTaskRdy e pmsg OS_STAT_Q OS_STAT_PEND_OK s;
            s \<leftarrow> OS_Sched s;
            Some (OS_ERR_NONE, s)
          }
          else do {
            q \<leftarrow> q_of e s;
            if OSQEntries (QCB s q) \<ge> OSQSize (QCB s q) then Some (OS_ERR_Q_FULL, s)
            else Some (OS_ERR_NONE, set_ring q (ring_prepend pmsg (get_ring q s)) s)
          })"

definition OSQPostOpt :: "event_ptr \<Rightarrow> msg \<Rightarrow> INT8U \<Rightarrow> os_state \<Rightarrow> (INT8U \<times> os_state) option" where
  "OSQPostOpt pevent pmsg opt s =
     (case pevent of None \<Rightarrow> Some (OS_ERR_PEVENT_NULL, s)
      | Some e \<Rightarrow>
          if OSEventType (ECB s e) \<noteq> OS_EVENT_TYPE_Q then Some (OS_ERR_EVENT_TYPE, s)
          else if OSEventGrp (ECB s e) \<noteq> 0 then do {
            s \<leftarrow> (if opt AND OS_POST_OPT_BROADCAST \<noteq> 0
                 then do { (n, s) \<leftarrow> ready_all e pmsg OS_STAT_Q OS_STAT_PEND_OK 0 s; Some s }
                 else do { (p, s) \<leftarrow> OS_EventTaskRdy e pmsg OS_STAT_Q OS_STAT_PEND_OK s; Some s });
            s \<leftarrow> (if opt AND OS_POST_OPT_NO_SCHED = 0 then OS_Sched s else Some s);
            Some (OS_ERR_NONE, s)
          }
          else do {
            q \<leftarrow> q_of e s;
            if OSQEntries (QCB s q) \<ge> OSQSize (QCB s q) then Some (OS_ERR_Q_FULL, s)
            else if opt AND OS_POST_OPT_FRONT \<noteq> 0
              then Some (OS_ERR_NONE, set_ring q (ring_prepend pmsg (get_ring q s)) s)
              else Some (OS_ERR_NONE, set_ring q (ring_append pmsg (get_ring q s)) s)
          })"

record OS_Q_DATA =
  OSMsg :: msg
  OSNMsgs :: INT16U
  q_data_OSQSize :: INT16U
  q_data_OSEventTbl :: "INT8U list"
  q_data_OSEventGrp :: INT8U

definition OSQQuery :: "event_ptr \<Rightarrow> OS_Q_DATA option \<Rightarrow> os_state \<Rightarrow> (INT8U \<times> OS_Q_DATA option) option" where
  "OSQQuery pevent p_q_data s =
     (case pevent of None \<Rightarrow> Some (OS_ERR_PEVENT_NULL, p_q_data)
      | Some e \<Rightarrow>
          (case p_q_data of None \<Rightarrow> Some (OS_ERR_PDATA_NULL, p_q_data)
           | Some d \<Rightarrow>
               if OSEventType (ECB s e) \<noteq> OS_EVENT_TYPE_Q then Some (OS_ERR_EVENT_TYPE, p_q_data)
               else do {
                 q \<leftarrow> q_of e s;
                 Some (OS_ERR_NONE, Some (d\<lparr> q_data_OSEventGrp := OSEventGrp (ECB s e),
                   q_data_OSEventTbl := OSEventTbl (ECB s e),
                   OSMsg := (if OSQEntries (QCB s q) > 0 then storage s (OSQOut (QCB s q)) else 0),
                   OSNMsgs := OSQEntries (QCB s q), q_data_OSQSize := OSQSize (QCB s q) \<rparr>))
               }))"

text \<open>The clearing of the table, and the loop that links control block \<open>i\<close> to \<open>i + 1\<close>.\<close>

definition zero_q :: OS_Q where
  "zero_q = \<lparr> OSQPtr = None, OSQStart = 0, OSQEnd = 0, OSQIn = 0, OSQOut = 0, OSQSize = 0, OSQEntries = 0 \<rparr>"

fun link_qs :: "nat \<Rightarrow> (nat \<Rightarrow> OS_Q) \<Rightarrow> nat \<Rightarrow> OS_Q" where
  "link_qs 0 t = t"
| "link_qs (Suc i) t = (link_qs i t)(i := (link_qs i t i)\<lparr> OSQPtr := Some (Suc i) \<rparr>)"

definition OS_QInit :: "os_state \<Rightarrow> os_state" where
  "OS_QInit s =
     (let t = link_qs (OS_MAX_QS - 1) (\<lambda>_. zero_q) in
      s\<lparr> QCB := t(OS_MAX_QS - 1 := (t (OS_MAX_QS - 1))\<lparr> OSQPtr := None \<rparr>), OSQFreeList := Some 0 \<rparr>)"

section \<open>Queues in a consistent kernel\<close>

definition is_queue :: "nat \<Rightarrow> nat \<Rightarrow> os_state \<Rightarrow> bool" where
  "is_queue e q s \<longleftrightarrow> OSEventType (ECB s e) = OS_EVENT_TYPE_Q \<and> q_of e s = Some q \<and> ring_ok (get_ring q s)"

definition messages :: "nat \<Rightarrow> os_state \<Rightarrow> msg list" where
  "messages q s = ring_contents (get_ring q s)"

definition capacity :: "nat \<Rightarrow> os_state \<Rightarrow> nat" where
  "capacity q s = unat (OSQSize (QCB s q))"

lemma set_ring_simps [simp]:
  "rdy (set_ring q r s) = rdy s" "waiters e (set_ring q r s) = waiters e s" "TCB (set_ring q r s) = TCB s"
  "ECB (set_ring q r s) = ECB s" "ready_set (set_ring q r s) = ready_set s"
  "wait_set e (set_ring q r s) = wait_set e s" "task_at (set_ring q r s) = task_at s"
  "OSTCBPrioTbl (set_ring q r s) = OSTCBPrioTbl s" "OSTCBCur (set_ring q r s) = OSTCBCur s"
  "OSPrioCur (set_ring q r s) = OSPrioCur s" "q_of e (set_ring q r s) = q_of e s"
  "get_ring q (set_ring q r s) = r" "OSTCBList (set_ring q r s) = OSTCBList s"
  by (auto simp: set_ring_def rdy_def waiters_def ready_set_def wait_set_def task_at_def q_of_def
      get_ring_def fun_eq_iff)

lemma kernel_ok_set_ring [simp]: "kernel_ok (set_ring q r s) = kernel_ok s"
  by (simp add: kernel_ok_def task_ok_def)

lemma cur_ok_set_ring [simp]: "cur_ok (set_ring q r s) = cur_ok s"
  by (simp add: cur_ok_def)

lemma queue_mask: "is_queue e q s \<Longrightarrow> event_mask (OSEventType (ECB s e)) = OS_STAT_Q"
  by (simp add: is_queue_def event_mask_def)

lemma queue_fill:
  assumes "is_queue e q s"
  shows "unat (OSQEntries (QCB s q)) = length (messages q s)" "ring_cap (get_ring q s) = capacity q s"
    "length (messages q s) \<le> capacity q s"
  using assms ring.size_law [of "get_ring q s"] ring.bound_law [of "get_ring q s"]
  by (simp_all add: is_queue_def messages_def ring_fill_def ring_cap_def capacity_def get_ring_def)

lemma queue_full_iff:
  "is_queue e q s \<Longrightarrow> OSQSize (QCB s q) \<le> OSQEntries (QCB s q) \<longleftrightarrow> length (messages q s) = capacity q s"
  using queue_fill [of e q s] by (auto simp: word_le_unat capacity_def)

lemma queue_empty_iff: "is_queue e q s \<Longrightarrow> 0 < OSQEntries (QCB s q) \<longleftrightarrow> messages q s \<noteq> []"
  using queue_fill(1) [of e q s] by (auto simp: word_gt_0 unat_eq_zero [symmetric])

lemma is_queue_set_ring: "is_queue e q s \<Longrightarrow> ring_ok r \<Longrightarrow> is_queue e q (set_ring q r s)"
  by (simp add: is_queue_def)

lemma is_queue_frame:
  "sched_frame s s' \<Longrightarrow> is_queue e q s' = is_queue e q s \<and> messages q s' = messages q s \<and> capacity q s' = capacity q s"
  using sched_frame_tbl [of s s'] sched_frame_event [of s s' e]
  by (simp add: is_queue_def messages_def get_ring_def q_of_def capacity_def)

lemma is_queue_switch:
  "switch_frame s s' \<Longrightarrow> is_queue e q s' = is_queue e q s \<and> messages q s' = messages q s \<and> capacity q s' = capacity q s"
  by (simp add: is_queue_def messages_def get_ring_def q_of_def capacity_def switch_frame_sets)

lemma kernel_ok_msg: "kernel_ok s \<Longrightarrow> kernel_ok (set_tcb i (\<lambda>t. t\<lparr> OSTCBMsg := m \<rparr>) s)"
proof -
  let ?s = "set_tcb i (\<lambda>t. t\<lparr> OSTCBMsg := m \<rparr>) s"
  assume ok: "kernel_ok s"
  have same: "ready_set ?s = ready_set s" "wait_set e ?s = wait_set e s" "task_at ?s p j = task_at s p j"
    "OSTCBPrioTbl ?s = OSTCBPrioTbl s" for e p j
    by (simp_all add: ready_set_def wait_set_def task_at_def) (simp_all add: set_tcb_def)
  have "task_ok ?s p (TCB ?s j) = task_ok s p (TCB s j)" for p j
    by (simp add: task_ok_def same masks_ok_def runnable_def)
  with ok show ?thesis by (simp add: kernel_ok_def same)
qed

text \<open>The effect of a post or a front post, shared by the post functions.\<close>

lemma post_to_waiter:
  assumes ok: "kernel_ok s" and cur: "cur_ok s" and q: "is_queue e q s" and ne: "wait_set e s \<noteq> {}"
  obtains prio s1 s' where "OS_EventTaskRdy e pmsg OS_STAT_Q OS_STAT_PEND_OK s = Some (prio, s1)"
    "OS_Sched s1 = Some s'" "kernel_ok s'" "cur_ok s'" "is_queue e q s'" "messages q s' = messages q s"
    "wait_set e s' = wait_set e s - {Min (wait_set e s)}"
    "\<forall>i. task_at s (Min (wait_set e s)) i \<longrightarrow>
        OSTCBMsg (TCB s' i) = pmsg \<and> OSTCBStatPend (TCB s' i) = OS_STAT_PEND_OK \<and>
        (\<not> suspended (TCB s i) \<longrightarrow> Min (wait_set e s) \<in> ready_set s')"
proof -
  obtain prio s1 s' where w: "OS_EventTaskRdy e pmsg OS_STAT_Q OS_STAT_PEND_OK s = Some (prio, s1)"
    "OS_Sched s1 = Some s'" "kernel_ok s'" "cur_ok s'" "sched_frame s s1" "switch_frame s1 s'"
    "wait_set e s' = wait_set e s - {Min (wait_set e s)}"
    "\<forall>i. task_at s (Min (wait_set e s)) i \<longrightarrow>
        OSTCBMsg (TCB s' i) = pmsg \<and> OSTCBStatPend (TCB s' i) = OS_STAT_PEND_OK \<and>
        (\<not> suspended (TCB s i) \<longrightarrow> Min (wait_set e s) \<in> ready_set s')"
    by (rule wake_waiter [OF ok cur ne queue_mask [OF q]]) simp_all
  then show thesis
    using that q is_queue_frame [OF w(5), of e q] is_queue_switch [OF w(6), of e q] by simp
qed

text \<open>C20: \<open>OSQPost\<close> delivers exactly one message: on a consistent kernel the message is handed to the
  highest priority task that waits on the queue (which then carries it and is ready unless
  suspended), or, when nobody waits, it is appended to the buffered messages, or the full queue is
  reported and nothing changes. The kernel and the queue stay consistent.\<close>

theorem q_post_delivers:
  assumes ok: "kernel_ok s" and cur: "cur_ok s" and q: "is_queue e q s"
  shows "\<exists>err s'. OSQPost (Some e) pmsg s = Some (err, s') \<and> kernel_ok s' \<and> cur_ok s' \<and> is_queue e q s' \<and>
     (if wait_set e s \<noteq> {} then
        err = OS_ERR_NONE \<and> messages q s' = messages q s \<and>
        wait_set e s' = wait_set e s - {Min (wait_set e s)} \<and>
        (\<forall>i. task_at s (Min (wait_set e s)) i \<longrightarrow>
           OSTCBMsg (TCB s' i) = pmsg \<and> OSTCBStatPend (TCB s' i) = OS_STAT_PEND_OK \<and>
           (\<not> suspended (TCB s i) \<longrightarrow> Min (wait_set e s) \<in> ready_set s'))
      else if length (messages q s) < capacity q s then
        err = OS_ERR_NONE \<and> messages q s' = messages q s @ [pmsg] \<and> TCB s' = TCB s
      else err = OS_ERR_Q_FULL \<and> s' = s)"
proof (cases "wait_set e s = {}")
  case False
  then have grp: "OSEventGrp (ECB s e) \<noteq> 0" using grp_zero_iff [OF ok] by simp
  obtain prio s1 s' where w: "OS_EventTaskRdy e pmsg OS_STAT_Q OS_STAT_PEND_OK s = Some (prio, s1)"
    "OS_Sched s1 = Some s'" "kernel_ok s'" "cur_ok s'" "is_queue e q s'" "messages q s' = messages q s"
    "wait_set e s' = wait_set e s - {Min (wait_set e s)}"
    "\<forall>i. task_at s (Min (wait_set e s)) i \<longrightarrow>
        OSTCBMsg (TCB s' i) = pmsg \<and> OSTCBStatPend (TCB s' i) = OS_STAT_PEND_OK \<and>
        (\<not> suspended (TCB s i) \<longrightarrow> Min (wait_set e s) \<in> ready_set s')"
    by (rule post_to_waiter [OF ok cur q False, of pmsg])
  have "OSQPost (Some e) pmsg s = Some (OS_ERR_NONE, s')"
    using grp q w(1,2) by (simp add: OSQPost_def is_queue_def)
  with False w(3-8) show ?thesis by simp
next
  case True
  then have grp: "OSEventGrp (ECB s e) = 0" using grp_zero_iff [OF ok] by simp
  show ?thesis
  proof (cases "length (messages q s) < capacity q s")
    case lt: True
    have "OSQPost (Some e) pmsg s = Some (OS_ERR_NONE, set_ring q (ring_append pmsg (get_ring q s)) s)"
      using grp q lt queue_full_iff [OF q] by (simp add: OSQPost_def is_queue_def)
    moreover have "ring_ok (ring_append pmsg (get_ring q s)) \<and>
        ring_contents (ring_append pmsg (get_ring q s)) = messages q s @ [pmsg]"
      using ring.put_law [of "get_ring q s" pmsg] q lt queue_fill(2) [OF q]
      by (simp add: is_queue_def messages_def)
    ultimately show ?thesis
      using True lt ok cur is_queue_set_ring [OF q] by (simp add: messages_def)
  next
    case False
    then have "length (messages q s) = capacity q s" using queue_fill(3) [OF q] by simp
    with False True grp q queue_full_iff [OF q] ok cur show ?thesis by (simp add: OSQPost_def is_queue_def)
  qed
qed

lemma example_queue: "is_queue 1 0 example_os" "messages 0 example_os = [11, 22]" "capacity 0 example_os = 4"
proof -
  have "ring_at (QCB example_os 0) 3" by (simp add: ring_at_def slot_def example_qcbs_def)
  then show "is_queue 1 0 example_os"
    by (auto simp: is_queue_def q_of_def example_ecbs_def ring_ok_def get_ring_def)
  have st: "storage example_os 1012 = 11" "storage example_os 1000 = 22" by (simp_all add: example_os_def)
  show "messages 0 example_os = [11, 22]" "capacity 0 example_os = 4"
    by (simp_all add: messages_def ring_contents_def get_ring_def example_qcbs_def out_index_def slot_def
        capacity_def upt_rec st)
qed

theorem q_post_delivers_witness:
  "\<exists>s'. OSQPost (Some 1) 33 example_os = Some (OS_ERR_NONE, s') \<and> messages 0 s' = [11, 22, 33]"
  using q_post_delivers [OF example_kernel_ok example_cur_ok example_queue(1), of 33] example_queue(2,3)
  by (auto simp: example_sets)

text \<open>C21: A call that takes a message (\<open>OSQPend\<close>, or \<open>OSQAccept\<close>, which never blocks) returns the oldest
  buffered message and removes it. On an empty queue \<open>OSQAccept\<close> returns null and changes nothing,
  while \<open>OSQPend\<close> puts the calling task on the wait list with its timeout and gives the processor to
  the highest priority ready task. The kernel and the queue stay consistent.\<close>

theorem q_take_oldest:
  assumes ok: "kernel_ok s" and run: "running_task s p i" and p: "p \<noteq> OS_LOWEST_PRIO"
    and lk: "OSIntNesting s = 0" "OSLockNesting s = 0" and q: "is_queue e q s"
  shows "case messages q s of
      m # ms \<Rightarrow> \<exists>s'. OSQPend_enter (Some e) timeout (Some x) s = Some (True, m, Some OS_ERR_NONE, s') \<and>
        OSQAccept (Some e) (Some x) s = Some (m, Some OS_ERR_NONE, s') \<and>
        messages q s' = ms \<and> is_queue e q s' \<and> kernel_ok s' \<and> running_task s' p i
    | [] \<Rightarrow> OSQAccept (Some e) (Some x) s = Some (0, Some OS_ERR_Q_EMPTY, s) \<and>
        (\<exists>s'. OSQPend_enter (Some e) timeout (Some x) s = Some (False, 0, Some x, s') \<and>
          messages q s' = [] \<and> is_queue e q s' \<and> kernel_ok s' \<and> highest_runs s' \<and>
          wait_set e s' = insert p (wait_set e s) \<and> ready_set s' = ready_set s - {p} \<and>
          OSTCBDly (TCB s' i) = timeout)"
proof (cases "messages q s")
  case Nil
  have cur: "OSTCBCur s = TCB_AT i" using run by (simp add: running_task_def)
  have e0: "\<not> 0 < OSQEntries (QCB s q)" using queue_empty_iff [OF q] Nil by simp
  obtain s1 s' where b: "OS_EventTaskWait e (set_tcb i (\<lambda>t. t\<lparr> OSTCBStat := OSTCBStat t OR OS_STAT_Q,
        OSTCBStatPend := OS_STAT_PEND_OK, OSTCBDly := timeout \<rparr>) s) = Some s1"
    "OS_Sched s1 = Some s'" "kernel_ok s'" "highest_runs s'"
    "ready_set s' = ready_set s - {p}" "wait_set e s' = insert p (wait_set e s)" "ECB s' = ECB s1"
    "sched_frame s s1" "OSTCBDly (TCB s' i) = timeout" "QCB s' = QCB s" "storage s' = storage s"
    using block_and_sched [OF ok run p lk queue_mask [OF q], of timeout] by auto
  have "is_queue e q s' \<and> messages q s' = []"
    using is_queue_frame [OF b(8), of e q] sched_frame_tbl [OF b(8)] b(7,10,11) q Nil
    by (simp add: is_queue_def messages_def get_ring_def q_of_def)
  then show ?thesis
    using Nil b e0 q lk cur by (simp add: OSQPend_enter_def OSQAccept_def is_queue_def)
next
  case (Cons m ms)
  have e1: "0 < OSQEntries (QCB s q)" using queue_empty_iff [OF q] Cons by simp
  obtain r where r: "ring_take (get_ring q s) = (m, r)" "ring_ok r" "ring_contents r = ms"
    using ring.get_law [of "get_ring q s" m ms] q Cons
    by (cases "ring_take (get_ring q s)") (auto simp: is_queue_def messages_def)
  have "running_task (set_ring q r s) p i" using run by (simp add: running_task_def)
  then show ?thesis
    using Cons e1 r q lk ok is_queue_set_ring [OF q r(2)]
    by (simp add: OSQPend_enter_def OSQAccept_def is_queue_def messages_def)
qed

theorem q_take_oldest_witness:
  "\<exists>s'. OSQPend_enter (Some 1) 0 (Some 0) example_os = Some (True, 11, Some OS_ERR_NONE, s') \<and>
     messages 0 s' = [22]"
  using q_take_oldest [OF example_kernel_ok example_running _ _ _ example_queue(1), of 0 0] example_queue(2)
  by auto

text \<open>When a task that waited on a queue comes back, \<open>OSQPend\<close> returns the message that the post
  left in its control block and no error, or null and the reason (abort or timeout); afterwards the
  control block holds no message, the task is in no wait list and the kernel is consistent.\<close>

lemma q_pend_resume_result:
  assumes ok: "kernel_ok s" and cur: "OSTCBCur s = TCB_AT i" and at: "task_at s p i"
    and rdy: "p \<in> ready_set s" and only: "\<forall>e'. p \<in> wait_set e' s \<longrightarrow> e' = e"
  shows "\<exists>s'. OSQPend_resume e s = Some
       (if OSTCBStatPend (TCB s i) = OS_STAT_PEND_OK then (OSTCBMsg (TCB s i), OS_ERR_NONE, s')
        else if OSTCBStatPend (TCB s i) = OS_STAT_PEND_ABORT then (0, OS_ERR_PEND_ABORT, s')
        else (0, OS_ERR_TIMEOUT, s')) \<and> kernel_ok s' \<and>
     (\<forall>e'. wait_set e' s' = wait_set e' s - {p}) \<and> ready_set s' = ready_set s \<and>
     TCB s' = (TCB s)(i := (resumed (TCB s i))\<lparr> OSTCBMsg := 0 \<rparr>) \<and> messages q s' = messages q s"
proof -
  from resume_step [OF ok at rdy only] obtain s1 where s1:
    "(if OSTCBStatPend (TCB s i) = OS_STAT_PEND_OK \<or> OSTCBStatPend (TCB s i) = OS_STAT_PEND_ABORT
      then Some s else OS_EventTaskRemove i e s) = Some s1" "rdy s1 = rdy s" "TCB s1 = TCB s"
    "sched_frame s s1" "\<forall>e'. wait_set e' s1 = wait_set e' s - {p}" "kernel_ok (set_tcb i resumed s1)"
    by blast
  define s' where "s' = set_tcb i (\<lambda>t. (resumed t)\<lparr> OSTCBMsg := 0 \<rparr>) s1"
  have "OSQPend_resume e s = Some
       (if OSTCBStatPend (TCB s i) = OS_STAT_PEND_OK then (OSTCBMsg (TCB s i), OS_ERR_NONE, s')
        else if OSTCBStatPend (TCB s i) = OS_STAT_PEND_ABORT then (0, OS_ERR_PEND_ABORT, s')
        else (0, OS_ERR_TIMEOUT, s'))"
    using cur s1(1,3) by (auto simp: OSQPend_resume_def s'_def resumed_def [abs_def] split: if_splits)
  moreover have "kernel_ok s'"
  proof -
    have "s' = set_tcb i (\<lambda>t. t\<lparr> OSTCBMsg := 0 \<rparr>) (set_tcb i resumed s1)"
      by (simp add: s'_def set_tcb_def)
    then show ?thesis using kernel_ok_msg [OF s1(6)] by simp
  qed
  moreover have "messages q s' = messages q s"
    using sched_frame_tbl [OF s1(4)] by (simp add: messages_def get_ring_def s'_def set_tcb_def)
  ultimately show ?thesis using s1 by (simp add: s'_def ready_set_def wait_set_def)
qed

lemma q_pend_resume_result_witness:
  "\<exists>s'. OSQPend_resume 1 example_os = Some (OSTCBMsg (TCB example_os 2), OS_ERR_NONE, s') \<and> kernel_ok s'"
proof -
  have a: "OSTCBStatPend (TCB example_os 2) = OS_STAT_PEND_OK" "\<forall>e'. 6 \<in> wait_set e' example_os \<longrightarrow> e' = 1"
    "OSTCBCur example_os = TCB_AT 2" "task_at example_os 6 2" "6 \<in> ready_set example_os"
    by (simp_all add: example_task_at example_sets example_tcbs_def example_tcb_def)
  from q_pend_resume_result [OF example_kernel_ok a(3,4,5,2), of 0] a(1) show ?thesis by auto
qed

section \<open>Creating and deleting\<close>

lemma kernel_ok_fresh_event:
  assumes ok: "kernel_ok s" and w: "wait_set e s = {}"
    and tbl: "OSTCBPrioTbl s' = OSTCBPrioTbl s" "TCB s' = TCB s" "rdy s' = rdy s"
    and ev: "\<And>e'. e' \<noteq> e \<Longrightarrow> ECB s' e' = ECB s e'" and w': "waiters e s' = (0, replicate OS_RDY_TBL_SIZE 0)"
  shows "kernel_ok s'"
proof -
  have bm: "bm_ok (waiters e s')" "wait_set e s' = {}"
    using bm_empty_ok w' by (simp_all add: bm_empty_def wait_set_def)
  have wt: "waiters e' s' = waiters e' s" if "e' \<noteq> e" for e' using ev [OF that] by (simp add: waiters_def)
  have ws: "wait_set e' s' = wait_set e' s" for e'
    using wt [of e'] bm w by (cases "e' = e") (auto simp: wait_set_def)
  have rd: "ready_set s' = ready_set s" by (simp add: ready_set_def tbl)
  have at: "task_at s' p i = task_at s p i" for p i by (simp add: task_at_def tbl)
  have "task_ok s' p (TCB s i) = task_ok s p (TCB s i)" for p i
    using ev w by (simp add: task_ok_def ws rd) (metis empty_iff)
  moreover have "bm_ok (waiters e' s')" for e'
    using bm wt [of e'] kernel_okD(3) [OF ok, of e'] by (cases "e' = e") auto
  ultimately show ?thesis using ok by (simp add: kernel_ok_def ws rd at tbl)
qed

text \<open>\<open>OSQCreate\<close> with a free event block and a free queue block makes an empty queue of the given
  capacity, and deleting it while nobody waits returns both blocks to the heads of their free lists
  with the links they had. The kernel is consistent after each call.\<close>

theorem q_create_delete:
  assumes ok: "kernel_ok s" and lvl: "OSIntNesting s = 0"
    and ev: "OSEventFreeList s = Some e" "OSEventPtr (ECB s e) = Event_Ptr nx" "wait_set e s = {}"
    and q: "OSQFreeList s = Some q" and size: "0 < n" "unat start + 4 * unat n < 2 ^ 32"
  shows "\<exists>s' s''. OSQCreate start n s = Some (Some e, s') \<and> kernel_ok s' \<and> is_queue e q s' \<and>
     messages q s' = [] \<and> capacity q s' = unat n \<and>
     OSEventFreeList s' = nx \<and> OSQFreeList s' = OSQPtr (QCB s q) \<and>
     OSQDel (Some e) OS_DEL_NO_PEND (Some x) s' = Some (None, Some OS_ERR_NONE, s'') \<and> kernel_ok s'' \<and>
     OSEventFreeList s'' = Some e \<and> OSEventPtr (ECB s'' e) = Event_Ptr nx \<and>
     OSQFreeList s'' = Some q \<and> OSQPtr (QCB s'' q) = OSQPtr (QCB s q)"
proof -
  define s1 where "s1 = (s\<lparr> OSEventFreeList := nx \<rparr>)\<lparr> OSQFreeList := OSQPtr (QCB s q) \<rparr>"
  define s2 where "s2 = set_q q (\<lambda>pq. pq\<lparr> OSQStart := start, OSQEnd := start + 4 * ucast n, OSQIn := start,
      OSQOut := start, OSQSize := n, OSQEntries := 0 \<rparr>) s1"
  define s' where "s' = OS_EventWaitListInit e (set_event e (\<lambda>ev. event_name_unknown
      (ev\<lparr> OSEventType := OS_EVENT_TYPE_Q, OSEventCnt := 0, OSEventPtr := Q_Ptr (Some q) \<rparr>)) s2)"
  have create: "OSQCreate start n s = Some (Some e, s')"
    using lvl ev q by (simp add: OSQCreate_def alloc_event_def s'_def s2_def s1_def Let_def)
  have q': "QCB s' q = (QCB s q)\<lparr> OSQStart := start, OSQEnd := start + 4 * ucast n, OSQIn := start,
      OSQOut := start, OSQSize := n, OSQEntries := 0 \<rparr>"
    by (simp add: s'_def s2_def s1_def OS_EventWaitListInit_def set_event_def set_q_def set_waiters_def)
  have e': "OSEventType (ECB s' e) = OS_EVENT_TYPE_Q" "OSEventPtr (ECB s' e) = Q_Ptr (Some q)"
    "waiters e s' = (0, replicate OS_RDY_TBL_SIZE 0)" "\<And>e'. e' \<noteq> e \<Longrightarrow> ECB s' e' = ECB s e'"
    by (simp_all add: s'_def s2_def s1_def OS_EventWaitListInit_def event_name_unknown_def set_q_def)
  have f': "OSEventFreeList s' = nx" "OSQFreeList s' = OSQPtr (QCB s q)" "OSIntNesting s' = 0" "TCB s' = TCB s"
    "OSTCBPrioTbl s' = OSTCBPrioTbl s" "rdy s' = rdy s"
    using lvl by (simp_all add: s'_def s2_def s1_def OS_EventWaitListInit_def set_event_def set_q_def
        set_waiters_def rdy_def)
  have ok': "kernel_ok s'" using kernel_ok_fresh_event [OF ok ev(3) f'(5,4,6) e'(4,3)] by simp
  have "0 < unat n" using size(1) by (simp add: word_less_unat)
  then have "ring_at (QCB s' q) 0"
    using size by (simp add: ring_at_def q' slot_def Let_def)
  then have isq: "is_queue e q s'"
    using e' by (auto simp: is_queue_def q_of_def ring_ok_def get_ring_def)
  have msgs: "messages q s' = []" "capacity q s' = unat n"
    by (simp_all add: messages_def ring_contents_def get_ring_def capacity_def q')
  have w': "wait_set e s' = {}" using e'(3) bm_empty_ok by (simp add: wait_set_def bm_empty_def)
  then have grp: "OSEventGrp (ECB s' e) = 0" using grp_zero_iff [OF ok'] by simp
  obtain s'' where s'': "free_queue_event e s' = Some s''"
    "s'' = free_event e ((set_q q (\<lambda>pq. pq\<lparr> OSQPtr := OSQFreeList s' \<rparr>) s')\<lparr> OSQFreeList := Some q \<rparr>)"
    using e'(2) by (simp add: free_queue_event_def q_of_def)
  have del: "OSQDel (Some e) OS_DEL_NO_PEND (Some x) s' = Some (None, Some OS_ERR_NONE, s'')"
    using s''(1) e'(1) f'(3) grp by (simp add: OSQDel_def)
  have g: "OSEventFreeList s'' = Some e" "OSEventPtr (ECB s'' e) = Event_Ptr nx" "OSQFreeList s'' = Some q"
    "OSQPtr (QCB s'' q) = OSQPtr (QCB s q)" "TCB s'' = TCB s'" "OSTCBPrioTbl s'' = OSTCBPrioTbl s'"
    "rdy s'' = rdy s'" "\<And>e'. e' \<noteq> e \<Longrightarrow> ECB s'' e' = ECB s' e'"
    using f' by (simp_all add: s''(2) free_event_def event_name_unknown_def set_event_def set_q_def rdy_def)
  have "waiters e s'' = (0, replicate OS_RDY_TBL_SIZE 0)"
    using e'(3) by (simp add: s''(2) free_event_def event_name_unknown_def set_event_def set_q_def waiters_def)
  then have "kernel_ok s''" using kernel_ok_fresh_event [OF ok' w' g(6,5,7,8)] by simp
  with create ok' isq msgs f' del g show ?thesis by blast
qed

theorem q_create_delete_witness:
  "\<exists>s'. OSQCreate 2000 8 (example_os\<lparr> OSEventFreeList := Some 5, OSQFreeList := Some 2 \<rparr>) = Some (Some 5, s') \<and>
     messages 2 s' = [] \<and> capacity 2 s' = 8"
proof -
  let ?s = "example_os\<lparr> OSEventFreeList := Some 5, OSQFreeList := Some 2 \<rparr>"
  have same: "rdy ?s = rdy example_os" "waiters e ?s = waiters e example_os" for e
    by (simp_all add: rdy_def waiters_def)
  have sets: "ready_set ?s = ready_set example_os" "wait_set e ?s = wait_set e example_os"
    "task_at ?s p i = task_at example_os p i" for e p i
    by (simp_all add: ready_set_def wait_set_def same task_at_def)
  have "kernel_ok ?s"
    using example_kernel_ok by (simp add: kernel_ok_def same sets task_ok_def)
  from q_create_delete [OF this _ _ _ _ _ , where e = 5 and q = 2 and nx = None and n = 8 and start = 2000 and x = 0]
  show ?thesis by (simp add: sets example_sets example_ecbs_def) blast
qed

end
