(* ===== verification/Os_Time.thy ===== *)
theory Os_Time imports Os_Sem begin

text \<open>
  \<open>os_time.c\<close>: delaying the running task, resuming a delayed task, and the tick counter.
  \<open>OSTimeDlyHMSM\<close> delays the caller several times in a row; since the task loses the processor in each
  of them, the function is given as its result together with the arguments of the \<open>OSTimeDly\<close> calls it
  makes, in order.
\<close>

section \<open>Operations\<close>

definition OSTimeDly :: "INT16U \<Rightarrow> os_state \<Rightarrow> os_state option" where
  "OSTimeDly ticks s =
     (if OSIntNesting s > 0 then Some s
      else if ticks > 0 then do {
        i \<leftarrow> tcb_index (OSTCBCur s);
        let t = TCB s i;
        r \<leftarrow> bm_clear (OSTCBY t) (OSTCBBitX t) (OSTCBBitY t) (rdy s);
        let s = set_rdy r s;
        let s = set_tcb i (\<lambda>t. t\<lparr> OSTCBDly := ticks \<rparr>) s;
        OS_Sched s
      }
      else Some s)"

definition OSTimeDlyHMSM :: "INT8U \<Rightarrow> INT8U \<Rightarrow> INT8U \<Rightarrow> INT16U \<Rightarrow> os_state \<Rightarrow> INT8U \<times> INT16U list" where
  "OSTimeDlyHMSM hours minutes seconds ms s =
     (if OSIntNesting s > 0 then (OS_ERR_TIME_DLY_ISR, [])
      else if hours = 0 \<and> minutes = 0 \<and> seconds = 0 \<and> ms = 0 then (OS_ERR_TIME_ZERO_DLY, [])
      else if minutes > 59 then (OS_ERR_TIME_INVALID_MINUTES, [])
      else if seconds > 59 then (OS_ERR_TIME_INVALID_SECONDS, [])
      else if ms > 999 then (OS_ERR_TIME_INVALID_MS, [])
      else
        let ticks = (ucast hours * 3600 + ucast minutes * 60 + ucast seconds) * OS_TICKS_PER_SEC
                      + OS_TICKS_PER_SEC * (ucast ms + 500 div OS_TICKS_PER_SEC) div 1000;
            loops = (ucast (drop_bit 16 ticks) :: INT16U);
            ticks = ticks AND 0xFFFF in
        (OS_ERR_NONE, ucast ticks # concat (replicate (unat loops) [32768, 32768])))"

definition OSTimeDlyResume :: "INT8U \<Rightarrow> os_state \<Rightarrow> (INT8U \<times> os_state) option" where
  "OSTimeDlyResume prio s =
     (if unat prio \<ge> OS_LOWEST_PRIO then Some (OS_ERR_PRIO_INVALID, s)
      else do {
        p \<leftarrow> array_get (OSTCBPrioTbl s) (unat prio);
        (case p of
           TCB_NULL \<Rightarrow> Some (OS_ERR_TASK_NOT_EXIST, s)
         | TCB_RESERVED \<Rightarrow> Some (OS_ERR_TASK_NOT_EXIST, s)
         | TCB_AT i \<Rightarrow>
             if OSTCBDly (TCB s i) = 0 then Some (OS_ERR_TIME_NOT_DLY, s)
             else
               let s = set_tcb i (\<lambda>t. t\<lparr> OSTCBDly := 0 \<rparr>) s;
                   s = (if OSTCBStat (TCB s i) AND OS_STAT_PEND_ANY \<noteq> OS_STAT_RDY
                        then set_tcb i (\<lambda>t. t\<lparr> OSTCBStat := OSTCBStat t AND NOT OS_STAT_PEND_ANY,
                                               OSTCBStatPend := OS_STAT_PEND_TO \<rparr>) s
                        else set_tcb i (\<lambda>t. t\<lparr> OSTCBStatPend := OS_STAT_PEND_OK \<rparr>) s);
                   t = TCB s i in
               if OSTCBStat t AND OS_STAT_SUSPEND = OS_STAT_RDY then do {
                 b \<leftarrow> bm_set (OSTCBY t) (OSTCBBitX t) (OSTCBBitY t) (rdy s);
                 s \<leftarrow> OS_Sched (set_rdy b s);
                 Some (OS_ERR_NONE, s)
               }
               else Some (OS_ERR_NONE, s))
      })"

definition OSTimeGet :: "os_state \<Rightarrow> INT32U" where
  "OSTimeGet s = OSTime s"

definition OSTimeSet :: "INT32U \<Rightarrow> os_state \<Rightarrow> os_state" where
  "OSTimeSet ticks s = s\<lparr> OSTime := ticks \<rparr>"

section \<open>Delays\<close>

lemma delay_task_ok:
  assumes tok: "task_ok s p t" and rdy: "p \<in> ready_set s" and no: "\<And>e. p \<notin> wait_set e s"
    and d: "ticks \<noteq> 0" and s': "p \<notin> ready_set s'" "\<And>e. wait_set e s' = wait_set e s"
  shows "task_ok s' p (t\<lparr> OSTCBDly := ticks \<rparr>)"
proof -
  have "OSTCBStat t = 0" using task_okD(4) [OF tok] rdy by (simp add: runnable_def)
  then show ?thesis
    using task_okD(1,3) [OF tok] no d s' by (simp add: task_ok_def masks_ok_def runnable_def)
qed

lemma OSTimeDly_frames:
  assumes ok: "kernel_ok s" and run: "running_task s p i" and p: "p \<noteq> OS_LOWEST_PRIO"
    and lk: "OSIntNesting s = 0" "OSLockNesting s = 0" and n: "ticks \<noteq> 0"
  obtains s1 s' where "OSTimeDly ticks s = Some s'" "sched_frame s s1" "switch_frame s1 s'" "kernel_ok s1" "kernel_ok s'"
    "highest_runs s'" "ready_set s1 = ready_set s - {p}" "\<And>e. wait_set e s1 = wait_set e s" "unat (OSPrioCur s') \<noteq> p"
    "TCB s1 = (TCB s)(i := (TCB s i)\<lparr> OSTCBDly := ticks \<rparr>)"
proof -
  have a: "OSTCBCur s = TCB_AT i" "task_at s p i" "p \<in> ready_set s" "\<And>e. p \<notin> wait_set e s"
    using run by (auto simp: running_task_def)
  have p20: "p \<le> 20" using a(2) by (simp add: task_at_def)
  have tok: "task_ok s p (TCB s i)" using ok a(2) by (rule kernel_okD(4))
  obtain r where r: "bm_clear (OSTCBY (TCB s i)) (OSTCBBitX (TCB s i)) (OSTCBBitY (TCB s i)) (rdy s) = Some r"
    "bm_ok r" "bm_elems r = bm_elems (rdy s) - {p}"
    using masks_clear [OF kernel_okD(2) [OF ok] task_okD(1) [OF tok] p20] by blast
  define s1 where "s1 = set_tcb i (\<lambda>t. t\<lparr> OSTCBDly := ticks \<rparr>) (set_rdy r s)"
  have sets: "ready_set s1 = ready_set s - {p}" "wait_set e s1 = wait_set e s" for e
    using r(3) by (simp_all add: s1_def ready_set_def wait_set_def)
  have fr: "sched_frame s s1" by (simp add: s1_def)
  have tok1: "task_ok s1 p (TCB s1 i)"
    using delay_task_ok [OF tok a(3,4), of ticks s1] n by (simp add: sets) (simp add: s1_def)
  have ok1: "kernel_ok s1"
    by (rule kernel_ok_update [OF ok a(2)])
      (use sched_frame_tbl [OF fr] sched_frame_event [OF fr] sets tok1 r(2) kernel_okD(3) [OF ok] p
        in \<open>simp_all add: s1_def\<close>)
  have "cur_ok s1" "OSIntNesting s1 = 0" "OSLockNesting s1 = 0"
    using cur_ok_frame [OF fr] running_cur_ok [OF run] sched_frame_tbl [OF fr] lk by auto
  from OS_Sched_ok [OF ok1 this] obtain s' where s': "OS_Sched s1 = Some s'" "switch_frame s1 s'"
    "kernel_ok s'" "highest_runs s'" by metis
  have go: "OSTimeDly ticks s = Some s'"
    using n lk(1) a(1) r(1) s'(1) by (simp add: OSTimeDly_def Let_def s1_def word_gt_0)
  have "Min (ready_set s') \<in> ready_set s'"
    using ready_not_empty [OF s'(3)] bm.finite_law [OF kernel_okD(2) [OF s'(3)]]
    unfolding ready_set_def by (intro Min_in)
  then have "unat (OSPrioCur s') \<noteq> p" using s'(4) sets by (auto simp: highest_runs_def switch_frame_sets [OF s'(2)])
  moreover have "TCB s1 = (TCB s)(i := (TCB s i)\<lparr> OSTCBDly := ticks \<rparr>)" by (simp add: s1_def)
  ultimately show thesis by (rule that [OF go fr s'(2) ok1 s'(3,4) sets])
qed

text \<open>\<open>OSTimeDly\<close> with a positive delay suspends exactly the caller: it leaves the ready list with the
  delay in its control block, the highest priority ready task runs instead, and no other task or wait
  list changes. With a delay of zero, or from an interrupt handler, nothing happens.\<close>

theorem time_dly_suspends_caller:
  assumes ok: "kernel_ok s" and run: "running_task s p i" and p: "p \<noteq> OS_LOWEST_PRIO"
    and lk: "OSLockNesting s = 0"
  shows "if OSIntNesting s = 0 \<and> ticks \<noteq> 0
     then \<exists>s'. OSTimeDly ticks s = Some s' \<and> kernel_ok s' \<and> highest_runs s' \<and>
        ready_set s' = ready_set s - {p} \<and> unat (OSPrioCur s') \<noteq> p \<and> OSTCBDly (TCB s' i) = ticks \<and>
        (\<forall>e. wait_set e s' = wait_set e s) \<and> (\<forall>j. OSTCBStat (TCB s' j) = OSTCBStat (TCB s j)) \<and>
        (\<forall>j. j \<noteq> i \<longrightarrow> OSTCBDly (TCB s' j) = OSTCBDly (TCB s j))
     else OSTimeDly ticks s = Some s"
proof (cases "OSIntNesting s = 0 \<and> ticks \<noteq> 0")
  case True
  then have c: "OSIntNesting s = 0" "ticks \<noteq> 0" by simp_all
  obtain s1 s' where s': "OSTimeDly ticks s = Some s'" "sched_frame s s1" "switch_frame s1 s'" "kernel_ok s1" "kernel_ok s'"
    "highest_runs s'" "ready_set s1 = ready_set s - {p}" "\<And>e. wait_set e s1 = wait_set e s" "unat (OSPrioCur s') \<noteq> p"
    "TCB s1 = (TCB s)(i := (TCB s i)\<lparr> OSTCBDly := ticks \<rparr>)"
    by (rule OSTimeDly_frames [OF ok run p c(1) lk c(2)]) blast
  then show ?thesis
    using True by (simp add: switch_frame_sets [OF s'(3)] switch_frame_task [OF s'(3)])
qed (auto simp: OSTimeDly_def word_gt_0)

theorem time_dly_suspends_caller_witness:
  "\<exists>s'. OSTimeDly 5 example_os = Some s' \<and> ready_set s' = {20} \<and> OSPrioCur s' = 20 \<and>
     OSTCBDly (TCB s' 2) = 5"
proof -
  obtain s' where s': "OSTimeDly 5 example_os = Some s'" "highest_runs s'" "ready_set s' = {20}"
    "OSTCBDly (TCB s' 2) = 5"
    using time_dly_suspends_caller [OF example_kernel_ok example_running, of 5] by (auto simp: example_sets)
  then have "unat (OSPrioCur s') = unat (20 :: INT8U)" by (simp add: highest_runs_def)
  with s' show ?thesis by (simp add: word_unat_eq_iff)
qed

text \<open>The tick count of the fields, and its split into a 16-bit rest and pairs of half-range delays.\<close>

lemma ms_ticks: "ms \<le> 999 \<Longrightarrow> (1000 * (ucast (ms :: INT16U) + 500 div 1000) div 1000 :: INT32U) = ucast ms"
proof -
  assume "ms \<le> 999"
  then have "unat ms \<le> 999" by (simp add: word_le_unat)
  moreover have "(500 :: INT32U) div 1000 = 0" by simp
  ultimately show ?thesis
    by (intro word_unat_eqI) (simp add: unat_div_distrib unat_mult_small)
qed

lemma hmsm_bound:
  "h < 256 \<Longrightarrow> m \<le> 59 \<Longrightarrow> s \<le> 59 \<Longrightarrow> k \<le> 999 \<Longrightarrow> ((h * 60 + m) * 60 + s) * 1000 + k < (4294967296 :: nat)"
  by simp

lemma hmsm_ticks:
  assumes "minutes \<le> (59 :: INT8U)" "seconds \<le> (59 :: INT8U)" "ms \<le> (999 :: INT16U)"
  shows "unat ((ucast (hours :: INT8U) * 3600 + ucast minutes * 60 + ucast seconds) * 1000 + ucast ms :: INT32U) =
    ((unat hours * 60 + unat minutes) * 60 + unat seconds) * 1000 + unat ms"
proof -
  let ?n = "((unat hours * 60 + unat minutes) * 60 + unat seconds) * 1000 + unat ms"
  have "unat minutes \<le> 59" "unat seconds \<le> 59" "unat ms \<le> 999"
    using assms by (simp_all add: word_le_unat)
  moreover have "unat hours < 256" by (rule unat_lt_8)
  ultimately have n: "?n < 4294967296" by (intro hmsm_bound)
  have "(ucast hours * 3600 + ucast minutes * 60 + ucast seconds) * 1000 + ucast ms = (of_nat ?n :: INT32U)"
    by (simp add: algebra_simps)
  then show ?thesis using n by (simp only: unat_of_nat) simp
qed

lemma delays_sum:
  fixes w :: INT32U
  shows "sum_list (map unat ((ucast (w AND 0xFFFF) :: INT16U) #
      concat (replicate (unat (ucast (drop_bit 16 w) :: INT16U)) [32768, 32768]))) = unat w"
proof -
  have "w AND 0xFFFF = take_bit 16 w" by (simp add: take_bit_eq_mask mask_eq_exp_minus_1)
  then have a: "unat (ucast (w AND 0xFFFF) :: INT16U) = unat w mod 65536"
    by (simp add: unat_ucast_mod take_bit_eq_mod unat_mod_distrib)
  have "unat (drop_bit 16 w) = unat w div 65536" by (simp add: drop_bit_eq_div unat_div_distrib)
  moreover have "unat w div 65536 < 65536" by (rule less_mult_imp_div_less) simp
  ultimately have b: "unat (ucast (drop_bit 16 w) :: INT16U) = unat w div 65536"
    by (simp add: unat_ucast_mod)
  have c: "sum_list (map unat (concat (replicate n [32768, 32768 :: INT16U]))) = 65536 * n" for n
    by (induction n) simp_all
  show ?thesis using a b c by simp
qed

text \<open>\<open>OSTimeDlyHMSM\<close> called from a task with fields in range and not all zero delays the caller for
  exactly the requested time: its delays add up to the number of milliseconds (ticks), although each
  single delay is a 16-bit number; every other call delays nothing and returns the error that names
  the offending field.\<close>

theorem dly_hmsm_total:
  "if OSIntNesting s = 0 \<and> (hours \<noteq> 0 \<or> minutes \<noteq> 0 \<or> seconds \<noteq> 0 \<or> ms \<noteq> 0) \<and>
       minutes \<le> 59 \<and> seconds \<le> 59 \<and> ms \<le> 999
     then \<exists>ds. OSTimeDlyHMSM hours minutes seconds ms s = (OS_ERR_NONE, ds) \<and>
       sum_list (map unat ds) = ((unat hours * 60 + unat minutes) * 60 + unat seconds) * 1000 + unat ms
     else OSTimeDlyHMSM hours minutes seconds ms s =
       (if OSIntNesting s \<noteq> 0 then OS_ERR_TIME_DLY_ISR
        else if hours = 0 \<and> minutes = 0 \<and> seconds = 0 \<and> ms = 0 then OS_ERR_TIME_ZERO_DLY
        else if 59 < minutes then OS_ERR_TIME_INVALID_MINUTES
        else if 59 < seconds then OS_ERR_TIME_INVALID_SECONDS
        else OS_ERR_TIME_INVALID_MS, [])"
  unfolding OSTimeDlyHMSM_def Let_def using hmsm_ticks [of minutes seconds ms hours] delays_sum ms_ticks [of ms]
  by (auto simp: word_gt_0 not_le not_less simp del: list.map sum_list.Cons)

theorem dly_hmsm_total_witness:
  "\<exists>ds. OSTimeDlyHMSM 2 5 0 0 example_os = (OS_ERR_NONE, ds) \<and> sum_list (map unat ds) = 7500000"
  using dly_hmsm_total [of example_os 2 5 0 0] by simp

section \<open>Resuming a delayed task\<close>

text \<open>Resuming is the last tick of the delay, come early.\<close>

lemma resume_is_tick:
  assumes "OSTCBPrioTbl s ! unat prio = TCB_AT i" "unat prio < length (OSTCBPrioTbl s)" "unat prio < 20"
    "OSTCBDly (TCB s i) \<noteq> 0"
  shows "OSTimeDlyResume prio s =
    do { s' \<leftarrow> tick_tcb i (set_tcb i (\<lambda>t. t\<lparr> OSTCBDly := 1 \<rparr>) s);
         s' \<leftarrow> (if OSTCBStat (TCB s' i) AND 8 = 0 then OS_Sched s' else Some s');
         Some (OS_ERR_NONE, s') }"
  using assms by (simp add: OSTimeDlyResume_def tick_tcb_def Let_def set_tcb_def set_rdy_def bind_eq_Some_conv
      split: bind_splits)

lemma keeps_suspend: "bit (st AND - 56) 3 = bit st 3" for st :: INT8U
proof -
  have "\<not> bit (0x37 :: INT8U) 3" by (simp add: numeral_3_eq_3)
  then show ?thesis using bit_and_not [of st "0x37" 3] by simp
qed

text \<open>\<open>OSTimeDlyResume\<close> makes a delayed task ready at once, exactly as if its delay had just expired:
  a task that only waits for time comes back with the status OK, one that waits for an event with a
  timeout status, a suspended one is not made ready; when a task was made ready the scheduler runs. A
  priority that is not a task's, or a task without a delay, changes nothing and is reported.\<close>

theorem dly_resume_expires_now:
  assumes ok: "kernel_ok s" and cur: "cur_ok s" and p: "unat prio < OS_LOWEST_PRIO"
  shows "case OSTCBPrioTbl s ! unat prio of
      TCB_AT i \<Rightarrow>
        if OSTCBDly (TCB s i) = 0 then OSTimeDlyResume prio s = Some (OS_ERR_TIME_NOT_DLY, s)
        else \<exists>s'. OSTimeDlyResume prio s = Some (OS_ERR_NONE, s') \<and> kernel_ok s' \<and> cur_ok s' \<and>
          (unat prio \<in> ready_set s' \<longleftrightarrow> \<not> suspended (TCB s i)) \<and> OSTCBDly (TCB s' i) = 0 \<and>
          OSTCBStatPend (TCB s' i) =
            (if OSTCBStat (TCB s i) AND OS_STAT_PEND_ANY \<noteq> 0 then OS_STAT_PEND_TO else OS_STAT_PEND_OK) \<and>
          (\<not> suspended (TCB s i) \<and> OSIntNesting s = 0 \<and> OSLockNesting s = 0 \<longrightarrow> highest_runs s')
    | _ \<Rightarrow> OSTimeDlyResume prio s = Some (OS_ERR_TASK_NOT_EXIST, s)"
proof (cases "OSTCBPrioTbl s ! unat prio")
  case (TCB_AT i)
  have len: "unat prio < length (OSTCBPrioTbl s)" using p kernel_okD(1) [OF ok] by simp
  have at: "task_at s (unat prio) i" using TCB_AT p by (simp add: task_at_def)
  have tok: "task_ok s (unat prio) (TCB s i)" using ok at by (rule kernel_okD(4))
  show ?thesis
  proof (cases "OSTCBDly (TCB s i) = 0")
    case True
    then show ?thesis using TCB_AT len p by (simp add: OSTimeDlyResume_def)
  next
    case d: False
    define s0 where "s0 = set_tcb i (\<lambda>t. t\<lparr> OSTCBDly := 1 \<rparr>) s"
    let ?t = "(TCB s i)\<lparr> OSTCBDly := 1 \<rparr>"
    have fr0: "sched_frame s s0" by (simp add: s0_def)
    have sets0: "ready_set s0 = ready_set s" "wait_set e s0 = wait_set e s" for e
      by (simp_all add: s0_def ready_set_def wait_set_def)
    have tok0: "task_ok s0 (unat prio) ?t"
      using tok d unfolding task_ok_def sets0 by (auto simp: masks_ok_def runnable_def s0_def)
    have ok0: "kernel_ok s0"
      by (rule kernel_ok_update [OF ok at])
        (use sched_frame_tbl [OF fr0] sched_frame_event [OF fr0] sets0 tok0 kernel_okD(2,3) [OF ok] p
          in \<open>simp_all add: s0_def\<close>)
    have at0: "task_at s0 (unat prio) i" using at by (simp add: s0_def task_at_def set_tcb_def)
    obtain s1 where s1: "tick_tcb i s0 = Some s1" "kernel_ok s1" "sched_frame s0 s1"
      "TCB s1 = (TCB s0)(i := ticked (TCB s0 i))"
      "ready_set s1 = (if runnable (ticked (TCB s0 i)) then insert (unat prio) (ready_set s0) else ready_set s0)"
      using tick_tcb_ok [OF ok0 at0] by blast
    have t0: "TCB s0 i = ?t" by (simp add: s0_def)
    have rd: "unat prio \<in> ready_set s1 \<longleftrightarrow> \<not> suspended (TCB s i)" "OSTCBStat (TCB s1 i) AND 8 = 0 \<longleftrightarrow> \<not> suspended (TCB s i)"
    proof -
      have *: "OSTCBStat (ticked ?t) AND 8 = 0 \<longleftrightarrow> \<not> suspended (TCB s i)"
        by (cases ?t rule: ticked_cases) (simp_all add: suspended_def and_8_iff keeps_suspend)
      then show "OSTCBStat (TCB s1 i) AND 8 = 0 \<longleftrightarrow> \<not> suspended (TCB s i)" by (simp add: s1(4) t0)
      have "runnable (ticked ?t) \<longleftrightarrow> \<not> suspended (TCB s i)"
        using ticked_runnable [of ?t] task_okD(2) [OF tok] * by simp
      moreover have "unat prio \<notin> ready_set s" using task_okD(4) [OF tok] d by (simp add: runnable_def)
      ultimately show "unat prio \<in> ready_set s1 \<longleftrightarrow> \<not> suspended (TCB s i)"
        using s1(5) by (simp add: t0 sets0)
    qed
    have pend: "OSTCBDly (TCB s1 i) = 0" "OSTCBStatPend (TCB s1 i) =
        (if OSTCBStat (TCB s i) AND OS_STAT_PEND_ANY \<noteq> 0 then OS_STAT_PEND_TO else OS_STAT_PEND_OK)"
      by (simp_all add: s1(4) t0 ticked_def)
    have fr: "sched_frame s s1" using sched_frame_trans [OF fr0 s1(3)] .
    have cur1: "cur_ok s1" using cur cur_ok_frame [OF fr] by simp
    obtain s' where s': "OS_Sched s1 = Some s'" "switch_frame s1 s'" "kernel_ok s'" "cur_ok s'"
      "OSIntNesting s1 = 0 \<and> OSLockNesting s1 = 0 \<Longrightarrow> highest_runs s'"
      using sched_after [OF s1(2) cur1] by metis
    have res: "OSTimeDlyResume prio s = Some (OS_ERR_NONE, if suspended (TCB s i) then s1 else s')"
      using resume_is_tick [OF TCB_AT len _ d] p s1(1) rd(2) s'(1) by (simp add: s0_def)
    then show ?thesis
      using TCB_AT d s1(2) cur1 s' rd(1) pend sched_frame_tbl [OF fr]
      by (simp add: switch_frame_task [OF s'(2)] switch_frame_sets [OF s'(2)])
  qed
qed (use p kernel_okD(1) [OF ok] in \<open>simp_all add: OSTimeDlyResume_def\<close>)

theorem dly_resume_expires_now_witness:
  "\<exists>s'. OSTimeDlyResume 5 example_os = Some (OS_ERR_NONE, s') \<and> 5 \<in> ready_set s' \<and>
     OSTCBStatPend (TCB s' 1) = OS_STAT_PEND_TO \<and> highest_runs s'"
proof -
  have "OSTCBPrioTbl example_os ! 5 = TCB_AT 1" using example_task_at [of 5 1] by (simp add: task_at_def)
  then show ?thesis
    using dly_resume_expires_now [OF example_kernel_ok example_cur_ok, of 5]
    by (auto simp: example_tcbs_def example_tcb_def suspended_def)
qed

end
