(* ===== verification/App_State.thy ===== *)
theory App_State imports Util Throttle_Data Pwm_Gen Eng_Trans Alarm Os_Q Os_Time begin

text \<open>
  The state of the application: the alarms and the heap (as the record that is extended), the kernel,
  the device registers, the global variables of the tasks, and the local variables of each task with
  the point where it will go on. A task runs from one call at which it can lose the processor to the
  next, so each task's code is cut at these calls. An event handle is the index of its control block.
  The readings of the A/D converter are what its registers hold when they are read; starting a
  conversion is a write to the converter.
\<close>

section \<open>Data\<close>

record shift_req =
  req_curr_gear :: INT8U
  req_new_gear :: INT8U

text \<open>Where \<open>throttle_control_task\<close> goes on: at the head of its loop, in the wait for a resolved
  failure, at the sensor readings, after the result of the shift matching was posted, in the wait for
  the end of the shift, at the wheel speed readings.\<close>

datatype throttle_pc = T_Loop | T_Failure_Wait | T_Sensors | T_Signalled | T_Exit_Wait | T_Wheels

record throttle_vars =
  t_pc :: throttle_pc
  watchdog_throttle_position :: alarm_ptr
  watchdog_rpm_matching :: alarm_ptr
  expected_rpm :: INT32U
  expected_tps_reading :: INT16U
  slip_control_mode :: BOOL
  last_apps_1_reading :: INT16U
  rpm_matching_delay_counter :: INT32U
  curr_duty_cycle :: INT16U
  curr_tps_reading :: INT16U
  pwm_engine_sound :: pwm_gen_module
  pwm_throttle_open :: pwm_gen_module
  pwm_throttle_close :: pwm_gen_module

text \<open>Where \<open>solenoid_task\<close> goes on.\<close>

datatype solenoid_pc = S_Loop | S_Button_Wait | S_Failure_Wait | S_Result_Wait

record solenoid_vars =
  s_pc :: solenoid_pc
  curr_gear :: INT8U
  new_gear :: INT16U
  shift_command :: INT32U
  s_shift_matching_q :: event_ptr
  req :: msg
  shift_alarm :: alarm_ptr

text \<open>Where \<open>failure_handler_task\<close> goes on.\<close>

datatype failure_pc = F_Loop | F_Msg_Wait | F_Flash

record failure_vars =
  f_pc :: failure_pc
  error_led :: INT8U
  next_clear_switch_val :: INT8U

record app_state = alarm_state +
  os :: os_state
  io :: mmio
  adc_reg :: "nat \<Rightarrow> INT32U"
  reqs :: "msg \<Rightarrow> shift_req"
  req_live :: "msg set"
  tables :: throttle_tables
  shift_matching_q :: event_ptr
  apps_failure_flag :: event_ptr
  tps_failure_flag :: event_ptr
  motor_failure_flag :: event_ptr
  throttle_task_external_failure_flag :: event_ptr
  throttle_task_failure_resolved_flag :: event_ptr
  exit_shift_matching_flag :: event_ptr
  failure_code_q :: event_ptr
  failure_msg_q :: event_ptr
  matching_result_q :: event_ptr
  btn_input_q :: event_ptr
  solenoid_external_failure_flag :: event_ptr
  solenoid_failure_resolved_flag :: event_ptr
  rpm_matching_result_q :: event_ptr
  isr_data :: INT32U
  tps_check_alarm :: alarm_ptr
  apps_check_alarm :: alarm_ptr
  thr :: throttle_vars
  sol :: solenoid_vars
  fh :: failure_vars

section \<open>Getters\<close>

definition get_shift_matching_q :: "app_state \<Rightarrow> event_ptr" where
  "get_shift_matching_q s = shift_matching_q s"

definition get_throttle_control_task_external_failure_flag :: "app_state \<Rightarrow> event_ptr" where
  "get_throttle_control_task_external_failure_flag s = throttle_task_external_failure_flag s"

definition get_throttle_control_task_failure_resolved_flag :: "app_state \<Rightarrow> event_ptr" where
  "get_throttle_control_task_failure_resolved_flag s = throttle_task_failure_resolved_flag s"

definition get_solenoid_task_external_failure_flag :: "app_state \<Rightarrow> event_ptr" where
  "get_solenoid_task_external_failure_flag s = solenoid_external_failure_flag s"

definition get_solenoid_task_failure_resolved_flag :: "app_state \<Rightarrow> event_ptr" where
  "get_solenoid_task_failure_resolved_flag s = solenoid_failure_resolved_flag s"

definition get_rpm_matching_result_q :: "app_state \<Rightarrow> event_ptr" where
  "get_rpm_matching_result_q s = rpm_matching_result_q s"

definition get_failure_msg_q :: "app_state \<Rightarrow> event_ptr" where
  "get_failure_msg_q s = failure_code_q s"

section \<open>Devices\<close>

definition alt_up_de0_nano_adc_read :: "nat \<Rightarrow> app_state \<Rightarrow> INT32U" where
  "alt_up_de0_nano_adc_read channel s = adc_reg s (channel mod 8)"

definition alt_up_de0_nano_adc_update :: "app_state \<Rightarrow> app_state" where
  "alt_up_de0_nano_adc_update s = s\<lparr> io := io_write32 DE0_NANO_ADC_0_BASE 0 (io s) \<rparr>"

definition switches :: "app_state \<Rightarrow> INT8U" where
  "switches s = reg8 (io s) SWITCH_BASE"

definition set_leds :: "INT8U \<Rightarrow> app_state \<Rightarrow> app_state" where
  "set_leds v s = s\<lparr> io := io_write8 GREEN_LEDS_BASE v (io s) \<rparr>"

definition rpm_decoder :: "app_state \<Rightarrow> INT32U" where
  "rpm_decoder s = reg32 (io s) RPM_PWM_DECODER_BASE"

section \<open>Calls of the kernel from the application\<close>

definition sem_accept :: "event_ptr \<Rightarrow> app_state \<Rightarrow> INT16U \<times> app_state" where
  "sem_accept e s = (let (cnt, k) = OSSemAccept e (os s) in (cnt, s\<lparr> os := k \<rparr>))"

definition sem_post :: "event_ptr \<Rightarrow> app_state \<Rightarrow> app_state option" where
  "sem_post e s = do { (err, k) \<leftarrow> OSSemPost e (os s); Some (s\<lparr> os := k \<rparr>) }"

definition q_post :: "event_ptr \<Rightarrow> msg \<Rightarrow> app_state \<Rightarrow> app_state option" where
  "q_post e m s = do { (err, k) \<leftarrow> OSQPost e m (os s); Some (s\<lparr> os := k \<rparr>) }"

definition sem_pend :: "event_ptr \<Rightarrow> INT16U \<Rightarrow> app_state \<Rightarrow> (bool \<times> app_state) option" where
  "sem_pend e timeout s = do {
     (returned, perr, k) \<leftarrow> OSSemPend_enter e timeout (Some 0) (os s);
     Some (returned, s\<lparr> os := k \<rparr>)
   }"

definition sem_pend_return :: "event_ptr \<Rightarrow> app_state \<Rightarrow> app_state option" where
  "sem_pend_return e s = do {
     i \<leftarrow> e;
     (err, k) \<leftarrow> OSSemPend_resume i (os s);
     Some (s\<lparr> os := k \<rparr>)
   }"

definition q_pend :: "event_ptr \<Rightarrow> INT16U \<Rightarrow> app_state \<Rightarrow> (msg option \<times> app_state) option" where
  "q_pend e timeout s = do {
     (returned, m, perr, k) \<leftarrow> OSQPend_enter e timeout (Some 0) (os s);
     Some (if returned then Some m else None, s\<lparr> os := k \<rparr>)
   }"

definition q_pend_return :: "event_ptr \<Rightarrow> app_state \<Rightarrow> (msg \<times> app_state) option" where
  "q_pend_return e s = do {
     i \<leftarrow> e;
     (m, err, k) \<leftarrow> OSQPend_resume i (os s);
     Some (m, s\<lparr> os := k \<rparr>)
   }"

definition q_accept :: "event_ptr \<Rightarrow> app_state \<Rightarrow> (msg \<times> app_state) option" where
  "q_accept e s = do {
     (m, perr, k) \<leftarrow> OSQAccept e (Some 0) (os s);
     Some (m, s\<lparr> os := k \<rparr>)
   }"

text \<open>A call of \<open>OSTimeDlyHMSM\<close> whose delay fits into one \<open>OSTimeDly\<close>, as all in the tasks do.\<close>

definition time_dly_hmsm :: "INT8U \<Rightarrow> INT8U \<Rightarrow> INT8U \<Rightarrow> INT16U \<Rightarrow> app_state \<Rightarrow> app_state option" where
  "time_dly_hmsm h m sec ms s =
     (case OSTimeDlyHMSM h m sec ms (os s) of
        (err, []) \<Rightarrow> Some s
      | (err, [d]) \<Rightarrow> do { k \<leftarrow> OSTimeDly d (os s); Some (s\<lparr> os := k \<rparr>) }
      | _ \<Rightarrow> None)"

text \<open>
  The idiom with which the tasks and callbacks raise a flag:
  \<open>if (OSSemAccept(flag) == 0) OSSemPost(flag);\<close>
\<close>

definition raise_flag :: "event_ptr \<Rightarrow> app_state \<Rightarrow> app_state option" where
  "raise_flag e s =
     (let (cnt, s) = sem_accept e s in
      if cnt = SEM_FLAG_NO_ERROR then sem_post e s else Some s)"

text \<open>Allocation of an alarm. The allocator is given by the address it picks for a set of blocks in
  use; 0 is null.\<close>

definition malloc_alarm :: "(nat set \<Rightarrow> nat) \<Rightarrow> app_state \<Rightarrow> alarm_ptr \<times> app_state" where
  "malloc_alarm malloc s =
     (let a = malloc (heap_live s) in
      if a = 0 then (None, s) else (Some a, s\<lparr> heap_live := insert a (heap_live s) \<rparr>))"

end
