(* ===== verification/Throttle_Control.thy ===== *)
theory Throttle_Control imports App_State begin

text \<open>
  \<open>throttle_control_task.c\<close>: the motor outputs, the watchdog and sensor comparison alarms with their
  callbacks, the position and engine speed regulators, and the task itself as one function for each
  stretch of code between two calls at which the task can lose the processor;
  \<open>throttle_control_step\<close> runs the stretch at which the task goes on. The allocator is the argument
  \<open>malloc\<close>. The properties are in \<open>Throttle_Correct\<close>.
\<close>

section \<open>Motor outputs\<close>

text \<open>The two modules of the motor and the registers.\<close>

type_synonym motor = "pwm_gen_module \<times> pwm_gen_module \<times> mmio"

definition set_throttle_by_duty_cycle :: "INT16U \<Rightarrow> motor \<Rightarrow> motor" where
  "set_throttle_by_duty_cycle duty = (\<lambda>(open_pwm, close_pwm, io).
     let (open_pwm, io) = set_duty_cycle duty (open_pwm, io);
         (close_pwm, io) = set_duty_cycle PWM_DUTY_CYCLE_HIGH (close_pwm, io) in
     (open_pwm, close_pwm, io))"

definition increase_throttle_by_feedback :: "INT16U \<Rightarrow> INT16U \<Rightarrow> motor \<Rightarrow> INT16U \<times> motor" where
  "increase_throttle_by_feedback duty resolution m =
     (let new_duty_cycle = duty - resolution;
          new_duty_cycle = (if new_duty_cycle > MOTOR_PWM_DUTY_CYCLE_FULLY_CLOSE
                            then MOTOR_PWM_DUTY_CYCLE_FULLY_CLOSE else new_duty_cycle);
          new_duty_cycle = (if new_duty_cycle < MOTOR_PWM_DUTY_CYCLE_FULLY_OPEN
                            then MOTOR_PWM_DUTY_CYCLE_FULLY_OPEN else new_duty_cycle) in
      (new_duty_cycle, set_throttle_by_duty_cycle new_duty_cycle m))"

definition decrease_throttle :: "motor \<Rightarrow> motor" where
  "decrease_throttle = (\<lambda>(open_pwm, close_pwm, io).
     let (close_pwm, io) = set_duty_cycle PWM_DUTY_CYCLE_HIGH (close_pwm, io);
         (open_pwm, io) = set_duty_cycle PWM_DUTY_CYCLE_HIGH (open_pwm, io) in
     (open_pwm, close_pwm, io))"

section \<open>Regulators\<close>

text \<open>The result says whether the target is reached; the current duty cycle goes in and comes out.\<close>

definition set_new_throttle_position_by_tps ::
  "INT16U \<Rightarrow> INT16U \<Rightarrow> INT16U \<Rightarrow> motor \<Rightarrow> BOOL \<times> INT16U \<times> motor" where
  "set_new_throttle_position_by_tps duty expected_tps curr_tps m =
     (if TPS_VALUE_DIFFER_FROM_EXPECTED curr_tps expected_tps = FALSE then
        (TRUE, MOTOR_PWM_DUTY_CYCLE_FULLY_CLOSE, set_throttle_by_duty_cycle MOTOR_PWM_DUTY_CYCLE_FULLY_CLOSE m)
      else if curr_tps > expected_tps then (FALSE, duty, decrease_throttle m)
      else
        let (duty, m) = increase_throttle_by_feedback duty MOTOR_PWM_DUTY_CYCLE_RESOLUTION m in
        (FALSE, duty, m))"

definition set_new_throttle_position_by_rpm ::
  "INT16U \<Rightarrow> INT16U \<Rightarrow> INT16U \<Rightarrow> INT32U \<Rightarrow> motor \<Rightarrow> BOOL \<times> INT16U \<times> INT32U \<times> motor" where
  "set_new_throttle_position_by_rpm duty target_rpm curr_rpm delay_counter m =
     (if RPM_VALUE_DIFFER_FROM_EXPECTED curr_rpm target_rpm = FALSE then
        (TRUE, MOTOR_PWM_DUTY_CYCLE_FULLY_CLOSE, delay_counter,
         set_throttle_by_duty_cycle MOTOR_PWM_DUTY_CYCLE_FULLY_CLOSE m)
      else if curr_rpm > target_rpm then
        if RPM_MATCHING_DELAY_COUNT = delay_counter then (FALSE, duty, 0, decrease_throttle m)
        else (FALSE, duty, delay_counter + 1, m)
      else
        if RPM_MATCHING_DELAY_COUNT = delay_counter then
          let (duty, m) = increase_throttle_by_feedback duty MOTOR_PWM_DUTY_CYCLE_RESOLUTION_HIGH m in
          (FALSE, duty, 0, m)
        else (FALSE, duty, delay_counter + 1, m))"

section \<open>Signals\<close>

definition signal_shift_start :: "event_ptr \<Rightarrow> app_state \<Rightarrow> app_state option" where
  "signal_shift_start result_q s = q_post result_q SHIFT_MATCHING_RESULT_OK s"

definition signal_shift_failure :: "event_ptr \<Rightarrow> app_state \<Rightarrow> app_state option" where
  "signal_shift_failure result_q s = q_post result_q SHIFT_MATCHING_RESULT_FAIL s"

definition signal_exit_shift_matching :: "app_state \<Rightarrow> app_state option" where
  "signal_exit_shift_matching s =
     (let (cnt, s) = sem_accept (exit_shift_matching_flag s) s in
      if cnt = SHIFT_MATCHING_IN_PROGRESS then sem_post (exit_shift_matching_flag s) s else Some s)"

section \<open>Alarm callbacks\<close>

text \<open>\<open>clean_alarm\<close> on a local copy of the context pointer.\<close>

definition clean_context :: "nat \<Rightarrow> app_state \<Rightarrow> app_state" where
  "clean_context context s = snd (clean_alarm (if context = 0 then None else Some context) s)"

definition watchdog_throttle_position_callback :: "nat \<Rightarrow> app_state \<Rightarrow> (INT32U \<times> app_state) option" where
  "watchdog_throttle_position_callback context s = do {
     let s = clean_context context s;
     s \<leftarrow> raise_flag (motor_failure_flag s) s;
     s \<leftarrow> q_post (failure_msg_q s) ERR_EXPECTED_THROTTLE_POS_MISMATCH s;
     Some (0, s)
   }"

definition watchdog_rpm_matching_callback :: "nat \<Rightarrow> app_state \<Rightarrow> (INT32U \<times> app_state) option" where
  "watchdog_rpm_matching_callback context s = do {
     let s = clean_context context s;
     s \<leftarrow> signal_shift_failure (matching_result_q s) s;
     Some (0, s)
   }"

definition apps_value_comp_callback :: "nat \<Rightarrow> app_state \<Rightarrow> (INT32U \<times> app_state) option" where
  "apps_value_comp_callback context s =
     (let s = alt_up_de0_nano_adc_update s;
          apps_1_reading = ucast (alt_up_de0_nano_adc_read APPS_1_ADC_CHANNEL s);
          apps_2_reading = ucast (alt_up_de0_nano_adc_read APPS_2_ADC_CHANNEL s);
          s = clean_context context s in
      if APPS_VALUE_MISMATCH apps_1_reading apps_2_reading \<noteq> FALSE then do {
        s \<leftarrow> raise_flag (apps_failure_flag s) s;
        s \<leftarrow> q_post (failure_msg_q s) ERR_APPS_READING_MISMATCH s;
        Some (0, s)
      }
      else Some (0, s))"

definition tps_value_comp_callback :: "nat \<Rightarrow> app_state \<Rightarrow> (INT32U \<times> app_state) option" where
  "tps_value_comp_callback context s =
     (let s = alt_up_de0_nano_adc_update s;
          tps_1_reading = alt_up_de0_nano_adc_read TPS_1_ADC_CHANNEL s;
          tps_2_reading = alt_up_de0_nano_adc_read TPS_2_ADC_CHANNEL s;
          s = clean_context context s in
      if TPS_VALUE_MISMATCH tps_1_reading tps_2_reading \<noteq> FALSE then do {
        s \<leftarrow> raise_flag (tps_failure_flag s) s;
        s \<leftarrow> q_post (failure_msg_q s) ERR_TPS_READING_MISMATCH s;
        Some (0, s)
      }
      else Some (0, s))"

section \<open>Sensor checks\<close>

text \<open>Starting an alarm whose context is the alarm itself.\<close>

definition start_own_alarm :: "alarm_ptr \<Rightarrow> INT32U \<Rightarrow> callback \<Rightarrow> app_state \<Rightarrow> app_state" where
  "start_own_alarm alarm nt callback s =
     snd (alt_alarm_start alarm nt callback (case alarm of None \<Rightarrow> 0 | Some a \<Rightarrow> a) s)"

definition check_tps_values :: "(nat set \<Rightarrow> nat) \<Rightarrow> INT16U \<Rightarrow> INT16U \<Rightarrow> app_state \<Rightarrow> app_state" where
  "check_tps_values malloc tps_1_reading tps_2_reading s =
     (if TPS_VALUE_MISMATCH (ucast tps_1_reading) (ucast tps_2_reading) \<noteq> FALSE then
        if tps_check_alarm s = None then
          let (a, s) = malloc_alarm malloc s;
              s = s\<lparr> tps_check_alarm := a \<rparr> in
          start_own_alarm (tps_check_alarm s) SENSOR_VAL_COMP_DELAY_TICKS Tps_Value_Comp s
        else s
      else
        let (p, s) = clean_alarm (tps_check_alarm s) s in s\<lparr> tps_check_alarm := p \<rparr>)"

definition check_apps_values :: "(nat set \<Rightarrow> nat) \<Rightarrow> INT16U \<Rightarrow> INT16U \<Rightarrow> app_state \<Rightarrow> app_state" where
  "check_apps_values malloc apps_1_reading apps_2_reading s =
     (if APPS_VALUE_MISMATCH apps_1_reading apps_2_reading \<noteq> FALSE then
        if apps_check_alarm s = None then
          let (a, s) = malloc_alarm malloc s;
              s = s\<lparr> apps_check_alarm := a \<rparr> in
          start_own_alarm (apps_check_alarm s) SENSOR_VAL_COMP_DELAY_TICKS Apps_Value_Comp s
        else s
      else
        let (p, s) = clean_alarm (apps_check_alarm s) s in s\<lparr> apps_check_alarm := p \<rparr>)"

section \<open>Flags and switches\<close>

text \<open>\<open>while (OSSemAccept(flag) != 0);\<close>\<close>

partial_function (option) drain_flag :: "event_ptr \<Rightarrow> app_state \<Rightarrow> app_state option" where
  "drain_flag e s =
     (let (cnt, s) = sem_accept e s in
      if cnt \<noteq> SEM_FLAG_NO_ERROR then drain_flag e s else Some s)"

definition reset_failure_flags :: "app_state \<Rightarrow> app_state option" where
  "reset_failure_flags s = do {
     s \<leftarrow> drain_flag (tps_failure_flag s) s;
     s \<leftarrow> drain_flag (apps_failure_flag s) s;
     s \<leftarrow> drain_flag (motor_failure_flag s) s;
     drain_flag (throttle_task_external_failure_flag s) s
   }"

definition is_slip_control_enabled :: "app_state \<Rightarrow> BOOL" where
  "is_slip_control_enabled s =
     (if switches s AND SWITCH_ENABLE_SLIP_CONTROL_MASK = SWITCH_ENABLE_SLIP_CONTROL then TRUE else FALSE)"

definition is_demo_slip_control_enabled :: "app_state \<Rightarrow> BOOL" where
  "is_demo_slip_control_enabled s =
     (if switches s AND SWITCH_ENABLE_SLIP_CONTROL_DEMO_MASK = SWITCH_ENABLE_SLIP_CONTROL_DEMO
      then TRUE else FALSE)"

section \<open>The task\<close>

definition motor_of :: "app_state \<Rightarrow> motor" where
  "motor_of s = (pwm_throttle_open (thr s), pwm_throttle_close (thr s), io s)"

definition set_motor :: "motor \<Rightarrow> app_state \<Rightarrow> app_state" where
  "set_motor m s = s\<lparr> io := snd (snd m),
     thr := (thr s)\<lparr> pwm_throttle_open := fst m, pwm_throttle_close := fst (snd m) \<rparr> \<rparr>"

definition set_thr :: "(throttle_vars \<Rightarrow> throttle_vars) \<Rightarrow> app_state \<Rightarrow> app_state" where
  "set_thr f s = s\<lparr> thr := f (thr s) \<rparr>"

definition go_throttle :: "throttle_pc \<Rightarrow> app_state \<Rightarrow> app_state" where
  "go_throttle pc = set_thr (\<lambda>t. t\<lparr> t_pc := pc \<rparr>)"

definition clean_watchdog_position :: "app_state \<Rightarrow> app_state" where
  "clean_watchdog_position s =
     (let (p, s) = clean_alarm (watchdog_throttle_position (thr s)) s in
      set_thr (\<lambda>t. t\<lparr> watchdog_throttle_position := p \<rparr>) s)"

definition clean_watchdog_rpm :: "app_state \<Rightarrow> app_state" where
  "clean_watchdog_rpm s =
     (let (p, s) = clean_alarm (watchdog_rpm_matching (thr s)) s in
      set_thr (\<lambda>t. t\<lparr> watchdog_rpm_matching := p \<rparr>) s)"

text \<open>The tests at the head of the loop: the first raised flag in the order of the code, consumed.\<close>

definition take_failure :: "app_state \<Rightarrow> bool \<times> app_state" where
  "take_failure s =
     (let (cnt, s) = sem_accept (motor_failure_flag s) s in
      if cnt \<noteq> SEM_FLAG_NO_ERROR then (True, s)
      else let (cnt, s) = sem_accept (apps_failure_flag s) s in
      if cnt \<noteq> SEM_FLAG_NO_ERROR then (True, s)
      else let (cnt, s) = sem_accept (tps_failure_flag s) s in
      if cnt \<noteq> SEM_FLAG_NO_ERROR then (True, s)
      else let (cnt, s) = sem_accept (throttle_task_external_failure_flag s) s in
      (cnt \<noteq> SEM_FLAG_NO_ERROR, s))"

definition throttle_loop_head :: "app_state \<Rightarrow> app_state option" where
  "throttle_loop_head s =
     (let (failed, s) = take_failure s in
      if failed then do {
        let s = set_motor (decrease_throttle (motor_of s)) s;
        (returned, s) \<leftarrow> sem_pend (throttle_task_failure_resolved_flag s) Q_TIMEOUT_WAIT_FOREVER s;
        if returned then do { s \<leftarrow> reset_failure_flags s; Some (go_throttle T_Sensors s) }
        else Some (go_throttle T_Failure_Wait s)
      }
      else Some (go_throttle T_Sensors s))"

definition throttle_failure_resolved :: "app_state \<Rightarrow> app_state option" where
  "throttle_failure_resolved s = do {
     s \<leftarrow> sem_pend_return (throttle_task_failure_resolved_flag s) s;
     s \<leftarrow> reset_failure_flags s;
     Some (go_throttle T_Sensors s)
   }"

text \<open>The position sensors, the engine sound, and the engine speed regulator while a shift is
  being matched.\<close>

definition throttle_sensors :: "(nat set \<Rightarrow> nat) \<Rightarrow> app_state \<Rightarrow> app_state option" where
  "throttle_sensors malloc s = do {
     let s = alt_up_de0_nano_adc_update s;
     let tps_1_reading = (ucast (alt_up_de0_nano_adc_read TPS_1_ADC_CHANNEL s) :: INT16U);
     let tps_2_reading = (ucast (alt_up_de0_nano_adc_read TPS_2_ADC_CHANNEL s) :: INT16U);
     let s = check_tps_values malloc tps_1_reading tps_2_reading s;
     let s = set_thr (\<lambda>t. t\<lparr> curr_tps_reading := tps_1_reading \<rparr>) s;
     deg \<leftarrow> get_throttle_open_deg_from_tps (tables s) tps_1_reading;
     let (m, r) = generate_engine_sound deg (pwm_engine_sound (thr s), io s);
     let s = set_thr (\<lambda>t. t\<lparr> pwm_engine_sound := m \<rparr>) (s\<lparr> io := r \<rparr>);
     let s = alt_up_de0_nano_adc_update s;
     if watchdog_rpm_matching (thr s) \<noteq> None then do {
       let (reached, duty, counter, m) = set_new_throttle_position_by_rpm (curr_duty_cycle (thr s))
         (ucast (expected_rpm (thr s))) (get_RPM (rpm_decoder s)) (rpm_matching_delay_counter (thr s)) (motor_of s);
       let s = set_thr (\<lambda>t. t\<lparr> curr_duty_cycle := duty, rpm_matching_delay_counter := counter \<rparr>) (set_motor m s);
       if reached = FALSE then Some (go_throttle T_Loop s)
       else do {
         let s = clean_watchdog_rpm (set_thr (\<lambda>t. t\<lparr> rpm_matching_delay_counter := 0 \<rparr>) s);
         s \<leftarrow> signal_shift_start (matching_result_q s) s;
         Some (go_throttle T_Signalled s)
       }
     }
     else Some (go_throttle T_Wheels s)
   }"

definition throttle_signalled :: "app_state \<Rightarrow> app_state option" where
  "throttle_signalled s = do {
     (returned, s) \<leftarrow> sem_pend (exit_shift_matching_flag s) Q_TIMEOUT_WAIT_FOREVER s;
     Some (go_throttle (if returned then T_Wheels else T_Exit_Wait) s)
   }"

definition throttle_exit_wait :: "app_state \<Rightarrow> app_state option" where
  "throttle_exit_wait s = do {
     s \<leftarrow> sem_pend_return (exit_shift_matching_flag s) s;
     Some (go_throttle T_Wheels s)
   }"

text \<open>Taking a shift request: the engine speed for the new gear, and its watchdog. A request that has been freed must not
  be read.\<close>

definition shift_request :: "msg \<Rightarrow> app_state \<Rightarrow> shift_req option" where
  "shift_request ptr s = (if ptr \<in> req_live s then Some (reqs s ptr) else None)"

definition start_matching :: "(nat set \<Rightarrow> nat) \<Rightarrow> msg \<Rightarrow> app_state \<Rightarrow> app_state option" where
  "start_matching malloc ptr s = do {
     r \<leftarrow> shift_request ptr s;
     let s = set_thr (\<lambda>t. t\<lparr> expected_rpm :=
                ucast (get_new_rpm_needed (get_RPM (rpm_decoder s)) (req_curr_gear r) (req_new_gear r)) \<rparr>) s;
     let s = clean_watchdog_rpm s;
     let (a, s) = malloc_alarm malloc s;
     let s = set_thr (\<lambda>t. t\<lparr> watchdog_rpm_matching := a \<rparr>) s;
     Some (start_own_alarm a MOTOR_RPM_DRIVE_DELAY_TICKS Watchdog_Rpm_Matching s)
   }"

text \<open>The pedal and the throttle position: the rest of the loop body.\<close>

definition throttle_pedal :: "(nat set \<Rightarrow> nat) \<Rightarrow> app_state \<Rightarrow> app_state option" where
  "throttle_pedal malloc s = do {
     let s = alt_up_de0_nano_adc_update s;
     let apps_1_reading = (ucast (alt_up_de0_nano_adc_read APPS_1_ADC_CHANNEL s) :: INT16U);
     let apps_2_reading = (ucast (alt_up_de0_nano_adc_read APPS_2_ADC_CHANNEL s) :: INT16U);
     s \<leftarrow> (if APPS_VALUE_CHANGED apps_1_reading (last_apps_1_reading (thr s)) \<noteq> FALSE then do {
            let s = set_thr (\<lambda>t. t\<lparr> last_apps_1_reading := apps_1_reading \<rparr>) s;
            let s = clean_watchdog_position s;
            let s = check_apps_values malloc apps_1_reading apps_2_reading s;
            expected \<leftarrow> get_tps_from_apps (tables s) apps_1_reading;
            let s = set_thr (\<lambda>t. t\<lparr> expected_tps_reading := expected \<rparr>) s;
            let (a, s) = malloc_alarm malloc s;
            let s = set_thr (\<lambda>t. t\<lparr> watchdog_throttle_position := a \<rparr>) s;
            Some (start_own_alarm a MOTOR_DRIVE_DELAY_TICKS Watchdog_Throttle_Position s)
          } else Some s);
     let tps_1_reading = (ucast (alt_up_de0_nano_adc_read TPS_1_ADC_CHANNEL s) :: INT16U);
     let tps_2_reading = (ucast (alt_up_de0_nano_adc_read TPS_2_ADC_CHANNEL s) :: INT16U);
     let s = check_tps_values malloc tps_1_reading tps_2_reading s;
     let (reached, duty, m) = set_new_throttle_position_by_tps (curr_duty_cycle (thr s))
       (expected_tps_reading (thr s)) (curr_tps_reading (thr s)) (motor_of s);
     let s = set_thr (\<lambda>t. t\<lparr> curr_duty_cycle := duty \<rparr>) (set_motor m s);
     let s = (if reached = TRUE then clean_watchdog_position s else s);
     s \<leftarrow> time_dly_hmsm THROTTLE_CONTROL_TASK_DELAY_HOURS THROTTLE_CONTROL_TASK_DELAY_MINUTES
            THROTTLE_CONTROL_TASK_DELAY_SECONDS THROTTLE_CONTROL_TASK_DELAY_MILLISEC s;
     Some (go_throttle T_Loop s)
   }"

text \<open>The wheel speeds: slip control, then a shift request, then the pedal.\<close>

definition throttle_wheels :: "(nat set \<Rightarrow> nat) \<Rightarrow> app_state \<Rightarrow> app_state option" where
  "throttle_wheels malloc s = do {
     let s = alt_up_de0_nano_adc_update s;
     let wheel_speed_left = (ucast (alt_up_de0_nano_adc_read WS_1_ADC_CHANNEL s) :: INT16U);
     let wheel_speed_right = (ucast (alt_up_de0_nano_adc_read WS_2_ADC_CHANNEL s) :: INT16U);
     let wheel_speed_right = (if is_demo_slip_control_enabled s = TRUE then (wheel_speed_right + 1) * 2
                              else wheel_speed_right);
     if WS_VALUE_MISMATCH wheel_speed_left wheel_speed_right \<noteq> FALSE \<and> is_slip_control_enabled s = TRUE then
       if slip_control_mode (thr s) = TRUE then Some (go_throttle T_Loop s)
       else
         let s = set_leds WSS_ACTIVE_LED (clean_watchdog_position s);
             s = set_thr (\<lambda>t. t\<lparr> slip_control_mode := TRUE \<rparr>) s;
             (reached, duty, m) = set_new_throttle_position_by_tps (curr_duty_cycle (thr s))
               SLIP_CONTROL_THROTTLE_POS (curr_tps_reading (thr s)) (motor_of s);
             s = set_thr (\<lambda>t. t\<lparr> curr_duty_cycle := duty \<rparr>) (set_motor m s) in
         Some (go_throttle T_Loop s)
     else do {
       let s = set_leds NO_ERROR_INDICATION_LED (set_thr (\<lambda>t. t\<lparr> slip_control_mode := FALSE \<rparr>) s);
       if watchdog_rpm_matching (thr s) = None then do {
         (ptr, s) \<leftarrow> q_accept (shift_matching_q s) s;
         if ptr \<noteq> 0 then do { s \<leftarrow> start_matching malloc ptr s; Some (go_throttle T_Loop s) }
         else throttle_pedal malloc s
       }
       else throttle_pedal malloc s
     }
   }"

definition throttle_control_step :: "(nat set \<Rightarrow> nat) \<Rightarrow> app_state \<Rightarrow> app_state option" where
  "throttle_control_step malloc s =
     (case t_pc (thr s) of
        T_Loop \<Rightarrow> throttle_loop_head s
      | T_Failure_Wait \<Rightarrow> throttle_failure_resolved s
      | T_Sensors \<Rightarrow> throttle_sensors malloc s
      | T_Signalled \<Rightarrow> throttle_signalled s
      | T_Exit_Wait \<Rightarrow> throttle_exit_wait s
      | T_Wheels \<Rightarrow> throttle_wheels malloc s)"

end
