(* ===== verification/Throttle_Correct.thy ===== *)
theory Throttle_Correct imports Throttle_Control begin

text \<open>
  The regulators of the throttle control task: they act in the right direction, within the limits of the
  motor, and the registers follow. The properties of the task itself are in \<open>Task_Correct\<close>.
\<close>

section \<open>The motor in service\<close>

text \<open>Both modules are in step with their registers and no register belongs to both.\<close>

definition motor_ok :: "motor \<Rightarrow> bool" where
  "motor_ok = (\<lambda>(open_pwm, close_pwm, r). pwm_in_step (open_pwm, r) \<and> pwm_in_step (close_pwm, r) \<and>
     duty_base open_pwm \<notin> {duty_base close_pwm, period_base close_pwm} \<and>
     duty_base close_pwm \<noteq> period_base open_pwm)"

definition open_duty :: "motor \<Rightarrow> nat" where
  "open_duty m = unat (duty_cycle (fst m))"

definition close_duty :: "motor \<Rightarrow> nat" where
  "close_duty m = unat (duty_cycle (fst (snd m)))"

lemmas motor_addresses =
  PWM_GENERATOR_THROTTLE_OPEN_AVALON_SLAVE_PERIOD_BASE_def PWM_GENERATOR_THROTTLE_OPEN_AVALON_SLAVE_DUTY_BASE_def
  PWM_GENERATOR_THROTTLE_OPEN_AVALON_SLAVE_CONTROL_BASE_def PWM_GENERATOR_THROTTLE_CLOSE_AVALON_SLAVE_PERIOD_BASE_def
  PWM_GENERATOR_THROTTLE_CLOSE_AVALON_SLAVE_DUTY_BASE_def PWM_GENERATOR_THROTTLE_CLOSE_AVALON_SLAVE_CONTROL_BASE_def

text \<open>The on-times in the hardware registers.\<close>

definition open_register :: "motor \<Rightarrow> nat" where
  "open_register m = duty_register (fst m, snd (snd m))"

definition close_register :: "motor \<Rightarrow> nat" where
  "close_register m = duty_register (fst (snd m), snd (snd m))"

lemma set_duty_cycle_frame:
  "duty_base (fst (set_duty_cycle c (m, r))) = duty_base m"
  "period_base (fst (set_duty_cycle c (m, r))) = period_base m"
  "a \<noteq> duty_base m \<Longrightarrow> reg32 (snd (set_duty_cycle c (m, r))) a = reg32 r a"
  "reg8 (snd (set_duty_cycle c (m, r))) = reg8 r"
  by (simp_all add: set_duty_cycle_def Let_def)

lemma pwm_in_step_other:
  assumes "pwm_in_step (m, r)" "duty_base n \<notin> {duty_base m, period_base m}"
  shows "pwm_in_step (m, snd (set_duty_cycle c (n, r)))"
proof -
  have "period_base m \<noteq> duty_base n" "duty_base m \<noteq> duty_base n" using assms(2) by auto
  then show ?thesis
    using assms(1) set_duty_cycle_frame(3) [of _ n c r] set_duty_cycle_frame(4) [of c n r]
    by (simp add: pwm_in_step_def)
qed

lemma motor_registers:
  assumes "motor_ok m"
  shows "open_register m = unat (period (fst m)) * open_duty m div 1000"
    and "close_register m = unat (period (fst (snd m))) * close_duty m div 1000"
  using assms by (auto simp: motor_ok_def open_register_def close_register_def duty_register_def
      pwm_in_step_def open_duty_def close_duty_def)

lemma decrease_is_set: "motor_ok m \<Longrightarrow> decrease_throttle m = set_throttle_by_duty_cycle 1000 m"
proof -
  assume ok: "motor_ok m"
  obtain p q r where m: "m = (p, q, r)" by (cases m) auto
  have d: "duty_base p \<noteq> duty_base q" using ok m by (auto simp: motor_ok_def)
  then show ?thesis
    unfolding m decrease_throttle_def set_throttle_by_duty_cycle_def
    by (auto simp: set_duty_cycle_def Let_def fun_upd_twist intro!: mmio.equality split: prod.splits)
qed

lemma set_throttle_ok:
  assumes "motor_ok m"
  shows "motor_ok (set_throttle_by_duty_cycle c m)"
    and "open_duty (set_throttle_by_duty_cycle c m) = min (unat c) 1000"
    and "close_duty (set_throttle_by_duty_cycle c m) = 1000"
proof -
  obtain p q r where m: "m = (p, q, r)" by (cases m) auto
  have ok: "pwm_in_step (p, r)" "pwm_in_step (q, r)" "duty_base p \<notin> {duty_base q, period_base q}"
    "duty_base q \<noteq> period_base p" using assms m by (auto simp: motor_ok_def)
  obtain p1 r1 where 1: "set_duty_cycle c (p, r) = (p1, r1)" by fastforce
  obtain q2 r2 where 2: "set_duty_cycle 1000 (q, r1) = (q2, r2)" by fastforce
  have s: "set_throttle_by_duty_cycle c m = (p1, q2, r2)" by (simp add: m set_throttle_by_duty_cycle_def 1 2)
  have p1: "pwm_in_step (p1, r1)" "unat (duty_cycle p1) = clamp_percent (unat c)"
    "duty_base p1 = duty_base p" "period_base p1 = period_base p"
    using set_duty_cycle_in_step [OF ok(1), of c] set_duty_cycle_frame(1,2) [of c p r] 1 by simp_all
  have q1: "pwm_in_step (q, r1)" using pwm_in_step_other [OF ok(2,3), of c] 1 by simp
  have q2: "pwm_in_step (q2, r2)" "unat (duty_cycle q2) = clamp_percent 1000"
    "duty_base q2 = duty_base q" "period_base q2 = period_base q"
    using set_duty_cycle_in_step [OF q1, of 1000] set_duty_cycle_frame(1,2) [of 1000 q r1] 2 by simp_all
  have "pwm_in_step (p1, r2)" using pwm_in_step_other [OF p1(1), of q 1000] ok(3,4) p1(3,4) 2 by auto
  then show "motor_ok (set_throttle_by_duty_cycle c m)" using q2 p1(3,4) ok(3,4) by (auto simp: s motor_ok_def)
  show "open_duty (set_throttle_by_duty_cycle c m) = min (unat c) 1000"
    "close_duty (set_throttle_by_duty_cycle c m) = 1000"
    using p1(2) q2(2) by (simp_all add: s open_duty_def close_duty_def clamp_percent_def)
qed

lemma decrease_ok:
  assumes "motor_ok m"
  shows "motor_ok (decrease_throttle m)" "open_duty (decrease_throttle m) = 1000"
    "close_duty (decrease_throttle m) = 1000"
  using set_throttle_ok [OF assms, of 1000] by (simp_all add: decrease_is_set [OF assms])

section \<open>The regulators\<close>

definition duty_ok :: "INT16U \<Rightarrow> bool" where
  "duty_ok d \<longleftrightarrow> 300 \<le> unat d \<and> unat d \<le> 580"

lemma increase_ok:
  assumes "motor_ok m" "duty_ok d" "unat res \<le> 300"
    and "increase_throttle_by_feedback d res m = (d', m')"
  shows "unat d' = max 300 (unat d - unat res)" "duty_ok d'" "motor_ok m'" "open_duty m' = unat d'"
    "close_duty m' = 1000"
proof -
  have "res \<le> d" using assms(2,3) by (simp add: duty_ok_def word_le_unat)
  then have u: "unat (d - res) = unat d - unat res" by (rule unat_sub_word)
  then have le: "\<not> 580 < d - res" using assms(2) by (auto simp: word_less_unat duty_ok_def)
  have d': "d' = (if d - res < 300 then 300 else d - res)" and m': "m' = set_throttle_by_duty_cycle d' m"
    using assms(4) le by (auto simp: increase_throttle_by_feedback_def Let_def)
  show v: "unat d' = max 300 (unat d - unat res)" using u by (auto simp: d' word_less_unat)
  then show "duty_ok d'" using assms(2) by (auto simp: duty_ok_def)
  then have "min (unat d') 1000 = unat d'" by (simp add: duty_ok_def)
  then show "motor_ok m'" "open_duty m' = unat d'" "close_duty m' = 1000"
    using set_throttle_ok [OF assms(1), of d'] by (simp_all add: m')
qed

text \<open>Two readings are at most \<open>tol\<close> apart.\<close>

definition near :: "nat \<Rightarrow> INT16U \<Rightarrow> INT16U \<Rightarrow> bool" where
  "near tol a b \<longleftrightarrow> unat a \<le> unat b + tol \<and> unat b \<le> unat a + tol"

lemma tps_differ: "TPS_VALUE_DIFFER_FROM_EXPECTED a b = FALSE \<longleftrightarrow> near 100 a b"
  unfolding TPS_VALUE_DIFFER_FROM_EXPECTED_def changed_by_threshold_cases changed_by_threshold_nat near_def
  by (simp add: max_def min_def) arith

lemma rpm_differ: "RPM_VALUE_DIFFER_FROM_EXPECTED a b = FALSE \<longleftrightarrow> near 200 a b"
  unfolding RPM_VALUE_DIFFER_FROM_EXPECTED_def changed_by_threshold_cases changed_by_threshold_nat near_def
  by (simp add: max_def min_def) arith

lemma set_new_by_tps_ok:
  assumes m: "motor_ok m" and d: "duty_ok duty"
    and r: "set_new_throttle_position_by_tps duty expected curr_tps m = (reached, duty', m')"
  shows "motor_ok m' \<and> duty_ok duty' \<and> close_duty m' = 1000 \<and>
     (if near 100 curr_tps expected
        then reached = TRUE \<and> unat duty' = 580 \<and> open_duty m' = 580
      else if unat expected < unat curr_tps
        then reached = FALSE \<and> duty' = duty \<and> open_duty m' = 1000
      else reached = FALSE \<and> unat duty' = max 300 (unat duty - 10) \<and> open_duty m' = unat duty')"
proof -
  note differ = tps_differ [of curr_tps expected]
  consider (near) "near 100 curr_tps expected"
    | (over) "\<not> near 100 curr_tps expected" "expected < curr_tps"
    | (under) "\<not> near 100 curr_tps expected" "\<not> expected < curr_tps" by blast
  then show ?thesis
  proof cases
    case near
    then have "reached = TRUE" "duty' = 580" "m' = set_throttle_by_duty_cycle 580 m"
      using r differ by (auto simp: set_new_throttle_position_by_tps_def)
    then show ?thesis using near set_throttle_ok [OF m, of 580] by (simp add: duty_ok_def)
  next
    case over
    then have "reached = FALSE" "duty' = duty" "m' = decrease_throttle m"
      using r differ by (auto simp: set_new_throttle_position_by_tps_def)
    then show ?thesis using over d decrease_ok [OF m] by (simp add: word_less_unat)
  next
    case under
    then have "reached = FALSE" "increase_throttle_by_feedback duty 10 m = (duty', m')"
      using r differ by (auto simp: set_new_throttle_position_by_tps_def split: prod.splits)
    then show ?thesis using under increase_ok [OF m d, of 10] by (simp add: word_less_unat)
  qed
qed

text \<open>C8: The position regulator drives the throttle towards the pedal's target and never outside the
  motor's limits. Within 100 counts of the target it reports success and sets the closing duty cycle
  580; above the target it closes the throttle (full-scale duty cycle, which is no torque); below it
  it opens by one step of 10, down to the limit 300. In each case the hardware registers hold the
  on-times of the chosen duty cycles.\<close>

theorem position_regulator:
  assumes m: "motor_ok m" and d: "duty_ok duty"
    and r: "set_new_throttle_position_by_tps duty expected curr_tps m = (reached, duty', m')"
  shows "motor_ok m' \<and> duty_ok duty' \<and>
     close_register m' = unat (period (fst (snd m'))) \<and>
     open_register m' = unat (period (fst m')) * open_duty m' div 1000 \<and>
     (if near 100 curr_tps expected
        then reached = TRUE \<and> unat duty' = 580 \<and> open_duty m' = 580
      else if unat expected < unat curr_tps
        then reached = FALSE \<and> duty' = duty \<and> open_duty m' = 1000
      else reached = FALSE \<and> unat duty' = max 300 (unat duty - 10) \<and> open_duty m' = unat duty')"
  using set_new_by_tps_ok [OF m d r] motor_registers [of m'] by simp

definition example_motor :: motor where
  "example_motor =
     (\<lparr> period_base = 16, duty_base = 20, control_base = 24, period = 2500, duty_count = 2500, duty_cycle = 1000,
         control = 1, reserved = 0 \<rparr>,
      \<lparr> period_base = 32, duty_base = 36, control_base = 40, period = 2500, duty_count = 2500, duty_cycle = 1000,
         control = 1, reserved = 0 \<rparr>,
      \<lparr> reg8 = (\<lambda>_. 1), reg32 = (\<lambda>_. 2500) \<rparr>)"

lemma example_motor_ok: "motor_ok example_motor" "duty_ok 580" "duty_ok 305"
  by (simp_all add: motor_ok_def example_motor_def pwm_in_step_def duty_ok_def)

theorem position_regulator_witness:
  "\<exists>m'. set_new_throttle_position_by_tps 305 3000 1000 example_motor = (FALSE, 300, m') \<and> open_duty m' = 300"
proof -
  obtain r d m' where x: "set_new_throttle_position_by_tps 305 3000 1000 example_motor = (r, d, m')"
    by (cases "set_new_throttle_position_by_tps 305 3000 1000 example_motor") auto
  have "r = FALSE \<and> unat d = 300 \<and> open_duty m' = 300"
    using position_regulator [OF example_motor_ok(1,3) x] by (simp add: near_def)
  moreover from this have "d = 300" by (intro word_unat_eqI) simp
  ultimately show ?thesis using x by simp
qed

lemma set_new_by_rpm_ok:
  assumes m: "motor_ok m" and d: "duty_ok duty"
    and r: "set_new_throttle_position_by_rpm duty target curr_rpm k m = (reached, duty', k', m')"
  shows "motor_ok m' \<and> duty_ok duty' \<and>
     (if near 200 curr_rpm target
        then reached = TRUE \<and> unat duty' = 580 \<and> open_duty m' = 580 \<and> close_duty m' = 1000 \<and> k' = k
      else reached = FALSE \<and>
        (if k \<noteq> 15 then k' = k + 1 \<and> duty' = duty \<and> m' = m
         else k' = 0 \<and> close_duty m' = 1000 \<and>
           (if unat target < unat curr_rpm then duty' = duty \<and> open_duty m' = 1000
            else unat duty' = max 300 (unat duty - 2) \<and> open_duty m' = unat duty')))"
proof -
  note differ = rpm_differ [of curr_rpm target]
  show ?thesis
  proof (cases "near 200 curr_rpm target")
    case True
    then have "reached = TRUE" "duty' = 580" "m' = set_throttle_by_duty_cycle 580 m" "k' = k"
      using r differ by (auto simp: set_new_throttle_position_by_rpm_def)
    then show ?thesis using True set_throttle_ok [OF m, of 580] by (simp add: duty_ok_def)
  next
    case far: False
    show ?thesis
    proof (cases "k = 15")
      case False
      then show ?thesis using r differ far m d
        by (auto simp: set_new_throttle_position_by_rpm_def split: if_splits)
    next
      case True
      show ?thesis
      proof (cases "target < curr_rpm")
        case over: True
        then have "reached = FALSE" "duty' = duty" "m' = decrease_throttle m" "k' = 0"
          using r differ far True by (auto simp: set_new_throttle_position_by_rpm_def)
        then show ?thesis using over far True d decrease_ok [OF m] by (simp add: word_less_unat)
      next
        case under: False
        then have "reached = FALSE" "increase_throttle_by_feedback duty 2 m = (duty', m')" "k' = 0"
          using r differ far True by (auto simp: set_new_throttle_position_by_rpm_def split: prod.splits)
        then show ?thesis using under far True increase_ok [OF m d, of 2] by (simp add: word_less_unat)
      qed
    qed
  qed
qed

text \<open>Calls of the engine speed regulator with readings that stay away from the target.\<close>

fun rpm_calls :: "(INT16U \<times> INT16U) list \<Rightarrow> INT16U \<times> INT32U \<times> motor \<Rightarrow> INT16U \<times> INT32U \<times> motor" where
  "rpm_calls [] s = s"
| "rpm_calls ((target, curr_rpm) # cs) (duty, k, m) =
     rpm_calls cs (snd (set_new_throttle_position_by_rpm duty target curr_rpm k m))"

lemma rpm_calls_idle:
  assumes "\<forall>(t, c) \<in> set cs. \<not> near 200 c t" "unat k + length cs \<le> 15"
  shows "rpm_calls cs (duty, k, m) = (duty, k + of_nat (length cs), m)"
  using assms
proof (induction cs arbitrary: k)
  case (Cons tc cs)
  obtain t c where tc: "tc = (t, c)" by fastforce
  have k: "k \<noteq> 15" using Cons.prems(2) by auto
  have "set_new_throttle_position_by_rpm duty t c k m = (FALSE, duty, k + 1, m)"
    using Cons.prems(1) tc k rpm_differ [of c t] by (auto simp: set_new_throttle_position_by_rpm_def)
  moreover have "unat (k + 1) = unat k + unat (1 :: INT32U)"
    by (rule unat_add_small) (use Cons.prems(2) in simp)
  ultimately show ?case using Cons by (simp add: tc algebra_simps)
qed simp

text \<open>The engine speed regulator is paced and stays within limits: as long as the speed is more than
  200 away from the target, of every 16 consecutive calls the first 15 leave the motor alone and the
  16th acts: above the target it closes the throttle, below it it opens by 2, down to the limit 300.
  Within 200 of the target a call reports success at once and sets the closing duty cycle.\<close>

theorem rpm_regulator_paced:
  assumes m: "motor_ok m" and d: "duty_ok duty" and far: "\<forall>(t, c) \<in> set cs. \<not> near 200 c t"
    and n: "length cs = 15"
  shows "rpm_calls cs (duty, 0, m) = (duty, 15, m) \<and>
     (case set_new_throttle_position_by_rpm duty target curr_rpm 15 m of (reached, duty', k', m') \<Rightarrow>
        motor_ok m' \<and> duty_ok duty' \<and> close_duty m' = 1000 \<and>
        (if near 200 curr_rpm target then reached = TRUE \<and> unat duty' = 580 \<and> open_duty m' = 580
         else reached = FALSE \<and> k' = 0 \<and>
           (if unat target < unat curr_rpm then duty' = duty \<and> open_duty m' = 1000
            else unat duty' = max 300 (unat duty - 2) \<and> open_duty m' = unat duty')))"
proof -
  obtain r d' k' m' where x: "set_new_throttle_position_by_rpm duty target curr_rpm 15 m = (r, d', k', m')"
    by (metis surj_pair)
  from set_new_by_rpm_ok [OF m d x] rpm_calls_idle [OF far, of 0 duty m] n x
  show ?thesis by (auto split: if_splits)
qed

theorem rpm_regulator_paced_witness:
  "rpm_calls (replicate 15 (5000, 9000)) (580, 0, example_motor) = (580, 15, example_motor)"
  using rpm_regulator_paced [OF example_motor_ok(1,2), of "replicate 15 (5000, 9000)"]
  by (simp add: near_def)

end
