(* ===== verification/Solenoid.thy ===== *)
theory Solenoid imports Throttle_Control begin

text \<open>
  \<open>solenoid_task.c\<close>: the button interrupt, the shift solenoid with its alarm callback, and the task
  that turns a button press into a shift request, waits for the engine speed to match and then
  operates the solenoid. The address of the static variable through which the interrupt hands over
  the button is the constant \<open>isr_data_addr\<close>. The allocator of shift requests is the argument
  \<open>malloc_req\<close>; a request at the null address is a write through a null pointer and has no result.
\<close>

section \<open>Devices\<close>

text \<open>Register offsets of the parallel ports: data 0, interrupt mask 2, edge capture 3.\<close>

definition pio_irq_mask :: INT32U where "pio_irq_mask = BUTTONS_BASE + 8"
definition pio_edge_cap :: INT32U where "pio_edge_cap = BUTTONS_BASE + 12"

definition set_irq_mask :: "INT32U \<Rightarrow> app_state \<Rightarrow> app_state" where
  "set_irq_mask v s = s\<lparr> io := io_write32 pio_irq_mask v (io s) \<rparr>"

definition clear_edge_cap :: "app_state \<Rightarrow> app_state" where
  "clear_edge_cap s = s\<lparr> io := io_write32 pio_edge_cap CLEAR_BUTTON_EDGE_REG (io s) \<rparr>"

definition shift_up :: "app_state \<Rightarrow> app_state" where
  "shift_up s = s\<lparr> io := io_write32 SOLENOID_OUT_BASE BUTTON_INPUT_SHIFT_UP (io s) \<rparr>"

definition shift_down :: "app_state \<Rightarrow> app_state" where
  "shift_down s = s\<lparr> io := io_write32 SOLENOID_OUT_BASE BUTTON_INPUT_SHIFT_DOWN (io s) \<rparr>"

definition is_clutchless_shifting_enabled :: "app_state \<Rightarrow> BOOL" where
  "is_clutchless_shifting_enabled s =
     (if switches s AND SWITCH_ENABLE_SHIFT_MATCHING_MASK = SWITCH_ENABLE_SHIFT_MATCHING then TRUE else FALSE)"

section \<open>Interrupt and callback\<close>

definition isr_data_addr :: msg where "isr_data_addr = 0x04000000"

definition isr_btn :: "app_state \<Rightarrow> app_state option" where
  "isr_btn s = do {
     let s = s\<lparr> isr_data := reg32 (io s) pio_edge_cap \<rparr>;
     s \<leftarrow> (if isr_data s = BUTTON_INPUT_SHIFT_UP then q_post (btn_input_q s) isr_data_addr s
          else if isr_data s = BUTTON_INPUT_SHIFT_DOWN then q_post (btn_input_q s) isr_data_addr s
          else Some s);
     Some (clear_edge_cap s)
   }"

definition solenoid_callback :: "nat \<Rightarrow> app_state \<Rightarrow> (INT32U \<times> app_state) option" where
  "solenoid_callback context s = do {
     s \<leftarrow> signal_exit_shift_matching (s\<lparr> io := io_write32 SOLENOID_OUT_BASE CLEAR_BUTTON_DATA (io s) \<rparr>);
     Some (0, s)
   }"

section \<open>The task\<close>

definition set_sol :: "(solenoid_vars \<Rightarrow> solenoid_vars) \<Rightarrow> app_state \<Rightarrow> app_state" where
  "set_sol f s = s\<lparr> sol := f (sol s) \<rparr>"

definition go_solenoid :: "solenoid_pc \<Rightarrow> app_state \<Rightarrow> app_state" where
  "go_solenoid pc = set_sol (\<lambda>v. v\<lparr> s_pc := pc \<rparr>)"

text \<open>The gear a command asks for, \<open>None\<close> where the code goes back to the head of the loop.\<close>

definition requested_gear :: "INT32U \<Rightarrow> INT8U \<Rightarrow> INT16U \<Rightarrow> INT16U option" where
  "requested_gear command gear rpm =
     (let new_gear = ucast gear in
      if command = BUTTON_INPUT_SHIFT_UP then
        if gear = NUM_GEARS then None
        else if rpm < SHIFT_UP_LOWER_BOUND_RPM then None
        else Some (new_gear + 1)
      else if command = BUTTON_INPUT_SHIFT_DOWN then
        if gear = 1 then None
        else if rpm > SHIFT_DOWN_UPPER_BOUND_RPM then None
        else Some (new_gear - 1)
      else Some new_gear)"

text \<open>After the result of the shift matching has come.\<close>

definition solenoid_result :: "msg \<Rightarrow> app_state \<Rightarrow> app_state option" where
  "solenoid_result m s =
     (if (ucast m :: INT8U) = SHIFT_MATCHING_RESULT_FAIL then Some (go_solenoid S_Loop s)
      else do {
        let s = set_sol (\<lambda>v. v\<lparr> curr_gear := ucast (new_gear v) \<rparr>) s;
        let s = s\<lparr> io := output_curr_gear (curr_gear (sol s)) (io s) \<rparr>;
        let s = s\<lparr> req_live := req_live s - {req (sol s)} \<rparr>;
        let s = (if shift_command (sol s) = BUTTON_INPUT_SHIFT_UP then
                   snd (alt_alarm_start (shift_alarm (sol s)) SOLENOID_OPEN_DURATION_TICKS Solenoid_Callback 0 (shift_up s))
                 else if shift_command (sol s) = BUTTON_INPUT_SHIFT_DOWN then
                   snd (alt_alarm_start (shift_alarm (sol s)) SOLENOID_OPEN_DURATION_TICKS Solenoid_Callback 0 (shift_down s))
                 else s);
        s \<leftarrow> time_dly_hmsm SOLENOID_TASK_DELAY_HOURS SOLENOID_TASK_DELAY_MINUTES
               SOLENOID_TASK_DELAY_SECONDS SOLENOID_TASK_DELAY_MILLISEC s;
        Some (go_solenoid S_Loop s)
      })"

text \<open>From the switch test to the wait for the result.\<close>

definition solenoid_command :: "(msg set \<Rightarrow> msg) \<Rightarrow> app_state \<Rightarrow> app_state option" where
  "solenoid_command malloc_req s =
     (if is_clutchless_shifting_enabled s = FALSE then Some (go_solenoid S_Loop s)
      else case requested_gear (shift_command (sol s)) (curr_gear (sol s)) (get_RPM (rpm_decoder s)) of
        None \<Rightarrow> Some (go_solenoid S_Loop s)
      | Some g \<Rightarrow>
          let r = malloc_req (req_live s) in
          if r = 0 then None
          else do {
            let s = s\<lparr> req_live := insert r (req_live s),
                       reqs := (reqs s)(r := \<lparr> req_curr_gear = curr_gear (sol s), req_new_gear = ucast g \<rparr>) \<rparr>;
            let s = set_sol (\<lambda>v. v\<lparr> new_gear := g, req := r \<rparr>) s;
            s \<leftarrow> q_post (s_shift_matching_q (sol s)) r s;
            (m, s) \<leftarrow> q_pend (rpm_matching_result_q s) Q_TIMEOUT_WAIT_FOREVER s;
            (case m of
               Some msg \<Rightarrow> solenoid_result msg s
             | None \<Rightarrow> Some (go_solenoid S_Result_Wait s))
          })"

text \<open>After a button message has come: \<open>m\<close> points to the interrupt's variable.\<close>

definition solenoid_button :: "(msg set \<Rightarrow> msg) \<Rightarrow> msg \<Rightarrow> app_state \<Rightarrow> app_state option" where
  "solenoid_button malloc_req m s =
     (if m \<noteq> isr_data_addr then None
      else do {
        let s = set_irq_mask 0 (set_sol (\<lambda>v. v\<lparr> shift_command := isr_data s \<rparr>) s);
        let s = (if s_shift_matching_q (sol s) = None
                 then set_sol (\<lambda>v. v\<lparr> s_shift_matching_q := get_shift_matching_q s \<rparr>) s else s);
        let (cnt, s) = sem_accept (solenoid_external_failure_flag s) s;
        if cnt \<noteq> SEM_FLAG_NO_ERROR then do {
          (returned, s) \<leftarrow> sem_pend (solenoid_failure_resolved_flag s) Q_TIMEOUT_WAIT_FOREVER s;
          if returned then solenoid_command malloc_req s else Some (go_solenoid S_Failure_Wait s)
        }
        else solenoid_command malloc_req s
      })"

definition solenoid_loop_head :: "(msg set \<Rightarrow> msg) \<Rightarrow> app_state \<Rightarrow> app_state option" where
  "solenoid_loop_head malloc_req s = do {
     (err, k) \<leftarrow> OSQFlush (btn_input_q s) (os s);
     let s = clear_edge_cap (s\<lparr> os := k \<rparr>);
     let s = set_irq_mask (BUTTON_INPUT_SHIFT_UP OR BUTTON_INPUT_SHIFT_DOWN) s;
     (m, s) \<leftarrow> q_pend (btn_input_q s) Q_TIMEOUT_WAIT_FOREVER s;
     (case m of
        Some msg \<Rightarrow> solenoid_button malloc_req msg s
      | None \<Rightarrow> Some (go_solenoid S_Button_Wait s))
   }"

definition solenoid_step :: "(msg set \<Rightarrow> msg) \<Rightarrow> app_state \<Rightarrow> app_state option" where
  "solenoid_step malloc_req s =
     (case s_pc (sol s) of
        S_Loop \<Rightarrow> solenoid_loop_head malloc_req s
      | S_Button_Wait \<Rightarrow> do {
          (m, s) \<leftarrow> q_pend_return (btn_input_q s) s;
          solenoid_button malloc_req m s }
      | S_Failure_Wait \<Rightarrow> do {
          s \<leftarrow> sem_pend_return (solenoid_failure_resolved_flag s) s;
          solenoid_command malloc_req s }
      | S_Result_Wait \<Rightarrow> do {
          (m, s) \<leftarrow> q_pend_return (rpm_matching_result_q s) s;
          solenoid_result m s })"

end
