(* ===== verification/Failure_Handler.thy ===== *)
theory Failure_Handler imports App_State begin

text \<open>
  \<open>failure_handler_task.c\<close>: the task that reports a failure on the LEDs, stops the solenoid task through
  its failure flag, waits until the driver moves the clear switch, and then tells the two other tasks
  that the failure is resolved. The task loses the processor where it waits for a message and where it
  delays itself; \<open>failure_handler_step\<close> runs the code from one such point to the next.
\<close>

definition set_fh :: "(failure_vars \<Rightarrow> failure_vars) \<Rightarrow> app_state \<Rightarrow> app_state" where
  "set_fh f s = s\<lparr> fh := f (fh s) \<rparr>"

definition green_leds :: "app_state \<Rightarrow> INT8U" where
  "green_leds s = reg8 (io s) GREEN_LEDS_BASE"

text \<open>The code before the loop.\<close>

definition failure_handler_init :: "app_state \<Rightarrow> app_state" where
  "failure_handler_init s =
     (let s = set_leds NO_ERROR_INDICATION_LED s;
          s = set_fh (\<lambda>f. f\<lparr> error_led := NO_ERROR_INDICATION_LED,
                next_clear_switch_val := (if switches s = SWITCH_OFF then SWITCH_ON else SWITCH_OFF) \<rparr>) s in
      set_fh (\<lambda>f. f\<lparr> f_pc := F_Loop \<rparr>) s)"

text \<open>The \<open>switch\<close> over the failure code: each case raises the solenoid task's flag.\<close>

definition led_of_failure :: "INT8U \<Rightarrow> INT8U" where
  "led_of_failure msg =
     (if msg = ERR_EXPECTED_THROTTLE_POS_MISMATCH then MOTOR_FAILURE_INDICATION_LED
      else if msg = ERR_APPS_READING_MISMATCH then APPS_FAILURE_INDICATION_LED
      else if msg = ERR_TPS_READING_MISMATCH then TPS_FAILURE_INDICATION_LED
      else if msg = ERR_UNKNOWN then UNKNOWN_FAILURE_INDICATION_LED
      else UNKNOWN_FAILURE_INDICATION_LED)"

text \<open>The loop that flashes the LED until the switch is moved, and the code after it. One call runs the
  loop test and, while the switch is not moved, one turn up to the delay.\<close>

definition failure_flash :: "app_state \<Rightarrow> app_state option" where
  "failure_flash s =
     (if switches s AND SWITCH_CLEAR_FAILURE_MASK \<noteq> next_clear_switch_val (fh s) then do {
        let s = set_leds (if green_leds s = NO_ERROR_INDICATION_LED then error_led (fh s)
                          else NO_ERROR_INDICATION_LED) s;
        s \<leftarrow> time_dly_hmsm FAILURE_HANDLER_TASK_DELAY_HOURS FAILURE_HANDLER_TASK_DELAY_MINUTES
               FAILURE_HANDLER_TASK_DELAY_SECONDS LED_FLASH_PERIOD_MS s;
        Some (set_fh (\<lambda>f. f\<lparr> f_pc := F_Flash \<rparr>) s)
      }
      else do {
        let s = set_fh (\<lambda>f. f\<lparr> next_clear_switch_val :=
                  (if switches s AND SWITCH_CLEAR_FAILURE_MASK = SWITCH_OFF then SWITCH_ON else SWITCH_OFF) \<rparr>) s;
        let s = set_leds NO_ERROR_INDICATION_LED s;
        s \<leftarrow> raise_flag (get_throttle_control_task_failure_resolved_flag s) s;
        s \<leftarrow> raise_flag (get_solenoid_task_failure_resolved_flag s) s;
        s \<leftarrow> time_dly_hmsm FAILURE_HANDLER_TASK_DELAY_HOURS FAILURE_HANDLER_TASK_DELAY_MINUTES
               FAILURE_HANDLER_TASK_DELAY_SECONDS FAILURE_HANDLER_TASK_DELAY_MILLISEC s;
        Some (set_fh (\<lambda>f. f\<lparr> f_pc := F_Loop \<rparr>) s)
      })"

definition failure_message :: "msg \<Rightarrow> app_state \<Rightarrow> app_state option" where
  "failure_message m s = do {
     s \<leftarrow> raise_flag (get_solenoid_task_external_failure_flag s) s;
     failure_flash (set_fh (\<lambda>f. f\<lparr> error_led := led_of_failure (ucast m) \<rparr>) s)
   }"

definition failure_handler_step :: "app_state \<Rightarrow> app_state option" where
  "failure_handler_step s =
     (case f_pc (fh s) of
        F_Loop \<Rightarrow> do {
          (m, s) \<leftarrow> q_pend (get_failure_msg_q s) Q_TIMEOUT_WAIT_FOREVER s;
          (case m of
             Some msg \<Rightarrow> failure_message msg s
           | None \<Rightarrow> Some (set_fh (\<lambda>f. f\<lparr> f_pc := F_Msg_Wait \<rparr>) s)) }
      | F_Msg_Wait \<Rightarrow> do {
          (m, s) \<leftarrow> q_pend_return (get_failure_msg_q s) s;
          failure_message m s }
      | F_Flash \<Rightarrow> failure_flash s)"

end
