(* ===== verification/App_Kernel.thy ===== *)
theory App_Kernel imports App_State begin

text \<open>
  What the kernel calls of the application keep: the relation \<open>os_keep\<close> between the kernel states before
  and after a call, which composes, and one lemma for each call. With them the properties of the tasks
  do not look into the kernel.
\<close>

section \<open>What a call keeps\<close>

definition os_keep :: "os_state \<Rightarrow> os_state \<Rightarrow> bool" where
  "os_keep k k' \<longleftrightarrow> kernel_ok k' \<and> cur_ok k' \<and> (list_ok k \<longrightarrow> list_ok k') \<and>
     (\<forall>e. OSEventType (ECB k' e) = OSEventType (ECB k e)) \<and> (\<forall>e q. is_queue e q k \<longrightarrow> is_queue e q k') \<and>
     OSIntNesting k' = OSIntNesting k \<and> OSLockNesting k' = OSLockNesting k \<and> OSRunning k' = OSRunning k \<and>
     OSTickStepState k' = OSTickStepState k \<and> OSTCBPrioTbl k' = OSTCBPrioTbl k"

lemma os_keepD:
  assumes "os_keep k k'"
  shows "kernel_ok k'" "cur_ok k'" "list_ok k \<Longrightarrow> list_ok k'" "is_sem e k' = is_sem e k"
    "is_queue e q k \<Longrightarrow> is_queue e q k'" "OSIntNesting k' = OSIntNesting k" "OSLockNesting k' = OSLockNesting k"
    "OSRunning k' = OSRunning k" "OSTickStepState k' = OSTickStepState k" "task_at k' p i = task_at k p i"
    "OSEventType (ECB k' e) = OSEventType (ECB k e)"
  using assms by (simp_all add: os_keep_def is_sem_def task_at_def)

lemma os_keep_refl: "kernel_ok k \<Longrightarrow> cur_ok k \<Longrightarrow> os_keep k k"
  by (simp add: os_keep_def)

lemma os_keep_trans: "os_keep k k' \<Longrightarrow> os_keep k' k'' \<Longrightarrow> os_keep k k''"
  unfolding os_keep_def by auto

lemma switch_keep:
  assumes "switch_frame k k'" "kernel_ok k'" "cur_ok k'"
  shows "os_keep k k'"
proof -
  have "list_ok k' = list_ok k"
    by (rule list_ok_cong) (simp_all add: switch_frame_task [OF assms(1)] switch_frame_sets [OF assms(1)])
  moreover have "OSTickStepState k' = OSTickStepState k"
    using assms(1) unfolding switch_frame_def by (cases k; cases k') simp
  ultimately show ?thesis
    using assms(2,3) is_queue_switch [OF assms(1)] by (simp add: os_keep_def switch_frame_sets [OF assms(1)])
qed

lemma frame_keep:
  assumes fr: "sched_frame k k'" and ok: "kernel_ok k'" "cur_ok k"
    and t: "\<And>i. OSTCBPrio (TCB k' i) = OSTCBPrio (TCB k i) \<and> OSTCBNext (TCB k' i) = OSTCBNext (TCB k i)"
  shows "os_keep k k'"
proof -
  have "list_ok k' = list_ok k"
    by (rule list_ok_cong) (use t sched_frame_tbl [OF fr] in simp_all)
  moreover have "OSTickStepState k' = OSTickStepState k"
    using fr unfolding sched_frame_def by (cases k; cases k') simp
  ultimately show ?thesis
    using ok is_queue_frame [OF fr] sched_frame_tbl [OF fr] sched_frame_event [OF fr] cur_ok_frame [OF fr]
    by (simp add: os_keep_def)
qed

text \<open>Changing one counter, or one ring buffer.\<close>

lemma set_cnt_keep:
  assumes "kernel_ok k" "cur_ok k"
  shows "os_keep k (set_cnt e c k)"
proof -
  have q: "get_ring q (set_cnt e c k) = get_ring q k" "q_of e' (set_cnt e c k) = q_of e' k" for q e'
    by (simp_all add: get_ring_def q_of_def set_cnt_def set_event_def)
  have "list_ok (set_cnt e c k) = list_ok k" by (rule list_ok_cong) simp_all
  moreover have "OSRunning (set_cnt e c k) = OSRunning k" "OSTickStepState (set_cnt e c k) = OSTickStepState k"
    by (simp_all add: set_cnt_def set_event_def)
  ultimately show ?thesis using assms by (simp add: os_keep_def is_queue_def q)
qed

lemma set_ring_keep:
  assumes "kernel_ok k" "cur_ok k" "ring_ok r"
  shows "os_keep k (set_ring q r k)"
proof -
  have "ring_ok (get_ring q' (set_ring q r k)) \<longleftrightarrow> (if q' = q then ring_ok r else ring_ok (get_ring q' k))" for q'
    by (simp add: get_ring_def set_ring_def ring_ok_def)
  moreover have "list_ok (set_ring q r k) = list_ok k" by (rule list_ok_cong) simp_all
  moreover have "OSRunning (set_ring q r k) = OSRunning k" "OSTickStepState (set_ring q r k) = OSTickStepState k"
    "OSIntNesting (set_ring q r k) = OSIntNesting k" "OSLockNesting (set_ring q r k) = OSLockNesting k"
    by (simp_all add: set_ring_def)
  ultimately show ?thesis using assms by (auto simp: os_keep_def is_queue_def)
qed

section \<open>Waking a task\<close>

text \<open>What the post operations do when somebody waits: wake the highest priority waiter, reschedule.\<close>

lemma wake_and_sched:
  assumes ok: "kernel_ok k" "cur_ok k" and ne: "wait_set e k \<noteq> {}"
    and msk: "event_mask (OSEventType (ECB k e)) = msk"
  shows "\<exists>prio k1 k'. OS_EventTaskRdy e m msk st k = Some (prio, k1) \<and> OS_Sched k1 = Some k' \<and> os_keep k k' \<and>
     (\<forall>e'. OSEventCnt (ECB k' e') = OSEventCnt (ECB k e')) \<and> QCB k' = QCB k \<and> storage k' = storage k \<and>
     (\<forall>e'. wait_set e' k' = (if e' = e then wait_set e k - {Min (wait_set e k)} else wait_set e' k)) \<and>
     (OSIntNesting k = 0 \<and> OSLockNesting k = 0 \<longrightarrow> highest_runs k') \<and>
     (OSIntNesting k \<noteq> 0 \<longrightarrow> OSTCBCur k' = OSTCBCur k \<and> OSPrioCur k' = OSPrioCur k) \<and>
     ready_set k \<subseteq> ready_set k'"
proof -
  have nz: "msk AND 8 = 0" using msk by (auto simp flip: msk)
  obtain prio i k1 where r: "OS_EventTaskRdy e m msk st k = Some (prio, k1)"
    "readied e m msk st k (unat prio) i k1" "kernel_ok k1"
    by (rule OS_EventTaskRdy_ok [OF ok(1) ne msk nz])
  have fr: "sched_frame k k1" using r(2) by (simp add: readied_def)
  have k1: "os_keep k k1" by (rule frame_keep [OF fr r(3) ok(2)]) (use r(2) in \<open>simp add: readied_def\<close>)
  obtain k' where k': "OS_Sched k1 = Some k'" "switch_frame k1 k'" "kernel_ok k'" "cur_ok k'"
    "OSIntNesting k1 = 0 \<and> OSLockNesting k1 = 0 \<Longrightarrow> highest_runs k'"
    using sched_after [OF r(3) os_keepD(2) [OF k1]] by metis
  have keep: "os_keep k k'" using os_keep_trans [OF k1 switch_keep [OF k'(2-4)]] .
  have w: "wait_set e' k' = (if e' = e then wait_set e k - {Min (wait_set e k)} else wait_set e' k)" for e'
    using r(2) by (auto simp: readied_def switch_frame_sets [OF k'(2)])
  have sub: "ready_set k \<subseteq> ready_set k'"
    using r(2) by (auto simp: readied_def switch_frame_sets [OF k'(2)])
  have int: "OSTCBCur k' = OSTCBCur k \<and> OSPrioCur k' = OSPrioCur k" if "OSIntNesting k \<noteq> 0"
  proof -
    have "OS_Sched k1 = Some k1" using that sched_frame_tbl [OF fr] by (intro OS_Sched_locked) simp
    then show ?thesis using k'(1) sched_frame_tbl [OF fr] by simp
  qed
  show ?thesis
    using r(1) k'(1,5) keep w int sub sched_frame_event [OF fr] sched_frame_tbl [OF fr]
    by (simp add: switch_frame_sets [OF k'(2)])
qed

section \<open>Semaphores as flags\<close>

text \<open>A semaphore posted with the idiom of the tasks: value and waiting tasks afterwards.\<close>

lemma OSSemPost_keep:
  assumes ok: "kernel_ok k" "cur_ok k" and sem: "is_sem e k"
  shows "\<exists>err k'. OSSemPost (Some e) k = Some (err, k') \<and> os_keep k k' \<and> sem_abs e k' = spec_post (sem_abs e k) \<and>
     (\<forall>e'. e' \<noteq> e \<longrightarrow> sem_abs e' k' = sem_abs e' k) \<and> QCB k' = QCB k \<and> storage k' = storage k \<and>
     (OSIntNesting k = 0 \<and> OSLockNesting k = 0 \<and> wait_set e k \<noteq> {} \<longrightarrow> highest_runs k') \<and>
     (OSIntNesting k \<noteq> 0 \<or> wait_set e k = {} \<longrightarrow> OSTCBCur k' = OSTCBCur k \<and> OSPrioCur k' = OSPrioCur k) \<and>
     ready_set k \<subseteq> ready_set k'"
proof (cases "wait_set e k = {}")
  case True
  then have grp: "OSEventGrp (ECB k e) = 0" using grp_zero_iff [OF ok(1)] by simp
  show ?thesis
  proof (cases "OSEventCnt (ECB k e) < 65535")
    case lt: True
    then have u: "unat (OSEventCnt (ECB k e)) < 65535" by (simp add: word_less_unat)
    then have "unat (OSEventCnt (ECB k e) + 1) = unat (OSEventCnt (ECB k e)) + 1" by (simp add: unat_add_small)
    moreover have "OSSemPost (Some e) k = Some (OS_ERR_NONE, set_cnt e (OSEventCnt (ECB k e) + 1) k)"
      using grp lt sem by (simp add: OSSemPost_def is_sem_def set_cnt_def set_event_def)
    moreover have "QCB (set_cnt e c k) = QCB k" "storage (set_cnt e c k) = storage k" for c
      by (simp_all add: set_cnt_def set_event_def)
    ultimately show ?thesis using True u set_cnt_keep [OF ok] by (simp add: sem_abs_def)
  next
    case False
    then have "unat (OSEventCnt (ECB k e)) = 65535"
      using unat_lt_16 [of "OSEventCnt (ECB k e)"] by (simp add: word_less_unat del: unat_lt_16)
    with True False grp sem os_keep_refl [OF ok] show ?thesis by (simp add: OSSemPost_def is_sem_def sem_abs_def)
  qed
next
  case False
  then have grp: "OSEventGrp (ECB k e) \<noteq> 0" using grp_zero_iff [OF ok(1)] by simp
  obtain prio k1 k' where w: "OS_EventTaskRdy e 0 OS_STAT_SEM OS_STAT_PEND_OK k = Some (prio, k1)"
    "OS_Sched k1 = Some k'" "os_keep k k'" "\<forall>e'. OSEventCnt (ECB k' e') = OSEventCnt (ECB k e')"
    "QCB k' = QCB k" "storage k' = storage k"
    "\<forall>e'. wait_set e' k' = (if e' = e then wait_set e k - {Min (wait_set e k)} else wait_set e' k)"
    "OSIntNesting k = 0 \<and> OSLockNesting k = 0 \<longrightarrow> highest_runs k'"
    "OSIntNesting k \<noteq> 0 \<longrightarrow> OSTCBCur k' = OSTCBCur k \<and> OSPrioCur k' = OSPrioCur k"
    "ready_set k \<subseteq> ready_set k'"
    using wake_and_sched [OF ok False sem_mask [OF sem], of 0 OS_STAT_PEND_OK] by blast
  have "OSSemPost (Some e) k = Some (OS_ERR_NONE, k')"
    using grp sem w(1,2) by (simp add: OSSemPost_def is_sem_def)
  then show ?thesis using False w(3-10) by (simp add: sem_abs_def)
qed

lemma OSSemAccept_keep:
  assumes ok: "kernel_ok k" "cur_ok k" and sem: "is_sem e k"
  shows "\<exists>k'. OSSemAccept (Some e) k = (OSEventCnt (ECB k e), k') \<and> os_keep k k' \<and>
     sem_abs e k' = spec_accept (sem_abs e k) \<and> (\<forall>e'. e' \<noteq> e \<longrightarrow> sem_abs e' k' = sem_abs e' k) \<and>
     QCB k' = QCB k \<and> storage k' = storage k \<and> OSTCBCur k' = OSTCBCur k \<and> OSPrioCur k' = OSPrioCur k \<and>
     ready_set k' = ready_set k"
proof (cases "0 < OSEventCnt (ECB k e)")
  case True
  then have "OSSemAccept (Some e) k = (OSEventCnt (ECB k e), set_cnt e (OSEventCnt (ECB k e) - 1) k)"
    using OSSemAccept_cnt [OF sem] by (simp add: Let_def)
  moreover have "QCB (set_cnt e c k) = QCB k" "storage (set_cnt e c k) = storage k" for c
    by (simp_all add: set_cnt_def set_event_def)
  ultimately show ?thesis using True set_cnt_keep [OF ok] by (simp add: sem_abs_def unat_dec)
next
  case False
  then have "OSSemAccept (Some e) k = (OSEventCnt (ECB k e), k)" "OSEventCnt (ECB k e) = 0"
    using OSSemAccept_cnt [OF sem] by (simp_all add: Let_def word_gt_0)
  then show ?thesis using os_keep_refl [OF ok] by (simp add: sem_abs_def)
qed

lemma OSQPost_keep:
  assumes ok: "kernel_ok k" "cur_ok k" and q: "is_queue e q k"
  shows "\<exists>err k'. OSQPost (Some e) m k = Some (err, k') \<and> os_keep k k' \<and>
     messages q k' = (if wait_set e k = {} \<and> length (messages q k) < capacity q k
                      then messages q k @ [m] else messages q k) \<and>
     (\<forall>e'. e' \<noteq> e \<longrightarrow> sem_abs e' k' = sem_abs e' k) \<and>
     (OSIntNesting k \<noteq> 0 \<or> wait_set e k = {} \<longrightarrow> OSTCBCur k' = OSTCBCur k \<and> OSPrioCur k' = OSPrioCur k)"
proof (cases "wait_set e k = {}")
  case False
  then have grp: "OSEventGrp (ECB k e) \<noteq> 0" using grp_zero_iff [OF ok(1)] by simp
  obtain prio k1 k' where w: "OS_EventTaskRdy e m OS_STAT_Q OS_STAT_PEND_OK k = Some (prio, k1)"
    "OS_Sched k1 = Some k'" "os_keep k k'" "\<forall>e'. OSEventCnt (ECB k' e') = OSEventCnt (ECB k e')"
    "QCB k' = QCB k" "storage k' = storage k"
    "\<forall>e'. wait_set e' k' = (if e' = e then wait_set e k - {Min (wait_set e k)} else wait_set e' k)"
    "OSIntNesting k \<noteq> 0 \<longrightarrow> OSTCBCur k' = OSTCBCur k \<and> OSPrioCur k' = OSPrioCur k"
    using wake_and_sched [OF ok False queue_mask [OF q], of m OS_STAT_PEND_OK] by blast
  have "OSQPost (Some e) m k = Some (OS_ERR_NONE, k')"
    using grp q w(1,2) by (simp add: OSQPost_def is_queue_def)
  then show ?thesis using False w(3-8) by (simp add: sem_abs_def messages_def get_ring_def)
next
  case True
  then have grp: "OSEventGrp (ECB k e) = 0" using grp_zero_iff [OF ok(1)] by simp
  show ?thesis
  proof (cases "length (messages q k) < capacity q k")
    case lt: True
    define r where "r = ring_append m (get_ring q k)"
    have "OSQPost (Some e) m k = Some (OS_ERR_NONE, set_ring q r k)"
      using grp q lt queue_full_iff [OF q] by (simp add: OSQPost_def is_queue_def r_def)
    moreover have r: "ring_ok r \<and> ring_contents r = messages q k @ [m]"
      using ring.put_law [of "get_ring q k" m] q lt queue_fill(2) [OF q]
      by (simp add: is_queue_def messages_def r_def)
    ultimately show ?thesis
      using True lt set_ring_keep [OF ok] by (simp add: messages_def sem_abs_def)
  next
    case False
    then have "length (messages q k) = capacity q k" using queue_fill(3) [OF q] by simp
    with False True grp q queue_full_iff [OF q] os_keep_refl [OF ok] show ?thesis
      by (simp add: OSQPost_def is_queue_def)
  qed
qed

section \<open>Calls of the tasks\<close>

text \<open>The kernel inside the state of the application is consistent.\<close>

definition kernel_in :: "app_state \<Rightarrow> bool" where
  "kernel_in s \<longleftrightarrow> kernel_ok (os s) \<and> cur_ok (os s)"

text \<open>Only the kernel differs, and it is kept.\<close>

definition only_os :: "app_state \<Rightarrow> app_state \<Rightarrow> bool" where
  "only_os s s' \<longleftrightarrow> s' = s\<lparr> os := os s' \<rparr> \<and> os_keep (os s) (os s')"

lemma only_os_trans: "only_os s s' \<Longrightarrow> only_os s' s'' \<Longrightarrow> only_os s s''"
  unfolding only_os_def by (cases s; cases s'; cases s'') (auto intro: os_keep_trans)

lemma only_os_keep: "only_os s s' \<Longrightarrow> os_keep (os s) (os s')"
  by (simp add: only_os_def)

lemma only_os_kernel: "only_os s s' \<Longrightarrow> kernel_in s'"
  using os_keepD(1,2) [OF only_os_keep] by (simp add: kernel_in_def)

lemma only_os_new: "os_keep (os s) k \<Longrightarrow> only_os s (s\<lparr> os := k \<rparr>)"
  by (simp add: only_os_def)

text \<open>What one turn of the idiom does to a flag, given as its value and the tasks that wait for it.\<close>

definition flag_turn :: "nat \<times> nat set \<Rightarrow> nat \<times> nat set" where
  "flag_turn v = (if fst v = 0 then spec_post v else (fst v - 1, snd v))"

lemma raise_flag_ok:
  assumes ok: "kernel_in s" and sem: "is_sem e (os s)"
  shows "\<exists>s'. raise_flag (Some e) s = Some s' \<and> only_os s s' \<and> sem_abs e (os s') = flag_turn (sem_abs e (os s)) \<and>
     (\<forall>e'. e' \<noteq> e \<longrightarrow> sem_abs e' (os s') = sem_abs e' (os s)) \<and>
     (OSIntNesting (os s) \<noteq> 0 \<or> wait_set e (os s) = {} \<longrightarrow>
        OSTCBCur (os s') = OSTCBCur (os s) \<and> OSPrioCur (os s') = OSPrioCur (os s)) \<and>
     (OSIntNesting (os s) = 0 \<and> OSLockNesting (os s) = 0 \<longrightarrow> highest_runs (os s') \<or>
        OSTCBCur (os s') = OSTCBCur (os s) \<and> OSPrioCur (os s') = OSPrioCur (os s)) \<and>
     ready_set (os s) \<subseteq> ready_set (os s')"
proof -
  have k: "kernel_ok (os s)" "cur_ok (os s)" using ok by (simp_all add: kernel_in_def)
  obtain k1 where a: "OSSemAccept (Some e) (os s) = (OSEventCnt (ECB (os s) e), k1)" "os_keep (os s) k1"
    "sem_abs e k1 = spec_accept (sem_abs e (os s))" "\<forall>e'. e' \<noteq> e \<longrightarrow> sem_abs e' k1 = sem_abs e' (os s)"
    "OSTCBCur k1 = OSTCBCur (os s)" "OSPrioCur k1 = OSPrioCur (os s)" "ready_set k1 = ready_set (os s)"
    using OSSemAccept_keep [OF k sem] by blast
  have w1: "wait_set e k1 = wait_set e (os s)" using a(3) by (simp add: sem_abs_def)
  show ?thesis
  proof (cases "OSEventCnt (ECB (os s) e) = 0")
    case True
    obtain err k2 where p: "OSSemPost (Some e) k1 = Some (err, k2)" "os_keep k1 k2"
      "sem_abs e k2 = spec_post (sem_abs e k1)" "\<forall>e'. e' \<noteq> e \<longrightarrow> sem_abs e' k2 = sem_abs e' k1"
      "OSIntNesting k1 \<noteq> 0 \<or> wait_set e k1 = {} \<longrightarrow> OSTCBCur k2 = OSTCBCur k1 \<and> OSPrioCur k2 = OSPrioCur k1"
      "OSIntNesting k1 = 0 \<and> OSLockNesting k1 = 0 \<and> wait_set e k1 \<noteq> {} \<longrightarrow> highest_runs k2"
      "ready_set k1 \<subseteq> ready_set k2"
      using OSSemPost_keep [OF os_keepD(1,2) [OF a(2)]] sem os_keepD(4) [OF a(2)] by blast
    have "raise_flag (Some e) s = Some (s\<lparr> os := k2 \<rparr>)"
      using True a(1) p(1) by (simp add: raise_flag_def sem_accept_def sem_post_def)
    then show ?thesis
      using True a p(3-7) w1 only_os_new [OF os_keep_trans [OF a(2) p(2)]] os_keepD(6,7) [OF a(2)]
      by (auto simp: flag_turn_def sem_abs_def)
  next
    case False
    then have "raise_flag (Some e) s = Some (s\<lparr> os := k1 \<rparr>)"
      using a(1) by (simp add: raise_flag_def sem_accept_def)
    then show ?thesis
      using False a only_os_new [OF a(2)] by (auto simp: flag_turn_def sem_abs_def unat_eq_zero)
  qed
qed

section \<open>The task of highest priority\<close>

text \<open>A task that runs and is the first of all tasks: no call of it that only wakes tasks can take the
  processor away from it.\<close>

definition top_task :: "os_state \<Rightarrow> nat \<Rightarrow> nat \<Rightarrow> bool" where
  "top_task k p i \<longleftrightarrow> running_task k p i \<and> OSIntNesting k = 0 \<and> OSLockNesting k = 0 \<and>
     (\<forall>q j. task_at k q j \<longrightarrow> p \<le> q)"

lemma top_task_stays:
  assumes top: "top_task k p i" and keep: "os_keep k k'" and sub: "ready_set k \<subseteq> ready_set k'"
    and w: "\<And>e. wait_set e k' \<subseteq> wait_set e k"
    and cur: "highest_runs k' \<or> OSTCBCur k' = OSTCBCur k \<and> OSPrioCur k' = OSPrioCur k"
  shows "top_task k' p i"
proof -
  have k: "running_task k p i" "\<And>q j. task_at k q j \<Longrightarrow> p \<le> q" using top by (auto simp: top_task_def)
  have at: "task_at k' = task_at k" using os_keepD(10) [OF keep] by blast
  have p: "p \<in> ready_set k'" "\<And>e. p \<notin> wait_set e k'" "task_at k' p i"
    using k(1) sub w at by (auto simp: running_task_def)
  have "\<forall>q \<in> ready_set k'. p \<le> q" using kernel_okD(5) [OF os_keepD(1) [OF keep]] k(2) at by metis
  then have "Min (ready_set k') = p" using p(1) bm.finite_law [OF kernel_okD(2) [OF os_keepD(1) [OF keep]]]
    by (intro Min_eqI) (auto simp: ready_set_def)
  then have "OSTCBCur k' = TCB_AT i \<and> unat (OSPrioCur k') = p" if "highest_runs k'"
    using that task_at_fun [OF p(3)] unfolding highest_runs_def cur_ok_def by metis
  then have "OSTCBCur k' = TCB_AT i \<and> unat (OSPrioCur k') = p"
    using cur k(1) unfolding running_task_def by metis
  then show ?thesis
    using p k(2) at os_keepD(6,7) [OF keep] top by (simp add: top_task_def running_task_def)
qed

lemma raise_flag_top:
  assumes ok: "kernel_in s" and sem: "is_sem e (os s)" and top: "top_task (os s) p i"
  shows "\<exists>s'. raise_flag (Some e) s = Some s' \<and> only_os s s' \<and> sem_abs e (os s') = flag_turn (sem_abs e (os s)) \<and>
     (\<forall>e'. e' \<noteq> e \<longrightarrow> sem_abs e' (os s') = sem_abs e' (os s)) \<and> top_task (os s') p i"
proof -
  obtain s' where s': "raise_flag (Some e) s = Some s'" "only_os s s'"
    "sem_abs e (os s') = flag_turn (sem_abs e (os s))" "\<forall>e'. e' \<noteq> e \<longrightarrow> sem_abs e' (os s') = sem_abs e' (os s)"
    "ready_set (os s) \<subseteq> ready_set (os s')"
    "highest_runs (os s') \<or> OSTCBCur (os s') = OSTCBCur (os s) \<and> OSPrioCur (os s') = OSPrioCur (os s)"
    using raise_flag_ok [OF ok sem] top by (auto simp: top_task_def)
  have "snd (flag_turn v) \<subseteq> snd v" for v by (cases v) (simp add: flag_turn_def)
  then have "snd (sem_abs e' (os s')) \<subseteq> snd (sem_abs e' (os s))" for e'
    using s'(3,4) by (cases "e' = e") simp_all
  then have "wait_set e' (os s') \<subseteq> wait_set e' (os s)" for e' by (simp add: sem_abs_def)
  from top_task_stays [OF top only_os_keep [OF s'(2)] s'(5) this s'(6)] show ?thesis using s' by blast
qed

lemma q_post_ok:
  assumes ok: "kernel_in s" and q: "is_queue e q (os s)"
  shows "\<exists>s'. q_post (Some e) m s = Some s' \<and> only_os s s' \<and>
     messages q (os s') = (if wait_set e (os s) = {} \<and> length (messages q (os s)) < capacity q (os s)
                      then messages q (os s) @ [m] else messages q (os s)) \<and>
     (\<forall>e'. e' \<noteq> e \<longrightarrow> sem_abs e' (os s') = sem_abs e' (os s)) \<and>
     (OSIntNesting (os s) \<noteq> 0 \<or> wait_set e (os s) = {} \<longrightarrow>
        OSTCBCur (os s') = OSTCBCur (os s) \<and> OSPrioCur (os s') = OSPrioCur (os s))"
proof -
  obtain err k where k: "OSQPost (Some e) m (os s) = Some (err, k)" "os_keep (os s) k"
    "messages q k = (if wait_set e (os s) = {} \<and> length (messages q (os s)) < capacity q (os s)
                      then messages q (os s) @ [m] else messages q (os s))"
    "\<forall>e'. e' \<noteq> e \<longrightarrow> sem_abs e' k = sem_abs e' (os s)"
    "OSIntNesting (os s) \<noteq> 0 \<or> wait_set e (os s) = {} \<longrightarrow> OSTCBCur k = OSTCBCur (os s) \<and> OSPrioCur k = OSPrioCur (os s)"
    using OSQPost_keep [of "os s" e q m] ok q by (auto simp: kernel_in_def)
  have "q_post (Some e) m s = Some (s\<lparr> os := k \<rparr>)" using k(1) by (simp add: q_post_def)
  then show ?thesis using k(3-5) only_os_new [OF k(2)] by simp
qed

text \<open>C31: Raising a failure flag is not idempotent: the idiom \<open>if (OSSemAccept(f) == 0) OSSemPost(f)\<close>,
  run when no task waits for the flag, sets a flag that is down to 1, and takes one off a flag that is
  up, so that raising a flag twice before anyone looks at it leaves it down. (With a waiting task a
  flag that is down wakes the highest priority waiter and stays down.) Nothing else changes and the
  kernel stays consistent.\<close>

theorem raise_flag_toggles:
  assumes ok: "kernel_in s" and sem: "is_sem e (os s)" and val: "sem_abs e (os s) = (c, {})"
  shows "\<exists>s' s''. raise_flag (Some e) s = Some s' \<and> kernel_in s' \<and> sem_abs e (os s') = (if c = 0 then 1 else c - 1, {}) \<and>
     (\<forall>e'. e' \<noteq> e \<longrightarrow> sem_abs e' (os s') = sem_abs e' (os s)) \<and>
     raise_flag (Some e) s' = Some s'' \<and> (c = 0 \<longrightarrow> sem_abs e (os s'') = (0, {}))"
proof -
  obtain s' where s': "raise_flag (Some e) s = Some s'" "only_os s s'"
    "sem_abs e (os s') = flag_turn (sem_abs e (os s))" "\<forall>e'. e' \<noteq> e \<longrightarrow> sem_abs e' (os s') = sem_abs e' (os s)"
    using raise_flag_ok [OF ok sem] by blast
  have ok': "kernel_in s'" "is_sem e (os s')"
    using only_os_kernel [OF s'(2)] os_keepD(4) [OF only_os_keep [OF s'(2)]] sem by simp_all
  obtain s'' where s'': "raise_flag (Some e) s' = Some s''" "sem_abs e (os s'') = flag_turn (sem_abs e (os s'))"
    using raise_flag_ok [OF ok'] by blast
  show ?thesis using s' s'' ok' val by (simp add: flag_turn_def)
qed

section \<open>Delays\<close>

lemma OSTimeDlyHMSM_ms:
  assumes "OSIntNesting k = 0" "ms \<noteq> 0" "ms \<le> 999"
  shows "OSTimeDlyHMSM 0 0 0 ms k = (OS_ERR_NONE, [ms])"
proof -
  have u: "unat ms \<le> 999" using assms(3) by (simp add: word_le_unat)
  have m: "(1000 * (ucast ms + 500 div 1000) div 1000 :: INT32U) = ucast ms" by (rule ms_ticks [OF assms(3)])
  have "(ucast ms :: INT32U) AND 65535 = ucast ms"
  proof -
    have "(ucast ms :: INT32U) AND 65535 = take_bit 16 (ucast ms)" by (simp add: take_bit_eq_mask mask_eq_exp_minus_1)
    then show ?thesis using u by (simp add: word_unat_eq_iff unsigned_take_bit_eq take_bit_eq_mod unat_mod_distrib)
  qed
  moreover have "(drop_bit 16 (ucast ms) :: INT32U) = 0"
    using u by (simp add: word_unat_eq_iff unat_drop_bit_eq drop_bit_eq_div unat_div_distrib)
  ultimately show ?thesis
    using assms m by (simp add: OSTimeDlyHMSM_def Let_def not_less)
qed

lemma time_dly_ok:
  assumes ok: "kernel_in s" and run: "running_task (os s) p i" and p: "p \<noteq> OS_LOWEST_PRIO"
    and lk: "OSIntNesting (os s) = 0" "OSLockNesting (os s) = 0" and ms: "ms \<noteq> 0" "ms \<le> 999"
  shows "\<exists>s'. time_dly_hmsm 0 0 0 ms s = Some s' \<and> only_os s s' \<and> (\<forall>e. sem_abs e (os s') = sem_abs e (os s)) \<and>
     ready_set (os s') = ready_set (os s) - {p} \<and> highest_runs (os s') \<and> OSTCBDly (TCB (os s') i) = ms"
proof -
  have k: "kernel_ok (os s)" "cur_ok (os s)" using ok by (simp_all add: kernel_in_def)
  obtain s1 s' where s': "OSTimeDly ms (os s) = Some s'" "sched_frame (os s) s1" "switch_frame s1 s'" "kernel_ok s1"
    "kernel_ok s'" "highest_runs s'" "ready_set s1 = ready_set (os s) - {p}" "\<And>e. wait_set e s1 = wait_set e (os s)"
    "unat (OSPrioCur s') \<noteq> p" "TCB s1 = (TCB (os s))(i := (TCB (os s) i)\<lparr> OSTCBDly := ms \<rparr>)"
    by (rule OSTimeDly_frames [OF k(1) run p lk ms(1)]) blast
  have "os_keep (os s) s1" by (rule frame_keep [OF s'(2,4) k(2)]) (simp add: s'(10))
  then have keep: "os_keep (os s) s'"
    using os_keep_trans switch_keep [OF s'(3,5)] s'(6) by (auto simp: highest_runs_def)
  have go: "time_dly_hmsm 0 0 0 ms s = Some (s\<lparr> os := s' \<rparr>)"
    using s'(1) OSTimeDlyHMSM_ms [OF lk(1) ms] by (simp add: time_dly_hmsm_def)
  have "sem_abs e s' = sem_abs e (os s)" for e
    using sched_frame_event [OF s'(2)] s'(8) by (simp add: sem_abs_def switch_frame_sets [OF s'(3)])
  then show ?thesis
    using go only_os_new [OF keep] s'(6,7,10) by (simp add: switch_frame_sets [OF s'(3)] switch_frame_task [OF s'(3)])
qed

text \<open>A concrete state: the example kernel, whose semaphore 2 is up and whose semaphore 0 has a waiting
  task, motor modules in step, and the alarms of the theory \<open>Alarm\<close>.\<close>

definition example_pwm :: "INT32U \<Rightarrow> pwm_gen_module" where
  "example_pwm base = \<lparr> period_base = base, duty_base = base + 4, control_base = base + 8, period = 2500,
     duty_count = 2500, duty_cycle = 1000, control = 1, reserved = 0 \<rparr>"

definition example_thr :: throttle_vars where
  "example_thr = \<lparr> t_pc = T_Loop, watchdog_throttle_position = Some 4, watchdog_rpm_matching = None,
     expected_rpm = 0, expected_tps_reading = 850, slip_control_mode = FALSE, last_apps_1_reading = 0,
     rpm_matching_delay_counter = 0, curr_duty_cycle = 580, curr_tps_reading = 850,
     pwm_engine_sound = example_pwm 64, pwm_throttle_open = example_pwm 16, pwm_throttle_close = example_pwm 32 \<rparr>"

definition example_app :: app_state where
  "example_app =
     \<lparr> blocks = blocks example_alarms, head_next = head_next example_alarms,
       head_previous = head_previous example_alarms, nticks = 100, tick_rate = 1000,
       heap_live = {1, 2, 3, 4}, heap_faults = [],
       os = example_os, io = \<lparr> reg8 = (\<lambda>_. 1), reg32 = (\<lambda>_. 2500) \<rparr>, adc_reg = (\<lambda>_. 1000),
       reqs = (\<lambda>_. \<lparr> req_curr_gear = 1, req_new_gear = 2 \<rparr>), req_live = {}, tables = the_tables,
       shift_matching_q = Some 1, apps_failure_flag = Some 2, tps_failure_flag = Some 2,
       motor_failure_flag = Some 2, throttle_task_external_failure_flag = Some 2,
       throttle_task_failure_resolved_flag = Some 0, exit_shift_matching_flag = Some 0, failure_code_q = Some 1,
       failure_msg_q = Some 1, matching_result_q = Some 1, btn_input_q = Some 1,
       solenoid_external_failure_flag = Some 2, solenoid_failure_resolved_flag = Some 0,
       rpm_matching_result_q = Some 1, isr_data = 4, tps_check_alarm = None, apps_check_alarm = None,
       thr = example_thr,
       sol = \<lparr> s_pc = S_Loop, curr_gear = 1, new_gear = 1, shift_command = 0, s_shift_matching_q = None, req = 0,
               shift_alarm = Some 3 \<rparr>,
       fh = \<lparr> f_pc = F_Loop, error_led = 0, next_clear_switch_val = 1 \<rparr> \<rparr>"

lemma example_app_os [simp]: "os example_app = example_os"
  by (simp add: example_app_def)

lemma example_kernel_in: "kernel_in example_app"
  using example_kernel_ok example_cur_ok by (simp add: kernel_in_def)

lemma example_flags: "is_sem 2 example_os" "sem_abs 2 example_os = (1, {})" "is_sem 0 example_os"
  "sem_abs 0 example_os = (0, {5})"
  by (simp_all add: is_sem_def sem_abs_def example_ecbs_def example_sets)

theorem raise_flag_toggles_witness:
  "\<exists>s'. raise_flag (Some 2) example_app = Some s' \<and> sem_abs 2 (os s') = (0, {})"
  using raise_flag_toggles [OF example_kernel_in, of 2 1] example_flags by auto

end
