(* ===== verification/Interrupts.thy ===== *)
theory Interrupts imports Irq Throttle_Correct Solenoid Failure_Handler App_Kernel begin

text \<open>
  The interrupts of the program: the timer interrupt, which runs \<open>alt_tick\<close> with the callbacks of the
  tasks and then the tick of the kernel, and the button interrupt, both between the kernel's interrupt
  entry and exit. The callbacks meet the contract \<open>alarm_callbacks\<close> of the tick, so that a tick always
  ends, visits each active alarm once, and leaves the kernel consistent; a callback that frees its own
  alarm leaves the task with a pointer to freed memory.
\<close>

section \<open>Handlers\<close>

definition run_callback :: "callback \<Rightarrow> nat \<Rightarrow> app_state \<Rightarrow> (INT32U \<times> app_state) option" where
  "run_callback c context s =
     (case c of
        Watchdog_Throttle_Position \<Rightarrow> watchdog_throttle_position_callback context s
      | Watchdog_Rpm_Matching \<Rightarrow> watchdog_rpm_matching_callback context s
      | Apps_Value_Comp \<Rightarrow> apps_value_comp_callback context s
      | Tps_Value_Comp \<Rightarrow> tps_value_comp_callback context s
      | Solenoid_Callback \<Rightarrow> solenoid_callback context s)"

definition os_time_tick :: "app_state \<Rightarrow> app_state option" where
  "os_time_tick s = do { k \<leftarrow> OSTimeTick (os s); Some (s\<lparr> os := k \<rparr>) }"

definition int_enter :: "app_state \<Rightarrow> app_state" where
  "int_enter s = s\<lparr> os := OSIntEnter (os s) \<rparr>"

definition int_exit :: "app_state \<Rightarrow> app_state option" where
  "int_exit s = do { k \<leftarrow> OSIntExit (os s); Some (s\<lparr> os := k \<rparr>) }"

text \<open>The handler of the system clock's timer. It writes the timer's status register; interrupts are disabled around
  the tick, as they already are.\<close>

definition SYS_CLK_TIMER_BASE :: INT32U where "SYS_CLK_TIMER_BASE = 0x4009060"
definition SYS_CLK_TIMER_IRQ :: INT32U where "SYS_CLK_TIMER_IRQ = 0"
definition BUTTONS_IRQ :: INT32U where "BUTTONS_IRQ = 4"

definition alt_avalon_timer_sc_irq :: "INT32U \<Rightarrow> app_state \<Rightarrow> app_state option" where
  "alt_avalon_timer_sc_irq base s = alt_tick run_callback os_time_tick (s\<lparr> io := io_write32 base 0 (io s) \<rparr>)"

text \<open>The handlers the program registers, as the values of a function pointer, and a call through it.\<close>

datatype isr = Alt_Avalon_Timer_Sc_Irq | Isr_Btn

definition run_isr :: "isr \<Rightarrow> INT32U \<Rightarrow> INT32U \<Rightarrow> app_state \<Rightarrow> app_state option" where
  "run_isr h context i s = (case h of Alt_Avalon_Timer_Sc_Irq \<Rightarrow> alt_avalon_timer_sc_irq context s | Isr_Btn \<Rightarrow> isr_btn s)"

text \<open>An interrupt: the readings are those of the register of pending lines, the first of them not zero.\<close>

definition alt_irq_handler :: "isr irq_unit \<Rightarrow> INT32U list \<Rightarrow> app_state \<Rightarrow> app_state option" where
  "alt_irq_handler u reads s = do { s \<leftarrow> irq_loop run_isr (alt_irq u) reads (int_enter s); int_exit s }"

text \<open>The interrupts that serve one line only.\<close>

definition timer_interrupt :: "app_state \<Rightarrow> app_state option" where
  "timer_interrupt s = do { s \<leftarrow> alt_avalon_timer_sc_irq SYS_CLK_TIMER_BASE (int_enter s); int_exit s }"

definition button_interrupt :: "app_state \<Rightarrow> app_state option" where
  "button_interrupt s = do { s \<leftarrow> isr_btn (int_enter s); int_exit s }"

text \<open>What the start-up registers: the timer in the driver's initialisation, the buttons in the solenoid task.\<close>

definition lines_registered :: "isr irq_unit \<Rightarrow> bool" where
  "lines_registered u \<longleftrightarrow> alt_irq u SYS_CLK_TIMER_IRQ = (Some Alt_Avalon_Timer_Sc_Irq, SYS_CLK_TIMER_BASE) \<and>
     alt_irq u BUTTONS_IRQ = (Some Isr_Btn, 0) \<and> ienable u = 17"

lemma first_line_pow [simp]: "n < 32 \<Longrightarrow> first_line (2 ^ n) = n"
proof -
  assume n: "n < 32"
  then have "(2 ^ n :: INT32U) \<noteq> 0" by (simp add: exp_eq_zero_iff)
  note f = first_line_least [OF this]
  then show ?thesis by (auto simp: bit_exp_iff)
qed

lemma one_line:
  assumes "lines_registered u"
  shows "alt_irq_handler u [1, 0] s = timer_interrupt s" "alt_irq_handler u [16, 0] s = button_interrupt s"
proof -
  have "alt_irq u 0 = (Some Alt_Avalon_Timer_Sc_Irq, SYS_CLK_TIMER_BASE)" "alt_irq u 4 = (Some Isr_Btn, 0)"
    using assms by (simp_all add: lines_registered_def SYS_CLK_TIMER_IRQ_def BUTTONS_IRQ_def)
  moreover have "irq_scan 1 1 0 = Some 0" "irq_scan 16 1 0 = Some 4"
    using irq_scan_first [of "2 ^ 0"] irq_scan_first [of "2 ^ 4"] first_line_pow [of 0] first_line_pow [of 4] by simp_all
  ultimately show "alt_irq_handler u [1, 0] s = timer_interrupt s" "alt_irq_handler u [16, 0] s = button_interrupt s"
    by (simp_all add: alt_irq_handler_def irq_serve_def timer_interrupt_def button_interrupt_def run_isr_def)
qed

section \<open>The handles\<close>

definition flags :: "app_state \<Rightarrow> event_ptr list" where
  "flags s = [motor_failure_flag s, apps_failure_flag s, tps_failure_flag s, throttle_task_external_failure_flag s,
     throttle_task_failure_resolved_flag s, exit_shift_matching_flag s, solenoid_external_failure_flag s,
     solenoid_failure_resolved_flag s]"

definition queues :: "app_state \<Rightarrow> event_ptr list" where
  "queues s = [failure_msg_q s, failure_code_q s, matching_result_q s, rpm_matching_result_q s, btn_input_q s,
     shift_matching_q s]"

definition wired :: "app_state \<Rightarrow> bool" where
  "wired s \<longleftrightarrow> (\<forall>f \<in> set (flags s). \<exists>e. f = Some e \<and> is_sem e (os s)) \<and>
     (\<forall>h \<in> set (queues s). \<exists>e q. h = Some e \<and> is_queue e q (os s))"

lemma wired_keep:
  assumes "wired s" "flags s' = flags s" "queues s' = queues s" "os_keep (os s) (os s')"
  shows "wired s'"
  using assms(1) os_keepD(4,5) [OF assms(4)] unfolding wired_def assms(2,3) by blast

lemma wired_handles:
  assumes "wired s"
  shows "\<exists>e. motor_failure_flag s = Some e \<and> is_sem e (os s)" "\<exists>e. apps_failure_flag s = Some e \<and> is_sem e (os s)"
    "\<exists>e. tps_failure_flag s = Some e \<and> is_sem e (os s)" "\<exists>e. exit_shift_matching_flag s = Some e \<and> is_sem e (os s)"
    "\<exists>e. throttle_task_external_failure_flag s = Some e \<and> is_sem e (os s)"
    "\<exists>e q. failure_msg_q s = Some e \<and> is_queue e q (os s)" "\<exists>e q. matching_result_q s = Some e \<and> is_queue e q (os s)"
    "\<exists>e q. btn_input_q s = Some e \<and> is_queue e q (os s)"
  using assms by (simp_all add: wired_def flags_def queues_def)

text \<open>The alarm operations do not touch the rest of the state, the kernel calls nothing but the kernel.\<close>

lemma more_same:
  assumes "alarm_state.more s' = alarm_state.more s"
  shows "os s' = os s" "io s' = io s" "flags s' = flags s" "queues s' = queues s" "thr s' = thr s" "sol s' = sol s"
    "fh s' = fh s" "adc_reg s' = adc_reg s" "tables s' = tables s" "isr_data s' = isr_data s"
  using assms by (cases s; cases s'; simp add: flags_def queues_def)+

lemma only_os_same:
  assumes "only_os s s'"
  shows "io s' = io s" "flags s' = flags s" "queues s' = queues s" "thr s' = thr s" "sol s' = sol s" "fh s' = fh s"
    "blocks s' = blocks s" "head_next s' = head_next s" "head_previous s' = head_previous s" "nticks s' = nticks s"
    "heap_live s' = heap_live s" "heap_faults s' = heap_faults s" "tick_rate s' = tick_rate s"
proof -
  have s': "s' = s\<lparr> os := os s' \<rparr>" using assms by (simp add: only_os_def)
  have "io (s\<lparr> os := k \<rparr>) = io s" "flags (s\<lparr> os := k \<rparr>) = flags s" "queues (s\<lparr> os := k \<rparr>) = queues s"
    "thr (s\<lparr> os := k \<rparr>) = thr s" "sol (s\<lparr> os := k \<rparr>) = sol s" "fh (s\<lparr> os := k \<rparr>) = fh s" for k
    by (simp_all add: flags_def queues_def)
  then show "io s' = io s" "flags s' = flags s" "queues s' = queues s" "thr s' = thr s" "sol s' = sol s"
    "fh s' = fh s" using s' by metis+
  show "blocks s' = blocks s" "head_next s' = head_next s" "head_previous s' = head_previous s"
    "nticks s' = nticks s" "heap_live s' = heap_live s" "heap_faults s' = heap_faults s" "tick_rate s' = tick_rate s"
    by (subst s', simp)+
qed

lemma only_os_wired: "only_os s s' \<Longrightarrow> wired s \<Longrightarrow> wired s'"
  using only_os_same [of s s'] only_os_keep wired_keep by blast

section \<open>The contract of the callbacks\<close>

text \<open>What a callback for alarm \<open>a\<close> may do, seen by the tick.\<close>

definition callback_effect :: "nat \<Rightarrow> app_state \<Rightarrow> app_state \<Rightarrow> bool" where
  "callback_effect a s s' \<longleftrightarrow>
     (\<forall>xs. alarm_list s xs \<and> a \<in> set xs \<longrightarrow> alarm_list (alt_alarm_stop a s') (remove1 a xs)) \<and>
     nticks s' = nticks s \<and> tick_rate s' = tick_rate s \<and> (\<forall>b. same_payload (blocks s' b) (blocks s b)) \<and>
     flags s' = flags s \<and> queues s' = queues s \<and> thr s' = thr s \<and> os_keep (os s) (os s')"

text \<open>Stopping an alarm and changing the kernel commute.\<close>

lemma os_update_links [simp]:
  "get_next n (s\<lparr> os := k \<rparr>) = get_next n s" "get_previous n (s\<lparr> os := k \<rparr>) = get_previous n s"
  "set_next n m (s\<lparr> os := k \<rparr>) = (set_next n m s)\<lparr> os := k \<rparr>"
  "set_previous n m (s\<lparr> os := k \<rparr>) = (set_previous n m s)\<lparr> os := k \<rparr>"
  by (cases n; simp add: get_next.simps get_previous.simps set_next.simps set_previous.simps set_block_def)+

lemma stop_os_update: "alt_alarm_stop a (s\<lparr> os := k \<rparr>) = (alt_alarm_stop a s)\<lparr> os := k \<rparr>"
proof -
  have "touch a (s\<lparr> os := k \<rparr>) = (touch a s)\<lparr> os := k \<rparr>" by (simp add: touch_def)
  then show ?thesis by (simp add: alt_alarm_stop_def alt_llist_remove_def Let_def)
qed

lemma alarm_list_os_update [simp]: "alarm_list (s\<lparr> os := k \<rparr>) xs = alarm_list s xs"
  by (rule alarm_list_cong) simp_all

lemma effect_os:
  assumes "callback_effect a s s1" "only_os s1 s2"
  shows "callback_effect a s s2"
proof -
  note same = only_os_same [OF assms(2)]
  have "alarm_list (alt_alarm_stop a s2) xs = alarm_list (alt_alarm_stop a s1) xs" for xs
    using assms(2) stop_os_update [of a "os s2" s1] unfolding only_os_def by (metis alarm_list_os_update)
  then show ?thesis
    using assms same os_keep_trans [OF _ only_os_keep [OF assms(2)]] by (simp add: callback_effect_def)
qed

text \<open>Device writes, and the freeing of the own alarm.\<close>

lemma io_update_links [simp]:
  "get_next n (s\<lparr> io := r \<rparr>) = get_next n s" "get_previous n (s\<lparr> io := r \<rparr>) = get_previous n s"
  by (cases n; simp add: get_next.simps get_previous.simps)+

lemma alarm_list_io_update [simp]: "alarm_list (s\<lparr> io := r \<rparr>) xs = alarm_list s xs"
  by (rule alarm_list_cong) simp_all

lemma effect_io:
  assumes "callback_effect a (s\<lparr> io := r \<rparr>) s'"
  shows "callback_effect a s s'"
proof -
  have "flags (s\<lparr> io := r \<rparr>) = flags s" "queues (s\<lparr> io := r \<rparr>) = queues s" by (simp_all add: flags_def queues_def)
  with assms show ?thesis by (simp add: callback_effect_def)
qed

lemma effect_nothing:
  assumes "kernel_in s"
  shows "callback_effect a s s"
  using assms stop_list(1) os_keep_refl by (auto simp: callback_effect_def kernel_in_def)

lemma clean_context_cases:
  assumes "a \<noteq> 0"
  shows "clean_context a s = free a (alt_alarm_stop a s)"
  using assms by (simp add: clean_context_def clean_alarm_def)

lemma clean_context_same:
  assumes "a \<noteq> 0"
  shows "os (clean_context a s) = os s" "io (clean_context a s) = io s" "flags (clean_context a s) = flags s"
    "queues (clean_context a s) = queues s" "thr (clean_context a s) = thr s" "adc_reg (clean_context a s) = adc_reg s"
    "heap_live (clean_context a s) = heap_live s - {a}"
proof -
  have "alarm_state.more (clean_context a s) = alarm_state.more s" by (simp add: clean_context_cases [OF assms])
  from more_same [OF this] show "os (clean_context a s) = os s" "io (clean_context a s) = io s"
    "flags (clean_context a s) = flags s" "queues (clean_context a s) = queues s" "thr (clean_context a s) = thr s"
    "adc_reg (clean_context a s) = adc_reg s" by simp_all
  show "heap_live (clean_context a s) = heap_live s - {a}" by (simp add: clean_context_cases [OF assms])
qed

lemma effect_clean:
  assumes "a \<noteq> 0" "kernel_in s"
  shows "callback_effect a s (clean_context a s)"
proof -
  have "alarm_list (alt_alarm_stop a (clean_context a s)) (remove1 a xs)" if l: "alarm_list s xs" "a \<in> set xs" for xs
  proof -
    have r: "alarm_list (clean_context a s) (remove1 a xs)" "detached a (clean_context a s)"
      using stop_list(1) [OF l] by (simp_all add: clean_context_cases [OF assms(1)])
    moreover have "a \<notin> set (remove1 a xs)" using l(1) by (simp add: alarm_list_def)
    ultimately show ?thesis using stop_list(2) by blast
  qed
  moreover have "same_payload (blocks (clean_context a s) b) (blocks s b)" for b
    by (simp add: clean_context_cases [OF assms(1)])
  ultimately show ?thesis
    using assms(2) clean_context_same [OF assms(1), of s] os_keep_refl
    by (simp add: callback_effect_def kernel_in_def clean_context_cases [OF assms(1)])
qed

section \<open>Each callback meets the contract\<close>

text \<open>Raise a flag and post a failure code: the end of three callbacks.\<close>

lemma flag_and_code:
  assumes "kernel_in s" "is_sem e (os s)" "failure_msg_q s = Some f" "is_queue f q (os s)"
  shows "\<exists>s'. do { s \<leftarrow> raise_flag (Some e) s; s \<leftarrow> q_post (failure_msg_q s) m s; Some (0 :: INT32U, s) } = Some (0, s') \<and>
     only_os s s'"
proof -
  obtain s1 where s1: "raise_flag (Some e) s = Some s1" "only_os s s1"
    using raise_flag_ok [OF assms(1,2)] by blast
  have h: "failure_msg_q s1 = Some f" "is_queue f q (os s1)"
    using only_os_same(3) [OF s1(2)] assms(3,4) os_keepD(5) [OF only_os_keep [OF s1(2)]] by (simp_all add: queues_def)
  obtain s2 where s2: "q_post (Some f) m s1 = Some s2" "only_os s1 s2"
    using q_post_ok [OF only_os_kernel [OF s1(2)] h(2)] by blast
  show ?thesis using s1 s2 h(1) only_os_trans [OF s1(2) s2(2)] by simp
qed

lemma callback_ok:
  assumes ok: "kernel_in s" "wired s" and ctx: "c \<noteq> Solenoid_Callback \<Longrightarrow> ctx = a \<and> a \<noteq> 0"
  shows "\<exists>s'. run_callback c ctx s = Some (0, s') \<and> callback_effect a s s'"
proof (cases c)
  case Solenoid_Callback
  define s1 where "s1 = s\<lparr> io := io_write32 SOLENOID_OUT_BASE CLEAR_BUTTON_DATA (io s) \<rparr>"
  obtain e where e: "exit_shift_matching_flag s = Some e" "is_sem e (os s)" using wired_handles(4) [OF ok(2)] by blast
  have k1: "kernel_in s1" "os s1 = os s" using ok(1) by (simp_all add: s1_def kernel_in_def)
  obtain s2 where s2: "raise_flag (Some e) s1 = Some s2" "only_os s1 s2"
    using raise_flag_ok [OF k1(1), of e] e(2) k1(2) by metis
  have "exit_shift_matching_flag (snd (sem_accept (Some e) s1)) = Some e"
    using e by (simp add: sem_accept_def s1_def Let_def split: prod.splits)
  then have "signal_exit_shift_matching s1 = Some s2"
    using s2(1) e by (auto simp: signal_exit_shift_matching_def raise_flag_def s1_def split: prod.splits if_splits)
  then have "run_callback c ctx s = Some (0, s2)"
    unfolding Solenoid_Callback run_callback_def callback.case solenoid_callback_def s1_def [symmetric] by simp
  moreover have "callback_effect a s s2"
    using effect_os [OF effect_nothing [OF k1(1)] s2(2)] unfolding s1_def by (rule effect_io)
  ultimately show ?thesis by blast
next
  case Watchdog_Throttle_Position
  then have a: "ctx = a" "a \<noteq> 0" using ctx by auto
  define s1 where "s1 = clean_context a s"
  note same = clean_context_same [OF a(2), of s, folded s1_def]
  have k1: "kernel_in s1" using ok(1) same by (simp add: kernel_in_def)
  obtain e f q where h: "motor_failure_flag s1 = Some e" "is_sem e (os s1)" "failure_msg_q s1 = Some f"
    "is_queue f q (os s1)"
    using wired_handles(1,6) [OF ok(2)] same by (auto simp: flags_def queues_def)
  obtain s2 where s2: "do { s \<leftarrow> raise_flag (Some e) s1; s \<leftarrow> q_post (failure_msg_q s) ERR_EXPECTED_THROTTLE_POS_MISMATCH s;
      Some (0 :: INT32U, s) } = Some (0, s2)" "only_os s1 s2"
    using flag_and_code [OF k1 h(2-4), where m = ERR_EXPECTED_THROTTLE_POS_MISMATCH] by blast
  then have "run_callback c ctx s = Some (0, s2)"
    using h(1) by (simp add: Watchdog_Throttle_Position run_callback_def watchdog_throttle_position_callback_def a s1_def)
  then show ?thesis using effect_os [OF effect_clean [OF a(2) ok(1), folded s1_def] s2(2)] by blast
next
  case Watchdog_Rpm_Matching
  then have a: "ctx = a" "a \<noteq> 0" using ctx by auto
  define s1 where "s1 = clean_context a s"
  note same = clean_context_same [OF a(2), of s, folded s1_def]
  have k1: "kernel_in s1" using ok(1) same by (simp add: kernel_in_def)
  obtain f q where h: "matching_result_q s1 = Some f" "is_queue f q (os s1)"
    using wired_handles(7) [OF ok(2)] same by (auto simp: queues_def)
  obtain s2 where s2: "q_post (Some f) SHIFT_MATCHING_RESULT_FAIL s1 = Some s2" "only_os s1 s2"
    using q_post_ok [OF k1 h(2)] by blast
  then have "run_callback c ctx s = Some (0, s2)"
    using h(1) by (simp add: Watchdog_Rpm_Matching run_callback_def watchdog_rpm_matching_callback_def
        signal_shift_failure_def a s1_def)
  then show ?thesis using effect_os [OF effect_clean [OF a(2) ok(1), folded s1_def] s2(2)] by blast
next
  case Apps_Value_Comp
  then have a: "ctx = a" "a \<noteq> 0" using ctx by auto
  define s0 where "s0 = alt_up_de0_nano_adc_update s"
  define s1 where "s1 = clean_context a s0"
  note same = clean_context_same [OF a(2), of s0, folded s1_def]
  have s0: "os s0 = os s" "flags s0 = flags s" "queues s0 = queues s"
    by (simp_all add: s0_def alt_up_de0_nano_adc_update_def flags_def queues_def)
  have k: "kernel_in s0" "kernel_in s1" using ok(1) same s0 by (simp_all add: kernel_in_def)
  have eff: "callback_effect a s s1"
    using effect_clean [OF a(2) k(1), folded s1_def] unfolding s0_def alt_up_de0_nano_adc_update_def
    by (rule effect_io)
  obtain e f q where h: "apps_failure_flag s1 = Some e" "is_sem e (os s1)" "failure_msg_q s1 = Some f"
    "is_queue f q (os s1)"
    using wired_handles(2,6) [OF ok(2)] same s0 by (auto simp: flags_def queues_def)
  obtain s2 where s2: "do { s \<leftarrow> raise_flag (Some e) s1; s \<leftarrow> q_post (failure_msg_q s) ERR_APPS_READING_MISMATCH s;
      Some (0 :: INT32U, s) } = Some (0, s2)" "only_os s1 s2"
    using flag_and_code [OF k(2) h(2-4), where m = ERR_APPS_READING_MISMATCH] by blast
  then have "run_callback c ctx s = Some (0, s1) \<or> run_callback c ctx s = Some (0, s2)"
    using h(1) by (auto simp: Apps_Value_Comp run_callback_def apps_value_comp_callback_def a Let_def
        s0_def [symmetric] s1_def [symmetric])
  then show ?thesis using eff effect_os [OF eff s2(2)] by blast
next
  case Tps_Value_Comp
  then have a: "ctx = a" "a \<noteq> 0" using ctx by auto
  define s0 where "s0 = alt_up_de0_nano_adc_update s"
  define s1 where "s1 = clean_context a s0"
  note same = clean_context_same [OF a(2), of s0, folded s1_def]
  have s0: "os s0 = os s" "flags s0 = flags s" "queues s0 = queues s"
    by (simp_all add: s0_def alt_up_de0_nano_adc_update_def flags_def queues_def)
  have k: "kernel_in s0" "kernel_in s1" using ok(1) same s0 by (simp_all add: kernel_in_def)
  have eff: "callback_effect a s s1"
    using effect_clean [OF a(2) k(1), folded s1_def] unfolding s0_def alt_up_de0_nano_adc_update_def
    by (rule effect_io)
  obtain e f q where h: "tps_failure_flag s1 = Some e" "is_sem e (os s1)" "failure_msg_q s1 = Some f"
    "is_queue f q (os s1)"
    using wired_handles(3,6) [OF ok(2)] same s0 by (auto simp: flags_def queues_def)
  obtain s2 where s2: "do { s \<leftarrow> raise_flag (Some e) s1; s \<leftarrow> q_post (failure_msg_q s) ERR_TPS_READING_MISMATCH s;
      Some (0 :: INT32U, s) } = Some (0, s2)" "only_os s1 s2"
    using flag_and_code [OF k(2) h(2-4), where m = ERR_TPS_READING_MISMATCH] by blast
  then have "run_callback c ctx s = Some (0, s1) \<or> run_callback c ctx s = Some (0, s2)"
    using h(1) by (auto simp: Tps_Value_Comp run_callback_def tps_value_comp_callback_def a Let_def
        s0_def [symmetric] s1_def [symmetric])
  then show ?thesis using eff effect_os [OF eff s2(2)] by blast
qed

section \<open>The tick of the application\<close>

text \<open>A kernel that has been started: consistent, with the scheduler unlocked.\<close>

definition started :: "INT8U \<Rightarrow> os_state \<Rightarrow> bool" where
  "started n k \<longleftrightarrow> kernel_ok k \<and> cur_ok k \<and> list_ok k \<and> OSRunning k = OS_TRUE \<and>
     OSTickStepState k = OS_TICK_STEP_DIS \<and> OSLockNesting k = 0 \<and> OSIntNesting k = n"

lemma started_keep: "started n k \<Longrightarrow> os_keep k k' \<Longrightarrow> started n k'"
  unfolding started_def using os_keepD by metis

text \<open>The state in which a tick may come, at interrupt level \<open>n\<close>: a started kernel, a consistent list of
  alarms, valid handles, and each alarm of the throttle task is its own context.\<close>

definition tick_ready :: "INT8U \<Rightarrow> app_state \<Rightarrow> nat list \<Rightarrow> bool" where
  "tick_ready n s xs \<longleftrightarrow> alarm_list s xs \<and> started n (os s) \<and> wired s \<and>
     (\<forall>a \<in> set xs. al_callback (blocks s a) \<noteq> Solenoid_Callback \<longrightarrow> al_context (blocks s a) = a \<and> a \<noteq> 0)"

lemma tick_ready_more:
  assumes "tick_ready n s xs" "alarm_state.more s' = alarm_state.more s" "alarm_list s' ys" "set ys \<subseteq> set xs"
    and "\<And>b. b \<in> set ys \<Longrightarrow> al_callback (blocks s' b) = al_callback (blocks s b) \<and> al_context (blocks s' b) = al_context (blocks s b)"
  shows "tick_ready n s' ys"
  using assms(1,3,4,5) more_same [OF assms(2)] by (auto simp: tick_ready_def wired_def)

lemma tick_ready_io:
  assumes "tick_ready n s xs"
  shows "tick_ready n (s\<lparr> io := r \<rparr>) xs"
proof -
  have "flags (s\<lparr> io := r \<rparr>) = flags s" "queues (s\<lparr> io := r \<rparr>) = queues s" by (simp_all add: flags_def queues_def)
  then show ?thesis using assms by (simp add: tick_ready_def wired_def)
qed

interpretation ticks: alarm_callbacks run_callback "tick_ready n" for n
proof unfold_locales
  fix n :: INT8U and s :: app_state and xs :: "nat list" and a :: nat
  assume ok: "tick_ready n s xs"
  then show "alarm_list s xs" by (simp add: tick_ready_def)
  assume a: "a \<in> set xs"
  show "tick_ready n (set_block a (roll_over (nticks s)) (touch a s)) xs"
  proof (rule tick_ready_more [OF ok])
    show "alarm_list (set_block a (roll_over (nticks s)) (touch a s)) xs"
      using ok by (simp add: tick_ready_def roll_over_def)
  qed (simp_all add: roll_over_def)
  define c where "c = al_callback (blocks s a)"
  have k: "kernel_in s" "wired s" "alarm_list s xs" using ok by (simp_all add: tick_ready_def kernel_in_def started_def)
  have ctx: "c \<noteq> Solenoid_Callback \<Longrightarrow> al_context (blocks s a) = a \<and> a \<noteq> 0"
    using ok a by (simp add: tick_ready_def c_def)
  obtain s' where s': "run_callback c (al_context (blocks s a)) s = Some (0, s')" "callback_effect a s s'"
    using callback_ok [OF k(1,2) ctx] by blast
  have pay: "same_payload (blocks (alt_alarm_stop a s') b) (blocks s b)" for b
    using s'(2) by (simp add: callback_effect_def)
  note same = more_same [of "alt_alarm_stop a s'" s', simplified]
  have "wired s'" using wired_keep [OF k(2)] s'(2) by (simp add: callback_effect_def)
  moreover have "started n (os s')"
    using s'(2) started_keep [of n "os s"] ok by (simp add: callback_effect_def tick_ready_def)
  moreover have "alarm_list (alt_alarm_stop a s') (remove1 a xs)" using s'(2) k(3) a by (simp add: callback_effect_def)
  moreover have "set (remove1 a xs) \<subseteq> set xs" by (rule set_remove1_subset)
  ultimately have "tick_ready n (alt_alarm_stop a s') (remove1 a xs)"
    using ok pay by (auto simp: tick_ready_def wired_def same same_payload_def)
  then show "\<exists>s'. run_callback (al_callback (blocks s a)) (al_context (blocks s a)) s = Some (0, s') \<and>
      tick_ready n (alt_alarm_stop a s') (remove1 a xs) \<and> nticks s' = nticks s \<and>
      (\<forall>b \<in> set xs. b \<noteq> a \<longrightarrow> same_payload (blocks s' b) (blocks s b))"
    using s' by (auto simp: c_def callback_effect_def)
qed

text \<open>Entering and leaving an interrupt.\<close>

lemma nesting_update [simp]:
  "kernel_ok (k\<lparr> OSIntNesting := m \<rparr>) = kernel_ok k" "cur_ok (k\<lparr> OSIntNesting := m \<rparr>) = cur_ok k"
  "list_ok (k\<lparr> OSIntNesting := m \<rparr>) = list_ok k" "is_sem e (k\<lparr> OSIntNesting := m \<rparr>) = is_sem e k"
  "is_queue e q (k\<lparr> OSIntNesting := m \<rparr>) = is_queue e q k" "ready_set (k\<lparr> OSIntNesting := m \<rparr>) = ready_set k"
proof -
  have same: "rdy (k\<lparr> OSIntNesting := m \<rparr>) = rdy k" "waiters e (k\<lparr> OSIntNesting := m \<rparr>) = waiters e k" for e
    by (simp_all add: rdy_def waiters_def)
  have sets: "ready_set (k\<lparr> OSIntNesting := m \<rparr>) = ready_set k" "wait_set e (k\<lparr> OSIntNesting := m \<rparr>) = wait_set e k"
    "task_at (k\<lparr> OSIntNesting := m \<rparr>) p i = task_at k p i" for e p i
    by (simp_all add: ready_set_def wait_set_def same task_at_def)
  show "kernel_ok (k\<lparr> OSIntNesting := m \<rparr>) = kernel_ok k" "cur_ok (k\<lparr> OSIntNesting := m \<rparr>) = cur_ok k"
    "ready_set (k\<lparr> OSIntNesting := m \<rparr>) = ready_set k"
    by (simp_all add: kernel_ok_def same sets task_ok_def cur_ok_def)
  show "list_ok (k\<lparr> OSIntNesting := m \<rparr>) = list_ok k" by (rule list_ok_cong) simp_all
  show "is_sem e (k\<lparr> OSIntNesting := m \<rparr>) = is_sem e k" "is_queue e q (k\<lparr> OSIntNesting := m \<rparr>) = is_queue e q k"
    by (simp_all add: is_sem_def is_queue_def q_of_def get_ring_def)
qed

lemma enter_ready:
  assumes "tick_ready 0 s xs"
  shows "tick_ready 1 (int_enter s) xs" "nticks (int_enter s) = nticks s" "blocks (int_enter s) = blocks s"
proof -
  have k: "OSIntEnter (os s) = (os s)\<lparr> OSIntNesting := 1 \<rparr>"
    using assms by (simp add: tick_ready_def started_def OSIntEnter_def)
  have "flags (s\<lparr> os := k' \<rparr>) = flags s" "queues (s\<lparr> os := k' \<rparr>) = queues s" for k'
    by (simp_all add: flags_def queues_def)
  then show "tick_ready 1 (int_enter s) xs"
    using assms by (simp add: tick_ready_def int_enter_def k started_def wired_def)
qed (simp_all add: int_enter_def)

lemma exit_ready:
  assumes "tick_ready 1 s xs"
  shows "\<exists>s'. int_exit s = Some s' \<and> tick_ready 0 s' xs \<and> highest_runs (os s') \<and> nticks s' = nticks s \<and> blocks s' = blocks s"
proof -
  define k where "k = (os s)\<lparr> OSIntNesting := 0 \<rparr>"
  have st: "started 1 (os s)" using assms by (simp add: tick_ready_def)
  then have k: "kernel_ok k" "cur_ok k" by (simp_all add: k_def started_def)
  obtain k1 k' where k': "OS_SchedNew k = Some k1" "switch_to_high k1 = Some k'" "switch_frame k k'" "highest_runs k'"
    using switch_to_high_ok [OF k] by blast
  have "OSIntExit (os s) = Some k'"
    using st k'(1,2) by (simp add: OSIntExit_def started_def k_def)
  then have go: "int_exit s = Some (s\<lparr> os := k' \<rparr>)" by (simp add: int_exit_def)
  have keep: "os_keep k k'"
    using switch_keep [OF k'(3) switch_frame_ok [OF k(1) k'(3)]] k'(4) by (simp add: highest_runs_def)
  have "started 0 k" using st by (simp add: started_def k_def)
  then have "started 0 k'" using started_keep keep by blast
  moreover have "wired (s\<lparr> os := k' \<rparr>)"
  proof -
    have "wired (s\<lparr> os := k \<rparr>)" using assms by (simp add: tick_ready_def wired_def k_def flags_def queues_def)
    then show ?thesis
      using wired_keep [of "s\<lparr> os := k \<rparr>" "s\<lparr> os := k' \<rparr>"] keep by (simp add: flags_def queues_def)
  qed
  ultimately show ?thesis using go assms k'(4) by (simp add: tick_ready_def)
qed

lemma os_tick_ready:
  assumes "tick_ready n s xs"
  shows "\<exists>s'. os_time_tick s = Some s' \<and> tick_ready n s' xs \<and> nticks s' = nticks s \<and> blocks s' = blocks s"
proof -
  have st: "started n (os s)" using assms by (simp add: tick_ready_def)
  obtain k where k: "OSTimeTick (os s) = Some k" "kernel_ok k" "list_ok k" "OSRunning k = OS_TRUE"
    "OSTickStepState k = OS_TICK_STEP_DIS" "sched_frame ((os s)\<lparr> OSTime := OSTime (os s) + 1 \<rparr>) k"
    using OSTimeTick_ok [of "os s"] st by (auto simp: started_def)
  note fr = sched_frame_tbl [OF k(6)] sched_frame_event [OF k(6)]
  have "cur_ok k" using st fr by (simp add: started_def cur_ok_def task_at_def)
  then have "started n k" using k fr st by (simp add: started_def)
  moreover have "is_sem e k = is_sem e (os s)" "is_queue e q k = is_queue e q (os s)" for e q
    using fr by (simp_all add: is_sem_def is_queue_def q_of_def get_ring_def)
  then have "wired (s\<lparr> os := k \<rparr>)" using assms by (simp add: tick_ready_def wired_def flags_def queues_def)
  ultimately show ?thesis using k(1) assms by (simp add: os_time_tick_def tick_ready_def)
qed

text \<open>C11: The timer interrupt always completes and does exactly what it should: the pointer walk of
  \<open>alt_tick\<close> runs the loop body once for each alarm active at the tick, in list order, although
  callbacks unlink and free the alarm they are called for; afterwards the active alarms are those that
  were not due; then the kernel's tick runs, the interrupt is left, and the highest priority ready task
  is the running one. Kernel, alarm list and handles are consistent again.\<close>

theorem timer_interrupt_complete:
  assumes ready: "tick_ready 0 s xs"
  shows "\<exists>s1 s'. tick_list run_callback xs
       ((int_enter s)\<lparr> nticks := nticks s + 1, io := io_write32 SYS_CLK_TIMER_BASE 0 (io s) \<rparr>) = Some s1 \<and>
     timer_interrupt s = do { s2 \<leftarrow> os_time_tick s1; int_exit s2 } \<and> timer_interrupt s = Some s' \<and>
     tick_ready 0 s' (filter (\<lambda>a. \<not> due (nticks s + 1) (blocks s a)) xs) \<and> nticks s' = nticks s + 1 \<and>
     highest_runs (os s')"
proof -
  note ent = enter_ready [OF ready]
  define s0 where "s0 = (int_enter s)\<lparr> io := io_write32 SYS_CLK_TIMER_BASE 0 (io s) \<rparr>"
  have r0: "tick_ready 1 s0 xs" unfolding s0_def by (rule tick_ready_io [OF ent(1)])
  have s0: "blocks s0 = blocks s" "nticks s0 = nticks s" "head_next s0 = head_next (int_enter s)"
    "alt_avalon_timer_sc_irq SYS_CLK_TIMER_BASE (int_enter s) = alt_tick run_callback os_time_tick s0"
    using ent(2,3) by (simp_all add: s0_def alt_avalon_timer_sc_irq_def) (simp add: int_enter_def)
  let ?s = "s0\<lparr> nticks := nticks s0 + 1 \<rparr>"
  have "tick_ready 1 ?s xs"
  proof (rule tick_ready_more [OF r0])
    show "alarm_list ?s xs" using r0 by (simp add: tick_ready_def)
  qed simp_all
  from ticks.tick_walks_list [OF this] obtain s1 where s1:
    "tick_alarms run_callback (head_next s0) ?s = Some s1" "tick_list run_callback xs ?s = Some s1"
    "nticks s1 = nticks s + 1" "tick_ready 1 s1 (filter (\<lambda>a. \<not> due (nticks s + 1) (blocks s a)) xs)"
    by (auto simp: s0(1,2))
  have same: "?s = (int_enter s)\<lparr> nticks := nticks s + 1, io := io_write32 SYS_CLK_TIMER_BASE 0 (io s) \<rparr>"
    using ent(2) by (simp add: s0_def)
  obtain s2 where s2: "os_time_tick s1 = Some s2" "nticks s2 = nticks s1"
    "tick_ready 1 s2 (filter (\<lambda>a. \<not> due (nticks s + 1) (blocks s a)) xs)"
    using os_tick_ready [OF s1(4)] by blast
  obtain s3 where s3: "int_exit s2 = Some s3" "highest_runs (os s3)" "nticks s3 = nticks s2"
    "tick_ready 0 s3 (filter (\<lambda>a. \<not> due (nticks s + 1) (blocks s a)) xs)"
    using exit_ready [OF s2(3)] by blast
  have "timer_interrupt s = Some s3"
    using s1(1) s2(1) s3(1) by (simp add: timer_interrupt_def s0(4) alt_tick_def)
  then show ?thesis using s1 s2 s3 by (simp add: same)
qed

lemma example_app_ready: "tick_ready 0 example_app [2, 1]"
proof -
  have "alarm_list example_app [2, 1] = alarm_list example_alarms [2, 1]"
    by (rule alarm_list_cong) (simp_all add: example_app_def)
  moreover have "started 0 example_os"
    using example_kernel_ok example_cur_ok example_list_ok by (simp add: started_def)
  moreover have "wired example_app"
    using example_flags(1,3) example_queue(1)
    by (auto simp: wired_def flags_def queues_def example_app_def)
  ultimately show ?thesis
    using example_alarm_list by (simp add: tick_ready_def) (simp add: example_app_def example_alarms_def)
qed

theorem timer_interrupt_complete_witness:
  "\<exists>s'. timer_interrupt example_app = Some s' \<and> alarm_list s' [2] \<and> highest_runs (os s')"
proof -
  have d: "due 101 (blocks example_app 1)" "\<not> due 101 (blocks example_app 2)" "nticks example_app = 100"
    by (simp_all add: due_def expired_def roll_over_def example_app_def example_alarms_def)
  show ?thesis using timer_interrupt_complete [OF example_app_ready] d by (auto simp: tick_ready_def)
qed

section \<open>The watchdog and its pointer\<close>

lemma position_watchdog_runs:
  assumes "kernel_in s" "wired s" "a \<noteq> 0"
  shows "\<exists>s'. run_callback Watchdog_Throttle_Position a s = Some (0, s') \<and> heap_live s' = heap_live s - {a} \<and> thr s' = thr s"
proof -
  define s1 where "s1 = clean_context a s"
  note same = clean_context_same [OF assms(3), of s, folded s1_def]
  have k1: "kernel_in s1" using assms(1) same by (simp add: kernel_in_def)
  obtain e f q where h: "motor_failure_flag s1 = Some e" "is_sem e (os s1)" "failure_msg_q s1 = Some f"
    "is_queue f q (os s1)"
    using wired_handles(1,6) [OF assms(2)] same by (auto simp: flags_def queues_def)
  obtain s2 where s2: "do { s \<leftarrow> raise_flag (Some e) s1; s \<leftarrow> q_post (failure_msg_q s) ERR_EXPECTED_THROTTLE_POS_MISMATCH s;
      Some (0 :: INT32U, s) } = Some (0, s2)" "only_os s1 s2"
    using flag_and_code [OF k1 h(2-4), where m = ERR_EXPECTED_THROTTLE_POS_MISMATCH] by blast
  then have "run_callback Watchdog_Throttle_Position a s = Some (0, s2)"
    using h(1) by (simp add: run_callback_def watchdog_throttle_position_callback_def s1_def)
  then show ?thesis using only_os_same(4,11) [OF s2(2)] same by auto
qed

text \<open>C30: When the throttle position watchdog expires, its block is used after it was freed and then freed
  twice: the callback frees the alarm, \<open>alt_tick\<close> stops the freed alarm, the task's pointer still points
  to it, and the next \<open>clean_alarm\<close> of the task stops and frees it again.\<close>

theorem expired_watchdog_freed_twice:
  assumes ready: "tick_ready n s xs" and a: "a \<in> set xs" "a \<in> heap_live s"
    and cb: "al_callback (blocks s a) = Watchdog_Throttle_Position" and d: "due (nticks s) (blocks s a)"
    and ptr: "watchdog_throttle_position (thr s) = Some a"
  shows "\<exists>s'. tick_alarm run_callback a s = Some s' \<and> a \<notin> heap_live s' \<and>
     Use_After_Free a \<in> set (heap_faults s') \<and> watchdog_throttle_position (thr s') = Some a \<and>
     Double_Free a \<in> set (heap_faults (clean_watchdog_position s'))"
proof -
  define s1 where "s1 = set_block a (roll_over (nticks s)) s"
  have more: "alarm_state.more s1 = alarm_state.more s" by (simp add: s1_def)
  note same = more_same [OF more]
  have b: "blocks s1 a = roll_over (nticks s) (blocks s a)" by (simp add: s1_def)
  then have b1: "al_callback (blocks s1 a) = Watchdog_Throttle_Position" "al_context (blocks s1 a) = a" "a \<noteq> 0"
    using ready a(1) cb by (auto simp: tick_ready_def roll_over_def)
  have "kernel_in s1" "wired s1"
    using ready same by (simp_all add: tick_ready_def started_def kernel_in_def wired_def)
  then obtain s2 where s2: "run_callback Watchdog_Throttle_Position a s1 = Some (0, s2)"
    "heap_live s2 = heap_live s1 - {a}" "thr s2 = thr s1"
    using position_watchdog_runs b1(3) by blast
  define s3 where "s3 = alt_alarm_stop a s2"
  have run: "tick_alarm run_callback a s = Some s3"
    using d a(2) b b1 s2(1) by (simp add: tick_alarm_def s1_def [symmetric] due_def s3_def) (simp add: s1_def)
  have live: "a \<notin> heap_live s3" using s2(2) by (simp add: s3_def)
  have uaf: "Use_After_Free a \<in> set (heap_faults s3)"
    using s2(2) by (simp add: s3_def alt_alarm_stop_def touch_def)
  have thr3: "thr s3 = thr s" using more_same(5) [of s3 s2] s2(3) same by (simp add: s3_def)
  then have "Double_Free a \<in> set (heap_faults (clean_watchdog_position s3))"
    using ptr live by (simp add: clean_watchdog_position_def clean_alarm_def free_def set_thr_def)
  then show ?thesis using run live uaf thr3 ptr by auto
qed

theorem expired_watchdog_freed_twice_witness:
  "\<exists>s'. tick_alarm run_callback 2 (set_thr (\<lambda>t. t\<lparr> watchdog_throttle_position := Some 2 \<rparr>)
       (set_block 2 (\<lambda>b. b\<lparr> al_callback := Watchdog_Throttle_Position, al_time := 100 \<rparr>) example_app)) = Some s' \<and>
     Double_Free 2 \<in> set (heap_faults (clean_watchdog_position s'))"
proof -
  let ?s = "set_thr (\<lambda>t. t\<lparr> watchdog_throttle_position := Some 2 \<rparr>)
       (set_block 2 (\<lambda>b. b\<lparr> al_callback := Watchdog_Throttle_Position, al_time := 100 \<rparr>) example_app)"
  have f: "os ?s = os example_app" "flags ?s = flags example_app" "queues ?s = queues example_app"
    by (simp_all add: set_thr_def set_block_def flags_def queues_def)
  have "alarm_list ?s [2, 1] = alarm_list example_app [2, 1]"
    by (rule alarm_list_cong) (simp_all add: set_thr_def)
  then have "tick_ready 0 ?s [2, 1]"
    using example_app_ready f
    by (simp add: tick_ready_def wired_def) (auto simp: set_thr_def example_app_def example_alarms_def)
  moreover have "2 \<in> heap_live ?s" "nticks ?s = 100" by (simp_all add: set_thr_def example_app_def)
  moreover have "al_callback (blocks ?s 2) = Watchdog_Throttle_Position" "al_time (blocks ?s 2) = 100"
    "al_rollover (blocks ?s 2) = 0" "watchdog_throttle_position (thr ?s) = Some 2"
    by (simp_all add: set_thr_def example_app_def example_alarms_def)
  ultimately show ?thesis
    using expired_watchdog_freed_twice [of 0 ?s "[2, 1]" 2] by (auto simp: due_def expired_def roll_over_def)
qed

end
