(* ===== verification/Task_Correct.thy ===== *)
theory Task_Correct imports Interrupts begin

text \<open>
  The properties of the throttle task on a consistent kernel: the failure flags are cleared, a failure
  stops the throttle before anything else happens, slip control closes the throttle. The failure handler is
  in \<open>Failure_Correct\<close>; what all tasks together keep is in \<open>Sys_Inv\<close>.
\<close>

section \<open>Failure flags\<close>

lemma set_cnt_twice [simp]: "set_cnt e c (set_cnt e d k) = set_cnt e c k"
  by (simp add: set_cnt_def set_event_def)

lemma drain_flag_eq:
  assumes "is_sem e (os s)"
  shows "drain_flag (Some e) s =
    Some (if OSEventCnt (ECB (os s) e) = 0 then s else s\<lparr> os := set_cnt e 0 (os s) \<rparr>)"
  using assms
proof (induction "unat (OSEventCnt (ECB (os s) e))" arbitrary: s)
  case 0
  then have "OSEventCnt (ECB (os s) e) = 0" by (simp add: unat_eq_zero)
  then show ?case
    using 0 by (subst drain_flag.simps) (simp add: sem_accept_def OSSemAccept_cnt Let_def)
next
  case (Suc n)
  let ?c = "OSEventCnt (ECB (os s) e)"
  define s1 where "s1 = s\<lparr> os := set_cnt e (?c - 1) (os s) \<rparr>"
  have c: "0 < ?c" using Suc.hyps(2) by (auto simp: word_gt_0)
  have acc: "sem_accept (Some e) s = (?c, s1)"
    using Suc.prems c by (simp add: sem_accept_def OSSemAccept_cnt Let_def s1_def)
  have "n = unat (OSEventCnt (ECB (os s1) e))" using Suc.hyps(2) c by (simp add: s1_def unat_dec)
  moreover have "is_sem e (os s1)" using Suc.prems by (simp add: s1_def is_sem_def)
  ultimately have "drain_flag (Some e) s1 =
      Some (if OSEventCnt (ECB (os s1) e) = 0 then s1 else s1\<lparr> os := set_cnt e 0 (os s1) \<rparr>)"
    by (rule Suc.hyps(1))
  then have "drain_flag (Some e) s1 = Some (s\<lparr> os := set_cnt e 0 (os s) \<rparr>)"
    by (auto simp: s1_def split: if_splits)
  then show ?case using c acc by (subst drain_flag.simps) auto
qed

lemma drain_flag_ok:
  assumes ok: "kernel_in s" and sem: "is_sem e (os s)"
  shows "\<exists>s'. drain_flag (Some e) s = Some s' \<and> only_os s s' \<and> TCB (os s') = TCB (os s) \<and>
     ready_set (os s') = ready_set (os s) \<and> OSTCBCur (os s') = OSTCBCur (os s) \<and> OSPrioCur (os s') = OSPrioCur (os s) \<and>
     (\<forall>e'. sem_abs e' (os s') = (if e' = e then (0, wait_set e (os s)) else sem_abs e' (os s)))"
proof -
  define s' where "s' = (if OSEventCnt (ECB (os s) e) = 0 then s else s\<lparr> os := set_cnt e 0 (os s) \<rparr>)"
  have k: "kernel_ok (os s)" "cur_ok (os s)" using ok by (simp_all add: kernel_in_def)
  have "only_os s s'" using set_cnt_keep [OF k] os_keep_refl [OF k] by (simp add: s'_def only_os_def)
  then show ?thesis using drain_flag_eq [OF sem] by (auto simp: s'_def sem_abs_def)
qed

lemma reset_flags_ok:
  assumes ok: "kernel_in s" and w: "wired s"
  shows "\<exists>s'. reset_failure_flags s = Some s' \<and> only_os s s' \<and> TCB (os s') = TCB (os s) \<and>
     ready_set (os s') = ready_set (os s) \<and> OSTCBCur (os s') = OSTCBCur (os s) \<and>
     (\<forall>e. sem_abs e (os s') =
        (if Some e \<in> {tps_failure_flag s, apps_failure_flag s, motor_failure_flag s,
                       throttle_task_external_failure_flag s}
         then (0, wait_set e (os s)) else sem_abs e (os s)))"
proof -
  obtain e1 e2 e3 e4 where h: "tps_failure_flag s = Some e1" "apps_failure_flag s = Some e2"
    "motor_failure_flag s = Some e3" "throttle_task_external_failure_flag s = Some e4"
    "is_sem e1 (os s)" "is_sem e2 (os s)" "is_sem e3 (os s)" "is_sem e4 (os s)"
    using wired_handles(1-3,5) [OF w] by auto
  have step: "\<exists>t'. drain_flag (Some e) t = Some t' \<and> only_os s t' \<and> TCB (os t') = TCB (os s) \<and>
      ready_set (os t') = ready_set (os s) \<and> OSTCBCur (os t') = OSTCBCur (os s) \<and>
      (\<forall>e'. sem_abs e' (os t') = (if e' = e then (0, wait_set e (os t)) else sem_abs e' (os t)))"
    if "only_os s t" "is_sem e (os s)" "TCB (os t) = TCB (os s)" "ready_set (os t) = ready_set (os s)"
      "OSTCBCur (os t) = OSTCBCur (os s)" for e t
  proof -
    have "is_sem e (os t)" using that(2) os_keepD(4) [OF only_os_keep [OF that(1)]] by simp
    from drain_flag_ok [OF only_os_kernel [OF that(1)] this] show ?thesis
      using that only_os_trans [OF that(1)] by metis
  qed
  have fl: "tps_failure_flag t = Some e1 \<and> apps_failure_flag t = Some e2 \<and> motor_failure_flag t = Some e3 \<and>
      throttle_task_external_failure_flag t = Some e4" if "only_os s t" for t
    using only_os_same(2) [OF that] h(1-4) by (simp add: flags_def)
  have "only_os s s" using ok os_keep_refl by (simp add: only_os_def kernel_in_def)
  from step [OF this h(5)] obtain s1 where s1: "drain_flag (Some e1) s = Some s1" "only_os s s1"
    "TCB (os s1) = TCB (os s)" "ready_set (os s1) = ready_set (os s)" "OSTCBCur (os s1) = OSTCBCur (os s)"
    "\<forall>e'. sem_abs e' (os s1) = (if e' = e1 then (0, wait_set e1 (os s)) else sem_abs e' (os s))" by auto
  from step [OF s1(2) h(6) s1(3-5)] obtain s2 where s2: "drain_flag (Some e2) s1 = Some s2" "only_os s s2"
    "TCB (os s2) = TCB (os s)" "ready_set (os s2) = ready_set (os s)" "OSTCBCur (os s2) = OSTCBCur (os s)"
    "\<forall>e'. sem_abs e' (os s2) = (if e' = e2 then (0, wait_set e2 (os s1)) else sem_abs e' (os s1))" by auto
  from step [OF s2(2) h(7) s2(3-5)] obtain s3 where s3: "drain_flag (Some e3) s2 = Some s3" "only_os s s3"
    "TCB (os s3) = TCB (os s)" "ready_set (os s3) = ready_set (os s)" "OSTCBCur (os s3) = OSTCBCur (os s)"
    "\<forall>e'. sem_abs e' (os s3) = (if e' = e3 then (0, wait_set e3 (os s2)) else sem_abs e' (os s2))" by auto
  from step [OF s3(2) h(8) s3(3-5)] obtain s4 where s4: "drain_flag (Some e4) s3 = Some s4" "only_os s s4"
    "TCB (os s4) = TCB (os s)" "ready_set (os s4) = ready_set (os s)" "OSTCBCur (os s4) = OSTCBCur (os s)"
    "\<forall>e'. sem_abs e' (os s4) = (if e' = e4 then (0, wait_set e4 (os s3)) else sem_abs e' (os s3))" by auto
  have run: "reset_failure_flags s = Some s4"
    using s1(1) s2(1) s3(1) s4(1) h(1-4) fl [OF s1(2)] fl [OF s2(2)] fl [OF s3(2)] fl [OF s4(2)]
    by (simp add: reset_failure_flags_def)
  have ws: "wait_set e (os s1) = wait_set e (os s)" "wait_set e (os s2) = wait_set e (os s)"
    "wait_set e (os s3) = wait_set e (os s)" for e
    using s1(6) s2(6) s3(6) by (auto simp: sem_abs_def split: if_splits) (metis (no_types) snd_conv)+
  have "sem_abs e (os s4) = (if e \<in> {e1, e2, e3, e4} then (0, wait_set e (os s)) else sem_abs e (os s))" for e
    using s1(6) s2(6) s3(6) s4(6) ws by auto
  then show ?thesis using run s4(2-5) h(1-4) by auto
qed

text \<open>C27: Clearing the failure flags always ends (each loop of \<open>OSSemAccept\<close> calls counts its flag down to
  zero, whatever the value), leaves the four flags of the throttle task down, and changes nothing else:
  no task is woken or blocked and every other event keeps its value.\<close>

theorem reset_flags_clears:
  assumes ok: "kernel_in s" and w: "wired s"
  shows "\<exists>s'. reset_failure_flags s = Some s' \<and> only_os s s' \<and> TCB (os s') = TCB (os s) \<and>
     ready_set (os s') = ready_set (os s) \<and> OSTCBCur (os s') = OSTCBCur (os s) \<and>
     (\<forall>e. sem_abs e (os s') =
        (if Some e \<in> {tps_failure_flag s, apps_failure_flag s, motor_failure_flag s,
                       throttle_task_external_failure_flag s}
         then (0, wait_set e (os s)) else sem_abs e (os s)))"
  by (rule reset_flags_ok [OF assms])

theorem reset_flags_clears_witness:
  "\<exists>s'. reset_failure_flags example_app = Some s' \<and> sem_abs 2 (os s') = (0, {}) \<and> sem_abs 0 (os s') = (0, {5})"
proof -
  have w: "wired example_app" using example_app_ready by (simp add: tick_ready_def)
  have h: "tps_failure_flag example_app = Some 2" "apps_failure_flag example_app = Some 2"
    "motor_failure_flag example_app = Some 2" "throttle_task_external_failure_flag example_app = Some 2"
    by (simp_all add: example_app_def)
  obtain s' where s': "reset_failure_flags example_app = Some s'"
    "\<forall>e. sem_abs e (os s') = (if Some e \<in> {Some 2} then (0, wait_set e example_os) else sem_abs e example_os)"
    using reset_flags_clears [OF example_kernel_in w] by (auto simp: h)
  moreover have "wait_set 2 example_os = {}" using example_flags(2) by (simp add: sem_abs_def)
  ultimately show ?thesis using example_flags(4) by auto
qed

section \<open>The stop on a failure\<close>

definition flag_up :: "event_ptr \<Rightarrow> app_state \<Rightarrow> bool" where
  "flag_up f s = (case f of None \<Rightarrow> False | Some e \<Rightarrow> OSEventCnt (ECB (os s) e) \<noteq> 0)"

definition failure_raised :: "app_state \<Rightarrow> bool" where
  "failure_raised s \<longleftrightarrow> flag_up (motor_failure_flag s) s \<or> flag_up (apps_failure_flag s) s \<or>
     flag_up (tps_failure_flag s) s \<or> flag_up (throttle_task_external_failure_flag s) s"

lemma sem_accept_eq:
  assumes "is_sem e (os s)"
  shows "sem_accept (Some e) s = (OSEventCnt (ECB (os s) e),
    if flag_up (Some e) s then s\<lparr> os := set_cnt e (OSEventCnt (ECB (os s) e) - 1) (os s) \<rparr> else s)"
  using assms by (simp add: sem_accept_def OSSemAccept_cnt Let_def flag_up_def word_gt_0)

lemma take_failure_ok:
  assumes w: "wired s"
  shows "if failure_raised s
     then \<exists>e c. take_failure s = (True, s\<lparr> os := set_cnt e c (os s) \<rparr>) \<and>
       Some e \<in> {motor_failure_flag s, apps_failure_flag s, tps_failure_flag s, throttle_task_external_failure_flag s}
     else take_failure s = (False, s)"
proof -
  obtain e1 e2 e3 e4 where h: "motor_failure_flag s = Some e1" "apps_failure_flag s = Some e2"
    "tps_failure_flag s = Some e3" "throttle_task_external_failure_flag s = Some e4"
    "is_sem e1 (os s)" "is_sem e2 (os s)" "is_sem e3 (os s)" "is_sem e4 (os s)"
    using wired_handles(1-3,5) [OF w] by auto
  have up: "OSEventCnt (ECB (os s) e) = 0 \<longleftrightarrow> \<not> flag_up (Some e) s" for e by (simp add: flag_up_def)
  show ?thesis
    using h by (auto simp: take_failure_def failure_raised_def sem_accept_eq up)
qed

lemma running_set_cnt [simp]: "running_task (set_cnt e c k) p i = running_task k p i"
  by (simp add: running_task_def)

text \<open>Waiting for a semaphore that is down, seen from the application.\<close>

lemma sem_pend_blocks:
  assumes "kernel_ok (os s)" and "running_task (os s) p i" and "p \<noteq> OS_LOWEST_PRIO"
    and "OSIntNesting (os s) = 0" and "OSLockNesting (os s) = 0" and "is_sem e (os s)" and "\<not> flag_up (Some e) s"
  shows "\<exists>k. sem_pend (Some e) timeout s = Some (False, s\<lparr> os := k \<rparr>) \<and> kernel_ok k \<and> highest_runs k \<and>
     p \<notin> ready_set k \<and> sem_abs e k = (0, insert p (wait_set e (os s))) \<and> OSTCBDly (TCB k i) = timeout"
proof -
  obtain returned perr k where k: "OSSemPend_enter (Some e) timeout (Some 0) (os s) = Some (returned, perr, k)"
    "kernel_ok k" "sem_abs e k = spec_pend p (sem_abs e (os s))" "returned \<longleftrightarrow> 0 < OSEventCnt (ECB (os s) e)"
    "\<not> returned \<longrightarrow> p \<notin> ready_set k \<and> highest_runs k \<and> unat (OSPrioCur k) \<noteq> p \<and> OSTCBDly (TCB k i) = timeout"
    using sem_pend_ok [OF assms(1-6)] by blast
  moreover have "\<not> returned" using k(4) assms(7) by (simp add: flag_up_def)
  moreover have "sem_abs e (os s) = (0, wait_set e (os s))" using assms(7) by (simp add: flag_up_def sem_abs_def)
  ultimately show ?thesis by (auto simp: sem_pend_def)
qed

text \<open>A semaphore that is up is taken at once.\<close>

lemma sem_pend_takes:
  assumes "OSIntNesting (os s) = 0" "OSLockNesting (os s) = 0" "is_sem e (os s)" "flag_up (Some e) s"
  shows "sem_pend (Some e) timeout s = Some (True, s\<lparr> os := set_cnt e (OSEventCnt (ECB (os s) e) - 1) (os s) \<rparr>)"
  using assms by (simp add: sem_pend_def OSSemPend_enter_def is_sem_def flag_up_def word_gt_0 set_cnt_def set_event_def)

text \<open>C9: The throttle task looks at the failure flags before anything else. If one of the four is up it
  cuts the motor (both modules at full-scale duty cycle, the registers in step). Then, when the flag for a resolved failure is
  down, it blocks on it without a timeout, and the highest priority other task runs. When that flag is up already, left over
  from an earlier failure, the task takes one unit of it, does not wait, clears the four flags and goes on to the sensors.
  If none of the four is up it goes on to the sensors and has changed nothing.\<close>

theorem failure_stops_throttle:
  assumes ok: "kernel_in s" and w: "wired s" and run: "running_task (os s) p i" and p: "p \<noteq> OS_LOWEST_PRIO"
    and lk: "OSIntNesting (os s) = 0" "OSLockNesting (os s) = 0" and pc: "t_pc (thr s) = T_Loop"
    and m: "motor_ok (motor_of s)" and r: "throttle_task_failure_resolved_flag s = Some e"
    and sep: "Some e \<notin> {motor_failure_flag s, apps_failure_flag s, tps_failure_flag s, throttle_task_external_failure_flag s}"
  shows "if failure_raised s
     then \<exists>s'. throttle_control_step malloc s = Some s' \<and> motor_ok (motor_of s') \<and>
       open_duty (motor_of s') = 1000 \<and> close_duty (motor_of s') = 1000 \<and>
       (if flag_up (Some e) s
        then t_pc (thr s') = T_Sensors \<and> ready_set (os s') = ready_set (os s) \<and> OSTCBCur (os s') = OSTCBCur (os s) \<and>
          \<not> failure_raised s' \<and> sem_abs e (os s') = (unat (OSEventCnt (ECB (os s) e)) - 1, wait_set e (os s))
        else t_pc (thr s') = T_Failure_Wait \<and> p \<notin> ready_set (os s') \<and>
          highest_runs (os s') \<and> sem_abs e (os s') = (0, insert p (wait_set e (os s))) \<and> OSTCBDly (TCB (os s') i) = 0)
     else throttle_control_step malloc s = Some (go_throttle T_Sensors s)"
proof (cases "failure_raised s")
  case False
  then show ?thesis
    using take_failure_ok [OF w] pc by (simp add: throttle_control_step_def throttle_loop_head_def)
next
  case True
  then obtain f c where t: "take_failure s = (True, s\<lparr> os := set_cnt f c (os s) \<rparr>)" "f \<noteq> e"
    using take_failure_ok [OF w] sep by auto
  define s1 where "s1 = set_motor (decrease_throttle (motor_of s)) (s\<lparr> os := set_cnt f c (os s) \<rparr>)"
  have os1: "os s1 = set_cnt f c (os s)" by (simp add: s1_def set_motor_def)
  have sem: "is_sem e (os s)" using w r by (auto simp: wired_def flags_def)
  have up1: "flag_up (Some e) s1 = flag_up (Some e) s" using t(2) by (simp add: flag_up_def os1)
  have k1: "kernel_ok (os s1)" "running_task (os s1) p i" "OSIntNesting (os s1) = 0" "OSLockNesting (os s1) = 0" "is_sem e (os s1)"
    using ok run lk sem by (simp_all add: os1 kernel_in_def is_sem_def)
  have mo: "motor_of (s\<lparr> os := k' \<rparr>) = motor_of s" for k' by (simp add: motor_of_def)
  have cut: "motor_of (go_throttle pc (s1\<lparr> os := k \<rparr>)) = decrease_throttle (motor_of s)" for pc k
    by (simp add: s1_def motor_of_def go_throttle_def set_thr_def set_motor_def)
  show ?thesis
  proof (cases "flag_up (Some e) s")
    case False
    then obtain k where k: "sem_pend (Some e) 0 s1 = Some (False, s1\<lparr> os := k \<rparr>)" "highest_runs k"
      "p \<notin> ready_set k" "sem_abs e k = (0, insert p (wait_set e (os s)))" "OSTCBDly (TCB k i) = 0"
      using sem_pend_blocks [where e = e and s = s1 and p = p and i = i and timeout = 0] p k1 up1 by (auto simp: os1)
    have "throttle_control_step malloc s = Some (go_throttle T_Failure_Wait (s1\<lparr> os := k \<rparr>))"
      using pc t(1) k(1) r by (simp add: throttle_control_step_def throttle_loop_head_def mo s1_def set_motor_def)
    then show ?thesis
      using True False decrease_ok [OF m] k cut by (simp add: go_throttle_def set_thr_def)
  next
    case up: True
    define s2 where "s2 = s1\<lparr> os := set_cnt e (OSEventCnt (ECB (os s1) e) - 1) (os s1) \<rparr>"
    have pend: "sem_pend (Some e) 0 s1 = Some (True, s2)" using sem_pend_takes [OF k1(3-5)] up up1 by (simp add: s2_def)
    have keep: "os_keep (os s) (os s2)"
      using os_keep_trans [OF set_cnt_keep set_cnt_keep] ok by (simp add: s2_def os1 kernel_in_def)
    have fq: "flags s2 = flags s" "queues s2 = queues s" by (simp_all add: s2_def s1_def set_motor_def flags_def queues_def)
    have "kernel_in s2" "wired s2" using os_keepD(1,2) [OF keep] wired_keep [OF w fq keep] by (simp_all add: kernel_in_def)
    from reset_flags_ok [OF this] obtain s3 where s3: "reset_failure_flags s2 = Some s3" "only_os s2 s3"
      "ready_set (os s3) = ready_set (os s2)" "OSTCBCur (os s3) = OSTCBCur (os s2)"
      "\<forall>e. sem_abs e (os s3) = (if Some e \<in> {tps_failure_flag s2, apps_failure_flag s2, motor_failure_flag s2,
         throttle_task_external_failure_flag s2} then (0, wait_set e (os s2)) else sem_abs e (os s2))" by blast
    have fl: "flags s3 = flags s" using only_os_same(2) [OF s3(2)] fq(1) by simp
    have "throttle_control_step malloc s = Some (go_throttle T_Sensors s3)"
      using pc t(1) pend s3(1) r by (simp add: throttle_control_step_def throttle_loop_head_def mo s1_def set_motor_def)
    moreover have "s3 = s2\<lparr> os := os s3 \<rparr>" using s3(2) by (simp add: only_os_def)
    then have "motor_of (go_throttle T_Sensors s3) = decrease_throttle (motor_of s)" using cut by (metis s2_def app_state.update_convs(1) app_state.surjective)
    moreover have "\<not> flag_up h s3" if "h \<in> {tps_failure_flag s, apps_failure_flag s, motor_failure_flag s, throttle_task_external_failure_flag s}" for h
    proof (cases h)
      case (Some x)
      then have "sem_abs x (os s3) = (0, wait_set x (os s2))" using s3(5) that fq(1) by (auto simp: flags_def)
      then have "OSEventCnt (ECB (os s3) x) = 0" by (simp add: sem_abs_def unat_eq_zero)
      then show ?thesis using Some by (simp add: flag_up_def)
    qed (simp add: flag_up_def)
    then have "\<not> failure_raised s3" using fl by (simp add: failure_raised_def flags_def)
    moreover have "sem_abs e (os s3) = (unat (OSEventCnt (ECB (os s) e)) - 1, wait_set e (os s))"
    proof -
      have "sem_abs e (os s3) = sem_abs e (os s2)" using s3(5) sep fq(1) by (auto simp: flags_def)
      then show ?thesis using up t(2) by (simp add: s2_def os1 sem_abs_def flag_up_def unat_dec word_gt_0)
    qed
    moreover have go: "os (go_throttle T_Sensors s3) = os s3" "t_pc (thr (go_throttle T_Sensors s3)) = T_Sensors"
      by (simp_all add: go_throttle_def set_thr_def)
    moreover have "flag_up h (go_throttle T_Sensors s3) = flag_up h s3" for h by (simp add: flag_up_def go(1) split: option.split)
    then have "failure_raised (go_throttle T_Sensors s3) = failure_raised s3"
      by (simp add: failure_raised_def) (simp add: go_throttle_def set_thr_def)
    ultimately show ?thesis
      using True up decrease_ok [OF m] s3(3,4) by (simp add: s2_def os1)
  qed
qed

lemma example_motor_in_step: "motor_ok (motor_of example_app)" "duty_ok (curr_duty_cycle (thr example_app))"
  by (simp_all add: motor_ok_def motor_of_def example_app_def example_thr_def example_pwm_def pwm_in_step_def duty_ok_def)

theorem failure_stops_throttle_witness:
  "\<exists>s'. throttle_control_step (\<lambda>_. 9) example_app = Some s' \<and> open_duty (motor_of s') = 1000 \<and>
     sem_abs 0 (os s') = (0, {5, 6}) \<and> 6 \<notin> ready_set (os s')"
proof -
  have w: "wired example_app" using example_app_ready by (simp add: tick_ready_def)
  have h: "t_pc (thr example_app) = T_Loop" "throttle_task_failure_resolved_flag example_app = Some 0"
    "motor_failure_flag example_app = Some 2" "apps_failure_flag example_app = Some 2"
    "tps_failure_flag example_app = Some 2" "throttle_task_external_failure_flag example_app = Some 2"
    by (simp_all add: example_app_def example_thr_def)
  have up: "\<not> flag_up (Some 0) example_app" "failure_raised example_app" "wait_set 0 example_os = {5}"
    using example_flags(2,4) by (simp_all add: flag_up_def failure_raised_def h sem_abs_def example_ecbs_def)
  have run: "running_task (os example_app) 6 2" using example_running by simp
  show ?thesis
    using failure_stops_throttle [OF example_kernel_in w run _ _ _ h(1) example_motor_in_step(1) h(2)] up
    by (auto simp: h insert_commute)
qed

section \<open>Slip control\<close>

text \<open>What the task reads as wheel speeds: the demonstration switch distorts the right one.\<close>

definition wheel_speeds :: "app_state \<Rightarrow> INT16U \<times> INT16U" where
  "wheel_speeds s =
     (let r = ucast (alt_up_de0_nano_adc_read WS_2_ADC_CHANNEL s) in
      (ucast (alt_up_de0_nano_adc_read WS_1_ADC_CHANNEL s), if is_demo_slip_control_enabled s = TRUE then (r + 1) * 2 else r))"

definition slipping :: "app_state \<Rightarrow> bool" where
  "slipping s \<longleftrightarrow> (case wheel_speeds s of (l, r) \<Rightarrow> WS_VALUE_MISMATCH l r \<noteq> FALSE) \<and> is_slip_control_enabled s = TRUE"


lemma wheel_speeds_adc: "wheel_speeds (alt_up_de0_nano_adc_update s) = wheel_speeds s"
  "is_slip_control_enabled (alt_up_de0_nano_adc_update s) = is_slip_control_enabled s"
  "is_demo_slip_control_enabled (alt_up_de0_nano_adc_update s) = is_demo_slip_control_enabled s"
  by (simp_all add: wheel_speeds_def alt_up_de0_nano_adc_update_def io_write32_def is_slip_control_enabled_def
      alt_up_de0_nano_adc_read_def is_demo_slip_control_enabled_def switches_def Let_def)

lemma set_throttle_reg8: "reg8 (snd (snd (set_throttle_by_duty_cycle c m))) = reg8 (snd (snd m))"
  and decrease_reg8: "reg8 (snd (snd (decrease_throttle m))) = reg8 (snd (snd m))"
proof -
  obtain p q r where m: "m = (p, q, r)" by (cases m) auto
  obtain p1 r1 p2 r2 where 1: "set_duty_cycle c (p, r) = (p1, r1)" "set_duty_cycle PWM_DUTY_CYCLE_HIGH (q, r1) = (p2, r2)"
    by (metis surj_pair)
  obtain q1 t1 q2 t2 where 2: "set_duty_cycle PWM_DUTY_CYCLE_HIGH (q, r) = (q1, t1)"
    "set_duty_cycle PWM_DUTY_CYCLE_HIGH (p, t1) = (q2, t2)" by (metis surj_pair)
  note fr = set_duty_cycle_frame(4)
  have "reg8 r2 = reg8 r" using fr [of c p r] fr [of PWM_DUTY_CYCLE_HIGH q r1] 1 by simp
  then show "reg8 (snd (snd (set_throttle_by_duty_cycle c m))) = reg8 (snd (snd m))"
    using 1 by (simp add: m set_throttle_by_duty_cycle_def)
  have "reg8 t2 = reg8 r" using fr [of PWM_DUTY_CYCLE_HIGH q r] fr [of PWM_DUTY_CYCLE_HIGH p t1] 2 by simp
  then show "reg8 (snd (snd (decrease_throttle m))) = reg8 (snd (snd m))" using 2 by (simp add: m decrease_throttle_def)
qed

lemma regulator_reg8:
  assumes "set_new_throttle_position_by_tps duty expected curr_tps m = (reached, duty', m')"
  shows "reg8 (snd (snd m')) = reg8 (snd (snd m))"
proof -
  have "\<exists>c. snd (increase_throttle_by_feedback d r m) = set_throttle_by_duty_cycle c m" for d r
    by (metis increase_throttle_by_feedback_def snd_conv)
  then have inc: "reg8 (snd (snd (snd (increase_throttle_by_feedback d r m)))) = reg8 (snd (snd m))" for d r
    by (metis set_throttle_reg8)
  obtain d2 m2 where i: "increase_throttle_by_feedback duty 10 m = (d2, m2)" by (metis surj_pair)
  have "m' = set_throttle_by_duty_cycle 580 m \<or> m' = decrease_throttle m \<or> m' = m2"
    using assms by (auto simp: set_new_throttle_position_by_tps_def i split: if_splits)
  moreover have "reg8 (snd (snd m2)) = reg8 (snd (snd m))" using inc [of duty 10] i by simp
  ultimately show ?thesis using set_throttle_reg8 [of 580 m] decrease_reg8 [of m] by auto
qed

text \<open>The registers of the motor are not those of the converter and the LEDs, so that a write to these
  leaves the motor in step.\<close>

definition devices_apart :: "motor \<Rightarrow> bool" where
  "devices_apart = (\<lambda>(p, q, r). DE0_NANO_ADC_0_BASE \<notin> {duty_base p, period_base p, duty_base q, period_base q} \<and>
     GREEN_LEDS_BASE \<notin> {control_base p, control_base q})"

lemma motor_ok_other_devices:
  assumes "motor_ok (p, q, r)" "devices_apart (p, q, r)"
  shows "motor_ok (p, q, io_write32 DE0_NANO_ADC_0_BASE v r)" "motor_ok (p, q, io_write8 GREEN_LEDS_BASE w r)"
proof -
  have other: "pwm_in_step (m, r) \<Longrightarrow> duty_base m \<noteq> a \<Longrightarrow> period_base m \<noteq> a \<Longrightarrow> pwm_in_step (m, io_write32 a v r)"
    "pwm_in_step (m, r) \<Longrightarrow> control_base m \<noteq> a \<Longrightarrow> pwm_in_step (m, io_write8 a w r)" for m a
    by (simp_all add: pwm_in_step_def)
  have ok: "pwm_in_step (p, r)" "pwm_in_step (q, r)" "duty_base p \<notin> {duty_base q, period_base q}" "duty_base q \<noteq> period_base p"
    using assms(1) unfolding motor_ok_def by simp_all
  have ne: "duty_base p \<noteq> DE0_NANO_ADC_0_BASE" "period_base p \<noteq> DE0_NANO_ADC_0_BASE" "duty_base q \<noteq> DE0_NANO_ADC_0_BASE"
    "period_base q \<noteq> DE0_NANO_ADC_0_BASE" "control_base p \<noteq> GREEN_LEDS_BASE" "control_base q \<noteq> GREEN_LEDS_BASE"
    using assms(2) unfolding devices_apart_def by auto
  show "motor_ok (p, q, io_write32 DE0_NANO_ADC_0_BASE v r)" "motor_ok (p, q, io_write8 GREEN_LEDS_BASE w r)"
    unfolding motor_ok_def prod.case using other(1) [OF ok(1) ne(1,2)] other(1) [OF ok(2) ne(3,4)]
      other(2) [OF ok(1) ne(5)] other(2) [OF ok(2) ne(6)] ok(3,4) by blast+
qed

lemma motor_of_adc: "motor_of (alt_up_de0_nano_adc_update s) =
    (fst (motor_of s), fst (snd (motor_of s)), io_write32 DE0_NANO_ADC_0_BASE 0 (io s))"
  by (simp add: motor_of_def alt_up_de0_nano_adc_update_def)

lemma clean_alarm_more: "alarm_state.more (snd (clean_alarm p s)) = alarm_state.more s" "fst (clean_alarm p s) = None"
  by (cases p; simp add: clean_alarm_def)+

lemma clean_watchdog_thr:
  "thr (clean_watchdog_position s) = (thr s)\<lparr> watchdog_throttle_position := None \<rparr>"
  "io (clean_watchdog_position s) = io s" "os (clean_watchdog_position s) = os s"
proof -
  obtain q t where c: "clean_alarm (watchdog_throttle_position (thr s)) s = (q, t)" by fastforce
  have "alarm_state.more t = alarm_state.more s" "q = None"
    using clean_alarm_more [of "watchdog_throttle_position (thr s)" s] c by simp_all
  then show "thr (clean_watchdog_position s) = (thr s)\<lparr> watchdog_throttle_position := None \<rparr>"
    "io (clean_watchdog_position s) = io s" "os (clean_watchdog_position s) = os s"
    using more_same [of t s] by (simp_all add: clean_watchdog_position_def c set_thr_def)
qed

text \<open>C26: A turn of the throttle task at its test of the wheel speeds that finds them slipping, with slip control switched on,
  goes back to the head of the loop without a kernel call, so it takes no shift request and does not look at the pedal. The first
  such turn lights the slip LED, drops the position watchdog and runs the position regulator once for the closed
  position: a throttle that is open by more than 100 counts loses its torque, one within 100 counts gets the closing duty cycle
  580, and below that the duty cycle opens by one step. The following turns leave the motor as it is. In each case duty cycle and
  motor registers stay within their limits and in step.\<close>

theorem slip_control_closes:
  assumes m: "motor_ok (motor_of s)" and d: "duty_ok (curr_duty_cycle (thr s))" and pc: "t_pc (thr s) = T_Wheels"
    and slip: "slipping s"
    and apart: "devices_apart (motor_of s)"
  shows "\<exists>s'. throttle_control_step malloc s = Some s' \<and> t_pc (thr s') = T_Loop \<and> os s' = os s \<and>
     slip_control_mode (thr s') = TRUE \<and> motor_ok (motor_of s') \<and> duty_ok (curr_duty_cycle (thr s')) \<and>
     (if slip_control_mode (thr s) = TRUE then thr s' = (thr s)\<lparr> t_pc := T_Loop \<rparr>
      else green_leds s' = WSS_ACTIVE_LED \<and> watchdog_throttle_position (thr s') = None \<and>
        close_duty (motor_of s') = 1000 \<and>
        (if near 100 (curr_tps_reading (thr s)) SLIP_CONTROL_THROTTLE_POS then open_duty (motor_of s') = 580
         else if unat (SLIP_CONTROL_THROTTLE_POS :: INT16U) < unat (curr_tps_reading (thr s)) then open_duty (motor_of s') = 1000
         else open_duty (motor_of s') = max 300 (unat (curr_duty_cycle (thr s)) - 10)))"
proof -
  define s0 where "s0 = alt_up_de0_nano_adc_update s"
  have thr0: "thr s0 = thr s" "os s0 = os s" by (simp_all add: s0_def alt_up_de0_nano_adc_update_def)
  obtain p q r where mo: "motor_of s = (p, q, r)" by (metis surj_pair)
  then have r: "r = io s" by (simp add: motor_of_def)
  define r0 where "r0 = io_write32 DE0_NANO_ADC_0_BASE 0 r"
  have mo0: "motor_of s0 = (p, q, r0)" by (simp add: s0_def motor_of_adc mo r r0_def)
  have m0: "motor_ok (p, q, r0)" "devices_apart (p, q, r0)"
    using motor_ok_other_devices(1) [of p q r] m apart by (simp_all add: mo r0_def devices_apart_def)
  have body: "throttle_control_step malloc s =
      (if slip_control_mode (thr s0) = TRUE then Some (go_throttle T_Loop s0)
       else
         let s = set_leds WSS_ACTIVE_LED (clean_watchdog_position s0);
             s = set_thr (\<lambda>t. t\<lparr> slip_control_mode := TRUE \<rparr>) s;
             (reached, duty, m) = set_new_throttle_position_by_tps (curr_duty_cycle (thr s))
               SLIP_CONTROL_THROTTLE_POS (curr_tps_reading (thr s)) (motor_of s);
             s = set_thr (\<lambda>t. t\<lparr> curr_duty_cycle := duty \<rparr>) (set_motor m s) in
         Some (go_throttle T_Loop s))"
  proof -
    have "slipping s0" using slip by (simp add: slipping_def wheel_speeds_adc s0_def)
    then have c: "WS_VALUE_MISMATCH (ucast (alt_up_de0_nano_adc_read WS_1_ADC_CHANNEL s0))
        (if is_demo_slip_control_enabled s0 = TRUE then (ucast (alt_up_de0_nano_adc_read WS_2_ADC_CHANNEL s0) + 1) * 2
         else ucast (alt_up_de0_nano_adc_read WS_2_ADC_CHANNEL s0)) \<noteq> FALSE \<and> is_slip_control_enabled s0 = TRUE"
      unfolding slipping_def wheel_speeds_def Let_def prod.case .
    show ?thesis
      unfolding throttle_control_step_def throttle_wheels_def pc throttle_pc.case s0_def [symmetric] Let_def
      by (simp only: c if_True simp_thms)
  qed
  show ?thesis
  proof (cases "slip_control_mode (thr s) = TRUE")
    case True
    then show ?thesis
      using body m0 d mo0 by (simp add: thr0 go_throttle_def set_thr_def motor_of_def)
  next
    case False
    define s1 where "s1 = set_thr (\<lambda>t. t\<lparr> slip_control_mode := TRUE \<rparr>) (set_leds WSS_ACTIVE_LED (clean_watchdog_position s0))"
    obtain rr dd mm where x: "set_new_throttle_position_by_tps (curr_duty_cycle (thr s1)) SLIP_CONTROL_THROTTLE_POS
        (curr_tps_reading (thr s1)) (motor_of s1) = (rr, dd, mm)" by (metis surj_pair)
    have thr1: "thr s1 = (thr s)\<lparr> watchdog_throttle_position := None, slip_control_mode := TRUE \<rparr>" "os s1 = os s"
      "io s1 = io_write8 GREEN_LEDS_BASE WSS_ACTIVE_LED (io s0)"
      by (simp_all add: s1_def set_leds_def set_thr_def clean_watchdog_thr thr0)
    have mo1: "motor_of s1 = (p, q, io_write8 GREEN_LEDS_BASE WSS_ACTIVE_LED r0)" using mo0 by (simp add: motor_of_def thr1 thr0)
    have m1: "motor_ok (motor_of s1)" unfolding mo1 by (rule motor_ok_other_devices(2) [OF m0])
    define s' where "s' = go_throttle T_Loop (set_thr (\<lambda>t. t\<lparr> curr_duty_cycle := dd \<rparr>) (set_motor mm s1))"
    have run: "throttle_control_step malloc s = Some s'"
      by (simp only: body thr0 False if_False Let_def s1_def [symmetric] x prod.case s'_def)
    have d1: "duty_ok (curr_duty_cycle (thr s1))" using d by (simp add: thr1)
    have "reg8 (snd (snd mm)) GREEN_LEDS_BASE = WSS_ACTIVE_LED" using regulator_reg8 [OF x] by (simp add: mo1)
    then have s': "motor_of s' = mm" "t_pc (thr s') = T_Loop" "os s' = os s" "slip_control_mode (thr s') = TRUE"
      "curr_duty_cycle (thr s') = dd" "green_leds s' = WSS_ACTIVE_LED" "watchdog_throttle_position (thr s') = None"
      by (simp_all add: s'_def motor_of_def go_throttle_def set_thr_def set_motor_def green_leds_def thr1)
    have "curr_tps_reading (thr s1) = curr_tps_reading (thr s)" "curr_duty_cycle (thr s1) = curr_duty_cycle (thr s)"
      by (simp_all add: thr1)
    with set_new_by_tps_ok [OF m1 d1 x] run False s' show ?thesis by (auto split: if_splits)
  qed
qed

definition example_slip :: app_state where
  "example_slip = go_throttle T_Wheels (example_app\<lparr> adc_reg := (\<lambda>_. 1000)(5 := 3000),
     io := \<lparr> reg8 = (\<lambda>_. 1)(SWITCH_BASE := SWITCH_ENABLE_SLIP_CONTROL), reg32 = (\<lambda>_. 2500) \<rparr> \<rparr>)"

theorem slip_control_closes_witness:
  "\<exists>s'. throttle_control_step (\<lambda>_. 9) example_slip = Some s' \<and> slip_control_mode (thr s') = TRUE \<and>
     green_leds s' = 128 \<and> open_duty (motor_of s') = 580"
proof -
  have f: "thr example_slip = (thr example_app)\<lparr> t_pc := T_Wheels \<rparr>" "curr_tps_reading (thr example_app) = 850"
    "slip_control_mode (thr example_app) = FALSE"
    by (simp_all add: example_slip_def go_throttle_def set_thr_def) (simp_all add: example_app_def example_thr_def)
  have "motor_ok (motor_of example_slip)" "devices_apart (motor_of example_slip)"
    by (simp_all add: motor_ok_def motor_of_def f devices_apart_def DE0_NANO_ADC_0_BASE_def GREEN_LEDS_BASE_def)
      (simp_all add: example_slip_def go_throttle_def set_thr_def example_app_def example_thr_def example_pwm_def
        pwm_in_step_def SWITCH_BASE_def)
  moreover have "slipping example_slip"
    unfolding slipping_def wheel_speeds_def is_slip_control_enabled_def is_demo_slip_control_enabled_def
    by (simp add: example_slip_def go_throttle_def set_thr_def alt_up_de0_nano_adc_read_def switches_def
        WS_VALUE_MISMATCH_def int32U_differ_by_percent_def Let_def)
  moreover have "duty_ok (curr_duty_cycle (thr example_slip))" "t_pc (thr example_slip) = T_Wheels"
    using example_motor_in_step(2) by (simp_all add: f)
  ultimately show ?thesis
    using slip_control_closes [of example_slip "\<lambda>_. 9"] f by (auto simp: near_def)
qed


end
