(* ===== verification/Failure_Correct.thy ===== *)
theory Failure_Correct imports Task_Correct begin

text \<open>
  The failure handler on a consistent kernel: it has the highest priority of the three tasks, so that
  its calls of the kernel never take the processor away from it before it delays itself or waits; it
  keeps flashing the LED of the failure until the driver moves the clear switch, and only then tells
  the two other tasks that the failure is resolved.
\<close>

section \<open>Waiting for the driver\<close>

definition switch_moved :: "app_state \<Rightarrow> bool" where
  "switch_moved s \<longleftrightarrow> switches s AND SWITCH_CLEAR_FAILURE_MASK = next_clear_switch_val (fh s)"

text \<open>C10: While a failure is reported the handler only flashes: as long as the driver has not moved the clear
  switch, each turn toggles the LED between off and the LED of the failure, leaves every flag as it
  is, and sleeps for 500 ticks. When the switch has been moved the handler turns the LED off, expects the
  opposite position next, sleeps for 100 ticks and goes back to waiting for a message; before it sleeps it applies the
  idiom of \<open>raise_flag\<close> once to each of the two resolved flags and to no other flag. A resolved flag that is down is
  raised by that, or its waiting task made ready; one that is still up from before is taken down.\<close>

theorem failure_held_until_cleared:
  assumes ok: "kernel_in s" and w: "wired s" and top: "top_task (os s) p i" and p: "p \<noteq> OS_LOWEST_PRIO"
    and pc: "f_pc (fh s) = F_Flash"
    and h: "throttle_task_failure_resolved_flag s = Some e1" "solenoid_failure_resolved_flag s = Some e2" "e1 \<noteq> e2"
  shows "\<exists>s'. failure_handler_step s = Some s' \<and> kernel_in s' \<and> wired s' \<and> thr s' = thr s \<and> sol s' = sol s \<and>
     p \<notin> ready_set (os s') \<and> highest_runs (os s') \<and> error_led (fh s') = error_led (fh s) \<and>
     (if switch_moved s
      then f_pc (fh s') = F_Loop \<and> green_leds s' = NO_ERROR_INDICATION_LED \<and> OSTCBDly (TCB (os s') i) = 100 \<and>
        next_clear_switch_val (fh s') = (if switches s AND SWITCH_CLEAR_FAILURE_MASK = 0 then 1 else 0) \<and>
        (\<forall>e. sem_abs e (os s') =
          (if e \<in> {e1, e2} then flag_turn (sem_abs e (os s)) else sem_abs e (os s)))
      else f_pc (fh s') = F_Flash \<and> OSTCBDly (TCB (os s') i) = 500 \<and>
        green_leds s' = (if green_leds s = 0 then error_led (fh s) else 0) \<and>
        next_clear_switch_val (fh s') = next_clear_switch_val (fh s) \<and> (\<forall>e. sem_abs e (os s') = sem_abs e (os s)))"
proof (cases "switch_moved s")
  case False
  define s1 where "s1 = set_leds (if green_leds s = NO_ERROR_INDICATION_LED then error_led (fh s) else NO_ERROR_INDICATION_LED) s"
  have os1: "os s1 = os s" "fh s1 = fh s" "thr s1 = thr s" "sol s1 = sol s" "flags s1 = flags s" "queues s1 = queues s"
    "green_leds s1 = (if green_leds s = 0 then error_led (fh s) else 0)"
    by (simp_all add: s1_def set_leds_def flags_def queues_def green_leds_def)
  have k1: "kernel_in s1" "running_task (os s1) p i" "OSIntNesting (os s1) = 0" "OSLockNesting (os s1) = 0" "wired s1"
    using ok top w by (simp_all add: kernel_in_def os1 top_task_def wired_def)
  obtain s2 where s2: "time_dly_hmsm 0 0 0 500 s1 = Some s2" "only_os s1 s2" "\<forall>e. sem_abs e (os s2) = sem_abs e (os s1)"
    "ready_set (os s2) = ready_set (os s1) - {p}" "highest_runs (os s2)" "OSTCBDly (TCB (os s2) i) = 500"
    using time_dly_ok [OF k1(1,2) p k1(3,4), of 500] by auto
  note same = only_os_same [OF s2(2)]
  have "failure_handler_step s = Some (set_fh (\<lambda>f. f\<lparr> f_pc := F_Flash \<rparr>) s2)"
    using pc False s2(1) by (simp add: failure_handler_step_def failure_flash_def switch_moved_def s1_def)
  then show ?thesis
    using False s2 os1 same only_os_kernel [OF s2(2)] only_os_wired [OF s2(2) k1(5)]
    by (simp add: set_fh_def kernel_in_def wired_def flags_def queues_def green_leds_def)
next
  case True
  define v :: INT8U where "v = (if switches s AND SWITCH_CLEAR_FAILURE_MASK = SWITCH_OFF then SWITCH_ON else SWITCH_OFF)"
  define s1 where "s1 = set_leds NO_ERROR_INDICATION_LED (set_fh (\<lambda>f. f\<lparr> next_clear_switch_val := v \<rparr>) s)"
  have os1: "os s1 = os s" "fh s1 = (fh s)\<lparr> next_clear_switch_val := v \<rparr>" "thr s1 = thr s" "sol s1 = sol s"
    "flags s1 = flags s" "queues s1 = queues s" "green_leds s1 = 0"
    "throttle_task_failure_resolved_flag s1 = Some e1"
    by (simp_all add: s1_def set_leds_def set_fh_def flags_def queues_def green_leds_def h)
  have sem: "is_sem e1 (os s)" "is_sem e2 (os s)" using w h by (auto simp: wired_def flags_def)
  have k1: "kernel_in s1" "wired s1" "top_task (os s1) p i" using ok w top by (simp_all add: kernel_in_def os1 wired_def)
  have "is_sem e1 (os s1)" using sem by (simp add: os1)
  then obtain s2 where s2: "raise_flag (Some e1) s1 = Some s2" "only_os s1 s2"
    "sem_abs e1 (os s2) = flag_turn (sem_abs e1 (os s1))" "\<forall>e'. e' \<noteq> e1 \<longrightarrow> sem_abs e' (os s2) = sem_abs e' (os s1)"
    "top_task (os s2) p i"
    using raise_flag_top [OF k1(1) _ k1(3)] by blast
  have h2: "solenoid_failure_resolved_flag s2 = Some e2" "is_sem e2 (os s2)"
    using only_os_same(2) [OF s2(2)] os1(5) h(2) sem(2) os_keepD(4) [OF only_os_keep [OF s2(2)]] by (simp_all add: flags_def os1)
  obtain s3 where s3: "raise_flag (Some e2) s2 = Some s3" "only_os s2 s3"
    "sem_abs e2 (os s3) = flag_turn (sem_abs e2 (os s2))" "\<forall>e'. e' \<noteq> e2 \<longrightarrow> sem_abs e' (os s3) = sem_abs e' (os s2)"
    "top_task (os s3) p i"
    using raise_flag_top [OF only_os_kernel [OF s2(2)] h2(2) s2(5)] by blast
  have k3: "running_task (os s3) p i" "OSIntNesting (os s3) = 0" "OSLockNesting (os s3) = 0"
    using s3(5) by (simp_all add: top_task_def)
  obtain s4 where s4: "time_dly_hmsm 0 0 0 100 s3 = Some s4" "only_os s3 s4" "\<forall>e. sem_abs e (os s4) = sem_abs e (os s3)"
    "ready_set (os s4) = ready_set (os s3) - {p}" "highest_runs (os s4)" "OSTCBDly (TCB (os s4) i) = 100"
    using time_dly_ok [OF only_os_kernel [OF s3(2)] k3(1) p k3(2,3), of 100] by auto
  have all: "only_os s1 s4" using only_os_trans [OF only_os_trans [OF s2(2) s3(2)] s4(2)] .
  note same = only_os_same [OF all]
  have "failure_handler_step s = Some (set_fh (\<lambda>f. f\<lparr> f_pc := F_Loop \<rparr>) s4)"
    using pc True s2(1) s3(1) s4(1) os1(8) h2(1)
    by (simp add: failure_handler_step_def failure_flash_def switch_moved_def s1_def v_def
        get_throttle_control_task_failure_resolved_flag_def get_solenoid_task_failure_resolved_flag_def)
  moreover have "sem_abs e (os s4) = (if e \<in> {e1, e2} then flag_turn (sem_abs e (os s)) else sem_abs e (os s))" for e
    using s2(3,4) s3(3,4) s4(3) h(3) os1(1) by auto
  ultimately show ?thesis
    using True s4 os1 same only_os_kernel [OF all] only_os_wired [OF all k1(2)]
    by (simp add: set_fh_def kernel_in_def wired_def flags_def queues_def green_leds_def v_def)
qed

text \<open>A state in which the first task of the example runs: a post has woken it.\<close>

lemma example_top:
  "\<exists>k. OSSemPost (Some 0) example_os = Some (OS_ERR_NONE, k) \<and> os_keep example_os k \<and> top_task k 5 1 \<and>
     sem_abs 0 k = (0, {}) \<and> sem_abs 2 k = (1, {})"
proof -
  obtain err k where k: "OSSemPost (Some 0) example_os = Some (err, k)" "os_keep example_os k"
    "sem_abs 0 k = spec_post (sem_abs 0 example_os)" "\<forall>e'. e' \<noteq> 0 \<longrightarrow> sem_abs e' k = sem_abs e' example_os"
    "highest_runs k"
    using OSSemPost_keep [OF example_kernel_ok example_cur_ok example_flags(3)] example_flags(4) by (auto simp: sem_abs_def)
  have at: "task_at k 5 1" "\<And>q j. task_at k q j \<Longrightarrow> 5 \<le> q"
    using example_task_at by (auto simp: os_keepD(10) [OF k(2)])
  have err: "err = OS_ERR_NONE" "5 \<in> ready_set k"
    using sem_post_ok [OF example_kernel_ok example_cur_ok example_flags(3)] k(1) example_flags(4) example_task_at
    by (auto simp: sem_abs_def suspended_def example_tcbs_def example_tcb_def)
  have "\<forall>q \<in> ready_set k. 5 \<le> q" using kernel_okD(5) [OF os_keepD(1) [OF k(2)]] at(2) by metis
  then have "Min (ready_set k) = 5" using err(2) bm.finite_law [OF kernel_okD(2) [OF os_keepD(1) [OF k(2)]]]
    by (intro Min_eqI) (auto simp: ready_set_def)
  then have cur: "unat (OSPrioCur k) = 5" "OSTCBCur k = TCB_AT 1"
    using k(5) task_at_fun [OF at(1)] unfolding highest_runs_def cur_ok_def by metis+
  have ab: "sem_abs 0 k = (0, {})" "sem_abs 2 k = (1, {})" using k(3,4) example_flags by simp_all
  have "5 \<notin> wait_set e k" for e
  proof (cases "e = 0")
    case True
    then show ?thesis using ab(1) by (simp add: sem_abs_def)
  next
    case False
    then have "sem_abs e k = sem_abs e example_os" using k(4) by blast
    then show ?thesis using False by (simp add: sem_abs_def example_sets)
  qed
  then have "top_task k 5 1"
    using cur at err(2) os_keepD(6,7) [OF k(2)] by (simp add: top_task_def running_task_def)
  then show ?thesis using k(1,2) err(1) ab by blast
qed

theorem failure_held_until_cleared_witness:
  "\<exists>k s'. OSSemPost (Some 0) example_os = Some (OS_ERR_NONE, k) \<and>
     failure_handler_step (set_fh (\<lambda>f. f\<lparr> f_pc := F_Flash, error_led := 4 \<rparr>)
       (example_app\<lparr> os := k, solenoid_failure_resolved_flag := Some 2 \<rparr>)) = Some s' \<and>
     f_pc (fh s') = F_Loop \<and> sem_abs 0 (os s') = (1, {}) \<and> sem_abs 2 (os s') = (0, {}) \<and> OSTCBDly (TCB (os s') 1) = 100"
proof -
  obtain k where k: "OSSemPost (Some 0) example_os = Some (OS_ERR_NONE, k)" "os_keep example_os k" "top_task k 5 1"
    "sem_abs 0 k = (0, {})" "sem_abs 2 k = (1, {})" using example_top by blast
  let ?s = "set_fh (\<lambda>f. f\<lparr> f_pc := F_Flash, error_led := 4 \<rparr>)
       (example_app\<lparr> os := k, solenoid_failure_resolved_flag := Some 2 \<rparr>)"
  have f: "os ?s = k" "throttle_task_failure_resolved_flag ?s = Some 0" "solenoid_failure_resolved_flag ?s = Some 2"
    "f_pc (fh ?s) = F_Flash" by (simp_all add: set_fh_def) (simp_all add: example_app_def)
  have "is_sem 2 k" "is_sem 0 k" "is_queue 1 0 k"
    using example_flags(1,3) os_keepD(4,5) [OF k(2)] example_queue(1) by simp_all
  then have w: "wired ?s"
    unfolding wired_def f(1) by (simp add: flags_def queues_def set_fh_def) (auto simp: example_app_def)
  have m: "switch_moved ?s" by (simp add: switch_moved_def switches_def set_fh_def) (simp add: example_app_def)
  have ok: "kernel_in ?s" "top_task (os ?s) 5 1" using os_keepD(1,2) [OF k(2)] k(3) by (simp_all add: kernel_in_def f)
  from failure_held_until_cleared [OF ok(1) w ok(2) _ f(4,2,3)] m k(1,4,5) f(1) show ?thesis
    by (auto simp: flag_turn_def)
qed

end
