(* ===== verification/Os_Flag.thy ===== *)
theory Os_Flag imports Os_Sem begin

text \<open>
  \<open>os_flag.c\<close>: event flags. The tasks that wait for flags of a group are in a doubly linked list of
  nodes that starts in the group; a post walks the list and makes every task ready whose condition
  holds. \<open>OSFlagPend\<close> and \<open>OSFlagPost\<close> are split where the task can lose the processor; the former takes the name of its
  local variable \<open>node\<close> as an argument. The lemmas show what the list operations do to the list of waiting
  nodes, that the walk of a post ends, and which tasks it wakes.
\<close>

section \<open>The list of waiting nodes\<close>

definition set_grp :: "nat \<Rightarrow> (OS_FLAG_GRP \<Rightarrow> OS_FLAG_GRP) \<Rightarrow> os_state \<Rightarrow> os_state" where
  "set_grp g f s = s\<lparr> OSFlagTbl := (OSFlagTbl s)(g := f (OSFlagTbl s g)) \<rparr>"

definition set_node :: "nat \<Rightarrow> (OS_FLAG_NODE \<Rightarrow> OS_FLAG_NODE) \<Rightarrow> os_state \<Rightarrow> os_state" where
  "set_node n f s = s\<lparr> flag_node := (flag_node s)(n := f (flag_node s n)) \<rparr>"

definition OS_FlagUnlink :: "nat \<Rightarrow> os_state \<Rightarrow> os_state option" where
  "OS_FlagUnlink n s =
     (let pnode_prev = OSFlagNodePrev (flag_node s n); pnode_next = OSFlagNodeNext (flag_node s n) in do {
        s \<leftarrow> (case pnode_prev of
               None \<Rightarrow> do {
                 g \<leftarrow> OSFlagNodeFlagGrp (flag_node s n);
                 let s = set_grp g (\<lambda>p. p\<lparr> OSFlagWaitList := Node_Ptr pnode_next \<rparr>) s;
                 Some (case pnode_next of None \<Rightarrow> s
                       | Some m \<Rightarrow> set_node m (\<lambda>nd. nd\<lparr> OSFlagNodePrev := None \<rparr>) s)
               }
             | Some q \<Rightarrow>
                 let s = set_node q (\<lambda>nd. nd\<lparr> OSFlagNodeNext := pnode_next \<rparr>) s in
                 Some (case pnode_next of None \<Rightarrow> s
                       | Some m \<Rightarrow> set_node m (\<lambda>nd. nd\<lparr> OSFlagNodePrev := pnode_prev \<rparr>) s));
        i \<leftarrow> tcb_index (OSFlagNodeTCB (flag_node s n));
        Some (set_tcb i (\<lambda>t. t\<lparr> OSTCBFlagNode := None \<rparr>) s)
      })"

text \<open>Returns whether the task was made ready.\<close>

definition OS_FlagTaskRdy :: "nat \<Rightarrow> OS_FLAGS \<Rightarrow> os_state \<Rightarrow> (bool \<times> os_state) option" where
  "OS_FlagTaskRdy n flags_rdy s = do {
     i \<leftarrow> tcb_index (OSFlagNodeTCB (flag_node s n));
     let s = set_tcb i (\<lambda>t. t\<lparr> OSTCBDly := 0, OSTCBFlagsRdy := flags_rdy,
                               OSTCBStat := OSTCBStat t AND NOT OS_STAT_FLAG, OSTCBStatPend := OS_STAT_PEND_OK \<rparr>) s;
     let t = TCB s i;
     (sched, s) \<leftarrow>
       (if OSTCBStat t = OS_STAT_RDY
        then do { b \<leftarrow> bm_set (OSTCBY t) (OSTCBBitX t) (OSTCBBitY t) (rdy s); Some (True, set_rdy b s) }
        else Some (False, s));
     s \<leftarrow> OS_FlagUnlink n s;
     Some (sched, s)
   }"

text \<open>Puts the running task to sleep, with the node \<open>n\<close> at the head of the list.\<close>

definition OS_FlagBlock :: "nat \<Rightarrow> nat \<Rightarrow> OS_FLAGS \<Rightarrow> INT8U \<Rightarrow> INT16U \<Rightarrow> os_state \<Rightarrow> os_state option" where
  "OS_FlagBlock g n flags wait_type timeout s = do {
     i \<leftarrow> tcb_index (OSTCBCur s);
     let s = set_tcb i (\<lambda>t. t\<lparr> OSTCBStat := OSTCBStat t OR OS_STAT_FLAG, OSTCBStatPend := OS_STAT_PEND_OK,
                               OSTCBDly := timeout, OSTCBFlagNode := Some n \<rparr>) s;
     head \<leftarrow> (case OSFlagWaitList (OSFlagTbl s g) of Node_Ptr p \<Rightarrow> Some p | Grp_Ptr q \<Rightarrow> None);
     let s = set_node n (\<lambda>nd. nd\<lparr> OSFlagNodeFlags := flags, OSFlagNodeWaitType := wait_type,
               OSFlagNodeTCB := OSTCBCur s, OSFlagNodeNext := head, OSFlagNodePrev := None,
               OSFlagNodeFlagGrp := Some g \<rparr>) s;
     let s = (case head of None \<Rightarrow> s | Some m \<Rightarrow> set_node m (\<lambda>nd. nd\<lparr> OSFlagNodePrev := Some n \<rparr>) s);
     let s = set_grp g (\<lambda>p. p\<lparr> OSFlagWaitList := Node_Ptr (Some n) \<rparr>) s;
     let t = TCB s i;
     r \<leftarrow> bm_clear (OSTCBY t) (OSTCBBitX t) (OSTCBBitY t) (rdy s);
     Some (set_rdy r s)
   }"

section \<open>Conditions\<close>

text \<open>
  The four cases of the switches over the type of a wait: the flags that are in the state waited
  for, and whether they satisfy the condition. \<open>None\<close> is the default case.
\<close>

definition flag_cond :: "INT8U \<Rightarrow> OS_FLAGS \<Rightarrow> OS_FLAGS \<Rightarrow> (OS_FLAGS \<times> bool) option" where
  "flag_cond wait_type flags cur =
     (if wait_type = OS_FLAG_WAIT_SET_ALL then let flags_rdy = cur AND flags in Some (flags_rdy, flags_rdy = flags)
      else if wait_type = OS_FLAG_WAIT_SET_ANY then let flags_rdy = cur AND flags in Some (flags_rdy, flags_rdy \<noteq> 0)
      else if wait_type = OS_FLAG_WAIT_CLR_ALL then let flags_rdy = NOT cur AND flags in Some (flags_rdy, flags_rdy = flags)
      else if wait_type = OS_FLAG_WAIT_CLR_ANY then let flags_rdy = NOT cur AND flags in Some (flags_rdy, flags_rdy \<noteq> 0)
      else None)"

definition flag_consume :: "INT8U \<Rightarrow> OS_FLAGS \<Rightarrow> OS_FLAGS \<Rightarrow> OS_FLAGS" where
  "flag_consume wait_type flags_rdy cur =
     (if wait_type = OS_FLAG_WAIT_SET_ALL \<or> wait_type = OS_FLAG_WAIT_SET_ANY then cur AND NOT flags_rdy
      else cur OR flags_rdy)"

definition set_flags :: "nat \<Rightarrow> OS_FLAGS \<Rightarrow> os_state \<Rightarrow> os_state" where
  "set_flags g v = set_grp g (\<lambda>p. p\<lparr> OSFlagFlags := v \<rparr>)"

section \<open>Operations\<close>

definition OSFlagAccept ::
  "grp_ptr \<Rightarrow> OS_FLAGS \<Rightarrow> INT8U \<Rightarrow> INT8U option \<Rightarrow> os_state \<Rightarrow> OS_FLAGS \<times> INT8U option \<times> os_state" where
  "OSFlagAccept pgrp flags wait_type perr s =
     (if perr = None then (0, perr, s)
      else case pgrp of None \<Rightarrow> (0, Some OS_ERR_FLAG_INVALID_PGRP, s)
      | Some g \<Rightarrow>
          if OSFlagType (OSFlagTbl s g) \<noteq> OS_EVENT_TYPE_FLAG then (0, Some OS_ERR_EVENT_TYPE, s)
          else
            let consume = (wait_type AND OS_FLAG_CONSUME \<noteq> 0);
                wait_type = (if consume then wait_type AND NOT OS_FLAG_CONSUME else wait_type);
                cur = OSFlagFlags (OSFlagTbl s g) in
            case flag_cond wait_type flags cur of
              None \<Rightarrow> (0, Some OS_ERR_FLAG_WAIT_TYPE, s)
            | Some (flags_rdy, ok) \<Rightarrow>
                if ok then (flags_rdy, Some OS_ERR_NONE,
                            if consume then set_flags g (flag_consume wait_type flags_rdy cur) s else s)
                else (flags_rdy, Some OS_ERR_FLAG_NOT_RDY, s))"

definition grp_name_unknown :: "OS_FLAG_GRP \<Rightarrow> OS_FLAG_GRP" where
  "grp_name_unknown p = p\<lparr> OSFlagName := (OSFlagName p)[0 := 63, 1 := OS_ASCII_NUL] \<rparr>"

definition OSFlagCreate ::
  "OS_FLAGS \<Rightarrow> INT8U option \<Rightarrow> os_state \<Rightarrow> (grp_ptr \<times> INT8U option \<times> os_state) option" where
  "OSFlagCreate flags perr s =
     (if perr = None then Some (None, perr, s)
      else if OSIntNesting s > 0 then Some (None, Some OS_ERR_CREATE_ISR, s)
      else case OSFlagFreeList s of
        None \<Rightarrow> Some (None, Some OS_ERR_FLAG_GRP_DEPLETED, s)
      | Some g \<Rightarrow> do {
          nx \<leftarrow> (case OSFlagWaitList (OSFlagTbl s g) of Grp_Ptr p \<Rightarrow> Some p | Node_Ptr q \<Rightarrow> None);
          let s = s\<lparr> OSFlagFreeList := nx \<rparr>;
          Some (Some g, Some OS_ERR_NONE,
                set_grp g (\<lambda>p. grp_name_unknown (p\<lparr> OSFlagType := OS_EVENT_TYPE_FLAG, OSFlagFlags := flags,
                                                    OSFlagWaitList := Node_Ptr None \<rparr>)) s)
        })"

text \<open>Returning a group to the free list.\<close>

definition free_grp :: "nat \<Rightarrow> os_state \<Rightarrow> os_state" where
  "free_grp g s =
     (set_grp g (\<lambda>p. (grp_name_unknown p)\<lparr> OSFlagType := OS_EVENT_TYPE_UNUSED,
        OSFlagWaitList := Grp_Ptr (OSFlagFreeList s), OSFlagFlags := 0 \<rparr>) s)\<lparr> OSFlagFreeList := Some g \<rparr>"

text \<open>The loop of \<open>OSFlagDel\<close> that makes every waiting task ready.\<close>

partial_function (option) flag_del_loop :: "node_ptr \<Rightarrow> os_state \<Rightarrow> os_state option" where
  "flag_del_loop pnode s =
     (case pnode of None \<Rightarrow> Some s
      | Some n \<Rightarrow> do {
          (sched, s) \<leftarrow> OS_FlagTaskRdy n 0 s;
          flag_del_loop (OSFlagNodeNext (flag_node s n)) s
        })"

definition OSFlagDel ::
  "grp_ptr \<Rightarrow> INT8U \<Rightarrow> INT8U option \<Rightarrow> os_state \<Rightarrow> (grp_ptr \<times> INT8U option \<times> os_state) option" where
  "OSFlagDel pgrp opt perr s =
     (if perr = None then Some (pgrp, perr, s)
      else case pgrp of None \<Rightarrow> Some (pgrp, Some OS_ERR_FLAG_INVALID_PGRP, s)
      | Some g \<Rightarrow>
          if OSIntNesting s > 0 then Some (pgrp, Some OS_ERR_DEL_ISR, s)
          else if OSFlagType (OSFlagTbl s g) \<noteq> OS_EVENT_TYPE_FLAG then Some (pgrp, Some OS_ERR_EVENT_TYPE, s)
          else do {
            head \<leftarrow> (case OSFlagWaitList (OSFlagTbl s g) of Node_Ptr p \<Rightarrow> Some p | Grp_Ptr q \<Rightarrow> None);
            let tasks_waiting = (head \<noteq> None);
            if opt = OS_DEL_NO_PEND then
              if \<not> tasks_waiting then Some (None, Some OS_ERR_NONE, free_grp g s)
              else Some (pgrp, Some OS_ERR_TASK_WAITING, s)
            else if opt = OS_DEL_ALWAYS then do {
              s \<leftarrow> flag_del_loop head s;
              let s = free_grp g s;
              s \<leftarrow> (if tasks_waiting then OS_Sched s else Some s);
              Some (None, Some OS_ERR_NONE, s)
            }
            else Some (pgrp, Some OS_ERR_INVALID_OPT, s)
          })"

text \<open>\<open>Some v\<close>: the function has returned \<open>v\<close>. \<open>None\<close>: the task waits and \<open>OSFlagPend_resume\<close> follows.\<close>

definition OSFlagPend_enter ::
  "grp_ptr \<Rightarrow> OS_FLAGS \<Rightarrow> INT8U \<Rightarrow> INT16U \<Rightarrow> INT8U option \<Rightarrow> nat \<Rightarrow> os_state \<Rightarrow>
     (OS_FLAGS option \<times> INT8U option \<times> os_state) option" where
  "OSFlagPend_enter pgrp flags wait_type timeout perr node s =
     (if perr = None then Some (Some 0, perr, s)
      else case pgrp of None \<Rightarrow> Some (Some 0, Some OS_ERR_FLAG_INVALID_PGRP, s)
      | Some g \<Rightarrow>
          if OSIntNesting s > 0 then Some (Some 0, Some OS_ERR_PEND_ISR, s)
          else if OSLockNesting s > 0 then Some (Some 0, Some OS_ERR_PEND_LOCKED, s)
          else if OSFlagType (OSFlagTbl s g) \<noteq> OS_EVENT_TYPE_FLAG then Some (Some 0, Some OS_ERR_EVENT_TYPE, s)
          else
            let consume = (wait_type AND OS_FLAG_CONSUME \<noteq> 0);
                wait_type = (if consume then wait_type AND NOT OS_FLAG_CONSUME else wait_type);
                cur = OSFlagFlags (OSFlagTbl s g) in
            case flag_cond wait_type flags cur of
              None \<Rightarrow> Some (Some 0, Some OS_ERR_FLAG_WAIT_TYPE, s)
            | Some (flags_rdy, ok) \<Rightarrow>
                if ok then do {
                  let s = (if consume then set_flags g (flag_consume wait_type flags_rdy cur) s else s);
                  i \<leftarrow> tcb_index (OSTCBCur s);
                  Some (Some flags_rdy, Some OS_ERR_NONE, set_tcb i (\<lambda>t. t\<lparr> OSTCBFlagsRdy := flags_rdy \<rparr>) s)
                }
                else do {
                  s \<leftarrow> OS_FlagBlock g node flags wait_type timeout s;
                  s \<leftarrow> OS_Sched s;
                  Some (None, perr, s)
                })"

text \<open>\<open>wait_type\<close> and \<open>consume\<close> are the local variables, that is without the consume bit.\<close>

definition OSFlagPend_resume ::
  "nat \<Rightarrow> INT8U \<Rightarrow> bool \<Rightarrow> nat \<Rightarrow> os_state \<Rightarrow> (OS_FLAGS \<times> INT8U \<times> os_state) option" where
  "OSFlagPend_resume g wait_type consume node s = do {
     i \<leftarrow> tcb_index (OSTCBCur s);
     let pend_stat = OSTCBStatPend (TCB s i);
     if pend_stat \<noteq> OS_STAT_PEND_OK then do {
       let s = set_tcb i (\<lambda>t. t\<lparr> OSTCBStatPend := OS_STAT_PEND_OK \<rparr>) s;
       s \<leftarrow> OS_FlagUnlink node s;
       let s = set_tcb i (\<lambda>t. t\<lparr> OSTCBStat := OS_STAT_RDY \<rparr>) s;
       Some (0, if pend_stat = OS_STAT_PEND_ABORT then OS_ERR_PEND_ABORT else OS_ERR_TIMEOUT, s)
     }
     else
       let flags_rdy = OSTCBFlagsRdy (TCB s i) in
       if consume then
         if wait_type \<in> {OS_FLAG_WAIT_SET_ALL, OS_FLAG_WAIT_SET_ANY, OS_FLAG_WAIT_CLR_ALL, OS_FLAG_WAIT_CLR_ANY} then
           Some (flags_rdy, OS_ERR_NONE, set_flags g (flag_consume wait_type flags_rdy (OSFlagFlags (OSFlagTbl s g))) s)
         else Some (0, OS_ERR_FLAG_WAIT_TYPE, s)
       else Some (flags_rdy, OS_ERR_NONE, s)
   }"

definition OSFlagPendGetFlagsRdy :: "os_state \<Rightarrow> OS_FLAGS option" where
  "OSFlagPendGetFlagsRdy s = do { i \<leftarrow> tcb_index (OSTCBCur s); Some (OSTCBFlagsRdy (TCB s i)) }"

text \<open>
  The loop of \<open>OSFlagPost\<close>. The first component of the result is \<open>None\<close> where a node has an
  unknown type of wait, and otherwise says whether a task was made ready.
\<close>

partial_function (option) flag_post_loop ::
  "nat \<Rightarrow> node_ptr \<Rightarrow> bool \<Rightarrow> os_state \<Rightarrow> (bool option \<times> os_state) option" where
  "flag_post_loop g pnode sched s =
     (case pnode of None \<Rightarrow> Some (Some sched, s)
      | Some n \<Rightarrow>
          (case flag_cond (OSFlagNodeWaitType (flag_node s n)) (OSFlagNodeFlags (flag_node s n))
                  (OSFlagFlags (OSFlagTbl s g)) of
             None \<Rightarrow> Some (None, s)
           | Some (flags_rdy, ok) \<Rightarrow> do {
               (sched, s) \<leftarrow> (if ok then do { (r, s) \<leftarrow> OS_FlagTaskRdy n flags_rdy s; Some (sched \<or> r, s) }
                             else Some (sched, s));
               flag_post_loop g (OSFlagNodeNext (flag_node s n)) sched s
             }))"

text \<open>
  Up to the scheduler, which runs when a task was made ready. \<open>None\<close>: \<open>OSFlagPost_resume\<close> follows when the
  caller runs.
\<close>

definition OSFlagPost_enter ::
  "grp_ptr \<Rightarrow> OS_FLAGS \<Rightarrow> INT8U \<Rightarrow> INT8U option \<Rightarrow> os_state \<Rightarrow> (OS_FLAGS option \<times> INT8U option \<times> os_state) option" where
  "OSFlagPost_enter pgrp flags opt perr s =
     (if perr = None then Some (Some 0, perr, s)
      else case pgrp of None \<Rightarrow> Some (Some 0, Some OS_ERR_FLAG_INVALID_PGRP, s)
      | Some g \<Rightarrow>
          if OSFlagType (OSFlagTbl s g) \<noteq> OS_EVENT_TYPE_FLAG then Some (Some 0, Some OS_ERR_EVENT_TYPE, s)
          else if opt \<noteq> OS_FLAG_CLR \<and> opt \<noteq> OS_FLAG_SET then Some (Some 0, Some OS_ERR_FLAG_INVALID_OPT, s)
          else do {
            let cur = OSFlagFlags (OSFlagTbl s g);
            let s = set_flags g (if opt = OS_FLAG_CLR then cur AND NOT flags else cur OR flags) s;
            head \<leftarrow> (case OSFlagWaitList (OSFlagTbl s g) of Node_Ptr p \<Rightarrow> Some p | Grp_Ptr q \<Rightarrow> None);
            (sched, s) \<leftarrow> flag_post_loop g head False s;
            (case sched of
               None \<Rightarrow> Some (Some 0, Some OS_ERR_FLAG_WAIT_TYPE, s)
             | Some r \<Rightarrow> do {
                 s \<leftarrow> (if r then OS_Sched s else Some s);
                 Some (None, perr, s)
               })
          })"

definition OSFlagPost_resume :: "nat \<Rightarrow> os_state \<Rightarrow> OS_FLAGS \<times> INT8U" where
  "OSFlagPost_resume g s = (OSFlagFlags (OSFlagTbl s g), OS_ERR_NONE)"

definition OSFlagQuery :: "grp_ptr \<Rightarrow> INT8U option \<Rightarrow> os_state \<Rightarrow> OS_FLAGS \<times> INT8U option" where
  "OSFlagQuery pgrp perr s =
     (if perr = None then (0, perr)
      else case pgrp of None \<Rightarrow> (0, Some OS_ERR_FLAG_INVALID_PGRP)
      | Some g \<Rightarrow>
          if OSFlagType (OSFlagTbl s g) \<noteq> OS_EVENT_TYPE_FLAG then (0, Some OS_ERR_EVENT_TYPE)
          else (OSFlagFlags (OSFlagTbl s g), Some OS_ERR_NONE))"

section \<open>The list\<close>

text \<open>The nodes from pointer \<open>p\<close> up to pointer \<open>q\<close>, doubly linked.\<close>

fun flag_seg :: "(nat \<Rightarrow> OS_FLAG_NODE) \<Rightarrow> nat \<Rightarrow> node_ptr \<Rightarrow> node_ptr \<Rightarrow> nat list \<Rightarrow> node_ptr \<Rightarrow> bool" where
  "flag_seg F g prev p [] q = (p = q)"
| "flag_seg F g prev p (n # ns) q = (p = Some n \<and> OSFlagNodePrev (F n) = prev \<and>
     OSFlagNodeFlagGrp (F n) = Some g \<and> flag_seg F g (Some n) (OSFlagNodeNext (F n)) ns q)"

definition flag_list :: "nat \<Rightarrow> os_state \<Rightarrow> nat list \<Rightarrow> bool" where
  "flag_list g s ns \<longleftrightarrow> distinct ns \<and>
     (\<exists>p. OSFlagWaitList (OSFlagTbl s g) = Node_Ptr p \<and> flag_seg (flag_node s) g None p ns None)"

lemma flag_seg_append:
  "flag_seg F g prev p (xs @ ys) q \<longleftrightarrow>
     (\<exists>r. flag_seg F g prev p xs r \<and> flag_seg F g (if xs = [] then prev else Some (last xs)) r ys q)"
  by (induction xs arbitrary: prev p) auto

lemma flag_seg_cong:
  "(\<And>n. n \<in> set ns \<Longrightarrow> OSFlagNodePrev (F' n) = OSFlagNodePrev (F n) \<and>
       OSFlagNodeNext (F' n) = OSFlagNodeNext (F n) \<and> OSFlagNodeFlagGrp (F' n) = OSFlagNodeFlagGrp (F n)) \<Longrightarrow>
     flag_seg F' g prev p ns q = flag_seg F g prev p ns q"
  by (induction ns arbitrary: prev p) auto

lemma flag_seg_upd: "n \<notin> set ns \<Longrightarrow> flag_seg (F(n := x)) g prev p ns q = flag_seg F g prev p ns q"
  by (rule flag_seg_cong) auto

lemma flag_list_distinct: "flag_list g s ns \<Longrightarrow> distinct ns"
  by (simp add: flag_list_def)

lemma flag_list_split: "flag_list g s (xs @ n # ys) \<Longrightarrow>
    OSFlagNodePrev (flag_node s n) = (if xs = [] then None else Some (last xs)) \<and>
    OSFlagNodeNext (flag_node s n) = (case ys of [] \<Rightarrow> None | m # ms \<Rightarrow> Some m) \<and>
    OSFlagNodeFlagGrp (flag_node s n) = Some g"
  by (auto simp: flag_list_def flag_seg_append split: list.splits)

lemma flag_list_head: "flag_list g s ns \<Longrightarrow>
    OSFlagWaitList (OSFlagTbl s g) = Node_Ptr (case ns of [] \<Rightarrow> None | n # ms \<Rightarrow> Some n)"
  by (auto simp: flag_list_def split: list.splits)

text \<open>What the list operations change.\<close>

definition flag_frame :: "os_state \<Rightarrow> os_state \<Rightarrow> bool" where
  "flag_frame s s' \<longleftrightarrow>
     s' = s\<lparr> TCB := TCB s', OSRdyGrp := OSRdyGrp s', OSRdyTbl := OSRdyTbl s',
             OSFlagTbl := OSFlagTbl s', flag_node := flag_node s' \<rparr> \<and>
     (\<forall>g. OSFlagFlags (OSFlagTbl s' g) = OSFlagFlags (OSFlagTbl s g) \<and>
          OSFlagType (OSFlagTbl s' g) = OSFlagType (OSFlagTbl s g)) \<and>
     (\<forall>n. OSFlagNodeFlags (flag_node s' n) = OSFlagNodeFlags (flag_node s n) \<and>
          OSFlagNodeWaitType (flag_node s' n) = OSFlagNodeWaitType (flag_node s n) \<and>
          OSFlagNodeTCB (flag_node s' n) = OSFlagNodeTCB (flag_node s n))"

lemma flag_frame_refl [simp]: "flag_frame s s"
  by (simp add: flag_frame_def)

lemma flag_frame_trans: "flag_frame s s' \<Longrightarrow> flag_frame s' s'' \<Longrightarrow> flag_frame s s''"
proof -
  assume 1: "flag_frame s s'" and 2: "flag_frame s' s''"
  then have "s'' = s\<lparr> TCB := TCB s'', OSRdyGrp := OSRdyGrp s'', OSRdyTbl := OSRdyTbl s'',
             OSFlagTbl := OSFlagTbl s'', flag_node := flag_node s'' \<rparr>"
    unfolding flag_frame_def by (cases s; cases s'; cases s'') simp
  with 1 2 show ?thesis by (simp add: flag_frame_def)
qed

lemma flag_frame_set [simp]:
  "flag_frame s (set_tcb i f s') \<longleftrightarrow> flag_frame s s'" "flag_frame s (set_rdy b s') \<longleftrightarrow> flag_frame s s'"
  by (cases s; cases s'; simp add: flag_frame_def set_tcb_def set_rdy_def)+

lemma flag_frameD:
  assumes "flag_frame s s'"
  shows "OSTCBPrioTbl s' = OSTCBPrioTbl s" "ECB s' = ECB s" "waiters e s' = waiters e s"
    "OSTCBCur s' = OSTCBCur s" "OSPrioCur s' = OSPrioCur s" "OSIntNesting s' = OSIntNesting s"
    "OSLockNesting s' = OSLockNesting s" "wait_set e s' = wait_set e s" "OSFlagFreeList s' = OSFlagFreeList s"
proof -
  have "s' = s\<lparr> TCB := TCB s', OSRdyGrp := OSRdyGrp s', OSRdyTbl := OSRdyTbl s',
             OSFlagTbl := OSFlagTbl s', flag_node := flag_node s' \<rparr>"
    using assms by (simp add: flag_frame_def)
  then show "OSTCBPrioTbl s' = OSTCBPrioTbl s" "ECB s' = ECB s" "waiters e s' = waiters e s"
    "OSTCBCur s' = OSTCBCur s" "OSPrioCur s' = OSPrioCur s" "OSIntNesting s' = OSIntNesting s"
    "OSLockNesting s' = OSLockNesting s" "wait_set e s' = wait_set e s" "OSFlagFreeList s' = OSFlagFreeList s"
    by (cases s; cases s'; simp add: waiters_def wait_set_def)+
qed

lemma flag_set_simps [simp]:
  "TCB (set_grp g f s) = TCB s" "TCB (set_node n h s) = TCB s" "rdy (set_grp g f s) = rdy s" "rdy (set_node n h s) = rdy s"
  "OSFlagTbl (set_grp g f s) = (OSFlagTbl s)(g := f (OSFlagTbl s g))" "OSFlagTbl (set_node n h s) = OSFlagTbl s"
  "flag_node (set_node n h s) = (flag_node s)(n := h (flag_node s n))" "flag_node (set_grp g f s) = flag_node s"
  "OSFlagTbl (set_tcb i k s) = OSFlagTbl s" "flag_node (set_tcb i k s) = flag_node s"
  "OSFlagTbl (set_rdy b s) = OSFlagTbl s" "flag_node (set_rdy b s) = flag_node s"
  by (simp_all add: set_grp_def set_node_def set_tcb_def set_rdy_def rdy_def)

lemma OS_FlagUnlink_ok:
  assumes l: "flag_list g s (xs @ n # ys)" and t: "OSFlagNodeTCB (flag_node s n) = TCB_AT i"
  shows "\<exists>s'. OS_FlagUnlink n s = Some s' \<and> flag_list g s' (xs @ ys) \<and> flag_frame s s' \<and>
     OSFlagNodeNext (flag_node s' n) = OSFlagNodeNext (flag_node s n) \<and> rdy s' = rdy s \<and>
     TCB s' = (TCB s)(i := (TCB s i)\<lparr> OSTCBFlagNode := None \<rparr>)"
proof -
  note sp = flag_list_split [OF l]
  have d: "distinct (xs @ n # ys)" by (rule flag_list_distinct [OF l])
  let ?nx = "OSFlagNodeNext (flag_node s n)"
  let ?fix = "\<lambda>pv s. case ?nx of None \<Rightarrow> s | Some m \<Rightarrow> set_node m (\<lambda>nd. nd\<lparr> OSFlagNodePrev := pv \<rparr>) s"
  obtain p where p: "OSFlagWaitList (OSFlagTbl s g) = Node_Ptr p" "flag_seg (flag_node s) g None p (xs @ n # ys) None"
    using l by (auto simp: flag_list_def)
  show ?thesis
  proof (cases "xs = []")
    case True
    let ?s = "?fix None (set_grp g (\<lambda>p. p\<lparr> OSFlagWaitList := Node_Ptr ?nx \<rparr>) s)"
    have "flag_list g ?s ys"
      using p d True sp by (auto simp: flag_list_def flag_seg_upd split: list.splits)
    moreover have "flag_frame s ?s"
      by (cases s) (auto simp: flag_frame_def set_grp_def set_node_def split: option.splits)
    ultimately show ?thesis using True sp d t
      by (intro exI [of _ "set_tcb i (\<lambda>t. t\<lparr> OSTCBFlagNode := None \<rparr>) ?s"])
        (auto simp: OS_FlagUnlink_def flag_list_def split: list.splits)
  next
    case False
    then obtain us q where xs: "xs = us @ [q]" by (cases xs rule: rev_cases) auto
    let ?s = "?fix (Some q) (set_node q (\<lambda>nd. nd\<lparr> OSFlagNodeNext := ?nx \<rparr>) s)"
    have "flag_list g ?s (xs @ ys)"
      using p d sp unfolding xs
      by (cases ys) (auto simp: flag_list_def flag_seg_append flag_seg_upd)
    moreover have "flag_frame s ?s"
      by (cases s) (auto simp: flag_frame_def set_node_def split: option.splits)
    ultimately show ?thesis using xs sp d t
      by (intro exI [of _ "set_tcb i (\<lambda>t. t\<lparr> OSTCBFlagNode := None \<rparr>) ?s"])
        (auto simp: OS_FlagUnlink_def flag_list_def split: list.splits)
  qed
qed


section \<open>Waking one task\<close>

definition flag_woken :: "OS_FLAGS \<Rightarrow> OS_TCB \<Rightarrow> OS_TCB" where
  "flag_woken v t = t\<lparr> OSTCBDly := 0, OSTCBFlagsRdy := v, OSTCBStat := OSTCBStat t AND NOT OS_STAT_FLAG,
     OSTCBStatPend := OS_STAT_PEND_OK, OSTCBFlagNode := None \<rparr>"

text \<open>The task of a node: it exists and waits for no event.\<close>

definition node_task :: "os_state \<Rightarrow> nat \<Rightarrow> nat \<Rightarrow> nat \<Rightarrow> bool" where
  "node_task s n p i \<longleftrightarrow> OSFlagNodeTCB (flag_node s n) = TCB_AT i \<and> task_at s p i \<and> (\<forall>e. p \<notin> wait_set e s)"

lemma masks_ok_flag_woken [simp]: "masks_ok p (flag_woken v t) = masks_ok p t"
  by (simp add: masks_ok_def flag_woken_def)

lemma kernel_ok_flag_woken:
  assumes ok: "kernel_ok s" and nt: "node_task s n p i" and fr: "flag_frame s s'"
    and T: "TCB s' = (TCB s)(i := flag_woken v (TCB s i))" and bm: "bm_ok (rdy s')"
    and rd: "ready_set s' = (if OSTCBStat (TCB s i) AND NOT 0x20 = 0 then insert p (ready_set s) else ready_set s)"
  shows "kernel_ok s'"
proof -
  note nt' = nt [unfolded node_task_def] and f = flag_frameD [OF fr]
  have tok: "task_ok s p (TCB s i)" using kernel_okD(4) [OF ok] nt' by blast
  have st: "OSTCBStat (TCB s i) AND 0x17 = 0" using task_okD(7) [OF tok] nt' by blast
  have st': "(OSTCBStat (TCB s i) AND NOT 0x20) AND 0x17 = 0" "(OSTCBStat (TCB s i) AND NOT 0x20) AND NOT 0x3F = 0"
    using st task_okD(2) [OF tok] by (metis and.assoc and.commute and_zero_eq)+
  have run: "OSTCBStat (TCB s i) AND NOT 0x20 = 0" if "runnable (TCB s i)" using that by (simp add: runnable_def)
  have wt: "p \<notin> wait_set e s" for e using nt' by blast
  have "task_ok s' p (TCB s' i)"
    using task_okD(1,3,4) [OF tok] st' run wt
    unfolding task_ok_def T rd by (auto simp: f flag_woken_def runnable_def masks_ok_def)
  moreover have "runnable (TCB s' i)" if "p = 20"
    using kernel_okD(7) [OF ok] that task_okD(4) [OF tok] run
    by (auto simp: T flag_woken_def runnable_def)
  ultimately show ?thesis
    using nt' rd bm kernel_okD(3) [OF ok]
    by (intro kernel_ok_update [OF ok, of p i s']) (simp_all add: f T split: if_splits)
qed

lemma OS_FlagTaskRdy_ok:
  assumes ok: "kernel_ok s" and l: "flag_list g s (xs @ n # ys)" and nt: "node_task s n p i"
  shows "\<exists>s'. OS_FlagTaskRdy n v s = Some (OSTCBStat (TCB s i) AND NOT 0x20 = 0, s') \<and> kernel_ok s' \<and>
     flag_list g s' (xs @ ys) \<and> flag_frame s s' \<and> OSFlagNodeNext (flag_node s' n) = OSFlagNodeNext (flag_node s n) \<and>
     TCB s' = (TCB s)(i := flag_woken v (TCB s i)) \<and>
     ready_set s' = (if OSTCBStat (TCB s i) AND NOT 0x20 = 0 then insert p (ready_set s) else ready_set s)"
proof -
  let ?w = "\<lambda>t. t\<lparr> OSTCBDly := 0, OSTCBFlagsRdy := v, OSTCBStat := OSTCBStat t AND NOT OS_STAT_FLAG,
     OSTCBStatPend := OS_STAT_PEND_OK \<rparr>"
  let ?s1 = "set_tcb i ?w s"
  have at: "task_at s p i" "OSFlagNodeTCB (flag_node s n) = TCB_AT i" using nt by (auto simp: node_task_def)
  have m: "masks_ok p (TCB s i)" by (rule task_okD(1) [OF kernel_okD(4) [OF ok at(1)]])
  have "p \<le> 20" using at(1) by (simp add: task_at_def)
  with masks_set [OF kernel_okD(2) [OF ok] m] obtain b where
    b: "bm_set (OSTCBY (TCB s i)) (OSTCBBitX (TCB s i)) (OSTCBBitY (TCB s i)) (rdy s) = Some b" "bm_ok b"
      "bm_elems b = insert p (bm_elems (rdy s))" by blast
  define z where "z = (OSTCBStat (TCB s i) AND NOT 0x20 = 0)"
  define s2 where "s2 = (if z then set_rdy b ?s1 else ?s1)"
  have s2: "flag_node s2 = flag_node s" "TCB s2 = (TCB s)(i := ?w (TCB s i))" "flag_frame s s2"
    "rdy s2 = (if z then b else rdy s)" "OSFlagTbl s2 = OSFlagTbl s" by (simp_all add: s2_def)
  have "flag_list g s2 (xs @ n # ys)" "OSFlagNodeTCB (flag_node s2 n) = TCB_AT i"
    using l at(2) by (simp_all add: flag_list_def s2)
  from OS_FlagUnlink_ok [OF this] obtain s' where
    s': "OS_FlagUnlink n s2 = Some s'" "flag_list g s' (xs @ ys)" "flag_frame s2 s'"
      "OSFlagNodeNext (flag_node s' n) = OSFlagNodeNext (flag_node s2 n)" "rdy s' = rdy s2"
      "TCB s' = (TCB s2)(i := (TCB s2 i)\<lparr> OSTCBFlagNode := None \<rparr>)" by blast
  have fr: "flag_frame s s'" using s2(3) s'(3) flag_frame_trans by blast
  have T: "TCB s' = (TCB s)(i := flag_woken v (TCB s i))"
    unfolding s'(6) s2(2) by (auto simp: flag_woken_def fun_eq_iff)
  have rd: "bm_ok (rdy s')" "ready_set s' = (if z then insert p (ready_set s) else ready_set s)"
    using b kernel_okD(2) [OF ok] by (simp_all add: s'(5) s2(4) ready_set_def)
  have "OS_FlagTaskRdy n v s = Some (z, s')"
    using s'(1) b(1) at(2) by (cases z) (simp_all add: OS_FlagTaskRdy_def z_def s2_def Let_def)
  moreover have "kernel_ok s'"
    by (rule kernel_ok_flag_woken [OF ok nt fr T rd [unfolded z_def]])
  ultimately show ?thesis using s'(2,4) fr T rd(2) s2(1) unfolding z_def by auto
qed


section \<open>The walk of a post\<close>

definition satisfied :: "nat \<Rightarrow> os_state \<Rightarrow> nat \<Rightarrow> bool" where
  "satisfied g s n \<longleftrightarrow>
     (case flag_cond (OSFlagNodeWaitType (flag_node s n)) (OSFlagNodeFlags (flag_node s n))
             (OSFlagFlags (OSFlagTbl s g)) of
        None \<Rightarrow> False | Some (flags_rdy, ok) \<Rightarrow> ok)"

definition flags_seen :: "nat \<Rightarrow> os_state \<Rightarrow> nat \<Rightarrow> OS_FLAGS" where
  "flags_seen g s n =
     fst (the (flag_cond (OSFlagNodeWaitType (flag_node s n)) (OSFlagNodeFlags (flag_node s n))
             (OSFlagFlags (OSFlagTbl s g))))"

text \<open>The nodes of a group: a list whose nodes belong to different tasks, with known types of wait.\<close>

definition flags_ok :: "nat \<Rightarrow> os_state \<Rightarrow> nat list \<Rightarrow> bool" where
  "flags_ok g s ns \<longleftrightarrow> flag_list g s ns \<and> inj_on (\<lambda>n. OSFlagNodeTCB (flag_node s n)) (set ns) \<and>
     (\<forall>n \<in> set ns. OSFlagNodeWaitType (flag_node s n) < 4 \<and> (\<exists>p i. node_task s n p i))"

definition flag_waked :: "nat \<Rightarrow> os_state \<Rightarrow> nat list \<Rightarrow> nat set" where
  "flag_waked g s ns =
     {p. \<exists>n \<in> set ns. \<exists>i. satisfied g s n \<and> node_task s n p i \<and> OSTCBStat (TCB s i) AND NOT 0x20 = 0}"

lemma flag_cond_known:
  assumes "wt < 4"
  shows "flag_cond wt flags cur \<noteq> None"
proof -
  have "unat wt < 4" using assms by (simp add: word_less_unat)
  then have "unat wt = 0 \<or> unat wt = 1 \<or> unat wt = 2 \<or> unat wt = 3" by arith
  then have "wt = 0 \<or> wt = 1 \<or> wt = 2 \<or> wt = 3" by (simp add: word_unat_eq_iff)
  then show ?thesis by (auto simp: flag_cond_def Let_def)
qed

lemma flag_cond_eq:
  "OSFlagNodeWaitType (flag_node s n) < 4 \<Longrightarrow>
   flag_cond (OSFlagNodeWaitType (flag_node s n)) (OSFlagNodeFlags (flag_node s n)) (OSFlagFlags (OSFlagTbl s g)) =
     Some (flags_seen g s n, satisfied g s n)"
  using flag_cond_known [of "OSFlagNodeWaitType (flag_node s n)" "OSFlagNodeFlags (flag_node s n)"
      "OSFlagFlags (OSFlagTbl s g)"]
  by (auto simp: flags_seen_def satisfied_def split: option.splits prod.splits)

lemma flag_frame_same:
  assumes "flag_frame s s'"
  shows "satisfied g s' n = satisfied g s n" "flags_seen g s' n = flags_seen g s n"
    "node_task s' n p i = node_task s n p i" "OSFlagNodeTCB (flag_node s' n) = OSFlagNodeTCB (flag_node s n)"
    "OSFlagNodeWaitType (flag_node s' n) = OSFlagNodeWaitType (flag_node s n)"
proof -
  have n: "OSFlagNodeFlags (flag_node s' n) = OSFlagNodeFlags (flag_node s n)"
    "OSFlagNodeWaitType (flag_node s' n) = OSFlagNodeWaitType (flag_node s n)"
    "OSFlagNodeTCB (flag_node s' n) = OSFlagNodeTCB (flag_node s n)"
    "OSFlagFlags (OSFlagTbl s' g) = OSFlagFlags (OSFlagTbl s g)"
    using assms unfolding flag_frame_def by blast+
  then show "satisfied g s' n = satisfied g s n" "flags_seen g s' n = flags_seen g s n"
    "node_task s' n p i = node_task s n p i" "OSFlagNodeTCB (flag_node s' n) = OSFlagNodeTCB (flag_node s n)"
    "OSFlagNodeWaitType (flag_node s' n) = OSFlagNodeWaitType (flag_node s n)"
    by (simp_all add: satisfied_def flags_seen_def node_task_def task_at_def flag_frameD [OF assms])
qed

lemma flags_ok_frame:
  "flag_frame s s' \<Longrightarrow> flags_ok g s ns \<Longrightarrow> set ms \<subseteq> set ns \<Longrightarrow> flag_list g s' ms \<Longrightarrow> flags_ok g s' ms"
  by (auto simp: flags_ok_def flag_frame_same intro: inj_on_subset)

lemma node_task_unique:
  "kernel_ok s \<Longrightarrow> node_task s n p i \<Longrightarrow> node_task s n q j \<longleftrightarrow> q = p \<and> j = i"
  using task_at_inj by (auto simp: node_task_def)

lemma flags_ok_other:
  assumes "flags_ok g s (ks @ n # ys)" "m \<in> set ys"
  shows "OSFlagNodeTCB (flag_node s m) \<noteq> OSFlagNodeTCB (flag_node s n)"
proof -
  have "inj_on (\<lambda>n. OSFlagNodeTCB (flag_node s n)) (set (ks @ n # ys))" "m \<noteq> n"
    using assms by (auto simp: flags_ok_def flag_list_def)
  from inj_onD [OF this(1), of m n] this(2) assms(2) show ?thesis by auto
qed

lemma flag_waked_Cons:
  assumes kok: "kernel_ok s" and ok: "flags_ok g s (ks @ n # ys)" and nt: "node_task s n p i" and fr: "flag_frame s s'"
    and T: "\<And>j. j \<noteq> i \<Longrightarrow> TCB s' j = TCB s j"
  shows "flag_waked g s (n # ys) =
     (if satisfied g s n \<and> OSTCBStat (TCB s i) AND NOT 0x20 = 0 then {p} else {}) \<union> flag_waked g s' ys"
proof -
  have "TCB s' j = TCB s j" if "m \<in> set ys" "node_task s m q j" for m q j
    using flags_ok_other [OF ok that(1)] that(2) nt by (intro T) (auto simp: node_task_def)
  then have "flag_waked g s' ys = flag_waked g s ys"
    unfolding flag_waked_def flag_frame_same [OF fr] by (metis (no_types, lifting))
  moreover have "flag_waked g s (n # ys) = {q. \<exists>j. satisfied g s n \<and> node_task s n q j \<and>
      OSTCBStat (TCB s j) AND NOT 0x20 = 0} \<union> flag_waked g s ys" by (auto simp: flag_waked_def)
  ultimately show ?thesis unfolding node_task_unique [OF kok nt] by auto
qed

text \<open>The result of the walk over the nodes \<open>ys\<close>.\<close>

definition walked :: "nat \<Rightarrow> os_state \<Rightarrow> nat list \<Rightarrow> os_state \<Rightarrow> bool" where
  "walked g s ys s' \<longleftrightarrow> kernel_ok s' \<and> flag_frame s s' \<and> ready_set s' = ready_set s \<union> flag_waked g s ys \<and>
     (\<forall>n \<in> set ys. \<forall>p i. node_task s n p i \<longrightarrow>
        TCB s' i = (if satisfied g s n then flag_woken (flags_seen g s n) (TCB s i) else TCB s i)) \<and>
     (\<forall>j. (\<forall>n \<in> set ys. OSFlagNodeTCB (flag_node s n) \<noteq> TCB_AT j) \<longrightarrow> TCB s' j = TCB s j)"

lemma walked_Cons:
  assumes kok: "kernel_ok s" and ok: "flags_ok g s (ks @ n # ys)" and nt: "node_task s n p i" and fr: "flag_frame s s1"
    and T: "TCB s1 = (TCB s)(i := (if satisfied g s n then flag_woken (flags_seen g s n) (TCB s i) else TCB s i))"
    and rd: "ready_set s1 = ready_set s \<union>
       (if satisfied g s n \<and> OSTCBStat (TCB s i) AND NOT 0x20 = 0 then {p} else {})"
    and w: "walked g s1 ys s'"
  shows "walked g s (n # ys) s'"
proof -
  note same = flag_frame_same [OF fr]
  have ni: "OSFlagNodeTCB (flag_node s n) = TCB_AT i" using nt by (simp add: node_task_def)
  have other: "j \<noteq> i" if "m \<in> set ys" "node_task s m q j" for m q j
    using flags_ok_other [OF ok that(1)] that(2) ni by (auto simp: node_task_def)
  have "\<forall>m \<in> set ys. OSFlagNodeTCB (flag_node s1 m) \<noteq> TCB_AT i"
    using flags_ok_other [OF ok] ni by (auto simp: same)
  then have i: "TCB s' i = TCB s1 i" using w by (simp add: walked_def)
  have "TCB s' j = (if satisfied g s m then flag_woken (flags_seen g s m) (TCB s j) else TCB s j)"
    if "m \<in> set (n # ys)" "node_task s m q j" for m q j
  proof (cases "m = n")
    case True
    then show ?thesis using that node_task_unique [OF kok nt] i by (auto simp: T)
  next
    case False
    then have m: "m \<in> set ys" using that(1) by simp
    then have "TCB s' j = (if satisfied g s m then flag_woken (flags_seen g s m) (TCB s1 j) else TCB s1 j)"
      using w that(2) by (auto simp: walked_def same)
    then show ?thesis using other [OF m that(2)] by (simp add: T)
  qed
  moreover have "ready_set s' = ready_set s \<union> flag_waked g s (n # ys)"
    using w rd flag_waked_Cons [OF kok ok nt fr] by (auto simp: walked_def T)
  moreover have "TCB s' j = TCB s j" if "\<forall>m \<in> set (n # ys). OSFlagNodeTCB (flag_node s m) \<noteq> TCB_AT j" for j
    using that w ni by (auto simp: walked_def same T)
  ultimately show ?thesis using w flag_frame_trans [OF fr] by (auto simp: walked_def)
qed

lemma flag_post_loop_ok:
  assumes "kernel_ok s" and "flags_ok g s (ks @ ys)"
  shows "\<exists>s'. flag_post_loop g (case ys of [] \<Rightarrow> None | n # ms \<Rightarrow> Some n) sched s =
       Some (Some (sched \<or> flag_waked g s ys \<noteq> {}), s') \<and> walked g s ys s' \<and>
       flag_list g s' (ks @ filter (\<lambda>n. \<not> satisfied g s n) ys)"
  using assms
proof (induction ys arbitrary: ks s sched)
  case Nil
  then show ?case
    by (subst flag_post_loop.simps) (auto simp: walked_def flag_waked_def flags_ok_def)
next
  case (Cons n ys)
  have fok: "flag_list g s (ks @ n # ys)" "OSFlagNodeWaitType (flag_node s n) < 4"
    using Cons.prems(2) by (auto simp: flags_ok_def)
  obtain p i where nt: "node_task s n p i" using Cons.prems(2) by (auto simp: flags_ok_def)
  note c = flag_cond_eq [OF fok(2), of g]
  let ?hd = "\<lambda>ys :: nat list. case ys of [] \<Rightarrow> None | n # ms \<Rightarrow> Some n"
  have nx: "OSFlagNodeNext (flag_node s n) = ?hd ys" using flag_list_split [OF fok(1)] by blast
  define z where "z = (OSTCBStat (TCB s i) AND NOT 0x20 = 0)"
  obtain r s1 ks1 where s1: "(if satisfied g s n then do { (r, s) \<leftarrow> OS_FlagTaskRdy n (flags_seen g s n) s; Some (sched \<or> r, s) }
      else Some (sched, s)) = Some (sched \<or> r, s1)" "r = (satisfied g s n \<and> z)" "kernel_ok s1" "flag_frame s s1"
    "flag_list g s1 (ks1 @ ys)" "ks1 = (if satisfied g s n then ks else ks @ [n])" "OSFlagNodeNext (flag_node s1 n) = ?hd ys"
    "TCB s1 = (TCB s)(i := (if satisfied g s n then flag_woken (flags_seen g s n) (TCB s i) else TCB s i))"
    "ready_set s1 = ready_set s \<union> (if satisfied g s n \<and> z then {p} else {})"
  proof (cases "satisfied g s n")
    case True
    with OS_FlagTaskRdy_ok [OF Cons.prems(1) fok(1) nt, of "flags_seen g s n"] that [of z _ ks] nx
    show ?thesis unfolding z_def by (auto simp: Un_commute)
  next
    case False
    with that [of False s "ks @ [n]"] Cons.prems(1) fok(1) nx show ?thesis by simp
  qed
  have f1: "flags_ok g s1 (ks1 @ ys)"
    by (rule flags_ok_frame [OF s1(4) Cons.prems(2) _ s1(5)]) (use s1(6) in auto)
  from Cons.IH [OF s1(3) f1, of "sched \<or> r"] obtain s' where
    s': "flag_post_loop g (?hd ys) (sched \<or> r) s1 = Some (Some ((sched \<or> r) \<or> flag_waked g s1 ys \<noteq> {}), s')"
      "walked g s1 ys s'" "flag_list g s' (ks1 @ filter (\<lambda>n. \<not> satisfied g s1 n) ys)" by blast
  have w: "walked g s (n # ys) s'"
    by (rule walked_Cons [OF Cons.prems nt s1(4,8) s1(9) [unfolded z_def] s'(2)])
  have "flag_waked g s (n # ys) \<noteq> {} \<longleftrightarrow> r \<or> flag_waked g s1 ys \<noteq> {}"
    using flag_waked_Cons [OF Cons.prems nt s1(4)] by (auto simp: s1(2,8) z_def)
  moreover have "flag_post_loop g (Some n) sched s = flag_post_loop g (?hd ys) (sched \<or> r) s1"
    by (subst flag_post_loop.simps) (simp only: option.case c s1(1) prod.case bind_simps s1(7) Option.bind.simps)
  ultimately show ?case
    using s'(1,3) w s1(6) by (auto simp: flag_frame_same [OF s1(4)])
qed


section \<open>Waiting\<close>

lemma kernel_ok_grp_node [simp]:
  "kernel_ok (set_grp g f s) = kernel_ok s" "kernel_ok (set_node n h s) = kernel_ok s"
  "kernel_ok (set_flags g v s) = kernel_ok s" "cur_ok (set_flags g v s) = cur_ok s"
  "ready_set (set_flags g v s) = ready_set s" "wait_set e (set_flags g v s) = wait_set e s"
  "task_at (set_flags g v s) = task_at s" "TCB (set_flags g v s) = TCB s"
  "OSIntNesting (set_flags g v s) = OSIntNesting s" "OSLockNesting (set_flags g v s) = OSLockNesting s"
  "flag_node (set_flags g v s) = flag_node s" "OSFlagFlags (OSFlagTbl (set_flags g v s) g) = v"
  "OSFlagWaitList (OSFlagTbl (set_flags g v s) g') = OSFlagWaitList (OSFlagTbl s g')"
  "OSFlagType (OSFlagTbl (set_flags g v s) g') = OSFlagType (OSFlagTbl s g')"
  by (auto simp: set_flags_def set_grp_def set_node_def kernel_ok_def cur_ok_def task_ok_def task_at_def
      ready_set_def wait_set_def rdy_def waiters_def fun_eq_iff)

lemma flags_ok_set_flags [simp]: "flags_ok g' (set_flags g v s) ns = flags_ok g' s ns"
  by (simp add: flags_ok_def flag_list_def node_task_def)

definition flag_waiting :: "nat \<Rightarrow> INT16U \<Rightarrow> OS_TCB \<Rightarrow> OS_TCB" where
  "flag_waiting n timeout t = t\<lparr> OSTCBStat := OSTCBStat t OR OS_STAT_FLAG, OSTCBStatPend := OS_STAT_PEND_OK,
     OSTCBDly := timeout, OSTCBFlagNode := Some n \<rparr>"

lemma OS_FlagBlock_ok:
  assumes ok: "kernel_ok s" and cur: "running_task s p i" and p: "p \<noteq> 20"
    and f: "flags_ok g s ns" "n \<notin> set ns" "\<forall>m \<in> set ns. OSFlagNodeTCB (flag_node s m) \<noteq> TCB_AT i" and wt: "wt < 4"
  shows "\<exists>s'. OS_FlagBlock g n flags wt timeout s = Some s' \<and> kernel_ok s' \<and> flags_ok g s' (n # ns) \<and>
     TCB s' = (TCB s)(i := flag_waiting n timeout (TCB s i)) \<and> ready_set s' = ready_set s - {p} \<and>
     OSTCBCur s' = OSTCBCur s \<and> OSPrioCur s' = OSPrioCur s \<and> OSIntNesting s' = OSIntNesting s \<and>
     OSLockNesting s' = OSLockNesting s \<and> OSTCBPrioTbl s' = OSTCBPrioTbl s \<and>
     OSFlagFlags (OSFlagTbl s' g) = OSFlagFlags (OSFlagTbl s g) \<and> OSFlagType (OSFlagTbl s' g) = OSFlagType (OSFlagTbl s g) \<and>
     node_task s' n p i \<and> OSFlagNodeFlags (flag_node s' n) = flags \<and> OSFlagNodeWaitType (flag_node s' n) = wt"
proof -
  note c = cur [unfolded running_task_def]
  have tok: "task_ok s p (TCB s i)" using kernel_okD(4) [OF ok] c by blast
  have run: "runnable (TCB s i)" using task_okD(4) [OF tok] c by blast
  have "p \<le> 20" using c by (simp add: task_at_def)
  with masks_clear [OF kernel_okD(2) [OF ok] task_okD(1) [OF tok]] obtain b where
    b: "bm_clear (OSTCBY (TCB s i)) (OSTCBBitX (TCB s i)) (OSTCBBitY (TCB s i)) (rdy s) = Some b" "bm_ok b"
      "bm_elems b = bm_elems (rdy s) - {p}" by blast
  have l: "flag_list g s ns" using f(1) by (simp add: flags_ok_def)
  define head where "head = (case ns of [] \<Rightarrow> None | m # ms \<Rightarrow> Some m)"
  note hd = flag_list_head [OF l, folded head_def]
  define s1 where "s1 = set_tcb i (flag_waiting n timeout) s"
  define s2 where "s2 = set_node n (\<lambda>nd. nd\<lparr> OSFlagNodeFlags := flags, OSFlagNodeWaitType := wt,
     OSFlagNodeTCB := TCB_AT i, OSFlagNodeNext := head, OSFlagNodePrev := None, OSFlagNodeFlagGrp := Some g \<rparr>) s1"
  define s3 where "s3 = (case head of None \<Rightarrow> s2 | Some m \<Rightarrow> set_node m (\<lambda>nd. nd\<lparr> OSFlagNodePrev := Some n \<rparr>) s2)"
  define s4 where "s4 = set_grp g (\<lambda>p. p\<lparr> OSFlagWaitList := Node_Ptr (Some n) \<rparr>) s3"
  define s' where "s' = set_rdy b s4"
  have eq: "OS_FlagBlock g n flags wt timeout s = Some s'"
  proof -
    have "TCB s4 i = flag_waiting n timeout (TCB s i)" "rdy s4 = rdy s"
      by (auto simp: s4_def s3_def s2_def s1_def split: option.split)
    then have "bm_clear (OSTCBY (TCB s4 i)) (OSTCBBitX (TCB s4 i)) (OSTCBBitY (TCB s4 i)) (rdy s4) = Some b"
      using b(1) by (simp add: flag_waiting_def)
    moreover have "set_tcb i (\<lambda>t. t\<lparr> OSTCBStat := OSTCBStat t OR OS_STAT_FLAG, OSTCBStatPend := OS_STAT_PEND_OK,
        OSTCBDly := timeout, OSTCBFlagNode := Some n \<rparr>) s = s1"
      by (simp add: s1_def flag_waiting_def [abs_def])
    moreover have "OSTCBCur s1 = TCB_AT i" "OSFlagTbl s1 = OSFlagTbl s" using c by (simp_all add: s1_def set_tcb_def)
    ultimately show ?thesis
      using c hd by (simp only: OS_FlagBlock_def tcb_index.simps Option.bind.simps Let_def wait_ptr.case
          s2_def [symmetric] s3_def [symmetric] s4_def [symmetric] s'_def [symmetric])
  qed
  have fr: "OSTCBCur s' = OSTCBCur s" "OSPrioCur s' = OSPrioCur s" "OSIntNesting s' = OSIntNesting s"
    "OSLockNesting s' = OSLockNesting s" "OSTCBPrioTbl s' = OSTCBPrioTbl s" "ECB s' = ECB s"
    "TCB s' = (TCB s)(i := flag_waiting n timeout (TCB s i))" "rdy s' = b"
    "OSFlagFlags (OSFlagTbl s' g) = OSFlagFlags (OSFlagTbl s g)" "OSFlagType (OSFlagTbl s' g) = OSFlagType (OSFlagTbl s g)"
    by (auto simp: s'_def s4_def s3_def s2_def s1_def set_node_def set_grp_def set_tcb_def set_rdy_def rdy_def
        split: option.split)
  have w: "wait_set e s' = wait_set e s" "waiters e s' = waiters e s" "task_at s' = task_at s" for e
    by (auto simp: wait_set_def waiters_def task_at_def fr fun_eq_iff)
  have rd: "ready_set s' = ready_set s - {p}" by (simp add: ready_set_def fr b)
  have "task_ok s' p (TCB s' i)"
    using task_okD(1,3) [OF tok] c run
    by (auto simp: task_ok_def fr(6,7) w rd flag_waiting_def runnable_def masks_ok_def)
  then have kok: "kernel_ok s'"
    using c p b(2) kernel_okD(3) [OF ok]
    by (intro kernel_ok_update [OF ok, of p i s']) (simp_all add: fr w rd)
  have nodes: "OSFlagNodeTCB (flag_node s' m) = (if m = n then TCB_AT i else OSFlagNodeTCB (flag_node s m))"
    "OSFlagNodeWaitType (flag_node s' m) = (if m = n then wt else OSFlagNodeWaitType (flag_node s m))"
    "OSFlagNodeFlags (flag_node s' m) = (if m = n then flags else OSFlagNodeFlags (flag_node s m))" for m
    using f(2) by (auto simp: s'_def s4_def s3_def s2_def s1_def head_def split: option.split list.splits)
  have "flag_list g s' (n # ns)"
    using l f(2) unfolding flag_list_def
    by (cases ns) (auto simp: s'_def s4_def s3_def s2_def s1_def head_def flag_seg_upd)
  moreover have "node_task s' n p i" using c by (auto simp: node_task_def nodes w)
  moreover have "node_task s' m = node_task s m" if "m \<in> set ns" for m
    using f(2) that by (auto simp: node_task_def nodes w fun_eq_iff)
  ultimately have "flags_ok g s' (n # ns)"
    using f wt unfolding flags_ok_def by (auto simp: nodes inj_on_def)
  then show ?thesis
    using eq kok fr rd \<open>node_task s' n p i\<close> nodes [of n] by (intro exI [of _ s']) simp
qed


lemma switch_frame_flags:
  assumes "switch_frame s s'"
  shows "OSFlagTbl s' = OSFlagTbl s" "flag_node s' = flag_node s"
    "OSTCBFlagsRdy (TCB s' i) = OSTCBFlagsRdy (TCB s i)" "OSTCBFlagNode (TCB s' i) = OSTCBFlagNode (TCB s i)"
    "flags_ok g s' ns = flags_ok g s ns" "flag_list g s' ns = flag_list g s ns"
    "node_task s' n p i = node_task s n p i"
proof -
  show f: "OSFlagTbl s' = OSFlagTbl s" "flag_node s' = flag_node s"
    using assms by (cases s; cases s'; simp add: switch_frame_def)+
  have "TCB s' i = (TCB s i)\<lparr> OSTCBCtxSwCtr := OSTCBCtxSwCtr (TCB s' i) \<rparr>"
    using assms unfolding switch_frame_def by blast
  then show "OSTCBFlagsRdy (TCB s' i) = OSTCBFlagsRdy (TCB s i)" "OSTCBFlagNode (TCB s' i) = OSTCBFlagNode (TCB s i)"
    by (cases "TCB s i"; cases "TCB s' i"; simp)+
  show "node_task s' n p i = node_task s n p i" for n p i
    by (simp add: node_task_def f switch_frame_sets [OF assms])
  then show "flags_ok g s' ns = flags_ok g s ns" "flag_list g s' ns = flag_list g s ns"
    by (simp_all add: flags_ok_def flag_list_def f)
qed

lemma flag_pend_waits:
  assumes ok: "kernel_ok s" "cur_ok s" "OSIntNesting s = 0" "OSLockNesting s = 0"
    and g: "OSFlagType (OSFlagTbl s g) = OS_EVENT_TYPE_FLAG"
    and cur: "running_task s p i" "p \<noteq> 20"
    and f: "flags_ok g s ns" "n \<notin> set ns" "\<forall>m \<in> set ns. OSFlagNodeTCB (flag_node s m) \<noteq> TCB_AT i"
    and wt: "wt < 4" "wt AND OS_FLAG_CONSUME = 0"
    and unsat: "flag_cond wt flags (OSFlagFlags (OSFlagTbl s g)) = Some (v, False)"
  shows "\<exists>s'. OSFlagPend_enter (Some g) flags wt timeout (Some err) n s = Some (None, Some err, s') \<and>
     kernel_ok s' \<and> highest_runs s' \<and> flags_ok g s' (n # ns) \<and> ready_set s' = ready_set s - {p} \<and>
     OSTCBStat (TCB s' i) = OS_STAT_FLAG \<and> OSTCBDly (TCB s' i) = timeout \<and> node_task s' n p i \<and>
     OSFlagNodeFlags (flag_node s' n) = flags \<and> OSFlagNodeWaitType (flag_node s' n) = wt \<and>
     OSIntNesting s' = 0 \<and> OSLockNesting s' = 0 \<and> OSFlagType (OSFlagTbl s' g) = OS_EVENT_TYPE_FLAG \<and>
     OSFlagFlags (OSFlagTbl s' g) = OSFlagFlags (OSFlagTbl s g)"
proof -
  obtain s1 where s1: "OS_FlagBlock g n flags wt timeout s = Some s1" "kernel_ok s1" "flags_ok g s1 (n # ns)"
    "TCB s1 = (TCB s)(i := flag_waiting n timeout (TCB s i))" "ready_set s1 = ready_set s - {p}"
    "OSTCBCur s1 = OSTCBCur s" "OSPrioCur s1 = OSPrioCur s" "OSIntNesting s1 = 0" "OSLockNesting s1 = 0"
    "OSTCBPrioTbl s1 = OSTCBPrioTbl s" "OSFlagFlags (OSFlagTbl s1 g) = OSFlagFlags (OSFlagTbl s g)"
    "OSFlagType (OSFlagTbl s1 g) = OS_EVENT_TYPE_FLAG" "node_task s1 n p i"
    "OSFlagNodeFlags (flag_node s1 n) = flags" "OSFlagNodeWaitType (flag_node s1 n) = wt"
    using OS_FlagBlock_ok [OF ok(1) cur f wt(1), of flags timeout] ok(3,4) g by auto
  have "cur_ok s1" using ok(2) s1(6,7,10) by (simp add: cur_ok_def task_at_def)
  from OS_Sched_ok [OF s1(2) this s1(8,9)] obtain s' where
    s': "OS_Sched s1 = Some s'" "switch_frame s1 s'" "kernel_ok s'" "highest_runs s'" .
  have "OSTCBStat (TCB s i) = 0"
    using task_okD(4) [OF kernel_okD(4) [OF ok(1)], of p i] cur by (simp add: running_task_def runnable_def)
  then show ?thesis
    using s' s1 ok(3,4) g wt(2) unsat switch_frame_flags [OF s'(2)] switch_frame_sets [OF s'(2)] switch_frame_task [OF s'(2)]
    by (intro exI [of _ s']) (simp add: OSFlagPend_enter_def flag_waiting_def)
qed

text \<open>C38: A post to an event flag group always ends, wakes exactly the waiting tasks whose condition the new
  flags satisfy, hands each the flags it waited for, keeps the others in the wait list in their order, and then
  runs the highest priority task.\<close>

theorem flag_post_wakes:
  assumes ok: "kernel_ok s" "cur_ok s" "OSIntNesting s = 0" "OSLockNesting s = 0"
    and g: "OSFlagType (OSFlagTbl s g) = OS_EVENT_TYPE_FLAG" and f: "flags_ok g s ns"
    and opt: "opt = OS_FLAG_CLR \<or> opt = OS_FLAG_SET"
    and v: "v = (if opt = OS_FLAG_CLR then OSFlagFlags (OSFlagTbl s g) AND NOT flags
                 else OSFlagFlags (OSFlagTbl s g) OR flags)"
    and new: "new = set_flags g v s"
  shows "\<exists>s'. OSFlagPost_enter (Some g) flags opt (Some err) s = Some (None, Some err, s') \<and>
     OSFlagPost_resume g s' = (v, OS_ERR_NONE) \<and> kernel_ok s' \<and> OSFlagFlags (OSFlagTbl s' g) = v \<and> flag_list g s' (filter (\<lambda>n. \<not> satisfied g new n) ns) \<and>
     ready_set s' = ready_set s \<union> flag_waked g new ns \<and>
     (flag_waked g new ns \<noteq> {} \<longrightarrow> highest_runs s') \<and>
     (\<forall>n \<in> set ns. \<forall>p i. satisfied g new n \<and> node_task s n p i \<longrightarrow>
        OSTCBFlagsRdy (TCB s' i) = flags_seen g new n \<and> OSTCBStatPend (TCB s' i) = OS_STAT_PEND_OK \<and>
        OSTCBDly (TCB s' i) = 0 \<and> OSTCBStat (TCB s' i) AND OS_STAT_FLAG = 0)"
proof -
  have n: "kernel_ok new" "cur_ok new" "flags_ok g new ([] @ ns)" "flag_list g new ns" "OSFlagFlags (OSFlagTbl new g) = v"
    using ok f by (simp_all add: new) (metis flags_ok_set_flags flags_ok_def)
  let ?w = "flag_waked g new ns"
  obtain s1 where s1: "flag_post_loop g (case ns of [] \<Rightarrow> None | n # ms \<Rightarrow> Some n) False new = Some (Some (?w \<noteq> {}), s1)"
    "walked g new ns s1" "flag_list g s1 (filter (\<lambda>n. \<not> satisfied g new n) ns)"
    using flag_post_loop_ok [OF n(1,3), of False] by auto
  note w = s1(2) [unfolded walked_def]
  have fr: "flag_frame new s1" and k1: "kernel_ok s1" using w by blast+
  note fD = flag_frameD [OF fr]
  have "cur_ok s1" using n(2) by (simp add: cur_ok_def task_at_def fD)
  then obtain s' where s': "(if ?w \<noteq> {} then OS_Sched s1 else Some s1) = Some s'" "switch_frame s1 s'" "kernel_ok s'"
    "?w \<noteq> {} \<longrightarrow> highest_runs s'"
    using OS_Sched_ok [OF k1] ok(3,4) k1 by (cases "?w = {}") (auto simp: fD new switch_frame_def)
  note sw = switch_frame_flags [OF s'(2)] switch_frame_sets [OF s'(2)] switch_frame_task [OF s'(2)]
  have v1: "OSFlagFlags (OSFlagTbl s1 g) = v" using fr n(5) by (simp add: flag_frame_def)
  have "OSFlagPost_enter (Some g) flags opt (Some err) s = Some (None, Some err, s')"
  proof -
    have "OSFlagWaitList (OSFlagTbl s g) = Node_Ptr (case ns of [] \<Rightarrow> None | n # ms \<Rightarrow> Some n)"
      using flag_list_head [OF n(4)] by (simp add: new)
    then have "OSFlagPost_enter (Some g) flags opt (Some err) s = do {
        (sched, s) \<leftarrow> flag_post_loop g (case ns of [] \<Rightarrow> None | n # ms \<Rightarrow> Some n) False new;
        (case sched of None \<Rightarrow> Some (Some 0, Some OS_ERR_FLAG_WAIT_TYPE, s)
         | Some r \<Rightarrow> do { s \<leftarrow> (if r then OS_Sched s else Some s);
                         Some (None, Some err, s) }) }"
      using g opt unfolding new v by (auto simp: OSFlagPost_enter_def)
    then show ?thesis using s1(1) s'(1) v1 sw(1) by (auto split: if_splits)
  qed
  moreover have "\<forall>n \<in> set ns. \<forall>p i. satisfied g new n \<and> node_task s n p i \<longrightarrow>
      TCB s1 i = flag_woken (flags_seen g new n) (TCB s i)"
    using w by (auto simp: new node_task_def)
  moreover have "(w AND NOT 0x20) AND 0x20 = 0" for w :: INT8U by (simp add: and.assoc)
  ultimately show ?thesis
    using s'(3,4) s1(3) v1 w by (intro exI [of _ s']) (auto simp: sw flag_woken_def new OSFlagPost_resume_def)
qed


text \<open>The example kernel with an event flag group in block 0.\<close>

definition example_flags_os :: os_state where
  "example_flags_os = set_grp 0 (\<lambda>p. p\<lparr> OSFlagType := OS_EVENT_TYPE_FLAG \<rparr>) example_os"

lemma example_flags_os_ok:
  "kernel_ok example_flags_os" "cur_ok example_flags_os" "OSIntNesting example_flags_os = 0"
  "OSLockNesting example_flags_os = 0" "OSFlagType (OSFlagTbl example_flags_os 0) = OS_EVENT_TYPE_FLAG"
  "OSFlagFlags (OSFlagTbl example_flags_os 0) = 0" "running_task example_flags_os 6 2" "flags_ok 0 example_flags_os []"
proof -
  let ?s = example_flags_os
  have same: "TCB ?s = example_tcbs" "rdy ?s = rdy example_os" "ECB ?s = ECB example_os"
    "OSTCBPrioTbl ?s = OSTCBPrioTbl example_os" "OSTCBCur ?s = TCB_AT 2" "OSPrioCur ?s = 6"
    "OSIntNesting ?s = 0" "OSLockNesting ?s = 0" "OSFlagTbl ?s = (\<lambda>g. zero_grp)(0 := zero_grp\<lparr> OSFlagType := OS_EVENT_TYPE_FLAG \<rparr>)"
    by (simp_all add: example_flags_os_def set_grp_def) (simp_all add: example_os_def rdy_def)
  show "OSIntNesting ?s = 0" "OSLockNesting ?s = 0" by (simp_all add: same)
  show "kernel_ok ?s" using example_kernel_ok by (simp add: example_flags_os_def)
  show "cur_ok ?s" using example_cur_ok by (simp add: cur_ok_def task_at_def same)
  show "OSFlagType (OSFlagTbl ?s 0) = OS_EVENT_TYPE_FLAG" "OSFlagFlags (OSFlagTbl ?s 0) = 0"
    by (simp_all add: same zero_grp_def)
  show "flags_ok 0 ?s []" by (simp add: flags_ok_def flag_list_def same zero_grp_def)
  have r: "ready_set ?s = {6, 20}" "wait_set e ?s = wait_set e example_os" for e
    using example_sets(1) by (simp_all add: ready_set_def wait_set_def waiters_def same)
  have "6 \<notin> wait_set e example_os" for e by (cases "e = 0") (simp_all add: example_sets)
  moreover have "task_at ?s 6 2" using example_task_at [of 6 2] by (simp add: task_at_def same)
  ultimately show "running_task ?s 6 2" by (simp add: running_task_def r same)
qed

theorem flag_post_wakes_witness:
  "\<exists>s1 s2. OSFlagPend_enter (Some 0) 1 OS_FLAG_WAIT_SET_ANY 0 (Some 0) 9 example_flags_os = Some (None, Some 0, s1) \<and>
     6 \<notin> ready_set s1 \<and> OSFlagPost_enter (Some 0) 1 OS_FLAG_SET (Some 0) s1 = Some (None, Some 0, s2) \<and>
     OSFlagPost_resume 0 s2 = (1, OS_ERR_NONE) \<and>
     6 \<in> ready_set s2 \<and> highest_runs s2 \<and> flag_list 0 s2 [] \<and> OSTCBFlagsRdy (TCB s2 2) = 1"
proof -
  have "flag_cond OS_FLAG_WAIT_SET_ANY 1 (OSFlagFlags (OSFlagTbl example_flags_os 0)) = Some (0, False)"
    by (simp add: flag_cond_def example_flags_os_ok(6))
  from flag_pend_waits [OF example_flags_os_ok(1-5,7) _ example_flags_os_ok(8) _ _ _ _ this, of 9 0 0] obtain s1 where
    s1: "OSFlagPend_enter (Some 0) 1 OS_FLAG_WAIT_SET_ANY 0 (Some 0) 9 example_flags_os = Some (None, Some 0, s1)"
      "kernel_ok s1" "highest_runs s1" "flags_ok 0 s1 [9]" "ready_set s1 = ready_set example_flags_os - {6}"
      "OSTCBStat (TCB s1 2) = OS_STAT_FLAG" "node_task s1 9 6 2" "OSFlagNodeFlags (flag_node s1 9) = 1"
      "OSFlagNodeWaitType (flag_node s1 9) = OS_FLAG_WAIT_SET_ANY" "OSIntNesting s1 = 0" "OSLockNesting s1 = 0"
      "OSFlagType (OSFlagTbl s1 0) = OS_EVENT_TYPE_FLAG" "OSFlagFlags (OSFlagTbl s1 0) = 0"
    using example_flags_os_ok(6) by auto
  have c1: "cur_ok s1" using s1(3) by (simp add: highest_runs_def)
  define new where "new = set_flags 0 1 s1"
  have sat: "satisfied 0 new 9" "flags_seen 0 new 9 = 1"
    using s1(8,9) by (simp_all add: new_def satisfied_def flags_seen_def flag_cond_def)
  have nt: "node_task new 9 6 2" using s1(7) by (simp add: new_def node_task_def)
  have "OSTCBStat (TCB new 2) AND NOT 0x20 = 0" using s1(6) by (simp add: new_def)
  then have w: "6 \<in> flag_waked 0 new [9]" using sat(1) nt by (auto simp: flag_waked_def)
  have v: "1 = (if OS_FLAG_SET = OS_FLAG_CLR then OSFlagFlags (OSFlagTbl s1 0) AND NOT 1
      else OSFlagFlags (OSFlagTbl s1 0) OR 1)" by (simp add: s1(13))
  from flag_post_wakes [OF s1(2) c1 s1(10,11,12,4) _ v new_def, where err = 0] obtain s2 where
    s2: "OSFlagPost_enter (Some 0) 1 OS_FLAG_SET (Some 0) s1 = Some (None, Some 0, s2)"
      "OSFlagPost_resume 0 s2 = (1, OS_ERR_NONE)" "flag_list 0 s2 (filter (\<lambda>n. \<not> satisfied 0 new n) [9])" "ready_set s2 = ready_set s1 \<union> flag_waked 0 new [9]"
      "flag_waked 0 new [9] \<noteq> {} \<longrightarrow> highest_runs s2" "OSTCBFlagsRdy (TCB s2 2) = 1"
    using sat s1(7) by auto
  show ?thesis using s1(1,5) s2 w sat(1) by auto
qed


end
