(* ===== verification/Os_Mem.thy ===== *)
theory Os_Mem imports Kernel_Example begin

text \<open>
  \<open>os_mem.c\<close>: partitions of fixed-size memory blocks. The free blocks of a partition are a list that
  is linked through the first word of each block. The lemmas show that creation makes a partition
  whose blocks are all free, that \<open>OSMemGet\<close> and \<open>OSMemPut\<close> keep the list and the count of free
  blocks in agreement and undo each other, and what happens when a block is returned twice.
\<close>

section \<open>Operations\<close>

definition set_mem :: "nat \<Rightarrow> (OS_MEM \<Rightarrow> OS_MEM) \<Rightarrow> os_state \<Rightarrow> os_state" where
  "set_mem m f s = s\<lparr> OSMemTbl := (OSMemTbl s)(m := f (OSMemTbl s m)) \<rparr>"

text \<open>The loop of \<open>OSMemCreate\<close> that links \<open>n\<close> blocks; the address of the last link and the memory.\<close>

fun link_blocks :: "nat \<Rightarrow> INT32U \<Rightarrow> INT32U \<Rightarrow> INT32U \<Rightarrow> (INT32U \<Rightarrow> msg) \<Rightarrow> INT32U \<times> (INT32U \<Rightarrow> msg)" where
  "link_blocks 0 plink pblk blksize M = (plink, M)"
| "link_blocks (Suc n) plink pblk blksize M = link_blocks n pblk (pblk + blksize) blksize (M(plink := pblk))"

definition OSMemCreate ::
  "INT32U \<Rightarrow> INT32U \<Rightarrow> INT32U \<Rightarrow> INT8U option \<Rightarrow> os_state \<Rightarrow> (mem_ptr \<times> INT8U option \<times> os_state) option" where
  "OSMemCreate addr nblks blksize perr s =
     (if perr = None then Some (None, perr, s)
      else if addr = 0 then Some (None, Some OS_ERR_MEM_INVALID_ADDR, s)
      else if addr AND 3 \<noteq> 0 then Some (None, Some OS_ERR_MEM_INVALID_ADDR, s)
      else if nblks < 2 then Some (None, Some OS_ERR_MEM_INVALID_BLKS, s)
      else if blksize < 4 then Some (None, Some OS_ERR_MEM_INVALID_SIZE, s)
      else case MemFreeList s of
        None \<Rightarrow> Some (None, Some OS_ERR_MEM_INVALID_PART, s)
      | Some m \<Rightarrow> do {
          nx \<leftarrow> (case OSMemFreeList (OSMemTbl s m) of Mem_Ptr p \<Rightarrow> Some p | Block_Ptr b \<Rightarrow> None);
          let s = s\<lparr> MemFreeList := nx \<rparr>;
          let (plink, M) = link_blocks (unat (nblks - 1)) addr (addr + blksize) blksize (storage s);
          let s = s\<lparr> storage := M(plink := 0) \<rparr>;
          Some (Some m, Some OS_ERR_NONE,
                set_mem m (\<lambda>p. p\<lparr> OSMemAddr := addr, OSMemFreeList := Block_Ptr addr, OSMemNFree := nblks,
                                  OSMemNBlks := nblks, OSMemBlkSize := blksize \<rparr>) s)
        })"

definition OSMemGet :: "mem_ptr \<Rightarrow> INT8U option \<Rightarrow> os_state \<Rightarrow> (INT32U \<times> INT8U option \<times> os_state) option" where
  "OSMemGet pmem perr s =
     (if perr = None then Some (0, perr, s)
      else case pmem of None \<Rightarrow> Some (0, Some OS_ERR_MEM_INVALID_PMEM, s)
      | Some m \<Rightarrow>
          if OSMemNFree (OSMemTbl s m) > 0 then
            (case OSMemFreeList (OSMemTbl s m) of
               Mem_Ptr p \<Rightarrow> None
             | Block_Ptr pblk \<Rightarrow>
                 if pblk = 0 then None
                 else Some (pblk, Some OS_ERR_NONE,
                   set_mem m (\<lambda>p. p\<lparr> OSMemFreeList := Block_Ptr (storage s pblk), OSMemNFree := OSMemNFree p - 1 \<rparr>) s))
          else Some (0, Some OS_ERR_MEM_NO_FREE_BLKS, s))"

definition OSMemPut :: "mem_ptr \<Rightarrow> INT32U \<Rightarrow> os_state \<Rightarrow> (INT8U \<times> os_state) option" where
  "OSMemPut pmem pblk s =
     (case pmem of None \<Rightarrow> Some (OS_ERR_MEM_INVALID_PMEM, s)
      | Some m \<Rightarrow>
          if pblk = 0 then Some (OS_ERR_MEM_INVALID_PBLK, s)
          else if OSMemNFree (OSMemTbl s m) \<ge> OSMemNBlks (OSMemTbl s m) then Some (OS_ERR_MEM_FULL, s)
          else
            (case OSMemFreeList (OSMemTbl s m) of
               Mem_Ptr p \<Rightarrow> None
             | Block_Ptr b \<Rightarrow>
                 let s = s\<lparr> storage := (storage s)(pblk := b) \<rparr> in
                 Some (OS_ERR_NONE,
                   set_mem m (\<lambda>p. p\<lparr> OSMemFreeList := Block_Ptr pblk, OSMemNFree := OSMemNFree p + 1 \<rparr>) s)))"

record OS_MEM_DATA =
  OSAddr :: INT32U
  OSFreeList :: block_ptr
  OSBlkSize :: INT32U
  OSNBlks :: INT32U
  OSNFree :: INT32U
  OSNUsed :: INT32U

definition OSMemQuery :: "mem_ptr \<Rightarrow> OS_MEM_DATA option \<Rightarrow> os_state \<Rightarrow> INT8U \<times> OS_MEM_DATA option" where
  "OSMemQuery pmem p_mem_data s =
     (case pmem of None \<Rightarrow> (OS_ERR_MEM_INVALID_PMEM, p_mem_data)
      | Some m \<Rightarrow>
          (case p_mem_data of None \<Rightarrow> (OS_ERR_MEM_INVALID_PDATA, p_mem_data)
           | Some d \<Rightarrow> let p = OSMemTbl s m in
               (OS_ERR_NONE, Some (d\<lparr> OSAddr := OSMemAddr p, OSFreeList := OSMemFreeList p, OSBlkSize := OSMemBlkSize p,
                  OSNBlks := OSMemNBlks p, OSNFree := OSMemNFree p, OSNUsed := OSMemNBlks p - OSMemNFree p \<rparr>))))"

definition mem_name_unknown :: "OS_MEM \<Rightarrow> OS_MEM" where
  "mem_name_unknown p = p\<lparr> OSMemName := (OSMemName p)[0 := 63, 1 := OS_ASCII_NUL] \<rparr>"

definition cleared_mem :: OS_MEM where
  "cleared_mem = \<lparr> OSMemAddr = 0, OSMemFreeList = Mem_Ptr None, OSMemBlkSize = 0, OSMemNBlks = 0, OSMemNFree = 0,
     OSMemName = replicate OS_MEM_NAME_SIZE 0 \<rparr>"

fun link_mems :: "nat \<Rightarrow> (nat \<Rightarrow> OS_MEM) \<Rightarrow> nat \<Rightarrow> OS_MEM" where
  "link_mems 0 t = t"
| "link_mems (Suc i) t =
     (link_mems i t)(i := mem_name_unknown ((link_mems i t i)\<lparr> OSMemFreeList := Mem_Ptr (Some (Suc i)) \<rparr>))"

definition OS_MemInit :: "os_state \<Rightarrow> os_state" where
  "OS_MemInit s =
     (let n = OS_MAX_MEM_PART - 1; t = link_mems n (\<lambda>_. cleared_mem) in
      s\<lparr> OSMemTbl := t(n := mem_name_unknown ((t n)\<lparr> OSMemFreeList := Mem_Ptr None \<rparr>)), MemFreeList := Some 0 \<rparr>)"

section \<open>The free list\<close>

fun block_chain :: "(INT32U \<Rightarrow> msg) \<Rightarrow> INT32U \<Rightarrow> INT32U list \<Rightarrow> bool" where
  "block_chain M p [] = (p = 0)"
| "block_chain M p (b # bs) = (p = b \<and> b \<noteq> 0 \<and> block_chain M (M b) bs)"

definition mem_blocks :: "OS_MEM \<Rightarrow> INT32U set" where
  "mem_blocks p = {OSMemAddr p + of_nat k * OSMemBlkSize p | k. k < unat (OSMemNBlks p)}"

text \<open>A partition whose free blocks are \<open>bs\<close>, in the order in which they will be handed out.\<close>

definition part_ok :: "nat \<Rightarrow> INT32U list \<Rightarrow> os_state \<Rightarrow> bool" where
  "part_ok m bs s \<longleftrightarrow> (let p = OSMemTbl s m in
     (\<exists>b. OSMemFreeList p = Block_Ptr b \<and> block_chain (storage s) b bs) \<and> distinct bs \<and>
     set bs \<subseteq> mem_blocks p \<and> unat (OSMemNFree p) = length bs)"

lemma block_chain_upd: "b \<notin> set bs \<Longrightarrow> block_chain (M(b := x)) p bs = block_chain M p bs"
  by (induction bs arbitrary: p) auto

lemma block_chain_nonzero: "block_chain M p bs \<Longrightarrow> 0 \<notin> set bs"
  by (induction bs arbitrary: p) auto

lemma set_mem_simps [simp]:
  "OSMemTbl (set_mem m f s) = (OSMemTbl s)(m := f (OSMemTbl s m))" "storage (set_mem m f s) = storage s"
  by (simp_all add: set_mem_def)

text \<open>The blocks of a partition do not wrap around the address space and are different.\<close>

definition fits :: "INT32U \<Rightarrow> INT32U \<Rightarrow> INT32U \<Rightarrow> bool" where
  "fits addr nblks blksize \<longleftrightarrow> unat addr + unat nblks * unat blksize \<le> 2 ^ 32"

lemma unat_block:
  assumes "fits addr nblks blksize" "k < unat nblks" "0 < unat blksize"
  shows "unat (addr + of_nat k * blksize) = unat addr + k * unat blksize"
proof -
  have k: "k < 2 ^ 32" using assms(2) unat_lt_32 [of nblks] by (simp del: unat_lt_32)
  have "k * unat blksize < unat nblks * unat blksize" using assms(2,3) by (rule mult_strict_right_mono)
  then have b: "unat addr + k * unat blksize < 2 ^ 32" using assms(1) unfolding fits_def by linarith
  have "unat (of_nat k :: INT32U) = k" using k by (simp add: unsigned_of_nat take_bit_nat_eq_self)
  then have "unat (of_nat k * blksize) = k * unat blksize"
    using b by (subst unat_mult_small) simp_all
  then show ?thesis using b by (subst unat_add_small) simp_all
qed

lemma link_blocks_chain:
  assumes "fits addr nblks blksize" "0 < unat addr" "0 < unat blksize" "unat nblks = k + n + 1"
    and "link_blocks n (addr + of_nat k * blksize) (addr + of_nat (Suc k) * blksize) blksize M = (p, M')"
  shows "block_chain (M'(p := 0)) (addr + of_nat k * blksize) (map (\<lambda>j. addr + of_nat j * blksize) [k..<k + n + 1]) \<and>
     (\<forall>j < k. M' (addr + of_nat j * blksize) = M (addr + of_nat j * blksize)) \<and>
     p = addr + of_nat (k + n) * blksize"
  using assms(4,5)
proof (induction n arbitrary: k M)
  case 0
  have "unat (addr + of_nat k * blksize) \<noteq> 0" using unat_block [OF assms(1) _ assms(3), of k] 0 assms(2) by simp
  then show ?case using 0 by (auto simp: unat_eq_zero)
next
  case (Suc n)
  let ?a = "\<lambda>j. addr + of_nat j * blksize"
  have u: "unat (?a j) = unat addr + j * unat blksize" if "j < k + n + 2" for j
    using unat_block [OF assms(1) _ assms(3), of j] Suc.prems(1) that by simp
  have ne: "?a i \<noteq> ?a j" if "i < k + n + 2" "j < k + n + 2" "i \<noteq> j" for i j
    using u [OF that(1)] u [OF that(2)] that(3) assms(3) by (auto simp: word_unat_eq_iff)
  have nxt: "?a (Suc k) + blksize = ?a (Suc (Suc k))" by (simp add: algebra_simps)
  then have r: "link_blocks n (?a (Suc k)) (?a (Suc (Suc k))) blksize (M(?a k := ?a (Suc k))) = (p, M')"
    using Suc.prems(2) by (simp only: link_blocks.simps(2) nxt)
  have eq: "unat nblks = Suc k + n + 1" using Suc.prems(1) by simp
  have IH: "block_chain (M'(p := 0)) (?a (Suc k)) (map ?a [Suc k..<Suc k + n + 1])"
    "\<forall>j < Suc k. M' (?a j) = (M(?a k := ?a (Suc k))) (?a j)" "p = ?a (Suc k + n)"
    using Suc.IH [OF eq r] by blast+
  have nz: "?a k \<noteq> 0" using u [of k] assms(2) by (auto simp: word_unat_eq_iff)
  have pk: "p \<noteq> ?a k" using IH(3) ne [of "Suc k + n" k] by simp
  have link: "(M'(p := 0)) (?a k) = ?a (Suc k)" using IH(2) pk by simp
  have "[k..<k + Suc n + 1] = k # [Suc k..<Suc k + n + 1]" by (simp add: upt_rec)
  then have "block_chain (M'(p := 0)) (?a k) (map ?a [k..<k + Suc n + 1])"
    using IH(1) nz link by (simp del: upt_Suc)
  moreover have "M' (?a j) = M (?a j)" if "j < k" for j using IH(2) that ne [of j k] by simp
  moreover have "p = ?a (k + Suc n)" using IH(3) by simp
  ultimately show ?case by blast
qed

lemma mem_create_ok:
  assumes "addr \<noteq> 0" "addr AND 3 = 0" "2 \<le> nblks" "4 \<le> blksize" "fits addr nblks blksize"
    and "MemFreeList s = Some m" "OSMemFreeList (OSMemTbl s m) = Mem_Ptr nx"
  shows "\<exists>s'. OSMemCreate addr nblks blksize (Some x) s = Some (Some m, Some OS_ERR_NONE, s') \<and>
     part_ok m (map (\<lambda>k. addr + of_nat k * blksize) [0..<unat nblks]) s' \<and>
     MemFreeList s' = nx \<and> OSMemNBlks (OSMemTbl s' m) = nblks \<and> OSMemNFree (OSMemTbl s' m) = nblks"
proof -
  have n: "2 \<le> unat nblks" "0 < unat addr" "0 < unat blksize" "unat (nblks - 1) = unat nblks - 1"
    using assms(1,3,4) by (auto simp: word_le_unat unat_gt_0 unat_sub_word)
  obtain p M where l: "link_blocks (unat (nblks - 1)) addr (addr + blksize) blksize (storage s) = (p, M)" by fastforce
  let ?bs = "map (\<lambda>k. addr + of_nat k * blksize) [0..<unat nblks]"
  have chain: "block_chain (M(p := 0)) addr ?bs"
    using link_blocks_chain [of addr nblks blksize 0 "unat nblks - 1"] assms(5) n l by (simp del: upt_Suc)
  define s' where "s' = set_mem m (\<lambda>p. p\<lparr> OSMemAddr := addr, OSMemFreeList := Block_Ptr addr, OSMemNFree := nblks,
      OSMemNBlks := nblks, OSMemBlkSize := blksize \<rparr>) (s\<lparr> MemFreeList := nx, storage := M(p := 0) \<rparr>)"
  have "distinct ?bs"
    using unat_block [OF assms(5) _ n(3)] n(3) by (auto simp: distinct_map inj_on_def word_unat_eq_iff)
  then have "part_ok m ?bs s'" using chain by (auto simp: part_ok_def s'_def mem_blocks_def)
  moreover have "OSMemCreate addr nblks blksize (Some x) s = Some (Some m, Some OS_ERR_NONE, s')"
  proof -
    have "\<not> nblks < 2" "\<not> blksize < 4" using assms(3,4) by (simp_all add: not_less)
    then show ?thesis using assms(1,2,6,7) l by (simp add: OSMemCreate_def s'_def)
  qed
  ultimately show ?thesis by (simp add: s'_def set_mem_def)
qed

text \<open>Creating a partition links all its blocks: the new partition has every block free exactly once, in
  address order, and the count says so.\<close>

theorem mem_create_links_all:
  assumes "addr \<noteq> 0" "addr AND 3 = 0" "2 \<le> nblks" "4 \<le> blksize" "fits addr nblks blksize"
    and "MemFreeList s = Some m" "OSMemFreeList (OSMemTbl s m) = Mem_Ptr nx"
  shows "\<exists>s'. OSMemCreate addr nblks blksize (Some x) s = Some (Some m, Some OS_ERR_NONE, s') \<and>
     part_ok m (map (\<lambda>k. addr + of_nat k * blksize) [0..<unat nblks]) s' \<and>
     MemFreeList s' = nx \<and> OSMemNBlks (OSMemTbl s' m) = nblks \<and> OSMemNFree (OSMemTbl s' m) = nblks"
  using assms by (rule mem_create_ok)

text \<open>Getting and putting a block.\<close>

lemma mem_get_ok:
  "part_ok m (b # bs) s \<Longrightarrow> \<exists>s'. OSMemGet (Some m) (Some x) s = Some (b, Some OS_ERR_NONE, s') \<and> part_ok m bs s' \<and>
     storage s' = storage s \<and> mem_blocks (OSMemTbl s' m) = mem_blocks (OSMemTbl s m) \<and>
     OSMemNBlks (OSMemTbl s' m) = OSMemNBlks (OSMemTbl s m) \<and> OSMemNFree (OSMemTbl s' m) = OSMemNFree (OSMemTbl s m) - 1"
proof -
  assume p: "part_ok m (b # bs) s"
  then have f: "unat (OSMemNFree (OSMemTbl s m)) = Suc (length bs)" by (simp add: part_ok_def Let_def)
  then have "0 < OSMemNFree (OSMemTbl s m)" "unat (OSMemNFree (OSMemTbl s m) - 1) = length bs"
    by (auto simp: word_less_unat unat_sub_word word_le_unat)
  with p show ?thesis
    by (auto simp: OSMemGet_def part_ok_def Let_def mem_blocks_def)
qed

lemma mem_get_empty: "part_ok m [] s \<Longrightarrow> OSMemGet (Some m) (Some x) s = Some (0, Some OS_ERR_MEM_NO_FREE_BLKS, s)"
  by (simp add: part_ok_def Let_def OSMemGet_def unat_eq_zero)

lemma mem_put_ok:
  assumes p: "part_ok m bs s" and b: "b \<in> mem_blocks (OSMemTbl s m)" "b \<noteq> 0" "b \<notin> set bs"
    and room: "length bs < unat (OSMemNBlks (OSMemTbl s m))"
  shows "\<exists>s'. OSMemPut (Some m) b s = Some (OS_ERR_NONE, s') \<and> part_ok m (b # bs) s'"
proof -
  have f: "unat (OSMemNFree (OSMemTbl s m)) = length bs" using p by (simp add: part_ok_def Let_def)
  have "unat (OSMemNFree (OSMemTbl s m) + 1) = Suc (length bs)"
    using f room unat_lt_32 [of "OSMemNBlks (OSMemTbl s m)"] by (subst unat_add_small) (simp_all del: unat_lt_32)
  moreover have "\<not> OSMemNBlks (OSMemTbl s m) \<le> OSMemNFree (OSMemTbl s m)" using f room by (simp add: word_le_unat)
  ultimately show ?thesis using p b
    by (auto simp: OSMemPut_def part_ok_def Let_def block_chain_upd mem_blocks_def)
qed

text \<open>\<open>OSMemGet\<close> hands out each free block once and never an address outside the partition, and
  reports an exhausted partition without a change; returning the block just taken restores the partition, memory
  included.\<close>

theorem mem_get_put_roundtrip:
  assumes p: "part_ok m bs s" and n: "OSMemNFree (OSMemTbl s m) \<le> OSMemNBlks (OSMemTbl s m)"
  shows "case bs of
      [] \<Rightarrow> OSMemGet (Some m) (Some x) s = Some (0, Some OS_ERR_MEM_NO_FREE_BLKS, s)
    | b # cs \<Rightarrow> \<exists>s'. OSMemGet (Some m) (Some x) s = Some (b, Some OS_ERR_NONE, s') \<and> part_ok m cs s' \<and>
        b \<in> mem_blocks (OSMemTbl s m) \<and> b \<notin> set cs \<and> OSMemPut (Some m) b s' = Some (OS_ERR_NONE, s)"
proof (cases bs)
  case Nil
  with p show ?thesis by (simp add: mem_get_empty)
next
  case (Cons b cs)
  let ?p = "OSMemTbl s m"
  have f: "unat (OSMemNFree ?p) = Suc (length cs)" "OSMemFreeList ?p = Block_Ptr b" "b \<noteq> 0"
    "b \<in> mem_blocks ?p" "b \<notin> set cs" using p Cons by (auto simp: part_ok_def Let_def)
  let ?q = "?p\<lparr> OSMemFreeList := Block_Ptr (storage s b), OSMemNFree := OSMemNFree ?p - 1 \<rparr>"
  let ?s = "s\<lparr> OSMemTbl := (OSMemTbl s)(m := ?q) \<rparr>"
  have pos: "0 < OSMemNFree ?p" "OSMemNFree ?p - 1 < OSMemNBlks ?p"
    using f(1) n by (auto simp: word_less_unat word_le_unat unat_sub_word)
  have get: "OSMemGet (Some m) (Some x) s = Some (b, Some OS_ERR_NONE, ?s)"
    using f pos(1) by (simp add: OSMemGet_def set_mem_def)
  have put: "OSMemPut (Some m) b ?s = Some (OS_ERR_NONE, s)"
  proof -
    have room: "(OSMemNBlks ?p \<le> OSMemNFree ?p - 1) = False" using pos(2) by (simp only: eq_False not_le)
    have same: "?p\<lparr> OSMemFreeList := Block_Ptr b \<rparr> = ?p" using f(2) by (cases ?p) simp
    show ?thesis
      using f(3) by (simp add: OSMemPut_def set_mem_def room same)
  qed
  have ok: "part_ok m cs ?s" using mem_get_ok [of m b cs s x] p Cons get by auto
  show ?thesis unfolding Cons list.case
    by (rule exI [of _ ?s]) (use get ok f(4,5) put in blast)
qed

text \<open>\<open>OSMemPut\<close> does not notice that a block is free already: returned twice, it is handed out twice, to two
  owners at the same time.\<close>

theorem mem_double_put:
  assumes p: "part_ok m bs s" and b: "b \<noteq> 0"
    and room: "length bs + 2 \<le> unat (OSMemNBlks (OSMemTbl s m))"
  shows "\<exists>s1 s2 s3 s4. OSMemPut (Some m) b s = Some (OS_ERR_NONE, s1) \<and> OSMemPut (Some m) b s1 = Some (OS_ERR_NONE, s2) \<and>
     OSMemGet (Some m) (Some x) s2 = Some (b, Some OS_ERR_NONE, s3) \<and>
     OSMemGet (Some m) (Some x) s3 = Some (b, Some OS_ERR_NONE, s4)"
proof -
  let ?n = "OSMemNFree (OSMemTbl s m)"
  obtain c where c: "OSMemFreeList (OSMemTbl s m) = Block_Ptr c" "unat ?n = length bs"
    using p by (auto simp: part_ok_def Let_def)
  have u: "unat (?n + 1) = length bs + 1" "unat (?n + 2) = length bs + 2"
    using c(2) room unat_lt_32 [of "OSMemNBlks (OSMemTbl s m)"] by (subst unat_add_small; simp del: unat_lt_32)+
  have two: "?n + 1 + 1 = ?n + 2" "?n + 2 - 1 = ?n + 1" by simp_all
  have room': "\<not> OSMemNBlks (OSMemTbl s m) \<le> ?n" "\<not> OSMemNBlks (OSMemTbl s m) \<le> ?n + 1" "0 < ?n + 2" "0 < ?n + 1"
    using c(2) u room by (simp_all add: word_le_unat word_less_unat del: unat_add_lem)
  define s1 where "s1 = set_mem m (\<lambda>p. p\<lparr> OSMemFreeList := Block_Ptr b, OSMemNFree := ?n + 1 \<rparr>) (s\<lparr> storage := (storage s)(b := c) \<rparr>)"
  define s2 where "s2 = set_mem m (\<lambda>p. p\<lparr> OSMemFreeList := Block_Ptr b, OSMemNFree := ?n + 2 \<rparr>) (s1\<lparr> storage := (storage s1)(b := b) \<rparr>)"
  define s3 where "s3 = set_mem m (\<lambda>p. p\<lparr> OSMemFreeList := Block_Ptr b, OSMemNFree := ?n + 1 \<rparr>) s2"
  have 1: "OSMemPut (Some m) b s = Some (OS_ERR_NONE, s1)"
    using c(1) b room'(1) by (simp add: OSMemPut_def s1_def set_mem_def)
  have 2: "OSMemPut (Some m) b s1 = Some (OS_ERR_NONE, s2)"
    using b room'(2) by (simp add: OSMemPut_def s2_def) (simp add: s1_def set_mem_def add.commute)
  have f2: "OSMemFreeList (OSMemTbl s2 m) = Block_Ptr b" "OSMemNFree (OSMemTbl s2 m) = ?n + 2" "storage s2 b = b"
    by (simp_all add: s2_def)
  have 3: "OSMemGet (Some m) (Some x) s2 = Some (b, Some OS_ERR_NONE, s3)"
    using b room'(3) f2 by (simp add: OSMemGet_def s3_def set_mem_def add.commute)
  have f3: "OSMemFreeList (OSMemTbl s3 m) = Block_Ptr b" "OSMemNFree (OSMemTbl s3 m) = ?n + 1"
    by (simp_all add: s3_def)
  have "\<exists>s4. OSMemGet (Some m) (Some x) s3 = Some (b, Some OS_ERR_NONE, s4)"
    using b room'(4) f3 by (simp add: OSMemGet_def)
  with 1 2 3 show ?thesis by blast
qed


section \<open>Concrete runs\<close>

lemma link_mems_link: "i < n \<Longrightarrow> OSMemFreeList (link_mems n t i) = Mem_Ptr (Some (Suc i))"
  by (induction n) (auto simp: less_Suc_eq mem_name_unknown_def)

lemma mem_init_free: "MemFreeList (OS_MemInit s) = Some 0" "OSMemFreeList (OSMemTbl (OS_MemInit s) 0) = Mem_Ptr (Some 1)"
  using link_mems_link [of 0 "OS_MAX_MEM_PART - 1"] by (simp_all add: OS_MemInit_def Let_def)

theorem mem_create_links_all_witness:
  "\<exists>s'. OSMemCreate 1000 3 16 (Some 0) (OS_MemInit example_os) = Some (Some 0, Some OS_ERR_NONE, s') \<and>
     part_ok 0 [1000, 1016, 1032] s' \<and> OSMemNFree (OSMemTbl s' 0) = 3 \<and> OSMemNBlks (OSMemTbl s' 0) = 3"
  using mem_create_links_all [of 1000 3 16, OF _ _ _ _ _ mem_init_free [of example_os], where x = 0]
  by (auto simp: fits_def upt_rec)

lemma example_partition:
  "\<exists>s. part_ok 0 [1000, 1016, 1032] s \<and> OSMemNFree (OSMemTbl s 0) = 3 \<and> OSMemNBlks (OSMemTbl s 0) = 3 \<and>
     (\<exists>s'. OSMemGet (Some 0) (Some 0) s = Some (1000, Some OS_ERR_NONE, s') \<and> part_ok 0 [1016, 1032] s' \<and>
        OSMemNBlks (OSMemTbl s' 0) = 3)"
proof -
  obtain s where s: "part_ok 0 [1000, 1016, 1032] s" "OSMemNFree (OSMemTbl s 0) = 3" "OSMemNBlks (OSMemTbl s 0) = 3"
    using mem_create_ok [of 1000 3 16, OF _ _ _ _ _ mem_init_free [of example_os], where x = 0]
    by (auto simp: fits_def upt_rec)
  with mem_get_ok [OF s(1), of 0] show ?thesis by (intro exI [of _ s]) auto
qed

theorem mem_get_put_roundtrip_witness:
  "\<exists>s s'. part_ok 0 [1000, 1016, 1032] s \<and> OSMemGet (Some 0) (Some 0) s = Some (1000, Some OS_ERR_NONE, s') \<and>
     OSMemPut (Some 0) 1000 s' = Some (OS_ERR_NONE, s)"
proof -
  obtain s where s: "part_ok 0 [1000, 1016, 1032] s" "OSMemNFree (OSMemTbl s 0) = 3" "OSMemNBlks (OSMemTbl s 0) = 3"
    using example_partition by blast
  with mem_get_put_roundtrip [OF s(1), of 0] show ?thesis by auto
qed

theorem mem_double_put_witness:
  "\<exists>s s1 s2 s3 s4. part_ok 0 [1032] s \<and>
     OSMemPut (Some 0) 1000 s = Some (OS_ERR_NONE, s1) \<and> OSMemPut (Some 0) 1000 s1 = Some (OS_ERR_NONE, s2) \<and>
     OSMemGet (Some 0) (Some 0) s2 = Some (1000, Some OS_ERR_NONE, s3) \<and>
     OSMemGet (Some 0) (Some 0) s3 = Some (1000, Some OS_ERR_NONE, s4)"
proof -
  obtain s where s: "part_ok 0 [1016, 1032] s" "OSMemNBlks (OSMemTbl s 0) = 3" using example_partition by blast
  obtain s' where "part_ok 0 [1032] s'" "OSMemNBlks (OSMemTbl s' 0) = 3" using mem_get_ok [OF s(1), of 0] s(2) by auto
  with mem_double_put [of 0 "[1032]" s' 1000 0] show ?thesis by auto
qed


end
