(* ===== verification/Os_Name.thy ===== *)
theory Os_Name imports Os_Flag Os_Mem begin

text \<open>
  Strings and names: \<open>OS_StrLen\<close>, \<open>OS_StrCopy\<close>, \<open>OS_MemClr\<close> and \<open>OS_MemCopy\<close> of \<open>os_core.c\<close>, and the
  functions that get and set the names of events, tasks, flag groups and memory partitions. A pointer
  to characters is the block of bytes it points to; reading or writing past the end of the block has
  no defined result. The lemmas show that a name that fits can be read back, that a longer name is
  refused, and that the test for the length fails for names of 256 characters and more.
\<close>

section \<open>Strings\<close>

fun str_len_from :: "INT8U \<Rightarrow> INT8U list \<Rightarrow> INT8U option" where
  "str_len_from len [] = None"
| "str_len_from len (c # psrc) = (if c \<noteq> OS_ASCII_NUL then str_len_from (len + 1) psrc else Some len)"

definition OS_StrLen :: "INT8U list \<Rightarrow> INT8U option" where
  "OS_StrLen psrc = str_len_from 0 psrc"

fun str_copy_from :: "INT8U \<Rightarrow> INT8U list \<Rightarrow> INT8U list \<Rightarrow> (INT8U \<times> INT8U list) option" where
  "str_copy_from len [] psrc = None"
| "str_copy_from len (d # pdest) [] = None"
| "str_copy_from len (d # pdest) (c # psrc) =
     (if c \<noteq> OS_ASCII_NUL then do { (n, r) \<leftarrow> str_copy_from (len + 1) pdest psrc; Some (n, c # r) }
      else Some (len, OS_ASCII_NUL # pdest))"

text \<open>The length and the destination afterwards.\<close>

definition OS_StrCopy :: "INT8U list \<Rightarrow> INT8U list \<Rightarrow> (INT8U \<times> INT8U list) option" where
  "OS_StrCopy pdest psrc = str_copy_from 0 pdest psrc"

fun mem_clr :: "nat \<Rightarrow> INT8U list \<Rightarrow> INT8U list option" where
  "mem_clr 0 pdest = Some pdest"
| "mem_clr (Suc n) [] = None"
| "mem_clr (Suc n) (d # pdest) = do { r \<leftarrow> mem_clr n pdest; Some (0 # r) }"

definition OS_MemClr :: "INT8U list \<Rightarrow> INT16U \<Rightarrow> INT8U list option" where
  "OS_MemClr pdest n = mem_clr (unat n) pdest"

fun mem_copy :: "nat \<Rightarrow> INT8U list \<Rightarrow> INT8U list \<Rightarrow> INT8U list option" where
  "mem_copy 0 pdest psrc = Some pdest"
| "mem_copy (Suc n) (d # pdest) (c # psrc) = do { r \<leftarrow> mem_copy n pdest psrc; Some (c # r) }"
| "mem_copy (Suc n) pdest psrc = None"

definition OS_MemCopy :: "INT8U list \<Rightarrow> INT8U list \<Rightarrow> INT16U \<Rightarrow> INT8U list option" where
  "OS_MemCopy pdest psrc n = mem_copy (unat n) pdest psrc"

section \<open>Names of events\<close>

definition event_named :: "INT8U \<Rightarrow> bool" where
  "event_named ty \<longleftrightarrow> ty = OS_EVENT_TYPE_SEM \<or> ty = OS_EVENT_TYPE_MUTEX \<or> ty = OS_EVENT_TYPE_MBOX \<or> ty = OS_EVENT_TYPE_Q"

text \<open>A get function returns the length, the buffer and the error.\<close>

definition OSEventNameGet ::
  "event_ptr \<Rightarrow> INT8U list option \<Rightarrow> INT8U option \<Rightarrow> os_state \<Rightarrow> (INT8U \<times> INT8U list option \<times> INT8U option) option" where
  "OSEventNameGet pevent pname perr s =
     (if perr = None then Some (0, pname, perr)
      else case pevent of None \<Rightarrow> Some (0, pname, Some OS_ERR_PEVENT_NULL)
      | Some e \<Rightarrow>
          (case pname of None \<Rightarrow> Some (0, pname, Some OS_ERR_PNAME_NULL)
           | Some buf \<Rightarrow>
               if OSIntNesting s > 0 then Some (0, pname, Some OS_ERR_NAME_GET_ISR)
               else if \<not> event_named (OSEventType (ECB s e)) then Some (0, pname, Some OS_ERR_EVENT_TYPE)
               else do {
                 (len, buf) \<leftarrow> OS_StrCopy buf (OSEventName (ECB s e));
                 Some (len, Some buf, Some OS_ERR_NONE)
               }))"

definition OSEventNameSet ::
  "event_ptr \<Rightarrow> INT8U list option \<Rightarrow> INT8U option \<Rightarrow> os_state \<Rightarrow> (INT8U option \<times> os_state) option" where
  "OSEventNameSet pevent pname perr s =
     (if perr = None then Some (perr, s)
      else case pevent of None \<Rightarrow> Some (Some OS_ERR_PEVENT_NULL, s)
      | Some e \<Rightarrow>
          (case pname of None \<Rightarrow> Some (Some OS_ERR_PNAME_NULL, s)
           | Some src \<Rightarrow>
               if OSIntNesting s > 0 then Some (Some OS_ERR_NAME_SET_ISR, s)
               else if \<not> event_named (OSEventType (ECB s e)) then Some (Some OS_ERR_EVENT_TYPE, s)
               else do {
                 len \<leftarrow> OS_StrLen src;
                 if unat len > OS_EVENT_NAME_SIZE - 1 then Some (Some OS_ERR_EVENT_NAME_TOO_LONG, s)
                 else do {
                   (n, name) \<leftarrow> OS_StrCopy (OSEventName (ECB s e)) src;
                   Some (Some OS_ERR_NONE, set_event e (\<lambda>ev. ev\<lparr> OSEventName := name \<rparr>) s)
                 }
               }))"

section \<open>Names of tasks\<close>

text \<open>The task of a priority, or of the caller.\<close>

definition named_prio :: "INT8U \<Rightarrow> os_state \<Rightarrow> INT8U option" where
  "named_prio prio s =
     (if prio = OS_PRIO_SELF then do { i \<leftarrow> tcb_index (OSTCBCur s); Some (OSTCBPrio (TCB s i)) } else Some prio)"

definition OSTaskNameGet ::
  "INT8U \<Rightarrow> INT8U list option \<Rightarrow> INT8U option \<Rightarrow> os_state \<Rightarrow> (INT8U \<times> INT8U list option \<times> INT8U option) option" where
  "OSTaskNameGet prio pname perr s =
     (if perr = None then Some (0, pname, perr)
      else if unat prio > OS_LOWEST_PRIO \<and> prio \<noteq> OS_PRIO_SELF then Some (0, pname, Some OS_ERR_PRIO_INVALID)
      else case pname of None \<Rightarrow> Some (0, pname, Some OS_ERR_PNAME_NULL)
      | Some buf \<Rightarrow>
          if OSIntNesting s > 0 then Some (0, pname, Some OS_ERR_NAME_GET_ISR)
          else do {
            prio \<leftarrow> named_prio prio s;
            ptcb \<leftarrow> array_get (OSTCBPrioTbl s) (unat prio);
            (case ptcb of
               TCB_AT i \<Rightarrow> do {
                 (len, buf) \<leftarrow> OS_StrCopy buf (OSTCBTaskName (TCB s i));
                 Some (len, Some buf, Some OS_ERR_NONE)
               }
             | _ \<Rightarrow> Some (0, pname, Some OS_ERR_TASK_NOT_EXIST))
          })"

definition OSTaskNameSet ::
  "INT8U \<Rightarrow> INT8U list option \<Rightarrow> INT8U option \<Rightarrow> os_state \<Rightarrow> (INT8U option \<times> os_state) option" where
  "OSTaskNameSet prio pname perr s =
     (if perr = None then Some (perr, s)
      else if unat prio > OS_LOWEST_PRIO \<and> prio \<noteq> OS_PRIO_SELF then Some (Some OS_ERR_PRIO_INVALID, s)
      else case pname of None \<Rightarrow> Some (Some OS_ERR_PNAME_NULL, s)
      | Some src \<Rightarrow>
          if OSIntNesting s > 0 then Some (Some OS_ERR_NAME_SET_ISR, s)
          else do {
            prio \<leftarrow> named_prio prio s;
            ptcb \<leftarrow> array_get (OSTCBPrioTbl s) (unat prio);
            (case ptcb of
               TCB_AT i \<Rightarrow> do {
                 len \<leftarrow> OS_StrLen src;
                 if unat len > OS_TASK_NAME_SIZE - 1 then Some (Some OS_ERR_TASK_NAME_TOO_LONG, s)
                 else do {
                   (n, name) \<leftarrow> OS_StrCopy (OSTCBTaskName (TCB s i)) src;
                   Some (Some OS_ERR_NONE, set_tcb i (\<lambda>t. t\<lparr> OSTCBTaskName := name \<rparr>) s)
                 }
               }
             | _ \<Rightarrow> Some (Some OS_ERR_TASK_NOT_EXIST, s))
          })"

section \<open>Names of flag groups and memory partitions\<close>

definition OSFlagNameGet ::
  "grp_ptr \<Rightarrow> INT8U list option \<Rightarrow> INT8U option \<Rightarrow> os_state \<Rightarrow> (INT8U \<times> INT8U list option \<times> INT8U option) option" where
  "OSFlagNameGet pgrp pname perr s =
     (if perr = None then Some (0, pname, perr)
      else case pgrp of None \<Rightarrow> Some (0, pname, Some OS_ERR_FLAG_INVALID_PGRP)
      | Some g \<Rightarrow>
          (case pname of None \<Rightarrow> Some (0, pname, Some OS_ERR_PNAME_NULL)
           | Some buf \<Rightarrow>
               if OSIntNesting s > 0 then Some (0, pname, Some OS_ERR_NAME_GET_ISR)
               else if OSFlagType (OSFlagTbl s g) \<noteq> OS_EVENT_TYPE_FLAG then Some (0, pname, Some OS_ERR_EVENT_TYPE)
               else do {
                 (len, buf) \<leftarrow> OS_StrCopy buf (OSFlagName (OSFlagTbl s g));
                 Some (len, Some buf, Some OS_ERR_NONE)
               }))"

definition OSFlagNameSet ::
  "grp_ptr \<Rightarrow> INT8U list option \<Rightarrow> INT8U option \<Rightarrow> os_state \<Rightarrow> (INT8U option \<times> os_state) option" where
  "OSFlagNameSet pgrp pname perr s =
     (if perr = None then Some (perr, s)
      else case pgrp of None \<Rightarrow> Some (Some OS_ERR_FLAG_INVALID_PGRP, s)
      | Some g \<Rightarrow>
          (case pname of None \<Rightarrow> Some (Some OS_ERR_PNAME_NULL, s)
           | Some src \<Rightarrow>
               if OSIntNesting s > 0 then Some (Some OS_ERR_NAME_SET_ISR, s)
               else if OSFlagType (OSFlagTbl s g) \<noteq> OS_EVENT_TYPE_FLAG then Some (Some OS_ERR_EVENT_TYPE, s)
               else do {
                 len \<leftarrow> OS_StrLen src;
                 if unat len > OS_FLAG_NAME_SIZE - 1 then Some (Some OS_ERR_FLAG_NAME_TOO_LONG, s)
                 else do {
                   (n, name) \<leftarrow> OS_StrCopy (OSFlagName (OSFlagTbl s g)) src;
                   Some (Some OS_ERR_NONE, set_grp g (\<lambda>p. p\<lparr> OSFlagName := name \<rparr>) s)
                 }
               }))"

definition OSMemNameGet ::
  "mem_ptr \<Rightarrow> INT8U list option \<Rightarrow> INT8U option \<Rightarrow> os_state \<Rightarrow> (INT8U \<times> INT8U list option \<times> INT8U option) option" where
  "OSMemNameGet pmem pname perr s =
     (if perr = None then Some (0, pname, perr)
      else case pmem of None \<Rightarrow> Some (0, pname, Some OS_ERR_MEM_INVALID_PMEM)
      | Some m \<Rightarrow>
          (case pname of None \<Rightarrow> Some (0, pname, Some OS_ERR_PNAME_NULL)
           | Some buf \<Rightarrow>
               if OSIntNesting s > 0 then Some (0, pname, Some OS_ERR_NAME_GET_ISR)
               else do {
                 (len, buf) \<leftarrow> OS_StrCopy buf (OSMemName (OSMemTbl s m));
                 Some (len, Some buf, Some OS_ERR_NONE)
               }))"

definition OSMemNameSet ::
  "mem_ptr \<Rightarrow> INT8U list option \<Rightarrow> INT8U option \<Rightarrow> os_state \<Rightarrow> (INT8U option \<times> os_state) option" where
  "OSMemNameSet pmem pname perr s =
     (if perr = None then Some (perr, s)
      else case pmem of None \<Rightarrow> Some (Some OS_ERR_MEM_INVALID_PMEM, s)
      | Some m \<Rightarrow>
          (case pname of None \<Rightarrow> Some (Some OS_ERR_PNAME_NULL, s)
           | Some src \<Rightarrow>
               if OSIntNesting s > 0 then Some (Some OS_ERR_NAME_SET_ISR, s)
               else do {
                 len \<leftarrow> OS_StrLen src;
                 if unat len > OS_MEM_NAME_SIZE - 1 then Some (Some OS_ERR_MEM_NAME_TOO_LONG, s)
                 else do {
                   (n, name) \<leftarrow> OS_StrCopy (OSMemName (OSMemTbl s m)) src;
                   Some (Some OS_ERR_NONE, set_mem m (\<lambda>p. p\<lparr> OSMemName := name \<rparr>) s)
                 }
               }))"

section \<open>What the string functions compute\<close>

text \<open>The block \<open>p\<close> starts with the string \<open>cs\<close> and its terminator.\<close>

definition c_string :: "INT8U list \<Rightarrow> INT8U list \<Rightarrow> bool" where
  "c_string p cs \<longleftrightarrow> 0 \<notin> set cs \<and> (\<exists>rest. p = cs @ 0 # rest)"

lemma str_len_from_string: "0 \<notin> set cs \<Longrightarrow> str_len_from n (cs @ 0 # rest) = Some (n + of_nat (length cs))"
  by (induction cs arbitrary: n) (auto simp: add.assoc add.commute)

lemma OS_StrLen_string: "c_string p cs \<Longrightarrow> OS_StrLen p = Some (of_nat (length cs))"
  by (auto simp: c_string_def OS_StrLen_def str_len_from_string)

lemma str_copy_from_string:
  "0 \<notin> set cs \<Longrightarrow> str_copy_from n d (cs @ 0 # rest) =
     (if length cs < length d then Some (n + of_nat (length cs), cs @ 0 # drop (Suc (length cs)) d) else None)"
proof (induction cs arbitrary: n d)
  case Nil
  then show ?case by (cases d) auto
next
  case (Cons c cs)
  then show ?case by (cases d) (auto simp: add.assoc add.commute)
qed

lemma OS_StrCopy_string:
  "c_string p cs \<Longrightarrow> OS_StrCopy d p =
     (if length cs < length d then Some (of_nat (length cs), cs @ 0 # drop (Suc (length cs)) d) else None)"
  by (auto simp: c_string_def OS_StrCopy_def str_copy_from_string)

lemma c_string_copy: "c_string p cs \<Longrightarrow> c_string (cs @ 0 # rest) cs"
  by (auto simp: c_string_def)

lemma mem_clr_all: "n \<le> length d \<Longrightarrow> mem_clr n d = Some (replicate n 0 @ drop n d)"
  by (induction n d rule: mem_clr.induct) auto

lemma mem_copy_all:
  "n \<le> length d \<Longrightarrow> n \<le> length p \<Longrightarrow> mem_copy n d p = Some (take n p @ drop n d)"
  by (induction n d p rule: mem_copy.induct) auto

text \<open>Naming an event, for every string: a name of at most 31 characters is stored and \<open>OSEventNameGet\<close>
  reads the same characters back with their number; a name of 32 to 255 characters is refused without a change; but
  \<open>OS_StrLen\<close> counts in 8 bits, so a name whose length is 256 to 287 passes the test and the copy runs past the
  32 bytes of the control block.\<close>

theorem event_name_roundtrip:
  assumes lvl: "OSIntNesting s = 0" and ty: "event_named (OSEventType (ECB s e))"
    and name: "length (OSEventName (ECB s e)) = OS_EVENT_NAME_SIZE" and src: "c_string src cs"
    and buf: "OS_EVENT_NAME_SIZE \<le> length buf"
  shows "if length cs \<le> 31 then
       (\<exists>s'. OSEventNameSet (Some e) (Some src) (Some x) s = Some (Some OS_ERR_NONE, s') \<and>
          (\<exists>rest. OSEventNameGet (Some e) (Some buf) (Some x) s' =
             Some (of_nat (length cs), Some (cs @ 0 # rest), Some OS_ERR_NONE)))
     else if length cs \<le> 255 then
       OSEventNameSet (Some e) (Some src) (Some x) s = Some (Some OS_ERR_EVENT_NAME_TOO_LONG, s)
     else length cs \<le> 287 \<longrightarrow> OSEventNameSet (Some e) (Some src) (Some x) s = None"
proof -
  have len: "unat (of_nat (length cs) :: INT8U) = length cs mod 256"
    by (simp add: unsigned_of_nat take_bit_eq_mod)
  have copy: "OS_StrCopy (OSEventName (ECB s e)) src = (if length cs < 32
      then Some (of_nat (length cs), cs @ 0 # drop (Suc (length cs)) (OSEventName (ECB s e))) else None)"
    using OS_StrCopy_string [OF src, of "OSEventName (ECB s e)"] name by simp
  consider "length cs \<le> 31" | "31 < length cs" "length cs \<le> 255" | "255 < length cs" "length cs \<le> 287"
    | "287 < length cs" by linarith
  then show ?thesis
  proof cases
    case 1
    let ?s = "set_event e (\<lambda>ev. ev\<lparr> OSEventName := cs @ 0 # drop (Suc (length cs)) (OSEventName (ECB s e)) \<rparr>) s"
    have "OSEventNameSet (Some e) (Some src) (Some x) s = Some (Some OS_ERR_NONE, ?s)"
      using 1 lvl ty copy len OS_StrLen_string [OF src] by (simp add: OSEventNameSet_def)
    moreover have "OSIntNesting ?s = 0" using lvl by (simp add: set_event_def)
    moreover have "OS_StrCopy buf (cs @ 0 # drop (Suc (length cs)) (OSEventName (ECB s e))) =
        Some (of_nat (length cs), cs @ 0 # drop (Suc (length cs)) buf)"
      using OS_StrCopy_string [OF c_string_copy [OF src]] 1 buf by simp
    ultimately show ?thesis using 1 ty by (simp add: OSEventNameGet_def)
  next
    case 2
    then show ?thesis
      using lvl ty len OS_StrLen_string [OF src] by (simp add: OSEventNameSet_def)
  next
    case 3
    then have "length cs mod 256 = length cs - 256" by (simp add: mod_if)
    then have "length cs mod 256 \<le> 31" using 3 by simp
    then show ?thesis
      using 3 lvl ty len copy OS_StrLen_string [OF src] by (simp add: OSEventNameSet_def)
  qed simp
qed

theorem event_name_roundtrip_witness:
  "\<exists>s'. OSEventNameSet (Some 0) (Some [65, 66, 0]) (Some 0)
       (set_event 0 (\<lambda>ev. ev\<lparr> OSEventName := replicate 32 0 \<rparr>) example_os) = Some (Some OS_ERR_NONE, s') \<and>
     (\<exists>rest. OSEventNameGet (Some 0) (Some (replicate 40 9)) (Some 0) s' =
        Some (2, Some ([65, 66] @ 0 # rest), Some OS_ERR_NONE)) \<and>
   OSEventNameSet (Some 0) (Some (replicate 256 65 @ [0])) (Some 0)
       (set_event 0 (\<lambda>ev. ev\<lparr> OSEventName := replicate 32 0 \<rparr>) example_os) = None"
proof -
  let ?s = "set_event 0 (\<lambda>ev. ev\<lparr> OSEventName := replicate 32 0 \<rparr>) example_os"
  have p: "OSIntNesting ?s = 0" "event_named (OSEventType (ECB ?s 0))"
    "length (OSEventName (ECB ?s 0)) = OS_EVENT_NAME_SIZE"
    by (simp_all add: set_event_def example_os_def) (simp_all add: example_ecbs_def event_named_def)
  have "c_string [65, 66, 0] [65, 66]" "c_string (replicate 256 65 @ [0]) (replicate 256 65)"
    by (auto simp: c_string_def)
  with event_name_roundtrip [OF p this(1), of "replicate 40 9" 0] event_name_roundtrip [OF p this(2), of "replicate 40 9" 0]
  show ?thesis by simp
qed

end
