(* ===== verification/Os_Task.thy ===== *)
theory Os_Task imports Os_Name begin

text \<open>
  \<open>os_task.c\<close>, with \<open>OS_TCBInit\<close> of \<open>os_core.c\<close> and \<open>OSTaskStkInit\<close> of the port
  (\<open>HAL/src/os_cpu_c.c\<close>): creation, deletion, suspension, priority change and inspection of tasks.
  The C library's reentrancy structure and the address of the task start code are not part of the
  repository; they are the record \<open>port\<close>. A function that ends with the scheduler returns after it
  as soon as the caller runs again. Calls of the empty hook functions are left out.
\<close>

section \<open>The stack of a task\<close>

text \<open>
  \<open>reent_size\<close> is \<open>sizeof(struct _reent)\<close>, \<open>reent_init\<close> what \<open>_REENT_INIT_PTR\<close> writes at an address, and
  \<open>OSStartTsk\<close> the address of that label.
\<close>

record port =
  reent_size :: INT32U
  reent_init :: "INT32U \<Rightarrow> (INT32U \<Rightarrow> msg) \<Rightarrow> INT32U \<Rightarrow> msg"
  OSStartTsk :: INT32U

fun clear_words :: "nat \<Rightarrow> INT32U \<Rightarrow> (INT32U \<Rightarrow> msg) \<Rightarrow> INT32U \<Rightarrow> msg" where
  "clear_words 0 pbos M = M"
| "clear_words (Suc n) pbos M = clear_words n (pbos + 4) (M(pbos := 0))"

definition OS_TaskStkClr :: "INT32U \<Rightarrow> INT32U \<Rightarrow> INT16U \<Rightarrow> (INT32U \<Rightarrow> msg) \<Rightarrow> INT32U \<Rightarrow> msg" where
  "OS_TaskStkClr pbos stk_size opt M =
     (if opt AND OS_TASK_OPT_STK_CHK \<noteq> 0 then
        if opt AND OS_TASK_OPT_STK_CLR \<noteq> 0 then clear_words (unat stk_size) pbos M else M
      else M)"

text \<open>The new top of the stack and the memory.\<close>

definition OSTaskStkInit ::
  "port \<Rightarrow> INT32U \<Rightarrow> INT32U \<Rightarrow> INT32U \<Rightarrow> (INT32U \<Rightarrow> msg) \<Rightarrow> INT32U \<times> (INT32U \<Rightarrow> msg)" where
  "OSTaskStkInit port task pdata pstk M =
     (let local_impure_ptr = (pstk AND NOT 3) - reent_size port;
          M = reent_init port local_impure_ptr M;
          stk = local_impure_ptr - 4 * 13;
          M = M(stk + 4 * 12 := task);
          M = M(stk + 4 * 11 := pdata);
          M = M(stk + 4 * 10 := local_impure_ptr);
          M = M(stk := OSStartTsk port + 4) in
      (stk, M))"

section \<open>Task control blocks\<close>

definition set_prio_tbl :: "INT8U \<Rightarrow> tcb_ptr \<Rightarrow> os_state \<Rightarrow> os_state option" where
  "set_prio_tbl prio p s =
     (if unat prio < length (OSTCBPrioTbl s) then Some (s\<lparr> OSTCBPrioTbl := (OSTCBPrioTbl s)[unat prio := p] \<rparr>) else None)"

definition tcb_name_unknown :: "OS_TCB \<Rightarrow> OS_TCB" where
  "tcb_name_unknown t = t\<lparr> OSTCBTaskName := (OSTCBTaskName t)[0 := 63, 1 := OS_ASCII_NUL] \<rparr>"

text \<open>The masks of a priority, as \<open>OS_TCBInit\<close> and \<open>OSTaskChangePrio\<close> compute them.\<close>

definition with_prio :: "INT8U \<Rightarrow> OS_TCB \<Rightarrow> OS_TCB" where
  "with_prio prio t = t\<lparr> OSTCBPrio := prio, OSTCBY := prio_y prio, OSTCBX := prio_x prio,
     OSTCBBitY := prio_bity prio, OSTCBBitX := prio_bitx prio \<rparr>"

definition new_tcb ::
  "INT8U \<Rightarrow> INT32U \<Rightarrow> INT32U \<Rightarrow> INT16U \<Rightarrow> INT32U \<Rightarrow> INT32U \<Rightarrow> INT16U \<Rightarrow> OS_TCB \<Rightarrow> OS_TCB" where
  "new_tcb prio ptos pbos tid stk_size pext opt t =
     tcb_name_unknown ((with_prio prio t)\<lparr> OSTCBStkPtr := ptos, OSTCBStat := OS_STAT_RDY, OSTCBStatPend := OS_STAT_PEND_OK,
       OSTCBDly := 0, OSTCBExtPtr := pext, OSTCBStkSize := stk_size, OSTCBStkBottom := pbos, OSTCBOpt := opt,
       OSTCBId := tid, OSTCBDelReq := OS_ERR_NONE, OSTCBEventPtr := None, OSTCBEventMultiPtr := None,
       OSTCBFlagNode := None, OSTCBMsg := 0, OSTCBCtxSwCtr := 0, OSTCBCyclesStart := 0, OSTCBCyclesTot := 0,
       OSTCBStkBase := 0, OSTCBStkUsed := 0 \<rparr>)"

definition OS_TCBInit ::
  "INT8U \<Rightarrow> INT32U \<Rightarrow> INT32U \<Rightarrow> INT16U \<Rightarrow> INT32U \<Rightarrow> INT32U \<Rightarrow> INT16U \<Rightarrow> os_state \<Rightarrow> (INT8U \<times> os_state) option" where
  "OS_TCBInit prio ptos pbos tid stk_size pext opt s =
     (case OSTCBFreeList s of
        TCB_NULL \<Rightarrow> Some (OS_ERR_TASK_NO_MORE_TCB, s)
      | TCB_RESERVED \<Rightarrow> None
      | TCB_AT i \<Rightarrow> do {
          let s = s\<lparr> OSTCBFreeList := OSTCBNext (TCB s i) \<rparr>;
          let s = set_tcb i (new_tcb prio ptos pbos tid stk_size pext opt) s;
          s \<leftarrow> set_prio_tbl prio (TCB_AT i) s;
          let s = set_tcb i (\<lambda>t. t\<lparr> OSTCBNext := OSTCBList s, OSTCBPrev := TCB_NULL \<rparr>) s;
          s \<leftarrow> (case OSTCBList s of
                 TCB_NULL \<Rightarrow> Some s
               | TCB_RESERVED \<Rightarrow> None
               | TCB_AT j \<Rightarrow> Some (set_tcb j (\<lambda>t. t\<lparr> OSTCBPrev := TCB_AT i \<rparr>) s));
          let s = s\<lparr> OSTCBList := TCB_AT i \<rparr>;
          let t = TCB s i;
          b \<leftarrow> bm_set (OSTCBY t) (OSTCBBitX t) (OSTCBBitY t) (rdy s);
          let s = set_rdy b s;
          Some (OS_ERR_NONE, s\<lparr> OSTaskCtr := OSTaskCtr s + 1 \<rparr>)
        })"

section \<open>Creation\<close>

text \<open>What both creation functions do with the result of \<open>OS_TCBInit\<close>.\<close>

definition finish_create :: "INT8U \<Rightarrow> INT8U \<Rightarrow> os_state \<Rightarrow> (INT8U \<times> os_state) option" where
  "finish_create prio err s =
     (if err = OS_ERR_NONE then do {
        s \<leftarrow> (if OSRunning s = OS_TRUE then OS_Sched s else Some s);
        Some (err, s)
      } else do {
        s \<leftarrow> set_prio_tbl prio TCB_NULL s;
        Some (err, s)
      })"

definition OSTaskCreate ::
  "port \<Rightarrow> INT32U \<Rightarrow> INT32U \<Rightarrow> INT32U \<Rightarrow> INT8U \<Rightarrow> os_state \<Rightarrow> (INT8U \<times> os_state) option" where
  "OSTaskCreate port task p_arg ptos prio s =
     (if unat prio > OS_LOWEST_PRIO then Some (OS_ERR_PRIO_INVALID, s)
      else if OSIntNesting s > 0 then Some (OS_ERR_TASK_CREATE_ISR, s)
      else do {
        p \<leftarrow> array_get (OSTCBPrioTbl s) (unat prio);
        if p = TCB_NULL then do {
          s \<leftarrow> set_prio_tbl prio TCB_RESERVED s;
          let (psp, M) = OSTaskStkInit port task p_arg ptos (storage s);
          let s = s\<lparr> storage := M \<rparr>;
          (err, s) \<leftarrow> OS_TCBInit prio psp 0 0 0 0 0 s;
          finish_create prio err s
        } else Some (OS_ERR_PRIO_EXIST, s)
      })"

definition OSTaskCreateExt ::
  "port \<Rightarrow> INT32U \<Rightarrow> INT32U \<Rightarrow> INT32U \<Rightarrow> INT8U \<Rightarrow> INT16U \<Rightarrow> INT32U \<Rightarrow> INT32U \<Rightarrow> INT32U \<Rightarrow> INT16U \<Rightarrow> os_state \<Rightarrow>
     (INT8U \<times> os_state) option" where
  "OSTaskCreateExt port task p_arg ptos prio tid pbos stk_size pext opt s =
     (if unat prio > OS_LOWEST_PRIO then Some (OS_ERR_PRIO_INVALID, s)
      else if OSIntNesting s > 0 then Some (OS_ERR_TASK_CREATE_ISR, s)
      else do {
        p \<leftarrow> array_get (OSTCBPrioTbl s) (unat prio);
        if p = TCB_NULL then do {
          s \<leftarrow> set_prio_tbl prio TCB_RESERVED s;
          let s = s\<lparr> storage := OS_TaskStkClr pbos stk_size opt (storage s) \<rparr>;
          let (psp, M) = OSTaskStkInit port task p_arg ptos (storage s);
          let s = s\<lparr> storage := M \<rparr>;
          (err, s) \<leftarrow> OS_TCBInit prio psp pbos tid stk_size pext opt s;
          finish_create prio err s
        } else Some (OS_ERR_PRIO_EXIST, s)
      })"

section \<open>Deletion\<close>

text \<open>Taking a control block out of the list of tasks, and putting it on the free list.\<close>

definition unlink_tcb :: "nat \<Rightarrow> os_state \<Rightarrow> os_state option" where
  "unlink_tcb i s = do {
     s \<leftarrow> (if OSTCBPrev (TCB s i) = TCB_NULL then do {
            j \<leftarrow> tcb_index (OSTCBNext (TCB s i));
            let s = set_tcb j (\<lambda>t. t\<lparr> OSTCBPrev := TCB_NULL \<rparr>) s;
            Some (s\<lparr> OSTCBList := OSTCBNext (TCB s i) \<rparr>)
          } else do {
            h \<leftarrow> tcb_index (OSTCBPrev (TCB s i));
            let s = set_tcb h (\<lambda>t. t\<lparr> OSTCBNext := OSTCBNext (TCB s i) \<rparr>) s;
            j \<leftarrow> tcb_index (OSTCBNext (TCB s i));
            Some (set_tcb j (\<lambda>t. t\<lparr> OSTCBPrev := OSTCBPrev (TCB s i) \<rparr>) s)
          });
     let s = set_tcb i (\<lambda>t. tcb_name_unknown (t\<lparr> OSTCBNext := OSTCBFreeList s \<rparr>)) s;
     Some (s\<lparr> OSTCBFreeList := TCB_AT i \<rparr>)
   }"

text \<open>Making a task forget whatever it waits for.\<close>

definition stop_task :: "nat \<Rightarrow> os_state \<Rightarrow> os_state option" where
  "stop_task i s = do {
     let t = TCB s i;
     r \<leftarrow> bm_clear (OSTCBY t) (OSTCBBitX t) (OSTCBBitY t) (rdy s);
     let s = set_rdy r s;
     s \<leftarrow> (case OSTCBEventPtr (TCB s i) of None \<Rightarrow> Some s | Some e \<Rightarrow> OS_EventTaskRemove i e s);
     s \<leftarrow> (case OSTCBEventMultiPtr (TCB s i) of None \<Rightarrow> Some s | Some es \<Rightarrow> OS_EventTaskRemoveMulti i es s);
     s \<leftarrow> (case OSTCBFlagNode (TCB s i) of None \<Rightarrow> Some s | Some n \<Rightarrow> OS_FlagUnlink n s);
     Some (set_tcb i (\<lambda>t. t\<lparr> OSTCBDly := 0, OSTCBStat := OS_STAT_RDY, OSTCBStatPend := OS_STAT_PEND_OK \<rparr>) s)
   }"

definition OSTaskDel :: "INT8U \<Rightarrow> os_state \<Rightarrow> (INT8U \<times> os_state) option" where
  "OSTaskDel prio s =
     (if OSIntNesting s > 0 then Some (OS_ERR_TASK_DEL_ISR, s)
      else if prio = OS_TASK_IDLE_PRIO then Some (OS_ERR_TASK_DEL_IDLE, s)
      else if unat prio \<ge> OS_LOWEST_PRIO \<and> prio \<noteq> OS_PRIO_SELF then Some (OS_ERR_PRIO_INVALID, s)
      else do {
        prio \<leftarrow> named_prio prio s;
        ptcb \<leftarrow> array_get (OSTCBPrioTbl s) (unat prio);
        (case ptcb of
           TCB_NULL \<Rightarrow> Some (OS_ERR_TASK_NOT_EXIST, s)
         | TCB_RESERVED \<Rightarrow> Some (OS_ERR_TASK_DEL, s)
         | TCB_AT i \<Rightarrow> do {
             s \<leftarrow> stop_task i s;
             let s = (if OSLockNesting s < 255 then s\<lparr> OSLockNesting := OSLockNesting s + 1 \<rparr> else s);
             let s = (if OSLockNesting s > 0 then s\<lparr> OSLockNesting := OSLockNesting s - 1 \<rparr> else s);
             let s = s\<lparr> OSTaskCtr := OSTaskCtr s - 1 \<rparr>;
             s \<leftarrow> set_prio_tbl prio TCB_NULL s;
             s \<leftarrow> unlink_tcb i s;
             s \<leftarrow> (if OSRunning s = OS_TRUE then OS_Sched s else Some s);
             Some (OS_ERR_NONE, s)
           })
      })"

definition OSTaskDelReq :: "INT8U \<Rightarrow> os_state \<Rightarrow> (INT8U \<times> os_state) option" where
  "OSTaskDelReq prio s =
     (if prio = OS_TASK_IDLE_PRIO then Some (OS_ERR_TASK_DEL_IDLE, s)
      else if unat prio \<ge> OS_LOWEST_PRIO \<and> prio \<noteq> OS_PRIO_SELF then Some (OS_ERR_PRIO_INVALID, s)
      else if prio = OS_PRIO_SELF then do {
        i \<leftarrow> tcb_index (OSTCBCur s);
        Some (OSTCBDelReq (TCB s i), s)
      }
      else do {
        ptcb \<leftarrow> array_get (OSTCBPrioTbl s) (unat prio);
        (case ptcb of
           TCB_NULL \<Rightarrow> Some (OS_ERR_TASK_NOT_EXIST, s)
         | TCB_RESERVED \<Rightarrow> Some (OS_ERR_TASK_DEL, s)
         | TCB_AT i \<Rightarrow> Some (OS_ERR_NONE, set_tcb i (\<lambda>t. t\<lparr> OSTCBDelReq := OS_ERR_TASK_DEL_REQ \<rparr>) s))
      })"

section \<open>Priority change\<close>

text \<open>The bit of one priority in a bitmap is replaced by that of another.\<close>

definition bm_move :: "OS_TCB \<Rightarrow> INT8U \<Rightarrow> prio_bitmap \<Rightarrow> prio_bitmap option" where
  "bm_move t newprio b = do {
     b \<leftarrow> bm_clear (OSTCBY t) (OSTCBBitX t) (OSTCBBitY t) b;
     bm_set (prio_y newprio) (prio_bitx newprio) (prio_bity newprio) b
   }"

fun move_in_events :: "OS_TCB \<Rightarrow> INT8U \<Rightarrow> nat list \<Rightarrow> os_state \<Rightarrow> os_state option" where
  "move_in_events t newprio [] s = Some s"
| "move_in_events t newprio (e # es) s = do {
     b \<leftarrow> bm_move t newprio (waiters e s);
     move_in_events t newprio es (set_waiters e b s)
   }"

definition OSTaskChangePrio :: "INT8U \<Rightarrow> INT8U \<Rightarrow> os_state \<Rightarrow> (INT8U \<times> os_state) option" where
  "OSTaskChangePrio oldprio newprio s =
     (if unat oldprio \<ge> OS_LOWEST_PRIO \<and> oldprio \<noteq> OS_PRIO_SELF then Some (OS_ERR_PRIO_INVALID, s)
      else if unat newprio \<ge> OS_LOWEST_PRIO then Some (OS_ERR_PRIO_INVALID, s)
      else do {
        p \<leftarrow> array_get (OSTCBPrioTbl s) (unat newprio);
        if p \<noteq> TCB_NULL then Some (OS_ERR_PRIO_EXIST, s)
        else do {
          oldprio \<leftarrow> named_prio oldprio s;
          ptcb \<leftarrow> array_get (OSTCBPrioTbl s) (unat oldprio);
          (case ptcb of
             TCB_NULL \<Rightarrow> Some (OS_ERR_PRIO, s)
           | TCB_RESERVED \<Rightarrow> Some (OS_ERR_TASK_NOT_EXIST, s)
           | TCB_AT i \<Rightarrow> do {
               s \<leftarrow> set_prio_tbl oldprio TCB_NULL s;
               s \<leftarrow> set_prio_tbl newprio (TCB_AT i) s;
               let t = TCB s i;
               row \<leftarrow> array_get (OSRdyTbl s) (unat (OSTCBY t));
               s \<leftarrow> (if row AND OSTCBBitX t \<noteq> 0
                    then do { b \<leftarrow> bm_move t newprio (rdy s); Some (set_rdy b s) } else Some s);
               s \<leftarrow> (case OSTCBEventPtr t of None \<Rightarrow> Some s
                    | Some e \<Rightarrow> do { b \<leftarrow> bm_move t newprio (waiters e s); Some (set_waiters e b s) });
               s \<leftarrow> (case OSTCBEventMultiPtr t of None \<Rightarrow> Some s | Some es \<Rightarrow> move_in_events t newprio es s);
               let s = set_tcb i (with_prio newprio) s;
               s \<leftarrow> (if OSRunning s = OS_TRUE then OS_Sched s else Some s);
               Some (OS_ERR_NONE, s)
             })
        }
      })"

section \<open>Suspension\<close>

definition OSTaskSuspend :: "INT8U \<Rightarrow> os_state \<Rightarrow> (INT8U \<times> os_state) option" where
  "OSTaskSuspend prio s =
     (if prio = OS_TASK_IDLE_PRIO then Some (OS_ERR_TASK_SUSPEND_IDLE, s)
      else if unat prio \<ge> OS_LOWEST_PRIO \<and> prio \<noteq> OS_PRIO_SELF then Some (OS_ERR_PRIO_INVALID, s)
      else do {
        c \<leftarrow> tcb_index (OSTCBCur s);
        let self = (prio = OS_PRIO_SELF \<or> prio = OSTCBPrio (TCB s c));
        prio \<leftarrow> named_prio prio s;
        ptcb \<leftarrow> array_get (OSTCBPrioTbl s) (unat prio);
        (case ptcb of
           TCB_NULL \<Rightarrow> Some (OS_ERR_TASK_SUSPEND_PRIO, s)
         | TCB_RESERVED \<Rightarrow> Some (OS_ERR_TASK_NOT_EXIST, s)
         | TCB_AT i \<Rightarrow> do {
             let t = TCB s i;
             r \<leftarrow> bm_clear (OSTCBY t) (OSTCBBitX t) (OSTCBBitY t) (rdy s);
             let s = set_rdy r s;
             let s = set_tcb i (\<lambda>t. t\<lparr> OSTCBStat := OSTCBStat t OR OS_STAT_SUSPEND \<rparr>) s;
             s \<leftarrow> (if self then OS_Sched s else Some s);
             Some (OS_ERR_NONE, s)
           })
      })"

definition OSTaskResume :: "INT8U \<Rightarrow> os_state \<Rightarrow> (INT8U \<times> os_state) option" where
  "OSTaskResume prio s =
     (if unat prio \<ge> OS_LOWEST_PRIO then Some (OS_ERR_PRIO_INVALID, s)
      else do {
        ptcb \<leftarrow> array_get (OSTCBPrioTbl s) (unat prio);
        (case ptcb of
           TCB_NULL \<Rightarrow> Some (OS_ERR_TASK_RESUME_PRIO, s)
         | TCB_RESERVED \<Rightarrow> Some (OS_ERR_TASK_NOT_EXIST, s)
         | TCB_AT i \<Rightarrow>
             if OSTCBStat (TCB s i) AND OS_STAT_SUSPEND \<noteq> OS_STAT_RDY then
               let s = set_tcb i (\<lambda>t. t\<lparr> OSTCBStat := OSTCBStat t AND NOT OS_STAT_SUSPEND \<rparr>) s; t = TCB s i in
               if OSTCBStat t = OS_STAT_RDY then
                 if OSTCBDly t = 0 then do {
                   b \<leftarrow> bm_set (OSTCBY t) (OSTCBBitX t) (OSTCBBitY t) (rdy s);
                   let s = set_rdy b s;
                   s \<leftarrow> (if OSRunning s = OS_TRUE then OS_Sched s else Some s);
                   Some (OS_ERR_NONE, s)
                 }
                 else Some (OS_ERR_NONE, s)
               else Some (OS_ERR_NONE, s)
             else Some (OS_ERR_TASK_NOT_SUSPENDED, s))
      })"

section \<open>Inspection\<close>

record OS_STK_DATA =
  OSFree :: INT32U
  OSUsed :: INT32U

text \<open>The number of zero words from an address upwards; no result where the memory is zero all round.\<close>

partial_function (option) count_zero :: "INT32U \<Rightarrow> INT32U \<Rightarrow> (INT32U \<Rightarrow> msg) \<Rightarrow> INT32U option" where
  "count_zero pchk nfree M = (if M pchk = 0 then count_zero (pchk + 4) (nfree + 1) M else Some nfree)"

definition OSTaskStkChk ::
  "INT8U \<Rightarrow> OS_STK_DATA option \<Rightarrow> os_state \<Rightarrow> (INT8U \<times> OS_STK_DATA option) option" where
  "OSTaskStkChk prio p_stk_data s =
     (if unat prio > OS_LOWEST_PRIO \<and> prio \<noteq> OS_PRIO_SELF then Some (OS_ERR_PRIO_INVALID, p_stk_data)
      else case p_stk_data of None \<Rightarrow> Some (OS_ERR_PDATA_NULL, p_stk_data)
      | Some d \<Rightarrow> do {
          let d = d\<lparr> OSFree := 0, OSUsed := 0 \<rparr>;
          prio \<leftarrow> named_prio prio s;
          ptcb \<leftarrow> array_get (OSTCBPrioTbl s) (unat prio);
          (case ptcb of
             TCB_AT i \<Rightarrow>
               if OSTCBOpt (TCB s i) AND OS_TASK_OPT_STK_CHK = 0 then Some (OS_ERR_TASK_OPT, Some d)
               else do {
                 nfree \<leftarrow> count_zero (OSTCBStkBottom (TCB s i)) 0 (storage s);
                 Some (OS_ERR_NONE, Some (d\<lparr> OSFree := nfree * 4, OSUsed := (OSTCBStkSize (TCB s i) - nfree) * 4 \<rparr>))
               }
           | _ \<Rightarrow> Some (OS_ERR_TASK_NOT_EXIST, Some d))
        })"

definition OSTaskQuery :: "INT8U \<Rightarrow> OS_TCB option \<Rightarrow> os_state \<Rightarrow> (INT8U \<times> OS_TCB option) option" where
  "OSTaskQuery prio p_task_data s =
     (if unat prio > OS_LOWEST_PRIO \<and> prio \<noteq> OS_PRIO_SELF then Some (OS_ERR_PRIO_INVALID, p_task_data)
      else case p_task_data of None \<Rightarrow> Some (OS_ERR_PDATA_NULL, p_task_data)
      | Some d \<Rightarrow> do {
          prio \<leftarrow> named_prio prio s;
          ptcb \<leftarrow> array_get (OSTCBPrioTbl s) (unat prio);
          (case ptcb of
             TCB_NULL \<Rightarrow> Some (OS_ERR_PRIO, p_task_data)
           | TCB_RESERVED \<Rightarrow> Some (OS_ERR_TASK_NOT_EXIST, p_task_data)
           | TCB_AT i \<Rightarrow> Some (OS_ERR_NONE, Some (TCB s i)))
        })"

end
