(* ===== verification/Task_Admin.thy ===== *)
theory Task_Admin imports Os_Task begin

text \<open>
  Task administration keeps the kernel consistent. The theory adds the two lists of task control
  blocks to the kernel invariant (the doubly linked list of tasks, which ends with the idle task, and
  the free list) and shows what creation, suspension and resumption
  do to the tasks, the ready list and the wait lists; a change of priority is in \<open>Task_Prio\<close>.
\<close>

section \<open>The lists of control blocks\<close>

fun tcb_dlist :: "(nat \<Rightarrow> OS_TCB) \<Rightarrow> tcb_ptr \<Rightarrow> tcb_ptr \<Rightarrow> nat list \<Rightarrow> bool" where
  "tcb_dlist T pv p [] = (p = TCB_NULL)"
| "tcb_dlist T pv p (i # is) =
     (p = TCB_AT i \<and> OSTCBPrev (T i) = pv \<and> tcb_dlist T (TCB_AT i) (OSTCBNext (T i)) is)"

fun tcb_flist :: "(nat \<Rightarrow> OS_TCB) \<Rightarrow> tcb_ptr \<Rightarrow> nat list \<Rightarrow> bool" where
  "tcb_flist T p [] = (p = TCB_NULL)"
| "tcb_flist T p (i # is) = (p = TCB_AT i \<and> tcb_flist T (OSTCBNext (T i)) is)"

definition tcbs_ok :: "os_state \<Rightarrow> nat list \<Rightarrow> nat list \<Rightarrow> bool" where
  "tcbs_ok s is fs \<longleftrightarrow> tcb_dlist (TCB s) TCB_NULL (OSTCBList s) is \<and> tcb_flist (TCB s) (OSTCBFreeList s) fs \<and>
     distinct (is @ fs) \<and> (\<forall>i. i \<in> set is \<longleftrightarrow> (\<exists>p. task_at s p i)) \<and> (is \<noteq> [] \<longrightarrow> task_at s 20 (last is))"

text \<open>The kernel invariant without the idle task, for the time before it is created.\<close>

definition kernel_wf :: "os_state \<Rightarrow> bool" where
  "kernel_wf s \<longleftrightarrow>
     length (OSTCBPrioTbl s) = OS_LOWEST_PRIO + 1 \<and>
     bm_ok (rdy s) \<and> (\<forall>e. bm_ok (waiters e s)) \<and>
     (\<forall>p i. task_at s p i \<longrightarrow> task_ok s p (TCB s i)) \<and>
     (\<forall>p. p \<in> ready_set s \<or> (\<exists>e. p \<in> wait_set e s) \<longrightarrow> (\<exists>i. task_at s p i))"

lemma kernel_ok_wf: "kernel_ok s \<longleftrightarrow> kernel_wf s \<and> OS_LOWEST_PRIO \<in> ready_set s"
  by (auto simp: kernel_ok_def kernel_wf_def)

lemma tcb_dlist_cong:
  "(\<And>i. i \<in> set is \<Longrightarrow> OSTCBPrev (T' i) = OSTCBPrev (T i) \<and> OSTCBNext (T' i) = OSTCBNext (T i)) \<Longrightarrow>
     tcb_dlist T' pv p is = tcb_dlist T pv p is"
  by (induction "is" arbitrary: pv p) auto

lemma tcb_flist_cong:
  "(\<And>i. i \<in> set is \<Longrightarrow> OSTCBNext (T' i) = OSTCBNext (T i)) \<Longrightarrow> tcb_flist T' p is = tcb_flist T p is"
  by (induction "is" arbitrary: p) auto


text \<open>The list the clock tick walks is this list.\<close>

lemma tcb_dlist_chain:
  assumes "tcb_dlist T pv p is" "is \<noteq> []"
    and "OSTCBPrio (T (last is)) = 20" "\<forall>i \<in> set (butlast is). OSTCBPrio (T i) \<noteq> 20"
  shows "tcb_chain T p is"
  using assms
proof (induction "is" arbitrary: pv p)
  case (Cons i "is")
  then show ?case by (cases "is = []") auto
qed simp

lemma tcbs_list_ok:
  assumes ok: "kernel_ok s" and l: "tcbs_ok s is fs"
  shows "list_ok s"
proof -
  have d: "tcb_dlist (TCB s) TCB_NULL (OSTCBList s) is" "distinct is" "\<forall>i. i \<in> set is \<longleftrightarrow> (\<exists>p. task_at s p i)"
    "is \<noteq> [] \<longrightarrow> task_at s 20 (last is)" using l by (auto simp: tcbs_ok_def)
  obtain j where j: "task_at s 20 j" using kernel_okD(5,7) [OF ok] by blast
  then have ne: "is \<noteq> []" using d(3) by fastforce
  then have "task_at s 20 (last is)" using d(4) by blast
  then have "unat (OSTCBPrio (TCB s (last is))) = 20" by (rule task_at_prio [OF ok])
  then have last: "OSTCBPrio (TCB s (last is)) = 20" by (simp add: word_unat_eq_iff)
  have "OSTCBPrio (TCB s i) \<noteq> 20" if i: "i \<in> set (butlast is)" for i
  proof
    assume p: "OSTCBPrio (TCB s i) = 20"
    obtain q where q: "task_at s q i" using d(3) in_set_butlastD [OF i] by blast
    then have "q = 20" using task_at_prio [OF ok q] p by simp
    then have "i = last is" using task_at_fun q \<open>task_at s 20 (last is)\<close> by blast
    moreover have "is = butlast is @ [last is]" using ne by simp
    ultimately show False using i d(2) by (metis distinct_append list.set_intros(1) disjoint_iff)
  qed
  then have "tcb_chain (TCB s) (OSTCBList s) is" by (intro tcb_dlist_chain [OF d(1) ne last]) blast
  then show ?thesis using d(2,3) by (auto simp: list_ok_def)
qed

section \<open>Creation\<close>

lemma masks_ok_with_prio [simp]: "masks_ok p (with_prio prio t) \<longleftrightarrow> unat prio = p"
  by (auto simp: masks_ok_def with_prio_def)

lemma new_tcb_fields [simp]:
  "OSTCBStat (new_tcb prio ptos pbos tid sz pext opt t) = OS_STAT_RDY" "OSTCBDly (new_tcb prio ptos pbos tid sz pext opt t) = 0"
  "OSTCBEventPtr (new_tcb prio ptos pbos tid sz pext opt t) = None"
  "OSTCBEventMultiPtr (new_tcb prio ptos pbos tid sz pext opt t) = None"
  "OSTCBPrio (new_tcb prio ptos pbos tid sz pext opt t) = prio" "OSTCBY (new_tcb prio ptos pbos tid sz pext opt t) = prio_y prio"
  "OSTCBX (new_tcb prio ptos pbos tid sz pext opt t) = prio_x prio" "OSTCBBitX (new_tcb prio ptos pbos tid sz pext opt t) = prio_bitx prio"
  "OSTCBBitY (new_tcb prio ptos pbos tid sz pext opt t) = prio_bity prio"
  "OSTCBStkPtr (new_tcb prio ptos pbos tid sz pext opt t) = ptos" "OSTCBStkBottom (new_tcb prio ptos pbos tid sz pext opt t) = pbos"
  "OSTCBStkSize (new_tcb prio ptos pbos tid sz pext opt t) = sz" "OSTCBId (new_tcb prio ptos pbos tid sz pext opt t) = tid"
  "length (OSTCBTaskName (new_tcb prio ptos pbos tid sz pext opt t)) = length (OSTCBTaskName t)"
  "OSTCBOpt (new_tcb prio ptos pbos tid sz pext opt t) = opt" "OSTCBFlagNode (new_tcb prio ptos pbos tid sz pext opt t) = None"
  by (simp_all add: new_tcb_def tcb_name_unknown_def with_prio_def)

text \<open>What a creation leaves alone.\<close>

definition create_frame :: "os_state \<Rightarrow> os_state \<Rightarrow> bool" where
  "create_frame s s' \<longleftrightarrow> ECB s' = ECB s \<and> OSIntNesting s' = OSIntNesting s \<and> OSLockNesting s' = OSLockNesting s \<and>
     OSRunning s' = OSRunning s \<and> OSTCBCur s' = OSTCBCur s \<and> OSPrioCur s' = OSPrioCur s \<and> QCB s' = QCB s \<and>
     OSEventFreeList s' = OSEventFreeList s \<and> OSQFreeList s' = OSQFreeList s \<and>
     OSTickStepState s' = OSTickStepState s \<and> OSStatRdy s' = OSStatRdy s"

lemma tcbs_ok_head: "tcbs_ok s is fs \<Longrightarrow>
    OSTCBList s = (case is of [] \<Rightarrow> TCB_NULL | j # js \<Rightarrow> TCB_AT j) \<and>
    OSTCBFreeList s = (case fs of [] \<Rightarrow> TCB_NULL | j # js \<Rightarrow> TCB_AT j)"
  by (cases "is"; cases fs) (simp_all add: tcbs_ok_def)

lemma OS_TCBInit_ok:
  assumes wf: "kernel_wf s" and l: "tcbs_ok s is (i # fs)" and p: "unat prio \<le> 20"
    and free: "\<And>j. OSTCBPrioTbl s ! unat prio \<noteq> TCB_AT j" and idle: "is = [] \<Longrightarrow> prio = 20"
  shows "\<exists>s'. OS_TCBInit prio ptos pbos tid sz pext opt s = Some (OS_ERR_NONE, s') \<and> kernel_wf s' \<and>
     tcbs_ok s' (i # is) fs \<and> create_frame s s' \<and> ready_set s' = insert (unat prio) (ready_set s) \<and>
     OSTaskCtr s' = OSTaskCtr s + 1 \<and> storage s' = storage s \<and>
     (\<forall>q j. task_at s' q j \<longleftrightarrow> (if q = unat prio then j = i else task_at s q j)) \<and>
     OSTCBStkPtr (TCB s' i) = ptos \<and> OSTCBId (TCB s' i) = tid \<and>
     length (OSTCBTaskName (TCB s' i)) = length (OSTCBTaskName (TCB s i)) \<and> (\<forall>j \<in> set fs. TCB s' j = TCB s j) \<and>
     OSTCBPrioTbl s' = (OSTCBPrioTbl s)[unat prio := TCB_AT i]"
proof -
  let ?p = "unat prio"
  have len: "length (OSTCBPrioTbl s) = 21" and bm: "bm_ok (rdy s)" "\<And>e. bm_ok (waiters e s)"
    using wf by (simp_all add: kernel_wf_def)
  have nat: "\<not> task_at s ?p j" for j using free by (simp add: task_at_def)
  have pr: "?p \<notin> ready_set s" "?p \<notin> wait_set e s" for e using wf nat unfolding kernel_wf_def by blast+
  note hd = tcbs_ok_head [OF l]
  have ii: "i \<notin> set is" "i \<notin> set fs" "distinct is" "distinct fs" "set is \<inter> set fs = {}"
    using l by (auto simp: tcbs_ok_def)
  define t where "t = (new_tcb prio ptos pbos tid sz pext opt (TCB s i))\<lparr> OSTCBNext := OSTCBList s, OSTCBPrev := TCB_NULL \<rparr>"
  define T where "T = (case is of [] \<Rightarrow> (TCB s)(i := t) | j # js \<Rightarrow> (TCB s)(i := t, j := (TCB s j)\<lparr> OSTCBPrev := TCB_AT i \<rparr>))"
  have Ti: "T i = t" using ii(1) by (auto simp: T_def split: list.splits)
  obtain b where b: "bm_set (prio_y prio) (prio_bitx prio) (prio_bity prio) (rdy s) = Some b" "bm_ok b"
    "bm_elems b = insert ?p (bm_elems (rdy s))"
    using bm_set_spec [OF bm(1), of prio] p by auto
  define s' where "s' = s\<lparr> OSTCBFreeList := OSTCBNext (TCB s i), TCB := T, OSTCBPrioTbl := (OSTCBPrioTbl s)[?p := TCB_AT i],
     OSTCBList := TCB_AT i, OSRdyGrp := fst b, OSRdyTbl := snd b, OSTaskCtr := OSTaskCtr s + 1 \<rparr>"
  have init: "OS_TCBInit prio ptos pbos tid sz pext opt s = Some (OS_ERR_NONE, s')"
  proof (cases "is")
    case Nil
    then show ?thesis using hd p len b(1)
      by (simp add: OS_TCBInit_def set_prio_tbl_def set_tcb_def set_rdy_def rdy_def s'_def T_def t_def Let_def)
  next
    case (Cons j js)
    then have "j \<noteq> i" using ii(1) by auto
    then show ?thesis using Cons hd p len b(1)
      by (simp add: OS_TCBInit_def set_prio_tbl_def set_tcb_def set_rdy_def rdy_def s'_def T_def t_def Let_def fun_upd_twist)
  qed
  have at: "task_at s' q j \<longleftrightarrow> (if q = ?p then j = i else task_at s q j)" for q j
    using len p by (auto simp: task_at_def s'_def nth_list_update)
  have len': "length (OSTCBPrioTbl s') = 21" using len by (simp add: s'_def)
  have list': "OSTCBList s' = TCB_AT i" by (simp add: s'_def)
  have r: "rdy s' = b" "waiters e s' = waiters e s" "ECB s' = ECB s" "TCB s' = T" for e
    by (simp_all add: s'_def rdy_def waiters_def)
  have sets: "ready_set s' = insert ?p (ready_set s)" "wait_set e s' = wait_set e s" for e
    using b(3) by (simp_all add: ready_set_def wait_set_def r)
  have "task_ok s' q (TCB s' j)" if "task_at s' q j" for q j
  proof (cases "q = ?p")
    case True
    then have "j = i" using that at by simp
    then show ?thesis using True pr
      by (simp add: task_ok_def r(4) Ti t_def sets masks_ok_def runnable_def)
  next
    case False
    then have a: "task_at s q j" using that at by simp
    then have "j \<in> set is" using l by (auto simp: tcbs_ok_def)
    then have "j \<noteq> i" using ii(1) by blast
    then have "\<exists>pv. T j = (TCB s j)\<lparr> OSTCBPrev := pv \<rparr>"
      by (auto simp: T_def split: list.splits intro: exI [of _ "OSTCBPrev (TCB s j)"])
    then obtain pv where pv: "T j = (TCB s j)\<lparr> OSTCBPrev := pv \<rparr>" by blast
    have "task_ok s q (TCB s j)" using wf a by (simp add: kernel_wf_def)
    then show ?thesis using False
      by (simp add: task_ok_def r(3,4) pv sets masks_ok_def runnable_def)
  qed
  moreover have "\<exists>j. task_at s' q j" if "q \<in> ready_set s' \<or> (\<exists>e. q \<in> wait_set e s')" for q
  proof (cases "q = ?p")
    case False
    then have "\<exists>j. task_at s q j" using that wf unfolding kernel_wf_def sets by blast
    then show ?thesis using at False by simp
  qed (simp add: at)
  ultimately have wf': "kernel_wf s'"
    using b(2) bm(2) unfolding kernel_wf_def by (simp add: r(1,2) len')
  have dl: "tcb_dlist (TCB s) TCB_NULL (OSTCBList s) is" "tcb_flist (TCB s) (OSTCBNext (TCB s i)) fs"
    using l by (auto simp: tcbs_ok_def)
  have "tcb_dlist T (TCB_AT i) (OSTCBList s) is"
  proof (cases "is")
    case Nil
    then show ?thesis using dl by simp
  next
    case (Cons j js)
    have "tcb_dlist T (TCB_AT j) (OSTCBNext (TCB s j)) js = tcb_dlist (TCB s) (TCB_AT j) (OSTCBNext (TCB s j)) js"
      using ii(1,3) Cons by (intro tcb_dlist_cong) (auto simp: T_def)
    moreover have "OSTCBNext (T j) = OSTCBNext (TCB s j)" "OSTCBPrev (T j) = TCB_AT i"
      using ii(1) Cons by (auto simp: T_def)
    ultimately show ?thesis using dl Cons by simp
  qed
  moreover have "tcb_flist T (OSTCBNext (TCB s i)) fs = tcb_flist (TCB s) (OSTCBNext (TCB s i)) fs"
    using ii(2,5) by (intro tcb_flist_cong) (auto simp: T_def split: list.splits)
  ultimately have "tcb_dlist T TCB_NULL (TCB_AT i) (i # is)" "tcb_flist T (OSTCBFreeList s') fs"
    using dl by (simp_all add: Ti t_def s'_def)
  moreover have "task_at s' 20 (last (i # is))"
  proof (cases "is = []")
    case True
    then show ?thesis using idle at by simp
  next
    case False
    then have "task_at s 20 (last is)" using l by (simp add: tcbs_ok_def)
    then show ?thesis using False at nat by auto
  qed
  moreover have "j \<in> set (i # is) \<longleftrightarrow> (\<exists>q. task_at s' q j)" for j
  proof -
    have "j \<in> set is \<longleftrightarrow> (\<exists>q. task_at s q j)" using l by (simp add: tcbs_ok_def)
    then show ?thesis using at nat by auto metis+
  qed
  ultimately have "tcbs_ok s' (i # is) fs"
    using ii unfolding tcbs_ok_def r list' by auto
  moreover have "TCB s' j = TCB s j" if "j \<in> set fs" for j
    using that ii(2,5) by (auto simp: r(4) T_def split: list.splits)
  ultimately show ?thesis
    using init wf' at sets by (intro exI [of _ s']) (simp add: create_frame_def, simp add: s'_def Ti t_def)
qed

lemma kernel_wf_same:
  assumes "task_at s' = task_at s" "rdy s' = rdy s" "ECB s' = ECB s" "TCB s' = TCB s"
    "length (OSTCBPrioTbl s') = length (OSTCBPrioTbl s)"
  shows "kernel_wf s' = kernel_wf s" "ready_set s' = ready_set s" "wait_set e s' = wait_set e s"
proof -
  have w: "waiters e s' = waiters e s" for e by (simp add: waiters_def assms)
  show sets: "ready_set s' = ready_set s" "wait_set e s' = wait_set e s" for e
    by (simp_all add: ready_set_def wait_set_def w assms)
  show "kernel_wf s' = kernel_wf s"
    unfolding kernel_wf_def by (simp add: assms w sets task_ok_def)
qed

text \<open>Creation up to the scheduler.\<close>

lemma create_step:
  assumes wf: "kernel_wf s" and l: "tcbs_ok s is (i # fs)" and p: "unat prio \<le> 20"
    and free: "OSTCBPrioTbl s ! unat prio = TCB_NULL" and idle: "is = [] \<Longrightarrow> prio = 20" and lvl: "OSIntNesting s = 0"
  shows "\<exists>s1. OSTaskCreateExt port task arg ptos prio tid pbos sz pext opt s =
         do { s' \<leftarrow> (if OSRunning s = OS_TRUE then OS_Sched s1 else Some s1); Some (OS_ERR_NONE, s') } \<and>
     kernel_wf s1 \<and> tcbs_ok s1 (i # is) fs \<and> create_frame s s1 \<and> ready_set s1 = insert (unat prio) (ready_set s) \<and>
     OSTaskCtr s1 = OSTaskCtr s + 1 \<and>
     (\<forall>q j. task_at s1 q j \<longleftrightarrow> (if q = unat prio then j = i else task_at s q j)) \<and> OSTCBId (TCB s1 i) = tid \<and>
     length (OSTCBTaskName (TCB s1 i)) = length (OSTCBTaskName (TCB s i)) \<and> (\<forall>j \<in> set fs. TCB s1 j = TCB s j) \<and>
     OSTCBPrioTbl s1 = (OSTCBPrioTbl s)[unat prio := TCB_AT i]"
proof -
  have len: "length (OSTCBPrioTbl s) = 21" using wf by (simp add: kernel_wf_def)
  obtain psp M where stk: "OSTaskStkInit port task arg ptos (OS_TaskStkClr pbos sz opt (storage s)) = (psp, M)"
    by fastforce
  define s0 where "s0 = s\<lparr> OSTCBPrioTbl := (OSTCBPrioTbl s)[unat prio := TCB_RESERVED], storage := M \<rparr>"
  have at: "task_at s0 = task_at s"
    using len p free by (auto simp: task_at_def s0_def nth_list_update fun_eq_iff)
  have same: "rdy s0 = rdy s" "ECB s0 = ECB s" "TCB s0 = TCB s" "length (OSTCBPrioTbl s0) = length (OSTCBPrioTbl s)"
    by (simp_all add: s0_def rdy_def)
  note sets = kernel_wf_same [OF at same]
  have wf0: "kernel_wf s0" using wf sets by simp
  have lists: "OSTCBList s0 = OSTCBList s" "OSTCBFreeList s0 = OSTCBFreeList s" by (simp_all add: s0_def)
  have l0: "tcbs_ok s0 is (i # fs)" using l unfolding tcbs_ok_def at same lists .
  have "OSTCBPrioTbl s0 ! unat prio \<noteq> TCB_AT j" for j using len p by (simp add: s0_def)
  from OS_TCBInit_ok [OF wf0 l0 p this idle] obtain s1 where
    s1: "OS_TCBInit prio psp pbos tid sz pext opt s0 = Some (OS_ERR_NONE, s1)" "kernel_wf s1" "tcbs_ok s1 (i # is) fs"
      "create_frame s0 s1" "ready_set s1 = insert (unat prio) (ready_set s0)" "OSTaskCtr s1 = OSTaskCtr s0 + 1"
      "\<forall>q j. task_at s1 q j \<longleftrightarrow> (if q = unat prio then j = i else task_at s0 q j)" "OSTCBId (TCB s1 i) = tid"
      "length (OSTCBTaskName (TCB s1 i)) = length (OSTCBTaskName (TCB s0 i))" "\<forall>j \<in> set fs. TCB s1 j = TCB s0 j"
      "OSTCBPrioTbl s1 = (OSTCBPrioTbl s0)[unat prio := TCB_AT i]"
    by blast
  have "OSTCBPrioTbl s1 = (OSTCBPrioTbl s)[unat prio := TCB_AT i]" using s1(11) by (simp add: s0_def)
  moreover
  have fr: "create_frame s s1" using s1(4) by (simp add: create_frame_def s0_def)
  have "OSRunning s1 = OSRunning s" using fr by (simp add: create_frame_def)
  then have "OSTaskCreateExt port task arg ptos prio tid pbos sz pext opt s =
      do { s' \<leftarrow> (if OSRunning s = OS_TRUE then OS_Sched s1 else Some s1); Some (OS_ERR_NONE, s') }"
    using p len free lvl stk s1(1)
    by (simp add: OSTaskCreateExt_def set_prio_tbl_def finish_create_def s0_def)
  moreover have "OSTaskCtr s0 = OSTaskCtr s" by (simp add: s0_def)
  ultimately show ?thesis using s1 fr at sets(2) same(3) by (intro exI [of _ s1]) simp
qed

lemma tcbs_ok_switch:
  assumes "switch_frame s s'"
  shows "tcbs_ok s' is fs = tcbs_ok s is fs"
proof -
  have t: "OSTCBPrev (TCB s' i) = OSTCBPrev (TCB s i)" for i
  proof -
    have "TCB s' i = (TCB s i)\<lparr> OSTCBCtxSwCtr := OSTCBCtxSwCtr (TCB s' i) \<rparr>"
      using assms unfolding switch_frame_def by blast
    then show ?thesis by (cases "TCB s i"; cases "TCB s' i"; simp)
  qed
  have "OSTCBFreeList s' = OSTCBFreeList s" using assms by (cases s; cases s'; simp add: switch_frame_def)
  then show ?thesis
    using tcb_dlist_cong [of "is" "TCB s'" "TCB s"] tcb_flist_cong [of fs "TCB s'" "TCB s"]
    by (simp add: tcbs_ok_def t switch_frame_task [OF assms] switch_frame_sets [OF assms])
qed

text \<open>Creating a task from a running task adds exactly that task: with a free control block and an unused
  priority it becomes ready, the lists and the kernel stay consistent, and the highest priority task runs
  (the new one if it is the highest); a priority in use is refused and nothing changes; so is a creation when every
  control block is taken.\<close>

theorem task_create_adds:
  assumes ok: "kernel_ok s" "cur_ok s" and l: "tcbs_ok s is fs" and p: "unat prio \<le> 20"
    and lvl: "OSIntNesting s = 0" "OSLockNesting s = 0" and run: "OSRunning s = OS_TRUE"
  shows "case OSTCBPrioTbl s ! unat prio of
      TCB_NULL \<Rightarrow> (\<exists>err s'. OSTaskCreateExt port task arg ptos prio tid pbos sz pext opt s = Some (err, s') \<and>
        (case fs of
           [] \<Rightarrow> err = OS_ERR_TASK_NO_MORE_TCB \<and> OSTCBPrioTbl s' = OSTCBPrioTbl s \<and> TCB s' = TCB s \<and> rdy s' = rdy s
         | i # js \<Rightarrow> err = OS_ERR_NONE \<and> kernel_ok s' \<and> tcbs_ok s' (i # is) js \<and> highest_runs s' \<and>
             ready_set s' = insert (unat prio) (ready_set s) \<and> OSTaskCtr s' = OSTaskCtr s + 1 \<and>
             (\<forall>q j. task_at s' q j \<longleftrightarrow> (if q = unat prio then j = i else task_at s q j))))
    | _ \<Rightarrow> OSTaskCreateExt port task arg ptos prio tid pbos sz pext opt s = Some (OS_ERR_PRIO_EXIST, s)"
proof (cases "OSTCBPrioTbl s ! unat prio = TCB_NULL")
  case False
  have "length (OSTCBPrioTbl s) = 21" by (rule kernel_okD(1) [OF ok(1)])
  then show ?thesis using False p lvl(1) by (auto simp: OSTaskCreateExt_def split: tcb_ptr.split)
next
  case True
  have len: "length (OSTCBPrioTbl s) = 21" by (rule kernel_okD(1) [OF ok(1)])
  have wf: "kernel_wf s" "20 \<in> ready_set s" using ok(1) by (simp_all add: kernel_ok_wf)
  show ?thesis
  proof (cases fs)
    case Nil
    obtain psp M where stk: "OSTaskStkInit port task arg ptos (OS_TaskStkClr pbos sz opt (storage s)) = (psp, M)"
      by fastforce
    have "OSTCBFreeList s = TCB_NULL" using tcbs_ok_head [OF l] Nil by simp
    then have "OSTaskCreateExt port task arg ptos prio tid pbos sz pext opt s =
        Some (OS_ERR_TASK_NO_MORE_TCB, s\<lparr> storage := M, OSTCBPrioTbl := (OSTCBPrioTbl s)[unat prio := TCB_NULL] \<rparr>)"
      using len p True lvl(1) stk
      by (simp add: OSTaskCreateExt_def set_prio_tbl_def OS_TCBInit_def finish_create_def)
    moreover have "(OSTCBPrioTbl s)[unat prio := TCB_NULL] = OSTCBPrioTbl s" using True by (metis list_update_id)
    ultimately show ?thesis using True Nil by (simp add: rdy_def)
  next
    case (Cons i js)
    obtain k where "task_at s 20 k" using kernel_okD(5,7) [OF ok(1)] by blast
    then have "is \<noteq> []" using l by (fastforce simp: tcbs_ok_def)
    then obtain s1 where s1: "OSTaskCreateExt port task arg ptos prio tid pbos sz pext opt s =
        do { s' \<leftarrow> OS_Sched s1; Some (OS_ERR_NONE, s') }" "kernel_wf s1" "tcbs_ok s1 (i # is) js" "create_frame s s1"
      "ready_set s1 = insert (unat prio) (ready_set s)" "OSTaskCtr s1 = OSTaskCtr s + 1"
      "\<forall>q j. task_at s1 q j \<longleftrightarrow> (if q = unat prio then j = i else task_at s q j)"
      using create_step [OF wf(1) l [unfolded Cons] p True _ lvl(1), of port task arg ptos tid pbos sz pext opt] run by auto
    have k1: "kernel_ok s1" using s1(2,5) wf(2) by (simp add: kernel_ok_wf)
    have "unat (OSPrioCur s) \<noteq> unat prio" using ok(2) True by (auto simp: cur_ok_def task_at_def)
    then have c1: "cur_ok s1" using ok(2) s1(4,7) by (simp add: cur_ok_def create_frame_def)
    obtain s' where s': "OS_Sched s1 = Some s'" "switch_frame s1 s'" "kernel_ok s'" "highest_runs s'"
      using OS_Sched_ok [OF k1 c1] s1(4) lvl by (auto simp: create_frame_def)
    have "OSTaskCtr s' = OSTaskCtr s1" using s'(2) by (cases s1; cases s'; simp add: switch_frame_def)
    then show ?thesis
      using True Cons s1 s' switch_frame_sets [OF s'(2)] tcbs_ok_switch [OF s'(2)] by simp
  qed
qed


text \<open>The example kernel with one free control block.\<close>

definition example_free_os :: os_state where
  "example_free_os = set_tcb 4 (\<lambda>t. t\<lparr> OSTCBNext := TCB_NULL \<rparr>) (example_os\<lparr> OSTCBFreeList := TCB_AT 4 \<rparr>)"

lemma example_free:
  "kernel_ok example_free_os" "cur_ok example_free_os" "tcbs_ok example_free_os [3, 2, 1, 0] [4]"
  "OSIntNesting example_free_os = 0" "OSLockNesting example_free_os = 0" "OSRunning example_free_os = OS_TRUE"
  "OSTCBPrioTbl example_free_os = OSTCBPrioTbl example_os" "OSTCBCur example_free_os = TCB_AT 2"
  "ready_set example_free_os = {6, 20}" "task_at example_free_os = task_at example_os"
  "wait_set e example_free_os = wait_set e example_os" "i < 4 \<Longrightarrow> TCB example_free_os i = example_tcbs i"
proof -
  let ?s = example_free_os
  have same: "rdy ?s = rdy example_os" "ECB ?s = ECB example_os" "OSTCBPrioTbl ?s = OSTCBPrioTbl example_os"
    "OSTCBCur ?s = OSTCBCur example_os" "OSPrioCur ?s = OSPrioCur example_os" "OSTCBList ?s = OSTCBList example_os"
    "OSTCBFreeList ?s = TCB_AT 4" "TCB ?s = (TCB example_os)(4 := (TCB example_os 4)\<lparr> OSTCBNext := TCB_NULL \<rparr>)"
    "OSIntNesting ?s = 0" "OSLockNesting ?s = 0" "OSRunning ?s = OS_TRUE"
    by (simp_all add: example_free_os_def set_tcb_def rdy_def example_os_def)
  show "OSIntNesting ?s = 0" "OSLockNesting ?s = 0" "OSRunning ?s = OS_TRUE" "OSTCBPrioTbl ?s = OSTCBPrioTbl example_os"
    by (simp_all add: same)
  show "OSTCBCur ?s = TCB_AT 2" by (simp add: same)
  show at: "task_at ?s = task_at example_os" by (auto simp: task_at_def same fun_eq_iff)
  show w: "wait_set e ?s = wait_set e example_os" for e by (simp add: wait_set_def waiters_def same)
  show r: "ready_set ?s = {6, 20}" using example_sets(1) by (simp add: ready_set_def same)
  show "i < 4 \<Longrightarrow> TCB ?s i = example_tcbs i" by (simp add: same)
  have "task_ok ?s p (TCB ?s i)" if "task_at ?s p i" for p i
  proof -
    have "i \<noteq> 4" using that by (auto simp: at example_task_at)
    then show ?thesis using kernel_okD(4) [OF example_kernel_ok that [unfolded at]] example_sets(1)
      by (simp add: same task_ok_def r w)
  qed
  then show "kernel_ok ?s"
    using example_kernel_ok example_sets(1) unfolding kernel_ok_def by (simp add: same at r w waiters_def)
  show "cur_ok ?s" using example_cur_ok by (simp add: cur_ok_def at same)
  show "tcbs_ok ?s [3, 2, 1, 0] [4]"
    using example_task_at by (auto simp: tcbs_ok_def same at example_tcbs_def example_tcb_def)
qed

theorem task_create_adds_witness:
  "\<exists>s'. OSTaskCreateExt \<lparr> reent_size = 1000, reent_init = (\<lambda>a M. M), OSStartTsk = 64 \<rparr> 4096 0 90000 4 4 80000 1024 0 0
      example_free_os = Some (OS_ERR_NONE, s') \<and> kernel_ok s' \<and> unat (OSPrioCur s') = 4 \<and>
    OSTaskCreateExt \<lparr> reent_size = 1000, reent_init = (\<lambda>a M. M), OSStartTsk = 64 \<rparr> 4096 0 90000 5 5 80000 1024 0 0
      example_free_os = Some (OS_ERR_PRIO_EXIST, example_free_os)"
proof -
  let ?p = "\<lparr> reent_size = 1000, reent_init = (\<lambda>a M. M), OSStartTsk = 64 \<rparr> :: port"
  have t: "OSTCBPrioTbl example_free_os ! 4 = TCB_NULL" "OSTCBPrioTbl example_free_os ! 5 = TCB_AT 1"
    using example_task_at [of 5 1] unfolding example_free(7)
    by (simp_all add: task_at_def example_os_def nth_append)
  from task_create_adds [OF example_free(1-3) _ example_free(4-6), of 4 ?p 4096 0 90000 4 80000 1024 0 0] t(1)
  obtain s' where s': "OSTaskCreateExt ?p 4096 0 90000 4 4 80000 1024 0 0 example_free_os = Some (OS_ERR_NONE, s')"
    "kernel_ok s'" "highest_runs s'" "ready_set s' = {4, 6, 20}"
    by (auto simp: example_free(9))
  have "unat (OSPrioCur s') = 4" using s'(3,4) by (simp add: highest_runs_def)
  moreover have "OSTaskCreateExt ?p 4096 0 90000 5 5 80000 1024 0 0 example_free_os = Some (OS_ERR_PRIO_EXIST, example_free_os)"
    using task_create_adds [OF example_free(1-3) _ example_free(4-6), of 5 ?p 4096 0 90000 5 80000 1024 0 0] t(2) by simp
  ultimately show ?thesis using s'(1,2) by blast
qed

section \<open>Suspension\<close>

lemma status_suspend:
  fixes st :: INT8U
  shows "pend_bits (st OR 8) = pend_bits st" "(st OR 8) AND 0x17 = st AND 0x17" "(st OR 8) AND NOT 0x3F = st AND NOT 0x3F"
    "pend_bits (st AND NOT 8) = pend_bits st" "(st AND NOT 8) AND 0x17 = st AND 0x17"
    "st AND NOT 0x3F = 0 \<Longrightarrow> (st AND NOT 8) AND NOT 0x3F = 0" "(st OR 8) AND 8 \<noteq> 0" "st OR 8 \<noteq> 0" "(st AND NOT 8) AND 8 = 0"
    "st AND 8 = 0 \<Longrightarrow> (st OR 8) AND NOT 8 = st"
proof -
  show "pend_bits (st OR 8) = pend_bits st" "pend_bits (st AND NOT 8) = pend_bits st"
    by (simp_all add: pend_bits_def and.assoc bit.conj_disj_distrib2)
  show "(st OR 8) AND 0x17 = st AND 0x17" "(st OR 8) AND NOT 0x3F = st AND NOT 0x3F"
    by (simp_all add: bit.conj_disj_distrib2)
  show "(st AND NOT 8) AND 0x17 = st AND 0x17" "(st AND NOT 8) AND 8 = 0" by (simp_all add: and.assoc)
  show "(st AND NOT 8) AND NOT 0x3F = 0" if "st AND NOT 0x3F = 0"
    using that by (metis and.assoc and.commute and_zero_eq)
  show b: "(st OR 8) AND 8 \<noteq> 0" by (simp add: bit.conj_disj_distrib2 bit.disj_conj_distrib2)
  then show "st OR 8 \<noteq> 0" by (metis and.commute and_zero_eq)
  assume "st AND 8 = 0"
  have "(st OR 8) AND NOT 8 = (st AND NOT 8) OR (8 AND NOT 8)" by (rule bit.conj_disj_distrib2)
  also have "\<dots> = (st AND NOT 8) OR (st AND 8)" using \<open>st AND 8 = 0\<close> by (simp only: bit.conj_cancel_right)
  also have "\<dots> = st AND (NOT 8 OR 8)" by (rule bit.conj_disj_distrib [symmetric])
  also have "\<dots> = st" by (simp only: bit.disj_cancel_left bit.conj_one_right)
  finally show "(st OR 8) AND NOT 8 = st" .
qed

text \<open>A change of the suspension of one task.\<close>

lemma kernel_ok_suspension:
  assumes ok: "kernel_ok s" and at: "task_at s p i" and p: "p \<noteq> 20"
    and T: "TCB s' = (TCB s)(i := (TCB s i)\<lparr> OSTCBStat := st \<rparr>)" and same: "OSTCBPrioTbl s' = OSTCBPrioTbl s" "ECB s' = ECB s"
    and st: "st = OSTCBStat (TCB s i) OR 8 \<or> st = OSTCBStat (TCB s i) AND NOT 8"
    and bm: "bm_ok (rdy s')"
    and rd: "ready_set s' = (if st = 0 \<and> OSTCBDly (TCB s i) = 0 then insert p (ready_set s) else ready_set s - {p})"
  shows "kernel_ok s'"
proof -
  have w: "waiters e s' = waiters e s" "wait_set e s' = wait_set e s" "task_at s' = task_at s" for e
    by (auto simp: waiters_def wait_set_def task_at_def same fun_eq_iff)
  have tok: "task_ok s p (TCB s i)" by (rule kernel_okD(4) [OF ok at])
  have bits: "pend_bits st = pend_bits (OSTCBStat (TCB s i))" "st AND 0x17 = OSTCBStat (TCB s i) AND 0x17"
    "st AND NOT 0x3F = 0"
    using st status_suspend task_okD(2) [OF tok] by auto
  have "task_ok s' p (TCB s' i)"
    using task_okD(1,3,5,6,7,8) [OF tok] bits
    unfolding task_ok_def by (auto simp: T w rd same runnable_def masks_ok_def)
  then show ?thesis
    using at p bm kernel_okD(3) [OF ok] rd
    by (intro kernel_ok_update [OF ok at, of s']) (auto simp: T w same split: if_splits)
qed


lemma task_frame:
  assumes "s' = s\<lparr> TCB := T, OSRdyGrp := g, OSRdyTbl := r \<rparr>"
  shows "OSTCBPrioTbl s' = OSTCBPrioTbl s" "OSTCBCur s' = OSTCBCur s" "OSPrioCur s' = OSPrioCur s" "ECB s' = ECB s"
    "OSIntNesting s' = OSIntNesting s" "OSLockNesting s' = OSLockNesting s" "OSRunning s' = OSRunning s"
  by (simp_all add: assms)

lemma prio_self: "unat prio < 20 \<Longrightarrow> prio \<noteq> OS_PRIO_SELF" "unat prio < 20 \<Longrightarrow> prio \<noteq> OS_TASK_IDLE_PRIO"
  by (auto simp: word_unat_eq_iff)

lemma OSTaskSuspend_ok:
  assumes ok: "kernel_ok s" "cur_ok s" and at: "task_at s (unat prio) i" and p: "unat prio < 20"
  shows "\<exists>s1. OSTaskSuspend prio s =
         do { s' \<leftarrow> (if OSPrioCur s = prio then OS_Sched s1 else Some s1); Some (OS_ERR_NONE, s') } \<and>
     kernel_ok s1 \<and> TCB s1 = (TCB s)(i := (TCB s i)\<lparr> OSTCBStat := OSTCBStat (TCB s i) OR 8 \<rparr>) \<and>
     ready_set s1 = ready_set s - {unat prio} \<and> s1 = s\<lparr> TCB := TCB s1, OSRdyGrp := OSRdyGrp s1, OSRdyTbl := OSRdyTbl s1 \<rparr>"
proof -
  have tok: "task_ok s (unat prio) (TCB s i)" by (rule kernel_okD(4) [OF ok(1) at])
  obtain b where b: "bm_clear (OSTCBY (TCB s i)) (OSTCBBitX (TCB s i)) (OSTCBBitY (TCB s i)) (rdy s) = Some b" "bm_ok b"
    "bm_elems b = bm_elems (rdy s) - {unat prio}"
    using masks_clear [OF kernel_okD(2) [OF ok(1)] task_okD(1) [OF tok]] p by (auto intro: less_imp_le)
  define s1 where "s1 = set_tcb i (\<lambda>t. t\<lparr> OSTCBStat := OSTCBStat t OR 8 \<rparr>) (set_rdy b s)"
  obtain c where c: "OSTCBCur s = TCB_AT c" "task_at s (unat (OSPrioCur s)) c" using ok(2) by (auto simp: cur_ok_def)
  have "unat (OSTCBPrio (TCB s c)) = unat (OSPrioCur s)" by (rule task_at_prio [OF ok(1) c(2)])
  then have "OSTCBPrio (TCB s c) = OSPrioCur s" by (rule word_unat_eqI)
  then have "OSTaskSuspend prio s =
      do { s' \<leftarrow> (if OSPrioCur s = prio then OS_Sched s1 else Some s1); Some (OS_ERR_NONE, s') }"
    using c(1) at b(1) p prio_self [OF p] kernel_okD(1) [OF ok(1)]
    by (auto simp: OSTaskSuspend_def named_prio_def task_at_def s1_def)
  moreover have f: "TCB s1 = (TCB s)(i := (TCB s i)\<lparr> OSTCBStat := OSTCBStat (TCB s i) OR 8 \<rparr>)" "rdy s1 = b"
    "OSTCBPrioTbl s1 = OSTCBPrioTbl s" "ECB s1 = ECB s" by (simp_all add: s1_def) (simp_all add: set_tcb_def set_rdy_def)
  moreover have rd: "ready_set s1 = ready_set s - {unat prio}" by (simp add: ready_set_def f(2) b(3))
  moreover have "kernel_ok s1"
    using p b(2) status_suspend(8) [of "OSTCBStat (TCB s i)"]
    by (intro kernel_ok_suspension [OF ok(1) at _ f(1,3,4)]) (auto simp: f rd)
  moreover have "s1 = s\<lparr> TCB := TCB s1, OSRdyGrp := OSRdyGrp s1, OSRdyTbl := OSRdyTbl s1 \<rparr>"
    by (simp add: s1_def set_tcb_def set_rdy_def)
  ultimately show ?thesis by blast
qed

lemma OSTaskResume_ok:
  assumes ok: "kernel_ok s" "cur_ok s" and at: "task_at s (unat prio) i" and p: "unat prio < 20"
    and susp: "suspended (TCB s i)"
  shows "\<exists>s1. OSTaskResume prio s =
         do { s' \<leftarrow> (if unat prio \<in> ready_set s1 \<and> OSRunning s = OS_TRUE then OS_Sched s1 else Some s1); Some (OS_ERR_NONE, s') } \<and>
     kernel_ok s1 \<and> TCB s1 = (TCB s)(i := (TCB s i)\<lparr> OSTCBStat := OSTCBStat (TCB s i) AND NOT 8 \<rparr>) \<and>
     ready_set s1 = (if OSTCBStat (TCB s i) AND NOT 8 = 0 \<and> OSTCBDly (TCB s i) = 0
                     then insert (unat prio) (ready_set s) else ready_set s) \<and>
     s1 = s\<lparr> TCB := TCB s1, OSRdyGrp := OSRdyGrp s1, OSRdyTbl := OSRdyTbl s1 \<rparr>"
proof -
  let ?st = "OSTCBStat (TCB s i) AND NOT 8" and ?d = "OSTCBDly (TCB s i)"
  have tok: "task_ok s (unat prio) (TCB s i)" by (rule kernel_okD(4) [OF ok(1) at])
  obtain b where b: "bm_set (OSTCBY (TCB s i)) (OSTCBBitX (TCB s i)) (OSTCBBitY (TCB s i)) (rdy s) = Some b" "bm_ok b"
    "bm_elems b = insert (unat prio) (bm_elems (rdy s))"
    using masks_set [OF kernel_okD(2) [OF ok(1)] task_okD(1) [OF tok]] p by (auto intro: less_imp_le)
  have nr: "unat prio \<notin> ready_set s" using susp task_okD(4) [OF tok] by (auto simp: suspended_def runnable_def)
  let ?s = "set_tcb i (\<lambda>t. t\<lparr> OSTCBStat := OSTCBStat t AND NOT 8 \<rparr>) s"
  define s1 where "s1 = (if ?st = 0 \<and> ?d = 0 then set_rdy b ?s else ?s)"
  have f: "TCB s1 = (TCB s)(i := (TCB s i)\<lparr> OSTCBStat := ?st \<rparr>)" "rdy s1 = (if ?st = 0 \<and> ?d = 0 then b else rdy s)"
    "OSTCBPrioTbl s1 = OSTCBPrioTbl s" "ECB s1 = ECB s" "OSRunning s1 = OSRunning s"
    by (simp_all add: s1_def) (simp_all add: set_tcb_def set_rdy_def)
  have rd: "ready_set s1 = (if ?st = 0 \<and> ?d = 0 then insert (unat prio) (ready_set s) else ready_set s)"
    by (simp add: ready_set_def f(2) b(3))
  have k: "kernel_ok s1"
    using p b(2) nr kernel_okD(2) [OF ok(1)]
    by (intro kernel_ok_suspension [OF ok(1) at _ f(1,3,4)]) (auto simp: f(2) rd)
  have run: "OSRunning (set_tcb i g s) = OSRunning s" "OSRunning (set_rdy b (set_tcb i g s)) = OSRunning s" for g by (simp_all add: set_tcb_def set_rdy_def)
  have tbl: "OSTCBPrioTbl s ! unat prio = TCB_AT i" "length (OSTCBPrioTbl s) = 21"
    using at kernel_okD(1) [OF ok(1)] by (simp_all add: task_at_def)
  consider "?st = 0" "?d = 0" | "?st = 0" "?d \<noteq> 0" | "?st \<noteq> 0" by blast
  then have "OSTaskResume prio s =
      do { s' \<leftarrow> (if unat prio \<in> ready_set s1 \<and> OSRunning s = OS_TRUE then OS_Sched s1 else Some s1); Some (OS_ERR_NONE, s') }"
    by cases (use tbl b(1) p nr susp in \<open>simp_all add: OSTaskResume_def suspended_def s1_def run rd ready_set_def b(3) Let_def\<close>)
  then show ?thesis using k f(1) rd
    by (intro exI [of _ s1]) (simp add: s1_def set_tcb_def set_rdy_def)
qed

text \<open>Suspending and resuming. Suspending a task that is not the running one takes it out of the ready list whatever it
  waits for, so that no post, tick or end of a delay makes it run; resuming it puts it back just when it waits for
  nothing any more, restores its status and ready list, and reschedules. A task that is not suspended is not resumed.\<close>

theorem suspend_resume_roundtrip:
  assumes ok: "kernel_ok s" "cur_ok s" and at: "task_at s (unat prio) i" and p: "unat prio < 20"
    and other: "OSPrioCur s \<noteq> prio" and ns: "\<not> suspended (TCB s i)"
    and lvl: "OSIntNesting s = 0" "OSLockNesting s = 0"
  shows "OSTaskResume prio s = Some (OS_ERR_TASK_NOT_SUSPENDED, s) \<and>
    (\<exists>s1 s2. OSTaskSuspend prio s = Some (OS_ERR_NONE, s1) \<and> kernel_ok s1 \<and> suspended (TCB s1 i) \<and>
       ready_set s1 = ready_set s - {unat prio} \<and>
       OSTaskResume prio s1 = Some (OS_ERR_NONE, s2) \<and> kernel_ok s2 \<and> ready_set s2 = ready_set s \<and>
       OSTCBStat (TCB s2 i) = OSTCBStat (TCB s i) \<and> (\<forall>e. wait_set e s2 = wait_set e s) \<and>
       (unat prio \<in> ready_set s \<and> OSRunning s = OS_TRUE \<longrightarrow> highest_runs s2))"
proof
  have tbl: "OSTCBPrioTbl s ! unat prio = TCB_AT i" "length (OSTCBPrioTbl s) = 21"
    using at kernel_okD(1) [OF ok(1)] by (simp_all add: task_at_def)
  show "OSTaskResume prio s = Some (OS_ERR_TASK_NOT_SUSPENDED, s)"
    using tbl p ns by (simp add: OSTaskResume_def suspended_def)
  have tok: "task_ok s (unat prio) (TCB s i)" by (rule kernel_okD(4) [OF ok(1) at])
  let ?st = "OSTCBStat (TCB s i)"
  have restored: "(?st OR 8) AND NOT 8 = ?st" using ns status_suspend(10) by (simp add: suspended_def)
  obtain s1 where s1: "OSTaskSuspend prio s = Some (OS_ERR_NONE, s1)" "kernel_ok s1"
    "TCB s1 = (TCB s)(i := (TCB s i)\<lparr> OSTCBStat := ?st OR 8 \<rparr>)" "ready_set s1 = ready_set s - {unat prio}"
    "s1 = s\<lparr> TCB := TCB s1, OSRdyGrp := OSRdyGrp s1, OSRdyTbl := OSRdyTbl s1 \<rparr>"
    using OSTaskSuspend_ok [OF ok at p] other by auto
  have f1: "OSTCBPrioTbl s1 = OSTCBPrioTbl s" "OSTCBCur s1 = OSTCBCur s" "OSPrioCur s1 = OSPrioCur s" "ECB s1 = ECB s"
    "OSIntNesting s1 = 0" "OSLockNesting s1 = 0" "OSRunning s1 = OSRunning s"
    using task_frame [OF s1(5)] lvl by simp_all
  have at1: "task_at s1 = task_at s" by (auto simp: task_at_def f1 fun_eq_iff)
  have c1: "cur_ok s1" using ok(2) by (simp add: cur_ok_def at1 f1)
  have su: "suspended (TCB s1 i)" using status_suspend(7) by (simp add: suspended_def s1(3))
  obtain s2 where s2: "OSTaskResume prio s1 =
        do { s' \<leftarrow> (if unat prio \<in> ready_set s2 \<and> OSRunning s1 = OS_TRUE then OS_Sched s2 else Some s2); Some (OS_ERR_NONE, s') }"
    "kernel_ok s2" "TCB s2 = (TCB s1)(i := (TCB s1 i)\<lparr> OSTCBStat := ?st \<rparr>)"
    "ready_set s2 = (if ?st = 0 \<and> OSTCBDly (TCB s i) = 0 then insert (unat prio) (ready_set s1) else ready_set s1)"
    "s2 = s1\<lparr> TCB := TCB s2, OSRdyGrp := OSRdyGrp s2, OSRdyTbl := OSRdyTbl s2 \<rparr>"
    using OSTaskResume_ok [OF s1(2) c1 _ p su] at by (auto simp: at1 s1(3) restored restored [simplified])
  have wt: "wait_set e s2 = wait_set e s" for e
    using f1(4) task_frame(4) [OF s2(5)] by (simp add: wait_set_def waiters_def)
  have st2: "OSTCBStat (TCB s2 i) = ?st" by (simp add: s2(3))
  have rd2: "ready_set s2 = ready_set s"
    using s2(4) s1(4) task_okD(4) [OF tok] by (auto simp: runnable_def)
  note f2 = task_frame [OF s2(5)]
  have c2: "cur_ok s2"
    using c1 f2(1,2,3) by (simp add: cur_ok_def task_at_def)
  show "\<exists>s1 s2. OSTaskSuspend prio s = Some (OS_ERR_NONE, s1) \<and> kernel_ok s1 \<and> suspended (TCB s1 i) \<and>
       ready_set s1 = ready_set s - {unat prio} \<and>
       OSTaskResume prio s1 = Some (OS_ERR_NONE, s2) \<and> kernel_ok s2 \<and> ready_set s2 = ready_set s \<and>
       OSTCBStat (TCB s2 i) = OSTCBStat (TCB s i) \<and> (\<forall>e. wait_set e s2 = wait_set e s) \<and>
       (unat prio \<in> ready_set s \<and> OSRunning s = OS_TRUE \<longrightarrow> highest_runs s2)"
  proof (cases "unat prio \<in> ready_set s \<and> OSRunning s = OS_TRUE")
    case True
    obtain s3 where s3: "OS_Sched s2 = Some s3" "switch_frame s2 s3" "kernel_ok s3" "highest_runs s3"
      using OS_Sched_ok [OF s2(2) c2] f2 f1 by auto
    have "OSTaskResume prio s1 = Some (OS_ERR_NONE, s3)" using s2(1) s3(1) True rd2 f1(7) by simp
    moreover have "OSTCBStat (TCB s3 i) = ?st"
    proof -
      have "TCB s3 i = (TCB s2 i)\<lparr> OSTCBCtxSwCtr := OSTCBCtxSwCtr (TCB s3 i) \<rparr>"
        using s3(2) unfolding switch_frame_def by blast
      then have "OSTCBStat (TCB s3 i) = OSTCBStat (TCB s2 i)" by (cases "TCB s3 i"; cases "TCB s2 i"; simp)
      then show ?thesis using st2 by simp
    qed
    ultimately show ?thesis
      using s1 su s3(3,4) switch_frame_sets [OF s3(2)] rd2 wt by - (rule exI [of _ s1], rule exI [of _ s3], simp)
  next
    case False
    then have "OSTaskResume prio s1 = Some (OS_ERR_NONE, s2)" using s2(1) rd2 f1(7) by auto
    then show ?thesis using s1 su s2(2) rd2 wt st2 False by - (rule exI [of _ s1], rule exI [of _ s2], auto)
  qed
qed

theorem suspend_resume_roundtrip_witness:
  "OSTaskResume 5 example_os = Some (OS_ERR_TASK_NOT_SUSPENDED, example_os) \<and>
   (\<exists>s1 s2. OSTaskSuspend 5 example_os = Some (OS_ERR_NONE, s1) \<and> suspended (TCB s1 1) \<and>
     OSTaskResume 5 s1 = Some (OS_ERR_NONE, s2) \<and> ready_set s2 = {6, 20} \<and> wait_set 0 s2 = {5})"
proof -
  have "task_at example_os (unat (5 :: INT8U)) 1" by (simp add: example_task_at)
  from suspend_resume_roundtrip [OF example_kernel_ok example_cur_ok this] show ?thesis
    using example_sets
    by (fastforce simp: example_os_def example_tcbs_def example_tcb_def suspended_def)
qed

end
