(* ===== verification/Os_Init.thy ===== *)
theory Os_Init imports Task_Admin Os_Q Os_Time begin

text \<open>
  Start-up. The initialisation of the kernel (\<open>OSInit\<close> and its parts in \<open>os_core.c\<close>, \<open>OS_FlagInit\<close>),
  and the two system tasks. The addresses of
  the stacks and of the task functions are the linker's; they are the record \<open>image\<close>. A table cleared
  with \<open>OS_MemClr\<close> is the table of cleared blocks. After \<open>OSInit\<close> the kernel is
  consistent and holds exactly the idle and the statistics task.
\<close>

section \<open>Cleared tables\<close>

definition cleared_tcb :: OS_TCB where
  "cleared_tcb =
     \<lparr> OSTCBStkPtr = 0, OSTCBExtPtr = 0, OSTCBStkBottom = 0, OSTCBStkSize = 0, OSTCBOpt = 0, OSTCBId = 0,
       OSTCBNext = TCB_NULL, OSTCBPrev = TCB_NULL, OSTCBEventPtr = None, OSTCBEventMultiPtr = None, OSTCBMsg = 0,
       OSTCBFlagNode = None, OSTCBFlagsRdy = 0, OSTCBDly = 0, OSTCBStat = 0, OSTCBStatPend = 0, OSTCBPrio = 0,
       OSTCBX = 0, OSTCBY = 0, OSTCBBitX = 0, OSTCBBitY = 0, OSTCBDelReq = 0, OSTCBCtxSwCtr = 0, OSTCBCyclesTot = 0,
       OSTCBCyclesStart = 0, OSTCBStkBase = 0, OSTCBStkUsed = 0, OSTCBTaskName = replicate OS_TASK_NAME_SIZE 0 \<rparr>"

definition cleared_event :: OS_EVENT where
  "cleared_event = \<lparr> OSEventType = 0, OSEventPtr = Event_Ptr None, OSEventCnt = 0, OSEventGrp = 0,
     OSEventTbl = replicate OS_RDY_TBL_SIZE 0, OSEventName = replicate OS_EVENT_NAME_SIZE 0 \<rparr>"

definition cleared_grp :: OS_FLAG_GRP where
  "cleared_grp = \<lparr> OSFlagType = 0, OSFlagWaitList = Grp_Ptr None, OSFlagFlags = 0,
     OSFlagName = replicate OS_FLAG_NAME_SIZE 0 \<rparr>"

section \<open>The parts of \<open>OSInit\<close>\<close>

definition OS_InitMisc :: "os_state \<Rightarrow> os_state" where
  "OS_InitMisc s = s\<lparr> OSTime := 0, OSIntNesting := 0, OSLockNesting := 0, OSTaskCtr := 0, OSRunning := OS_FALSE,
     OSCtxSwCtr := 0, OSIdleCtr := 0, OSIdleCtrRun := 0, OSIdleCtrMax := 0, OSStatRdy := OS_FALSE \<rparr>"

definition OS_InitRdyList :: "os_state \<Rightarrow> os_state" where
  "OS_InitRdyList s = s\<lparr> OSRdyGrp := 0, OSRdyTbl := replicate OS_RDY_TBL_SIZE 0, OSPrioCur := 0, OSPrioHighRdy := 0,
     OSTCBHighRdy := TCB_NULL, OSTCBCur := TCB_NULL \<rparr>"

fun link_tcbs :: "nat \<Rightarrow> (nat \<Rightarrow> OS_TCB) \<Rightarrow> nat \<Rightarrow> OS_TCB" where
  "link_tcbs 0 t = t"
| "link_tcbs (Suc i) t =
     (link_tcbs i t)(i := tcb_name_unknown ((link_tcbs i t i)\<lparr> OSTCBNext := TCB_AT (Suc i) \<rparr>))"

definition OS_InitTCBList :: "os_state \<Rightarrow> os_state" where
  "OS_InitTCBList s =
     (let n = OS_MAX_TASKS + OS_N_SYS_TASKS - 1; t = link_tcbs n (\<lambda>_. cleared_tcb) in
      s\<lparr> TCB := t(n := tcb_name_unknown ((t n)\<lparr> OSTCBNext := TCB_NULL \<rparr>)),
         OSTCBPrioTbl := replicate (OS_LOWEST_PRIO + 1) TCB_NULL, OSTCBList := TCB_NULL, OSTCBFreeList := TCB_AT 0 \<rparr>)"

fun link_events :: "nat \<Rightarrow> (nat \<Rightarrow> OS_EVENT) \<Rightarrow> nat \<Rightarrow> OS_EVENT" where
  "link_events 0 t = t"
| "link_events (Suc i) t =
     (link_events i t)(i := event_name_unknown ((link_events i t i)\<lparr> OSEventType := OS_EVENT_TYPE_UNUSED,
                                                                   OSEventPtr := Event_Ptr (Some (Suc i)) \<rparr>))"

definition OS_InitEventList :: "os_state \<Rightarrow> os_state" where
  "OS_InitEventList s =
     (let n = OS_MAX_EVENTS - 1; t = link_events n (\<lambda>_. cleared_event) in
      s\<lparr> ECB := t(n := event_name_unknown ((t n)\<lparr> OSEventType := OS_EVENT_TYPE_UNUSED, OSEventPtr := Event_Ptr None \<rparr>)),
         OSEventFreeList := Some 0 \<rparr>)"

fun link_grps :: "nat \<Rightarrow> (nat \<Rightarrow> OS_FLAG_GRP) \<Rightarrow> nat \<Rightarrow> OS_FLAG_GRP" where
  "link_grps 0 t = t"
| "link_grps (Suc i) t =
     (link_grps i t)(i := grp_name_unknown ((link_grps i t i)\<lparr> OSFlagType := OS_EVENT_TYPE_UNUSED,
                                                             OSFlagWaitList := Grp_Ptr (Some (Suc i)) \<rparr>))"

definition OS_FlagInit :: "os_state \<Rightarrow> os_state" where
  "OS_FlagInit s =
     (let n = OS_MAX_FLAGS - 1; t = link_grps n (\<lambda>_. cleared_grp) in
      s\<lparr> OSFlagTbl := t(n := grp_name_unknown ((t n)\<lparr> OSFlagType := OS_EVENT_TYPE_UNUSED, OSFlagWaitList := Grp_Ptr None \<rparr>)),
         OSFlagFreeList := Some 0 \<rparr>)"

section \<open>The system tasks\<close>

text \<open>What the linker decides: the addresses of the stacks and of the task functions.\<close>

record image =
  cpu :: port
  OSTaskIdleStk :: INT32U
  OSTaskStatStk :: INT32U
  idle_entry :: INT32U
  stat_entry :: INT32U

definition stk_elem :: "INT32U \<Rightarrow> INT32U \<Rightarrow> INT32U" where
  "stk_elem stk i = stk + 4 * i"

definition c_bytes :: "string \<Rightarrow> INT8U list" where
  "c_bytes cs = map of_char cs @ [OS_ASCII_NUL]"

definition OS_InitTaskIdle :: "'a image_scheme \<Rightarrow> os_state \<Rightarrow> os_state option" where
  "OS_InitTaskIdle im s = do {
     (err, s) \<leftarrow> OSTaskCreateExt (cpu im) (idle_entry im) 0 (stk_elem (OSTaskIdleStk im) (OS_TASK_IDLE_STK_SIZE - 1))
                   OS_TASK_IDLE_PRIO OS_TASK_IDLE_ID (stk_elem (OSTaskIdleStk im) 0) OS_TASK_IDLE_STK_SIZE 0
                   (OS_TASK_OPT_STK_CHK OR OS_TASK_OPT_STK_CLR) s;
     (perr, s) \<leftarrow> OSTaskNameSet OS_TASK_IDLE_PRIO (Some (c_bytes ''uC/OS-II Idle'')) (Some 0) s;
     Some s
   }"

definition OS_InitTaskStat :: "'a image_scheme \<Rightarrow> os_state \<Rightarrow> os_state option" where
  "OS_InitTaskStat im s = do {
     (err, s) \<leftarrow> OSTaskCreateExt (cpu im) (stat_entry im) 0 (stk_elem (OSTaskStatStk im) (OS_TASK_STAT_STK_SIZE - 1))
                   OS_TASK_STAT_PRIO OS_TASK_STAT_ID (stk_elem (OSTaskStatStk im) 0) OS_TASK_STAT_STK_SIZE 0
                   (OS_TASK_OPT_STK_CHK OR OS_TASK_OPT_STK_CLR) s;
     (perr, s) \<leftarrow> OSTaskNameSet OS_TASK_STAT_PRIO (Some (c_bytes ''uC/OS-II Stat'')) (Some 0) s;
     Some s
   }"

definition OSInit :: "'a image_scheme \<Rightarrow> os_state \<Rightarrow> os_state option" where
  "OSInit im s = do {
     let s = OS_InitMisc s;
     let s = OS_InitRdyList s;
     let s = OS_InitTCBList s;
     let s = OS_InitEventList s;
     let s = OS_FlagInit s;
     let s = OS_MemInit s;
     let s = OS_QInit s;
     s \<leftarrow> OS_InitTaskIdle im s;
     OS_InitTaskStat im s
   }"

text \<open>One turn of the idle task's loop.\<close>

definition OS_TaskIdle_turn :: "os_state \<Rightarrow> os_state" where
  "OS_TaskIdle_turn s = s\<lparr> OSIdleCtr := OSIdleCtr s + 1 \<rparr>"

text \<open>\<open>OS_TaskStatStkChk\<close>: the loop over the priorities; \<open>d\<close> is the local variable \<open>stk_data\<close>.\<close>

fun stat_stk_loop :: "nat list \<Rightarrow> OS_STK_DATA \<Rightarrow> os_state \<Rightarrow> os_state option" where
  "stat_stk_loop [] d s = Some s"
| "stat_stk_loop (p # ps) d s = do {
     (err, d') \<leftarrow> OSTaskStkChk (of_nat p) (Some d) s;
     d \<leftarrow> d';
     s \<leftarrow> (if err = OS_ERR_NONE then do {
            ptcb \<leftarrow> array_get (OSTCBPrioTbl s) p;
            (case ptcb of
               TCB_AT i \<Rightarrow> Some (set_tcb i (\<lambda>t. t\<lparr> OSTCBStkBase := stk_elem (OSTCBStkBottom t) (OSTCBStkSize t),
                                                  OSTCBStkUsed := OSUsed d \<rparr>) s)
             | _ \<Rightarrow> Some s)
          } else Some s);
     stat_stk_loop ps d s
   }"

definition OS_TaskStatStkChk :: "OS_STK_DATA \<Rightarrow> os_state \<Rightarrow> os_state option" where
  "OS_TaskStatStkChk stk_data s = stat_stk_loop [0..<unat OS_TASK_IDLE_PRIO + 1] stk_data s"

text \<open>
  The statistics task, from one call at which it can lose the processor to the next: it waits until
  \<open>OSStatRdy\<close> is set (\<open>STAT_WAIT\<close>), suspends itself where the idle counter never moved (\<open>STAT_SUSP\<close>),
  and then measures (\<open>STAT_LOOP\<close>) every tenth of a second. A division by zero has no result.
\<close>

datatype stat_pc = STAT_WAIT | STAT_SUSP | STAT_LOOP

definition stat_measure :: "OS_STK_DATA \<Rightarrow> os_state \<Rightarrow> (stat_pc \<times> os_state) option" where
  "stat_measure stk_data s = do {
     let s = s\<lparr> OSIdleCtrRun := OSIdleCtr s, OSIdleCtr := 0 \<rparr>;
     s \<leftarrow> (if OSIdleCtrMax s = 0 then None
          else Some (s\<lparr> OSCPUUsage := ucast (100 - OSIdleCtrRun s div OSIdleCtrMax s) \<rparr>));
     s \<leftarrow> OS_TaskStatStkChk stk_data s;
     s \<leftarrow> OSTimeDly (ucast (OS_TICKS_PER_SEC div 10)) s;
     Some (STAT_LOOP, s)
   }"

definition OS_TaskStat_step :: "OS_STK_DATA \<Rightarrow> stat_pc \<Rightarrow> os_state \<Rightarrow> (stat_pc \<times> os_state) option" where
  "OS_TaskStat_step stk_data pc s =
     (case pc of
        STAT_WAIT \<Rightarrow>
          if OSStatRdy s = OS_FALSE then do {
            s \<leftarrow> OSTimeDly (ucast (2 * OS_TICKS_PER_SEC div 10)) s;
            Some (STAT_WAIT, s)
          } else do {
            let s = s\<lparr> OSIdleCtrMax := OSIdleCtrMax s div 100 \<rparr>;
            if OSIdleCtrMax s = 0 then do {
              (err, s) \<leftarrow> OSTaskSuspend OS_PRIO_SELF (s\<lparr> OSCPUUsage := 0 \<rparr>);
              Some (STAT_SUSP, s)
            } else stat_measure stk_data s
          }
      | STAT_SUSP \<Rightarrow> stat_measure stk_data s
      | STAT_LOOP \<Rightarrow> stat_measure stk_data s)"

text \<open>\<open>OSStatInit\<close>, cut at its two delays.\<close>

definition OSStatInit_start :: "os_state \<Rightarrow> os_state option" where
  "OSStatInit_start s = OSTimeDly 2 s"

definition OSStatInit_measure :: "os_state \<Rightarrow> os_state option" where
  "OSStatInit_measure s = OSTimeDly (ucast (OS_TICKS_PER_SEC div 10)) (s\<lparr> OSIdleCtr := 0 \<rparr>)"

definition OSStatInit_finish :: "os_state \<Rightarrow> os_state" where
  "OSStatInit_finish s = s\<lparr> OSIdleCtrMax := OSIdleCtr s, OSStatRdy := OS_TRUE \<rparr>"

section \<open>After \<open>OSInit\<close>\<close>

text \<open>The name of a task does not matter to the kernel.\<close>

lemma rename_task:
  assumes s'_def: "s' = set_tcb i (\<lambda>t. t\<lparr> OSTCBTaskName := nm \<rparr>) s"
  shows "task_at s' = task_at s" "ready_set s' = ready_set s" "wait_set e s' = wait_set e s"
    "kernel_wf s' = kernel_wf s" "tcbs_ok s' is fs = tcbs_ok s is fs" "create_frame s s'"
    "OSTaskCtr s' = OSTaskCtr s" "OSTCBPrioTbl s' = OSTCBPrioTbl s" "OSTCBId (TCB s' j) = OSTCBId (TCB s j)"
proof -
  have same: "rdy s' = rdy s" "ECB s' = ECB s" "OSTCBPrioTbl s' = OSTCBPrioTbl s" "OSTCBList s' = OSTCBList s"
    "OSTCBFreeList s' = OSTCBFreeList s" "OSTaskCtr s' = OSTaskCtr s"
    by (simp_all add: s'_def) (simp_all add: set_tcb_def)
  have T: "TCB s' = (TCB s)(i := (TCB s i)\<lparr> OSTCBTaskName := nm \<rparr>)" by (simp add: s'_def)
  from same show at: "task_at s' = task_at s" by (auto simp: task_at_def fun_eq_iff)
  have w: "waiters e s' = waiters e s" for e by (simp add: waiters_def same)
  show sets: "ready_set s' = ready_set s" "wait_set e s' = wait_set e s" for e
    by (simp_all add: ready_set_def wait_set_def w same)
  have "task_ok s' p (TCB s' j) = task_ok s p (TCB s j)" for p j
    by (simp add: task_ok_def sets same T masks_ok_def runnable_def)
  then show "kernel_wf s' = kernel_wf s" by (simp add: kernel_wf_def at sets w same)
  have t: "OSTCBNext (TCB s' j) = OSTCBNext (TCB s j)" "OSTCBPrev (TCB s' j) = OSTCBPrev (TCB s j)" for j
    by (simp_all add: T)
  then show "tcbs_ok s' is fs = tcbs_ok s is fs"
    using tcb_dlist_cong [of "is" "TCB s'" "TCB s"] tcb_flist_cong [of fs "TCB s'" "TCB s"]
    by (simp add: tcbs_ok_def at same)
  show "create_frame s s'" by (simp add: create_frame_def s'_def set_tcb_def)
  show "OSTaskCtr s' = OSTaskCtr s" "OSTCBPrioTbl s' = OSTCBPrioTbl s" by (fact same)+
  show "OSTCBId (TCB s' j) = OSTCBId (TCB s j)" by (simp add: T)
qed

lemma OSTaskNameSet_ok:
  assumes at: "task_at s (unat prio) i" and len: "length (OSTCBPrioTbl s) = 21" and lvl: "OSIntNesting s = 0"
    and src: "c_string src cs" "length cs \<le> 31" and name: "length (OSTCBTaskName (TCB s i)) = 32"
  shows "\<exists>nm. OSTaskNameSet prio (Some src) (Some x) s =
      Some (Some OS_ERR_NONE, set_tcb i (\<lambda>t. t\<lparr> OSTCBTaskName := nm \<rparr>) s)"
proof -
  have p: "unat prio \<le> 20" "OSTCBPrioTbl s ! unat prio = TCB_AT i" using at by (simp_all add: task_at_def)
  then have "prio \<noteq> OS_PRIO_SELF" by auto
  moreover have "unat (of_nat (length cs) :: INT8U) = length cs" using src(2) by (simp add: unsigned_of_nat take_bit_nat_eq_self)
  ultimately show ?thesis
    using p len lvl src name
    by (simp add: OSTaskNameSet_def named_prio_def OS_StrLen_string OS_StrCopy_string) (rule exI, rule refl)
qed

text \<open>The tables after they were linked.\<close>

lemma link_tcbs_at:
  "link_tcbs n t i = (if i < n then tcb_name_unknown ((t i)\<lparr> OSTCBNext := TCB_AT (Suc i) \<rparr>) else t i)"
  by (induction n) (auto simp: less_Suc_eq)

lemma link_events_at:
  "link_events n t i = (if i < n then event_name_unknown ((t i)\<lparr> OSEventType := OS_EVENT_TYPE_UNUSED,
     OSEventPtr := Event_Ptr (Some (Suc i)) \<rparr>) else t i)"
  by (induction n) (auto simp: less_Suc_eq)

lemma tcb_flist_upt:
  "k \<le> n \<Longrightarrow> (\<And>i. k \<le> i \<Longrightarrow> i < n \<Longrightarrow> OSTCBNext (T i) = (if Suc i = n then TCB_NULL else TCB_AT (Suc i))) \<Longrightarrow>
     tcb_flist T (if k = n then TCB_NULL else TCB_AT k) [k..<n]"
proof (induction "n - k" arbitrary: k)
  case (Suc m)
  then have k: "k < n" by simp
  have "tcb_flist T (if Suc k = n then TCB_NULL else TCB_AT (Suc k)) [Suc k..<n]"
    using Suc.prems k Suc.hyps(2) by (intro Suc.hyps(1)) auto
  then show ?case using k Suc.prems(2) [of k] by (simp add: upt_conv_Cons)
qed simp

text \<open>The state in which the first task is created.\<close>

definition init_tables :: "os_state \<Rightarrow> os_state" where
  "init_tables s =
     OS_QInit (OS_MemInit (OS_FlagInit (OS_InitEventList (OS_InitTCBList (OS_InitRdyList (OS_InitMisc s))))))"

lemma init_tables_fields:
  "OSIntNesting (init_tables s) = 0" "OSLockNesting (init_tables s) = 0" "OSRunning (init_tables s) = OS_FALSE"
  "OSTaskCtr (init_tables s) = 0" "rdy (init_tables s) = bm_empty" "OSTCBList (init_tables s) = TCB_NULL"
  "OSTCBFreeList (init_tables s) = TCB_AT 0" "OSTCBPrioTbl (init_tables s) = replicate 21 TCB_NULL"
  "OSEventFreeList (init_tables s) = Some 0" "OSQFreeList (init_tables s) = Some 0" "OSPrioCur (init_tables s) = 0"
  "OSStatRdy (init_tables s) = OS_FALSE" "OSTickStepState (init_tables s) = OSTickStepState s"
  by (simp_all add: init_tables_def OS_InitMisc_def OS_InitRdyList_def OS_InitTCBList_def OS_InitEventList_def
      OS_FlagInit_def OS_MemInit_def OS_QInit_def Let_def rdy_def bm_empty_def)

lemma init_tables_tcb:
  "i < 12 \<Longrightarrow> OSTCBNext (TCB (init_tables s) i) = (if Suc i = 12 then TCB_NULL else TCB_AT (Suc i))"
  "i < 12 \<Longrightarrow> length (OSTCBTaskName (TCB (init_tables s) i)) = 32"
  by (auto simp: init_tables_def OS_InitMisc_def OS_InitRdyList_def OS_InitTCBList_def OS_InitEventList_def
      OS_FlagInit_def OS_MemInit_def OS_QInit_def Let_def link_tcbs_at tcb_name_unknown_def cleared_tcb_def)

lemma init_tables_ecb:
  "ECB (init_tables s) e = event_name_unknown (cleared_event\<lparr> OSEventType := OS_EVENT_TYPE_UNUSED,
       OSEventPtr := Event_Ptr (if e < 59 then Some (Suc e) else None) \<rparr>) \<or>
   ECB (init_tables s) e = cleared_event"
  by (auto simp: init_tables_def OS_InitMisc_def OS_InitRdyList_def OS_InitTCBList_def OS_InitEventList_def
      OS_FlagInit_def OS_MemInit_def OS_QInit_def Let_def link_events_at cleared_event_def)

lemma init_tables_events:
  "e < 60 \<Longrightarrow> OSEventType (ECB (init_tables s) e) = OS_EVENT_TYPE_UNUSED"
  "e < 60 \<Longrightarrow> OSEventPtr (ECB (init_tables s) e) = Event_Ptr (if e < 59 then Some (Suc e) else None)"
  "waiters e (init_tables s) = bm_empty"
proof -
  show "e < 60 \<Longrightarrow> OSEventPtr (ECB (init_tables s) e) = Event_Ptr (if e < 59 then Some (Suc e) else None)"
    by (auto simp: init_tables_def OS_InitMisc_def OS_InitRdyList_def OS_InitTCBList_def OS_InitEventList_def
      OS_FlagInit_def OS_MemInit_def OS_QInit_def Let_def link_events_at event_name_unknown_def)
qed (use init_tables_ecb [of s e] in \<open>auto simp: waiters_def bm_empty_def cleared_event_def event_name_unknown_def\<close>)

lemma init_tables_ok:
  "kernel_wf (init_tables s)" "tcbs_ok (init_tables s) [] [0..<12]" "ready_set (init_tables s) = {}"
  "\<not> task_at (init_tables s) p i" "wait_set e (init_tables s) = {}"
proof -
  show at: "\<not> task_at (init_tables s) p i" for p i by (auto simp: task_at_def init_tables_fields nth_Cons')
  show sets: "ready_set (init_tables s) = {}" "wait_set e (init_tables s) = {}" for e
    by (simp_all add: ready_set_def wait_set_def init_tables_fields init_tables_events)
  show "kernel_wf (init_tables s)"
    by (simp add: kernel_wf_def at sets init_tables_fields init_tables_events)
  have "tcb_flist (TCB (init_tables s)) (TCB_AT 0) [0..<12]"
    using tcb_flist_upt [of 0 12 "TCB (init_tables s)"] init_tables_tcb(1) by simp
  then show "tcbs_ok (init_tables s) [] [0..<12]"
    by (simp add: tcbs_ok_def init_tables_fields at)
qed

text \<open>Creating and naming a task before multitasking has started.\<close>

lemma create_named:
  assumes wf: "kernel_wf s" and l: "tcbs_ok s is (i # fs)" and p: "unat prio \<le> 20"
    and free: "OSTCBPrioTbl s ! unat prio = TCB_NULL" and idle: "is = [] \<Longrightarrow> prio = 20"
    and lvl: "OSIntNesting s = 0" and run: "OSRunning s = OS_FALSE"
    and src: "c_string src cs" "length cs \<le> 31" and name: "\<forall>j \<in> set (i # fs). length (OSTCBTaskName (TCB s j)) = 32"
  shows "\<exists>s2. do {
       (err, s) \<leftarrow> OSTaskCreateExt port task arg ptos prio tid pbos sz pext opt s;
       (perr, s) \<leftarrow> OSTaskNameSet prio (Some src) (Some x) s;
       Some s
     } = Some s2 \<and> kernel_wf s2 \<and> tcbs_ok s2 (i # is) fs \<and> create_frame s s2 \<and> ready_set s2 = insert (unat prio) (ready_set s) \<and>
     OSTaskCtr s2 = OSTaskCtr s + 1 \<and> (\<forall>q j. task_at s2 q j \<longleftrightarrow> (if q = unat prio then j = i else task_at s q j)) \<and>
     (\<forall>j \<in> set fs. length (OSTCBTaskName (TCB s2 j)) = 32) \<and>
     OSTCBPrioTbl s2 = (OSTCBPrioTbl s)[unat prio := TCB_AT i]"
proof -
  obtain s1 where s1: "OSTaskCreateExt port task arg ptos prio tid pbos sz pext opt s = Some (OS_ERR_NONE, s1)"
    "kernel_wf s1" "tcbs_ok s1 (i # is) fs" "create_frame s s1" "ready_set s1 = insert (unat prio) (ready_set s)"
    "OSTaskCtr s1 = OSTaskCtr s + 1" "\<forall>q j. task_at s1 q j \<longleftrightarrow> (if q = unat prio then j = i else task_at s q j)"
    "length (OSTCBTaskName (TCB s1 i)) = length (OSTCBTaskName (TCB s i))" "\<forall>j \<in> set fs. TCB s1 j = TCB s j"
    "OSTCBPrioTbl s1 = (OSTCBPrioTbl s)[unat prio := TCB_AT i]"
    using create_step [OF wf l p free idle lvl, of port task arg ptos tid pbos sz pext opt] run by auto
  have n1: "OSIntNesting s1 = 0" using s1(4) lvl by (simp add: create_frame_def)
  have i1: "length (OSTCBPrioTbl s1) = 21" using s1(2) by (simp add: kernel_wf_def)
  obtain nm where nm: "OSTaskNameSet prio (Some src) (Some x) s1 =
      Some (Some OS_ERR_NONE, set_tcb i (\<lambda>t. t\<lparr> OSTCBTaskName := nm \<rparr>) s1)"
    using OSTaskNameSet_ok [OF _ i1 n1 src, of prio i x] s1(7,8) name by auto
  define s2 where "s2 = set_tcb i (\<lambda>t. t\<lparr> OSTCBTaskName := nm \<rparr>) s1"
  note r = rename_task [OF s2_def]
  have "i \<notin> set fs" using l by (auto simp: tcbs_ok_def)
  then have "TCB s2 j = TCB s j" if "j \<in> set fs" for j using that s1(9) by (auto simp: s2_def)
  moreover have "create_frame s s2" using s1(4) r(6) by (simp add: create_frame_def)
  ultimately show ?thesis
    using s1 nm name by (intro exI [of _ s2]) (simp add: r s2_def [symmetric])
qed

lemma c_bytes_string:
  "c_string (c_bytes ''uC/OS-II Idle'') (map of_char ''uC/OS-II Idle'')"
  "c_string (c_bytes ''uC/OS-II Stat'') (map of_char ''uC/OS-II Stat'')"
  by (simp_all add: c_string_def c_bytes_def)

lemma OS_InitTaskIdle_ok:
  assumes "kernel_wf s" "tcbs_ok s [] (i # fs)" "OSTCBPrioTbl s ! 20 = TCB_NULL" "OSIntNesting s = 0" "OSRunning s = OS_FALSE"
    "\<forall>j \<in> set (i # fs). length (OSTCBTaskName (TCB s j)) = 32"
  shows "\<exists>s2. OS_InitTaskIdle im s = Some s2 \<and>
     kernel_wf s2 \<and> tcbs_ok s2 [i] fs \<and> create_frame s s2 \<and> ready_set s2 = insert 20 (ready_set s) \<and>
     OSTaskCtr s2 = OSTaskCtr s + 1 \<and> (\<forall>q j. task_at s2 q j \<longleftrightarrow> (if q = 20 then j = i else task_at s q j)) \<and>
     (\<forall>j \<in> set fs. length (OSTCBTaskName (TCB s2 j)) = 32) \<and> OSTCBPrioTbl s2 = (OSTCBPrioTbl s)[20 := TCB_AT i]"
proof -
  have p: "unat OS_TASK_IDLE_PRIO = 20" "20 \<le> (20 :: nat)" by simp_all
  show ?thesis
    unfolding OS_InitTaskIdle_def
    by (rule create_named [of s "[]" i fs OS_TASK_IDLE_PRIO, unfolded p(1), OF assms(1,2) p(2) assms(3) _ assms(4,5)
          c_bytes_string(1) _ assms(6)]) simp_all
qed

lemma OS_InitTaskStat_ok:
  assumes "kernel_wf s" "tcbs_ok s (k # is) (i # fs)" "OSTCBPrioTbl s ! 19 = TCB_NULL" "OSIntNesting s = 0" "OSRunning s = OS_FALSE"
    "\<forall>j \<in> set (i # fs). length (OSTCBTaskName (TCB s j)) = 32"
  shows "\<exists>s2. OS_InitTaskStat im s = Some s2 \<and>
     kernel_wf s2 \<and> tcbs_ok s2 (i # k # is) fs \<and> create_frame s s2 \<and> ready_set s2 = insert 19 (ready_set s) \<and>
     OSTaskCtr s2 = OSTaskCtr s + 1 \<and> (\<forall>q j. task_at s2 q j \<longleftrightarrow> (if q = 19 then j = i else task_at s q j)) \<and>
     (\<forall>j \<in> set fs. length (OSTCBTaskName (TCB s2 j)) = 32) \<and> OSTCBPrioTbl s2 = (OSTCBPrioTbl s)[19 := TCB_AT i]"
proof -
  have p: "unat OS_TASK_STAT_PRIO = 19" "19 \<le> (20 :: nat)" by simp_all
  show ?thesis
    unfolding OS_InitTaskStat_def
    by (rule create_named [of s "k # is" i fs OS_TASK_STAT_PRIO, unfolded p(1), OF assms(1,2) p(2) assms(3) _ assms(4,5)
          c_bytes_string(2) _ assms(6)]) simp_all
qed

lemma OSInit_ok:
  "\<exists>s'. OSInit im s = Some s' \<and> kernel_ok s' \<and> tcbs_ok s' [1, 0] [2..<12] \<and> ready_set s' = {19, 20} \<and>
     (\<forall>p i. task_at s' p i \<longleftrightarrow> (p, i) \<in> {(20, 0), (19, 1)}) \<and> (\<forall>e. wait_set e s' = {}) \<and>
     OSTaskCtr s' = 2 \<and> OSRunning s' = OS_FALSE \<and> OSIntNesting s' = 0 \<and>
     OSEventFreeList s' = Some 0 \<and> OSQFreeList s' = Some 0 \<and> QCB s' = QCB (init_tables s) \<and>
     OSTCBPrioTbl s' = (replicate 21 TCB_NULL)[20 := TCB_AT 0, 19 := TCB_AT 1] \<and>
     (\<forall>e < 60. OSEventType (ECB s' e) = OS_EVENT_TYPE_UNUSED) \<and>
     (\<forall>e < 60. OSEventPtr (ECB s' e) = Event_Ptr (if e < 59 then Some (Suc e) else None)) \<and>
     OSLockNesting s' = 0 \<and> OSStatRdy s' = OS_FALSE \<and> OSTickStepState s' = OSTickStepState s"
proof -
  define s0 where "s0 = init_tables s"
  note f = init_tables_fields [where s = s, folded s0_def]
  note ok = init_tables_ok [where s = s, folded s0_def]
  have l0: "tcbs_ok s0 [] (0 # [1..<12])" using ok(2) by (simp add: upt_rec)
  have n0: "\<forall>j \<in> set (0 # [1..<12]). length (OSTCBTaskName (TCB s0 j)) = 32"
    using init_tables_tcb(2) [of _ s] by (auto simp: s0_def)
  have free0: "OSTCBPrioTbl s0 ! 20 = TCB_NULL" by (simp add: f(8) nth_Cons')
  obtain s2 where s2: "OS_InitTaskIdle im s0 = Some s2"
    "kernel_wf s2" "tcbs_ok s2 [0] [1..<12]" "create_frame s0 s2" "ready_set s2 = insert 20 (ready_set s0)"
    "OSTaskCtr s2 = OSTaskCtr s0 + 1" "\<forall>q j. task_at s2 q j \<longleftrightarrow> (if q = 20 then j = 0 else task_at s0 q j)"
    "\<forall>j \<in> set [1..<12]. length (OSTCBTaskName (TCB s2 j)) = 32" "OSTCBPrioTbl s2 = (OSTCBPrioTbl s0)[20 := TCB_AT 0]"
    using OS_InitTaskIdle_ok [OF ok(1) l0 free0 f(1,3) n0] by blast
  have "[1..<12] = 1 # [2..<(12 :: nat)]" by (simp add: eval_nat_numeral)
  then have l2: "tcbs_ok s2 [0] (1 # [2..<12])" using s2(3) by (simp only:)
  have n2: "\<forall>j \<in> set (1 # [2..<12]). length (OSTCBTaskName (TCB s2 j)) = 32" using s2(8) by auto
  have free2: "OSTCBPrioTbl s2 ! 19 = TCB_NULL" by (simp add: s2(9) f(8) nth_Cons')
  have lvl2: "OSIntNesting s2 = 0" "OSRunning s2 = OS_FALSE" using s2(4) f(1,3) by (simp_all add: create_frame_def)
  obtain s4 where s4: "OS_InitTaskStat im s2 = Some s4"
    "kernel_wf s4" "tcbs_ok s4 [1, 0] [2..<12]" "create_frame s2 s4" "ready_set s4 = insert 19 (ready_set s2)"
    "OSTaskCtr s4 = OSTaskCtr s2 + 1" "\<forall>q j. task_at s4 q j \<longleftrightarrow> (if q = 19 then j = 1 else task_at s2 q j)"
    "OSTCBPrioTbl s4 = (OSTCBPrioTbl s2)[19 := TCB_AT 1]"
    using OS_InitTaskStat_ok [OF s2(2) l2 free2 lvl2 n2] by blast
  have fr: "create_frame s0 s4" using s2(4) s4(4) by (simp add: create_frame_def)
  have at: "task_at s4 q j \<longleftrightarrow> (q, j) \<in> {(20, 0), (19, 1)}" for q j using s4(7) s2(7) ok(4) by auto
  have run: "OSInit im s = Some s4"
    unfolding OSInit_def Let_def init_tables_def [symmetric] s0_def [symmetric] by (simp only: Option.bind.simps s2(1) s4(1))
  have "wait_set e s4 = {}" for e
    using fr init_tables_events(3) [of e s] by (simp add: wait_set_def waiters_def create_frame_def s0_def)
  moreover have "kernel_ok s4" using s4(2,5) s2(5) by (simp add: kernel_ok_wf)
  moreover have "ready_set s4 = {19, 20}" using s4(5) s2(5) ok(3) by simp
  moreover have "OSTaskCtr s4 = 2" using s4(6) s2(6) f(4) by simp
  moreover have "OSRunning s4 = OS_FALSE" "OSIntNesting s4 = 0" "OSLockNesting s4 = 0" "OSEventFreeList s4 = Some 0"
    "OSQFreeList s4 = Some 0" "ECB s4 = ECB s0" "QCB s4 = QCB (init_tables s)"
    "OSStatRdy s4 = OS_FALSE" "OSTickStepState s4 = OSTickStepState s"
    using fr f by (simp_all add: create_frame_def s0_def)
  moreover have "OSTCBPrioTbl s4 = (replicate 21 TCB_NULL)[20 := TCB_AT 0, 19 := TCB_AT 1]" by (simp only: s4(8) s2(9) f(8))
  ultimately show ?thesis
    using run s4(3) at init_tables_events(1,2) [of _ s, folded s0_def]
    by - (rule exI [of _ s4], simp only: simp_thms HOL.all_simps, simp)
qed

end
