(* ===== verification/Sys_Kernel.thy ===== *)
theory Sys_Kernel imports Failure_Correct Os_Init begin

text \<open>
  The kernel as the running program uses it: the five tasks of the program, no timeouts, no timer
  ticks left over, the highest priority ready task running whenever no interrupt is served. Each
  kernel call of the tasks, the callbacks and the interrupts keeps this, and the theory says for each
  which task may come to wait where.
\<close>

section \<open>A settled kernel\<close>

text \<open>A task that waits does so without a timeout, has not been woken and is not suspended.\<close>

definition untimed :: "os_state \<Rightarrow> bool" where
  "untimed k \<longleftrightarrow> (\<forall>p i e. task_at k p i \<and> p \<in> wait_set e k \<longrightarrow>
     OSTCBDly (TCB k i) = 0 \<and> pend_bits (OSTCBStat (TCB k i)) \<noteq> 0 \<and> \<not> suspended (TCB k i))"

lemma untimedD:
  assumes "untimed k" "task_at k p i" "p \<in> wait_set e k"
  shows "OSTCBDly (TCB k i) = 0" "pend_bits (OSTCBStat (TCB k i)) \<noteq> 0" "\<not> suspended (TCB k i)"
  using assms unfolding untimed_def by blast+

definition program_tasks :: "nat set" where
  "program_tasks = {FAILURE_HANDLER_TASK_PRIORITY, SOLENOID_TASK_PRIORITY, THROTTLE_CONTROL_TASK_PRIORITY,
     unat OS_TASK_STAT_PRIO, OS_LOWEST_PRIO}"

text \<open>At interrupt level \<open>n\<close>: before and after the scheduler has run.\<close>

definition calm :: "INT8U \<Rightarrow> os_state \<Rightarrow> bool" where
  "calm n k \<longleftrightarrow> started n k \<and> untimed k \<and> OSStatRdy k = OS_FALSE \<and> (\<forall>p i. task_at k p i \<longrightarrow> p \<in> program_tasks)"

definition settled :: "INT8U \<Rightarrow> os_state \<Rightarrow> bool" where
  "settled n k \<longleftrightarrow> calm n k \<and> (n = 0 \<longrightarrow> highest_runs k)"

lemma calmD:
  assumes "calm n k"
  shows "kernel_ok k" "cur_ok k" "OSIntNesting k = n" "OSLockNesting k = 0" "untimed k" "started n k" "list_ok k"
    "OSStatRdy k = OS_FALSE" "\<And>p i. task_at k p i \<Longrightarrow> p \<in> program_tasks"
  using assms by (auto simp: calm_def started_def)

lemma settledD: "settled n k \<Longrightarrow> calm n k" "settled 0 k \<Longrightarrow> highest_runs k"
  by (simp_all add: settled_def)

text \<open>A waiting task is not ready, so the running task waits nowhere.\<close>

lemma waiting_not_ready:
  assumes "calm n k" "p \<in> wait_set e k"
  shows "p \<notin> ready_set k"
proof -
  obtain i where at: "task_at k p i" using kernel_okD(6) [OF calmD(1) [OF assms(1)] assms(2)] by blast
  then have "pend_bits (OSTCBStat (TCB k i)) \<noteq> 0"
    using untimedD(2) [OF calmD(5) [OF assms(1)]] assms(2) by blast
  then have "\<not> runnable (TCB k i)" by (auto simp: runnable_def pend_bits_def)
  then show ?thesis using task_okD(4) [OF kernel_okD(4) [OF calmD(1) [OF assms(1)] at]] by simp
qed

lemma settled_running:
  assumes "settled 0 k"
  obtains i where "running_task k (unat (OSPrioCur k)) i"
proof -
  note c = settledD(1) [OF assms]
  obtain i where i: "OSTCBCur k = TCB_AT i" "task_at k (unat (OSPrioCur k)) i"
    using calmD(2) [OF c] by (auto simp: cur_ok_def)
  have "Min (ready_set k) \<in> ready_set k"
    using ready_not_empty [OF calmD(1) [OF c]] bm.finite_law [OF kernel_okD(2) [OF calmD(1) [OF c]]]
    unfolding ready_set_def by (intro Min_in)
  then have "unat (OSPrioCur k) \<in> ready_set k" using settledD(2) [OF assms] by (simp add: highest_runs_def)
  moreover from this have "unat (OSPrioCur k) \<notin> wait_set e k" for e using waiting_not_ready [OF c] by blast
  ultimately show thesis using that [of i] i by (simp add: running_task_def)
qed

section \<open>Keeping it settled\<close>

text \<open>Fewer waiting tasks, and those left are as they were.\<close>

lemma untimed_less:
  assumes "untimed k" "\<And>p i. task_at k' p i \<Longrightarrow> task_at k p i" "\<And>e. wait_set e k' \<subseteq> wait_set e k"
    and "\<And>p i e. task_at k p i \<Longrightarrow> p \<in> wait_set e k' \<Longrightarrow>
      OSTCBDly (TCB k' i) = OSTCBDly (TCB k i) \<and> OSTCBStat (TCB k' i) = OSTCBStat (TCB k i)"
  shows "untimed k'"
  using assms unfolding untimed_def suspended_def by (metis subsetD)

lemma calm_keep:
  assumes "calm n k" "os_keep k k'" "untimed k'" "OSStatRdy k' = OSStatRdy k"
  shows "calm n k'"
  using assms started_keep [of n k k'] os_keepD(10) [OF assms(2)] by (simp add: calm_def)

lemma switch_stat: "switch_frame k k' \<Longrightarrow> OSStatRdy k' = OSStatRdy k"
  unfolding switch_frame_def by (cases k; cases k') simp

lemma frame_stat: "sched_frame k k' \<Longrightarrow> OSStatRdy k' = OSStatRdy k"
  unfolding sched_frame_def by (cases k; cases k') simp

text \<open>The lists of free blocks.\<close>

definition free_blocks :: "os_state \<Rightarrow> event_ptr \<times> nat option \<times> (nat \<Rightarrow> void_ptr) \<times> (nat \<Rightarrow> nat option)" where
  "free_blocks k = (OSEventFreeList k, OSQFreeList k, \<lambda>e. OSEventPtr (ECB k e), \<lambda>q. OSQPtr (QCB k q))"

lemma free_blocks_frame: "sched_frame k k' \<Longrightarrow> free_blocks k' = free_blocks k"
  using sched_frame_event [of k k'] unfolding sched_frame_def free_blocks_def by (cases k; cases k') simp

lemma free_blocks_switch: "switch_frame k k' \<Longrightarrow> free_blocks k' = free_blocks k"
  unfolding switch_frame_def free_blocks_def by (cases k; cases k') simp

lemma untimed_switch: "switch_frame k k' \<Longrightarrow> untimed k' = untimed k"
  by (simp add: untimed_def suspended_def switch_frame_sets switch_frame_task)

text \<open>A delayed task: neither ready nor waiting for an event. No call but the tick touches it.\<close>

definition asleep :: "nat \<Rightarrow> os_state \<Rightarrow> bool" where
  "asleep p k \<longleftrightarrow> p \<notin> ready_set k \<and> (\<forall>e. p \<notin> wait_set e k)"

text \<open>A task that has delayed itself and has \<open>d\<close> ticks to go.\<close>

definition sleeping :: "nat \<Rightarrow> nat \<Rightarrow> os_state \<Rightarrow> bool" where
  "sleeping d p k \<longleftrightarrow> asleep p k \<and> (\<exists>i. task_at k p i \<and> OSTCBStat (TCB k i) = 0 \<and> unat (OSTCBDly (TCB k i)) = d)"

text \<open>What a control block says of a wait, a delay and a message.\<close>

definition wait_view :: "OS_TCB \<Rightarrow> INT16U \<times> INT8U \<times> INT8U \<times> msg" where
  "wait_view t = (OSTCBDly t, OSTCBStat t, OSTCBStatPend t, OSTCBMsg t)"

text \<open>A task that neither waits nor is the running task \<open>r\<close> stays as it is.\<close>

definition undisturbed :: "nat \<Rightarrow> os_state \<Rightarrow> os_state \<Rightarrow> bool" where
  "undisturbed r k k' \<longleftrightarrow> (\<forall>p i. task_at k p i \<and> (p = r \<longrightarrow> p \<notin> ready_set k) \<and> (\<forall>e. p \<notin> wait_set e k) \<longrightarrow>
     (\<forall>e. p \<notin> wait_set e k') \<and> (p \<notin> ready_set k \<longrightarrow> p \<notin> ready_set k') \<and> wait_view (TCB k' i) = wait_view (TCB k i))"

text \<open>What changes the task \<open>p\<close>, which is running or waits, disturbs nobody else.\<close>

lemma undisturbed_one:
  assumes ok: "kernel_ok k" and at: "task_at k p i" "p = r \<and> p \<in> ready_set k \<or> p \<in> wait_set e k"
    and t: "\<And>j. j \<noteq> i \<Longrightarrow> wait_view (TCB k' j) = wait_view (TCB k j)"
    and s: "ready_set k' \<subseteq> insert p (ready_set k)" "\<And>e. wait_set e k' \<subseteq> insert p (wait_set e k)"
  shows "undisturbed r k k'"
  unfolding undisturbed_def
proof (intro allI impI)
  fix q j assume a: "task_at k q j \<and> (q = r \<longrightarrow> q \<notin> ready_set k) \<and> (\<forall>e. q \<notin> wait_set e k)"
  then have q: "q \<noteq> p" using at(2) by blast
  then have "j \<noteq> i" using a at(1) task_at_inj [OF ok] by blast
  then show "(\<forall>e. q \<notin> wait_set e k') \<and> (q \<notin> ready_set k \<longrightarrow> q \<notin> ready_set k') \<and> wait_view (TCB k' j) = wait_view (TCB k j)"
    using t a q s by blast
qed

lemma undisturbed_same:
  assumes "ready_set k' = ready_set k1" "\<And>e. wait_set e k' = wait_set e k1" "\<And>i. wait_view (TCB k' i) = wait_view (TCB k1 i)"
    and "undisturbed r k k1"
  shows "undisturbed r k k'"
  using assms(4) unfolding undisturbed_def assms(1-3) .

lemma undisturbed_refl [simp]: "undisturbed r k k"
  by (simp add: undisturbed_def)

lemma undisturbed_trans:
  assumes "undisturbed r k k'" "undisturbed r k' k''" "\<And>p i. task_at k' p i = task_at k p i"
  shows "undisturbed r k k''"
  using assms unfolding undisturbed_def by metis

text \<open>At task level the running task is the exception, inside an interrupt there is none.\<close>

definition runner :: "INT8U \<Rightarrow> os_state \<Rightarrow> nat" where
  "runner n k = (if n = 0 then unat (OSPrioCur k) else 0)"

lemma runner_simps [simp]: "runner 0 k = unat (OSPrioCur k)" "runner 1 k = 0"
  by (simp_all add: runner_def)

lemma runner_same: "n \<noteq> 0 \<or> OSPrioCur k' = OSPrioCur k \<Longrightarrow> runner n k' = runner n k"
  by (auto simp: runner_def)

text \<open>What a kernel call leaves behind.\<close>

definition onward :: "INT8U \<Rightarrow> os_state \<Rightarrow> os_state \<Rightarrow> bool" where
  "onward n k k' \<longleftrightarrow> settled n k' \<and> os_keep k k' \<and> undisturbed (runner n k) k k'"

lemma onwardD: "onward n k k' \<Longrightarrow> settled n k'" "onward n k k' \<Longrightarrow> os_keep k k'"
  "onward n k k' \<Longrightarrow> undisturbed (runner n k) k k'"
  by (simp_all add: onward_def)

lemma onward_trans:
  assumes "onward n k k'" "n \<noteq> 0 \<or> OSPrioCur k' = OSPrioCur k" "onward n k' k''"
  shows "onward n k k''"
  using assms(1,3) runner_same [OF assms(2)] os_keep_trans [of k k' k''] undisturbed_trans [of "runner n k" k k' k''] os_keepD(10) [of k k']
  by (simp add: onward_def)

lemma onward_refl: "settled n k \<Longrightarrow> onward n k k"
  by (simp add: onward_def os_keep_refl calmD(1,2) [OF settledD(1)])

text \<open>The end of the calls that reschedule.\<close>

lemma sched_onward:
  assumes s: "settled n k" and fr: "sched_frame k k1" and ok: "kernel_ok k1" and u: "untimed k1"
    and t: "\<And>i. OSTCBPrio (TCB k1 i) = OSTCBPrio (TCB k i) \<and> OSTCBNext (TCB k1 i) = OSTCBNext (TCB k i)"
    and und: "undisturbed (runner n k) k k1" and go: "OS_Sched k1 = Some k'"
  shows "onward n k k'" "wait_set e k' = wait_set e k1" "ready_set k' = ready_set k1"
    "QCB k' = QCB k" "storage k' = storage k" "free_blocks k' = free_blocks k"
    "n \<noteq> 0 \<Longrightarrow> OSPrioCur k' = OSPrioCur k"
proof -
  note c = settledD(1) [OF s]
  have keep: "os_keep k k1" by (rule frame_keep [OF fr ok calmD(2) [OF c] t])
  have c1: "calm n k1" by (rule calm_keep [OF c keep u frame_stat [OF fr]])
  obtain k2 where k2: "OS_Sched k1 = Some k2" "switch_frame k1 k2" "kernel_ok k2" "cur_ok k2"
    "OSIntNesting k1 = 0 \<and> OSLockNesting k1 = 0 \<Longrightarrow> highest_runs k2"
    using sched_after [OF calmD(1,2) [OF c1]] by metis
  have [simp]: "k2 = k'" using k2(1) go by simp
  have keep1: "os_keep k1 k'" using switch_keep k2(2-4) by simp
  have "calm n k'" using calm_keep [OF c1 keep1] u untimed_switch switch_stat k2(2) by simp
  then have "settled n k'" using k2(5) calmD(3,4) [OF c1] by (simp add: settled_def)
  moreover have "undisturbed (runner n k) k k'"
    by (rule undisturbed_same [OF _ _ _ und]) (use k2(2) in \<open>simp_all add: switch_frame_sets switch_frame_task wait_view_def\<close>)
  ultimately show "onward n k k'" using os_keep_trans [OF keep keep1] by (simp add: onward_def)
  show "wait_set e k' = wait_set e k1" "ready_set k' = ready_set k1" "QCB k' = QCB k" "storage k' = storage k"
    using switch_frame_sets [OF k2(2)] sched_frame_tbl [OF fr] by simp_all
  show "free_blocks k' = free_blocks k" using free_blocks_frame [OF fr] free_blocks_switch [OF k2(2)] by simp
  show "OSPrioCur k' = OSPrioCur k" if "n \<noteq> 0"
    using OS_Sched_locked [of k1] go that calmD(3) [OF c1] sched_frame_tbl [OF fr] by simp
qed

text \<open>The calls that do not reschedule.\<close>

lemma still_onward:
  assumes "settled n k" "os_keep k k'" "OSStatRdy k' = OSStatRdy k" "TCB k' = TCB k" "\<And>e. wait_set e k' = wait_set e k"
    "ready_set k' = ready_set k" "OSPrioCur k' = OSPrioCur k" "OSTCBCur k' = OSTCBCur k"
  shows "onward n k k'"
proof -
  note c = settledD(1) [OF assms(1)]
  have at: "task_at k' p i = task_at k p i" for p i using os_keepD(10) [OF assms(2)] .
  have "untimed k'" using calmD(5) [OF c] assms(4,5) at by (simp add: untimed_def)
  then have "calm n k'" by (rule calm_keep [OF c assms(2) _ assms(3)])
  moreover have "highest_runs k' = highest_runs k" using assms(6-8) at by (simp add: highest_runs_def cur_ok_def)
  moreover have "undisturbed (runner n k) k k'" by (rule undisturbed_same [OF _ _ _ undisturbed_refl]) (simp_all add: assms)
  ultimately show ?thesis using assms(1,2) by (simp add: settled_def onward_def)
qed

text \<open>A call after which nobody has come to wait and the same task runs.\<close>

definition quiet :: "INT8U \<Rightarrow> os_state \<Rightarrow> os_state \<Rightarrow> bool" where
  "quiet n k k' \<longleftrightarrow> onward n k k' \<and> (\<forall>e. wait_set e k' = wait_set e k) \<and> OSPrioCur k' = OSPrioCur k \<and>
     ready_set k \<subseteq> ready_set k'"

lemma quietD:
  assumes "quiet n k k'"
  shows "settled n k'" "os_keep k k'" "onward n k k'" "wait_set e k' = wait_set e k" "OSPrioCur k' = OSPrioCur k"
    "ready_set k \<subseteq> ready_set k'"
  using assms by (simp_all add: quiet_def onward_def)

lemma quiet_refl: "settled n k \<Longrightarrow> quiet n k k"
  by (simp add: quiet_def onward_refl)

text \<open>The same when somebody may have been woken.\<close>

definition eased :: "INT8U \<Rightarrow> os_state \<Rightarrow> os_state \<Rightarrow> bool" where
  "eased n k k' \<longleftrightarrow> onward n k k' \<and> (\<forall>e. wait_set e k' \<subseteq> wait_set e k) \<and> OSPrioCur k' = OSPrioCur k \<and>
     ready_set k \<subseteq> ready_set k'"

lemma easedD:
  assumes "eased n k k'"
  shows "settled n k'" "os_keep k k'" "onward n k k'" "wait_set e k' \<subseteq> wait_set e k" "OSPrioCur k' = OSPrioCur k"
    "ready_set k \<subseteq> ready_set k'"
  using assms by (simp_all add: eased_def onward_def)

lemma quiet_eased: "quiet n k k' \<Longrightarrow> eased n k k'"
  by (simp add: quiet_def eased_def)

lemma eased_trans: "eased n k k' \<Longrightarrow> eased n k' k'' \<Longrightarrow> eased n k k''"
  using onward_trans [of n k k' k''] unfolding eased_def by (metis subset_trans)

lemma still_quiet:
  assumes "settled n k" "os_keep k k'" "OSStatRdy k' = OSStatRdy k" "TCB k' = TCB k" "\<And>e. wait_set e k' = wait_set e k"
    "ready_set k' = ready_set k" "OSPrioCur k' = OSPrioCur k" "OSTCBCur k' = OSTCBCur k"
  shows "quiet n k k'"
  using still_onward [OF assms] assms(5-7) by (simp add: quiet_def)

lemma set_cnt_quiet:
  assumes "settled n k"
  shows "quiet n k (set_cnt e c k)"
proof -
  note c = settledD(1) [OF assms]
  have "OSStatRdy (set_cnt e c k) = OSStatRdy k" by (simp add: set_cnt_def set_event_def)
  then show ?thesis by (intro still_quiet [OF assms set_cnt_keep [OF calmD(1,2) [OF c]]]) simp_all
qed

lemma set_ring_quiet:
  assumes "settled n k" "ring_ok r"
  shows "quiet n k (set_ring q r k)"
proof -
  note c = settledD(1) [OF assms(1)]
  have "OSStatRdy (set_ring q r k) = OSStatRdy k" by (simp add: set_ring_def)
  then show ?thesis by (intro still_quiet [OF assms(1) set_ring_keep [OF calmD(1,2) [OF c] assms(2)]]) simp_all
qed

section \<open>Taking without waiting\<close>

lemma accept_quiet:
  assumes "settled n k" "is_sem e k"
  shows "\<exists>k'. OSSemAccept (Some e) k = (OSEventCnt (ECB k e), k') \<and> quiet n k k'"
  using OSSemAccept_cnt [OF assms(2)] set_cnt_quiet [OF assms(1)] quiet_refl [OF assms(1)]
  by (auto simp: Let_def)

lemma ring_take_ok:
  assumes "ring_ok r" "ring_contents r \<noteq> []" "ring_take r = (m, r')"
  shows "ring_ok r'" "ring_contents r = m # ring_contents r'"
  using ring.get_law [of r] assms by (cases "ring_contents r"; auto)+

lemma q_accept_quiet:
  assumes s: "settled n k" and q: "is_queue e q k"
  shows "\<exists>m err k'. OSQAccept (Some e) (Some x) k = Some (m, err, k') \<and> quiet n k k' \<and>
     (case messages q k of [] \<Rightarrow> m = 0 | r # rs \<Rightarrow> m = r)"
proof (cases "messages q k = []")
  case True
  moreover from this have "\<not> 0 < OSQEntries (QCB k q)" using queue_empty_iff [OF q] by simp
  ultimately show ?thesis using q quiet_refl [OF s] by (auto simp: OSQAccept_def is_queue_def)
next
  case False
  then have e: "0 < OSQEntries (QCB k q)" using queue_empty_iff [OF q] by simp
  obtain m r where r: "ring_take (get_ring q k) = (m, r)" by (cases "ring_take (get_ring q k)") blast
  have "ring_ok r" "messages q k = m # ring_contents r"
    using ring_take_ok [OF _ _ r] q False by (simp_all add: is_queue_def messages_def)
  then show ?thesis using e r q set_ring_quiet [OF s] by (auto simp: OSQAccept_def is_queue_def)
qed

lemma flush_quiet:
  assumes s: "settled n k" and q: "is_queue e q k"
  shows "\<exists>err k'. OSQFlush (Some e) k = Some (err, k') \<and> quiet n k k'"
proof -
  have "ring_ok (ring_flush (get_ring q k))" using ring.flush_law q by (simp add: is_queue_def)
  then show ?thesis using q set_ring_quiet [OF s] by (auto simp: OSQFlush_def is_queue_def)
qed

section \<open>Waiting\<close>

text \<open>The running task of priority \<open>p\<close> comes to wait at \<open>e\<close>.\<close>

definition parks :: "nat \<Rightarrow> nat \<Rightarrow> os_state \<Rightarrow> os_state \<Rightarrow> bool" where
  "parks p e k k' \<longleftrightarrow> onward 0 k k' \<and> (\<forall>e'. wait_set e' k' = (if e' = e then insert p (wait_set e k) else wait_set e' k)) \<and>
     ready_set k' = ready_set k - {p} \<and> QCB k' = QCB k \<and> free_blocks k' = free_blocks k"

lemma block_parks:
  assumes s: "settled 0 k" and p: "OSPrioCur k \<noteq> 20"
    and msk: "event_mask (OSEventType (ECB k e)) = msk" "msk \<noteq> 0"
  shows "\<exists>i k1 k'. OSTCBCur k = TCB_AT i \<and>
     OS_EventTaskWait e (set_tcb i (\<lambda>t. t\<lparr> OSTCBStat := OSTCBStat t OR msk,
             OSTCBStatPend := OS_STAT_PEND_OK, OSTCBDly := 0 \<rparr>) k) = Some k1 \<and>
     OS_Sched k1 = Some k' \<and> parks (unat (OSPrioCur k)) e k k'"
proof -
  note c = settledD(1) [OF s]
  define p where "p = unat (OSPrioCur k)"
  obtain i where i: "running_task k p i" using settled_running [OF s] p_def by blast
  have p20: "p \<noteq> 20" using p by (simp add: p_def word_unat_eq_iff)
  have run: "OSTCBCur k = TCB_AT i" "task_at k p i" "p \<in> ready_set k" "\<And>e. p \<notin> wait_set e k"
    using i by (auto simp: running_task_def)
  obtain k1 where k1: "OS_EventTaskWait e (set_tcb i (\<lambda>t. t\<lparr> OSTCBStat := OSTCBStat t OR msk,
             OSTCBStatPend := OS_STAT_PEND_OK, OSTCBDly := 0 \<rparr>) k) = Some k1" "kernel_ok k1" "sched_frame k k1"
    "TCB k1 = (TCB k)(i := blocked e 0 msk (TCB k i))" "ready_set k1 = ready_set k - {p}"
    "wait_set e k1 = insert p (wait_set e k)" "\<forall>e'. e' \<noteq> e \<longrightarrow> wait_set e' k1 = wait_set e' k"
    using OS_EventTaskWait_ok [OF calmD(1) [OF c] run(1,2) p20 run(3,4) msk refl] by blast
  have at: "task_at k1 q j = task_at k q j" for q j using sched_frame_tbl [OF k1(3)] by (simp add: task_at_def)
  have "untimed k1"
    unfolding untimed_def
  proof (intro allI impI)
    fix q j e' assume a: "task_at k1 q j \<and> q \<in> wait_set e' k1"
    show "OSTCBDly (TCB k1 j) = 0 \<and> pend_bits (OSTCBStat (TCB k1 j)) \<noteq> 0 \<and> \<not> suspended (TCB k1 j)"
    proof (cases "j = i")
      case True
      have "p \<in> wait_set e k1" using k1(6) by simp
      moreover have "p \<notin> ready_set k1" using k1(5) by simp
      moreover have "task_at k1 p i" using run(2) at by simp
      note tok = kernel_okD(4) [OF k1(2) this]
      ultimately have "\<not> runnable (TCB k1 i)" using task_okD(4) by blast
      moreover have "OSTCBDly (TCB k1 i) = 0" using k1(4) by (simp add: blocked_def)
      moreover have "OSTCBStatPend (TCB k1 i) \<noteq> OS_STAT_PEND_TO" using k1(4) by (simp add: blocked_def)
      then have "pend_bits (OSTCBStat (TCB k1 i)) \<noteq> 0" using task_okD(8) [OF tok \<open>p \<in> wait_set e k1\<close>] by blast
      moreover have "OSTCBStat (TCB k i) = 0"
        using task_okD(4) [OF kernel_okD(4) [OF calmD(1) [OF c] run(2)]] run(3) by (simp add: runnable_def)
      then have "\<not> suspended (TCB k1 i)" using k1(4) msk(1) event_mask_no_suspend by (auto simp: blocked_def suspended_def)
      ultimately show ?thesis using True by simp
    next
      case False
      then have "q \<noteq> p" using a at task_at_fun run(2) by metis
      then have "q \<in> wait_set e' k" using a k1(6,7) by (cases "e' = e") auto
      then show ?thesis using untimedD [OF calmD(5) [OF c], of q j e'] a at False k1(4) by simp
    qed
  qed
  moreover have und: "undisturbed (runner 0 k) k k1"
  proof (rule undisturbed_one [OF calmD(1) [OF c] run(2)])
    show "wait_set e' k1 \<subseteq> insert p (wait_set e' k)" for e' using k1(6,7) by (cases "e' = e") auto
  qed (use run(3) k1(4,5) p_def in auto)
  moreover have "OSTCBPrio (TCB k1 j) = OSTCBPrio (TCB k j) \<and> OSTCBNext (TCB k1 j) = OSTCBNext (TCB k j)" for j
    using k1(4) by (simp add: blocked_def)
  moreover have cur1: "cur_ok k1" using cur_ok_frame [OF k1(3)] calmD(2) [OF c] by simp
  ultimately obtain k' where k': "OS_Sched k1 = Some k'" using sched_after [OF k1(2) cur1] by metis
  have "parks p e k k'"
    using sched_onward(1-4,6) [OF s k1(3,2) \<open>untimed k1\<close> _ und k'] k1(4-7) by (simp add: parks_def blocked_def)
  then show ?thesis using run(1) k1(1) k' p_def by blast
qed

lemma sem_pend_parks:
  assumes s: "settled 0 k" and p: "OSPrioCur k \<noteq> 20" and e: "is_sem e k"
  shows "\<exists>r err k'. OSSemPend_enter (Some e) 0 (Some x) k = Some (r, err, k') \<and>
     (if r then quiet 0 k k' else parks (unat (OSPrioCur k)) e k k')"
proof (cases "0 < OSEventCnt (ECB k e)")
  case True
  then have "OSSemPend_enter (Some e) 0 (Some x) k = Some (True, Some OS_ERR_NONE, set_cnt e (OSEventCnt (ECB k e) - 1) k)"
    using e calmD(3,4) [OF settledD(1) [OF s]] by (simp add: OSSemPend_enter_def is_sem_def set_cnt_def set_event_def)
  then show ?thesis using set_cnt_quiet [OF s] by auto
next
  case False
  obtain i k1 k' where k': "OSTCBCur k = TCB_AT i" "OS_EventTaskWait e (set_tcb i (\<lambda>t. t\<lparr> OSTCBStat := OSTCBStat t OR 1,
             OSTCBStatPend := OS_STAT_PEND_OK, OSTCBDly := 0 \<rparr>) k) = Some k1" "OS_Sched k1 = Some k'"
    "parks (unat (OSPrioCur k)) e k k'"
    using block_parks [OF s p sem_mask [OF e]] by auto
  then have "OSSemPend_enter (Some e) 0 (Some x) k = Some (False, Some x, k')"
    using False e calmD(3,4) [OF settledD(1) [OF s]] by (simp add: OSSemPend_enter_def is_sem_def)
  then show ?thesis using k'(4) by auto
qed

lemma q_pend_blocks:
  assumes s: "settled 0 k" and p: "OSPrioCur k \<noteq> 20" and q: "is_queue e q k" and m: "messages q k = []"
  shows "\<exists>k'. OSQPend_enter (Some e) 0 (Some x) k = Some (False, 0, Some x, k') \<and> parks (unat (OSPrioCur k)) e k k'"
proof -
  have n: "\<not> 0 < OSQEntries (QCB k q)" using queue_empty_iff [OF q] m by simp
  obtain i k1 k' where k': "OSTCBCur k = TCB_AT i" "OS_EventTaskWait e (set_tcb i (\<lambda>t. t\<lparr> OSTCBStat := OSTCBStat t OR 4,
             OSTCBStatPend := OS_STAT_PEND_OK, OSTCBDly := 0 \<rparr>) k) = Some k1" "OS_Sched k1 = Some k'"
    "parks (unat (OSPrioCur k)) e k k'"
    using block_parks [OF s p queue_mask [OF q]] by auto
  then have "OSQPend_enter (Some e) 0 (Some x) k = Some (False, 0, Some x, k')"
    using n q calmD(3,4) [OF settledD(1) [OF s]] by (simp add: OSQPend_enter_def is_queue_def)
  then show ?thesis using k'(4) by blast
qed

lemma q_pend_parks:
  assumes s: "settled 0 k" and p: "OSPrioCur k \<noteq> 20" and q: "is_queue e q k"
  shows "\<exists>r m err k'. OSQPend_enter (Some e) 0 (Some x) k = Some (r, m, err, k') \<and>
     (if r then quiet 0 k k' else parks (unat (OSPrioCur k)) e k k')"
proof (cases "messages q k = []")
  case True
  then show ?thesis using q_pend_blocks [OF s p q] by fastforce
next
  case False
  then have n: "0 < OSQEntries (QCB k q)" using queue_empty_iff [OF q] by simp
  obtain m r where r: "ring_take (get_ring q k) = (m, r)" by (cases "ring_take (get_ring q k)") blast
  have "ring_ok r" by (rule ring_take_ok [OF _ _ r]) (use q False in \<open>simp_all add: is_queue_def messages_def\<close>)
  then show ?thesis
    using n r q set_ring_quiet [OF s] calmD(3,4) [OF settledD(1) [OF s]] by (auto simp: OSQPend_enter_def is_queue_def)
qed

text \<open>Coming back: nobody has timed out, so the task has been woken and only its control block changes.\<close>

lemma resumed_quiet:
  assumes s: "settled 0 k" and i: "OSTCBCur k = TCB_AT i"
    and k': "sched_frame k k'" "kernel_ok k'" "TCB k' = (TCB k)(i := t)" "\<And>e. wait_set e k' = wait_set e k"
      "ready_set k' = ready_set k"
    and t: "OSTCBPrio t = OSTCBPrio (TCB k i)" "OSTCBNext t = OSTCBNext (TCB k i)"
  shows "quiet 0 k k'"
proof -
  note c = settledD(1) [OF s]
  define p where "p = unat (OSPrioCur k)"
  obtain i' where "running_task k p i'" using settled_running [OF s] p_def by blast
  then have run: "running_task k p i" using i by (auto simp: running_task_def)
  have fr: "OSPrioCur k' = OSPrioCur k" "OSTCBCur k' = OSTCBCur k" using sched_frame_tbl [OF k'(1)] by simp_all
  have keep: "os_keep k k'" by (rule frame_keep [OF k'(1,2) calmD(2) [OF c]]) (use k'(3) t in simp)
  have at: "task_at k' q j = task_at k q j" for q j using os_keepD(10) [OF keep] .
  have "untimed k'"
  proof (rule untimed_less [OF calmD(5) [OF c]])
    fix q j e assume a: "task_at k q j" "q \<in> wait_set e k'"
    then have "q \<noteq> p" using run k'(4) by (auto simp: running_task_def)
    then have "j \<noteq> i" using a(1) run task_at_inj [OF calmD(1) [OF c]] by (auto simp: running_task_def)
    then show "OSTCBDly (TCB k' j) = OSTCBDly (TCB k j) \<and> OSTCBStat (TCB k' j) = OSTCBStat (TCB k j)"
      using k'(3) by simp
  qed (simp_all add: at k'(4))
  then have "calm 0 k'" by (rule calm_keep [OF c keep _ frame_stat [OF k'(1)]])
  moreover have "highest_runs k' = highest_runs k" using fr at k'(5) by (simp add: highest_runs_def cur_ok_def)
  moreover have "undisturbed (runner 0 k) k k'"
    by (rule undisturbed_one [OF calmD(1) [OF c], of p i]) (use run k'(3-5) p_def in \<open>auto simp: running_task_def\<close>)
  ultimately show ?thesis using s keep k'(4,5) fr by (simp add: quiet_def onward_def settled_def)
qed

lemma sem_resume_quiet:
  assumes s: "settled 0 k"
  shows "\<exists>err k'. OSSemPend_resume e k = Some (err, k') \<and> quiet 0 k k'"
proof -
  obtain i where i: "running_task k (unat (OSPrioCur k)) i" using settled_running [OF s] by blast
  define p where "p = unat (OSPrioCur k)"
  have run: "OSTCBCur k = TCB_AT i" "task_at k p i" "p \<in> ready_set k" "\<And>e. p \<notin> wait_set e k"
    using i by (auto simp: running_task_def p_def)
  note ok = calmD(1) [OF settledD(1) [OF s]]
  have "\<forall>e'. p \<in> wait_set e' k \<longrightarrow> e' = e" using run(4) by blast
  from resume_step [OF ok run(2,3) this] obtain k1 where k1:
    "(if OSTCBStatPend (TCB k i) = OS_STAT_PEND_OK \<or> OSTCBStatPend (TCB k i) = OS_STAT_PEND_ABORT
      then Some k else OS_EventTaskRemove i e k) = Some k1" "rdy k1 = rdy k" "TCB k1 = TCB k"
    "sched_frame k k1" "\<forall>e'. wait_set e' k1 = wait_set e' k - {p}" "kernel_ok (set_tcb i resumed k1)" by blast
  define k' where "k' = set_tcb i resumed k1"
  have "\<exists>err. OSSemPend_resume e k = Some (err, k')"
    using run(1) k1(1) by (auto simp: OSSemPend_resume_def resumed_def [abs_def] k'_def split: if_splits)
  moreover have "quiet 0 k k'"
  proof (rule resumed_quiet [OF s run(1)])
    show "sched_frame k k'" using k1(4) by (simp add: k'_def)
    show "kernel_ok k'" using k1(6) by (simp add: k'_def)
    show "TCB k' = (TCB k)(i := resumed (TCB k i))" using k1(3) by (simp add: k'_def)
    show "wait_set e' k' = wait_set e' k" for e' using k1(5) run(4) by (simp add: k'_def wait_set_def)
    show "ready_set k' = ready_set k" using k1(2) by (simp add: k'_def ready_set_def)
  qed (simp_all add: resumed_def)
  ultimately show ?thesis by blast
qed

lemma q_resume_quiet:
  assumes s: "settled 0 k"
  shows "\<exists>m err k'. OSQPend_resume e k = Some (m, err, k') \<and> quiet 0 k k'"
proof -
  obtain i where i: "running_task k (unat (OSPrioCur k)) i" using settled_running [OF s] by blast
  define p where "p = unat (OSPrioCur k)"
  have run: "OSTCBCur k = TCB_AT i" "task_at k p i" "p \<in> ready_set k" "\<And>e. p \<notin> wait_set e k"
    using i by (auto simp: running_task_def p_def)
  note ok = calmD(1) [OF settledD(1) [OF s]]
  have "\<forall>e'. p \<in> wait_set e' k \<longrightarrow> e' = e" using run(4) by blast
  from resume_step [OF ok run(2,3) this] obtain k1 where k1:
    "(if OSTCBStatPend (TCB k i) = OS_STAT_PEND_OK \<or> OSTCBStatPend (TCB k i) = OS_STAT_PEND_ABORT
      then Some k else OS_EventTaskRemove i e k) = Some k1" "rdy k1 = rdy k" "TCB k1 = TCB k"
    "sched_frame k k1" "\<forall>e'. wait_set e' k1 = wait_set e' k - {p}" "kernel_ok (set_tcb i resumed k1)" by blast
  define k' where "k' = set_tcb i (\<lambda>t. (resumed t)\<lparr> OSTCBMsg := 0 \<rparr>) k1"
  have "\<exists>m err. OSQPend_resume e k = Some (m, err, k')"
    using run(1) k1(1) by (auto simp: OSQPend_resume_def resumed_def [abs_def] k'_def split: if_splits)
  moreover have "quiet 0 k k'"
  proof (rule resumed_quiet [OF s run(1)])
    show "sched_frame k k'" using k1(4) by (simp add: k'_def)
    have "k' = set_tcb i (\<lambda>t. t\<lparr> OSTCBMsg := 0 \<rparr>) (set_tcb i resumed k1)" by (simp add: k'_def set_tcb_def)
    then show "kernel_ok k'" using kernel_ok_msg [OF k1(6)] by simp
    show "TCB k' = (TCB k)(i := (resumed (TCB k i))\<lparr> OSTCBMsg := 0 \<rparr>)" using k1(3) by (simp add: k'_def)
    show "wait_set e' k' = wait_set e' k" for e' using k1(5) run(4) by (simp add: k'_def wait_set_def)
    show "ready_set k' = ready_set k" using k1(2) by (simp add: k'_def ready_set_def)
  qed (simp_all add: resumed_def)
  ultimately show ?thesis by blast
qed

text \<open>A message has been handed over; the task that comes back takes it.\<close>

definition got :: "msg \<Rightarrow> OS_TCB \<Rightarrow> bool" where
  "got m t \<longleftrightarrow> OSTCBMsg t = m \<and> OSTCBStatPend t = OS_STAT_PEND_OK \<and> OSTCBDly t = 0"

lemma got_view: "wait_view t' = wait_view t \<Longrightarrow> got m t' = got m t"
  by (simp add: got_def wait_view_def)

text \<open>The task \<open>p\<close> waits at \<open>e\<close>, or has been given \<open>m\<close> and waits no longer.\<close>

definition served :: "nat \<Rightarrow> msg \<Rightarrow> nat \<Rightarrow> os_state \<Rightarrow> bool" where
  "served e m p k \<longleftrightarrow> p \<in> wait_set e k \<or> (\<forall>e'. p \<notin> wait_set e' k) \<and> (\<exists>i. task_at k p i \<and> got m (TCB k i))"

lemma served_undisturbed:
  assumes "served e m p k" "undisturbed r k k'" "p \<noteq> r" "\<And>p i. task_at k' p i = task_at k p i"
    and "p \<in> wait_set e k \<Longrightarrow> p \<in> wait_set e k'"
  shows "served e m p k'"
proof (cases "p \<in> wait_set e k")
  case False
  then obtain i where i: "\<forall>e'. p \<notin> wait_set e' k" "task_at k p i" "got m (TCB k i)" using assms(1) by (auto simp: served_def)
  then have "(\<forall>e'. p \<notin> wait_set e' k') \<and> wait_view (TCB k' i) = wait_view (TCB k i)"
    using assms(2,3) unfolding undisturbed_def by blast
  moreover from this have "got m (TCB k' i)" using got_view i(3) by blast
  ultimately show ?thesis using i(2) assms(4) unfolding served_def by blast
qed (use assms(5) in \<open>simp add: served_def\<close>)

lemma resume_takes:
  assumes "settled 0 k" "served e m (unat (OSPrioCur k)) k" "OSQPend_resume e' k = Some (x, err, k')"
  shows "x = m"
proof -
  obtain i where i: "running_task k (unat (OSPrioCur k)) i" using settled_running [OF assms(1)] by blast
  then have "unat (OSPrioCur k) \<notin> wait_set e k" "task_at k (unat (OSPrioCur k)) i" by (simp_all add: running_task_def)
  then have "got m (TCB k i)" using assms(2) task_at_fun unfolding served_def by blast
  then have "OSTCBMsg (TCB k i) = m" "OSTCBStatPend (TCB k i) = OS_STAT_PEND_OK" by (simp_all add: got_def)
  moreover have "OSTCBCur k = TCB_AT i" using i by (simp add: running_task_def)
  ultimately show ?thesis using assms(3) by (simp add: OSQPend_resume_def)
qed

section \<open>Posting\<close>

text \<open>Waiters at \<open>e\<close> may be gone, each with the message \<open>m\<close>; without a waiter at \<open>e\<close>, and inside an interrupt, the same
  task runs.\<close>

definition posts :: "INT8U \<Rightarrow> nat \<Rightarrow> msg \<Rightarrow> os_state \<Rightarrow> os_state \<Rightarrow> bool" where
  "posts n e m k k' \<longleftrightarrow> onward n k k' \<and> (\<forall>e'. e' \<noteq> e \<longrightarrow> wait_set e' k' = wait_set e' k) \<and> wait_set e k' \<subseteq> wait_set e k \<and>
     (\<forall>p i. task_at k p i \<and> p \<in> wait_set e k \<and> p \<notin> wait_set e k' \<longrightarrow> (\<forall>e'. p \<notin> wait_set e' k') \<and> got m (TCB k' i)) \<and>
     (n \<noteq> 0 \<or> wait_set e k = {} \<longrightarrow> OSPrioCur k' = OSPrioCur k) \<and> ready_set k \<subseteq> ready_set k'"

lemma posts_waits:
  assumes "posts n e m k k'"
  shows "wait_set e' k' \<subseteq> wait_set e' k"
  using assms by (cases "e' = e") (auto simp: posts_def)

lemma posts_eased: "posts n e m k k' \<Longrightarrow> n \<noteq> 0 \<or> wait_set e k = {} \<Longrightarrow> eased n k k'"
  using posts_waits [of n e m k k'] by (simp add: eased_def) (simp add: posts_def)

lemma posts_quiet: "posts n e m k k' \<Longrightarrow> wait_set e k = {} \<Longrightarrow> quiet n k k'"
  by (simp add: quiet_def posts_def) (metis subset_empty)

lemma quiet_posts: "quiet n k k' \<Longrightarrow> posts n e m k k'"
  by (simp add: quiet_def posts_def)

lemma quiet_then_posts:
  assumes "quiet n k k1" "posts n e m k1 k2"
  shows "posts n e m k k2"
proof -
  note q = quietD [OF assms(1)]
  have "task_at k1 p i = task_at k p i" for p i using os_keepD(10) [OF q(2)] .
  then show ?thesis
    using assms(2) onward_trans [OF q(3) disjI2 [OF q(5)]] q(6) unfolding posts_def q(4,5) by blast
qed

lemma served_posts:
  assumes "served e m p k" "posts n e' m' k k'" "e' \<noteq> e \<or> m' = m" "p \<noteq> runner n k" "kernel_ok k"
  shows "served e m p k'"
proof -
  have on: "onward n k k'" using assms(2) by (simp add: posts_def)
  note at = os_keepD(10) [OF onwardD(2) [OF on]]
  show ?thesis
  proof (cases "p \<in> wait_set e k \<and> p \<notin> wait_set e k'")
    case True
    then have "e' = e" "m' = m" using assms(2,3) by (auto simp: posts_def)
    moreover obtain i where i: "task_at k p i" using True kernel_okD(6) [OF assms(5)] by blast
    moreover have "task_at k' p i" using i at by simp
    ultimately have "(\<forall>e''. p \<notin> wait_set e'' k') \<and> task_at k' p i \<and> got m (TCB k' i)"
      using True assms(2) unfolding posts_def by simp
    then show ?thesis unfolding served_def by blast
  next
    case False
    then show ?thesis by (intro served_undisturbed [OF assms(1) onwardD(3) [OF on] assms(4) at]) blast
  qed
qed

lemma wake_posts:
  assumes s: "settled n k" and ne: "wait_set e k \<noteq> {}" and msk: "event_mask (OSEventType (ECB k e)) = msk"
  shows "\<exists>prio k1 k'. OS_EventTaskRdy e m msk OS_STAT_PEND_OK k = Some (prio, k1) \<and> OS_Sched k1 = Some k' \<and> posts n e m k k' \<and>
     Min (wait_set e k) \<in> ready_set k'"
proof -
  note c = settledD(1) [OF s]
  have nz: "msk AND 8 = 0" using msk by (auto simp flip: msk)
  obtain prio i k1 where r: "OS_EventTaskRdy e m msk OS_STAT_PEND_OK k = Some (prio, k1)"
    "readied e m msk OS_STAT_PEND_OK k (unat prio) i k1" "kernel_ok k1"
    by (rule OS_EventTaskRdy_ok [OF calmD(1) [OF c] ne msk nz])
  define p where "p = unat prio"
  have r2: "p \<in> wait_set e k" "task_at k p i" "sched_frame k k1" "TCB k1 = (TCB k)(i := woken m msk OS_STAT_PEND_OK (TCB k i))"
    "wait_set e k1 = wait_set e k - {p}" "\<forall>e'. e' \<noteq> e \<longrightarrow> wait_set e' k1 = wait_set e' k"
    "ready_set k \<subseteq> ready_set k1" "p = Min (wait_set e k)" "suspended (TCB k i) \<or> p \<in> ready_set k1"
    using r(2) by (auto simp: readied_def p_def)
  have at: "task_at k1 q j = task_at k q j" for q j using sched_frame_tbl [OF r2(3)] by (simp add: task_at_def)
  have less: "wait_set e' k1 \<subseteq> wait_set e' k" for e' using r2(5,6) by (cases "e' = e") auto
  have here: "p \<in> wait_set e' k \<Longrightarrow> e' = e" for e'
    using task_okD(5) [OF kernel_okD(4) [OF calmD(1) [OF c] r2(2)], of e']
      task_okD(5) [OF kernel_okD(4) [OF calmD(1) [OF c] r2(2)] r2(1)] by simp
  have "untimed k1"
  proof (rule untimed_less [OF calmD(5) [OF c]])
    fix q j e' assume a: "task_at k q j" "q \<in> wait_set e' k1"
    then have "q \<noteq> p" using r2(5) less here by (cases "e' = e") auto
    then have "j \<noteq> i" using a(1) r2(2) task_at_inj [OF calmD(1) [OF c]] by blast
    then show "OSTCBDly (TCB k1 j) = OSTCBDly (TCB k j) \<and> OSTCBStat (TCB k1 j) = OSTCBStat (TCB k j)"
      using r2(4) by simp
  qed (simp_all add: at less)
  moreover have t: "OSTCBPrio (TCB k1 j) = OSTCBPrio (TCB k j) \<and> OSTCBNext (TCB k1 j) = OSTCBNext (TCB k j)" for j
    using r2(4) by (simp add: woken_def)
  moreover have und: "undisturbed (runner n k) k k1"
  proof (rule undisturbed_one [OF calmD(1) [OF c] r2(2)])
    show "ready_set k1 \<subseteq> insert p (ready_set k)" using r(2) by (auto simp: readied_def p_def split: if_splits)
    show "wait_set e' k1 \<subseteq> insert p (wait_set e' k)" for e' using less by blast
  qed (use r2(1,4) in auto)
  moreover have "cur_ok k1" using cur_ok_frame [OF r2(3)] calmD(2) [OF c] by simp
  then obtain k' where k': "OS_Sched k1 = Some k'" using sched_after [OF r(3)] by metis
  ultimately have on: "onward n k k'" "wait_set e' k' = wait_set e' k1" "ready_set k' = ready_set k1"
    "n \<noteq> 0 \<Longrightarrow> OSPrioCur k' = OSPrioCur k" for e'
    using sched_onward [OF s r2(3) r(3) _ _ und k'] by simp_all
  have fr: "switch_frame k1 k'"
    using sched_after [OF r(3)] cur_ok_frame [OF r2(3)] calmD(2) [OF c] k' by auto
  have "(\<forall>e'. q \<notin> wait_set e' k') \<and> got m (TCB k' j)"
    if a: "task_at k q j" "q \<in> wait_set e k" "q \<notin> wait_set e k'" for q j
  proof -
    have q: "q = p" using a(2,3) r2(5) on(2) by auto
    then have "j = i" using a(1) r2(2) task_at_fun by blast
    then have "got m (TCB k' j)" using r2(4) by (simp add: got_def switch_frame_task [OF fr] woken_def)
    moreover have "q \<notin> wait_set e' k'" for e' using q here [of e'] r2(5,6) on(2) by (cases "e' = e") auto
    ultimately show ?thesis by blast
  qed
  then have "posts n e m k k'" using on r2(5-7) ne by (auto simp: posts_def)
  moreover have "Min (wait_set e k) \<in> ready_set k'"
    using r2(8,9) untimedD(3) [OF calmD(5) [OF c] r2(2,1)] on(3) by simp
  ultimately show ?thesis using r(1) k' by blast
qed

lemma sem_post_posts:
  assumes s: "settled n k" and e: "is_sem e k"
  shows "\<exists>err k'. OSSemPost (Some e) k = Some (err, k') \<and> posts n e 0 k k'"
proof (cases "wait_set e k = {}")
  case True
  then have "OSEventGrp (ECB k e) = 0" using grp_zero_iff [OF calmD(1) [OF settledD(1) [OF s]]] by simp
  then have "OSSemPost (Some e) k = Some (if OSEventCnt (ECB k e) < 65535
      then (OS_ERR_NONE, set_cnt e (OSEventCnt (ECB k e) + 1) k) else (OS_ERR_SEM_OVF, k))"
    using e by (simp add: OSSemPost_def is_sem_def set_cnt_def set_event_def)
  then show ?thesis
    using quiet_posts [OF set_cnt_quiet [OF s]] quiet_posts [OF quiet_refl [OF s]] by auto
next
  case False
  then have "OSEventGrp (ECB k e) \<noteq> 0" using grp_zero_iff [OF calmD(1) [OF settledD(1) [OF s]]] by simp
  moreover obtain prio k1 k' where "OS_EventTaskRdy e 0 OS_STAT_SEM OS_STAT_PEND_OK k = Some (prio, k1)"
    "OS_Sched k1 = Some k'" "posts n e 0 k k'"
    using wake_posts [OF s False sem_mask [OF e]] by blast
  ultimately show ?thesis using e by (auto simp: OSSemPost_def is_sem_def)
qed

lemma q_post_posts:
  assumes s: "settled n k" and q: "is_queue e q k"
  shows "\<exists>err k'. OSQPost (Some e) m k = Some (err, k') \<and> posts n e m k k' \<and>
     (wait_set e k \<noteq> {} \<longrightarrow> Min (wait_set e k) \<in> ready_set k')"
proof (cases "wait_set e k = {}")
  case none: True
  then have g: "OSEventGrp (ECB k e) = 0" using grp_zero_iff [OF calmD(1) [OF settledD(1) [OF s]]] by simp
  show ?thesis
  proof (cases "length (messages q k) < capacity q k")
    case lt: True
    define r where "r = ring_append m (get_ring q k)"
    have "ring_ok r"
      using ring.put_law [of "get_ring q k" m] q lt queue_fill(2) [OF q] by (simp add: is_queue_def messages_def r_def)
    moreover have "OSQPost (Some e) m k = Some (OS_ERR_NONE, set_ring q r k)"
      using g q lt queue_full_iff [OF q] by (simp add: OSQPost_def is_queue_def r_def)
    ultimately show ?thesis using quiet_posts [OF set_ring_quiet [OF s]] none by auto
  next
    case False
    then have "length (messages q k) = capacity q k" using queue_fill(3) [OF q] by simp
    then have "OSQPost (Some e) m k = Some (OS_ERR_Q_FULL, k)"
      using g q queue_full_iff [OF q] by (simp add: OSQPost_def is_queue_def)
    then show ?thesis using quiet_posts [OF quiet_refl [OF s]] none by auto
  qed
next
  case False
  then have "OSEventGrp (ECB k e) \<noteq> 0" using grp_zero_iff [OF calmD(1) [OF settledD(1) [OF s]]] by simp
  moreover obtain prio k1 k' where "OS_EventTaskRdy e m OS_STAT_Q OS_STAT_PEND_OK k = Some (prio, k1)"
    "OS_Sched k1 = Some k'" "posts n e m k k'" "Min (wait_set e k) \<in> ready_set k'"
    using wake_posts [OF s False queue_mask [OF q]] by blast
  ultimately show ?thesis using q by (auto simp: OSQPost_def is_queue_def)
qed

section \<open>Delays\<close>

lemma delay_onward:
  assumes s: "settled 0 k" and p: "OSPrioCur k \<noteq> 20" and n: "d \<noteq> 0"
  shows "\<exists>k'. OSTimeDly d k = Some k' \<and> onward 0 k k' \<and> (\<forall>e. wait_set e k' = wait_set e k) \<and>
     sleeping (unat d) (unat (OSPrioCur k)) k'"
proof -
  note c = settledD(1) [OF s]
  define p where "p = unat (OSPrioCur k)"
  obtain i where i: "running_task k p i" using settled_running [OF s] p_def by blast
  have p20: "p \<noteq> OS_LOWEST_PRIO" using p by (simp add: p_def word_unat_eq_iff)
  obtain k1 k' where k': "OSTimeDly d k = Some k'" "sched_frame k k1" "switch_frame k1 k'" "kernel_ok k1" "kernel_ok k'"
    "highest_runs k'" "\<And>e. wait_set e k1 = wait_set e k" "TCB k1 = (TCB k)(i := (TCB k i)\<lparr> OSTCBDly := d \<rparr>)"
    "ready_set k1 = ready_set k - {p}"
    by (rule OSTimeDly_frames [OF calmD(1) [OF c] i p20 calmD(3,4) [OF c] n]) blast
  have keep: "os_keep k k1" by (rule frame_keep [OF k'(2,4) calmD(2) [OF c]]) (simp add: k'(8))
  have "untimed k1"
  proof (rule untimed_less [OF calmD(5) [OF c]])
    fix q j e assume a: "task_at k q j" "q \<in> wait_set e k1"
    then have "q \<noteq> p" using i k'(7) by (auto simp: running_task_def)
    then have "j \<noteq> i" using a(1) i task_at_inj [OF calmD(1) [OF c]] by (auto simp: running_task_def)
    then show "OSTCBDly (TCB k1 j) = OSTCBDly (TCB k j) \<and> OSTCBStat (TCB k1 j) = OSTCBStat (TCB k j)"
      using k'(8) by simp
  qed (simp_all add: os_keepD(10) [OF keep] k'(7))
  then have c1: "calm 0 k1" by (rule calm_keep [OF c keep _ frame_stat [OF k'(2)]])
  have "cur_ok k'" using k'(6) by (simp add: highest_runs_def)
  then have keep1: "os_keep k1 k'" by (rule switch_keep [OF k'(3,5)])
  have "calm 0 k'" using calm_keep [OF c1 keep1] untimed_switch [OF k'(3)] calmD(5) [OF c1] switch_stat [OF k'(3)] by simp
  moreover have und: "undisturbed (runner 0 k) k k1"
    by (rule undisturbed_one [OF calmD(1) [OF c], of p i]) (use i k'(7,8,9) p_def in \<open>auto simp: running_task_def\<close>)
  have "undisturbed (runner 0 k) k k'"
    by (rule undisturbed_same [OF _ _ _ und]) (use k'(3) in \<open>simp_all add: switch_frame_sets switch_frame_task wait_view_def\<close>)
  ultimately have "onward 0 k k'" using k'(6) os_keep_trans [OF keep keep1] by (simp add: onward_def settled_def)
  moreover have "sleeping (unat d) p k'"
  proof -
    have at: "task_at k' p i" using i os_keepD(10) [OF os_keep_trans [OF keep keep1]] by (simp add: running_task_def)
    have "runnable (TCB k i)"
      using i task_okD(4) [OF kernel_okD(4) [OF calmD(1) [OF c]]] by (auto simp: running_task_def)
    then have "OSTCBStat (TCB k' i) = 0" "OSTCBDly (TCB k' i) = d"
      using k'(8) by (simp_all add: switch_frame_task [OF k'(3)] runnable_def)
    then show ?thesis
      using at i k'(7,9) by (auto simp: sleeping_def asleep_def running_task_def switch_frame_sets [OF k'(3)])
  qed
  ultimately show ?thesis using k'(1,7) by (simp add: switch_frame_sets [OF k'(3)] p_def)
qed

section \<open>Interrupts\<close>

lemma untimed_nesting [simp]: "untimed (k\<lparr> OSIntNesting := m \<rparr>) = untimed k"
proof -
  have "wait_set e (k\<lparr> OSIntNesting := m \<rparr>) = wait_set e k" "task_at (k\<lparr> OSIntNesting := m \<rparr>) p i = task_at k p i" for e p i
    by (simp_all add: wait_set_def waiters_def task_at_def)
  then show ?thesis by (simp add: untimed_def)
qed

lemma calm_nesting: "calm n k \<Longrightarrow> calm m (k\<lparr> OSIntNesting := m \<rparr>)"
  by (simp add: calm_def started_def task_at_def)

lemma enter_calm:
  assumes "settled 0 k"
  shows "settled 1 (OSIntEnter k)" "wait_set e (OSIntEnter k) = wait_set e k"
    "is_sem e (OSIntEnter k) = is_sem e k" "is_queue e q (OSIntEnter k) = is_queue e q k"
    "undisturbed 0 k (OSIntEnter k)" "task_at (OSIntEnter k) p i = task_at k p i" "ready_set (OSIntEnter k) = ready_set k"
proof -
  note c = settledD(1) [OF assms]
  have k: "OSIntEnter k = k\<lparr> OSIntNesting := 1 \<rparr>"
    using c by (simp add: OSIntEnter_def calm_def started_def)
  then show "settled 1 (OSIntEnter k)" using calm_nesting [OF c, of 1] by (simp add: settled_def)
  show w: "wait_set e (OSIntEnter k) = wait_set e k" for e by (simp add: k wait_set_def waiters_def)
  show "undisturbed 0 k (OSIntEnter k)" by (rule undisturbed_same [OF _ w _ undisturbed_refl]) (simp_all add: k)
  show "task_at (OSIntEnter k) p i = task_at k p i" "ready_set (OSIntEnter k) = ready_set k" by (simp_all add: k task_at_def)
  show "is_sem e (OSIntEnter k) = is_sem e k" "is_queue e q (OSIntEnter k) = is_queue e q k" by (simp_all add: k)
qed

lemma exit_settled:
  assumes "settled 1 k"
  shows "\<exists>k'. OSIntExit k = Some k' \<and> settled 0 k' \<and> (\<forall>e. wait_set e k' = wait_set e k) \<and> ready_set k' = ready_set k \<and>
     undisturbed 0 k k' \<and> (\<forall>p i. task_at k' p i = task_at k p i) \<and>
     (\<forall>e. is_sem e k' = is_sem e k) \<and> (\<forall>e q. is_queue e q k' = is_queue e q k)"
proof -
  note c = settledD(1) [OF assms]
  define k0 where "k0 = k\<lparr> OSIntNesting := 0 \<rparr>"
  have c0: "calm 0 k0" using calm_nesting [OF c] by (simp add: k0_def)
  obtain k1 k' where k': "OS_SchedNew k0 = Some k1" "switch_to_high k1 = Some k'" "switch_frame k0 k'" "highest_runs k'"
    using switch_to_high_ok [OF calmD(1,2) [OF c0]] by blast
  have "OSIntExit k = Some k'"
    using c k'(1,2) by (simp add: OSIntExit_def calm_def started_def k0_def)
  moreover have "os_keep k0 k'"
    using switch_keep [OF k'(3) switch_frame_ok [OF calmD(1) [OF c0] k'(3)]] k'(4) by (simp add: highest_runs_def)
  then have "calm 0 k'" using calm_keep [OF c0] untimed_switch [OF k'(3)] calmD(5) [OF c0] switch_stat [OF k'(3)] by blast
  moreover have w: "wait_set e k' = wait_set e k" "ready_set k' = ready_set k" for e
    using switch_frame_sets [OF k'(3)] by (simp_all add: k0_def wait_set_def waiters_def)
  moreover have "undisturbed 0 k k'"
    by (rule undisturbed_same [OF w(2,1) _ undisturbed_refl]) (use k'(3) in \<open>simp_all add: switch_frame_task k0_def wait_view_def\<close>)
  moreover have "task_at k' p i = task_at k p i" for p i using switch_frame_sets(3) [OF k'(3)] by (simp add: k0_def task_at_def)
  moreover have "is_sem e k' = is_sem e k" "is_queue e q k' = is_queue e q k" for e q
    using switch_frame_sets(6) [OF k'(3)] is_queue_switch [OF k'(3), of e q] by (simp_all add: is_sem_def k0_def)
  ultimately show ?thesis using k'(4) by (simp add: settled_def)
qed

lemma sleeping_undisturbed:
  assumes "sleeping d p k" "undisturbed r k k'" "\<And>p i. task_at k' p i = task_at k p i"
  shows "sleeping d p k'"
proof -
  obtain i where i: "asleep p k" "task_at k p i" "OSTCBStat (TCB k i) = 0" "unat (OSTCBDly (TCB k i)) = d"
    using assms(1) by (auto simp: sleeping_def)
  then have "asleep p k'" "wait_view (TCB k' i) = wait_view (TCB k i)"
    using assms(2) unfolding undisturbed_def asleep_def by blast+
  then show ?thesis using i assms(3) by (auto simp: sleeping_def wait_view_def)
qed

lemma sleeping_onward: "onward n k k' \<Longrightarrow> sleeping d p k \<Longrightarrow> sleeping d p k'"
  using sleeping_undisturbed onwardD(2,3) os_keepD(10) by blast

text \<open>A task that is ready stays so while another runs.\<close>

lemma ready_onward:
  assumes "settled n k" "onward n k k'" "p \<in> ready_set k" "p \<noteq> runner n k"
  shows "p \<in> ready_set k'"
proof -
  note c = settledD(1) [OF assms(1)] and ok' = os_keepD(1) [OF onwardD(2) [OF assms(2)]]
  obtain i where i: "task_at k p i" using kernel_okD(5) [OF calmD(1) [OF c] assms(3)] by blast
  have "\<forall>e. p \<notin> wait_set e k" using waiting_not_ready [OF c] assms(3) by blast
  then have "wait_view (TCB k' i) = wait_view (TCB k i)"
    using onwardD(3) [OF assms(2)] i assms(4) unfolding undisturbed_def by blast
  moreover have "runnable (TCB k i)" using task_okD(4) [OF kernel_okD(4) [OF calmD(1) [OF c] i]] assms(3) by blast
  ultimately have "runnable (TCB k' i)" by (simp add: runnable_def wait_view_def)
  moreover have "task_at k' p i" using i os_keepD(10) [OF onwardD(2) [OF assms(2)]] by simp
  ultimately show ?thesis using task_okD(4) [OF kernel_okD(4) [OF ok']] by blast
qed

text \<open>The tick wakes delayed tasks only, each when its delay ends: a task that waits has no timeout.\<close>

lemma tick_settled:
  assumes "settled 1 k"
  shows "\<exists>k'. OSTimeTick k = Some k' \<and> settled 1 k' \<and> (\<forall>e. wait_set e k' = wait_set e k) \<and> ready_set k \<subseteq> ready_set k' \<and>
     (\<forall>d p. sleeping d p k \<longrightarrow> (if d = 1 then p \<in> ready_set k' else sleeping (d - 1) p k')) \<and>
     (\<forall>p i m. task_at k p i \<and> got m (TCB k i) \<longrightarrow> got m (TCB k' i)) \<and> (\<forall>p i. task_at k' p i = task_at k p i) \<and>
     (\<forall>e. is_sem e k' = is_sem e k) \<and> (\<forall>e q. is_queue e q k' = is_queue e q k)"
proof -
  note c = settledD(1) [OF assms]
  have st: "list_ok k" "OSRunning k = OS_TRUE" "OSTickStepState k = OS_TICK_STEP_DIS" "OSLockNesting k = 0" "OSIntNesting k = 1"
    using c by (simp_all add: calm_def started_def)
  obtain k' where k': "OSTimeTick k = Some k'" "kernel_ok k'" "list_ok k'" "OSRunning k' = OS_TRUE"
    "OSTickStepState k' = OS_TICK_STEP_DIS" "\<forall>p i. task_at k' p i \<longleftrightarrow> task_at k p i" "\<forall>e. wait_set e k' = wait_set e k"
    "\<forall>p i. task_at k p i \<longrightarrow> TCB k' i = (if p = OS_LOWEST_PRIO then TCB k i else ticked (TCB k i))"
    "sched_frame (k\<lparr> OSTime := OSTime k + 1 \<rparr>) k'"
    using OSTimeTick_ok [OF calmD(1) [OF c] st(1-3)] by blast
  note fr = sched_frame_tbl [OF k'(9)] sched_frame_event [OF k'(9)] frame_stat [OF k'(9)]
  have "untimed k'"
  proof (rule untimed_less [OF calmD(5) [OF c]])
    fix p i e assume a: "task_at k p i" "p \<in> wait_set e k'"
    then have "OSTCBDly (TCB k i) = 0" using untimedD(1) [OF calmD(5) [OF c]] k'(7) by blast
    then have "ticked (TCB k i) = TCB k i" by (simp add: ticked_def)
    then show "OSTCBDly (TCB k' i) = OSTCBDly (TCB k i) \<and> OSTCBStat (TCB k' i) = OSTCBStat (TCB k i)"
      using k'(8) a(1) by simp
  qed (use k'(6,7) in auto)
  moreover have "cur_ok k'" using calmD(2) [OF c] fr k'(6) by (simp add: cur_ok_def)
  ultimately have c': "calm 1 k'"
    using k' fr st calmD(8,9) [OF c] by (simp add: calm_def started_def)
  have "p \<in> ready_set k'" if pr: "p \<in> ready_set k" for p
  proof -
    obtain i where at: "task_at k p i" using kernel_okD(5) [OF calmD(1) [OF c] pr] by blast
    then have r: "runnable (TCB k i)" using pr task_okD(4) kernel_okD(4) [OF calmD(1) [OF c]] by blast
    then have "runnable (TCB k' i)" using k'(8) at by (auto simp: ticked_def runnable_def)
    then show ?thesis using task_okD(4) [OF kernel_okD(4) [OF k'(2)], of p i] at k'(6) by blast
  qed
  note more_ready = this
  have wake: "if d = 1 then p \<in> ready_set k' else sleeping (d - 1) p k'" if sl: "sleeping d p k" for d p
  proof -
    obtain i where i: "task_at k p i" "OSTCBStat (TCB k i) = 0" "unat (OSTCBDly (TCB k i)) = d" and a: "asleep p k"
      using sl by (auto simp: sleeping_def)
    have p: "p \<noteq> 20" using a kernel_okD(7) [OF calmD(1) [OF c]] by (auto simp: asleep_def)
    have t: "TCB k' i = ticked (TCB k i)" "task_at k' p i" using k'(6,8) i(1) p by auto
    then have st: "OSTCBStat (TCB k' i) = 0" "unat (OSTCBDly (TCB k' i)) = d - 1"
      using ticked_running i(2,3) unat_Dly_ticked by simp_all
    have r: "p \<in> ready_set k' \<longleftrightarrow> OSTCBDly (TCB k' i) = 0"
      using task_okD(4) [OF kernel_okD(4) [OF k'(2) t(2)]] st(1) by (simp add: runnable_def)
    have "\<not> runnable (TCB k i)" using a task_okD(4) [OF kernel_okD(4) [OF calmD(1) [OF c] i(1)]] by (simp add: asleep_def)
    then have "OSTCBDly (TCB k i) \<noteq> 0" using i(2) by (simp add: runnable_def)
    then have "d \<noteq> 0" using i(3) unat_eq_zero by blast
    moreover have "OSTCBDly (TCB k' i) = 0 \<longleftrightarrow> d - 1 = 0" using st(2) by (metis unat_eq_zero)
    ultimately show ?thesis using r a k'(7) t(2) st by (auto simp: sleeping_def asleep_def)
  qed
  have same: "is_sem e k' = is_sem e k" "is_queue e q k' = is_queue e q k" for e q
    using fr by (simp_all add: is_sem_def is_queue_def q_of_def get_ring_def)
  have mail: "got m (TCB k' i)" if "task_at k p i" "got m (TCB k i)" for p i m
    using that k'(8) by (auto simp: got_def ticked_def)
  have "settled 1 k'" using c' by (simp add: settled_def)
  then show ?thesis using k'(1,6,7) wake mail same subsetI [OF more_ready] by (intro exI [of _ k'] conjI allI impI) blast+
qed

end
