(* ===== verification/Sys_Step.thy ===== *)
theory Sys_Step imports Sys_Kernel begin

text \<open>
  What one stretch of a task's code, or an interrupt, does to the state of the application: the motor
  and its limits, the handles, and which task's variables may change. Operations without a kernel call
  and kernel calls that neither block nor wake anybody compose (\<open>mild\<close>); the calls that end a stretch
  are treated one by one.
\<close>

section \<open>The drive\<close>

text \<open>The modules of the motor are at their addresses, in step, within the limits; the engine sound has its
  own registers.\<close>

definition drive_ok :: "app_state \<Rightarrow> bool" where
  "drive_ok s \<longleftrightarrow> motor_ok (motor_of s) \<and> duty_ok (curr_duty_cycle (thr s)) \<and>
     period_base (pwm_throttle_open (thr s)) = PWM_GENERATOR_THROTTLE_OPEN_AVALON_SLAVE_PERIOD_BASE \<and>
     duty_base (pwm_throttle_open (thr s)) = PWM_GENERATOR_THROTTLE_OPEN_AVALON_SLAVE_DUTY_BASE \<and>
     control_base (pwm_throttle_open (thr s)) = PWM_GENERATOR_THROTTLE_OPEN_AVALON_SLAVE_CONTROL_BASE \<and>
     period_base (pwm_throttle_close (thr s)) = PWM_GENERATOR_THROTTLE_CLOSE_AVALON_SLAVE_PERIOD_BASE \<and>
     duty_base (pwm_throttle_close (thr s)) = PWM_GENERATOR_THROTTLE_CLOSE_AVALON_SLAVE_DUTY_BASE \<and>
     control_base (pwm_throttle_close (thr s)) = PWM_GENERATOR_THROTTLE_CLOSE_AVALON_SLAVE_CONTROL_BASE \<and>
     duty_base (pwm_engine_sound (thr s)) = PWM_GENERATOR_ENGINE_SOUND_OUT_AVALON_SLAVE_DUTY_BASE"

text \<open>The registers that belong to the motor.\<close>

definition motor_cells :: "INT32U set" where
  "motor_cells = {PWM_GENERATOR_THROTTLE_OPEN_AVALON_SLAVE_PERIOD_BASE, PWM_GENERATOR_THROTTLE_OPEN_AVALON_SLAVE_DUTY_BASE,
     PWM_GENERATOR_THROTTLE_CLOSE_AVALON_SLAVE_PERIOD_BASE, PWM_GENERATOR_THROTTLE_CLOSE_AVALON_SLAVE_DUTY_BASE}"

definition motor_controls :: "INT32U set" where
  "motor_controls = {PWM_GENERATOR_THROTTLE_OPEN_AVALON_SLAVE_CONTROL_BASE, PWM_GENERATOR_THROTTLE_CLOSE_AVALON_SLAVE_CONTROL_BASE}"

definition motor_untouched :: "mmio \<Rightarrow> mmio \<Rightarrow> bool" where
  "motor_untouched r r' \<longleftrightarrow> (\<forall>a \<in> motor_cells. reg32 r' a = reg32 r a) \<and> (\<forall>a \<in> motor_controls. reg8 r' a = reg8 r a)"

lemma motor_untouched_refl [simp]: "motor_untouched r r"
  by (simp add: motor_untouched_def)

lemma motor_untouched_trans: "motor_untouched r r' \<Longrightarrow> motor_untouched r' r'' \<Longrightarrow> motor_untouched r r''"
  by (simp add: motor_untouched_def)

lemma motor_untouched_write:
  "a \<notin> motor_cells \<Longrightarrow> motor_untouched r (io_write32 a v r)"
  "a \<notin> motor_controls \<Longrightarrow> motor_untouched r (io_write8 a w r)"
  by (auto simp: motor_untouched_def)

lemma other_devices [simp]:
  "DE0_NANO_ADC_0_BASE \<notin> motor_cells" "SOLENOID_OUT_BASE \<notin> motor_cells" "pio_irq_mask \<notin> motor_cells"
  "pio_edge_cap \<notin> motor_cells" "RPM_PWM_DECODER_BASE \<notin> motor_cells"
  "PWM_GENERATOR_ENGINE_SOUND_OUT_AVALON_SLAVE_DUTY_BASE \<notin> motor_cells"
  "GREEN_LEDS_BASE \<notin> motor_controls" "CURR_GEAR_OUT_BASE \<notin> motor_controls" "SWITCH_BASE \<notin> motor_controls"
  "SYS_CLK_TIMER_BASE \<notin> motor_cells"
  by (simp_all add: motor_cells_def motor_controls_def motor_addresses DE0_NANO_ADC_0_BASE_def SOLENOID_OUT_BASE_def
      pio_irq_mask_def pio_edge_cap_def BUTTONS_BASE_def RPM_PWM_DECODER_BASE_def GREEN_LEDS_BASE_def
      PWM_GENERATOR_ENGINE_SOUND_OUT_AVALON_SLAVE_DUTY_BASE_def CURR_GEAR_OUT_BASE_def SWITCH_BASE_def SYS_CLK_TIMER_BASE_def)

lemma drive_ok_untouched:
  assumes "drive_ok s" "motor_untouched (io s) (io s')"
    and "pwm_throttle_open (thr s') = pwm_throttle_open (thr s)" "pwm_throttle_close (thr s') = pwm_throttle_close (thr s)"
    and "duty_base (pwm_engine_sound (thr s')) = duty_base (pwm_engine_sound (thr s))"
    and "duty_ok (curr_duty_cycle (thr s'))"
  shows "drive_ok s'"
proof -
  have "pwm_in_step (m, io s') = pwm_in_step (m, io s)"
    if "period_base m \<in> motor_cells" "duty_base m \<in> motor_cells" "control_base m \<in> motor_controls" for m
    using assms(2) that by (simp add: pwm_in_step_def motor_untouched_def)
  then have "motor_ok (motor_of s') = motor_ok (motor_of s)"
    using assms(1) by (simp add: drive_ok_def motor_of_def motor_ok_def assms(3,4) motor_cells_def motor_controls_def)
  then show ?thesis using assms(1,6) by (simp add: drive_ok_def assms(3-5))
qed

lemma drive_ok_duty: "drive_ok s \<Longrightarrow> duty_ok (curr_duty_cycle (thr s))"
  unfolding drive_ok_def by blast

lemma drive_ok_same:
  assumes "drive_ok s" "motor_untouched (io s) (io s')" "thr s' = thr s"
  shows "drive_ok s'"
  by (rule drive_ok_untouched [OF assms(1,2)]) (simp_all add: assms(3) drive_ok_duty [OF assms(1)])

section \<open>Whose variables change\<close>

text \<open>What the solenoid task shows on the gear display.\<close>

definition gear_display :: "app_state \<Rightarrow> INT8U" where
  "gear_display s = reg8 (io s) CURR_GEAR_OUT_BASE"

text \<open>Code of the task of priority \<open>p\<close> has run (an interrupt's for 0), the kernel apart. Only the interrupt of the buttons
  writes its variable.\<close>

definition steps_as :: "nat \<Rightarrow> app_state \<Rightarrow> app_state \<Rightarrow> bool" where
  "steps_as p s s' \<longleftrightarrow> flags s' = flags s \<and> queues s' = queues s \<and> tables s' = tables s \<and> (drive_ok s \<longrightarrow> drive_ok s') \<and>
     (p \<noteq> FAILURE_HANDLER_TASK_PRIORITY \<longrightarrow> fh s' = fh s) \<and>
     (p \<noteq> SOLENOID_TASK_PRIORITY \<longrightarrow> sol s' = sol s \<and> gear_display s' = gear_display s) \<and>
     (p \<noteq> THROTTLE_CONTROL_TASK_PRIORITY \<longrightarrow> thr s' = thr s) \<and> (p \<noteq> 0 \<longrightarrow> isr_data s' = isr_data s)"

lemma steps_refl [simp]: "steps_as p s s"
  by (simp add: steps_as_def)

lemma steps_trans: "steps_as p s s' \<Longrightarrow> steps_as p s' s'' \<Longrightarrow> steps_as p s s''"
  by (auto simp: steps_as_def)

text \<open>A task that waits for a button, or has its message, other than the running task \<open>r\<close>, still does.\<close>

definition kept :: "nat \<Rightarrow> app_state \<Rightarrow> app_state \<Rightarrow> bool" where
  "kept r s s' \<longleftrightarrow> (\<forall>b p. btn_input_q s = Some b \<and> p \<noteq> r \<and> served b isr_data_addr p (os s) \<longrightarrow>
     served b isr_data_addr p (os s'))"

lemma kept_same [simp]: "os s' = os s \<Longrightarrow> kept r s s'"
  by (simp add: kept_def)

lemma kept_trans: "kept r s s' \<Longrightarrow> queues s' = queues s \<Longrightarrow> kept r s' s'' \<Longrightarrow> kept r s s''"
  by (simp add: kept_def queues_def)

lemma kept_onward:
  assumes "onward n (os s) (os s')" "\<And>e. wait_set e (os s) \<subseteq> wait_set e (os s')"
  shows "kept (runner n (os s)) s s'"
  unfolding kept_def
proof (intro allI impI)
  fix b p assume a: "btn_input_q s = Some b \<and> p \<noteq> runner n (os s) \<and> served b isr_data_addr p (os s)"
  show "served b isr_data_addr p (os s')"
    by (rule served_undisturbed [OF _ onwardD(3) [OF assms(1)] _ os_keepD(10) [OF onwardD(2) [OF assms(1)]]])
      (use a assms(2) in auto)
qed

lemma kept_posts:
  assumes "settled n (os s)" "posts n e m (os s) (os s')" "btn_input_q s = Some e \<longrightarrow> m = isr_data_addr"
  shows "kept (runner n (os s)) s s'"
  unfolding kept_def
proof (intro allI impI)
  fix b p assume a: "btn_input_q s = Some b \<and> p \<noteq> runner n (os s) \<and> served b isr_data_addr p (os s)"
  show "served b isr_data_addr p (os s')"
    by (rule served_posts [OF _ assms(2) _ _ calmD(1) [OF settledD(1) [OF assms(1)]]]) (use a assms(3) in auto)
qed

text \<open>A stretch so far: the kernel is quiet, but for tasks that have been woken.\<close>

definition mild :: "INT8U \<Rightarrow> nat \<Rightarrow> app_state \<Rightarrow> app_state \<Rightarrow> bool" where
  "mild n p s s' \<longleftrightarrow> steps_as p s s' \<and> eased n (os s) (os s') \<and> kept (runner n (os s)) s s'"

lemma mildD:
  assumes "mild n p s s'"
  shows "steps_as p s s'" "eased n (os s) (os s')" "settled n (os s')" "flags s' = flags s" "queues s' = queues s"
    "kept (runner n (os s)) s s'"
  using assms easedD(1) by (auto simp: mild_def steps_as_def)

lemma eased_refl: "settled n k \<Longrightarrow> eased n k k"
  by (rule quiet_eased [OF quiet_refl])

lemma mild_refl: "settled n (os s) \<Longrightarrow> mild n p s s"
  by (simp add: mild_def eased_refl)

lemma mild_trans:
  assumes "mild n p s s'" "mild n p s' s''"
  shows "mild n p s s''"
proof -
  note a = mildD [OF assms(1)] and b = mildD [OF assms(2)]
  have "runner n (os s') = runner n (os s)" using easedD(5) [OF a(2)] by (simp add: runner_same)
  then have "kept (runner n (os s)) s s''" using kept_trans [OF a(6,5)] b(6) by simp
  then show ?thesis using steps_trans [OF a(1) b(1)] eased_trans [OF a(2) b(2)] by (simp add: mild_def)
qed

lemma mild_wired: "mild n p s s' \<Longrightarrow> wired s \<Longrightarrow> wired s'"
  using wired_keep [of s s'] mildD(4,5) easedD(2) [OF mildD(2)] by blast

lemma mild_plain: "settled n (os s) \<Longrightarrow> steps_as p s s' \<Longrightarrow> os s' = os s \<Longrightarrow> mild n p s s'"
  by (simp add: mild_def eased_refl)

lemma mild_then_plain: "mild n p s s' \<Longrightarrow> steps_as p s' s'' \<Longrightarrow> os s'' = os s' \<Longrightarrow> mild n p s s''"
  using mild_trans mild_plain mildD(3) by blast

text \<open>The kernel alone changes.\<close>

lemma steps_os [simp]: "steps_as p s (s\<lparr> os := k \<rparr>)"
proof -
  have "drive_ok s \<Longrightarrow> drive_ok (s\<lparr> os := k \<rparr>)" by (rule drive_ok_same) simp_all
  then show ?thesis by (simp add: steps_as_def flags_def queues_def gear_display_def)
qed

lemma mild_os: "quiet n (os s) k \<Longrightarrow> mild n p s (s\<lparr> os := k \<rparr>)"
  using kept_onward [of n s "s\<lparr> os := k \<rparr>"] quietD(3,4) [of n "os s" k] by (simp add: mild_def quiet_eased)

text \<open>A post when the same task goes on; to the queue of the buttons only buttons are posted.\<close>

lemma mild_post:
  assumes "settled n (os s)" "posts n e m (os s) k" "eased n (os s) k" "btn_input_q s = Some e \<longrightarrow> m = isr_data_addr"
  shows "mild n p s (s\<lparr> os := k \<rparr>)"
  using kept_posts [of n s e m "s\<lparr> os := k \<rparr>"] assms by (simp add: mild_def)

text \<open>The alarms alone change.\<close>

lemma steps_more:
  assumes "alarm_state.more s' = alarm_state.more s"
  shows "steps_as p s s'" "os s' = os s"
proof -
  note same = more_same [OF assms]
  have "drive_ok s \<Longrightarrow> drive_ok s'" by (rule drive_ok_same) (simp_all add: same)
  then show "steps_as p s s'" "os s' = os s" using same by (simp_all add: steps_as_def gear_display_def)
qed

text \<open>Registers outside the motor.\<close>

lemma steps_io:
  assumes "motor_untouched (io s) r" "p \<noteq> SOLENOID_TASK_PRIORITY \<Longrightarrow> reg8 r CURR_GEAR_OUT_BASE = reg8 (io s) CURR_GEAR_OUT_BASE"
  shows "steps_as p s (s\<lparr> io := r \<rparr>)"
proof -
  have "drive_ok s \<Longrightarrow> drive_ok (s\<lparr> io := r \<rparr>)"
    by (rule drive_ok_same) (simp_all add: assms(1))
  then show ?thesis using assms(2) by (simp add: steps_as_def flags_def queues_def gear_display_def)
qed

lemma leds_not_gear [simp]: "CURR_GEAR_OUT_BASE \<noteq> GREEN_LEDS_BASE" "GREEN_LEDS_BASE \<noteq> CURR_GEAR_OUT_BASE"
  "CURR_GEAR_OUT_BASE \<noteq> SWITCH_BASE"
  by (simp_all add: CURR_GEAR_OUT_BASE_def GREEN_LEDS_BASE_def SWITCH_BASE_def)

lemma steps_devices [simp]:
  "steps_as p s (alt_up_de0_nano_adc_update s)" "steps_as p s (set_leds v s)" "steps_as p s (clear_edge_cap s)"
  "steps_as p s (set_irq_mask w s)" "steps_as p s (s\<lparr> io := io_write32 SOLENOID_OUT_BASE w (io s) \<rparr>)"
  "steps_as p s (shift_up s)" "steps_as p s (shift_down s)" "steps_as p s (s\<lparr> io := io_write32 SYS_CLK_TIMER_BASE w (io s) \<rparr>)"
  by (simp_all add: alt_up_de0_nano_adc_update_def set_leds_def clear_edge_cap_def set_irq_mask_def shift_up_def
      shift_down_def steps_io motor_untouched_write)

lemma os_devices [simp]:
  "os (alt_up_de0_nano_adc_update s) = os s" "os (set_leds v s) = os s" "os (clear_edge_cap s) = os s"
  "os (set_irq_mask w s) = os s" "os (shift_up s) = os s" "os (shift_down s) = os s"
  by (simp_all add: alt_up_de0_nano_adc_update_def set_leds_def clear_edge_cap_def set_irq_mask_def shift_up_def shift_down_def)

section \<open>The code of the throttle task\<close>

lemma steps_set_thr [simp]:
  assumes "pwm_throttle_open (f (thr s)) = pwm_throttle_open (thr s)" "pwm_throttle_close (f (thr s)) = pwm_throttle_close (thr s)"
    "pwm_engine_sound (f (thr s)) = pwm_engine_sound (thr s)" "curr_duty_cycle (f (thr s)) = curr_duty_cycle (thr s)"
  shows "steps_as 3 s (set_thr f s)"
proof -
  have "drive_ok s \<Longrightarrow> drive_ok (set_thr f s)"
    by (rule drive_ok_untouched) (simp_all add: set_thr_def assms drive_ok_duty)
  then show ?thesis by (simp add: steps_as_def set_thr_def flags_def queues_def gear_display_def)
qed

lemma os_set_thr [simp]: "os (set_thr f s) = os s" "os (go_throttle pc s) = os s" "os (set_motor m s) = os s"
  "flags (go_throttle pc s) = flags s" "queues (go_throttle pc s) = queues s" "flags (set_thr f s) = flags s"
  "queues (set_thr f s) = queues s"
  by (simp_all add: set_thr_def go_throttle_def set_motor_def flags_def queues_def)

lemma steps_go_throttle [simp]: "steps_as 3 s (go_throttle pc s)"
  by (simp add: go_throttle_def)

text \<open>The two modules keep their addresses.\<close>

definition bases :: "motor \<Rightarrow> INT32U list" where
  "bases = (\<lambda>(p, q, r). [period_base p, duty_base p, control_base p, period_base q, duty_base q, control_base q])"

lemma set_duty_cycle_control: "control_base (fst (set_duty_cycle c (m, r))) = control_base m"
  by (simp add: set_duty_cycle_def Let_def)

lemma bases_motor [simp]:
  "bases (set_throttle_by_duty_cycle c m) = bases m" "bases (decrease_throttle m) = bases m"
proof -
  obtain p q r where m: "m = (p, q, r)" by (cases m) auto
  note fr = set_duty_cycle_frame(1,2) set_duty_cycle_control
  obtain p1 r1 q2 r2 where 1: "set_duty_cycle c (p, r) = (p1, r1)" "set_duty_cycle PWM_DUTY_CYCLE_HIGH (q, r1) = (q2, r2)"
    by (metis surj_pair)
  show "bases (set_throttle_by_duty_cycle c m) = bases m"
    using fr [of c p r] fr [of PWM_DUTY_CYCLE_HIGH q r1] 1 by (simp add: m set_throttle_by_duty_cycle_def bases_def)
  obtain q1 t1 p2 t2 where 2: "set_duty_cycle PWM_DUTY_CYCLE_HIGH (q, r) = (q1, t1)"
    "set_duty_cycle PWM_DUTY_CYCLE_HIGH (p, t1) = (p2, t2)" by (metis surj_pair)
  show "bases (decrease_throttle m) = bases m"
    using fr [of PWM_DUTY_CYCLE_HIGH q r] fr [of PWM_DUTY_CYCLE_HIGH p t1] 2 by (simp add: m decrease_throttle_def bases_def)
qed

text \<open>What the regulators do to the modules is one of three.\<close>

definition motor_moves :: "motor \<Rightarrow> motor \<Rightarrow> bool" where
  "motor_moves m m' \<longleftrightarrow> m' = m \<or> m' = decrease_throttle m \<or> (\<exists>c. m' = set_throttle_by_duty_cycle c m)"

lemma motor_moves_same: "motor_moves m m' \<Longrightarrow> bases m' = bases m \<and> reg8 (snd (snd m')) = reg8 (snd (snd m))"
  unfolding motor_moves_def by (elim disjE exE) (simp_all add: set_throttle_reg8 decrease_reg8)

lemma feedback_moves: "motor_moves m (snd (increase_throttle_by_feedback d r m))"
  by (auto simp: motor_moves_def increase_throttle_by_feedback_def Let_def)

lemma by_tps_moves:
  assumes "set_new_throttle_position_by_tps duty expected curr_tps m = (reached, duty', m')"
  shows "motor_moves m m'"
proof -
  obtain d2 m2 where i: "increase_throttle_by_feedback duty 10 m = (d2, m2)" by (metis surj_pair)
  have "m' = set_throttle_by_duty_cycle 580 m \<or> m' = decrease_throttle m \<or> m' = m2"
    using assms by (auto simp: set_new_throttle_position_by_tps_def i split: if_splits)
  then show ?thesis using feedback_moves [of m duty 10] i by (auto simp: motor_moves_def)
qed

lemma by_rpm_moves:
  assumes "set_new_throttle_position_by_rpm duty target curr_rpm k m = (reached, duty', k', m')"
  shows "motor_moves m m'"
proof -
  obtain d2 m2 where i: "increase_throttle_by_feedback duty 2 m = (d2, m2)" by (metis surj_pair)
  have "m' = set_throttle_by_duty_cycle 580 m \<or> m' = decrease_throttle m \<or> m' = m2 \<or> m' = m"
    using assms by (auto simp: set_new_throttle_position_by_rpm_def i split: if_splits)
  then show ?thesis using feedback_moves [of m duty 2] i by (auto simp: motor_moves_def)
qed

lemma steps_motor:
  assumes "motor_moves (motor_of s) m" and ok: "drive_ok s \<Longrightarrow> motor_ok m \<and> duty_ok d"
    and f: "pwm_throttle_open (f t) = pwm_throttle_open t" "pwm_throttle_close (f t) = pwm_throttle_close t"
      "pwm_engine_sound (f t) = pwm_engine_sound t" "curr_duty_cycle (f t) = d" and t: "t = thr (set_motor m s)"
  shows "steps_as 3 s (set_thr f (set_motor m s))"
proof -
  define s' where "s' = set_thr f (set_motor m s)"
  obtain p q r where m: "m = (p, q, r)" by (cases m) auto
  have thr: "pwm_throttle_open (thr s') = p" "pwm_throttle_close (thr s') = q" "io s' = r"
    "pwm_engine_sound (thr s') = pwm_engine_sound (thr s)" "curr_duty_cycle (thr s') = d"
    using f unfolding t by (simp_all add: s'_def set_thr_def set_motor_def m)
  note same = motor_moves_same [OF assms(1), unfolded m]
  have "drive_ok s \<Longrightarrow> drive_ok s'"
    using ok same by (simp add: drive_ok_def thr motor_of_def m bases_def)
  moreover have "gear_display s' = gear_display s" using same by (simp add: gear_display_def thr motor_of_def)
  moreover have "flags s' = flags s" "queues s' = queues s" "fh s' = fh s" "sol s' = sol s" "tables s' = tables s"
    by (simp_all add: s'_def set_thr_def set_motor_def flags_def queues_def)
  moreover have "isr_data s' = isr_data s" by (simp add: s'_def set_thr_def set_motor_def)
  ultimately show ?thesis by (simp add: steps_as_def s'_def [symmetric])
qed

lemma steps_decrease: "steps_as 3 s (set_motor (decrease_throttle (motor_of s)) s)"
proof -
  let ?m = "decrease_throttle (motor_of s)"
  have "steps_as 3 s (set_thr (\<lambda>t. t) (set_motor ?m s))"
    by (rule steps_motor [where f = "\<lambda>t. t" and d = "curr_duty_cycle (thr s)", OF _ _ _ _ _ _ refl])
      (auto simp: motor_moves_def drive_ok_def set_motor_def intro: decrease_ok)
  then show ?thesis by (simp add: set_thr_def)
qed

lemma steps_sound:
  assumes "generate_engine_sound deg (pwm_engine_sound (thr s), io s) = (m, r)"
  shows "steps_as 3 s (set_thr (\<lambda>t. t\<lparr> pwm_engine_sound := m \<rparr>) (s\<lparr> io := r \<rparr>))"
proof -
  let ?b = "duty_base (pwm_engine_sound (thr s))" and ?s = "set_thr (\<lambda>t. t\<lparr> pwm_engine_sound := m \<rparr>) (s\<lparr> io := r \<rparr>)"
  obtain c where c: "set_duty_cycle c (pwm_engine_sound (thr s), io s) = (m, r)"
    using assms unfolding generate_engine_sound_def Let_def by blast
  have fr: "duty_base m = ?b" "\<And>a. a \<noteq> ?b \<Longrightarrow> reg32 r a = reg32 (io s) a" "reg8 r = reg8 (io s)"
    using set_duty_cycle_frame [where c = c and m = "pwm_engine_sound (thr s)" and r = "io s"] c by simp_all
  have "drive_ok ?s" if ok: "drive_ok s"
  proof (rule drive_ok_untouched [OF ok])
    have "?b \<notin> motor_cells" using ok unfolding drive_ok_def by simp
    then have "a \<noteq> ?b" if "a \<in> motor_cells" for a using that by blast
    then show "motor_untouched (io s) (io ?s)" using fr by (simp add: motor_untouched_def set_thr_def)
  qed (simp_all add: set_thr_def fr drive_ok_duty [OF ok])
  then show ?thesis
    by (simp add: steps_as_def) (simp add: set_thr_def gear_display_def fr flags_def queues_def)
qed

section \<open>Alarms\<close>

lemma more_links [simp]:
  "alarm_state.more (set_block b f s) = alarm_state.more s" "alarm_state.more (touch b s) = alarm_state.more s"
  by (simp_all add: set_block_def touch_def)

lemma more_start [simp]: "alarm_state.more (snd (alt_alarm_start a n c x s)) = alarm_state.more s"
  by (cases a) (simp_all add: alt_alarm_start_def alt_llist_insert_def Let_def)

lemma steps_start [simp]:
  "steps_as p s (snd (alt_alarm_start a n c x s))" "os (snd (alt_alarm_start a n c x s)) = os s"
  using steps_more [OF more_start] by auto

lemma steps_own_alarm [simp]: "steps_as p s (start_own_alarm a n c s)" "os (start_own_alarm a n c s) = os s"
  by (simp_all add: start_own_alarm_def)

lemma steps_malloc [simp]: "steps_as p s (snd (malloc_alarm malloc s))" "os (snd (malloc_alarm malloc s)) = os s"
proof -
  have "alarm_state.more (snd (malloc_alarm malloc s)) = alarm_state.more s" by (simp add: malloc_alarm_def Let_def)
  from steps_more [OF this] show "steps_as p s (snd (malloc_alarm malloc s))" "os (snd (malloc_alarm malloc s)) = os s" by auto
qed

lemma steps_clean [simp]: "steps_as p s (snd (clean_alarm a s))" "os (snd (clean_alarm a s)) = os s"
  using steps_more [OF clean_alarm_more(1)] by auto

lemma steps_watchdog [simp]:
  "steps_as 3 s (clean_watchdog_position s)" "os (clean_watchdog_position s) = os s"
  "steps_as 3 s (clean_watchdog_rpm s)" "os (clean_watchdog_rpm s) = os s"
proof -
  show "os (clean_watchdog_position s) = os s" "os (clean_watchdog_rpm s) = os s"
    by (simp_all add: clean_watchdog_position_def clean_watchdog_rpm_def case_prod_beta)
  have "steps_as 3 s (set_thr f (snd (clean_alarm a s)))"
    if "steps_as 3 (snd (clean_alarm a s)) (set_thr f (snd (clean_alarm a s)))" for f a
    using steps_trans [OF steps_clean(1) that] .
  then show "steps_as 3 s (clean_watchdog_position s)" "steps_as 3 s (clean_watchdog_rpm s)"
    by (simp_all add: clean_watchdog_position_def clean_watchdog_rpm_def case_prod_beta)
qed

lemma steps_check_alarm [simp]:
  "steps_as p s (s\<lparr> tps_check_alarm := a \<rparr>)" "steps_as p s (s\<lparr> apps_check_alarm := a \<rparr>)"
proof -
  have "drive_ok s \<Longrightarrow> drive_ok (s\<lparr> tps_check_alarm := a \<rparr>)" "drive_ok s \<Longrightarrow> drive_ok (s\<lparr> apps_check_alarm := a \<rparr>)"
    by (rule drive_ok_same; simp)+
  then show "steps_as p s (s\<lparr> tps_check_alarm := a \<rparr>)" "steps_as p s (s\<lparr> apps_check_alarm := a \<rparr>)"
    by (simp_all add: steps_as_def flags_def queues_def gear_display_def)
qed

lemma steps_checks [simp]:
  "steps_as p s (check_tps_values malloc x y s)" "os (check_tps_values malloc x y s) = os s"
  "steps_as p s (check_apps_values malloc u v s)" "os (check_apps_values malloc u v s) = os s"
proof -
  let ?m = "snd (malloc_alarm malloc s)" and ?am = "fst (malloc_alarm malloc s)"
  have "steps_as p s (start_own_alarm (tps_check_alarm (?m\<lparr> tps_check_alarm := ?am \<rparr>)) n c (?m\<lparr> tps_check_alarm := ?am \<rparr>))"
    "steps_as p s (start_own_alarm (apps_check_alarm (?m\<lparr> apps_check_alarm := ?am \<rparr>)) n c (?m\<lparr> apps_check_alarm := ?am \<rparr>))" for n c
    using steps_trans [OF steps_malloc(1) steps_trans [OF steps_check_alarm(1) steps_own_alarm(1)]]
      steps_trans [OF steps_malloc(1) steps_trans [OF steps_check_alarm(2) steps_own_alarm(1)]] by blast+
  moreover have "steps_as p s ((snd (clean_alarm a s))\<lparr> tps_check_alarm := b \<rparr>)"
    "steps_as p s ((snd (clean_alarm a s))\<lparr> apps_check_alarm := b \<rparr>)" for a b
    using steps_trans [OF steps_clean(1) steps_check_alarm(1)] steps_trans [OF steps_clean(1) steps_check_alarm(2)] by blast+
  ultimately show "steps_as p s (check_tps_values malloc x y s)" "steps_as p s (check_apps_values malloc u v s)"
    by (simp_all add: check_tps_values_def check_apps_values_def case_prod_beta Let_def)
  show "os (check_tps_values malloc x y s) = os s" "os (check_apps_values malloc u v s) = os s"
    by (simp_all add: check_tps_values_def check_apps_values_def case_prod_beta Let_def)
qed

lemma steps_matching:
  assumes "start_matching malloc ptr s = Some s'"
  shows "steps_as 3 s s'" "os s' = os s"
proof -
  have r: "shift_request ptr s = Some (reqs s ptr)" using assms by (auto simp: start_matching_def shift_request_def split: if_splits)
  define s1 where "s1 = set_thr (\<lambda>t. t\<lparr> expected_rpm :=
      ucast (get_new_rpm_needed (get_RPM (rpm_decoder s)) (req_curr_gear (reqs s ptr)) (req_new_gear (reqs s ptr))) \<rparr>) s"
  define s2 where "s2 = clean_watchdog_rpm s1"
  obtain a s3 where m: "malloc_alarm malloc s2 = (a, s3)" by (metis surj_pair)
  have s3: "s3 = snd (malloc_alarm malloc s2)" by (simp add: m)
  have "start_matching malloc ptr s = Some (start_own_alarm a MOTOR_RPM_DRIVE_DELAY_TICKS Watchdog_Rpm_Matching
      (set_thr (\<lambda>t. t\<lparr> watchdog_rpm_matching := a \<rparr>) s3))"
    unfolding start_matching_def r Option.bind.simps Let_def s1_def [symmetric] s2_def [symmetric] m prod.case ..
  then have e: "s' = start_own_alarm a MOTOR_RPM_DRIVE_DELAY_TICKS Watchdog_Rpm_Matching
      (set_thr (\<lambda>t. t\<lparr> watchdog_rpm_matching := a \<rparr>) s3)" using assms by simp
  have "steps_as 3 s s1" by (simp add: s1_def)
  moreover have "steps_as 3 s1 s2" by (simp add: s2_def)
  moreover have "steps_as 3 s2 s3" by (simp add: s3)
  moreover have "steps_as 3 s3 (set_thr (\<lambda>t. t\<lparr> watchdog_rpm_matching := a \<rparr>) s3)" by simp
  ultimately have "steps_as 3 s (set_thr (\<lambda>t. t\<lparr> watchdog_rpm_matching := a \<rparr>) s3)" by (blast intro: steps_trans)
  then show "steps_as 3 s s'" unfolding e by (rule steps_trans) (rule steps_own_alarm(1))
  have "os s3 = os s2" unfolding s3 by (rule steps_malloc(2))
  also have "\<dots> = os s1" unfolding s2_def by (rule steps_watchdog(4))
  also have "\<dots> = os s" unfolding s1_def by (rule os_set_thr(1))
  finally show "os s' = os s" unfolding e by simp
qed

section \<open>The code of the other tasks\<close>

lemma steps_set_sol [simp]: "steps_as 2 s (set_sol f s)" "os (set_sol f s) = os s" "steps_as 2 s (go_solenoid spc s)"
  "os (go_solenoid spc s) = os s"
proof -
  have "drive_ok s \<Longrightarrow> drive_ok (set_sol f s)" for f by (rule drive_ok_same) (simp_all add: set_sol_def)
  then show "steps_as 2 s (set_sol f s)" "steps_as 2 s (go_solenoid spc s)"
    by (simp_all add: steps_as_def go_solenoid_def) (simp_all add: set_sol_def flags_def queues_def)
  show "os (set_sol f s) = os s" "os (go_solenoid spc s) = os s" by (simp_all add: set_sol_def go_solenoid_def)
qed

lemma steps_requests [simp]: "steps_as p s (s\<lparr> req_live := l \<rparr>)" "steps_as p s (s\<lparr> req_live := l, reqs := r \<rparr>)"
proof -
  have "drive_ok s \<Longrightarrow> drive_ok (s\<lparr> req_live := l \<rparr>)" "drive_ok s \<Longrightarrow> drive_ok (s\<lparr> req_live := l, reqs := r \<rparr>)"
    by (rule drive_ok_same; simp)+
  then show "steps_as p s (s\<lparr> req_live := l \<rparr>)" "steps_as p s (s\<lparr> req_live := l, reqs := r \<rparr>)"
    by (simp_all add: steps_as_def flags_def queues_def gear_display_def)
qed

lemma steps_gear [simp]: "steps_as 2 s (s\<lparr> io := output_curr_gear g (io s) \<rparr>)"
  by (rule steps_io) (simp_all add: output_curr_gear_def motor_untouched_write)

lemma steps_set_fh [simp]: "steps_as 1 s (set_fh f s)" "os (set_fh f s) = os s"
proof -
  have "drive_ok s \<Longrightarrow> drive_ok (set_fh f s)" by (rule drive_ok_same) (simp_all add: set_fh_def)
  then show "steps_as 1 s (set_fh f s)" "os (set_fh f s) = os s"
    by (simp_all add: steps_as_def) (simp_all add: set_fh_def flags_def queues_def gear_display_def)
qed

lemmas steps_set_fh_Suc [simp] = steps_set_fh(1) [unfolded One_nat_def]

end
