(* ===== verification/Sys_Inv.thy ===== *)
theory Sys_Inv imports Sys_Step begin

text \<open>
  The calls of the tasks and the invariant of the running program: the kernel is settled, every waiting
  task waits for the event its program point names, a task that is woken by a button has its message, the
  gear is in range and on display, and the motor is in step, within its limits and cut while the throttle
  task waits for a failure to be cleared. A stretch of the running task's code keeps it.
\<close>

section \<open>The calls of the tasks\<close>

lemma wired_flag: "wired s \<Longrightarrow> f \<in> set (flags s) \<Longrightarrow> \<exists>e. f = Some e \<and> is_sem e (os s)"
  unfolding wired_def by blast

lemma wired_queue: "wired s \<Longrightarrow> h \<in> set (queues s) \<Longrightarrow> \<exists>e q. h = Some e \<and> is_queue e q (os s)"
  unfolding wired_def by blast

text \<open>No flag is a queue.\<close>

lemma flag_no_queue:
  assumes "wired s" "f \<in> set (flags s)" "h \<in> set (queues s)"
  shows "f \<noteq> h"
proof
  assume "f = h"
  then obtain e q where "is_sem e (os s)" "is_queue e q (os s)" using wired_flag [OF assms(1,2)] wired_queue [OF assms(1,3)] by auto
  then show False by (simp add: is_sem_def is_queue_def)
qed

lemma flag_events:
  assumes "wired s" "Some e \<in> set (queues s)"
  shows "solenoid_failure_resolved_flag s \<noteq> Some e" "throttle_task_failure_resolved_flag s \<noteq> Some e"
    "exit_shift_matching_flag s \<noteq> Some e"
  using flag_no_queue [OF assms(1) _ assms(2)] by (auto simp: flags_def)

lemma accept_mild:
  assumes "settled n (os s)" "wired s" "f \<in> set (flags s)"
  shows "\<exists>c k. sem_accept f s = (c, s\<lparr> os := k \<rparr>) \<and> quiet n (os s) k"
proof -
  obtain e where e: "f = Some e" "is_sem e (os s)" using wired_flag assms(2,3) by blast
  then show ?thesis using accept_quiet [OF assms(1) e(2)] by (auto simp: sem_accept_def)
qed

lemma drain_mild:
  assumes "settled n (os s)" "wired s" "f \<in> set (flags s)"
  shows "\<exists>s'. drain_flag f s = Some s' \<and> mild n p s s'"
proof -
  obtain e where e: "f = Some e" "is_sem e (os s)" using wired_flag assms(2,3) by blast
  show ?thesis
    using drain_flag_eq [OF e(2)] mild_os [OF set_cnt_quiet [OF assms(1)]] mild_refl [OF assms(1)] e(1) by simp
qed

lemma reset_mild:
  assumes "settled n (os s)" "wired s"
  shows "\<exists>s'. reset_failure_flags s = Some s' \<and> mild n p s s'"
proof -
  obtain s1 where s1: "drain_flag (tps_failure_flag s) s = Some s1" "mild n p s s1"
    using drain_mild [OF assms, of "tps_failure_flag s"] by (auto simp: flags_def)
  note w1 = mild_wired [OF s1(2) assms(2)] and st1 = mildD(3) [OF s1(2)]
  obtain s2 where s2: "drain_flag (apps_failure_flag s1) s1 = Some s2" "mild n p s1 s2"
    using drain_mild [OF st1 w1, of "apps_failure_flag s1"] by (auto simp: flags_def)
  note w2 = mild_wired [OF s2(2) w1] and st2 = mildD(3) [OF s2(2)]
  obtain s3 where s3: "drain_flag (motor_failure_flag s2) s2 = Some s3" "mild n p s2 s3"
    using drain_mild [OF st2 w2, of "motor_failure_flag s2"] by (auto simp: flags_def)
  note w3 = mild_wired [OF s3(2) w2] and st3 = mildD(3) [OF s3(2)]
  obtain s4 where s4: "drain_flag (throttle_task_external_failure_flag s3) s3 = Some s4" "mild n p s3 s4"
    using drain_mild [OF st3 w3, of "throttle_task_external_failure_flag s3"] by (auto simp: flags_def)
  have "reset_failure_flags s = Some s4" by (simp add: reset_failure_flags_def s1(1) s2(1) s3(1) s4(1))
  then show ?thesis using mild_trans s1(2) s2(2) s3(2) s4(2) by blast
qed

lemma take_failure_mild:
  assumes "settled n (os s)" "wired s"
  shows "mild n p s (snd (take_failure s))"
proof (cases "failure_raised s")
  case True
  then show ?thesis using take_failure_ok [OF assms(2)] mild_os [OF set_cnt_quiet [OF assms(1)]] by auto
next
  case False
  then show ?thesis using take_failure_ok [OF assms(2)] mild_refl [OF assms(1)] by simp
qed

lemma q_accept_mild:
  assumes "settled n (os s)" "wired s" "h \<in> set (queues s)"
  shows "\<exists>m k e q. q_accept h s = Some (m, s\<lparr> os := k \<rparr>) \<and> mild n p s (s\<lparr> os := k \<rparr>) \<and> h = Some e \<and> is_queue e q (os s) \<and>
     (case messages q (os s) of [] \<Rightarrow> m = 0 | r # rs \<Rightarrow> m = r)"
proof -
  obtain e q where e: "h = Some e" "is_queue e q (os s)" using wired_queue assms(2,3) by blast
  obtain m err k where k: "OSQAccept (Some e) (Some 0) (os s) = Some (m, err, k)" "quiet n (os s) k"
    "case messages q (os s) of [] \<Rightarrow> m = 0 | r # rs \<Rightarrow> m = r"
    using q_accept_quiet [OF assms(1) e(2)] by blast
  then have "q_accept h s = Some (m, s\<lparr> os := k \<rparr>)" by (simp add: q_accept_def e(1))
  then show ?thesis using mild_os [OF k(2)] e k(3) by blast
qed

text \<open>Calls that come back to the waiting task.\<close>

lemma sem_return_mild:
  assumes "settled 0 (os s)" "wired s" "f \<in> set (flags s)"
  shows "\<exists>s'. sem_pend_return f s = Some s' \<and> mild 0 p s s'"
proof -
  obtain e where e: "f = Some e" using wired_flag assms(2,3) by blast
  obtain err k where "OSSemPend_resume e (os s) = Some (err, k)" "quiet 0 (os s) k"
    using sem_resume_quiet [OF assms(1)] by blast
  then show ?thesis using mild_os by (auto simp: sem_pend_return_def e)
qed

lemma q_return_mild:
  assumes "settled 0 (os s)" "wired s" "h \<in> set (queues s)"
  shows "\<exists>m s'. q_pend_return h s = Some (m, s') \<and> mild 0 p s s'"
proof -
  obtain e q where e: "h = Some e" using wired_queue assms(2,3) by blast
  obtain m err k where "OSQPend_resume e (os s) = Some (m, err, k)" "quiet 0 (os s) k"
    using q_resume_quiet [OF assms(1)] by blast
  then show ?thesis using mild_os by (auto simp: q_pend_return_def e)
qed

text \<open>Calls that may block.\<close>

lemma sem_pend_ends:
  assumes "settled 0 (os s)" "OSPrioCur (os s) \<noteq> 20" "wired s" "f \<in> set (flags s)"
  shows "\<exists>r k e. sem_pend f 0 s = Some (r, s\<lparr> os := k \<rparr>) \<and> f = Some e \<and>
     (if r then quiet 0 (os s) k else parks (unat (OSPrioCur (os s))) e (os s) k)"
proof -
  obtain e where e: "f = Some e" "is_sem e (os s)" using wired_flag assms(3,4) by blast
  obtain r err k where "OSSemPend_enter (Some e) 0 (Some 0) (os s) = Some (r, err, k)"
    "if r then quiet 0 (os s) k else parks (unat (OSPrioCur (os s))) e (os s) k"
    using sem_pend_parks [OF assms(1,2) e(2)] by blast
  then show ?thesis by (auto simp: sem_pend_def e(1))
qed

lemma q_pend_ends:
  assumes "settled 0 (os s)" "OSPrioCur (os s) \<noteq> 20" "wired s" "h \<in> set (queues s)"
  shows "\<exists>r k e. q_pend h 0 s = Some (r, s\<lparr> os := k \<rparr>) \<and> h = Some e \<and>
     (if r = None then parks (unat (OSPrioCur (os s))) e (os s) k else quiet 0 (os s) k)"
proof -
  obtain e q where e: "h = Some e" "is_queue e q (os s)" using wired_queue assms(3,4) by blast
  obtain r m err k where k: "OSQPend_enter (Some e) 0 (Some 0) (os s) = Some (r, m, err, k)"
    "if r then quiet 0 (os s) k else parks (unat (OSPrioCur (os s))) e (os s) k"
    using q_pend_parks [OF assms(1,2) e(2)] by blast
  then show ?thesis by (cases r) (auto simp: q_pend_def e(1))
qed

lemma q_post_ends:
  assumes "settled n (os s)" "wired s" "h \<in> set (queues s)"
  shows "\<exists>k e. q_post h m s = Some (s\<lparr> os := k \<rparr>) \<and> h = Some e \<and> posts n e m (os s) k"
proof -
  obtain e q where e: "h = Some e" "is_queue e q (os s)" using wired_queue assms(2,3) by blast
  then show ?thesis using q_post_posts [OF assms(1) e(2), of m] by (auto simp: q_post_def)
qed

lemma q_post_wakes:
  assumes "settled n (os s)" "is_queue e q (os s)" "wait_set e (os s) \<noteq> {}" "q_post (Some e) m s = Some s'"
  shows "Min (wait_set e (os s)) \<in> ready_set (os s')"
  using q_post_posts [OF assms(1,2), of m] assms(3,4) by (auto simp: q_post_def)

lemma q_post_others:
  assumes "settled n (os s)" "is_queue e q (os s)" "q_post (Some e) m s = Some s'" "e' \<noteq> e"
  shows "wait_set e' (os s') = wait_set e' (os s)"
  using q_post_posts [OF assms(1,2), of m] assms(3,4) by (auto simp: q_post_def posts_def)

lemma raise_flag_ends:
  assumes "settled n (os s)" "wired s" "f \<in> set (flags s)"
  shows "\<exists>k e. raise_flag f s = Some (s\<lparr> os := k \<rparr>) \<and> f = Some e \<and> posts n e 0 (os s) k"
proof -
  obtain e where e: "f = Some e" "is_sem e (os s)" using wired_flag assms(2,3) by blast
  obtain k1 where k1: "OSSemAccept (Some e) (os s) = (OSEventCnt (ECB (os s) e), k1)" "quiet n (os s) k1"
    using accept_quiet [OF assms(1) e(2)] by blast
  have "is_sem e k1" using e(2) os_keepD(4) [OF quietD(2) [OF k1(2)]] by simp
  then obtain err k2 where k2: "OSSemPost (Some e) k1 = Some (err, k2)" "posts n e 0 k1 k2"
    using sem_post_posts [OF quietD(1) [OF k1(2)]] by blast
  have "posts n e 0 (os s) k2" by (rule quiet_then_posts [OF k1(2) k2(2)])
  then show ?thesis
    using k1 k2(1) quiet_posts [OF k1(2)] e(1) by (auto simp: raise_flag_def sem_accept_def sem_post_def)
qed

lemma delay_ends:
  assumes "settled 0 (os s)" "OSPrioCur (os s) \<noteq> 20" and d: "OSTimeDlyHMSM h m sec ms (os s) = (OS_ERR_NONE, [d])" "d \<noteq> 0"
  shows "\<exists>k. time_dly_hmsm h m sec ms s = Some (s\<lparr> os := k \<rparr>) \<and> onward 0 (os s) k \<and> (\<forall>e. wait_set e k = wait_set e (os s)) \<and>
     sleeping (unat d) (unat (OSPrioCur (os s))) k"
  using d delay_onward [OF assms(1,2), of d] by (auto simp: time_dly_hmsm_def)

lemma ms_delay: "settled 0 k \<Longrightarrow> ms \<noteq> 0 \<Longrightarrow> ms \<le> 999 \<Longrightarrow> OSTimeDlyHMSM 0 0 0 ms k = (OS_ERR_NONE, [ms])"
  using OSTimeDlyHMSM_ms calmD(3) [OF settledD(1)] by blast

lemma two_seconds: "settled 0 k \<Longrightarrow> OSTimeDlyHMSM 0 0 2 0 k = (OS_ERR_NONE, [2000])"
  using calmD(3) [OF settledD(1), of 0 k] by (simp add: OSTimeDlyHMSM_def Let_def)

section \<open>The invariant\<close>

text \<open>The event a task waits for, going by its program point.\<close>

definition waits_at :: "app_state \<Rightarrow> nat \<Rightarrow> event_ptr" where
  "waits_at s p =
     (if p = FAILURE_HANDLER_TASK_PRIORITY then
        (case f_pc (fh s) of F_Msg_Wait \<Rightarrow> failure_code_q s | _ \<Rightarrow> None)
      else if p = SOLENOID_TASK_PRIORITY then
        (case s_pc (sol s) of S_Button_Wait \<Rightarrow> btn_input_q s | S_Failure_Wait \<Rightarrow> solenoid_failure_resolved_flag s
         | S_Result_Wait \<Rightarrow> rpm_matching_result_q s | S_Loop \<Rightarrow> None)
      else if p = THROTTLE_CONTROL_TASK_PRIORITY then
        (case t_pc (thr s) of T_Failure_Wait \<Rightarrow> throttle_task_failure_resolved_flag s
         | T_Exit_Wait \<Rightarrow> exit_shift_matching_flag s | _ \<Rightarrow> None)
      else None)"

definition in_place :: "app_state \<Rightarrow> bool" where
  "in_place s \<longleftrightarrow> (\<forall>p e. p \<in> wait_set e (os s) \<longrightarrow> waits_at s p = Some e)"

text \<open>The queue of shift requests is none of the queues on which tasks wait, and only buttons are posted to
  their queue.\<close>

definition apart :: "app_state \<Rightarrow> bool" where
  "apart s \<longleftrightarrow> shift_matching_q s \<notin> {failure_code_q s, btn_input_q s, rpm_matching_result_q s} \<and>
     btn_input_q s \<notin> {failure_msg_q s, failure_code_q s, matching_result_q s, rpm_matching_result_q s}"

lemma apart_same: "queues s' = queues s \<Longrightarrow> apart s' = apart s"
  by (simp add: apart_def queues_def)

text \<open>The solenoid task has the handle of the requests when it needs it.\<close>

definition requests_ok :: "app_state \<Rightarrow> bool" where
  "requests_ok s \<longleftrightarrow> s_shift_matching_q (sol s) \<in> {None, shift_matching_q s} \<and>
     (s_pc (sol s) = S_Failure_Wait \<longrightarrow> s_shift_matching_q (sol s) = shift_matching_q s)"

text \<open>At its wait for a button the solenoid task waits indeed, or has been given the address of the
  interrupt's variable.\<close>

definition button_ok :: "app_state \<Rightarrow> bool" where
  "button_ok s \<longleftrightarrow> (s_pc (sol s) = S_Button_Wait \<longrightarrow>
     (\<forall>b. btn_input_q s = Some b \<longrightarrow> served b isr_data_addr SOLENOID_TASK_PRIORITY (os s)))"

lemma button_keep:
  assumes "button_ok s" "kept r s s'" "r \<noteq> SOLENOID_TASK_PRIORITY" "sol s' = sol s" "queues s' = queues s"
  shows "button_ok s'"
  using assms by (simp add: button_ok_def kept_def queues_def)

text \<open>The gear is in range and shown; a gear that has been asked for is at most one away.\<close>

definition one_step :: "INT8U \<Rightarrow> INT8U \<Rightarrow> bool" where
  "one_step g g' \<longleftrightarrow> unat g' \<le> unat g + 1 \<and> unat g \<le> unat g' + 1"

lemma one_step_refl [simp]: "one_step g g"
  by (simp add: one_step_def)

definition gear_ok :: "app_state \<Rightarrow> bool" where
  "gear_ok s \<longleftrightarrow> 1 \<le> curr_gear (sol s) \<and> curr_gear (sol s) \<le> NUM_GEARS \<and> gear_display s = curr_gear (sol s) - 1 \<and>
     (s_pc (sol s) = S_Result_Wait \<longrightarrow> 1 \<le> new_gear (sol s) \<and> new_gear (sol s) \<le> NUM_GEARS \<and>
        one_step (curr_gear (sol s)) (ucast (new_gear (sol s))))"

text \<open>While the throttle task waits for a failure to be cleared both modules are at full scale: the motor has no torque.\<close>

definition cut_off :: "app_state \<Rightarrow> bool" where
  "cut_off s \<longleftrightarrow> open_duty (motor_of s) = 1000 \<and> close_duty (motor_of s) = 1000"

definition sys_ok :: "app_state \<Rightarrow> bool" where
  "sys_ok s \<longleftrightarrow> settled 0 (os s) \<and> wired s \<and> in_place s \<and> requests_ok s \<and> gear_ok s \<and> drive_ok s \<and>
     apart s \<and> button_ok s \<and> tables s = the_tables \<and> (t_pc (thr s) = T_Failure_Wait \<longrightarrow> cut_off s)"

lemma sys_okD:
  assumes "sys_ok s"
  shows "settled 0 (os s)" "wired s" "in_place s" "requests_ok s" "gear_ok s" "drive_ok s" "tables s = the_tables"
    "apart s" "button_ok s"
  using assms by (simp_all add: sys_ok_def)

text \<open>Only the solenoid task waits for a button.\<close>

lemma button_waiter:
  assumes "sys_ok s" "btn_input_q s = Some e" "p \<in> wait_set e (os s)"
  shows "p = SOLENOID_TASK_PRIORITY" "s_pc (sol s) = S_Button_Wait"
proof -
  note d = sys_okD [OF assms(1)]
  have w: "waits_at s p = Some e" using d(3) assms(3) by (simp add: in_place_def)
  have "Some e \<in> set (queues s)" using assms(2) by (simp add: queues_def)
  note flag_events [OF d(2) this]
  moreover have "failure_code_q s \<noteq> Some e" "rpm_matching_result_q s \<noteq> Some e" using d(8) assms(2) by (auto simp: apart_def)
  ultimately show "p = SOLENOID_TASK_PRIORITY" "s_pc (sol s) = S_Button_Wait"
    using w by (auto simp: waits_at_def split: if_splits throttle_pc.splits solenoid_pc.splits failure_pc.splits)
qed

text \<open>A stretch of the running task's code, from one point where it can lose the processor to the next.\<close>

definition stretch :: "nat \<Rightarrow> app_state \<Rightarrow> app_state \<Rightarrow> bool" where
  "stretch p s s' \<longleftrightarrow> steps_as p s s' \<and> onward 0 (os s) (os s') \<and> kept (unat (OSPrioCur (os s))) s s' \<and>
     (\<forall>q e. q \<in> wait_set e (os s') \<longrightarrow> q \<in> wait_set e (os s) \<or> q = p \<and> waits_at s' p = Some e)"

lemma end_mild:
  assumes "mild 0 p s s'"
  shows "stretch p s s'"
  using mildD(1,6) [OF assms] easedD(3) [OF mildD(2) [OF assms]] subsetD [OF easedD(4) [OF mildD(2) [OF assms]]]
  by (auto simp: stretch_def)

text \<open>A kernel call that ends a stretch.\<close>

lemma end_call:
  assumes m: "mild 0 p s s1" and on: "onward 0 (os s1) k" and kp: "kept (unat (OSPrioCur (os s1))) s1 (s1\<lparr> os := k \<rparr>)"
    and st: "steps_as p (s1\<lparr> os := k \<rparr>) s'" "os s' = k"
    and w: "\<And>q e. q \<in> wait_set e k \<Longrightarrow> q \<in> wait_set e (os s1) \<or> q = p \<and> waits_at s' p = Some e"
  shows "stretch p s s'"
proof -
  note q = mildD(2) [OF m]
  have cur: "OSPrioCur (os s1) = OSPrioCur (os s)" using easedD(5) [OF q] .
  have "steps_as p s s'" using steps_trans [OF mildD(1) [OF m] steps_trans [OF steps_os st(1)]] .
  moreover have "onward 0 (os s) (os s')" using onward_trans [OF easedD(3) [OF q] _ on] cur st(2) by simp
  moreover have "kept (unat (OSPrioCur (os s))) s s'"
  proof -
    have "kept (unat (OSPrioCur (os s))) s (s1\<lparr> os := k \<rparr>)"
      using kept_trans [OF mildD(6) [OF m] mildD(5) [OF m]] kp cur by simp
    then show ?thesis by (simp add: kept_def st(2))
  qed
  moreover have "q' \<in> wait_set e (os s) \<or> q' = p \<and> waits_at s' p = Some e" if "q' \<in> wait_set e (os s')" for q' e
    using w [of q' e] that easedD(4) [OF q, of e] st(2) by auto
  ultimately show ?thesis by (simp add: stretch_def)
qed

text \<open>A delay, a post and a wait.\<close>

lemma end_delay:
  assumes "mild 0 p s s1" "onward 0 (os s1) k" "\<forall>e. wait_set e k = wait_set e (os s1)"
    and "steps_as p (s1\<lparr> os := k \<rparr>) s'" "os s' = k"
  shows "stretch p s s'"
  by (rule end_call [OF assms(1,2) _ assms(4,5)])
    (use kept_onward [of 0 s1 "s1\<lparr> os := k \<rparr>"] assms(2,3) in simp_all)

lemma end_post:
  assumes m: "mild 0 p s s1" and w: "wired s" and h: "h \<in> set (queues s1)" "h \<noteq> btn_input_q s1" and s2: "q_post h m s1 = Some s2"
    and st: "steps_as p s2 s'" "os s' = os s2"
  shows "stretch p s s'"
proof -
  obtain k e where k: "q_post h m s1 = Some (s1\<lparr> os := k \<rparr>)" "h = Some e" "posts 0 e m (os s1) k"
    using q_post_ends [OF mildD(3) [OF m] mild_wired [OF m w] h(1)] by blast
  then have e: "s2 = s1\<lparr> os := k \<rparr>" using s2 by simp
  have "kept (unat (OSPrioCur (os s1))) s1 (s1\<lparr> os := k \<rparr>)"
    using kept_posts [of 0 s1 e m "s1\<lparr> os := k \<rparr>"] mildD(3) [OF m] k(2,3) h(2) by auto
  moreover have "onward 0 (os s1) k" "os s' = k" using k(3) st(2) e by (simp_all add: posts_def)
  ultimately show ?thesis using end_call [OF m _ _ st(1) [unfolded e]] posts_waits [OF k(3)] by blast
qed

lemma end_parks:
  assumes m: "mild 0 p s s1" and k: "parks (unat (OSPrioCur (os s1))) e (os s1) k" and p: "unat (OSPrioCur (os s)) = p"
    and st: "steps_as p (s1\<lparr> os := k \<rparr>) s'" "os s' = k" and w: "waits_at s' p = Some e"
  shows "stretch p s s'"
proof -
  have wait: "wait_set e' k = (if e' = e then insert p (wait_set e (os s1)) else wait_set e' (os s1))" for e'
    using k p easedD(5) [OF mildD(2) [OF m]] by (simp add: parks_def)
  have on: "onward 0 (os s1) k" using k by (simp add: parks_def)
  have "kept (unat (OSPrioCur (os s1))) s1 (s1\<lparr> os := k \<rparr>)"
    using kept_onward [of 0 s1 "s1\<lparr> os := k \<rparr>"] on by (simp add: wait subset_insertI)
  moreover have "q \<in> wait_set e' (os s1) \<or> q = p \<and> waits_at s' p = Some e'" if "q \<in> wait_set e' k" for q e'
    using that w wait [of e'] by (auto split: if_splits)
  ultimately show ?thesis using end_call [OF m on _ st] by blast
qed

text \<open>Other tasks stay where they are, and the running task waits nowhere.\<close>

lemma waits_at_other:
  assumes "steps_as p s s'" "q \<noteq> p"
  shows "waits_at s' q = waits_at s q"
proof -
  have h: "flags s' = flags s" "queues s' = queues s" using assms(1) by (simp_all add: steps_as_def)
  then have "failure_code_q s' = failure_code_q s" "btn_input_q s' = btn_input_q s" "rpm_matching_result_q s' = rpm_matching_result_q s"
    "solenoid_failure_resolved_flag s' = solenoid_failure_resolved_flag s"
    "throttle_task_failure_resolved_flag s' = throttle_task_failure_resolved_flag s"
    "exit_shift_matching_flag s' = exit_shift_matching_flag s" by (simp_all add: flags_def queues_def)
  moreover have "q = 1 \<Longrightarrow> fh s' = fh s" "q = 2 \<Longrightarrow> sol s' = sol s" "q = 3 \<Longrightarrow> thr s' = thr s"
    using assms by (auto simp: steps_as_def)
  ultimately show ?thesis
    by (simp add: waits_at_def split: throttle_pc.split solenoid_pc.split failure_pc.split)
qed

lemma sys_ok_stretch:
  assumes ok: "sys_ok s" and p: "unat (OSPrioCur (os s)) = p" and st: "stretch p s s'"
    and sol: "p = 2 \<Longrightarrow> requests_ok s' \<and> gear_ok s' \<and> button_ok s'" and thr: "p = 3 \<Longrightarrow> t_pc (thr s') = T_Failure_Wait \<Longrightarrow> cut_off s'"
  shows "sys_ok s'"
proof -
  note d = sys_okD [OF ok]
  have steps: "steps_as p s s'" and on: "onward 0 (os s) (os s')" and kp: "kept p s s'"
    using st p by (simp_all add: stretch_def)
  have h: "flags s' = flags s" "queues s' = queues s" "drive_ok s'" "tables s' = the_tables"
    using steps d(6,7) by (auto simp: steps_as_def)
  obtain i where "running_task (os s) p i" using settled_running [OF d(1)] p by blast
  then have nowhere: "p \<notin> wait_set e (os s)" for e by (simp add: running_task_def)
  have "waits_at s' q = Some e" if w: "q \<in> wait_set e (os s')" for q e
  proof (cases "q = p")
    case True
    then show ?thesis using st w nowhere by (auto simp: stretch_def)
  next
    case False
    then have "q \<in> wait_set e (os s)" using st w by (auto simp: stretch_def)
    then show ?thesis using d(3) waits_at_other [OF steps False] by (simp add: in_place_def)
  qed
  then have "in_place s'" by (simp add: in_place_def)
  moreover have "wired s'" by (rule wired_keep [OF d(2) h(1,2) onwardD(2) [OF on]])
  moreover have "apart s'" using d(8) apart_same [OF h(2)] by simp
  moreover have "requests_ok s' \<and> gear_ok s' \<and> button_ok s'"
  proof (cases "p = 2")
    case False
    then have "sol s' = sol s" "gear_display s' = gear_display s" using steps by (auto simp: steps_as_def)
    moreover have "shift_matching_q s' = shift_matching_q s" "failure_code_q s' = failure_code_q s"
      "btn_input_q s' = btn_input_q s" "rpm_matching_result_q s' = rpm_matching_result_q s"
      using h(2) by (simp_all add: queues_def)
    ultimately show ?thesis
      using d(4,5) button_keep [OF d(9) kp _ _ h(2)] False by (simp add: requests_ok_def gear_ok_def)
  qed (use sol in blast)
  moreover have "cut_off s'" if "t_pc (thr s') = T_Failure_Wait"
  proof (cases "p = 3")
    case False
    then have "thr s' = thr s" using steps by (simp add: steps_as_def)
    then show ?thesis using that ok by (simp add: sys_ok_def cut_off_def motor_of_def open_duty_def close_duty_def)
  qed (use thr that in blast)
  ultimately show ?thesis using onwardD(1) [OF on] h(3,4) by (simp add: sys_ok_def)
qed

end
