(* ===== verification/Sys_Intr.thy ===== *)
theory Sys_Intr imports Sys_Inv begin

text \<open>
  The interrupts keep the invariant of the system: every callback of an alarm, the tick of the alarms
  whatever the list of alarms looks like, the tick of the kernel, and the button interrupt. A task that
  sleeps has one tick less to go after a timer interrupt.
\<close>

section \<open>Callbacks\<close>

text \<open>Inside an interrupt a post only makes a task ready.\<close>

lemma raise_inside:
  assumes "settled 1 (os s)" "wired s" "f \<in> set (flags s)"
  shows "\<exists>s'. raise_flag f s = Some s' \<and> mild 1 p s s'"
proof -
  obtain k e where k: "raise_flag f s = Some (s\<lparr> os := k \<rparr>)" "f = Some e" "posts 1 e 0 (os s) k"
    using raise_flag_ends [OF assms] by blast
  have "btn_input_q s \<noteq> Some e" using flag_no_queue [OF assms(2,3), of "btn_input_q s"] k(2) by (auto simp: queues_def)
  then show ?thesis using k(1) mild_post [OF assms(1) k(3) posts_eased [OF k(3)]] by (metis zero_neq_one)
qed

lemma post_inside:
  assumes "settled 1 (os s)" "wired s" "h \<in> set (queues s)" "h = btn_input_q s \<longrightarrow> m = isr_data_addr"
  shows "\<exists>s'. q_post h m s = Some s' \<and> mild 1 p s s'"
proof -
  obtain k e where k: "q_post h m s = Some (s\<lparr> os := k \<rparr>)" "h = Some e" "posts 1 e m (os s) k"
    using q_post_ends [OF assms(1-3)] by blast
  then show ?thesis using mild_post [OF assms(1) k(3) posts_eased [OF k(3)]] assms(4) by (metis zero_neq_one)
qed

lemma raise_and_post_inside:
  assumes "mild 1 p s0 s" "wired s0" "apart s0" "f \<in> set (flags s)"
    and step: "do { s \<leftarrow> raise_flag f s; s \<leftarrow> q_post (failure_msg_q s) m s; Some (0, s) } = Some (r :: INT32U, s')"
  shows "mild 1 p s0 s'"
proof -
  obtain s1 where s1: "raise_flag f s = Some s1" "mild 1 p s s1"
    using raise_inside [OF mildD(3) [OF assms(1)] mild_wired [OF assms(1,2)] assms(4)] by blast
  note m1 = mild_trans [OF assms(1) s1(2)]
  have "failure_msg_q s1 \<noteq> btn_input_q s1" using assms(3) apart_same [OF mildD(5) [OF m1]] by (auto simp: apart_def)
  then obtain s2 where s2: "q_post (failure_msg_q s1) m s1 = Some s2" "mild 1 p s1 s2"
    using post_inside [OF mildD(3) [OF m1] mild_wired [OF m1 assms(2)], of "failure_msg_q s1"] by (auto simp: queues_def)
  then have "s' = s2" using step s1(1) by simp
  then show ?thesis using mild_trans [OF m1 s2(2)] by simp
qed

lemma clean_context_more: "alarm_state.more (clean_context a s) = alarm_state.more s"
  by (simp add: clean_context_def clean_alarm_more)

lemma mild_clean: "mild n p s s1 \<Longrightarrow> mild n p s (clean_context a s1)"
  using mild_then_plain steps_more [OF clean_context_more] by blast

lemma signal_exit_raises: "exit_shift_matching_flag s \<in> set (flags s) \<Longrightarrow>
    signal_exit_shift_matching s = raise_flag (exit_shift_matching_flag s) s"
  by (auto simp: signal_exit_shift_matching_def raise_flag_def sem_accept_def split: prod.splits)

lemma callback_mild:
  assumes s: "settled 1 (os s)" and w: "wired s" "apart s" and step: "run_callback c ctx s = Some (r, s')"
  shows "mild 1 p s s'"
proof (cases c)
  case Watchdog_Throttle_Position
  have "mild 1 p s (clean_context ctx s)" by (rule mild_clean [OF mild_refl [OF s]])
  from raise_and_post_inside [OF this w, of "motor_failure_flag (clean_context ctx s)"] show ?thesis
    using step by (simp add: Watchdog_Throttle_Position run_callback_def watchdog_throttle_position_callback_def Let_def flags_def)
next
  case Watchdog_Rpm_Matching
  define s1 where "s1 = clean_context ctx s"
  have m1: "mild 1 p s s1" unfolding s1_def by (rule mild_clean [OF mild_refl [OF s]])
  have "matching_result_q s1 \<noteq> btn_input_q s1" using w(2) apart_same [OF mildD(5) [OF m1]] by (auto simp: apart_def)
  then obtain s2 where "q_post (matching_result_q s1) SHIFT_MATCHING_RESULT_FAIL s1 = Some s2" "mild 1 p s1 s2"
    using post_inside [OF mildD(3) [OF m1] mild_wired [OF m1 w(1)], of "matching_result_q s1"] by (auto simp: queues_def)
  then show ?thesis
    using step mild_trans [OF m1]
    by (simp add: Watchdog_Rpm_Matching run_callback_def watchdog_rpm_matching_callback_def signal_shift_failure_def s1_def)
next
  case Apps_Value_Comp
  define s1 where "s1 = clean_context ctx (alt_up_de0_nano_adc_update s)"
  have m1: "mild 1 p s s1"
    unfolding s1_def by (rule mild_clean [OF mild_then_plain [OF mild_refl [OF s] steps_devices(1)]]) simp
  then show ?thesis
    using step raise_and_post_inside [OF m1 w, of "apps_failure_flag s1"]
    by (auto simp: Apps_Value_Comp run_callback_def apps_value_comp_callback_def Let_def flags_def s1_def [symmetric] split: if_splits)
next
  case Tps_Value_Comp
  define s1 where "s1 = clean_context ctx (alt_up_de0_nano_adc_update s)"
  have m1: "mild 1 p s s1"
    unfolding s1_def by (rule mild_clean [OF mild_then_plain [OF mild_refl [OF s] steps_devices(1)]]) simp
  then show ?thesis
    using step raise_and_post_inside [OF m1 w, of "tps_failure_flag s1"]
    by (auto simp: Tps_Value_Comp run_callback_def tps_value_comp_callback_def Let_def flags_def s1_def [symmetric] split: if_splits)
next
  case Solenoid_Callback
  define s1 where "s1 = s\<lparr> io := io_write32 SOLENOID_OUT_BASE CLEAR_BUTTON_DATA (io s) \<rparr>"
  have m1: "mild 1 p s s1" unfolding s1_def by (rule mild_then_plain [OF mild_refl [OF s] steps_devices(5)]) simp
  have f: "exit_shift_matching_flag s1 \<in> set (flags s1)" by (simp add: flags_def)
  obtain s2 where s2: "raise_flag (exit_shift_matching_flag s1) s1 = Some s2" "mild 1 p s1 s2"
    using raise_inside [OF mildD(3) [OF m1] mild_wired [OF m1 w(1)] f] by blast
  then have "s' = s2"
    using step signal_exit_raises [OF f]
    unfolding Solenoid_Callback run_callback_def callback.case solenoid_callback_def s1_def [symmetric] by simp
  then show ?thesis using mild_trans [OF m1 s2(2)] by simp
qed

section \<open>The tick\<close>

lemma mild_more: "mild n p s s1 \<Longrightarrow> alarm_state.more s2 = alarm_state.more s1 \<Longrightarrow> mild n p s s2"
  using mild_then_plain steps_more by blast

lemma tick_alarm_mild:
  assumes s: "settled 1 (os s)" and w: "wired s" "apart s" and step: "tick_alarm run_callback a s = Some s'"
  shows "mild 1 p s s'"
proof -
  define s1 where "s1 = set_block a (roll_over (nticks s)) (touch a s)"
  have m1: "mild 1 p s s1" by (rule mild_more [OF mild_refl [OF s]]) (simp add: s1_def)
  show ?thesis
  proof (cases "expired (nticks s1) (blocks s1 a)")
    case False
    then have "s' = s1" using step by (simp add: tick_alarm_def s1_def [symmetric])
    then show ?thesis using m1 by simp
  next
    case True
    then obtain r s2 where s2: "run_callback (al_callback (blocks s1 a)) (al_context (blocks s1 a)) s1 = Some (r, s2)"
      using step by (auto simp: tick_alarm_def s1_def [symmetric] split: bind_splits)
    have m2: "mild 1 p s s2"
      using mild_trans [OF m1 callback_mild [OF mildD(3) [OF m1] mild_wired [OF m1 w(1)] _ s2]] w(2) apart_same [OF mildD(5) [OF m1]] by blast
    have "alarm_state.more s' = alarm_state.more s2"
      using step True s2 by (auto simp: tick_alarm_def s1_def [symmetric] Let_def split: if_splits)
    then show ?thesis using mild_more [OF m2] by blast
  qed
qed

lemma tick_alarms_mild:
  assumes "tick_alarms run_callback n s = Some s'" "settled 1 (os s)" "wired s" "apart s"
  shows "mild 1 p s s'"
proof -
  have "call = run_callback \<longrightarrow> settled 1 (os s) \<longrightarrow> wired s \<longrightarrow> apart s \<longrightarrow> mild 1 p s s'"
    if "tick_alarms call n s = Some s'" for call and s s' :: app_state
  proof (rule tick_alarms.raw_induct [OF _ that], intro impI)
    fix f :: "(callback \<Rightarrow> nat \<Rightarrow> app_state \<Rightarrow> (INT32U \<times> app_state) option) \<Rightarrow> node \<Rightarrow> app_state \<Rightarrow> app_state option"
      and call n s s'
    assume IH: "\<And>call n s s'. f call n s = Some s' \<Longrightarrow> call = run_callback \<longrightarrow> settled 1 (os s) \<longrightarrow> wired s \<longrightarrow> apart s \<longrightarrow> mild 1 p s s'"
      and step: "(case n of Head \<Rightarrow> Some s
        | Al a \<Rightarrow> do { let nx = get_next (Al a) s; s \<leftarrow> tick_alarm call a s; f call nx s }) = Some s'"
      and a: "call = run_callback" "settled 1 (os s)" "wired s" "apart s" "apart s"
    show "mild 1 p s s'"
    proof (cases n)
      case Head
      then show ?thesis using step mild_refl [OF a(2)] by simp
    next
      case (Al a')
      then obtain s1 where s1: "tick_alarm call a' s = Some s1" "f call (get_next (Al a') s) s1 = Some s'"
        using step by (auto simp: Let_def split: bind_splits)
      have m1: "mild 1 p s s1" using tick_alarm_mild [OF a(2-4)] s1(1) a(1) by simp
      then show ?thesis using IH [OF s1(2)] a(1) mild_trans [OF m1] mildD(3) [OF m1] mild_wired [OF m1 a(3)]
          a(4) apart_same [OF mildD(5) [OF m1]] by blast
    qed
  qed
  then show ?thesis using assms by blast
qed

section \<open>Interrupts\<close>

lemma sys_ok_interrupt:
  assumes ok: "sys_ok s" and st: "steps_as 0 s s'" and k: "settled 0 (os s')" and w: "wired s'"
    and waits: "\<And>e. wait_set e (os s') \<subseteq> wait_set e (os s)" and b: "button_ok s'"
  shows "sys_ok s'"
proof -
  note d = sys_okD [OF ok]
  have h: "flags s' = flags s" "queues s' = queues s" "drive_ok s'" "thr s' = thr s" "sol s' = sol s" "fh s' = fh s"
    "gear_display s' = gear_display s" "tables s' = the_tables" using st d(6,7) by (simp_all add: steps_as_def)
  have q: "shift_matching_q s' = shift_matching_q s" "failure_code_q s' = failure_code_q s"
    "btn_input_q s' = btn_input_q s" "rpm_matching_result_q s' = rpm_matching_result_q s"
    using h(2) by (simp_all add: queues_def)
  have "waits_at s' p = waits_at s p" for p
  proof (cases "p = 0")
    case True
    then show ?thesis by (simp add: waits_at_def)
  next
    case False
    then show ?thesis using waits_at_other [OF st] by blast
  qed
  then have "in_place s'" using d(3) waits by (fastforce simp: in_place_def)
  moreover have "requests_ok s'" "gear_ok s'" using d(4,5) by (simp_all add: requests_ok_def gear_ok_def h q)
  moreover have "apart s'" using d(8) apart_same [OF h(2)] by simp
  ultimately show ?thesis
    using ok k w b h(3,4,8) by (simp add: sys_ok_def cut_off_def motor_of_def open_duty_def close_duty_def)
qed

text \<open>What happens between entry and exit leaves the tasks alone.\<close>

lemma steps_enter: "steps_as p s (int_enter s)"
  by (simp add: int_enter_def)

lemma steps_isr_data: "steps_as 0 s (s\<lparr> isr_data := v \<rparr>)"
proof -
  have "drive_ok s \<Longrightarrow> drive_ok (s\<lparr> isr_data := v \<rparr>)" by (rule drive_ok_same) simp_all
  then show ?thesis by (simp add: steps_as_def flags_def queues_def gear_display_def)
qed

lemma inside_wired:
  assumes "settled 0 (os s)" "wired s"
  shows "wired (int_enter s)"
  using assms(2) enter_calm(3,4) [OF assms(1)] by (auto simp: wired_def int_enter_def flags_def queues_def)

lemma leave_ok:
  assumes ok: "sys_ok s" and m: "steps_as 0 s s1" "settled 1 (os s1)" "wired s1"
    and waits: "\<And>e. wait_set e (os s1) \<subseteq> wait_set e (os s)" and kp: "kept 0 s s1"
  shows "\<exists>s'. int_exit s1 = Some s' \<and> sys_ok s' \<and> ready_set (os s') = ready_set (os s1) \<and>
     (\<forall>d p. sleeping d p (os s1) \<longrightarrow> sleeping d p (os s'))"
proof -
  obtain k where k: "OSIntExit (os s1) = Some k" "settled 0 k" "\<forall>e. wait_set e k = wait_set e (os s1)"
    "ready_set k = ready_set (os s1)" "undisturbed 0 (os s1) k" "\<forall>p i. task_at k p i = task_at (os s1) p i"
    "\<forall>e. is_sem e k = is_sem e (os s1)" "\<forall>e q. is_queue e q k = is_queue e q (os s1)"
    using exit_settled [OF m(2)] by blast
  have "wired (s1\<lparr> os := k \<rparr>)" using m(3) k(7,8) by (simp add: wired_def flags_def queues_def)
  moreover have "button_ok (s1\<lparr> os := k \<rparr>)"
  proof -
    have "served b isr_data_addr p k" if "served b isr_data_addr p (os s1)" "p \<noteq> 0" for b p
      using served_undisturbed [OF that(1) k(5) that(2)] k(3,6) by simp
    then have "kept 0 s (s1\<lparr> os := k \<rparr>)" using kp by (simp add: kept_def)
    then show ?thesis
      by (rule button_keep [OF sys_okD(9) [OF ok]]) (use m(1) in \<open>simp_all add: steps_as_def queues_def\<close>)
  qed
  ultimately have "sys_ok (s1\<lparr> os := k \<rparr>)"
    using sys_ok_interrupt [OF ok steps_trans [OF m(1) steps_os]] k(2,3) waits by simp
  moreover have "sleeping d p k" if "sleeping d p (os s1)" for d p using sleeping_undisturbed [OF that k(5)] k(6) by blast
  ultimately show ?thesis using k(1,4) by (intro exI [of _ "s1\<lparr> os := k \<rparr>"]) (simp add: int_exit_def)
qed

text \<open>What the handlers do between entry and exit when the clock ticks \<open>t\<close> times: sleepers have \<open>t\<close> ticks less to go.\<close>

definition inside :: "nat \<Rightarrow> app_state \<Rightarrow> app_state \<Rightarrow> bool" where
  "inside t s s' \<longleftrightarrow> steps_as 0 s s' \<and> settled 1 (os s') \<and> wired s' \<and> (\<forall>e. wait_set e (os s') \<subseteq> wait_set e (os s)) \<and>
     ready_set (os s) \<subseteq> ready_set (os s') \<and> kept 0 s s' \<and>
     (\<forall>d p. sleeping d p (os s) \<and> 0 < d \<longrightarrow> (if t < d then sleeping (d - t) p (os s') else p \<in> ready_set (os s')))"

lemma insideD:
  assumes "inside t s s'"
  shows "steps_as 0 s s'" "settled 1 (os s')" "wired s'" "wait_set e (os s') \<subseteq> wait_set e (os s)"
    "sleeping d p (os s) \<Longrightarrow> t < d \<Longrightarrow> sleeping (d - t) p (os s')"
    "sleeping d p (os s) \<Longrightarrow> 0 < d \<Longrightarrow> d \<le> t \<Longrightarrow> p \<in> ready_set (os s')" "kept 0 s s'"
  using assms unfolding inside_def by (blast | fastforce)+

lemma inside_trans:
  assumes a: "inside t s s'" and b: "inside u s' s''"
  shows "inside (t + u) s s''"
proof -
  have r: "ready_set (os s) \<subseteq> ready_set (os s')" "ready_set (os s') \<subseteq> ready_set (os s'')" using a b by (simp_all add: inside_def)
  have "if t + u < d then sleeping (d - (t + u)) p (os s'') else p \<in> ready_set (os s'')" if d: "sleeping d p (os s)" "0 < d" for d p
  proof (cases "t < d")
    case True
    note sl = insideD(5) [OF a d(1) True]
    show ?thesis
    proof (cases "u < d - t")
      case True
      then have "t + u < d" "d - (t + u) = d - t - u" by simp_all
      then show ?thesis using insideD(5) [OF b sl True] by simp
    next
      case False
      then have "\<not> t + u < d" by simp
      then show ?thesis using insideD(6) [OF b sl] False \<open>t < d\<close> by simp
    qed
  next
    case False
    then show ?thesis using insideD(6) [OF a d] r(2) by auto
  qed
  moreover have "steps_as 0 s s''" using steps_trans insideD(1) [OF a] insideD(1) [OF b] by blast
  moreover have "wait_set e (os s'') \<subseteq> wait_set e (os s)" for e using insideD(4) [OF a] insideD(4) [OF b] by blast
  moreover have "kept 0 s s''" using kept_trans [OF insideD(7) [OF a] _ insideD(7) [OF b]] insideD(1) [OF a] by (simp add: steps_as_def)
  ultimately show ?thesis using r insideD(2,3) [OF b] by (auto simp: inside_def)
qed

lemma inside_mild:
  assumes "mild 1 0 s s'" "wired s"
  shows "inside 0 s s'"
  using mildD(1,3,6) [OF assms(1)] mild_wired [OF assms] easedD(4,6) [OF mildD(2) [OF assms(1)]]
    sleeping_onward [OF easedD(3) [OF mildD(2) [OF assms(1)]]] by (auto simp: inside_def)

lemma inside_tick:
  assumes "settled 1 (os s)" "wired s" "os_time_tick s = Some s'"
  shows "inside 1 s s'"
proof -
  obtain k where k: "OSTimeTick (os s) = Some k" "settled 1 k" "\<forall>e. wait_set e k = wait_set e (os s)" "ready_set (os s) \<subseteq> ready_set k"
    "\<forall>d p. sleeping d p (os s) \<longrightarrow> (if d = 1 then p \<in> ready_set k else sleeping (d - 1) p k)"
    "\<forall>e. is_sem e k = is_sem e (os s)" "\<forall>e q. is_queue e q k = is_queue e q (os s)"
    "\<forall>p i m. task_at (os s) p i \<and> got m (TCB (os s) i) \<longrightarrow> got m (TCB k i)" "\<forall>p i. task_at k p i = task_at (os s) p i"
    using tick_settled [OF assms(1)] by blast
  have s': "s' = s\<lparr> os := k \<rparr>" using assms(3) k(1) by (simp add: os_time_tick_def)
  have "wired s'" using assms(2) k(6,7) by (simp add: s' wired_def flags_def queues_def)
  moreover have "if Suc 0 < d then sleeping (d - Suc 0) p k else p \<in> ready_set k" if "sleeping d p (os s)" "0 < d" for d p
    using k(5) [rule_format, OF that(1)] that(2) by (auto split: if_splits)
  moreover have "kept 0 s s'" using k(3,8,9) unfolding kept_def s' served_def by simp blast
  ultimately show ?thesis using k(2-4) by (auto simp: inside_def s')
qed

lemma timer_isr_inside:
  assumes s: "settled 1 (os s)" and w: "wired s" "apart s" and step: "alt_avalon_timer_sc_irq SYS_CLK_TIMER_BASE s = Some s'"
  shows "inside 1 s s'" "isr_data s' = isr_data s"
proof -
  define s0 where "s0 = s\<lparr> io := io_write32 SYS_CLK_TIMER_BASE 0 (io s) \<rparr>"
  define s1 where "s1 = s0\<lparr> nticks := nticks s0 + 1 \<rparr>"
  have m0: "mild 1 p s s0" for p unfolding s0_def by (rule mild_then_plain [OF mild_refl [OF s] steps_devices(8)]) simp
  have m1: "mild 1 p s s1" for p by (rule mild_more [OF m0]) (simp add: s1_def)
  obtain s2 where s2: "tick_alarms run_callback (head_next s0) s1 = Some s2" "os_time_tick s2 = Some s'"
    using step by (auto simp: alt_avalon_timer_sc_irq_def s0_def s1_def alt_tick_def split: bind_splits)
  have m2: "mild 1 p s s2" for p
    using mild_trans [OF m1] tick_alarms_mild [OF s2(1) mildD(3) [OF m1] mild_wired [OF m1 w(1)]] w(2) apart_same [OF mildD(5) [OF m1]]
    by blast
  have "inside 1 s2 s'" by (rule inside_tick [OF mildD(3) [OF m2] mild_wired [OF m2 w(1)] s2(2)])
  then show "inside 1 s s'" using inside_trans [OF inside_mild [OF m2 w(1)]] by fastforce
  have "isr_data s2 = isr_data s" using mildD(1) [OF m2 [of 1]] by (simp add: steps_as_def)
  then show "isr_data s' = isr_data s" using s2(2) by (auto simp: os_time_tick_def split: bind_splits)
qed

lemma button_isr_inside:
  assumes s: "settled 1 (os s)" and w: "wired s"
  shows "\<exists>s'. isr_btn s = Some s' \<and> inside 0 s s'"
proof -
  define s1 where "s1 = s\<lparr> isr_data := reg32 (io s) pio_edge_cap \<rparr>"
  have m1: "mild 1 0 s s1" unfolding s1_def by (rule mild_then_plain [OF mild_refl [OF s] steps_isr_data]) simp
  obtain s2 where s2: "q_post (btn_input_q s1) isr_data_addr s1 = Some s2" "mild 1 0 s1 s2"
    using post_inside [OF mildD(3) [OF m1] mild_wired [OF m1 w], of "btn_input_q s1"] by (auto simp: queues_def)
  obtain s3 where s3: "isr_btn s = Some (clear_edge_cap s3)" "mild 1 0 s s3"
  proof (cases "isr_data s1 = BUTTON_INPUT_SHIFT_UP \<or> isr_data s1 = BUTTON_INPUT_SHIFT_DOWN")
    case True
    then have "isr_btn s = Some (clear_edge_cap s2)" using s2(1) by (auto simp: isr_btn_def Let_def s1_def)
    then show ?thesis using that mild_trans [OF m1 s2(2)] by blast
  next
    case False
    then have "isr_btn s = Some (clear_edge_cap s1)" by (auto simp: isr_btn_def Let_def s1_def)
    then show ?thesis using that m1 by blast
  qed
  have "mild 1 0 s (clear_edge_cap s3)" by (rule mild_then_plain [OF s3(2)]) simp_all
  then show ?thesis using inside_mild w s3(1) by blast
qed

text \<open>A button that the solenoid task waits for wakes it.\<close>

lemma button_isr_wakes:
  assumes s: "settled 1 (os s)" "wired s" and e: "btn_input_q s = Some e" "wait_set e (os s) = {p}"
    and w: "reg32 (io s) pio_edge_cap = w" "w = BUTTON_INPUT_SHIFT_UP \<or> w = BUTTON_INPUT_SHIFT_DOWN"
    and step: "isr_btn s = Some s'"
  shows "p \<in> ready_set (os s')" "isr_data s' = w" "e' \<noteq> e \<Longrightarrow> wait_set e' (os s') = wait_set e' (os s)"
proof -
  define s1 where "s1 = s\<lparr> isr_data := w \<rparr>"
  have "isr_btn s = do { s \<leftarrow> q_post (btn_input_q s1) isr_data_addr s1; Some (clear_edge_cap s) }"
    using w by (auto simp: isr_btn_def Let_def s1_def)
  then obtain s2 where s2: "q_post (Some e) isr_data_addr s1 = Some s2" "s' = clear_edge_cap s2"
    using step e(1) by (auto simp: s1_def split: bind_splits)
  obtain q where q: "is_queue e q (os s)" using wired_queue [OF s(2), of "btn_input_q s"] e(1) by (auto simp: queues_def)
  then have "p \<in> ready_set (os s2)" using q_post_wakes [OF _ _ _ s2(1)] s(1) e(2) by (simp add: s1_def)
  then show "p \<in> ready_set (os s')" by (simp add: s2(2))
  have "isr_data s2 = w" using s2(1) by (auto simp: q_post_def s1_def split: bind_splits)
  then show "isr_data s' = w" by (simp add: s2(2) clear_edge_cap_def)
  show "wait_set e' (os s') = wait_set e' (os s)" if "e' \<noteq> e"
    using q_post_others [OF _ _ s2(1) that] s(1) q by (simp add: s1_def s2(2))
qed

text \<open>The lines of the timer and of the buttons, in any order and number.\<close>

lemma run_isr_simps [simp]:
  "run_isr Alt_Avalon_Timer_Sc_Irq c i = alt_avalon_timer_sc_irq c" "run_isr Isr_Btn c i = isr_btn"
  by (simp_all add: run_isr_def fun_eq_iff)

lemma serve_inside:
  assumes u: "lines_registered u" and ns: "set ns \<subseteq> {0, 4}" and s: "settled 1 (os s)" "wired s" "apart s"
    and step: "serve_lines run_isr (alt_irq u) ns s = Some s'"
  shows "inside (count_list ns 0) s s' \<and> (4 \<notin> set ns \<longrightarrow> isr_data s' = isr_data s)"
  using ns s step
proof (induction ns arbitrary: s)
  case Nil
  then show ?case using inside_mild [OF mild_refl] by simp
next
  case (Cons n ns)
  have t: "alt_irq u 0 = (Some Alt_Avalon_Timer_Sc_Irq, SYS_CLK_TIMER_BASE)" "alt_irq u 4 = (Some Isr_Btn, 0)"
    using u by (simp_all add: lines_registered_def SYS_CLK_TIMER_IRQ_def BUTTONS_IRQ_def)
  obtain s1 where s1: "inside (if n = 0 then 1 else 0) s s1" "serve_lines run_isr (alt_irq u) ns s1 = Some s'"
    "n \<noteq> 4 \<longrightarrow> isr_data s1 = isr_data s"
  proof (cases "n = 0")
    case True
    then obtain s1 where "alt_avalon_timer_sc_irq SYS_CLK_TIMER_BASE s = Some s1" "serve_lines run_isr (alt_irq u) ns s1 = Some s'"
      using Cons.prems(5) t(1) by (auto split: bind_splits)
    then show ?thesis using that timer_isr_inside [OF Cons.prems(2-4)] True by simp
  next
    case False
    then have n: "n = 4" using Cons.prems(1) by simp
    obtain s1 where "isr_btn s = Some s1" "inside 0 s s1" using button_isr_inside [OF Cons.prems(2,3)] by blast
    then show ?thesis using that Cons.prems(5) t(2) n by auto
  qed
  have "queues s1 = queues s" using insideD(1) [OF s1(1)] by (simp add: steps_as_def)
  then have "apart s1" using Cons.prems(4) apart_same [of s1 s] by simp
  then have "inside (count_list ns 0) s1 s' \<and> (4 \<notin> set ns \<longrightarrow> isr_data s' = isr_data s1)"
    using Cons.IH s1(1,2) Cons.prems(1) insideD(2,3) [OF s1(1)] by simp
  then show ?case using inside_trans [OF s1(1)] s1(3) by (cases "n = 0") simp_all
qed

text \<open>The readings of an interrupt: the first is not zero, and only enabled lines are pending.\<close>

definition readings_ok :: "isr irq_unit \<Rightarrow> INT32U list \<Rightarrow> bool" where
  "readings_ok u reads \<longleftrightarrow> reads \<noteq> [] \<and> hd reads \<noteq> 0 \<and> (\<forall>a \<in> set reads. a AND NOT (ienable u) = 0)"

definition clock_ticks :: "INT32U list \<Rightarrow> nat" where
  "clock_ticks reads = length (filter (\<lambda>a. bit a 0) (takeWhile (\<lambda>a. a \<noteq> 0) reads))"

lemma and_not_bit:
  assumes "a AND NOT w = 0" "bit a n"
  shows "bit (w :: INT32U) n"
proof (rule ccontr)
  assume "\<not> bit w n"
  then have "bit (a AND NOT w) n" using assms(2) bit_imp_le_length [OF assms(2)] by (simp add: bit_and_iff bit_not_iff)
  then show False using assms(1) by simp
qed

lemma enabled_lines:
  assumes "lines_registered u" "a AND NOT (ienable u) = 0" "a \<noteq> 0"
  shows "first_line a \<in> {0, 4}" "first_line a = 0 \<longleftrightarrow> bit a 0"
proof -
  note f = first_line_least [OF assms(3)]
  have lines: "(17 :: INT32U) = 2 ^ 0 OR 2 ^ 4" by simp
  have "bit (17 :: INT32U) (first_line a)" using and_not_bit [OF assms(2) f(1)] assms(1) by (simp add: lines_registered_def)
  then show "first_line a \<in> {0, 4}" unfolding lines bit_or_iff bit_exp_iff by blast
  show "first_line a = 0 \<longleftrightarrow> bit a 0" using f(1,3) by (metis gr0I)
qed

lemma interrupt_ok:
  assumes ok: "sys_ok s" and u: "lines_registered u" "readings_ok u reads" and step: "alt_irq_handler u reads s = Some s'"
  shows "sys_ok s' \<and> sol s' = sol s \<and> ready_set (os s) \<subseteq> ready_set (os s') \<and>
     (4 \<notin> first_line ` set (takeWhile (\<lambda>a. a \<noteq> 0) reads) \<longrightarrow> isr_data s' = isr_data s) \<and>
     (\<forall>d p. sleeping d p (os s) \<and> 0 < d \<longrightarrow>
     (if clock_ticks reads < d then sleeping (d - clock_ticks reads) p (os s') else p \<in> ready_set (os s')))"
proof -
  note d = sys_okD [OF ok]
  note enter = enter_calm [OF d(1)]
  have os1: "os (int_enter s) = OSIntEnter (os s)" by (simp add: int_enter_def)
  obtain s1 where s1: "irq_loop run_isr (alt_irq u) reads (int_enter s) = Some s1" "int_exit s1 = Some s'"
    using step by (auto simp: alt_irq_handler_def split: bind_splits)
  obtain before later where r: "reads = before @ 0 # later" "before \<noteq> []" "\<forall>a \<in> set before. a \<noteq> 0"
    using loop_reads [OF s1(1)] u(2) by (auto simp: readings_ok_def)
  define ns where "ns = map first_line before"
  have en: "\<forall>a \<in> set before. a AND NOT (ienable u) = 0" using u(2) by (simp add: r(1) readings_ok_def)
  have "\<forall>a \<in> set before. first_line a \<in> {0, 4}" using enabled_lines(1) [OF u(1)] en r(3) by blast
  then have "set ns \<subseteq> {0, 4}" by (simp add: ns_def image_subset_iff)
  moreover have "serve_lines run_isr (alt_irq u) ns (int_enter s) = Some s1"
    using s1(1) by (simp add: r(1) ns_def loop_serves [OF r(2,3)])
  moreover have "settled 1 (os (int_enter s))" "apart (int_enter s)" "isr_data (int_enter s) = isr_data s"
    using enter(1) apart_same [of "int_enter s" s] d(8) by (simp_all add: os1) (simp_all add: int_enter_def queues_def)
  ultimately have m: "inside (count_list ns 0) (int_enter s) s1" "4 \<notin> set ns \<longrightarrow> isr_data s1 = isr_data s"
    using serve_inside [OF u(1)] inside_wired [OF d(1,2)] by metis+
  have "count_list (map first_line xs) 0 = length (filter (\<lambda>a. bit a 0) xs)" if "\<forall>a \<in> set xs. a \<noteq> 0 \<and> a AND NOT (ienable u) = 0" for xs
    using that by (induction xs) (simp_all add: enabled_lines(2) [OF u(1)])
  moreover have "takeWhile (\<lambda>a. a \<noteq> 0) reads = before" using r(1,3) by (simp add: takeWhile_tail)
  ultimately have n: "count_list ns 0 = clock_ticks reads"
    using en r(3) by (simp add: ns_def clock_ticks_def)
  have "served b isr_data_addr p (os (int_enter s))" if "served b isr_data_addr p (os s)" "p \<noteq> 0" for b p
    using served_undisturbed [OF that(1) enter(5) that(2) enter(6)] enter(2) by (simp add: os1)
  then have "kept 0 s (int_enter s)" by (simp add: kept_def)
  then have kp: "kept 0 s s1" using kept_trans [OF _ _ insideD(7) [OF m(1)]] by (simp add: int_enter_def queues_def)
  have "wait_set e (os s1) \<subseteq> wait_set e (os s)" for e using insideD(4) [OF m(1)] enter(2) by (simp add: os1)
  then obtain s2 where s2: "int_exit s1 = Some s2" "sys_ok s2" "ready_set (os s2) = ready_set (os s1)"
    "\<forall>d p. sleeping d p (os s1) \<longrightarrow> sleeping d p (os s2)"
    using leave_ok [OF ok steps_trans [OF steps_enter insideD(1) [OF m(1)]] insideD(2,3) [OF m(1)] _ kp] by blast
  have "if clock_ticks reads < e then sleeping (e - clock_ticks reads) p (os s2) else p \<in> ready_set (os s2)"
    if e: "sleeping e p (os s)" "0 < e" for e p
  proof -
    have "sleeping e p (os (int_enter s))" using sleeping_undisturbed [OF e(1) enter(5,6)] by (simp add: os1)
    from insideD(5,6) [OF m(1) this] show ?thesis using e(2) s2(3,4) by (auto simp: n)
  qed
  moreover have "s2 = s'" using s1(2) s2(1) by simp
  moreover have "sol s1 = sol s" using insideD(1) [OF m(1)] by (simp add: steps_as_def int_enter_def)
  then have "sol s' = sol s" "isr_data s' = isr_data s1" using s1(2) by (auto simp: int_exit_def split: bind_splits)
  moreover have "ready_set (os s) \<subseteq> ready_set (os s2)" using m(1) s2(3) enter(7) by (simp add: inside_def os1)
  moreover have "set ns = first_line ` set (takeWhile (\<lambda>a. a \<noteq> 0) reads)" by (simp add: ns_def \<open>takeWhile (\<lambda>a. a \<noteq> 0) reads = before\<close>)
  ultimately show ?thesis using s2(2) m(2) by auto
qed

text \<open>A button alone is always served to the end.\<close>

lemma button_interrupt_ends:
  assumes ok: "sys_ok s"
  shows "\<exists>s'. button_interrupt s = Some s'"
proof -
  note d = sys_okD [OF ok] and enter = enter_calm [OF sys_okD(1) [OF ok]]
  have os1: "os (int_enter s) = OSIntEnter (os s)" by (simp add: int_enter_def)
  obtain s1 where s1: "isr_btn (int_enter s) = Some s1" "inside 0 (int_enter s) s1"
    using button_isr_inside [of "int_enter s"] enter(1) inside_wired [OF d(1,2)] by (auto simp: os1)
  obtain k where "OSIntExit (os s1) = Some k" using exit_settled [OF insideD(2) [OF s1(2)]] by blast
  then show ?thesis using s1(1) by (simp add: button_interrupt_def int_exit_def)
qed

lemma button_interrupt_wakes:
  assumes ok: "sys_ok s" and e: "btn_input_q s = Some e" "p \<in> wait_set e (os s)"
    and w: "reg32 (io s) pio_edge_cap = w" "w = BUTTON_INPUT_SHIFT_UP \<or> w = BUTTON_INPUT_SHIFT_DOWN"
    and step: "button_interrupt s = Some s'"
  shows "p \<in> ready_set (os s')" "isr_data s' = w" "e' \<noteq> e \<Longrightarrow> wait_set e' (os s') = wait_set e' (os s)"
proof -
  note d = sys_okD [OF ok] and enter = enter_calm [OF sys_okD(1) [OF ok]]
  have os1: "os (int_enter s) = OSIntEnter (os s)" by (simp add: int_enter_def)
  obtain s1 where s1: "isr_btn (int_enter s) = Some s1" "int_exit s1 = Some s'"
    using step by (auto simp: button_interrupt_def split: bind_splits)
  have "wait_set e (os s) = {p}" using button_waiter(1) [OF ok e(1)] e(2) by auto
  then have wake: "p \<in> ready_set (os s1)" "isr_data s1 = w" "e' \<noteq> e \<Longrightarrow> wait_set e' (os s1) = wait_set e' (os s)" for e'
    using button_isr_wakes [of "int_enter s" e p w s1] inside_wired [OF d(1,2)] enter(1,2) e(1) w s1(1)
    by (simp_all add: os1) (simp_all add: int_enter_def)
  have "inside 0 (int_enter s) s1"
    using button_isr_inside [of "int_enter s"] inside_wired [OF d(1,2)] enter(1) s1(1) by (auto simp: os1)
  from exit_settled [OF insideD(2) [OF this]]
  show "p \<in> ready_set (os s')" "isr_data s' = w" "e' \<noteq> e \<Longrightarrow> wait_set e' (os s') = wait_set e' (os s)"
    using wake s1(2) by (auto simp: int_exit_def)
qed

end
