(* ===== verification/Sys_Throttle.thy ===== *)
theory Sys_Throttle imports Sys_Inv begin

text \<open>
  The throttle task in the running program: every stretch of its code returns, from each of its program
  points, and keeps the invariant of the system; the motor is cut when it comes to wait for a failure
  to be cleared.
\<close>

section \<open>The throttle task\<close>

lemma open_close_set_motor [simp]: "motor_of (set_motor m s) = m"
  by (cases m) (simp add: motor_of_def set_motor_def)

lemma motor_of_os [simp]: "motor_of (s\<lparr> os := k \<rparr>) = motor_of s" "motor_of (go_throttle pc s) = motor_of s"
  by (simp_all add: motor_of_def go_throttle_def set_thr_def)

lemma pc_go_throttle [simp]: "t_pc (thr (go_throttle pc s)) = pc"
  by (simp add: go_throttle_def set_thr_def)

lemma throttle_head_ok:
  assumes ok: "sys_ok s" and p: "unat (OSPrioCur (os s)) = 3"
  shows "\<exists>s'. throttle_loop_head s = Some s' \<and> stretch 3 s s' \<and> (t_pc (thr s') = T_Failure_Wait \<longrightarrow> cut_off s')"
proof -
  note d = sys_okD [OF ok]
  obtain f s1 where t: "take_failure s = (f, s1)" by (metis surj_pair)
  have m1: "mild 0 3 s s1" using take_failure_mild [OF d(1,2), where p = 3] t by simp
  show ?thesis
  proof (cases f)
    case False
    then have "throttle_loop_head s = Some (go_throttle T_Sensors s1)" using t by (simp add: throttle_loop_head_def)
    then show ?thesis using end_mild mild_then_plain [OF m1] by simp
  next
    case True
    define s2 where "s2 = set_motor (decrease_throttle (motor_of s1)) s1"
    have m2: "mild 0 3 s s2" using mild_then_plain [OF m1] steps_decrease by (simp add: s2_def)
    have "drive_ok s1" using mildD(1) [OF m1] d(6) by (simp add: steps_as_def)
    then have c2: "cut_off s2" by (simp add: cut_off_def s2_def drive_ok_def decrease_ok)
    have cur: "OSPrioCur (os s2) = OSPrioCur (os s)" using easedD(5) [OF mildD(2) [OF m2]] .
    have "OSPrioCur (os s2) \<noteq> 20" using p cur by auto
    then obtain r k e where k: "sem_pend (throttle_task_failure_resolved_flag s2) 0 s2 = Some (r, s2\<lparr> os := k \<rparr>)"
      "throttle_task_failure_resolved_flag s2 = Some e"
      "if r then quiet 0 (os s2) k else parks (unat (OSPrioCur (os s2))) e (os s2) k"
      using sem_pend_ends [OF mildD(3) [OF m2] _ mild_wired [OF m2 d(2)], of "throttle_task_failure_resolved_flag s2"]
      by (auto simp: flags_def)
    show ?thesis
    proof (cases r)
      case True
      define s3 where "s3 = s2\<lparr> os := k \<rparr>"
      have m3: "mild 0 3 s s3" using mild_trans [OF m2 mild_os] k(3) True by (simp add: s3_def)
      obtain s4 where s4: "reset_failure_flags s3 = Some s4" "mild 0 3 s3 s4"
        using reset_mild [OF mildD(3) [OF m3] mild_wired [OF m3 d(2)]] by blast
      have "throttle_loop_head s = Some (go_throttle T_Sensors s4)"
        using t \<open>f\<close> k(1) True s4(1) by (simp add: throttle_loop_head_def s2_def [symmetric] s3_def [symmetric])
      then show ?thesis using end_mild mild_then_plain [OF mild_trans [OF m3 s4(2)]] by simp
    next
      case False
      define s' where e: "s' = go_throttle T_Failure_Wait (s2\<lparr> os := k \<rparr>)"
      have "throttle_loop_head s = Some s'"
        unfolding e using t \<open>f\<close> k(1) False by (simp add: throttle_loop_head_def s2_def [symmetric])
      moreover have "stretch 3 s s'"
        by (rule end_parks [OF m2, of e k]) (use k False p in \<open>simp_all add: e waits_at_def\<close>,
          simp add: go_throttle_def set_thr_def)
      ultimately show ?thesis using c2 by (simp add: e cut_off_def)
    qed
  qed
qed

lemma throttle_resolved_ok:
  assumes ok: "sys_ok s"
  shows "\<exists>s'. throttle_failure_resolved s = Some s' \<and> stretch 3 s s' \<and> t_pc (thr s') = T_Sensors"
proof -
  note d = sys_okD [OF ok]
  obtain s1 where s1: "sem_pend_return (throttle_task_failure_resolved_flag s) s = Some s1" "mild 0 3 s s1"
    using sem_return_mild [OF d(1,2), of "throttle_task_failure_resolved_flag s"] by (auto simp: flags_def)
  obtain s2 where s2: "reset_failure_flags s1 = Some s2" "mild 0 3 s1 s2"
    using reset_mild [OF mildD(3) [OF s1(2)] mild_wired [OF s1(2) d(2)]] by blast
  have "throttle_failure_resolved s = Some (go_throttle T_Sensors s2)" using s1(1) s2(1) by (simp add: throttle_failure_resolved_def)
  then show ?thesis using end_mild mild_then_plain [OF mild_trans [OF s1(2) s2(2)]] by simp
qed

lemma throttle_sensors_ok:
  assumes ok: "sys_ok s"
  shows "\<exists>s'. throttle_sensors malloc s = Some s' \<and> stretch 3 s s' \<and> t_pc (thr s') \<noteq> T_Failure_Wait"
proof -
  note d = sys_okD [OF ok]
  define s1 where "s1 = alt_up_de0_nano_adc_update s"
  define s2 where "s2 = check_tps_values malloc (ucast (alt_up_de0_nano_adc_read TPS_1_ADC_CHANNEL s1))
    (ucast (alt_up_de0_nano_adc_read TPS_2_ADC_CHANNEL s1)) s1"
  define s3 where "s3 = set_thr (\<lambda>t. t\<lparr> curr_tps_reading := ucast (alt_up_de0_nano_adc_read TPS_1_ADC_CHANNEL s1) \<rparr>) s2"
  have "steps_as 3 s s1" "steps_as 3 s1 s2" "steps_as 3 s2 s3" by (simp_all add: s1_def s2_def s3_def)
  then have st3: "steps_as 3 s s3" by (blast intro: steps_trans)
  then have "tables s3 = the_tables" using d(7) by (simp add: steps_as_def)
  then obtain deg where deg: "get_throttle_open_deg_from_tps (tables s3) (ucast (alt_up_de0_nano_adc_read TPS_1_ADC_CHANNEL s1)) = Some deg"
    using open_deg_from_tps_formula by simp
  obtain m r where mr: "generate_engine_sound deg (pwm_engine_sound (thr s3), io s3) = (m, r)" by (metis surj_pair)
  define s4 where "s4 = set_thr (\<lambda>t. t\<lparr> pwm_engine_sound := m \<rparr>) (s3\<lparr> io := r \<rparr>)"
  define s5 where "s5 = alt_up_de0_nano_adc_update s4"
  obtain reached duty counter mm where x: "set_new_throttle_position_by_rpm (curr_duty_cycle (thr s5)) (ucast (expected_rpm (thr s5)))
      (get_RPM (rpm_decoder s5)) (rpm_matching_delay_counter (thr s5)) (motor_of s5) = (reached, duty, counter, mm)"
    by (metis surj_pair)
  define s6 where "s6 = set_thr (\<lambda>t. t\<lparr> curr_duty_cycle := duty, rpm_matching_delay_counter := counter \<rparr>) (set_motor mm s5)"
  define s7 where "s7 = clean_watchdog_rpm (set_thr (\<lambda>t. t\<lparr> rpm_matching_delay_counter := 0 \<rparr>) s6)"
  have body: "throttle_sensors malloc s = (if watchdog_rpm_matching (thr s5) \<noteq> None then
      if reached = FALSE then Some (go_throttle T_Loop s6)
      else do { s \<leftarrow> signal_shift_start (matching_result_q s7) s7; Some (go_throttle T_Signalled s) }
    else Some (go_throttle T_Wheels s5))"
    unfolding throttle_sensors_def Let_def s1_def [symmetric] s2_def [symmetric] s3_def [symmetric] deg
      Option.bind.simps mr prod.case s4_def [symmetric] s5_def [symmetric] x s6_def [symmetric] s7_def [symmetric] ..
  note st3
  moreover have "steps_as 3 s3 s4" unfolding s4_def by (rule steps_sound [OF mr])
  moreover have "steps_as 3 s4 s5" by (simp add: s5_def)
  ultimately have st5: "steps_as 3 s s5" by (blast intro: steps_trans)
  have os5: "os s5 = os s" by (simp add: s5_def s4_def s3_def s2_def s1_def)
  have m5: "mild 0 3 s s5" by (rule mild_plain [OF d(1) st5 os5])
  have "steps_as 3 s5 s6" unfolding s6_def
    by (rule steps_motor [OF by_rpm_moves [OF x] _ _ _ _ _ refl, where d = duty])
      (use set_new_by_rpm_ok [OF _ _ x] in \<open>auto simp: drive_ok_def\<close>)
  then have m6: "mild 0 3 s s6" using mild_then_plain [OF m5] by (simp add: s6_def)
  have "steps_as 3 s6 s7" unfolding s7_def by (rule steps_trans [OF _ steps_watchdog(3)]) simp
  then have m7: "mild 0 3 s s7" using mild_then_plain [OF m6] by (simp add: s7_def)
  show ?thesis
  proof (cases "watchdog_rpm_matching (thr s5) = None \<or> reached = FALSE")
    case True
    then have "throttle_sensors malloc s = Some (go_throttle T_Wheels s5) \<or> throttle_sensors malloc s = Some (go_throttle T_Loop s6)"
      using body by (auto split: if_splits)
    then show ?thesis using end_mild [OF mild_then_plain [OF m5]] end_mild [OF mild_then_plain [OF m6]] by auto
  next
    case False
    have q: "matching_result_q s7 \<in> set (queues s7)" by (simp add: queues_def)
    have nb: "matching_result_q s7 \<noteq> btn_input_q s7" using d(8) apart_same [OF mildD(5) [OF m7]] by (auto simp: apart_def)
    obtain s8 where s8: "q_post (matching_result_q s7) SHIFT_MATCHING_RESULT_OK s7 = Some s8"
      using q_post_ends [OF mildD(3) [OF m7] mild_wired [OF m7 d(2)] q] by blast
    then have "throttle_sensors malloc s = Some (go_throttle T_Signalled s8)"
      using body False by (simp add: signal_shift_start_def)
    then show ?thesis using end_post [OF m7 d(2) q nb s8, of "go_throttle T_Signalled s8"] by simp
  qed
qed

lemma throttle_signal_ok:
  assumes ok: "sys_ok s" and p: "unat (OSPrioCur (os s)) = 3"
  shows "\<exists>s'. throttle_signalled s = Some s' \<and> stretch 3 s s' \<and> t_pc (thr s') \<noteq> T_Failure_Wait"
    and "\<exists>s'. throttle_exit_wait s = Some s' \<and> stretch 3 s s' \<and> t_pc (thr s') \<noteq> T_Failure_Wait"
proof -
  note d = sys_okD [OF ok]
  have "OSPrioCur (os s) \<noteq> 20" using p by auto
  then obtain r k e where k: "sem_pend (exit_shift_matching_flag s) 0 s = Some (r, s\<lparr> os := k \<rparr>)" "exit_shift_matching_flag s = Some e"
    "if r then quiet 0 (os s) k else parks (unat (OSPrioCur (os s))) e (os s) k"
    using sem_pend_ends [OF d(1) _ d(2), of "exit_shift_matching_flag s"] by (auto simp: flags_def)
  show "\<exists>s'. throttle_signalled s = Some s' \<and> stretch 3 s s' \<and> t_pc (thr s') \<noteq> T_Failure_Wait"
  proof (cases r)
    case True
    then have "throttle_signalled s = Some (go_throttle T_Wheels (s\<lparr> os := k \<rparr>))" using k(1) by (simp add: throttle_signalled_def)
    then show ?thesis using end_mild mild_then_plain [OF mild_os [of 0 s k 3]] k(3) True by simp
  next
    case False
    define s' where e: "s' = go_throttle T_Exit_Wait (s\<lparr> os := k \<rparr>)"
    have "throttle_signalled s = Some s'" using False k(1) by (simp add: throttle_signalled_def e)
    moreover have "stretch 3 s s'"
      by (rule end_parks [OF mild_refl [OF d(1)], of e k]) (use k False p in \<open>simp_all add: e waits_at_def\<close>,
        simp add: go_throttle_def set_thr_def)
    ultimately show ?thesis by (simp add: e)
  qed
  obtain s1 where s1: "sem_pend_return (exit_shift_matching_flag s) s = Some s1" "mild 0 3 s s1"
    using sem_return_mild [OF d(1,2), of "exit_shift_matching_flag s"] by (auto simp: flags_def)
  show "\<exists>s'. throttle_exit_wait s = Some s' \<and> stretch 3 s s' \<and> t_pc (thr s') \<noteq> T_Failure_Wait"
  proof -
    have "throttle_exit_wait s = Some (go_throttle T_Wheels s1)" using s1(1) by (simp add: throttle_exit_wait_def)
    then show ?thesis using end_mild mild_then_plain [OF s1(2)] by simp
  qed
qed

lemma go_throttle_end:
  assumes "mild 0 3 s s1" "s' = go_throttle pc s1" "pc \<noteq> T_Failure_Wait"
  shows "stretch 3 s s' \<and> t_pc (thr s') \<noteq> T_Failure_Wait"
  using end_mild [OF mild_then_plain [OF assms(1)], of s'] assms(2,3) by simp

text \<open>The position regulator on the state, shared by the pedal and by slip control.\<close>

lemma steps_by_tps:
  assumes "set_new_throttle_position_by_tps (curr_duty_cycle (thr s)) expected curr_tps (motor_of s) = (reached, duty, m)"
  shows "steps_as 3 s (set_thr (\<lambda>t. t\<lparr> curr_duty_cycle := duty \<rparr>) (set_motor m s))"
  by (rule steps_motor [OF by_tps_moves [OF assms] _ _ _ _ _ refl, where d = duty])
    (use set_new_by_tps_ok [OF _ _ assms] in \<open>auto simp: drive_ok_def\<close>)

lemma throttle_pedal_ok:
  assumes ok: "sys_ok s" and p: "unat (OSPrioCur (os s)) = 3" and m0: "mild 0 3 s s0"
  shows "\<exists>s'. throttle_pedal malloc s0 = Some s' \<and> stretch 3 s s' \<and> t_pc (thr s') \<noteq> T_Failure_Wait"
proof -
  note d = sys_okD [OF ok]
  define s1 where "s1 = alt_up_de0_nano_adc_update s0"
  define a1 :: INT16U where "a1 = ucast (alt_up_de0_nano_adc_read APPS_1_ADC_CHANNEL s1)"
  define a2 :: INT16U where "a2 = ucast (alt_up_de0_nano_adc_read APPS_2_ADC_CHANNEL s1)"
  define s2 where "s2 = check_apps_values malloc a1 a2 (clean_watchdog_position (set_thr (\<lambda>t. t\<lparr> last_apps_1_reading := a1 \<rparr>) s1))"
  define part where "part = (if APPS_VALUE_CHANGED a1 (last_apps_1_reading (thr s1)) \<noteq> FALSE then do {
      expected \<leftarrow> get_tps_from_apps (tables s2) a1;
      let s = set_thr (\<lambda>t. t\<lparr> expected_tps_reading := expected \<rparr>) s2;
      let (a, s) = malloc_alarm malloc s;
      let s = set_thr (\<lambda>t. t\<lparr> watchdog_throttle_position := a \<rparr>) s;
      Some (start_own_alarm a MOTOR_DRIVE_DELAY_TICKS Watchdog_Throttle_Position s) } else Some s1)"
  have unf: "throttle_pedal malloc s0 = do { s3 \<leftarrow> part;
     let s4 = check_tps_values malloc (ucast (alt_up_de0_nano_adc_read TPS_1_ADC_CHANNEL s3))
                (ucast (alt_up_de0_nano_adc_read TPS_2_ADC_CHANNEL s3)) s3;
     let (reached, duty, m) = set_new_throttle_position_by_tps (curr_duty_cycle (thr s4))
       (expected_tps_reading (thr s4)) (curr_tps_reading (thr s4)) (motor_of s4);
     let s5 = set_thr (\<lambda>t. t\<lparr> curr_duty_cycle := duty \<rparr>) (set_motor m s4);
     let s6 = (if reached = TRUE then clean_watchdog_position s5 else s5);
     s7 \<leftarrow> time_dly_hmsm THROTTLE_CONTROL_TASK_DELAY_HOURS THROTTLE_CONTROL_TASK_DELAY_MINUTES
            THROTTLE_CONTROL_TASK_DELAY_SECONDS THROTTLE_CONTROL_TASK_DELAY_MILLISEC s6;
     Some (go_throttle T_Loop s7) }"
    unfolding throttle_pedal_def Let_def s1_def [symmetric] a1_def [symmetric] a2_def [symmetric] s2_def [symmetric]
      part_def ..
  have m1: "mild 0 3 s s1" using mild_then_plain [OF m0] by (simp add: s1_def)
  have "steps_as 3 s1 (set_thr (\<lambda>t. t\<lparr> last_apps_1_reading := a1 \<rparr>) s1)" by simp
  then have "steps_as 3 s1 s2" unfolding s2_def using steps_watchdog(1) steps_checks(3) by (blast intro: steps_trans)
  then have m2: "mild 0 3 s s2" using mild_then_plain [OF m1] by (simp add: s2_def)
  have "\<exists>s3. part = Some s3 \<and> mild 0 3 s s3"
  proof (cases "APPS_VALUE_CHANGED a1 (last_apps_1_reading (thr s1)) \<noteq> FALSE")
    case False
    then show ?thesis using m1 by (simp add: part_def)
  next
    case True
    have "tables s2 = the_tables" using d(7) mildD(1) [OF m2] by (simp add: steps_as_def)
    then obtain x where x: "get_tps_from_apps (tables s2) a1 = Some x"
      by (simp add: tps_from_apps_compose open_deg_from_apps_formula tps_from_deg)
    define t1 where "t1 = set_thr (\<lambda>t. t\<lparr> expected_tps_reading := x \<rparr>) s2"
    obtain a t2 where m: "malloc_alarm malloc t1 = (a, t2)" by (metis surj_pair)
    have t2: "t2 = snd (malloc_alarm malloc t1)" by (simp add: m)
    define t3 where "t3 = set_thr (\<lambda>t. t\<lparr> watchdog_throttle_position := a \<rparr>) t2"
    define s3 where s3': "s3 = start_own_alarm a MOTOR_DRIVE_DELAY_TICKS Watchdog_Throttle_Position t3"
    have s3: "part = Some s3"
      using True unfolding part_def x Option.bind.simps Let_def t1_def [symmetric] m prod.case t3_def [symmetric] s3' by simp
    have "steps_as 3 s2 t1" "steps_as 3 t1 t2" "steps_as 3 t2 t3" "steps_as 3 t3 s3"
      by (simp_all add: t1_def t2 t3_def s3')
    then have "steps_as 3 s2 s3" by (blast intro: steps_trans)
    then have "mild 0 3 s s3" using mild_then_plain [OF m2] by (simp add: s3' t3_def t2 t1_def)
    then show ?thesis using s3 by blast
  qed
  then obtain s3 where s3: "part = Some s3" and m3: "mild 0 3 s s3" by blast
  define s4 where "s4 = check_tps_values malloc (ucast (alt_up_de0_nano_adc_read TPS_1_ADC_CHANNEL s3))
                (ucast (alt_up_de0_nano_adc_read TPS_2_ADC_CHANNEL s3)) s3"
  obtain reached duty mm where x: "set_new_throttle_position_by_tps (curr_duty_cycle (thr s4))
       (expected_tps_reading (thr s4)) (curr_tps_reading (thr s4)) (motor_of s4) = (reached, duty, mm)" by (metis surj_pair)
  define s5 where "s5 = set_thr (\<lambda>t. t\<lparr> curr_duty_cycle := duty \<rparr>) (set_motor mm s4)"
  define s6 where "s6 = (if reached = TRUE then clean_watchdog_position s5 else s5)"
  have m4: "mild 0 3 s s4" using mild_then_plain [OF m3] by (simp add: s4_def)
  have m5: "mild 0 3 s s5" using mild_then_plain [OF m4 steps_by_tps [OF x]] by (simp add: s5_def)
  have m6: "mild 0 3 s s6" using m5 mild_then_plain [OF m5] by (simp add: s6_def)
  have rest: "throttle_pedal malloc s0 = do { s7 \<leftarrow> time_dly_hmsm 0 0 0 THROTTLE_CONTROL_TASK_DELAY_MILLISEC s6; Some (go_throttle T_Loop s7) }"
    using unf unfolding s3 Option.bind.simps Let_def s4_def [symmetric] x prod.case s5_def [symmetric] s6_def [symmetric]
    by simp
  have cur: "OSPrioCur (os s6) \<noteq> 20" using p easedD(5) [OF mildD(2) [OF m6]] by auto
  obtain k where k: "time_dly_hmsm 0 0 0 THROTTLE_CONTROL_TASK_DELAY_MILLISEC s6 = Some (s6\<lparr> os := k \<rparr>)" "onward 0 (os s6) k"
    "\<forall>e. wait_set e k = wait_set e (os s6)"
    using delay_ends [OF mildD(3) [OF m6] cur ms_delay [OF mildD(3) [OF m6], of 5]] by auto
  define s' where e: "s' = go_throttle T_Loop (s6\<lparr> os := k \<rparr>)"
  have "throttle_pedal malloc s0 = Some s'" using rest k(1) by (simp add: e)
  moreover have "stretch 3 s s'" by (rule end_delay [OF m6 k(2,3)]) (simp_all add: e)
  ultimately show ?thesis by (simp add: e)
qed

text \<open>The oldest request in the queue has been freed.\<close>

definition freed_request :: "app_state \<Rightarrow> bool" where
  "freed_request s \<longleftrightarrow> (\<exists>e q r rs. shift_matching_q s = Some e \<and> is_queue e q (os s) \<and> messages q (os s) = r # rs \<and> r \<notin> req_live s)"

lemma throttle_wheels_ok:
  assumes ok: "sys_ok s" and p: "unat (OSPrioCur (os s)) = 3"
  shows "case throttle_wheels malloc s of Some s' \<Rightarrow> stretch 3 s s' \<and> t_pc (thr s') \<noteq> T_Failure_Wait
     | None \<Rightarrow> watchdog_rpm_matching (thr s) = None \<and> freed_request s"
proof -
  note d = sys_okD [OF ok]
  define s1 where "s1 = alt_up_de0_nano_adc_update s"
  have m1: "mild 0 3 s s1" using mild_plain [OF d(1)] by (simp add: s1_def)
  define l :: INT16U where "l = ucast (alt_up_de0_nano_adc_read WS_1_ADC_CHANNEL s1)"
  define r :: INT16U where "r = (if is_demo_slip_control_enabled s1 = TRUE
    then (ucast (alt_up_de0_nano_adc_read WS_2_ADC_CHANNEL s1) + 1) * 2 else ucast (alt_up_de0_nano_adc_read WS_2_ADC_CHANNEL s1))"
  define s2 where "s2 = set_thr (\<lambda>t. t\<lparr> slip_control_mode := TRUE \<rparr>) (set_leds WSS_ACTIVE_LED (clean_watchdog_position s1))"
  obtain reached duty mm where x: "set_new_throttle_position_by_tps (curr_duty_cycle (thr s2)) SLIP_CONTROL_THROTTLE_POS
      (curr_tps_reading (thr s2)) (motor_of s2) = (reached, duty, mm)" by (metis surj_pair)
  define s3 where "s3 = set_thr (\<lambda>t. t\<lparr> curr_duty_cycle := duty \<rparr>) (set_motor mm s2)"
  define s4 where "s4 = set_leds NO_ERROR_INDICATION_LED (set_thr (\<lambda>t. t\<lparr> slip_control_mode := FALSE \<rparr>) s1)"
  have body: "throttle_wheels malloc s = (if WS_VALUE_MISMATCH l r \<noteq> FALSE \<and> is_slip_control_enabled s1 = TRUE then
      if slip_control_mode (thr s1) = TRUE then Some (go_throttle T_Loop s1) else Some (go_throttle T_Loop s3)
    else if watchdog_rpm_matching (thr s4) = None then do {
        (ptr, s) \<leftarrow> q_accept (shift_matching_q s4) s4;
        if ptr \<noteq> 0 then do { s \<leftarrow> start_matching malloc ptr s; Some (go_throttle T_Loop s) } else throttle_pedal malloc s
      } else throttle_pedal malloc s4)"
    unfolding throttle_wheels_def Let_def s1_def [symmetric] l_def [symmetric] r_def [symmetric] s2_def [symmetric] x
      prod.case s3_def [symmetric] s4_def [symmetric] ..
  have t: "steps_as 3 u (set_thr (\<lambda>t. t\<lparr> slip_control_mode := v \<rparr>) u)" for u v by simp
  have st: "steps_as 3 s1 s2" "steps_as 3 s1 s4" unfolding s2_def s4_def
    by (rule steps_trans [OF steps_watchdog(1) steps_trans [OF steps_devices(2) t]])
      (rule steps_trans [OF t steps_devices(2)])
  have m2: "mild 0 3 s s2" using mild_then_plain [OF m1 st(1)] by (simp add: s2_def)
  have m3: "mild 0 3 s s3" using mild_then_plain [OF m2 steps_by_tps [OF x]] by (simp add: s3_def)
  have m4: "mild 0 3 s s4" using mild_then_plain [OF m1 st(2)] by (simp add: s4_def)
  have same: "os s4 = os s" "shift_matching_q s4 = shift_matching_q s" "req_live s4 = req_live s"
    "watchdog_rpm_matching (thr s4) = watchdog_rpm_matching (thr s)"
    by (simp_all add: s4_def s1_def set_leds_def set_thr_def alt_up_de0_nano_adc_update_def)
  define slipping where "slipping \<longleftrightarrow> WS_VALUE_MISMATCH l r \<noteq> FALSE \<and> is_slip_control_enabled s1 = TRUE"
  define request where "request = do { (ptr, s) \<leftarrow> q_accept (shift_matching_q s4) s4;
        if ptr \<noteq> 0 then do { s \<leftarrow> start_matching malloc ptr s; Some (go_throttle T_Loop s) } else throttle_pedal malloc s }"
  consider "throttle_wheels malloc s = Some (go_throttle T_Loop s1)" | "throttle_wheels malloc s = Some (go_throttle T_Loop s3)"
    | "throttle_wheels malloc s = throttle_pedal malloc s4"
    | "throttle_wheels malloc s = request" "watchdog_rpm_matching (thr s4) = None"
    using body unfolding slipping_def [symmetric] request_def [symmetric] by metis
  then show ?thesis
  proof cases
    case 1
    then show ?thesis using go_throttle_end [OF m1 refl] by simp
  next
    case 2
    then show ?thesis using go_throttle_end [OF m3 refl] by simp
  next
    case 3
    then show ?thesis using throttle_pedal_ok [OF ok p m4, of malloc] by auto
  next
    case 4
    obtain m k e q where k: "q_accept (shift_matching_q s4) s4 = Some (m, s4\<lparr> os := k \<rparr>)" "mild 0 3 s4 (s4\<lparr> os := k \<rparr>)"
      "shift_matching_q s4 = Some e" "is_queue e q (os s4)" "case messages q (os s4) of [] \<Rightarrow> m = 0 | r # rs \<Rightarrow> m = r"
      using q_accept_mild [OF mildD(3) [OF m4] mild_wired [OF m4 d(2)], of "shift_matching_q s4" 3] by (auto simp: queues_def)
    define s5 where "s5 = s4\<lparr> os := k \<rparr>"
    have m5: "mild 0 3 s s5" using mild_trans [OF m4 k(2)] by (simp add: s5_def)
    show ?thesis
    proof (cases "m = 0")
      case True
      then show ?thesis using 4 k(1) throttle_pedal_ok [OF ok p m5, of malloc] by (auto simp: request_def s5_def)
    next
      case False
      then have e: "throttle_wheels malloc s = do { s \<leftarrow> start_matching malloc m s5; Some (go_throttle T_Loop s) }"
        using 4 k(1) by (simp add: request_def s5_def)
      show ?thesis
      proof (cases "start_matching malloc m s5")
        case None
        then have "m \<notin> req_live s5" by (auto simp: start_matching_def shift_request_def Let_def case_prod_beta split: if_splits)
        then have "freed_request s \<and> watchdog_rpm_matching (thr s) = None"
          using k(3-5) False same 4(2) by (auto simp: freed_request_def s5_def split: list.splits)
        then show ?thesis using e None by simp
      next
        case (Some s6)
        then show ?thesis using go_throttle_end [OF mild_then_plain [OF m5 steps_matching [OF Some]] refl] e by simp
      qed
    qed
  qed
qed

lemma throttle_step_ok:
  assumes ok: "sys_ok s" and p: "unat (OSPrioCur (os s)) = 3"
  shows "case throttle_control_step malloc s of Some s' \<Rightarrow> sys_ok s' \<and> stretch 3 s s'
     | None \<Rightarrow> t_pc (thr s) = T_Wheels \<and> watchdog_rpm_matching (thr s) = None \<and> freed_request s"
proof -
  have "case throttle_control_step malloc s of Some s' \<Rightarrow> stretch 3 s s' \<and> (t_pc (thr s') = T_Failure_Wait \<longrightarrow> cut_off s')
     | None \<Rightarrow> t_pc (thr s) = T_Wheels \<and> watchdog_rpm_matching (thr s) = None \<and> freed_request s"
  proof (cases "t_pc (thr s)")
    case T_Loop
    then show ?thesis using throttle_head_ok [OF ok p] by (auto simp: throttle_control_step_def)
  next
    case T_Failure_Wait
    then show ?thesis using throttle_resolved_ok [OF ok] by (auto simp: throttle_control_step_def)
  next
    case T_Sensors
    then show ?thesis using throttle_sensors_ok [OF ok, of malloc] by (auto simp: throttle_control_step_def)
  next
    case T_Signalled
    then show ?thesis using throttle_signal_ok(1) [OF ok p] by (auto simp: throttle_control_step_def)
  next
    case T_Exit_Wait
    then show ?thesis using throttle_signal_ok(2) [OF ok p] by (auto simp: throttle_control_step_def)
  next
    case T_Wheels
    then show ?thesis using throttle_wheels_ok [OF ok p, of malloc] by (auto simp: throttle_control_step_def split: option.splits)
  qed
  then show ?thesis using sys_ok_stretch [OF ok p] by (auto split: option.splits)
qed

end
