(* ===== verification/Sys_Failure.thy ===== *)
theory Sys_Failure imports Sys_Inv begin

text \<open>
  The failure handler in the running program: every stretch of its code returns and keeps the invariant
  of the system, and since it has the highest priority it goes on after raising a flag.
\<close>

section \<open>The failure handler\<close>

text \<open>The handler has the highest priority, so that waking a task does not cost it the processor.\<close>

lemma raise_top:
  assumes s: "settled 0 (os s)" and p: "OSPrioCur (os s) = 1" and w: "wired s" "f \<in> set (flags s)"
  shows "\<exists>s'. raise_flag f s = Some s' \<and> mild 0 1 s s'"
proof -
  obtain k e where k: "raise_flag f s = Some (s\<lparr> os := k \<rparr>)" "f = Some e" "posts 0 e 0 (os s) k"
    using raise_flag_ends [OF s w] by blast
  have nb: "btn_input_q s \<noteq> Some e" using flag_no_queue [OF w, of "btn_input_q s"] k(2) by (auto simp: queues_def)
  obtain i where "running_task (os s) 1 i" using settled_running [OF s] p by auto
  then have "1 \<in> ready_set (os s)" by (simp add: running_task_def)
  then have r: "1 \<in> ready_set k" using k(3) by (auto simp: posts_def)
  have c: "calm 0 k" "highest_runs k" using k(3) settledD by (auto simp: posts_def onward_def)
  have "1 \<le> q" if qr: "q \<in> ready_set k" for q
  proof -
    obtain j where "task_at k q j" using kernel_okD(5) [OF calmD(1) [OF c(1)] qr] by blast
    then have "q \<in> program_tasks" using calmD(9) [OF c(1)] by blast
    then show ?thesis by (auto simp: program_tasks_def)
  qed
  then have "Min (ready_set k) = 1"
    using r bm.finite_law [OF kernel_okD(2) [OF calmD(1) [OF c(1)]]] by (intro Min_eqI) (auto simp: ready_set_def)
  then have "unat (OSPrioCur k) = unat (1 :: INT8U)" using c(2) by (simp add: highest_runs_def)
  then have "OSPrioCur k = 1" by (simp only: word_unat_eq_iff)
  then have "eased 0 (os s) k" using k(3) p posts_waits [OF k(3)] by (simp add: eased_def posts_def)
  then show ?thesis using k(1) mild_post [OF s k(3)] nb by blast
qed

lemma failure_flash_ok:
  assumes ok: "sys_ok s" and p: "OSPrioCur (os s) = 1" and m0: "mild 0 1 s s0"
  shows "\<exists>s'. failure_flash s0 = Some s' \<and> stretch 1 s s'"
proof -
  note d = sys_okD [OF ok]
  have fin: "\<exists>s'. do { s \<leftarrow> time_dly_hmsm 0 0 0 ms s1; Some (set_fh f s) } = Some s' \<and> stretch 1 s s'"
    if m1: "mild 0 1 s s1" and ms: "ms \<noteq> 0" "ms \<le> 999" for s1 ms f
  proof -
    have "OSPrioCur (os s1) \<noteq> 20" using p easedD(5) [OF mildD(2) [OF m1]] by simp
    then obtain k where k: "time_dly_hmsm 0 0 0 ms s1 = Some (s1\<lparr> os := k \<rparr>)" "onward 0 (os s1) k"
      "\<forall>e. wait_set e k = wait_set e (os s1)" using delay_ends [OF mildD(3) [OF m1] _ ms_delay [OF mildD(3) [OF m1] ms] ms(1)] by blast
    have "stretch 1 s (set_fh f (s1\<lparr> os := k \<rparr>))" by (rule end_delay [OF m1 k(2,3)]) simp_all
    then show ?thesis using k(1) by simp
  qed
  show ?thesis
  proof (cases "switches s0 AND SWITCH_CLEAR_FAILURE_MASK \<noteq> next_clear_switch_val (fh s0)")
    case True
    have "mild 0 1 s (set_leds v s0)" for v using mild_then_plain [OF m0] by simp
    from fin [OF this, of 500] show ?thesis using True by (simp add: failure_flash_def)
  next
    case False
    define s1 where "s1 = set_leds NO_ERROR_INDICATION_LED (set_fh (\<lambda>f. f\<lparr> next_clear_switch_val :=
                  (if switches s0 AND SWITCH_CLEAR_FAILURE_MASK = SWITCH_OFF then SWITCH_ON else SWITCH_OFF) \<rparr>) s0)"
    have "mild 0 1 s (set_fh f s0)" for f using mild_then_plain [OF m0] by simp
    then have m1: "mild 0 1 s s1" unfolding s1_def by (rule mild_then_plain [OF _ steps_devices(2) os_devices(2)])
    have cur: "OSPrioCur (os t) = 1" if "mild 0 1 s t" for t using p easedD(5) [OF mildD(2) [OF that]] by simp
    obtain s2 where s2: "raise_flag (throttle_task_failure_resolved_flag s1) s1 = Some s2" "mild 0 1 s1 s2"
      using raise_top [OF mildD(3) [OF m1] cur [OF m1] mild_wired [OF m1 d(2)], of "throttle_task_failure_resolved_flag s1"]
      by (auto simp: flags_def)
    note m2 = mild_trans [OF m1 s2(2)]
    obtain s3 where s3: "raise_flag (solenoid_failure_resolved_flag s2) s2 = Some s3" "mild 0 1 s2 s3"
      using raise_top [OF mildD(3) [OF m2] cur [OF m2] mild_wired [OF m2 d(2)], of "solenoid_failure_resolved_flag s2"]
      by (auto simp: flags_def)
    from fin [OF mild_trans [OF m2 s3(2)], of 100] show ?thesis
      using False s2(1) s3(1) by (simp add: failure_flash_def s1_def get_throttle_control_task_failure_resolved_flag_def
          get_solenoid_task_failure_resolved_flag_def)
  qed
qed

lemma failure_message_ok:
  assumes ok: "sys_ok s" and p: "OSPrioCur (os s) = 1" and m0: "mild 0 1 s s0"
  shows "\<exists>s'. failure_message m s0 = Some s' \<and> stretch 1 s s'"
proof -
  note d = sys_okD [OF ok]
  have cur: "OSPrioCur (os s0) = 1" using p easedD(5) [OF mildD(2) [OF m0]] by simp
  obtain s1 where s1: "raise_flag (solenoid_external_failure_flag s0) s0 = Some s1" "mild 0 1 s0 s1"
    using raise_top [OF mildD(3) [OF m0] cur mild_wired [OF m0 d(2)], of "solenoid_external_failure_flag s0"]
    by (auto simp: flags_def)
  have "mild 0 1 s (set_fh f s1)" for f using mild_then_plain [OF mild_trans [OF m0 s1(2)]] by simp
  from failure_flash_ok [OF ok p this] show ?thesis
    using s1(1) by (simp add: failure_message_def get_solenoid_task_external_failure_flag_def)
qed

text \<open>The handler's step always returns.\<close>

lemma failure_step_ok:
  assumes ok: "sys_ok s" and p: "OSPrioCur (os s) = 1"
  shows "\<exists>s'. failure_handler_step s = Some s' \<and> sys_ok s' \<and> stretch 1 s s'"
proof -
  note d = sys_okD [OF ok]
  have "\<exists>s'. failure_handler_step s = Some s' \<and> stretch 1 s s'"
  proof (cases "f_pc (fh s)")
    case F_Loop
    have "OSPrioCur (os s) \<noteq> 20" using p by simp
    then obtain r k e where k: "q_pend (failure_code_q s) 0 s = Some (r, s\<lparr> os := k \<rparr>)" "failure_code_q s = Some e"
      "if r = None then parks (unat (OSPrioCur (os s))) e (os s) k else quiet 0 (os s) k"
      using q_pend_ends [OF d(1) _ d(2), of "failure_code_q s"] by (auto simp: queues_def)
    show ?thesis
    proof (cases r)
      case None
      define s' where "s' = set_fh (\<lambda>f. f\<lparr> f_pc := F_Msg_Wait \<rparr>) (s\<lparr> os := k \<rparr>)"
      have "stretch 1 s s'"
        by (rule end_parks [OF mild_refl [OF d(1)], of e k]) (use k None p in \<open>simp_all add: s'_def waits_at_def\<close>,
          simp add: set_fh_def)
      then show ?thesis using F_Loop k(1) None by (simp add: failure_handler_step_def get_failure_msg_q_def s'_def)
    next
      case (Some m)
      have "mild 0 1 s (s\<lparr> os := k \<rparr>)" using k(3) Some mild_os by simp
      from failure_message_ok [OF ok p this, of m] show ?thesis
        using F_Loop k(1) Some by (simp add: failure_handler_step_def get_failure_msg_q_def)
    qed
  next
    case F_Msg_Wait
    obtain m s1 where s1: "q_pend_return (failure_code_q s) s = Some (m, s1)" "mild 0 1 s s1"
      using q_return_mild [OF d(1,2), of "failure_code_q s" 1] by (auto simp: queues_def)
    from failure_message_ok [OF ok p s1(2), of m] show ?thesis
      using F_Msg_Wait s1(1) by (simp add: failure_handler_step_def get_failure_msg_q_def)
  next
    case F_Flash
    then show ?thesis using failure_flash_ok [OF ok p mild_refl [OF d(1)]] by (simp add: failure_handler_step_def)
  qed
  then show ?thesis using sys_ok_stretch [OF ok, of 1] p by auto
qed

end
