(* ===== verification/Sys_Solenoid.thy ===== *)
theory Sys_Solenoid imports Sys_Inv begin

text \<open>
  The solenoid task in the running program: the gear stays in range and on display, and every stretch of
  its code returns unless the allocator of shift requests fails. The message that ends its wait for a button
  always points to the interrupt's variable.
\<close>

section \<open>The solenoid task\<close>

lemma sol_os [simp]: "sol (s\<lparr> os := k \<rparr>) = sol s" "gear_display (s\<lparr> os := k \<rparr>) = gear_display s"
  "s_pc (sol (go_solenoid pc s)) = pc" "curr_gear (sol (go_solenoid pc s)) = curr_gear (sol s)"
  "new_gear (sol (go_solenoid pc s)) = new_gear (sol s)" "gear_display (go_solenoid pc s) = gear_display s"
  "s_shift_matching_q (sol (go_solenoid pc s)) = s_shift_matching_q (sol s)" "sol (set_sol f s) = f (sol s)"
  "gear_display (set_sol f s) = gear_display s" "flags (set_sol f s) = flags s" "queues (set_sol f s) = queues s"
  "flags (go_solenoid pc s) = flags s" "queues (go_solenoid pc s) = queues s"
  by (simp_all add: gear_display_def go_solenoid_def set_sol_def flags_def queues_def)

lemma mild_queue: "mild 0 2 s s1 \<Longrightarrow> shift_matching_q s1 = shift_matching_q s"
  using mildD(5) [of 0 2 s s1] by (simp add: queues_def)

text \<open>A gear in range stays in range with what is asked for.\<close>

lemma requested_gear_ok:
  assumes "requested_gear command g rpm = Some g'" "1 \<le> g" "g \<le> 4"
  shows "1 \<le> g'" "g' \<le> 4" "one_step g (ucast g')"
proof -
  have r: "1 \<le> unat g" "unat g \<le> 4" using assms(2,3) by (simp_all add: word_le_nat_alt)
  then have u: "unat (ucast g :: INT16U) = unat g" by (simp add: unsigned_ucast_eq take_bit_eq_mod)
  have "g' = ucast g + 1 \<and> g \<noteq> 4 \<or> g' = ucast g - 1 \<and> g \<noteq> 1 \<or> g' = ucast g"
    using assms(1) by (auto simp: requested_gear_def Let_def split: if_splits)
  moreover have "g \<noteq> 4 \<Longrightarrow> unat g \<noteq> 4" "g \<noteq> 1 \<Longrightarrow> unat g \<noteq> 1" by (auto simp: word_unat_eq_iff)
  moreover have "unat (ucast g + 1 :: INT16U) = unat g + 1" using r u by (simp add: unat_add_small)
  moreover have "(1 :: INT16U) \<le> ucast g" using r u by (simp add: word_le_nat_alt)
  then have "unat (ucast g - 1 :: INT16U) = unat g - 1" using u by (simp add: unat_sub_word)
  ultimately have "1 \<le> unat g' \<and> unat g' \<le> 4 \<and> unat g' \<le> unat g + 1 \<and> unat g \<le> unat g' + 1" using r u by auto
  moreover from this have "unat (ucast g' :: INT8U) = unat g'" by (simp add: unsigned_ucast_eq take_bit_eq_mod)
  ultimately show "1 \<le> g'" "g' \<le> 4" "one_step g (ucast g')" by (simp_all add: word_le_nat_alt one_step_def)
qed

lemma small_gear:
  fixes g :: INT16U
  assumes "1 \<le> g" "g \<le> 4"
  shows "1 \<le> (ucast g :: INT8U)" "(ucast g :: INT8U) \<le> 4"
proof -
  have b: "1 \<le> unat g" "unat g \<le> 4" using assms by (simp_all add: word_le_nat_alt)
  then have "unat (ucast g :: INT8U) = unat g" by (simp add: unsigned_ucast_eq take_bit_eq_mod)
  then show "1 \<le> (ucast g :: INT8U)" "(ucast g :: INT8U) \<le> 4" using b by (simp_all add: word_le_nat_alt)
qed

lemma display_of_gear:
  assumes "1 \<le> g" "g \<le> 4"
  shows "reg8 (output_curr_gear g r) CURR_GEAR_OUT_BASE = g - 1"
proof -
  have "unat g \<in> {1, 2, 3, 4}" using assms by (auto simp: word_le_nat_alt)
  then have "g = 1 \<or> g = 2 \<or> g = 3 \<or> g = 4" by (auto simp: word_unat_eq_iff)
  then show ?thesis by (auto simp: output_curr_gear_def)
qed

text \<open>What the stretches of the task keep besides the kernel: the gear and the handle.\<close>

definition gear_in :: "app_state \<Rightarrow> bool" where
  "gear_in s \<longleftrightarrow> 1 \<le> curr_gear (sol s) \<and> curr_gear (sol s) \<le> 4 \<and> gear_display s = curr_gear (sol s) - 1 \<and>
     s_shift_matching_q (sol s) \<in> {None, shift_matching_q s}"

lemma gear_in_of: "sys_ok s \<Longrightarrow> gear_in s"
  by (simp add: sys_ok_def gear_ok_def requests_ok_def gear_in_def)

lemma gear_in_same:
  assumes "gear_in s" "queues s' = queues s" "curr_gear (sol s') = curr_gear (sol s)" "gear_display s' = gear_display s"
    "s_shift_matching_q (sol s') = s_shift_matching_q (sol s)"
  shows "gear_in s'"
  using assms by (simp add: gear_in_def queues_def)

text \<open>A turn of the task that began in \<open>s\<close> ends in \<open>res\<close>, at most one gear away; it gets stuck only when the
  allocator fails.\<close>

definition task_kept :: "app_state \<Rightarrow> bool" where
  "task_kept s \<longleftrightarrow> requests_ok s \<and> gear_ok s \<and> button_ok s"

definition turn_ends :: "(msg set \<Rightarrow> msg) \<Rightarrow> app_state \<Rightarrow> app_state option \<Rightarrow> bool" where
  "turn_ends malloc_req s res \<longleftrightarrow>
     (case res of None \<Rightarrow> \<exists>used. malloc_req used = 0 | Some s' \<Rightarrow> stretch 2 s s' \<and> task_kept s' \<and> one_step (curr_gear (sol s)) (curr_gear (sol s')))"

lemma turn_ends_simps [simp]:
  "turn_ends malloc_req s (Some s') \<longleftrightarrow> stretch 2 s s' \<and> task_kept s' \<and> one_step (curr_gear (sol s)) (curr_gear (sol s'))"
  "turn_ends malloc_req s None \<longleftrightarrow> (\<exists>used. malloc_req used = 0)"
  by (simp_all add: turn_ends_def)

lemma loop_kept: "gear_in s \<Longrightarrow> s_pc (sol s) = S_Loop \<Longrightarrow> task_kept s"
  by (simp add: gear_in_def task_kept_def requests_ok_def gear_ok_def button_ok_def)

lemma end_loop:
  assumes "mild 0 2 s s0" "gear_in s0" "curr_gear (sol s0) = curr_gear (sol s)"
  shows "turn_ends malloc_req s (Some (go_solenoid S_Loop s0))"
proof -
  have "gear_in (go_solenoid S_Loop s0)" by (rule gear_in_same [OF assms(2)]) simp_all
  then show ?thesis using end_mild [OF mild_then_plain [OF assms(1)]] loop_kept assms(3) by simp
qed

text \<open>Opening the solenoid with the alarm that closes it.\<close>

lemma start_keeps [simp]:
  "sol (snd (alt_alarm_start a n c x (s :: app_state))) = sol s" "io (snd (alt_alarm_start a n c x s)) = io s"
  "req_live (snd (alt_alarm_start a n c x s)) = req_live s"
  using more_start [of a n c x s] by (cases s; cases "snd (alt_alarm_start a n c x s)"; simp)+

lemma shift_keeps [simp]: "sol (shift_up s) = sol s" "sol (shift_down s) = sol s" "req_live (shift_up s) = req_live s"
  "req_live (shift_down s) = req_live s"
  by (simp_all add: shift_up_def shift_down_def)

text \<open>A shift up to its delay: the new gear is taken and shown, the request is freed, the solenoid is opened.\<close>

definition shifted :: "app_state \<Rightarrow> app_state" where
  "shifted s =
     (let s = set_sol (\<lambda>v. v\<lparr> curr_gear := ucast (new_gear v) \<rparr>) s;
          s = s\<lparr> io := output_curr_gear (curr_gear (sol s)) (io s) \<rparr>;
          s = s\<lparr> req_live := req_live s - {req (sol s)} \<rparr> in
      if shift_command (sol s) = BUTTON_INPUT_SHIFT_UP then
        snd (alt_alarm_start (shift_alarm (sol s)) SOLENOID_OPEN_DURATION_TICKS Solenoid_Callback 0 (shift_up s))
      else if shift_command (sol s) = BUTTON_INPUT_SHIFT_DOWN then
        snd (alt_alarm_start (shift_alarm (sol s)) SOLENOID_OPEN_DURATION_TICKS Solenoid_Callback 0 (shift_down s))
      else s)"

lemma solenoid_result_shifts:
  "solenoid_result m s =
     (if (ucast m :: INT8U) = SHIFT_MATCHING_RESULT_FAIL then Some (go_solenoid S_Loop s)
      else do { s \<leftarrow> time_dly_hmsm 0 0 2 0 (shifted s); Some (go_solenoid S_Loop s) })"
  unfolding solenoid_result_def shifted_def Let_def SOLENOID_TASK_DELAY_HOURS_def SOLENOID_TASK_DELAY_MINUTES_def
    SOLENOID_TASK_DELAY_SECONDS_def SOLENOID_TASK_DELAY_MILLISEC_def ..

lemma shifted_keeps:
  "steps_as 2 s (shifted s)" "os (shifted s) = os s" "queues (shifted s) = queues s"
  "sol (shifted s) = (sol s)\<lparr> curr_gear := ucast (new_gear (sol s)) \<rparr>" "req (sol s) \<notin> req_live (shifted s)"
  "gear_display (shifted s) = reg8 (output_curr_gear (ucast (new_gear (sol s))) (io s)) CURR_GEAR_OUT_BASE"
  "shift_command (sol s) \<in> {BUTTON_INPUT_SHIFT_UP, BUTTON_INPUT_SHIFT_DOWN} \<Longrightarrow>
     reg32 (io (shifted s)) SOLENOID_OUT_BASE = shift_command (sol s)"
proof -
  define s1 where "s1 = set_sol (\<lambda>v. v\<lparr> curr_gear := ucast (new_gear v) \<rparr>) s"
  define s2 where "s2 = s1\<lparr> io := output_curr_gear (curr_gear (sol s1)) (io s1) \<rparr>"
  define s3 where "s3 = s2\<lparr> req_live := req_live s2 - {req (sol s2)} \<rparr>"
  have e: "shifted s = (if shift_command (sol s3) = BUTTON_INPUT_SHIFT_UP then
        snd (alt_alarm_start (shift_alarm (sol s3)) SOLENOID_OPEN_DURATION_TICKS Solenoid_Callback 0 (shift_up s3))
      else if shift_command (sol s3) = BUTTON_INPUT_SHIFT_DOWN then
        snd (alt_alarm_start (shift_alarm (sol s3)) SOLENOID_OPEN_DURATION_TICKS Solenoid_Callback 0 (shift_down s3))
      else s3)"
    unfolding shifted_def Let_def s1_def s2_def s3_def ..
  have "steps_as 2 s s1" "steps_as 2 s1 s2" "steps_as 2 s2 s3" by (simp_all add: s1_def s2_def s3_def)
  moreover have up: "steps_as p s3 (shifted s)" for p
    unfolding e using steps_trans [OF steps_devices(6) steps_start(1)] steps_trans [OF steps_devices(7) steps_start(1)] by simp
  ultimately show st: "steps_as 2 s (shifted s)" by (blast intro: steps_trans)
  then show "queues (shifted s) = queues s" by (simp add: steps_as_def)
  show "os (shifted s) = os s" by (simp add: e s3_def s2_def s1_def)
  have s3: "sol s3 = (sol s)\<lparr> curr_gear := ucast (new_gear (sol s)) \<rparr>" "req (sol s) \<notin> req_live s3"
    "gear_display s3 = reg8 (output_curr_gear (ucast (new_gear (sol s))) (io s)) CURR_GEAR_OUT_BASE"
    by (simp_all add: s3_def s2_def s1_def gear_display_def) (simp_all add: set_sol_def)
  then show "sol (shifted s) = (sol s)\<lparr> curr_gear := ucast (new_gear (sol s)) \<rparr>" "req (sol s) \<notin> req_live (shifted s)"
    "gear_display (shifted s) = reg8 (output_curr_gear (ucast (new_gear (sol s))) (io s)) CURR_GEAR_OUT_BASE"
    using up [of 1] by (simp_all add: steps_as_def) (simp add: e)
  show "reg32 (io (shifted s)) SOLENOID_OUT_BASE = shift_command (sol s)"
    if "shift_command (sol s) \<in> {BUTTON_INPUT_SHIFT_UP, BUTTON_INPUT_SHIFT_DOWN}"
    using that s3(1) by (auto simp: e shift_up_def shift_down_def io_write32_def)
qed

lemma solenoid_result_ok:
  assumes ok: "sys_ok s" and p: "unat (OSPrioCur (os s)) = 2" and m0: "mild 0 2 s s0"
    and g: "gear_in s0" "curr_gear (sol s0) = curr_gear (sol s)"
    and n: "1 \<le> new_gear (sol s0)" "new_gear (sol s0) \<le> 4" "one_step (curr_gear (sol s)) (ucast (new_gear (sol s0)))"
  shows "turn_ends malloc_req s (solenoid_result m s0)"
proof (cases "(ucast m :: INT8U) = SHIFT_MATCHING_RESULT_FAIL")
  case True
  then show ?thesis using end_loop [OF m0 g] by (simp add: solenoid_result_shifts)
next
  case False
  note sh = shifted_keeps [of s0]
  have m1: "mild 0 2 s (shifted s0)" using mild_then_plain [OF m0 sh(1,2)] .
  have cur: "OSPrioCur (os (shifted s0)) \<noteq> 20" using p easedD(5) [OF mildD(2) [OF m1]] by auto
  obtain k where k: "time_dly_hmsm 0 0 2 0 (shifted s0) = Some ((shifted s0)\<lparr> os := k \<rparr>)" "onward 0 (os (shifted s0)) k"
    "\<forall>e. wait_set e k = wait_set e (os (shifted s0))"
    using delay_ends [OF mildD(3) [OF m1] cur two_seconds [OF mildD(3) [OF m1]]] by auto
  define s' where "s' = go_solenoid S_Loop ((shifted s0)\<lparr> os := k \<rparr>)"
  have st: "stretch 2 s s'" by (rule end_delay [OF m1 k(2,3)]) (simp_all add: s'_def)
  have "shift_matching_q (shifted s0) = shift_matching_q s0" using sh(3) by (simp add: queues_def)
  then have "gear_in (shifted s0)"
    using g(1) small_gear [OF n(1,2)] display_of_gear [OF small_gear [OF n(1,2)]] by (simp add: gear_in_def sh)
  then have "gear_in ((shifted s0)\<lparr> os := k \<rparr>)" by (rule gear_in_same) (simp_all add: queues_def)
  then have "gear_in s'" by (rule gear_in_same) (simp_all add: s'_def)
  then have "task_kept s'" by (rule loop_kept) (simp add: s'_def)
  moreover have "curr_gear (sol s') = ucast (new_gear (sol s0))" by (simp add: s'_def sh)
  ultimately show ?thesis using st False k(1) n(3) by (simp add: solenoid_result_shifts s'_def)
qed

text \<open>Nobody waits for a shift request.\<close>

lemma no_request_waiter:
  assumes ok: "sys_ok s" and m: "mild 0 p s s1" and e: "shift_matching_q s = Some e"
  shows "wait_set e (os s1) = {}"
proof -
  note d = sys_okD [OF ok]
  have "Some e \<in> set (queues s)" using e by (simp add: queues_def)
  note flag_events [OF d(2) this]
  moreover have "failure_code_q s \<noteq> Some e" "btn_input_q s \<noteq> Some e" "rpm_matching_result_q s \<noteq> Some e"
    using d(8) e by (auto simp: apart_def)
  ultimately have "waits_at s p' \<noteq> Some e" for p'
    by (simp add: waits_at_def split: throttle_pc.split solenoid_pc.split failure_pc.split)
  then have "wait_set e (os s) = {}" using d(3) unfolding in_place_def by blast
  then show ?thesis using easedD(4) [OF mildD(2) [OF m], of e] by simp
qed

lemma solenoid_command_ok:
  assumes ok: "sys_ok s" and p: "unat (OSPrioCur (os s)) = 2" and m0: "mild 0 2 s s0"
    and g: "gear_in s0" "curr_gear (sol s0) = curr_gear (sol s)" and h: "s_shift_matching_q (sol s0) = shift_matching_q s0"
  shows "turn_ends malloc_req s (solenoid_command malloc_req s0)"
proof (cases "is_clutchless_shifting_enabled s0 = FALSE \<or>
    requested_gear (shift_command (sol s0)) (curr_gear (sol s0)) (get_RPM (rpm_decoder s0)) = None")
  case True
  then have "solenoid_command malloc_req s0 = Some (go_solenoid S_Loop s0)" by (auto simp: solenoid_command_def)
  then show ?thesis using end_loop [OF m0 g] by simp
next
  case False
  note d = sys_okD [OF ok]
  obtain w where w: "requested_gear (shift_command (sol s0)) (curr_gear (sol s0)) (get_RPM (rpm_decoder s0)) = Some w"
    using False by blast
  have n: "1 \<le> w" "w \<le> 4" "one_step (curr_gear (sol s)) (ucast w)"
    using requested_gear_ok [OF w] g by (simp_all add: gear_in_def)
  define r where "r = malloc_req (req_live s0)"
  define s1 where "s1 = s0\<lparr> req_live := insert r (req_live s0),
     reqs := (reqs s0)(r := \<lparr> req_curr_gear = curr_gear (sol s0), req_new_gear = ucast w \<rparr>) \<rparr>"
  define s2 where "s2 = set_sol (\<lambda>v. v\<lparr> new_gear := w, req := r \<rparr>) s1"
  have body: "solenoid_command malloc_req s0 = (if r = 0 then None else do { s \<leftarrow> q_post (s_shift_matching_q (sol s2)) r s2;
      (m, s) \<leftarrow> q_pend (rpm_matching_result_q s) Q_TIMEOUT_WAIT_FOREVER s;
      (case m of Some msg \<Rightarrow> solenoid_result msg s | None \<Rightarrow> Some (go_solenoid S_Result_Wait s)) })"
    using False unfolding solenoid_command_def Let_def w option.case r_def [symmetric] s1_def [symmetric] s2_def [symmetric]
    by simp
  show ?thesis
  proof (cases "r = 0")
    case True
    then show ?thesis using body r_def by (auto simp: turn_ends_def)
  next
    case got: False
    have "steps_as 2 s0 s1" "steps_as 2 s1 s2" by (simp_all add: s1_def s2_def)
    then have "steps_as 2 s0 s2" by (blast intro: steps_trans)
    then have m2: "mild 0 2 s s2" using mild_then_plain [OF m0] by (simp add: s1_def s2_def)
    have g1: "gear_in s1" by (rule gear_in_same [OF g(1)]) (simp_all add: s1_def queues_def gear_display_def)
    then have g2: "gear_in s2" by (rule gear_in_same) (simp_all add: s2_def)
    have "s_shift_matching_q (sol s2) = shift_matching_q s0" using h by (simp add: s2_def s1_def)
    also have "\<dots> = shift_matching_q s" using mild_queue [OF m0] .
    finally have hq: "s_shift_matching_q (sol s2) = shift_matching_q s2" using mild_queue [OF m2] by simp
    obtain k e where k: "q_post (shift_matching_q s2) r s2 = Some (s2\<lparr> os := k \<rparr>)" "shift_matching_q s2 = Some e" "posts 0 e r (os s2) k"
      using q_post_ends [OF mildD(3) [OF m2] mild_wired [OF m2 d(2)], where h = "shift_matching_q s2" and m = r]
      by (auto simp: queues_def)
    define s3 where "s3 = s2\<lparr> os := k \<rparr>"
    have "wait_set e (os s2) = {}" using no_request_waiter [OF ok m2] k(2) mild_queue [OF m2] by simp
    then have "quiet 0 (os s2) k" using posts_quiet k(3) by blast
    then have m3: "mild 0 2 s s3" using mild_trans [OF m2 mild_os] by (simp add: s3_def)
    have g3: "gear_in s3" using gear_in_same [OF g2] by (simp add: s3_def queues_def)
    have n3: "new_gear (sol s3) = w" "curr_gear (sol s3) = curr_gear (sol s)" using g(2) by (simp_all add: s3_def s2_def s1_def)
    have "OSPrioCur (os s3) \<noteq> 20" using p easedD(5) [OF mildD(2) [OF m3]] by auto
    then obtain x k4 e4 where k4: "q_pend (rpm_matching_result_q s3) 0 s3 = Some (x, s3\<lparr> os := k4 \<rparr>)" "rpm_matching_result_q s3 = Some e4"
        "if x = None then parks (unat (OSPrioCur (os s3))) e4 (os s3) k4 else quiet 0 (os s3) k4"
      using q_pend_ends [OF mildD(3) [OF m3] _ mild_wired [OF m3 d(2)], of "rpm_matching_result_q s3"] by (auto simp: queues_def)
    have g4: "gear_in (s3\<lparr> os := k4 \<rparr>)" using gear_in_same [OF g3] by (simp add: queues_def)
    have rest: "solenoid_command malloc_req s0 = (case x of Some msg \<Rightarrow> solenoid_result msg (s3\<lparr> os := k4 \<rparr>)
        | None \<Rightarrow> Some (go_solenoid S_Result_Wait (s3\<lparr> os := k4 \<rparr>)))"
      using body k4(1) got by (simp add: hq k(1) s3_def [symmetric])
    show ?thesis
    proof (cases x)
      case None
      define s' where "s' = go_solenoid S_Result_Wait (s3\<lparr> os := k4 \<rparr>)"
      have "stretch 2 s s'"
        by (rule end_parks [OF m3, of e4 k4]) (use k4 None p in \<open>simp_all add: s'_def waits_at_def\<close>,
          simp add: go_solenoid_def set_sol_def)
      moreover have "gear_in s'" by (rule gear_in_same [OF g4]) (simp_all add: s'_def)
      then have "task_kept s'"
        using n n3 by (auto simp: gear_in_def task_kept_def requests_ok_def gear_ok_def button_ok_def s'_def)
      ultimately show ?thesis using rest None n3(2) by (simp add: s'_def)
    next
      case (Some m)
      have "mild 0 2 s (s3\<lparr> os := k4 \<rparr>)" using mild_trans [OF m3 mild_os] k4(3) Some by simp
      from solenoid_result_ok [OF ok p this g4] show ?thesis using n n3 rest Some by simp
    qed
  qed
qed

lemma solenoid_button_ok:
  assumes ok: "sys_ok s" and p: "unat (OSPrioCur (os s)) = 2" and m0: "mild 0 2 s s0"
    and g: "gear_in s0" "curr_gear (sol s0) = curr_gear (sol s)"
  shows "turn_ends malloc_req s (solenoid_button malloc_req isr_data_addr s0)"
proof -
  note d = sys_okD [OF ok]
  define s1 where "s1 = set_irq_mask 0 (set_sol (\<lambda>v. v\<lparr> shift_command := isr_data s0 \<rparr>) s0)"
  define s2 where "s2 = (if s_shift_matching_q (sol s1) = None
    then set_sol (\<lambda>v. v\<lparr> s_shift_matching_q := get_shift_matching_q s1 \<rparr>) s1 else s1)"
  have "steps_as 2 s0 (set_sol f s0)" for f by simp
  then have st1: "steps_as 2 s0 s1" unfolding s1_def by (rule steps_trans) (rule steps_devices(4))
  have "steps_as 2 s1 s2" by (simp add: s2_def)
  then have "steps_as 2 s0 s2" by (rule steps_trans [OF st1])
  then have m2: "mild 0 2 s s2" using mild_then_plain [OF m0] by (simp add: s1_def s2_def)
  have "steps_as 1 (set_sol f s0) (set_irq_mask 0 (set_sol f s0))" for f by (rule steps_devices(4))
  then have s1: "sol s1 = (sol s0)\<lparr> shift_command := isr_data s0 \<rparr>" "gear_display s1 = gear_display s0" "queues s1 = queues s0"
    by (simp_all add: s1_def steps_as_def)
  have g1: "gear_in s1" by (rule gear_in_same [OF g(1)]) (simp_all add: s1)
  have h2: "s_shift_matching_q (sol s2) = shift_matching_q s2" "queues s2 = queues s1"
    using g1 by (auto simp: s2_def get_shift_matching_q_def gear_in_def set_sol_def queues_def)
  have g2: "gear_in s2"
    using g1 h2 by (simp add: gear_in_def s2_def queues_def)
  obtain c k where k: "sem_accept (solenoid_external_failure_flag s2) s2 = (c, s2\<lparr> os := k \<rparr>)" "quiet 0 (os s2) k"
    using accept_mild [OF mildD(3) [OF m2] mild_wired [OF m2 d(2)], of "solenoid_external_failure_flag s2"] by (auto simp: flags_def)
  define s3 where "s3 = s2\<lparr> os := k \<rparr>"
  have m3: "mild 0 2 s s3" using mild_trans [OF m2 mild_os [OF k(2)]] by (simp add: s3_def)
  have c3: "curr_gear (sol s3) = curr_gear (sol s)" using g(2) by (simp add: s3_def s2_def s1)
  have g3: "gear_in s3" using gear_in_same [OF g2] by (simp add: s3_def queues_def)
  have h3: "s_shift_matching_q (sol s3) = shift_matching_q s3" using h2 by (simp add: s3_def)
  have "OSPrioCur (os s3) \<noteq> 20" using p easedD(5) [OF mildD(2) [OF m3]] by auto
  then obtain r k4 e4 where k4: "sem_pend (solenoid_failure_resolved_flag s3) 0 s3 = Some (r, s3\<lparr> os := k4 \<rparr>)"
      "solenoid_failure_resolved_flag s3 = Some e4"
      "if r then quiet 0 (os s3) k4 else parks (unat (OSPrioCur (os s3))) e4 (os s3) k4"
    using sem_pend_ends [OF mildD(3) [OF m3] _ mild_wired [OF m3 d(2)], of "solenoid_failure_resolved_flag s3"]
    by (auto simp: flags_def)
  have g4: "gear_in (s3\<lparr> os := k4 \<rparr>)" using gear_in_same [OF g3] by (simp add: queues_def)
  have body: "solenoid_button malloc_req isr_data_addr s0 = (if c \<noteq> SEM_FLAG_NO_ERROR then
        if r then solenoid_command malloc_req (s3\<lparr> os := k4 \<rparr>) else Some (go_solenoid S_Failure_Wait (s3\<lparr> os := k4 \<rparr>))
      else solenoid_command malloc_req s3)"
    using k4(1) unfolding solenoid_button_def Let_def s1_def [symmetric] s2_def [symmetric] k(1) prod.case s3_def [symmetric]
    by simp
  have "turn_ends malloc_req s (solenoid_command malloc_req s3)" by (rule solenoid_command_ok [OF ok p m3 g3 c3 h3])
  moreover have "turn_ends malloc_req s (solenoid_command malloc_req (s3\<lparr> os := k4 \<rparr>))" if "r"
  proof -
    have "mild 0 2 s (s3\<lparr> os := k4 \<rparr>)" using mild_trans [OF m3 mild_os] k4(3) that by simp
    from solenoid_command_ok [OF ok p this g4] show ?thesis using h3 c3 by simp
  qed
  moreover have "turn_ends malloc_req s (Some (go_solenoid S_Failure_Wait (s3\<lparr> os := k4 \<rparr>)))" if "\<not> r"
  proof -
    define s' where "s' = go_solenoid S_Failure_Wait (s3\<lparr> os := k4 \<rparr>)"
    have "stretch 2 s s'"
      by (rule end_parks [OF m3, of e4 k4]) (use k4 that p in \<open>simp_all add: s'_def waits_at_def\<close>,
        simp add: go_solenoid_def set_sol_def)
    moreover have "gear_in s'" by (rule gear_in_same [OF g4]) (simp_all add: s'_def)
    moreover have "s_shift_matching_q (sol s') = shift_matching_q s'"
      using h3 by (simp add: s'_def) (simp add: go_solenoid_def set_sol_def)
    ultimately show ?thesis using c3 by (simp add: gear_in_def task_kept_def requests_ok_def gear_ok_def button_ok_def s'_def)
  qed
  ultimately show ?thesis using body by simp
qed

text \<open>The command that the turn works on is the one the interrupt has stored.\<close>

lemma go_keeps [simp]: "shift_command (sol (go_solenoid pc s)) = shift_command (sol s)"
  by (simp add: go_solenoid_def)

lemma delay_keeps: "time_dly_hmsm h m sec ms s = Some s' \<Longrightarrow> sol s' = sol s"
  by (auto simp: time_dly_hmsm_def split: prod.splits list.splits bind_splits)

lemma result_command:
  assumes "solenoid_result m s = Some s'"
  shows "shift_command (sol s') = shift_command (sol s)"
  using assms by (auto simp: solenoid_result_def Let_def dest!: delay_keeps split: if_splits bind_splits)

text \<open>What the result of the matching of the engine speed does. After a shift the task sleeps for two seconds.\<close>

lemma solenoid_result_effect:
  assumes s: "settled 0 (os s)" "OSPrioCur (os s) \<noteq> 20" and step: "solenoid_result m s = Some s'"
  shows "if (ucast m :: INT8U) = SHIFT_MATCHING_RESULT_FAIL then s' = go_solenoid S_Loop s
     else curr_gear (sol s') = ucast (new_gear (sol s)) \<and> req (sol s) \<notin> req_live s' \<and>
       (shift_command (sol s) \<in> {BUTTON_INPUT_SHIFT_UP, BUTTON_INPUT_SHIFT_DOWN} \<longrightarrow>
          reg32 (io s') SOLENOID_OUT_BASE = shift_command (sol s)) \<and>
       sleeping 2000 (unat (OSPrioCur (os s))) (os s')"
proof (cases "(ucast m :: INT8U) = SHIFT_MATCHING_RESULT_FAIL")
  case True
  then show ?thesis using step by (simp add: solenoid_result_shifts)
next
  case False
  note sh = shifted_keeps [of s]
  obtain k where k: "time_dly_hmsm 0 0 2 0 (shifted s) = Some ((shifted s)\<lparr> os := k \<rparr>)"
    "sleeping (unat (2000 :: INT16U)) (unat (OSPrioCur (os s))) k"
    using delay_ends [of "shifted s", OF _ _ two_seconds] s sh(2) by auto
  have "s' = go_solenoid S_Loop ((shifted s)\<lparr> os := k \<rparr>)" using step False k(1) by (simp add: solenoid_result_shifts)
  then have "curr_gear (sol s') = ucast (new_gear (sol s))" "req_live s' = req_live (shifted s)" "io s' = io (shifted s)" "os s' = k"
    by (simp_all add: sh(4)) (simp_all add: go_solenoid_def set_sol_def)
  then show ?thesis using False sh(5,7) k(2) by simp
qed

lemma command_command:
  assumes "solenoid_command malloc_req s = Some s'"
  shows "shift_command (sol s') = shift_command (sol s)"
  using assms
  by (auto simp: solenoid_command_def Let_def q_post_def q_pend_def dest!: result_command split: if_splits bind_splits option.splits)

lemma button_command:
  assumes "solenoid_button malloc_req m s = Some s'"
  shows "shift_command (sol s') = isr_data s"
  using assms
  by (auto simp: solenoid_button_def Let_def sem_pend_def sem_accept_def set_irq_mask_def dest!: command_command
      split: if_splits bind_splits option.splits prod.splits)

text \<open>The head of the loop empties the queue of buttons, so that the wait for the next always blocks.\<close>

lemma flush_blocks:
  assumes "is_queue e q k"
  shows "OSQFlush (Some e) k = Some (OS_ERR_NONE, set_ring q (ring_flush (get_ring q k)) k)"
    "messages q (set_ring q (ring_flush (get_ring q k)) k) = []"
    "free_blocks (set_ring q (ring_flush (get_ring q k)) k) = free_blocks k"
  using assms
  by (auto simp: OSQFlush_def is_queue_def messages_def ring_contents_def ring_flush_def free_blocks_def set_ring_def
      get_ring_def fun_eq_iff set_q_def split: prod.splits)

lemma solenoid_head_ok:
  assumes ok: "sys_ok s" and p: "unat (OSPrioCur (os s)) = 2"
  shows "turn_ends malloc_req s (solenoid_loop_head malloc_req s)"
proof -
  note d = sys_okD [OF ok]
  obtain e q where e: "btn_input_q s = Some e" "is_queue e q (os s)"
    using wired_queue [OF d(2), of "btn_input_q s"] by (auto simp: queues_def)
  define k where "k = set_ring q (ring_flush (get_ring q (os s))) (os s)"
  note fl = flush_blocks [OF e(2), folded k_def]
  have k: "quiet 0 (os s) k" using flush_quiet [OF d(1) e(2)] fl(1) by auto
  define s1 where "s1 = set_irq_mask (BUTTON_INPUT_SHIFT_UP OR BUTTON_INPUT_SHIFT_DOWN) (clear_edge_cap (s\<lparr> os := k \<rparr>))"
  have st: "steps_as p (s\<lparr> os := k \<rparr>) s1" for p unfolding s1_def by (rule steps_trans [OF steps_devices(3,4)])
  have m1: "mild 0 2 s s1" by (rule mild_then_plain [OF mild_os [OF k] st]) (simp add: s1_def)
  have s1: "os s1 = k" "btn_input_q s1 = Some e" "sol s1 = sol s" "gear_display s1 = gear_display s" "queues s1 = queues s"
    using st [of 1] e(1) by (simp_all add: s1_def steps_as_def) (simp_all add: set_irq_mask_def clear_edge_cap_def queues_def)
  have cur: "unat (OSPrioCur k) = 2" using p quietD(5) [OF k] by simp
  then have "OSPrioCur k \<noteq> 20" by auto
  moreover have "is_queue e q k" using os_keepD(5) [OF quietD(2) [OF k] e(2)] .
  ultimately obtain k' where k': "OSQPend_enter (Some e) 0 (Some 0) k = Some (False, 0, Some 0, k')" "parks 2 e k k'"
    using q_pend_blocks [OF quietD(1) [OF k] _ _ fl(2)] cur by auto
  define s' where "s' = go_solenoid S_Button_Wait (s1\<lparr> os := k' \<rparr>)"
  have "q_pend (btn_input_q s1) 0 s1 = Some (None, s1\<lparr> os := k' \<rparr>)" using k'(1) s1(1,2) by (simp add: q_pend_def)
  then have go: "solenoid_loop_head malloc_req s = Some s'"
    unfolding solenoid_loop_head_def e(1) fl(1) Option.bind.simps prod.case Let_def s1_def [symmetric] Q_TIMEOUT_WAIT_FOREVER_def s'_def
    by simp
  have "queues (s1\<lparr> os := k' \<rparr>) = queues s" using s1(5) by (simp add: queues_def)
  then have h': "queues s' = queues s" by (simp add: s'_def)
  then have b: "btn_input_q s' = Some e" using e(1) by (simp add: queues_def)
  have "stretch 2 s s'"
    by (rule end_parks [OF m1, of e k']) (use k'(2) p s1(1) cur b in \<open>simp_all add: s'_def waits_at_def\<close>)
  moreover have "gear_in s'" using gear_in_same [OF gear_in_of [OF ok] h'] s1(3,4) by (simp add: s'_def)
  moreover have "2 \<in> wait_set e (os s')" using k'(2) by (simp add: s'_def parks_def)
  then have "button_ok s'" using b by (simp add: button_ok_def served_def SOLENOID_TASK_PRIORITY_def)
  ultimately show ?thesis using go s1(3) by (simp add: task_kept_def gear_in_def requests_ok_def gear_ok_def s'_def)
qed

lemma solenoid_step_ends:
  assumes ok: "sys_ok s" and p: "unat (OSPrioCur (os s)) = 2"
  shows "turn_ends malloc_req s (solenoid_step malloc_req s)"
proof -
  note d = sys_okD [OF ok] and g = gear_in_of [OF ok]
  have same: "gear_in s1" "curr_gear (sol s1) = curr_gear (sol s)"
    if "mild 0 2 s s1" "sol s1 = sol s" "gear_display s1 = gear_display s" for s1
    using gear_in_same [OF g mildD(5) [OF that(1)]] that(2,3) by simp_all
  show ?thesis
  proof (cases "s_pc (sol s)")
    case S_Loop
    then show ?thesis using solenoid_head_ok [OF ok p] by (simp add: solenoid_step_def)
  next
    case S_Button_Wait
    obtain m s1 where s1: "q_pend_return (btn_input_q s) s = Some (m, s1)" "mild 0 2 s s1"
      using q_return_mild [OF d(1,2), of "btn_input_q s" 2] by (auto simp: queues_def)
    then have so: "sol s1 = sol s" "gear_display s1 = gear_display s" by (auto simp: q_pend_return_def split: bind_splits)
    obtain b err k where b: "btn_input_q s = Some b" "OSQPend_resume b (os s) = Some (m, err, k)"
      using s1(1) by (auto simp: q_pend_return_def split: bind_splits)
    have "served b isr_data_addr (unat (OSPrioCur (os s))) (os s)"
      using d(9) b(1) S_Button_Wait p by (simp add: button_ok_def SOLENOID_TASK_PRIORITY_def)
    then have "m = isr_data_addr" using resume_takes [OF d(1) _ b(2)] by blast
    then show ?thesis
      using solenoid_button_ok [OF ok p s1(2) same [OF s1(2) so]] S_Button_Wait s1(1) by (simp add: solenoid_step_def)
  next
    case S_Failure_Wait
    obtain s1 where s1: "sem_pend_return (solenoid_failure_resolved_flag s) s = Some s1" "mild 0 2 s s1"
      using sem_return_mild [OF d(1,2), of "solenoid_failure_resolved_flag s" 2] by (auto simp: flags_def)
    then have so: "sol s1 = sol s" "gear_display s1 = gear_display s" by (auto simp: sem_pend_return_def split: bind_splits)
    have "s_shift_matching_q (sol s1) = shift_matching_q s1"
      using d(4) S_Failure_Wait mild_queue [OF s1(2)] by (simp add: so requests_ok_def)
    then show ?thesis
      using solenoid_command_ok [OF ok p s1(2) same [OF s1(2) so]] S_Failure_Wait s1(1) by (simp add: solenoid_step_def)
  next
    case S_Result_Wait
    obtain m s1 where s1: "q_pend_return (rpm_matching_result_q s) s = Some (m, s1)" "mild 0 2 s s1"
      using q_return_mild [OF d(1,2), of "rpm_matching_result_q s" 2] by (auto simp: queues_def)
    then have so: "sol s1 = sol s" "gear_display s1 = gear_display s" by (auto simp: q_pend_return_def split: bind_splits)
    have "1 \<le> new_gear (sol s1)" "new_gear (sol s1) \<le> 4" "one_step (curr_gear (sol s)) (ucast (new_gear (sol s1)))"
      using d(5) S_Result_Wait by (simp_all add: so gear_ok_def)
    then show ?thesis
      using solenoid_result_ok [OF ok p s1(2) same [OF s1(2) so]] S_Result_Wait s1(1) by (simp add: solenoid_step_def)
  qed
qed

lemma solenoid_step_ok:
  assumes "sys_ok s" "unat (OSPrioCur (os s)) = 2" "solenoid_step malloc_req s = Some s'"
  shows "sys_ok s' \<and> stretch 2 s s'"
  using sys_ok_stretch [OF assms(1,2)] solenoid_step_ends [OF assms(1,2), of malloc_req] assms(3) by (simp add: task_kept_def)

end
