(* ===== verification/System.thy ===== *)
theory System imports Sys_Intr Sys_Throttle Sys_Failure Sys_Solenoid begin

text \<open>
  The running program as a transition system. The task the kernel has chosen runs one stretch of its
  code, the processor takes an interrupt, which serves the timer and the buttons in any order and number, or a
  device changes an input; interrupts come between two stretches. The invariant \<open>sys_ok\<close> holds in every reachable state, so that the motor, the gear and the
  handles are as they should be there, and a delay ends at its tick.
\<close>

section \<open>The transition system\<close>

text \<open>The application, the point where the statistics task goes on, and the interrupt controller with its handlers.\<close>

record system =
  app :: app_state
  stat :: stat_pc
  irqs :: "isr irq_unit"

text \<open>An interrupt comes with the readings of the pending lines.\<close>

datatype happening = Failure_Turn | Solenoid_Turn | Throttle_Turn | Stat_Turn | Idle_Turn | Interrupt "INT32U list" | Devices

fun ticks_of :: "happening \<Rightarrow> nat" where
  "ticks_of (Interrupt reads) = clock_ticks reads"
| "ticks_of _ = 0"

definition ticks_in :: "happening list \<Rightarrow> nat" where
  "ticks_in hs = sum_list (map ticks_of hs)"

lemma ticks_in_simps [simp]: "ticks_in [] = 0" "ticks_in (h # hs) = ticks_of h + ticks_in hs"
  by (simp_all add: ticks_in_def)

text \<open>What the devices may change: the converter's readings, the switches, the speed decoder, the buttons pressed.\<close>

definition inputs_change :: "mmio \<Rightarrow> mmio \<Rightarrow> bool" where
  "inputs_change r r' \<longleftrightarrow> (\<forall>a. a \<noteq> RPM_PWM_DECODER_BASE \<and> a \<noteq> pio_edge_cap \<longrightarrow> reg32 r' a = reg32 r a) \<and>
     (\<forall>a. a \<noteq> SWITCH_BASE \<longrightarrow> reg8 r' a = reg8 r a)"

inductive system_step ::
    "(nat set \<Rightarrow> nat) \<Rightarrow> (msg set \<Rightarrow> msg) \<Rightarrow> happening \<Rightarrow> system \<Rightarrow> system \<Rightarrow> bool"
  for malloc malloc_req where
  failure_turn: "OSPrioCur (os (app y)) = FAILURE_HANDLER_TASK_PRIORITY \<Longrightarrow> failure_handler_step (app y) = Some s \<Longrightarrow>
    system_step malloc malloc_req Failure_Turn y (y\<lparr> app := s \<rparr>)"
| solenoid_turn: "OSPrioCur (os (app y)) = SOLENOID_TASK_PRIORITY \<Longrightarrow> solenoid_step malloc_req (app y) = Some s \<Longrightarrow>
    system_step malloc malloc_req Solenoid_Turn y (y\<lparr> app := s \<rparr>)"
| throttle_turn: "OSPrioCur (os (app y)) = THROTTLE_CONTROL_TASK_PRIORITY \<Longrightarrow> throttle_control_step malloc (app y) = Some s \<Longrightarrow>
    system_step malloc malloc_req Throttle_Turn y (y\<lparr> app := s \<rparr>)"
| stat_turn: "OSPrioCur (os (app y)) = OS_TASK_STAT_PRIO \<Longrightarrow> OS_TaskStat_step d (stat y) (os (app y)) = Some (pc, k) \<Longrightarrow>
    system_step malloc malloc_req Stat_Turn y (y\<lparr> app := (app y)\<lparr> os := k \<rparr>, stat := pc \<rparr>)"
| idle_turn: "OSPrioCur (os (app y)) = OS_TASK_IDLE_PRIO \<Longrightarrow>
    system_step malloc malloc_req Idle_Turn y (y\<lparr> app := (app y)\<lparr> os := OS_TaskIdle_turn (os (app y)) \<rparr> \<rparr>)"
| interrupts: "readings_ok (irqs y) reads \<Longrightarrow> alt_irq_handler (irqs y) reads (app y) = Some s \<Longrightarrow>
    system_step malloc malloc_req (Interrupt reads) y (y\<lparr> app := s \<rparr>)"
| devices: "inputs_change (io (app y)) r \<Longrightarrow>
    system_step malloc malloc_req Devices y (y\<lparr> app := (app y)\<lparr> io := r, adc_reg := f \<rparr> \<rparr>)"

inductive_cases failure_turnE: "system_step malloc malloc_req Failure_Turn y y'"
inductive_cases solenoid_turnE: "system_step malloc malloc_req Solenoid_Turn y y'"
inductive_cases throttle_turnE: "system_step malloc malloc_req Throttle_Turn y y'"
inductive_cases stat_turnE: "system_step malloc malloc_req Stat_Turn y y'"

inductive_simps idle_turn_iff: "system_step malloc malloc_req Idle_Turn y y'"
inductive_simps interrupt_iff: "system_step malloc malloc_req (Interrupt reads) y y'"

inductive system_run ::
    "(nat set \<Rightarrow> nat) \<Rightarrow> (msg set \<Rightarrow> msg) \<Rightarrow> happening list \<Rightarrow> system \<Rightarrow> system \<Rightarrow> bool"
  for malloc malloc_req where
  run_stops: "system_run malloc malloc_req [] y y"
| run_goes: "system_step malloc malloc_req h y y' \<Longrightarrow> system_run malloc malloc_req hs y' y'' \<Longrightarrow>
    system_run malloc malloc_req (h # hs) y y''"

inductive_simps run_nil_iff [simp]: "system_run malloc malloc_req [] y y'"
inductive_simps run_cons_iff: "system_run malloc malloc_req (h # hs) y y'"

section \<open>The other tasks and the devices\<close>

text \<open>The idle counter is a number to the rest of the kernel.\<close>

lemma idle_counter [simp]:
  "ready_set (OS_TaskIdle_turn k) = ready_set k" "wait_set e (OS_TaskIdle_turn k) = wait_set e k"
  "task_at (OS_TaskIdle_turn k) p i = task_at k p i" "TCB (OS_TaskIdle_turn k) = TCB k" "ECB (OS_TaskIdle_turn k) = ECB k"
  "OSPrioCur (OS_TaskIdle_turn k) = OSPrioCur k"
  "is_sem e (OS_TaskIdle_turn k) = is_sem e k" "is_queue e q (OS_TaskIdle_turn k) = is_queue e q k"
  by (simp_all add: OS_TaskIdle_turn_def ready_set_def wait_set_def rdy_def waiters_def task_at_def
      is_sem_def is_queue_def q_of_def get_ring_def)

lemma idle_settled:
  assumes "settled 0 k"
  shows "settled 0 (OS_TaskIdle_turn k)"
proof -
  note c = settledD(1) [OF assms]
  have same: "rdy (OS_TaskIdle_turn k) = rdy k" "waiters e (OS_TaskIdle_turn k) = waiters e k" for e
    by (simp_all add: OS_TaskIdle_turn_def rdy_def waiters_def)
  have f: "OSTCBPrioTbl (OS_TaskIdle_turn k) = OSTCBPrioTbl k" "OSTCBCur (OS_TaskIdle_turn k) = OSTCBCur k"
    "OSTCBList (OS_TaskIdle_turn k) = OSTCBList k" "OSRunning (OS_TaskIdle_turn k) = OSRunning k"
    "OSTickStepState (OS_TaskIdle_turn k) = OSTickStepState k" "OSLockNesting (OS_TaskIdle_turn k) = OSLockNesting k"
    "OSIntNesting (OS_TaskIdle_turn k) = OSIntNesting k" "OSStatRdy (OS_TaskIdle_turn k) = OSStatRdy k"
    by (simp_all add: OS_TaskIdle_turn_def)
  have "task_ok (OS_TaskIdle_turn k) p t = task_ok k p t" for p t by (simp add: task_ok_def)
  then have "kernel_ok (OS_TaskIdle_turn k)" using calmD(1) [OF c] by (simp add: kernel_ok_def same f)
  moreover have "list_ok (OS_TaskIdle_turn k) = list_ok k" by (rule list_ok_cong) (simp_all add: f)
  moreover have "cur_ok (OS_TaskIdle_turn k) = cur_ok k" by (simp add: cur_ok_def f)
  moreover have "untimed (OS_TaskIdle_turn k) = untimed k" by (simp add: untimed_def)
  ultimately show ?thesis using assms by (simp add: settled_def calm_def started_def highest_runs_def f)
qed

lemma idle_ok:
  assumes "sys_ok s"
  shows "sys_ok (s\<lparr> os := OS_TaskIdle_turn (os s) \<rparr>)"
proof -
  have "wired (s\<lparr> os := OS_TaskIdle_turn (os s) \<rparr>)" using sys_okD(2) [OF assms] by (simp add: wired_def flags_def queues_def)
  moreover have "kept 0 s (s\<lparr> os := OS_TaskIdle_turn (os s) \<rparr>)" by (simp add: kept_def served_def)
  then have "button_ok (s\<lparr> os := OS_TaskIdle_turn (os s) \<rparr>)"
    by (rule button_keep [OF sys_okD(9) [OF assms]]) (simp_all add: queues_def)
  ultimately show ?thesis using sys_ok_interrupt [OF assms steps_os] idle_settled [OF sys_okD(1) [OF assms]] by simp
qed

lemma idle_sleeping: "sleeping d p (OS_TaskIdle_turn k) = sleeping d p k"
  by (simp add: sleeping_def asleep_def)

lemma stat_ok:
  assumes ok: "sys_ok s" and p: "OSPrioCur (os s) = OS_TASK_STAT_PRIO"
  shows "\<exists>k. OS_TaskStat_step d STAT_WAIT (os s) = Some (STAT_WAIT, k) \<and> sys_ok (s\<lparr> os := k \<rparr>) \<and> onward 0 (os s) k"
proof -
  note k = sys_okD(1) [OF ok]
  obtain k' where k': "OSTimeDly 200 (os s) = Some k'" "onward 0 (os s) k'" "\<forall>e. wait_set e k' = wait_set e (os s)"
    using delay_onward [OF k, of 200] p by auto
  have "OSStatRdy (os s) = OS_FALSE" using calmD(8) [OF settledD(1) [OF k]] .
  then have "OS_TaskStat_step d STAT_WAIT (os s) = Some (STAT_WAIT, k')"
    using k'(1) by (simp add: OS_TaskStat_step_def OS_TICKS_PER_SEC_def)
  moreover have "wired (s\<lparr> os := k' \<rparr>)"
    by (rule wired_keep [OF sys_okD(2) [OF ok]]) (simp_all add: flags_def queues_def onwardD(2) [OF k'(2)])
  moreover have "kept 19 s (s\<lparr> os := k' \<rparr>)" using kept_onward [of 0 s "s\<lparr> os := k' \<rparr>"] k'(2,3) p by simp
  then have "button_ok (s\<lparr> os := k' \<rparr>)"
    by (rule button_keep [OF sys_okD(9) [OF ok]]) (simp_all add: queues_def SOLENOID_TASK_PRIORITY_def)
  ultimately show ?thesis
    using sys_ok_interrupt [OF ok steps_os, of k'] k'(2,3) onwardD(1) [OF k'(2)] by simp
qed

lemma devices_ok:
  assumes ok: "sys_ok s" and r: "inputs_change (io s) r"
  shows "sys_ok (s\<lparr> io := r, adc_reg := f \<rparr>)"
proof -
  have "motor_untouched (io s) r" using r other_devices(4,5,9) unfolding motor_untouched_def inputs_change_def by metis
  moreover have "reg8 r CURR_GEAR_OUT_BASE = reg8 (io s) CURR_GEAR_OUT_BASE" using r by (simp add: inputs_change_def)
  ultimately have "steps_as 0 s (s\<lparr> io := r \<rparr>)" by (rule steps_io)
  moreover have "steps_as 0 (s\<lparr> io := r \<rparr>) (s\<lparr> io := r, adc_reg := f \<rparr>)"
  proof -
    have "drive_ok (s\<lparr> io := r \<rparr>) \<Longrightarrow> drive_ok (s\<lparr> io := r, adc_reg := f \<rparr>)"
      by (rule drive_ok_same [of "s\<lparr> io := r \<rparr>"]) simp_all
    then show ?thesis by (simp add: steps_as_def flags_def queues_def gear_display_def)
  qed
  ultimately have st: "steps_as 0 s (s\<lparr> io := r, adc_reg := f \<rparr>)" by (rule steps_trans)
  have "wired (s\<lparr> io := r, adc_reg := f \<rparr>)" using sys_okD(2) [OF ok] by (simp add: wired_def flags_def queues_def)
  moreover have "button_ok (s\<lparr> io := r, adc_reg := f \<rparr>)"
    by (rule button_keep [OF sys_okD(9) [OF ok] kept_same [of _ _ 0]]) (simp_all add: queues_def SOLENOID_TASK_PRIORITY_def)
  ultimately show ?thesis using sys_ok_interrupt [OF ok st] sys_okD(1) [OF ok] by simp
qed

section \<open>Every step keeps the invariant\<close>

definition system_ok :: "system \<Rightarrow> bool" where
  "system_ok y \<longleftrightarrow> sys_ok (app y) \<and> stat y = STAT_WAIT \<and> lines_registered (irqs y)"

text \<open>What \<open>n\<close> ticks of the clock do to the tasks that sleep.\<close>

definition clock_moves :: "nat \<Rightarrow> os_state \<Rightarrow> os_state \<Rightarrow> bool" where
  "clock_moves n k k' \<longleftrightarrow> (\<forall>d p. sleeping d p k \<and> 0 < d \<longrightarrow>
     (if n < d then sleeping (d - n) p k' else p \<in> ready_set k'))"

lemma clock_stands: "(\<And>d p. sleeping d p k \<Longrightarrow> sleeping d p k') \<Longrightarrow> clock_moves 0 k k'"
  by (simp add: clock_moves_def)

lemma onward_clock: "onward n k k' \<Longrightarrow> clock_moves 0 k k'"
  by (rule clock_stands) (rule sleeping_onward)

lemma stretch_clock: "stretch p s s' \<Longrightarrow> clock_moves 0 (os s) (os s')"
  using onward_clock by (auto simp: stretch_def)

lemma step_ok:
  assumes "system_step malloc malloc_req h y y'" "system_ok y"
  shows "system_ok y' \<and> clock_moves (ticks_of h) (os (app y)) (os (app y'))"
  using assms
proof (induction rule: system_step.induct)
  case (failure_turn y s)
  then have "sys_ok s \<and> stretch 1 (app y) s" using failure_step_ok [of "app y"] by (auto simp: system_ok_def)
  then show ?case using failure_turn(3) stretch_clock by (auto simp: system_ok_def)
next
  case (solenoid_turn y s)
  then have "sys_ok s \<and> stretch 2 (app y) s" using solenoid_step_ok [of "app y" malloc_req s] by (auto simp: system_ok_def)
  then show ?case using solenoid_turn(3) stretch_clock by (auto simp: system_ok_def)
next
  case (throttle_turn y s)
  then have "sys_ok s \<and> stretch 3 (app y) s" using throttle_step_ok [of "app y" malloc] by (simp add: system_ok_def)
  then show ?case using throttle_turn(3) stretch_clock by (auto simp: system_ok_def)
next
  case (stat_turn y d pc k)
  then have "stat y = STAT_WAIT" "sys_ok (app y)" by (simp_all add: system_ok_def)
  then have "pc = STAT_WAIT \<and> sys_ok ((app y)\<lparr> os := k \<rparr>) \<and> onward 0 (os (app y)) k"
    using stat_turn(1,2) stat_ok [of "app y" d] by auto
  then show ?case using stat_turn(3) onward_clock by (auto simp: system_ok_def)
next
  case (idle_turn y)
  then show ?case using idle_ok clock_stands idle_sleeping by (simp add: system_ok_def)
next
  case (interrupts y reads s)
  then have "sys_ok s" "clock_moves (clock_ticks reads) (os (app y)) (os s)"
    using interrupt_ok [of "app y" "irqs y" reads s] by (simp_all add: system_ok_def clock_moves_def)
  then show ?case using interrupts(3) by (simp add: system_ok_def)
next
  case (devices y r f)
  then show ?case using devices_ok clock_stands by (simp add: system_ok_def)
qed

lemma run_ok: "system_run malloc malloc_req hs y y' \<Longrightarrow> system_ok y \<Longrightarrow> system_ok y'"
  by (induction rule: system_run.induct) (use step_ok in blast)+

lemma run_append:
  "system_run malloc malloc_req (as @ bs) y z \<longleftrightarrow> (\<exists>x. system_run malloc malloc_req as y x \<and> system_run malloc malloc_req bs x z)"
  by (induction as arbitrary: y) (auto simp: run_cons_iff)

lemma run_sleeping:
  assumes "system_run malloc malloc_req hs y y'" "system_ok y" "sleeping d p (os (app y))" "ticks_in hs < d"
  shows "sleeping (d - ticks_in hs) p (os (app y'))"
  using assms
proof (induction arbitrary: d rule: system_run.induct)
  case (run_goes h y y' hs y'')
  note step = step_ok [OF run_goes(1,4)]
  have "0 < d" "ticks_of h < d" "ticks_in hs < d - ticks_of h" using run_goes(6) by simp_all
  moreover from this have "sleeping (d - ticks_of h) p (os (app y'))" using step run_goes(5) by (simp add: clock_moves_def)
  moreover have "d - ticks_of h - ticks_in hs = d - ticks_in (h # hs)" by simp
  ultimately show ?case using run_goes.IH step by metis
qed simp

text \<open>The gear is the solenoid task's, and a turn of the task shifts by at most one.\<close>

lemma step_sol:
  assumes "system_step malloc malloc_req h y y'" "system_ok y" "h \<noteq> Solenoid_Turn"
  shows "sol (app y') = sol (app y)"
  using assms
proof (induction rule: system_step.induct)
  case (failure_turn y s)
  then have "stretch 1 (app y) s" using failure_step_ok [of "app y"] by (auto simp: system_ok_def)
  then show ?case by (simp add: stretch_def steps_as_def)
next
  case (throttle_turn y s)
  then have "stretch 3 (app y) s" using throttle_step_ok [of "app y" malloc] by (simp add: system_ok_def)
  then show ?case by (simp add: stretch_def steps_as_def)
next
  case (interrupts y reads s)
  then show ?case using interrupt_ok [of "app y" "irqs y" reads s] by (simp add: system_ok_def)
qed simp_all

text \<open>While other tasks run and other interrupts are served, a ready solenoid task stays ready and the variable of the buttons'
  interrupt keeps its value.\<close>

fun button_served :: "happening \<Rightarrow> bool" where
  "button_served (Interrupt reads) = (4 \<in> first_line ` set (takeWhile (\<lambda>a. a \<noteq> 0) reads))"
| "button_served _ = False"

lemma stretch_others:
  assumes "stretch p s s'" "unat (OSPrioCur (os s)) = p" "p \<noteq> 2" "p \<noteq> 0" "sys_ok s" "2 \<in> ready_set (os s)"
  shows "2 \<in> ready_set (os s') \<and> isr_data s' = isr_data s"
  using assms ready_onward [of 0 "os s" "os s'" 2] sys_okD(1) [OF assms(5)] by (simp add: stretch_def steps_as_def)

lemma step_others:
  assumes "system_step malloc malloc_req h y y'" "system_ok y" "h \<noteq> Solenoid_Turn" "\<not> button_served h"
    "SOLENOID_TASK_PRIORITY \<in> ready_set (os (app y))"
  shows "SOLENOID_TASK_PRIORITY \<in> ready_set (os (app y')) \<and> isr_data (app y') = isr_data (app y)"
  using assms unfolding SOLENOID_TASK_PRIORITY_def
proof (induction rule: system_step.induct)
  case (failure_turn y s)
  then have "stretch 1 (app y) s" "sys_ok (app y)" using failure_step_ok [of "app y"] by (auto simp: system_ok_def)
  then show ?case using stretch_others [of 1 "app y" s] failure_turn by simp
next
  case (throttle_turn y s)
  then have "stretch 3 (app y) s" "sys_ok (app y)" using throttle_step_ok [of "app y" malloc] by (auto simp: system_ok_def)
  then show ?case using stretch_others [of 3 "app y" s] throttle_turn by simp
next
  case (stat_turn y d pc k)
  then have s: "stat y = STAT_WAIT" "sys_ok (app y)" by (simp_all add: system_ok_def)
  then have "onward 0 (os (app y)) k" using stat_turn(1,2) stat_ok [of "app y" d] by auto
  then show ?case using ready_onward [OF sys_okD(1) [OF s(2)], of k 2] stat_turn by simp
next
  case (interrupts y reads s)
  then show ?case using interrupt_ok [of "app y" "irqs y" reads s] by (auto simp: system_ok_def)
qed simp_all

lemma run_others:
  assumes "system_run malloc malloc_req hs y y'" "system_ok y" "\<forall>h \<in> set hs. h \<noteq> Solenoid_Turn \<and> \<not> button_served h"
    "SOLENOID_TASK_PRIORITY \<in> ready_set (os (app y))"
  shows "SOLENOID_TASK_PRIORITY \<in> ready_set (os (app y')) \<and> isr_data (app y') = isr_data (app y) \<and> sol (app y') = sol (app y)"
  using assms
proof (induction rule: system_run.induct)
  case (run_goes h y y' hs y'')
  then have h: "h \<noteq> Solenoid_Turn" "\<not> button_served h" by simp_all
  note step = step_ok [OF run_goes(1,4)] step_sol [OF run_goes(1,4) h(1)] step_others [OF run_goes(1,4) h run_goes(6)]
  then show ?case using run_goes.IH run_goes.prems(2) by simp
qed simp

lemma step_gear:
  assumes "system_step malloc malloc_req h y y'" "system_ok y"
  shows "one_step (curr_gear (sol (app y))) (curr_gear (sol (app y')))"
proof (cases "h = Solenoid_Turn")
  case True
  then obtain s where s: "OSPrioCur (os (app y)) = SOLENOID_TASK_PRIORITY" "solenoid_step malloc_req (app y) = Some s" "app y' = s"
    using assms(1) by (auto elim: solenoid_turnE)
  then have "turn_ends malloc_req (app y) (Some s)"
    using solenoid_step_ends [of "app y" malloc_req] assms(2) by (simp add: system_ok_def SOLENOID_TASK_PRIORITY_def)
  then show ?thesis using s(3) by simp
qed (use step_sol [OF assms] in simp)

end
