(* ===== verification/Os_Start.thy ===== *)
theory Os_Start imports Os_Init Config begin

text \<open>
  From \<open>OSInit\<close> to the first task: creating events takes the blocks of the free lists in order,
  \<open>alt_os_init\<close> is the macro \<open>ALT_OS_INIT\<close> (\<open>os/alt_hooks.h\<close>), \<open>create_tasks\<close> the three creations of
  \<open>main.c\<close>. The lemmas carry the invariants through these calls up to \<open>OSStart\<close>.
\<close>

section \<open>Operations\<close>

text \<open>The two semaphores of the HAL, in the order of creation.\<close>

definition alt_os_init :: "'a image_scheme \<Rightarrow> os_state \<Rightarrow> (event_ptr \<times> event_ptr \<times> os_state) option" where
  "alt_os_init im s = do {
     s \<leftarrow> OSInit im s;
     (alt_envsem, s) \<leftarrow> OSSemCreate 1 s;
     (alt_heapsem, s) \<leftarrow> OSSemCreate 1 s;
     Some (alt_envsem, alt_heapsem, s)
   }"

text \<open>The addresses the linker gives the stacks and the code of the tasks of \<open>main.c\<close>.\<close>

record app_image = image +
  failure_handler_task_stk :: INT32U
  throttle_control_task_stk :: INT32U
  solenoid_task_stk :: INT32U
  failure_handler_entry :: INT32U
  throttle_control_entry :: INT32U
  solenoid_entry :: INT32U

definition TASK_STACKSIZE :: INT32U where [simp, const_defs]: "TASK_STACKSIZE = 2048"

definition create_task :: "app_image \<Rightarrow> INT32U \<Rightarrow> INT32U \<Rightarrow> INT8U \<Rightarrow> os_state \<Rightarrow> os_state option" where
  "create_task im entry stk prio s = do {
     (err, s) \<leftarrow> OSTaskCreateExt (cpu im) entry 0 (stk_elem stk (TASK_STACKSIZE - 1)) prio (ucast prio) stk TASK_STACKSIZE 0 0 s;
     Some s
   }"

definition create_tasks :: "app_image \<Rightarrow> os_state \<Rightarrow> os_state option" where
  "create_tasks im s = do {
     s \<leftarrow> create_task im (failure_handler_entry im) (failure_handler_task_stk im) FAILURE_HANDLER_TASK_PRIORITY s;
     s \<leftarrow> create_task im (throttle_control_entry im) (throttle_control_task_stk im) THROTTLE_CONTROL_TASK_PRIORITY s;
     create_task im (solenoid_entry im) (solenoid_task_stk im) SOLENOID_TASK_PRIORITY s
   }"

section \<open>Creating events\<close>

text \<open>The free lists hold the blocks from \<open>n\<close> on, in order; no task waits for a free event.\<close>

definition events_free :: "nat \<Rightarrow> os_state \<Rightarrow> bool" where
  "events_free n s \<longleftrightarrow> OSEventFreeList s = (if n < 60 then Some n else None) \<and>
     (\<forall>e. n \<le> e \<and> e < 60 \<longrightarrow> OSEventPtr (ECB s e) = Event_Ptr (if e < 59 then Some (Suc e) else None) \<and> wait_set e s = {})"

definition queues_free :: "nat \<Rightarrow> os_state \<Rightarrow> bool" where
  "queues_free n s \<longleftrightarrow> OSQFreeList s = (if n < 20 then Some n else None) \<and>
     (\<forall>q. n \<le> q \<and> q < 20 \<longrightarrow> OSQPtr (QCB s q) = (if q < 19 then Some (Suc q) else None))"

text \<open>What the creation of an event leaves alone.\<close>

definition event_frame :: "os_state \<Rightarrow> os_state \<Rightarrow> bool" where
  "event_frame s s' \<longleftrightarrow> TCB s' = TCB s \<and> OSTCBPrioTbl s' = OSTCBPrioTbl s \<and> rdy s' = rdy s \<and> OSTCBList s' = OSTCBList s \<and>
     OSTCBFreeList s' = OSTCBFreeList s \<and> OSTCBCur s' = OSTCBCur s \<and> OSPrioCur s' = OSPrioCur s \<and>
     OSIntNesting s' = OSIntNesting s \<and> OSLockNesting s' = OSLockNesting s \<and> OSRunning s' = OSRunning s \<and> storage s' = storage s \<and>
     OSTickStepState s' = OSTickStepState s \<and> OSStatRdy s' = OSStatRdy s"

lemma event_frame_sets:
  assumes "event_frame s s'"
  shows "task_at s' = task_at s" "ready_set s' = ready_set s" "tcbs_ok s' is fs = tcbs_ok s is fs" "cur_ok s' = cur_ok s"
proof -
  show at: "task_at s' = task_at s" using assms by (auto simp: event_frame_def task_at_def fun_eq_iff)
  show "ready_set s' = ready_set s" "tcbs_ok s' is fs = tcbs_ok s is fs" "cur_ok s' = cur_ok s"
    using assms by (simp_all add: event_frame_def ready_set_def tcbs_ok_def cur_ok_def at)
qed

lemma sem_create_next:
  assumes ok: "kernel_ok s" and ev: "events_free n s" "n < 60" and lvl: "OSIntNesting s = 0"
  shows "\<exists>s'. OSSemCreate cnt s = Some (Some n, s') \<and> kernel_ok s' \<and> events_free (Suc n) s' \<and> event_frame s s' \<and>
     QCB s' = QCB s \<and> OSQFreeList s' = OSQFreeList s \<and> is_sem n s' \<and> OSEventCnt (ECB s' n) = cnt \<and> wait_set n s' = {} \<and>
     (\<forall>e. e \<noteq> n \<longrightarrow> ECB s' e = ECB s e)"
proof -
  define s' where "s' = OS_EventWaitListInit n (set_event n (\<lambda>ev. event_name_unknown (ev\<lparr> OSEventType := OS_EVENT_TYPE_SEM,
      OSEventCnt := cnt, OSEventPtr := Msg 0 \<rparr>)) (s\<lparr> OSEventFreeList := if n < 59 then Some (Suc n) else None \<rparr>))"
  have run: "OSSemCreate cnt s = Some (Some n, s')"
    using ev lvl by (simp add: OSSemCreate_def alloc_event_def events_free_def s'_def Let_def)
  have e: "ECB s' n = (event_name_unknown ((ECB s n)\<lparr> OSEventType := OS_EVENT_TYPE_SEM, OSEventCnt := cnt, OSEventPtr := Msg 0 \<rparr>))
      \<lparr> OSEventGrp := 0, OSEventTbl := replicate OS_RDY_TBL_SIZE 0 \<rparr>" "\<And>e. e \<noteq> n \<Longrightarrow> ECB s' e = ECB s e"
    by (simp_all add: s'_def OS_EventWaitListInit_def)
  have fr: "event_frame s s'" "QCB s' = QCB s" "OSQFreeList s' = OSQFreeList s"
    by (simp_all add: event_frame_def s'_def OS_EventWaitListInit_def)
      (simp_all add: set_event_def set_waiters_def rdy_def)
  have w: "waiters n s' = bm_empty" by (simp add: waiters_def e bm_empty_def)
  then have ws: "wait_set n s' = {}" by (simp add: wait_set_def)
  have ok': "kernel_ok s'"
    using kernel_ok_fresh_event [OF ok, of n s'] ev fr(1) e(2) w by (simp add: events_free_def event_frame_def bm_empty_def)
  have "events_free (Suc n) s'"
    using ev e(2) by (auto simp: events_free_def wait_set_def waiters_def) (simp_all add: s'_def OS_EventWaitListInit_def set_event_def set_waiters_def)
  then show ?thesis
    using run ok' fr ws e by (intro exI [of _ s']) (simp add: is_sem_def event_name_unknown_def)
qed

lemma q_create_next:
  assumes ok: "kernel_ok s" and ev: "events_free n s" "n < 60" and q: "queues_free m s" "m < 20" and lvl: "OSIntNesting s = 0"
    and size: "0 < k" "unat start + 4 * unat k < 2 ^ 32"
  shows "\<exists>s'. OSQCreate start k s = Some (Some n, s') \<and> kernel_ok s' \<and> events_free (Suc n) s' \<and> queues_free (Suc m) s' \<and>
     event_frame s s' \<and> is_queue n m s' \<and> messages m s' = [] \<and> capacity m s' = unat k \<and> wait_set n s' = {} \<and>
     (\<forall>e. e \<noteq> n \<longrightarrow> ECB s' e = ECB s e) \<and> (\<forall>q. q \<noteq> m \<longrightarrow> QCB s' q = QCB s q) \<and>
     OSQOut (QCB s' m) = start \<and> OSQStart (QCB s' m) = start"
proof -
  define s2 where "s2 = set_q m (\<lambda>pq. pq\<lparr> OSQStart := start, OSQEnd := start + 4 * ucast k, OSQIn := start,
      OSQOut := start, OSQSize := k, OSQEntries := 0 \<rparr>)
    (s\<lparr> OSEventFreeList := if n < 59 then Some (Suc n) else None, OSQFreeList := OSQPtr (QCB s m) \<rparr>)"
  define s' where "s' = OS_EventWaitListInit n (set_event n (\<lambda>ev. event_name_unknown (ev\<lparr> OSEventType := OS_EVENT_TYPE_Q,
      OSEventCnt := 0, OSEventPtr := Q_Ptr (Some m) \<rparr>)) s2)"
  have run: "OSQCreate start k s = Some (Some n, s')"
    using ev q lvl by (simp add: OSQCreate_def alloc_event_def events_free_def queues_free_def s'_def s2_def Let_def)
  have e: "ECB s' n = (event_name_unknown ((ECB s n)\<lparr> OSEventType := OS_EVENT_TYPE_Q, OSEventCnt := 0, OSEventPtr := Q_Ptr (Some m) \<rparr>))
      \<lparr> OSEventGrp := 0, OSEventTbl := replicate OS_RDY_TBL_SIZE 0 \<rparr>" "\<And>e. e \<noteq> n \<Longrightarrow> ECB s' e = ECB s e"
    by (simp_all add: s'_def s2_def OS_EventWaitListInit_def)
  have fr: "event_frame s s'" "QCB s' = (QCB s)(m := (QCB s m)\<lparr> OSQStart := start, OSQEnd := start + 4 * ucast k, OSQIn := start,
      OSQOut := start, OSQSize := k, OSQEntries := 0 \<rparr>)" "OSQFreeList s' = OSQPtr (QCB s m)"
    by (simp_all add: event_frame_def s'_def s2_def OS_EventWaitListInit_def)
      (simp_all add: set_event_def set_waiters_def set_q_def rdy_def)
  have w: "waiters n s' = bm_empty" by (simp add: waiters_def e bm_empty_def)
  then have ws: "wait_set n s' = {}" by (simp add: wait_set_def)
  have ok': "kernel_ok s'"
    using kernel_ok_fresh_event [OF ok, of n s'] ev fr(1) e(2) w by (simp add: events_free_def event_frame_def bm_empty_def)
  have "events_free (Suc n) s'"
    using ev e(2) by (auto simp: events_free_def wait_set_def waiters_def)
      (simp_all add: s'_def s2_def OS_EventWaitListInit_def set_event_def set_waiters_def set_q_def)
  moreover have "queues_free (Suc m) s'" using q fr(2,3) by (auto simp: queues_free_def)
  moreover have "is_queue n m s'"
  proof -
    have "0 < unat k" using size(1) by (simp add: word_less_unat)
    then have "ring_at (QCB s' m) 0" using size by (simp add: ring_at_def fr(2) slot_def Let_def)
    then show ?thesis using e(1) by (auto simp: is_queue_def q_of_def ring_ok_def get_ring_def event_name_unknown_def)
  qed
  moreover have "messages m s' = []" "capacity m s' = unat k"
    by (simp_all add: messages_def ring_contents_def get_ring_def capacity_def fr(2))
  ultimately show ?thesis
    using run ok' fr ws e by (intro exI [of _ s']) simp
qed

lemma queues_free_init: "queues_free 0 (init_tables s)"
proof -
  have "link_qs n t q = (if q < n then (t q)\<lparr> OSQPtr := Some (Suc q) \<rparr> else t q)" for n t q
    by (induction n) (auto simp: less_Suc_eq)
  then show ?thesis
    by (auto simp: queues_free_def init_tables_def OS_InitMisc_def OS_InitRdyList_def OS_InitTCBList_def OS_InitEventList_def
        OS_FlagInit_def OS_MemInit_def OS_QInit_def Let_def)
qed

section \<open>Creating the tasks and starting\<close>

lemma create_task_ok:
  assumes ok: "kernel_ok s" and l: "tcbs_ok s is (i # fs)" and p: "unat prio < 20"
    and free: "OSTCBPrioTbl s ! unat prio = TCB_NULL" and lvl: "OSIntNesting s = 0" "OSRunning s = OS_FALSE"
  shows "\<exists>s'. create_task im entry stk prio s = Some s' \<and> kernel_ok s' \<and> tcbs_ok s' (i # is) fs \<and> create_frame s s' \<and>
     ready_set s' = insert (unat prio) (ready_set s) \<and> OSTCBPrioTbl s' = (OSTCBPrioTbl s)[unat prio := TCB_AT i]"
proof -
  have "kernel_wf s" "20 \<in> ready_set s" using ok by (simp_all add: kernel_ok_wf)
  moreover obtain j where "task_at s 20 j" using kernel_okD(5,7) [OF ok] by blast
  then have "is \<noteq> []" using l by (fastforce simp: tcbs_ok_def)
  ultimately show ?thesis
    using create_step [of s "is" i fs prio "cpu im" entry 0 "stk_elem stk (TASK_STACKSIZE - 1)" "ucast prio" stk TASK_STACKSIZE 0 0]
      l p free lvl by (auto simp: create_task_def kernel_ok_wf)
qed

lemma create_tasks_ok:
  assumes ok: "kernel_ok s" and l: "tcbs_ok s is (i # j # k # fs)"
    and free: "OSTCBPrioTbl s ! 1 = TCB_NULL" "OSTCBPrioTbl s ! 2 = TCB_NULL" "OSTCBPrioTbl s ! 3 = TCB_NULL"
    and lvl: "OSIntNesting s = 0" "OSRunning s = OS_FALSE"
  shows "\<exists>s'. create_tasks im s = Some s' \<and> kernel_ok s' \<and> tcbs_ok s' (k # j # i # is) fs \<and> create_frame s s' \<and>
     ready_set s' = {1, 2, 3} \<union> ready_set s \<and>
     OSTCBPrioTbl s' = (OSTCBPrioTbl s)[1 := TCB_AT i, 3 := TCB_AT j, 2 := TCB_AT k]"
proof -
  have len: "length (OSTCBPrioTbl s) = 21" by (rule kernel_okD(1) [OF ok])
  obtain s1 where s1: "create_task im (failure_handler_entry im) (failure_handler_task_stk im) 1 s = Some s1" "kernel_ok s1"
    "tcbs_ok s1 (i # is) (j # k # fs)" "create_frame s s1" "ready_set s1 = insert 1 (ready_set s)"
    "OSTCBPrioTbl s1 = (OSTCBPrioTbl s)[1 := TCB_AT i]"
    using create_task_ok [OF ok l, of 1 im "failure_handler_entry im" "failure_handler_task_stk im"] free lvl by auto
  have l1: "OSIntNesting s1 = 0" "OSRunning s1 = OS_FALSE" using s1(4) lvl by (simp_all add: create_frame_def)
  obtain s2 where s2: "create_task im (throttle_control_entry im) (throttle_control_task_stk im) 3 s1 = Some s2" "kernel_ok s2"
    "tcbs_ok s2 (j # i # is) (k # fs)" "create_frame s1 s2" "ready_set s2 = insert 3 (ready_set s1)"
    "OSTCBPrioTbl s2 = (OSTCBPrioTbl s1)[3 := TCB_AT j]"
    using create_task_ok [OF s1(2,3), of 3 im "throttle_control_entry im" "throttle_control_task_stk im"] free l1 s1(6) len by auto
  have l2: "OSIntNesting s2 = 0" "OSRunning s2 = OS_FALSE" using s2(4) l1 by (simp_all add: create_frame_def)
  obtain s3 where s3: "create_task im (solenoid_entry im) (solenoid_task_stk im) 2 s2 = Some s3" "kernel_ok s3"
    "tcbs_ok s3 (k # j # i # is) fs" "create_frame s2 s3" "ready_set s3 = insert 2 (ready_set s2)"
    "OSTCBPrioTbl s3 = (OSTCBPrioTbl s2)[2 := TCB_AT k]"
    using create_task_ok [OF s2(2,3), of 2 im "solenoid_entry im" "solenoid_task_stk im"] free l2 s1(6) s2(6) len by auto
  have "create_frame s s3" using s1(4) s2(4) s3(4) by (simp add: create_frame_def)
  then show ?thesis
    using s1 s2 s3 by (intro exI [of _ s3]) (auto simp: create_tasks_def)
qed

lemma OSStart_ok:
  assumes ok: "kernel_ok s" and run: "OSRunning s = OS_FALSE"
  shows "\<exists>s'. OSStart s = Some s' \<and> kernel_ok s' \<and> highest_runs s' \<and> OSRunning s' = OS_TRUE \<and>
     s' = s\<lparr> OSRunning := OS_TRUE, OSPrioHighRdy := OSPrioHighRdy s', OSTCBHighRdy := OSTCBHighRdy s', OSTCBCur := OSTCBCur s',
            OSPrioCur := OSPrioCur s' \<rparr>"
proof -
  obtain y h where hi: "bm_highest (rdy s) = Some (y, h)" "unat h = Min (ready_set s)"
    using bm_highest_spec [OF kernel_okD(2) [OF ok] ready_not_empty [OF ok]] unfolding ready_set_def by blast
  have "Min (ready_set s) \<in> ready_set s"
    using ready_not_empty [OF ok] bm.finite_law [OF kernel_okD(2) [OF ok]] unfolding ready_set_def
    by (intro Min_in)
  then obtain i where at: "task_at s (unat h) i" using kernel_okD(5) [OF ok] hi(2) by auto
  then have h: "unat h \<le> 20" "OSTCBPrioTbl s ! unat h = TCB_AT i" by (auto simp: task_at_def)
  define s' where "s' = s\<lparr> OSPrioHighRdy := h, OSPrioCur := h, OSTCBHighRdy := TCB_AT i, OSTCBCur := TCB_AT i, OSRunning := OS_TRUE \<rparr>"
  have "OSStart s = Some s'"
    using run hi(1) h kernel_okD(1) [OF ok]
    by (simp add: OSStart_def OS_SchedNew_def OSStartHighRdy_def OSCtxSw_def s'_def)
  moreover have same: "rdy s' = rdy s" "waiters e s' = waiters e s" "ready_set s' = ready_set s" "wait_set e s' = wait_set e s"
    "task_at s' = task_at s" "ECB s' = ECB s" "TCB s' = TCB s" "OSTCBPrioTbl s' = OSTCBPrioTbl s" for e
    by (auto simp: s'_def rdy_def waiters_def ready_set_def wait_set_def task_at_def fun_eq_iff)
  moreover have "kernel_ok s'" using ok by (simp add: kernel_ok_def same task_ok_def)
  moreover have "highest_runs s'" using at hi(2) by (simp add: highest_runs_def cur_ok_def same) (simp add: s'_def)
  ultimately show ?thesis by (intro exI [of _ s']) (simp add: s'_def)
qed

text \<open>From power-up to the first task, from any contents of memory.\<close>

definition boot_prio_tbl :: "tcb_ptr list" where
  "boot_prio_tbl = (replicate 21 TCB_NULL)[20 := TCB_AT 0, 19 := TCB_AT 1]"

lemma alt_os_init_ok:
  "\<exists>s1. alt_os_init im s = Some (Some 0, Some 1, s1) \<and> kernel_ok s1 \<and> ready_set s1 = {19, 20} \<and>
     is_sem 0 s1 \<and> is_sem 1 s1 \<and> events_free 2 s1 \<and> queues_free 0 s1 \<and> tcbs_ok s1 [1, 0] (2 # 3 # 4 # [5..<12]) \<and>
     OSTCBPrioTbl s1 = boot_prio_tbl \<and> OSIntNesting s1 = 0 \<and> OSRunning s1 = OS_FALSE \<and>
     OSLockNesting s1 = 0 \<and> OSStatRdy s1 = OS_FALSE \<and> OSTickStepState s1 = OSTickStepState s \<and> (\<forall>e. wait_set e s1 = {})"
proof -
  obtain s0 where s0: "OSInit im s = Some s0" "kernel_ok s0" "tcbs_ok s0 [1, 0] [2..<12]" "ready_set s0 = {19, 20}"
    "\<forall>e. wait_set e s0 = {}" "OSRunning s0 = OS_FALSE" "OSIntNesting s0 = 0" "OSEventFreeList s0 = Some 0"
    "OSQFreeList s0 = Some 0" "QCB s0 = QCB (init_tables s)" "OSTCBPrioTbl s0 = (replicate 21 TCB_NULL)[20 := TCB_AT 0, 19 := TCB_AT 1]"
    "\<forall>e < 60. OSEventPtr (ECB s0 e) = Event_Ptr (if e < 59 then Some (Suc e) else None)"
    "OSLockNesting s0 = 0" "OSStatRdy s0 = OS_FALSE" "OSTickStepState s0 = OSTickStepState s"
    using OSInit_ok [of im s] by (elim exE conjE) (rule that; assumption)
  have ev: "events_free 0 s0" "queues_free 0 s0"
    using s0(5,8,9,10,12) queues_free_init [of s] by (auto simp: events_free_def queues_free_def)
  obtain s01 where s01: "OSSemCreate 1 s0 = Some (Some 0, s01)" "kernel_ok s01" "events_free 1 s01" "event_frame s0 s01"
    "QCB s01 = QCB s0" "OSQFreeList s01 = OSQFreeList s0" "is_sem 0 s01" "wait_set 0 s01 = {}" "\<forall>e. e \<noteq> 0 \<longrightarrow> ECB s01 e = ECB s0 e"
    using sem_create_next [OF s0(2) ev(1) _ s0(7), of 1] by auto
  have n1: "OSIntNesting s01 = 0" using s01(4) s0(7) by (simp add: event_frame_def)
  obtain s1 where s1: "OSSemCreate 1 s01 = Some (Some 1, s1)" "kernel_ok s1" "events_free 2 s1" "event_frame s01 s1"
    "QCB s1 = QCB s01" "OSQFreeList s1 = OSQFreeList s01" "is_sem 1 s1" "\<forall>e. e \<noteq> 1 \<longrightarrow> ECB s1 e = ECB s01 e"
    "wait_set 1 s1 = {}"
    using sem_create_next [OF s01(2,3) _ n1, of 1] by (auto simp: numeral_2_eq_2)
  have fr: "event_frame s0 s1" using s01(4) s1(4) by (simp add: event_frame_def)
  note fs = event_frame_sets [OF fr]
  have run: "alt_os_init im s = Some (Some 0, Some 1, s1)" using s0(1) s01(1) s1(1) by (simp add: alt_os_init_def)
  have sem0: "is_sem 0 s1" using s01(7) s1(8) by (simp add: is_sem_def)
  have q1: "queues_free 0 s1" using ev(2) s01(5,6) s1(5,6) by (simp add: queues_free_def)
  have upt: "[2..<12] = 2 # 3 # 4 # [5..<(12 :: nat)]" by (simp add: eval_nat_numeral)
  have tcbs: "tcbs_ok s1 [1, 0] (2 # 3 # 4 # [5..<12])" using s0(3) fs(3) unfolding upt by blast
  have tbl: "OSTCBPrioTbl s1 = boot_prio_tbl" using fr s0(11) by (simp only: event_frame_def boot_prio_tbl_def)
  have lvl: "OSIntNesting s1 = 0" "OSRunning s1 = OS_FALSE" "OSLockNesting s1 = 0" "OSStatRdy s1 = OS_FALSE"
    "OSTickStepState s1 = OSTickStepState s" using fr s0(6,7,13-15) by (simp_all add: event_frame_def)
  have "wait_set e s01 = {}" for e
    using s01(8,9) s0(5) by (cases "e = 0") (simp_all add: wait_set_def waiters_def)
  then have w: "wait_set e s1 = {}" for e
    using s1(8,9) by (cases "e = 1") (simp_all add: wait_set_def waiters_def)
  show ?thesis using w run s1(2,3,7) fs(2) s0(4) sem0 q1 tcbs tbl lvl by (intro exI [of _ s1]) simp
qed

lemma tasks_start:
  assumes ok: "kernel_ok s1" and rd: "ready_set s1 = {19, 20}" and tcbs: "tcbs_ok s1 [1, 0] (2 # 3 # 4 # [5..<12])"
    and tbl: "OSTCBPrioTbl s1 = boot_prio_tbl" and lvl: "OSIntNesting s1 = 0" "OSRunning s1 = OS_FALSE"
  shows "\<exists>s2 s3. create_tasks im s1 = Some s2 \<and> OSStart s2 = Some s3 \<and>
     kernel_ok s3 \<and> list_ok s3 \<and> highest_runs s3 \<and> OSPrioCur s3 = FAILURE_HANDLER_TASK_PRIORITY \<and>
     OSRunning s3 = OS_TRUE \<and> ready_set s3 = {1, 2, 3, 19, 20} \<and> ECB s3 = ECB s1 \<and> QCB s3 = QCB s1 \<and>
     OSEventFreeList s3 = OSEventFreeList s1 \<and> OSQFreeList s3 = OSQFreeList s1 \<and> OSIntNesting s3 = 0 \<and>
     OSLockNesting s3 = OSLockNesting s1 \<and> OSStatRdy s3 = OSStatRdy s1 \<and> OSTickStepState s3 = OSTickStepState s1 \<and>
     (\<forall>p i. task_at s3 p i \<longleftrightarrow> (p, i) \<in> {(1, 2), (2, 4), (3, 3), (19, 1), (20, 0)})"
proof -
  have free: "OSTCBPrioTbl s1 ! 1 = TCB_NULL" "OSTCBPrioTbl s1 ! 2 = TCB_NULL" "OSTCBPrioTbl s1 ! 3 = TCB_NULL"
    by (simp_all add: tbl boot_prio_tbl_def nth_Cons')
  obtain s2 where s2: "create_tasks im s1 = Some s2" "kernel_ok s2" "tcbs_ok s2 [4, 3, 2, 1, 0] [5..<12]" "create_frame s1 s2"
    "ready_set s2 = {1, 2, 3} \<union> ready_set s1" "OSTCBPrioTbl s2 = (OSTCBPrioTbl s1)[1 := TCB_AT 2, 3 := TCB_AT 3, 2 := TCB_AT 4]"
    using create_tasks_ok [OF ok tcbs free lvl, of im] by blast
  have "OSRunning s2 = OS_FALSE" using s2(4) lvl by (simp add: create_frame_def)
  from OSStart_ok [OF s2(2) this] obtain s3 where s3: "OSStart s2 = Some s3" "kernel_ok s3" "highest_runs s3" "OSRunning s3 = OS_TRUE"
    "s3 = s2\<lparr> OSRunning := OS_TRUE, OSPrioHighRdy := OSPrioHighRdy s3, OSTCBHighRdy := OSTCBHighRdy s3, OSTCBCur := OSTCBCur s3,
            OSPrioCur := OSPrioCur s3 \<rparr>" by blast
  have same: "rdy s3 = rdy s2" "OSTCBPrioTbl s3 = OSTCBPrioTbl s2" "TCB s3 = TCB s2" "OSTCBList s3 = OSTCBList s2"
    "OSTCBFreeList s3 = OSTCBFreeList s2" "ECB s3 = ECB s2" "QCB s3 = QCB s2" "OSEventFreeList s3 = OSEventFreeList s2"
    "OSQFreeList s3 = OSQFreeList s2" "OSIntNesting s3 = OSIntNesting s2"
    "OSLockNesting s3 = OSLockNesting s2" "OSStatRdy s3 = OSStatRdy s2" "OSTickStepState s3 = OSTickStepState s2"
    using s3(5) by (cases s2; cases s3; simp add: rdy_def)+
  have at: "task_at s3 = task_at s2" by (auto simp: task_at_def same fun_eq_iff)
  have rd3: "ready_set s3 = {1, 2, 3, 19, 20}" using s2(5) rd by (auto simp: ready_set_def same)
  have "tcbs_ok s3 [4, 3, 2, 1, 0] [5..<12]" using s2(3) unfolding tcbs_ok_def at same .
  then have lo: "list_ok s3" by (rule tcbs_list_ok [OF s3(2)])
  have "unat (OSPrioCur s3) = 1" using s3(3) by (simp add: highest_runs_def rd3)
  then have pc: "OSPrioCur s3 = FAILURE_HANDLER_TASK_PRIORITY" by (simp add: word_unat_eq_iff)
  have tasks: "task_at s3 p i \<longleftrightarrow> (p, i) \<in> {(1, 2), (2, 4), (3, 3), (19, 1), (20, 0)}" for p i
    unfolding at by (auto simp: task_at_def s2(6) tbl boot_prio_tbl_def nth_list_update)
  have ev: "ECB s3 = ECB s1" "QCB s3 = QCB s1" "OSEventFreeList s3 = OSEventFreeList s1" "OSQFreeList s3 = OSQFreeList s1"
    "OSIntNesting s3 = 0" "OSLockNesting s3 = OSLockNesting s1" "OSStatRdy s3 = OSStatRdy s1"
    "OSTickStepState s3 = OSTickStepState s1" using s2(4) lvl by (simp_all add: same create_frame_def)
  show ?thesis
    by (rule exI [of _ s2], rule exI [of _ s3], intro conjI; (fact s2 s3 lo pc rd3 ev | intro allI, rule tasks))
qed

end
