(* ===== verification/Mem_Manager.thy ===== *)
theory Mem_Manager imports Config Os_Sem begin

text \<open>
  \<open>mem_manager.c\<close>: the table of allocations, one entry for each identifier, guarded by a semaphore.
  The address that \<open>malloc\<close> returns is an argument of \<open>request_malloc\<close> (0 is null); an access outside
  the table has no result. \<open>request_malloc\<close> and \<open>free_existing_malloc\<close> start with \<open>request_lock\<close>, which
  can block the caller; then the function goes on with its body when the caller has the lock. A tag is
  used as a format string, so a tag with a conversion has no defined copy.
\<close>

section \<open>State and operations\<close>

record mem_state =
  allocation_addr :: "INT32U list"
  allocation_size :: "INT32U list"
  allocation_tag :: "string list"
  available_id_stack :: "INT32U list"
  availiable_stack_top :: INT32U
  num_active_allocations :: INT32U
  total_size :: INT32U
  lock :: event_ptr
  mem_os :: os_state

text \<open>The loops of \<open>mem_manager_init\<close> over the two tables.\<close>

fun clear_addrs :: "nat \<Rightarrow> INT32U list \<Rightarrow> INT32U list" where
  "clear_addrs 0 t = t"
| "clear_addrs (Suc i) t = (clear_addrs i t)[i := 0]"

fun number_ids :: "nat \<Rightarrow> INT32U list \<Rightarrow> INT32U list" where
  "number_ids 0 t = t"
| "number_ids (Suc i) t = (number_ids i t)[Suc i := of_nat (Suc i)]"

definition mem_manager_init :: "mem_state \<Rightarrow> mem_state option" where
  "mem_manager_init s = do {
     (e, os) \<leftarrow> OSSemCreate MAX_CONCURRENT_ACCESS (mem_os s);
     Some (s\<lparr> lock := e, mem_os := os, allocation_addr := clear_addrs MAX_ALLOCATION_COUNT (allocation_addr s),
              available_id_stack := number_ids MAX_ALLOCATION_COUNT (available_id_stack s) \<rparr>)
   }"

text \<open>\<open>request_lock\<close> up to the point where the caller has the lock or is blocked; \<open>err\<close> is the
  uninitialised error variable.\<close>

definition request_lock :: "INT8U \<Rightarrow> mem_state \<Rightarrow> (bool \<times> mem_state) option" where
  "request_lock err s = do {
     (returned, perr, os) \<leftarrow> OSSemPend_enter (lock s) LOCK_TIMEOUT (Some err) (mem_os s);
     Some (returned, s\<lparr> mem_os := os \<rparr>)
   }"

definition release_lock :: "mem_state \<Rightarrow> mem_state option" where
  "release_lock s = do { (err, os) \<leftarrow> OSSemPost (lock s) (mem_os s); Some (s\<lparr> mem_os := os \<rparr>) }"

definition get_num_active_allocations :: "mem_state \<Rightarrow> INT32U" where
  "get_num_active_allocations s = num_active_allocations s"

definition get_new_allocation_id :: "mem_state \<Rightarrow> (INT32U \<times> mem_state) option" where
  "get_new_allocation_id s =
     (if availiable_stack_top s = 0 then Some (NOT 0, s)
      else do {
        id \<leftarrow> array_get (available_id_stack s) (unat (availiable_stack_top s));
        Some (id, s\<lparr> availiable_stack_top := availiable_stack_top s - 1 \<rparr>)
      })"

definition snprintf_tag :: "string \<Rightarrow> string option" where
  "snprintf_tag tag = (if CHR ''%'' \<in> set tag then None else Some (take (MAX_ALLOCATOR_TAG_SIZE - 1) tag))"

text \<open>The rest of \<open>request_malloc\<close> once the caller has the lock.\<close>

definition request_malloc_body ::
  "INT32U \<Rightarrow> INT32U \<Rightarrow> INT32U \<Rightarrow> string \<Rightarrow> mem_state \<Rightarrow> (INT32U \<times> mem_state) option" where
  "request_malloc_body ptr allocation_id size_bytes tag s =
     (if ptr = 0 then Some (0, s)
      else
        let id = unat (allocation_id - 1) in do {
          addr \<leftarrow> array_get (allocation_addr s) id;
          if addr \<noteq> 0 then Some (0, s)
          else do {
            let s = s\<lparr> num_active_allocations := num_active_allocations s + 1,
                       allocation_addr := (allocation_addr s)[id := ptr],
                       allocation_size := (allocation_size s)[id := size_bytes] \<rparr>;
            t \<leftarrow> snprintf_tag tag;
            let s = s\<lparr> allocation_tag := (allocation_tag s)[id := t], total_size := total_size s + size_bytes \<rparr>;
            s \<leftarrow> release_lock s;
            Some (ptr, s)
          }
        })"

text \<open>\<open>None\<close> as the first component: the caller is blocked.\<close>

definition request_malloc ::
  "INT8U \<Rightarrow> INT32U \<Rightarrow> INT32U \<Rightarrow> INT32U \<Rightarrow> string \<Rightarrow> mem_state \<Rightarrow> (INT32U option \<times> mem_state) option" where
  "request_malloc err ptr allocation_id size_bytes tag s = do {
     (returned, s) \<leftarrow> request_lock err s;
     if returned then do { (p, s) \<leftarrow> request_malloc_body ptr allocation_id size_bytes tag s; Some (Some p, s) }
     else Some (None, s)
   }"

definition free_existing_malloc_body :: "INT32U \<Rightarrow> mem_state \<Rightarrow> mem_state option" where
  "free_existing_malloc_body allocation_id s =
     (if allocation_id = 0 \<or> allocation_id > MAX_ALLOCATION_COUNT then Some s
      else
        let id = unat (allocation_id - 1) in do {
          addr \<leftarrow> array_get (allocation_addr s) id;
          if addr = 0 then Some s
          else do {
            size \<leftarrow> array_get (allocation_size s) id;
            t \<leftarrow> snprintf_tag '' '';
            release_lock (s\<lparr> num_active_allocations := num_active_allocations s - 1,
                            total_size := total_size s - size,
                            allocation_size := (allocation_size s)[id := 0],
                            allocation_tag := (allocation_tag s)[id := t],
                            allocation_addr := (allocation_addr s)[id := 0] \<rparr>)
          }
        })"

definition free_existing_malloc :: "INT8U \<Rightarrow> INT32U \<Rightarrow> mem_state \<Rightarrow> (bool \<times> mem_state) option" where
  "free_existing_malloc err allocation_id s = do {
     (returned, s) \<leftarrow> request_lock err s;
     if returned then do { s \<leftarrow> free_existing_malloc_body allocation_id s; Some (True, s) }
     else Some (False, s)
   }"

text \<open>\<open>print_malloc_status\<close>: the lines it prints, one for each allocation it finds.\<close>

definition print_malloc_status :: "mem_state \<Rightarrow> (INT32U \<times> INT32U \<times> string \<times> INT32U) list" where
  "print_malloc_status s =
     (let end = (if availiable_stack_top s = 0 then 0 else unat (availiable_stack_top s - 1)) in
      map (\<lambda>i. (of_nat i, allocation_addr s ! (i - 1), allocation_tag s ! (i - 1), allocation_size s ! (i - 1)))
        (filter (\<lambda>i. allocation_addr s ! (i - 1) \<noteq> 0) (rev [Suc end..<Suc MAX_ALLOCATION_COUNT])))"

section \<open>Accounting\<close>

text \<open>The counters agree with the tables; a free entry has size 0.\<close>

definition mem_ok :: "mem_state \<Rightarrow> bool" where
  "mem_ok s \<longleftrightarrow> length (allocation_addr s) = 32 \<and> length (allocation_size s) = 32 \<and>
     length (allocation_tag s) = 32 \<and>
     (\<forall>i < 32. allocation_addr s ! i = 0 \<longrightarrow> allocation_size s ! i = 0) \<and>
     num_active_allocations s = of_nat (card {i. i < 32 \<and> allocation_addr s ! i \<noteq> 0}) \<and>
     total_size s = sum_list (allocation_size s)"

lemma mem_ok_os [simp]: "mem_ok (s\<lparr> mem_os := os \<rparr>) = mem_ok s"
  by (simp add: mem_ok_def)

lemma sum_list_set: "i < length xs \<Longrightarrow> sum_list (xs[i := v]) = sum_list xs - xs ! i + (v :: INT32U)"
  by (induction xs arbitrary: i) (auto split: nat.splits)

lemma card_set:
  assumes "i < n" "length xs = n"
  shows "a \<noteq> 0 \<Longrightarrow> xs ! i = (0 :: INT32U) \<Longrightarrow>
      card {j. j < n \<and> xs[i := a] ! j \<noteq> 0} = Suc (card {j. j < n \<and> xs ! j \<noteq> 0})"
    and "xs ! i \<noteq> 0 \<Longrightarrow> card {j. j < n \<and> xs ! j \<noteq> 0} = Suc (card {j. j < n \<and> xs[i := 0] ! j \<noteq> 0})"
proof -
  show "card {j. j < n \<and> xs[i := a] ! j \<noteq> 0} = Suc (card {j. j < n \<and> xs ! j \<noteq> 0})" if "a \<noteq> 0" "xs ! i = 0"
  proof -
    have "{j. j < n \<and> xs[i := a] ! j \<noteq> 0} = insert i {j. j < n \<and> xs ! j \<noteq> 0}"
      using assms that by (auto simp: nth_list_update)
    then show ?thesis using that by simp
  qed
  show "card {j. j < n \<and> xs ! j \<noteq> 0} = Suc (card {j. j < n \<and> xs[i := 0] ! j \<noteq> 0})" if "xs ! i \<noteq> 0"
  proof -
    have "{j. j < n \<and> xs ! j \<noteq> 0} = insert i {j. j < n \<and> xs[i := 0] ! j \<noteq> 0}"
      using assms that by (auto simp: nth_list_update)
    then show ?thesis using assms by (simp add: nth_list_update)
  qed
qed

lemma mem_ok_alloc:
  assumes "mem_ok s" "i < 32" "allocation_addr s ! i = 0" "p \<noteq> 0"
  shows "mem_ok (s\<lparr> num_active_allocations := num_active_allocations s + 1,
      allocation_addr := (allocation_addr s)[i := p], allocation_size := (allocation_size s)[i := n],
      allocation_tag := (allocation_tag s)[i := t], total_size := total_size s + n \<rparr>)"
  using assms card_set(1) [of i 32 "allocation_addr s" p]
  by (auto simp: mem_ok_def sum_list_set nth_list_update)

lemma mem_ok_free:
  assumes "mem_ok s" "i < 32" "allocation_addr s ! i \<noteq> 0"
  shows "mem_ok (s\<lparr> num_active_allocations := num_active_allocations s - 1,
      total_size := total_size s - allocation_size s ! i, allocation_size := (allocation_size s)[i := 0],
      allocation_tag := (allocation_tag s)[i := t], allocation_addr := (allocation_addr s)[i := 0] \<rparr>)"
  using assms card_set(2) [of i 32 "allocation_addr s"]
  by (auto simp: mem_ok_def sum_list_set nth_list_update)

lemma release_lock_ok:
  assumes "lock s = Some e" "is_sem e (mem_os s)" "kernel_ok (mem_os s)" "cur_ok (mem_os s)"
  obtains os where "release_lock s = Some (s\<lparr> mem_os := os \<rparr>)" "kernel_ok os" "cur_ok os"
    "sem_abs e os = spec_post (sem_abs e (mem_os s))"
proof -
  obtain err os where os: "OSSemPost (Some e) (mem_os s) = Some (err, os)" "kernel_ok os" "cur_ok os"
    "sem_abs e os = spec_post (sem_abs e (mem_os s))"
    using sem_post_ok [OF assms(3,4,2)] by blast
  show thesis by (rule that [OF _ os(2-4)]) (simp add: release_lock_def assms(1) os(1))
qed

lemma entry_index:
  assumes "0 < aid" "aid \<le> (32 :: INT32U)"
  shows "unat (aid - 1) = unat aid - 1" "unat (aid - 1) < 32"
proof -
  have "unat aid \<le> 32" "0 < unat aid" using assms by (simp_all add: word_le_unat word_less_unat)
  moreover have "1 \<le> aid" using assms(1) by (simp add: word_le_unat word_less_unat)
  then have "unat (aid - 1) = unat aid - 1" by (simp add: unat_sub_word)
  ultimately show "unat (aid - 1) = unat aid - 1" "unat (aid - 1) < 32" by auto
qed

text \<open>C40: A request made with the lock held either succeeds, when \<open>malloc\<close> returned memory and the
  identifier has none yet: the memory is handed out and recorded, the counters grow by one
  allocation and its size, and the lock is released; or it returns null and changes nothing at all,
  the lock included. In both cases the counters agree with the table.\<close>

theorem request_malloc_accounting:
  assumes ok: "mem_ok s" and id: "0 < aid" "aid \<le> MAX_ALLOCATION_COUNT" and tag: "CHR ''%'' \<notin> set tag"
    and lck: "lock s = Some e" "is_sem e (mem_os s)" "kernel_ok (mem_os s)" "cur_ok (mem_os s)"
  shows "\<exists>p s'. request_malloc_body ptr aid n tag s = Some (p, s') \<and> mem_ok s' \<and>
     (if ptr \<noteq> 0 \<and> allocation_addr s ! (unat aid - 1) = 0
      then p = ptr \<and> allocation_addr s' = (allocation_addr s)[unat aid - 1 := ptr] \<and>
        num_active_allocations s' = num_active_allocations s + 1 \<and> total_size s' = total_size s + n \<and>
        kernel_ok (mem_os s') \<and> sem_abs e (mem_os s') = spec_post (sem_abs e (mem_os s))
      else p = 0 \<and> s' = s)"
proof -
  have i: "unat (aid - 1) = unat aid - 1" "unat aid - 1 < 32" using entry_index [OF id(1)] id(2) by auto
  have len: "length (allocation_addr s) = 32" using ok by (simp add: mem_ok_def)
  show ?thesis
  proof (cases "ptr \<noteq> 0 \<and> allocation_addr s ! (unat aid - 1) = 0")
    case True
    define s1 where "s1 = s\<lparr> num_active_allocations := num_active_allocations s + 1,
        allocation_addr := (allocation_addr s)[unat aid - 1 := ptr],
        allocation_size := (allocation_size s)[unat aid - 1 := n],
        allocation_tag := (allocation_tag s)[unat aid - 1 := take 127 tag], total_size := total_size s + n \<rparr>"
    have ok1: "mem_ok s1" unfolding s1_def using ok i(2) True by (intro mem_ok_alloc) auto
    obtain os where os: "release_lock s1 = Some (s1\<lparr> mem_os := os \<rparr>)" "kernel_ok os"
      "sem_abs e os = spec_post (sem_abs e (mem_os s1))"
      using release_lock_ok [of s1 e] lck by (auto simp: s1_def)
    have "request_malloc_body ptr aid n tag s = Some (ptr, s1\<lparr> mem_os := os \<rparr>)"
      using True os(1) i len tag by (simp add: request_malloc_body_def snprintf_tag_def s1_def Let_def)
    then show ?thesis using True ok1 os by (simp add: s1_def)
  next
    case False
    then have "request_malloc_body ptr aid n tag s = Some (0, s)"
      using i len by (auto simp: request_malloc_body_def)
    then show ?thesis using False ok by auto
  qed
qed

definition example_mem :: mem_state where
  "example_mem = \<lparr> allocation_addr = replicate 32 0, allocation_size = replicate 32 0,
     allocation_tag = replicate 32 [], available_id_stack = [], availiable_stack_top = 0,
     num_active_allocations = 0, total_size = 0, lock = Some 2, mem_os = example_os \<rparr>"

lemma example_mem_ok: "mem_ok example_mem"
proof -
  have none: "{i. i < 32 \<and> replicate 32 (0 :: INT32U) ! i \<noteq> 0} = {}" by auto
  show ?thesis by (simp add: mem_ok_def example_mem_def sum_list_replicate none)
qed

lemma example_mem_lock: "lock example_mem = Some 2" "is_sem 2 (mem_os example_mem)"
  "kernel_ok (mem_os example_mem)" "cur_ok (mem_os example_mem)"
  using example_kernel_ok example_cur_ok by (simp_all add: example_mem_def is_sem_def example_ecbs_def)

theorem request_malloc_accounting_witness:
  "\<exists>s'. request_malloc_body 4096 7 20 ''adc'' example_mem = Some (4096, s') \<and> total_size s' = 20"
proof -
  have "(0 :: INT32U) < 7" "(7 :: INT32U) \<le> MAX_ALLOCATION_COUNT" "CHR ''%'' \<notin> set ''adc''" by simp_all
  from request_malloc_accounting [OF example_mem_ok this example_mem_lock, of 4096 20]
  show ?thesis by (auto simp: example_mem_def)
qed

text \<open>A rejected request loses the lock: when the lock is free and the identifier already has
  memory, \<open>request_malloc\<close> takes the lock, returns null and does not give it back, so that the next
  caller of \<open>request_lock\<close> blocks, although no one holds the table.\<close>

theorem rejected_request_keeps_lock:
  assumes id: "0 < aid" "aid \<le> MAX_ALLOCATION_COUNT" and len: "length (allocation_addr s) = 32"
    and used: "allocation_addr s ! (unat aid - 1) \<noteq> 0"
    and lck: "lock s = Some e" "is_sem e (mem_os s)" "sem_abs e (mem_os s) = (1, {})" "kernel_ok (mem_os s)"
    and run: "running_task (mem_os s) p i" "p \<noteq> OS_LOWEST_PRIO" "OSIntNesting (mem_os s) = 0"
      "OSLockNesting (mem_os s) = 0"
  shows "\<exists>s' s''. request_malloc err ptr aid n tag s = Some (Some 0, s') \<and>
     sem_abs e (mem_os s') = (0, {}) \<and> allocation_addr s' = allocation_addr s \<and>
     request_lock err' s' = Some (False, s'') \<and> p \<notin> ready_set (mem_os s'')"
proof -
  have i: "unat (aid - 1) = unat aid - 1" "unat aid - 1 < 32" using entry_index [OF id(1)] id(2) by auto
  have c: "0 < OSEventCnt (ECB (mem_os s) e)" using lck(3) by (auto simp: sem_abs_def word_gt_0)
  obtain os pe where p1: "OSSemPend_enter (Some e) 0 (Some err) (mem_os s) = Some (True, pe, os)"
    "kernel_ok os" "sem_abs e os = spec_pend p (1, {})" "running_task os p i"
    using sem_pend_ok [OF lck(4) run lck(2), of 0 err] lck(3) c by auto
  have same: "is_sem e os" "OSIntNesting os = 0" "OSLockNesting os = 0"
    using p1(1) c lck(2) run by (auto simp: OSSemPend_enter_def is_sem_def set_event_def)
  define s' where "s' = s\<lparr> mem_os := os \<rparr>"
  have r: "request_malloc err ptr aid n tag s = Some (Some 0, s')"
    using p1(1) lck(1) i len used
    by (auto simp: request_malloc_def request_lock_def request_malloc_body_def s'_def)
  have abs: "sem_abs e os = (0, {})" using p1(3) by simp
  then have c0: "\<not> 0 < OSEventCnt (ECB os e)" by (auto simp: sem_abs_def unat_eq_zero)
  obtain ret pe' os' where p2: "OSSemPend_enter (Some e) 0 (Some err') os = Some (ret, pe', os')" "\<not> ret"
    "p \<notin> ready_set os'"
    using sem_pend_ok [OF p1(2,4) run(2) same(2,3,1), of 0 err'] c0 by auto
  have "request_lock err' s' = Some (False, s'\<lparr> mem_os := os' \<rparr>)"
    using p2 lck(1) by (simp add: request_lock_def s'_def)
  with r abs p2(3) show ?thesis by (auto simp: s'_def)
qed

theorem rejected_request_keeps_lock_witness:
  "\<exists>s' s''. request_malloc 0 4096 1 20 ''x'' (example_mem\<lparr> allocation_addr := replicate 32 4 \<rparr>) = Some (Some 0, s') \<and>
     request_lock 0 s' = Some (False, s'') \<and> 6 \<notin> ready_set (mem_os s'')"
proof -
  let ?s = "example_mem\<lparr> allocation_addr := replicate 32 4 \<rparr>"
  have a: "lock ?s = Some 2" "is_sem 2 (mem_os ?s)" "sem_abs 2 (mem_os ?s) = (1, {})" "kernel_ok (mem_os ?s)"
    "running_task (mem_os ?s) 6 2" "OSIntNesting (mem_os ?s) = 0" "OSLockNesting (mem_os ?s) = 0"
    using example_mem_lock example_running
    by (simp_all add: example_mem_def sem_abs_def example_ecbs_def example_sets)
  have "(0 :: INT32U) < 1" "(1 :: INT32U) \<le> MAX_ALLOCATION_COUNT" "length (allocation_addr ?s) = 32"
    "allocation_addr ?s ! (unat (1 :: INT32U) - 1) \<noteq> 0" "(6 :: nat) \<noteq> OS_LOWEST_PRIO" by simp_all
  from rejected_request_keeps_lock [OF this(1-4) a(1-5) this(5) a(6,7), of 0 4096 20 "''x''" 0]
  show ?thesis by blast
qed

section \<open>Identifiers\<close>

fun new_ids :: "nat \<Rightarrow> mem_state \<Rightarrow> (INT32U list \<times> mem_state) option" where
  "new_ids 0 s = Some ([], s)"
| "new_ids (Suc n) s = do {
     (i, s) \<leftarrow> get_new_allocation_id s;
     (ids, s) \<leftarrow> new_ids n s;
     Some (i # ids, s)
   }"

lemma length_number_ids [simp]: "length (number_ids n t) = length t"
  by (induction n) simp_all

lemma number_ids_nth:
  "0 < k \<Longrightarrow> k \<le> n \<Longrightarrow> n < length t \<Longrightarrow> number_ids n t ! k = of_nat k"
  by (induction n) (auto simp: nth_list_update le_Suc_eq)

lemma new_ids_down:
  assumes "k \<le> 32" "availiable_stack_top s = of_nat k" "length (available_id_stack s) = 33"
    and "\<And>j. 0 < j \<Longrightarrow> j \<le> 32 \<Longrightarrow> available_id_stack s ! j = of_nat j"
  shows "new_ids (k + 1) s = Some (map of_nat (rev [1..<Suc k]) @ [NOT 0], s\<lparr> availiable_stack_top := 0 \<rparr>)"
  using assms
proof (induction k arbitrary: s)
  case (Suc k)
  have u: "unat (of_nat (Suc k) :: INT32U) = Suc k"
    using Suc.prems(1) by (simp add: unat_of_nat del: of_nat_Suc)
  then have nz: "(of_nat (Suc k) :: INT32U) \<noteq> 0" by (metis unat_0 nat.distinct(1))
  have "get_new_allocation_id s = Some (of_nat (Suc k), s\<lparr> availiable_stack_top := of_nat k \<rparr>)"
    using Suc.prems u nz by (simp add: get_new_allocation_id_def del: of_nat_Suc) simp
  moreover have "new_ids (k + 1) (s\<lparr> availiable_stack_top := of_nat k \<rparr>) =
      Some (map of_nat (rev [1..<Suc k]) @ [NOT 0], s\<lparr> availiable_stack_top := 0 \<rparr>)"
    using Suc.IH [of "s\<lparr> availiable_stack_top := of_nat k \<rparr>"] Suc.prems by simp
  moreover have "new_ids (Suc k + 1) s = do { (i, s) \<leftarrow> get_new_allocation_id s; (ids, s) \<leftarrow> new_ids (k + 1) s; Some (i # ids, s) }"
    by (metis add_Suc new_ids.simps(2))
  moreover have "rev [1..<Suc (Suc k)] = Suc k # rev [1..<Suc k]" by simp
  ultimately show ?case by (simp del: of_nat_Suc upt.simps new_ids.simps)
qed (simp add: get_new_allocation_id_def)

text \<open>After the initialisation the manager hands out the identifiers 32 down to 1, all different and
  all valid table entries, and then, for ever, the error value.\<close>

lemma new_ids_distinct_then_error:
  assumes "mem_manager_init s = Some s'" and "availiable_stack_top s = MAX_ALLOCATION_COUNT"
    and "length (available_id_stack s) = 33"
  shows "\<exists>ids s''. new_ids 33 s' = Some (ids @ [NOT 0], s'') \<and> distinct ids \<and>
     set ids = of_nat ` {1..32} \<and> get_new_allocation_id s'' = Some (NOT 0, s'')"
proof -
  have s': "availiable_stack_top s' = of_nat 32" "available_id_stack s' = number_ids 32 (available_id_stack s)"
    using assms(1,2) by (auto simp: mem_manager_init_def split: bind_splits)
  define ids :: "INT32U list" where "ids = map of_nat (rev [1..<33])"
  have "new_ids 33 s' = Some (ids @ [NOT 0], s'\<lparr> availiable_stack_top := 0 \<rparr>)"
    using new_ids_down [of 32 s'] s' assms(3) number_ids_nth [of _ 32] by (simp add: ids_def)
  moreover have "inj_on (of_nat :: nat \<Rightarrow> INT32U) (set (rev [1..<33]))"
  proof (rule inj_onI)
    fix a b assume "a \<in> set (rev [1..<33])" "b \<in> set (rev [1..<33])" "(of_nat a :: INT32U) = of_nat b"
    then have "unat (of_nat a :: INT32U) = unat (of_nat b :: INT32U)" "a < 33" "b < 33" by auto
    then show "a = b" by (simp add: unat_of_nat)
  qed
  then have "distinct ids" unfolding ids_def by (simp add: distinct_map del: upt.simps)
  moreover have "set ids = of_nat ` {1..32}" by (auto simp: ids_def simp del: upt.simps)
  ultimately show ?thesis by (auto simp: get_new_allocation_id_def)
qed

lemma new_ids_distinct_then_error_witness:
  "\<exists>s' ids s''. mem_manager_init (example_mem\<lparr> availiable_stack_top := 32, available_id_stack := replicate 33 0 \<rparr>) = Some s' \<and>
     new_ids 33 s' = Some (ids @ [NOT 0], s'') \<and> distinct ids"
proof -
  let ?s = "example_mem\<lparr> availiable_stack_top := 32, available_id_stack := replicate 33 0 \<rparr>"
  obtain s' where s': "mem_manager_init ?s = Some s'"
    by (auto simp: mem_manager_init_def example_mem_def OSSemCreate_def alloc_event_def example_os_def)
  from new_ids_distinct_then_error [OF s'] show ?thesis using s' by auto
qed

end
