(* ===== verification/App_Start.thy ===== *)
theory App_Start imports Os_Start Mem_Manager Interrupts begin

text \<open>
  Start-up of the application: \<open>alt_main\<close> of the HAL with the system clock's driver (\<open>alt_main.c\<close>, \<open>alt_sys_init.c\<close>),
  \<open>main\<close> (\<open>main.c\<close>) and the code of \<open>throttle_control_task\<close> and
  \<open>solenoid_task\<close> before their loops, which create the events, the PWM modules and the alarm. The
  linker's addresses of the queues' buffers are the record \<open>buffers\<close>; the blocks \<open>malloc\<close> returns are
  arguments. The initialisation of the other
  devices, opening the A/D converter and the unit tests are left out. A task function that returns gives \<open>False\<close>.
\<close>

section \<open>Operations\<close>

record buffers =
  failure_code_buf :: INT32U
  shift_cmd_q_buf :: INT32U
  solenoid_btn_buf :: INT32U
  shift_matching_result_buf :: INT32U

definition sem_create :: "INT16U \<Rightarrow> app_state \<Rightarrow> (event_ptr \<times> app_state) option" where
  "sem_create cnt s = do { (e, k) \<leftarrow> OSSemCreate cnt (os s); Some (e, s\<lparr> os := k \<rparr>) }"

definition q_create :: "INT32U \<Rightarrow> INT16U \<Rightarrow> app_state \<Rightarrow> (event_ptr \<times> app_state) option" where
  "q_create start n s = do { (e, k) \<leftarrow> OSQCreate start n (os s); Some (e, s\<lparr> os := k \<rparr>) }"

text \<open>\<open>Test_pwm_gen\<close> of the test bench, which \<open>main\<close> calls once.\<close>

definition Test_pwm_gen :: "pwm_gen_module option \<Rightarrow> INT32U \<Rightarrow> INT16U \<Rightarrow> app_state \<Rightarrow> app_state option" where
  "Test_pwm_gen blk p d_cycle s = do {
     (m, i) \<leftarrow> get_new_pwm_module blk PWM_GENERATOR_TEST_AVALON_SLAVE_PERIOD_BASE
                 PWM_GENERATOR_TEST_AVALON_SLAVE_DUTY_BASE PWM_GENERATOR_TEST_AVALON_SLAVE_CONTROL_BASE p d_cycle (io s);
     let (m, i) = enable_pwm_output (m, i);
     Some (s\<lparr> io := i \<rparr>)
   }"

definition main :: "app_image \<Rightarrow> buffers \<Rightarrow> pwm_gen_module option \<Rightarrow> mem_state \<Rightarrow> app_state \<Rightarrow> (mem_state \<times> app_state) option" where
  "main im bufs blk ms s = do {
     (e, s) \<leftarrow> q_create (failure_code_buf bufs) FAILURE_HANDLER_Q_SIZE_ELEMENTS s;
     let s = s\<lparr> failure_code_q := e \<rparr>;
     s \<leftarrow> Test_pwm_gen blk 2500 340 s;
     let s = s\<lparr> tables := throttle_data_init (tables s) \<rparr>;
     ms \<leftarrow> mem_manager_init (ms\<lparr> mem_os := os s \<rparr>);
     k \<leftarrow> create_tasks im (mem_os ms);
     k \<leftarrow> OSStart k;
     Some (ms, s\<lparr> os := k \<rparr>)
   }"

text \<open>The system clock: its rate in ticks per second, the timer's control register (interrupt, continuous, start) and its
  handler. \<open>ALTERA_AVALON_TIMER_FREQ\<close> gives 1000 for a period of 1 ms.\<close>

definition SYS_CLK_TIMER_TICKS_PER_SEC :: INT32U where "SYS_CLK_TIMER_TICKS_PER_SEC = 1000"

definition alt_sysclk_init :: "INT32U \<Rightarrow> 'a alarm_state_scheme \<Rightarrow> int \<times> 'a alarm_state_scheme" where
  "alt_sysclk_init n s = (if tick_rate s = 0 then (0, s\<lparr> tick_rate := n \<rparr>) else (-1, s))"

definition alt_avalon_timer_sc_init ::
  "INT32U \<Rightarrow> INT32U \<Rightarrow> INT32U \<Rightarrow> isr irq_unit \<Rightarrow> app_state \<Rightarrow> isr irq_unit \<times> app_state" where
  "alt_avalon_timer_sc_init base irq freq u s =
     (let s = snd (alt_sysclk_init freq s);
          s = s\<lparr> io := io_write32 (base + 4) (0x1 OR 0x2 OR 0x4) (io s) \<rparr> in
      (snd (alt_irq_register irq base (Some Alt_Avalon_Timer_Sc_Irq) u), s))"

text \<open>The part of \<open>alt_sys_init\<close> that starts the system clock. The rest of it is not composed into the start-up here:
  the driver of the JTAG UART is in the theory \<open>Jtag_Uart\<close>, with a state of its own; in the program its
  initialisation also takes the next two event blocks, an alarm and interrupt line 1. That is why \<open>main\<close> is treated below
  for any number of event blocks in use.\<close>

definition alt_sys_init_clock :: "isr irq_unit \<Rightarrow> app_state \<Rightarrow> isr irq_unit \<times> app_state" where
  "alt_sys_init_clock u s = alt_avalon_timer_sc_init SYS_CLK_TIMER_BASE SYS_CLK_TIMER_IRQ SYS_CLK_TIMER_TICKS_PER_SEC u s"

definition alt_main ::
  "app_image \<Rightarrow> buffers \<Rightarrow> pwm_gen_module option \<Rightarrow> isr irq_unit \<Rightarrow> mem_state \<Rightarrow> app_state \<Rightarrow> (isr irq_unit \<times> mem_state \<times> app_state) option" where
  "alt_main im bufs blk u ms s = do {
     let u = alt_irq_init u;
     (alt_envsem, alt_heapsem, k) \<leftarrow> alt_os_init im (os s);
     let s = s\<lparr> os := k \<rparr>;
     (alt_fd_list_lock, s) \<leftarrow> sem_create 1 s;
     let (u, s) = alt_sys_init_clock u s;
     (ms, s) \<leftarrow> main im bufs blk ms s;
     Some (u, ms, s)
   }"

definition throttle_task_init ::
  "buffers \<Rightarrow> pwm_gen_module option \<Rightarrow> pwm_gen_module option \<Rightarrow> pwm_gen_module option \<Rightarrow> app_state \<Rightarrow> (bool \<times> app_state) option" where
  "throttle_task_init bufs b_sound b_open b_close s = do {
     let s = s\<lparr> failure_msg_q := get_failure_msg_q s, matching_result_q := get_rpm_matching_result_q s \<rparr>;
     (e, s) \<leftarrow> sem_create SEM_FLAG_NO_ERROR s;
     let s = s\<lparr> apps_failure_flag := e \<rparr>;
     (e, s) \<leftarrow> sem_create SEM_FLAG_NO_ERROR s;
     let s = s\<lparr> tps_failure_flag := e \<rparr>;
     (e, s) \<leftarrow> sem_create SEM_FLAG_NO_ERROR s;
     let s = s\<lparr> motor_failure_flag := e \<rparr>;
     (e, s) \<leftarrow> sem_create SEM_FLAG_NO_ERROR s;
     let s = s\<lparr> throttle_task_external_failure_flag := e \<rparr>;
     (e, s) \<leftarrow> sem_create SEM_FLAG_ERROR_UNRESOLVED s;
     let s = s\<lparr> throttle_task_failure_resolved_flag := e \<rparr>;
     (e, s) \<leftarrow> sem_create SHIFT_MATCHING_IN_PROGRESS s;
     let s = s\<lparr> exit_shift_matching_flag := e \<rparr>;
     let s = set_thr (\<lambda>t. t\<lparr> watchdog_throttle_position := None, watchdog_rpm_matching := None, expected_rpm := 0,
               expected_tps_reading := 0, slip_control_mode := FALSE, last_apps_1_reading := 0,
               rpm_matching_delay_counter := 0 \<rparr>) s;
     (q, s) \<leftarrow> q_create (shift_cmd_q_buf bufs) MOTOR_CMD_Q_SIZE_ELEMENTS s;
     let s = s\<lparr> shift_matching_q := q \<rparr>;
     if q = None then Some (False, s)
     else do {
       (m1, i) \<leftarrow> get_new_pwm_module b_sound PWM_GENERATOR_ENGINE_SOUND_OUT_AVALON_SLAVE_PERIOD_BASE
                    PWM_GENERATOR_ENGINE_SOUND_OUT_AVALON_SLAVE_DUTY_BASE
                    PWM_GENERATOR_ENGINE_SOUND_OUT_AVALON_SLAVE_CONTROL_BASE ENGINE_SOUND_PERIOD_TICKS
                    PWM_DUTY_CYCLE_HALF (io s);
       (m2, i) \<leftarrow> get_new_pwm_module b_open PWM_GENERATOR_THROTTLE_OPEN_AVALON_SLAVE_PERIOD_BASE
                    PWM_GENERATOR_THROTTLE_OPEN_AVALON_SLAVE_DUTY_BASE
                    PWM_GENERATOR_THROTTLE_OPEN_AVALON_SLAVE_CONTROL_BASE MOTOR_PWM_PERIOD_TICKS
                    MOTOR_PWM_DUTY_CYCLE_FULLY_CLOSE i;
       (m3, i) \<leftarrow> get_new_pwm_module b_close PWM_GENERATOR_THROTTLE_CLOSE_AVALON_SLAVE_PERIOD_BASE
                    PWM_GENERATOR_THROTTLE_CLOSE_AVALON_SLAVE_DUTY_BASE
                    PWM_GENERATOR_THROTTLE_CLOSE_AVALON_SLAVE_CONTROL_BASE MOTOR_PWM_PERIOD_TICKS PWM_DUTY_CYCLE_HIGH i;
       let s = s\<lparr> io := i \<rparr>;
       let s = set_thr (\<lambda>t. t\<lparr> pwm_engine_sound := m1, pwm_throttle_open := m2, pwm_throttle_close := m3,
                 curr_duty_cycle := MOTOR_PWM_DUTY_CYCLE_FULLY_CLOSE \<rparr>) s;
       Some (True, go_throttle T_Loop s)
     }
   }"

definition solenoid_task_init ::
  "buffers \<Rightarrow> (nat set \<Rightarrow> nat) \<Rightarrow> isr irq_unit \<Rightarrow> app_state \<Rightarrow> (isr irq_unit \<times> app_state) option" where
  "solenoid_task_init bufs malloc u s = do {
     (e, s) \<leftarrow> q_create (solenoid_btn_buf bufs) SOLENOID_Q_SIZE_ELEMENTS s;
     let s = s\<lparr> btn_input_q := e \<rparr>;
     (e, s) \<leftarrow> sem_create SEM_FLAG_NO_ERROR s;
     let s = s\<lparr> solenoid_external_failure_flag := e \<rparr>;
     (e, s) \<leftarrow> sem_create SEM_FLAG_ERROR_UNRESOLVED s;
     let s = s\<lparr> solenoid_failure_resolved_flag := e \<rparr>;
     (e, s) \<leftarrow> q_create (shift_matching_result_buf bufs) SOLENOID_Q_SIZE_ELEMENTS s;
     let s = s\<lparr> rpm_matching_result_q := e \<rparr>;
     let s = set_sol (\<lambda>v. v\<lparr> s_shift_matching_q := None, curr_gear := 1 \<rparr>) s;
     let s = s\<lparr> io := output_curr_gear (curr_gear (sol s)) (io s) \<rparr>;
     let s = set_irq_mask (BUTTON_INPUT_SHIFT_UP OR BUTTON_INPUT_SHIFT_DOWN) s;
     let s = clear_edge_cap s;
     let u = snd (alt_irq_register BUTTONS_IRQ 0 (Some Isr_Btn) u);
     let (a, s) = malloc_alarm malloc s;
     Some (u, go_solenoid S_Loop (set_sol (\<lambda>v. v\<lparr> shift_alarm := a \<rparr>) s))
   }"

section \<open>A list of creations\<close>

datatype creation = New_Sem INT16U | New_Q INT32U INT16U

fun create_list :: "creation list \<Rightarrow> os_state \<Rightarrow> (event_ptr list \<times> os_state) option" where
  "create_list [] k = Some ([], k)"
| "create_list (New_Sem c # cs) k = do { (e, k) \<leftarrow> OSSemCreate c k; (es, k) \<leftarrow> create_list cs k; Some (e # es, k) }"
| "create_list (New_Q start n # cs) k = do { (e, k) \<leftarrow> OSQCreate start n k; (es, k) \<leftarrow> create_list cs k; Some (e # es, k) }"

text \<open>The creation made event \<open>e\<close>; a queue has a control block below \<open>b\<close>.\<close>

fun created :: "nat \<Rightarrow> creation \<Rightarrow> nat \<Rightarrow> os_state \<Rightarrow> bool" where
  "created b (New_Sem c) e k \<longleftrightarrow> is_sem e k \<and> OSEventCnt (ECB k e) = c \<and> wait_set e k = {}"
| "created b (New_Q start n) e k \<longleftrightarrow> (\<exists>q < b. is_queue e q k \<and> messages q k = [] \<and> capacity q k = unat n) \<and> wait_set e k = {}"

lemma created_mono: "created b c e k \<Longrightarrow> b \<le> b' \<Longrightarrow> created b' c e k"
  by (cases c) (auto intro: less_le_trans)

fun fits_memory :: "creation \<Rightarrow> bool" where
  "fits_memory (New_Sem c) = True"
| "fits_memory (New_Q start n) = (0 < n \<and> unat start + 4 * unat n < 2 ^ 32)"

definition queues_in :: "creation list \<Rightarrow> nat" where
  "queues_in cs = length (filter (\<lambda>c. case c of New_Q start n \<Rightarrow> True | New_Sem c \<Rightarrow> False) cs)"

lemma create_list_ok:
  assumes "kernel_ok k" "events_free n k" "queues_free m k" "OSIntNesting k = 0" "list_all fits_memory cs"
    "n + length cs \<le> 60" "m + queues_in cs \<le> 20"
  shows "\<exists>k'. create_list cs k = Some (map Some [n..<n + length cs], k') \<and> kernel_ok k' \<and>
     events_free (n + length cs) k' \<and> queues_free (m + queues_in cs) k' \<and> event_frame k k' \<and>
     (\<forall>e. e < n \<or> n + length cs \<le> e \<longrightarrow> ECB k' e = ECB k e) \<and> (\<forall>q < m. QCB k' q = QCB k q) \<and>
     (\<forall>j < length cs. created (m + queues_in cs) (cs ! j) (n + j) k')"
  using assms
proof (induction cs arbitrary: n m k)
  case Nil
  then show ?case by (intro exI [of _ k]) (simp add: queues_in_def event_frame_def)
next
  case (Cons c cs)
  let ?d = "queues_in [c]"
  have q: "queues_in (c # cs) = ?d + queues_in cs" by (simp add: queues_in_def split: creation.splits)
  have n: "n < 60" using Cons.prems(6) by simp
  obtain k1 where k1: "create_list (c # cs) k = do { (es, k) \<leftarrow> create_list cs k1; Some (Some n # es, k) }"
    "kernel_ok k1" "events_free (Suc n) k1" "queues_free (m + ?d) k1" "event_frame k k1" "\<forall>e. e \<noteq> n \<longrightarrow> ECB k1 e = ECB k e"
    "\<forall>q < m. QCB k1 q = QCB k q"
    "\<And>k'. ECB k' n = ECB k1 n \<Longrightarrow> \<forall>q < m + ?d. QCB k' q = QCB k1 q \<Longrightarrow> storage k' = storage k1 \<Longrightarrow> created (m + ?d) c n k'"
  proof (cases c)
    case (New_Sem v)
    then have d: "?d = 0" by (simp add: queues_in_def)
    obtain k1 where k1: "OSSemCreate v k = Some (Some n, k1)" "kernel_ok k1" "events_free (Suc n) k1" "event_frame k k1"
      "QCB k1 = QCB k" "OSQFreeList k1 = OSQFreeList k" "is_sem n k1" "OSEventCnt (ECB k1 n) = v" "wait_set n k1 = {}"
      "\<forall>e. e \<noteq> n \<longrightarrow> ECB k1 e = ECB k e"
      using sem_create_next [OF Cons.prems(1,2) n Cons.prems(4), of v] by blast
    have "queues_free m k1" using Cons.prems(3) k1(5,6) by (simp add: queues_free_def)
    then show thesis using k1 New_Sem d by (intro that [of k1]) (auto simp: is_sem_def wait_set_def waiters_def)
  next
    case (New_Q st v)
    then have d: "?d = 1" and f: "0 < v" "unat st + 4 * unat v < 2 ^ 32" using Cons.prems(5) by (simp_all add: queues_in_def)
    then have m: "m < 20" using Cons.prems(7) q by simp
    obtain k1 where k1: "OSQCreate st v k = Some (Some n, k1)" "kernel_ok k1" "events_free (Suc n) k1" "queues_free (Suc m) k1"
      "event_frame k k1" "is_queue n m k1" "messages m k1 = []" "capacity m k1 = unat v" "wait_set n k1 = {}"
      "\<forall>e. e \<noteq> n \<longrightarrow> ECB k1 e = ECB k e" "\<forall>q. q \<noteq> m \<longrightarrow> QCB k1 q = QCB k q"
      using q_create_next [OF Cons.prems(1,2) n Cons.prems(3) m Cons.prems(4) f] by blast
    have "created (m + ?d) c n k'" if "ECB k' n = ECB k1 n" "\<forall>q < m + ?d. QCB k' q = QCB k1 q" "storage k' = storage k1" for k'
    proof -
      have "QCB k' m = QCB k1 m" using that(2) d by simp
      then have "is_queue n m k'" "messages m k' = []" "capacity m k' = unat v" "wait_set n k' = {}"
        using that(1,3) k1(6-9) by (simp_all add: is_queue_def q_of_def messages_def capacity_def get_ring_def wait_set_def waiters_def)
      then show ?thesis using New_Q d by auto
    qed
    then show thesis using k1 New_Q d by (intro that [of k1]) auto
  qed
  have l1: "OSIntNesting k1 = 0" using k1(5) Cons.prems(4) by (simp add: event_frame_def)
  obtain k' where k': "create_list cs k1 = Some (map Some [Suc n..<Suc n + length cs], k')" "kernel_ok k'"
    "events_free (Suc n + length cs) k'" "queues_free (m + ?d + queues_in cs) k'" "event_frame k1 k'"
    "\<forall>e. e < Suc n \<or> Suc n + length cs \<le> e \<longrightarrow> ECB k' e = ECB k1 e" "\<forall>q < m + ?d. QCB k' q = QCB k1 q" "\<forall>j < length cs. created (m + ?d + queues_in cs) (cs ! j) (Suc n + j) k'"
    using Cons.IH [OF k1(2-4) l1] Cons.prems(5-7) q by (auto simp: add.assoc)
  have "created (m + ?d) c n k'" using k1(8) k'(5-7) by (simp add: event_frame_def)
  then have "created (m + queues_in (c # cs)) c n k'" by (rule created_mono) (simp add: q)
  then have "\<forall>j < length (c # cs). created (m + queues_in (c # cs)) ((c # cs) ! j) (n + j) k'" using k'(8) by (auto simp: less_Suc_eq_0_disj q add.assoc)
  moreover have "event_frame k k'" using k1(5) k'(5) by (simp add: event_frame_def)
  moreover have "[n..<n + length (c # cs)] = n # [Suc n..<Suc n + length cs]" by (simp add: upt_conv_Cons del: upt_Suc)
  then have "create_list (c # cs) k = Some (map Some [n..<n + length (c # cs)], k')" using k1(1) k'(1) by (simp del: upt_Suc)
  moreover have "\<forall>e. e < n \<or> n + length (c # cs) \<le> e \<longrightarrow> ECB k' e = ECB k e" "\<forall>q < m. QCB k' q = QCB k q" using k1(6,7) k'(6,7) by auto
  ultimately show ?case
    using k'(2,3,4) q by (intro exI [of _ k']) (simp add: add.assoc del: upt_Suc)
qed

section \<open>The initialisations as lists of creations\<close>

definition solenoid_events :: "buffers \<Rightarrow> creation list" where
  "solenoid_events bufs = [New_Q (solenoid_btn_buf bufs) SOLENOID_Q_SIZE_ELEMENTS, New_Sem SEM_FLAG_NO_ERROR,
     New_Sem SEM_FLAG_ERROR_UNRESOLVED, New_Q (shift_matching_result_buf bufs) SOLENOID_Q_SIZE_ELEMENTS]"

definition throttle_events :: "buffers \<Rightarrow> creation list" where
  "throttle_events bufs = [New_Sem SEM_FLAG_NO_ERROR, New_Sem SEM_FLAG_NO_ERROR, New_Sem SEM_FLAG_NO_ERROR,
     New_Sem SEM_FLAG_NO_ERROR, New_Sem SEM_FLAG_ERROR_UNRESOLVED, New_Sem SHIFT_MATCHING_IN_PROGRESS,
     New_Q (shift_cmd_q_buf bufs) MOTOR_CMD_Q_SIZE_ELEMENTS]"

lemma solenoid_task_init_list:
  assumes "create_list (solenoid_events bufs) (os s) = Some ([a, b, c, d], k)"
  shows "\<exists>s'. solenoid_task_init bufs malloc u s = Some (snd (alt_irq_register BUTTONS_IRQ 0 (Some Isr_Btn) u), s') \<and> os s' = k \<and> btn_input_q s' = a \<and>
     solenoid_external_failure_flag s' = b \<and> solenoid_failure_resolved_flag s' = c \<and> rpm_matching_result_q s' = d \<and>
     curr_gear (sol s') = 1 \<and> thr s' = thr s \<and> fh s' = fh s \<and> tables s' = tables s \<and> s_shift_matching_q (sol s') = None \<and> s_pc (sol s') = S_Loop \<and> failure_code_q s' = failure_code_q s \<and>
     reg8 (io s') CURR_GEAR_OUT_BASE = 0"
  using assms
  by (auto simp: solenoid_events_def solenoid_task_init_def q_create_def sem_create_def set_sol_def go_solenoid_def Let_def
      malloc_alarm_def set_irq_mask_def clear_edge_cap_def output_curr_gear_def io_write8_def io_write32_def
      split: bind_splits prod.splits if_splits)

section \<open>From power-up to the failure handler\<close>

text \<open>\<open>main\<close> on a kernel with the two system tasks, with what the tasks find.\<close>

lemma main_ok:
  assumes buf: "unat (failure_code_buf bufs) + 1024 < 2 ^ 32" and blk: "blk = Some b"
    and k: "kernel_ok (os s)" "ready_set (os s) = {19, 20}" "events_free n (os s)" "n + 2 \<le> 60" "queues_free 0 (os s)"
      "tcbs_ok (os s) [1, 0] (2 # 3 # 4 # [5..<12])" "OSTCBPrioTbl (os s) = boot_prio_tbl" "OSIntNesting (os s) = 0"
      "OSRunning (os s) = OS_FALSE" "OSLockNesting (os s) = 0" "OSStatRdy (os s) = OS_FALSE" "\<forall>e. wait_set e (os s) = {}"
  shows "\<exists>ms' s'. main im bufs blk ms s = Some (ms', s') \<and>
     kernel_ok (os s') \<and> list_ok (os s') \<and> highest_runs (os s') \<and> OSPrioCur (os s') = FAILURE_HANDLER_TASK_PRIORITY \<and>
     ready_set (os s') = {1, 2, 3, 19, 20} \<and> OSRunning (os s') = OS_TRUE \<and>
     get_failure_msg_q s' = Some n \<and> is_queue n 0 (os s') \<and> messages 0 (os s') = [] \<and> capacity 0 (os s') = 256 \<and>
     lock ms' = Some (n + 1) \<and> is_sem (n + 1) (os s') \<and> OSEventCnt (ECB (os s') (n + 1)) = 1 \<and>
     events_free (n + 2) (os s') \<and> queues_free 1 (os s') \<and> OSIntNesting (os s') = 0 \<and> OSLockNesting (os s') = 0 \<and>
     OSStatRdy (os s') = OS_FALSE \<and> OSTickStepState (os s') = OSTickStepState (os s) \<and>
     (\<forall>p i. task_at (os s') p i \<longleftrightarrow> (p, i) \<in> {(1, 2), (2, 4), (3, 3), (19, 1), (20, 0)}) \<and>
     thr s' = thr s \<and> sol s' = sol s \<and> fh s' = fh s \<and> tables s' = throttle_data_init (tables s) \<and>
     (\<forall>e. wait_set e (os s') = {}) \<and> tick_rate s' = tick_rate s"
proof -
  define k where "k = os s"
  note k = k [folded k_def]
  have sz: "(0 :: INT16U) < 256" "unat (failure_code_buf bufs) + 4 * unat (256 :: INT16U) < 2 ^ 32" using buf by simp_all
  have n: "n < 60" "Suc n < 60" using k(4) by simp_all
  obtain k1 where k1: "OSQCreate (failure_code_buf bufs) 256 k = Some (Some n, k1)" "kernel_ok k1" "events_free (Suc n) k1" "queues_free 1 k1"
    "event_frame k k1" "is_queue n 0 k1" "messages 0 k1 = []" "capacity 0 k1 = 256"
    "wait_set n k1 = {}" "\<forall>e. e \<noteq> n \<longrightarrow> ECB k1 e = ECB k e"
    using q_create_next [OF k(1,3) n(1) k(5) _ k(8) sz] by auto
  have n1: "OSIntNesting k1 = 0" using k1(5) k(8) by (simp add: event_frame_def)
  obtain k2 where k2: "OSSemCreate 1 k1 = Some (Some (n + 1), k2)" "kernel_ok k2" "events_free (n + 2) k2" "event_frame k1 k2" "QCB k2 = QCB k1"
    "OSQFreeList k2 = OSQFreeList k1" "is_sem (n + 1) k2" "OSEventCnt (ECB k2 (n + 1)) = 1" "\<forall>e. e \<noteq> n + 1 \<longrightarrow> ECB k2 e = ECB k1 e"
    "wait_set (n + 1) k2 = {}"
    using sem_create_next [OF k1(2,3) n(2) n1, of 1] by auto
  have fr: "event_frame k k2" using k1(5) k2(4) by (simp add: event_frame_def)
  note fs = event_frame_sets [OF fr]
  have b2: "ready_set k2 = {19, 20}" "tcbs_ok k2 [1, 0] (2 # 3 # 4 # [5..<12])" "OSTCBPrioTbl k2 = boot_prio_tbl" "OSIntNesting k2 = 0"
    "OSRunning k2 = OS_FALSE" using k(2,6,7,8,9) fr fs(2,3) by (simp_all only: event_frame_def)
  obtain k3 k4 where k4: "create_tasks im k2 = Some k3" "OSStart k3 = Some k4" "kernel_ok k4" "list_ok k4" "highest_runs k4"
    "OSPrioCur k4 = FAILURE_HANDLER_TASK_PRIORITY" "OSRunning k4 = OS_TRUE" "ready_set k4 = {1, 2, 3, 19, 20}" "ECB k4 = ECB k2"
    "QCB k4 = QCB k2" "OSEventFreeList k4 = OSEventFreeList k2" "OSQFreeList k4 = OSQFreeList k2" "OSIntNesting k4 = 0"
    "OSLockNesting k4 = OSLockNesting k2" "OSStatRdy k4 = OSStatRdy k2" "OSTickStepState k4 = OSTickStepState k2"
    "\<forall>p i. task_at k4 p i \<longleftrightarrow> (p, i) \<in> {(1, 2), (2, 4), (3, 3), (19, 1), (20, 0)}"
    using tasks_start [OF k2(2) b2, of im] by (elim exE conjE) (rule that; assumption)
  have c4: "OSLockNesting k4 = 0" "OSStatRdy k4 = OS_FALSE" "OSTickStepState k4 = OSTickStepState k"
    using k(10,11) fr by (simp_all add: k4(14-16) event_frame_def)
  have st: "storage k2 = storage k1" using k2(4) by (simp add: event_frame_def)
  have q4: "is_queue n 0 k4" "capacity 0 k4 = 256"
    using k1(6,8) k2(5,9) by (simp_all add: is_queue_def q_of_def ring_ok_def get_ring_def capacity_def k4(9,10))
  have "unat (OSQEntries (QCB k1 0)) = 0" using k1(7) by (auto simp: messages_def ring_contents_def get_ring_def)
  then have m4: "messages 0 k4 = []" by (simp add: messages_def ring_contents_def get_ring_def k4(10) k2(5))
  have e4: "is_sem (n + 1) k4" "OSEventCnt (ECB k4 (n + 1)) = 1" using k2(7,8) by (simp_all add: is_sem_def k4(9))
  have w4: "wait_set e k4 = wait_set e k2" for e by (simp add: wait_set_def waiters_def k4(9))
  have "wait_set e k1 = {}" for e
    using k1(9,10) k(12) by (cases "e = n") (simp_all add: wait_set_def waiters_def)
  then have "wait_set e k2 = {}" for e
    using k2(9,10) by (cases "e = n + 1") (simp_all add: wait_set_def waiters_def)
  then have w: "\<forall>e. wait_set e k4 = {}" by (simp add: w4)
  have f4: "events_free (n + 2) k4" "queues_free 1 k4"
    using k2(3,5,6) k1(4) w4 by (simp_all add: events_free_def queues_free_def k4(9-12))
  obtain m i where pwm: "get_new_pwm_module (Some b) PWM_GENERATOR_TEST_AVALON_SLAVE_PERIOD_BASE
      PWM_GENERATOR_TEST_AVALON_SLAVE_DUTY_BASE PWM_GENERATOR_TEST_AVALON_SLAVE_CONTROL_BASE 2500 340 (io s) = Some (m, i)"
    by (cases "enable_pwm_output (set_duty_cycle 340 (set_period 2500 (disable_pwm_output
          (b\<lparr> period_base := PWM_GENERATOR_TEST_AVALON_SLAVE_PERIOD_BASE, duty_base := PWM_GENERATOR_TEST_AVALON_SLAVE_DUTY_BASE,
             control_base := PWM_GENERATOR_TEST_AVALON_SLAVE_CONTROL_BASE \<rparr>, io s))))") (simp add: get_new_pwm_module_def)
  have "\<exists>ms' s'. main im bufs blk ms s = Some (ms', s') \<and> os s' = k4 \<and> failure_code_q s' = Some n \<and> lock ms' = Some (n + 1) \<and>
      thr s' = thr s \<and> sol s' = sol s \<and> fh s' = fh s \<and> tables s' = throttle_data_init (tables s) \<and> tick_rate s' = tick_rate s"
    using k1(1) k2(1) k4(1,2) pwm blk
    by (simp add: main_def q_create_def Test_pwm_gen_def mem_manager_init_def k_def [symmetric] split: prod.splits)
  then obtain ms' s' where "main im bufs blk ms s = Some (ms', s')" "os s' = k4" "failure_code_q s' = Some n" "lock ms' = Some (n + 1)"
    "thr s' = thr s" "sol s' = sol s" "fh s' = fh s"
    "tables s' = throttle_data_init (tables s)" "tick_rate s' = tick_rate s" by (elim exE conjE) (rule that; assumption)
  then show ?thesis
    using w k4(3-8,13,17) c4 q4 m4 e4 f4 by (intro exI [of _ ms'] exI [of _ s']) (simp add: get_failure_msg_q_def k_def)
qed

text \<open>The clock's driver leaves the kernel alone.\<close>

lemma sys_init_fields:
  assumes "alt_sys_init_clock u s = (u', s')"
  shows "os s' = os s" "thr s' = thr s" "sol s' = sol s" "fh s' = fh s" "tables s' = tables s" "tick_rate s' \<noteq> 0"
    "u' = snd (alt_irq_register SYS_CLK_TIMER_IRQ SYS_CLK_TIMER_BASE (Some Alt_Avalon_Timer_Sc_Irq) u)"
  using assms by (auto simp: alt_sys_init_clock_def alt_avalon_timer_sc_init_def alt_sysclk_init_def Let_def
      SYS_CLK_TIMER_TICKS_PER_SEC_def split: if_splits)

text \<open>The processor after the timer has been registered.\<close>

definition clock_registered :: "isr irq_unit \<Rightarrow> isr irq_unit \<Rightarrow> bool" where
  "clock_registered u u' \<longleftrightarrow> cpu_status u' = NIOS2_STATUS_PIE_MSK \<and> alt_irq_active u' = alt_irq_active u OR 1 \<and>
     ienable u' = alt_irq_active u' \<and>
     alt_irq u' = (alt_irq u)(SYS_CLK_TIMER_IRQ := (Some Alt_Avalon_Timer_Sc_Irq, SYS_CLK_TIMER_BASE))"

lemma timer_registered:
  "clock_registered u (snd (alt_irq_register SYS_CLK_TIMER_IRQ SYS_CLK_TIMER_BASE (Some Alt_Avalon_Timer_Sc_Irq) (alt_irq_init u)))"
  by (simp add: clock_registered_def register_sets ALT_NIRQ_def SYS_CLK_TIMER_IRQ_def alt_irq_init_def
      altera_nios2_qsys_irq_init_def alt_irq_cpu_enable_interrupts_def)

lemma alt_main_ok:
  assumes buf: "unat (failure_code_buf bufs) + 1024 < 2 ^ 32" and blk: "blk = Some b"
  shows "\<exists>u' ms' s'. alt_main im bufs blk u ms s = Some (u', ms', s') \<and>
     kernel_ok (os s') \<and> list_ok (os s') \<and> highest_runs (os s') \<and> OSPrioCur (os s') = FAILURE_HANDLER_TASK_PRIORITY \<and>
     ready_set (os s') = {1, 2, 3, 19, 20} \<and> OSRunning (os s') = OS_TRUE \<and>
     get_failure_msg_q s' = Some 3 \<and> is_queue 3 0 (os s') \<and> messages 0 (os s') = [] \<and> capacity 0 (os s') = 256 \<and>
     lock ms' = Some 4 \<and> is_sem 4 (os s') \<and> OSEventCnt (ECB (os s') 4) = 1 \<and>
     events_free 5 (os s') \<and> queues_free 1 (os s') \<and> OSIntNesting (os s') = 0 \<and> OSLockNesting (os s') = 0 \<and>
     OSStatRdy (os s') = OS_FALSE \<and> OSTickStepState (os s') = OSTickStepState (os s) \<and>
     (\<forall>p i. task_at (os s') p i \<longleftrightarrow> (p, i) \<in> {(1, 2), (2, 4), (3, 3), (19, 1), (20, 0)}) \<and>
     thr s' = thr s \<and> sol s' = sol s \<and> fh s' = fh s \<and> tables s' = throttle_data_init (tables s) \<and>
     (\<forall>e. wait_set e (os s') = {}) \<and> tick_rate s' \<noteq> 0 \<and> clock_registered u u'"
proof -
  obtain k where k: "alt_os_init im (os s) = Some (Some 0, Some 1, k)" "kernel_ok k" "ready_set k = {19, 20}" "events_free 2 k"
    "queues_free 0 k" "tcbs_ok k [1, 0] (2 # 3 # 4 # [5..<12])" "OSTCBPrioTbl k = boot_prio_tbl" "OSIntNesting k = 0"
    "OSRunning k = OS_FALSE" "OSLockNesting k = 0" "OSStatRdy k = OS_FALSE" "OSTickStepState k = OSTickStepState (os s)"
    "\<forall>e. wait_set e k = {}" using alt_os_init_ok [of im "os s"] by blast
  obtain k1 where k1: "OSSemCreate 1 k = Some (Some 2, k1)" "kernel_ok k1" "events_free 3 k1" "event_frame k k1" "QCB k1 = QCB k"
    "OSQFreeList k1 = OSQFreeList k" "wait_set 2 k1 = {}" "\<forall>e. e \<noteq> 2 \<longrightarrow> ECB k1 e = ECB k e"
    using sem_create_next [OF k(2,4) _ k(8), of 1] by (auto simp: numeral_3_eq_3)
  note fs = event_frame_sets [OF k1(4)]
  have b1: "ready_set k1 = {19, 20}" "tcbs_ok k1 [1, 0] (2 # 3 # 4 # [5..<12])" "OSTCBPrioTbl k1 = boot_prio_tbl"
    "OSIntNesting k1 = 0" "OSRunning k1 = OS_FALSE" "OSLockNesting k1 = 0" "OSStatRdy k1 = OS_FALSE"
    "OSTickStepState k1 = OSTickStepState (os s)"
    using k(3,6-12) k1(4) fs(2,3) by (simp_all only: event_frame_def)
  have q1: "queues_free 0 k1" using k(5) k1(5,6) by (simp add: queues_free_def)
  have "wait_set e k1 = {}" for e
    using k1(7,8) k(13) by (cases "e = 2") (simp_all add: wait_set_def waiters_def)
  then have w1: "\<forall>e. wait_set e k1 = {}" ..
  have le: "3 + 2 \<le> (60 :: nat)" by simp
  obtain u2 s2 where s2: "alt_sys_init_clock (alt_irq_init u) (s\<lparr> os := k1 \<rparr>) = (u2, s2)" by fastforce
  note f2 = sys_init_fields [OF s2, simplified]
  obtain ms' s' where m: "main im bufs blk ms s2 = Some (ms', s')"
    "kernel_ok (os s')" "list_ok (os s')" "highest_runs (os s')" "OSPrioCur (os s') = FAILURE_HANDLER_TASK_PRIORITY"
    "ready_set (os s') = {1, 2, 3, 19, 20}" "OSRunning (os s') = OS_TRUE"
    "get_failure_msg_q s' = Some 3" "is_queue 3 0 (os s')" "messages 0 (os s') = []" "capacity 0 (os s') = 256"
    "lock ms' = Some (3 + 1)" "is_sem (3 + 1) (os s')" "OSEventCnt (ECB (os s') (3 + 1)) = 1"
    "events_free (3 + 2) (os s')" "queues_free 1 (os s')" "OSIntNesting (os s') = 0" "OSLockNesting (os s') = 0"
    "OSStatRdy (os s') = OS_FALSE" "OSTickStepState (os s') = OSTickStepState (os s2)"
    "\<forall>p i. task_at (os s') p i \<longleftrightarrow> (p, i) \<in> {(1, 2), (2, 4), (3, 3), (19, 1), (20, 0)}"
    "thr s' = thr s2" "sol s' = sol s2" "fh s' = fh s2" "tables s' = throttle_data_init (tables s2)"
    "\<forall>e. wait_set e (os s') = {}" "tick_rate s' = tick_rate s2"
    using main_ok [OF buf blk, of s2 3 im ms, unfolded f2(1), OF k1(2) b1(1) k1(3) le q1 b1(2-7) w1]
    by (elim exE conjE) (rule that [unfolded f2(1)]; assumption)
  have "alt_main im bufs blk u ms s = Some (u2, ms', s')"
    using k(1) k1(1) s2 m(1) by (simp add: alt_main_def sem_create_def)
  moreover have "clock_registered u u2" using timer_registered f2(7) by simp
  ultimately show ?thesis using m f2 b1(8) by (intro exI [of _ u2] exI [of _ ms'] exI [of _ s']) simp
qed

text \<open>What \<open>main\<close> finds: the kernel after \<open>OSInit\<close>, with the idle and the statistics task only, not yet started, and with the
  first \<open>n\<close> event blocks taken by the HAL (its own semaphores and those of its device drivers).\<close>

definition initialised :: "nat \<Rightarrow> os_state \<Rightarrow> bool" where
  "initialised n k \<longleftrightarrow> kernel_ok k \<and> ready_set k = {19, 20} \<and> events_free n k \<and> queues_free 0 k \<and>
     tcbs_ok k [1, 0] (2 # 3 # 4 # [5..<12]) \<and> OSTCBPrioTbl k = boot_prio_tbl \<and> OSIntNesting k = 0 \<and>
     OSRunning k = OS_FALSE \<and> OSLockNesting k = 0 \<and> OSStatRdy k = OS_FALSE \<and> (\<forall>e. wait_set e k = {})"

lemma initialisedD:
  assumes "initialised n k"
  shows "kernel_ok k" "ready_set k = {19, 20}" "events_free n k" "queues_free 0 k" "tcbs_ok k [1, 0] (2 # 3 # 4 # [5..<12])"
    "OSTCBPrioTbl k = boot_prio_tbl" "OSIntNesting k = 0" "OSRunning k = OS_FALSE" "OSLockNesting k = 0"
    "OSStatRdy k = OS_FALSE" "\<forall>e. wait_set e k = {}"
  using assms by (simp_all add: initialised_def)

lemma os_init_initialised:
  "\<exists>k. alt_os_init im s = Some (Some 0, Some 1, k) \<and> initialised 2 k"
  using alt_os_init_ok [of im s] unfolding initialised_def by blast

text \<open>A driver's initialisation that creates semaphores.\<close>

lemma initialised_create:
  assumes "initialised n k" "n + m \<le> 60"
  shows "\<exists>k'. create_list (replicate m (New_Sem c)) k = Some (map Some [n..<n + m], k') \<and> initialised (n + m) k'"
proof -
  have q: "queues_in (replicate m (New_Sem c)) = 0" by (simp add: queues_in_def)
  have f: "list_all fits_memory (replicate m (New_Sem c))" by (simp add: list_all_iff)
  note i = assms(1) [unfolded initialised_def]
  obtain k' where k': "create_list (replicate m (New_Sem c)) k = Some (map Some [n..<n + m], k')" "kernel_ok k'"
    "events_free (n + m) k'" "queues_free 0 k'" "event_frame k k'" "\<forall>e. e < n \<or> n + m \<le> e \<longrightarrow> ECB k' e = ECB k e"
    "\<forall>j < m. wait_set (n + j) k' = {}"
    using create_list_ok [of k n 0 "replicate m (New_Sem c)"] i f assms(2) by (auto simp: q)
  have "wait_set e k' = {}" for e
  proof (cases "e < n \<or> n + m \<le> e")
    case True
    then have "ECB k' e = ECB k e" using k'(6) by blast
    then show ?thesis using i by (simp add: wait_set_def waiters_def)
  next
    case False
    then obtain j where "j < m" "e = n + j" using that le_Suc_ex [of n e] by auto
    then show ?thesis using k'(7) by simp
  qed
  then show ?thesis
    using i k' event_frame_sets [OF k'(5)] by (auto simp: initialised_def event_frame_def)
qed

text \<open>C12: The start-up of the application. On an initialised kernel of which the HAL has taken any number \<open>n\<close> of event blocks,
  and when \<open>malloc\<close> gives the block for the PWM module of the test bench and the queue's buffer lies within the memory,
  \<open>main\<close> runs to its end: the kernel is consistent and runs, exactly the five tasks of priorities 1, 2, 3, 19 and 20 exist,
  all are ready and none waits, the queue for failure codes is event \<open>n\<close>, empty and of capacity 256, the lock of the memory manager is event
  \<open>n + 1\<close> with one unit, the throttle tables are computed, and the failure handler, the task with the smallest priority
  number, runs.\<close>

theorem main_starts:
  assumes buf: "unat (failure_code_buf bufs) + 1024 < 2 ^ 32" and blk: "blk = Some b"
    and k: "initialised n (os s)" "n + 2 \<le> 60"
  shows "\<exists>ms' s'. main im bufs blk ms s = Some (ms', s') \<and>
     kernel_ok (os s') \<and> list_ok (os s') \<and> OSRunning (os s') = OS_TRUE \<and>
     (\<forall>p i. task_at (os s') p i \<longleftrightarrow> (p, i) \<in> {(1, 2), (2, 4), (3, 3), (19, 1), (20, 0)}) \<and>
     ready_set (os s') = {1, 2, 3, 19, 20} \<and> (\<forall>e. wait_set e (os s') = {}) \<and>
     highest_runs (os s') \<and> OSPrioCur (os s') = FAILURE_HANDLER_TASK_PRIORITY \<and>
     get_failure_msg_q s' = Some n \<and> is_queue n 0 (os s') \<and> messages 0 (os s') = [] \<and> capacity 0 (os s') = 256 \<and>
     lock ms' = Some (n + 1) \<and> is_sem (n + 1) (os s') \<and> OSEventCnt (ECB (os s') (n + 1)) = 1 \<and>
     events_free (n + 2) (os s') \<and> queues_free 1 (os s') \<and> tables s' = throttle_data_init (tables s)"
proof -
  note i = initialisedD [OF k(1)]
  note m = main_ok [OF buf blk i(1-3) k(2) i(4-11), of im ms]
  from m show ?thesis by (elim exE conjE) (intro exI conjI; assumption)
qed

definition sample_image :: app_image where
  "sample_image = \<lparr> cpu = \<lparr> reent_size = 1000, reent_init = (\<lambda>a M. M), OSStartTsk = 64 \<rparr>, OSTaskIdleStk = 0x8000,
     OSTaskStatStk = 0x9000, idle_entry = 256, stat_entry = 512, failure_handler_task_stk = 0x10000,
     throttle_control_task_stk = 0x20000, solenoid_task_stk = 0x30000, failure_handler_entry = 1024,
     throttle_control_entry = 2048, solenoid_entry = 4096 \<rparr>"

definition sample_buffers :: buffers where
  "sample_buffers = \<lparr> failure_code_buf = 0x40000, shift_cmd_q_buf = 0x41000, solenoid_btn_buf = 0x42000,
     shift_matching_result_buf = 0x43000 \<rparr>"

definition sample_unit :: "isr irq_unit" where
  "sample_unit = \<lparr> cpu_status = 0, ienable = 0xFF, alt_irq_active = 0, alt_irq = \<lambda>_. (None, 0) \<rparr>"

theorem main_starts_witness:
  "\<exists>k k' ms' s'. alt_os_init sample_image (os example_app) = Some (Some 0, Some 1, k) \<and>
     create_list (replicate 3 (New_Sem 1)) k = Some (map Some [2..<5], k') \<and>
     main sample_image sample_buffers (Some sample_block) example_mem (example_app\<lparr> os := k' \<rparr>) = Some (ms', s') \<and>
     OSPrioCur (os s') = 1 \<and> get_failure_msg_q s' = Some 5 \<and> messages 0 (os s') = []"
proof -
  obtain k where k: "alt_os_init sample_image (os example_app) = Some (Some 0, Some 1, k)" "initialised 2 k"
    using os_init_initialised by blast
  obtain k' where k': "create_list (replicate 3 (New_Sem 1)) k = Some (map Some [2..<2 + 3], k')" "initialised (2 + 3) k'"
    using initialised_create [OF k(2), of 3 1] by auto
  have b: "unat (failure_code_buf sample_buffers) + 1024 < 2 ^ 32" by (simp add: sample_buffers_def)
  have i: "initialised 5 (os (example_app\<lparr> os := k' \<rparr>))" using k'(2) by simp
  from main_starts [OF b refl i, where b = sample_block and im = sample_image and ms = example_mem]
  obtain ms' s' where "main sample_image sample_buffers (Some sample_block) example_mem (example_app\<lparr> os := k' \<rparr>) = Some (ms', s')"
    "OSPrioCur (os s') = FAILURE_HANDLER_TASK_PRIORITY" "get_failure_msg_q s' = Some 5" "messages 0 (os s') = []" by auto
  then show ?thesis using k(1) k'(1) by (auto simp: FAILURE_HANDLER_TASK_PRIORITY_def)
qed

section \<open>The throttle task before its loop\<close>

lemma new_pwm_fields:
  assumes "get_new_pwm_module (Some blk) p_base d_base c_base p d i = Some (m, i')"
  shows "period_base m = p_base" "duty_base m = d_base" "control_base m = c_base"
    "a \<noteq> p_base \<Longrightarrow> a \<noteq> d_base \<Longrightarrow> reg32 i' a = reg32 i a" "a \<noteq> c_base \<Longrightarrow> reg8 i' a = reg8 i a"
  using assms
  by (auto simp: get_new_pwm_module_def disable_pwm_output_def set_period_def enable_pwm_output_def set_duty_cycle_def
      io_write8_def io_write32_def Let_def split: if_splits)

lemma new_pwm_other:
  assumes "pwm_in_step (m, i)" "get_new_pwm_module (Some blk) p_base d_base c_base p d i = Some (m', i')"
    and "period_base m \<notin> {p_base, d_base}" "duty_base m \<notin> {p_base, d_base}" "control_base m \<noteq> c_base"
  shows "pwm_in_step (m, i')"
  using assms(1,3-5) new_pwm_fields(4,5) [OF assms(2)] by (simp add: pwm_in_step_def)

lemma new_pwm_some: "\<exists>m i'. get_new_pwm_module (Some blk) p_base d_base c_base p d i = Some (m, i')"
  by (cases "enable_pwm_output (set_duty_cycle d (set_period p (disable_pwm_output
        (blk\<lparr> period_base := p_base, duty_base := d_base, control_base := c_base \<rparr>, i))))") (simp add: get_new_pwm_module_def)

lemma throttle_task_init_list:
  assumes "create_list (throttle_events bufs) (os s) = Some ([a, b, c, d, e, f, Some q], k)"
    and "get_new_pwm_module b_sound PWM_GENERATOR_ENGINE_SOUND_OUT_AVALON_SLAVE_PERIOD_BASE
           PWM_GENERATOR_ENGINE_SOUND_OUT_AVALON_SLAVE_DUTY_BASE PWM_GENERATOR_ENGINE_SOUND_OUT_AVALON_SLAVE_CONTROL_BASE
           ENGINE_SOUND_PERIOD_TICKS PWM_DUTY_CYCLE_HALF (io s) = Some (m1, i1)"
    and "get_new_pwm_module b_open PWM_GENERATOR_THROTTLE_OPEN_AVALON_SLAVE_PERIOD_BASE
           PWM_GENERATOR_THROTTLE_OPEN_AVALON_SLAVE_DUTY_BASE PWM_GENERATOR_THROTTLE_OPEN_AVALON_SLAVE_CONTROL_BASE
           MOTOR_PWM_PERIOD_TICKS MOTOR_PWM_DUTY_CYCLE_FULLY_CLOSE i1 = Some (m2, i2)"
    and "get_new_pwm_module b_close PWM_GENERATOR_THROTTLE_CLOSE_AVALON_SLAVE_PERIOD_BASE
           PWM_GENERATOR_THROTTLE_CLOSE_AVALON_SLAVE_DUTY_BASE PWM_GENERATOR_THROTTLE_CLOSE_AVALON_SLAVE_CONTROL_BASE
           MOTOR_PWM_PERIOD_TICKS PWM_DUTY_CYCLE_HIGH i2 = Some (m3, i3)"
  shows "\<exists>s'. throttle_task_init bufs b_sound b_open b_close s = Some (True, s') \<and> os s' = k \<and>
     apps_failure_flag s' = a \<and> tps_failure_flag s' = b \<and> motor_failure_flag s' = c \<and>
     throttle_task_external_failure_flag s' = d \<and> throttle_task_failure_resolved_flag s' = e \<and> exit_shift_matching_flag s' = f \<and>
     shift_matching_q s' = Some q \<and> matching_result_q s' = rpm_matching_result_q s \<and> failure_msg_q s' = failure_code_q s \<and>
     motor_of s' = (m2, m3, i3) \<and> curr_duty_cycle (thr s') = 580 \<and> slip_control_mode (thr s') = FALSE \<and> t_pc (thr s') = T_Loop \<and>
     watchdog_throttle_position (thr s') = None \<and> watchdog_rpm_matching (thr s') = None \<and>
     pwm_engine_sound (thr s') = m1 \<and> tables s' = tables s \<and> sol s' = sol s \<and> fh s' = fh s \<and> failure_code_q s' = failure_code_q s \<and>
     btn_input_q s' = btn_input_q s \<and> rpm_matching_result_q s' = rpm_matching_result_q s \<and>
     solenoid_external_failure_flag s' = solenoid_external_failure_flag s \<and>
     solenoid_failure_resolved_flag s' = solenoid_failure_resolved_flag s"
  using assms
  by (auto simp: throttle_events_def throttle_task_init_def q_create_def sem_create_def set_thr_def go_throttle_def Let_def motor_of_def
      get_failure_msg_q_def get_rpm_matching_result_q_def split: bind_splits prod.splits if_splits)

text \<open>The modules at their addresses, and what the throttle task leaves to the others.\<close>

definition motor_placed :: "throttle_vars \<Rightarrow> bool" where
  "motor_placed t \<longleftrightarrow> period_base (pwm_throttle_open t) = PWM_GENERATOR_THROTTLE_OPEN_AVALON_SLAVE_PERIOD_BASE \<and>
     duty_base (pwm_throttle_open t) = PWM_GENERATOR_THROTTLE_OPEN_AVALON_SLAVE_DUTY_BASE \<and>
     control_base (pwm_throttle_open t) = PWM_GENERATOR_THROTTLE_OPEN_AVALON_SLAVE_CONTROL_BASE \<and>
     period_base (pwm_throttle_close t) = PWM_GENERATOR_THROTTLE_CLOSE_AVALON_SLAVE_PERIOD_BASE \<and>
     duty_base (pwm_throttle_close t) = PWM_GENERATOR_THROTTLE_CLOSE_AVALON_SLAVE_DUTY_BASE \<and>
     control_base (pwm_throttle_close t) = PWM_GENERATOR_THROTTLE_CLOSE_AVALON_SLAVE_CONTROL_BASE \<and>
     duty_base (pwm_engine_sound t) = PWM_GENERATOR_ENGINE_SOUND_OUT_AVALON_SLAVE_DUTY_BASE"

definition started_from :: "app_state \<Rightarrow> app_state \<Rightarrow> bool" where
  "started_from s s' \<longleftrightarrow> tables s' = tables s \<and> sol s' = sol s \<and> fh s' = fh s \<and> failure_code_q s' = failure_code_q s \<and> btn_input_q s' = btn_input_q s \<and>
     rpm_matching_result_q s' = rpm_matching_result_q s \<and> matching_result_q s' = rpm_matching_result_q s \<and>
     failure_msg_q s' = failure_code_q s \<and> solenoid_external_failure_flag s' = solenoid_external_failure_flag s \<and>
     solenoid_failure_resolved_flag s' = solenoid_failure_resolved_flag s"

text \<open>The throttle task's code before its loop, on a consistent kernel with enough free blocks and three PWM blocks that
  do not by chance hold the requested values: it makes six flags that are down and an empty request queue, the motor's
  modules are in step with their registers with the throttle closed (duty cycles 580 and 1000 of 1000), so that the
  regulators' preconditions hold, no watchdog is armed, and no task is disturbed.\<close>

theorem throttle_initialised:
  assumes k: "kernel_ok (os s)" "events_free n (os s)" "n + 7 \<le> 60" "queues_free m (os s)" "m < 20" "OSIntNesting (os s) = 0"
    and buf: "unat (shift_cmd_q_buf bufs) + 256 < 2 ^ 32"
    and blk: "period b \<noteq> 2500" "unat (duty_cycle b) \<noteq> 580" "period c \<noteq> 2500" "unat (duty_cycle c) \<noteq> 1000"
  shows "\<exists>s'. throttle_task_init bufs (Some a) (Some b) (Some c) s = Some (True, s') \<and> kernel_ok (os s') \<and> event_frame (os s) (os s') \<and>
     [apps_failure_flag s', tps_failure_flag s', motor_failure_flag s', throttle_task_external_failure_flag s',
      throttle_task_failure_resolved_flag s', exit_shift_matching_flag s', shift_matching_q s'] = map Some [n..<n + 7] \<and>
     (\<forall>e. n \<le> e \<and> e < n + 6 \<longrightarrow> is_sem e (os s') \<and> sem_abs e (os s') = (0, {})) \<and>
     (\<exists>q. is_queue (n + 6) q (os s') \<and> messages q (os s') = [] \<and> capacity q (os s') = 64) \<and>
     matching_result_q s' = rpm_matching_result_q s \<and>
     motor_ok (motor_of s') \<and> open_duty (motor_of s') = 580 \<and> close_duty (motor_of s') = 1000 \<and> duty_ok (curr_duty_cycle (thr s')) \<and>
     watchdog_throttle_position (thr s') = None \<and> watchdog_rpm_matching (thr s') = None \<and>
     (\<forall>e. e < n \<or> n + 7 \<le> e \<longrightarrow> ECB (os s') e = ECB (os s) e) \<and> (\<forall>q < m. QCB (os s') q = QCB (os s) q) \<and>
     (\<forall>e. n \<le> e \<and> e < n + 7 \<longrightarrow> wait_set e (os s') = {}) \<and> motor_placed (thr s') \<and> t_pc (thr s') = T_Loop \<and>
     reg8 (io s') CURR_GEAR_OUT_BASE = reg8 (io s) CURR_GEAR_OUT_BASE \<and> started_from s s'"
proof -
  have l: "list_all fits_memory (throttle_events bufs)" "length (throttle_events bufs) = 7" "queues_in (throttle_events bufs) = 1"
    using buf by (simp_all add: throttle_events_def queues_in_def)
  obtain k' where k': "create_list (throttle_events bufs) (os s) = Some (map Some [n..<n + 7], k')" "kernel_ok k'"
    "event_frame (os s) k'" "\<forall>j < 7. created (m + 1) (throttle_events bufs ! j) (n + j) k'"
    "\<forall>e. e < n \<or> n + 7 \<le> e \<longrightarrow> ECB k' e = ECB (os s) e" "\<forall>q < m. QCB k' q = QCB (os s) q"
    using create_list_ok [OF k(1,2,4,6) l(1)] k(3,5) l(2,3) by auto
  have es: "map Some [n..<n + 7] = [Some n, Some (n + 1), Some (n + 2), Some (n + 3), Some (n + 4), Some (n + 5), Some (n + 6)]"
    by (simp add: upt_conv_Cons)
  obtain m1 i1 where p1: "get_new_pwm_module (Some a) PWM_GENERATOR_ENGINE_SOUND_OUT_AVALON_SLAVE_PERIOD_BASE
      PWM_GENERATOR_ENGINE_SOUND_OUT_AVALON_SLAVE_DUTY_BASE PWM_GENERATOR_ENGINE_SOUND_OUT_AVALON_SLAVE_CONTROL_BASE
      ENGINE_SOUND_PERIOD_TICKS PWM_DUTY_CYCLE_HALF (io s) = Some (m1, i1)" using new_pwm_some by blast
  obtain m2 i2 where p2: "get_new_pwm_module (Some b) PWM_GENERATOR_THROTTLE_OPEN_AVALON_SLAVE_PERIOD_BASE
      PWM_GENERATOR_THROTTLE_OPEN_AVALON_SLAVE_DUTY_BASE PWM_GENERATOR_THROTTLE_OPEN_AVALON_SLAVE_CONTROL_BASE
      MOTOR_PWM_PERIOD_TICKS MOTOR_PWM_DUTY_CYCLE_FULLY_CLOSE i1 = Some (m2, i2)" "pwm_in_step (m2, i2)" "unat (duty_cycle m2) = 580"
    using get_new_pwm_module_in_step [of PWM_GENERATOR_THROTTLE_OPEN_AVALON_SLAVE_PERIOD_BASE
        PWM_GENERATOR_THROTTLE_OPEN_AVALON_SLAVE_DUTY_BASE 2500 b 580 PWM_GENERATOR_THROTTLE_OPEN_AVALON_SLAVE_CONTROL_BASE i1] blk(1,2)
    by (auto simp: motor_addresses)
  obtain m3 i3 where p3: "get_new_pwm_module (Some c) PWM_GENERATOR_THROTTLE_CLOSE_AVALON_SLAVE_PERIOD_BASE
      PWM_GENERATOR_THROTTLE_CLOSE_AVALON_SLAVE_DUTY_BASE PWM_GENERATOR_THROTTLE_CLOSE_AVALON_SLAVE_CONTROL_BASE
      MOTOR_PWM_PERIOD_TICKS PWM_DUTY_CYCLE_HIGH i2 = Some (m3, i3)" "pwm_in_step (m3, i3)" "unat (duty_cycle m3) = 1000"
    using get_new_pwm_module_in_step [of PWM_GENERATOR_THROTTLE_CLOSE_AVALON_SLAVE_PERIOD_BASE
        PWM_GENERATOR_THROTTLE_CLOSE_AVALON_SLAVE_DUTY_BASE 2500 c 1000 PWM_GENERATOR_THROTTLE_CLOSE_AVALON_SLAVE_CONTROL_BASE i2] blk(3,4)
    by (auto simp: motor_addresses)
  note f = new_pwm_fields(1-3) [OF p2(1)] new_pwm_fields(1-3) [OF p3(1)]
  have "pwm_in_step (m2, i3)"
    by (rule new_pwm_other [OF p2(2) p3(1)]) (simp_all add: f motor_addresses)
  then have motor: "motor_ok (m2, m3, i3)" using p3(2) by (simp add: motor_ok_def f motor_addresses)
  obtain s' where s': "throttle_task_init bufs (Some a) (Some b) (Some c) s = Some (True, s')" "os s' = k'"
    "apps_failure_flag s' = Some n" "tps_failure_flag s' = Some (n + 1)" "motor_failure_flag s' = Some (n + 2)"
    "throttle_task_external_failure_flag s' = Some (n + 3)" "throttle_task_failure_resolved_flag s' = Some (n + 4)"
    "exit_shift_matching_flag s' = Some (n + 5)" "shift_matching_q s' = Some (n + 6)" "matching_result_q s' = rpm_matching_result_q s"
    "motor_of s' = (m2, m3, i3)" "curr_duty_cycle (thr s') = 580" "watchdog_throttle_position (thr s') = None"
    "watchdog_rpm_matching (thr s') = None" "t_pc (thr s') = T_Loop" "pwm_engine_sound (thr s') = m1" "tables s' = tables s" "sol s' = sol s" "fh s' = fh s"
    "failure_code_q s' = failure_code_q s" "btn_input_q s' = btn_input_q s" "rpm_matching_result_q s' = rpm_matching_result_q s"
    "solenoid_external_failure_flag s' = solenoid_external_failure_flag s"
    "solenoid_failure_resolved_flag s' = solenoid_failure_resolved_flag s" "failure_msg_q s' = failure_code_q s"
    using throttle_task_init_list [OF k'(1) [unfolded es] p1 p2(1) p3(1)] by (elim exE conjE) (rule that; assumption)
  have sems: "is_sem (n + j) k' \<and> sem_abs (n + j) k' = (0, {})" if "j < 6" for j
    using k'(4) [rule_format, of j] that by (auto simp: throttle_events_def sem_abs_def nth_Cons' split: if_splits)
  have "is_sem e k' \<and> sem_abs e k' = (0, {})" if "n \<le> e" "e < n + 6" for e
    using sems [of "e - n"] that by simp
  moreover have "\<exists>q. is_queue (n + 6) q k' \<and> messages q k' = [] \<and> capacity q k' = 64"
    using k'(4) [rule_format, of 6] by (auto simp: throttle_events_def)
  moreover have "open_duty (m2, m3, i3) = 580" "close_duty (m2, m3, i3) = 1000" "duty_ok 580"
    using p2(3) p3(3) by (simp_all add: open_duty_def close_duty_def duty_ok_def)
  moreover have "wait_set e k' = {}" if "n \<le> e" "e < n + 7" for e
    using k'(4) [rule_format, of "e - n"] that by (cases "throttle_events bufs ! (e - n)") auto
  moreover have "motor_placed (thr s')"
    using s'(11,16) f new_pwm_fields(2) [OF p1] by (simp add: motor_placed_def motor_of_def)
  moreover have "reg8 (io s') CURR_GEAR_OUT_BASE = reg8 (io s) CURR_GEAR_OUT_BASE"
    using s'(11) new_pwm_fields(5) [OF p1] new_pwm_fields(5) [OF p2(1)] new_pwm_fields(5) [OF p3(1)]
    by (simp add: motor_of_def motor_addresses CURR_GEAR_OUT_BASE_def PWM_GENERATOR_ENGINE_SOUND_OUT_AVALON_SLAVE_CONTROL_BASE_def)
  moreover have "started_from s s'" using s'(10,17-25) by (simp add: started_from_def)
  ultimately show ?thesis
    using s' k'(2,3,5,6) motor es by (intro exI [of _ s']) simp
qed


theorem throttle_initialised_witness:
  "\<exists>k s'. alt_os_init sample_image example_os = Some (Some 0, Some 1, k) \<and>
     throttle_task_init sample_buffers (Some sample_block) (Some sample_block) (Some sample_block) (example_app\<lparr> os := k \<rparr>) = Some (True, s') \<and>
     motor_ok (motor_of s') \<and> apps_failure_flag s' = Some 2"
proof -
  obtain k where k: "alt_os_init sample_image example_os = Some (Some 0, Some 1, k)" "kernel_ok k" "events_free 2 k"
    "queues_free 0 k" "OSIntNesting k = 0" using alt_os_init_ok [of sample_image example_os] by blast
  have b: "unat (shift_cmd_q_buf sample_buffers) + 256 < 2 ^ 32" "period sample_block \<noteq> 2500" "unat (duty_cycle sample_block) \<noteq> 580"
    "unat (duty_cycle sample_block) \<noteq> 1000" by (simp_all add: sample_buffers_def sample_block_def)
  let ?s = "example_app\<lparr> os := k \<rparr>"
  have os: "os ?s = k" by simp
  have n: "2 + 7 \<le> (60 :: nat)" "0 < (20 :: nat)" by simp_all
  obtain s' where s': "throttle_task_init sample_buffers (Some sample_block) (Some sample_block) (Some sample_block) ?s = Some (True, s')"
    "[apps_failure_flag s', tps_failure_flag s', motor_failure_flag s', throttle_task_external_failure_flag s',
      throttle_task_failure_resolved_flag s', exit_shift_matching_flag s', shift_matching_q s'] = map Some [2..<2 + 7]"
    "motor_ok (motor_of s')"
    using throttle_initialised [of ?s 2 0 sample_buffers sample_block sample_block sample_block, unfolded os, OF k(2,3) n(1) k(4) n(2) k(5) b(1,2,3,2,4)]
    by (elim exE conjE) (rule that; assumption)
  have "apps_failure_flag s' = Some 2" using s'(2) by (simp add: upt_conv_Cons)
  then show ?thesis using k(1) s' by blast
qed

section \<open>The buffers of the queues\<close>

fun post_all :: "nat \<Rightarrow> msg list \<Rightarrow> os_state \<Rightarrow> os_state option" where
  "post_all e [] s = Some s"
| "post_all e (m # ms) s = do { (err, s) \<leftarrow> OSQPost (Some e) m s; post_all e ms s }"

lemma post_all_backlog:
  assumes "kernel_ok s" "is_queue e q s" "wait_set e s = {}" "length (messages q s) + length ms \<le> capacity q s"
  shows "\<exists>s'. post_all e ms s = Some s' \<and> messages q s' = messages q s @ ms \<and> is_queue e q s' \<and>
     OSQOut (QCB s' q) = OSQOut (QCB s q) \<and> OSQStart (QCB s' q) = OSQStart (QCB s q) \<and> capacity q s' = capacity q s"
  using assms
proof (induction ms arbitrary: s)
  case (Cons m ms)
  define s1 where "s1 = set_ring q (ring_append m (get_ring q s)) s"
  have "OSEventGrp (ECB s e) = 0" using grp_zero_iff [OF Cons.prems(1)] Cons.prems(3) by simp
  moreover have "length (messages q s) < capacity q s" using Cons.prems(4) by simp
  then have l: "\<not> OSQSize (QCB s q) \<le> OSQEntries (QCB s q)"
    using queue_fill(1) [OF Cons.prems(2)] by (simp add: word_le_nat_alt capacity_def)
  moreover have "q_of e s = Some q" "OSEventType (ECB s e) = OS_EVENT_TYPE_Q" using Cons.prems(2) by (simp_all add: is_queue_def)
  ultimately have post: "OSQPost (Some e) m s = Some (OS_ERR_NONE, s1)" by (simp add: OSQPost_def s1_def)
  have "ring_ok (get_ring q s)" "length (ring_contents (get_ring q s)) < ring_cap (get_ring q s)"
    using Cons.prems(2,4) by (simp_all add: is_queue_def messages_def ring_cap_def get_ring_def capacity_def)
  note app = ring_append_law [OF this, of m]
  have k1: "kernel_ok s1" "is_queue e q s1" "wait_set e s1 = {}"
    using Cons.prems app is_queue_set_ring by (simp_all add: s1_def)
  have m1: "messages q s1 = messages q s @ [m]" using app by (simp add: s1_def messages_def)
  have c1: "capacity q s1 = capacity q s" "OSQOut (QCB s1 q) = OSQOut (QCB s q)" "OSQStart (QCB s1 q) = OSQStart (QCB s q)"
    by (simp_all add: s1_def set_ring_def capacity_def ring_append_def get_ring_def Let_def)
  obtain s' where "post_all e ms s1 = Some s'" "messages q s' = messages q s1 @ ms" "is_queue e q s'"
    "OSQOut (QCB s' q) = OSQOut (QCB s1 q)" "OSQStart (QCB s' q) = OSQStart (QCB s1 q)" "capacity q s' = capacity q s1"
    using Cons.IH [OF k1] Cons.prems(4) m1 c1(1) by auto
  then show ?case using post m1 c1 by simp
qed simp

text \<open>C25: The buffers of the queues are too small. \<open>OSQCreate\<close> takes the number of messages, and each message is a pointer of
  four bytes, but \<open>failure_code_buf\<close> is an array of 256 bytes for 256 messages: with a backlog of more than 64 messages the
  kernel stores messages past the end of the array.\<close>

theorem queue_buffer_overrun:
  assumes k: "kernel_ok s" "events_free n s" "n < 60" "queues_free m s" "m < 20" "OSIntNesting s = 0"
    and buf: "unat buf + 1024 < 2 ^ 32" and ms: "64 < length ms" "length ms \<le> 256"
  shows "\<exists>s1 s2. OSQCreate buf FAILURE_HANDLER_Q_SIZE_ELEMENTS s = Some (Some n, s1) \<and> post_all n ms s1 = Some s2 \<and>
     messages m s2 = ms \<and> (\<forall>j < length ms. storage s2 (buf + 4 * of_nat j) = ms ! j) \<and>
     (\<forall>j \<in> {64..<length ms}. unat buf + FAILURE_HANDLER_Q_SIZE_ELEMENTS \<le> unat (buf + 4 * of_nat j))"
proof -
  have sz: "(0 :: INT16U) < 256" "unat buf + 4 * unat (256 :: INT16U) < 2 ^ 32" using buf by simp_all
  obtain s1 where s1: "OSQCreate buf 256 s = Some (Some n, s1)" "kernel_ok s1" "is_queue n m s1" "messages m s1 = []"
    "capacity m s1 = 256" "wait_set n s1 = {}" "OSQOut (QCB s1 m) = buf" "OSQStart (QCB s1 m) = buf"
    using q_create_next [OF k(1-5) k(6) sz] by (elim exE conjE) (rule that; simp)
  obtain s2 where s2: "post_all n ms s1 = Some s2" "messages m s2 = ms" "is_queue n m s2" "OSQOut (QCB s2 m) = buf"
    "OSQStart (QCB s2 m) = buf" "capacity m s2 = 256"
    using post_all_backlog [OF s1(2,3,6), of ms] s1(4,5,7,8) ms(2) by auto
  have out: "out_index (QCB s2 m) = 0" using s2(4,5) by (simp add: out_index_def)
  have st: "storage s2 (buf + 4 * of_nat j) = ms ! j" if "j < length ms" for j
  proof -
    have "length ms = unat (OSQEntries (QCB s2 m))" using queue_fill(1) [OF s2(3)] s2(2) by simp
    then have "messages m s2 ! j = storage s2 (slot (QCB s2 m) (j mod 256))"
      using that s2(6) by (simp add: messages_def ring_contents_def get_ring_def out capacity_def)
    then show ?thesis using that ms(2) s2(2,5) by (simp add: slot_def mult.commute)
  qed
  have "unat buf + 256 \<le> unat (buf + 4 * of_nat j)" if "64 \<le> j" "j < length ms" for j
    using unat_slot [of "QCB s2 m" 256 j] buf that ms(2) s2(5) by (simp add: slot_def mult.commute)
  then show ?thesis using s1(1) s2(1,2) st by (intro exI [of _ s1] exI [of _ s2]) simp
qed

theorem queue_buffer_overrun_witness:
  "\<exists>k s1 s2. alt_os_init sample_image example_os = Some (Some 0, Some 1, k) \<and>
     OSQCreate 0x40000 256 k = Some (Some 2, s1) \<and> post_all 2 (replicate 65 7) s1 = Some s2 \<and>
     storage s2 0x40100 = 7 \<and> 0x40000 + 256 \<le> unat (0x40100 :: INT32U)"
proof -
  obtain k where k: "alt_os_init sample_image example_os = Some (Some 0, Some 1, k)" "kernel_ok k" "events_free 2 k"
    "queues_free 0 k" "OSIntNesting k = 0" using alt_os_init_ok [of sample_image example_os] by blast
  have n: "2 < (60 :: nat)" "0 < (20 :: nat)" "unat (0x40000 :: INT32U) + 1024 < 2 ^ 32" "64 < length (replicate 65 (7 :: msg))"
    "length (replicate 65 (7 :: msg)) \<le> 256" by simp_all
  obtain s1 s2 where s: "OSQCreate 0x40000 256 k = Some (Some 2, s1)" "post_all 2 (replicate 65 7) s1 = Some s2"
    "\<forall>j < 65. storage s2 (0x40000 + 4 * of_nat j) = replicate 65 7 ! j"
    using queue_buffer_overrun [OF k(2,3) n(1) k(4) n(2) k(5) n(3,4,5)]
    unfolding FAILURE_HANDLER_Q_SIZE_ELEMENTS_def length_replicate by blast
  then have "storage s2 0x40100 = 7" using s(3) [rule_format, of 64] by simp
  then show ?thesis using k(1) s(1,2) by (intro exI [of _ k] exI [of _ s1] exI [of _ s2]) simp
qed

end
