(* ===== verification/Sys_Boot.thy ===== *)
theory Sys_Boot imports System App_Start begin

text \<open>
  From power-up to the running system: after \<open>alt_main\<close> each task runs until it first waits, in the order of
  the priorities, and the throttle task does its initialisation last. The invariant of the system holds
  from there on. No interrupt is taken before; the timer's and the buttons' handlers use what these
  initialisations create.
\<close>

section \<open>The sequence\<close>

text \<open>After \<open>alt_main\<close> the tasks start in the order in which the kernel runs them.\<close>

definition boot ::
  "app_image \<Rightarrow> buffers \<Rightarrow> (nat set \<Rightarrow> nat) \<Rightarrow> (msg set \<Rightarrow> msg) \<Rightarrow> pwm_gen_module \<Rightarrow> isr irq_unit \<Rightarrow> mem_state \<Rightarrow> app_state \<Rightarrow>
    (isr irq_unit \<times> app_state) option" where
  "boot im bufs malloc malloc_req blk u ms s = do {
     (u, ms, s) \<leftarrow> alt_main im bufs (Some blk) u ms s;
     let s = failure_handler_init s;
     s \<leftarrow> failure_handler_step s;
     (u, s) \<leftarrow> solenoid_task_init bufs malloc u s;
     s \<leftarrow> solenoid_step malloc_req s;
     (running, s) \<leftarrow> throttle_task_init bufs (Some blk) (Some blk) (Some blk) s;
     Some (u, s)
   }"

text \<open>With the timer registered, the registration of the buttons completes the table of handlers.\<close>

lemma buttons_registered:
  assumes "clock_registered u u'" "alt_irq_active u = 0"
  shows "lines_registered (snd (alt_irq_register BUTTONS_IRQ 0 (Some Isr_Btn) u'))"
  using assms
  by (simp add: clock_registered_def lines_registered_def register_sets ALT_NIRQ_def BUTTONS_IRQ_def SYS_CLK_TIMER_IRQ_def)

section \<open>The kernel meanwhile\<close>

lemma events_free_parks:
  assumes "events_free n k" "queues_free m k" "parks p e k k'" "e < n"
  shows "events_free n k'" "queues_free m k'"
proof -
  have f: "OSEventFreeList k' = OSEventFreeList k" "OSQFreeList k' = OSQFreeList k"
    "OSEventPtr (ECB k' x) = OSEventPtr (ECB k x)" "OSQPtr (QCB k' y) = OSQPtr (QCB k y)" for x y
    using assms(3) unfolding parks_def free_blocks_def prod.inject by (auto dest: fun_cong)
  show "events_free n k'" "queues_free m k'"
    using assms(1-4) by (auto simp: events_free_def queues_free_def f parks_def)
qed

lemma created_settled:
  assumes s: "settled 0 k" and ev: "events_free n k" and ok: "kernel_ok k'" and fr: "event_frame k k'" and len: "n + l \<le> 60"
    and old: "\<forall>e. e < n \<or> n + l \<le> e \<longrightarrow> ECB k' e = ECB k e" and new: "\<forall>e. n \<le> e \<and> e < n + l \<longrightarrow> wait_set e k' = {}"
  shows "settled 0 k'" "wait_set e k' = wait_set e k"
proof -
  note c = settledD(1) [OF s] and fs = event_frame_sets [OF fr]
  show w: "wait_set e k' = wait_set e k" for e
  proof (cases "n \<le> e \<and> e < n + l")
    case True
    then show ?thesis using new ev len by (simp add: events_free_def)
  next
    case False
    then have "ECB k' e = ECB k e" using old by auto
    then show ?thesis by (simp add: wait_set_def waiters_def)
  qed
  have t: "TCB k' = TCB k" using fr by (simp add: event_frame_def)
  have "untimed k'" using calmD(5) [OF c] by (simp add: untimed_def w t fs(1))
  moreover have "list_ok k' = list_ok k"
    by (rule list_ok_cong) (use fr in \<open>simp_all add: event_frame_def\<close>)
  ultimately have "calm 0 k'" using c ok fr fs(1,4) by (simp add: calm_def started_def event_frame_def)
  moreover have "highest_runs k'"
    using settledD(2) [OF s] fs(2,4) fr by (simp add: highest_runs_def event_frame_def)
  ultimately show "settled 0 k'" by (simp add: settled_def)
qed

lemma settled_runs: "settled 0 k \<Longrightarrow> unat (OSPrioCur k) = Min (ready_set k)"
  using settledD(2) by (simp add: highest_runs_def)

section \<open>The three tasks\<close>

lemma main_settled:
  assumes "kernel_ok k" "list_ok k" "highest_runs k" "OSRunning k = OS_TRUE" "OSIntNesting k = 0" "OSLockNesting k = 0"
    "OSStatRdy k = OS_FALSE" "OSTickStepState k = OS_TICK_STEP_DIS" "\<forall>e. wait_set e k = {}"
    "\<forall>p i. task_at k p i \<longleftrightarrow> (p, i) \<in> {(1, 2), (2, 4), (3, 3), (19, 1), (20, 0)}"
  shows "settled 0 k"
proof -
  have "untimed k" using assms(9) by (simp add: untimed_def)
  then have "calm 0 k" using assms by (auto simp: calm_def started_def highest_runs_def program_tasks_def SOLENOID_TASK_PRIORITY_def)
  then show ?thesis using assms(3) by (simp add: settled_def)
qed

text \<open>The failure handler waits for its first message.\<close>

lemma failure_first:
  assumes s: "settled 0 (os s)" and r: "ready_set (os s) = {1, 2, 3, 19, 20}" and f: "f_pc (fh s) = F_Loop"
    and q: "failure_code_q s = Some e" "is_queue e 0 (os s)" "messages 0 (os s) = []"
  shows "\<exists>k. failure_handler_step s = Some (set_fh (\<lambda>f. f\<lparr> f_pc := F_Msg_Wait \<rparr>) (s\<lparr> os := k \<rparr>)) \<and> parks 1 e (os s) k"
proof -
  have p: "unat (OSPrioCur (os s)) = 1" using settled_runs [OF s] r by simp
  then have "OSPrioCur (os s) \<noteq> 20" by auto
  then obtain k where k: "OSQPend_enter (Some e) 0 (Some 0) (os s) = Some (False, 0, Some 0, k)" "parks 1 e (os s) k"
    using q_pend_blocks [OF s _ q(2,3)] p by auto
  then show ?thesis
    using f q(1) by (intro exI [of _ k]) (simp add: failure_handler_step_def q_pend_def get_failure_msg_q_def)
qed

text \<open>The solenoid task empties the queue of button presses and waits for one.\<close>

lemma solenoid_first:
  assumes s: "settled 0 (os s)" and r: "ready_set (os s) = {2, 3, 19, 20}" and pc: "s_pc (sol s) = S_Loop"
    and q: "btn_input_q s = Some e" "is_queue e q (os s)" and ev: "events_free n (os s)" "queues_free m (os s)" "e < n"
  shows "\<exists>s'. solenoid_step malloc_req s = Some s' \<and> onward 0 (os s) (os s') \<and> ready_set (os s') = {3, 19, 20} \<and>
     (\<forall>e'. wait_set e' (os s') = (if e' = e then insert 2 (wait_set e (os s)) else wait_set e' (os s))) \<and>
     events_free n (os s') \<and> queues_free m (os s') \<and> flags s' = flags s \<and> queues s' = queues s \<and> fh s' = fh s \<and>
     sol s' = (sol s)\<lparr> s_pc := S_Button_Wait \<rparr> \<and> gear_display s' = gear_display s \<and> tables s' = tables s"
proof -
  define k where "k = set_ring q (ring_flush (get_ring q (os s))) (os s)"
  note fl = flush_blocks [OF q(2), folded k_def]
  have k: "quiet 0 (os s) k" using flush_quiet [OF s q(2)] fl(1) by auto
  have sets: "ready_set k = ready_set (os s)" "wait_set e' k = wait_set e' (os s)" for e' by (simp_all add: k_def)
  have ev1: "events_free n k" "queues_free m k"
  proof -
    have f: "OSEventFreeList k = OSEventFreeList (os s)" "OSQFreeList k = OSQFreeList (os s)"
      "OSEventPtr (ECB k x) = OSEventPtr (ECB (os s) x)" "OSQPtr (QCB k y) = OSQPtr (QCB (os s) y)" for x y
      using fl(3) unfolding free_blocks_def prod.inject by (auto dest: fun_cong)
    show "events_free n k" "queues_free m k" using ev by (simp_all add: events_free_def queues_free_def f sets)
  qed
  have p: "unat (OSPrioCur k) = 2" using settled_runs [OF quietD(1) [OF k]] r sets by simp
  then have "OSPrioCur k \<noteq> 20" by auto
  moreover have "is_queue e q k" using os_keepD(5) [OF quietD(2) [OF k] q(2)] .
  ultimately obtain k' where k': "OSQPend_enter (Some e) 0 (Some 0) k = Some (False, 0, Some 0, k')" "parks 2 e k k'"
    using q_pend_blocks [OF quietD(1) [OF k] _ _ fl(2)] p by auto
  define s1 where "s1 = set_irq_mask (BUTTON_INPUT_SHIFT_UP OR BUTTON_INPUT_SHIFT_DOWN) (clear_edge_cap (s\<lparr> os := k \<rparr>))"
  have s1: "os s1 = k" "btn_input_q s1 = Some e" "flags s1 = flags s" "queues s1 = queues s" "fh s1 = fh s" "sol s1 = sol s"
    "gear_display s1 = gear_display s" "tables s1 = tables s"
    using q(1) by (simp_all add: s1_def set_irq_mask_def clear_edge_cap_def flags_def queues_def gear_display_def)
  have pend: "q_pend (btn_input_q s1) 0 s1 = Some (None, s1\<lparr> os := k' \<rparr>)" using k'(1) s1(1,2) by (simp add: q_pend_def)
  define s' where "s' = go_solenoid S_Button_Wait (s1\<lparr> os := k' \<rparr>)"
  have go: "solenoid_step malloc_req s = Some s'"
    unfolding solenoid_step_def pc solenoid_pc.case solenoid_loop_head_def q(1) fl(1) Option.bind.simps prod.case Let_def
      s1_def [symmetric] Q_TIMEOUT_WAIT_FOREVER_def pend option.case s'_def ..
  have os': "os s' = k'" by (simp add: s'_def go_solenoid_def set_sol_def)
  have ev': "events_free n k'" "queues_free m k'" using events_free_parks [OF ev1 k'(2) ev(3)] by blast+
  have "onward 0 (os s) k'" using onward_trans [OF quietD(3) [OF k]] quietD(5) [OF k] k'(2) by (simp add: parks_def)
  moreover have "ready_set k' = {3, 19, 20}" using k'(2) r sets by (auto simp: parks_def)
  moreover have "\<forall>e'. wait_set e' k' = (if e' = e then insert 2 (wait_set e (os s)) else wait_set e' (os s))"
    using k'(2) sets by (simp add: parks_def)
  moreover have "flags s' = flags s" "queues s' = queues s" "fh s' = fh s" "sol s' = (sol s)\<lparr> s_pc := S_Button_Wait \<rparr>"
    "gear_display s' = gear_display s" "tables s' = tables s"
    using s1 by (simp_all add: s'_def go_solenoid_def) (simp_all add: set_sol_def flags_def queues_def)
  ultimately show ?thesis using go ev' os' by blast
qed

text \<open>What the initialisation of the solenoid task leaves.\<close>

lemma solenoid_init_ok:
  assumes k: "settled 0 (os s)" "events_free n (os s)" "n + 4 \<le> 60" "queues_free m (os s)" "m + 2 \<le> 20"
    and buf: "unat (solenoid_btn_buf bufs) + 1024 < 2 ^ 32" "unat (shift_matching_result_buf bufs) + 1024 < 2 ^ 32"
  shows "\<exists>s'. solenoid_task_init bufs malloc u s = Some (snd (alt_irq_register BUTTONS_IRQ 0 (Some Isr_Btn) u), s') \<and> settled 0 (os s') \<and> events_free (n + 4) (os s') \<and>
     queues_free (m + 2) (os s') \<and> (\<forall>e. wait_set e (os s') = wait_set e (os s)) \<and> ready_set (os s') = ready_set (os s) \<and>
     (\<forall>e < n. ECB (os s') e = ECB (os s) e) \<and> (\<forall>q < m. QCB (os s') q = QCB (os s) q) \<and> storage (os s') = storage (os s) \<and>
     btn_input_q s' = Some n \<and> solenoid_external_failure_flag s' = Some (n + 1) \<and>
     solenoid_failure_resolved_flag s' = Some (n + 2) \<and> rpm_matching_result_q s' = Some (n + 3) \<and>
     is_sem (n + 1) (os s') \<and> is_sem (n + 2) (os s') \<and> (\<exists>q < m + 2. is_queue n q (os s')) \<and> (\<exists>q < m + 2. is_queue (n + 3) q (os s')) \<and>
     curr_gear (sol s') = 1 \<and> thr s' = thr s \<and> fh s' = fh s \<and> tables s' = tables s \<and> s_shift_matching_q (sol s') = None \<and> s_pc (sol s') = S_Loop \<and>
     failure_code_q s' = failure_code_q s \<and> gear_display s' = 0"
proof -
  note c = settledD(1) [OF k(1)]
  have l: "list_all fits_memory (solenoid_events bufs)" "length (solenoid_events bufs) = 4" "queues_in (solenoid_events bufs) = 2"
    using buf by (simp_all add: solenoid_events_def queues_in_def)
  obtain k' where k': "create_list (solenoid_events bufs) (os s) = Some (map Some [n..<n + 4], k')" "kernel_ok k'"
    "events_free (n + 4) k'" "queues_free (m + 2) k'" "event_frame (os s) k'"
    "\<forall>e. e < n \<or> n + 4 \<le> e \<longrightarrow> ECB k' e = ECB (os s) e" "\<forall>q < m. QCB k' q = QCB (os s) q"
    "\<forall>j < 4. created (m + 2) (solenoid_events bufs ! j) (n + j) k'"
    using create_list_ok [OF calmD(1) [OF c] k(2,4) calmD(3) [OF c] l(1)] k(3,5) l(2,3) by auto
  have es: "map Some [n..<n + 4] = [Some n, Some (n + 1), Some (n + 2), Some (n + 3)]" by (simp add: upt_conv_Cons)
  have new: "\<forall>e. n \<le> e \<and> e < n + 4 \<longrightarrow> wait_set e k' = {}"
  proof (intro allI impI)
    fix e assume "n \<le> e \<and> e < n + 4"
    then show "wait_set e k' = {}"
      using k'(8) [rule_format, of "e - n"] by (cases "solenoid_events bufs ! (e - n)") auto
  qed
  have ev: "is_sem (n + 1) k'" "is_sem (n + 2) k'" "\<exists>q < m + 2. is_queue n q k'" "\<exists>q < m + 2. is_queue (n + 3) q k'"
    using k'(8) [rule_format, of 0] k'(8) [rule_format, of 1] k'(8) [rule_format, of 2] k'(8) [rule_format, of 3]
    by (auto simp: solenoid_events_def)
  obtain s' where s': "solenoid_task_init bufs malloc u s = Some (snd (alt_irq_register BUTTONS_IRQ 0 (Some Isr_Btn) u), s')" "os s' = k'" "btn_input_q s' = Some n"
    "solenoid_external_failure_flag s' = Some (n + 1)" "solenoid_failure_resolved_flag s' = Some (n + 2)"
    "rpm_matching_result_q s' = Some (n + 3)" "curr_gear (sol s') = 1" "thr s' = thr s" "fh s' = fh s" "tables s' = tables s"
    "s_shift_matching_q (sol s') = None" "s_pc (sol s') = S_Loop" "failure_code_q s' = failure_code_q s"
    "reg8 (io s') CURR_GEAR_OUT_BASE = 0"
    using solenoid_task_init_list [OF k'(1) [unfolded es], of malloc u] by (elim exE conjE) (rule that; assumption)
  have "settled 0 k'" "\<forall>e. wait_set e k' = wait_set e (os s)"
    using created_settled [OF k(1,2) k'(2,5) k(3) k'(6) new] by blast+
  moreover have "ready_set k' = ready_set (os s)" "storage k' = storage (os s)"
    using event_frame_sets(2) [OF k'(5)] k'(5) by (simp_all add: event_frame_def)
  ultimately show ?thesis
    using s' k'(3,4,6,7) ev by (intro exI [of _ s']) (simp add: gear_display_def)
qed

section \<open>The system runs\<close>

text \<open>The throttle task starts last; the invariant of the system then holds.\<close>

lemma throttle_first:
  assumes k: "settled 0 (os s)" "events_free n (os s)" "n + 7 \<le> 60" "queues_free m (os s)" "m < 20"
    and buf: "unat (shift_cmd_q_buf bufs) + 256 < 2 ^ 32"
    and blk: "period b \<noteq> 2500" "unat (duty_cycle b) \<noteq> 580" "unat (duty_cycle b) \<noteq> 1000"
    and h: "failure_code_q s = Some f" "btn_input_q s = Some e" "rpm_matching_result_q s = Some r"
      "solenoid_external_failure_flag s = Some x" "solenoid_failure_resolved_flag s = Some y" "f < n" "e < n" "r < n" "x < n" "y < n"
      "e \<noteq> f" "e \<noteq> r"
    and ev: "\<exists>q < m. is_queue f q (os s)" "\<exists>q < m. is_queue e q (os s)" "\<exists>q < m. is_queue r q (os s)"
      "is_sem x (os s)" "is_sem y (os s)"
    and waits: "\<forall>e. wait_set e (os s) = W e" "\<forall>e p. p \<in> W e \<longrightarrow> p \<in> {1, 2} \<and> waits_at s p = Some e" "2 \<in> W e"
    and gear: "curr_gear (sol s) = 1" "gear_display s = 0" "s_shift_matching_q (sol s) = None" "s_pc (sol s) = S_Button_Wait"
      "tables s = the_tables"
  shows "\<exists>s'. throttle_task_init bufs (Some a) (Some b) (Some b) s = Some (True, s') \<and> sys_ok s' \<and>
     (\<forall>e. wait_set e (os s') = W e) \<and> ready_set (os s') = ready_set (os s) \<and> t_pc (thr s') = T_Loop \<and>
     btn_input_q s' = btn_input_q s \<and> sol s' = sol s"
proof -
  note c = settledD(1) [OF k(1)]
  obtain s' q where s': "throttle_task_init bufs (Some a) (Some b) (Some b) s = Some (True, s')" "kernel_ok (os s')"
    "event_frame (os s) (os s')"
    "[apps_failure_flag s', tps_failure_flag s', motor_failure_flag s', throttle_task_external_failure_flag s',
      throttle_task_failure_resolved_flag s', exit_shift_matching_flag s', shift_matching_q s'] = map Some [n..<n + 7]"
    "\<forall>e. n \<le> e \<and> e < n + 6 \<longrightarrow> is_sem e (os s') \<and> sem_abs e (os s') = (0, {})"
    "is_queue (n + 6) q (os s')" "motor_ok (motor_of s')" "duty_ok (curr_duty_cycle (thr s'))" "\<forall>e. e < n \<or> n + 7 \<le> e \<longrightarrow> ECB (os s') e = ECB (os s) e"
    "\<forall>q < m. QCB (os s') q = QCB (os s) q" "\<forall>e. n \<le> e \<and> e < n + 7 \<longrightarrow> wait_set e (os s') = {}" "motor_placed (thr s')"
    "t_pc (thr s') = T_Loop" "reg8 (io s') CURR_GEAR_OUT_BASE = reg8 (io s) CURR_GEAR_OUT_BASE" "started_from s s'"
    using throttle_initialised [OF calmD(1) [OF c] k(2-5) calmD(3) [OF c] buf blk(1,2,1,3), of a] by (elim exE conjE) (rule that; assumption)
  note set = created_settled [OF k(1,2) s'(2,3) k(3) s'(9,11)]
  have st: "storage (os s') = storage (os s)" using s'(3) by (simp add: event_frame_def)
  have old_q: "\<exists>q. is_queue g q (os s')" if "\<exists>q < m. is_queue g q (os s)" "g < n" for g
    using that s'(9,10) st by (auto simp: is_queue_def q_of_def get_ring_def)
  have old_s: "is_sem g (os s')" if "is_sem g (os s)" "g < n" for g using that s'(9) by (simp add: is_sem_def)
  have new: "apps_failure_flag s' = Some n" "tps_failure_flag s' = Some (n + 1)" "motor_failure_flag s' = Some (n + 2)"
    "throttle_task_external_failure_flag s' = Some (n + 3)" "throttle_task_failure_resolved_flag s' = Some (n + 4)"
    "exit_shift_matching_flag s' = Some (n + 5)" "shift_matching_q s' = Some (n + 6)"
    using s'(4) by (simp_all add: upt_conv_Cons)
  have keep: "failure_code_q s' = Some f" "failure_msg_q s' = Some f" "btn_input_q s' = Some e" "rpm_matching_result_q s' = Some r"
    "matching_result_q s' = Some r" "solenoid_external_failure_flag s' = Some x" "solenoid_failure_resolved_flag s' = Some y"
    "sol s' = sol s" "fh s' = fh s" "tables s' = the_tables" using s'(15) h gear(5) by (simp_all add: started_from_def)
  have "\<exists>q. is_queue (n + 6) q (os s')" using s'(6) by blast
  then have "wired s'"
    using s'(5) old_q [OF ev(1) h(6)] old_q [OF ev(2) h(7)] old_q [OF ev(3) h(8)] old_s [OF ev(4) h(9)] old_s [OF ev(5) h(10)]
    by (simp add: wired_def flags_def queues_def new keep)
  moreover have "waits_at s' p = waits_at s p" if "p \<in> {1, 2}" for p
    using that keep h by (auto simp: waits_at_def split: solenoid_pc.split failure_pc.split)
  then have "in_place s'" using waits set(2) by (simp add: in_place_def)
  moreover have "requests_ok s'" using gear(3,4) by (simp add: requests_ok_def keep)
  moreover have "apart s'" using h(6-8,11,12) by (auto simp: apart_def new keep)
  moreover have "button_ok s'" using waits(3) set(2) waits(1) by (simp add: button_ok_def served_def keep SOLENOID_TASK_PRIORITY_def)
  moreover have "gear_ok s'" using gear s'(14) by (simp add: gear_ok_def keep gear_display_def)
  moreover have "drive_ok s'" using s'(7,8,12) by (simp add: drive_ok_def motor_placed_def)
  ultimately have "sys_ok s'" using set(1) s'(13) keep(10) by (simp add: sys_ok_def)
  then show ?thesis using s'(1,13) set(2) waits(1) keep(3,8) h(2) event_frame_sets(2) [OF s'(3)] by (intro exI [of _ s']) simp
qed

lemma boot_ok:
  assumes mem: "OSTickStepState (os s) = OS_TICK_STEP_DIS" "tables s = zero_tables"
      "alt_irq_active u = 0"
    and buf: "unat (failure_code_buf bufs) + 1024 < 2 ^ 32" "unat (solenoid_btn_buf bufs) + 1024 < 2 ^ 32"
      "unat (shift_matching_result_buf bufs) + 1024 < 2 ^ 32" "unat (shift_cmd_q_buf bufs) + 256 < 2 ^ 32"
    and blk: "period blk \<noteq> 2500" "unat (duty_cycle blk) \<noteq> 580" "unat (duty_cycle blk) \<noteq> 1000"
  shows "\<exists>u' s'. boot im bufs malloc malloc_req blk u ms s = Some (u', s') \<and> lines_registered u' \<and> sys_ok s' \<and> t_pc (thr s') = T_Loop \<and>
     OSPrioCur (os s') = THROTTLE_CONTROL_TASK_PRIORITY \<and> ready_set (os s') = {3, 19, 20} \<and>
     wait_set 3 (os s') = {1} \<and> wait_set 5 (os s') = {2} \<and> btn_input_q s' = Some 5 \<and>
     curr_gear (sol s') = 1"
proof -
  obtain u1 ms1 s0 where s0: "clock_registered u u1" "alt_main im bufs (Some blk) u ms s = Some (u1, ms1, s0)"
    "kernel_ok (os s0)" "list_ok (os s0)" "highest_runs (os s0)" "ready_set (os s0) = {1, 2, 3, 19, 20}" "OSRunning (os s0) = OS_TRUE"
    "failure_code_q s0 = Some 3" "is_queue 3 0 (os s0)" "messages 0 (os s0) = []" "events_free 5 (os s0)" "queues_free 1 (os s0)"
    "OSIntNesting (os s0) = 0" "OSLockNesting (os s0) = 0" "OSStatRdy (os s0) = OS_FALSE"
    "OSTickStepState (os s0) = OSTickStepState (os s)"
    "\<forall>p i. task_at (os s0) p i \<longleftrightarrow> (p, i) \<in> {(1, 2), (2, 4), (3, 3), (19, 1), (20, 0)}" "fh s0 = fh s"
    "tables s0 = throttle_data_init (tables s)" "\<forall>e. wait_set e (os s0) = {}"
    using alt_main_ok [OF buf(1) refl, of im blk u ms s] unfolding get_failure_msg_q_def
    by (elim exE conjE) (rule that; assumption)
  define s1 where "s1 = failure_handler_init s0"
  have os1: "os s1 = os s0" "failure_code_q s1 = failure_code_q s0" "tables s1 = tables s0" "f_pc (fh s1) = F_Loop"
    by (simp_all add: s1_def failure_handler_init_def set_fh_def set_leds_def Let_def)
  note s1 = s0(1,2) s0(3-17) [folded os1(1,2)] os1(4) s0(19) [folded os1(3)] s0(20) [folded os1(1)]
  have st1: "settled 0 (os s1)" using main_settled s1(3-7,13-17,20) mem(1) by simp
  obtain k2 where k2: "failure_handler_step s1 = Some (set_fh (\<lambda>f. f\<lparr> f_pc := F_Msg_Wait \<rparr>) (s1\<lparr> os := k2 \<rparr>))" "parks 1 3 (os s1) k2"
    using failure_first [OF st1 s1(6) _ s1(8-10)] s1(18) by auto
  define s2 where "s2 = set_fh (\<lambda>f. f\<lparr> f_pc := F_Msg_Wait \<rparr>) (s1\<lparr> os := k2 \<rparr>)"
  have s2: "os s2 = k2" "failure_code_q s2 = Some 3" "f_pc (fh s2) = F_Msg_Wait" "tables s2 = the_tables"
    using s1(8,19) mem(2) by (simp_all add: s2_def set_fh_def the_tables_def)
  have ev2: "events_free 5 k2" "queues_free 1 k2" using events_free_parks [OF s1(11,12) k2(2)] by simp_all
  have st2: "settled 0 k2" and w2: "\<forall>e. wait_set e k2 = (if e = 3 then {1} else {})" and r2: "ready_set k2 = {2, 3, 19, 20}"
    and q2: "is_queue 3 0 k2"
    using k2(2) s1(6,20) onwardD(1) os_keepD(5) [OF onwardD(2) s1(9)] by (auto simp: parks_def)
  have num: "(5 :: nat) + 4 = 9" "(5 :: nat) + 1 = 6" "(5 :: nat) + 2 = 7" "(5 :: nat) + 3 = 8" "(1 :: nat) + 2 = 3" by simp_all
  have le: "(9 :: nat) \<le> 60" "(3 :: nat) \<le> 20" "(5 :: nat) < 9" by simp_all
  define u3 where "u3 = snd (alt_irq_register BUTTONS_IRQ 0 (Some Isr_Btn) u1)"
  have u3: "lines_registered u3" unfolding u3_def by (rule buttons_registered [OF s1(1) mem(3)])
  obtain s3 q q' where s3: "solenoid_task_init bufs malloc u1 s2 = Some (u3, s3)" "settled 0 (os s3)" "events_free 9 (os s3)" "queues_free 3 (os s3)"
    "\<forall>e. wait_set e (os s3) = wait_set e (os s2)" "ready_set (os s3) = ready_set (os s2)" "\<forall>e < 5. ECB (os s3) e = ECB (os s2) e"
    "\<forall>q < 1. QCB (os s3) q = QCB (os s2) q" "storage (os s3) = storage (os s2)" "btn_input_q s3 = Some 5"
    "solenoid_external_failure_flag s3 = Some 6" "solenoid_failure_resolved_flag s3 = Some 7" "rpm_matching_result_q s3 = Some 8"
    "is_sem 6 (os s3)" "is_sem 7 (os s3)" "q < 3" "is_queue 5 q (os s3)" "q' < 3" "is_queue 8 q' (os s3)" "curr_gear (sol s3) = 1"
    "thr s3 = thr s2" "fh s3 = fh s2" "tables s3 = tables s2" "s_shift_matching_q (sol s3) = None" "s_pc (sol s3) = S_Loop"
    "failure_code_q s3 = failure_code_q s2" "gear_display s3 = 0"
    using solenoid_init_ok [of s2 5 1 bufs malloc u1, unfolded num s2(1) u3_def [symmetric], OF st2 ev2(1) le(1) ev2(2) le(2) buf(2,3)]
    by (elim exE conjE) (rule that [unfolded s2(1)]; assumption)
  have q3: "is_queue 3 0 (os s3)" using q2 s3(7-9) by (simp add: is_queue_def q_of_def get_ring_def s2(1))
  have r3: "ready_set (os s3) = {2, 3, 19, 20}" by (simp add: s3(6) s2(1) r2)
  obtain s4 where s4: "solenoid_step malloc_req s3 = Some s4" "onward 0 (os s3) (os s4)" "ready_set (os s4) = {3, 19, 20}"
    "\<forall>e'. wait_set e' (os s4) = (if e' = 5 then insert 2 (wait_set 5 (os s3)) else wait_set e' (os s3))"
    "events_free 9 (os s4)" "queues_free 3 (os s4)" "flags s4 = flags s3" "queues s4 = queues s3" "fh s4 = fh s3"
    "sol s4 = (sol s3)\<lparr> s_pc := S_Button_Wait \<rparr>" "gear_display s4 = gear_display s3"
    "tables s4 = tables s3"
    using solenoid_first [OF s3(2) r3 s3(25,10,17) s3(3,4) le(3), of malloc_req] by (elim exE conjE) (rule that; assumption)
  note keep4 = onwardD(2) [OF s4(2)]
  have h4: "failure_code_q s4 = Some 3" "btn_input_q s4 = Some 5" "rpm_matching_result_q s4 = Some 8"
    "solenoid_external_failure_flag s4 = Some 6" "solenoid_failure_resolved_flag s4 = Some 7"
    using s4(7,8) s3(10-13,26) s2(2) by (simp_all add: flags_def queues_def)
  define W :: "nat \<Rightarrow> nat set" where "W = (\<lambda>e. if e = 5 then {2} else if e = 3 then {1} else {})"
  have w4: "\<forall>e. wait_set e (os s4) = W e" using s4(4) s3(5) w2 by (simp add: W_def s2(1))
  have at4: "\<forall>e p. p \<in> W e \<longrightarrow> p \<in> {1, 2} \<and> waits_at s4 p = Some e"
    using h4(1,2) s4(9,10) s3(22) s2(3) by (auto simp: W_def waits_at_def)
  have wait5: "2 \<in> W 5" by (simp add: W_def)
  obtain s5 where s5: "throttle_task_init bufs (Some blk) (Some blk) (Some blk) s4 = Some (True, s5)" "sys_ok s5"
    "\<forall>e. wait_set e (os s5) = W e" "ready_set (os s5) = ready_set (os s4)" "t_pc (thr s5) = T_Loop"
    "btn_input_q s5 = btn_input_q s4" "sol s5 = sol s4"
    using throttle_first [OF onwardD(1) [OF s4(2)] s4(5) _ s4(6) _ buf(4) blk h4 _ _ _ _ _ _ _ _ _ _ _ _ w4 at4, of blk] wait5
      os_keepD(4,5) [OF keep4] q3 s3(14-20,23,24,27) s4(10-12) s2(4) by fastforce
  have "boot im bufs malloc malloc_req blk u ms s = Some (u3, s5)"
    unfolding boot_def s1(2) Option.bind.simps prod.case Let_def s1_def [symmetric] k2(1) s2_def [symmetric] s3(1) s4(1) s5(1) ..
  moreover have "unat (OSPrioCur (os s5)) = 3" using settled_runs [OF sys_okD(1) [OF s5(2)]] s5(4) s4(3) by simp
  then have "OSPrioCur (os s5) = THROTTLE_CONTROL_TASK_PRIORITY" by (simp add: word_unat_eq_iff)
  ultimately show ?thesis using s5 s4(3,10) s3(20) u3 h4(2) by (intro exI [of _ u3] exI [of _ s5]) (simp add: W_def)
qed

end
