(* ===== verification/Sys_Correct.thy ===== *)
theory Sys_Correct imports Sys_Boot begin

text \<open>
  The properties of the running program, most of them for every state that can be reached from power-up: the kernel
  runs the most urgent task, handles and waiting tasks are of the right type, the motor is cut while a
  failure is uncleared, delays end at their tick, a turn can get stuck only when the allocator of shift requests fails, and
  a button press is served and a shift ends as the driver expects.
\<close>

section \<open>Reachable states\<close>

text \<open>What the loader and the linker provide: zeroed variables, queue buffers inside the address space, blocks
  of the allocator that do not by chance hold the requested settings. Every \<open>malloc\<close> of a PWM block is
  represented by \<open>blk\<close>, whose contents are overwritten.\<close>

definition powered_up :: "buffers \<Rightarrow> pwm_gen_module \<Rightarrow> isr irq_unit \<Rightarrow> app_state \<Rightarrow> bool" where
  "powered_up bufs blk u s \<longleftrightarrow> alt_irq_active u = 0 \<and> OSTickStepState (os s) = OS_TICK_STEP_DIS \<and> tables s = zero_tables \<and>
     unat (failure_code_buf bufs) + 1024 < 2 ^ 32 \<and> unat (solenoid_btn_buf bufs) + 1024 < 2 ^ 32 \<and>
     unat (shift_matching_result_buf bufs) + 1024 < 2 ^ 32 \<and> unat (shift_cmd_q_buf bufs) + 256 < 2 ^ 32 \<and>
     period blk \<noteq> 2500 \<and> unat (duty_cycle blk) \<noteq> 580 \<and> unat (duty_cycle blk) \<noteq> 1000"

text \<open>The states that sequences of happenings lead to after the start.\<close>

definition reachable ::
  "app_image \<Rightarrow> buffers \<Rightarrow> (nat set \<Rightarrow> nat) \<Rightarrow> (msg set \<Rightarrow> msg) \<Rightarrow> pwm_gen_module \<Rightarrow>
    isr irq_unit \<Rightarrow> mem_state \<Rightarrow> app_state \<Rightarrow> system \<Rightarrow> bool" where
  "reachable im bufs malloc malloc_req blk u ms s y \<longleftrightarrow>
     (\<exists>u0 s0 hs. boot im bufs malloc malloc_req blk u ms s = Some (u0, s0) \<and>
        system_run malloc malloc_req hs \<lparr> app = s0, stat = STAT_WAIT, irqs = u0 \<rparr> y)"

lemma powered_up_boots:
  assumes "powered_up bufs blk u s"
  shows "\<exists>y. reachable im bufs malloc malloc_req blk u ms s y \<and> system_ok y \<and> t_pc (thr (app y)) = T_Loop \<and>
     OSPrioCur (os (app y)) = THROTTLE_CONTROL_TASK_PRIORITY \<and> ready_set (os (app y)) = {3, 19, 20} \<and>
     wait_set 3 (os (app y)) = {1} \<and> wait_set 5 (os (app y)) = {2} \<and> btn_input_q (app y) = Some 5 \<and> curr_gear (sol (app y)) = 1"
proof -
  obtain u0 s0 where s0: "boot im bufs malloc malloc_req blk u ms s = Some (u0, s0)" "lines_registered u0" "sys_ok s0" "t_pc (thr s0) = T_Loop"
    "OSPrioCur (os s0) = THROTTLE_CONTROL_TASK_PRIORITY" "ready_set (os s0) = {3, 19, 20}" "wait_set 3 (os s0) = {1}"
    "wait_set 5 (os s0) = {2}" "btn_input_q s0 = Some 5" "curr_gear (sol s0) = 1"
    using boot_ok [of s u bufs blk im malloc malloc_req ms] assms unfolding powered_up_def by blast
  have "reachable im bufs malloc malloc_req blk u ms s \<lparr> app = s0, stat = STAT_WAIT, irqs = u0 \<rparr>"
    unfolding reachable_def using s0(1) run_stops by blast
  then show ?thesis using s0 by (intro exI [of _ "\<lparr> app = s0, stat = STAT_WAIT, irqs = u0 \<rparr>"]) (simp add: system_ok_def)
qed

lemma reachable_ok:
  assumes "powered_up bufs blk u s" "reachable im bufs malloc malloc_req blk u ms s y"
  shows "system_ok y"
proof -
  obtain u0 s0 hs where s0: "boot im bufs malloc malloc_req blk u ms s = Some (u0, s0)"
    "system_run malloc malloc_req hs \<lparr> app = s0, stat = STAT_WAIT, irqs = u0 \<rparr> y" using assms(2) by (auto simp: reachable_def)
  then have "system_ok \<lparr> app = s0, stat = STAT_WAIT, irqs = u0 \<rparr>"
    using boot_ok [of s u bufs blk im malloc malloc_req ms] assms(1) by (auto simp: powered_up_def system_ok_def)
  then show ?thesis using run_ok [OF s0(2)] by blast
qed

lemma reachable_sys_ok:
  assumes "powered_up bufs blk u s" "reachable im bufs malloc malloc_req blk u ms s y"
  shows "sys_ok (app y)" "stat y = STAT_WAIT" "lines_registered (irqs y)"
  using reachable_ok [OF assms] by (simp_all add: system_ok_def)

section \<open>A concrete start\<close>

definition boot_app :: app_state where
  "boot_app = example_app\<lparr> tables := zero_tables \<rparr>"

abbreviation sample_reachable :: "system \<Rightarrow> bool" where
  "sample_reachable \<equiv> reachable sample_image sample_buffers (\<lambda>_. 9) (\<lambda>_. 9) sample_block sample_unit example_mem boot_app"

lemma boot_app_powered_up: "powered_up sample_buffers sample_block sample_unit boot_app"
  by (simp add: powered_up_def boot_app_def sample_buffers_def sample_block_def example_app_def sample_unit_def)

lemmas sample_boots = powered_up_boots [OF boot_app_powered_up, of sample_image "\<lambda>_. 9" "\<lambda>_. 9" example_mem]

section \<open>Invariants\<close>

text \<open>C1: From power-up the program starts, with the throttle task as the first to enter its loop, the failure
  handler waiting for a message and the solenoid task for a button; and whatever the tasks, the timer, the buttons and
  the devices then do, in every state reached the kernel is consistent, the running task is the ready task of the
  smallest priority number, the gear is between 1 and 4 and is the one on display, both PWM modules of the motor agree
  with their registers, with a duty cycle in the range of the regulators, and what happens next shifts by at most one gear.\<close>

theorem program_invariant:
  assumes "powered_up bufs blk u s"
  shows "(\<exists>y. reachable im bufs malloc malloc_req blk u ms s y \<and> t_pc (thr (app y)) = T_Loop \<and>
        OSPrioCur (os (app y)) = THROTTLE_CONTROL_TASK_PRIORITY \<and> wait_set 3 (os (app y)) = {1} \<and> wait_set 5 (os (app y)) = {2}) \<and>
     (\<forall>y. reachable im bufs malloc malloc_req blk u ms s y \<longrightarrow>
        kernel_ok (os (app y)) \<and> list_ok (os (app y)) \<and> unat (OSPrioCur (os (app y))) = Min (ready_set (os (app y))) \<and>
        1 \<le> curr_gear (sol (app y)) \<and> curr_gear (sol (app y)) \<le> NUM_GEARS \<and>
        reg8 (io (app y)) CURR_GEAR_OUT_BASE = curr_gear (sol (app y)) - 1 \<and>
        motor_ok (motor_of (app y)) \<and> duty_ok (curr_duty_cycle (thr (app y))) \<and>
        (\<forall>h y'. system_step malloc malloc_req h y y' \<longrightarrow>
           unat (curr_gear (sol (app y'))) \<le> unat (curr_gear (sol (app y))) + 1 \<and>
           unat (curr_gear (sol (app y))) \<le> unat (curr_gear (sol (app y'))) + 1))"
proof (intro conjI allI impI)
  show "\<exists>y. reachable im bufs malloc malloc_req blk u ms s y \<and> t_pc (thr (app y)) = T_Loop \<and>
        OSPrioCur (os (app y)) = THROTTLE_CONTROL_TASK_PRIORITY \<and> wait_set 3 (os (app y)) = {1} \<and> wait_set 5 (os (app y)) = {2}"
    using powered_up_boots [OF assms, of im malloc malloc_req ms] by blast
  fix y assume r: "reachable im bufs malloc malloc_req blk u ms s y"
  note d = sys_okD [OF reachable_sys_ok(1) [OF assms r]]
  note c = settledD(1) [OF d(1)]
  show "kernel_ok (os (app y))" "list_ok (os (app y))" using calmD(1,7) [OF c] by blast+
  show "unat (OSPrioCur (os (app y))) = Min (ready_set (os (app y)))" by (rule settled_runs [OF d(1)])
  show "1 \<le> curr_gear (sol (app y))" "curr_gear (sol (app y)) \<le> NUM_GEARS"
    "reg8 (io (app y)) CURR_GEAR_OUT_BASE = curr_gear (sol (app y)) - 1"
    using d(5) by (simp_all add: gear_ok_def gear_display_def)
  show "motor_ok (motor_of (app y))" "duty_ok (curr_duty_cycle (thr (app y)))" using d(6) unfolding drive_ok_def by blast+
  fix h y' assume "system_step malloc malloc_req h y y'"
  from step_gear [OF this reachable_ok [OF assms r]]
  show "unat (curr_gear (sol (app y'))) \<le> unat (curr_gear (sol (app y))) + 1"
    "unat (curr_gear (sol (app y))) \<le> unat (curr_gear (sol (app y'))) + 1" by (simp_all add: one_step_def)
qed

theorem program_invariant_witness:
  "\<exists>y. sample_reachable y \<and> wait_set 5 (os (app y)) = {2} \<and> curr_gear (sol (app y)) \<le> 4"
  using program_invariant [OF boot_app_powered_up, of sample_image "\<lambda>_. 9" "\<lambda>_. 9" example_mem]
  unfolding NUM_GEARS_def by blast

text \<open>C5: In every state reached each of the eight flags of the program is the handle of a semaphore and each queue
  handle that of a queue with a sound ring, and a task can wait for nothing but the event that its program point names:
  no handle is null, dangling or of the wrong type, and no task is in two wait lists.\<close>

theorem handles_well_typed:
  assumes "powered_up bufs blk u s" "reachable im bufs malloc malloc_req blk u ms s y"
  shows "(\<forall>f \<in> set (flags (app y)). \<exists>e. f = Some e \<and> is_sem e (os (app y))) \<and>
     (\<forall>h \<in> set (queues (app y)). \<exists>e q. h = Some e \<and> is_queue e q (os (app y))) \<and>
     (\<forall>p e. p \<in> wait_set e (os (app y)) \<longrightarrow> waits_at (app y) p = Some e)"
  using sys_okD(2,3) [OF reachable_sys_ok(1) [OF assms]] by (simp add: wired_def in_place_def)

theorem handles_well_typed_witness:
  "\<exists>y. sample_reachable y \<and> waits_at (app y) 2 = Some 5"
proof -
  obtain y where y: "sample_reachable y" "wait_set 5 (os (app y)) = {2}" using sample_boots by blast
  then show ?thesis using handles_well_typed [OF boot_app_powered_up y(1)] by blast
qed

section \<open>Safety\<close>

text \<open>C2: From any state in which the invariant holds, whatever happens next: while the throttle task is at its wait
  for a failure to be cleared, the on-time registers of both motor modules hold their whole period, so that both sides of the
  motor are driven alike and it has no torque. As long as the task is in a wait list it is the one of the flag for a resolved
  failure, the task is not ready, and the kernel holds no timeout for it: its delay is zero and its state is that of a pending
  semaphore, neither timed out nor suspended, so that no tick of the clock ends the wait.\<close>

theorem failure_cuts_torque:
  assumes "system_ok y0" "system_run malloc malloc_req hs y0 y" "t_pc (thr (app y)) = T_Failure_Wait"
  shows "reg32 (io (app y)) PWM_GENERATOR_THROTTLE_OPEN_AVALON_SLAVE_DUTY_BASE =
       reg32 (io (app y)) PWM_GENERATOR_THROTTLE_OPEN_AVALON_SLAVE_PERIOD_BASE \<and>
     reg32 (io (app y)) PWM_GENERATOR_THROTTLE_CLOSE_AVALON_SLAVE_DUTY_BASE =
       reg32 (io (app y)) PWM_GENERATOR_THROTTLE_CLOSE_AVALON_SLAVE_PERIOD_BASE \<and>
     (\<forall>e i. THROTTLE_CONTROL_TASK_PRIORITY \<in> wait_set e (os (app y)) \<and> task_at (os (app y)) THROTTLE_CONTROL_TASK_PRIORITY i \<longrightarrow>
        throttle_task_failure_resolved_flag (app y) = Some e \<and> THROTTLE_CONTROL_TASK_PRIORITY \<notin> ready_set (os (app y)) \<and>
        OSTCBDly (TCB (os (app y)) i) = 0 \<and> pend_bits (OSTCBStat (TCB (os (app y)) i)) = OS_STAT_SEM \<and>
        \<not> suspended (TCB (os (app y)) i))"
proof -
  have ok: "sys_ok (app y)" using run_ok [OF assms(2,1)] by (simp add: system_ok_def)
  have full: "duty_count m = period m" if "pwm_in_step (m, r)" "unat (duty_cycle m) = 1000" for m r
    using that by (simp add: pwm_in_step_def word_unat_eq_iff)
  have cut: "cut_off (app y)" using ok assms(3) by (simp add: sys_ok_def)
  have dr: "drive_ok (app y)" using sys_okD(6) [OF ok] .
  then have step: "pwm_in_step (pwm_throttle_open (thr (app y)), io (app y))" "pwm_in_step (pwm_throttle_close (thr (app y)), io (app y))"
    by (simp_all add: drive_ok_def motor_ok_def motor_of_def)
  have "duty_count (pwm_throttle_open (thr (app y))) = period (pwm_throttle_open (thr (app y)))"
    "duty_count (pwm_throttle_close (thr (app y))) = period (pwm_throttle_close (thr (app y)))"
    using full [OF step(1)] full [OF step(2)] cut by (simp_all add: cut_off_def motor_of_def open_duty_def close_duty_def)
  then have regs: "reg32 (io (app y)) PWM_GENERATOR_THROTTLE_OPEN_AVALON_SLAVE_DUTY_BASE =
       reg32 (io (app y)) PWM_GENERATOR_THROTTLE_OPEN_AVALON_SLAVE_PERIOD_BASE"
     "reg32 (io (app y)) PWM_GENERATOR_THROTTLE_CLOSE_AVALON_SLAVE_DUTY_BASE =
       reg32 (io (app y)) PWM_GENERATOR_THROTTLE_CLOSE_AVALON_SLAVE_PERIOD_BASE"
    using step dr by (simp_all add: pwm_in_step_def drive_ok_def)
  have at: "waits_at (app y) 3 = throttle_task_failure_resolved_flag (app y)" using assms(3) by (simp add: waits_at_def)
  have "\<forall>e i. 3 \<in> wait_set e (os (app y)) \<and> task_at (os (app y)) 3 i \<longrightarrow>
      throttle_task_failure_resolved_flag (app y) = Some e \<and> 3 \<notin> ready_set (os (app y)) \<and> OSTCBDly (TCB (os (app y)) i) = 0 \<and>
      pend_bits (OSTCBStat (TCB (os (app y)) i)) = OS_STAT_SEM \<and> \<not> suspended (TCB (os (app y)) i)"
  proof (intro allI impI)
    fix e i assume "3 \<in> wait_set e (os (app y)) \<and> task_at (os (app y)) 3 i"
    then have w: "3 \<in> wait_set e (os (app y))" and i: "task_at (os (app y)) 3 i" by blast+
    note c = settledD(1) [OF sys_okD(1) [OF ok]]
    have e: "throttle_task_failure_resolved_flag (app y) = Some e" using sys_okD(3) [OF ok] w at unfolding in_place_def by metis
    have "is_sem e (os (app y))"
      using wired_flag [OF sys_okD(2) [OF ok], of "throttle_task_failure_resolved_flag (app y)"] e by (auto simp: flags_def)
    then have "event_mask (OSEventType (ECB (os (app y)) e)) = OS_STAT_SEM" by (simp add: is_sem_def event_mask_def)
    moreover have "pend_bits (OSTCBStat (TCB (os (app y)) i)) \<in> {0, event_mask (OSEventType (ECB (os (app y)) e))}"
      using kernel_okD(4) [OF calmD(1) [OF c] i] w unfolding task_ok_def by blast
    ultimately show "throttle_task_failure_resolved_flag (app y) = Some e \<and> 3 \<notin> ready_set (os (app y)) \<and>
      OSTCBDly (TCB (os (app y)) i) = 0 \<and> pend_bits (OSTCBStat (TCB (os (app y)) i)) = OS_STAT_SEM \<and>
      \<not> suspended (TCB (os (app y)) i)"
      using e untimedD [OF calmD(5) [OF c] i w] waiting_not_ready [OF c w] by auto
  qed
  with regs show ?thesis unfolding THROTTLE_CONTROL_TASK_PRIORITY_def by blast
qed

lemma sample_cut:
  "\<exists>y. system_ok y \<and> t_pc (thr (app y)) = T_Failure_Wait"
proof -
  obtain y where y: "system_ok y" "OSPrioCur (os (app y)) = 3" using sample_boots unfolding THROTTLE_CONTROL_TASK_PRIORITY_def by blast
  define s where "s = app y"
  have ok: "sys_ok s" using y(1) by (simp add: system_ok_def s_def)
  define s1 where "s1 = set_motor (decrease_throttle (motor_of s)) s"
  have m1: "mild 0 3 s s1" using mild_then_plain [OF mild_refl [OF sys_okD(1) [OF ok]] steps_decrease] by (simp add: s1_def)
  have "motor_ok (motor_of s)" using sys_okD(6) [OF ok] unfolding drive_ok_def by blast
  then have "cut_off s1" by (simp add: cut_off_def s1_def decrease_ok)
  then have "sys_ok (go_throttle T_Failure_Wait s1)"
    using sys_ok_stretch [OF ok _ end_mild [OF mild_then_plain [OF m1 steps_go_throttle]]] y(2) by (simp add: s_def cut_off_def)
  then show ?thesis
    by (intro exI [of _ "\<lparr> app = go_throttle T_Failure_Wait s1, stat = STAT_WAIT, irqs = irqs y \<rparr>"]) (use y(1) in \<open>simp add: system_ok_def\<close>)
qed

theorem failure_cuts_torque_witness:
  "\<exists>y :: system. reg32 (io (app y)) PWM_GENERATOR_THROTTLE_OPEN_AVALON_SLAVE_DUTY_BASE =
       reg32 (io (app y)) PWM_GENERATOR_THROTTLE_OPEN_AVALON_SLAVE_PERIOD_BASE \<and> t_pc (thr (app y)) = T_Failure_Wait"
proof -
  obtain y0 where y0: "system_ok y0" "t_pc (thr (app y0)) = T_Failure_Wait" using sample_cut by blast
  define y where "y = y0\<lparr> app := (app y0)\<lparr> io := io (app y0), adc_reg := \<lambda>_. 7 \<rparr> \<rparr>"
  have "system_step (\<lambda>_. 9) (\<lambda>_. 9) Devices y0 y" unfolding y_def by (rule devices) (simp add: inputs_change_def)
  then have run: "system_run (\<lambda>_. 9) (\<lambda>_. 9) [Devices] y0 y" by (blast intro: run_goes run_stops)
  have pc: "t_pc (thr (app y)) = T_Failure_Wait" using y0(2) by (simp add: y_def)
  show ?thesis by (intro exI [of _ y] conjI conjunct1 [OF failure_cuts_torque [OF y0(1) run pc]] pc)
qed

section \<open>Liveness\<close>

text \<open>C4: A delay ends at its tick and not before, in any interleaving: when a task sleeps with \<open>d\<close> ticks to go in a state
  with the invariant, then after any sequence of turns, interrupts and device inputs in which the clock has ticked
  \<open>n < d\<close> times it still sleeps, with \<open>d - n\<close> ticks to go; and the interrupt that serves the \<open>d\<close>th tick makes it ready,
  whatever other lines it serves.\<close>

theorem delay_ends_at_tick:
  assumes "system_ok y0" "sleeping d p (os (app y0))" "system_run malloc malloc_req hs y0 y" "ticks_in hs < d"
  shows "sleeping (d - ticks_in hs) p (os (app y)) \<and>
     (\<forall>h y'. d \<le> ticks_in hs + ticks_of h \<longrightarrow> system_step malloc malloc_req h y y' \<longrightarrow> p \<in> ready_set (os (app y')))"
proof (intro conjI allI impI)
  show sl: "sleeping (d - ticks_in hs) p (os (app y))" by (rule run_sleeping [OF assms(3,1,2,4)])
  fix h y' assume "d \<le> ticks_in hs + ticks_of h" "system_step malloc malloc_req h y y'"
  moreover from this have "clock_moves (ticks_of h) (os (app y)) (os (app y'))" using step_ok run_ok [OF assms(3,1)] by blast
  ultimately show "p \<in> ready_set (os (app y'))" using sl assms(4) by (fastforce simp: clock_moves_def)
qed

text \<open>With no alarm started the timer interrupt is the kernel's tick.\<close>

lemma timer_without_alarms:
  assumes ok: "sys_ok s" and h: "head_next s = Head"
  shows "\<exists>s'. timer_interrupt s = Some s'"
proof -
  define s0 where "s0 = (int_enter s)\<lparr> io := io_write32 SYS_CLK_TIMER_BASE 0 (io (int_enter s)) \<rparr>"
  define s1 where "s1 = s0\<lparr> nticks := nticks s0 + 1 \<rparr>"
  have os1: "os s1 = OSIntEnter (os s)" by (simp add: s1_def s0_def int_enter_def)
  have "head_next s0 = Head" using h by (simp add: s0_def int_enter_def)
  then have t: "tick_alarms run_callback (head_next s0) s1 = Some s1" by (subst tick_alarms.simps) simp
  obtain k where k: "OSTimeTick (os s1) = Some k" "settled 1 k"
    using tick_settled [OF enter_calm(1) [OF sys_okD(1) [OF ok]]] by (auto simp: os1)
  obtain k' where "OSIntExit k = Some k'" using exit_settled [OF k(2)] by blast
  then show ?thesis
    using t k(1) by (simp add: timer_interrupt_def alt_avalon_timer_sc_irq_def s0_def [symmetric] alt_tick_def s1_def [symmetric]
        os_time_tick_def int_exit_def)
qed

lemma sample_sleeper:
  "\<exists>y s. system_ok y \<and> sleeping 1 3 (os (app y)) \<and> timer_interrupt (app y) = Some s"
proof -
  obtain y where y: "system_ok y" "OSPrioCur (os (app y)) = 3" using sample_boots unfolding THROTTLE_CONTROL_TASK_PRIORITY_def by blast
  have ok: "sys_ok (app y)" using y(1) by (simp add: system_ok_def)
  obtain k where k: "onward 0 (os (app y)) k" "\<forall>e. wait_set e k = wait_set e (os (app y))" "sleeping 1 3 k"
    using delay_onward [OF sys_okD(1) [OF ok], of 1] y(2) by auto
  define s where "s = ((app y)\<lparr> os := k \<rparr>)\<lparr> head_next := Head \<rparr>"
  have "steps_as 0 ((app y)\<lparr> os := k \<rparr>) s" unfolding s_def by (rule steps_more(1)) simp
  then have st: "steps_as 0 (app y) s" using steps_trans [OF steps_os] by blast
  have os: "os s = k" by (simp add: s_def)
  have "wired s"
    by (rule wired_keep [OF sys_okD(2) [OF ok]]) (simp_all add: s_def flags_def queues_def onwardD(2) [OF k(1)])
  moreover have "kept 3 (app y) s" using kept_onward [of 0 "app y" s] k(1,2) y(2) by (simp add: os)
  then have "button_ok s"
    by (rule button_keep [OF sys_okD(9) [OF ok]]) (simp_all add: s_def queues_def SOLENOID_TASK_PRIORITY_def)
  ultimately have "sys_ok s" using sys_ok_interrupt [OF ok st] onwardD(1) [OF k(1)] k(2) by (simp add: os)
  moreover have "head_next s = Head" by (simp add: s_def)
  ultimately obtain s' where "timer_interrupt s = Some s'" "sys_ok s" using timer_without_alarms by blast
  then show ?thesis
    using k(3) os by (intro exI [of _ "\<lparr> app = s, stat = STAT_WAIT, irqs = irqs y \<rparr>"] exI [of _ s']) (use y(1) in \<open>simp add: system_ok_def\<close>)
qed

text \<open>An interrupt of the timer or of the buttons alone.\<close>

lemma single_interrupt:
  assumes "system_ok y"
  shows "timer_interrupt (app y) = Some s \<Longrightarrow> system_step malloc malloc_req (Interrupt [1, 0]) y (y\<lparr> app := s \<rparr>)"
    "button_interrupt (app y) = Some s \<Longrightarrow> system_step malloc malloc_req (Interrupt [16, 0]) y (y\<lparr> app := s \<rparr>)"
proof -
  have u: "lines_registered (irqs y)" using assms by (simp add: system_ok_def)
  then have "readings_ok (irqs y) [1, 0]" "readings_ok (irqs y) [16, 0]" by (simp_all add: readings_ok_def lines_registered_def)
  then show "timer_interrupt (app y) = Some s \<Longrightarrow> system_step malloc malloc_req (Interrupt [1, 0]) y (y\<lparr> app := s \<rparr>)"
    "button_interrupt (app y) = Some s \<Longrightarrow> system_step malloc malloc_req (Interrupt [16, 0]) y (y\<lparr> app := s \<rparr>)"
    using one_line [OF u] by (auto intro!: interrupts)
qed

theorem delay_ends_at_tick_witness:
  "\<exists>y y'. sleeping 1 3 (os (app y)) \<and> system_step (\<lambda>_. 9) (\<lambda>_. 9) (Interrupt [1, 0]) y y' \<and> 3 \<in> ready_set (os (app y'))"
proof -
  obtain y s where y: "system_ok y" "sleeping 1 3 (os (app y))" "timer_interrupt (app y) = Some s" using sample_sleeper by blast
  have step: "system_step (\<lambda>_. 9) (\<lambda>_. 9) (Interrupt [1, 0]) y (y\<lparr> app := s \<rparr>)" by (rule single_interrupt(1) [OF y(1,3)])
  have n: "ticks_in [] < 1" "1 \<le> ticks_in [] + ticks_of (Interrupt [1, 0])" by (simp_all add: clock_ticks_def)
  then have "3 \<in> ready_set (os (app (y\<lparr> app := s \<rparr>)))"
    using delay_ends_at_tick [OF y(1,2) run_stops [of "\<lambda>_. 9" "\<lambda>_. 9"] n(1)] step by blast
  then show ?thesis using y(2) step by blast
qed

text \<open>C3: No turn gets stuck but for two errors of the program: in every state reached from power-up all handles are those of
  semaphores and of sound queues, and the turn of the running task runs to the next point where it can lose the processor,
  leaving the handles as they are. So in the turn no table is indexed out of its bounds, no task comes back from a wait through a
  null handle, the message of a button is the address of the interrupt's variable, a shift request that is read has not been
  freed, and every delay fits into one call. The button interrupt runs to its end, too. The exceptions: the solenoid task when
  the allocator of shift requests can return the null address, and the throttle task at its look for a shift request when the
  oldest request in the queue has been freed already.\<close>

theorem turns_complete:
  assumes "powered_up bufs blk u s" "reachable im bufs malloc malloc_req blk u ms s y"
  shows "wired (app y) \<and> (\<exists>y'. system_step malloc malloc_req (Interrupt [16, 0]) y y') \<and>
     ((\<exists>h \<in> {Failure_Turn, Solenoid_Turn, Throttle_Turn, Stat_Turn, Idle_Turn}. \<exists>y'. system_step malloc malloc_req h y y' \<and>
         flags (app y') = flags (app y) \<and> queues (app y') = queues (app y)) \<or>
      OSPrioCur (os (app y)) = SOLENOID_TASK_PRIORITY \<and> (\<exists>used. malloc_req used = 0) \<or>
      OSPrioCur (os (app y)) = THROTTLE_CONTROL_TASK_PRIORITY \<and> t_pc (thr (app y)) = T_Wheels \<and>
        watchdog_rpm_matching (thr (app y)) = None \<and> freed_request (app y))"
proof -
  note ok = reachable_sys_ok [OF assms]
  note d = sys_okD [OF ok(1)]
  have "system_ok y" using ok by (simp add: system_ok_def)
  then have btn: "wired (app y) \<and> (\<exists>y'. system_step malloc malloc_req (Interrupt [16, 0]) y y')"
    using button_interrupt_ends [OF ok(1)] single_interrupt(2) d(2) by blast
  have go: ?thesis if "h \<in> {Failure_Turn, Solenoid_Turn, Throttle_Turn, Stat_Turn, Idle_Turn}" "system_step malloc malloc_req h y y'"
    "flags (app y') = flags (app y)" "queues (app y') = queues (app y)" for h y' using btn that by blast
  have st: "flags s' = flags (app y)" "queues s' = queues (app y)" if "stretch p (app y) s'" for p s'
    using that by (simp_all add: stretch_def steps_as_def)
  have os: "flags ((app y)\<lparr> os := k \<rparr>) = flags (app y)" "queues ((app y)\<lparr> os := k \<rparr>) = queues (app y)" for k
    by (simp_all add: flags_def queues_def)
  obtain i where "running_task (os (app y)) (unat (OSPrioCur (os (app y)))) i" using settled_running [OF d(1)] by blast
  then have "unat (OSPrioCur (os (app y))) \<in> program_tasks"
    using calmD(9) [OF settledD(1) [OF d(1)]] by (auto simp: running_task_def)
  then consider "OSPrioCur (os (app y)) = FAILURE_HANDLER_TASK_PRIORITY" | "OSPrioCur (os (app y)) = SOLENOID_TASK_PRIORITY"
    | "OSPrioCur (os (app y)) = THROTTLE_CONTROL_TASK_PRIORITY" | "OSPrioCur (os (app y)) = OS_TASK_STAT_PRIO"
    | "OSPrioCur (os (app y)) = OS_TASK_IDLE_PRIO"
    by (auto simp: program_tasks_def SOLENOID_TASK_PRIORITY_def word_unat_eq_iff)
  then show ?thesis
  proof cases
    case 1
    then obtain s' where s': "failure_handler_step (app y) = Some s'" "stretch 1 (app y) s'" using failure_step_ok [OF ok(1)] by auto
    show ?thesis by (rule go [OF _ failure_turn [OF 1 s'(1)]]) (simp_all add: st [OF s'(2)])
  next
    case 2
    then have "unat (OSPrioCur (os (app y))) = 2" by (simp add: SOLENOID_TASK_PRIORITY_def)
    note ends = solenoid_step_ends [OF ok(1) this, of malloc_req]
    show ?thesis
    proof (cases "solenoid_step malloc_req (app y)")
      case None
      then show ?thesis using ends btn 2 by simp
    next
      case (Some s')
      then have "stretch 2 (app y) s'" using ends by simp
      then show ?thesis by (intro go [OF _ solenoid_turn [OF 2 Some]]) (simp_all add: st)
    qed
  next
    case 3
    then have "unat (OSPrioCur (os (app y))) = 3" by simp
    note ends = throttle_step_ok [OF ok(1) this, of malloc]
    show ?thesis
    proof (cases "throttle_control_step malloc (app y)")
      case None
      then show ?thesis using ends btn 3 by simp
    next
      case (Some s')
      then have "stretch 3 (app y) s'" using ends by simp
      then show ?thesis by (intro go [OF _ throttle_turn [OF 3 Some]]) (simp_all add: st)
    qed
  next
    case 4
    then obtain k where k: "OS_TaskStat_step undefined (stat y) (os (app y)) = Some (STAT_WAIT, k)"
      using stat_ok [OF ok(1) 4] ok(2) by metis
    show ?thesis by (rule go [OF _ stat_turn [OF 4 k]]) (simp_all add: os)
  next
    case 5
    show ?thesis by (rule go [OF _ idle_turn [OF 5]]) (simp_all add: os)
  qed
qed

theorem turns_complete_witness:
  "\<exists>y h y'. sample_reachable y \<and> OSPrioCur (os (app y)) = 3 \<and> system_step (\<lambda>_. 9) (\<lambda>_. 9) h y y' \<and> h \<noteq> Interrupt [16, 0]"
proof -
  obtain y where y: "sample_reachable y" "OSPrioCur (os (app y)) = 3" "t_pc (thr (app y)) = T_Loop"
    using sample_boots unfolding THROTTLE_CONTROL_TASK_PRIORITY_def by blast
  then have "OSPrioCur (os (app y)) \<noteq> SOLENOID_TASK_PRIORITY" "t_pc (thr (app y)) \<noteq> T_Wheels" by (simp_all add: SOLENOID_TASK_PRIORITY_def)
  then obtain h y' where "h \<in> {Failure_Turn, Solenoid_Turn, Throttle_Turn, Stat_Turn, Idle_Turn}" "system_step (\<lambda>_. 9) (\<lambda>_. 9) h y y'"
    using turns_complete [OF boot_app_powered_up y(1)] by blast
  moreover from this have "h \<noteq> Interrupt [16, 0]" by auto
  ultimately show ?thesis using y(1,2) by blast
qed

text \<open>C6: A press of a shift button reaches the solenoid task: from a state with the invariant in which the task waits at the
  queue of the buttons, the button interrupt makes it ready, so that the next to run is the solenoid task or the failure
  handler. Whatever then happens, as long as the task has not had its turn and no other interrupt of the buttons is served, the
  task stays ready, at its wait for a button, and the turn in which it comes back works on the command of the button that was
  pressed. (Another press before that turn overwrites the one variable of the interrupt.)\<close>

theorem button_press_served:
  assumes "system_ok y" "btn_input_q (app y) = Some e" "SOLENOID_TASK_PRIORITY \<in> wait_set e (os (app y))"
    and "reg32 (io (app y)) pio_edge_cap = w" "w = BUTTON_INPUT_SHIFT_UP \<or> w = BUTTON_INPUT_SHIFT_DOWN"
  shows "\<exists>y'. system_step malloc malloc_req (Interrupt [16, 0]) y y' \<and> SOLENOID_TASK_PRIORITY \<in> ready_set (os (app y')) \<and>
     OSPrioCur (os (app y')) \<in> {SOLENOID_TASK_PRIORITY, FAILURE_HANDLER_TASK_PRIORITY} \<and>
     (\<forall>hs z z'. system_run malloc malloc_req hs y' z \<and> (\<forall>h \<in> set hs. h \<noteq> Solenoid_Turn \<and> \<not> button_served h) \<longrightarrow>
        SOLENOID_TASK_PRIORITY \<in> ready_set (os (app z)) \<and> s_pc (sol (app z)) = S_Button_Wait \<and>
        (system_step malloc malloc_req Solenoid_Turn z z' \<longrightarrow> shift_command (sol (app z')) = w))"
proof -
  have ok: "sys_ok (app y)" using assms(1) by (simp add: system_ok_def)
  obtain s' where s': "button_interrupt (app y) = Some s'" using button_interrupt_ends [OF ok] by blast
  define y' where "y' = y\<lparr> app := s' \<rparr>"
  have step: "system_step malloc malloc_req (Interrupt [16, 0]) y y'"
    unfolding y'_def by (rule single_interrupt(2) [OF assms(1) s'])
  have sys: "system_ok y'" using step_ok [OF step assms(1)] by blast
  then have ok': "sys_ok s'" by (simp add: system_ok_def y'_def)
  note wake = button_interrupt_wakes [OF ok assms(2,3,4,5) s']
  have "unat (OSPrioCur (os s')) \<le> 2"
    using settled_runs [OF sys_okD(1) [OF ok']] wake(1) Min_le [OF _ wake(1)]
      bm.finite_law [OF kernel_okD(2) [OF calmD(1) [OF settledD(1) [OF sys_okD(1) [OF ok']]]]]
    by (simp add: ready_set_def SOLENOID_TASK_PRIORITY_def)
  moreover obtain i where "running_task (os s') (unat (OSPrioCur (os s'))) i" using settled_running [OF sys_okD(1) [OF ok']] by blast
  then have "unat (OSPrioCur (os s')) \<in> program_tasks"
    using calmD(9) [OF settledD(1) [OF sys_okD(1) [OF ok']]] by (auto simp: running_task_def)
  ultimately have "OSPrioCur (os s') \<in> {2, 1}" by (auto simp: program_tasks_def SOLENOID_TASK_PRIORITY_def word_unat_eq_iff)
  moreover have pc: "s_pc (sol (app y')) = S_Button_Wait" using button_waiter(2) [OF ok assms(2,3)] step_sol [OF step assms(1)] by simp
  have "SOLENOID_TASK_PRIORITY \<in> ready_set (os (app z)) \<and> s_pc (sol (app z)) = S_Button_Wait \<and>
      (system_step malloc malloc_req Solenoid_Turn z z' \<longrightarrow> shift_command (sol (app z')) = w)"
    if run: "system_run malloc malloc_req hs y' z" "\<forall>h \<in> set hs. h \<noteq> Solenoid_Turn \<and> \<not> button_served h" for hs z z'
  proof -
    have z: "SOLENOID_TASK_PRIORITY \<in> ready_set (os (app z))" "isr_data (app z) = w" "s_pc (sol (app z)) = S_Button_Wait"
      using run_others [OF run(1) sys run(2)] wake(1,2) pc by (simp_all add: y'_def)
    then have "shift_command (sol s) = w" if "solenoid_step malloc_req (app z) = Some s" for s
      using that by (auto simp: solenoid_step_def q_pend_return_def dest!: button_command split: bind_splits)
    then show ?thesis using z by (auto elim!: solenoid_turnE)
  qed
  ultimately show ?thesis
    using step wake(1) by (intro exI [of _ y'] conjI allI impI) (auto simp: y'_def SOLENOID_TASK_PRIORITY_def)
qed

lemma sample_button:
  "\<exists>y. system_ok y \<and> btn_input_q (app y) = Some 5 \<and> wait_set 5 (os (app y)) = {2} \<and> wait_set 3 (os (app y)) = {1} \<and>
     curr_gear (sol (app y)) = 1 \<and> reg32 (io (app y)) pio_edge_cap = BUTTON_INPUT_SHIFT_UP"
proof -
  obtain y where y: "system_ok y" "btn_input_q (app y) = Some 5" "wait_set 5 (os (app y)) = {2}" "wait_set 3 (os (app y)) = {1}"
    "curr_gear (sol (app y)) = 1" using sample_boots by blast
  define r where "r = io_write32 pio_edge_cap BUTTON_INPUT_SHIFT_UP (io (app y))"
  have "inputs_change (io (app y)) r" by (simp add: inputs_change_def r_def io_write32_def)
  from step_ok [OF devices [OF this, of "\<lambda>_. 9" "\<lambda>_. 9" "\<lambda>_. 7"] y(1)] show ?thesis
    using y(2-5) by (intro exI [of _ "y\<lparr> app := (app y)\<lparr> io := r, adc_reg := \<lambda>_. 7 \<rparr> \<rparr>"]) (simp add: r_def io_write32_def)
qed

lemma sample_solenoid:
  "\<exists>y. system_ok y \<and> OSPrioCur (os (app y)) = SOLENOID_TASK_PRIORITY \<and> curr_gear (sol (app y)) = 1"
proof -
  obtain y where y: "system_ok y" "btn_input_q (app y) = Some 5" "wait_set 5 (os (app y)) = {2}" "wait_set 3 (os (app y)) = {1}"
    "curr_gear (sol (app y)) = 1" "reg32 (io (app y)) pio_edge_cap = BUTTON_INPUT_SHIFT_UP" using sample_button by blast
  have ok: "sys_ok (app y)" using y(1) by (simp add: system_ok_def)
  obtain s' where s': "button_interrupt (app y) = Some s'" using button_interrupt_ends [OF ok] by blast
  note step = single_interrupt(2) [OF y(1) s', of "\<lambda>_. 9" "\<lambda>_. 9"]
  have ok': "system_ok (y\<lparr> app := s' \<rparr>)" using step_ok [OF step y(1)] by blast
  then have st: "settled 0 (os s')" by (simp add: system_ok_def sys_ok_def)
  note wake = button_interrupt_wakes [OF ok y(2), of 2 _ s', OF _ y(6) disjI1 [OF refl] s']
  have "2 \<in> ready_set (os s')" "1 \<in> wait_set 3 (os s')" using wake(1) wake(3) [of 3] y(3,4) by simp_all
  moreover from this have "1 \<notin> ready_set (os s')" using waiting_not_ready [OF settledD(1) [OF st]] by blast
  moreover have "q \<in> program_tasks" if "q \<in> ready_set (os s')" for q
    using kernel_okD(5) [OF calmD(1) [OF settledD(1) [OF st]] that] calmD(9) [OF settledD(1) [OF st]] by blast
  ultimately have "2 \<in> ready_set (os s')" "2 \<le> q" if "q \<in> ready_set (os s')" for q
    using that by (fastforce simp: program_tasks_def SOLENOID_TASK_PRIORITY_def)+
  then have "Min (ready_set (os s')) = 2"
    using bm.finite_law [OF kernel_okD(2) [OF calmD(1) [OF settledD(1) [OF st]]]] wake(1) y(3)
    by (intro Min_eqI) (auto simp: ready_set_def)
  then have "unat (OSPrioCur (os s')) = unat (SOLENOID_TASK_PRIORITY :: INT8U)"
    using settled_runs [OF st] by (simp add: SOLENOID_TASK_PRIORITY_def)
  then have "OSPrioCur (os s') = SOLENOID_TASK_PRIORITY" by (simp only: word_unat_eq_iff)
  moreover have "curr_gear (sol s') = 1" using step_sol [OF step y(1)] y(5) by simp
  ultimately show ?thesis using ok' by (intro exI [of _ "y\<lparr> app := s' \<rparr>"]) simp
qed

theorem button_press_served_witness:
  "\<exists>y y'. system_step (\<lambda>_. 9) (\<lambda>_. 9) (Interrupt [16, 0]) y y' \<and> SOLENOID_TASK_PRIORITY \<in> wait_set 5 (os (app y)) \<and>
     SOLENOID_TASK_PRIORITY \<in> ready_set (os (app y'))"
proof -
  obtain y where y: "system_ok y" "btn_input_q (app y) = Some 5" "wait_set 5 (os (app y)) = {2}"
    "reg32 (io (app y)) pio_edge_cap = BUTTON_INPUT_SHIFT_UP" using sample_button by blast
  then have "SOLENOID_TASK_PRIORITY \<in> wait_set 5 (os (app y))" by (simp add: SOLENOID_TASK_PRIORITY_def)
  then show ?thesis
    using button_press_served [OF y(1,2) _ y(4) disjI1 [OF refl], of "\<lambda>_. 9" "\<lambda>_. 9"] by blast
qed

text \<open>C7: What the result of the engine-speed matching does, from any state with the invariant in which the solenoid task
  comes back from its wait for it: on a failure the gear, the registers and the kernel's lists stay and the task goes back to
  the head of its loop; otherwise the gear becomes the one asked for, at most one away, and is shown, the request is freed, the
  solenoid is opened in the direction of the button, and the task sleeps for 2000 ticks.\<close>

theorem shift_ends:
  assumes "system_ok y" "s_pc (sol (app y)) = S_Result_Wait" "system_step malloc malloc_req Solenoid_Turn y y'"
  shows "\<exists>m s. q_pend_return (rpm_matching_result_q (app y)) (app y) = Some (m, s) \<and>
     (if (ucast m :: INT8U) = SHIFT_MATCHING_RESULT_FAIL
      then io (app y') = io (app y) \<and> sol (app y') = (sol (app y))\<lparr> s_pc := S_Loop \<rparr>
      else curr_gear (sol (app y')) = ucast (new_gear (sol (app y))) \<and>
        one_step (curr_gear (sol (app y))) (curr_gear (sol (app y'))) \<and>
        reg8 (io (app y')) CURR_GEAR_OUT_BASE = curr_gear (sol (app y')) - 1 \<and> req (sol (app y)) \<notin> req_live (app y') \<and>
        (shift_command (sol (app y)) \<in> {BUTTON_INPUT_SHIFT_UP, BUTTON_INPUT_SHIFT_DOWN} \<longrightarrow>
           reg32 (io (app y')) SOLENOID_OUT_BASE = shift_command (sol (app y))) \<and>
        sleeping 2000 SOLENOID_TASK_PRIORITY (os (app y')))"
proof -
  have ok: "sys_ok (app y)" "sys_ok (app y')" using assms(1) step_ok [OF assms(3,1)] by (simp_all add: system_ok_def)
  note d = sys_okD [OF ok(1)]
  have turn: "unat (OSPrioCur (os (app y))) = 2" "solenoid_step malloc_req (app y) = Some (app y')"
    using assms(3) by (auto elim!: solenoid_turnE simp: SOLENOID_TASK_PRIORITY_def)
  obtain m s where s: "q_pend_return (rpm_matching_result_q (app y)) (app y) = Some (m, s)" "mild 0 2 (app y) s"
    using q_return_mild [OF d(1,2), of "rpm_matching_result_q (app y)" 2] by (auto simp: queues_def)
  then have same: "sol s = sol (app y)" "io s = io (app y)" by (auto simp: q_pend_return_def split: bind_splits)
  have cur: "unat (OSPrioCur (os s)) = 2" using turn(1) easedD(5) [OF mildD(2) [OF s(2)]] by simp
  then have "OSPrioCur (os s) \<noteq> 20" by auto
  moreover have "solenoid_result m s = Some (app y')" using turn(2) assms(2) s(1) by (simp add: solenoid_step_def)
  ultimately have "if (ucast m :: INT8U) = SHIFT_MATCHING_RESULT_FAIL then app y' = go_solenoid S_Loop s
     else curr_gear (sol (app y')) = ucast (new_gear (sol s)) \<and> req (sol s) \<notin> req_live (app y') \<and>
       (shift_command (sol s) \<in> {BUTTON_INPUT_SHIFT_UP, BUTTON_INPUT_SHIFT_DOWN} \<longrightarrow>
          reg32 (io (app y')) SOLENOID_OUT_BASE = shift_command (sol s)) \<and> sleeping 2000 2 (os (app y'))"
    using solenoid_result_effect [OF mildD(3) [OF s(2)], of m "app y'"] unfolding cur by blast
  moreover have "reg8 (io (app y')) CURR_GEAR_OUT_BASE = curr_gear (sol (app y')) - 1"
    using sys_okD(5) [OF ok(2)] by (simp add: gear_ok_def gear_display_def)
  ultimately show ?thesis
    using s(1) step_gear [OF assms(3,1)] same
    by (intro exI [of _ m] exI [of _ s]) (auto simp: go_solenoid_def set_sol_def SOLENOID_TASK_PRIORITY_def split: if_splits)
qed

lemma sample_shift:
  "\<exists>y y'. system_ok y \<and> s_pc (sol (app y)) = S_Result_Wait \<and> new_gear (sol (app y)) = 2 \<and>
     system_step (\<lambda>_. 9) (\<lambda>_. 9) Solenoid_Turn y y'"
proof -
  obtain y0 where y0: "system_ok y0" "OSPrioCur (os (app y0)) = SOLENOID_TASK_PRIORITY" "curr_gear (sol (app y0)) = 1"
    using sample_solenoid by blast
  have ok: "sys_ok (app y0)" and p: "unat (OSPrioCur (os (app y0))) = 2" using y0(1,2) by (simp_all add: system_ok_def SOLENOID_TASK_PRIORITY_def)
  define s where "s = set_sol (\<lambda>v. v\<lparr> s_pc := S_Result_Wait, new_gear := 2 \<rparr>) (app y0)"
  have "stretch 2 (app y0) s"
    unfolding s_def by (rule end_mild [OF mild_then_plain [OF mild_refl [OF sys_okD(1) [OF ok]] steps_set_sol(1)]]) simp
  moreover have "requests_ok s \<and> gear_ok s \<and> button_ok s"
    using sys_okD(4,5) [OF ok] y0(3)
    by (simp add: s_def requests_ok_def gear_ok_def button_ok_def one_step_def) (simp add: set_sol_def)
  ultimately have ok': "sys_ok s" using sys_ok_stretch [OF ok p] by simp
  have "os s = os (app y0)" by (simp add: s_def)
  then have p': "OSPrioCur (os s) = SOLENOID_TASK_PRIORITY" using y0(2) by simp
  have "turn_ends (\<lambda>_. 9) s (solenoid_step (\<lambda>_. 9) s)"
    by (rule solenoid_step_ends [OF ok']) (simp add: p' SOLENOID_TASK_PRIORITY_def)
  then obtain s' where "solenoid_step (\<lambda>_. 9) s = Some s'" by (cases "solenoid_step (\<lambda>_. 9) s") simp_all
  then have "system_step (\<lambda>_. 9) (\<lambda>_. 9) Solenoid_Turn \<lparr> app = s, stat = STAT_WAIT, irqs = irqs y0 \<rparr> \<lparr> app = s', stat = STAT_WAIT, irqs = irqs y0 \<rparr>"
    using solenoid_turn [of "\<lparr> app = s, stat = STAT_WAIT, irqs = irqs y0 \<rparr>"] p' by simp
  moreover have "system_ok \<lparr> app = s, stat = STAT_WAIT, irqs = irqs y0 \<rparr>" using ok' y0(1) by (simp add: system_ok_def)
  ultimately show ?thesis by (fastforce simp: s_def)
qed

theorem shift_ends_witness:
  "\<exists>y y' m s. system_step (\<lambda>_. 9) (\<lambda>_. 9) Solenoid_Turn y y' \<and> new_gear (sol (app y)) = 2 \<and>
     q_pend_return (rpm_matching_result_q (app y)) (app y) = Some (m, s) \<and>
     ((ucast m :: INT8U) \<noteq> SHIFT_MATCHING_RESULT_FAIL \<longrightarrow> curr_gear (sol (app y')) = 2)"
proof -
  obtain y y' where y: "system_ok y" "s_pc (sol (app y)) = S_Result_Wait" "new_gear (sol (app y)) = 2"
    "system_step (\<lambda>_. 9) (\<lambda>_. 9) Solenoid_Turn y y'" using sample_shift by blast
  from shift_ends [OF y(1,2,4)] show ?thesis using y(3,4) by (fastforce split: if_splits)
qed

end
