(* ===== verification/Jtag_Uart.thy ===== *)
theory Jtag_Uart imports Os_Flag Irq Alarm Config begin

text \<open>
  The driver of the JTAG UART (\<open>altera_avalon_jtag_uart_init.c\<close>, \<open>_read.c\<close>, \<open>_write.c\<close>, \<open>_ioctl.c\<close>), in the
  interrupt-driven form that the build selects: two rings of 2048 characters between the callers and the
  interrupt, an event flag group on which they wait, a semaphore for each direction, and an alarm that
  notices that no host is there. What the two registers of the device show at each reading is part of the
  state, as two lists that the readings consume; the characters written to the device are collected.
  Interrupts come between the steps of a call: a call is a sequence of steps from one point where it looks
  at what the interrupt changes to the next.
\<close>

section \<open>Constants\<close>

definition ALTERA_AVALON_JTAG_UART_BUF_LEN :: INT32U where [simp]: "ALTERA_AVALON_JTAG_UART_BUF_LEN = 2048"
definition ALTERA_AVALON_JTAG_UART_DEFAULT_TIMEOUT :: INT32U where [simp]: "ALTERA_AVALON_JTAG_UART_DEFAULT_TIMEOUT = 10"
definition ALT_JTAG_UART_READ_RDY :: OS_FLAGS where [simp]: "ALT_JTAG_UART_READ_RDY = 1"
definition ALT_JTAG_UART_WRITE_RDY :: OS_FLAGS where [simp]: "ALT_JTAG_UART_WRITE_RDY = 2"
definition ALT_JTAG_UART_TIMEOUT :: OS_FLAGS where [simp]: "ALT_JTAG_UART_TIMEOUT = 4"

definition JTAG_UART_0_BASE :: INT32U where "JTAG_UART_0_BASE = 0x40090d8"
definition JTAG_UART_0_IRQ :: INT32U where "JTAG_UART_0_IRQ = 1"

definition RVALID_MSK :: INT32U where [simp]: "RVALID_MSK = 0x8000"
definition RAVAIL_MSK :: INT32U where [simp]: "RAVAIL_MSK = 0xFFFF0000"
definition RE_MSK :: INT32U where [simp]: "RE_MSK = 1"
definition WE_MSK :: INT32U where [simp]: "WE_MSK = 2"
definition RI_MSK :: INT32U where [simp]: "RI_MSK = 0x100"
definition WI_MSK :: INT32U where [simp]: "WI_MSK = 0x200"
definition AC_MSK :: INT32U where [simp]: "AC_MSK = 0x400"

definition TIOCSTIMEOUT :: int where "TIOCSTIMEOUT = 0x6a01"
definition TIOCGCONNECTED :: int where "TIOCGCONNECTED = 0x6a02"

text \<open>Of the C library.\<close>

definition INT_MAX :: INT32U where [simp]: "INT_MAX = 0x7FFFFFFF"
definition EIO :: int where "EIO = 5"
definition EWOULDBLOCK :: int where "EWOULDBLOCK = 11"
definition ENOTTY :: int where "ENOTTY = 25"
definition O_NONBLOCK :: INT32U where "O_NONBLOCK = 0x4000"

section \<open>The state\<close>

record uart =
  sp_base :: INT32U
  sp_timeout :: INT32U
  irq_enable :: INT32U
  host_inactive :: INT32U
  read_lock :: event_ptr
  write_lock :: event_ptr
  events :: grp_ptr
  rx_in :: INT32U
  rx_out :: INT32U
  tx_in :: INT32U
  tx_out :: INT32U
  rx_buf :: "INT8U list"
  tx_buf :: "INT8U list"
  control_reads :: "INT32U list"
  data_reads :: "INT32U list"
  sent :: "INT8U list"
  control_reg :: INT32U
  kernel :: os_state

text \<open>The registers. A list of readings that is at its end stands for no execution.\<close>

definition iord_control :: "uart \<Rightarrow> (INT32U \<times> uart) option" where
  "iord_control u = (case control_reads u of [] \<Rightarrow> None | c # cs \<Rightarrow> Some (c, u\<lparr> control_reads := cs \<rparr>))"

definition iord_data :: "uart \<Rightarrow> (INT32U \<times> uart) option" where
  "iord_data u = (case data_reads u of [] \<Rightarrow> None | d # ds \<Rightarrow> Some (d, u\<lparr> data_reads := ds \<rparr>))"

definition iowr_control :: "INT32U \<Rightarrow> uart \<Rightarrow> uart" where
  "iowr_control v u = u\<lparr> control_reg := v \<rparr>"

definition iowr_data :: "INT8U \<Rightarrow> uart \<Rightarrow> uart" where
  "iowr_data b u = u\<lparr> sent := sent u @ [b] \<rparr>"

text \<open>The wrappers of the kernel's flags and semaphores (\<open>alt_flag_ucosii.h\<close>, \<open>alt_sem_ucosii.h\<close>); the driver ignores the
  error codes.\<close>

definition alt_flag_create :: "OS_FLAGS \<Rightarrow> os_state \<Rightarrow> (grp_ptr \<times> os_state) option" where
  "alt_flag_create flags k = do { (g, err, k) \<leftarrow> OSFlagCreate flags (Some 0) k; Some (g, k) }"

definition alt_flag_post :: "grp_ptr \<Rightarrow> OS_FLAGS \<Rightarrow> INT8U \<Rightarrow> os_state \<Rightarrow> os_state option" where
  "alt_flag_post grp flags opt k =
     (if OSRunning k \<noteq> 0 then do { (r, err, k) \<leftarrow> OSFlagPost_enter grp flags opt (Some 0) k; Some k } else Some k)"

text \<open>A call that waits is in two parts; the first says whether it has returned.\<close>

definition alt_flag_pend :: "grp_ptr \<Rightarrow> OS_FLAGS \<Rightarrow> INT8U \<Rightarrow> INT16U \<Rightarrow> nat \<Rightarrow> os_state \<Rightarrow> (bool \<times> os_state) option" where
  "alt_flag_pend grp flags wait_type timeout n k =
     (if OSRunning k \<noteq> 0
      then do { (r, err, k) \<leftarrow> OSFlagPend_enter grp flags wait_type timeout (Some 0) n k; Some (r \<noteq> None, k) }
      else Some (True, k))"

definition alt_flag_pend_return :: "grp_ptr \<Rightarrow> INT8U \<Rightarrow> bool \<Rightarrow> nat \<Rightarrow> os_state \<Rightarrow> os_state option" where
  "alt_flag_pend_return grp wait_type consume n k = do {
     g \<leftarrow> grp;
     (r, err, k) \<leftarrow> OSFlagPend_resume g wait_type consume n k;
     Some k
   }"

definition alt_sem_pend :: "event_ptr \<Rightarrow> INT16U \<Rightarrow> os_state \<Rightarrow> (bool \<times> os_state) option" where
  "alt_sem_pend sem timeout k = do { (r, err, k) \<leftarrow> OSSemPend_enter sem timeout (Some 0) k; Some (r, k) }"

definition alt_sem_pend_return :: "event_ptr \<Rightarrow> os_state \<Rightarrow> os_state option" where
  "alt_sem_pend_return sem k = do { e \<leftarrow> sem; (err, k) \<leftarrow> OSSemPend_resume e k; Some k }"

text \<open>The driver's calls of them.\<close>

definition post_event :: "OS_FLAGS \<Rightarrow> uart \<Rightarrow> uart option" where
  "post_event flags u = do { k \<leftarrow> alt_flag_post (events u) flags OS_FLAG_SET (kernel u); Some (u\<lparr> kernel := k \<rparr>) }"

definition pend_event :: "OS_FLAGS \<Rightarrow> nat \<Rightarrow> uart \<Rightarrow> (bool \<times> uart) option" where
  "pend_event flags n u = do {
     (r, k) \<leftarrow> alt_flag_pend (events u) flags (OS_FLAG_WAIT_SET_ANY + OS_FLAG_CONSUME) 0 n (kernel u);
     Some (r, u\<lparr> kernel := k \<rparr>)
   }"

definition pend_event_return :: "nat \<Rightarrow> uart \<Rightarrow> uart option" where
  "pend_event_return n u = do {
     k \<leftarrow> alt_flag_pend_return (events u) OS_FLAG_WAIT_SET_ANY True n (kernel u);
     Some (u\<lparr> kernel := k \<rparr>)
   }"

section \<open>Initialisation\<close>

text \<open>\<open>h\<close> stands for the interrupt handler below and \<open>cb\<close> for its alarm function, \<open>a\<close> is the alarm in the state of the driver.\<close>

definition altera_avalon_jtag_uart_init ::
  "INT32U \<Rightarrow> 'h \<Rightarrow> callback \<Rightarrow> nat \<Rightarrow> INT32U \<Rightarrow> 'h irq_unit \<Rightarrow> alarm_state \<Rightarrow> uart \<Rightarrow> ('h irq_unit \<times> alarm_state \<times> uart) option" where
  "altera_avalon_jtag_uart_init sp h cb a irq unit alarms u = do {
     (g, k) \<leftarrow> alt_flag_create 0 (kernel u);
     let u = u\<lparr> events := g, kernel := k \<rparr>;
     (e, k) \<leftarrow> OSSemCreate 1 (kernel u);
     let u = u\<lparr> read_lock := e, kernel := k \<rparr>;
     (e, k) \<leftarrow> OSSemCreate 1 (kernel u);
     let u = u\<lparr> write_lock := e, kernel := k \<rparr>;
     let u = u\<lparr> irq_enable := RE_MSK \<rparr>;
     let u = iowr_control (irq_enable u) u;
     let (rc, unit) = alt_irq_register irq sp (Some h) unit;
     let u = u\<lparr> host_inactive := 0 \<rparr>;
     let (rc, alarms) = alt_alarm_start (Some a) (tick_rate alarms) cb (unat sp) alarms;
     Some (unit, alarms, if rc < 0 then u\<lparr> sp_timeout := INT_MAX \<rparr> else u)
   }"

section \<open>The interrupt\<close>

text \<open>One place further in a ring.\<close>

definition ring_next :: "INT32U \<Rightarrow> INT32U" where
  "ring_next i = (i + 1) mod ALTERA_AVALON_JTAG_UART_BUF_LEN"

definition array_put :: "nat \<Rightarrow> 'a \<Rightarrow> 'a list \<Rightarrow> 'a list option" where
  "array_put i x xs = (if i < length xs then Some (xs[i := x]) else None)"

text \<open>Taking characters from the device while there is room; the result is the last reading.\<close>

lemma post_event_kernel: "post_event flags u = Some u' \<Longrightarrow> \<exists>k. u' = u\<lparr> kernel := k \<rparr>"
  by (auto simp: post_event_def bind_eq_Some_conv)

lemma post_event_reads [simp]:
  assumes "post_event flags u = Some u'"
  shows "data_reads u' = data_reads u" "control_reads u' = control_reads u"
  using post_event_kernel [OF assms] by auto

function rx_loop :: "INT32U \<Rightarrow> uart \<Rightarrow> (INT32U \<times> uart) option" where
  "rx_loop data u =
     (if ring_next (rx_in u) = rx_out u then Some (data, u)
      else do {
        (data, u) \<leftarrow> iord_data u;
        if data AND RVALID_MSK = 0 then Some (data, u)
        else do {
          buf \<leftarrow> array_put (unat (rx_in u)) (ucast data) (rx_buf u);
          let u = u\<lparr> rx_buf := buf \<rparr>;
          let u = u\<lparr> rx_in := ring_next (rx_in u) \<rparr>;
          u \<leftarrow> post_event ALT_JTAG_UART_READ_RDY u;
          rx_loop data u
        }
      })"
  by pat_completeness auto
termination
  by (relation "measure (\<lambda>(data, u). length (data_reads u))") (auto simp: iord_data_def split: list.splits)

declare rx_loop.simps [simp del]

definition read_irq :: "uart \<Rightarrow> uart option" where
  "read_irq u = do {
     (data, u) \<leftarrow> rx_loop 0x10000 u;
     if data AND RAVAIL_MSK \<noteq> 0 then do {
       let u = u\<lparr> irq_enable := irq_enable u AND NOT RE_MSK \<rparr>;
       let u = iowr_control (irq_enable u) u;
       (dummy, u) \<leftarrow> iord_control u;
       Some u
     }
     else Some u
   }"

lemma word_pred_less: "0 < w \<Longrightarrow> unat (w - 1) < unat (w :: INT32U)"
  by (metis measure_unat word_neq_0_conv)

text \<open>Giving characters to the device while it has room.\<close>

function tx_loop :: "INT32U \<Rightarrow> uart \<Rightarrow> (INT32U \<times> uart) option" where
  "tx_loop space u =
     (if 0 < space \<and> tx_out u \<noteq> tx_in u then do {
        b \<leftarrow> array_get (tx_buf u) (unat (tx_out u));
        let u = iowr_data b u;
        let u = u\<lparr> tx_out := ring_next (tx_out u) \<rparr>;
        u \<leftarrow> post_event ALT_JTAG_UART_WRITE_RDY u;
        tx_loop (space - 1) u
      }
      else Some (space, u))"
  by pat_completeness auto
termination
  by (relation "measure (\<lambda>(space, u). unat space)") (auto simp: word_pred_less)

declare tx_loop.simps [simp del]

definition write_irq :: "INT32U \<Rightarrow> uart \<Rightarrow> uart option" where
  "write_irq control u = do {
     (space, u) \<leftarrow> tx_loop (drop_bit 16 control) u;
     if 0 < space then do {
       let u = u\<lparr> irq_enable := irq_enable u AND NOT WE_MSK \<rparr>;
       let u = iowr_control (irq_enable u) u;
       (dummy, u) \<leftarrow> iord_control u;
       Some u
     }
     else Some u
   }"

text \<open>The two loops leave the control readings alone, so every round of the handler uses one up.\<close>

lemma iord_control_Some:
  "iord_control u = Some (c, u') \<longleftrightarrow> (\<exists>cs. control_reads u = c # cs \<and> u' = u\<lparr> control_reads := cs \<rparr>)"
  by (auto simp: iord_control_def split: list.splits)

lemma iord_data_Some: "iord_data u = Some (d, u') \<longleftrightarrow> (\<exists>ds. data_reads u = d # ds \<and> u' = u\<lparr> data_reads := ds \<rparr>)"
  by (auto simp: iord_data_def split: list.splits)

lemma rx_loop_cases:
  assumes "rx_loop data u = Some (d, u')"
  obtains "ring_next (rx_in u) = rx_out u" "u' = u" "d = data"
  | ds where "data_reads u = d # ds" "d AND RVALID_MSK = 0" "u' = u\<lparr> data_reads := ds \<rparr>"
  | x ds k where "ring_next (rx_in u) \<noteq> rx_out u" "data_reads u = x # ds" "x AND RVALID_MSK \<noteq> 0" "unat (rx_in u) < length (rx_buf u)"
      "rx_loop x (u\<lparr> data_reads := ds, rx_buf := (rx_buf u)[unat (rx_in u) := ucast x], rx_in := ring_next (rx_in u), kernel := k \<rparr>)
         = Some (d, u')"
proof -
  note l = assms [unfolded rx_loop.simps [of data u]]
  show thesis
  proof (cases "ring_next (rx_in u) = rx_out u")
    case True then show thesis using l by (intro that(1)) simp_all
  next
    case full: False
    then obtain x ds where x: "data_reads u = x # ds" using l by (cases "data_reads u") (auto simp: iord_data_def)
    show thesis
    proof (cases "x AND RVALID_MSK = 0")
      case True then show thesis using l x full that(2) by (simp add: iord_data_def)
    next
      case False
      let ?v = "u\<lparr> data_reads := ds, rx_buf := (rx_buf u)[unat (rx_in u) := ucast x], rx_in := ring_next (rx_in u) \<rparr>"
      have i: "unat (rx_in u) < length (rx_buf u)" and "post_event ALT_JTAG_UART_READ_RDY ?v \<bind> rx_loop x = Some (d, u')"
        using l x full False by (auto simp: iord_data_def array_put_def Let_def split: if_splits)
      then show thesis using that(3) [OF full x False i] by (auto simp: bind_eq_Some_conv dest!: post_event_kernel)
    qed
  qed
qed

lemma rx_loop_control: "rx_loop data u = Some (d, u') \<Longrightarrow> control_reads u' = control_reads u"
proof (induction "length (data_reads u)" arbitrary: data u rule: less_induct)
  case less
  from less.prems show ?case
  proof (cases rule: rx_loop_cases)
    case (3 x ds k)
    then show ?thesis using less.hyps [OF _ 3(5)] by simp
  qed simp_all
qed

lemma tx_loop_cases:
  assumes "tx_loop space u = Some (d, u')"
  obtains "space = 0 \<or> tx_out u = tx_in u" "u' = u" "d = space"
  | k where "0 < space" "tx_out u \<noteq> tx_in u" "unat (tx_out u) < length (tx_buf u)"
      "tx_loop (space - 1) (u\<lparr> sent := sent u @ [tx_buf u ! unat (tx_out u)], tx_out := ring_next (tx_out u), kernel := k \<rparr>)
         = Some (d, u')"
proof -
  note l = assms [unfolded tx_loop.simps [of space u]]
  show thesis
  proof (cases "0 < space \<and> tx_out u \<noteq> tx_in u")
    case False then show thesis using l by (intro that(1)) (auto simp: word_neq_0_conv [symmetric])
  next
    case True
    let ?v = "u\<lparr> sent := sent u @ [tx_buf u ! unat (tx_out u)], tx_out := ring_next (tx_out u) \<rparr>"
    have i: "unat (tx_out u) < length (tx_buf u)" and "post_event ALT_JTAG_UART_WRITE_RDY ?v \<bind> tx_loop (space - 1) = Some (d, u')"
      using l True by (auto simp: array_get_def Let_def iowr_data_def split: if_splits)
    then show thesis using that(2) True by (auto simp: bind_eq_Some_conv dest!: post_event_kernel)
  qed
qed

lemma tx_loop_control: "tx_loop space u = Some (d, u') \<Longrightarrow> control_reads u' = control_reads u"
proof (induction "unat space" arbitrary: space u rule: less_induct)
  case less
  from less.prems show ?case
  proof (cases rule: tx_loop_cases)
    case (2 k)
    then show ?thesis using less.hyps [OF word_pred_less 2(4)] by simp
  qed simp_all
qed

lemma iord_control_shorter: "iord_control u = Some (c, u') \<Longrightarrow> length (control_reads u) = Suc (length (control_reads u'))"
  by (auto simp: iord_control_Some)

lemma read_irq_control: "read_irq u = Some u' \<Longrightarrow> length (control_reads u') \<le> length (control_reads u)"
  by (auto simp: read_irq_def bind_eq_Some_conv iowr_control_def dest!: rx_loop_control iord_control_shorter split: if_splits)

lemma write_irq_control: "write_irq c u = Some u' \<Longrightarrow> length (control_reads u') \<le> length (control_reads u)"
  by (auto simp: write_irq_def bind_eq_Some_conv iowr_control_def dest!: tx_loop_control iord_control_shorter split: if_splits)

function altera_avalon_jtag_uart_irq :: "uart \<Rightarrow> uart option" where
  "altera_avalon_jtag_uart_irq u = do {
     (control, u) \<leftarrow> iord_control u;
     if control AND (RI_MSK OR WI_MSK) = 0 then Some u
     else do {
       u \<leftarrow> (if control AND RI_MSK \<noteq> 0 then read_irq u else Some u);
       u \<leftarrow> (if control AND WI_MSK \<noteq> 0 then write_irq control u else Some u);
       altera_avalon_jtag_uart_irq u
     }
   }"
  by pat_completeness auto
termination
  by (relation "measure (\<lambda>u. length (control_reads u))")
     (auto dest!: iord_control_shorter read_irq_control write_irq_control split: if_splits)

declare altera_avalon_jtag_uart_irq.simps [simp del]

text \<open>The alarm of every second.\<close>

definition altera_avalon_jtag_uart_timeout :: "INT32U \<Rightarrow> uart \<Rightarrow> (INT32U \<times> uart) option" where
  "altera_avalon_jtag_uart_timeout ticks_per_second u = do {
     (control, u) \<leftarrow> iord_control u;
     u \<leftarrow> (if control AND AC_MSK \<noteq> 0 then Some ((iowr_control (irq_enable u OR AC_MSK) u)\<lparr> host_inactive := 0 \<rparr>)
          else if host_inactive u < INT_MAX - 2 then
            let u = u\<lparr> host_inactive := host_inactive u + 1 \<rparr> in
            if sp_timeout u \<le> host_inactive u then post_event ALT_JTAG_UART_TIMEOUT u else Some u
          else Some u);
     Some (ticks_per_second, u)
   }"

section \<open>Writing\<close>

text \<open>
  The points of a call of \<open>altera_avalon_jtag_uart_write\<close> between which interrupts and other tasks can run. The
  locals: \<open>w_ptr\<close> is \<open>ptr - start\<close>, \<open>w_in\<close> and \<open>w_n\<close> are set from the choice of the block to its release.
\<close>

datatype write_pc = W_Lock | W_Locking | W_Copy | W_Publish | W_Kick | W_Wait | W_Waiting | W_Spin | W_Check | W_Unlock
  | W_Return int

record write_call =
  w_pc :: write_pc
  w_ptr :: nat
  w_count :: int
  w_in :: INT32U
  w_out :: INT32U
  w_n :: INT32U

definition write_start :: "int \<Rightarrow> write_call" where
  "write_start count = \<lparr> w_pc = W_Lock, w_ptr = 0, w_count = count, w_in = 0, w_out = 0, w_n = 0 \<rparr>"

text \<open>The room in one piece behind \<open>tx_in\<close>.\<close>

definition tx_room :: "INT32U \<Rightarrow> INT32U \<Rightarrow> INT32U" where
  "tx_room i out =
     (if i < out then out - 1 - i
      else if 0 < out then ALTERA_AVALON_JTAG_UART_BUF_LEN - i
      else ALTERA_AVALON_JTAG_UART_BUF_LEN - 1 - i)"

text \<open>\<open>if (n > count) n = count\<close> for a positive \<open>count\<close>.\<close>

definition clip :: "INT32U \<Rightarrow> int \<Rightarrow> INT32U" where
  "clip n count = (if word_of_int count < n then word_of_int count else n)"

text \<open>\<open>memcpy(dst + i, src, n)\<close> within the arrays.\<close>

definition copy_in :: "nat \<Rightarrow> 'a list \<Rightarrow> 'a list \<Rightarrow> 'a list option" where
  "copy_in i src dst = (if i + length src \<le> length dst then Some (take i dst @ src @ drop (i + length src) dst) else None)"

definition copy_out :: "nat \<Rightarrow> nat \<Rightarrow> 'a list \<Rightarrow> 'a list option" where
  "copy_out i n src = (if i + n \<le> length src then Some (take n (drop i src)) else None)"

definition host_present :: "uart \<Rightarrow> bool" where
  "host_present u \<longleftrightarrow> host_inactive u < sp_timeout u"

definition result_of :: "nat \<Rightarrow> INT32U \<Rightarrow> int" where
  "result_of n flags = (if n \<noteq> 0 then int n else if flags AND O_NONBLOCK \<noteq> 0 then - EWOULDBLOCK else - EIO)"

text \<open>One step of the call; \<open>buf\<close> is what \<open>start\<close> points to and \<open>node\<close> the flag node on the caller's stack.\<close>

definition altera_avalon_jtag_uart_write ::
  "INT32U \<Rightarrow> nat \<Rightarrow> INT8U list \<Rightarrow> write_call \<Rightarrow> uart \<Rightarrow> (write_call \<times> uart) option" where
  "altera_avalon_jtag_uart_write flags node buf c u =
     (case w_pc c of
        W_Lock \<Rightarrow> do {
          (r, k) \<leftarrow> alt_sem_pend (write_lock u) 0 (kernel u);
          Some (c\<lparr> w_pc := if r then W_Copy else W_Locking \<rparr>, u\<lparr> kernel := k \<rparr>)
        }
      | W_Locking \<Rightarrow> do {
          k \<leftarrow> alt_sem_pend_return (write_lock u) (kernel u);
          Some (c\<lparr> w_pc := W_Copy \<rparr>, u\<lparr> kernel := k \<rparr>)
        }
      | W_Copy \<Rightarrow>
          if 0 < w_count c then
            let c = c\<lparr> w_in := tx_in u, w_out := tx_out u \<rparr>;
                n = tx_room (w_in c) (w_out c) in
            if n = 0 then Some (c\<lparr> w_pc := W_Kick \<rparr>, u)
            else do {
              let n = clip n (w_count c);
              src \<leftarrow> copy_out (w_ptr c) (unat n) buf;
              b \<leftarrow> copy_in (unat (w_in c)) src (tx_buf u);
              Some (c\<lparr> w_pc := W_Publish, w_n := n, w_ptr := w_ptr c + unat n, w_count := w_count c - uint n \<rparr>,
                    u\<lparr> tx_buf := b \<rparr>)
            }
          else Some (c\<lparr> w_pc := W_Kick \<rparr>, u)
      | W_Publish \<Rightarrow>
          Some (c\<lparr> w_pc := W_Copy \<rparr>, u\<lparr> tx_in := (w_in c + w_n c) mod ALTERA_AVALON_JTAG_UART_BUF_LEN \<rparr>)
      | W_Kick \<Rightarrow>
          let u = u\<lparr> irq_enable := irq_enable u OR WE_MSK \<rparr>;
              u = iowr_control (irq_enable u) u in
          Some (c\<lparr> w_pc := if w_count c \<le> 0 \<or> flags AND O_NONBLOCK \<noteq> 0 then W_Unlock
                           else if OSRunning (kernel u) = OS_TRUE then W_Wait else W_Spin \<rparr>, u)
      | W_Wait \<Rightarrow> do {
          (r, u) \<leftarrow> pend_event (ALT_JTAG_UART_WRITE_RDY OR ALT_JTAG_UART_TIMEOUT) node u;
          Some (c\<lparr> w_pc := if r then W_Check else W_Waiting \<rparr>, u)
        }
      | W_Waiting \<Rightarrow> do {
          u \<leftarrow> pend_event_return node u;
          Some (c\<lparr> w_pc := W_Check \<rparr>, u)
        }
      | W_Spin \<Rightarrow> Some (if w_out c = tx_out u \<and> host_present u then c else c\<lparr> w_pc := W_Check \<rparr>, u)
      | W_Check \<Rightarrow> Some (c\<lparr> w_pc := if w_out c = tx_out u then W_Unlock else W_Copy \<rparr>, u)
      | W_Unlock \<Rightarrow> do {
          (err, k) \<leftarrow> OSSemPost (write_lock u) (kernel u);
          Some (c\<lparr> w_pc := W_Return (result_of (w_ptr c) flags) \<rparr>, u\<lparr> kernel := k \<rparr>)
        }
      | W_Return r \<Rightarrow> Some (c, u))"

section \<open>Reading\<close>

text \<open>\<open>r_got\<close> is what the call has put in the caller's buffer, up to \<open>ptr\<close>.\<close>

datatype read_pc = R_Lock | R_Locking | R_Loop | R_Take | R_Publish | R_After | R_Wait | R_Waiting | R_Spin | R_Check | R_Unlock
  | R_Enable | R_Return int

record read_call =
  r_pc :: read_pc
  r_got :: "INT8U list"
  r_space :: int
  r_in :: INT32U
  r_out :: INT32U
  r_n :: INT32U

definition read_start :: "int \<Rightarrow> read_call" where
  "read_start space = \<lparr> r_pc = R_Lock, r_got = [], r_space = space, r_in = 0, r_out = 0, r_n = 0 \<rparr>"

text \<open>The data in one piece behind \<open>rx_out\<close>.\<close>

definition rx_avail :: "INT32U \<Rightarrow> INT32U \<Rightarrow> INT32U" where
  "rx_avail i out = (if out \<le> i then i - out else ALTERA_AVALON_JTAG_UART_BUF_LEN - out)"

definition altera_avalon_jtag_uart_read ::
  "INT32U \<Rightarrow> nat \<Rightarrow> read_call \<Rightarrow> uart \<Rightarrow> (read_call \<times> uart) option" where
  "altera_avalon_jtag_uart_read flags node c u =
     (case r_pc c of
        R_Lock \<Rightarrow> do {
          (r, k) \<leftarrow> alt_sem_pend (read_lock u) 0 (kernel u);
          Some (c\<lparr> r_pc := if r then R_Loop else R_Locking \<rparr>, u\<lparr> kernel := k \<rparr>)
        }
      | R_Locking \<Rightarrow> do {
          k \<leftarrow> alt_sem_pend_return (read_lock u) (kernel u);
          Some (c\<lparr> r_pc := R_Loop \<rparr>, u\<lparr> kernel := k \<rparr>)
        }
      | R_Loop \<Rightarrow> Some (c\<lparr> r_pc := if 0 < r_space c then R_Take else R_Unlock \<rparr>, u)
      | R_Take \<Rightarrow>
          let c = c\<lparr> r_in := rx_in u, r_out := rx_out u \<rparr>;
              n = rx_avail (r_in c) (r_out c) in
          if n = 0 then Some (c\<lparr> r_pc := R_After \<rparr>, u)
          else do {
            let n = clip n (r_space c);
            got \<leftarrow> copy_out (unat (r_out c)) (unat n) (rx_buf u);
            Some (c\<lparr> r_pc := R_Publish, r_n := n, r_got := r_got c @ got, r_space := r_space c - uint n \<rparr>, u)
          }
      | R_Publish \<Rightarrow>
          Some (c\<lparr> r_pc := if 0 < r_space c then R_Take else R_After \<rparr>,
                u\<lparr> rx_out := (r_out c + r_n c) mod ALTERA_AVALON_JTAG_UART_BUF_LEN \<rparr>)
      | R_After \<Rightarrow>
          Some (c\<lparr> r_pc := if r_got c \<noteq> [] \<or> flags AND O_NONBLOCK \<noteq> 0 then R_Unlock
                           else if OSRunning (kernel u) = OS_TRUE then R_Wait else R_Spin \<rparr>, u)
      | R_Wait \<Rightarrow> do {
          (r, u) \<leftarrow> pend_event (ALT_JTAG_UART_READ_RDY OR ALT_JTAG_UART_TIMEOUT) node u;
          Some (c\<lparr> r_pc := if r then R_Check else R_Waiting \<rparr>, u)
        }
      | R_Waiting \<Rightarrow> do {
          u \<leftarrow> pend_event_return node u;
          Some (c\<lparr> r_pc := R_Check \<rparr>, u)
        }
      | R_Spin \<Rightarrow> Some (if r_in c = rx_in u \<and> host_present u then c else c\<lparr> r_pc := R_Check \<rparr>, u)
      | R_Check \<Rightarrow> Some (c\<lparr> r_pc := if r_in c = rx_in u then R_Unlock else R_Loop \<rparr>, u)
      | R_Unlock \<Rightarrow> do {
          (err, k) \<leftarrow> OSSemPost (read_lock u) (kernel u);
          Some (c\<lparr> r_pc := if r_got c \<noteq> [] then R_Enable else R_Return (result_of 0 flags) \<rparr>, u\<lparr> kernel := k \<rparr>)
        }
      | R_Enable \<Rightarrow>
          let u = u\<lparr> irq_enable := irq_enable u OR RE_MSK \<rparr>;
              u = iowr_control (irq_enable u) u in
          Some (c\<lparr> r_pc := R_Return (result_of (length (r_got c)) flags) \<rparr>, u)
      | R_Return r \<Rightarrow> Some (c, u))"

section \<open>Control and close\<close>

text \<open>\<open>arg\<close> is the integer that the argument points to.\<close>

definition altera_avalon_jtag_uart_ioctl :: "int \<Rightarrow> INT32U \<Rightarrow> uart \<Rightarrow> int \<times> INT32U \<times> uart" where
  "altera_avalon_jtag_uart_ioctl req arg u =
     (if req = TIOCSTIMEOUT \<and> sp_timeout u \<noteq> INT_MAX then
        (0, arg, u\<lparr> sp_timeout := if 2 \<le> sint arg \<and> sint arg < uint INT_MAX then arg else INT_MAX - 1 \<rparr>)
      else if req = TIOCGCONNECTED \<and> sp_timeout u \<noteq> INT_MAX then (0, if host_present u then 1 else 0, u)
      else (- ENOTTY, arg, u))"

text \<open>One turn of the loop of the close call: the result, or none when the loop goes round.\<close>

definition altera_avalon_jtag_uart_close :: "INT32U \<Rightarrow> uart \<Rightarrow> int option" where
  "altera_avalon_jtag_uart_close flags u =
     (if tx_out u \<noteq> tx_in u \<and> host_present u
      then if flags AND O_NONBLOCK \<noteq> 0 then Some (- EWOULDBLOCK) else None
      else Some 0)"

end
