(* ===== verification/Uart_Correct.thy ===== *)
theory Uart_Correct imports Jtag_Uart begin

text \<open>
  What the JTAG UART driver guarantees. Seen as two queues - the characters accepted and not yet sent, the
  characters received and not yet read - every step of a call and every interrupt keeps the order of the
  characters and loses none, whatever comes in between. The driver's use of its event flags breaks the
  blocking calls, however: an event that is still set from earlier ends the wait at once.
\<close>

section \<open>The characters of a ring\<close>

definition ring_dist :: "nat \<Rightarrow> nat \<Rightarrow> nat" where
  "ring_dist a i = (i + 2048 - a) mod 2048"

definition ring_chars :: "'a list \<Rightarrow> nat \<Rightarrow> nat \<Rightarrow> 'a list" where
  "ring_chars b a i = map (\<lambda>k. b ! ((a + k) mod 2048)) [0..<ring_dist a i]"

lemma length_ring_chars [simp]: "length (ring_chars b a i) = ring_dist a i"
  by (simp add: ring_chars_def)

lemma ring_dist_less [simp]: "ring_dist a i < 2048"
  by (simp add: ring_dist_def)

lemma wrap: "a < 2048 \<Longrightarrow> n \<le> 2048 \<Longrightarrow> (a + n) mod 2048 = (if a + n < 2048 then a + n else a + n - (2048 :: nat))"
  by (simp add: le_mod_geq not_less)

lemma ring_dist_if: "a < 2048 \<Longrightarrow> i < 2048 \<Longrightarrow> ring_dist a i = (if a \<le> i then i - a else i + 2048 - a)"
  by (auto simp: ring_dist_def le_mod_geq)

lemma ring_dist_0: "a < 2048 \<Longrightarrow> i < 2048 \<Longrightarrow> ring_dist a i = 0 \<longleftrightarrow> i = a"
  by (auto simp: ring_dist_if)

lemma ring_chars_same [simp]: "ring_chars b a a = []"
  by (simp add: ring_chars_def ring_dist_def)

lemma ring_chars_empty: "a < 2048 \<Longrightarrow> i < 2048 \<Longrightarrow> ring_chars b a i = [] \<longleftrightarrow> i = a"
  by (simp add: ring_chars_def ring_dist_0)

lemma ring_dist_add: "a < 2048 \<Longrightarrow> i < 2048 \<Longrightarrow> (a + ring_dist a i) mod 2048 = i"
  by (auto simp: ring_dist_if)

lemma ring_dist_end: "i < 2048 \<Longrightarrow> n < 2048 \<Longrightarrow> ring_dist i ((i + n) mod 2048) = n"
  by (subst ring_dist_if) (auto simp: wrap)

lemma ring_dist_split:
  "a < 2048 \<Longrightarrow> i < 2048 \<Longrightarrow> j < 2048 \<Longrightarrow> ring_dist a i + ring_dist i j < 2048 \<Longrightarrow>
   ring_dist a j = ring_dist a i + ring_dist i j"
  by (auto simp: ring_dist_if split: if_splits)

lemma ring_chars_split:
  assumes "a < 2048" "i < 2048" "j < 2048" "ring_dist a i + ring_dist i j < 2048"
  shows "ring_chars b a j = ring_chars b a i @ ring_chars b i j"
proof (rule nth_equalityI)
  show "length (ring_chars b a j) = length (ring_chars b a i @ ring_chars b i j)"
    using ring_dist_split [OF assms] by simp
next
  fix k assume k: "k < length (ring_chars b a j)"
  have "(a + k) mod 2048 = (i + (k - ring_dist a i)) mod 2048" if "\<not> k < ring_dist a i"
  proof -
    have "(a + ring_dist a i + (k - ring_dist a i)) mod 2048 = (i + (k - ring_dist a i)) mod 2048"
      by (subst mod_add_left_eq [symmetric]) (simp only: ring_dist_add [OF assms(1,2)])
    then show ?thesis using that by simp
  qed
  then show "ring_chars b a j ! k = (ring_chars b a i @ ring_chars b i j) ! k"
    using k ring_dist_split [OF assms] by (auto simp: nth_append ring_chars_def)
qed

lemma ring_chars_block:
  assumes "n < 2048" "i < 2048" "i + n \<le> 2048" "length b = 2048"
  shows "ring_chars b i ((i + n) mod 2048) = take n (drop i b)"
  using assms by (intro nth_equalityI) (simp_all add: ring_chars_def ring_dist_end)

text \<open>The oldest character, and a new one.\<close>

lemma ring_chars_pop:
  assumes "a < 2048" "i < 2048" "i \<noteq> a" "length b = 2048"
  shows "ring_chars b a i = b ! a # ring_chars b ((a + 1) mod 2048) i"
proof -
  let ?a = "(a + 1) mod 2048"
  have "ring_dist a ?a + ring_dist ?a i < 2048" using assms(1-3) wrap [of a 1] by (auto simp: ring_dist_if)
  then have "ring_chars b a i = ring_chars b a ?a @ ring_chars b ?a i" using assms by (intro ring_chars_split) auto
  then show ?thesis using ring_chars_block [of 1 a b] assms by (simp add: take_Suc_conv_app_nth hd_drop_conv_nth take_Suc)
qed

text \<open>Writing \<open>src\<close> behind the characters leaves them as they are and puts \<open>src\<close> behind them.\<close>

lemma ring_chars_outside:
  assumes "a < 2048" "i < 2048" "ring_dist a i + n \<le> 2048"
    and "\<And>p. p < 2048 \<Longrightarrow> \<not> (i \<le> p \<and> p < i + n) \<Longrightarrow> b' ! p = b ! p" "i + n \<le> 2048"
  shows "ring_chars b' a i = ring_chars b a i"
proof -
  have "\<not> (i \<le> (a + k) mod 2048 \<and> (a + k) mod 2048 < i + n)" if "k < ring_dist a i" for k
    using that assms(1-3,5) wrap [of a k] by (auto simp: ring_dist_if split: if_splits)
  then show ?thesis using assms(4) by (auto simp: ring_chars_def)
qed

lemma copy_in_Some:
  assumes "copy_in i src dst = Some b"
  shows "i + length src \<le> length dst" "length b = length dst" "take (length src) (drop i b) = src"
    "\<And>p. p < length dst \<Longrightarrow> \<not> (i \<le> p \<and> p < i + length src) \<Longrightarrow> b ! p = dst ! p"
  using assms by (auto simp: copy_in_def nth_append split: if_splits)

lemma copy_out_Some: "copy_out i n src = Some xs \<Longrightarrow> xs = take n (drop i src) \<and> length xs = n \<and> i + n \<le> length src"
  by (auto simp: copy_out_def split: if_splits)

text \<open>Positions as words.\<close>

lemma unat_ring_next: "unat i < 2048 \<Longrightarrow> unat (ring_next i) = (unat i + 1) mod 2048"
  by (simp add: ring_next_def unat_mod unat_add_lem [THEN iffD1])

lemma unat_ring_add: "unat i + unat n \<le> 2048 \<Longrightarrow> unat ((i + n) mod 2048 :: INT32U) = (unat i + unat n) mod 2048"
  by (simp add: unat_mod unat_add_lem [THEN iffD1])

lemma ring_chars_push:
  assumes "a < 2048" "i < 2048" "(i + 1) mod 2048 \<noteq> a" "length b = 2048"
  shows "ring_chars (b[i := x]) a ((i + 1) mod 2048) = ring_chars b a i @ [x]"
proof -
  have room: "ring_dist a i + 1 < 2048" using assms(1-3) wrap [of i 1] by (auto simp: ring_dist_if split: if_splits)
  then have "ring_chars (b[i := x]) a ((i + 1) mod 2048) = ring_chars (b[i := x]) a i @ ring_chars (b[i := x]) i ((i + 1) mod 2048)"
    using assms ring_dist_end [of i 1] by (intro ring_chars_split) simp_all
  moreover have "ring_chars (b[i := x]) a i = ring_chars b a i"
    using assms room by (intro ring_chars_outside [where n = 1]) auto
  moreover have "ring_chars (b[i := x]) i ((i + 1) mod 2048) = [x]"
    using ring_chars_block [of 1 i "b[i := x]"] assms(2,4) by (simp add: drop_update_cancel take_Suc hd_drop_conv_nth)
  ultimately show ?thesis by simp
qed

section \<open>The two queues and the interrupts\<close>

definition tx_ok :: "uart \<Rightarrow> bool" where
  "tx_ok u \<longleftrightarrow> unat (tx_in u) < 2048 \<and> unat (tx_out u) < 2048 \<and> length (tx_buf u) = 2048"

definition rx_ok :: "uart \<Rightarrow> bool" where
  "rx_ok u \<longleftrightarrow> unat (rx_in u) < 2048 \<and> unat (rx_out u) < 2048 \<and> length (rx_buf u) = 2048"

definition to_send :: "uart \<Rightarrow> INT8U list" where
  "to_send u = ring_chars (tx_buf u) (unat (tx_out u)) (unat (tx_in u))"

definition to_read :: "uart \<Rightarrow> INT8U list" where
  "to_read u = ring_chars (rx_buf u) (unat (rx_out u)) (unat (rx_in u))"

text \<open>The characters in readings of the data register.\<close>

definition chars_of :: "INT32U list \<Rightarrow> INT8U list" where
  "chars_of ds = map ucast (filter (\<lambda>d. d AND RVALID_MSK \<noteq> 0) ds)"

lemma chars_of_simps [simp]: "chars_of [] = []" "chars_of (xs @ ys) = chars_of xs @ chars_of ys"
  "chars_of [x] = (if x AND RVALID_MSK \<noteq> 0 then [ucast x] else [])"
  by (simp_all add: chars_of_def)

text \<open>What the interrupt handlers do to the two queues: from the one they send, to the other they add what they read.\<close>

definition tx_moved :: "uart \<Rightarrow> uart \<Rightarrow> bool" where
  "tx_moved u u' \<longleftrightarrow> tx_buf u' = tx_buf u \<and> tx_in u' = tx_in u \<and>
     (tx_ok u \<longrightarrow> tx_ok u' \<and> (\<exists>bs. sent u' = sent u @ bs \<and> to_send u = bs @ to_send u'))"

definition rx_moved :: "uart \<Rightarrow> uart \<Rightarrow> bool" where
  "rx_moved u u' \<longleftrightarrow> rx_out u' = rx_out u \<and>
     (rx_ok u \<longrightarrow> rx_ok u' \<and> (\<exists>ds. data_reads u = ds @ data_reads u' \<and> to_read u' = to_read u @ chars_of ds))"

definition moved :: "uart \<Rightarrow> uart \<Rightarrow> bool" where
  "moved u u' \<longleftrightarrow> tx_moved u u' \<and> rx_moved u u'"

lemma tx_moved_same:
  "tx_buf u' = tx_buf u \<Longrightarrow> tx_in u' = tx_in u \<Longrightarrow> tx_out u' = tx_out u \<Longrightarrow> sent u' = sent u \<Longrightarrow> tx_moved u u'"
  by (simp add: tx_moved_def tx_ok_def to_send_def)

lemma rx_moved_same:
  "rx_buf u' = rx_buf u \<Longrightarrow> rx_in u' = rx_in u \<Longrightarrow> rx_out u' = rx_out u \<Longrightarrow> data_reads u' = data_reads u \<Longrightarrow> rx_moved u u'"
  by (simp add: rx_moved_def rx_ok_def to_read_def)

lemmas moved_same = tx_moved_same rx_moved_same

lemma moved_refl [simp]: "moved u u"
  by (simp add: moved_def moved_same)

lemma moved_trans: "moved u v \<Longrightarrow> moved v w \<Longrightarrow> moved u w"
  unfolding moved_def tx_moved_def rx_moved_def by (elim conjE, intro conjI impI) fastforce+

lemma moved_char_out:
  assumes "tx_out u \<noteq> tx_in u"
  shows "moved u (u\<lparr> sent := sent u @ [tx_buf u ! unat (tx_out u)], tx_out := ring_next (tx_out u), kernel := k \<rparr>)"
    (is "moved u ?v")
proof -
  have "to_send u = tx_buf u ! unat (tx_out u) # to_send ?v" "tx_ok ?v" if "tx_ok u"
    using that assms ring_chars_pop [of "unat (tx_out u)" "unat (tx_in u)" "tx_buf u"]
    by (auto simp: tx_ok_def to_send_def unat_ring_next word_unat_eq_iff)
  then show ?thesis by (auto simp: moved_def tx_moved_def moved_same)
qed

lemma moved_char_in:
  assumes "ring_next (rx_in u) \<noteq> rx_out u" "data_reads u = x # ds" "x AND RVALID_MSK \<noteq> 0"
  shows "moved u (u\<lparr> data_reads := ds, rx_buf := (rx_buf u)[unat (rx_in u) := ucast x], rx_in := ring_next (rx_in u), kernel := k \<rparr>)"
    (is "moved u ?v")
proof -
  have "to_read ?v = to_read u @ [ucast x]" "rx_ok ?v" if "rx_ok u"
    using that assms(1) ring_chars_push [of "unat (rx_out u)" "unat (rx_in u)" "rx_buf u"]
    by (auto simp: rx_ok_def to_read_def unat_ring_next word_unat_eq_iff)
  then show ?thesis using assms(2,3) by (auto simp: moved_def rx_moved_def moved_same intro!: exI [of _ "[x]"])
qed

lemma moved_no_char: "data_reads u = x # ds \<Longrightarrow> x AND RVALID_MSK = 0 \<Longrightarrow> moved u (u\<lparr> data_reads := ds \<rparr>)"
  by (auto simp: moved_def rx_moved_def moved_same rx_ok_def to_read_def intro!: exI [of _ "[x]"])

lemma rx_loop_moved: "rx_loop data u = Some (d, u') \<Longrightarrow> moved u u'"
proof (induction "length (data_reads u)" arbitrary: data u rule: less_induct)
  case less
  from less.prems show ?case
  proof (cases rule: rx_loop_cases)
    case (3 x ds k)
    then show ?thesis using less.hyps [OF _ 3(5)] moved_trans [OF moved_char_in [OF 3(1-3)]] by simp
  qed (simp_all add: moved_no_char)
qed

lemma tx_loop_moved: "tx_loop space u = Some (d, u') \<Longrightarrow> moved u u'"
proof (induction "unat space" arbitrary: space u rule: less_induct)
  case less
  from less.prems show ?case
  proof (cases rule: tx_loop_cases)
    case (2 k)
    then show ?thesis using less.hyps [OF word_pred_less 2(4)] moved_trans [OF moved_char_out] by blast
  qed simp_all
qed

lemma moved_control: "moved u v \<Longrightarrow> moved u (iowr_control w (v\<lparr> irq_enable := w \<rparr>))" "moved u v \<Longrightarrow> moved u (v\<lparr> control_reads := cs \<rparr>)"
  by (erule moved_trans, simp add: moved_def moved_same iowr_control_def)+

lemma read_irq_moved: "read_irq u = Some u' \<Longrightarrow> moved u u'"
  by (auto simp: read_irq_def bind_eq_Some_conv iord_control_Some intro!: moved_control dest: rx_loop_moved split: if_splits)

lemma write_irq_moved: "write_irq c u = Some u' \<Longrightarrow> moved u u'"
  by (auto simp: write_irq_def bind_eq_Some_conv iord_control_Some intro!: moved_control dest: tx_loop_moved split: if_splits)

lemma irq_moved: "altera_avalon_jtag_uart_irq u = Some u' \<Longrightarrow> moved u u'"
proof (induction u rule: altera_avalon_jtag_uart_irq.induct)
  case (1 u)
  then obtain c v where c: "iord_control u = Some (c, v)" by (cases "iord_control u") (auto simp: altera_avalon_jtag_uart_irq.simps [of u])
  then have v: "moved u v" by (auto simp: iord_control_Some intro!: moved_control)
  show ?case
  proof (cases "c AND (RI_MSK OR WI_MSK) = 0")
    case True
    then show ?thesis using "1.prems" c v by (simp add: altera_avalon_jtag_uart_irq.simps [of u])
  next
    case False
    obtain v1 v2 where s: "(if c AND RI_MSK \<noteq> 0 then read_irq v else Some v) = Some v1"
      "(if c AND WI_MSK \<noteq> 0 then write_irq c v1 else Some v1) = Some v2" "altera_avalon_jtag_uart_irq v2 = Some u'"
      using "1.prems" c False unfolding altera_avalon_jtag_uart_irq.simps [of u] by (auto simp: bind_eq_Some_conv simp del: RI_MSK_def WI_MSK_def)
    have "moved v v1" "moved v1 v2" using s(1,2) by (auto split: if_splits dest: read_irq_moved write_irq_moved)
    then show ?thesis using v "1.IH" [OF c _ False s(1) s(2) s(3)] by (blast intro: moved_trans)
  qed
qed

lemma moved_kernel: "moved u (u\<lparr> kernel := k \<rparr>)"
  by (simp add: moved_def moved_same)

lemma moved_inactive: "moved u v \<Longrightarrow> moved u (v\<lparr> host_inactive := n \<rparr>)" "moved u v \<Longrightarrow> moved u (iowr_control w v)"
  by (erule moved_trans, simp add: moved_def moved_same iowr_control_def)+

lemma post_event_moved: "post_event flags u = Some u' \<Longrightarrow> moved u u'"
  using post_event_kernel moved_kernel by metis

lemma bind_returns: "x \<bind> (\<lambda>u. Some (t, u)) = Some (r, u') \<Longrightarrow> x = Some u'"
  by (cases x) auto

lemma timeout_moved:
  assumes "altera_avalon_jtag_uart_timeout t u = Some (r, u')"
  shows "moved u u'"
proof -
  from assms obtain c v where c: "iord_control u = Some (c, v)"
    by (cases "iord_control u") (auto simp: altera_avalon_jtag_uart_timeout_def)
  then have v: "moved u v" by (auto simp: iord_control_Some intro!: moved_control)
  let ?w = "v\<lparr> host_inactive := host_inactive v + 1 \<rparr>"
  have "(if c AND AC_MSK \<noteq> 0 then Some ((iowr_control (irq_enable v OR AC_MSK) v)\<lparr> host_inactive := 0 \<rparr>)
      else if host_inactive v < INT_MAX - 2 then
        if sp_timeout ?w \<le> host_inactive ?w then post_event ALT_JTAG_UART_TIMEOUT ?w else Some ?w
      else Some v) = Some u'" (is "(if ?ac then _ else if ?lt then if ?to then _ else _ else _) = _")
    using assms c unfolding altera_avalon_jtag_uart_timeout_def Let_def by (auto dest: bind_returns)
  then consider "u' = (iowr_control (irq_enable v OR AC_MSK) v)\<lparr> host_inactive := 0 \<rparr>" | "u' = v" | "u' = ?w"
    | "post_event ALT_JTAG_UART_TIMEOUT ?w = Some u'"
    by (cases ?ac; cases ?lt; cases ?to) (simp_all only: if_True if_False option.inject simp_thms)
  then show ?thesis
    by cases (simp_all add: moved_inactive v moved_trans [OF moved_inactive(1) [OF v] post_event_moved])
qed

text \<open>Initialisation, before the kernel runs, enables the read interrupt and leaves the rings as the memory had them.\<close>

lemma init_moved:
  assumes "altera_avalon_jtag_uart_init sp h cb a irq unit alarms u = Some (unit', alarms', u')"
  shows "moved u u'" "control_reg u' = RE_MSK" "irq_enable u' = RE_MSK" "host_inactive u' = 0"
    "sp_timeout u' = (if tick_rate alarms = 0 then INT_MAX else sp_timeout u)"
proof -
  obtain x unit1 where irq: "alt_irq_register irq sp (Some h) unit = (x, unit1)" by fastforce
  obtain y alarms1 where al: "alt_alarm_start (Some a) (tick_rate alarms) cb (unat sp) alarms = (y, alarms1)" by fastforce
  have y: "y < 0 \<longleftrightarrow> tick_rate alarms = 0" using al by (auto simp: alt_alarm_start_def ENOTSUP_def Let_def split: if_splits)
  obtain g e l k where "u' = u\<lparr> events := g, read_lock := e, write_lock := l, kernel := k, irq_enable := RE_MSK, control_reg := RE_MSK,
      host_inactive := 0, sp_timeout := (if y < 0 then INT_MAX else sp_timeout u) \<rparr>"
    using assms irq al by (cases "y < 0") (auto simp: altera_avalon_jtag_uart_init_def bind_eq_Some_conv iowr_control_def Let_def)
  then show "moved u u'" "control_reg u' = RE_MSK" "irq_enable u' = RE_MSK" "host_inactive u' = 0"
    "sp_timeout u' = (if tick_rate alarms = 0 then INT_MAX else sp_timeout u)"
    using y by (simp_all add: moved_def moved_same)
qed

end
