(* ===== verification/Uart_Calls.thy ===== *)
theory Uart_Calls imports Uart_Correct Kernel_Example begin

text \<open>
  The calls of the JTAG UART driver among interrupts, alarms and each other: a writer and a reader that take
  their steps in any order between interrupts, while the other tasks change the kernel's state.
\<close>

section \<open>Room and data\<close>

lemma unat_minus_le: "b \<le> (a :: INT32U) \<Longrightarrow> unat (a - b) = unat a - unat b"
  by (simp add: unat_sub)

lemma tx_room_ok:
  assumes "unat i < 2048" "unat a < 2048"
  shows "unat i + unat (tx_room i a) \<le> 2048" "ring_dist (unat a) (unat i) + unat (tx_room i a) < 2048"
proof -
  have le: "i \<le> 2048" "i \<le> 2047" "0 < a \<longleftrightarrow> unat a \<noteq> 0" "i < a \<longleftrightarrow> unat i < unat a" "unat (2048 - i) = 2048 - unat i"
    "unat (2047 - i) = 2047 - unat i"
    using assms by (simp_all add: word_le_nat_alt word_less_nat_alt unat_minus_le)
  have "unat (a - 1 - i) = unat a - 1 - unat i" if "i < a"
  proof -
    have "1 \<le> a" "i \<le> a - 1" using that le(4) by (simp_all add: word_le_nat_alt word_less_nat_alt unat_minus_le)
    then show ?thesis by (simp add: unat_minus_le)
  qed
  then show "unat i + unat (tx_room i a) \<le> 2048" "ring_dist (unat a) (unat i) + unat (tx_room i a) < 2048"
    using assms le by (auto simp: tx_room_def ring_dist_if)
qed

lemma rx_avail_ok:
  assumes "unat i < 2048" "unat a < 2048"
  shows "unat a + unat (rx_avail i a) \<le> 2048" "unat (rx_avail i a) \<le> ring_dist (unat a) (unat i)"
proof -
  have "a \<le> 2048" using assms by (simp add: word_le_nat_alt)
  then show "unat a + unat (rx_avail i a) \<le> 2048" "unat (rx_avail i a) \<le> ring_dist (unat a) (unat i)"
    using assms by (auto simp: rx_avail_def ring_dist_if word_le_nat_alt unat_minus_le)
qed

lemma clip_ok:
  assumes "0 < count"
  shows "unat (clip n count) \<le> unat n" "int (unat (clip n count)) \<le> count"
proof -
  show "unat (clip n count) \<le> unat n" by (simp add: clip_def word_less_nat_alt)
  let ?c = "word_of_int count :: INT32U"
  have "int (unat ?c) \<le> count"
    using assms zmod_le_nonneg_dividend [of count "2 ^ 32"] by (simp add: unsigned_of_int take_bit_eq_mod)
  moreover have "unat (clip n count) \<le> unat ?c" by (simp only: clip_def not_less word_le_nat_alt split: if_split) simp
  ultimately show "int (unat (clip n count)) \<le> count" by linarith
qed

lemma ring_chars_take:
  assumes "a < 2048" "i < 2048" "n \<le> ring_dist a i" "a + n \<le> 2048" "length b = 2048"
  shows "ring_chars b a i = take n (drop a b) @ ring_chars b ((a + n) mod 2048) i"
proof -
  let ?a = "(a + n) mod 2048"
  have n: "n < 2048" using assms(3) ring_dist_less [of a i] by linarith
  have d: "ring_dist a ?a = n" using ring_dist_end [OF assms(1) n] .
  have "ring_dist a ?a + ring_dist ?a i < 2048"
    using assms(1-4) n wrap [of a n] by (auto simp: d ring_dist_if split: if_splits)
  from ring_chars_split [OF assms(1) _ assms(2) this, of b] show ?thesis
    using ring_chars_block [OF n assms(1,4,5)] by simp
qed

section \<open>A writer\<close>

text \<open>How many characters the interrupt can already see.\<close>

definition w_sent :: "write_call \<Rightarrow> nat" where
  "w_sent c = (if w_pc c = W_Publish then w_ptr c - unat (w_n c) else w_ptr c)"

definition write_inv :: "INT32U \<Rightarrow> int \<Rightarrow> INT8U list \<Rightarrow> INT8U list \<Rightarrow> write_call \<Rightarrow> uart \<Rightarrow> bool" where
  "write_inv flags count buf before c u \<longleftrightarrow>
     tx_ok u \<and> sent u @ to_send u = before @ take (w_sent c) buf \<and>
     w_count c = count - int (w_ptr c) \<and> (w_ptr c = 0 \<or> int (w_ptr c) \<le> count) \<and>
     (w_pc c = W_Publish \<longrightarrow> w_in c = tx_in u \<and> unat (w_n c) \<le> w_ptr c \<and> unat (w_in c) + unat (w_n c) \<le> 2048 \<and>
        take (unat (w_n c)) (drop (unat (w_in c)) (tx_buf u)) = take (unat (w_n c)) (drop (w_sent c) buf) \<and>
        length (to_send u) + unat (w_n c) < 2048) \<and>
     (\<forall>x. w_pc c = W_Return x \<longrightarrow> x = result_of (w_ptr c) flags)"

lemma write_inv_moved:
  assumes "write_inv flags count buf before c u" "tx_moved u u'"
  shows "write_inv flags count buf before c u'"
proof -
  have "tx_ok u" using assms(1) by (simp add: write_inv_def)
  then obtain bs where "tx_buf u' = tx_buf u" "tx_in u' = tx_in u" "tx_ok u'" "sent u' = sent u @ bs" "to_send u = bs @ to_send u'"
    using assms(2) by (auto simp: tx_moved_def)
  then show ?thesis using assms(1) by (auto simp: write_inv_def)
qed

lemma write_inv_copy:
  assumes inv: "write_inv flags count buf before c u" and pc: "w_pc c = W_Copy" "0 < w_count c"
    and room: "tx_room (tx_in u) (tx_out u) \<noteq> 0" and n: "n = clip (tx_room (tx_in u) (tx_out u)) (w_count c)"
    and src: "copy_out (w_ptr c) (unat n) buf = Some src" and b: "copy_in (unat (tx_in u)) src (tx_buf u) = Some b"
  shows "write_inv flags count buf before (c\<lparr> w_in := tx_in u, w_out := tx_out u, w_pc := W_Publish, w_n := n, w_ptr := w_ptr c + unat n,
     w_count := w_count c - uint n \<rparr>) (u\<lparr> tx_buf := b \<rparr>)"
proof -
  have u: "tx_ok u" using inv by (simp add: write_inv_def)
  then have r: "unat (tx_in u) + unat n \<le> 2048" "length (to_send u) + unat n < 2048" "int (unat n) \<le> w_count c"
    using tx_room_ok [of "tx_in u" "tx_out u"] clip_ok [OF pc(2), of "tx_room (tx_in u) (tx_out u)"]
    by (auto simp: tx_ok_def n to_send_def)
  have s: "src = take (unat n) (drop (w_ptr c) buf)" "length src = unat n" using copy_out_Some [OF src] by auto
  note ci = copy_in_Some [OF b, unfolded s(2)]
  have "ring_chars b (unat (tx_out u)) (unat (tx_in u)) = to_send u"
    unfolding to_send_def
  proof (rule ring_chars_outside [where n = "unat n"])
    show "b ! p = tx_buf u ! p" if "p < 2048" "\<not> (unat (tx_in u) \<le> p \<and> p < unat (tx_in u) + unat n)" for p
      using ci(4) that u by (simp add: tx_ok_def)
  qed (use u r in \<open>simp_all add: tx_ok_def to_send_def\<close>)
  then have "to_send (u\<lparr> tx_buf := b \<rparr>) = to_send u" by (simp add: to_send_def)
  moreover have "tx_ok (u\<lparr> tx_buf := b \<rparr>)" using u ci(2) by (simp add: tx_ok_def)
  moreover have "int (w_ptr c + unat n) \<le> count" using inv r(3) pc(2) by (simp add: write_inv_def)
  ultimately show ?thesis using inv pc(1) r(1,2) ci(3) s(1)
    unfolding write_inv_def w_sent_def by (simp only: write_call.simps uart.simps uint_nat) (auto simp: w_sent_def)
qed

lemma write_inv_publish:
  assumes inv: "write_inv flags count buf before c u" and pc: "w_pc c = W_Publish"
  shows "write_inv flags count buf before (c\<lparr> w_pc := W_Copy \<rparr>)
     (u\<lparr> tx_in := (w_in c + w_n c) mod ALTERA_AVALON_JTAG_UART_BUF_LEN \<rparr>)"
proof -
  let ?i = "unat (tx_in u)" and ?a = "unat (tx_out u)" and ?n = "unat (w_n c)"
  have u: "?i < 2048" "?a < 2048" "length (tx_buf u) = 2048" and p: "w_in c = tx_in u" "?n \<le> w_ptr c" "?i + ?n \<le> 2048"
    "take ?n (drop ?i (tx_buf u)) = take ?n (drop (w_sent c) buf)" "ring_dist ?a ?i + ?n < 2048"
    using inv pc by (auto simp: write_inv_def tx_ok_def to_send_def)
  have d: "ring_dist ?i ((?i + ?n) mod 2048) = ?n" using p u by (intro ring_dist_end) auto
  have "ring_chars (tx_buf u) ?a ((?i + ?n) mod 2048) = to_send u @ take ?n (drop ?i (tx_buf u))"
    using ring_chars_split [of ?a ?i "(?i + ?n) mod 2048" "tx_buf u"] ring_chars_block [of ?n ?i "tx_buf u"] u p d
    by (simp add: to_send_def)
  moreover have "take (w_sent c) buf @ take ?n (drop (w_sent c) buf) = take (w_ptr c) buf"
    using p(2) pc by (simp add: w_sent_def take_add [symmetric])
  moreover have "sent u @ to_send u = before @ take (w_sent c) buf" using inv by (simp add: write_inv_def)
  ultimately have "sent u @ ring_chars (tx_buf u) ?a ((?i + ?n) mod 2048) = before @ take (w_ptr c) buf"
    using p(4) by (metis append.assoc)
  then show ?thesis
    using inv pc p u by (simp add: write_inv_def tx_ok_def to_send_def unat_ring_add w_sent_def)
qed

lemma write_inv_pc:
  assumes "write_inv flags count buf before c u" "w_pc c \<noteq> W_Publish" "pc \<noteq> W_Publish" "\<forall>x. pc = W_Return x \<longrightarrow> x = result_of (w_ptr c) flags"
  shows "write_inv flags count buf before (c\<lparr> w_pc := pc \<rparr>) u" "write_inv flags count buf before (c\<lparr> w_in := i, w_out := a, w_pc := pc \<rparr>) u"
  using assms by (simp_all add: write_inv_def w_sent_def)

lemma pend_event_kernel: "pend_event flags n u = Some (r, u') \<Longrightarrow> \<exists>k. u' = u\<lparr> kernel := k \<rparr>"
  by (auto simp: pend_event_def bind_eq_Some_conv)

lemma pend_event_return_kernel: "pend_event_return n u = Some u' \<Longrightarrow> \<exists>k. u' = u\<lparr> kernel := k \<rparr>"
  by (auto simp: pend_event_return_def bind_eq_Some_conv)

text \<open>What a step of a write call is: it moves to another point and changes the kernel or the enable bits, or it copies a
  block, or it shows the block to the interrupt.\<close>

lemma write_step_cases:
  assumes "altera_avalon_jtag_uart_write flags node buf c u = Some (c', u')"
  obtains (same) "c' = c" "u' = u"
  | (point) pc k e r where "w_pc c \<noteq> W_Publish" "pc \<noteq> W_Publish" "\<forall>x. pc = W_Return x \<longrightarrow> x = result_of (w_ptr c) flags"
      "c' = c\<lparr> w_pc := pc \<rparr> \<or> c' = c\<lparr> w_in := tx_in u, w_out := tx_out u, w_pc := pc \<rparr>"
      "u' = u\<lparr> irq_enable := e, control_reg := r, kernel := k \<rparr>"
  | (copy) n src b where "w_pc c = W_Copy" "0 < w_count c" "tx_room (tx_in u) (tx_out u) \<noteq> 0"
      "n = clip (tx_room (tx_in u) (tx_out u)) (w_count c)" "copy_out (w_ptr c) (unat n) buf = Some src"
      "copy_in (unat (tx_in u)) src (tx_buf u) = Some b"
      "c' = c\<lparr> w_in := tx_in u, w_out := tx_out u, w_pc := W_Publish, w_n := n, w_ptr := w_ptr c + unat n, w_count := w_count c - uint n \<rparr>"
      "u' = u\<lparr> tx_buf := b \<rparr>"
  | (publish) "w_pc c = W_Publish" "c' = c\<lparr> w_pc := W_Copy \<rparr>"
      "u' = u\<lparr> tx_in := (w_in c + w_n c) mod ALTERA_AVALON_JTAG_UART_BUF_LEN \<rparr>"
proof -
  note st = assms [unfolded altera_avalon_jtag_uart_write_def]
  have kernel: thesis if "u' = u\<lparr> kernel := k \<rparr>" "c' = c\<lparr> w_pc := pc \<rparr>" "w_pc c \<noteq> W_Publish" "pc \<noteq> W_Publish"
    "\<forall>x. pc = W_Return x \<longrightarrow> x = result_of (w_ptr c) flags" for k pc
    using that by (intro point [of pc k "control_reg u" "irq_enable u"]) simp_all
  have still: thesis if "u' = u" "c' = c\<lparr> w_pc := pc \<rparr>" "w_pc c \<noteq> W_Publish" "pc \<noteq> W_Publish"
    "\<forall>x. pc = W_Return x \<longrightarrow> x = result_of (w_ptr c) flags" for pc
    using that by (intro kernel [of "kernel u" pc]) simp_all
  show thesis
  proof (cases "w_pc c")
    case W_Lock
    then show thesis using st by (auto simp: bind_eq_Some_conv intro: kernel [of _ W_Copy] kernel [of _ W_Locking] split: if_splits)
  next
    case W_Locking
    then show thesis using st by (auto simp: bind_eq_Some_conv intro: kernel [of _ W_Copy])
  next
    case W_Copy
    show thesis
    proof (cases "0 < w_count c")
      case False
      then show thesis using st W_Copy by (auto intro: still [of W_Kick])
    next
      case pos: True
      show thesis
      proof (cases "tx_room (tx_in u) (tx_out u) = 0")
        case True
        then show thesis using st W_Copy pos by (intro point [of W_Kick "kernel u" "control_reg u" "irq_enable u"]) auto
      next
        case False
        let ?n = "clip (tx_room (tx_in u) (tx_out u)) (w_count c)"
        obtain src where src: "copy_out (w_ptr c) (unat ?n) buf = Some src"
          using st W_Copy pos False by (cases "copy_out (w_ptr c) (unat ?n) buf") (simp_all add: Let_def)
        obtain b where b: "copy_in (unat (tx_in u)) src (tx_buf u) = Some b"
          using st W_Copy pos False src by (cases "copy_in (unat (tx_in u)) src (tx_buf u)") (simp_all add: Let_def)
        have e: "Some (c\<lparr> w_in := tx_in u, w_out := tx_out u, w_pc := W_Publish, w_n := ?n, w_ptr := w_ptr c + unat ?n,
            w_count := w_count c - uint ?n \<rparr>, u\<lparr> tx_buf := b \<rparr>) = Some (c', u')" (is "Some (?c', ?u') = _")
          unfolding st [symmetric] by (simp add: W_Copy pos False src b Let_def)
        have "?c' = c' \<and> ?u' = u'" using e unfolding option.inject prod.inject .
        then show thesis by (elim conjE) (rule copy [OF W_Copy pos False refl src b sym sym])
      qed
    qed
  next
    case W_Publish
    then show thesis using st by (auto intro: publish)
  next
    case W_Kick
    then show thesis using st by (intro point [of "w_pc c'" "kernel u" "irq_enable u OR WE_MSK" "irq_enable u OR WE_MSK"])
        (auto simp: iowr_control_def Let_def split: if_splits)
  next
    case W_Wait
    then obtain r where p: "pend_event (ALT_JTAG_UART_WRITE_RDY OR ALT_JTAG_UART_TIMEOUT) node u = Some (r, u')"
      "c' = c\<lparr> w_pc := if r then W_Check else W_Waiting \<rparr>"
      using st by (cases "pend_event (ALT_JTAG_UART_WRITE_RDY OR ALT_JTAG_UART_TIMEOUT) node u") auto
    obtain k where "u' = u\<lparr> kernel := k \<rparr>" using pend_event_kernel [OF p(1)] ..
    from this p(2) show thesis by (rule kernel) (simp_all add: W_Wait)
  next
    case W_Waiting
    then show thesis using st by (auto simp: bind_eq_Some_conv intro: kernel [of _ W_Check] dest!: pend_event_return_kernel)
  next
    case W_Spin
    then show thesis using st by (auto intro: same still [of W_Check] split: if_splits)
  next
    case W_Check
    then show thesis using st by (auto intro: still [of W_Unlock] still [of W_Copy] split: if_splits)
  next
    case W_Unlock
    then show thesis using st by (auto simp: bind_eq_Some_conv intro: kernel [of _ "W_Return (result_of (w_ptr c) flags)"])
  next
    case (W_Return x)
    then show thesis using st by (auto intro: same)
  qed
qed

lemma write_inv_step:
  assumes "altera_avalon_jtag_uart_write flags node buf c u = Some (c', u')" "write_inv flags count buf before c u"
  shows "write_inv flags count buf before c' u'"
  using assms(1)
proof (cases rule: write_step_cases)
  case (point pc k e r)
  from write_inv_pc [OF assms(2) point(1-3)] point(4)
  have "write_inv flags count buf before c' u" by blast
  then show ?thesis by (rule write_inv_moved) (simp add: point(5) moved_same)
next
  case (copy n src b)
  then show ?thesis using write_inv_copy [OF assms(2)] by simp
next
  case publish
  then show ?thesis using write_inv_publish [OF assms(2)] by simp
qed (use assms(2) in simp)

lemma write_step_rx:
  assumes "altera_avalon_jtag_uart_write flags node buf c u = Some (c', u')"
  shows "rx_moved u u'"
  using assms by (cases rule: write_step_cases) (auto intro: moved_same)

section \<open>A reader\<close>

text \<open>How many of its characters the reader has removed from the ring.\<close>

definition r_done :: "read_call \<Rightarrow> nat" where
  "r_done c = (if r_pc c = R_Publish then length (r_got c) - unat (r_n c) else length (r_got c))"

definition read_inv :: "INT32U \<Rightarrow> int \<Rightarrow> INT8U list \<Rightarrow> INT32U list \<Rightarrow> read_call \<Rightarrow> uart \<Rightarrow> bool" where
  "read_inv flags space before rs c u \<longleftrightarrow>
     rx_ok u \<and> (\<exists>ds. rs = ds @ data_reads u \<and> before @ chars_of ds = take (r_done c) (r_got c) @ to_read u) \<and>
     r_space c = space - int (length (r_got c)) \<and> (r_got c = [] \<or> int (length (r_got c)) \<le> space) \<and>
     (r_pc c = R_Take \<longrightarrow> 0 < r_space c) \<and>
     (r_pc c = R_Publish \<longrightarrow> r_out c = rx_out u \<and> unat (r_n c) \<le> length (r_got c) \<and> unat (r_out c) + unat (r_n c) \<le> 2048 \<and>
        unat (r_n c) \<le> length (to_read u) \<and> take (unat (r_n c)) (to_read u) = drop (r_done c) (r_got c)) \<and>
     (\<forall>x. r_pc c = R_Return x \<longrightarrow> x = result_of (length (r_got c)) flags)"

lemma read_inv_moved:
  assumes "read_inv flags space before rs c u" "rx_moved u u'"
  shows "read_inv flags space before rs c u'"
proof -
  from assms(1) obtain ds where ds: "rx_ok u" "rs = ds @ data_reads u" "before @ chars_of ds = take (r_done c) (r_got c) @ to_read u"
    by (auto simp: read_inv_def)
  then obtain es where es: "rx_out u' = rx_out u" "rx_ok u'" "data_reads u = es @ data_reads u'" "to_read u' = to_read u @ chars_of es"
    using assms(2) by (auto simp: rx_moved_def)
  have "rs = (ds @ es) @ data_reads u' \<and> before @ chars_of (ds @ es) = take (r_done c) (r_got c) @ to_read u'"
    using ds es by (metis append.assoc chars_of_simps(2))
  moreover have "take n (to_read u') = take n (to_read u) \<and> n \<le> length (to_read u')" if "n \<le> length (to_read u)" for n
    using that es(4) by simp
  ultimately have "rx_ok u'" "\<exists>ds. rs = ds @ data_reads u' \<and> before @ chars_of ds = take (r_done c) (r_got c) @ to_read u'"
    "r_pc c = R_Publish \<longrightarrow> unat (r_n c) \<le> length (to_read u') \<and> take (unat (r_n c)) (to_read u') = take (unat (r_n c)) (to_read u)"
    using es(2) assms(1) unfolding read_inv_def by blast+
  moreover have "r_pc c = R_Take \<longrightarrow> 0 < r_space c"
    "r_pc c = R_Publish \<longrightarrow> r_out c = rx_out u' \<and> unat (r_n c) \<le> length (r_got c) \<and> unat (r_out c) + unat (r_n c) \<le> 2048 \<and>
       take (unat (r_n c)) (to_read u) = drop (r_done c) (r_got c)"
    using assms(1) es(1) by (auto simp: read_inv_def)
  ultimately show ?thesis using assms(1) unfolding read_inv_def by (intro conjI impI) (blast | simp)+
qed

lemma read_inv_take:
  assumes inv: "read_inv flags space before rs c u" and pc: "r_pc c = R_Take"
    and avail: "rx_avail (rx_in u) (rx_out u) \<noteq> 0" and n: "n = clip (rx_avail (rx_in u) (rx_out u)) (r_space c)"
    and got: "copy_out (unat (rx_out u)) (unat n) (rx_buf u) = Some got"
  shows "read_inv flags space before rs (c\<lparr> r_in := rx_in u, r_out := rx_out u, r_pc := R_Publish, r_n := n, r_got := r_got c @ got,
     r_space := r_space c - uint n \<rparr>) u"
proof -
  let ?i = "unat (rx_in u)" and ?a = "unat (rx_out u)"
  have u: "rx_ok u" "0 < r_space c" using inv pc by (auto simp: read_inv_def)
  then have r: "?a + unat n \<le> 2048" "unat n \<le> ring_dist ?a ?i" "int (unat n) \<le> r_space c"
    using rx_avail_ok [of "rx_in u" "rx_out u"] clip_ok [OF u(2), of "rx_avail (rx_in u) (rx_out u)"] by (auto simp: rx_ok_def n)
  have g: "got = take (unat n) (drop ?a (rx_buf u))" "length got = unat n" using copy_out_Some [OF got] by auto
  have "to_read u = take (unat n) (drop ?a (rx_buf u)) @ ring_chars (rx_buf u) ((?a + unat n) mod 2048) ?i"
    using u(1) r by (simp add: to_read_def rx_ok_def ring_chars_take)
  then have "take (unat n) (to_read u) = got" "unat n \<le> length (to_read u)" using g by (simp_all add: to_read_def r(2))
  moreover have "int (length (r_got c @ got)) \<le> space" using inv r(3) g(2) by (simp add: read_inv_def)
  ultimately show ?thesis using inv pc u r(1) g(2)
    unfolding read_inv_def r_done_def by (simp only: read_call.simps uint_nat) (auto simp: r_done_def)
qed

lemma read_inv_publish:
  assumes inv: "read_inv flags space before rs c u" and pc: "r_pc c = R_Publish"
  shows "read_inv flags space before rs (c\<lparr> r_pc := if 0 < r_space c then R_Take else R_After \<rparr>)
     (u\<lparr> rx_out := (r_out c + r_n c) mod ALTERA_AVALON_JTAG_UART_BUF_LEN \<rparr>)"
proof -
  let ?i = "unat (rx_in u)" and ?a = "unat (rx_out u)" and ?n = "unat (r_n c)"
  obtain ds where ds: "rs = ds @ data_reads u" "before @ chars_of ds = take (r_done c) (r_got c) @ to_read u"
    and u: "?i < 2048" "?a < 2048" "length (rx_buf u) = 2048"
    and p: "r_out c = rx_out u" "?n \<le> length (r_got c)" "?a + ?n \<le> 2048" "?n \<le> ring_dist ?a ?i"
      "take ?n (to_read u) = drop (r_done c) (r_got c)"
    using inv pc by (auto simp: read_inv_def rx_ok_def to_read_def)
  let ?r = "ring_chars (rx_buf u) ((?a + ?n) mod 2048) ?i"
  have "to_read u = take ?n (drop ?a (rx_buf u)) @ ?r" using u p by (simp add: to_read_def ring_chars_take)
  moreover have "length (take ?n (drop ?a (rx_buf u))) = ?n" using u(3) p(3) by simp
  ultimately have "to_read u = take ?n (to_read u) @ ?r" by simp
  then have "before @ chars_of ds = r_got c @ ?r" using ds(2) p(5) by (metis append.assoc append_take_drop_id)
  then show ?thesis using inv pc p(1-3) u ds(1)
    by (auto simp: read_inv_def rx_ok_def to_read_def unat_ring_add r_done_def)
qed

lemma read_inv_pc:
  assumes "read_inv flags space before rs c u" "r_pc c \<noteq> R_Publish" "pc \<noteq> R_Publish" "pc = R_Take \<Longrightarrow> 0 < r_space c"
    "\<forall>x. pc = R_Return x \<longrightarrow> x = result_of (length (r_got c)) flags"
  shows "read_inv flags space before rs (c\<lparr> r_pc := pc \<rparr>) u" "read_inv flags space before rs (c\<lparr> r_in := i, r_out := a, r_pc := pc \<rparr>) u"
  using assms by (simp_all add: read_inv_def r_done_def)

lemma read_step_cases:
  assumes "altera_avalon_jtag_uart_read flags node c u = Some (c', u')"
  obtains (same) "c' = c" "u' = u"
  | (point) pc k e r where "r_pc c \<noteq> R_Publish" "pc \<noteq> R_Publish" "pc = R_Take \<Longrightarrow> 0 < r_space c"
      "\<forall>x. pc = R_Return x \<longrightarrow> x = result_of (length (r_got c)) flags"
      "c' = c\<lparr> r_pc := pc \<rparr> \<or> c' = c\<lparr> r_in := rx_in u, r_out := rx_out u, r_pc := pc \<rparr>"
      "u' = u\<lparr> irq_enable := e, control_reg := r, kernel := k \<rparr>"
  | (take) n got where "r_pc c = R_Take" "rx_avail (rx_in u) (rx_out u) \<noteq> 0"
      "n = clip (rx_avail (rx_in u) (rx_out u)) (r_space c)" "copy_out (unat (rx_out u)) (unat n) (rx_buf u) = Some got"
      "c' = c\<lparr> r_in := rx_in u, r_out := rx_out u, r_pc := R_Publish, r_n := n, r_got := r_got c @ got, r_space := r_space c - uint n \<rparr>"
      "u' = u"
  | (publish) "r_pc c = R_Publish" "c' = c\<lparr> r_pc := if 0 < r_space c then R_Take else R_After \<rparr>"
      "u' = u\<lparr> rx_out := (r_out c + r_n c) mod ALTERA_AVALON_JTAG_UART_BUF_LEN \<rparr>"
proof -
  note st = assms [unfolded altera_avalon_jtag_uart_read_def]
  have kernel: thesis if "u' = u\<lparr> kernel := k \<rparr>" "c' = c\<lparr> r_pc := pc \<rparr>" "r_pc c \<noteq> R_Publish" "pc \<noteq> R_Publish" "pc = R_Take \<Longrightarrow> 0 < r_space c"
    "\<forall>x. pc = R_Return x \<longrightarrow> x = result_of (length (r_got c)) flags" for k pc
    using that by (intro point [of pc k "control_reg u" "irq_enable u"]) simp_all
  have still: thesis if "u' = u" "c' = c\<lparr> r_pc := pc \<rparr>" "r_pc c \<noteq> R_Publish" "pc \<noteq> R_Publish" "pc = R_Take \<Longrightarrow> 0 < r_space c"
    "\<forall>x. pc = R_Return x \<longrightarrow> x = result_of (length (r_got c)) flags" for pc
    using that by (intro kernel [of "kernel u" pc]) simp_all
  show thesis
  proof (cases "r_pc c")
    case R_Lock
    then show thesis using st by (auto simp: bind_eq_Some_conv intro: kernel [of _ R_Loop] kernel [of _ R_Locking] split: if_splits)
  next
    case R_Locking
    then show thesis using st by (auto simp: bind_eq_Some_conv intro: kernel [of _ R_Loop])
  next
    case R_Loop
    then show thesis using st by (auto intro: still [of R_Take] still [of R_Unlock] split: if_splits)
  next
    case R_Take
    show thesis
    proof (cases "rx_avail (rx_in u) (rx_out u) = 0")
      case True
      then show thesis using st R_Take by (intro point [of R_After "kernel u" "control_reg u" "irq_enable u"]) auto
    next
      case False
      let ?n = "clip (rx_avail (rx_in u) (rx_out u)) (r_space c)"
      obtain got where got: "copy_out (unat (rx_out u)) (unat ?n) (rx_buf u) = Some got"
        using st R_Take False by (cases "copy_out (unat (rx_out u)) (unat ?n) (rx_buf u)") (simp_all add: Let_def)
      have e: "Some (c\<lparr> r_in := rx_in u, r_out := rx_out u, r_pc := R_Publish, r_n := ?n, r_got := r_got c @ got,
          r_space := r_space c - uint ?n \<rparr>, u) = Some (c', u')" (is "Some (?c', ?u') = _")
        unfolding st [symmetric] by (simp add: R_Take False got Let_def)
      have "?c' = c' \<and> ?u' = u'" using e unfolding option.inject prod.inject .
      then show thesis by (elim conjE) (rule take [OF R_Take False refl got sym sym])
    qed
  next
    case R_Publish
    then show thesis using st by (auto intro: publish)
  next
    case R_After
    then show thesis using st by (auto intro: still [of R_Unlock] still [of R_Wait] still [of R_Spin] split: if_splits)
  next
    case R_Wait
    then obtain r where p: "pend_event (ALT_JTAG_UART_READ_RDY OR ALT_JTAG_UART_TIMEOUT) node u = Some (r, u')"
      "c' = c\<lparr> r_pc := if r then R_Check else R_Waiting \<rparr>"
      using st by (cases "pend_event (ALT_JTAG_UART_READ_RDY OR ALT_JTAG_UART_TIMEOUT) node u") auto
    obtain k where "u' = u\<lparr> kernel := k \<rparr>" using pend_event_kernel [OF p(1)] ..
    from this p(2) show thesis by (rule kernel) (simp_all add: R_Wait split: if_splits)
  next
    case R_Waiting
    then show thesis using st by (auto simp: bind_eq_Some_conv intro: kernel [of _ R_Check] dest!: pend_event_return_kernel)
  next
    case R_Spin
    then show thesis using st by (auto intro: same still [of R_Check] split: if_splits)
  next
    case R_Check
    then show thesis using st by (auto intro: still [of R_Unlock] still [of R_Loop] split: if_splits)
  next
    case R_Unlock
    then show thesis using st
      by (auto simp: bind_eq_Some_conv intro: kernel [of _ "R_Return (result_of 0 flags)"] kernel [of _ R_Enable] split: if_splits)
  next
    case R_Enable
    then show thesis using st
      by (intro point [of "R_Return (result_of (length (r_got c)) flags)" "kernel u" "irq_enable u OR RE_MSK" "irq_enable u OR RE_MSK"])
         (auto simp: iowr_control_def Let_def)
  next
    case (R_Return x)
    then show thesis using st by (auto intro: same)
  qed
qed

lemma read_inv_step:
  assumes "altera_avalon_jtag_uart_read flags node c u = Some (c', u')" "read_inv flags space before rs c u"
  shows "read_inv flags space before rs c' u'"
  using assms(1)
proof (cases rule: read_step_cases)
  case (point pc k e r)
  from read_inv_pc [OF assms(2) point(1-4)] point(5)
  have "read_inv flags space before rs c' u" by blast
  then show ?thesis by (rule read_inv_moved) (simp add: point(6) moved_same)
next
  case (take n got)
  then show ?thesis using read_inv_take [OF assms(2)] by simp
next
  case publish
  then show ?thesis using read_inv_publish [OF assms(2)] by simp
qed (use assms(2) in simp)

lemma read_step_tx:
  assumes "altera_avalon_jtag_uart_read flags node c u = Some (c', u')"
  shows "tx_moved u u'"
  using assms by (cases rule: read_step_cases) (auto intro: moved_same)

section \<open>All together\<close>

text \<open>A step of a system with a writer, a reader, the interrupt, the alarm and other tasks that use the kernel.\<close>

inductive uart_step ::
  "INT32U \<Rightarrow> nat \<Rightarrow> INT8U list \<Rightarrow> INT32U \<Rightarrow> nat \<Rightarrow> write_call \<times> read_call \<times> uart \<Rightarrow> write_call \<times> read_call \<times> uart \<Rightarrow> bool"
  for wfl wn buf rfl rn where
  writes: "altera_avalon_jtag_uart_write wfl wn buf w u = Some (w', u') \<Longrightarrow> uart_step wfl wn buf rfl rn (w, r, u) (w', r, u')"
| reads: "altera_avalon_jtag_uart_read rfl rn r u = Some (r', u') \<Longrightarrow> uart_step wfl wn buf rfl rn (w, r, u) (w, r', u')"
| interrupt: "altera_avalon_jtag_uart_irq u = Some u' \<Longrightarrow> uart_step wfl wn buf rfl rn (w, r, u) (w, r, u')"
| alarm: "altera_avalon_jtag_uart_timeout t u = Some (v, u') \<Longrightarrow> uart_step wfl wn buf rfl rn (w, r, u) (w, r, u')"
| others: "uart_step wfl wn buf rfl rn (w, r, u) (w, r, u\<lparr> kernel := k \<rparr>)"
| control: "altera_avalon_jtag_uart_ioctl req arg u = (x, arg', u') \<Longrightarrow> uart_step wfl wn buf rfl rn (w, r, u) (w, r, u')"

definition uart_run ::
  "INT32U \<Rightarrow> nat \<Rightarrow> INT8U list \<Rightarrow> INT32U \<Rightarrow> nat \<Rightarrow> write_call \<times> read_call \<times> uart \<Rightarrow> write_call \<times> read_call \<times> uart \<Rightarrow> bool" where
  "uart_run wfl wn buf rfl rn = (uart_step wfl wn buf rfl rn)\<^sup>*\<^sup>*"

inductive_cases uart_stepE: "uart_step wfl wn buf rfl rn (w, r, u) (w', r', u')"

lemma ioctl_moved: "altera_avalon_jtag_uart_ioctl req arg u = (x, arg', u') \<Longrightarrow> moved u u'"
  by (auto simp: altera_avalon_jtag_uart_ioctl_def moved_def moved_same split: if_splits)

text \<open>Every step is one of the writer, one of the reader, or moves characters only.\<close>

lemma uart_step_cases:
  assumes "uart_step wfl wn buf rfl rn (w, r, u) (w', r', u')"
  obtains "altera_avalon_jtag_uart_write wfl wn buf w u = Some (w', u')" "r' = r"
  | "altera_avalon_jtag_uart_read rfl rn r u = Some (r', u')" "w' = w"
  | "w' = w" "r' = r" "moved u u'"
  using assms by (rule uart_stepE) (auto dest: irq_moved timeout_moved ioctl_moved simp: moved_kernel)

lemma uart_step_inv:
  assumes "uart_step wfl wn buf rfl rn (w, r, u) (w', r', u')"
  shows "write_inv wfl count buf before w u \<Longrightarrow> write_inv wfl count buf before w' u'"
    "read_inv rfl space past rs r u \<Longrightarrow> read_inv rfl space past rs r' u'"
  using assms
  by (auto elim!: uart_step_cases simp: moved_def intro: write_inv_step read_inv_step write_inv_moved read_inv_moved
      dest: write_step_rx read_step_tx)

lemma uart_run_inv:
  assumes "uart_run wfl wn buf rfl rn (w, r, u) (w', r', u')"
  shows "write_inv wfl count buf before w u \<Longrightarrow> write_inv wfl count buf before w' u'"
    "read_inv rfl space past rs r u \<Longrightarrow> read_inv rfl space past rs r' u'"
proof -
  have "(write_inv wfl count buf before w u \<longrightarrow> write_inv wfl count buf before (fst x) (snd (snd x))) \<and>
      (read_inv rfl space past rs r u \<longrightarrow> read_inv rfl space past rs (fst (snd x)) (snd (snd x)))"
    if "(uart_step wfl wn buf rfl rn)\<^sup>*\<^sup>* (w, r, u) x" for x
    using that
  proof (induction rule: rtranclp_induct)
    case (step y z)
    then show ?case using uart_step_inv [of wfl wn buf rfl rn "fst y" "fst (snd y)" "snd (snd y)" "fst z" "fst (snd z)" "snd (snd z)"]
      by auto
  qed simp
  from this [of "(w', r', u')"] assms show "write_inv wfl count buf before w u \<Longrightarrow> write_inv wfl count buf before w' u'"
    "read_inv rfl space past rs r u \<Longrightarrow> read_inv rfl space past rs r' u'"
    by (simp_all add: uart_run_def)
qed

lemma write_inv_start: "tx_ok u \<Longrightarrow> write_inv wfl count buf (sent u @ to_send u) (write_start count) u"
  by (simp add: write_inv_def write_start_def w_sent_def)

lemma read_inv_start: "rx_ok u \<Longrightarrow> read_inv rfl space (to_read u) (data_reads u) (read_start space) u"
  by (simp add: read_inv_def read_start_def r_done_def)

text \<open>With the invariant a step between the calls of the kernel never leaves the buffers.\<close>

lemma write_step_total:
  assumes "write_inv flags count buf before c u" "count \<le> int (length buf)"
    and "w_pc c \<in> {W_Copy, W_Publish, W_Kick, W_Spin, W_Check}"
  shows "altera_avalon_jtag_uart_write flags node buf c u \<noteq> None"
proof (cases "w_pc c = W_Copy \<and> 0 < w_count c \<and> tx_room (tx_in u) (tx_out u) \<noteq> 0")
  case True
  let ?n = "clip (tx_room (tx_in u) (tx_out u)) (w_count c)"
  have u: "tx_ok u" and c: "w_count c = count - int (w_ptr c)" using assms(1) by (auto simp: write_inv_def)
  have "unat (tx_in u) + unat ?n \<le> 2048" "int (unat ?n) \<le> w_count c"
    using tx_room_ok [of "tx_in u" "tx_out u"] clip_ok [of "w_count c" "tx_room (tx_in u) (tx_out u)"] True u
    by (auto simp: tx_ok_def)
  moreover have "w_ptr c + unat ?n \<le> length buf" using calculation(2) c assms(2) by linarith
  ultimately show ?thesis using True u
    by (simp add: altera_avalon_jtag_uart_write_def Let_def copy_out_def copy_in_def tx_ok_def)
next
  case False
  then show ?thesis using assms(3) by (auto simp: altera_avalon_jtag_uart_write_def Let_def)
qed

lemma read_step_total:
  assumes "read_inv flags space before rs c u"
    and "r_pc c \<in> {R_Loop, R_Take, R_Publish, R_After, R_Spin, R_Check, R_Enable}"
  shows "altera_avalon_jtag_uart_read flags node c u \<noteq> None"
proof (cases "r_pc c = R_Take \<and> rx_avail (rx_in u) (rx_out u) \<noteq> 0")
  case True
  let ?n = "clip (rx_avail (rx_in u) (rx_out u)) (r_space c)"
  have u: "rx_ok u" "0 < r_space c" using assms(1) True by (auto simp: read_inv_def)
  then have "unat (rx_out u) + unat ?n \<le> 2048"
    using rx_avail_ok(1) [of "rx_in u" "rx_out u"] clip_ok(1) [OF u(2), of "rx_avail (rx_in u) (rx_out u)"]
    by (auto simp: rx_ok_def)
  then show ?thesis using True u by (simp add: altera_avalon_jtag_uart_read_def Let_def copy_out_def rx_ok_def)
next
  case False
  then show ?thesis using assms(2) by (auto simp: altera_avalon_jtag_uart_read_def Let_def)
qed

text \<open>C13: Writing keeps the order and loses nothing, whatever comes between the steps of the call - interrupts, alarms, a
  reader, other tasks: what the host has got and what waits in the ring are always what was there before the call and
  then the first characters of the buffer. A call that returns a count has put exactly that many there, and an error
  code means none. No access leaves the ring or the caller's buffer.\<close>

theorem uart_writes_in_order:
  assumes "tx_ok u" and "count \<le> int (length buf)"
    and "uart_run wfl wn buf rfl rn (write_start count, r, u) (w', r', u')"
  shows "tx_ok u' \<and> (\<exists>m. sent u' @ to_send u' = sent u @ to_send u @ take m buf \<and> int m \<le> max 0 count \<and>
       (\<forall>x. w_pc w' = W_Return x \<longrightarrow> x = result_of m wfl)) \<and>
     (w_pc w' \<in> {W_Copy, W_Publish, W_Kick, W_Spin, W_Check} \<longrightarrow> altera_avalon_jtag_uart_write wfl wn buf w' u' \<noteq> None)"
proof -
  have inv: "write_inv wfl count buf (sent u @ to_send u) w' u'"
    using uart_run_inv(1) [OF assms(3) write_inv_start] assms(1) .
  moreover have "int (w_sent w') \<le> max 0 count"
  proof -
    have "int (w_ptr w') \<le> max 0 count" using inv by (auto simp: write_inv_def)
    moreover have "w_sent w' \<le> w_ptr w'" by (simp add: w_sent_def)
    ultimately show ?thesis by linarith
  qed
  ultimately show ?thesis using write_step_total [OF inv assms(2)]
    by (intro conjI exI [of _ "w_sent w'"]) (auto simp: write_inv_def w_sent_def)
qed

text \<open>C14: Reading keeps the order and loses nothing: what the reader has taken and what waits in the ring are what waited
  before the call and then the characters of the readings since, in any interleaving with interrupts. A call that
  returns a count has taken that many characters, at most as many as it asked for, and an error code means none.\<close>

theorem uart_reads_in_order:
  assumes "rx_ok u" and "uart_run wfl wn buf rfl rn (w, read_start space, u) (w', r', u')"
  shows "rx_ok u' \<and> (\<exists>ds m. data_reads u = ds @ data_reads u' \<and>
       to_read u @ chars_of ds = take m (r_got r') @ to_read u' \<and> int (length (r_got r')) \<le> max 0 space \<and>
       (\<forall>x. r_pc r' = R_Return x \<longrightarrow> m = length (r_got r') \<and> x = result_of m rfl)) \<and>
     (r_pc r' \<in> {R_Loop, R_Take, R_Publish, R_After, R_Spin, R_Check, R_Enable} \<longrightarrow>
        altera_avalon_jtag_uart_read rfl rn r' u' \<noteq> None)"
proof -
  have inv: "read_inv rfl space (to_read u) (data_reads u) r' u'"
    using uart_run_inv(2) [OF assms(2) read_inv_start] assms(1) .
  then obtain ds where "data_reads u = ds @ data_reads u'" "to_read u @ chars_of ds = take (r_done r') (r_got r') @ to_read u'"
    "rx_ok u'" by (auto simp: read_inv_def)
  moreover have "int (length (r_got r')) \<le> max 0 space" using inv by (auto simp: read_inv_def)
  moreover have "r_pc r' = R_Return x \<longrightarrow> r_done r' = length (r_got r') \<and> x = result_of (r_done r') rfl" for x
    using inv by (auto simp: read_inv_def r_done_def)
  ultimately show ?thesis using read_step_total [OF inv] by blast
qed

section \<open>An example\<close>

text \<open>A driver on the example kernel, with empty rings; its locks are the events 2 and 3.\<close>

definition blank :: "INT8U list" where
  "blank = replicate 2048 0"

lemma length_blank [simp]: "length blank = 2048" "blank \<noteq> []"
  by (simp_all add: blank_def)

definition example_uart_os :: os_state where
  "example_uart_os = set_event 3 (\<lambda>ev. ECB example_flags_os 2) example_flags_os"

definition example_uart :: uart where
  "example_uart = \<lparr> sp_base = JTAG_UART_0_BASE, sp_timeout = 10, irq_enable = RE_MSK, host_inactive = 0,
     read_lock = Some 2, write_lock = Some 3, events = Some 0, rx_in = 0, rx_out = 0, tx_in = 0, tx_out = 0,
     rx_buf = blank, tx_buf = blank, control_reads = [], data_reads = [], sent = [], control_reg = RE_MSK, kernel = example_uart_os \<rparr>"

lemma example_uart_os:
  "OSIntNesting example_uart_os = 0" "OSLockNesting example_uart_os = 0" "OSRunning example_uart_os = 1"
  "OSTCBCur example_uart_os = TCB_AT 2" "ECB example_uart_os 2 = ECB example_os 2" "ECB example_uart_os 3 = ECB example_os 2"
  "OSFlagTbl example_uart_os = OSFlagTbl example_flags_os"
  by (simp_all add: example_uart_os_def set_event_def example_flags_os_def set_grp_def example_os_def)

lemma example_lock: "OSEventType (example_ecbs 2) = 3" "OSEventCnt (example_ecbs 2) = 1" "OSEventGrp (example_ecbs 2) = 0"
  by (simp_all add: example_ecbs_def)

text \<open>Steps of a call that nothing interrupts.\<close>

fun write_alone :: "INT32U \<Rightarrow> nat \<Rightarrow> INT8U list \<Rightarrow> nat \<Rightarrow> write_call \<times> uart \<Rightarrow> (write_call \<times> uart) option" where
  "write_alone flags node buf 0 cu = Some cu"
| "write_alone flags node buf (Suc n) (c, u) = do { cu \<leftarrow> altera_avalon_jtag_uart_write flags node buf c u; write_alone flags node buf n cu }"

fun read_alone :: "INT32U \<Rightarrow> nat \<Rightarrow> nat \<Rightarrow> read_call \<times> uart \<Rightarrow> (read_call \<times> uart) option" where
  "read_alone flags node 0 cu = Some cu"
| "read_alone flags node (Suc n) (c, u) = do { cu \<leftarrow> altera_avalon_jtag_uart_read flags node c u; read_alone flags node n cu }"

lemma write_alone_run:
  "write_alone wfl wn buf n (w, u) = Some (w', u') \<Longrightarrow> uart_run wfl wn buf rfl rn (w, r, u) (w', r, u')"
proof (induction n arbitrary: w u)
  case (Suc n)
  then obtain w1 u1 where "altera_avalon_jtag_uart_write wfl wn buf w u = Some (w1, u1)" "write_alone wfl wn buf n (w1, u1) = Some (w', u')"
    by (auto simp: bind_eq_Some_conv)
  then show ?case using Suc.IH [of w1 u1] uart_step.writes [of wfl wn buf w u w1 u1 rfl rn r]
    unfolding uart_run_def by (meson converse_rtranclp_into_rtranclp)
qed (simp add: uart_run_def)

lemma read_alone_run:
  "read_alone rfl rn n (r, u) = Some (r', u') \<Longrightarrow> uart_run wfl wn buf rfl rn (w, r, u) (w, r', u')"
proof (induction n arbitrary: r u)
  case (Suc n)
  then obtain r1 u1 where "altera_avalon_jtag_uart_read rfl rn r u = Some (r1, u1)" "read_alone rfl rn n (r1, u1) = Some (r', u')"
    by (auto simp: bind_eq_Some_conv)
  then show ?case using Suc.IH [of r1 u1] uart_step.reads [of rfl rn r u r1 u1 wfl wn buf w]
    unfolding uart_run_def by (meson converse_rtranclp_into_rtranclp)
qed (simp add: uart_run_def)

lemma uart_run_trans: "uart_run a b c d e x y \<Longrightarrow> uart_run a b c d e y z \<Longrightarrow> uart_run a b c d e x z"
  unfolding uart_run_def by simp

lemma irq_run: "altera_avalon_jtag_uart_irq u = Some u' \<Longrightarrow> uart_run wfl wn buf rfl rn (w, r, u) (w, r, u')"
  unfolding uart_run_def by (blast intro: uart_step.interrupt)

text \<open>Posting an event for which nobody waits.\<close>

lemma post_event_nobody:
  assumes "OSRunning (kernel u) = 1" "events u = Some g" "OSFlagType (OSFlagTbl (kernel u) g) = OS_EVENT_TYPE_FLAG"
    "OSFlagWaitList (OSFlagTbl (kernel u) g) = Node_Ptr None"
  shows "post_event f u = Some (u\<lparr> kernel := set_flags g (OSFlagFlags (OSFlagTbl (kernel u) g) OR f) (kernel u) \<rparr>)"
  using assms
  by (simp add: post_event_def alt_flag_post_def OSFlagPost_enter_def flag_post_loop.simps set_flags_def set_grp_def)

lemma example_group: "OSFlagTbl example_flags_os 0 = zero_grp\<lparr> OSFlagType := OS_EVENT_TYPE_FLAG \<rparr>"
  by (simp add: example_flags_os_def example_os_def)

lemmas example_call = example_uart_def example_uart_os example_lock example_group zero_grp_def alt_sem_pend_def OSSemPend_enter_def
  OSSemPost_def clip_def copy_out_def copy_in_def iowr_control_def set_flags_def set_grp_def set_event_def

text \<open>Two characters are accepted; the handler sends one of them before the call ends.\<close>

definition example_sent :: os_state where
  "example_sent = set_flags 0 2 (set_event 3 (\<lambda>ev. ev\<lparr> OSEventCnt := OSEventCnt ev - 1 \<rparr>) example_uart_os)"

lemma example_write:
  "write_alone 0 9 [65, 66] (Suc (Suc (Suc 0))) (write_start 2, example_uart\<lparr> control_reads := [0x10200, 0] \<rparr>) =
     Some (\<lparr> w_pc = W_Copy, w_ptr = 2, w_count = 0, w_in = 0, w_out = 0, w_n = 2 \<rparr>,
       example_uart\<lparr> control_reads := [0x10200, 0], tx_buf := [65, 66] @ drop (Suc (Suc 0)) blank, tx_in := 2,
         kernel := set_event 3 (\<lambda>ev. ev\<lparr> OSEventCnt := OSEventCnt ev - 1 \<rparr>) example_uart_os \<rparr>)" (is "?step1")
  "altera_avalon_jtag_uart_irq (example_uart\<lparr> control_reads := [0x10200, 0], tx_buf := [65, 66] @ drop (Suc (Suc 0)) blank, tx_in := 2,
         kernel := set_event 3 (\<lambda>ev. ev\<lparr> OSEventCnt := OSEventCnt ev - 1 \<rparr>) example_uart_os \<rparr>) =
     Some (example_uart\<lparr> tx_buf := [65, 66] @ drop (Suc (Suc 0)) blank, tx_in := 2, tx_out := 1, sent := [65], kernel := example_sent \<rparr>)" (is "?step2")
proof -
  show ?step1 by (simp add: altera_avalon_jtag_uart_write_def write_start_def tx_room_def example_call)
  show ?step2
    by (simp add: altera_avalon_jtag_uart_irq.simps write_irq_def tx_loop.simps iord_control_def iowr_data_def ring_next_def
        post_event_nobody example_sent_def example_call)
qed

theorem uart_writes_in_order_witness:
  "\<exists>w' u'. uart_run 0 9 [65, 66] 0 8 (write_start 2, read_start 1, example_uart\<lparr> control_reads := [0x10200, 0] \<rparr>)
       (w', read_start 1, u') \<and>
     w_pc w' = W_Return 2 \<and> tx_ok u' \<and> sent u' @ to_send u' = [65, 66] \<and> sent u' = [65]"
proof -
  let ?u = "example_uart\<lparr> control_reads := [0x10200, 0] \<rparr>"
  let ?v = "example_uart\<lparr> tx_buf := [65, 66] @ drop (Suc (Suc 0)) blank, tx_in := 2, tx_out := 1, sent := [65], kernel := example_sent \<rparr>"
  obtain w' u' where last: "write_alone 0 9 [65, 66] (Suc (Suc (Suc 0)))
      (\<lparr> w_pc = W_Copy, w_ptr = 2, w_count = 0, w_in = 0, w_out = 0, w_n = 2 \<rparr>, ?v) = Some (w', u')"
    "w_pc w' = W_Return 2" "sent u' = [65]"
    by (simp add: altera_avalon_jtag_uart_write_def result_of_def example_sent_def example_call)
  have run: "uart_run 0 9 [65, 66] 0 8 (write_start 2, read_start 1, ?u) (w', read_start 1, u')"
    by (rule uart_run_trans [OF write_alone_run [OF example_write(1)] uart_run_trans [OF irq_run [OF example_write(2)] write_alone_run [OF last(1)]]])
  have "tx_ok ?u" by (simp add: tx_ok_def example_uart_def)
  moreover have "sent ?u = []" "to_send ?u = []" by (simp_all add: example_uart_def to_send_def)
  ultimately obtain m where m: "tx_ok u'" "sent u' @ to_send u' = take m [65, 66]" "result_of m 0 = 2"
    using uart_writes_in_order [OF _ _ run] last(2) by auto
  then have "m = 2" by (auto simp: result_of_def EIO_def EWOULDBLOCK_def split: if_splits)
  then show ?thesis using m(1,2) run last(2,3) by (intro exI [of _ w'] exI [of _ u']) simp
qed

text \<open>One character comes in, the reader asks for eight and gets it.\<close>

definition example_read_os :: os_state where
  "example_read_os = set_event 2 (\<lambda>ev. ev\<lparr> OSEventCnt := OSEventCnt ev + 1 \<rparr>)
     (set_event 2 (\<lambda>ev. ev\<lparr> OSEventCnt := OSEventCnt ev - 1 \<rparr>) (set_flags 0 1 example_uart_os))"

lemma example_read:
  "altera_avalon_jtag_uart_irq (example_uart\<lparr> control_reads := [0x100, 0], data_reads := [0x8041, 0] \<rparr>) =
     Some (example_uart\<lparr> rx_buf := blank[0 := 65], rx_in := 1, kernel := set_flags 0 1 example_uart_os \<rparr>)" (is "?step1")
  "read_alone 0 8 (Suc (Suc (Suc (Suc (Suc (Suc (Suc (Suc 0)))))))) (read_start 8,
       example_uart\<lparr> rx_buf := blank[0 := 65], rx_in := 1, kernel := set_flags 0 1 example_uart_os \<rparr>) =
     Some (\<lparr> r_pc = R_Return 1, r_got = [65], r_space = 7, r_in = 1, r_out = 1, r_n = 1 \<rparr>,
       example_uart\<lparr> rx_buf := blank[0 := 65], rx_in := 1, rx_out := 1, kernel := example_read_os \<rparr>)" (is "?step2")
proof -
  have byte: "blank[0 := (0x8041 :: INT8U)] = blank[0 := 0x41]" by (rule arg_cong [where f = "\<lambda>x. blank[0 := x]"]) simp
  show ?step1
    by (simp add: byte altera_avalon_jtag_uart_irq.simps read_irq_def rx_loop.simps iord_control_def iord_data_def ring_next_def array_put_def
        post_event_nobody example_call)
  show ?step2
    by (simp add: altera_avalon_jtag_uart_read_def read_start_def rx_avail_def result_of_def example_read_os_def take_Suc hd_conv_nth example_call)
qed

theorem uart_reads_in_order_witness:
  "\<exists>r' u'. uart_run 0 9 [65, 66] 0 8 (write_start 2, read_start 8, example_uart\<lparr> control_reads := [0x100, 0], data_reads := [0x8041, 0] \<rparr>)
       (write_start 2, r', u') \<and>
     r_pc r' = R_Return 1 \<and> rx_ok u' \<and> r_got r' @ to_read u' = [65]"
proof -
  let ?u = "example_uart\<lparr> control_reads := [0x100, 0], data_reads := [0x8041, 0] \<rparr>"
  let ?v = "example_uart\<lparr> rx_buf := blank[0 := 65], rx_in := 1, rx_out := 1, kernel := example_read_os \<rparr>"
  let ?r = "\<lparr> r_pc = R_Return 1, r_got = [65], r_space = 7, r_in = 1, r_out = 1, r_n = 1 \<rparr>"
  have run: "uart_run 0 9 [65, 66] 0 8 (write_start 2, read_start 8, ?u) (write_start 2, ?r, ?v)"
    by (rule uart_run_trans [OF irq_run [OF example_read(1)] read_alone_run [OF example_read(2)]])
  have "rx_ok ?u" "to_read ?u = []" by (simp_all add: rx_ok_def to_read_def example_uart_def)
  moreover have "data_reads ?v = []" by (simp add: example_uart_def)
  moreover have "chars_of [0x8041, 0] = [65]" by (simp add: chars_of_def)
  ultimately show ?thesis using uart_reads_in_order [OF _ run] run
    by (intro exI [of _ ?r] exI [of _ ?v]) (auto simp: example_uart_def)
qed

end
