(* ===== verification/Uart_Events.thy ===== *)
theory Uart_Events imports Uart_Calls begin

text \<open>
  The JTAG UART driver and the kernel: the interrupt handler comes to an end, with the kernel consistent, and
  an event that is still set from earlier ends a blocking call at once.
\<close>

section \<open>The interrupt ends\<close>

text \<open>The kernel as the handler needs it: not started, or in an interrupt with a sound flag group.\<close>

definition events_ok :: "uart \<Rightarrow> bool" where
  "events_ok u \<longleftrightarrow> OSRunning (kernel u) = 0 \<or>
     (\<exists>g ns. events u = Some g \<and> kernel_ok (kernel u) \<and> OSIntNesting (kernel u) \<noteq> 0 \<and>
        OSFlagType (OSFlagTbl (kernel u) g) = OS_EVENT_TYPE_FLAG \<and> flags_ok g (kernel u) ns)"

lemma flag_post_in_interrupt:
  assumes ok: "kernel_ok s" "OSIntNesting s \<noteq> 0" "OSFlagType (OSFlagTbl s g) = OS_EVENT_TYPE_FLAG" "flags_ok g s ns"
  shows "\<exists>s' ms. OSFlagPost_enter (Some g) flags OS_FLAG_SET (Some err) s = Some (None, Some err, s') \<and> kernel_ok s' \<and>
     OSIntNesting s' \<noteq> 0 \<and> OSFlagType (OSFlagTbl s' g) = OS_EVENT_TYPE_FLAG \<and> flags_ok g s' ms"
proof -
  let ?new = "set_flags g (OSFlagFlags (OSFlagTbl s g) OR flags) s"
  have n: "kernel_ok ?new" "flags_ok g ?new ([] @ ns)" using ok(1,4) by simp_all
  obtain s1 where s1: "flag_post_loop g (case ns of [] \<Rightarrow> None | n # ms \<Rightarrow> Some n) False ?new =
      Some (Some (flag_waked g ?new ns \<noteq> {}), s1)"
    "walked g ?new ns s1" "flag_list g s1 (filter (\<lambda>n. \<not> satisfied g ?new n) ns)"
    using flag_post_loop_ok [OF n, of False] by auto
  have fr: "flag_frame ?new s1" and k1: "kernel_ok s1" using s1(2) by (simp_all add: walked_def)
  have i1: "OSIntNesting s1 \<noteq> 0" using ok(2) flag_frameD(6) [OF fr] by simp
  have t1: "OSFlagType (OSFlagTbl s1 g) = OS_EVENT_TYPE_FLAG" using fr ok(3) by (simp add: flag_frame_def)
  have f1: "flags_ok g s1 (filter (\<lambda>n. \<not> satisfied g ?new n) ns)"
    using flags_ok_frame [OF fr, of g ns "filter (\<lambda>n. \<not> satisfied g ?new n) ns"] n(2) s1(3) by simp
  have "OSFlagWaitList (OSFlagTbl s g) = Node_Ptr (case ns of [] \<Rightarrow> None | n # ms \<Rightarrow> Some n)"
    using flag_list_head [of g ?new ns] n(2) by (simp add: flags_ok_def)
  then have "OSFlagPost_enter (Some g) flags OS_FLAG_SET (Some err) s = Some (None, Some err, s1)"
    using ok(3) s1(1) OS_Sched_locked [of s1] i1 by (auto simp: OSFlagPost_enter_def)
  then show ?thesis using k1 i1 t1 f1 by blast
qed

lemma post_event_ok:
  assumes "events_ok u"
  shows "\<exists>k. post_event flags u = Some (u\<lparr> kernel := k \<rparr>) \<and> events_ok (u\<lparr> kernel := k \<rparr>)"
proof (cases "OSRunning (kernel u) = 0")
  case True
  then show ?thesis using assms by (intro exI [of _ "kernel u"]) (simp add: post_event_def alt_flag_post_def)
next
  case False
  then obtain g ns where g: "events u = Some g" and k: "kernel_ok (kernel u)" "OSIntNesting (kernel u) \<noteq> 0"
    "OSFlagType (OSFlagTbl (kernel u) g) = OS_EVENT_TYPE_FLAG" "flags_ok g (kernel u) ns"
    using assms by (auto simp: events_ok_def)
  obtain s' ms where "OSFlagPost_enter (Some g) flags OS_FLAG_SET (Some 0) (kernel u) = Some (None, Some 0, s')" "kernel_ok s'"
    "OSIntNesting s' \<noteq> 0" "OSFlagType (OSFlagTbl s' g) = OS_EVENT_TYPE_FLAG" "flags_ok g s' ms"
    using flag_post_in_interrupt [OF k] by blast
  then show ?thesis using g False
    by (intro exI [of _ s']) (auto simp: post_event_def alt_flag_post_def events_ok_def)
qed

lemma events_ok_cong: "kernel u' = kernel u \<Longrightarrow> events u' = events u \<Longrightarrow> events_ok u' = events_ok u"
  by (simp add: events_ok_def)

text \<open>There are data readings for \<open>n\<close> more fruitless looks at the data register.\<close>

definition readings_left :: "nat \<Rightarrow> uart \<Rightarrow> bool" where
  "readings_left n u \<longleftrightarrow> rx_ok u \<and> n + 2047 \<le> length (to_read u) + length (data_reads u)"

lemma ring_full: "rx_ok u \<Longrightarrow> length (to_read u) = 2047 \<Longrightarrow> ring_next (rx_in u) = rx_out u"
  using wrap [of "unat (rx_in u)" 1]
  by (auto simp: rx_ok_def to_read_def ring_dist_if word_unat_eq_iff unat_ring_next split: if_splits)

lemma rx_loop_returns:
  assumes "readings_left (Suc n) u" "events_ok u"
  shows "\<exists>d u'. rx_loop data u = Some (d, u') \<and> readings_left n u' \<and> events_ok u' \<and> control_reads u' = control_reads u"
  using assms
proof (induction "length (data_reads u)" arbitrary: data u rule: less_induct)
  case less
  show ?case
  proof (cases "ring_next (rx_in u) = rx_out u")
    case True
    then show ?thesis using less.prems by (auto simp: rx_loop.simps [of data u] readings_left_def)
  next
    case full: False
    have rx: "rx_ok u" using less.prems(1) by (simp add: readings_left_def)
    have "length (to_read u) < 2048" by (simp add: to_read_def)
    with ring_full [OF rx] full have "length (to_read u) < 2047" by linarith
    then obtain x ds where x: "data_reads u = x # ds" using less.prems(1) by (cases "data_reads u") (auto simp: readings_left_def)
    show ?thesis
    proof (cases "x AND RVALID_MSK = 0")
      case True
      then show ?thesis using less.prems full x
        by (auto simp: rx_loop.simps [of data u] iord_data_def readings_left_def rx_ok_def to_read_def events_ok_def)
    next
      case False
      let ?v = "u\<lparr> data_reads := ds, rx_buf := (rx_buf u)[unat (rx_in u) := ucast x], rx_in := ring_next (rx_in u) \<rparr>"
      have "events_ok ?v" using less.prems(2) by (simp add: events_ok_def)
      then obtain k where k: "post_event ALT_JTAG_UART_READ_RDY ?v = Some (?v\<lparr> kernel := k \<rparr>)" "events_ok (?v\<lparr> kernel := k \<rparr>)"
        using post_event_ok by blast
      have step: "rx_loop data u = rx_loop x (?v\<lparr> kernel := k \<rparr>)"
        using full x False k(1) rx by (simp add: rx_loop.simps [of data u] iord_data_def array_put_def rx_ok_def)
      have "rx_moved u (?v\<lparr> kernel := k \<rparr>)" using moved_char_in [OF full x False, of k] by (simp add: moved_def)
      then obtain es where "rx_ok (?v\<lparr> kernel := k \<rparr>)" "x # ds = es @ ds" "to_read (?v\<lparr> kernel := k \<rparr>) = to_read u @ chars_of es"
        using rx x by (auto simp: rx_moved_def)
      then have "readings_left (Suc n) (?v\<lparr> kernel := k \<rparr>)" using less.prems(1) x False by (auto simp: readings_left_def)
      then show ?thesis using less.hyps [of "?v\<lparr> kernel := k \<rparr>" x] k(2) x unfolding step by simp
    qed
  qed
qed

lemma tx_loop_returns:
  assumes "tx_ok u" "events_ok u"
  shows "\<exists>d u'. tx_loop space u = Some (d, u') \<and> events_ok u' \<and> control_reads u' = control_reads u \<and>
     (\<forall>n. readings_left n u' = readings_left n u)"
  using assms
proof (induction "unat space" arbitrary: space u rule: less_induct)
  case less
  show ?case
  proof (cases "0 < space \<and> tx_out u \<noteq> tx_in u")
    case False
    then show ?thesis using less.prems by (auto simp: tx_loop.simps [of space u])
  next
    case True
    let ?v = "u\<lparr> sent := sent u @ [tx_buf u ! unat (tx_out u)], tx_out := ring_next (tx_out u) \<rparr>"
    have "events_ok ?v" using less.prems(2) by (simp add: events_ok_def)
    then obtain k where k: "post_event ALT_JTAG_UART_WRITE_RDY ?v = Some (?v\<lparr> kernel := k \<rparr>)" "events_ok (?v\<lparr> kernel := k \<rparr>)"
      using post_event_ok by blast
    have step: "tx_loop space u = tx_loop (space - 1) (?v\<lparr> kernel := k \<rparr>)"
      using True k(1) less.prems(1) by (simp add: tx_loop.simps [of space u] iowr_data_def tx_ok_def)
    have "tx_ok (?v\<lparr> kernel := k \<rparr>)"
      using moved_char_out [of u k] True less.prems(1) by (simp add: moved_def tx_moved_def)
    from less.hyps [OF word_pred_less [OF conjunct1 [OF True]] this k(2)]
    show ?thesis unfolding step by (simp add: readings_left_def rx_ok_def to_read_def)
  qed
qed

lemma readings_left_mono: "readings_left m u \<Longrightarrow> n \<le> m \<Longrightarrow> readings_left n u"
  by (simp add: readings_left_def)

lemma readings_left_same [simp]:
  "readings_left n (u\<lparr> irq_enable := e, control_reg := r \<rparr>) = readings_left n u" "readings_left n (u\<lparr> control_reads := cs \<rparr>) = readings_left n u"
  "events_ok (u\<lparr> irq_enable := e, control_reg := r \<rparr>) = events_ok u" "events_ok (u\<lparr> control_reads := cs \<rparr>) = events_ok u"
  by (simp_all add: readings_left_def rx_ok_def to_read_def events_ok_def)

text \<open>Turning an enable bit off, with the dummy reading.\<close>

lemma disable_bit:
  assumes "readings_left n u" "events_ok u" "control_reads u \<noteq> []"
  shows "\<exists>u' j. do { let u = u\<lparr> irq_enable := e u \<rparr>; let u = iowr_control (irq_enable u) u; (dummy, u) \<leftarrow> iord_control u; Some u } = Some u' \<and>
     readings_left n u' \<and> events_ok u' \<and> j \<le> 1 \<and> control_reads u' = drop j (control_reads u)"
  using assms
  by (cases "control_reads u") (auto simp: iord_control_def iowr_control_def readings_left_def rx_ok_def to_read_def events_ok_def
      intro!: exI [of _ 1])

lemma read_irq_returns:
  assumes "readings_left (Suc n) u" "events_ok u" "control_reads u \<noteq> []"
  shows "\<exists>u' j. read_irq u = Some u' \<and> readings_left n u' \<and> events_ok u' \<and> j \<le> 1 \<and> control_reads u' = drop j (control_reads u)"
proof -
  obtain d v where v: "rx_loop 0x10000 u = Some (d, v)" "readings_left n v" "events_ok v" "control_reads v = control_reads u"
    using rx_loop_returns [OF assms(1,2)] by blast
  show ?thesis
  proof (cases "d AND RAVAIL_MSK = 0")
    case True
    then show ?thesis using v by (intro exI [of _ v] exI [of _ 0]) (simp add: read_irq_def)
  next
    case False
    then show ?thesis using disable_bit [OF v(2,3), of "\<lambda>u. irq_enable u AND NOT RE_MSK"] v assms(3) by (simp add: read_irq_def)
  qed
qed

lemma write_irq_returns:
  assumes "readings_left n u" "events_ok u" "tx_ok u" "control_reads u \<noteq> []"
  shows "\<exists>u' j. write_irq c u = Some u' \<and> readings_left n u' \<and> events_ok u' \<and> j \<le> 1 \<and> control_reads u' = drop j (control_reads u)"
proof -
  obtain d v where v: "tx_loop (drop_bit 16 c) u = Some (d, v)" "readings_left n v" "events_ok v" "control_reads v = control_reads u"
    using tx_loop_returns [OF assms(3,2)] assms(1) by blast
  show ?thesis
  proof (cases "0 < d")
    case False
    then show ?thesis using v by (intro exI [of _ v] exI [of _ 0]) (simp add: write_irq_def)
  next
    case True
    then show ?thesis using disable_bit [OF v(2,3), of "\<lambda>u. irq_enable u AND NOT WE_MSK"] v assms(4) by (simp add: write_irq_def)
  qed
qed

text \<open>From the reading \<open>n\<close> on nothing is pending, and the readings last.\<close>

definition quiet_after :: "nat \<Rightarrow> INT32U list \<Rightarrow> bool" where
  "quiet_after n cs \<longleftrightarrow> (\<forall>i. n \<le> i \<and> i < length cs \<longrightarrow> (cs ! i) AND (RI_MSK OR WI_MSK) = 0) \<and>
     (if n = 0 then 0 else n + 2) < length cs"

lemma quiet_after_drop:
  assumes "quiet_after (Suc n) cs" "j \<le> 2"
  shows "quiet_after (n - j) (drop (Suc j) cs)"
proof -
  have "Suc j \<le> length cs" using assms by (simp add: quiet_after_def)
  have "(drop (Suc j) cs ! i) AND (RI_MSK OR WI_MSK) = 0" if "n - j \<le> i \<and> i < length (drop (Suc j) cs)" for i
  proof -
    have "Suc n \<le> Suc (j + i)" "Suc (j + i) < length cs" using that by auto
    then have "(cs ! Suc (j + i)) AND (RI_MSK OR WI_MSK) = 0" using assms(1) unfolding quiet_after_def by blast
    then show ?thesis using \<open>Suc j \<le> length cs\<close> by (simp del: RI_MSK_def WI_MSK_def)
  qed
  moreover have "(if n - j = 0 then 0 else n - j + 2) < length (drop (Suc j) cs)" using assms by (auto simp: quiet_after_def)
  ultimately show ?thesis unfolding quiet_after_def by blast
qed

lemma irq_returns:
  assumes "tx_ok u" "events_ok u" "quiet_after n (control_reads u)" "readings_left n u"
  shows "\<exists>u'. altera_avalon_jtag_uart_irq u = Some u' \<and> events_ok u'"
  using assms
proof (induction n arbitrary: u rule: less_induct)
  case (less n)
  obtain c cs where c: "control_reads u = c # cs" using less.prems(3) by (cases "control_reads u") (auto simp: quiet_after_def)
  let ?v = "u\<lparr> control_reads := cs \<rparr>"
  show ?case
  proof (cases "c AND (RI_MSK OR WI_MSK) = 0")
    case True
    then show ?thesis using c less.prems(2) by (simp add: altera_avalon_jtag_uart_irq.simps [of u] iord_control_def)
  next
    case False
    then obtain m where n: "n = Suc m" using less.prems(3) c by (cases n) (auto simp: quiet_after_def)
    have len: "2 < length cs" using less.prems(3) c n by (simp add: quiet_after_def)
    have v: "readings_left (Suc m) ?v" "events_ok ?v" "control_reads ?v \<noteq> []" "tx_ok ?v"
      using less.prems n len by (auto simp: tx_ok_def)
    obtain v1 j where v1: "(if c AND RI_MSK \<noteq> 0 then read_irq ?v else Some ?v) = Some v1" "readings_left m v1" "events_ok v1"
      "j \<le> 1" "control_reads v1 = drop j cs"
    proof (cases "c AND RI_MSK = 0")
      case True
      then show thesis using that [of ?v 0] v readings_left_mono [of "Suc m" ?v m] by simp
    next
      case False
      then show thesis using that read_irq_returns [OF v(1-3)] by auto
    qed
    have t1: "tx_ok v1" using v1(1) v(4) by (auto simp: moved_def tx_moved_def dest!: read_irq_moved split: if_splits)
    have "control_reads v1 \<noteq> []" using v1(4,5) len by simp
    note w = write_irq_returns [OF v1(2,3) t1 this, of c]
    obtain v2 k where v2: "(if c AND WI_MSK \<noteq> 0 then write_irq c v1 else Some v1) = Some v2" "readings_left m v2" "events_ok v2"
      "k \<le> 1" "control_reads v2 = drop k (drop j cs)"
    proof (cases "c AND WI_MSK = 0")
      case True
      then show thesis using that [of v1 0] v1 by simp
    next
      case False
      then show thesis using that w v1(5) by auto
    qed
    have t2: "tx_ok v2" using v2(1) t1 by (auto simp: moved_def tx_moved_def dest!: write_irq_moved split: if_splits)
    have "control_reads v2 = drop (Suc (k + j)) (control_reads u)" using v2(5) c by simp
    then have q: "quiet_after (m - (k + j)) (control_reads v2)"
      using quiet_after_drop [of m "control_reads u" "k + j"] less.prems(3) v1(4) v2(4) n by simp
    have "\<exists>u'. altera_avalon_jtag_uart_irq v2 = Some u' \<and> events_ok u'"
      using less.IH [of "m - (k + j)", OF _ t2 v2(3) q] readings_left_mono [OF v2(2)] n by simp
    moreover have "altera_avalon_jtag_uart_irq u = altera_avalon_jtag_uart_irq v2"
      using c False v1(1) v2(1) by (simp add: altera_avalon_jtag_uart_irq.simps [of u] iord_control_def del: RI_MSK_def WI_MSK_def)
    ultimately show ?thesis by simp
  qed
qed

text \<open>C28: The interrupt handler always ends: when from some reading of the control register on the device asks for nothing
  more, a round that finds something pending uses up one of the readings before it, the loops inside end when the
  ring is full or empty, and every post to the waiting tasks comes back with the kernel consistent. The
  characters are in order and the interrupt is off in each direction in which there is nothing more to do.\<close>

theorem uart_irq_ends:
  assumes "tx_ok u" and "rx_ok u" and "events_ok u" and "quiet_after n (control_reads u)"
    and "n + 2047 \<le> length (to_read u) + length (data_reads u)"
  shows "\<exists>u' bs ds. altera_avalon_jtag_uart_irq u = Some u' \<and> events_ok u' \<and> tx_ok u' \<and> rx_ok u' \<and>
     sent u' = sent u @ bs \<and> to_send u = bs @ to_send u' \<and>
     data_reads u = ds @ data_reads u' \<and> to_read u' = to_read u @ chars_of ds"
proof -
  obtain u' where u': "altera_avalon_jtag_uart_irq u = Some u'" "events_ok u'"
    using irq_returns [OF assms(1,3,4)] assms(2,5) by (auto simp: readings_left_def)
  then show ?thesis using irq_moved [OF u'(1)] assms(1,2) by (fastforce simp: moved_def tx_moved_def rx_moved_def)
qed

text \<open>In the interrupt, with one character to take and many readings to come.\<close>

theorem uart_irq_ends_witness:
  "\<exists>u'. altera_avalon_jtag_uart_irq (example_uart\<lparr> control_reads := [0x100, 0, 0, 0], data_reads := 0x8041 # replicate 3000 0,
       kernel := example_uart_os\<lparr> OSIntNesting := 1 \<rparr> \<rparr>) = Some u' \<and> events_ok u'"
proof -
  let ?k = "example_uart_os\<lparr> OSIntNesting := 1 \<rparr>"
  let ?u = "example_uart\<lparr> control_reads := [0x100, 0, 0, 0], data_reads := 0x8041 # replicate 3000 0, kernel := ?k \<rparr>"
  have w: "waiters e ?k = waiters e example_flags_os" for e
    by (simp add: waiters_def example_uart_os_def set_event_def example_flags_os_def set_grp_def example_ecbs_def)
  have same: "TCB ?k = TCB example_flags_os" "OSTCBPrioTbl ?k = OSTCBPrioTbl example_flags_os" "rdy ?k = rdy example_flags_os"
    "ready_set ?k = ready_set example_flags_os" "wait_set e ?k = wait_set e example_flags_os" for e
    using w by (simp_all add: example_uart_os_def set_event_def rdy_def ready_set_def wait_set_def)
  have "wait_set 3 example_flags_os = {}"
    using example_sets(2) [of 3] by (simp add: wait_set_def waiters_def example_flags_os_def set_grp_def)
  then have "OSEventType (ECB ?k e) = OSEventType (ECB example_flags_os e)" if "p \<in> wait_set e example_flags_os" for e p
    using that by (cases "e = 3") (simp_all add: example_uart_os_def set_event_def)
  then have "task_ok ?k p t" if "task_ok example_flags_os p t" for p t
    using that unfolding task_ok_def same by simp
  then have "kernel_ok ?k" using example_flags_os_ok(1) unfolding kernel_ok_def task_at_def same w by blast
  moreover have "flags_ok 0 ?k []" using example_flags_os_ok(8) by (simp add: flags_ok_def flag_list_def example_uart_os)
  ultimately have "events_ok ?u"
    using example_flags_os_ok(5) by (auto simp: events_ok_def example_uart_def example_uart_os)
  moreover have "tx_ok ?u" "rx_ok ?u" by (simp_all add: tx_ok_def rx_ok_def example_uart_def)
  moreover have "quiet_after 1 (control_reads ?u)" by (auto simp: quiet_after_def nth_Cons split: nat.splits)
  moreover have "1 + 2047 \<le> length (to_read ?u) + length (data_reads ?u)" by simp
  ultimately show ?thesis using uart_irq_ends [of ?u 1] by blast
qed

section \<open>Stale events\<close>

definition free_lock :: "event_ptr \<Rightarrow> os_state \<Rightarrow> bool" where
  "free_lock e k \<longleftrightarrow> (case e of None \<Rightarrow> False | Some i \<Rightarrow>
     OSEventType (ECB k i) = OS_EVENT_TYPE_SEM \<and> OSEventCnt (ECB k i) = 1 \<and> OSEventGrp (ECB k i) = 0)"

definition event_set :: "OS_FLAGS \<Rightarrow> uart \<Rightarrow> bool" where
  "event_set flags u \<longleftrightarrow> (case events u of None \<Rightarrow> False | Some g \<Rightarrow>
     OSFlagType (OSFlagTbl (kernel u) g) = OS_EVENT_TYPE_FLAG \<and> OSFlagFlags (OSFlagTbl (kernel u) g) AND flags \<noteq> 0)"

definition task_level :: "os_state \<Rightarrow> bool" where
  "task_level k \<longleftrightarrow> OSRunning k = OS_TRUE \<and> OSIntNesting k = 0 \<and> OSLockNesting k = 0 \<and> tcb_index (OSTCBCur k) \<noteq> None"

text \<open>Taking and giving back a free lock, and a wait for an event that is set.\<close>

lemma free_lock_pend:
  assumes "free_lock (Some e) k" "task_level k"
  shows "alt_sem_pend (Some e) 0 k = Some (True, set_event e (\<lambda>ev. ev\<lparr> OSEventCnt := OSEventCnt ev - 1 \<rparr>) k)"
  using assms by (auto simp: free_lock_def task_level_def alt_sem_pend_def OSSemPend_enter_def)

lemma taken_lock_post:
  assumes "OSEventType (ECB k e) = OS_EVENT_TYPE_SEM" "OSEventGrp (ECB k e) = 0" "OSEventCnt (ECB k e) = 0"
  shows "OSSemPost (Some e) k = Some (OS_ERR_NONE, set_event e (\<lambda>ev. ev\<lparr> OSEventCnt := OSEventCnt ev + 1 \<rparr>) k)"
  using assms by (simp add: OSSemPost_def)

lemma and_subset: "cur AND f \<noteq> 0 \<Longrightarrow> cur AND (f OR g) \<noteq> (0 :: 'a :: len word)"
proof
  assume c: "cur AND f \<noteq> 0" and z: "cur AND (f OR g) = 0"
  have "cur AND f = f AND (cur AND (f OR g))" by (rule bit_word_eqI) (auto simp: bit_simps)
  then show False using c z by simp
qed

text \<open>The three calls of the kernel that such a read or write makes.\<close>

lemma stale_wait:
  assumes "task_level (kernel u)" "free_lock l (kernel u)" "event_set f u"
  obtains k1 k2 k3 err where "alt_sem_pend l 0 (kernel u) = Some (True, k1)" "OSRunning k1 = 1"
    "\<And>v. kernel v = k1 \<Longrightarrow> events v = events u \<Longrightarrow> pend_event (f OR g) node v = Some (True, v\<lparr> kernel := k2 \<rparr>)"
    "OSSemPost l k2 = Some (err, k3)" "ready_set k3 = ready_set (kernel u)"
proof -
  obtain e where e: "l = Some e" "OSEventType (ECB (kernel u) e) = OS_EVENT_TYPE_SEM"
    "OSEventGrp (ECB (kernel u) e) = 0" "OSEventCnt (ECB (kernel u) e) = 1"
    using assms(2) by (auto simp: free_lock_def split: option.splits)
  obtain h where h: "events u = Some h" "OSFlagType (OSFlagTbl (kernel u) h) = OS_EVENT_TYPE_FLAG"
    "OSFlagFlags (OSFlagTbl (kernel u) h) AND (f OR g) \<noteq> 0"
    using assms(3) and_subset by (auto simp: event_set_def split: option.splits)
  obtain i where i: "tcb_index (OSTCBCur (kernel u)) = Some i" using assms(1) by (auto simp: task_level_def)
  let ?k1 = "set_event e (\<lambda>ev. ev\<lparr> OSEventCnt := OSEventCnt ev - 1 \<rparr>) (kernel u)"
  let ?v = "OSFlagFlags (OSFlagTbl (kernel u) h) AND (f OR g)"
  let ?k2 = "set_tcb i (\<lambda>t. t\<lparr> OSTCBFlagsRdy := ?v \<rparr>)
      (set_flags h (OSFlagFlags (OSFlagTbl (kernel u) h) AND NOT ?v) ?k1)"
  let ?k3 = "set_event e (\<lambda>ev. ev\<lparr> OSEventCnt := OSEventCnt ev + 1 \<rparr>) ?k2"
  have cur: "OSTCBCur (set_flags x w s) = OSTCBCur s" for x w s by (simp add: set_flags_def set_grp_def)
  have ecb: "ECB ?k2 = (ECB (kernel u))(e := (ECB (kernel u) e)\<lparr> OSEventCnt := 0 \<rparr>)"
    by (simp add: set_tcb_def set_flags_def set_grp_def set_event_def e(4))
  show thesis
  proof (rule that)
    show "alt_sem_pend l 0 (kernel u) = Some (True, ?k1)" using free_lock_pend assms(1,2) e(1) by simp
    show "OSRunning ?k1 = 1" using assms(1) by (simp add: task_level_def set_event_def)
    show "pend_event (f OR g) node v = Some (True, v\<lparr> kernel := ?k2 \<rparr>)" if "kernel v = ?k1" "events v = events u" for v
      using that h i assms(1)
      by (simp add: pend_event_def alt_flag_pend_def OSFlagPend_enter_def task_level_def flag_cond_def flag_consume_def Let_def set_event_def cur)
    show "OSSemPost l ?k2 = Some (OS_ERR_NONE, ?k3)" unfolding e(1) by (rule taken_lock_post) (use e ecb in simp_all)
    show "ready_set ?k3 = ready_set (kernel u)"
      by (simp add: ready_set_def rdy_def set_event_def set_tcb_def set_flags_def set_grp_def)
  qed
qed

text \<open>C29: A blocking read can fail although the host is there. The handler sets the event for every character, but a read
  that finds characters takes them without clearing it. The next read that finds the ring empty does not wait: its
  wait returns at once with the old event, the ring is as empty as before, and the call answers \<open>-EIO\<close>, the code for a
  host that has gone, whatever \<open>host_inactive\<close> says.\<close>

theorem stale_event_ends_read:
  assumes k: "task_level (kernel u)" and lock: "free_lock (read_lock u) (kernel u)"
    and stale: "event_set ALT_JTAG_UART_READ_RDY u" and empty: "rx_in u = rx_out u"
    and call: "0 < space" "flags AND O_NONBLOCK = 0"
  shows "\<exists>c u'. read_alone flags node 7 (read_start space, u) = Some (c, u') \<and> r_pc c = R_Return (- EIO) \<and> r_got c = [] \<and>
     host_present u' = host_present u \<and> ready_set (kernel u') = ready_set (kernel u)"
proof -
  obtain k1 k2 k3 err where "alt_sem_pend (read_lock u) 0 (kernel u) = Some (True, k1)" "OSRunning k1 = 1"
    "\<And>v. kernel v = k1 \<Longrightarrow> events v = events u \<Longrightarrow>
       pend_event (ALT_JTAG_UART_READ_RDY OR ALT_JTAG_UART_TIMEOUT) node v = Some (True, v\<lparr> kernel := k2 \<rparr>)"
    "OSSemPost (read_lock u) k2 = Some (err, k3)" "ready_set k3 = ready_set (kernel u)"
    using stale_wait [OF k lock stale, where ?thesis = thesis and g = ALT_JTAG_UART_TIMEOUT and node = node] by blast
  then show ?thesis using empty call
    by (simp add: eval_nat_numeral altera_avalon_jtag_uart_read_def read_start_def rx_avail_def result_of_def host_present_def
        del: ALT_JTAG_UART_READ_RDY_def ALT_JTAG_UART_TIMEOUT_def)
qed

text \<open>The reader of the example comes back for more: one character has arrived and has been read, the host is there.\<close>

theorem stale_event_ends_read_witness:
  "\<exists>u1 c2 u2 c3 u3. altera_avalon_jtag_uart_irq (example_uart\<lparr> control_reads := [0x100, 0], data_reads := [0x8041, 0] \<rparr>) = Some u1 \<and>
     read_alone 0 8 (Suc (Suc (Suc (Suc (Suc (Suc (Suc (Suc 0)))))))) (read_start 8, u1) = Some (c2, u2) \<and> r_pc c2 = R_Return 1 \<and>
     read_alone 0 8 7 (read_start 8, u2) = Some (c3, u3) \<and> r_pc c3 = R_Return (- 5) \<and> host_present u3"
proof -
  let ?u = "example_uart\<lparr> rx_buf := blank[0 := 65], rx_in := 1, rx_out := 1, kernel := example_read_os \<rparr>"
  have u: "task_level (kernel ?u)" "free_lock (read_lock ?u) (kernel ?u)" "event_set ALT_JTAG_UART_READ_RDY ?u" "host_present ?u"
    by (simp_all add: task_level_def free_lock_def event_set_def host_present_def example_read_os_def example_call)
  have e: "rx_in ?u = rx_out ?u" "(0::int) < 8" "(0::INT32U) AND O_NONBLOCK = 0" by simp_all
  show ?thesis using stale_event_ends_read [OF u(1-3) e, of 8] example_read u(4) by (auto simp: EIO_def)
qed

text \<open>The same for a write that finds the ring full: nothing is accepted.\<close>

theorem stale_event_ends_write:
  assumes k: "task_level (kernel u)" and lock: "free_lock (write_lock u) (kernel u)"
    and stale: "event_set ALT_JTAG_UART_WRITE_RDY u" and full: "tx_room (tx_in u) (tx_out u) = 0"
    and call: "0 < count" "flags AND O_NONBLOCK = 0"
  shows "\<exists>c u'. write_alone flags node buf 6 (write_start count, u) = Some (c, u') \<and> w_pc c = W_Return (- EIO) \<and>
     host_present u' = host_present u \<and> ready_set (kernel u') = ready_set (kernel u)"
proof -
  obtain k1 k2 k3 err where "alt_sem_pend (write_lock u) 0 (kernel u) = Some (True, k1)" "OSRunning k1 = 1"
    "\<And>v. kernel v = k1 \<Longrightarrow> events v = events u \<Longrightarrow>
       pend_event (ALT_JTAG_UART_WRITE_RDY OR ALT_JTAG_UART_TIMEOUT) node v = Some (True, v\<lparr> kernel := k2 \<rparr>)"
    "OSSemPost (write_lock u) k2 = Some (err, k3)" "ready_set k3 = ready_set (kernel u)"
    using stale_wait [OF k lock stale, where ?thesis = thesis and g = ALT_JTAG_UART_TIMEOUT and node = node] by blast
  then show ?thesis using full call
    by (simp add: eval_nat_numeral altera_avalon_jtag_uart_write_def write_start_def result_of_def host_present_def iowr_control_def
        del: ALT_JTAG_UART_WRITE_RDY_def ALT_JTAG_UART_TIMEOUT_def)
qed

end
