(* ===== verification/Os_Mbox.thy ===== *)
theory Os_Mbox imports Os_Q begin

text \<open>
  \<open>os_mbox.c\<close>: mailboxes. A mailbox holds at most one message, in the field \<open>OSEventPtr\<close> of its
  event control block; null means empty. \<open>OSMboxPend\<close> is split where the task can lose the processor,
  as \<open>OSSemPend\<close> is. The lemmas show that a mailbox is a one-place buffer with a wait list: each
  operation refines the operation of that abstract mailbox.
\<close>

section \<open>Operations\<close>

definition mbox_msg :: "nat \<Rightarrow> os_state \<Rightarrow> msg option" where
  "mbox_msg e s = (case OSEventPtr (ECB s e) of Msg m \<Rightarrow> Some m | _ \<Rightarrow> None)"

definition set_mbox :: "nat \<Rightarrow> msg \<Rightarrow> os_state \<Rightarrow> os_state" where
  "set_mbox e m = set_event e (\<lambda>ev. ev\<lparr> OSEventPtr := Msg m \<rparr>)"

definition OSMboxAccept :: "event_ptr \<Rightarrow> os_state \<Rightarrow> (msg \<times> os_state) option" where
  "OSMboxAccept pevent s =
     (case pevent of None \<Rightarrow> Some (0, s)
      | Some e \<Rightarrow>
          if OSEventType (ECB s e) \<noteq> OS_EVENT_TYPE_MBOX then Some (0, s)
          else do {
            pmsg \<leftarrow> mbox_msg e s;
            Some (pmsg, set_mbox e 0 s)
          })"

definition OSMboxCreate :: "msg \<Rightarrow> os_state \<Rightarrow> (event_ptr \<times> os_state) option" where
  "OSMboxCreate pmsg s =
     (if OSIntNesting s > 0 then Some (None, s)
      else do {
        (pevent, s) \<leftarrow> alloc_event s;
        (case pevent of None \<Rightarrow> Some (None, s)
         | Some e \<Rightarrow>
             let s = set_event e (\<lambda>ev. event_name_unknown (ev\<lparr> OSEventType := OS_EVENT_TYPE_MBOX,
                                        OSEventCnt := 0, OSEventPtr := Msg pmsg \<rparr>)) s in
             Some (Some e, OS_EventWaitListInit e s))
      })"

definition OSMboxDel ::
  "event_ptr \<Rightarrow> INT8U \<Rightarrow> INT8U option \<Rightarrow> os_state \<Rightarrow> (event_ptr \<times> INT8U option \<times> os_state) option" where
  "OSMboxDel pevent opt perr s =
     (if perr = None then Some (pevent, perr, s)
      else case pevent of None \<Rightarrow> Some (pevent, Some OS_ERR_PEVENT_NULL, s)
      | Some e \<Rightarrow>
          if OSEventType (ECB s e) \<noteq> OS_EVENT_TYPE_MBOX then Some (pevent, Some OS_ERR_EVENT_TYPE, s)
          else if OSIntNesting s > 0 then Some (pevent, Some OS_ERR_DEL_ISR, s)
          else
            let tasks_waiting = (OSEventGrp (ECB s e) \<noteq> 0) in
            if opt = OS_DEL_NO_PEND then
              if \<not> tasks_waiting then Some (None, Some OS_ERR_NONE, free_event e s)
              else Some (pevent, Some OS_ERR_TASK_WAITING, s)
            else if opt = OS_DEL_ALWAYS then do {
              (n, s) \<leftarrow> ready_all e 0 OS_STAT_MBOX OS_STAT_PEND_OK 0 s;
              let s = free_event e s;
              s \<leftarrow> (if tasks_waiting then OS_Sched s else Some s);
              Some (None, Some OS_ERR_NONE, s)
            }
            else Some (pevent, Some OS_ERR_INVALID_OPT, s))"

text \<open>\<open>True\<close>: the function has returned the message. \<open>False\<close>: \<open>OSMboxPend_resume\<close> follows.\<close>

definition OSMboxPend_enter ::
  "event_ptr \<Rightarrow> INT16U \<Rightarrow> INT8U option \<Rightarrow> os_state \<Rightarrow> (bool \<times> msg \<times> INT8U option \<times> os_state) option" where
  "OSMboxPend_enter pevent timeout perr s =
     (if perr = None then Some (True, 0, perr, s)
      else case pevent of None \<Rightarrow> Some (True, 0, Some OS_ERR_PEVENT_NULL, s)
      | Some e \<Rightarrow>
          if OSEventType (ECB s e) \<noteq> OS_EVENT_TYPE_MBOX then Some (True, 0, Some OS_ERR_EVENT_TYPE, s)
          else if OSIntNesting s > 0 then Some (True, 0, Some OS_ERR_PEND_ISR, s)
          else if OSLockNesting s > 0 then Some (True, 0, Some OS_ERR_PEND_LOCKED, s)
          else do {
            pmsg \<leftarrow> mbox_msg e s;
            if pmsg \<noteq> 0 then Some (True, pmsg, Some OS_ERR_NONE, set_mbox e 0 s)
            else do {
              i \<leftarrow> tcb_index (OSTCBCur s);
              let s = set_tcb i (\<lambda>t. t\<lparr> OSTCBStat := OSTCBStat t OR OS_STAT_MBOX,
                                        OSTCBStatPend := OS_STAT_PEND_OK, OSTCBDly := timeout \<rparr>) s;
              s \<leftarrow> OS_EventTaskWait e s;
              s \<leftarrow> OS_Sched s;
              Some (False, 0, perr, s)
            }
          })"

definition OSMboxPend_resume :: "nat \<Rightarrow> os_state \<Rightarrow> (msg \<times> INT8U \<times> os_state) option" where
  "OSMboxPend_resume e s = do {
     i \<leftarrow> tcb_index (OSTCBCur s);
     (pmsg, err, s) \<leftarrow>
       (if OSTCBStatPend (TCB s i) = OS_STAT_PEND_OK then Some (OSTCBMsg (TCB s i), OS_ERR_NONE, s)
        else if OSTCBStatPend (TCB s i) = OS_STAT_PEND_ABORT then Some (0, OS_ERR_PEND_ABORT, s)
        else do { s \<leftarrow> OS_EventTaskRemove i e s; Some (0, OS_ERR_TIMEOUT, s) });
     Some (pmsg, err, set_tcb i (\<lambda>t. t\<lparr> OSTCBStat := OS_STAT_RDY, OSTCBStatPend := OS_STAT_PEND_OK,
                                  OSTCBEventPtr := None, OSTCBEventMultiPtr := None, OSTCBMsg := 0 \<rparr>) s)
   }"

definition OSMboxPendAbort ::
  "event_ptr \<Rightarrow> INT8U \<Rightarrow> INT8U option \<Rightarrow> os_state \<Rightarrow> (INT8U \<times> INT8U option \<times> os_state) option" where
  "OSMboxPendAbort pevent opt perr s =
     (if perr = None then Some (0, perr, s)
      else case pevent of None \<Rightarrow> Some (0, Some OS_ERR_PEVENT_NULL, s)
      | Some e \<Rightarrow>
          if OSEventType (ECB s e) \<noteq> OS_EVENT_TYPE_MBOX then Some (0, Some OS_ERR_EVENT_TYPE, s)
          else if OSEventGrp (ECB s e) \<noteq> 0 then do {
            (nbr_tasks, s) \<leftarrow>
              (if opt = OS_PEND_OPT_BROADCAST then ready_all e 0 OS_STAT_MBOX OS_STAT_PEND_ABORT 0 s
               else do { (p, s) \<leftarrow> OS_EventTaskRdy e 0 OS_STAT_MBOX OS_STAT_PEND_ABORT s; Some (1, s) });
            s \<leftarrow> OS_Sched s;
            Some (nbr_tasks, Some OS_ERR_PEND_ABORT, s)
          }
          else Some (0, Some OS_ERR_NONE, s))"

text \<open>The end of the post functions, when no task waits.\<close>

definition mbox_fill :: "nat \<Rightarrow> msg \<Rightarrow> os_state \<Rightarrow> (INT8U \<times> os_state) option" where
  "mbox_fill e pmsg s = do {
     m \<leftarrow> mbox_msg e s;
     if m \<noteq> 0 then Some (OS_ERR_MBOX_FULL, s) else Some (OS_ERR_NONE, set_mbox e pmsg s)
   }"

definition OSMboxPost :: "event_ptr \<Rightarrow> msg \<Rightarrow> os_state \<Rightarrow> (INT8U \<times> os_state) option" where
  "OSMboxPost pevent pmsg s =
     (case pevent of None \<Rightarrow> Some (OS_ERR_PEVENT_NULL, s)
      | Some e \<Rightarrow>
          if pmsg = 0 then Some (OS_ERR_POST_NULL_PTR, s)
          else if OSEventType (ECB s e) \<noteq> OS_EVENT_TYPE_MBOX then Some (OS_ERR_EVENT_TYPE, s)
          else if OSEventGrp (ECB s e) \<noteq> 0 then do {
            (p, s) \<leftarrow> OS_EventTaskRdy e pmsg OS_STAT_MBOX OS_STAT_PEND_OK s;
            s \<leftarrow> OS_Sched s;
            Some (OS_ERR_NONE, s)
          }
          else mbox_fill e pmsg s)"

definition OSMboxPostOpt :: "event_ptr \<Rightarrow> msg \<Rightarrow> INT8U \<Rightarrow> os_state \<Rightarrow> (INT8U \<times> os_state) option" where
  "OSMboxPostOpt pevent pmsg opt s =
     (case pevent of None \<Rightarrow> Some (OS_ERR_PEVENT_NULL, s)
      | Some e \<Rightarrow>
          if pmsg = 0 then Some (OS_ERR_POST_NULL_PTR, s)
          else if OSEventType (ECB s e) \<noteq> OS_EVENT_TYPE_MBOX then Some (OS_ERR_EVENT_TYPE, s)
          else if OSEventGrp (ECB s e) \<noteq> 0 then do {
            s \<leftarrow> (if opt AND OS_POST_OPT_BROADCAST \<noteq> 0
                 then do { (n, s) \<leftarrow> ready_all e pmsg OS_STAT_MBOX OS_STAT_PEND_OK 0 s; Some s }
                 else do { (p, s) \<leftarrow> OS_EventTaskRdy e pmsg OS_STAT_MBOX OS_STAT_PEND_OK s; Some s });
            s \<leftarrow> (if opt AND OS_POST_OPT_NO_SCHED = 0 then OS_Sched s else Some s);
            Some (OS_ERR_NONE, s)
          }
          else mbox_fill e pmsg s)"

record OS_MBOX_DATA =
  mbox_data_OSMsg :: msg
  mbox_data_OSEventTbl :: "INT8U list"
  mbox_data_OSEventGrp :: INT8U

definition OSMboxQuery :: "event_ptr \<Rightarrow> OS_MBOX_DATA option \<Rightarrow> os_state \<Rightarrow> (INT8U \<times> OS_MBOX_DATA option) option" where
  "OSMboxQuery pevent p_mbox_data s =
     (case pevent of None \<Rightarrow> Some (OS_ERR_PEVENT_NULL, p_mbox_data)
      | Some e \<Rightarrow>
          (case p_mbox_data of None \<Rightarrow> Some (OS_ERR_PDATA_NULL, p_mbox_data)
           | Some d \<Rightarrow>
               if OSEventType (ECB s e) \<noteq> OS_EVENT_TYPE_MBOX then Some (OS_ERR_EVENT_TYPE, p_mbox_data)
               else do {
                 m \<leftarrow> mbox_msg e s;
                 Some (OS_ERR_NONE, Some (d\<lparr> mbox_data_OSEventGrp := OSEventGrp (ECB s e),
                   mbox_data_OSEventTbl := OSEventTbl (ECB s e), mbox_data_OSMsg := m \<rparr>))
               }))"

section \<open>The abstract mailbox\<close>

definition is_mbox :: "nat \<Rightarrow> os_state \<Rightarrow> bool" where
  "is_mbox e s \<longleftrightarrow> OSEventType (ECB s e) = OS_EVENT_TYPE_MBOX \<and> mbox_msg e s \<noteq> None"

text \<open>The message, if there is one, and the priorities of the waiting tasks.\<close>

definition mbox_abs :: "nat \<Rightarrow> os_state \<Rightarrow> msg option \<times> nat set" where
  "mbox_abs e s = ((case mbox_msg e s of None \<Rightarrow> None | Some m \<Rightarrow> if m = 0 then None else Some m), wait_set e s)"

text \<open>Posting a message: who gets it, the new mailbox, and whether it was refused.\<close>

fun mbox_post :: "msg \<Rightarrow> msg option \<times> nat set \<Rightarrow> (nat option \<times> bool) \<times> msg option \<times> nat set" where
  "mbox_post m (c, w) =
     (if w \<noteq> {} then ((Some (Min w), True), (c, w - {Min w}))
      else if c = None then ((None, True), (Some m, w))
      else ((None, False), (c, w)))"

fun mbox_take :: "nat \<Rightarrow> msg option \<times> nat set \<Rightarrow> msg option \<times> msg option \<times> nat set" where
  "mbox_take p (Some m, w) = (Some m, (None, w))"
| "mbox_take p (None, w) = (None, (None, insert p w))"

lemma mbox_mask: "is_mbox e s \<Longrightarrow> event_mask (OSEventType (ECB s e)) = OS_STAT_MBOX"
  by (simp add: is_mbox_def event_mask_def)

lemma set_mbox_simps [simp]:
  "rdy (set_mbox e m s) = rdy s" "waiters e' (set_mbox e m s) = waiters e' s" "TCB (set_mbox e m s) = TCB s"
  "ready_set (set_mbox e m s) = ready_set s" "wait_set e' (set_mbox e m s) = wait_set e' s"
  "task_at (set_mbox e m s) = task_at s" "OSEventType (ECB (set_mbox e m s) e') = OSEventType (ECB s e')"
  "mbox_msg e' (set_mbox e m s) = (if e' = e then Some m else mbox_msg e' s)"
  "OSTCBPrioTbl (set_mbox e m s) = OSTCBPrioTbl s" "OSTCBCur (set_mbox e m s) = OSTCBCur s"
  "OSPrioCur (set_mbox e m s) = OSPrioCur s"
  by (auto simp: set_mbox_def set_event_def rdy_def waiters_def ready_set_def wait_set_def task_at_def mbox_msg_def fun_eq_iff)

lemma kernel_ok_set_mbox [simp]: "kernel_ok (set_mbox e m s) = kernel_ok s" "cur_ok (set_mbox e m s) = cur_ok s"
  "is_mbox e' (set_mbox e m s) \<longleftrightarrow> is_mbox e' s \<or> e' = e \<and> OSEventType (ECB s e) = OS_EVENT_TYPE_MBOX"
  by (auto simp: kernel_ok_def task_ok_def cur_ok_def is_mbox_def)

lemma is_mbox_frame:
  "sched_frame s s1 \<Longrightarrow> switch_frame s1 s' \<Longrightarrow> is_mbox e s' = is_mbox e s \<and> mbox_msg e s' = mbox_msg e s"
  using sched_frame_event [of s s1 e] by (simp add: is_mbox_def mbox_msg_def switch_frame_sets)

text \<open>A mailbox is a one-place buffer with a wait list: on a consistent kernel \<open>OSMboxPost\<close> of a message hands
  it to the highest priority waiting task, or fills the empty mailbox, or reports the full mailbox and changes
  nothing, as the abstract post does; the kernel stays consistent, and null messages are refused.\<close>

theorem mbox_post_refines:
  assumes ok: "kernel_ok s" and cur: "cur_ok s" and mb: "is_mbox e s" and m: "m \<noteq> 0"
  shows "\<exists>err s'. OSMboxPost (Some e) m s = Some (err, s') \<and> kernel_ok s' \<and> cur_ok s' \<and> is_mbox e s' \<and>
     OSMboxPost (Some e) 0 s = Some (OS_ERR_POST_NULL_PTR, s) \<and>
     (case mbox_post m (mbox_abs e s) of ((dest, accepted), new) \<Rightarrow>
        mbox_abs e s' = new \<and> err = (if accepted then OS_ERR_NONE else OS_ERR_MBOX_FULL) \<and>
        (\<not> accepted \<longrightarrow> s' = s) \<and>
        (\<forall>p i. dest = Some p \<and> task_at s p i \<longrightarrow>
           OSTCBMsg (TCB s' i) = m \<and> OSTCBStatPend (TCB s' i) = OS_STAT_PEND_OK \<and>
           (\<not> suspended (TCB s i) \<longrightarrow> p \<in> ready_set s')))"
proof (cases "wait_set e s = {}")
  case False
  then have grp: "OSEventGrp (ECB s e) \<noteq> 0" using grp_zero_iff [OF ok] by simp
  obtain prio s1 s' where w: "OS_EventTaskRdy e m OS_STAT_MBOX OS_STAT_PEND_OK s = Some (prio, s1)"
    "OS_Sched s1 = Some s'" "kernel_ok s'" "cur_ok s'" "sched_frame s s1" "switch_frame s1 s'"
    "wait_set e s' = wait_set e s - {Min (wait_set e s)}"
    "\<forall>i. task_at s (Min (wait_set e s)) i \<longrightarrow>
        OSTCBMsg (TCB s' i) = m \<and> OSTCBStatPend (TCB s' i) = OS_STAT_PEND_OK \<and>
        (\<not> suspended (TCB s i) \<longrightarrow> Min (wait_set e s) \<in> ready_set s')"
    by (rule wake_waiter [OF ok cur False mbox_mask [OF mb]]) simp_all
  have "OSMboxPost (Some e) m s = Some (OS_ERR_NONE, s')" "OSMboxPost (Some e) 0 s = Some (OS_ERR_POST_NULL_PTR, s)"
    using grp mb w(1,2) m by (simp_all add: OSMboxPost_def is_mbox_def)
  then show ?thesis using w False mb is_mbox_frame [OF w(5,6), of e] by (simp add: mbox_abs_def)
next
  case True
  then have "OSEventGrp (ECB s e) = 0" using grp_zero_iff [OF ok] by simp
  moreover obtain c where "mbox_msg e s = Some c" using mb by (auto simp: is_mbox_def)
  ultimately show ?thesis
    using ok cur mb m True by (auto simp: OSMboxPost_def is_mbox_def mbox_fill_def mbox_abs_def)
qed

text \<open>Taking from a mailbox: \<open>OSMboxPend\<close> and \<open>OSMboxAccept\<close> return the message of a full mailbox and empty
  it; on an empty one \<open>OSMboxAccept\<close> returns null and \<open>OSMboxPend\<close> makes the calling task wait with its
  timeout and gives the processor away.\<close>

theorem mbox_pend_refines:
  assumes ok: "kernel_ok s" and run: "running_task s p i" and p: "p \<noteq> OS_LOWEST_PRIO"
    and lk: "OSIntNesting s = 0" "OSLockNesting s = 0" and mb: "is_mbox e s"
  shows "\<exists>returned m perr s'. OSMboxPend_enter (Some e) timeout (Some x) s = Some (returned, m, perr, s') \<and>
     kernel_ok s' \<and> is_mbox e s' \<and> mbox_abs e s' = snd (mbox_take p (mbox_abs e s)) \<and>
     (case fst (mbox_take p (mbox_abs e s)) of
        Some c \<Rightarrow> returned \<and> m = c \<and> perr = Some OS_ERR_NONE \<and> running_task s' p i \<and>
          OSMboxAccept (Some e) s = Some (c, s')
      | None \<Rightarrow> \<not> returned \<and> OSMboxAccept (Some e) s = Some (0, set_mbox e 0 s) \<and> p \<notin> ready_set s' \<and>
          highest_runs s' \<and> unat (OSPrioCur s') \<noteq> p \<and> OSTCBDly (TCB s' i) = timeout)"
proof -
  obtain c where c: "mbox_msg e s = Some c" using mb by (auto simp: is_mbox_def)
  show ?thesis
  proof (cases "c = 0")
    case False
    moreover have "running_task (set_mbox e 0 s) p i" using run by (simp add: running_task_def)
    ultimately show ?thesis
      using c ok mb lk by (auto simp: OSMboxPend_enter_def OSMboxAccept_def is_mbox_def mbox_abs_def)
  next
    case True
    obtain s1 s' where b: "OS_EventTaskWait e (set_tcb i (\<lambda>t. t\<lparr> OSTCBStat := OSTCBStat t OR OS_STAT_MBOX,
        OSTCBStatPend := OS_STAT_PEND_OK, OSTCBDly := timeout \<rparr>) s) = Some s1"
      "OS_Sched s1 = Some s'" "kernel_ok s'" "highest_runs s'" "unat (OSPrioCur s') \<noteq> p"
      "ready_set s' = ready_set s - {p}" "wait_set e s' = insert p (wait_set e s)" "ECB s' = ECB s1"
      "sched_frame s s1" "OSTCBDly (TCB s' i) = timeout"
      using block_and_sched [OF ok run p lk mbox_mask [OF mb], of timeout] by auto
    have "is_mbox e s'" "mbox_msg e s' = Some 0"
      using mb c True b(8) sched_frame_event [OF b(9), of e] by (simp_all add: is_mbox_def mbox_msg_def)
    then show ?thesis
      using b c True mb lk run
      by (auto simp: OSMboxPend_enter_def OSMboxAccept_def is_mbox_def mbox_abs_def running_task_def)
  qed
qed

text \<open>When a task that waited comes back.\<close>

lemma mbox_pend_resume_result:
  assumes ok: "kernel_ok s" and cur: "OSTCBCur s = TCB_AT i" and at: "task_at s p i"
    and rdy: "p \<in> ready_set s" and only: "\<forall>e'. p \<in> wait_set e' s \<longrightarrow> e' = e"
  shows "\<exists>s'. OSMboxPend_resume e s = Some
       (if OSTCBStatPend (TCB s i) = OS_STAT_PEND_OK then (OSTCBMsg (TCB s i), OS_ERR_NONE, s')
        else if OSTCBStatPend (TCB s i) = OS_STAT_PEND_ABORT then (0, OS_ERR_PEND_ABORT, s')
        else (0, OS_ERR_TIMEOUT, s')) \<and>
     (\<forall>e'. wait_set e' s' = wait_set e' s - {p}) \<and> ready_set s' = ready_set s \<and>
     TCB s' = (TCB s)(i := (resumed (TCB s i))\<lparr> OSTCBMsg := 0 \<rparr>)"
proof -
  from resume_step [OF ok at rdy only] obtain s1 where s1:
    "(if OSTCBStatPend (TCB s i) = OS_STAT_PEND_OK \<or> OSTCBStatPend (TCB s i) = OS_STAT_PEND_ABORT
      then Some s else OS_EventTaskRemove i e s) = Some s1" "rdy s1 = rdy s" "TCB s1 = TCB s"
    "\<forall>e'. wait_set e' s1 = wait_set e' s - {p}" by blast
  then show ?thesis
    using cur by (intro exI [of _ "set_tcb i (\<lambda>t. (resumed t)\<lparr> OSTCBMsg := 0 \<rparr>) s1"])
      (auto simp: OSMboxPend_resume_def resumed_def [abs_def] ready_set_def wait_set_def split: if_splits)
qed

section \<open>Creation\<close>

lemma mbox_create_ok:
  assumes ok: "kernel_ok s" and lvl: "OSIntNesting s = 0"
    and ev: "OSEventFreeList s = Some e" "OSEventPtr (ECB s e) = Event_Ptr nx" "wait_set e s = {}"
  shows "\<exists>s'. OSMboxCreate m s = Some (Some e, s') \<and> kernel_ok s' \<and> is_mbox e s' \<and>
     mbox_abs e s' = (if m = 0 then None else Some m, {}) \<and> OSEventFreeList s' = nx \<and> TCB s' = TCB s \<and>
     OSTCBPrioTbl s' = OSTCBPrioTbl s \<and> rdy s' = rdy s \<and> OSTCBCur s' = OSTCBCur s \<and> OSPrioCur s' = OSPrioCur s \<and>
     OSIntNesting s' = 0 \<and> OSLockNesting s' = OSLockNesting s \<and> (\<forall>e'. e' \<noteq> e \<longrightarrow> wait_set e' s' = wait_set e' s)"
proof -
  define s' where "s' = OS_EventWaitListInit e (set_event e (\<lambda>ev. event_name_unknown
      (ev\<lparr> OSEventType := OS_EVENT_TYPE_MBOX, OSEventCnt := 0, OSEventPtr := Msg m \<rparr>)) (s\<lparr> OSEventFreeList := nx \<rparr>))"
  have create: "OSMboxCreate m s = Some (Some e, s')"
    using lvl ev by (simp add: OSMboxCreate_def alloc_event_def s'_def Let_def)
  have e': "OSEventType (ECB s' e) = OS_EVENT_TYPE_MBOX" "OSEventPtr (ECB s' e) = Msg m"
    "waiters e s' = (0, replicate OS_RDY_TBL_SIZE 0)" "\<And>e'. e' \<noteq> e \<Longrightarrow> ECB s' e' = ECB s e'"
    by (simp_all add: s'_def OS_EventWaitListInit_def event_name_unknown_def)
  have f': "OSEventFreeList s' = nx" "OSIntNesting s' = 0" "TCB s' = TCB s" "OSTCBPrioTbl s' = OSTCBPrioTbl s"
    "rdy s' = rdy s" "OSTCBCur s' = OSTCBCur s" "OSPrioCur s' = OSPrioCur s" "OSLockNesting s' = OSLockNesting s"
    using lvl by (simp_all add: s'_def OS_EventWaitListInit_def set_event_def set_waiters_def rdy_def)
  have "waiters e' s' = waiters e' s" if "e' \<noteq> e" for e' using e'(4) [OF that] by (simp add: waiters_def)
  moreover have "wait_set e s' = {}" using bm_empty_ok(2) by (simp add: wait_set_def e'(3) bm_empty_def)
  ultimately show ?thesis
    using create f' e' kernel_ok_fresh_event [OF ok ev(3) f'(4,3,5) e'(4,3)]
    by (simp add: is_mbox_def mbox_msg_def mbox_abs_def wait_set_def)
qed

text \<open>The example kernel after the creation of an empty mailbox in block 5.\<close>

lemma example_mbox:
  "\<exists>s. OSMboxCreate 0 (example_os\<lparr> OSEventFreeList := Some 5 \<rparr>) = Some (Some 5, s) \<and> kernel_ok s \<and> is_mbox 5 s \<and>
     mbox_abs 5 s = (None, {}) \<and> running_task s 6 2 \<and> OSIntNesting s = 0 \<and> OSLockNesting s = 0"
proof -
  let ?s = "example_os\<lparr> OSEventFreeList := Some 5 \<rparr>"
  have same: "rdy ?s = rdy example_os" "waiters e ?s = waiters e example_os" for e
    by (simp_all add: rdy_def waiters_def)
  have sets: "ready_set ?s = ready_set example_os" "wait_set e ?s = wait_set e example_os"
    "task_at ?s p i = task_at example_os p i" for e p i
    by (simp_all add: ready_set_def wait_set_def same task_at_def)
  have "kernel_ok ?s"
    using example_kernel_ok by (simp add: kernel_ok_def same sets task_ok_def)
  from mbox_create_ok [OF this, of 5 None 0] obtain s where s: "OSMboxCreate 0 ?s = Some (Some 5, s)" "kernel_ok s"
    "is_mbox 5 s" "mbox_abs 5 s = (None, {})" "OSTCBPrioTbl s = OSTCBPrioTbl example_os" "rdy s = rdy example_os"
    "OSTCBCur s = OSTCBCur example_os" "OSPrioCur s = OSPrioCur example_os" "OSIntNesting s = 0" "OSLockNesting s = 0"
    "\<forall>e'. e' \<noteq> 5 \<longrightarrow> wait_set e' s = wait_set e' example_os"
    by (auto simp: example_ecbs_def sets example_sets same)
  have "wait_set 5 s = {}" using s(4) by (simp add: mbox_abs_def)
  then have "6 \<notin> wait_set e s" for e
    using s(11) example_running by (cases "e = 5") (auto simp: running_task_def)
  then have "running_task s 6 2"
    using example_running s(5-8) by (simp add: running_task_def task_at_def ready_set_def)
  with s show ?thesis by blast
qed

theorem mbox_post_refines_witness:
  "\<exists>s s' s''. OSMboxCreate 0 (example_os\<lparr> OSEventFreeList := Some 5 \<rparr>) = Some (Some 5, s) \<and>
     OSMboxPost (Some 5) 77 s = Some (OS_ERR_NONE, s') \<and> mbox_abs 5 s' = (Some 77, {}) \<and>
     OSMboxPost (Some 5) 78 s' = Some (OS_ERR_MBOX_FULL, s'') \<and> s'' = s'"
proof -
  obtain s where s: "OSMboxCreate 0 (example_os\<lparr> OSEventFreeList := Some 5 \<rparr>) = Some (Some 5, s)" "kernel_ok s"
    "is_mbox 5 s" "mbox_abs 5 s = (None, {})" "running_task s 6 2" using example_mbox by blast
  obtain s' where s': "OSMboxPost (Some 5) 77 s = Some (OS_ERR_NONE, s')" "mbox_abs 5 s' = (Some 77, {})"
    "kernel_ok s'" "cur_ok s'" "is_mbox 5 s'"
    using mbox_post_refines [OF s(2) running_cur_ok [OF s(5)] s(3), of 77] s(4) by auto
  then show ?thesis using mbox_post_refines [OF s'(3-5), of 78] s(1) by auto
qed

theorem mbox_pend_refines_witness:
  "\<exists>s s'. OSMboxCreate 0 (example_os\<lparr> OSEventFreeList := Some 5 \<rparr>) = Some (Some 5, s) \<and>
     OSMboxPend_enter (Some 5) 3 (Some 0) s = Some (False, 0, Some 0, s') \<and> mbox_abs 5 s' = (None, {6})"
proof -
  obtain s where s: "OSMboxCreate 0 (example_os\<lparr> OSEventFreeList := Some 5 \<rparr>) = Some (Some 5, s)" "kernel_ok s"
    "is_mbox 5 s" "mbox_abs 5 s = (None, {})" "running_task s 6 2" "OSIntNesting s = 0" "OSLockNesting s = 0"
    using example_mbox by blast
  obtain r m perr s' where s': "OSMboxPend_enter (Some 5) 3 (Some 0) s = Some (r, m, perr, s')" "\<not> r"
    "mbox_abs 5 s' = (None, {6})"
    using mbox_pend_refines [OF s(2,5) _ s(6,7,3), of 3 0] s(4) by auto
  moreover have "m = 0 \<and> perr = Some 0"
    using s'(1,2) by (auto simp: OSMboxPend_enter_def split: bind_splits if_splits)
  ultimately show ?thesis using s(1) by auto
qed


end
