(* ===== verification/Os_Multi.thy ===== *)
theory Os_Multi imports Os_Q Os_Mbox begin

text \<open>
  \<open>OSEventPendMulti\<close> (\<open>os_core.c\<close>): waiting for several semaphores, mailboxes and queues at once. A
  null-terminated array of events is the list of its entries; the result arrays are the lists of what
  the call has stored before the terminator. The call is cut at the scheduler like the other pend
  operations. The lemmas compare the first half with accepting from each event in turn, and follow a
  waiting task through the post that takes it off every wait list.
\<close>

section \<open>Operations\<close>

definition multi_types_ok :: "nat list \<Rightarrow> os_state \<Rightarrow> bool" where
  "multi_types_ok es s \<longleftrightarrow>
     list_all (\<lambda>e. OSEventType (ECB s e) = OS_EVENT_TYPE_SEM \<or> OSEventType (ECB s e) = OS_EVENT_TYPE_MBOX \<or>
                   OSEventType (ECB s e) = OS_EVENT_TYPE_Q) es"

text \<open>
  The loop that takes whatever is available: the ready events, their messages, the count and the
  status bits of the others. \<open>False\<close>: an event of another type was met.
\<close>

fun multi_scan ::
  "nat list \<Rightarrow> nat list \<Rightarrow> msg list \<Rightarrow> INT16U \<Rightarrow> INT8U \<Rightarrow> os_state \<Rightarrow>
     (bool \<times> nat list \<times> msg list \<times> INT16U \<times> INT8U \<times> os_state) option" where
  "multi_scan [] rd ms nbr st s = Some (True, rd, ms, nbr, st, s)"
| "multi_scan (e # es) rd ms nbr st s =
     (if OSEventType (ECB s e) = OS_EVENT_TYPE_SEM then
        if OSEventCnt (ECB s e) > 0 then
          multi_scan es (rd @ [e]) (ms @ [0]) (nbr + 1) st (set_event e (\<lambda>ev. ev\<lparr> OSEventCnt := OSEventCnt ev - 1 \<rparr>) s)
        else multi_scan es rd ms nbr (st OR OS_STAT_SEM) s
      else if OSEventType (ECB s e) = OS_EVENT_TYPE_MBOX then do {
        m \<leftarrow> mbox_msg e s;
        if m \<noteq> 0 then multi_scan es (rd @ [e]) (ms @ [m]) (nbr + 1) st (set_mbox e 0 s)
        else multi_scan es rd ms nbr (st OR OS_STAT_MBOX) s
      }
      else if OSEventType (ECB s e) = OS_EVENT_TYPE_Q then do {
        q \<leftarrow> q_of e s;
        if OSQEntries (QCB s q) > 0 then
          let (m, r) = ring_take (get_ring q s) in
          multi_scan es (rd @ [e]) (ms @ [m]) (nbr + 1) st (set_ring q r s)
        else multi_scan es rd ms nbr (st OR OS_STAT_Q) s
      }
      else Some (False, rd, ms, nbr, st, s))"

text \<open>
  Whether the function has returned, its result, the array of ready events (\<open>None\<close>: not written), the
  array of messages, the error cell. \<open>rdy_arr\<close> and \<open>msgs_arr\<close> say whether the result arrays are not null.
\<close>

definition OSEventPendMulti_enter ::
  "nat list option \<Rightarrow> bool \<Rightarrow> bool \<Rightarrow> INT16U \<Rightarrow> INT8U option \<Rightarrow> os_state \<Rightarrow>
     (bool \<times> INT16U \<times> nat list option \<times> msg list \<times> INT8U option \<times> os_state) option" where
  "OSEventPendMulti_enter pevents_pend rdy_arr msgs_arr timeout perr s =
     (if perr = None then Some (True, 0, None, [], perr, s)
      else case pevents_pend of None \<Rightarrow> Some (True, 0, None, [], Some OS_ERR_PEVENT_NULL, s)
      | Some es \<Rightarrow>
          if \<not> rdy_arr then Some (True, 0, None, [], Some OS_ERR_PEVENT_NULL, s)
          else if \<not> msgs_arr then Some (True, 0, None, [], Some OS_ERR_PEVENT_NULL, s)
          else if \<not> multi_types_ok es s then Some (True, 0, Some [], [], Some OS_ERR_EVENT_TYPE, s)
          else if OSIntNesting s > 0 then Some (True, 0, Some [], [], Some OS_ERR_PEND_ISR, s)
          else if OSLockNesting s > 0 then Some (True, 0, Some [], [], Some OS_ERR_PEND_LOCKED, s)
          else do {
            (ok, rd, ms, nbr, st, s) \<leftarrow> multi_scan es [] [] 0 OS_STAT_RDY s;
            if \<not> ok then Some (True, nbr, Some rd, ms, Some OS_ERR_EVENT_TYPE, s)
            else if rd \<noteq> [] then Some (True, nbr, Some rd, ms, Some OS_ERR_NONE, s)
            else do {
              i \<leftarrow> tcb_index (OSTCBCur s);
              let s = set_tcb i (\<lambda>t. t\<lparr> OSTCBStat := OSTCBStat t OR (st OR OS_STAT_MULTI),
                                        OSTCBStatPend := OS_STAT_PEND_OK, OSTCBDly := timeout \<rparr>) s;
              s \<leftarrow> OS_EventTaskWaitMulti es s;
              s \<leftarrow> OS_Sched s;
              Some (False, nbr, Some rd, ms, perr, s)
            }
          })"

definition OSEventPendMulti_resume ::
  "nat list \<Rightarrow> os_state \<Rightarrow> (INT16U \<times> nat list \<times> msg list \<times> INT8U \<times> os_state) option" where
  "OSEventPendMulti_resume es s = do {
     i \<leftarrow> tcb_index (OSTCBCur s);
     (pevent, rd, nbr, s) \<leftarrow>
       (if OSTCBStatPend (TCB s i) = OS_STAT_PEND_OK \<or> OSTCBStatPend (TCB s i) = OS_STAT_PEND_ABORT then
          (case OSTCBEventPtr (TCB s i) of
             Some e \<Rightarrow> Some (Some e, [e], 1, s)
           | None \<Rightarrow> do {
               s \<leftarrow> OS_EventTaskRemoveMulti i es (set_tcb i (\<lambda>t. t\<lparr> OSTCBStatPend := OS_STAT_PEND_TO \<rparr>) s);
               Some (None, [], 0, s)
             })
        else do { s \<leftarrow> OS_EventTaskRemoveMulti i es s; Some (None, [], 0, s) });
     let fin = set_tcb i (\<lambda>t. t\<lparr> OSTCBStat := OS_STAT_RDY, OSTCBStatPend := OS_STAT_PEND_OK, OSTCBEventPtr := None,
                                 OSTCBEventMultiPtr := None, OSTCBMsg := 0 \<rparr>);
     if OSTCBStatPend (TCB s i) = OS_STAT_PEND_OK then do {
       e \<leftarrow> pevent;
       if OSEventType (ECB s e) = OS_EVENT_TYPE_SEM then Some (nbr, rd, [0], OS_ERR_NONE, fin s)
       else if OSEventType (ECB s e) = OS_EVENT_TYPE_MBOX \<or> OSEventType (ECB s e) = OS_EVENT_TYPE_Q then
         Some (nbr, rd, [OSTCBMsg (TCB s i)], OS_ERR_NONE, fin s)
       else Some (nbr, rd, [], OS_ERR_EVENT_TYPE, s)
     }
     else if OSTCBStatPend (TCB s i) = OS_STAT_PEND_ABORT then Some (nbr, rd, [0], OS_ERR_PEND_ABORT, fin s)
     else Some (nbr, rd, [0], OS_ERR_TIMEOUT, fin s)
   }"

section \<open>Accepting from each event in turn\<close>

text \<open>One try-take with the accept operation of the event's component: the message, if something was there.\<close>

definition accept_event :: "nat \<Rightarrow> os_state \<Rightarrow> (msg option \<times> os_state) option" where
  "accept_event e s =
     (if OSEventType (ECB s e) = OS_EVENT_TYPE_SEM then
        let (c, s) = OSSemAccept (Some e) s in Some (if c > 0 then Some 0 else None, s)
      else if OSEventType (ECB s e) = OS_EVENT_TYPE_MBOX then do {
        (m, s) \<leftarrow> OSMboxAccept (Some e) s;
        Some (if m \<noteq> 0 then Some m else None, s)
      }
      else do {
        (m, err, s) \<leftarrow> OSQAccept (Some e) (Some 0) s;
        Some (if err = Some OS_ERR_NONE then Some m else None, s)
      })"

fun accept_all :: "nat list \<Rightarrow> os_state \<Rightarrow> ((nat \<times> msg) list \<times> os_state) option" where
  "accept_all [] s = Some ([], s)"
| "accept_all (e # es) s = do {
     (m, s) \<leftarrow> accept_event e s;
     (got, s) \<leftarrow> accept_all es s;
     Some ((case m of None \<Rightarrow> got | Some m \<Rightarrow> (e, m) # got), s)
   }"

lemma set_mbox_same: "mbox_msg e s = Some m \<Longrightarrow> set_mbox e m s = s"
  by (simp add: mbox_msg_def set_mbox_def set_event_def fun_upd_idem split: void_ptr.splits)

lemma types_frame:
  "(\<And>e. OSEventType (ECB s' e) = OSEventType (ECB s e)) \<Longrightarrow> multi_types_ok es s' = multi_types_ok es s"
  by (simp add: multi_types_ok_def)

lemma accept_event_types:
  "accept_event e s = Some (m, s') \<Longrightarrow> OSEventType (ECB s' e') = OSEventType (ECB s e')"
  by (auto simp: accept_event_def OSSemAccept_def OSMboxAccept_def OSQAccept_def set_event_def set_mbox_def set_ring_def set_q_def
      Let_def split: bind_splits if_splits prod.splits option.splits)

text \<open>One turn of the loop is one try-take.\<close>

lemma multi_scan_step:
  assumes "multi_types_ok (e # es) s"
  shows "\<exists>st'. multi_scan (e # es) rd ms nbr st s = do {
     (m, s) \<leftarrow> accept_event e s;
     (case m of None \<Rightarrow> multi_scan es rd ms nbr st' s | Some m \<Rightarrow> multi_scan es (rd @ [e]) (ms @ [m]) (nbr + 1) st' s) }"
proof -
  consider "OSEventType (ECB s e) = OS_EVENT_TYPE_SEM" | "OSEventType (ECB s e) = OS_EVENT_TYPE_MBOX"
    | "OSEventType (ECB s e) = OS_EVENT_TYPE_Q" using assms by (auto simp: multi_types_ok_def)
  then show ?thesis
  proof cases
    case 1
    then show ?thesis
      by (intro exI [of _ "if OSEventCnt (ECB s e) > 0 then st else st OR OS_STAT_SEM"]) (simp add: accept_event_def OSSemAccept_def Let_def)
  next
    case 2
    show ?thesis
    proof (cases "mbox_msg e s")
      case (Some m)
      then show ?thesis using 2 set_mbox_same [OF Some]
        by (intro exI [of _ "if m \<noteq> 0 then st else st OR OS_STAT_MBOX"]) (auto simp: accept_event_def OSMboxAccept_def)
    qed (use 2 in \<open>simp add: accept_event_def OSMboxAccept_def\<close>)
  next
    case 3
    show ?thesis
    proof (cases "q_of e s")
      case (Some q)
      then show ?thesis using 3
        by (intro exI [of _ "if OSQEntries (QCB s q) > 0 then st else st OR OS_STAT_Q"])
          (simp add: accept_event_def OSQAccept_def Let_def split: prod.split)
    qed (use 3 in \<open>simp add: accept_event_def OSQAccept_def\<close>)
  qed
qed

lemma multi_scan_accepts:
  assumes "multi_types_ok es s" "accept_all es s = Some (got, s')"
  shows "\<exists>st'. multi_scan es rd ms nbr st s = Some (True, rd @ map fst got, ms @ map snd got, nbr + of_nat (length got), st', s')"
  using assms
proof (induction es arbitrary: rd ms nbr st s got)
  case (Cons e es)
  obtain m s1 where a: "accept_event e s = Some (m, s1)" using Cons.prems(2) by (auto split: bind_splits)
  then obtain got1 where g: "accept_all es s1 = Some (got1, s')" "got = (case m of None \<Rightarrow> got1 | Some m \<Rightarrow> (e, m) # got1)"
    using Cons.prems(2) by (auto split: bind_splits)
  have t: "multi_types_ok es s1"
    using Cons.prems(1) types_frame [OF accept_event_types [OF a], of es] by (simp add: multi_types_ok_def)
  obtain st' where st: "multi_scan (e # es) rd ms nbr st s =
      (case m of None \<Rightarrow> multi_scan es rd ms nbr st' s1 | Some m \<Rightarrow> multi_scan es (rd @ [e]) (ms @ [m]) (nbr + 1) st' s1)"
    using multi_scan_step [OF Cons.prems(1), of rd ms nbr st] unfolding a Option.bind.simps prod.case by blast
  show ?case unfolding st
  proof (cases m)
    case None
    then show "\<exists>st''. (case m of None \<Rightarrow> multi_scan es rd ms nbr st' s1
        | Some m \<Rightarrow> multi_scan es (rd @ [e]) (ms @ [m]) (nbr + 1) st' s1) =
        Some (True, rd @ map fst got, ms @ map snd got, nbr + of_nat (length got), st'', s')"
      using Cons.IH [OF t g(1), of rd ms nbr st'] g(2) by simp
  next
    case (Some v)
    then show "\<exists>st''. (case m of None \<Rightarrow> multi_scan es rd ms nbr st' s1
        | Some m \<Rightarrow> multi_scan es (rd @ [e]) (ms @ [m]) (nbr + 1) st' s1) =
        Some (True, rd @ map fst got, ms @ map snd got, nbr + of_nat (length got), st'', s')"
      using Cons.IH [OF t g(1), of "rd @ [e]" "ms @ [v]" "nbr + 1" st'] g(2) by (simp add: add.assoc)
  qed
qed simp

text \<open>C36: \<open>OSEventPendMulti\<close> on a list of semaphores, mailboxes and queues of which something is available returns at once with
  what \<open>OSSemAccept\<close>, \<open>OSMboxAccept\<close> and \<open>OSQAccept\<close> give for each event in turn: the events that had something, in
  order, their messages and their number, and the state after these calls.\<close>

theorem pend_multi_accepts:
  assumes ty: "multi_types_ok es s" and acc: "accept_all es s = Some (got, s')" "got \<noteq> []"
    and lv: "OSIntNesting s = 0" "OSLockNesting s = 0"
  shows "OSEventPendMulti_enter (Some es) True True timeout (Some x) s =
           Some (True, of_nat (length got), Some (map fst got), map snd got, Some OS_ERR_NONE, s')"
proof -
  obtain st' where "multi_scan es [] [] 0 OS_STAT_RDY s = Some (True, map fst got, map snd got, of_nat (length got), st', s')"
    using multi_scan_accepts [OF ty acc(1), of "[]" "[]" 0 OS_STAT_RDY] by auto
  then show ?thesis using ty acc(2) lv by (simp add: OSEventPendMulti_enter_def)
qed

theorem pend_multi_accepts_witness:
  "\<exists>s'. OSEventPendMulti_enter (Some [0, 1, 2]) True True 5 (Some 9) example_os = Some (True, 2, Some [1, 2], [11, 0], Some OS_ERR_NONE, s')"
proof -
  have "\<exists>s'. accept_all [0, 1, 2] example_os = Some ([(1, 11), (2, 0)], s')"
    by (simp add: accept_event_def OSSemAccept_def OSQAccept_def q_of_def example_ecbs_def example_qcbs_def ring_take_def
        get_ring_def Let_def set_ring_def set_q_def set_event_def) (simp add: example_os_def)
  then obtain s' where "accept_all [0, 1, 2] example_os = Some ([(1, 11), (2, 0)], s')" by blast
  moreover have "multi_types_ok [0, 1, 2] example_os" by (simp add: multi_types_ok_def example_ecbs_def)
  ultimately show ?thesis using pend_multi_accepts [of "[0, 1, 2]" example_os _ s' 5 9] by simp
qed

section \<open>Several wait lists\<close>

lemma add_to_events_ok:
  assumes "masks_ok p t" "p \<le> 20" "\<forall>e. bm_ok (waiters e s)"
  shows "\<exists>s'. add_to_events t es s = Some s' \<and> sched_frame s s' \<and> TCB s' = TCB s \<and> rdy s' = rdy s \<and>
     (\<forall>e. bm_ok (waiters e s')) \<and> (\<forall>e. wait_set e s' = (if e \<in> set es then insert p (wait_set e s) else wait_set e s))"
  using assms
proof (induction es arbitrary: s)
  case (Cons e es)
  obtain b where b: "bm_set (OSTCBY t) (OSTCBBitX t) (OSTCBBitY t) (waiters e s) = Some b" "bm_ok b"
    "bm_elems b = insert p (bm_elems (waiters e s))" using masks_set [OF _ Cons.prems(1,2)] Cons.prems(3) by blast
  have "\<forall>e'. bm_ok (waiters e' (set_waiters e b s))" using Cons.prems(3) b(2) by simp
  from Cons.IH [OF Cons.prems(1,2) this] obtain s' where s': "add_to_events t es (set_waiters e b s) = Some s'"
    "sched_frame (set_waiters e b s) s'" "TCB s' = TCB s" "rdy s' = rdy s" "\<forall>e. bm_ok (waiters e s')"
    "\<forall>e'. wait_set e' s' = (if e' \<in> set es then insert p (wait_set e' (set_waiters e b s)) else wait_set e' (set_waiters e b s))"
    by auto
  have w: "wait_set e' (set_waiters e b s) = (if e' = e then insert p (wait_set e s) else wait_set e' s)" for e'
    using b(3) by (simp add: wait_set_def)
  have "sched_frame s s'" using sched_frame_trans [OF _ s'(2)] by simp
  then show ?case using b(1) s' w by auto
qed simp

lemma remove_from_events_ok:
  assumes "masks_ok p t" "p \<le> 20" "\<forall>e. bm_ok (waiters e s)"
  shows "\<exists>s'. remove_from_events t es s = Some s' \<and> sched_frame s s' \<and> TCB s' = TCB s \<and> rdy s' = rdy s \<and>
     (\<forall>e. bm_ok (waiters e s')) \<and> (\<forall>e. wait_set e s' = (if e \<in> set es then wait_set e s - {p} else wait_set e s))"
  using assms
proof (induction es arbitrary: s)
  case (Cons e es)
  obtain b where b: "bm_clear (OSTCBY t) (OSTCBBitX t) (OSTCBBitY t) (waiters e s) = Some b" "bm_ok b"
    "bm_elems b = bm_elems (waiters e s) - {p}" using masks_clear [OF _ Cons.prems(1,2)] Cons.prems(3) by blast
  have "\<forall>e'. bm_ok (waiters e' (set_waiters e b s))" using Cons.prems(3) b(2) by simp
  from Cons.IH [OF Cons.prems(1,2) this] obtain s' where s': "remove_from_events t es (set_waiters e b s) = Some s'"
    "sched_frame (set_waiters e b s) s'" "TCB s' = TCB s" "rdy s' = rdy s" "\<forall>e. bm_ok (waiters e s')"
    "\<forall>e'. wait_set e' s' = (if e' \<in> set es then wait_set e' (set_waiters e b s) - {p} else wait_set e' (set_waiters e b s))"
    by auto
  have w: "wait_set e' (set_waiters e b s) = (if e' = e then wait_set e s - {p} else wait_set e' s)" for e'
    using b(3) by (simp add: wait_set_def)
  have "sched_frame s s'" using sched_frame_trans [OF _ s'(2)] by simp
  then show ?case using b(1) s' w by auto
qed simp

text \<open>C37: A task that waits for several events is on the wait list of each of them and not ready. The first post for one of the
  events makes it ready with the message, tells it which event it was, and takes it off all the wait lists: the ready list
  and every wait list are what they were before.\<close>

theorem multi_wait_wake:
  assumes ok: "kernel_ok s" and cur: "OSTCBCur s = TCB_AT i" "task_at s p i" "p \<in> ready_set s" "\<And>e. p \<notin> wait_set e s"
    and st: "st AND 8 = 0" and e: "e \<in> set es" "wait_set e s = {}"
  shows "\<exists>s1 s2. OS_EventTaskWaitMulti es (set_tcb i (\<lambda>t. t\<lparr> OSTCBStat := OSTCBStat t OR (st OR OS_STAT_MULTI),
                    OSTCBStatPend := OS_STAT_PEND_OK, OSTCBDly := timeout \<rparr>) s) = Some s1 \<and>
     p \<notin> ready_set s1 \<and> (\<forall>e. p \<in> wait_set e s1 \<longleftrightarrow> e \<in> set es) \<and>
     OS_EventTaskRdy e m msk OS_STAT_PEND_OK s1 = Some (of_nat p, s2) \<and>
     ready_set s2 = ready_set s \<and> (\<forall>e. wait_set e s2 = wait_set e s) \<and>
     OSTCBEventPtr (TCB s2 i) = Some e \<and> OSTCBMsg (TCB s2 i) = m \<and> OSTCBDly (TCB s2 i) = 0"
proof -
  have p20: "p \<le> 20" using cur(2) by (simp add: task_at_def)
  have tok: "task_ok s p (TCB s i)" using ok cur(2) by (rule kernel_okD(4))
  have run: "runnable (TCB s i)" using cur(3) task_okD(4) [OF tok] by simp
  define t0 where "t0 = (TCB s i)\<lparr> OSTCBStat := OSTCBStat (TCB s i) OR (st OR OS_STAT_MULTI), OSTCBStatPend := OS_STAT_PEND_OK,
     OSTCBDly := timeout, OSTCBEventPtr := None, OSTCBEventMultiPtr := Some es \<rparr>"
  define s0 where "s0 = set_tcb i (\<lambda>_. t0) s"
  have mk: "masks_ok p t0" using task_okD(1) [OF tok] by (simp add: masks_ok_def t0_def)
  have bm0: "\<forall>e. bm_ok (waiters e s0)" using kernel_okD(3) [OF ok] by (simp add: s0_def)
  obtain a where a: "add_to_events t0 es s0 = Some a" "sched_frame s0 a" "TCB a = TCB s0" "rdy a = rdy s"
    "\<forall>e. bm_ok (waiters e a)" "\<forall>e. wait_set e a = (if e \<in> set es then insert p (wait_set e s) else wait_set e s)"
    using add_to_events_ok [OF mk p20 bm0, of es] by (auto simp: s0_def wait_set_def)
  obtain r where r: "bm_clear (OSTCBY t0) (OSTCBBitX t0) (OSTCBBitY t0) (rdy s) = Some r" "bm_ok r" "bm_elems r = bm_elems (rdy s) - {p}"
    using masks_clear [OF kernel_okD(2) [OF ok] mk p20] by blast
  define s1 where "s1 = set_rdy r a"
  let ?s = "set_tcb i (\<lambda>t. t\<lparr> OSTCBStat := OSTCBStat t OR (st OR OS_STAT_MULTI), OSTCBStatPend := OS_STAT_PEND_OK, OSTCBDly := timeout \<rparr>) s"
  have "set_tcb i (\<lambda>t. t\<lparr> OSTCBEventPtr := None, OSTCBEventMultiPtr := Some es \<rparr>) ?s = s0"
    by (simp add: s0_def t0_def set_tcb_def)
  note e0 = this
  have c0: "OSTCBCur ?s = TCB_AT i" "TCB s0 i = t0" using cur(1) by (simp_all add: s0_def) (simp add: set_tcb_def)
  have w1: "OS_EventTaskWaitMulti es ?s = Some s1"
    unfolding OS_EventTaskWaitMulti_def c0(1) tcb_index.simps Option.bind.simps Let_def e0 c0(2) using a(1,4) r(1)
    by (simp add: s1_def)
  have s1: "ready_set s1 = ready_set s - {p}" "wait_set e' s1 = (if e' \<in> set es then insert p (wait_set e' s) else wait_set e' s)"
    "bm_ok (waiters e' s1)" "TCB s1 i = t0" "rdy s1 = r" for e'
    using a(3-6) r(3) by (simp_all add: s1_def ready_set_def) (simp_all add: wait_set_def s0_def)
  have tbl: "OSTCBPrioTbl s1 ! p = TCB_AT i" "length (OSTCBPrioTbl s1) = 21"
    using sched_frame_tbl [OF a(2)] cur(2) kernel_okD(1) [OF ok]
    by (simp_all add: s1_def set_rdy_def task_at_def s0_def set_tcb_def)
  have we: "wait_set e s1 = {p}" using s1(2) e by simp
  obtain y prio where hi: "bm_highest (waiters e s1) = Some (y, prio)" "unat prio = p" "y = prio_y prio"
    using bm_highest_spec [OF s1(3), of e] we unfolding wait_set_def by auto
  have prio: "prio = OSTCBPrio t0" using mk hi(2) by (simp add: masks_ok_def word_unat_eq_iff)
  define t1 where "t1 = t0\<lparr> OSTCBDly := 0, OSTCBMsg := m, OSTCBStat := OSTCBStat t0 AND NOT msk, OSTCBStatPend := OS_STAT_PEND_OK \<rparr>"
  define b1 where "b1 = set_tcb i (\<lambda>_. t1) s1"
  have mk1: "masks_ok p t1" using mk by (simp add: masks_ok_def t1_def)
  have "\<not> bit st 3" using st by (simp add: and_8_iff)
  then have susp: "OSTCBStat t1 AND OS_STAT_SUSPEND = OS_STAT_RDY"
    using run by (simp add: t1_def t0_def runnable_def and_8_iff bit_and_not bit_or_iff)
  obtain r2 where r2: "bm_set (OSTCBY t1) (OSTCBBitX t1) (OSTCBBitY t1) (rdy b1) = Some r2" "bm_elems r2 = insert p (bm_elems (rdy b1))"
  proof -
    have "bm_ok (rdy b1)" using r(2) s1(5) by (simp add: b1_def)
    then show thesis using masks_set [OF _ mk1 p20] that by blast
  qed
  define b2 where "b2 = set_rdy r2 b1"
  obtain w where w: "bm_clear (OSTCBY t1) (OSTCBBitX t1) (OSTCBBitY t1) (waiters e b2) = Some w" "bm_ok w" "bm_elems w = bm_elems (waiters e s1) - {p}"
  proof -
    have "bm_ok (waiters e b2)" "waiters e b2 = waiters e s1" using s1(3) by (simp_all add: b2_def b1_def)
    then show thesis using masks_clear [OF _ mk1 p20] that by metis
  qed
  define b3 where "b3 = set_waiters e w b2"
  have bm3: "\<forall>e'. bm_ok (waiters e' b3)" using s1(3) w(2) by (simp add: b3_def b2_def b1_def)
  obtain b4 where b4: "remove_from_events t1 es b3 = Some b4" "sched_frame b3 b4" "TCB b4 = TCB b3" "rdy b4 = rdy b3"
    "\<forall>e. wait_set e b4 = (if e \<in> set es then wait_set e b3 - {p} else wait_set e b3)"
    using remove_from_events_ok [OF mk1 p20 bm3, of es] by blast
  define s2 where "s2 = set_tcb i (\<lambda>t. t\<lparr> OSTCBEventPtr := Some e \<rparr>) b4"
  have tcb: "TCB b1 i = t1" "TCB b2 i = t1" "TCB b3 i = t1" by (simp_all add: b1_def b2_def b3_def)
  have y: "y = OSTCBY t1" using hi(3) prio mk1 by (simp add: masks_ok_def t1_def)
  have upd: "set_tcb i (\<lambda>t. t\<lparr> OSTCBDly := 0, OSTCBMsg := m, OSTCBStat := OSTCBStat t AND NOT msk, OSTCBStatPend := OS_STAT_PEND_OK \<rparr>) s1 = b1"
    using s1(4) by (simp add: b1_def t1_def set_tcb_def)
  have multi: "OSTCBEventMultiPtr t1 = Some es" by (simp add: t1_def t0_def)
  have ag: "array_get (OSTCBPrioTbl s1) (unat prio) = Some (TCB_AT i)" using tbl p20 hi(2) by simp
  have rm: "OS_EventTaskRemove i e b2 = Some b3" using w(1) by (simp add: OS_EventTaskRemove_def tcb b3_def)
  have rmm: "OS_EventTaskRemoveMulti i es b3 = Some b4" using b4(1) by (simp add: OS_EventTaskRemoveMulti_def tcb)
  have "OS_EventTaskRdy e m msk OS_STAT_PEND_OK s1 = Some (prio, s2)"
    unfolding OS_EventTaskRdy_def
    by (simp only: hi(1) Option.bind.simps prod.case ag tcb_index.simps Let_def upd tcb susp if_True refl y r2(1) rm multi option.case
        rmm s2_def flip: b2_def)
  moreover have "ready_set s2 = ready_set s"
    using b4(4) r2(2) s1(5) r(3) cur(3) by (auto simp: s2_def ready_set_def b3_def b2_def b1_def)
  moreover have "wait_set e' s2 = wait_set e' s" for e'
  proof -
    have "wait_set e' b3 = (if e' = e then {} else wait_set e' s1)"
      using w(3) we by (auto simp: b3_def b2_def b1_def wait_set_def)
    then show ?thesis using b4(5) s1(2) [of e'] e cur(4) [of e'] by (auto simp: s2_def wait_set_def)
  qed
  moreover have "TCB s2 i = t1\<lparr> OSTCBEventPtr := Some e \<rparr>" using b4(3) by (simp add: s2_def tcb)
  moreover have "of_nat p = prio" using hi(2) by auto
  moreover have "p \<in> wait_set e' s1 \<longleftrightarrow> e' \<in> set es" for e' using s1(2) cur(4) by simp
  ultimately show ?thesis using w1 s1(1) by (intro exI [of _ s1] exI [of _ s2]) (simp add: t1_def)
qed

theorem multi_wait_wake_witness:
  "\<exists>s1 s2. OS_EventTaskWaitMulti [1, 2] (set_tcb 2 (\<lambda>t. t\<lparr> OSTCBStat := OSTCBStat t OR (5 OR OS_STAT_MULTI),
                    OSTCBStatPend := OS_STAT_PEND_OK, OSTCBDly := 10 \<rparr>) example_os) = Some s1 \<and>
     OS_EventTaskRdy 2 0 OS_STAT_SEM OS_STAT_PEND_OK s1 = Some (6, s2) \<and> ready_set s2 = {6, 20} \<and> OSTCBEventPtr (TCB s2 2) = Some 2"
proof -
  have h: "task_at example_os 6 2" "6 \<in> ready_set example_os" "\<And>e. 6 \<notin> wait_set e example_os" "(5 :: INT8U) AND 8 = 0"
    "2 \<in> set [1, 2 :: nat]" "wait_set 2 example_os = {}" "OSTCBCur example_os = TCB_AT 2"
    by (simp_all add: example_task_at example_sets)
  show ?thesis
    using multi_wait_wake [OF example_kernel_ok h(7,1-6), of 10 0 OS_STAT_SEM]
    by (elim exE conjE) (simp add: example_sets)
qed

end
