(* ===== verification/Task_Prio.thy ===== *)
theory Task_Prio imports Task_Admin begin

text \<open>
  Changes of a task's priority. A task moves in the priority table, in the ready list and in the wait
  lists at once; the lemma that this keeps the kernel consistent serves \<open>OSTaskChangePrio\<close> and the
  priority inheritance of the mutexes.
\<close>

section \<open>A task that moves\<close>

definition moved :: "nat \<Rightarrow> nat \<Rightarrow> nat set \<Rightarrow> nat set" where
  "moved p q A = (if p \<in> A then insert q (A - {p}) else A)"

lemma moved_iff: "q \<notin> A \<Longrightarrow> r \<in> moved p q A \<longleftrightarrow> (if r = q then p \<in> A else r \<noteq> p \<and> r \<in> A)"
  by (auto simp: moved_def)

lemma moved_back: "q \<notin> A \<Longrightarrow> moved q p (moved p q A) = A"
  by (auto simp: moved_def)

lemma no_task_no_member:
  assumes "kernel_ok s" "\<forall>j. OSTCBPrioTbl s ! q \<noteq> TCB_AT j"
  shows "q \<notin> ready_set s" "q \<notin> wait_set e s"
  using kernel_okD(5,6) [OF assms(1)] assms(2) unfolding task_at_def by blast+

lemma kernel_ok_move:
  assumes ok: "kernel_ok s" and at: "task_at s p i" and p: "p \<noteq> 20" and q: "q < 20" "q \<noteq> p" "\<forall>j. OSTCBPrioTbl s ! q \<noteq> TCB_AT j"
    and tbl: "OSTCBPrioTbl s' = (OSTCBPrioTbl s)[p := x, q := TCB_AT i]" and x: "\<forall>j. x \<noteq> TCB_AT j"
    and tcb: "TCB s' = (TCB s)(i := with_prio prio (TCB s i))" "unat prio = q"
    and bm: "bm_ok (rdy s')" "\<And>e. bm_ok (waiters e s')"
    and ty: "\<And>e. OSEventType (ECB s' e) = OSEventType (ECB s e)"
    and rd: "ready_set s' = moved p q (ready_set s)" and wt: "\<And>e. wait_set e s' = moved p q (wait_set e s)"
  shows "kernel_ok s'"
proof -
  have len: "length (OSTCBPrioTbl s) = 21" using ok by (rule kernel_okD(1))
  have p20: "p \<le> 20" using at by (simp add: task_at_def)
  note none = no_task_no_member [OF ok q(3)]
  note rm = rd [THEN eqset_imp_iff, unfolded moved_iff [OF none(1)]]
    and wm = wt [THEN eqset_imp_iff, unfolded moved_iff [OF none(2)]]
  have at': "task_at s' r j \<longleftrightarrow> (if r = q then j = i else r \<noteq> p \<and> task_at s r j)" for r j
    using p20 q(1,2) x by (auto simp: task_at_def tbl len nth_list_update)
  have "task_ok s' r (TCB s' j)" if a: "task_at s' r j" for r j
  proof (cases "r = q")
    case True
    then have "j = i" using a at' by simp
    then show ?thesis using kernel_okD(4) [OF ok at] True tcb(2)
      by (simp add: task_ok_def tcb(1) rm wm ty runnable_def) (simp add: with_prio_def)
  next
    case False
    then have r: "r \<noteq> p" "task_at s r j" using a at' by simp_all
    then have "j \<noteq> i" using task_at_inj [OF ok at] by blast
    then show ?thesis using kernel_okD(4) [OF ok r(2)] False r(1) by (simp add: task_ok_def tcb(1) rm wm ty)
  qed
  moreover have "\<exists>j. task_at s' r j" if "r \<in> ready_set s' \<or> (\<exists>e. r \<in> wait_set e s')" for r
  proof (cases "r = q")
    case False
    then have "r \<noteq> p" "r \<in> ready_set s \<or> (\<exists>e. r \<in> wait_set e s)" using that by (auto simp: rm wm)
    then show ?thesis using kernel_okD(5,6) [OF ok] False unfolding at' by auto
  qed (simp add: at')
  moreover have "20 \<in> ready_set s'" using kernel_okD(7) [OF ok] q(1) p by (simp add: rm)
  ultimately show ?thesis using bm len unfolding kernel_ok_def by (simp add: tbl)
qed

section \<open>The tests and moves in the bitmaps\<close>

lemma row_test:
  assumes "bm_ok (rdy s)" "masks_ok p t" "p \<le> 20"
  shows "\<exists>row. array_get (OSRdyTbl s) (unat (OSTCBY t)) = Some row \<and> (row AND OSTCBBitX t \<noteq> 0 \<longleftrightarrow> p \<in> ready_set s)"
proof -
  have len: "length (OSRdyTbl s) = 3" using assms(1) by (simp add: bm_ok_def rdy_def numeral_3_eq_3)
  have y: "unat (OSTCBY t) = p div 8" "OSTCBBitX t = push_bit (p mod 8) 1"
    using assms(2) by (simp_all add: masks_ok_def unat_prio_y prio_bitx_def unat_prio_x)
  moreover have "p div 8 < 3" using assms(3) by linarith
  ultimately show ?thesis using len and_exp_eq_0_iff_not_bit [of "OSRdyTbl s ! (p div 8)" "p mod 8"]
    by (simp add: ready_set_def bm_elems_def rdy_def push_bit_eq_mult)
qed

lemma bm_move_spec:
  assumes "bm_ok b" "masks_ok p t" "p \<le> 20" "unat newprio < 20"
  obtains b' where "bm_move t newprio b = Some b'" "bm_ok b'" "bm_elems b' = insert (unat newprio) (bm_elems b - {p})"
proof -
  obtain c where c: "bm_clear (OSTCBY t) (OSTCBBitX t) (OSTCBBitY t) b = Some c" "bm_ok c" "bm_elems c = bm_elems b - {p}"
    using masks_clear [OF assms(1-3)] by blast
  have "unat newprio \<le> OS_LOWEST_PRIO" using assms(4) by simp
  from bm_set_spec [OF c(2) this] show thesis using that c(1,3) by (auto simp: bm_move_def)
qed

section \<open>\<open>OSTaskChangePrio\<close>\<close>

text \<open>The task has been moved, before the scheduler runs.\<close>

lemma change_prio_tables:
  assumes ok: "kernel_ok s" and at: "task_at s p i" and p: "p < 20" and q: "unat newprio < 20" "OSTCBPrioTbl s ! unat newprio = TCB_NULL"
    and ev: "\<forall>e. OSTCBEventPtr (TCB s i) = Some e \<longrightarrow> p \<in> wait_set e s"
    and s1: "s1 = s\<lparr> OSTCBPrioTbl := (OSTCBPrioTbl s)[p := TCB_NULL, unat newprio := TCB_AT i] \<rparr>"
  shows "\<exists>r w. (if p \<in> ready_set s then bm_move (TCB s i) newprio (rdy s1) = Some r else r = rdy s) \<and>
    (\<forall>e. OSTCBEventPtr (TCB s i) = Some e \<longrightarrow> bm_move (TCB s i) newprio (waiters e s1) = Some w) \<and>
    (let s2 = (case OSTCBEventPtr (TCB s i) of None \<Rightarrow> set_rdy r s1 | Some e \<Rightarrow> set_waiters e w (set_rdy r s1));
         s3 = set_tcb i (with_prio newprio) s2 in
     kernel_ok s3 \<and> ready_set s3 = moved p (unat newprio) (ready_set s) \<and>
     (\<forall>e. wait_set e s3 = moved p (unat newprio) (wait_set e s)) \<and> OSTCBPrioTbl s3 = OSTCBPrioTbl s1)"
proof -
  let ?q = "unat newprio" and ?t = "TCB s i"
  have p20: "p \<le> 20" "p \<noteq> 20" and none: "\<forall>j. OSTCBPrioTbl s ! ?q \<noteq> TCB_AT j" and tn: "\<forall>j. TCB_NULL \<noteq> TCB_AT j" using p q by simp_all
  have pq: "?q \<noteq> p" using at q(2) by (auto simp: task_at_def)
  have tok: "task_ok s p ?t" using ok at by (rule kernel_okD(4))
  note mk = task_okD(1) [OF tok]
  obtain r0 where r0: "bm_move ?t newprio (rdy s) = Some r0" "bm_ok r0" "bm_elems r0 = insert ?q (bm_elems (rdy s) - {p})"
    using bm_move_spec [OF kernel_okD(2) [OF ok] mk p20(1) q(1)] by blast
  define r where "r = (if p \<in> ready_set s then r0 else rdy s)"
  have r: "bm_ok r" "bm_elems r = moved p ?q (ready_set s)"
    using r0 kernel_okD(2) [OF ok] by (simp_all add: r_def moved_def ready_set_def)
  have rdy1: "rdy s1 = rdy s" "\<And>e. waiters e s1 = waiters e s" by (simp_all add: s1 rdy_def waiters_def)
  obtain w where w: "\<And>e. OSTCBEventPtr ?t = Some e \<Longrightarrow> bm_move ?t newprio (waiters e s1) = Some w \<and> bm_ok w \<and>
      bm_elems w = moved p ?q (wait_set e s)"
  proof (cases "OSTCBEventPtr ?t")
    case (Some e)
    then have pin: "p \<in> bm_elems (waiters e s)" using ev by (simp add: wait_set_def)
    obtain w where "bm_move ?t newprio (waiters e s) = Some w" "bm_ok w" "bm_elems w = insert ?q (bm_elems (waiters e s) - {p})"
      using bm_move_spec [OF kernel_okD(3) [OF ok] mk p20(1) q(1)] by blast
    then show thesis using that [of w] Some pin rdy1 by (simp add: moved_def wait_set_def)
  qed (use that in simp)
  define s2 where "s2 = (case OSTCBEventPtr ?t of None \<Rightarrow> set_rdy r s1 | Some e \<Rightarrow> set_waiters e w (set_rdy r s1))"
  define s3 where "s3 = set_tcb i (with_prio newprio) s2"
  have stay: "moved p ?q (wait_set e s) = wait_set e s" if "OSTCBEventPtr ?t \<noteq> Some e" for e
    using task_okD(5) [OF tok, of e] that by (auto simp: moved_def)
  have sets: "ready_set s3 = moved p ?q (ready_set s)" "wait_set e s3 = moved p ?q (wait_set e s)"
    "bm_ok (rdy s3)" "bm_ok (waiters e s3)" for e
    using r w stay rdy1 kernel_okD(3) [OF ok, of e]
    by (auto simp: s3_def s2_def ready_set_def wait_set_def split: option.split)
  have fr: "OSTCBPrioTbl s3 = OSTCBPrioTbl s1" "TCB s3 = (TCB s)(i := with_prio newprio ?t)"
    "OSEventType (ECB s3 e) = OSEventType (ECB s e)" for e
    by (simp_all add: s3_def s2_def s1 set_tcb_def set_rdy_def set_waiters_def set_event_def split: option.split)
  have "kernel_ok s3"
    by (rule kernel_ok_move [OF ok at p20(2) q(1) pq none _ tn fr(2) refl sets(3,4) fr(3) sets(1,2)]) (simp add: fr s1)
  then show ?thesis using sets fr r0(1) w rdy1
    by (intro exI [of _ r] exI [of _ w]) (simp add: Let_def r_def flip: s2_def s3_def)
qed

text \<open>C32: Let the event pointer of a task be null, or name an event in whose wait list the task really is (it may name one
  from which a post has just taken the task; that case is the last theorem of this theory). Then \<open>OSTaskChangePrio\<close> to a free
  priority moves the task to the new priority in the priority table, in the ready list and in the wait list it is in, keeps
  the kernel consistent, changes nothing for any other task and lets the highest priority ready task run.\<close>

theorem change_prio_moves:
  assumes ok: "kernel_ok s" and cur: "cur_ok s" and at: "task_at s (unat oldprio) i" "unat oldprio < 20"
    and new: "unat newprio < 20" "OSTCBPrioTbl s ! unat newprio = TCB_NULL"
    and ev: "\<forall>e. OSTCBEventPtr (TCB s i) = Some e \<longrightarrow> unat oldprio \<in> wait_set e s"
    and lv: "OSRunning s = OS_TRUE" "OSIntNesting s = 0" "OSLockNesting s = 0"
  shows "\<exists>s'. OSTaskChangePrio oldprio newprio s = Some (OS_ERR_NONE, s') \<and> kernel_ok s' \<and> highest_runs s' \<and>
     task_at s' (unat newprio) i \<and> (\<forall>j. \<not> task_at s' (unat oldprio) j) \<and>
     (\<forall>r. r \<noteq> unat oldprio \<and> r \<noteq> unat newprio \<longrightarrow> (\<forall>j. task_at s' r j = task_at s r j)) \<and>
     ready_set s' = moved (unat oldprio) (unat newprio) (ready_set s) \<and>
     (\<forall>e. wait_set e s' = moved (unat oldprio) (unat newprio) (wait_set e s))"
proof -
  let ?p = "unat oldprio" and ?q = "unat newprio" and ?t = "TCB s i"
  have p20: "?p \<le> 20" using at(2) by simp
  have tok: "task_ok s ?p ?t" using ok at(1) by (rule kernel_okD(4))
  define s1 where "s1 = s\<lparr> OSTCBPrioTbl := (OSTCBPrioTbl s)[?p := TCB_NULL, ?q := TCB_AT i] \<rparr>"
  obtain r w where r: "if ?p \<in> ready_set s then bm_move ?t newprio (rdy s1) = Some r else r = rdy s"
    and w: "\<forall>e. OSTCBEventPtr ?t = Some e \<longrightarrow> bm_move ?t newprio (waiters e s1) = Some w"
    and rest: "let s2 = (case OSTCBEventPtr ?t of None \<Rightarrow> set_rdy r s1 | Some e \<Rightarrow> set_waiters e w (set_rdy r s1));
         s3 = set_tcb i (with_prio newprio) s2 in
     kernel_ok s3 \<and> ready_set s3 = moved ?p ?q (ready_set s) \<and> (\<forall>e. wait_set e s3 = moved ?p ?q (wait_set e s)) \<and>
     OSTCBPrioTbl s3 = OSTCBPrioTbl s1"
    using change_prio_tables [OF ok at new ev s1_def] by blast
  define s2 where "s2 = (case OSTCBEventPtr ?t of None \<Rightarrow> set_rdy r s1 | Some e \<Rightarrow> set_waiters e w (set_rdy r s1))"
  define s3 where "s3 = set_tcb i (with_prio newprio) s2"
  have s3: "kernel_ok s3" "ready_set s3 = moved ?p ?q (ready_set s)" "\<And>e. wait_set e s3 = moved ?p ?q (wait_set e s)"
    "OSTCBPrioTbl s3 = OSTCBPrioTbl s1" using rest by (simp_all add: Let_def flip: s2_def s3_def)
  obtain row where row: "array_get (OSRdyTbl s) (unat (OSTCBY ?t)) = Some row" "row AND OSTCBBitX ?t \<noteq> 0 \<longleftrightarrow> ?p \<in> ready_set s"
    using row_test [OF kernel_okD(2) [OF ok] task_okD(1) [OF tok] p20] by blast
  have len: "length (OSTCBPrioTbl s) = 21" using ok by (rule kernel_okD(1))
  have pq: "?q \<noteq> ?p" using at new by (auto simp: task_at_def)
  have t1: "TCB s1 = TCB s" "OSRdyTbl s1 = OSRdyTbl s" by (simp_all add: s1_def)
  have fr: "OSRunning s3 = OS_TRUE" "OSIntNesting s3 = 0" "OSLockNesting s3 = 0" "OSPrioCur s3 = OSPrioCur s" "OSTCBCur s3 = OSTCBCur s"
    using lv by (simp_all add: s3_def s2_def s1_def set_tcb_def set_rdy_def set_waiters_def set_event_def split: option.split)
  have at3: "task_at s3 r j \<longleftrightarrow> (if r = ?q then j = i else r \<noteq> ?p \<and> task_at s r j)" for r j
    using p20 new(1) pq by (auto simp: task_at_def s3(4) s1_def len nth_list_update)
  have none: "?q \<notin> ready_set s" using no_task_no_member(1) [OF ok, of ?q] new(2) by simp
  have "cur_ok s3" if "unat (OSPrioCur s3) = Min (ready_set s3)"
  proof -
    have "finite (ready_set s3)" "ready_set s3 \<noteq> {}"
      using bm.finite_law [OF kernel_okD(2) [OF s3(1)]] ready_not_empty [OF s3(1)] by (simp_all add: ready_set_def)
    then have m: "unat (OSPrioCur s3) \<in> ready_set s3" using that Min_in by simp
    obtain c where c: "OSTCBCur s = TCB_AT c" "task_at s (unat (OSPrioCur s)) c" using cur by (auto simp: cur_ok_def)
    have "unat (OSPrioCur s) \<noteq> ?q" using c(2) new(2) by (auto simp: task_at_def)
    then show ?thesis using m c none by (simp add: cur_ok_def fr at3 s3(2) moved_iff)
  qed
  then obtain s' where s': "OS_Sched s3 = Some s'" "switch_frame s3 s'" "kernel_ok s'" "highest_runs s'"
    using OS_Sched_highest [OF s3(1) _ fr(2,3)] by blast
  have "OSTaskChangePrio oldprio newprio s = Some (OS_ERR_NONE, s')"
  proof -
    have a: "array_get (OSTCBPrioTbl s) ?q = Some TCB_NULL" "array_get (OSTCBPrioTbl s) ?p = Some (TCB_AT i)"
      using at new len p20 by (simp_all add: task_at_def)
    have b: "set_prio_tbl oldprio TCB_NULL s = Some (s\<lparr> OSTCBPrioTbl := (OSTCBPrioTbl s)[?p := TCB_NULL] \<rparr>)"
      "set_prio_tbl newprio (TCB_AT i) (s\<lparr> OSTCBPrioTbl := (OSTCBPrioTbl s)[?p := TCB_NULL] \<rparr>) = Some s1"
      using p20 new(1) len by (simp_all add: set_prio_tbl_def s1_def)
    have c: "\<not> (20 \<le> ?p \<and> oldprio \<noteq> OS_PRIO_SELF)" "\<not> 20 \<le> ?q" "oldprio \<noteq> OS_PRIO_SELF" "OSTCBEventMultiPtr ?t = None"
      using at(2) new(1) prio_self(1) task_okD(3) [OF tok] by auto
    have rs: "waiters e (set_rdy r s1) = waiters e s1" "set_rdy (rdy s) s1 = s1" "rdy s1 = rdy s" for e
      by (simp_all add: set_rdy_def rdy_def waiters_def s1_def)
    note fin = fr(1) [unfolded s3_def s2_def] s'(1) [unfolded s3_def s2_def]
    show ?thesis
    proof (cases "?p \<in> ready_set s"; cases "OSTCBEventPtr ?t")
    qed (use c row r w fin in \<open>simp_all add: OSTaskChangePrio_def a b named_prio_def t1 rs Let_def\<close>)
  qed
  moreover have "task_at s' = task_at s3" by (simp add: fun_eq_iff switch_frame_sets(3) [OF s'(2)])
  ultimately show ?thesis
    using s' s3(2,3) pq at3 by (intro exI [of _ s']) (simp add: switch_frame_sets [OF s'(2)])
qed

theorem change_prio_moves_witness:
  "\<exists>s'. OSTaskChangePrio 5 8 example_os = Some (OS_ERR_NONE, s') \<and> wait_set 0 s' = {8} \<and> task_at s' 8 1"
proof -
  have "task_at example_os (unat (5 :: INT8U)) 1" by (simp add: example_task_at)
  moreover have "OSTCBPrioTbl example_os ! unat (8 :: INT8U) = TCB_NULL" by (simp add: example_os_def nth_append)
  moreover have "\<forall>e. OSTCBEventPtr (TCB example_os 1) = Some e \<longrightarrow> unat (5 :: INT8U) \<in> wait_set e example_os"
    by (simp add: example_tcbs_def example_tcb_def example_sets)
  moreover have "moved 5 8 (wait_set 0 example_os) = {8}" by (simp add: example_sets moved_def)
  ultimately show ?thesis
    using change_prio_moves [OF example_kernel_ok example_cur_ok, of 5 1 8] by auto
qed

text \<open>The scheduler also returns, and only switches tasks, in a state whose wait lists are not right.\<close>

lemma OS_Sched_frame:
  assumes "bm_ok (rdy s)" "length (OSTCBPrioTbl s) = 21" "p \<in> ready_set s" "\<forall>p\<in>ready_set s. \<exists>i. task_at s p i"
  obtains s' where "OS_Sched s = Some s'" "switch_frame s s'"
proof -
  have ne: "bm_elems (rdy s) \<noteq> {}" and fin: "finite (bm_elems (rdy s))"
    using assms(3) bm.finite_law [OF assms(1)] by (auto simp: ready_set_def)
  obtain y h where h: "bm_highest (rdy s) = Some (y, h)" "unat h = Min (bm_elems (rdy s))"
    using bm_highest_spec [OF assms(1) ne] by blast
  then obtain i where "task_at s (unat h) i" using assms(4) Min_in [OF fin ne] by (auto simp: ready_set_def)
  then have "array_get (OSTCBPrioTbl s) (unat h) = Some (TCB_AT i)" using assms(2) by (simp add: task_at_def)
  then have "\<exists>s'. OS_Sched s = Some s' \<and> switch_frame s s'" using h(1)
    by (simp add: OS_Sched_def OS_SchedNew_def switch_to_high_def switch_frame_def OSCtxSw_def set_tcb_def)
  then show thesis using that by blast
qed

text \<open>A post makes the waiting task ready but leaves its event pointer set until the task runs again: in this state,
  nobody waits for semaphore \<open>e\<close>, but the pointer of the task of priority \<open>p\<close> still names it.\<close>

definition woken_from :: "nat \<Rightarrow> nat \<Rightarrow> nat \<Rightarrow> os_state \<Rightarrow> bool" where
  "woken_from e p i s \<longleftrightarrow> task_at s p i \<and> p < 20 \<and> p \<in> ready_set s \<and> OSTCBEventPtr (TCB s i) = Some e \<and>
     OSEventType (ECB s e) = OS_EVENT_TYPE_SEM \<and> wait_set e s = {}"

text \<open>A post to a waiting task that is ready already changes nothing but the wait list.\<close>

lemma post_to_ready:
  assumes bm: "bm_ok (rdy s)" "bm_ok (waiters e s)" and w: "wait_set e s = {p}" and ty: "OSEventType (ECB s e) = OS_EVENT_TYPE_SEM"
    and t: "OSTCBEventMultiPtr (TCB s i) = None" "OSTCBStat (TCB s i) = 0" "masks_ok p (TCB s i)"
    and len: "length (OSTCBPrioTbl s) = 21" and at: "task_at s p i" "p \<in> ready_set s" "\<forall>k\<in>ready_set s. \<exists>j. task_at s k j"
  obtains s' where "OSSemPost (Some e) s = Some (OS_ERR_NONE, s')" "OSEventCnt (ECB s' e) = OSEventCnt (ECB s e)"
    "wait_set e s' = {}" "ready_set s' = ready_set s"
proof -
  have p: "p \<le> 20" using at(1) by (simp add: task_at_def)
  obtain h where h: "bm_highest (waiters e s) = Some (prio_y h, h)" "unat h = p"
    using bm_highest_spec [OF bm(2)] w by (auto simp: wait_set_def)
  have "h = OSTCBPrio (TCB s i)" using t(3) h(2) by (simp add: masks_ok_def word_unat_eq_iff)
  then have mk: "OSTCBY (TCB s i) = prio_y h" using t(3) by (simp add: masks_ok_def)
  obtain r where r: "bm_set (prio_y h) (OSTCBBitX (TCB s i)) (OSTCBBitY (TCB s i)) (rdy s) = Some r" "bm_ok r"
    "bm_elems r = insert p (bm_elems (rdy s))" using masks_set [OF bm(1) t(3) p] unfolding mk .
  obtain b where b: "bm_clear (prio_y h) (OSTCBBitX (TCB s i)) (OSTCBBitY (TCB s i)) (waiters e s) = Some b" "bm_ok b"
    "bm_elems b = {}" using masks_clear [OF bm(2) t(3) p] w unfolding mk by (auto simp: wait_set_def)
  define s1 where "s1 = set_waiters e b (set_rdy r (set_tcb i (\<lambda>t. t\<lparr> OSTCBDly := 0, OSTCBMsg := 0,
      OSTCBStat := OSTCBStat t AND NOT OS_STAT_SEM, OSTCBStatPend := OS_STAT_PEND_OK \<rparr>) s))"
  have s1: "rdy s1 = r" "waiters e s1 = b" "OSTCBPrioTbl s1 = OSTCBPrioTbl s" "OSEventCnt (ECB s1 e) = OSEventCnt (ECB s e)"
    by (simp_all add: s1_def set_tcb_def set_waiters_def set_event_def set_rdy_def rdy_def waiters_def)
  have rs: "ready_set s1 = ready_set s" using r(3) at(2) by (auto simp: ready_set_def s1(1))
  have "OSEventGrp (ECB s e) \<noteq> 0"
    using bm_elems_empty_iff bm(2) w by (fastforce simp: wait_set_def waiters_def)
  moreover have "array_get (OSTCBPrioTbl s) (unat h) = Some (TCB_AT i)" using at(1) len h(2) by (simp add: task_at_def)
  moreover have "OS_EventTaskRdy e 0 OS_STAT_SEM OS_STAT_PEND_OK s = Some (h, s1)"
    using calculation t h r b mk
    by (simp add: OS_EventTaskRdy_def OS_EventTaskRemove_def Let_def s1_def)
  moreover obtain s' where s': "OS_Sched s1 = Some s'" "switch_frame s1 s'"
    using OS_Sched_frame [of s1 p] r(2) len at(2,3) by (auto simp: s1 rs task_at_def)
  ultimately have "OSSemPost (Some e) s = Some (OS_ERR_NONE, s')" using ty by (simp add: OSSemPost_def)
  then show thesis using that b(3) by (simp add: switch_frame_sets [OF s'(2)] s1 rs wait_set_def)
qed

text \<open>C33: A lost wake-up. Take a task that a post on a semaphore has made ready and that has not run since, so that its event
  pointer still names the semaphore, and let nobody wait for the semaphore. If the priority of the task is changed now,
  \<open>OSTaskChangePrio\<close> takes it for waiting and enters it into the wait list of the semaphore, although it is ready. The
  next post goes to that task: it reports success, empties the wait list and changes neither the ready list nor the
  count, so that its unit is lost.\<close>

theorem change_prio_loses_post:
  assumes ok: "kernel_ok s" and w: "woken_from e (unat oldprio) i s"
    and new: "unat newprio < 20" "OSTCBPrioTbl s ! unat newprio = TCB_NULL"
  shows "\<exists>s1 s2. OSTaskChangePrio oldprio newprio s = Some (OS_ERR_NONE, s1) \<and> task_at s1 (unat newprio) i \<and>
     unat newprio \<in> ready_set s1 \<and> wait_set e s1 = {unat newprio} \<and> OSEventCnt (ECB s1 e) = OSEventCnt (ECB s e) \<and>
     OSSemPost (Some e) s1 = Some (OS_ERR_NONE, s2) \<and> OSEventCnt (ECB s2 e) = OSEventCnt (ECB s e) \<and>
     wait_set e s2 = {} \<and> ready_set s2 = ready_set s1"
proof -
  let ?p = "unat oldprio" and ?q = "unat newprio" and ?t = "TCB s i"
  note w = w [unfolded woken_from_def]
  have tok: "task_ok s ?p ?t" using ok w by (blast intro: kernel_okD(4))
  note mk = task_okD(1) [OF tok] and multi = task_okD(3) [OF tok]
  have len: "length (OSTCBPrioTbl s) = 21" using ok by (rule kernel_okD(1))
  have pq: "?q \<noteq> ?p" "?p \<le> 20" using w new by (auto simp: task_at_def)
  define s1 where "s1 = s\<lparr> OSTCBPrioTbl := (OSTCBPrioTbl s)[?p := TCB_NULL, ?q := TCB_AT i] \<rparr>"
  obtain r where r: "bm_move ?t newprio (rdy s) = Some r" "bm_ok r" "bm_elems r = insert ?q (ready_set s - {?p})"
    using bm_move_spec [OF kernel_okD(2) [OF ok] mk pq(2) new(1)] unfolding ready_set_def by blast
  obtain b where b: "bm_move ?t newprio (waiters e s) = Some b" "bm_ok b" "bm_elems b = {?q}"
    using bm_move_spec [OF kernel_okD(3) [OF ok, of e] mk pq(2) new(1)] w by (auto simp: wait_set_def)
  define s3 where "s3 = set_tcb i (with_prio newprio) (set_waiters e b (set_rdy r s1))"
  have s3: "rdy s3 = r" "waiters e s3 = b" "TCB s3 i = with_prio newprio ?t" "OSTCBPrioTbl s3 = OSTCBPrioTbl s1"
    "OSRunning s3 = OSRunning s" "OSEventType (ECB s3 e) = OS_EVENT_TYPE_SEM" "OSEventCnt (ECB s3 e) = OSEventCnt (ECB s e)"
    using w by (simp_all add: s3_def s1_def set_tcb_def set_waiters_def set_event_def set_rdy_def rdy_def waiters_def)
  have at3: "task_at s3 k j \<longleftrightarrow> (if k = ?q then j = i else k \<noteq> ?p \<and> task_at s k j)" for k j
    using pq new(1) by (auto simp: task_at_def s3(4) s1_def len nth_list_update)
  have rs: "ready_set s3 = insert ?q (ready_set s - {?p})" using r(3) by (simp add: ready_set_def s3(1))
  have tasks: "\<forall>k\<in>ready_set s3. \<exists>j. task_at s3 k j" using kernel_okD(5) [OF ok] by (auto simp: rs at3)
  have len3: "length (OSTCBPrioTbl s3) = 21" by (simp add: s3(4) s1_def len)
  obtain s4 where s4: "(if OSRunning s3 = OS_TRUE then OS_Sched s3 else Some s3) = Some s4" "switch_frame s3 s4"
  proof (cases "OSRunning s3 = OS_TRUE")
    case True
    have "bm_ok (rdy s3)" "?q \<in> ready_set s3" using r(2) by (simp_all add: s3(1) rs)
    from OS_Sched_frame [OF this(1) len3 this(2) tasks] show thesis using that True by auto
  next
    case False
    then show thesis using that [of s3] by (simp add: switch_frame_def)
  qed
  have change: "OSTaskChangePrio oldprio newprio s = Some (OS_ERR_NONE, s4)"
  proof -
    have a: "array_get (OSTCBPrioTbl s) ?q = Some TCB_NULL" "array_get (OSTCBPrioTbl s) ?p = Some (TCB_AT i)"
      using w new len pq by (simp_all add: task_at_def)
    have c: "set_prio_tbl oldprio TCB_NULL s = Some (s\<lparr> OSTCBPrioTbl := (OSTCBPrioTbl s)[?p := TCB_NULL] \<rparr>)"
      "set_prio_tbl newprio (TCB_AT i) (s\<lparr> OSTCBPrioTbl := (OSTCBPrioTbl s)[?p := TCB_NULL] \<rparr>) = Some s1"
      using pq new(1) len by (simp_all add: set_prio_tbl_def s1_def)
    have d: "\<not> (20 \<le> ?p \<and> oldprio \<noteq> OS_PRIO_SELF)" "\<not> 20 \<le> ?q" "oldprio \<noteq> OS_PRIO_SELF"
      using w new(1) prio_self(1) by auto
    obtain row where row: "array_get (OSRdyTbl s) (unat (OSTCBY ?t)) = Some row" "row AND OSTCBBitX ?t \<noteq> 0"
      using row_test [OF kernel_okD(2) [OF ok] mk pq(2)] w by auto
    have k: "TCB s1 = TCB s" "OSRdyTbl s1 = OSRdyTbl s" "rdy s1 = rdy s" "waiters e s1 = waiters e s"
      by (simp_all add: s1_def rdy_def waiters_def)
    show ?thesis using w multi d s4(1) [unfolded s3_def]
      by (simp add: OSTaskChangePrio_def a named_prio_def c k row r b Let_def)
  qed
  have ready: "runnable ?t" using task_okD(4) [OF tok] w by blast
  obtain n where t4: "TCB s4 i = (with_prio newprio ?t)\<lparr> OSTCBCtxSwCtr := n \<rparr>"
    using s4(2) unfolding switch_frame_def s3(3) [symmetric] by blast
  obtain s2 where "OSSemPost (Some e) s4 = Some (OS_ERR_NONE, s2)" "OSEventCnt (ECB s2 e) = OSEventCnt (ECB s4 e)"
    "wait_set e s2 = {}" "ready_set s2 = ready_set s4"
  proof (rule post_to_ready)
    show "bm_ok (rdy s4)" "bm_ok (waiters e s4)" "wait_set e s4 = {?q}" "OSEventType (ECB s4 e) = OS_EVENT_TYPE_SEM"
      using r(2) b(2,3) s3 by (simp_all add: switch_frame_sets [OF s4(2)] wait_set_def)
    show "OSTCBEventMultiPtr (TCB s4 i) = None" "OSTCBStat (TCB s4 i) = 0" "masks_ok ?q (TCB s4 i)"
      using t4 multi ready by (simp_all add: masks_ok_def with_prio_def runnable_def)
    show "length (OSTCBPrioTbl s4) = 21" "task_at s4 ?q i" "?q \<in> ready_set s4" "\<forall>k\<in>ready_set s4. \<exists>j. task_at s4 k j" 
      using len3 tasks by (simp_all add: switch_frame_sets [OF s4(2)] at3 rs)
  qed
  then show ?thesis using change s3(7) b(3)
    by (intro exI [of _ s4] exI [of _ s2]) (simp add: switch_frame_sets [OF s4(2)] at3 rs wait_set_def s3(2))
qed

theorem change_prio_loses_post_witness:
  "\<exists>h s s1 s2. OS_EventTaskRdy 0 0 OS_STAT_SEM OS_STAT_PEND_OK example_os = Some (h, s) \<and>
     OSTaskChangePrio 5 8 s = Some (OS_ERR_NONE, s1) \<and> 8 \<in> ready_set s1 \<and> wait_set 0 s1 = {8} \<and>
     OSSemPost (Some 0) s1 = Some (OS_ERR_NONE, s2) \<and> wait_set 0 s2 = {} \<and> OSEventCnt (ECB s2 0) = OSEventCnt (ECB s 0)"
proof -
  have w: "wait_set 0 example_os = {5}" "Min (wait_set 0 example_os) = 5" by (simp_all add: example_sets)
  have ne: "wait_set 0 example_os \<noteq> {}" "event_mask (OSEventType (ECB example_os 0)) = OS_STAT_SEM" "OS_STAT_SEM AND 8 = (0 :: INT8U)"
    by (simp_all add: w(1) example_ecbs_def event_mask_def)
  obtain h i s where r: "OS_EventTaskRdy 0 0 OS_STAT_SEM OS_STAT_PEND_OK example_os = Some (h, s)"
      "readied 0 0 OS_STAT_SEM OS_STAT_PEND_OK example_os (unat h) i s" "kernel_ok s"
    by (rule OS_EventTaskRdy_ok [OF example_kernel_ok ne])
  note d = r(2) [unfolded readied_def w(2)]
  have h: "unat h = 5" using d by blast
  note d = d [unfolded h]
  have i: "i = 1" using d by (simp add: example_task_at)
  have "sched_frame example_os s" using d by blast
  note fr = sched_frame_tbl [OF this] sched_frame_event [OF this, of 0]
  have "woken_from 0 (unat (5 :: INT8U)) 1 s" using d fr i
    by (simp add: woken_from_def w(1) example_tcbs_def example_tcb_def suspended_def woken_def example_ecbs_def task_at_def)
  moreover have "OSTCBPrioTbl s ! unat (8 :: INT8U) = TCB_NULL" using fr by (simp add: example_os_def nth_append)
  ultimately show ?thesis using change_prio_loses_post [OF r(3), of 0 5 1 8] r(1) by auto
qed

end
