(* ===== verification/Os_Mutex.thy ===== *)
theory Os_Mutex imports Task_Prio begin

text \<open>
  \<open>os_mutex.c\<close>: mutual exclusion semaphores with priority inheritance. \<open>OSEventCnt\<close> holds the
  inheritance priority in its upper byte and the original priority of the owner, or \<open>0xFF\<close>, in the
  lower one; \<open>OSEventPtr\<close> points to the owner. \<open>OSMutexPend\<close> is cut at the call of the scheduler. While
  an owner runs at the inheritance priority it occupies two entries of \<open>OSTCBPrioTbl\<close>; the invariant
  holds of the state with the entry of its original priority hidden, and the lemmas follow a mutex
  from the raise to the post that undoes it.
\<close>

section \<open>Operations\<close>

definition OS_MUTEX_KEEP_LOWER_8 :: INT16U where [simp, const_defs]: "OS_MUTEX_KEEP_LOWER_8 = 0x00FF"
definition OS_MUTEX_KEEP_UPPER_8 :: INT16U where [simp, const_defs]: "OS_MUTEX_KEEP_UPPER_8 = 0xFF00"
definition OS_MUTEX_AVAILABLE :: INT16U where [simp, const_defs]: "OS_MUTEX_AVAILABLE = 0x00FF"

definition mutex_pip :: "OS_EVENT \<Rightarrow> INT8U" where
  "mutex_pip ev = ucast (drop_bit 8 (OSEventCnt ev))"

definition mutex_prio :: "OS_EVENT \<Rightarrow> INT8U" where
  "mutex_prio ev = ucast (OSEventCnt ev AND OS_MUTEX_KEEP_LOWER_8)"

text \<open>The task \<open>i\<close> becomes the owner of an available mutex.\<close>

definition mutex_take :: "nat \<Rightarrow> nat \<Rightarrow> os_state \<Rightarrow> INT8U \<times> os_state" where
  "mutex_take e i s =
     (let pip = mutex_pip (ECB s e);
          s = set_event e (\<lambda>ev. ev\<lparr> OSEventCnt := OSEventCnt ev AND OS_MUTEX_KEEP_UPPER_8 \<rparr>) s;
          s = set_event e (\<lambda>ev. ev\<lparr> OSEventCnt := OSEventCnt ev OR ucast (OSTCBPrio (TCB s i)) \<rparr>) s;
          s = set_event e (\<lambda>ev. ev\<lparr> OSEventPtr := Tcb_Ptr (TCB_AT i) \<rparr>) s in
      if OSTCBPrio (TCB s i) \<le> pip then (OS_ERR_PIP_LOWER, s) else (OS_ERR_NONE, s))"

definition OSMutexAccept ::
  "event_ptr \<Rightarrow> INT8U option \<Rightarrow> os_state \<Rightarrow> (bool \<times> INT8U option \<times> os_state) option" where
  "OSMutexAccept pevent perr s =
     (if perr = None then Some (False, perr, s)
      else case pevent of None \<Rightarrow> Some (False, Some OS_ERR_PEVENT_NULL, s)
      | Some e \<Rightarrow>
          if OSEventType (ECB s e) \<noteq> OS_EVENT_TYPE_MUTEX then Some (False, Some OS_ERR_EVENT_TYPE, s)
          else if OSIntNesting s > 0 then Some (False, Some OS_ERR_PEND_ISR, s)
          else if OSEventCnt (ECB s e) AND OS_MUTEX_KEEP_LOWER_8 = OS_MUTEX_AVAILABLE then do {
            i \<leftarrow> tcb_index (OSTCBCur s);
            let (err, s) = mutex_take e i s;
            Some (True, Some err, s)
          }
          else Some (False, Some OS_ERR_NONE, s))"

definition OSMutexCreate ::
  "INT8U \<Rightarrow> INT8U option \<Rightarrow> os_state \<Rightarrow> (event_ptr \<times> INT8U option \<times> os_state) option" where
  "OSMutexCreate prio perr s =
     (if perr = None then Some (None, perr, s)
      else if unat prio \<ge> OS_LOWEST_PRIO then Some (None, Some OS_ERR_PRIO_INVALID, s)
      else if OSIntNesting s > 0 then Some (None, Some OS_ERR_CREATE_ISR, s)
      else do {
        p \<leftarrow> array_get (OSTCBPrioTbl s) (unat prio);
        if p \<noteq> TCB_NULL then Some (None, Some OS_ERR_PRIO_EXIST, s)
        else do {
          s \<leftarrow> set_prio_tbl prio TCB_RESERVED s;
          (pevent, s) \<leftarrow> alloc_event s;
          (case pevent of
             None \<Rightarrow> do {
               s \<leftarrow> set_prio_tbl prio TCB_NULL s;
               Some (None, Some OS_ERR_PEVENT_NULL, s)
             }
           | Some e \<Rightarrow>
               let s = set_event e (\<lambda>ev. event_name_unknown (ev\<lparr> OSEventType := OS_EVENT_TYPE_MUTEX,
                         OSEventCnt := push_bit 8 (ucast prio) OR OS_MUTEX_AVAILABLE,
                         OSEventPtr := Tcb_Ptr TCB_NULL \<rparr>)) s in
               Some (Some e, Some OS_ERR_NONE, OS_EventWaitListInit e s))
        }
      })"

text \<open>The masks as \<open>OSMutex_RdyAtPrio\<close> computes them, with the row masked to three bits.\<close>

definition at_prio :: "INT8U \<Rightarrow> OS_TCB \<Rightarrow> OS_TCB" where
  "at_prio prio t =
     (let y = drop_bit 3 prio AND 7; x = prio AND 7 in
      t\<lparr> OSTCBPrio := prio, OSTCBY := y, OSTCBX := x, OSTCBBitY := push_bit (unat y) 1, OSTCBBitX := push_bit (unat x) 1 \<rparr>)"

definition OSMutex_RdyAtPrio :: "nat \<Rightarrow> INT8U \<Rightarrow> os_state \<Rightarrow> os_state option" where
  "OSMutex_RdyAtPrio i prio s = do {
     let t = TCB s i;
     b \<leftarrow> bm_clear (OSTCBY t) (OSTCBBitX t) (OSTCBBitY t) (rdy s);
     let s = set_rdy b s;
     let s = set_tcb i (at_prio prio) s;
     let t = TCB s i;
     b \<leftarrow> bm_set (OSTCBY t) (OSTCBBitX t) (OSTCBBitY t) (rdy s);
     set_prio_tbl prio (TCB_AT i) (set_rdy b s)
   }"

text \<open>Returning the block of a mutex: its inheritance priority is free again.\<close>

definition free_mutex :: "nat \<Rightarrow> os_state \<Rightarrow> os_state option" where
  "free_mutex e s = do {
     s \<leftarrow> set_prio_tbl (mutex_pip (ECB s e)) TCB_NULL (set_event e event_name_unknown s);
     Some ((set_event e (\<lambda>ev. ev\<lparr> OSEventType := OS_EVENT_TYPE_UNUSED, OSEventPtr := Event_Ptr (OSEventFreeList s),
              OSEventCnt := 0 \<rparr>) s)\<lparr> OSEventFreeList := Some e \<rparr>)
   }"

definition OSMutexDel ::
  "event_ptr \<Rightarrow> INT8U \<Rightarrow> INT8U option \<Rightarrow> os_state \<Rightarrow> (event_ptr \<times> INT8U option \<times> os_state) option" where
  "OSMutexDel pevent opt perr s =
     (if perr = None then Some (pevent, perr, s)
      else case pevent of None \<Rightarrow> Some (pevent, Some OS_ERR_PEVENT_NULL, s)
      | Some e \<Rightarrow>
          if OSEventType (ECB s e) \<noteq> OS_EVENT_TYPE_MUTEX then Some (pevent, Some OS_ERR_EVENT_TYPE, s)
          else if OSIntNesting s > 0 then Some (pevent, Some OS_ERR_DEL_ISR, s)
          else
            let tasks_waiting = (OSEventGrp (ECB s e) \<noteq> 0) in
            if opt = OS_DEL_NO_PEND then
              if \<not> tasks_waiting then do {
                s \<leftarrow> free_mutex e s;
                Some (None, Some OS_ERR_NONE, s)
              } else Some (pevent, Some OS_ERR_TASK_WAITING, s)
            else if opt = OS_DEL_ALWAYS then do {
              let pip = mutex_pip (ECB s e);
              let prio = mutex_prio (ECB s e);
              ptcb \<leftarrow> (case OSEventPtr (ECB s e) of Tcb_Ptr p \<Rightarrow> Some p | _ \<Rightarrow> None);
              s \<leftarrow> (if ptcb \<noteq> TCB_NULL then do {
                      j \<leftarrow> tcb_index ptcb;
                      if OSTCBPrio (TCB s j) = pip then OSMutex_RdyAtPrio j prio s else Some s
                    } else Some s);
              (n, s) \<leftarrow> ready_all e 0 OS_STAT_MUTEX OS_STAT_PEND_OK 0 s;
              s \<leftarrow> free_mutex e s;
              s \<leftarrow> (if tasks_waiting then OS_Sched s else Some s);
              Some (None, Some OS_ERR_NONE, s)
            }
            else Some (pevent, Some OS_ERR_INVALID_OPT, s))"

text \<open>
  The priority of the owner \<open>j\<close> is raised to the inheritance priority, in the ready list or in the
  wait list of the event it waits for.
\<close>

definition promote_owner :: "nat \<Rightarrow> INT8U \<Rightarrow> os_state \<Rightarrow> os_state option" where
  "promote_owner j pip s = do {
     let t = TCB s j;
     row \<leftarrow> array_get (OSRdyTbl s) (unat (OSTCBY t));
     let is_rdy = (row AND OSTCBBitX t \<noteq> 0);
     s \<leftarrow> (if is_rdy then do {
             b \<leftarrow> bm_clear (OSTCBY t) (OSTCBBitX t) (OSTCBBitY t) (rdy s);
             Some (set_rdy b s)
           } else case OSTCBEventPtr t of
             Some e2 \<Rightarrow> do {
               b \<leftarrow> bm_clear (OSTCBY t) (OSTCBBitX t) (OSTCBBitY t) (waiters e2 s);
               Some (set_waiters e2 b s)
             }
           | None \<Rightarrow> Some s);
     let s = set_tcb j (with_prio pip) s;
     let t = TCB s j;
     s \<leftarrow> (if is_rdy then do {
             b \<leftarrow> bm_set (OSTCBY t) (OSTCBBitX t) (OSTCBBitY t) (rdy s);
             Some (set_rdy b s)
           } else case OSTCBEventPtr t of
             Some e2 \<Rightarrow> do {
               b \<leftarrow> bm_set (OSTCBY t) (OSTCBBitX t) (OSTCBBitY t) (waiters e2 s);
               Some (set_waiters e2 b s)
             }
           | None \<Rightarrow> Some s);
     set_prio_tbl pip (TCB_AT j) s
   }"

definition OSMutexPend_enter ::
  "event_ptr \<Rightarrow> INT16U \<Rightarrow> INT8U option \<Rightarrow> os_state \<Rightarrow> (bool \<times> INT8U option \<times> os_state) option" where
  "OSMutexPend_enter pevent timeout perr s =
     (if perr = None then Some (True, perr, s)
      else case pevent of None \<Rightarrow> Some (True, Some OS_ERR_PEVENT_NULL, s)
      | Some e \<Rightarrow>
          if OSEventType (ECB s e) \<noteq> OS_EVENT_TYPE_MUTEX then Some (True, Some OS_ERR_EVENT_TYPE, s)
          else if OSIntNesting s > 0 then Some (True, Some OS_ERR_PEND_ISR, s)
          else if OSLockNesting s > 0 then Some (True, Some OS_ERR_PEND_LOCKED, s)
          else do {
            let pip = mutex_pip (ECB s e);
            i \<leftarrow> tcb_index (OSTCBCur s);
            if ucast (mutex_prio (ECB s e)) = OS_MUTEX_AVAILABLE then
              let (err, s) = mutex_take e i s in Some (True, Some err, s)
            else do {
              let mprio = mutex_prio (ECB s e);
              j \<leftarrow> (case OSEventPtr (ECB s e) of Tcb_Ptr p \<Rightarrow> tcb_index p | _ \<Rightarrow> None);
              s \<leftarrow> (if OSTCBPrio (TCB s j) > pip then
                      if mprio > OSTCBPrio (TCB s i) then promote_owner j pip s else Some s
                    else Some s);
              let s = set_tcb i (\<lambda>t. t\<lparr> OSTCBStat := OSTCBStat t OR OS_STAT_MUTEX,
                                        OSTCBStatPend := OS_STAT_PEND_OK, OSTCBDly := timeout \<rparr>) s;
              s \<leftarrow> OS_EventTaskWait e s;
              s \<leftarrow> OS_Sched s;
              Some (False, perr, s)
            }
          })"

definition OSMutexPend_resume :: "nat \<Rightarrow> os_state \<Rightarrow> (INT8U \<times> os_state) option" where
  "OSMutexPend_resume e s = do {
     i \<leftarrow> tcb_index (OSTCBCur s);
     (err, s) \<leftarrow>
       (if OSTCBStatPend (TCB s i) = OS_STAT_PEND_OK then Some (OS_ERR_NONE, s)
        else if OSTCBStatPend (TCB s i) = OS_STAT_PEND_ABORT then Some (OS_ERR_PEND_ABORT, s)
        else do { s \<leftarrow> OS_EventTaskRemove i e s; Some (OS_ERR_TIMEOUT, s) });
     Some (err, set_tcb i (\<lambda>t. t\<lparr> OSTCBStat := OS_STAT_RDY, OSTCBStatPend := OS_STAT_PEND_OK,
                                  OSTCBEventPtr := None, OSTCBEventMultiPtr := None \<rparr>) s)
   }"

definition OSMutexPost :: "event_ptr \<Rightarrow> os_state \<Rightarrow> (INT8U \<times> os_state) option" where
  "OSMutexPost pevent s =
     (if OSIntNesting s > 0 then Some (OS_ERR_POST_ISR, s)
      else case pevent of None \<Rightarrow> Some (OS_ERR_PEVENT_NULL, s)
      | Some e \<Rightarrow>
          if OSEventType (ECB s e) \<noteq> OS_EVENT_TYPE_MUTEX then Some (OS_ERR_EVENT_TYPE, s)
          else do {
            let pip = mutex_pip (ECB s e);
            let prio = mutex_prio (ECB s e);
            owner \<leftarrow> (case OSEventPtr (ECB s e) of Tcb_Ptr p \<Rightarrow> Some p | _ \<Rightarrow> None);
            if OSTCBCur s \<noteq> owner then Some (OS_ERR_NOT_MUTEX_OWNER, s)
            else do {
              i \<leftarrow> tcb_index (OSTCBCur s);
              s \<leftarrow> (if OSTCBPrio (TCB s i) = pip then OSMutex_RdyAtPrio i prio s else Some s);
              s \<leftarrow> set_prio_tbl pip TCB_RESERVED s;
              if OSEventGrp (ECB s e) \<noteq> 0 then do {
                (prio, s) \<leftarrow> OS_EventTaskRdy e 0 OS_STAT_MUTEX OS_STAT_PEND_OK s;
                let s = set_event e (\<lambda>ev. ev\<lparr> OSEventCnt := OSEventCnt ev AND OS_MUTEX_KEEP_UPPER_8 \<rparr>) s;
                let s = set_event e (\<lambda>ev. ev\<lparr> OSEventCnt := OSEventCnt ev OR ucast prio \<rparr>) s;
                p \<leftarrow> array_get (OSTCBPrioTbl s) (unat prio);
                let s = set_event e (\<lambda>ev. ev\<lparr> OSEventPtr := Tcb_Ptr p \<rparr>) s;
                s \<leftarrow> OS_Sched s;
                Some (if prio \<le> pip then OS_ERR_PIP_LOWER else OS_ERR_NONE, s)
              }
              else
                Some (OS_ERR_NONE, set_event e (\<lambda>ev. ev\<lparr> OSEventCnt := OSEventCnt ev OR OS_MUTEX_AVAILABLE,
                                                        OSEventPtr := Tcb_Ptr TCB_NULL \<rparr>) s)
            }
          })"

record OS_MUTEX_DATA =
  mutex_data_OSEventTbl :: "INT8U list"
  mutex_data_OSEventGrp :: INT8U
  OSValue :: INT8U
  OSOwnerPrio :: INT8U
  OSMutexPIP :: INT8U

definition OSMutexQuery :: "event_ptr \<Rightarrow> OS_MUTEX_DATA option \<Rightarrow> os_state \<Rightarrow> INT8U \<times> OS_MUTEX_DATA option" where
  "OSMutexQuery pevent p_mutex_data s =
     (if OSIntNesting s > 0 then (OS_ERR_QUERY_ISR, p_mutex_data)
      else case pevent of None \<Rightarrow> (OS_ERR_PEVENT_NULL, p_mutex_data)
      | Some e \<Rightarrow>
          (case p_mutex_data of None \<Rightarrow> (OS_ERR_PDATA_NULL, p_mutex_data)
           | Some d \<Rightarrow>
               if OSEventType (ECB s e) \<noteq> OS_EVENT_TYPE_MUTEX then (OS_ERR_EVENT_TYPE, p_mutex_data)
               else (OS_ERR_NONE, Some (d\<lparr> OSMutexPIP := mutex_pip (ECB s e), OSOwnerPrio := mutex_prio (ECB s e),
                       OSValue := (if mutex_prio (ECB s e) = 0xFF then OS_TRUE else OS_FALSE),
                       mutex_data_OSEventGrp := OSEventGrp (ECB s e), mutex_data_OSEventTbl := OSEventTbl (ECB s e) \<rparr>))))"

section \<open>The two bytes of the counter\<close>

definition owned_cnt :: "INT8U \<Rightarrow> INT8U \<Rightarrow> INT16U" where
  "owned_cnt pip prio = push_bit 8 (ucast pip) OR ucast prio"

lemma bit_255: "bit (255 :: INT16U) n \<longleftrightarrow> n < 8" "bit (255 :: INT8U) n \<longleftrightarrow> n < 8" "bit (255 :: int) n \<longleftrightarrow> n < 8"
  using bit_mask_iff [of 8 n, where ?'a = "16 word"] bit_mask_iff [of 8 n, where ?'a = "8 word"] bit_mask_iff [of 8 n, where ?'a = int]
  by (auto simp: mask_eq_exp_minus_1)

lemma bit_FF00: "bit (0xFF00 :: int) n \<longleftrightarrow> 8 \<le> n \<and> n < 16"
proof -
  have "(0xFF00 :: int) = push_bit 8 255" by simp
  then show ?thesis by (simp only: bit_push_bit_iff bit_255) auto
qed

lemma byte_bound: "bit (p :: INT8U) n \<Longrightarrow> n < 8"
  using bit_imp_le_length [of p n] by simp

lemma cnt_bytes:
  "(ucast (drop_bit 8 (owned_cnt pip prio)) :: INT8U) = pip"
  "(ucast (owned_cnt pip prio AND 0x00FF) :: INT8U) = prio"
  "owned_cnt pip prio AND 0x00FF = ucast prio"
  "(owned_cnt pip prio AND 0xFF00) OR ucast q = owned_cnt pip q"
  "owned_cnt pip prio OR 0x00FF = owned_cnt pip 0xFF"
  "push_bit 8 (ucast pip) OR 0x00FF = owned_cnt pip 0xFF"
  by (rule bit_word_eqI; auto simp: owned_cnt_def bit_simps bit_255 bit_FF00 dest: byte_bound)+

lemma mutex_bytes:
  assumes "OSEventCnt ev = owned_cnt pip prio"
  shows "mutex_pip ev = pip" "mutex_prio ev = prio"
  using assms cnt_bytes(2) [of pip prio] by (simp_all add: mutex_pip_def mutex_prio_def cnt_bytes(1))

section \<open>Raising and restoring the owner\<close>

text \<open>The state with the entry of one priority reserved.\<close>

definition hide :: "INT8U \<Rightarrow> os_state \<Rightarrow> os_state" where
  "hide q s = s\<lparr> OSTCBPrioTbl := (OSTCBPrioTbl s)[unat q := TCB_RESERVED] \<rparr>"

lemma hide_simps [simp]:
  "TCB (hide q s) = TCB s" "ECB (hide q s) = ECB s" "rdy (hide q s) = rdy s" "waiters e (hide q s) = waiters e s"
  "ready_set (hide q s) = ready_set s" "wait_set e (hide q s) = wait_set e s" "OSTCBCur (hide q s) = OSTCBCur s"
  "OSPrioCur (hide q s) = OSPrioCur s" "OSIntNesting (hide q s) = OSIntNesting s" "OSLockNesting (hide q s) = OSLockNesting s"
  "OSTCBPrioTbl (hide q s) = (OSTCBPrioTbl s)[unat q := TCB_RESERVED]"
  by (simp_all add: hide_def rdy_def waiters_def ready_set_def wait_set_def)

text \<open>Everything but the tasks' tables and lists.\<close>

definition prio_frame :: "os_state \<Rightarrow> os_state \<Rightarrow> bool" where
  "prio_frame s s' \<longleftrightarrow> OSTCBCur s' = OSTCBCur s \<and> OSPrioCur s' = OSPrioCur s \<and> OSIntNesting s' = OSIntNesting s \<and>
     OSLockNesting s' = OSLockNesting s \<and> OSRunning s' = OSRunning s \<and>
     (\<forall>e. OSEventType (ECB s' e) = OSEventType (ECB s e) \<and> OSEventCnt (ECB s' e) = OSEventCnt (ECB s e) \<and>
          OSEventPtr (ECB s' e) = OSEventPtr (ECB s e))"

lemma at_prio_with: "unat prio < 64 \<Longrightarrow> at_prio prio t = with_prio prio t"
proof -
  assume "unat prio < 64"
  then have "(drop_bit 3 prio :: INT8U) < 8" by (simp add: word_less_nat_alt unat_drop_bit_eq drop_bit_eq_div unat_div)
  then have "drop_bit 3 prio AND 7 = drop_bit 3 prio" using less_mask_eq [of "drop_bit 3 prio :: INT8U" 3] by (simp add: mask_eq_exp_minus_1)
  then show ?thesis by (simp add: at_prio_def with_prio_def prio_y_def prio_x_def prio_bity_def prio_bitx_def Let_def)
qed

lemma prio_tbl_simps [simp]:
  "OSTCBPrioTbl (set_rdy b s) = OSTCBPrioTbl s" "OSTCBPrioTbl (set_tcb i f s) = OSTCBPrioTbl s"
  "OSTCBPrioTbl (set_waiters e b s) = OSTCBPrioTbl s" "OSTCBPrioTbl (set_event e g s) = OSTCBPrioTbl s"
  by (simp_all add: set_rdy_def set_tcb_def set_waiters_def set_event_def)

lemma promote_owner_ok:
  assumes ok: "kernel_ok s" and at: "task_at s (unat o1) j" and o1: "unat o1 < 20" and pip: "unat pip < 20" "OSTCBPrioTbl s ! unat pip = TCB_RESERVED"
    and ev: "\<forall>e. OSTCBEventPtr (TCB s j) = Some e \<longrightarrow> unat o1 \<notin> ready_set s \<and> unat o1 \<in> wait_set e s"
  shows "\<exists>s'. promote_owner j pip s = Some s' \<and> kernel_ok (hide o1 s') \<and> prio_frame s s' \<and>
     ready_set s' = moved (unat o1) (unat pip) (ready_set s) \<and> (\<forall>e. wait_set e s' = moved (unat o1) (unat pip) (wait_set e s)) \<and>
     OSTCBPrioTbl s' = (OSTCBPrioTbl s)[unat pip := TCB_AT j] \<and> TCB s' = (TCB s)(j := with_prio pip (TCB s j))"
proof -
  let ?p = "unat o1" and ?q = "unat pip" and ?t = "TCB s j"
  have p20: "?p \<le> 20" "?p \<noteq> 20" and none: "\<forall>i. OSTCBPrioTbl s ! ?q \<noteq> TCB_AT i" and tn: "\<forall>i. TCB_RESERVED \<noteq> TCB_AT i"
    and len: "length (OSTCBPrioTbl s) = 21" using o1 pip kernel_okD(1) [OF ok] by simp_all
  have pq: "?q \<noteq> ?p" using at pip(2) by (auto simp: task_at_def)
  have tok: "task_ok s ?p ?t" using ok at by (rule kernel_okD(4))
  note mk = task_okD(1) [OF tok]
  have row: "\<exists>row. array_get (OSRdyTbl s) (unat (OSTCBY ?t)) = Some row \<and> (row AND OSTCBBitX ?t \<noteq> 0 \<longleftrightarrow> ?p \<in> ready_set s)"
    by (rule row_test [OF kernel_okD(2) [OF ok] mk p20(1)])
  have moves: "\<exists>b1 b2. bm_clear (OSTCBY ?t) (OSTCBBitX ?t) (OSTCBBitY ?t) b = Some b1 \<and>
      bm_set (prio_y pip) (prio_bitx pip) (prio_bity pip) b1 = Some b2 \<and> bm_ok b2 \<and> bm_elems b2 = insert ?q (bm_elems b - {?p})"
    if okb: "bm_ok b" for b
  proof -
    obtain b2 where "bm_move ?t pip b = Some b2" "bm_ok b2" "bm_elems b2 = insert ?q (bm_elems b - {?p})"
      using bm_move_spec [OF okb mk p20(1) pip(1)] by blast
    then show ?thesis by (cases "bm_clear (OSTCBY ?t) (OSTCBBitX ?t) (OSTCBBitY ?t) b"; cases b2) (auto simp: bm_move_def)
  qed
  have prio: "OSTCBY (with_prio pip t) = prio_y pip" "OSTCBBitX (with_prio pip t) = prio_bitx pip"
    "OSTCBBitY (with_prio pip t) = prio_bity pip" "OSTCBEventPtr (with_prio pip t) = OSTCBEventPtr t" for t
    by (simp_all add: with_prio_def)
  have tbl: "set_prio_tbl pip (TCB_AT j) s2 = Some (s2\<lparr> OSTCBPrioTbl := (OSTCBPrioTbl s)[?q := TCB_AT j] \<rparr>)"
    if "OSTCBPrioTbl s2 = OSTCBPrioTbl s" for s2
    using that pip(1) len by (simp add: set_prio_tbl_def)
  have "\<exists>s'. promote_owner j pip s = Some s' \<and> prio_frame s s' \<and> bm_ok (rdy s') \<and> (\<forall>e. bm_ok (waiters e s')) \<and>
     ready_set s' = moved ?p ?q (ready_set s) \<and> (\<forall>e. wait_set e s' = moved ?p ?q (wait_set e s)) \<and>
     OSTCBPrioTbl s' = (OSTCBPrioTbl s)[?q := TCB_AT j] \<and> TCB s' = (TCB s)(j := with_prio pip ?t)"
  proof (cases "?p \<in> ready_set s")
    case True
    then have e: "OSTCBEventPtr ?t = None" using ev by (cases "OSTCBEventPtr ?t") auto
    then have w: "?p \<notin> wait_set e s" for e using task_okD(5) [OF tok, of e] by auto
    obtain b1 b2 where b: "bm_clear (OSTCBY ?t) (OSTCBBitX ?t) (OSTCBBitY ?t) (rdy s) = Some b1"
      "bm_set (prio_y pip) (prio_bitx pip) (prio_bity pip) b1 = Some b2" "bm_ok b2" "bm_elems b2 = insert ?q (bm_elems (rdy s) - {?p})"
      using moves [OF kernel_okD(2) [OF ok]] by blast
    define s2 where "s2 = set_rdy b2 (set_tcb j (with_prio pip) (set_rdy b1 s))"
    have "promote_owner j pip s = Some (s2\<lparr> OSTCBPrioTbl := (OSTCBPrioTbl s)[?q := TCB_AT j] \<rparr>)"
      using row True b(1,2) tbl [of s2] by (auto simp: promote_owner_def prio s2_def Let_def)
    then show ?thesis using b(3,4) True w kernel_okD(3) [OF ok]
      by (simp add: s2_def prio_frame_def rdy_def waiters_def ready_set_def wait_set_def moved_def set_rdy_def set_tcb_def)
  next
    case False
    show ?thesis
    proof (cases "OSTCBEventPtr ?t")
      case None
      then have w: "?p \<notin> wait_set e s" for e using task_okD(5) [OF tok, of e] by auto
      define s2 where "s2 = set_tcb j (with_prio pip) s"
      have "promote_owner j pip s = Some (s2\<lparr> OSTCBPrioTbl := (OSTCBPrioTbl s)[?q := TCB_AT j] \<rparr>)"
        using row False None tbl [of s2] by (auto simp: promote_owner_def prio s2_def Let_def)
      then show ?thesis using False w kernel_okD(2,3) [OF ok]
        by (simp add: s2_def prio_frame_def rdy_def waiters_def ready_set_def wait_set_def moved_def set_tcb_def)
    next
      case (Some e)
      then have w: "?p \<in> wait_set e s" "e' \<noteq> e \<Longrightarrow> ?p \<notin> wait_set e' s" for e' using ev task_okD(5) [OF tok, of e'] by auto
      obtain b1 b2 where b: "bm_clear (OSTCBY ?t) (OSTCBBitX ?t) (OSTCBBitY ?t) (waiters e s) = Some b1"
        "bm_set (prio_y pip) (prio_bitx pip) (prio_bity pip) b1 = Some b2" "bm_ok b2"
        "bm_elems b2 = insert ?q (bm_elems (waiters e s) - {?p})"
        using moves [OF kernel_okD(3) [OF ok]] by blast
      define s2 where "s2 = set_waiters e b2 (set_tcb j (with_prio pip) (set_waiters e b1 s))"
      have "promote_owner j pip s = Some (s2\<lparr> OSTCBPrioTbl := (OSTCBPrioTbl s)[?q := TCB_AT j] \<rparr>)"
        using row False Some b(1,2) tbl [of s2] by (auto simp: promote_owner_def prio s2_def Let_def)
      then show ?thesis using b(3,4) False w kernel_okD(2,3) [OF ok]
        by (auto simp: s2_def prio_frame_def rdy_def waiters_def ready_set_def wait_set_def moved_def set_waiters_def
            set_event_def set_tcb_def)
    qed
  qed
  then obtain s' where s': "promote_owner j pip s = Some s'" "prio_frame s s'" "bm_ok (rdy s')" "\<forall>e. bm_ok (waiters e s')"
     "ready_set s' = moved ?p ?q (ready_set s)" "\<forall>e. wait_set e s' = moved ?p ?q (wait_set e s)"
     "OSTCBPrioTbl s' = (OSTCBPrioTbl s)[?q := TCB_AT j]" "TCB s' = (TCB s)(j := with_prio pip ?t)" by blast
  have "kernel_ok (hide o1 s')"
    by (rule kernel_ok_move [OF ok at p20(2) pip(1) pq none _ tn _ refl])
      (use s' pq in \<open>simp_all add: prio_frame_def list_update_swap\<close>)
  then show ?thesis using s' by blast
qed

section \<open>Who owns a mutex\<close>

definition mutex_owned :: "nat \<Rightarrow> INT8U \<Rightarrow> nat \<Rightarrow> INT8U \<Rightarrow> os_state \<Rightarrow> bool" where
  "mutex_owned e pip j prio s \<longleftrightarrow> OSEventType (ECB s e) = OS_EVENT_TYPE_MUTEX \<and>
     OSEventCnt (ECB s e) = owned_cnt pip prio \<and> OSEventPtr (ECB s e) = Tcb_Ptr (TCB_AT j)"

definition mutex_free :: "nat \<Rightarrow> INT8U \<Rightarrow> os_state \<Rightarrow> bool" where
  "mutex_free e pip s \<longleftrightarrow> OSEventType (ECB s e) = OS_EVENT_TYPE_MUTEX \<and>
     OSEventCnt (ECB s e) = owned_cnt pip 0xFF \<and> OSEventPtr (ECB s e) = Tcb_Ptr TCB_NULL \<and> wait_set e s = {}"

lemma mutex_owned_pip: "mutex_owned e pip j prio s \<Longrightarrow> mutex_pip (ECB s e) = pip"
  "mutex_owned e pip j prio s \<Longrightarrow> mutex_prio (ECB s e) = prio"
  by (simp_all add: mutex_owned_def mutex_bytes)

lemma mutex_owned_frame: "prio_frame s s' \<Longrightarrow> mutex_owned e pip j prio s' = mutex_owned e pip j prio s"
  by (simp add: mutex_owned_def prio_frame_def)

text \<open>
  The owner \<open>j\<close> with original priority \<open>prio\<close>: at that priority, with the inheritance priority
  reserved, or raised to the inheritance priority.
\<close>

definition at_home :: "INT8U \<Rightarrow> nat \<Rightarrow> INT8U \<Rightarrow> os_state \<Rightarrow> bool" where
  "at_home pip j prio s \<longleftrightarrow> kernel_ok s \<and> task_at s (unat prio) j \<and> OSTCBPrioTbl s ! unat pip = TCB_RESERVED"

definition raised :: "INT8U \<Rightarrow> nat \<Rightarrow> INT8U \<Rightarrow> os_state \<Rightarrow> bool" where
  "raised pip j prio s \<longleftrightarrow> kernel_ok (hide prio s) \<and> task_at s (unat pip) j \<and> task_at s (unat prio) j \<and> pip \<noteq> prio"

lemma raised_prio: "raised pip j prio s \<Longrightarrow> OSTCBPrio (TCB s j) = pip"
proof -
  assume r: "raised pip j prio s"
  then have "task_at (hide prio s) (unat pip) j" by (auto simp: raised_def task_at_def nth_list_update word_unat_eq_iff)
  then show ?thesis using task_at_prio [of "hide prio s"] r by (simp add: raised_def word_unat_eq_iff)
qed

text \<open>Undoing the raise, as \<open>OSMutexPost\<close> does for the running task.\<close>

lemma mutex_restore:
  assumes r: "raised pip j prio s" and pr: "unat prio < 20" "unat pip < 20" and rdy: "unat pip \<in> ready_set s"
    and nw: "\<And>e. unat pip \<notin> wait_set e s"
  shows "\<exists>s1 s2. OSMutex_RdyAtPrio j prio s = Some s1 \<and> set_prio_tbl pip TCB_RESERVED s1 = Some s2 \<and> at_home pip j prio s2 \<and>
     prio_frame s s2 \<and> ready_set s2 = moved (unat pip) (unat prio) (ready_set s) \<and> (\<forall>e. wait_set e s2 = wait_set e s) \<and>
     OSTCBPrioTbl s2 = (OSTCBPrioTbl s)[unat pip := TCB_RESERVED] \<and> TCB s2 = (TCB s)(j := with_prio prio (TCB s j))"
proof -
  let ?q = "unat pip" and ?p = "unat prio" and ?t = "TCB s j"
  have ok: "kernel_ok (hide prio s)" and tj: "OSTCBPrioTbl s ! ?p = TCB_AT j" and pq: "?p \<noteq> ?q"
    using r by (auto simp: raised_def task_at_def word_unat_eq_iff)
  have at: "task_at (hide prio s) ?q j" using r pq by (simp add: raised_def task_at_def nth_list_update)
  have len: "length (OSTCBPrioTbl s) = 21" using kernel_okD(1) [OF ok] by simp
  have q20: "?q \<le> 20" "?q \<noteq> 20" and tn: "\<forall>i. TCB_RESERVED \<noteq> TCB_AT i"
    and none: "\<forall>i. OSTCBPrioTbl (hide prio s) ! ?p \<noteq> TCB_AT i" using pr len by simp_all
  have mk: "masks_ok ?q ?t" using task_okD(1) [OF kernel_okD(4) [OF ok at]] by simp
  obtain b2 where b2: "bm_move ?t prio (rdy s) = Some b2" "bm_ok b2" "bm_elems b2 = insert ?p (bm_elems (rdy s) - {?q})"
    using bm_move_spec [OF _ mk q20(1) pr(1), of "rdy s"] kernel_okD(2) [OF ok] by auto
  then obtain b1 where b1: "bm_clear (OSTCBY ?t) (OSTCBBitX ?t) (OSTCBBitY ?t) (rdy s) = Some b1"
    "bm_set (prio_y prio) (prio_bitx prio) (prio_bity prio) b1 = Some b2"
    by (cases "bm_clear (OSTCBY ?t) (OSTCBBitX ?t) (OSTCBBitY ?t) (rdy s)") (auto simp: bm_move_def)
  have prio: "OSTCBY (with_prio prio t) = prio_y prio" "OSTCBBitX (with_prio prio t) = prio_bitx prio"
    "OSTCBBitY (with_prio prio t) = prio_bity prio" for t by (simp_all add: with_prio_def)
  define s1 where "s1 = set_rdy b2 (set_tcb j (with_prio prio) (set_rdy b1 s))"
  have "(OSTCBPrioTbl s)[?p := TCB_AT j] = OSTCBPrioTbl s" using tj by (metis list_update_id)
  then have "set_prio_tbl prio (TCB_AT j) s1 = Some s1"
    using pr(1) len by (simp add: set_prio_tbl_def s1_def)
  moreover have "at_prio prio = with_prio prio" using pr(1) by (simp add: fun_eq_iff at_prio_with)
  ultimately have run: "OSMutex_RdyAtPrio j prio s = Some s1"
    using b1 by (simp add: OSMutex_RdyAtPrio_def prio s1_def)
  define s2 where "s2 = s1\<lparr> OSTCBPrioTbl := (OSTCBPrioTbl s)[?q := TCB_RESERVED] \<rparr>"
  have run2: "set_prio_tbl pip TCB_RESERVED s1 = Some s2" using pr(2) len by (simp add: set_prio_tbl_def s1_def s2_def)
  have T: "TCB s2 = (TCB s)(j := with_prio prio ?t)" "OSTCBPrioTbl s2 = (OSTCBPrioTbl s)[?q := TCB_RESERVED]"
    by (simp_all add: s1_def s2_def set_rdy_def set_tcb_def)
  have sets: "ready_set s2 = moved ?q ?p (ready_set s)" "wait_set e s2 = wait_set e s" "bm_ok (rdy s2)" "bm_ok (waiters e s2)" for e
    using b2 rdy kernel_okD(3) [OF ok, of e]
    by (simp_all add: s1_def s2_def ready_set_def wait_set_def rdy_def waiters_def moved_def set_rdy_def set_tcb_def)
  have fr: "prio_frame s s2" by (simp add: prio_frame_def s1_def s2_def set_rdy_def set_tcb_def)
  have "OSTCBPrioTbl s2 = (OSTCBPrioTbl (hide prio s))[?q := TCB_RESERVED, ?p := TCB_AT j]"
    using pq tj T(2) by (simp add: list_update_swap) (metis list_update_id list_update_overwrite list_update_swap)
  then have "kernel_ok s2"
    using T(1) sets fr nw by (intro kernel_ok_move [OF ok at q20(2) pr(1) pq none _ tn])
      (simp_all add: prio_frame_def moved_def)
  moreover have "task_at s2 ?p j" "OSTCBPrioTbl s2 ! ?q = TCB_RESERVED" using pq tj T(2) pr len by (simp_all add: task_at_def)
  ultimately have "at_home pip j prio s2" by (simp add: at_home_def)
  then show ?thesis using run run2 fr sets(1,2) T by blast
qed

text \<open>The counter and the owner of an event do not matter to the kernel.\<close>

definition set_owner :: "nat \<Rightarrow> INT16U \<Rightarrow> tcb_ptr \<Rightarrow> os_state \<Rightarrow> os_state" where
  "set_owner e c p = set_event e (\<lambda>ev. ev\<lparr> OSEventCnt := c, OSEventPtr := Tcb_Ptr p \<rparr>)"

lemma set_owner_simps [simp]:
  "rdy (set_owner e c p s) = rdy s" "waiters e' (set_owner e c p s) = waiters e' s" "TCB (set_owner e c p s) = TCB s"
  "ready_set (set_owner e c p s) = ready_set s" "wait_set e' (set_owner e c p s) = wait_set e' s"
  "task_at (set_owner e c p s) = task_at s" "OSEventType (ECB (set_owner e c p s) e') = OSEventType (ECB s e')"
  "OSTCBPrioTbl (set_owner e c p s) = OSTCBPrioTbl s" "OSTCBCur (set_owner e c p s) = OSTCBCur s"
  "OSPrioCur (set_owner e c p s) = OSPrioCur s" "OSIntNesting (set_owner e c p s) = OSIntNesting s"
  "OSLockNesting (set_owner e c p s) = OSLockNesting s" "OSRunning (set_owner e c p s) = OSRunning s"
  by (auto simp: set_owner_def set_event_def rdy_def waiters_def ready_set_def wait_set_def task_at_def fun_eq_iff)

lemma kernel_ok_set_owner [simp]: "kernel_ok (set_owner e c p s) = kernel_ok s" "cur_ok (set_owner e c p s) = cur_ok s"
  by (simp_all add: kernel_ok_def task_ok_def cur_ok_def)

lemma at_home_set_owner [simp]: "at_home pip j prio (set_owner e c p s) = at_home pip j prio s"
  by (simp add: at_home_def)

lemma owned_set_owner:
  "OSEventType (ECB s e) = OS_EVENT_TYPE_MUTEX \<Longrightarrow> mutex_owned e pip j prio (set_owner e (owned_cnt pip prio) (TCB_AT j) s)"
  by (simp add: mutex_owned_def set_owner_def set_event_def)

lemma new_owner:
  assumes "OSEventCnt (ECB s3 e) = owned_cnt pip prio"
  shows "set_event e (\<lambda>ev. ev\<lparr> OSEventPtr := Tcb_Ptr (TCB_AT i) \<rparr>) (set_event e (\<lambda>ev. ev\<lparr> OSEventCnt := OSEventCnt ev OR ucast w \<rparr>)
        (set_event e (\<lambda>ev. ev\<lparr> OSEventCnt := OSEventCnt ev AND OS_MUTEX_KEEP_UPPER_8 \<rparr>) s3)) = set_owner e (owned_cnt pip w) (TCB_AT i) s3"
  using assms by (simp add: set_owner_def set_event_def cnt_bytes)

section \<open>Taking a free mutex\<close>

lemma mutex_take_owner:
  assumes "OSEventCnt (ECB s e) = owned_cnt pip q"
  shows "mutex_take e i s = (if OSTCBPrio (TCB s i) \<le> pip then OS_ERR_PIP_LOWER else OS_ERR_NONE,
           set_owner e (owned_cnt pip (OSTCBPrio (TCB s i))) (TCB_AT i) s)"
  using assms by (simp add: mutex_take_def mutex_bytes set_event_def cnt_bytes set_owner_def Let_def)

text \<open>A free mutex is taken by the running task, by \<open>OSMutexPend\<close> and \<open>OSMutexAccept\<close> alike: the task is recorded as its
  owner with its own priority, nothing else changes, and the only warning is that the inheritance priority is not above
  that of the task. \<open>OSMutexAccept\<close> of a mutex that is owned fails and changes nothing.\<close>

theorem mutex_lock_free:
  assumes free: "mutex_free e pip s" and ok: "kernel_ok s" and cur: "OSTCBCur s = TCB_AT i" "OSIntNesting s = 0" "OSLockNesting s = 0"
  defines "err \<equiv> (if OSTCBPrio (TCB s i) \<le> pip then OS_ERR_PIP_LOWER else OS_ERR_NONE)"
    and "s' \<equiv> set_owner e (owned_cnt pip (OSTCBPrio (TCB s i))) (TCB_AT i) s"
  shows "OSMutexPend_enter (Some e) timeout (Some x) s = Some (True, Some err, s') \<and>
     OSMutexAccept (Some e) (Some x) s = Some (True, Some err, s') \<and> mutex_owned e pip i (OSTCBPrio (TCB s i)) s' \<and>
     kernel_ok s' \<and>
     (OSTCBPrio (TCB s i) \<noteq> 0xFF \<longrightarrow> OSMutexAccept (Some e) (Some x) s' = Some (False, Some OS_ERR_NONE, s'))"
proof -
  have ty: "OSEventType (ECB s e) = OS_EVENT_TYPE_MUTEX" and cnt: "OSEventCnt (ECB s e) = owned_cnt pip 0xFF"
    using free by (simp_all add: mutex_free_def)
  note take = mutex_take_owner [OF cnt, of i] and bts = mutex_bytes [OF cnt]
  have own: "mutex_owned e pip i (OSTCBPrio (TCB s i)) s'" unfolding s'_def using ty by (rule owned_set_owner)
  have "(ucast (OSTCBPrio (TCB s i)) :: INT16U) = 0xFF \<Longrightarrow> OSTCBPrio (TCB s i) = 0xFF"
    using cnt_bytes(2) [of pip "OSTCBPrio (TCB s i)"] unfolding cnt_bytes(3) by simp
  then show ?thesis
    using own ty cnt bts cur cnt_bytes(3) [of pip "OSTCBPrio (TCB s i)"] cnt_bytes(3) [of pip "0xFF"] take ok
    by (simp add: OSMutexPend_enter_def OSMutexAccept_def s'_def err_def mutex_owned_def Let_def)
qed

section \<open>Posting\<close>

text \<open>The owner is back at its own priority and a task waits: it becomes the owner.\<close>

lemma hand_over:
  assumes home: "at_home pip j prio s" and own: "mutex_owned e pip j prio s" and ne: "wait_set e s \<noteq> {}"
    and at: "task_at s (Min (wait_set e s)) i" and lv: "OSIntNesting s = 0" "OSLockNesting s = 0"
    and cur: "cur_ok s \<or> OSPrioCur s = pip"
  obtains w s1 s3 where "OS_EventTaskRdy e 0 OS_STAT_MUTEX OS_STAT_PEND_OK s = Some (w, s1)" "unat w = Min (wait_set e s)"
    "OSTCBPrioTbl s1 ! unat w = TCB_AT i" "length (OSTCBPrioTbl s1) = 21" "OSEventCnt (ECB s1 e) = owned_cnt pip prio"
    "OS_Sched (set_owner e (owned_cnt pip w) (TCB_AT i) s1) = Some s3" "at_home pip i w s3" "mutex_owned e pip i w s3"
    "highest_runs s3" "wait_set e s3 = wait_set e s - {unat w}" "\<And>e'. e' \<noteq> e \<Longrightarrow> wait_set e' s3 = wait_set e' s"
    "ready_set s3 = (if suspended (TCB s i) then ready_set s else insert (unat w) (ready_set s))" "OSTCBPrioTbl s3 = OSTCBPrioTbl s"
    "OSTCBStat (TCB s3 i) = OSTCBStat (TCB s i) AND NOT OS_STAT_MUTEX" "OSTCBStatPend (TCB s3 i) = OS_STAT_PEND_OK"
proof -
  have ok: "kernel_ok s" and res: "OSTCBPrioTbl s ! unat pip = TCB_RESERVED" using home by (simp_all add: at_home_def)
  have ty: "event_mask (OSEventType (ECB s e)) = OS_STAT_MUTEX" using own by (simp add: mutex_owned_def event_mask_def)
  obtain w k s1 where r: "OS_EventTaskRdy e 0 OS_STAT_MUTEX OS_STAT_PEND_OK s = Some (w, s1)"
    "readied e 0 OS_STAT_MUTEX OS_STAT_PEND_OK s (unat w) k s1" "kernel_ok s1"
    by (rule OS_EventTaskRdy_ok [OF ok ne ty]) simp_all
  have w: "unat w = Min (wait_set e s)" "unat w \<in> wait_set e s" "task_at s (unat w) k" "sched_frame s s1"
    using r(2) unfolding readied_def by blast+
  have k: "k = i" using task_at_fun [OF w(3)] at w(1) by simp
  note fr = sched_frame_tbl [OF w(4)]
  define s2 where "s2 = set_owner e (owned_cnt pip w) (TCB_AT i) s1"
  have rd: "ready_set s1 = (if suspended (TCB s i) then ready_set s else insert (unat w) (ready_set s))"
    using r(2) k by (simp add: readied_def)
  have k2: "kernel_ok s2" using r(3) by (simp add: s2_def)
  have c2: "cur_ok s2" if h: "unat (OSPrioCur s2) = Min (ready_set s2)"
  proof -
    have "finite (ready_set s2)" "ready_set s2 \<noteq> {}"
      using bm.finite_law [OF kernel_okD(2) [OF k2]] ready_not_empty [OF k2] by (simp_all add: ready_set_def)
    then have "unat (OSPrioCur s2) \<in> ready_set s2" using h Min_in by simp
    moreover have "unat pip \<notin> ready_set s" "unat w \<noteq> unat pip"
      using no_task_no_member(1) [OF ok, of "unat pip"] res w(3) by (auto simp: task_at_def)
    ultimately have "OSPrioCur s \<noteq> pip" using fr by (auto simp: s2_def rd split: if_splits)
    then show ?thesis using cur cur_ok_frame [OF w(4)] by (simp add: s2_def)
  qed
  have i2: "OSIntNesting s2 = 0" "OSLockNesting s2 = 0" using fr lv by (simp_all add: s2_def)
  obtain s3 where s3: "OS_Sched s2 = Some s3" "switch_frame s2 s3" "kernel_ok s3" "highest_runs s3"
    using OS_Sched_highest [OF k2 c2 i2] by blast
  have "mutex_owned e pip i w s2"
    using own sched_frame_event [OF w(4), of e] unfolding s2_def by (intro owned_set_owner) (simp add: mutex_owned_def)
  then have "mutex_owned e pip i w s3" by (simp add: mutex_owned_def switch_frame_sets [OF s3(2)])
  moreover have "at_home pip i w s3"
    using s3(3) w(3) k res fr by (simp add: at_home_def switch_frame_sets [OF s3(2)] s2_def task_at_def)
  ultimately show thesis
    using that [OF r(1) w(1) _ _ _ s3(1) [unfolded s2_def] _ _ s3(4)] r(2) own k at w(1) fr rd sched_frame_event [OF w(4), of e]
      kernel_okD(1) [OF r(3)]
    by (simp add: readied_def switch_frame_sets [OF s3(2)] switch_frame_task [OF s3(2)] s2_def mutex_owned_def task_at_def)
qed

section \<open>Waiting for an owned mutex\<close>

lemma hide_set:
  "set_tcb i f (hide q s) = hide q (set_tcb i f s)" "set_rdy b (hide q s) = hide q (set_rdy b s)"
  "set_waiters e b (hide q s) = hide q (set_waiters e b s)"
  by (simp_all add: hide_def set_tcb_def set_rdy_def set_waiters_def set_event_def)

lemma OS_EventTaskWait_hide: "OS_EventTaskWait e (hide q s) = map_option (hide q) (OS_EventTaskWait e s)"
proof (cases "OSTCBCur s")
  case (TCB_AT i)
  let ?s = "set_tcb i (\<lambda>t. t\<lparr> OSTCBEventPtr := Some e \<rparr>) s"
  show ?thesis
    using TCB_AT
    by (cases "bm_set (OSTCBY (TCB ?s i)) (OSTCBBitX (TCB ?s i)) (OSTCBBitY (TCB ?s i)) (waiters e ?s)";
        cases "bm_clear (OSTCBY (TCB ?s i)) (OSTCBBitX (TCB ?s i)) (OSTCBBitY (TCB ?s i)) (rdy s)")
      (simp_all add: OS_EventTaskWait_def hide_set Let_def)
qed (simp_all add: OS_EventTaskWait_def)

lemma OS_Sched_hide:
  assumes "bm_ok (rdy s)" "ready_set s \<noteq> {}" "unat q \<notin> ready_set s"
  shows "OS_Sched (hide q s) = map_option (hide q) (OS_Sched s)"
proof -
  obtain y h where h: "bm_highest (rdy s) = Some (y, h)" "unat h = Min (ready_set s)"
    using bm_highest_spec [OF assms(1)] assms(2) unfolding ready_set_def by blast
  have "Min (ready_set s) \<in> ready_set s"
    using bm.finite_law [OF assms(1)] assms(2) unfolding ready_set_def by (rule Min_in)
  then have "unat h \<noteq> unat q" using assms(3) h(2) by metis
  then have a: "array_get ((OSTCBPrioTbl s)[unat q := TCB_RESERVED]) (unat h) = array_get (OSTCBPrioTbl s) (unat h)"
    by (simp add: array_get_def)
  have high: "switch_to_high (hide q s1) = map_option (hide q) (switch_to_high s1)" if "s1 = s\<lparr> OSPrioHighRdy := h \<rparr>" for s1
  proof (cases "array_get (OSTCBPrioTbl s) (unat h)")
    case None
    then show ?thesis using a by (simp add: switch_to_high_def hide_def that)
  next
    case (Some p)
    then show ?thesis using a
      by (cases p) (simp_all add: switch_to_high_def hide_def that set_tcb_def OSCtxSw_def)
  qed
  have "OS_SchedNew (hide q s) = map_option (hide q) (OS_SchedNew s)" using h(1) by (simp add: OS_SchedNew_def) (simp add: hide_def)
  then show ?thesis using high h(1) by (simp add: OS_Sched_def OS_SchedNew_def)
qed

lemma wait_keeps_tbl: "OS_EventTaskWait e s = Some s' \<Longrightarrow> OSTCBPrioTbl s' = OSTCBPrioTbl s"
  by (auto simp: OS_EventTaskWait_def Let_def split: bind_splits)

lemma sched_keeps_tbl: "OS_Sched s = Some s' \<Longrightarrow> OSTCBPrioTbl s' = OSTCBPrioTbl s"
  by (auto simp: OS_Sched_def OS_SchedNew_def switch_to_high_def OSCtxSw_def Let_def split: bind_splits if_splits)

lemma pend_owned:
  assumes own: "mutex_owned e pip j prio s" and home: "at_home pip j prio s" and run: "highest_runs s"
    and cur: "OSTCBCur s = TCB_AT i" "unat (OSPrioCur s) = p" "p \<in> ready_set s" "\<And>e. p \<notin> wait_set e s"
    and pr: "p < unat prio" "unat prio < 20" "unat pip < 20" "pip < prio"
    and ev: "\<forall>e. OSTCBEventPtr (TCB s j) = Some e \<longrightarrow> unat prio \<notin> ready_set s \<and> unat prio \<in> wait_set e s"
    and lv: "OSIntNesting s = 0" "OSLockNesting s = 0"
  obtains s' where "OSMutexPend_enter (Some e) timeout (Some x) s = Some (False, Some x, s')" "raised pip j prio s'"
    "mutex_owned e pip j prio s'" "highest_runs (hide prio s')" "ready_set s' = moved (unat prio) (unat pip) (ready_set s) - {p}"
    "wait_set e s' = insert p (moved (unat prio) (unat pip) (wait_set e s))"
    "\<And>e'. e' \<noteq> e \<Longrightarrow> wait_set e' s' = moved (unat prio) (unat pip) (wait_set e' s)"
    "OSTCBPrioTbl s' = (OSTCBPrioTbl s)[unat pip := TCB_AT j]" "OSIntNesting s' = 0" "OSLockNesting s' = 0"
    "OSTCBStat (TCB s' i) = OS_STAT_MUTEX" "task_at s p i"
proof -
  let ?p = "unat prio" and ?q = "unat pip"
  have ok: "kernel_ok s" and at: "task_at s ?p j" and res: "OSTCBPrioTbl s ! ?q = TCB_RESERVED" using home by (simp_all add: at_home_def)
  have ati: "task_at s p i" using run cur by (auto simp: highest_runs_def cur_ok_def)
  have pne: "p \<noteq> ?p" using pr(1) by simp
  then have "i \<noteq> j" using task_at_inj [OF ok ati] at by blast
  moreover have "p \<noteq> ?q" "?p \<noteq> ?q" using ati at res by (auto simp: task_at_def)
  ultimately have ne: "p \<noteq> ?p" "p \<noteq> ?q" "?p \<noteq> ?q" "i \<noteq> j" using pne by simp_all
  obtain s1 where s1: "promote_owner j pip s = Some s1" "kernel_ok (hide prio s1)" "prio_frame s s1"
    "ready_set s1 = moved ?p ?q (ready_set s)" "\<forall>e. wait_set e s1 = moved ?p ?q (wait_set e s)"
    "OSTCBPrioTbl s1 = (OSTCBPrioTbl s)[?q := TCB_AT j]" "TCB s1 = (TCB s)(j := with_prio pip (TCB s j))"
    using promote_owner_ok [OF ok at pr(2,3) res ev] by blast
  have len: "length (OSTCBPrioTbl s) = 21" using ok by (rule kernel_okD(1))
  have at1: "task_at (hide prio s1) p i" using ati ne by (simp add: task_at_def s1(6))
  have c1: "OSTCBCur (hide prio s1) = TCB_AT i" "p \<in> ready_set (hide prio s1)" "p \<notin> wait_set e' (hide prio s1)" "p \<noteq> 20" for e'
    using cur s1(3,4,5) ne pr by (auto simp: prio_frame_def moved_def)
  have ms: "event_mask (OSEventType (ECB (hide prio s1) e)) = OS_STAT_MUTEX" "OS_STAT_MUTEX \<noteq> 0"
    using own s1(3) by (simp_all add: mutex_owned_def prio_frame_def event_mask_def)
  define s2 where "s2 = set_tcb i (\<lambda>t. t\<lparr> OSTCBStat := OSTCBStat t OR OS_STAT_MUTEX, OSTCBStatPend := OS_STAT_PEND_OK,
                                         OSTCBDly := timeout \<rparr>) s1"
  have eq: "hide prio s2 = set_tcb i (\<lambda>t. t\<lparr> OSTCBStat := OSTCBStat t OR OS_STAT_MUTEX, OSTCBStatPend := OS_STAT_PEND_OK,
                                         OSTCBDly := timeout \<rparr>) (hide prio s1)" by (simp add: s2_def hide_set)
  obtain t3 where t3: "OS_EventTaskWait e (hide prio s2) = Some t3" "kernel_ok t3" "sched_frame (hide prio s1) t3"
    "TCB t3 = (TCB (hide prio s1))(i := blocked e timeout OS_STAT_MUTEX (TCB (hide prio s1) i))"
    "ready_set t3 = ready_set s1 - {p}" "wait_set e t3 = insert p (wait_set e s1)" "\<forall>e'. e' \<noteq> e \<longrightarrow> wait_set e' t3 = wait_set e' s1"
    using OS_EventTaskWait_ok [OF s1(2) c1(1) at1 c1(4,2,3) ms eq] by (elim exE conjE) (rule that; simp)
  then obtain s3 where s3: "OS_EventTaskWait e s2 = Some s3" "t3 = hide prio s3" by (auto simp: OS_EventTaskWait_hide)
  have fr: "OSTCBPrioTbl s3 = OSTCBPrioTbl s1" using wait_keeps_tbl [OF s3(1)] by (simp add: s2_def)
  have cur3: "cur_ok (hide prio s3)" using cur_ok_frame [OF t3(3)] at1 c1(1) cur(2) s1(3) s3(2)
    by (auto simp: cur_ok_def prio_frame_def)
  have lv3: "OSIntNesting (hide prio s3) = 0" "OSLockNesting (hide prio s3) = 0"
    using sched_frame_tbl [OF t3(3)] s3(2) s1(3) lv by (simp_all add: prio_frame_def)
  obtain t4 where t4: "OS_Sched (hide prio s3) = Some t4" "switch_frame (hide prio s3) t4" "kernel_ok t4" "highest_runs t4"
    using OS_Sched_ok [OF _ cur3 lv3] t3(2) s3(2) by auto
  have k3: "kernel_ok (hide prio s3)" using t3(2) s3(2) by simp
  have nq: "?p \<notin> ready_set s3" using no_task_no_member(1) [OF k3, of ?p] pr(2) len fr s1(6) by simp
  then obtain s4 where s4: "OS_Sched s3 = Some s4" "t4 = hide prio s4"
  proof -
    have "bm_ok (rdy s3)" "ready_set s3 \<noteq> {}" using kernel_okD(2) [OF k3] ready_not_empty [OF k3] by (simp_all add: ready_set_def)
    from OS_Sched_hide [OF this nq] t4(1) show thesis using that by (cases "OS_Sched s3") auto
  qed
  have fr4: "OSTCBPrioTbl s4 = OSTCBPrioTbl s3" by (rule sched_keeps_tbl) (rule s4(1))
  have rs: "raised pip j prio s4"
    using t4(3) s4(2) at ne pr len fr fr4 s1(6) by (simp add: raised_def task_at_def word_unat_eq_iff)
  have "OSMutexPend_enter (Some e) timeout (Some x) s = Some (False, Some x, s4)"
  proof -
    have o: "OSEventType (ECB s e) = OS_EVENT_TYPE_MUTEX" "OSEventPtr (ECB s e) = Tcb_Ptr (TCB_AT j)"
      "mutex_pip (ECB s e) = pip" "mutex_prio (ECB s e) = prio" using own mutex_owned_pip [OF own] by (simp_all add: mutex_owned_def)
    have p: "unat (OSTCBPrio (TCB s j)) = ?p" "unat (OSTCBPrio (TCB s i)) = p" using task_at_prio [OF ok] at ati by simp_all
    then have q: "OSTCBPrio (TCB s j) = prio" "pip < OSTCBPrio (TCB s j)" "OSTCBPrio (TCB s i) < prio"
      using pr(1,4) by (simp_all add: word_unat_eq_iff word_less_nat_alt)
    have "unat (ucast prio :: INT16U) \<noteq> unat (OS_MUTEX_AVAILABLE)" using pr(2) by (simp add: unsigned_ucast_eq)
    then have "(ucast prio :: INT16U) \<noteq> OS_MUTEX_AVAILABLE" by metis
    then show ?thesis using o q cur(1) lv s1(1) s3(1) s4(1)
      by (simp add: OSMutexPend_enter_def s2_def)
  qed
  moreover have "mutex_owned e pip j prio s4"
    using own s1(3) sched_frame_event [OF t3(3), of e] switch_frame_sets(6) [OF t4(2)] s3(2) s4(2)
    by (simp add: mutex_owned_def prio_frame_def)
  moreover have "OSTCBStat (TCB s4 i) = OS_STAT_MUTEX"
  proof -
    have "runnable (TCB s i)" using task_okD(4) [OF kernel_okD(4) [OF ok ati]] cur(3) by simp
    then show ?thesis using switch_frame_task(1) [OF t4(2), of i] t3(4) s3(2) s4(2) s1(7) ne
      by (simp add: runnable_def blocked_def)
  qed
  ultimately show thesis
    using that rs t4(4) s4(2) s3(2) t3(5-7) s1(4-6) fr fr4 ati lv3 switch_frame_sets(1,2,9,10) [OF t4(2)] by simp
qed

section \<open>Posting by a raised owner\<close>

lemma mutex_post_raised:
  assumes own: "mutex_owned e pip j prio s" and rs: "raised pip j prio s" and pr: "unat prio < 20" "unat pip < 20"
    and cur: "OSTCBCur s = TCB_AT j" "OSPrioCur s = pip" "unat pip \<in> ready_set s" "\<And>e. unat pip \<notin> wait_set e s"
    and lv: "OSIntNesting s = 0" "OSLockNesting s = 0"
    and ne: "wait_set e s \<noteq> {}" and at: "task_at s (Min (wait_set e s)) i"
  obtains w s' where "OSMutexPost (Some e) s = Some (if w \<le> pip then OS_ERR_PIP_LOWER else OS_ERR_NONE, s')"
    "unat w = Min (wait_set e s)" "at_home pip i w s'" "mutex_owned e pip i w s'" "highest_runs s'"
    "wait_set e s' = wait_set e s - {unat w}" "\<And>e'. e' \<noteq> e \<Longrightarrow> wait_set e' s' = wait_set e' s"
    "ready_set s' = (let R = moved (unat pip) (unat prio) (ready_set s) in if suspended (TCB s i) then R else insert (unat w) R)"
    "OSTCBPrioTbl s' = (OSTCBPrioTbl s)[unat pip := TCB_RESERVED]" "task_at s' (unat prio) j"
proof -
  obtain s1 s2 where s2: "OSMutex_RdyAtPrio j prio s = Some s1" "set_prio_tbl pip TCB_RESERVED s1 = Some s2" "at_home pip j prio s2"
    "prio_frame s s2" "ready_set s2 = moved (unat pip) (unat prio) (ready_set s)" "\<forall>e. wait_set e s2 = wait_set e s"
    "OSTCBPrioTbl s2 = (OSTCBPrioTbl s)[unat pip := TCB_RESERVED]" "TCB s2 = (TCB s)(j := with_prio prio (TCB s j))"
    using mutex_restore [OF rs pr cur(3,4)] by blast
  have own2: "mutex_owned e pip j prio s2" using own mutex_owned_frame [OF s2(4)] by simp
  have ok2: "kernel_ok s2" using s2(3) by (simp add: at_home_def)
  have wp: "Min (wait_set e s2) \<in> wait_set e s2" using min_waiter [OF ok2] ne s2(6) by simp
  then have "Min (wait_set e s2) \<noteq> unat pip" using cur(4) s2(6) by metis
  then have at2: "task_at s2 (Min (wait_set e s2)) i" using at s2(6,7) by (simp add: task_at_def)
  have ne2: "wait_set e s2 \<noteq> {}" using ne s2(6) by simp
  have lv2: "OSIntNesting s2 = 0" "OSLockNesting s2 = 0" "OSPrioCur s2 = pip" "OSTCBCur s2 = TCB_AT j"
    using s2(4) lv cur by (simp_all add: prio_frame_def)
  have susp: "suspended (TCB s2 i) = suspended (TCB s i)" by (simp add: s2(8) suspended_def with_prio_def)
  obtain w s3 s' where h: "OS_EventTaskRdy e 0 OS_STAT_MUTEX OS_STAT_PEND_OK s2 = Some (w, s3)" "unat w = Min (wait_set e s2)"
    "OSTCBPrioTbl s3 ! unat w = TCB_AT i" "length (OSTCBPrioTbl s3) = 21" "OSEventCnt (ECB s3 e) = owned_cnt pip prio"
    "OS_Sched (set_owner e (owned_cnt pip w) (TCB_AT i) s3) = Some s'" "at_home pip i w s'" "mutex_owned e pip i w s'"
    "highest_runs s'" "wait_set e s' = wait_set e s2 - {unat w}" "\<And>e'. e' \<noteq> e \<Longrightarrow> wait_set e' s' = wait_set e' s2"
    "ready_set s' = (if suspended (TCB s2 i) then ready_set s2 else insert (unat w) (ready_set s2))" "OSTCBPrioTbl s' = OSTCBPrioTbl s2"
    using hand_over [OF s2(3) own2 ne2 at2 lv2(1,2)] lv2(3) by metis
  have "unat w \<le> 20" using h(2) at2 by (simp add: task_at_def)
  then have wl: "array_get (OSTCBPrioTbl s3) (unat w) = Some (TCB_AT i)" using h(3,4) by simp
  have grp: "OSEventGrp (ECB s2 e) \<noteq> 0" using grp_zero_iff [OF ok2] ne2 by simp
  have "OSMutexPost (Some e) s = Some (if w \<le> pip then OS_ERR_PIP_LOWER else OS_ERR_NONE, s')"
  proof -
    have o: "OSEventType (ECB s e) = OS_EVENT_TYPE_MUTEX" "OSEventPtr (ECB s e) = Tcb_Ptr (TCB_AT j)"
      "mutex_pip (ECB s e) = pip" "mutex_prio (ECB s e) = prio" using own mutex_owned_pip [OF own] by (simp_all add: mutex_owned_def)
    show ?thesis using o cur(1) lv raised_prio [OF rs] s2(1,2) grp h(1,6) wl
      by (simp add: OSMutexPost_def new_owner [OF h(5), simplified])
  qed
  moreover have "task_at s' (unat prio) j" using s2(3) h(13) by (simp add: at_home_def task_at_def)
  ultimately show thesis using that h(2,7-13) s2(5-7) susp by (simp add: Let_def)
qed

text \<open>C34: Priority inheritance. The running task asks for a mutex that a ready task of lower priority owns. The owner is raised to
  the inheritance priority and runs at once, ahead of every task in between. When it posts the mutex it is back at its own
  priority, the waiting task owns the mutex and runs, and the ready list, the wait lists and the priority table are what
  they were before.\<close>

theorem priority_inheritance:
  assumes own: "mutex_owned e pip j prio s" and home: "at_home pip j prio s" and run: "highest_runs s"
    and cur: "OSTCBCur s = TCB_AT i" "OSPrioCur s = p" "unat p \<in> ready_set s" "\<And>e. unat p \<notin> wait_set e s"
    and pr: "unat p < unat prio" "unat prio < 20" "unat pip < unat p"
    and rdy: "unat prio \<in> ready_set s" "OSTCBEventPtr (TCB s j) = None" and ne: "wait_set e s = {}"
    and lv: "OSIntNesting s = 0" "OSLockNesting s = 0"
  shows "\<exists>s1 s2. OSMutexPend_enter (Some e) timeout (Some x) s = Some (False, Some x, s1) \<and>
     raised pip j prio s1 \<and> OSTCBCur s1 = TCB_AT j \<and> OSPrioCur s1 = pip \<and>
     OSMutexPost (Some e) s1 = Some (OS_ERR_NONE, s2) \<and> kernel_ok s2 \<and> mutex_owned e pip i p s2 \<and>
     OSTCBCur s2 = TCB_AT i \<and> OSPrioCur s2 = p \<and>
     ready_set s2 = ready_set s \<and> (\<forall>e. wait_set e s2 = wait_set e s) \<and> OSTCBPrioTbl s2 = OSTCBPrioTbl s"
proof -
  let ?R = "ready_set s"
  have ok: "kernel_ok s" and res: "OSTCBPrioTbl s ! unat pip = TCB_RESERVED" using home by (simp_all add: at_home_def)
  have q: "unat pip < 20" "pip < prio" using pr by (simp_all add: word_less_nat_alt)
  have pn: "unat pip \<notin> ?R" "unat pip \<notin> wait_set e' s" for e' using no_task_no_member [OF ok, of "unat pip"] res by simp_all
  have nw: "unat prio \<notin> wait_set e' s" for e'
    using task_okD(5) [OF kernel_okD(4) [OF ok], of "unat prio" j e'] home rdy(2) by (auto simp: at_home_def)
  have minR: "unat p = Min ?R" "finite ?R" using run cur(2) bm.finite_law [OF kernel_okD(2) [OF ok]]
    by (simp_all add: highest_runs_def ready_set_def)
  obtain s1 where s1: "OSMutexPend_enter (Some e) timeout (Some x) s = Some (False, Some x, s1)" "raised pip j prio s1"
    "mutex_owned e pip j prio s1" "highest_runs (hide prio s1)" "ready_set s1 = moved (unat prio) (unat pip) ?R - {unat p}"
    "wait_set e s1 = insert (unat p) (moved (unat prio) (unat pip) (wait_set e s))"
    "\<And>e'. e' \<noteq> e \<Longrightarrow> wait_set e' s1 = moved (unat prio) (unat pip) (wait_set e' s)"
    "OSTCBPrioTbl s1 = (OSTCBPrioTbl s)[unat pip := TCB_AT j]" "OSIntNesting s1 = 0" "OSLockNesting s1 = 0"
    "OSTCBStat (TCB s1 i) = OS_STAT_MUTEX" "task_at s (unat p) i"
    using pend_owned [OF own home run cur(1) _ cur(3,4) pr(1,2) q _ lv, of timeout x] cur(2) rdy(2) by auto
  have w1: "wait_set e s1 = {unat p}" "e' \<noteq> e \<Longrightarrow> wait_set e' s1 = wait_set e' s" for e'
    using s1(6,7) ne nw by (simp_all add: moved_def)
  have R1: "ready_set s1 = insert (unat pip) (?R - {unat prio}) - {unat p}" using s1(5) rdy(1) by (simp add: moved_def)
  have pin: "unat pip \<in> ready_set s1" using R1 pr(3) by simp
  have "Min (ready_set s1) = unat pip"
  proof (rule Min_eqI)
    fix r assume "r \<in> ready_set s1"
    then have "r = unat pip \<or> r \<in> ?R" using R1 by auto
    then show "unat pip \<le> r" using Min_le [OF minR(2), of r] minR(1) pr(3) by auto
  qed (use R1 minR(2) pin in simp_all)
  then have pc: "OSPrioCur s1 = pip" using s1(4) by (simp add: highest_runs_def word_unat_eq_iff)
  have "task_at (hide prio s1) (unat pip) j"
    using s1(2) by (auto simp: raised_def task_at_def nth_list_update word_unat_eq_iff)
  then have cj: "OSTCBCur s1 = TCB_AT j" using s1(4) pc task_at_fun by (fastforce simp: highest_runs_def cur_ok_def)
  have pw: "unat pip \<notin> wait_set e' s1" for e' using w1 pn(2) pr(3) by (cases "e' = e") auto
  have at1: "task_at s1 (Min (wait_set e s1)) i" using s1(8,12) pr(3) w1(1) by (simp add: task_at_def)
  have ne1: "wait_set e s1 \<noteq> {}" using w1(1) by simp
  obtain w s2 where s2: "OSMutexPost (Some e) s1 = Some (if w \<le> pip then OS_ERR_PIP_LOWER else OS_ERR_NONE, s2)"
    "unat w = Min (wait_set e s1)" "at_home pip i w s2" "mutex_owned e pip i w s2" "highest_runs s2"
    "wait_set e s2 = wait_set e s1 - {unat w}" "\<And>e'. e' \<noteq> e \<Longrightarrow> wait_set e' s2 = wait_set e' s1"
    "ready_set s2 = (let R = moved (unat pip) (unat prio) (ready_set s1) in if suspended (TCB s1 i) then R else insert (unat w) R)"
    "OSTCBPrioTbl s2 = (OSTCBPrioTbl s1)[unat pip := TCB_RESERVED]" "task_at s2 (unat prio) j"
    by (rule mutex_post_raised [OF s1(3,2) pr(2) q(1) cj pc pin pw s1(9,10) ne1 at1]) (rule that; blast)
  have w: "w = p" using s2(2) w1(1) by (simp add: word_unat_eq_iff)
  have "\<not> suspended (TCB s1 i)" using s1(11) by (simp add: suspended_def)
  then have R2: "ready_set s2 = ?R" using s2(8) w R1 pn(1) rdy(1) cur(3) pr by (auto simp: moved_def Let_def)
  have W2: "wait_set e' s2 = wait_set e' s" for e' using s2(6,7) w w1 ne by (cases "e' = e") auto
  have T2: "OSTCBPrioTbl s2 = OSTCBPrioTbl s" using s2(9) s1(8) res by simp (metis list_update_id)
  have p2: "OSPrioCur s2 = p" using s2(5) minR(1) R2 by (simp add: highest_runs_def word_unat_eq_iff)
  then have "OSTCBCur s2 = TCB_AT i"
    using s2(5) s1(12) T2 task_at_fun [of s2 "unat p" _ i] by (auto simp: highest_runs_def cur_ok_def task_at_def)
  then show ?thesis
    using s1(1,2) cj pc s2(1,3,4) w pr(3) R2 W2 T2 p2
    by (intro exI [of _ s1] exI [of _ s2]) (simp add: at_home_def word_le_nat_alt)
qed

text \<open>\<open>OSMutexPost\<close> by the owner at its own priority hands the mutex to the waiting task of highest priority, which is
  woken and recorded with its priority, or makes it available when no task waits. Anyone else is refused, and nothing
  changes.\<close>

theorem mutex_post_hands_over:
  assumes own: "mutex_owned e pip j prio s" and home: "at_home pip j prio s" and pp: "prio \<noteq> pip" "unat pip < 20" and cur: "cur_ok s"
    and lv: "OSIntNesting s = 0" "OSLockNesting s = 0"
  shows "(OSTCBCur s \<noteq> TCB_AT j \<longrightarrow> OSMutexPost (Some e) s = Some (OS_ERR_NOT_MUTEX_OWNER, s)) \<and>
    (OSTCBCur s = TCB_AT j \<and> wait_set e s = {} \<longrightarrow>
      (\<exists>s'. OSMutexPost (Some e) s = Some (OS_ERR_NONE, s') \<and> mutex_free e pip s' \<and> kernel_ok s' \<and> cur_ok s' \<and>
         ready_set s' = ready_set s \<and> TCB s' = TCB s)) \<and>
    (\<forall>i. OSTCBCur s = TCB_AT j \<and> wait_set e s \<noteq> {} \<and> task_at s (Min (wait_set e s)) i \<longrightarrow>
      (\<exists>w s'. OSMutexPost (Some e) s = Some (if w \<le> pip then OS_ERR_PIP_LOWER else OS_ERR_NONE, s') \<and>
         unat w = Min (wait_set e s) \<and> mutex_owned e pip i w s' \<and> at_home pip i w s' \<and> highest_runs s' \<and>
         wait_set e s' = wait_set e s - {unat w} \<and> (\<not> suspended (TCB s i) \<longrightarrow> unat w \<in> ready_set s')))"
proof -
  have ok: "kernel_ok s" and at: "task_at s (unat prio) j" and res: "OSTCBPrioTbl s ! unat pip = TCB_RESERVED"
    using home by (simp_all add: at_home_def)
  have o: "OSEventType (ECB s e) = OS_EVENT_TYPE_MUTEX" "OSEventPtr (ECB s e) = Tcb_Ptr (TCB_AT j)"
    "mutex_pip (ECB s e) = pip" "mutex_prio (ECB s e) = prio" "OSEventCnt (ECB s e) = owned_cnt pip prio"
    using own mutex_owned_pip [OF own] by (simp_all add: mutex_owned_def)
  have p: "OSTCBPrio (TCB s j) \<noteq> pip" using task_at_prio [OF ok at] pp(1) by (auto simp: word_unat_eq_iff)
  have len: "length (OSTCBPrioTbl s) = 21" using ok by (rule kernel_okD(1))
  have "(OSTCBPrioTbl s)[unat pip := TCB_RESERVED] = OSTCBPrioTbl s" using res by (metis list_update_id)
  then have t: "set_prio_tbl pip TCB_RESERVED s = Some s" using pp(2) len by (simp add: set_prio_tbl_def)
  have "OSMutexPost (Some e) s = Some (OS_ERR_NOT_MUTEX_OWNER, s)" if "OSTCBCur s \<noteq> TCB_AT j"
    using that o lv by (simp add: OSMutexPost_def)
  moreover have "\<exists>s'. OSMutexPost (Some e) s = Some (OS_ERR_NONE, s') \<and> mutex_free e pip s' \<and> kernel_ok s' \<and> cur_ok s' \<and>
         ready_set s' = ready_set s \<and> TCB s' = TCB s" if a: "OSTCBCur s = TCB_AT j" "wait_set e s = {}"
  proof -
    have "OSEventGrp (ECB s e) = 0" using grp_zero_iff [OF ok] a(2) by simp
    then have "OSMutexPost (Some e) s = Some (OS_ERR_NONE, set_owner e (owned_cnt pip 0xFF) TCB_NULL s)"
      using a o lv t p by (simp add: OSMutexPost_def set_owner_def set_event_def cnt_bytes)
    moreover have "mutex_free e pip (set_owner e (owned_cnt pip 0xFF) TCB_NULL s)"
      using a(2) o(1) by (simp add: mutex_free_def set_owner_def) (simp add: set_event_def wait_set_def waiters_def)
    ultimately show ?thesis using ok cur by simp
  qed
  moreover have "\<exists>w s'. OSMutexPost (Some e) s = Some (if w \<le> pip then OS_ERR_PIP_LOWER else OS_ERR_NONE, s') \<and>
         unat w = Min (wait_set e s) \<and> mutex_owned e pip i w s' \<and> at_home pip i w s' \<and> highest_runs s' \<and>
         wait_set e s' = wait_set e s - {unat w} \<and> (\<not> suspended (TCB s i) \<longrightarrow> unat w \<in> ready_set s')"
    if a: "OSTCBCur s = TCB_AT j" "wait_set e s \<noteq> {}" "task_at s (Min (wait_set e s)) i" for i
  proof -
    obtain w s3 s' where h: "OS_EventTaskRdy e 0 OS_STAT_MUTEX OS_STAT_PEND_OK s = Some (w, s3)" "unat w = Min (wait_set e s)"
      "OSTCBPrioTbl s3 ! unat w = TCB_AT i" "length (OSTCBPrioTbl s3) = 21" "OSEventCnt (ECB s3 e) = owned_cnt pip prio"
      "OS_Sched (set_owner e (owned_cnt pip w) (TCB_AT i) s3) = Some s'" "at_home pip i w s'" "mutex_owned e pip i w s'"
      "highest_runs s'" "wait_set e s' = wait_set e s - {unat w}"
      "ready_set s' = (if suspended (TCB s i) then ready_set s else insert (unat w) (ready_set s))"
      by (rule hand_over [OF home own a(2,3) lv disjI1 [OF cur]]) (rule that; blast)
    have "unat w \<le> 20" using h(2) a(3) by (simp add: task_at_def)
    then have wl: "array_get (OSTCBPrioTbl s3) (unat w) = Some (TCB_AT i)" using h(3,4) by simp
    have grp: "OSEventGrp (ECB s e) \<noteq> 0" using grp_zero_iff [OF ok] a(2) by simp
    have "OSMutexPost (Some e) s = Some (if w \<le> pip then OS_ERR_PIP_LOWER else OS_ERR_NONE, s')"
      using o a(1) lv p t grp h(1,6) wl by (simp add: OSMutexPost_def new_owner [OF h(5), simplified])
    then show ?thesis using h(2,7-11) by auto
  qed
  ultimately show ?thesis by blast
qed

text \<open>C35: A raised owner that posts a mutex for which nobody waits any more (the waiting task has timed out) drops to its own
  priority, but \<open>OSMutexPost\<close> does not call the scheduler: it goes on running although a ready task has a higher priority.\<close>

theorem mutex_post_no_resched:
  assumes own: "mutex_owned e pip j prio s" and rs: "raised pip j prio s" and pr: "unat prio < 20" "unat pip < 20"
    and cur: "OSTCBCur s = TCB_AT j" "unat pip \<in> ready_set s" "\<And>e. unat pip \<notin> wait_set e s"
    and lv: "OSIntNesting s = 0" and ne: "wait_set e s = {}" and r: "r \<in> ready_set s" "r \<noteq> unat pip" "r < unat prio"
  shows "\<exists>s'. OSMutexPost (Some e) s = Some (OS_ERR_NONE, s') \<and> mutex_free e pip s' \<and> kernel_ok s' \<and>
     OSTCBCur s' = TCB_AT j \<and> unat (OSTCBPrio (TCB s' j)) = unat prio \<and> r \<in> ready_set s' \<and> r < unat prio"
proof -
  obtain s1 s2 where s2: "OSMutex_RdyAtPrio j prio s = Some s1" "set_prio_tbl pip TCB_RESERVED s1 = Some s2" "at_home pip j prio s2"
    "prio_frame s s2" "ready_set s2 = moved (unat pip) (unat prio) (ready_set s)" "\<forall>e. wait_set e s2 = wait_set e s"
    "TCB s2 = (TCB s)(j := with_prio prio (TCB s j))"
    using mutex_restore [OF rs pr cur(2,3)] by blast
  have ok2: "kernel_ok s2" using s2(3) by (simp add: at_home_def)
  have own2: "mutex_owned e pip j prio s2" using own mutex_owned_frame [OF s2(4)] by simp
  have o: "OSEventType (ECB s e) = OS_EVENT_TYPE_MUTEX" "OSEventPtr (ECB s e) = Tcb_Ptr (TCB_AT j)"
    "mutex_pip (ECB s e) = pip" "mutex_prio (ECB s e) = prio" "OSEventCnt (ECB s2 e) = owned_cnt pip prio"
    "OSEventType (ECB s2 e) = OS_EVENT_TYPE_MUTEX"
    using own own2 mutex_owned_pip [OF own] by (simp_all add: mutex_owned_def)
  have "OSEventGrp (ECB s2 e) = 0" using grp_zero_iff [OF ok2] s2(6) ne by simp
  then have "OSMutexPost (Some e) s = Some (OS_ERR_NONE, set_owner e (owned_cnt pip 0xFF) TCB_NULL s2)"
    using o cur(1) lv raised_prio [OF rs] s2(1,2) by (simp add: OSMutexPost_def set_owner_def set_event_def cnt_bytes)
  moreover have "mutex_free e pip (set_owner e (owned_cnt pip 0xFF) TCB_NULL s2)"
    using ne s2(6) o(6) by (simp add: mutex_free_def) (simp add: set_owner_def set_event_def)
  moreover have "r \<in> ready_set s2" using r s2(5) cur(2) by (auto simp: moved_def)
  ultimately show ?thesis
    using ok2 s2(4,7) cur(1) r(3) by (intro exI) (auto simp: prio_frame_def with_prio_def)
qed

section \<open>An example\<close>

text \<open>
  The kernel of the examples with the task of priority 7 ready and event 3 a mutex of inheritance
  priority 4, free or owned by that task.
\<close>

definition mutex_example :: "INT8U \<Rightarrow> tcb_ptr \<Rightarrow> os_state" where
  "mutex_example prio p = example_os\<lparr> TCB := example_tcbs(3 := (example_tcbs 3)\<lparr> OSTCBDly := 0 \<rparr>), OSRdyTbl := [192, 0, 16],
     OSTCBPrioTbl := (OSTCBPrioTbl example_os)[4 := TCB_RESERVED],
     ECB := example_ecbs(3 := (example_ecbs 3)\<lparr> OSEventType := OS_EVENT_TYPE_MUTEX, OSEventCnt := owned_cnt 4 prio,
                                                OSEventPtr := Tcb_Ptr p \<rparr>) \<rparr>"

lemma mutex_example_fields:
  "OSTCBCur (mutex_example prio p) = TCB_AT 2" "OSPrioCur (mutex_example prio p) = 6" "OSIntNesting (mutex_example prio p) = 0"
  "OSLockNesting (mutex_example prio p) = 0" "rdy (mutex_example prio p) = (5, [192, 0, 16])"
  "waiters e (mutex_example prio p) = (if e = 0 then (1, [32, 0, 0]) else (0, [0, 0, 0]))"
  "TCB (mutex_example prio p) = example_tcbs(3 := (example_tcbs 3)\<lparr> OSTCBDly := 0 \<rparr>)"
  "ECB (mutex_example prio p) 3 = (example_ecbs 3)\<lparr> OSEventType := OS_EVENT_TYPE_MUTEX, OSEventCnt := owned_cnt 4 prio, OSEventPtr := Tcb_Ptr p \<rparr>"
  "e \<noteq> 3 \<Longrightarrow> ECB (mutex_example prio p) e = example_ecbs e" "OSTCBPrioTbl (mutex_example prio p) ! 4 = TCB_RESERVED"
  by (simp_all add: mutex_example_def rdy_def waiters_def example_ecbs_def) (simp_all add: example_os_def)

lemma mutex_example_sets:
  "bm_ok (5, [192, 0, 16])" "ready_set (mutex_example prio p) = {6, 7, 20}" "wait_set e (mutex_example prio p) = (if e = 0 then {5} else {})"
proof -
  have i: "bm_insert 7 (5, [64, 0, 16]) = Some (5, [192, 0, 16])"
    by (simp add: bm_insert_def bm_set_def prio_y_def prio_x_def prio_bitx_def prio_bity_def)
  from bm.ins_Some [OF _ _ i] example_bm(1)
  have b: "bm_ok (5, [192, 0, 16]) \<and> bm_elems (5, [192, 0, 16]) = {6, 7, 20}" by auto
  then show "bm_ok (5, [192, 0, 16])" "ready_set (mutex_example prio p) = {6, 7, 20}"
    by (simp_all add: ready_set_def mutex_example_fields)
  show "wait_set e (mutex_example prio p) = (if e = 0 then {5} else {})"
    by (simp add: wait_set_def mutex_example_fields example_bm)
qed

lemma mutex_example_task: "task_at (mutex_example prio p) q i \<longleftrightarrow> (q, i) \<in> {(5, 1), (6, 2), (7, 3), (20, 0)}"
proof -
  have l: "length (OSTCBPrioTbl example_os) = 21" by simp
  have "OSTCBPrioTbl example_os ! 4 = TCB_NULL" by (simp add: example_os_def nth_append)
  then have "task_at (mutex_example prio p) q i \<longleftrightarrow> task_at example_os q i"
    by (auto simp: task_at_def mutex_example_def nth_list_update)
  then show ?thesis by (simp add: example_task_at)
qed

lemma mutex_example_ok: "kernel_ok (mutex_example prio p)"
proof -
  let ?s = "mutex_example prio p"
  have "task_ok ?s q (TCB ?s i)" if "task_at ?s q i" for q i
    using that unfolding mutex_example_task
    by (auto simp: task_ok_def mutex_example_sets masks_ok_def runnable_def mutex_example_fields example_tcbs_def
        example_tcb_def example_ecbs_def pend_bits_def event_mask_def)
  moreover have "length (OSTCBPrioTbl ?s) = 21" by (simp add: mutex_example_def)
  moreover have "bm_ok (rdy ?s)" "bm_ok (waiters e ?s)" for e
    by (simp_all add: mutex_example_fields mutex_example_sets(1) example_bm)
  ultimately show ?thesis unfolding kernel_ok_def by (auto simp: mutex_example_sets mutex_example_task)
qed

lemma mutex_example_owned:
  "mutex_owned 3 4 3 7 (mutex_example 7 (TCB_AT 3))" "at_home 4 3 7 (mutex_example 7 (TCB_AT 3))"
  "highest_runs (mutex_example prio p)" "mutex_owned 3 4 2 6 (mutex_example 6 (TCB_AT 2))" "at_home 4 2 6 (mutex_example 6 (TCB_AT 2))"
  by (simp_all add: mutex_owned_def at_home_def mutex_example_ok mutex_example_task mutex_example_fields highest_runs_def cur_ok_def
      mutex_example_sets)

theorem mutex_lock_free_witness:
  "\<exists>s'. OSMutexPend_enter (Some 3) 10 (Some 9) (mutex_example 0xFF TCB_NULL) = Some (True, Some OS_ERR_NONE, s') \<and> mutex_owned 3 4 2 6 s'"
proof -
  have "mutex_free 3 4 (mutex_example 0xFF TCB_NULL)" by (simp add: mutex_free_def mutex_example_fields mutex_example_sets)
  from mutex_lock_free [OF this mutex_example_ok mutex_example_fields(1,3,4), of 10 9]
  show ?thesis by (simp add: mutex_example_fields example_tcbs_def example_tcb_def)
qed

theorem priority_inheritance_witness:
  "\<exists>s1 s2. OSMutexPend_enter (Some 3) 0 (Some 9) (mutex_example 7 (TCB_AT 3)) = Some (False, Some 9, s1) \<and>
     OSTCBCur s1 = TCB_AT 3 \<and> OSPrioCur s1 = 4 \<and> OSMutexPost (Some 3) s1 = Some (OS_ERR_NONE, s2) \<and>
     OSTCBCur s2 = TCB_AT 2 \<and> OSPrioCur s2 = 6 \<and> ready_set s2 = {6, 7, 20}"
proof -
  let ?s = "mutex_example 7 (TCB_AT 3)"
  have h: "unat (6 :: INT8U) \<in> ready_set ?s" "\<And>e. unat (6 :: INT8U) \<notin> wait_set e ?s" "unat (6 :: INT8U) < unat (7 :: INT8U)"
    "unat (7 :: INT8U) < 20" "unat (4 :: INT8U) < unat (6 :: INT8U)" "unat (7 :: INT8U) \<in> ready_set ?s"
    "OSTCBEventPtr (TCB ?s 3) = None" "wait_set 3 ?s = {}"
    by (simp_all add: mutex_example_sets mutex_example_fields example_tcbs_def example_tcb_def)
  show ?thesis
    using priority_inheritance [OF mutex_example_owned(1-3) mutex_example_fields(1,2) h mutex_example_fields(3,4), of 0 9]
    by (auto simp: mutex_example_sets)
qed

theorem mutex_post_hands_over_witness:
  "\<exists>s'. OSMutexPost (Some 3) (mutex_example 6 (TCB_AT 2)) = Some (OS_ERR_NONE, s') \<and> mutex_free 3 4 s'"
proof -
  have c: "cur_ok (mutex_example 6 (TCB_AT 2))" using mutex_example_owned(3) by (simp add: highest_runs_def)
  have "(6 :: INT8U) \<noteq> 4" "unat (4 :: INT8U) < 20" by simp_all
  from mutex_post_hands_over [OF mutex_example_owned(4,5) this c mutex_example_fields(3,4)]
  show ?thesis by (auto simp: mutex_example_fields mutex_example_sets)
qed

lemma kernel_ok_current: "kernel_ok (s\<lparr> OSTCBCur := c, OSPrioCur := p \<rparr>) = kernel_ok s"
  by (simp add: kernel_ok_def task_ok_def task_at_def ready_set_def wait_set_def rdy_def waiters_def)

theorem mutex_post_no_resched_witness:
  "\<exists>s s'. promote_owner 3 4 (mutex_example 7 (TCB_AT 3)) = Some s \<and>
     OSMutexPost (Some 3) (s\<lparr> OSTCBCur := TCB_AT 3, OSPrioCur := 4 \<rparr>) = Some (OS_ERR_NONE, s') \<and>
     OSTCBCur s' = TCB_AT 3 \<and> unat (OSTCBPrio (TCB s' 3)) = 7 \<and> 6 \<in> ready_set s'"
proof -
  let ?s = "mutex_example 7 (TCB_AT 3)"
  have h: "task_at ?s (unat (7 :: INT8U)) 3" "unat (7 :: INT8U) < 20" "unat (4 :: INT8U) < 20" "OSTCBPrioTbl ?s ! unat (4 :: INT8U) = TCB_RESERVED"
    "\<forall>e. OSTCBEventPtr (TCB ?s 3) = Some e \<longrightarrow> unat (7 :: INT8U) \<notin> ready_set ?s \<and> unat (7 :: INT8U) \<in> wait_set e ?s"
    by (simp_all add: mutex_example_task mutex_example_fields example_tcbs_def example_tcb_def)
  obtain s where s: "promote_owner 3 4 ?s = Some s" "kernel_ok (hide 7 s)" "prio_frame ?s s"
    "ready_set s = moved (unat (7 :: INT8U)) (unat (4 :: INT8U)) (ready_set ?s)"
    "\<forall>e. wait_set e s = moved (unat (7 :: INT8U)) (unat (4 :: INT8U)) (wait_set e ?s)"
    "OSTCBPrioTbl s = (OSTCBPrioTbl ?s)[unat (4 :: INT8U) := TCB_AT 3]" using promote_owner_ok [OF mutex_example_ok h] by blast
  define t where "t = s\<lparr> OSTCBCur := TCB_AT 3, OSPrioCur := 4 \<rparr>"
  have t0: "OSTCBPrioTbl t = OSTCBPrioTbl s" "TCB t = TCB s" "ECB t = ECB s" "rdy t = rdy s" "waiters e t = waiters e s" for e
    by (simp_all add: t_def rdy_def waiters_def)
  have same: "ready_set t = ready_set s" "wait_set e t = wait_set e s" for e by (simp_all add: ready_set_def wait_set_def t0)
  have "moved 7 4 {6, 7, 20} = {4, 6, 20}" "moved 7 4 (if e = 0 then {5} else {}) = (if e = 0 then {5} else {})" for e :: nat
    by (auto simp: moved_def)
  moreover have "unat (7 :: INT8U) = 7" "unat (4 :: INT8U) = 4" by simp_all
  ultimately have "ready_set t = {4, 6, 20}" "wait_set e t = (if e = 0 then {5} else {})" for e
    using s(4) s(5) [rule_format, of e] by (simp_all only: same mutex_example_sets)
  note t = t0 this
  have "kernel_ok (hide 7 t)"
  proof -
    have "hide 7 t = (hide 7 s)\<lparr> OSTCBCur := TCB_AT 3, OSPrioCur := 4 \<rparr>" by (simp add: t_def hide_def)
    then show ?thesis using s(2) by (simp only: kernel_ok_current)
  qed
  moreover have "task_at t (unat (4 :: INT8U)) 3" "task_at t (unat (7 :: INT8U)) 3"
    using h(1) s(6) kernel_okD(1) [OF mutex_example_ok] by (simp_all add: task_at_def t)
  ultimately have r: "raised 4 3 7 t" by (simp add: raised_def)
  have own: "mutex_owned 3 4 3 7 t"
    using mutex_example_owned(1) s(3) by (simp add: mutex_owned_def prio_frame_def t)
  have q: "OSTCBCur t = TCB_AT 3" "unat (4 :: INT8U) \<in> ready_set t" "\<And>e. unat (4 :: INT8U) \<notin> wait_set e t" "OSIntNesting t = 0"
    "wait_set 3 t = {}" "6 \<in> ready_set t" "6 \<noteq> unat (4 :: INT8U)" "6 < unat (7 :: INT8U)"
    using s(3) by (simp_all add: t) (simp_all add: t_def prio_frame_def mutex_example_fields)
  show ?thesis
    using mutex_post_no_resched [OF own r h(2,3) q] s(1) by - (rule exI [of _ s], auto simp flip: t_def)
qed

end
