(* ===== verification/Spec2Isabelle.thy ===== *)
theory Spec2Isabelle imports Sys_Correct Uart_Events Mem_Manager Kernel_Correct Eng_Trans Os_Multi Os_Mutex Task_Prio begin

text \<open>
  Verification of the electronic engine control: the drive-by-wire software of
  \<open>src/software/electronic_engine_control\<close> and the real-time kernel uC/OS-II and the alarms of the
  Altera HAL it runs on (\<open>src/software/electronic_engine_control_bsp\<close>). The model is a shallow embedding
  of the C code, with the constants and the configuration (\<open>os_cfg\<close>, \<open>system.h\<close>, \<open>proj_config.h\<close>) of
  the repository.

  \<^bold>\<open>The program.\<close> Three tasks share a processor. The throttle control task reads the pedal and throttle
  sensors, drives the motor of the throttle plate through two PWM modules, limits the throttle when
  the wheels slip, and matches the engine speed for a gear shift. The solenoid task turns the shift
  buttons into shift requests and operates the shift solenoid. The failure handler, the task of highest
  priority, shows failures on the LEDs until the driver clears them. The tasks talk through semaphores
  used as flags and through message queues. Alarms that the timer interrupt runs serve as watchdogs,
  as debouncers of the plausibility checks and to close the solenoid; the button interrupt posts to
  the solenoid task's queue.

  \<^bold>\<open>Conventions.\<close> Integers are words of the width the C code gives them, pointers are indices into
  arrays of control blocks (a datatype of their own where the code stores several kinds of pointer in
  one field) or 32-bit addresses where the code computes with them, and null is \<open>None\<close>. A function
  that reads through a null pointer, indexes outside an array or does not return has the result
  \<open>None\<close>; error codes are the values the code returns. Device registers are what was last written to
  them, or what the device shows. A kernel call in which the caller can lose the processor is cut in
  two (\<open>_enter\<close> up to and including the call of the scheduler, \<open>_resume\<close> from the point where the
  caller runs again), and each task is a step function that runs from one such call to the next; its
  local variables and the point where it goes on are part of the state. What \<open>malloc\<close> returns, the
  addresses of the buffers and of the C library's structures are arguments.

  \<^bold>\<open>Theories.\<close> In the order of the imports:
  \<^item> \<open>Prelude\<close>: the integer types (\<open>alt_types.h\<close>, \<open>os_cpu.h\<close>), collections of facts, lemmas on words
    and options. \<open>Config\<close>: the constants.
  \<^item> \<open>Prio_Bitmap\<close>: ready list and wait lists as two-level bitmaps with their lookup table
    (\<open>os_core.c\<close>); they refine finite sets of priorities (locale \<open>priority_set\<close>).
  \<^item> \<open>Os_Types\<close> and \<open>Os_Core\<close>: the control blocks and globals of \<open>ucos_ii.h\<close> as records; wait lists,
    scheduler, context switch, interrupt nesting, tick (\<open>os_core.c\<close>). \<open>Kernel_Inv\<close>, \<open>Kernel_Tick\<close>,
    \<open>Kernel_Example\<close>, \<open>Kernel_Correct\<close>: the invariant \<open>kernel_ok\<close> (status, delay, ready list and wait lists
    of each task agree), that the primitives keep it, a concrete kernel, and the properties of the
    scheduler, of wake-ups and of the tick.
  \<^item> \<open>Os_Sem\<close> (\<open>os_sem.c\<close>), \<open>Ring_Buffer\<close> and \<open>Os_Q\<close> (\<open>os_q.c\<close>; locale \<open>bounded_queue\<close>), \<open>Os_Mbox\<close>
    (\<open>os_mbox.c\<close>), \<open>Os_Flag\<close> (\<open>os_flag.c\<close>), \<open>Os_Mem\<close> (\<open>os_mem.c\<close>), \<open>Os_Time\<close> (\<open>os_time.c\<close>), \<open>Os_Multi\<close>
    (\<open>OSEventPendMulti\<close>), \<open>Os_Mutex\<close> (\<open>os_mutex.c\<close>), \<open>Os_Name\<close> (strings and names), \<open>Os_Task\<close> (\<open>os_task.c\<close>
    with \<open>OS_TCBInit\<close> and \<open>OSTaskStkInit\<close>): all operations of each service, with refinement of its
    abstract specification or its functional behaviour.
  \<^item> \<open>Task_Admin\<close> and \<open>Task_Prio\<close>: the lists of task control blocks; creation, suspension and resumption
    of tasks and the move of a task to another priority keep the kernel consistent.
  \<^item> \<open>Os_Init\<close>, \<open>Os_Start\<close>, \<open>App_Start\<close>: \<open>OSInit\<close> and the system tasks, the start of multitasking, \<open>alt_main\<close> with
    the system clock, \<open>main\<close> and the tasks before their loops.
  \<^item> \<open>Irq\<close>: the interrupt controller (\<open>alt_irq.h\<close>, \<open>alt_legacy_irq.h\<close>, \<open>alt_irq_register.c\<close>, \<open>alt_irq_handler.c\<close>):
    the table of handlers and the loop that serves the pending lines, the smallest number first.
  \<^item> \<open>Alarm\<close>: the alarms (\<open>alt_llist.h\<close>, \<open>alt_alarm_start.c\<close>, \<open>alt_tick.c\<close>) as a doubly linked list in a
    heap that records uses of freed blocks; the tick under the contract \<open>alarm_callbacks\<close>.
  \<^item> \<open>Jtag_Uart\<close>: the driver of the JTAG UART (\<open>altera_avalon_jtag_uart_init.c\<close>, \<open>_read.c\<close>, \<open>_write.c\<close>, \<open>_ioctl.c\<close>), its
    calls as step functions that interrupts can come between. \<open>Uart_Correct\<close>: its rings as queues of characters, which the
    interrupt handlers move in order; \<open>Uart_Calls\<close>: a writer and a reader among interrupts; \<open>Uart_Events\<close>: the handler
    ends, and what an event left from earlier does to a blocking call.
  \<^item> \<open>Util\<close>, \<open>Throttle_Data\<close>, \<open>Pwm_Gen\<close>, \<open>Eng_Trans\<close>, \<open>Mem_Manager\<close>: \<open>util.c\<close>, \<open>throttle_data.c\<close>,
    \<open>pwm_gen.c\<close> (locale \<open>shadow_register\<close>), \<open>eng_trans_data.c\<close>, \<open>mem_manager.c\<close>.
  \<^item> \<open>App_State\<close>: the state of the application, which extends that of the alarms and contains the kernel.
    \<open>Throttle_Control\<close>, \<open>Solenoid\<close>, \<open>Failure_Handler\<close>: the tasks. \<open>Interrupts\<close>: the interrupts with the
    alarm callbacks. \<open>App_Kernel\<close>: what the kernel calls of the tasks keep. \<open>Throttle_Correct\<close>,
    \<open>Task_Correct\<close>, \<open>Failure_Correct\<close>: the properties of the tasks.
  \<^item> \<open>Sys_Kernel\<close>, \<open>Sys_Step\<close>, \<open>Sys_Inv\<close>: what a kernel call of the running program leaves, and the invariant \<open>sys_ok\<close> of
    the whole program. \<open>Sys_Throttle\<close>, \<open>Sys_Failure\<close>, \<open>Sys_Solenoid\<close>, \<open>Sys_Intr\<close>: each stretch of a
    task's code, from one point where it can lose the processor to the next, and each interrupt keeps it, and the
    stretches of the tasks return.
    \<open>System\<close>: the program as a transition system. \<open>Sys_Boot\<close>: from power-up to the first state of that system.
    \<open>Sys_Correct\<close>: the properties of every reachable state.

  \<^bold>\<open>The running program.\<close> A state of \<open>system\<close> is the application with its kernel, the point of the statistics task
  and the interrupt controller. A step is a turn of the task the kernel has chosen, an interrupt (with the readings of the
  pending lines, so with any number of timer and button lines in any order), or a change of the inputs.
  Interrupts are taken between two stretches, not inside one; the start-up (\<open>alt_main\<close>, then the code of the three tasks before
  their loops) runs without interrupts. A turn of a task gets stuck only where the program has an error: when \<open>malloc\<close> returns null
  for a shift request, or when the throttle task comes upon a shift request that has been freed already. The invariant says that
  the kernel is consistent and its ready task of the smallest priority number runs, that each handle is of its type, that a
  task waits only for what its program point names, that the solenoid task gets no message for a button but the address of
  the interrupt's variable, that the gear is in range and shown, that the
  motor's software copies agree with the registers, and that the motor has no torque while a failure is held.

  \<^bold>\<open>Interfaces.\<close> A locale states each contract once and is interpreted on the model in the theory that
  provides it: \<open>priority_set\<close> (what the scheduler needs of the bitmaps), \<open>bounded_queue\<close> (what the
  queues need of the ring buffer), \<open>shadow_register\<close> (software copies of PWM registers), and
  \<open>alarm_callbacks\<close> (what a callback may do to the list that \<open>alt_tick\<close> is walking).

  \<^bold>\<open>Bounds.\<close> Loops with a bound in the code are structural recursion on it or on the list they walk; the
  unbounded ones (\<open>drain_flag\<close>, the walk of the alarms, the walk of the task list in the tick, the wake-up of all
  waiting tasks, the search for a pending line) are partial functions, and the theorems show that they return; the loops of
  \<open>OSFlagDel\<close> and \<open>OSTaskStkChk\<close> (\<open>flag_del_loop\<close>, \<open>count_zero\<close>) are partial functions without such a theorem. The loops of the JTAG UART's
  handler use up the readings of its registers, on which they recurse; its calls are steps, so that a call that waits or
  spins takes steps for as long as it does. No fuel is used.
  That the timer interrupt completes is shown for a consistent list of alarms; since an expired watchdog is freed twice, the
  list need not stay consistent, and the properties of reachable states speak of the interrupts that complete.
  The priority table has 21 entries (\<open>OS_LOWEST_PRIO\<close> is 20), the pools have 12 task control blocks, 60
  event control blocks and 20 queues.

  \<^bold>\<open>Not modelled.\<close> The timers (\<open>os_tmr.c\<close>, compiled out: \<open>OS_TMR_EN\<close> is 0 in \<open>system.h\<close>), the debugger's
  tables (\<open>os_dbg.c\<close>), the hooks (empty), the registers and stacks of the processor beyond the initial
  frame, the drivers and the console and file layers of the HAL, and the tests. In
  \<open>system\<close> and in the start-up the JTAG UART is left out, with its interrupt, its alarm and its kernel objects: \<open>printf\<close>,
  through the C library and the file descriptors, would call the driver and can wait for it, so the turns of the tasks are
  those of a program whose messages go nowhere. In the program the initialisation of the driver comes before \<open>main\<close> and takes the
  next two event blocks, an alarm and interrupt line 1; \<open>main_starts\<close> therefore holds for any number of event blocks in use, and
  \<open>sys_ok\<close> speaks of the handles, not of their numbers. The driver is modelled by itself; its small form, which the build does
  not select, is not. Memory is not shared between the kernel's stores: the overrun of a
  queue's buffer is stated by addresses.
\<close>

end
